(* ===== verification/Prelude.thy ===== *)
theory Prelude
  imports Main "HOL-Library.Signed_Division"
begin

text \<open>
  Shared vocabulary of the development.

  \<^item> A function of the source that can throw returns a sum: \<open>Inl e\<close> for the error that is
    thrown, \<open>Inr v\<close> for the value that is returned. \<open>rbind\<close> runs one such step after another
    and stops at the first error, as an exception does.
  \<^item> A JavaScript \<open>bigint\<close> is an \<open>int\<close>; its division truncates towards zero, which is
    \<open>sdiv\<close> of \<open>HOL-Library.Signed_Division\<close>.
  \<^item> A database table is a list of rows. The lemmas on \<open>find\<close>, on conditional \<open>map\<close> and on
    sums over them carry the proofs about the ledger.
\<close>

section \<open>Collections of facts\<close>

named_theorems rsimps \<open>equations that run the error monad forwards\<close>
named_theorems rdest \<open>what a successful run of the error monad says of its parts\<close>

section \<open>Results: a value or the error thrown\<close>

type_synonym ('e, 'a) res = "'e + 'a"

definition rbind :: "('e, 'a) res \<Rightarrow> ('a \<Rightarrow> ('e, 'b) res) \<Rightarrow> ('e, 'b) res" where
  "rbind m k = (case m of Inl e \<Rightarrow> Inl e | Inr v \<Rightarrow> k v)"

definition guard_or :: "bool \<Rightarrow> 'e \<Rightarrow> ('e, unit) res" where
  "guard_or b e = (if b then Inr () else Inl e)"

lemma rbind_Inl [simp, rsimps]: "rbind (Inl e) k = Inl e"
  by (simp add: rbind_def)

lemma rbind_Inr [simp, rsimps]: "rbind (Inr v) k = k v"
  by (simp add: rbind_def)

lemma rbind_eq_Inr: "rbind m k = Inr r \<longleftrightarrow> (\<exists>v. m = Inr v \<and> k v = Inr r)"
  by (cases m) simp_all

lemma rbind_eq_Inl: "rbind m k = Inl e \<longleftrightarrow> m = Inl e \<or> (\<exists>v. m = Inr v \<and> k v = Inl e)"
  by (cases m) simp_all

lemma rbindE [rdest, elim]:
  assumes "rbind m k = Inr r"
  obtains v where "m = Inr v" and "k v = Inr r"
  using assms by (auto simp: rbind_eq_Inr)

lemma guard_or_eq_Inr [simp, rdest]: "guard_or b e = Inr u \<longleftrightarrow> b"
  by (simp add: guard_or_def)

lemma guard_or_eq_Inl [simp, rdest]: "guard_or b e = Inl e' \<longleftrightarrow> \<not> b \<and> e' = e"
  by (auto simp: guard_or_def)

lemma guard_or_True [simp, rsimps]: "guard_or True e = Inr ()"
  by (simp add: guard_or_def)

lemma guard_or_False [simp, rsimps]: "guard_or False e = Inl e"
  by (simp add: guard_or_def)

section \<open>Steps with an effect\<close>

text \<open>A step that can throw and leaves a state behind either way.\<close>

type_synonym ('e, 'a, 's) io = "('e, 'a) res \<times> 's"

definition io_bind :: "('e, 'a, 's) io \<Rightarrow> ('a \<Rightarrow> 's \<Rightarrow> ('e, 'b, 's) io) \<Rightarrow> ('e, 'b, 's) io" where
  "io_bind m k = (case m of (Inl e, s) \<Rightarrow> (Inl e, s) | (Inr v, s) \<Rightarrow> k v s)"

lemma io_bind_simps [simp, rsimps]:
  "io_bind (Inl e, s) k = (Inl e, s)" "io_bind (Inr v, s) k = k v s"
  by (simp_all add: io_bind_def)

lemma io_bind_eq_Inr:
  "io_bind m k = (Inr r, s') \<longleftrightarrow> (\<exists>v s. m = (Inr v, s) \<and> k v s = (Inr r, s'))"
  by (cases m; cases "fst m") (auto simp: io_bind_def)

section \<open>Division of big integers\<close>

lemma sdiv_nonneg [simp]:
  fixes a b :: int
  assumes "0 \<le> a" and "0 < b"
  shows "a sdiv b = a div b"
  using assms by (cases "a = 0") (simp_all add: signed_divide_int_def)

lemma sdiv_one_right [simp]: "(a::int) sdiv 1 = a"
  by (simp add: signed_divide_int_def sgn_if)

text \<open>A share of at most the whole is at most the whole and not negative.\<close>

lemma bps_share_bounds:
  fixes a r d :: int
  assumes "0 \<le> a" and "0 \<le> r" and "r \<le> d" and "0 < d"
  shows "0 \<le> a * r sdiv d" and "a * r sdiv d \<le> a"
proof -
  have eq: "a * r sdiv d = a * r div d"
    using assms by simp
  show "0 \<le> a * r sdiv d"
    using assms by (simp add: eq pos_imp_zdiv_nonneg_iff)
  have "a * r \<le> a * d"
    using assms by (intro mult_left_mono) auto
  then have "a * r div d \<le> a * d div d"
    using assms by (intro zdiv_mono1) auto
  then show "a * r sdiv d \<le> a"
    using assms by (simp add: eq)
qed

section \<open>Tables as lists of rows\<close>

definition upd_rows :: "('a \<Rightarrow> bool) \<Rightarrow> ('a \<Rightarrow> 'a) \<Rightarrow> 'a list \<Rightarrow> 'a list" where
  "upd_rows P f xs = map (\<lambda>x. if P x then f x else x) xs"

lemma upd_rows_Nil [simp]: "upd_rows P f [] = []"
  by (simp add: upd_rows_def)

lemma upd_rows_Cons [simp]:
  "upd_rows P f (x # xs) = (if P x then f x else x) # upd_rows P f xs"
  by (simp add: upd_rows_def)

lemma length_upd_rows [simp]: "length (upd_rows P f xs) = length xs"
  by (simp add: upd_rows_def)

lemma upd_rows_none: "(\<And>x. x \<in> set xs \<Longrightarrow> \<not> P x) \<Longrightarrow> upd_rows P f xs = xs"
  by (induction xs) auto

text \<open>Updating columns other than \<open>key\<close> keeps the column \<open>key\<close>.\<close>

lemma map_key_upd_rows:
  assumes "\<And>x. key (f x) = key x"
  shows "map key (upd_rows P f xs) = map key xs"
  using assms by (induction xs) auto

lemma set_upd_rows:
  "y \<in> set (upd_rows P f xs) \<longleftrightarrow> (\<exists>x \<in> set xs. y = (if P x then f x else x))"
  by (auto simp: upd_rows_def)

lemma find_SomeD:
  assumes "find P xs = Some x"
  shows "x \<in> set xs" and "P x"
  using assms by (auto simp: find_Some_iff in_set_conv_nth)

lemma find_NoneD: "find P xs = None \<Longrightarrow> x \<in> set xs \<Longrightarrow> \<not> P x"
  by (simp add: find_None_iff)

text \<open>With a unique key, a row found by its key is the only row of that key.\<close>

lemma distinct_key_eq:
  assumes "distinct (map key xs)" and "x \<in> set xs" and "y \<in> set xs" and "key x = key y"
  shows "x = y"
  using assms by (auto simp: distinct_map inj_on_def)

lemma find_key:
  assumes "distinct (map key xs)" and "x \<in> set xs" and "key x = k"
  shows "find (\<lambda>y. key y = k) xs = Some x"
  using assms by (induction xs) (auto simp: image_iff)

lemma find_upd_rows_other:
  assumes "\<And>x. key (f x) = key x" and "\<And>x. P x \<Longrightarrow> key x \<noteq> k"
  shows "find (\<lambda>x. key x = k) (upd_rows P f xs) = find (\<lambda>x. key x = k) xs"
  using assms by (induction xs) auto

lemma find_upd_rows_same:
  assumes "\<And>x. key (f x) = key x"
  shows "find (\<lambda>x. key x = k) (upd_rows P f xs)
       = map_option (\<lambda>x. if P x then f x else x) (find (\<lambda>x. key x = k) xs)"
  using assms by (induction xs) auto

text \<open>Changing the one row with key \<open>k\<close> changes a column sum by that row's change.\<close>

lemma sum_upd_key:
  fixes g :: "'a \<Rightarrow> int"
  assumes "distinct (map key xs)" and "x \<in> set xs" and "key x = k"
  shows "sum_list (map g (upd_rows (\<lambda>y. key y = k) f xs)) = sum_list (map g xs) - g x + g (f x)"
  using assms
proof (induction xs)
  case Nil
  then show ?case by simp
next
  case (Cons y ys)
  show ?case
  proof (cases "key y = k")
    case True
    with Cons.prems have "y = x" and rest: "\<And>z. z \<in> set ys \<Longrightarrow> key z \<noteq> k"
      by (auto simp: image_iff)
    moreover have "upd_rows (\<lambda>y. key y = k) f ys = ys"
      by (rule upd_rows_none) (use rest in auto)
    ultimately show ?thesis using True by simp
  next
    case False
    with Cons show ?thesis by auto
  qed
qed

lemma sum_list_filter_split:
  fixes g :: "'a \<Rightarrow> int"
  shows "sum_list (map g (filter P xs)) + sum_list (map g (filter (\<lambda>x. \<not> P x) xs)) = sum_list (map g xs)"
  by (induction xs) auto

lemma sum_list_nonneg_le_member:
  fixes g :: "'a \<Rightarrow> int"
  assumes "\<And>x. x \<in> set xs \<Longrightarrow> 0 \<le> g x" and "x \<in> set xs"
  shows "g x \<le> sum_list (map g xs)"
  using assms
proof (induction xs)
  case Nil
  then show ?case by simp
next
  case (Cons y ys)
  have "0 \<le> sum_list (map g ys)"
    using Cons.prems by (intro sum_list_nonneg) auto
  with Cons show ?case by (auto simp: add_increasing)
qed

section \<open>Lists\<close>

text \<open>The index loop of the source with an early exit: the first position satisfying \<open>P\<close>.\<close>

fun find_index_from :: "nat \<Rightarrow> ('a \<Rightarrow> bool) \<Rightarrow> 'a list \<Rightarrow> nat option" where
  "find_index_from i P [] = None"
| "find_index_from i P (x # xs) = (if P x then Some i else find_index_from (Suc i) P xs)"

abbreviation find_index :: "('a \<Rightarrow> bool) \<Rightarrow> 'a list \<Rightarrow> nat option" where
  "find_index P xs \<equiv> find_index_from 0 P xs"

lemma find_index_from_Some:
  assumes "find_index_from i P xs = Some j"
  shows "i \<le> j" and "j < i + length xs" and "P (xs ! (j - i))"
proof -
  have "i \<le> j \<and> j < i + length xs \<and> P (xs ! (j - i))"
    using assms
  proof (induction xs arbitrary: i)
    case Nil
    then show ?case by simp
  next
    case (Cons x xs)
    show ?case
    proof (cases "P x")
      case True
      with Cons.prems show ?thesis by simp
    next
      case False
      with Cons.prems have "find_index_from (Suc i) P xs = Some j" by simp
      from Cons.IH [OF this] show ?thesis
        by (auto simp: nth_Cons' Suc_diff_le)
    qed
  qed
  then show "i \<le> j" and "j < i + length xs" and "P (xs ! (j - i))" by auto
qed

lemma find_index_from_None: "find_index_from i P xs = None \<longleftrightarrow> (\<forall>x \<in> set xs. \<not> P x)"
  by (induction xs arbitrary: i) auto

lemma distinct_map_filter: "distinct (map f xs) \<Longrightarrow> distinct (map f (filter P xs))"
  by (induction xs) auto

lemma distinct_map_snoc:
  "distinct (map f (xs @ [x])) \<longleftrightarrow> distinct (map f xs) \<and> f x \<notin> f ` set xs"
  by auto

section \<open>Decimal numerals\<close>

text \<open>What a template string prints for a natural number.\<close>

definition digit :: "nat \<Rightarrow> char" where
  "digit n = ''0123456789'' ! n"

fun show_nat :: "nat \<Rightarrow> string" where
  "show_nat n = (if n < 10 then [digit n] else show_nat (n div 10) @ [digit (n mod 10)])"

declare show_nat.simps [simp del]

lemma digit_inj: "m < 10 \<Longrightarrow> n < 10 \<Longrightarrow> digit m = digit n \<Longrightarrow> m = n"
  unfolding digit_def by (subst (asm) nth_eq_iff_index_eq) simp_all

lemma show_nat_not_Nil [simp]: "show_nat n \<noteq> []" "[] \<noteq> show_nat n"
  by (subst show_nat.simps, simp)+

lemma show_nat_inj: "show_nat m = show_nat n \<Longrightarrow> m = n"
proof (induction m arbitrary: n rule: show_nat.induct)
  case (1 m)
  show ?case
  proof (cases "m < 10 \<or> n < 10")
    case True
    with 1(2) have "m < 10" "n < 10"
      by (auto simp: show_nat.simps [of m] show_nat.simps [of n] split: if_splits)
    with 1(2) show ?thesis by (auto simp: show_nat.simps intro: digit_inj)
  next
    case False
    with 1(2) have d: "show_nat (m div 10) = show_nat (n div 10)" "digit (m mod 10) = digit (n mod 10)"
      by (auto simp: show_nat.simps [of m] show_nat.simps [of n])
    from False d(1) have "m div 10 = n div 10" by (intro 1(1)) auto
    moreover from d(2) have "m mod 10 = n mod 10" by (intro digit_inj) auto
    ultimately show ?thesis by (metis div_mult_mod_eq)
  qed
qed

end
