(* ===== verification/Tiers.thy ===== *)
theory Tiers
  imports Prelude Complex_Main
begin

text \<open>
  The seven rooms (\<open>packages/protocol/src/tiers.ts\<close>): the published tier table and its
  lookups. Lamport amounts are \<open>bigint\<close> in the source and \<open>int\<close> here; counts of players are
  naturals, with \<open>None\<close> for a limit of \<open>null\<close>.
\<close>

definition LAMPORTS_PER_SOL :: int where
  "LAMPORTS_PER_SOL = 1000000000"

text \<open>
  \<open>BigInt(Math.round(value * 1000)) * LAMPORTS_PER_SOL / 1000n\<close>. \<open>Math.round\<close> rounds halves
  upwards, which is \<open>round\<close> of HOL; the values it is used on are exact thousandths.
\<close>

definition sol :: "rat \<Rightarrow> int" where
  "sol v = (round (v * 1000) * LAMPORTS_PER_SOL) sdiv 1000"

record room_tier =
  t_id :: string
  t_name :: string
  entryFeeLamports :: int
  minPlayers :: nat
  maxPlayers :: "nat option"
  rakeBps :: nat
  countdownSeconds :: int
  readyCountdownSeconds :: int
  description :: string

definition ROOM_TIERS :: "room_tier list" where
  "ROOM_TIERS =
    [\<lparr> t_id = ''practice'', t_name = ''Practice Pit'', entryFeeLamports = 0, minPlayers = 1,
       maxPlayers = None, rakeBps = 0, countdownSeconds = 10, readyCountdownSeconds = 5,
       description = ''Free play. No stakes, no payouts.'' \<rparr>,
     \<lparr> t_id = ''bronze'', t_name = ''Bronze Arena'', entryFeeLamports = sol (1/100), minPlayers = 2,
       maxPlayers = None, rakeBps = 1000, countdownSeconds = 45, readyCountdownSeconds = 5,
       description = ''Entry-level stakes.'' \<rparr>,
     \<lparr> t_id = ''silver'', t_name = ''Silver Arena'', entryFeeLamports = sol (5/100), minPlayers = 2,
       maxPlayers = None, rakeBps = 1000, countdownSeconds = 45, readyCountdownSeconds = 5,
       description = ''A step up.'' \<rparr>,
     \<lparr> t_id = ''gold'', t_name = ''Gold Arena'', entryFeeLamports = sol (1/10), minPlayers = 2,
       maxPlayers = None, rakeBps = 1000, countdownSeconds = 45, readyCountdownSeconds = 5,
       description = ''Serious stakes.'' \<rparr>,
     \<lparr> t_id = ''platinum'', t_name = ''Platinum Arena'', entryFeeLamports = sol (5/10), minPlayers = 2,
       maxPlayers = None, rakeBps = 1000, countdownSeconds = 45, readyCountdownSeconds = 5,
       description = ''High stakes, smaller field.'' \<rparr>,
     \<lparr> t_id = ''diamond'', t_name = ''Diamond Arena'', entryFeeLamports = sol 1, minPlayers = 2,
       maxPlayers = None, rakeBps = 1000, countdownSeconds = 45, readyCountdownSeconds = 5,
       description = ''For confident players.'' \<rparr>,
     \<lparr> t_id = ''whale'', t_name = ''Whale's Deep'', entryFeeLamports = sol 5, minPlayers = 2,
       maxPlayers = None, rakeBps = 1000, countdownSeconds = 45, readyCountdownSeconds = 5,
       description = ''The highest stakes on the board.'' \<rparr>]"

text \<open>\<open>new Map(entries)\<close> keeps the last entry of a repeated key, hence the \<open>rev\<close>.\<close>

definition BY_ID :: "string \<rightharpoonup> room_tier" where
  "BY_ID = map_of (rev (map (\<lambda>tier. (t_id tier, tier)) ROOM_TIERS))"

definition getTier :: "string \<Rightarrow> room_tier option" where
  "getTier i = BY_ID i"

datatype tier_error = UnknownTier string

definition requireTier :: "string \<Rightarrow> (tier_error, room_tier) res" where
  "requireTier i = (case BY_ID i of None \<Rightarrow> Inl (UnknownTier i) | Some tier \<Rightarrow> Inr tier)"

definition TIER_IDS :: "string list" where
  "TIER_IDS = map t_id ROOM_TIERS"

definition affordableTiers :: "int \<Rightarrow> room_tier list" where
  "affordableTiers spendableLamports = filter (\<lambda>tier. entryFeeLamports tier \<le> spendableLamports) ROOM_TIERS"

section \<open>Facts\<close>

lemma sol_values [simp]:
  "sol (1/100) = 10000000" "sol (1/20) = 50000000" "sol (1/10) = 100000000"
  "sol (1/2) = 500000000" "sol 1 = 1000000000" "sol 5 = 5000000000"
  by (simp_all add: sol_def LAMPORTS_PER_SOL_def round_def floor_eq_iff)

lemma TIER_IDS_eq:
  "TIER_IDS = [''practice'', ''bronze'', ''silver'', ''gold'', ''platinum'', ''diamond'', ''whale'']"
  by (simp add: TIER_IDS_def ROOM_TIERS_def)

lemma distinct_TIER_IDS: "distinct TIER_IDS"
  by (simp add: TIER_IDS_eq)

lemma BY_ID_eq_Some: "BY_ID i = Some tier \<longleftrightarrow> tier \<in> set ROOM_TIERS \<and> t_id tier = i"
proof -
  have "distinct (map fst (rev (map (\<lambda>tier. (t_id tier, tier)) ROOM_TIERS)))"
    using distinct_TIER_IDS by (simp add: TIER_IDS_def rev_map [symmetric] comp_def)
  then have "BY_ID i = Some tier \<longleftrightarrow> (i, tier) \<in> set (rev (map (\<lambda>tier. (t_id tier, tier)) ROOM_TIERS))"
    unfolding BY_ID_def by (rule map_of_eq_Some_iff)
  then show ?thesis by auto
qed

lemma BY_ID_eq_None: "BY_ID i = None \<longleftrightarrow> i \<notin> set TIER_IDS"
proof -
  have "BY_ID i = None \<longleftrightarrow> (\<forall>tier. BY_ID i \<noteq> Some tier)" by simp
  then show ?thesis by (auto simp: BY_ID_eq_Some TIER_IDS_def)
qed

lemma requireTier_Inr: "requireTier i = Inr tier \<longleftrightarrow> tier \<in> set ROOM_TIERS \<and> t_id tier = i"
  by (simp add: requireTier_def BY_ID_eq_Some [symmetric] split: option.splits)

lemma requireTier_Inl: "requireTier i = Inl e \<longleftrightarrow> i \<notin> set TIER_IDS \<and> e = UnknownTier i"
  by (auto simp: requireTier_def BY_ID_eq_None [symmetric] split: option.splits)

lemma tier_bounds:
  assumes "tier \<in> set ROOM_TIERS"
  shows "0 \<le> entryFeeLamports tier" and "1 \<le> minPlayers tier" and "maxPlayers tier = None"
    and "rakeBps tier \<le> 1000" and "0 < readyCountdownSeconds tier"
    and "readyCountdownSeconds tier \<le> countdownSeconds tier"
  using assms by (auto simp: ROOM_TIERS_def)

end
