(* ===== verification/Lobby.thy ===== *)
theory Lobby
  imports Tiers
begin

text \<open>
  The lobby state machine (\<open>packages/lobby/src/state.ts\<close>): \<open>reduceLobby\<close> takes a state, an
  event, the tier and a clock reading, and returns the next state with what it means to the
  caller. \<open>settle\<close> holds every rule on countdowns and launches. Times are epoch milliseconds
  (\<open>int\<close>), \<open>null\<close> is \<open>None\<close>.

  Order of the theory: data, operations, characteristic equations, well-formedness and its
  preservation, rosters, versions, launches, deadlines, runs of events.
\<close>

section \<open>Data\<close>

datatype lobby_status = Waiting | Countdown | Launching | Closed

record lobby_player =
  playerId :: string
  nickname :: string
  wallet :: string
  joinedAt :: int
  ready :: bool

record lobby_state =
  tierId :: string
  status :: lobby_status
  players :: "lobby_player list"
  countdownEndsAt :: "int option"
  gameId :: "string option"
  scheduled :: bool
  version :: nat

text \<open>The player of a \<open>join\<close> comes without the two fields the reducer fills in.\<close>

record join_player =
  jp_id :: string
  jp_nickname :: string
  jp_wallet :: string

datatype lobby_event =
    Join join_player
  | Leave string
  | Ready string bool
  | Tick
  | Launched string
  | Open "string option" bool
  | Close
  | Reset

datatype lobby_rejection =
  LobbyFull | AlreadyJoined | NotJoined | LobbyLaunching | LobbyClosed

record lobby_transition =
  t_state :: lobby_state
  changed :: bool
  rejected :: "lobby_rejection option"
  shouldLaunch :: bool

section \<open>Operations\<close>

definition emptyLobby :: "string \<Rightarrow> lobby_state" where
  "emptyLobby tid = \<lparr> tierId = tid, status = Waiting, players = [], countdownEndsAt = None,
     gameId = None, scheduled = False, version = 0 \<rparr>"

definition unchanged :: "lobby_state \<Rightarrow> lobby_rejection option \<Rightarrow> lobby_transition" where
  "unchanged s r = \<lparr> t_state = s, changed = False, rejected = r, shouldLaunch = False \<rparr>"

definition isAtCapacity :: "nat \<Rightarrow> room_tier \<Rightarrow> bool" where
  "isAtCapacity count tier = (case maxPlayers tier of None \<Rightarrow> False | Some m \<Rightarrow> m \<le> count)"

definition settle :: "lobby_state \<Rightarrow> room_tier \<Rightarrow> int \<Rightarrow> bool \<Rightarrow> lobby_transition" where
  "settle s tier now mutated =
    (let idle = \<lparr> t_state = s, changed = mutated, rejected = None, shouldLaunch = False \<rparr>;
         count = length (players s)
     in
     if scheduled s then idle
     else if count < minPlayers tier then
       (let statusChanged = (status s \<noteq> Waiting \<or> countdownEndsAt s \<noteq> None)
        in \<lparr> t_state = (if statusChanged then s\<lparr>status := Waiting, countdownEndsAt := None\<rparr> else s),
             changed = (mutated \<or> statusChanged), rejected = None, shouldLaunch = False \<rparr>)
     else
       (let everyoneReady = list_all ready (players s);
            atCapacity = isAtCapacity count tier;
            seconds = (if everyoneReady \<or> atCapacity then readyCountdownSeconds tier
                       else countdownSeconds tier);
            candidateDeadline = now + seconds * 1000
        in
        if status s = Waiting then
          \<lparr> t_state = s\<lparr>status := Countdown, countdownEndsAt := Some candidateDeadline\<rparr>,
            changed = True, rejected = None, shouldLaunch = False \<rparr>
        else
          (case (status s, countdownEndsAt s) of
             (Countdown, Some endsAt) \<Rightarrow>
               if endsAt \<le> now then
                 (if 0 < entryFeeLamports tier then
                    (let paid = filter ready (players s)
                     in if length paid < minPlayers tier then
                          \<lparr> t_state = s\<lparr>players := paid, status := Waiting, countdownEndsAt := None\<rparr>,
                            changed = True, rejected = None, shouldLaunch = False \<rparr>
                        else
                          \<lparr> t_state = s\<lparr>players := paid, status := Launching, countdownEndsAt := None\<rparr>,
                            changed = True, rejected = None, shouldLaunch = True \<rparr>)
                  else
                    \<lparr> t_state = s\<lparr>status := Launching, countdownEndsAt := None\<rparr>,
                      changed = True, rejected = None, shouldLaunch = True \<rparr>)
               else if candidateDeadline < endsAt then
                 \<lparr> t_state = s\<lparr>countdownEndsAt := Some candidateDeadline\<rparr>,
                   changed = True, rejected = None, shouldLaunch = False \<rparr>
               else idle
           | _ \<Rightarrow> idle)))"

fun reduceLobby :: "lobby_state \<Rightarrow> lobby_event \<Rightarrow> room_tier \<Rightarrow> int \<Rightarrow> lobby_transition" where
  "reduceLobby s (Join p) tier now =
    (if status s = Launching then unchanged s (Some LobbyLaunching)
     else if status s = Closed then unchanged s (Some LobbyClosed)
     else if list_ex (\<lambda>q. playerId q = jp_id p) (players s) then unchanged s (Some AlreadyJoined)
     else if isAtCapacity (length (players s)) tier then unchanged s (Some LobbyFull)
     else
       (let players' = players s @ [\<lparr> playerId = jp_id p, nickname = jp_nickname p,
                          wallet = jp_wallet p, joinedAt = now, ready = False \<rparr>]
        in settle (s\<lparr>players := players', version := version s + 1\<rparr>) tier now True))"
| "reduceLobby s (Leave pid) tier now =
    (if \<not> list_ex (\<lambda>q. playerId q = pid) (players s) then unchanged s (Some NotJoined)
     else if status s = Launching then unchanged s (Some LobbyLaunching)
     else
       (let players' = filter (\<lambda>q. playerId q \<noteq> pid) (players s)
        in settle (s\<lparr>players := players', version := version s + 1\<rparr>) tier now True))"
| "reduceLobby s (Ready pid r) tier now =
    (case find_index (\<lambda>q. playerId q = pid) (players s) of
       None \<Rightarrow> unchanged s (Some NotJoined)
     | Some index \<Rightarrow>
         if status s = Launching then unchanged s (Some LobbyLaunching)
         else
           (let existing = players s ! index
            in if ready existing = r then unchanged s None
               else
                 (let players' = (players s)[index := existing\<lparr>ready := r\<rparr>]
                  in settle (s\<lparr>players := players', version := version s + 1\<rparr>) tier now True)))"
| "reduceLobby s Tick tier now = settle s tier now False"
| "reduceLobby s (Open g sched) tier now =
    (let base = (if 0 < length (players s) then s else emptyLobby (tierId s))
     in \<lparr> t_state = base\<lparr>status := Waiting, countdownEndsAt := None, gameId := g,
            scheduled := sched, version := version s + 1\<rparr>,
          changed = True, rejected = None, shouldLaunch = False \<rparr>)"
| "reduceLobby s Close tier now =
    (if status s = Launching then unchanged s None
     else \<lparr> t_state = s\<lparr>status := Launching, countdownEndsAt := None, version := version s + 1\<rparr>,
            changed = True, rejected = None, shouldLaunch = False \<rparr>)"
| "reduceLobby s (Launched g) tier now =
    \<lparr> t_state = s\<lparr>status := Launching, gameId := Some g, countdownEndsAt := None,
        version := version s + 1\<rparr>,
      changed = True, rejected = None, shouldLaunch = False \<rparr>"
| "reduceLobby s Reset tier now =
    \<lparr> t_state = (emptyLobby (tierId s))\<lparr>version := version s + 1\<rparr>,
      changed = True, rejected = None, shouldLaunch = False \<rparr>"

text \<open>
  \<open>Math.ceil((endsAt - now) / 1000)\<close> on whole milliseconds is the ceiling of the quotient.
\<close>

definition countdownRemaining :: "lobby_state \<Rightarrow> int \<Rightarrow> int option" where
  "countdownRemaining s now =
    (if status s \<noteq> Countdown then None
     else (case countdownEndsAt s of
             None \<Rightarrow> None
           | Some endsAt \<Rightarrow> Some (max 0 (- ((now - endsAt) div 1000)))))"

definition readyCount :: "lobby_state \<Rightarrow> nat" where
  "readyCount s = length (filter ready (players s))"

definition isJoinable :: "lobby_state \<Rightarrow> room_tier \<Rightarrow> bool" where
  "isJoinable s tier =
    ((status s = Waiting \<or> status s = Countdown) \<and> \<not> isAtCapacity (length (players s)) tier)"

section \<open>Characteristic equations\<close>

lemma unchanged_simps [simp]:
  "t_state (unchanged s r) = s" "changed (unchanged s r) = False"
  "rejected (unchanged s r) = r" "shouldLaunch (unchanged s r) = False"
  by (simp_all add: unchanged_def)

lemma emptyLobby_simps [simp]:
  "tierId (emptyLobby i) = i" "status (emptyLobby i) = Waiting" "players (emptyLobby i) = []"
  "countdownEndsAt (emptyLobby i) = None" "gameId (emptyLobby i) = None"
  "scheduled (emptyLobby i) = False" "version (emptyLobby i) = 0"
  by (simp_all add: emptyLobby_def)

text \<open>What \<open>settle\<close> never touches, and that it never refuses.\<close>

lemma settle_frame [simp]:
  "rejected (settle s tier now m) = None"
  "version (t_state (settle s tier now m)) = version s"
  "tierId (t_state (settle s tier now m)) = tierId s"
  "gameId (t_state (settle s tier now m)) = gameId s"
  "scheduled (t_state (settle s tier now m)) = scheduled s"
  by (simp_all add: settle_def Let_def split: lobby_status.splits option.splits)

text \<open>The branches of \<open>settle\<close>, one equation each.\<close>

lemma settle_scheduled:
  "scheduled s \<Longrightarrow> settle s tier now m
     = \<lparr> t_state = s, changed = m, rejected = None, shouldLaunch = False \<rparr>"
  by (simp add: settle_def)

lemma settle_short:
  assumes "\<not> scheduled s" and "length (players s) < minPlayers tier"
  shows "status (t_state (settle s tier now m)) = Waiting"
    and "countdownEndsAt (t_state (settle s tier now m)) = None"
    and "players (t_state (settle s tier now m)) = players s"
    and "shouldLaunch (settle s tier now m) = False"
    and "changed (settle s tier now m) = (m \<or> status s \<noteq> Waiting \<or> countdownEndsAt s \<noteq> None)"
  using assms by (simp_all add: settle_def Let_def)

lemma settle_start:
  assumes "\<not> scheduled s" and "minPlayers tier \<le> length (players s)" and "status s = Waiting"
  shows "status (t_state (settle s tier now m)) = Countdown"
    and "countdownEndsAt (t_state (settle s tier now m)) =
           Some (now + (if list_all ready (players s) \<or> isAtCapacity (length (players s)) tier
                        then readyCountdownSeconds tier else countdownSeconds tier) * 1000)"
    and "players (t_state (settle s tier now m)) = players s"
    and "shouldLaunch (settle s tier now m) = False"
    and "changed (settle s tier now m) = True"
  using assms by (simp_all add: settle_def Let_def)

lemma settle_expired_free:
  assumes "\<not> scheduled s" and "minPlayers tier \<le> length (players s)" and "status s = Countdown"
    and "countdownEndsAt s = Some d" and "d \<le> now" and "entryFeeLamports tier \<le> 0"
  shows "settle s tier now m = \<lparr> t_state = s\<lparr>status := Launching, countdownEndsAt := None\<rparr>,
           changed = True, rejected = None, shouldLaunch = True \<rparr>"
  using assms by (simp add: settle_def Let_def)

lemma settle_expired_paid:
  assumes "\<not> scheduled s" and "minPlayers tier \<le> length (players s)" and "status s = Countdown"
    and "countdownEndsAt s = Some d" and "d \<le> now" and "0 < entryFeeLamports tier"
  shows "settle s tier now m =
           (if readyCount s < minPlayers tier
            then \<lparr> t_state = s\<lparr>players := filter ready (players s), status := Waiting,
                     countdownEndsAt := None\<rparr>,
                   changed = True, rejected = None, shouldLaunch = False \<rparr>
            else \<lparr> t_state = s\<lparr>players := filter ready (players s), status := Launching,
                     countdownEndsAt := None\<rparr>,
                   changed = True, rejected = None, shouldLaunch = True \<rparr>)"
  using assms by (simp add: settle_def Let_def readyCount_def)

text \<open>The players after \<open>settle\<close> are those before, or those who are ready.\<close>

lemma settle_players:
  "players (t_state (settle s tier now m)) = players s \<or>
   players (t_state (settle s tier now m)) = filter ready (players s)"
  by (auto simp: settle_def Let_def split: lobby_status.splits option.splits)

lemma settle_changed: "m \<Longrightarrow> changed (settle s tier now m)"
  by (simp add: settle_def Let_def split: lobby_status.splits option.splits)

lemma settle_not_changed: "\<not> changed (settle s tier now m) \<Longrightarrow> t_state (settle s tier now m) = s"
proof -
  have "changed (settle s tier now m) \<or> t_state (settle s tier now m) = s"
    by (cases "status s"; cases "countdownEndsAt s") (simp_all add: settle_def Let_def)
  then show "\<not> changed (settle s tier now m) \<Longrightarrow> t_state (settle s tier now m) = s" by blast
qed

section \<open>Well-formedness\<close>

text \<open>
  No player is listed twice, the deadline is set exactly while the lobby counts down, and a
  limited room holds at most its limit.
\<close>

definition lobby_wf :: "room_tier \<Rightarrow> lobby_state \<Rightarrow> bool" where
  "lobby_wf tier s \<longleftrightarrow> distinct (map playerId (players s)) \<and>
     (countdownEndsAt s \<noteq> None \<longleftrightarrow> status s = Countdown) \<and>
     (case maxPlayers tier of None \<Rightarrow> True | Some m \<Rightarrow> length (players s) \<le> m)"

lemma lobby_wfD:
  assumes "lobby_wf tier s"
  shows "distinct (map playerId (players s))"
    and "countdownEndsAt s \<noteq> None \<longleftrightarrow> status s = Countdown"
    and "maxPlayers tier = Some m \<Longrightarrow> length (players s) \<le> m"
  using assms by (auto simp: lobby_wf_def)

lemma lobby_wf_empty: "lobby_wf tier (emptyLobby i)"
  by (simp add: lobby_wf_def split: option.splits)

text \<open>\<open>settle\<close> keeps the roster part and repairs nothing it has to.\<close>

lemma settle_deadline:
  assumes "countdownEndsAt s \<noteq> None \<longleftrightarrow> status s = Countdown"
  shows "countdownEndsAt (t_state (settle s tier now m)) \<noteq> None \<longleftrightarrow>
         status (t_state (settle s tier now m)) = Countdown"
  using assms by (cases "status s"; cases "countdownEndsAt s") (simp_all add: settle_def Let_def)

lemma settle_wf:
  assumes "lobby_wf tier s"
  shows "lobby_wf tier (t_state (settle s tier now m))"
proof -
  from assms have "distinct (map playerId (players (t_state (settle s tier now m))))"
    using settle_players [of s tier now m]
    by (auto simp: lobby_wf_def intro: distinct_map_filter)
  moreover have "length (players (t_state (settle s tier now m))) \<le> length (players s)"
    using settle_players [of s tier now m] by (metis length_filter_le order_refl)
  ultimately show ?thesis
    using assms settle_deadline [of s tier now m]
    by (auto simp: lobby_wf_def split: option.splits intro: le_trans)
qed

lemma list_update_playerId:
  assumes "i < length ps" and "playerId p = playerId (ps ! i)"
  shows "map playerId (ps[i := p]) = map playerId ps"
  using assms by (simp add: map_update list_update_same_conv)

text \<open>The roster edits of \<open>join\<close>, \<open>leave\<close> and \<open>ready\<close> keep well-formedness.\<close>

lemma roster_edit_wf:
  assumes "lobby_wf tier s" and "distinct (map playerId ps)"
    and "\<And>m. maxPlayers tier = Some m \<Longrightarrow> length ps \<le> m"
  shows "lobby_wf tier (s\<lparr>players := ps, version := v\<rparr>)"
  using assms by (auto simp: lobby_wf_def split: option.splits)

lemma reduceLobby_wf:
  assumes wf: "lobby_wf tier s"
  shows "lobby_wf tier (t_state (reduceLobby s e tier now))"
proof (cases e)
  case (Join p)
  let ?q = "\<lparr> playerId = jp_id p, nickname = jp_nickname p, wallet = jp_wallet p,
              joinedAt = now, ready = False \<rparr>"
  have "lobby_wf tier (s\<lparr>players := players s @ [?q], version := version s + 1\<rparr>)"
    if "\<not> list_ex (\<lambda>q. playerId q = jp_id p) (players s)"
      and "\<not> isAtCapacity (length (players s)) tier"
    using that lobby_wfD [OF wf]
    by (intro roster_edit_wf [OF wf]) (auto simp: isAtCapacity_def list_ex_iff)
  with Join show ?thesis using wf by (simp add: Let_def settle_wf)
next
  case (Leave pid)
  have "lobby_wf tier (s\<lparr>players := filter (\<lambda>q. playerId q \<noteq> pid) (players s),
                          version := version s + 1\<rparr>)"
    using lobby_wfD [OF wf]
    by (intro roster_edit_wf [OF wf]) (auto intro: distinct_map_filter order_trans [OF length_filter_le])
  with Leave show ?thesis using wf by (simp add: Let_def settle_wf)
next
  case (Ready pid r)
  show ?thesis
  proof (cases "find_index (\<lambda>q. playerId q = pid) (players s)")
    case None
    with Ready wf show ?thesis by simp
  next
    case (Some i)
    then have i: "i < length (players s)"
      using find_index_from_Some(2) by fastforce
    have "lobby_wf tier (s\<lparr>players := (players s)[i := (players s ! i)\<lparr>ready := r\<rparr>],
                            version := version s + 1\<rparr>)"
      using lobby_wfD [OF wf] i by (intro roster_edit_wf [OF wf]) (auto simp: list_update_playerId)
    with Ready Some show ?thesis using wf by (simp add: Let_def settle_wf)
  qed
next
  case Tick
  then show ?thesis using wf by (simp add: settle_wf)
next
  case (Open g sched)
  then show ?thesis
    using wf by (auto simp: Let_def lobby_wf_def split: option.splits)
qed (use wf in \<open>auto simp: lobby_wf_def split: option.splits\<close>)

section \<open>Refusals and no-ops\<close>

text \<open>A refused event, and an event that reports no change, leave the state as it is.\<close>

lemma reduceLobby_rejected:
  assumes "rejected (reduceLobby s e tier now) = Some r"
  shows "t_state (reduceLobby s e tier now) = s" and "\<not> changed (reduceLobby s e tier now)"
    and "\<not> shouldLaunch (reduceLobby s e tier now)"
  using assms by (cases e; auto simp: Let_def split: if_splits option.splits)+

lemma reduceLobby_not_changed:
  "\<not> changed (reduceLobby s e tier now) \<Longrightarrow> t_state (reduceLobby s e tier now) = s"
  by (cases e) (auto simp: Let_def settle_changed settle_not_changed split: if_splits option.splits)

text \<open>\<open>isJoinable\<close> says exactly when a newcomer's \<open>join\<close> is accepted.\<close>

lemma join_accepted_iff:
  "rejected (reduceLobby s (Join p) tier now) = None \<longleftrightarrow>
     isJoinable s tier \<and> jp_id p \<notin> playerId ` set (players s)"
  by (cases "status s") (auto simp: Let_def isJoinable_def list_ex_iff intro: rev_image_eqI)

text \<open>An accepted \<open>join\<close> adds the newcomer at the end of the queue, not ready, unless the
  countdown had run out in a paid room and the sweep of unpaid players removed them again.\<close>

lemma join_players:
  assumes "rejected (reduceLobby s (Join p) tier now) = None"
  defines "q \<equiv> \<lparr> playerId = jp_id p, nickname = jp_nickname p, wallet = jp_wallet p,
                 joinedAt = now, ready = False \<rparr>"
  shows "players (t_state (reduceLobby s (Join p) tier now)) = players s @ [q] \<or>
         players (t_state (reduceLobby s (Join p) tier now)) = filter ready (players s)"
proof -
  let ?s' = "s\<lparr>players := players s @ [q], version := version s + 1\<rparr>"
  have "t_state (reduceLobby s (Join p) tier now) = t_state (settle ?s' tier now True)"
    using assms by (simp add: Let_def split: if_splits)
  then show ?thesis
    using settle_players [of ?s' tier now True] by (auto simp: q_def)
qed

lemma leave_removes:
  assumes "rejected (reduceLobby s (Leave pid) tier now) = None"
  shows "pid \<notin> playerId ` set (players (t_state (reduceLobby s (Leave pid) tier now)))"
proof -
  let ?s' = "s\<lparr>players := filter (\<lambda>q. playerId q \<noteq> pid) (players s), version := version s + 1\<rparr>"
  have "t_state (reduceLobby s (Leave pid) tier now) = t_state (settle ?s' tier now True)"
    using assms by (simp add: Let_def split: if_splits)
  then show ?thesis
    using settle_players [of ?s' tier now True] by auto
qed

section \<open>Launching\<close>

text \<open>
  A launch comes out of \<open>settle\<close> only: from an unscheduled lobby whose countdown has run out.
\<close>

lemma settle_launch:
  assumes "shouldLaunch (settle s tier now m)"
  shows "\<not> scheduled s" and "status s = Countdown"
    and "\<exists>d. countdownEndsAt s = Some d \<and> d \<le> now"
    and "status (t_state (settle s tier now m)) = Launching"
    and "minPlayers tier \<le> length (players (t_state (settle s tier now m)))"
    and "0 < entryFeeLamports tier \<Longrightarrow>
           players (t_state (settle s tier now m)) = filter ready (players s)"
proof -
  have "\<not> shouldLaunch (settle s tier now m) \<or>
     (\<not> scheduled s \<and> status s = Countdown \<and> (\<exists>d. countdownEndsAt s = Some d \<and> d \<le> now) \<and>
      status (t_state (settle s tier now m)) = Launching \<and>
      minPlayers tier \<le> length (players (t_state (settle s tier now m))) \<and>
      (0 < entryFeeLamports tier \<longrightarrow>
         players (t_state (settle s tier now m)) = filter ready (players s)))"
    by (cases "status s"; cases "countdownEndsAt s") (simp_all add: settle_def Let_def)
  with assms show "\<not> scheduled s" and "status s = Countdown"
    and "\<exists>d. countdownEndsAt s = Some d \<and> d \<le> now"
    and "status (t_state (settle s tier now m)) = Launching"
    and "minPlayers tier \<le> length (players (t_state (settle s tier now m)))"
    and "0 < entryFeeLamports tier \<Longrightarrow>
           players (t_state (settle s tier now m)) = filter ready (players s)"
    by blast+
qed

lemma reduceLobby_launch:
  assumes "shouldLaunch (reduceLobby s e tier now)"
  shows "\<not> scheduled s \<and> status s = Countdown \<and> (\<exists>d. countdownEndsAt s = Some d \<and> d \<le> now) \<and>
         status (t_state (reduceLobby s e tier now)) = Launching \<and>
         minPlayers tier \<le> length (players (t_state (reduceLobby s e tier now))) \<and>
         (0 < entryFeeLamports tier \<longrightarrow> list_all ready (players (t_state (reduceLobby s e tier now))))"
proof -
  have "\<exists>s' m. reduceLobby s e tier now = settle s' tier now m \<and> scheduled s' = scheduled s \<and>
               status s' = status s \<and> countdownEndsAt s' = countdownEndsAt s"
  proof (cases e)
    case (Join p)
    with assms show ?thesis by (auto simp: Let_def split: if_splits intro!: exI)
  next
    case (Leave pid)
    with assms show ?thesis by (auto simp: Let_def split: if_splits intro!: exI)
  next
    case (Ready pid r)
    with assms show ?thesis by (auto simp: Let_def split: if_splits option.splits intro!: exI)
  next
    case Tick
    then show ?thesis by auto
  qed (use assms in \<open>auto simp: Let_def split: if_splits\<close>)
  then obtain s' m where eq: "reduceLobby s e tier now = settle s' tier now m"
    and same: "scheduled s' = scheduled s" "status s' = status s" "countdownEndsAt s' = countdownEndsAt s"
    by blast
  have "shouldLaunch (settle s' tier now m)" using assms eq by simp
  from settle_launch [OF this] show ?thesis by (auto simp: eq same list_all_iff)
qed

section \<open>Deadlines\<close>

text \<open>While a lobby stays in its countdown the deadline never moves outwards.\<close>

lemma settle_deadline_mono:
  assumes "countdownEndsAt s = Some d" and "status s = Countdown"
    and "countdownEndsAt (t_state (settle s tier now m)) = Some d'"
  shows "d' \<le> d"
  using assms by (auto simp: settle_def Let_def split: if_splits)

lemma reduceLobby_deadline_mono:
  assumes "countdownEndsAt s = Some d" and "status s = Countdown"
    and "countdownEndsAt (t_state (reduceLobby s e tier now)) = Some d'"
  shows "d' \<le> d"
proof (cases e)
  case (Join p)
  with assms show ?thesis
    by (auto simp: Let_def split: if_splits intro: settle_deadline_mono [rotated 2])
next
  case (Leave pid)
  with assms show ?thesis
    by (auto simp: Let_def split: if_splits intro: settle_deadline_mono [rotated 2])
next
  case (Ready pid r)
  with assms show ?thesis
    by (auto simp: Let_def split: if_splits option.splits intro: settle_deadline_mono [rotated 2])
next
  case Tick
  with assms show ?thesis by (auto intro: settle_deadline_mono)
next
  case (Open g sched)
  with assms show ?thesis by (simp add: Let_def split: if_splits)
qed (use assms in \<open>auto split: if_splits\<close>)

text \<open>A tick at or after the deadline ends the countdown: it launches, or it empties the queue of
  those who did not pay and waits. It never leaves the lobby counting down.\<close>

lemma expired_tick:
  assumes "lobby_wf tier s" and "status s = Countdown" and "countdownEndsAt s = Some d"
    and "d \<le> now" and "\<not> scheduled s"
  shows "(shouldLaunch (reduceLobby s Tick tier now) \<and>
          status (t_state (reduceLobby s Tick tier now)) = Launching) \<or>
         (\<not> shouldLaunch (reduceLobby s Tick tier now) \<and>
          status (t_state (reduceLobby s Tick tier now)) = Waiting \<and>
          length (players (t_state (reduceLobby s Tick tier now))) < minPlayers tier)"
proof (cases "length (players s) < minPlayers tier")
  case True
  with assms show ?thesis by (simp add: settle_short)
next
  case False
  with assms show ?thesis
    by (cases "0 < entryFeeLamports tier")
       (simp_all add: settle_expired_paid settle_expired_free readyCount_def)
qed

text \<open>Once it waits with too few players, ticking alone changes nothing more.\<close>

lemma waiting_short_tick_idle:
  assumes "lobby_wf tier s" and "status s = Waiting" and "length (players s) < minPlayers tier"
  shows "reduceLobby s Tick tier now = unchanged s None"
  using assms by (auto simp: settle_def Let_def unchanged_def lobby_wf_def)

lemma countdownRemaining_Some:
  "lobby_wf tier s \<Longrightarrow> (countdownRemaining s now \<noteq> None) = (status s = Countdown)"
  by (auto simp: countdownRemaining_def lobby_wf_def split: option.splits)

lemma countdownRemaining_bounds:
  assumes "countdownRemaining s now = Some r" and "countdownEndsAt s = Some d"
  shows "0 \<le> r" and "d - now \<le> r * 1000" and "r = 0 \<longleftrightarrow> d \<le> now"
proof -
  have r: "r = max 0 (- ((now - d) div 1000))"
    using assms by (auto simp: countdownRemaining_def split: if_splits)
  have lo: "(now - d) div 1000 * 1000 \<le> now - d" and hi: "now - d < (now - d) div 1000 * 1000 + 1000"
    using div_mult_mod_eq [of "now - d" 1000] pos_mod_bound [of 1000 "now - d"]
      pos_mod_sign [of 1000 "now - d"] by linarith+
  show "0 \<le> r" by (simp add: r)
  show "d - now \<le> r * 1000" using lo by (auto simp: r max_def)
  show "r = 0 \<longleftrightarrow> d \<le> now" using lo hi by (auto simp: r max_def)
qed

section \<open>Versions\<close>

text \<open>
  The version is the guard of the store's compare-and-set. Every accepted event bumps it by one,
  except \<open>tick\<close>: the transitions that only time causes keep the version they found.
\<close>

lemma tick_keeps_version [simp]:
  "version (t_state (reduceLobby s Tick tier now)) = version s"
  by simp

lemma reduceLobby_version:
  assumes "changed (reduceLobby s e tier now)" and "e \<noteq> Tick"
  shows "version (t_state (reduceLobby s e tier now)) = version s + 1"
  using assms by (cases e) (auto simp: Let_def split: if_splits option.splits)

lemma reduceLobby_version_mono: "version s \<le> version (t_state (reduceLobby s e tier now))"
  by (cases e) (auto simp: Let_def split: option.splits)

lemma reduceLobby_tierId [simp]: "tierId (t_state (reduceLobby s e tier now)) = tierId s"
  by (cases e) (auto simp: Let_def split: option.splits)

section \<open>Runs of events\<close>

text \<open>A lobby in production sees timed events in some order; refused ones leave it alone.\<close>

fun run_lobby :: "room_tier \<Rightarrow> lobby_state \<Rightarrow> (lobby_event \<times> int) list \<Rightarrow> lobby_state" where
  "run_lobby tier s [] = s"
| "run_lobby tier s ((e, now) # es) = run_lobby tier (t_state (reduceLobby s e tier now)) es"

inductive lobby_step :: "room_tier \<Rightarrow> lobby_state \<Rightarrow> lobby_state \<Rightarrow> bool" for tier where
  step: "lobby_step tier s (t_state (reduceLobby s e tier now))"

inductive lobby_reachable :: "room_tier \<Rightarrow> lobby_state \<Rightarrow> bool" for tier where
  init: "lobby_reachable tier (emptyLobby (t_id tier))"
| next_state: "lobby_reachable tier s \<Longrightarrow> lobby_step tier s s' \<Longrightarrow> lobby_reachable tier s'"

inductive_cases lobby_stepE: "lobby_step tier s s'"

lemma lobby_step_wf: "lobby_step tier s s' \<Longrightarrow> lobby_wf tier s \<Longrightarrow> lobby_wf tier s'"
  by (auto elim: lobby_stepE intro: reduceLobby_wf)

lemma lobby_reachable_wf: "lobby_reachable tier s \<Longrightarrow> lobby_wf tier s"
  by (induction rule: lobby_reachable.induct) (auto intro: lobby_wf_empty lobby_step_wf)

lemma lobby_reachable_tierId: "lobby_reachable tier s \<Longrightarrow> tierId s = t_id tier"
  by (induction rule: lobby_reachable.induct) (auto elim: lobby_stepE)

lemma run_lobby_reachable:
  "lobby_reachable tier s \<Longrightarrow> lobby_reachable tier (run_lobby tier s es)"
proof (induction es arbitrary: s)
  case Nil
  then show ?case by simp
next
  case (Cons x es)
  obtain e now where x: "x = (e, now)" by (cases x)
  have "lobby_reachable tier (t_state (reduceLobby s e tier now))"
    by (rule next_state [OF Cons.prems step])
  from Cons.IH [OF this] show ?case by (simp add: x)
qed

end
