(* ===== verification/Lobby_Store.thy ===== *)
theory Lobby_Store
  imports Lobby
begin

text \<open>
  Lobby persistence (\<open>packages/lobby/src/store.ts\<close> and \<open>redis-store.ts\<close>): the interface
  \<open>LobbyStore\<close> as a record of operations, its contract as a locale, and the two providers of
  the code. The in-memory store keeps a map from tier to state; the Redis store keeps payloads
  under string keys and compares and sets through a script. A stored Redis payload is the JSON
  text of a state or a text that does not parse, so it is modelled by what parsing it gives.
\<close>

section \<open>The interface\<close>

datatype store_error = CorruptPayload

record 'st store_ops =
  load :: "'st \<Rightarrow> string \<Rightarrow> lobby_state"
  save :: "'st \<Rightarrow> lobby_state \<Rightarrow> nat \<Rightarrow> (store_error, bool \<times> 'st) res"
  findPlayerLobby :: "'st \<Rightarrow> string \<Rightarrow> string option"
  setPlayerLobby :: "'st \<Rightarrow> string \<Rightarrow> string option \<Rightarrow> 'st"

definition loadAll :: "'st store_ops \<Rightarrow> 'st \<Rightarrow> string list \<Rightarrow> lobby_state list" where
  "loadAll ops st tierIds = map (load ops st) tierIds"

text \<open>
  The compare-and-set half of the contract: a save succeeds exactly when the stored version is the
  expected one, a successful save is what later loads of that tier return, a failed one changes
  nothing, and other tiers are not concerned.
\<close>

locale cas_store =
  fixes ops :: "'st store_ops"
    and ok :: "'st \<Rightarrow> bool"
  assumes load_tier: "ok st \<Longrightarrow> tierId (load ops st t) = t"
    and save_hit: "ok st \<Longrightarrow> version (load ops st (tierId s)) = v \<Longrightarrow>
          \<exists>st'. save ops st s v = Inr (True, st') \<and> ok st' \<and>
                (\<forall>t. load ops st' t = (if t = tierId s then s else load ops st t)) \<and>
                (\<forall>p. findPlayerLobby ops st' p = findPlayerLobby ops st p)"
    and save_miss: "ok st \<Longrightarrow> version (load ops st (tierId s)) \<noteq> v \<Longrightarrow>
          save ops st s v = Inr (False, st)"
begin

lemma save_cases:
  assumes "ok st" and "save ops st s v = Inr (b, st')"
  shows "b \<longleftrightarrow> version (load ops st (tierId s)) = v" and "ok st'"
    and "b \<Longrightarrow> load ops st' (tierId s) = s" and "\<not> b \<Longrightarrow> st' = st"
    and "t \<noteq> tierId s \<Longrightarrow> load ops st' t = load ops st t"
    and "findPlayerLobby ops st' p = findPlayerLobby ops st p"
  using assms save_hit [of st s v] save_miss [of st s v]
  by (cases "version (load ops st (tierId s)) = v"; auto)+

lemma save_total: "ok st \<Longrightarrow> \<exists>b st'. save ops st s v = Inr (b, st')"
  using save_hit save_miss by blast

text \<open>Of two writers that expect the same version, the second loses if the first bumped it.\<close>

lemma second_writer_loses:
  assumes "ok st" and "save ops st s v = Inr (True, st')" and "version s \<noteq> v"
    and "tierId s' = tierId s"
  shows "save ops st' s' v = Inr (False, st')"
  using assms save_cases [OF assms(1,2)] by (intro save_miss) auto

text \<open>It wins, over the first writer's state, if the first left the version as it was.\<close>

lemma second_writer_wins:
  assumes "ok st" and "save ops st s v = Inr (True, st')" and "version s = v"
    and "tierId s' = tierId s"
  shows "\<exists>st''. save ops st' s' v = Inr (True, st'') \<and> ok st''"
  using assms save_cases [OF assms(1,2)] save_hit [of st' s' v] by auto

end

text \<open>The loop \<open>for (const player of players) await store.setPlayerLobby(player.playerId, null)\<close>.\<close>

fun clearPlayers :: "'st store_ops \<Rightarrow> 'st \<Rightarrow> lobby_player list \<Rightarrow> 'st" where
  "clearPlayers ops st [] = st"
| "clearPlayers ops st (p # ps) = clearPlayers ops (setPlayerLobby ops st (playerId p) None) ps"

text \<open>The whole interface adds the index from player to lobby.\<close>

locale lobby_store = cas_store ops ok for ops :: "'st store_ops" and ok :: "'st \<Rightarrow> bool" +
  assumes set_find: "ok st \<Longrightarrow> findPlayerLobby ops (setPlayerLobby ops st p l) q =
            (if q = p then l else findPlayerLobby ops st q)"
    and set_ok: "ok st \<Longrightarrow> ok (setPlayerLobby ops st p l)"
    and set_load: "ok st \<Longrightarrow> load ops (setPlayerLobby ops st p l) t = load ops st t"
begin

lemma clearPlayers_facts:
  assumes "ok st"
  shows "ok (clearPlayers ops st ps)" and "load ops (clearPlayers ops st ps) t = load ops st t"
    and "findPlayerLobby ops (clearPlayers ops st ps) q =
           (if q \<in> playerId ` set ps then None else findPlayerLobby ops st q)"
  using assms by (induction ps arbitrary: st) (auto simp: set_ok set_load set_find)

end

section \<open>The in-memory store\<close>

record mem_store =
  lobbies :: "string \<rightharpoonup> lobby_state"
  playerIndex :: "string \<rightharpoonup> string"
  failNextSave :: bool

definition mem_load :: "mem_store \<Rightarrow> string \<Rightarrow> lobby_state" where
  "mem_load st t = (case lobbies st t of Some existing \<Rightarrow> existing | None \<Rightarrow> emptyLobby t)"

definition mem_save :: "mem_store \<Rightarrow> lobby_state \<Rightarrow> nat \<Rightarrow> (store_error, bool \<times> mem_store) res" where
  "mem_save st s expectedVersion =
    (if failNextSave st then Inr (False, st\<lparr>failNextSave := False\<rparr>)
     else
       (let currentVersion = (case lobbies st (tierId s) of Some c \<Rightarrow> version c | None \<Rightarrow> 0)
        in if currentVersion \<noteq> expectedVersion then Inr (False, st)
           else Inr (True, st\<lparr>lobbies := (lobbies st)(tierId s \<mapsto> s)\<rparr>)))"

definition mem_findPlayerLobby :: "mem_store \<Rightarrow> string \<Rightarrow> string option" where
  "mem_findPlayerLobby st p = playerIndex st p"

definition mem_setPlayerLobby :: "mem_store \<Rightarrow> string \<Rightarrow> string option \<Rightarrow> mem_store" where
  "mem_setPlayerLobby st p l = st\<lparr>playerIndex := (playerIndex st)(p := l)\<rparr>"

definition mem_seed :: "mem_store \<Rightarrow> lobby_state \<Rightarrow> mem_store" where
  "mem_seed st s = st\<lparr>lobbies := (lobbies st)(tierId s \<mapsto> s)\<rparr>"

definition mem_ops :: "mem_store store_ops" where
  "mem_ops = \<lparr> load = mem_load, save = mem_save, findPlayerLobby = mem_findPlayerLobby,
     setPlayerLobby = mem_setPlayerLobby \<rparr>"

definition mem_empty :: mem_store where
  "mem_empty = \<lparr> lobbies = Map.empty, playerIndex = Map.empty, failNextSave = False \<rparr>"

definition mem_ok :: "mem_store \<Rightarrow> bool" where
  "mem_ok st \<longleftrightarrow> \<not> failNextSave st \<and> (\<forall>t s. lobbies st t = Some s \<longrightarrow> tierId s = t)"

lemma mem_ops_simps [simp]:
  "load mem_ops = mem_load" "save mem_ops = mem_save"
  "findPlayerLobby mem_ops = mem_findPlayerLobby" "setPlayerLobby mem_ops = mem_setPlayerLobby"
  by (simp_all add: mem_ops_def)

lemma mem_ok_empty [simp]: "mem_ok mem_empty"
  by (simp add: mem_ok_def mem_empty_def)

lemma mem_ok_seed: "mem_ok st \<Longrightarrow> mem_ok (mem_seed st s)"
  by (auto simp: mem_ok_def mem_seed_def)

lemma mem_load_seed: "mem_load (mem_seed st s) t = (if t = tierId s then s else mem_load st t)"
  by (simp add: mem_load_def mem_seed_def)

lemma mem_version: "(case lobbies st t of Some c \<Rightarrow> version c | None \<Rightarrow> 0) = version (mem_load st t)"
  by (simp add: mem_load_def split: option.splits)

interpretation mem: lobby_store mem_ops mem_ok
  by unfold_locales
     (auto simp: mem_ok_def mem_load_def mem_save_def mem_findPlayerLobby_def
        mem_setPlayerLobby_def Let_def split: option.splits)

section \<open>The Redis store\<close>

datatype payload = Json lobby_state | Corrupt

text \<open>\<open>SET ... EX\<close> keeps a player's entry until a deadline on the server's clock. \<open>r_now\<close> is that clock; no operation of the store moves
  it, so time passes only where an argument, such as the environment of a service, moves it.\<close>

record redis_db =
  r_now :: int
  r_lobby :: "string \<rightharpoonup> payload"
  r_player :: "string \<rightharpoonup> string \<times> int"

definition LOBBY_KEY :: "string \<Rightarrow> string" where
  "LOBBY_KEY t = ''lobby:{'' @ t @ ''}:state''"

definition PLAYER_KEY :: "string \<Rightarrow> string" where
  "PLAYER_KEY p = ''lobby:player:'' @ p"

definition PLAYER_TTL_SECONDS :: int where
  "PLAYER_TTL_SECONDS = 30 * 60"

text \<open>\<open>CAS_SCRIPT\<close>: the number it returns and the database it leaves. Decoding a corrupt
  payload raises, and the script then writes nothing.\<close>

definition CAS_SCRIPT :: "redis_db \<Rightarrow> string \<Rightarrow> payload \<Rightarrow> nat \<Rightarrow> (store_error, int \<times> redis_db) res" where
  "CAS_SCRIPT r key arg expected =
    (let put = Inr (1, r\<lparr>r_lobby := (r_lobby r)(key \<mapsto> arg)\<rparr>)
     in case r_lobby r key of
          None \<Rightarrow> if expected \<noteq> 0 then Inr (0, r) else put
        | Some (Json decoded) \<Rightarrow> if version decoded \<noteq> expected then Inr (0, r) else put
        | Some Corrupt \<Rightarrow> Inl CorruptPayload)"

definition redis_load :: "redis_db \<Rightarrow> string \<Rightarrow> lobby_state" where
  "redis_load r t =
    (case r_lobby r (LOBBY_KEY t) of
       None \<Rightarrow> emptyLobby t
     | Some (Json s) \<Rightarrow> s
     | Some Corrupt \<Rightarrow> emptyLobby t)"

definition redis_save :: "redis_db \<Rightarrow> lobby_state \<Rightarrow> nat \<Rightarrow> (store_error, bool \<times> redis_db) res" where
  "redis_save r s expectedVersion =
    rbind (CAS_SCRIPT r (LOBBY_KEY (tierId s)) (Json s) expectedVersion)
      (\<lambda>(result, r'). Inr (result = 1, r'))"

definition redis_findPlayerLobby :: "redis_db \<Rightarrow> string \<Rightarrow> string option" where
  "redis_findPlayerLobby r p =
    (case r_player r (PLAYER_KEY p) of
       None \<Rightarrow> None
     | Some (t, expiresAt) \<Rightarrow> if r_now r < expiresAt then Some t else None)"

definition redis_setPlayerLobby :: "redis_db \<Rightarrow> string \<Rightarrow> string option \<Rightarrow> redis_db" where
  "redis_setPlayerLobby r p l =
    (case l of
       None \<Rightarrow> r\<lparr>r_player := (r_player r)(PLAYER_KEY p := None)\<rparr>
     | Some t \<Rightarrow> r\<lparr>r_player := (r_player r)(PLAYER_KEY p \<mapsto> (t, r_now r + PLAYER_TTL_SECONDS * 1000))\<rparr>)"

definition redis_ops :: "redis_db store_ops" where
  "redis_ops = \<lparr> load = redis_load, save = redis_save, findPlayerLobby = redis_findPlayerLobby,
     setPlayerLobby = redis_setPlayerLobby \<rparr>"

definition redis_ok :: "redis_db \<Rightarrow> bool" where
  "redis_ok r \<longleftrightarrow> (\<forall>t p. r_lobby r (LOBBY_KEY t) = Some p \<longrightarrow> (\<exists>s. p = Json s \<and> tierId s = t))"

lemma redis_ops_simps [simp]:
  "load redis_ops = redis_load" "save redis_ops = redis_save"
  "findPlayerLobby redis_ops = redis_findPlayerLobby"
  "setPlayerLobby redis_ops = redis_setPlayerLobby"
  by (simp_all add: redis_ops_def)

lemma LOBBY_KEY_inj [simp]: "LOBBY_KEY t = LOBBY_KEY t' \<longleftrightarrow> t = t'"
  by (simp add: LOBBY_KEY_def)

lemma PLAYER_KEY_inj [simp]: "PLAYER_KEY p = PLAYER_KEY p' \<longleftrightarrow> p = p'"
  by (simp add: PLAYER_KEY_def)

lemma redis_okE:
  assumes "redis_ok r"
  obtains "r_lobby r (LOBBY_KEY t) = None" "redis_load r t = emptyLobby t"
  | s where "r_lobby r (LOBBY_KEY t) = Some (Json s)" "tierId s = t" "redis_load r t = s"
  using assms by (cases "r_lobby r (LOBBY_KEY t)") (auto simp: redis_ok_def redis_load_def)

lemma redis_load_tier: "redis_ok r \<Longrightarrow> tierId (redis_load r t) = t"
  by (erule redis_okE [where t = t]) auto

lemma redis_ok_put:
  "redis_ok r \<Longrightarrow> redis_ok (r\<lparr>r_lobby := (r_lobby r)(LOBBY_KEY (tierId s) \<mapsto> Json s)\<rparr>)"
  by (auto simp: redis_ok_def)

lemma redis_load_put:
  "redis_load (r\<lparr>r_lobby := (r_lobby r)(LOBBY_KEY (tierId s) \<mapsto> Json s)\<rparr>) t =
     (if t = tierId s then s else redis_load r t)"
  by (simp add: redis_load_def)

lemma redis_save_eq:
  assumes "redis_ok r"
  shows "redis_save r s v =
    (if version (redis_load r (tierId s)) = v
     then Inr (True, r\<lparr>r_lobby := (r_lobby r)(LOBBY_KEY (tierId s) \<mapsto> Json s)\<rparr>)
     else Inr (False, r))"
  using assms
  by (rule redis_okE [where t = "tierId s"]) (auto simp: redis_save_def CAS_SCRIPT_def)

lemma redis_set:
  "redis_findPlayerLobby (redis_setPlayerLobby r p l) q =
     (if q = p then l else redis_findPlayerLobby r q)"
  "redis_load (redis_setPlayerLobby r p l) t = redis_load r t"
  "redis_ok (redis_setPlayerLobby r p l) = redis_ok r"
  by (simp_all add: redis_findPlayerLobby_def redis_setPlayerLobby_def PLAYER_TTL_SECONDS_def
      redis_load_def redis_ok_def split: option.split)

interpretation redis: lobby_store redis_ops redis_ok
proof unfold_locales
  fix st :: redis_db and s :: lobby_state and v :: nat
  assume ok: "redis_ok st" and hit: "version (load redis_ops st (tierId s)) = v"
  show "\<exists>st'. save redis_ops st s v = Inr (True, st') \<and> redis_ok st' \<and>
         (\<forall>t. load redis_ops st' t = (if t = tierId s then s else load redis_ops st t)) \<and>
         (\<forall>p. findPlayerLobby redis_ops st' p = findPlayerLobby redis_ops st p)"
    using hit by (simp add: redis_save_eq [OF ok] redis_ok_put [OF ok] redis_load_put
        redis_findPlayerLobby_def split: option.split)
qed (simp_all add: redis_load_tier redis_save_eq redis_set)

text \<open>A corrupt payload reads as an empty lobby but cannot be replaced: the script raises.\<close>

lemma redis_corrupt_stuck:
  assumes "r_lobby r (LOBBY_KEY (tierId s)) = Some Corrupt"
  shows "redis_load r (tierId s) = emptyLobby (tierId s)" and "redis_save r s v = Inl CorruptPayload"
  using assms by (simp_all add: redis_load_def redis_save_def CAS_SCRIPT_def)

end
