(* ===== verification/Lobby_Service.thy ===== *)
theory Lobby_Service
  imports Lobby_Store
begin

text \<open>
  The lobby service (\<open>packages/lobby/src/service.ts\<close>): every operation applies one event to one
  lobby under optimistic concurrency. What other replicas write between this replica's read and
  its write is the argument \<open>env\<close>: \<open>env k\<close> acts on the store between the load and the save of the
  attempt number \<open>k\<close>. The clock readings of the attempts are \<open>clock k\<close>; \<open>clockEnd\<close> is the reading
  of the closing summary. \<open>launch\<close> is the callback of the code, which may throw. Handlers return
  what they throw or return together with the store they leave behind and the launch requests
  they made.
\<close>

section \<open>Data\<close>

record launch_request =
  lr_tierId :: string
  lr_players :: "lobby_player list"
  lr_tier :: room_tier
  lr_gameId :: "string option"

record 'st service_deps =
  store :: "'st store_ops"
  launch :: "launch_request \<Rightarrow> (string, string) res"
  clock :: "nat \<Rightarrow> int"
  clockEnd :: int
  env :: "nat \<Rightarrow> 'st \<Rightarrow> 'st"

datatype service_error = UnknownRoom string | TooContended string | StoreFailed store_error

record apply_result =
  ar_state :: lobby_state
  ar_rejected :: "lobby_rejection option"
  ar_launched :: bool

record lobby_summary =
  ls_tierId :: string
  ls_name :: string
  ls_description :: string
  ls_entryFeeLamports :: int
  ls_status :: lobby_status
  ls_playerCount :: nat
  ls_readyCount :: nat
  ls_minPlayers :: nat
  ls_maxPlayers :: "nat option"
  ls_countdownSeconds :: "int option"
  ls_joinable :: bool
  ls_gameId :: "string option"

record join_result =
  jr_ok :: bool
  jr_rejected :: "lobby_rejection option"
  jr_lobby :: "lobby_summary option"

text \<open>An effectful handler: the outcome, the store left behind, the launch requests made.\<close>

type_synonym ('st, 'a) handled = "(service_error, 'a) res \<times> 'st \<times> launch_request list"

definition h_bind :: "('st, 'a) handled \<Rightarrow> ('a \<Rightarrow> 'st \<Rightarrow> ('st, 'b) handled) \<Rightarrow> ('st, 'b) handled" where
  "h_bind m k = (case m of
      (Inl e, st, ls) \<Rightarrow> (Inl e, st, ls)
    | (Inr v, st, ls) \<Rightarrow> (case k v st of (r, st', ls') \<Rightarrow> (r, st', ls @ ls')))"

definition MAX_CAS_ATTEMPTS :: nat where
  "MAX_CAS_ATTEMPTS = 5"

section \<open>Launching\<close>

text \<open>
  The body of the \<open>try\<close>: mark the lobby launched, clear the players' index entries, reset the lobby
  for the next batch. The results of the two saves are ignored, as in the code. Nothing else is written
  between these commands: the environment acts between the load and the save of an event only.
\<close>

definition tryLaunch :: "'st service_deps \<Rightarrow> room_tier \<Rightarrow> lobby_state \<Rightarrow> 'st
    \<Rightarrow> (unit, lobby_state) res \<times> 'st" where
  "tryLaunch d tier s st =
    (case launch d \<lparr> lr_tierId = t_id tier, lr_players = players s, lr_tier = tier,
                     lr_gameId = gameId s \<rparr> of
       Inl e \<Rightarrow> (Inl (), st)
     | Inr g \<Rightarrow>
         (let marked = t_state (reduceLobby s (Launched g) tier (clock d 0))
          in case save (store d) st marked (version s) of
               Inl e \<Rightarrow> (Inl (), st)
             | Inr (b, st1) \<Rightarrow>
                 (let st2 = clearPlayers (store d) st1 (players s);
                      reset = t_state (reduceLobby marked Reset tier (clock d 0))
                  in case save (store d) st2 reset (version marked) of
                       Inl e \<Rightarrow> (Inl (), st2)
                     | Inr (b', st3) \<Rightarrow> (Inr marked, st3))))"

definition performLaunch :: "'st service_deps \<Rightarrow> room_tier \<Rightarrow> lobby_state \<Rightarrow> 'st
    \<Rightarrow> ('st, lobby_state) handled" where
  "performLaunch d tier s st =
    (let req = \<lparr> lr_tierId = t_id tier, lr_players = players s, lr_tier = tier,
                 lr_gameId = gameId s \<rparr>
     in case tryLaunch d tier s st of
          (Inr marked, st') \<Rightarrow> (Inr marked, st', [req])
        | (Inl _, st') \<Rightarrow>
            (let reset = t_state (reduceLobby s Reset tier (clock d 0))
             in case save (store d) st' reset (version s) of
                  Inl e \<Rightarrow> (Inl (StoreFailed e), st', [req])
                | Inr (b, st'') \<Rightarrow> (Inr reset, st'', [req])))"

section \<open>Applying an event\<close>

text \<open>The retry loop: \<open>k\<close> is the attempt, the first argument after the event how many are left.\<close>

fun applyLoop :: "'st service_deps \<Rightarrow> room_tier \<Rightarrow> lobby_event \<Rightarrow> nat \<Rightarrow> nat \<Rightarrow> 'st
    \<Rightarrow> ('st, apply_result) handled" where
  "applyLoop d tier e 0 k st = (Inl (TooContended (t_id tier)), st, [])"
| "applyLoop d tier e (Suc n) k st =
    (let current = load (store d) st (t_id tier);
         result = reduceLobby current e tier (clock d k)
     in case rejected result of
          Some r \<Rightarrow> (Inr \<lparr> ar_state = current, ar_rejected = Some r, ar_launched = False \<rparr>, st, [])
        | None \<Rightarrow>
            if \<not> changed result then
              (Inr \<lparr> ar_state = current, ar_rejected = None, ar_launched = False \<rparr>, st, [])
            else
              (let st1 = env d k st
               in case save (store d) st1 (t_state result) (version current) of
                    Inl err \<Rightarrow> (Inl (StoreFailed err), st1, [])
                  | Inr (saved, st2) \<Rightarrow>
                      if \<not> saved then applyLoop d tier e n (Suc k) st2
                      else if shouldLaunch result then
                        h_bind (performLaunch d tier (t_state result) st2)
                          (\<lambda>launched st3. (Inr \<lparr> ar_state = launched, ar_rejected = None,
                                                ar_launched = True \<rparr>, st3, []))
                      else (Inr \<lparr> ar_state = t_state result, ar_rejected = None,
                                  ar_launched = False \<rparr>, st2, [])))"

definition applyEvent :: "'st service_deps \<Rightarrow> string \<Rightarrow> lobby_event \<Rightarrow> 'st \<Rightarrow> ('st, apply_result) handled" where
  "applyEvent d tid e st =
    (case requireTier tid of
       Inl (UnknownTier i) \<Rightarrow> (Inl (UnknownRoom i), st, [])
     | Inr tier \<Rightarrow> applyLoop d tier e MAX_CAS_ATTEMPTS 0 st)"

section \<open>The public operations\<close>

definition summarize :: "'st service_deps \<Rightarrow> lobby_state \<Rightarrow> lobby_summary option" where
  "summarize d s =
    (case find (\<lambda>entry. t_id entry = tierId s) ROOM_TIERS of
       None \<Rightarrow> None
     | Some tier \<Rightarrow> Some \<lparr> ls_tierId = t_id tier, ls_name = t_name tier,
         ls_description = description tier, ls_entryFeeLamports = entryFeeLamports tier,
         ls_status = status s, ls_playerCount = length (players s), ls_readyCount = readyCount s,
         ls_minPlayers = minPlayers tier, ls_maxPlayers = maxPlayers tier,
         ls_countdownSeconds = countdownRemaining s (clockEnd d), ls_joinable = isJoinable s tier,
         ls_gameId = gameId s \<rparr>)"

definition joinResultOf :: "'st service_deps \<Rightarrow> apply_result \<Rightarrow> join_result" where
  "joinResultOf d r = \<lparr> jr_ok = (ar_rejected r = None), jr_rejected = ar_rejected r,
     jr_lobby = summarize d (ar_state r) \<rparr>"

definition leave :: "'st service_deps \<Rightarrow> string \<Rightarrow> string \<Rightarrow> 'st \<Rightarrow> ('st, join_result) handled" where
  "leave d tid pid st =
    h_bind (applyEvent d tid (Leave pid) st)
      (\<lambda>r st1. let st2 = (if ar_rejected r = None then setPlayerLobby (store d) st1 pid None else st1)
               in (Inr (joinResultOf d r), st2, []))"

definition join :: "'st service_deps \<Rightarrow> string \<Rightarrow> join_player \<Rightarrow> 'st \<Rightarrow> ('st, join_result) handled" where
  "join d tid p st =
    h_bind (case findPlayerLobby (store d) st (jp_id p) of
              Some existing \<Rightarrow>
                if existing \<noteq> [] \<and> existing \<noteq> tid
                then h_bind (leave d existing (jp_id p) st) (\<lambda>_ st1. (Inr (), st1, []))
                else (Inr (), st, [])
            | None \<Rightarrow> (Inr (), st, []))
      (\<lambda>_ st1. h_bind (applyEvent d tid (Join p) st1)
        (\<lambda>r st2. let st3 = (if ar_rejected r = None
                            then setPlayerLobby (store d) st2 (jp_id p) (Some tid) else st2)
                 in (Inr (joinResultOf d r), st3, [])))"

definition setReady :: "'st service_deps \<Rightarrow> string \<Rightarrow> string \<Rightarrow> bool \<Rightarrow> 'st \<Rightarrow> ('st, join_result) handled" where
  "setReady d tid pid r st =
    h_bind (applyEvent d tid (Ready pid r) st) (\<lambda>a st1. (Inr (joinResultOf d a), st1, []))"

definition tick :: "'st service_deps \<Rightarrow> string \<Rightarrow> 'st \<Rightarrow> ('st, bool) handled" where
  "tick d tid st = h_bind (applyEvent d tid Tick st) (\<lambda>a st1. (Inr (ar_launched a), st1, []))"

text \<open>A tick that throws is logged and skipped; the tiers launched are collected in order.\<close>

fun tickTiers :: "'st service_deps \<Rightarrow> string list \<Rightarrow> 'st \<Rightarrow> string list \<times> 'st \<times> launch_request list" where
  "tickTiers d [] st = ([], st, [])"
| "tickTiers d (tid # tids) st =
    (case tick d tid st of
       (r, st1, ls) \<Rightarrow>
         (case tickTiers d tids st1 of
            (launched, st2, ls') \<Rightarrow> ((if r = Inr True then tid # launched else launched), st2, ls @ ls')))"

definition tickAll :: "'st service_deps \<Rightarrow> 'st \<Rightarrow> string list \<times> 'st \<times> launch_request list" where
  "tickAll d st = tickTiers d TIER_IDS st"

definition list_lobbies :: "'st service_deps \<Rightarrow> 'st \<Rightarrow> lobby_summary list" where
  "list_lobbies d st = List.map_filter (summarize d) (loadAll (store d) st TIER_IDS)"

definition get_lobby :: "'st service_deps \<Rightarrow> string \<Rightarrow> 'st \<Rightarrow> lobby_summary option" where
  "get_lobby d tid st = summarize d (load (store d) st tid)"

definition open_lobby :: "'st service_deps \<Rightarrow> string \<Rightarrow> string option \<Rightarrow> bool \<Rightarrow> 'st
    \<Rightarrow> ('st, lobby_summary option) handled" where
  "open_lobby d tid g sched st =
    h_bind (applyEvent d tid (Open g sched) st) (\<lambda>a st1. (Inr (summarize d (ar_state a)), st1, []))"

definition close_lobby :: "'st service_deps \<Rightarrow> string \<Rightarrow> 'st \<Rightarrow> ('st, lobby_summary option) handled" where
  "close_lobby d tid st =
    h_bind (applyEvent d tid Close st) (\<lambda>a st1. (Inr (summarize d (ar_state a)), st1, []))"

definition reset_lobby :: "'st service_deps \<Rightarrow> string \<Rightarrow> 'st \<Rightarrow> ('st, lobby_summary option) handled" where
  "reset_lobby d tid st =
    h_bind (applyEvent d tid Reset st)
      (\<lambda>a st1. (Inr (summarize d (ar_state a)), clearPlayers (store d) st1 (players (ar_state a)), []))"

definition whereIs :: "'st service_deps \<Rightarrow> string \<Rightarrow> 'st \<Rightarrow> string option" where
  "whereIs d pid st = findPlayerLobby (store d) st pid"

section \<open>Running handlers\<close>

lemma h_bind_simps [simp]:
  "h_bind (Inl err, st, ls) f = (Inl err, st, ls)"
  "h_bind (Inr v, st, ls) f = (fst (f v st), fst (snd (f v st)), ls @ snd (snd (f v st)))"
  by (simp_all add: h_bind_def split: prod.split)

lemma h_bindE:
  assumes "h_bind m f = (Inr r, st', ls')"
  obtains v st1 ls1 ls2 where "m = (Inr v, st1, ls1)" and "f v st1 = (Inr r, st', ls2)"
    and "ls' = ls1 @ ls2"
proof (cases m)
  case (fields x st1 ls1)
  show thesis
  proof (cases x)
    case (Inl err)
    with fields assms show thesis by simp
  next
    case (Inr v)
    with fields assms show thesis
      by (cases "f v st1") (auto intro: that)
  qed
qed

text \<open>A replica whose competitors always bump the version of what they change.\<close>

definition honest :: "('st \<Rightarrow> bool) \<Rightarrow> 'st service_deps \<Rightarrow> bool" where
  "honest ok d \<longleftrightarrow> (\<forall>k st. ok st \<longrightarrow> ok (env d k st) \<and>
     (\<forall>t. version (load (store d) (env d k st) t) = version (load (store d) st t) \<longrightarrow>
          load (store d) (env d k st) t = load (store d) st t))"

text \<open>A replica on its own.\<close>

definition alone :: "'st service_deps \<Rightarrow> bool" where
  "alone d \<longleftrightarrow> (\<forall>k st. env d k st = st)"

lemma alone_honest: "alone d \<Longrightarrow> honest ok d"
  by (simp add: alone_def honest_def)

definition store_wf :: "'st store_ops \<Rightarrow> 'st \<Rightarrow> bool" where
  "store_wf ops st \<longleftrightarrow> (\<forall>tier \<in> set ROOM_TIERS. lobby_wf tier (load ops st (t_id tier)))"

definition env_wf :: "('st \<Rightarrow> bool) \<Rightarrow> 'st service_deps \<Rightarrow> bool" where
  "env_wf ok d \<longleftrightarrow> (\<forall>k st. ok st \<and> store_wf (store d) st \<longrightarrow>
     ok (env d k st) \<and> store_wf (store d) (env d k st))"

text \<open>What a launch request of the service guarantees to the launcher.\<close>

definition request_ok :: "launch_request \<Rightarrow> bool" where
  "request_ok q \<longleftrightarrow> lr_tierId q = t_id (lr_tier q) \<and>
     minPlayers (lr_tier q) \<le> length (lr_players q) \<and>
     (0 < entryFeeLamports (lr_tier q) \<longrightarrow> list_all ready (lr_players q))"

section \<open>Facts for every store\<close>

context lobby_store
begin

lemma store_wf_upd:
  assumes "store_wf ops st" and "tier \<in> set ROOM_TIERS" and "lobby_wf tier s" and "tierId s = t_id tier"
    and "\<And>t. load ops st' t = (if t = tierId s then s else load ops st t)"
  shows "store_wf ops st'"
  unfolding store_wf_def
proof
  fix tier' assume "tier' \<in> set ROOM_TIERS"
  show "lobby_wf tier' (load ops st' (t_id tier'))"
  proof (cases "t_id tier' = t_id tier")
    case True
    have "tier' = tier"
      using distinct_TIER_IDS True \<open>tier' \<in> set ROOM_TIERS\<close> assms(2)
      unfolding TIER_IDS_def by (intro distinct_key_eq [where key = t_id])
    with assms show ?thesis by simp
  next
    case False
    with assms \<open>tier' \<in> set ROOM_TIERS\<close> show ?thesis by (simp add: store_wf_def)
  qed
qed

lemma save_store_wf:
  assumes "ok st" and "store_wf ops st" and "tier \<in> set ROOM_TIERS" and "lobby_wf tier s"
    and "tierId s = t_id tier" and "save ops st s v = Inr (b, st')"
  shows "ok st' \<and> store_wf ops st'"
proof -
  have ok': "ok st'" by (rule save_cases(2) [OF assms(1,6)])
  show ?thesis
  proof (cases b)
    case True
    have "load ops st' t = (if t = tierId s then s else load ops st t)" for t
      using save_cases(3,5) [OF assms(1,6)] True by simp
    then have "store_wf ops st'"
      by (rule store_wf_upd [OF assms(2-5)])
    with ok' show ?thesis by simp
  next
    case False
    with save_cases(4) [OF assms(1,6)] have "st' = st" by simp
    with ok' assms(2) show ?thesis by simp
  qed
qed

lemma clearPlayers_wf:
  "ok st \<Longrightarrow> store_wf ops st \<Longrightarrow> ok (clearPlayers ops st ps) \<and> store_wf ops (clearPlayers ops st ps)"
  by (simp add: store_wf_def clearPlayers_facts)

lemma setPlayer_wf:
  "ok st \<Longrightarrow> store_wf ops st \<Longrightarrow>
   ok (setPlayerLobby ops st p l) \<and> store_wf ops (setPlayerLobby ops st p l)"
  by (simp add: store_wf_def set_ok set_load)

text \<open>The launch never loses the lobby to an error of the store, and keeps it well-formed.\<close>

lemma performLaunch_wf:
  assumes d: "store d = ops" and ok: "ok st" and wf: "store_wf ops st"
    and t: "tier \<in> set ROOM_TIERS" and s: "lobby_wf tier s" "tierId s = t_id tier"
    and run: "performLaunch d tier s st = (r, st', ls)"
  shows "ok st' \<and> store_wf ops st' \<and> (\<exists>s'. r = Inr s') \<and>
         ls = [\<lparr> lr_tierId = t_id tier, lr_players = players s, lr_tier = tier, lr_gameId = gameId s \<rparr>]"
proof -
  let ?req = "\<lparr> lr_tierId = t_id tier, lr_players = players s, lr_tier = tier, lr_gameId = gameId s \<rparr>"
  let ?reset = "t_state (reduceLobby s Reset tier (clock d 0))"
  have reset: "lobby_wf tier ?reset" "tierId ?reset = t_id tier"
    by (rule reduceLobby_wf [OF s(1)]) (simp add: s(2))
  show ?thesis
  proof (cases "launch d ?req")
    case (Inl err)
    obtain b st2 where sv: "save ops st ?reset (version s) = Inr (b, st2)"
      using save_total [OF ok] by blast
    from save_store_wf [OF ok wf t reset sv] sv run Inl d show ?thesis
      by (auto simp: performLaunch_def tryLaunch_def Let_def)
  next
    case (Inr g)
    let ?m = "t_state (reduceLobby s (Launched g) tier (clock d 0))"
    let ?r = "t_state (reduceLobby ?m Reset tier (clock d 0))"
    have m: "lobby_wf tier ?m" "tierId ?m = t_id tier"
      by (rule reduceLobby_wf [OF s(1)]) (simp add: s(2))
    have r: "lobby_wf tier ?r" "tierId ?r = t_id tier"
      by (rule reduceLobby_wf [OF m(1)]) (simp add: s(2))
    obtain b1 st1 where sv1: "save ops st ?m (version s) = Inr (b1, st1)"
      using save_total [OF ok] by blast
    have w1: "ok st1 \<and> store_wf ops st1" by (rule save_store_wf [OF ok wf t m sv1])
    let ?st2 = "clearPlayers ops st1 (players s)"
    have w2: "ok ?st2" "store_wf ops ?st2" using clearPlayers_wf w1 by auto
    obtain b3 st3 where sv3: "save ops ?st2 ?r (version ?m) = Inr (b3, st3)"
      using save_total [OF w2(1)] by blast
    have w3: "ok st3 \<and> store_wf ops st3" by (rule save_store_wf [OF w2 t r sv3])
    from w3 sv1 sv3 run Inr d show ?thesis
      by (auto simp: performLaunch_def tryLaunch_def Let_def)
  qed
qed

text \<open>One application of an event keeps every stored lobby well-formed, never fails in the store,
  and asks for at most one launch, which is a good one.\<close>

lemma applyLoop_wf:
  assumes "store d = ops" and "env_wf ok d" and "tier \<in> set ROOM_TIERS"
    and "ok st" and "store_wf ops st" and "applyLoop d tier e n k st = (r, st', ls)"
  shows "ok st' \<and> store_wf ops st' \<and> (\<forall>q \<in> set ls. request_ok q \<and> lr_tier q = tier) \<and>
         length ls \<le> 1 \<and> ((\<exists>v. r = Inr v) \<or> r = Inl (TooContended (t_id tier)))"
  using assms(4-)
proof (induction n arbitrary: k st)
  case 0
  then show ?case by auto
next
  case (Suc n)
  note d = assms(1) and envw = assms(2) and t = assms(3)
  let ?c = "load ops st (t_id tier)"
  let ?res = "reduceLobby ?c e tier (clock d k)"
  let ?st1 = "env d k st"
  have c: "lobby_wf tier ?c" "tierId ?c = t_id tier"
    using Suc.prems t by (auto simp: store_wf_def load_tier)
  have res: "lobby_wf tier (t_state ?res)" "tierId (t_state ?res) = t_id tier"
    by (rule reduceLobby_wf [OF c(1)]) (simp add: c(2))
  have w1: "ok ?st1" "store_wf ops ?st1"
    using envw Suc.prems(1,2) d by (auto simp: env_wf_def)
  obtain b st2 where sv: "save ops ?st1 (t_state ?res) (version ?c) = Inr (b, st2)"
    using save_total [OF w1(1)] by blast
  have w2: "ok st2" "store_wf ops st2" using save_store_wf [OF w1 t res sv] by auto
  show ?case
  proof (cases "rejected ?res")
    case (Some rej)
    with Suc.prems d show ?thesis by (auto simp: Let_def)
  next
    case None
    show ?thesis
    proof (cases "changed ?res")
      case False
      with None Suc.prems d show ?thesis by (auto simp: Let_def)
    next
      case changed: True
      show ?thesis
      proof (cases b)
        case False
        then have "applyLoop d tier e n (Suc k) st2 = (r, st', ls)"
          using Suc.prems None changed sv d by (simp add: Let_def)
        from Suc.IH [OF w2 this] show ?thesis .
      next
        case True
        show ?thesis
        proof (cases "shouldLaunch ?res")
          case False
          with True Suc.prems None changed sv d w2 show ?thesis by (auto simp: Let_def)
        next
          case launch: True
          obtain r1 st3 ls1 where pl: "performLaunch d tier (t_state ?res) st2 = (r1, st3, ls1)"
            by (cases "performLaunch d tier (t_state ?res) st2")
          from performLaunch_wf [OF d w2 t res pl] obtain s' where
            w3: "ok st3" "store_wf ops st3" and r1: "r1 = Inr s'" and
            ls1: "ls1 = [\<lparr> lr_tierId = t_id tier, lr_players = players (t_state ?res),
                           lr_tier = tier, lr_gameId = gameId (t_state ?res) \<rparr>]"
            by auto
          have "request_ok (hd ls1)"
            using reduceLobby_launch [OF launch] by (simp add: ls1 request_ok_def)
          with True launch Suc.prems None changed sv d w3 r1 ls1 pl show ?thesis
            by (auto simp: Let_def)
        qed
      qed
    qed
  qed
qed

end

section \<open>Atomicity under honest competition\<close>

context lobby_store
begin

text \<open>
  If competitors bump the version of what they change, an accepted event without a launch behaves
  as if it had been applied in one step: there is a store at which it was reduced and whose
  version was current when the result was written.
\<close>

lemma applyLoop_atomic:
  assumes "store d = ops" and "honest ok d" and "tier \<in> set ROOM_TIERS"
    and "ok st" and "applyLoop d tier e n k st = (Inr v, st', ls)"
    and "ar_rejected v = None" and "\<not> ar_launched v"
  shows "\<exists>st0 now. ok st0 \<and> rejected (reduceLobby (load ops st0 (t_id tier)) e tier now) = None \<and>
           ar_state v = t_state (reduceLobby (load ops st0 (t_id tier)) e tier now) \<and>
           load ops st' (t_id tier) = ar_state v \<and>
           (\<forall>t. t \<noteq> t_id tier \<longrightarrow> load ops st' t = load ops st0 t)"
  using assms(4-)
proof (induction n arbitrary: k st)
  case 0
  then show ?case by simp
next
  case (Suc n)
  note d = assms(1) and hon = assms(2)
  let ?c = "load ops st (t_id tier)"
  let ?res = "reduceLobby ?c e tier (clock d k)"
  let ?st1 = "env d k st"
  have c: "tierId ?c = t_id tier" using Suc.prems by (simp add: load_tier)
  then have rt: "tierId (t_state ?res) = t_id tier" by simp
  have w1: "ok ?st1" and same: "\<And>t. version (load ops ?st1 t) = version (load ops st t) \<Longrightarrow>
      load ops ?st1 t = load ops st t"
    using hon Suc.prems(1) d by (auto simp: honest_def)
  obtain b st2 where sv: "save ops ?st1 (t_state ?res) (version ?c) = Inr (b, st2)"
    using save_total [OF w1] by blast
  note cs = save_cases [OF w1 sv]
  show ?case
  proof (cases "rejected ?res")
    case (Some rej)
    with Suc.prems d show ?thesis by (auto simp: Let_def)
  next
    case None
    show ?thesis
    proof (cases "changed ?res")
      case False
      then have "t_state ?res = ?c" by (rule reduceLobby_not_changed)
      with False None Suc.prems d show ?thesis
        by (intro exI [of _ st] exI [of _ "clock d k"]) (auto simp: Let_def)
    next
      case changed: True
      show ?thesis
      proof (cases b)
        case False
        then have "applyLoop d tier e n (Suc k) st2 = (Inr v, st', ls)"
          using Suc.prems None changed sv d by (simp add: Let_def)
        from Suc.IH [OF cs(2) this Suc.prems(3,4)] show ?thesis .
      next
        case True
        then have eq: "load ops ?st1 (t_id tier) = ?c" using cs(1) same by (simp add: rt c)
        show ?thesis
        proof (cases "shouldLaunch ?res")
          case launch: True
          with True Suc.prems None changed sv d have "ar_launched v"
            by (auto simp: Let_def elim!: h_bindE)
          with Suc.prems(4) show ?thesis by simp
        next
          case False
          with True Suc.prems None changed sv d
          have v: "v = \<lparr> ar_state = t_state ?res, ar_rejected = None, ar_launched = False \<rparr>"
            and st': "st' = st2" by (auto simp: Let_def)
          have "load ops st2 (t_id tier) = t_state ?res" using cs(3) True rt by simp
          with cs(5) rt None w1 eq show ?thesis
            by (intro exI [of _ ?st1] exI [of _ "clock d k"]) (simp add: v st')
        qed
      qed
    qed
  qed
qed

text \<open>Alone, the first attempt decides; the result is the reducer's own.\<close>

lemma applyLoop_alone:
  assumes "store d = ops" and "alone d" and "ok st"
    and "\<not> shouldLaunch (reduceLobby (load ops st (t_id tier)) e tier (clock d k))"
  shows "\<exists>st'. applyLoop d tier e (Suc n) k st =
           (Inr \<lparr> ar_state = t_state (reduceLobby (load ops st (t_id tier)) e tier (clock d k)),
                  ar_rejected = rejected (reduceLobby (load ops st (t_id tier)) e tier (clock d k)),
                  ar_launched = False \<rparr>, st', []) \<and> ok st' \<and>
         load ops st' (t_id tier) = t_state (reduceLobby (load ops st (t_id tier)) e tier (clock d k)) \<and>
         (\<forall>t. t \<noteq> t_id tier \<longrightarrow> load ops st' t = load ops st t) \<and>
         (\<forall>p. findPlayerLobby ops st' p = findPlayerLobby ops st p)"
proof -
  let ?c = "load ops st (t_id tier)"
  let ?res = "reduceLobby ?c e tier (clock d k)"
  have c: "tierId ?c = t_id tier" using assms(3) by (simp add: load_tier)
  then have rt: "tierId (t_state ?res) = t_id tier" by simp
  have env: "env d k st = st" using assms(2) by (simp add: alone_def)
  obtain st2 where sv: "save ops st (t_state ?res) (version ?c) = Inr (True, st2)" and
    s2: "ok st2" "\<forall>t. load ops st2 t = (if t = t_id tier then t_state ?res else load ops st t)"
    "\<forall>p. findPlayerLobby ops st2 p = findPlayerLobby ops st p"
    using save_hit [OF assms(3), of "t_state ?res" "version ?c"] by (auto simp: rt c)
  show ?thesis
  proof (cases "rejected ?res")
    case (Some r)
    then have "t_state ?res = ?c" by (rule reduceLobby_rejected)
    with Some assms(1,3) show ?thesis by (auto simp: Let_def)
  next
    case None
    show ?thesis
    proof (cases "changed ?res")
      case False
      then have "t_state ?res = ?c" by (rule reduceLobby_not_changed)
      with False None assms(1,3) show ?thesis by (auto simp: Let_def)
    next
      case True
      with None sv s2 env assms(1,4) show ?thesis by (auto simp: Let_def)
    qed
  qed
qed

text \<open>Of two events reduced from the same snapshot, neither a tick, exactly the first write wins.\<close>

lemma same_snapshot_race:
  assumes ok: "ok st" and s: "s = load ops st t"
    and r1: "changed (reduceLobby s e1 tier now1)" "e1 \<noteq> Tick"
    and w1: "save ops st (t_state (reduceLobby s e1 tier now1)) (version s) = Inr (b1, st1)"
    and w2: "save ops st1 (t_state (reduceLobby s e2 tier now2)) (version s) = Inr (b2, st2)"
  shows "b1 \<and> \<not> b2 \<and> st2 = st1"
proof -
  have t: "tierId s = t" using ok s by (simp add: load_tier)
  have b1: "b1" using save_cases(1) [OF ok w1] s t by simp
  have "version (t_state (reduceLobby s e1 tier now1)) \<noteq> version s"
    using reduceLobby_version [OF r1] by simp
  from second_writer_loses [OF ok w1 [unfolded eqTrueI [OF b1]] this] w2 t b1
  show ?thesis by simp
qed

text \<open>
  A launch by tick does not bump the version, so the guard does not hold it back: when another
  replica has ticked the same snapshot into a launch and saved it, this replica's save still
  succeeds, and it launches the same lobby a second time.
\<close>

lemma both_replicas_launch:
  assumes d: "store d = ops" and ok: "ok st" and wf: "store_wf ops st" and t: "tier \<in> set ROOM_TIERS"
    and s: "s = load ops st (t_id tier)"
    and other: "shouldLaunch (reduceLobby s Tick tier now')"
    and w: "save ops st (t_state (reduceLobby s Tick tier now')) (version s) = Inr (b, st1)"
    and env: "env d 0 st = st1"
    and own: "shouldLaunch (reduceLobby s Tick tier (clock d 0))"
  shows "b \<and> (\<exists>v st' q. applyLoop d tier Tick (Suc n) 0 st = (Inr v, st', [q]) \<and> ar_launched v \<and>
           lr_players q = players (t_state (reduceLobby s Tick tier (clock d 0))) \<and>
           lr_gameId q = gameId s)"
proof -
  let ?o = "t_state (reduceLobby s Tick tier now')"
  let ?m = "reduceLobby s Tick tier (clock d 0)"
  have ts: "tierId s = t_id tier" using ok s by (simp add: load_tier)
  have swf: "lobby_wf tier s" using wf t s by (simp add: store_wf_def)
  have b: "b" using save_cases(1) [OF ok w] s ts by simp
  have w1: "ok st1" "store_wf ops st1"
    using save_store_wf [OF ok wf t reduceLobby_wf [OF swf] _ w] ts by auto
  have mwf: "lobby_wf tier (t_state ?m)" "tierId (t_state ?m) = t_id tier"
    by (rule reduceLobby_wf [OF swf]) (simp only: reduceLobby_tierId ts)
  obtain st2 where sv: "save ops st1 (t_state ?m) (version s) = Inr (True, st2)" and o2: "ok st2"
    using second_writer_wins [OF ok w [unfolded eqTrueI [OF b]], of "t_state ?m"] mwf(2) ts
    by (auto simp del: reduceLobby.simps)
  have w2: "ok st2" "store_wf ops st2" using save_store_wf [OF w1 t mwf sv] by auto
  have nr: "rejected ?m = None" by simp
  have ch: "changed ?m"
    using reduceLobby_not_changed [of s Tick tier "clock d 0"] reduceLobby_launch [OF own] by force
  have g: "gameId (t_state ?m) = gameId s" by simp
  obtain r1 st3 ls1 where pl: "performLaunch d tier (t_state ?m) st2 = (r1, st3, ls1)"
    by (cases "performLaunch d tier (t_state ?m) st2")
  from performLaunch_wf [OF d w2 t mwf pl] obtain s' where
    r1: "r1 = Inr s'" and
    ls1: "ls1 = [\<lparr> lr_tierId = t_id tier, lr_players = players (t_state ?m),
                   lr_tier = tier, lr_gameId = gameId (t_state ?m) \<rparr>]" by auto
  have "applyLoop d tier Tick (Suc n) 0 st =
      (Inr \<lparr> ar_state = s', ar_rejected = None, ar_launched = True \<rparr>, st3, ls1)"
  proof -
    have ld: "load ops st (t_id tier) = s" using s by simp
    show ?thesis
      using nr ch own sv pl env d r1 by (simp add: Let_def ld del: reduceLobby.simps)
  qed
  with b ls1 g show ?thesis by (auto simp del: reduceLobby.simps)
qed

end

section \<open>The handlers of a replica on its own\<close>

context lobby_store
begin

lemma applyEvent_known:
  "tier \<in> set ROOM_TIERS \<Longrightarrow> applyEvent d (t_id tier) e st = applyLoop d tier e MAX_CAS_ATTEMPTS 0 st"
  using requireTier_Inr [of "t_id tier" tier] by (simp add: applyEvent_def)

lemma MAX_CAS_ATTEMPTS_eq: "MAX_CAS_ATTEMPTS = Suc (Suc (Suc (Suc (Suc 0))))"
  by (simp add: MAX_CAS_ATTEMPTS_def)

lemmas applyEvent_alone = applyLoop_alone [where k = 0 and n = "Suc (Suc (Suc (Suc 0)))"]

lemma applyEvent_alone_eq:
  assumes "store d = ops" and "alone d" and "ok st" and t: "tier \<in> set ROOM_TIERS"
    and "\<not> shouldLaunch (reduceLobby (load ops st (t_id tier)) e tier (clock d 0))"
  obtains st' where
    "applyEvent d (t_id tier) e st =
       (Inr \<lparr> ar_state = t_state (reduceLobby (load ops st (t_id tier)) e tier (clock d 0)),
              ar_rejected = rejected (reduceLobby (load ops st (t_id tier)) e tier (clock d 0)),
              ar_launched = False \<rparr>, st', [])"
    and "ok st'"
    and "load ops st' (t_id tier) = t_state (reduceLobby (load ops st (t_id tier)) e tier (clock d 0))"
    and "\<And>u. u \<noteq> t_id tier \<Longrightarrow> load ops st' u = load ops st u"
    and "\<And>p. findPlayerLobby ops st' p = findPlayerLobby ops st p"
proof -
  from applyEvent_alone [OF assms(1-3,5), folded MAX_CAS_ATTEMPTS_eq]
  show thesis
    by (elim exE conjE) (rule that [unfolded applyEvent_known [OF t]], assumption+, blast+)
qed

text \<open>A leave that is refused by a launching lobby changes nothing, and a join goes on regardless.\<close>

lemma leave_refused:
  assumes "store d = ops" and "ok st" and t: "tier \<in> set ROOM_TIERS"
    and "status (load ops st (t_id tier)) = Launching"
  shows "\<exists>r. leave d (t_id tier) pid st = (Inr r, st, []) \<and> \<not> jr_ok r"
proof -
  let ?r = "reduceLobby (load ops st (t_id tier)) (Leave pid) tier (clock d 0)"
  obtain rej where "rejected ?r = Some rej"
    using assms(4) by (cases "rejected ?r") (auto split: if_splits)
  then show ?thesis
    using assms(1) by (simp add: leave_def applyEvent_known [OF t] MAX_CAS_ATTEMPTS_eq Let_def
        joinResultOf_def del: reduceLobby.simps)
qed

lemma join_alone:
  assumes "store d = ops" and "alone d" and ok: "ok st" and t: "tier \<in> set ROOM_TIERS"
    and joinable: "isJoinable (load ops st (t_id tier)) tier"
    and new: "jp_id p \<notin> playerId ` set (players (load ops st (t_id tier)))"
    and nl: "\<not> shouldLaunch (reduceLobby (load ops st (t_id tier)) (Join p) tier (clock d 0))"
    and pre: "findPlayerLobby ops st (jp_id p) = None \<or>
      (\<exists>u \<in> set ROOM_TIERS. findPlayerLobby ops st (jp_id p) = Some (t_id u) \<and>
         (t_id u = t_id tier \<or> status (load ops st (t_id u)) = Launching))"
  shows "\<exists>r st'. join d (t_id tier) p st = (Inr r, st', []) \<and> ok st' \<and> jr_ok r \<and>
    load ops st' (t_id tier) = t_state (reduceLobby (load ops st (t_id tier)) (Join p) tier (clock d 0)) \<and>
    (\<forall>u. u \<noteq> t_id tier \<longrightarrow> load ops st' u = load ops st u) \<and>
    (\<forall>q. findPlayerLobby ops st' q =
       (if q = jp_id p then Some (t_id tier) else findPlayerLobby ops st q))"
proof -
  have acc: "rejected (reduceLobby (load ops st (t_id tier)) (Join p) tier (clock d 0)) = None"
    using join_accepted_iff joinable new by blast
  obtain st2 where ae: "applyEvent d (t_id tier) (Join p) st =
       (Inr \<lparr> ar_state = t_state (reduceLobby (load ops st (t_id tier)) (Join p) tier (clock d 0)),
              ar_rejected = None, ar_launched = False \<rparr>, st2, [])"
    and s2: "ok st2"
      "load ops st2 (t_id tier) = t_state (reduceLobby (load ops st (t_id tier)) (Join p) tier (clock d 0))"
      "\<And>u. u \<noteq> t_id tier \<Longrightarrow> load ops st2 u = load ops st u"
      "\<And>q. findPlayerLobby ops st2 q = findPlayerLobby ops st q"
    using applyEvent_alone_eq [OF assms(1-4) nl, unfolded acc] by metis
  have first: "(case findPlayerLobby (store d) st (jp_id p) of
          Some existing \<Rightarrow>
            if existing \<noteq> [] \<and> existing \<noteq> t_id tier
            then h_bind (leave d existing (jp_id p) st) (\<lambda>_ st1. (Inr (), st1, []))
            else (Inr (), st, [])
        | None \<Rightarrow> (Inr (), st, [])) = (Inr (), st, [])"
  proof (cases "findPlayerLobby ops st (jp_id p)")
    case None
    then show ?thesis using assms(1) by simp
  next
    case (Some existing)
    with pre obtain u where u: "u \<in> set ROOM_TIERS" "existing = t_id u"
      "t_id u = t_id tier \<or> status (load ops st (t_id u)) = Launching" by auto
    show ?thesis
    proof (cases "t_id u = t_id tier")
      case True
      with u Some assms(1) show ?thesis by simp
    next
      case False
      with u have "status (load ops st (t_id u)) = Launching" by simp
      from leave_refused [OF assms(1) ok u(1) this, of "jp_id p"] u(2) Some assms(1)
      show ?thesis by auto
    qed
  qed
  show ?thesis
    unfolding join_def first
    using ae s2 assms(1) by (simp add: Let_def joinResultOf_def set_ok set_load set_find
        del: reduceLobby.simps)
qed

text \<open>
  A reset empties the roster, but the loop that should clear the index runs over the state after
  the reset, whose roster is empty: no entry is cleared.
\<close>

lemma reset_keeps_index:
  assumes "store d = ops" and "alone d" and "ok st" and "tier \<in> set ROOM_TIERS"
  shows "\<exists>r st'. reset_lobby d (t_id tier) st = (Inr r, st', []) \<and>
           players (load ops st' (t_id tier)) = [] \<and>
           (\<forall>p. findPlayerLobby ops st' p = findPlayerLobby ops st p)"
proof -
  have nl: "\<not> shouldLaunch (reduceLobby (load ops st (t_id tier)) Reset tier (clock d 0))" by simp
  show ?thesis
    by (rule applyEvent_alone_eq [OF assms nl])
       (auto simp: reset_lobby_def emptyLobby_def assms(1))
qed

end

end
