(* ===== verification/Lobby_Properties.thy ===== *)
theory Lobby_Properties
  imports Lobby_Service
begin

text \<open>
  What the lobby promises, over the state machine, the service and the two stores: the properties,
  each with a concrete run. The proofs rest on the facts of the locales, taken through the
  interpretations \<open>mem\<close> and \<open>redis\<close>.
\<close>

section \<open>Sample lobbies\<close>

definition sample_tier :: "string \<Rightarrow> room_tier" where
  "sample_tier i = (case getTier i of Some t \<Rightarrow> t | None \<Rightarrow> hd ROOM_TIERS)"

definition queued :: "string \<Rightarrow> bool \<Rightarrow> lobby_player" where
  "queued p r = \<lparr> playerId = p, nickname = p, wallet = p, joinedAt = 0, ready = r \<rparr>"

definition counting :: "string \<Rightarrow> lobby_player list \<Rightarrow> lobby_state" where
  "counting tid ps = (emptyLobby tid)\<lparr>status := Countdown, players := ps, countdownEndsAt := Some 45000,
     version := 2\<rparr>"

definition no_launch :: "launch_request \<Rightarrow> (string, string) res" where
  "no_launch q = Inl ''refused''"

definition new_game :: "launch_request \<Rightarrow> (string, string) res" where
  "new_game q = Inr ''g1''"

definition replica :: "(nat \<Rightarrow> redis_db \<Rightarrow> redis_db) \<Rightarrow> int \<Rightarrow> redis_db service_deps" where
  "replica others now = \<lparr> store = redis_ops, launch = new_game, clock = (\<lambda>_. now), clockEnd = now, env = others \<rparr>"

definition redis_with :: "lobby_state list \<Rightarrow> redis_db" where
  "redis_with ss = \<lparr> r_now = 0, r_lobby = map_of (map (\<lambda>s. (LOBBY_KEY (tierId s), Json s)) ss), r_player = Map.empty \<rparr>"

lemma sample_tier_simps [simp]:
  "sample_tier ''bronze'' \<in> set ROOM_TIERS" "t_id (sample_tier ''bronze'') = ''bronze''"
  "minPlayers (sample_tier ''bronze'') = 2" "maxPlayers (sample_tier ''bronze'') = None"
  "entryFeeLamports (sample_tier ''bronze'') = 10000000"
  "readyCountdownSeconds (sample_tier ''bronze'') = 5" "countdownSeconds (sample_tier ''bronze'') = 45"
  "sample_tier ''silver'' \<in> set ROOM_TIERS" "t_id (sample_tier ''silver'') = ''silver''"
  "minPlayers (sample_tier ''silver'') = 2" "maxPlayers (sample_tier ''silver'') = None"
  by (simp_all add: sample_tier_def getTier_def BY_ID_def ROOM_TIERS_def)

lemma replica_simps [simp]:
  "store (replica others now) = redis_ops" "launch (replica others now) = new_game"
  "clock (replica others now) k = now" "env (replica others now) k st = others k st"
  by (simp_all add: replica_def)

lemma replica_alone: "alone (replica (\<lambda>_ st. st) now)"
  by (simp add: alone_def)

lemma redis_with_ok: "redis_ok (redis_with ss)"
  by (induction ss) (auto simp: redis_ok_def redis_with_def)

lemma redis_with_load: "redis_load (redis_with ss) t =
    (case find (\<lambda>s. tierId s = t) ss of None \<Rightarrow> emptyLobby t | Some s \<Rightarrow> s)"
  by (induction ss) (auto simp: redis_load_def redis_with_def)

lemma redis_with_wf:
  assumes "\<And>s tier. s \<in> set ss \<Longrightarrow> tier \<in> set ROOM_TIERS \<Longrightarrow> t_id tier = tierId s \<Longrightarrow> lobby_wf tier s"
  shows "store_wf redis_ops (redis_with ss)"
  unfolding store_wf_def
proof
  fix tier assume t: "tier \<in> set ROOM_TIERS"
  show "lobby_wf tier (load redis_ops (redis_with ss) (t_id tier))"
  proof (cases "find (\<lambda>s. tierId s = t_id tier) ss")
    case None
    then show ?thesis by (simp add: redis_with_load lobby_wf_empty)
  next
    case (Some s)
    with assms [OF find_SomeD(1) [OF Some] t] find_SomeD(2) [OF Some] show ?thesis
      by (simp add: redis_with_load)
  qed
qed

lemma counting_wf: "tier \<in> set ROOM_TIERS \<Longrightarrow> distinct (map playerId ps) \<Longrightarrow> lobby_wf tier (counting tid ps)"
  by (simp add: lobby_wf_def counting_def tier_bounds)

section \<open>The state machine\<close>

text \<open>
  C17: whatever happens to a lobby, in whatever order and at whatever times, no player is listed
  twice, a deadline is set exactly during the countdown, a limited room is never overfull, and the
  version never decreases.
\<close>

theorem lobby_always_wf:
  "lobby_wf tier (run_lobby tier (emptyLobby (t_id tier)) es) \<and>
   version (run_lobby tier (emptyLobby (t_id tier)) es)
     \<le> version (run_lobby tier (emptyLobby (t_id tier)) (es @ fs))"
proof -
  have app: "run_lobby tier s (es @ fs) = run_lobby tier (run_lobby tier s es) fs" for s
    by (induction es arbitrary: s) auto
  have "version s \<le> version (run_lobby tier s fs)" for s
  proof (induction fs arbitrary: s)
    case (Cons x fs)
    obtain e now where "x = (e, now)" by (cases x)
    with Cons.IH [of "t_state (reduceLobby s e tier now)"] reduceLobby_version_mono [of s e tier now]
    show ?case by simp
  qed simp
  then show ?thesis using app lobby_reachable_wf [OF run_lobby_reachable [OF init]] by simp
qed

text \<open>
  a lobby launches only from an unscheduled countdown that has run out, with at least the
  tier's minimum of players, and in a paid room with nobody whose stake is not confirmed.
\<close>

theorem launch_only_when_due:
  assumes "shouldLaunch (reduceLobby s e tier now)"
  shows "\<not> scheduled s \<and> status s = Countdown \<and> (\<exists>d. countdownEndsAt s = Some d \<and> d \<le> now) \<and>
         minPlayers tier \<le> length (players (t_state (reduceLobby s e tier now))) \<and>
         (0 < entryFeeLamports tier \<longrightarrow> list_all ready (players (t_state (reduceLobby s e tier now))))"
  using reduceLobby_launch [OF assms] by blast

theorem launch_only_when_due_witness:
  "2 \<le> length (players (t_state (reduceLobby (counting ''bronze'' [queued ''a'' True, queued ''b'' False, queued ''c'' True])
      Tick (sample_tier ''bronze'') 45000)))"
proof -
  have "shouldLaunch (reduceLobby (counting ''bronze'' [queued ''a'' True, queued ''b'' False, queued ''c'' True])
      Tick (sample_tier ''bronze'') 45000)"
    by (simp add: settle_def counting_def queued_def Let_def)
  from launch_only_when_due [OF this] show ?thesis by simp
qed

text \<open>
  as long as the lobby keeps counting down, no sequence of joins, leaves and ready toggles moves
  its deadline outwards.
\<close>

theorem deadline_only_moves_closer:
  assumes "countdownEndsAt s = Some d"
    and "\<And>k. k \<le> length es \<Longrightarrow> status (run_lobby tier s (take k es)) = Countdown"
    and "\<And>k. k \<le> length es \<Longrightarrow> countdownEndsAt (run_lobby tier s (take k es)) \<noteq> None"
  shows "\<exists>d'. countdownEndsAt (run_lobby tier s es) = Some d' \<and> d' \<le> d"
  using assms
proof (induction es arbitrary: s d)
  case Nil
  then show ?case by simp
next
  case (Cons x es)
  obtain e now where x: "x = (e, now)" by (cases x)
  let ?s = "t_state (reduceLobby s e tier now)"
  have st: "status s = Countdown" using Cons.prems(2) [of 0] by simp
  obtain d1 where d1: "countdownEndsAt ?s = Some d1" using Cons.prems(3) [of 1] by (auto simp: x)
  have le: "d1 \<le> d" by (rule reduceLobby_deadline_mono [OF Cons.prems(1) st d1])
  have "\<exists>d'. countdownEndsAt (run_lobby tier ?s es) = Some d' \<and> d' \<le> d1"
  proof (rule Cons.IH [OF d1])
    fix k assume k: "k \<le> length es"
    show "status (run_lobby tier ?s (take k es)) = Countdown"
      using Cons.prems(2) [of "Suc k"] k by (simp add: x)
    show "countdownEndsAt (run_lobby tier ?s (take k es)) \<noteq> None"
      using Cons.prems(3) [of "Suc k"] k by (simp add: x)
  qed
  with le show ?case by (auto simp: x)
qed

theorem deadline_only_moves_closer_witness:
  "\<exists>d'. countdownEndsAt (run_lobby (sample_tier ''bronze'') (counting ''bronze'' [queued ''a'' True, queued ''b'' False])
      [(Ready ''b'' True, 1000), (Ready ''b'' False, 2000)]) = Some d' \<and> d' \<le> 45000"
proof (rule deadline_only_moves_closer)
  show "countdownEndsAt (counting ''bronze'' [queued ''a'' True, queued ''b'' False]) = Some 45000"
    by (simp add: counting_def)
  fix k :: nat assume "k \<le> length [(Ready ''b'' True, 1000 :: int), (Ready ''b'' False, 2000)]"
  then have k: "k = 0 \<or> k = 1 \<or> k = 2" by auto
  show "status (run_lobby (sample_tier ''bronze'') (counting ''bronze'' [queued ''a'' True, queued ''b'' False])
      (take k [(Ready ''b'' True, 1000), (Ready ''b'' False, 2000)])) = Countdown"
    using k by (auto simp: counting_def queued_def settle_def Let_def isAtCapacity_def)
  show "countdownEndsAt (run_lobby (sample_tier ''bronze'') (counting ''bronze'' [queued ''a'' True, queued ''b'' False])
      (take k [(Ready ''b'' True, 1000), (Ready ''b'' False, 2000)])) \<noteq> None"
    using k by (auto simp: counting_def queued_def settle_def Let_def isAtCapacity_def)
qed

text \<open>
  a countdown ends: a tick at or after the deadline launches the lobby, or drops those who did
  not pay and waits, with too few players left for another countdown; ticking on then changes
  nothing. An expired countdown never repeats itself on the same roster.
\<close>

theorem countdown_ends:
  assumes "lobby_wf tier s" and "status s = Countdown" and "countdownEndsAt s = Some d"
    and "d \<le> now" and "\<not> scheduled s"
  shows "(shouldLaunch (reduceLobby s Tick tier now) \<and> status (t_state (reduceLobby s Tick tier now)) = Launching) \<or>
         (status (t_state (reduceLobby s Tick tier now)) = Waiting \<and>
          reduceLobby (t_state (reduceLobby s Tick tier now)) Tick tier later
            = unchanged (t_state (reduceLobby s Tick tier now)) None)"
  using expired_tick [OF assms] waiting_short_tick_idle [OF reduceLobby_wf [OF assms(1)]] by blast

theorem countdown_ends_witness:
  "status (t_state (reduceLobby (counting ''bronze'' [queued ''a'' True, queued ''b'' False])
      Tick (sample_tier ''bronze'') 45000)) = Waiting"
proof -
  let ?s = "counting ''bronze'' [queued ''a'' True, queued ''b'' False]"
  have "\<not> shouldLaunch (reduceLobby ?s Tick (sample_tier ''bronze'') 45000)"
    by (simp add: settle_def counting_def queued_def Let_def)
  moreover have "lobby_wf (sample_tier ''bronze'') ?s" by (simp add: counting_wf queued_def)
  ultimately show ?thesis
    using countdown_ends [of "sample_tier ''bronze''" ?s 45000 45000] by (simp add: counting_def)
qed

text \<open>
  a newcomer is accepted exactly when the lobby shows itself joinable; but when the countdown of
  a paid room has run out and no tick has come yet, the join that is accepted sweeps the newcomer,
  who cannot have paid, out of the queue again.
\<close>

theorem accepted_join_is_swept:
  assumes "isJoinable s tier" and "jp_id p \<notin> playerId ` set (players s)"
    and "status s = Countdown" and "countdownEndsAt s = Some d" and "d \<le> now" and "\<not> scheduled s"
    and "0 < entryFeeLamports tier" and "minPlayers tier \<le> length (players s)"
  shows "rejected (reduceLobby s (Join p) tier now) = None \<and>
         jp_id p \<notin> playerId ` set (players (t_state (reduceLobby s (Join p) tier now)))"
proof -
  let ?q = "\<lparr> playerId = jp_id p, nickname = jp_nickname p, wallet = jp_wallet p, joinedAt = now, ready = False \<rparr>"
  let ?s = "s\<lparr>players := players s @ [?q], version := version s + 1\<rparr>"
  have acc: "rejected (reduceLobby s (Join p) tier now) = None"
    using assms(1,2) join_accepted_iff by blast
  then have eq: "reduceLobby s (Join p) tier now = settle ?s tier now True"
    by (simp add: Let_def split: if_splits)
  have "players (t_state (settle ?s tier now True)) = filter ready (players s)"
    using assms(3-8) settle_expired_paid [of ?s tier d now True] by simp
  with acc eq assms(2) show ?thesis by auto
qed

definition newcomer :: join_player where
  "newcomer = \<lparr> jp_id = ''n'', jp_nickname = ''n'', jp_wallet = ''n'' \<rparr>"

theorem accepted_join_is_swept_witness:
  "''n'' \<notin> playerId ` set (players (t_state (reduceLobby (counting ''bronze'' [queued ''a'' True, queued ''b'' True])
      (Join newcomer) (sample_tier ''bronze'') 45000)))"
  using accepted_join_is_swept [of "counting ''bronze'' [queued ''a'' True, queued ''b'' True]" "sample_tier ''bronze''"
      newcomer 45000 45000]
  by (simp add: newcomer_def counting_def queued_def isJoinable_def isAtCapacity_def del: reduceLobby.simps)

section \<open>The service\<close>

text \<open>
  C3: on Redis, whatever the other replicas write in between, as long as they keep stored lobbies
  well-formed too, applying an event keeps every lobby well-formed; it answers, or says that the
  room is unknown or too contended, and never fails in the store; and it asks for at most one
  launch, with enough players, all of them paid when the room is paid.
\<close>

theorem redis_service_safe:
  assumes "store d = redis_ops" and "env_wf redis_ok d" and "redis_ok st" and "store_wf redis_ops st"
    and "applyEvent d tid e st = (r, st', ls)"
  shows "redis_ok st' \<and> store_wf redis_ops st' \<and> (\<forall>q \<in> set ls. request_ok q \<and> lr_tierId q = tid) \<and>
         length ls \<le> 1 \<and> ((\<exists>v. r = Inr v) \<or> r = Inl (TooContended tid) \<or> r = Inl (UnknownRoom tid))"
proof (cases "requireTier tid")
  case (Inl err)
  then have "err = UnknownTier tid" by (simp add: requireTier_Inl)
  with Inl assms show ?thesis by (simp add: applyEvent_def)
next
  case (Inr tier)
  then have t: "tier \<in> set ROOM_TIERS" "t_id tier = tid" by (simp_all add: requireTier_Inr)
  from assms(5) Inr have "applyLoop d tier e MAX_CAS_ATTEMPTS 0 st = (r, st', ls)" by (simp add: applyEvent_def)
  from redis.applyLoop_wf [OF assms(1,2) t(1) assms(3,4) this] t(2) show ?thesis
    by (auto simp: request_ok_def)
qed

theorem redis_service_safe_witness:
  "\<exists>r st' ls. applyEvent (replica (\<lambda>_ st. st) 45000) ''bronze'' Tick
       (redis_with [counting ''bronze'' [queued ''a'' True, queued ''b'' True]]) = (r, st', ls) \<and>
     store_wf redis_ops st' \<and> length ls \<le> 1"
proof -
  let ?st = "redis_with [counting ''bronze'' [queued ''a'' True, queued ''b'' True]]"
  obtain r st' ls where run: "applyEvent (replica (\<lambda>_ st. st) 45000) ''bronze'' Tick ?st = (r, st', ls)"
    by (cases "applyEvent (replica (\<lambda>_ st. st) 45000) ''bronze'' Tick ?st")
  have "env_wf redis_ok (replica (\<lambda>_ st. st) 45000)" by (simp add: env_wf_def)
  moreover have "store_wf redis_ops ?st"
    by (rule redis_with_wf) (auto simp: counting_wf queued_def)
  ultimately show ?thesis
    using redis_service_safe [OF replica_simps(1) _ redis_with_ok _ run] run by blast
qed

text \<open>
  an event that is accepted without a launch takes effect in one step: if the other replicas bump
  the version of what they change, there is one store, the one it was finally written over, whose
  lobby was reduced by it, and no write of theirs is lost, however many attempts it took.
\<close>

theorem accepted_event_is_atomic:
  assumes "store d = redis_ops" and "honest redis_ok d" and "redis_ok st"
    and "applyEvent d tid e st = (Inr v, st', ls)" and "ar_rejected v = None" and "\<not> ar_launched v"
  shows "\<exists>st0 now tier. requireTier tid = Inr tier \<and>
           rejected (reduceLobby (redis_load st0 tid) e tier now) = None \<and>
           ar_state v = t_state (reduceLobby (redis_load st0 tid) e tier now) \<and>
           redis_load st' tid = ar_state v \<and> (\<forall>t. t \<noteq> tid \<longrightarrow> redis_load st' t = redis_load st0 t)"
proof (cases "requireTier tid")
  case (Inl err)
  with assms(4) show ?thesis by (cases err) (simp add: applyEvent_def)
next
  case (Inr tier)
  then have t: "tier \<in> set ROOM_TIERS" "t_id tier = tid" by (simp_all add: requireTier_Inr)
  from assms(4) Inr have "applyLoop d tier e MAX_CAS_ATTEMPTS 0 st = (Inr v, st', ls)" by (simp add: applyEvent_def)
  from redis.applyLoop_atomic [OF assms(1,2) t(1) assms(3) this assms(5,6)] Inr t(2) show ?thesis by auto
qed

text \<open>A replica that has somebody else's join slip in before its first write.\<close>

definition other_joins :: "nat \<Rightarrow> redis_db \<Rightarrow> redis_db" where
  "other_joins k st =
    (if k = 0 then (case redis_save st (t_state (reduceLobby (redis_load st ''bronze'') (Join newcomer)
                      (sample_tier ''bronze'') 0)) (version (redis_load st ''bronze'')) of
                     Inr (b, st') \<Rightarrow> st' | Inl _ \<Rightarrow> st) else st)"

lemma other_joins_eq:
  assumes "redis_ok st"
  shows "other_joins k st = (if k = 0 then st\<lparr>r_lobby := (r_lobby st)(LOBBY_KEY ''bronze'' \<mapsto>
     Json (t_state (reduceLobby (redis_load st ''bronze'') (Join newcomer) (sample_tier ''bronze'') 0)))\<rparr> else st)"
  using assms by (simp add: other_joins_def redis_save_eq redis_load_tier del: reduceLobby.simps)

lemma other_joins_honest: "honest redis_ok (replica other_joins now)"
  unfolding honest_def
proof (intro allI impI)
  fix k st assume ok: "redis_ok st"
  let ?s = "redis_load st ''bronze''"
  let ?r = "reduceLobby ?s (Join newcomer) (sample_tier ''bronze'') 0"
  have ti: "tierId (t_state ?r) = ''bronze''" using redis_load_tier [OF ok] by (simp del: reduceLobby.simps)
  have ok': "redis_ok (other_joins k st)"
    using redis_ok_put [OF ok, of "t_state ?r"] ok unfolding other_joins_eq [OF ok] ti by simp
  moreover have "redis_load (other_joins k st) t = redis_load st t"
    if v: "version (redis_load (other_joins k st) t) = version (redis_load st t)" for t
  proof (cases "k = 0 \<and> t = ''bronze''")
    case True
    with ok have l: "redis_load (other_joins k st) t = t_state ?r"
      using redis_load_put [of st "t_state ?r" t] unfolding ti by (simp add: other_joins_eq del: reduceLobby.simps)
    have "\<not> changed ?r" using reduceLobby_version [of ?s "Join newcomer" "sample_tier ''bronze''" 0] v l True by auto
    from reduceLobby_not_changed [OF this] l True show ?thesis by simp
  next
    case False
    with ok show ?thesis
      using redis_load_put [of st "t_state ?r" t] unfolding ti by (auto simp: other_joins_eq simp del: reduceLobby.simps)
  qed
  ultimately show "redis_ok (env (replica other_joins now) k st) \<and>
     (\<forall>t. version (load (store (replica other_joins now)) (env (replica other_joins now) k st) t) =
          version (load (store (replica other_joins now)) st t) \<longrightarrow>
          load (store (replica other_joins now)) (env (replica other_joins now) k st) t =
          load (store (replica other_joins now)) st t)"
    by simp
qed

definition first_player :: join_player where
  "first_player = \<lparr> jp_id = ''f'', jp_nickname = ''f'', jp_wallet = ''f'' \<rparr>"

lemma contended_join:
  "\<exists>v st'. applyEvent (replica other_joins 0) ''bronze'' (Join first_player) (redis_with []) = (Inr v, st', []) \<and>
     ar_rejected v = None \<and> \<not> ar_launched v \<and> map playerId (players (ar_state v)) = [''n'', ''f'']"
proof -
  have t: "requireTier ''bronze'' = Inr (sample_tier ''bronze'')" by (simp add: requireTier_Inr)
  have l: "redis_load (redis_with []) ''bronze'' = emptyLobby ''bronze''" by (simp add: redis_with_load)
  have o: "other_joins 0 (redis_with []) = redis_with [(emptyLobby ''bronze'')\<lparr>players := [queued ''n'' False], version := 1\<rparr>]"
    unfolding other_joins_eq [OF redis_with_ok] l
    by (simp add: settle_def newcomer_def isAtCapacity_def Let_def
        redis_with_def queued_def)
  show ?thesis
    by (simp add: applyEvent_def t MAX_CAS_ATTEMPTS_def numeral_eq_Suc Let_def redis_with_load o settle_def
        isAtCapacity_def first_player_def redis_save_eq redis_with_ok queued_def other_joins_def [of "Suc _"])
qed

theorem accepted_event_is_atomic_witness:
  "\<exists>v st'. applyEvent (replica other_joins 0) ''bronze'' (Join first_player) (redis_with []) = (Inr v, st', []) \<and>
     map playerId (players (redis_load st' ''bronze'')) = [''n'', ''f'']"
proof -
  obtain v st' where run: "applyEvent (replica other_joins 0) ''bronze'' (Join first_player) (redis_with []) = (Inr v, st', [])"
    and v: "ar_rejected v = None" "\<not> ar_launched v" "map playerId (players (ar_state v)) = [''n'', ''f'']"
    using contended_join by (elim exE conjE) (rule that)
  from accepted_event_is_atomic [OF replica_simps(1) other_joins_honest redis_with_ok run v(1,2)] run v(3)
  show ?thesis by auto
qed

text \<open>
  a launch by tick is not exclusive: a tick leaves the version as it found it, so when another
  replica has already ticked the same lobby into its launch and saved it, this replica's write still
  passes the compare-and-set, and it launches the same players a second time.
\<close>

theorem tick_launches_twice:
  assumes "store d = redis_ops" and "redis_ok st" and "store_wf redis_ops st" and "tier \<in> set ROOM_TIERS"
    and "s = redis_load st (t_id tier)"
    and "shouldLaunch (reduceLobby s Tick tier now')"
    and "redis_save st (t_state (reduceLobby s Tick tier now')) (version s) = Inr (b, st1)"
    and "env d 0 st = st1"
    and "shouldLaunch (reduceLobby s Tick tier (clock d 0))"
  shows "b \<and> (\<exists>v st' q. applyEvent d (t_id tier) Tick st = (Inr v, st', [q]) \<and> ar_launched v \<and>
           lr_players q = players (t_state (reduceLobby s Tick tier (clock d 0))) \<and> lr_gameId q = gameId s)"
proof -
  have "s = load redis_ops st (t_id tier)" using assms(5) by simp
  moreover have "save redis_ops st (t_state (reduceLobby s Tick tier now')) (version s) = Inr (b, st1)"
    using assms(7) by simp
  ultimately show ?thesis
    using redis.both_replicas_launch [OF assms(1-4) _ assms(6) _ assms(8,9)]
    unfolding redis.applyEvent_known [OF assms(4)] redis.MAX_CAS_ATTEMPTS_eq by blast
qed

definition other_ticks :: "nat \<Rightarrow> redis_db \<Rightarrow> redis_db" where
  "other_ticks k st =
    (case redis_save st (t_state (reduceLobby (redis_load st ''bronze'') Tick (sample_tier ''bronze'') 45000))
            (version (redis_load st ''bronze'')) of
       Inr (b, st') \<Rightarrow> st' | Inl _ \<Rightarrow> st)"

theorem tick_launches_twice_witness:
  "\<exists>v st' q. applyEvent (replica other_ticks 45001) ''bronze'' Tick
       (redis_with [counting ''bronze'' [queued ''a'' True, queued ''b'' True]]) = (Inr v, st', [q]) \<and>
     map playerId (lr_players q) = [''a'', ''b'']"
proof -
  let ?s = "counting ''bronze'' [queued ''a'' True, queued ''b'' True]"
  let ?st = "redis_with [?s]"
  have l: "?s = redis_load ?st (t_id (sample_tier ''bronze''))" by (simp add: redis_with_load counting_def)
  have due: "shouldLaunch (reduceLobby ?s Tick (sample_tier ''bronze'') now)" if "45000 \<le> now" for now
    using that by (simp add: settle_def counting_def queued_def Let_def)
  have wf: "store_wf redis_ops ?st" by (rule redis_with_wf) (auto simp: counting_wf queued_def)
  obtain st1 where sv: "redis_save ?st (t_state (reduceLobby ?s Tick (sample_tier ''bronze'') 45000)) (version ?s) = Inr (True, st1)"
    by (simp add: redis_save_eq [OF redis_with_ok] redis_with_load counting_def)
  have "env (replica other_ticks 45001) 0 ?st = st1"
    using sv l by (simp add: other_ticks_def del: reduceLobby.simps)
  from tick_launches_twice [OF replica_simps(1) redis_with_ok wf _ l due sv this, unfolded replica_simps, OF _ _ due]
  have "\<exists>v st' q. applyEvent (replica other_ticks 45001) ''bronze'' Tick ?st = (Inr v, st', [q]) \<and>
      lr_players q = players (t_state (reduceLobby ?s Tick (sample_tier ''bronze'') 45001))" by auto
  moreover have "map playerId (players (t_state (reduceLobby ?s Tick (sample_tier ''bronze'') 45001))) = [''a'', ''b'']"
    by (simp add: settle_def counting_def queued_def Let_def)
  ultimately show ?thesis by metis
qed

text \<open>
  joining a second room does not always leave the first: a launching room refuses the leave, the
  refusal is ignored, and the player ends up in both rosters with the index pointing at the second.
\<close>

theorem join_keeps_player_in_launching_lobby:
  assumes "store d = redis_ops" and "alone d" and "redis_ok st" and "tier \<in> set ROOM_TIERS" and "u \<in> set ROOM_TIERS"
    and "t_id u \<noteq> t_id tier" and "redis_findPlayerLobby st (jp_id p) = Some (t_id u)"
    and "status (redis_load st (t_id u)) = Launching" and "jp_id p \<in> playerId ` set (players (redis_load st (t_id u)))"
    and "isJoinable (redis_load st (t_id tier)) tier" and "status (redis_load st (t_id tier)) = Waiting"
    and "jp_id p \<notin> playerId ` set (players (redis_load st (t_id tier)))"
  shows "\<exists>r st'. join d (t_id tier) p st = (Inr r, st', []) \<and> jr_ok r \<and>
           jp_id p \<in> playerId ` set (players (redis_load st' (t_id tier))) \<and>
           jp_id p \<in> playerId ` set (players (redis_load st' (t_id u))) \<and>
           redis_findPlayerLobby st' (jp_id p) = Some (t_id tier)"
proof -
  let ?s = "redis_load st (t_id tier)"
  let ?r = "reduceLobby ?s (Join p) tier (clock d 0)"
  let ?q = "\<lparr> playerId = jp_id p, nickname = jp_nickname p, wallet = jp_wallet p, joinedAt = clock d 0, ready = False \<rparr>"
  let ?s' = "?s\<lparr>players := players ?s @ [?q], version := version ?s + 1\<rparr>"
  have nl: "\<not> shouldLaunch ?r" using reduceLobby_launch [of ?s "Join p" tier "clock d 0"] assms(11) by auto
  have acc: "rejected ?r = None" using assms(10,12) join_accepted_iff by blast
  then have "t_state ?r = t_state (settle ?s' tier (clock d 0) True)" by (simp add: Let_def split: if_splits)
  moreover have "players (t_state (settle ?s' tier (clock d 0) True)) = players ?s'"
    using settle_scheduled [of ?s'] settle_short(3) [of ?s' tier] settle_start(3) [of ?s' tier] assms(11)
    by (cases "scheduled ?s'"; cases "length (players ?s') < minPlayers tier") (auto simp: not_less)
  ultimately have mem: "jp_id p \<in> playerId ` set (players (t_state ?r))" by simp
  have "isJoinable (load redis_ops st (t_id tier)) tier" "jp_id p \<notin> playerId ` set (players (load redis_ops st (t_id tier)))"
    "\<not> shouldLaunch (reduceLobby (load redis_ops st (t_id tier)) (Join p) tier (clock d 0))"
    using assms(10,12) nl by (simp_all del: reduceLobby.simps)
  moreover have "findPlayerLobby redis_ops st (jp_id p) = None \<or>
      (\<exists>u \<in> set ROOM_TIERS. findPlayerLobby redis_ops st (jp_id p) = Some (t_id u) \<and>
         (t_id u = t_id tier \<or> status (load redis_ops st (t_id u)) = Launching))"
    using assms(5,7,8) by auto
  ultimately obtain r st' where j: "join d (t_id tier) p st = (Inr r, st', [])" "jr_ok r"
    and l: "load redis_ops st' (t_id tier) = t_state (reduceLobby (load redis_ops st (t_id tier)) (Join p) tier (clock d 0))"
    and o: "\<And>t. t \<noteq> t_id tier \<Longrightarrow> load redis_ops st' t = load redis_ops st t"
    and f: "\<And>q. findPlayerLobby redis_ops st' q = (if q = jp_id p then Some (t_id tier) else findPlayerLobby redis_ops st q)"
    using redis.join_alone [OF assms(1-4)] by blast
  have "redis_load st' (t_id tier) = t_state ?r" using l by (simp del: reduceLobby.simps)
  with mem have m: "jp_id p \<in> playerId ` set (players (redis_load st' (t_id tier)))" by (simp del: reduceLobby.simps)
  have "redis_load st' (t_id u) = redis_load st (t_id u)" using o [OF assms(6)] by simp
  then show ?thesis using j m assms(9) f [of "jp_id p"] by auto
qed

definition torn_redis :: redis_db where
  "torn_redis = (redis_with [(counting ''bronze'' [queued ''n'' True, queued ''b'' True])\<lparr>status := Launching, countdownEndsAt := None\<rparr>])
     \<lparr>r_player := [PLAYER_KEY ''n'' \<mapsto> (''bronze'', 1)]\<rparr>"

theorem join_keeps_player_in_launching_lobby_witness:
  "\<exists>r st'. join (replica (\<lambda>_ st. st) 0) ''silver'' newcomer torn_redis = (Inr r, st', []) \<and> jr_ok r \<and>
     ''n'' \<in> playerId ` set (players (redis_load st' ''silver'')) \<and>
     ''n'' \<in> playerId ` set (players (redis_load st' ''bronze''))"
proof -
  have l: "redis_load torn_redis t = redis_load (redis_with [(counting ''bronze'' [queued ''n'' True, queued ''b'' True])
      \<lparr>status := Launching, countdownEndsAt := None\<rparr>]) t" for t
    by (simp add: torn_redis_def redis_load_def)
  have ok: "redis_ok torn_redis"
    using redis_with_ok by (simp add: torn_redis_def redis_ok_def)
  have s: "redis_load torn_redis ''silver'' = emptyLobby ''silver''" by (simp add: l redis_with_load counting_def)
  have b: "redis_load torn_redis ''bronze'' = (counting ''bronze'' [queued ''n'' True, queued ''b'' True])
      \<lparr>status := Launching, countdownEndsAt := None\<rparr>" by (simp add: l redis_with_load counting_def)
  have f: "redis_findPlayerLobby torn_redis ''n'' = Some ''bronze''"
    by (simp add: torn_redis_def redis_findPlayerLobby_def redis_with_def)
  have "isJoinable (emptyLobby ''silver'') (sample_tier ''silver'')" by (simp add: isJoinable_def isAtCapacity_def)
  then show ?thesis
    using join_keeps_player_in_launching_lobby [OF replica_simps(1) replica_alone ok sample_tier_simps(8,1), of newcomer 0]
    by (simp add: s b f newcomer_def queued_def counting_def del: reduceLobby.simps) blast
qed

text \<open>
  resetting a lobby empties its roster but not the index: the loop that should clear the entries of
  the players runs over the roster after the reset, so each of them is still found in the lobby.
\<close>

theorem reset_leaves_index:
  assumes "store d = redis_ops" and "alone d" and "redis_ok st" and "tier \<in> set ROOM_TIERS"
    and "redis_findPlayerLobby st p = Some (t_id tier)"
  shows "\<exists>r st'. reset_lobby d (t_id tier) st = (Inr r, st', []) \<and> players (redis_load st' (t_id tier)) = [] \<and>
           whereIs d p st' = Some (t_id tier)"
  using redis.reset_keeps_index [OF assms(1-4)] assms(1,5) by (auto simp: whereIs_def)

theorem reset_leaves_index_witness:
  "\<exists>r st'. reset_lobby (replica (\<lambda>_ st. st) 0) ''bronze'' torn_redis = (Inr r, st', []) \<and>
     players (redis_load st' ''bronze'') = [] \<and> whereIs (replica (\<lambda>_ st. st) 0) ''n'' st' = Some ''bronze''"
proof -
  have ok: "redis_ok torn_redis" using redis_with_ok by (simp add: torn_redis_def redis_ok_def)
  have f: "redis_findPlayerLobby torn_redis ''n'' = Some (t_id (sample_tier ''bronze''))"
    by (simp add: torn_redis_def redis_findPlayerLobby_def redis_with_def)
  from reset_leaves_index [OF replica_simps(1) replica_alone ok sample_tier_simps(1) f]
  show ?thesis by simp
qed

text \<open>
  a corrupt payload in Redis reads as an empty lobby, but no event can replace it: the
  compare-and-set script decodes the stored text itself and raises, so every join fails in the store.
\<close>

theorem corrupt_lobby_stays_dead:
  assumes "r_lobby st (LOBBY_KEY (t_id tier)) = Some Corrupt" and "tier \<in> set ROOM_TIERS"
    and "store d = redis_ops" and "alone d"
  shows "get_lobby d (t_id tier) st = summarize d (emptyLobby (t_id tier)) \<and>
         applyEvent d (t_id tier) (Join p) st = (Inl (StoreFailed CorruptPayload), st, [])"
proof (rule conjI)
  have l: "redis_load st (t_id tier) = emptyLobby (t_id tier)" using assms(1) by (simp add: redis_load_def)
  then show "get_lobby d (t_id tier) st = summarize d (emptyLobby (t_id tier))" using assms(3) by (simp add: get_lobby_def)
  let ?r = "reduceLobby (emptyLobby (t_id tier)) (Join p) tier (clock d 0)"
  have acc: "rejected ?r = None"
    using tier_bounds(3) [OF assms(2)] by (simp only: join_accepted_iff) (simp add: isJoinable_def isAtCapacity_def)
  have ti: "tierId (t_state ?r) = t_id tier" by (simp only: reduceLobby_tierId emptyLobby_simps)
  have "changed ?r"
  proof (rule ccontr)
    assume "\<not> changed ?r"
    then have "t_state ?r = emptyLobby (t_id tier)" by (rule reduceLobby_not_changed)
    moreover have "0 < version (t_state ?r)" using acc by (simp add: Let_def split: if_splits)
    ultimately show False by (simp del: reduceLobby.simps)
  qed
  moreover have "redis_save st (t_state ?r) v = Inl CorruptPayload" for v
    using redis_corrupt_stuck(2) [of st "t_state ?r" v] assms(1) unfolding ti by simp
  ultimately show "applyEvent d (t_id tier) (Join p) st = (Inl (StoreFailed CorruptPayload), st, [])"
    using acc l assms(3,4) unfolding redis.applyEvent_known [OF assms(2)] redis.MAX_CAS_ATTEMPTS_eq
    by (simp add: Let_def alone_def del: reduceLobby.simps)
qed

theorem corrupt_lobby_stays_dead_witness:
  "applyEvent (replica (\<lambda>_ st. st) 0) ''bronze'' (Join newcomer)
     ((redis_with [])\<lparr>r_lobby := [LOBBY_KEY ''bronze'' \<mapsto> Corrupt]\<rparr>) =
   (Inl (StoreFailed CorruptPayload), (redis_with [])\<lparr>r_lobby := [LOBBY_KEY ''bronze'' \<mapsto> Corrupt]\<rparr>, [])"
  using corrupt_lobby_stays_dead [OF _ sample_tier_simps(1) replica_simps(1) replica_alone,
      of "(redis_with [])\<lparr>r_lobby := [LOBBY_KEY ''bronze'' \<mapsto> Corrupt]\<rparr>" 0 newcomer]
  by simp

end
