(* ===== verification/Lobby_Equivalence.thy ===== *)
theory Lobby_Equivalence
  imports Lobby_Service
begin

text \<open>
  The service does not see which store it runs on: two stores that meet the contract and agree on
  what they hold answer every sequence of requests alike. Tests on the in-memory store therefore
  speak for Redis, as long as the payloads of Redis parse, no entry of the index expires and the
  in-memory store is not told to fail.
\<close>

section \<open>Requests\<close>

text \<open>The public operations of the service as data, so that a history is a list.\<close>

datatype lobby_request =
    ReqJoin string join_player
  | ReqLeave string string
  | ReqReady string string bool
  | ReqTick string
  | ReqOpen string "string option" bool
  | ReqClose string
  | ReqReset string

datatype lobby_response = Answered join_result | Ticked bool | Shown "lobby_summary option"

definition h_map :: "('a \<Rightarrow> 'b) \<Rightarrow> ('st, 'a) handled \<Rightarrow> ('st, 'b) handled" where
  "h_map f m = (case m of (r, st, ls) \<Rightarrow> (map_sum id f r, st, ls))"

fun serve :: "'st service_deps \<Rightarrow> lobby_request \<Rightarrow> 'st \<Rightarrow> ('st, lobby_response) handled" where
  "serve d (ReqJoin tid p) st = h_map Answered (join d tid p st)"
| "serve d (ReqLeave tid pid) st = h_map Answered (leave d tid pid st)"
| "serve d (ReqReady tid pid r) st = h_map Answered (setReady d tid pid r st)"
| "serve d (ReqTick tid) st = h_map Ticked (tick d tid st)"
| "serve d (ReqOpen tid g sched) st = h_map Shown (open_lobby d tid g sched st)"
| "serve d (ReqClose tid) st = h_map Shown (close_lobby d tid st)"
| "serve d (ReqReset tid) st = h_map Shown (reset_lobby d tid st)"

text \<open>A history: each request with the service as it is configured at that moment.\<close>

fun serve_all :: "('st service_deps \<times> lobby_request) list \<Rightarrow> 'st
    \<Rightarrow> ((service_error, lobby_response) res \<times> launch_request list) list \<times> 'st" where
  "serve_all [] st = ([], st)"
| "serve_all ((d, q) # qs) st =
    (case serve d q st of (r, st1, ls) \<Rightarrow>
      case serve_all qs st1 of (rs, st2) \<Rightarrow> ((r, ls) # rs, st2))"

section \<open>Two stores that agree\<close>

locale store_pair = A: lobby_store opsA okA + B: lobby_store opsB okB
  for opsA :: "'a store_ops" and okA :: "'a \<Rightarrow> bool" and opsB :: "'b store_ops" and okB :: "'b \<Rightarrow> bool"
begin

definition agree :: "'a \<Rightarrow> 'b \<Rightarrow> bool" where
  "agree a b \<longleftrightarrow> okA a \<and> okB b \<and> (\<forall>t. load opsA a t = load opsB b t) \<and>
     (\<forall>p. findPlayerLobby opsA a p = findPlayerLobby opsB b p)"

text \<open>Two configurations that differ only in the store, with competitors that keep the stores in step.\<close>

definition twins :: "'a service_deps \<Rightarrow> 'b service_deps \<Rightarrow> bool" where
  "twins dA dB \<longleftrightarrow> store dA = opsA \<and> store dB = opsB \<and> launch dA = launch dB \<and> clock dA = clock dB \<and>
     clockEnd dA = clockEnd dB \<and> (\<forall>k a b. agree a b \<longrightarrow> agree (env dA k a) (env dB k b))"

definition alike :: "('a, 'v) handled \<Rightarrow> ('b, 'v) handled \<Rightarrow> bool" where
  "alike x y \<longleftrightarrow> fst x = fst y \<and> snd (snd x) = snd (snd y) \<and> agree (fst (snd x)) (fst (snd y))"

lemma alikeI: "r = r' \<Longrightarrow> ls = ls' \<Longrightarrow> agree a b \<Longrightarrow> alike (r, a, ls) (r', b, ls')"
  by (simp add: alike_def)

lemma alikeD: "alike (r, a, ls) (r', b, ls') \<Longrightarrow> r = r' \<and> ls = ls' \<and> agree a b"
  by (simp add: alike_def)

lemma save_alike:
  assumes "agree a b"
  obtains c a' b' where "save opsA a s v = Inr (c, a')" and "save opsB b s v = Inr (c, b')" and "agree a' b'"
proof -
  have ok: "okA a" "okB b" and l: "\<And>t. load opsA a t = load opsB b t"
    and f: "\<And>p. findPlayerLobby opsA a p = findPlayerLobby opsB b p"
    using assms by (auto simp: agree_def)
  obtain c a' c' b' where sv: "save opsA a s v = Inr (c, a')" "save opsB b s v = Inr (c', b')"
    using A.save_total [OF ok(1)] B.save_total [OF ok(2)] by metis
  note ca = A.save_cases [OF ok(1) sv(1)] and cb = B.save_cases [OF ok(2) sv(2)]
  have c: "c' = c" using ca(1) cb(1) l by simp
  have "load opsA a' t = load opsB b' t" for t
    using ca(3,4,5) cb(3,4,5) l c by (cases c; cases "t = tierId s") auto
  then have "agree a' b'" using ca(2,6) cb(2,6) f by (simp add: agree_def)
  with sv c that show thesis by simp
qed

lemma set_alike: "agree a b \<Longrightarrow> agree (setPlayerLobby opsA a p l) (setPlayerLobby opsB b p l)"
  by (simp add: agree_def A.set_ok B.set_ok A.set_load B.set_load A.set_find B.set_find)

lemma clear_alike: "agree a b \<Longrightarrow> agree (clearPlayers opsA a ps) (clearPlayers opsB b ps)"
  by (induction ps arbitrary: a b) (auto intro: set_alike)

lemma bind_alike:
  assumes "alike m m'" and "\<And>v a b. agree a b \<Longrightarrow> alike (f v a) (g v b)"
  shows "alike (h_bind m f) (h_bind m' g)"
proof -
  obtain r a ls where m: "m = (r, a, ls)" by (cases m)
  obtain r' b ls' where m': "m' = (r', b, ls')" by (cases m')
  have e: "r' = r" "ls' = ls" "agree a b" using assms(1) by (simp_all add: m m' alike_def)
  show ?thesis
  proof (cases r)
    case (Inl err)
    with m m' e show ?thesis by (simp add: alike_def)
  next
    case (Inr v)
    with m m' e assms(2) [OF e(3), of v] show ?thesis by (simp add: alike_def)
  qed
qed

lemma map_alike: "alike m m' \<Longrightarrow> alike (h_map f m) (h_map f m')"
  by (cases m; cases m') (simp add: h_map_def alike_def)

lemma tryLaunch_alike:
  assumes tw: "twins dA dB" and ag: "agree a b"
  shows "fst (tryLaunch dA tier s a) = fst (tryLaunch dB tier s b) \<and>
         agree (snd (tryLaunch dA tier s a)) (snd (tryLaunch dB tier s b))"
proof -
  let ?req = "\<lparr> lr_tierId = t_id tier, lr_players = players s, lr_tier = tier, lr_gameId = gameId s \<rparr>"
  have d: "store dA = opsA" "store dB = opsB" "launch dA = launch dB" "clock dA = clock dB"
    using tw by (simp_all add: twins_def)
  show ?thesis
  proof (cases "launch dB ?req")
    case (Inl e)
    with d ag show ?thesis by (simp add: tryLaunch_def)
  next
    case (Inr g)
    let ?m = "t_state (reduceLobby s (Launched g) tier (clock dB 0))"
    let ?r = "t_state (reduceLobby ?m Reset tier (clock dB 0))"
    obtain c a1 b1 where s1: "save opsA a ?m (version s) = Inr (c, a1)" "save opsB b ?m (version s) = Inr (c, b1)"
      and g1: "agree a1 b1" by (rule save_alike [OF ag])
    have g2: "agree (clearPlayers opsA a1 (players s)) (clearPlayers opsB b1 (players s))" by (rule clear_alike [OF g1])
    obtain c' a2 b2 where s2: "save opsA (clearPlayers opsA a1 (players s)) ?r (version ?m) = Inr (c', a2)"
      "save opsB (clearPlayers opsB b1 (players s)) ?r (version ?m) = Inr (c', b2)"
      and g3: "agree a2 b2" by (rule save_alike [OF g2])
    show ?thesis
      unfolding tryLaunch_def d Inr sum.case Let_def s1 s2 prod.case
      using g3 by simp
  qed
qed

lemma performLaunch_alike:
  assumes tw: "twins dA dB" and ag: "agree a b"
  shows "alike (performLaunch dA tier s a) (performLaunch dB tier s b)"
proof -
  have d: "store dA = opsA" "store dB = opsB" "clock dA = clock dB" using tw by (simp_all add: twins_def)
  obtain r a1 where ta: "tryLaunch dA tier s a = (r, a1)" by (cases "tryLaunch dA tier s a")
  obtain r' b1 where tb: "tryLaunch dB tier s b = (r', b1)" by (cases "tryLaunch dB tier s b")
  have e: "r' = r" "agree a1 b1" using tryLaunch_alike [OF assms, of tier s] ta tb by auto
  show ?thesis
  proof (cases r)
    case (Inr m)
    with ta tb e show ?thesis by (simp add: performLaunch_def alike_def)
  next
    case (Inl u)
    let ?r = "t_state (reduceLobby s Reset tier (clock dB 0))"
    obtain c a2 b2 where sv: "save opsA a1 ?r (version s) = Inr (c, a2)" "save opsB b1 ?r (version s) = Inr (c, b2)"
      and g: "agree a2 b2" by (rule save_alike [OF e(2)])
    show ?thesis
      unfolding performLaunch_def Let_def ta tb e(1) Inl d prod.case sum.case sv
      using g by (simp add: alike_def)
  qed
qed

lemma applyLoop_alike:
  assumes tw: "twins dA dB"
  shows "agree a b \<Longrightarrow> alike (applyLoop dA tier e n k a) (applyLoop dB tier e n k b)"
proof (induction n arbitrary: k a b)
  case 0
  then show ?case by (simp add: alike_def)
next
  case (Suc n)
  have d: "store dA = opsA" "store dB = opsB" "clock dA = clock dB"
    and env: "agree (env dA k a) (env dB k b)" using tw Suc.prems by (simp_all add: twins_def)
  have l: "load opsA a (t_id tier) = load opsB b (t_id tier)" using Suc.prems by (simp add: agree_def)
  let ?c = "load opsB b (t_id tier)"
  let ?res = "reduceLobby ?c e tier (clock dB k)"
  obtain c a2 b2 where sv: "save opsA (env dA k a) (t_state ?res) (version ?c) = Inr (c, a2)"
    "save opsB (env dB k b) (t_state ?res) (version ?c) = Inr (c, b2)" and g: "agree a2 b2"
    by (rule save_alike [OF env])
  have "alike (h_bind (performLaunch dA tier (t_state ?res) a2)
        (\<lambda>launched st3. (Inr \<lparr> ar_state = launched, ar_rejected = None, ar_launched = True \<rparr>, st3, [])))
      (h_bind (performLaunch dB tier (t_state ?res) b2)
        (\<lambda>launched st3. (Inr \<lparr> ar_state = launched, ar_rejected = None, ar_launched = True \<rparr>, st3, [])))"
    by (intro bind_alike performLaunch_alike [OF tw g]) (simp add: alike_def)
  moreover have "alike (applyLoop dA tier e n (Suc k) a2) (applyLoop dB tier e n (Suc k) b2)"
    by (rule Suc.IH [OF g])
  ultimately show ?case
    unfolding applyLoop.simps Let_def d l sv sum.case prod.case
    using Suc.prems g by (auto simp: alikeI split: option.split)
qed

lemma applyEvent_alike: "twins dA dB \<Longrightarrow> agree a b \<Longrightarrow> alike (applyEvent dA tid e a) (applyEvent dB tid e b)"
  unfolding applyEvent_def
  by (cases "requireTier tid") (auto intro: alikeI applyLoop_alike split: tier_error.split)

lemma summarize_alike: "twins dA dB \<Longrightarrow> summarize dA s = summarize dB s"
  by (auto simp: summarize_def twins_def split: option.split)

lemma joinResultOf_alike: "twins dA dB \<Longrightarrow> joinResultOf dA r = joinResultOf dB r"
  by (simp add: joinResultOf_def summarize_alike)

lemma leave_alike:
  assumes tw: "twins dA dB" and ag: "agree a b"
  shows "alike (leave dA tid pid a) (leave dB tid pid b)"
  unfolding leave_def using tw
  by (intro bind_alike applyEvent_alike [OF tw ag])
     (auto simp: alike_def Let_def joinResultOf_alike [OF tw] set_alike twins_def)

lemma join_alike:
  assumes tw: "twins dA dB" and ag: "agree a b"
  shows "alike (join dA tid p a) (join dB tid p b)"
proof -
  have d: "store dA = opsA" "store dB = opsB" using tw by (simp_all add: twins_def)
  have f: "findPlayerLobby opsA a (jp_id p) = findPlayerLobby opsB b (jp_id p)" using ag by (simp add: agree_def)
  have "alike (h_bind (leave dA ex (jp_id p) a) (\<lambda>_ st1. (Inr (), st1, [])))
              (h_bind (leave dB ex (jp_id p) b) (\<lambda>_ st1. (Inr (), st1, [])))" for ex
    by (intro bind_alike leave_alike [OF tw ag]) (simp add: alike_def)
  moreover have "alike (Inr (), a, []) (Inr (), b, [])" using ag by (simp add: alike_def)
  ultimately show ?thesis
    unfolding join_def d f
    by (intro bind_alike applyEvent_alike [OF tw])
       (auto simp: alike_def Let_def joinResultOf_alike [OF tw] set_alike split: option.split)
qed

lemma serve_alike:
  assumes tw: "twins dA dB" and ag: "agree a b"
  shows "alike (serve dA q a) (serve dB q b)"
proof (cases q)
  case (ReqJoin tid p)
  then show ?thesis by (simp add: map_alike join_alike [OF assms])
next
  case (ReqLeave tid pid)
  then show ?thesis by (simp add: map_alike leave_alike [OF assms])
next
  case (ReqReset tid)
  have d: "store dA = opsA" "store dB = opsB" using tw by (simp_all add: twins_def)
  show ?thesis
    unfolding ReqReset serve.simps reset_lobby_def d
    by (intro map_alike bind_alike applyEvent_alike [OF assms])
       (simp add: alike_def summarize_alike [OF tw] clear_alike)
next
  case (ReqReady tid pid r)
  show ?thesis
    unfolding ReqReady serve.simps setReady_def
    by (intro map_alike bind_alike applyEvent_alike [OF assms])
       (simp add: alike_def joinResultOf_alike [OF tw])
next
  case (ReqOpen tid g sched)
  show ?thesis
    unfolding ReqOpen serve.simps open_lobby_def
    by (intro map_alike bind_alike applyEvent_alike [OF assms])
       (simp add: alike_def summarize_alike [OF tw])
next
  case (ReqClose tid)
  show ?thesis
    unfolding ReqClose serve.simps close_lobby_def
    by (intro map_alike bind_alike applyEvent_alike [OF assms])
       (simp add: alike_def summarize_alike [OF tw])
next
  case (ReqTick tid)
  show ?thesis
    unfolding ReqTick serve.simps tick_def
    by (intro map_alike bind_alike applyEvent_alike [OF assms]) (simp add: alike_def)
qed

lemma serve_all_alike:
  assumes "list_all (\<lambda>(dA, dB, q). twins dA dB) qs" and "agree a b"
  shows "fst (serve_all (map (\<lambda>(dA, dB, q). (dA, q)) qs) a) = fst (serve_all (map (\<lambda>(dA, dB, q). (dB, q)) qs) b)"
  using assms
proof (induction qs arbitrary: a b)
  case Nil
  then show ?case by simp
next
  case (Cons x qs)
  obtain dA dB q where x: "x = (dA, dB, q)" by (cases x)
  obtain r a1 ls where sa: "serve dA q a = (r, a1, ls)" by (cases "serve dA q a")
  obtain r' b1 ls' where sb: "serve dB q b = (r', b1, ls')" by (cases "serve dB q b")
  have e: "r' = r" "ls' = ls" "agree a1 b1"
    using serve_alike [of dA dB a b q] Cons.prems x sa sb by (auto simp: alike_def)
  from Cons.IH [OF _ e(3)] Cons.prems x sa sb e show ?case
    by (simp add: case_prod_unfold)
qed

end

interpretation mem_redis: store_pair mem_ops mem_ok redis_ops redis_ok
  by unfold_locales

section \<open>Memory and Redis\<close>

definition in_step :: "mem_store \<Rightarrow> redis_db \<Rightarrow> bool" where
  "in_step m r \<longleftrightarrow> mem_ok m \<and> redis_ok r \<and> (\<forall>t. mem_load m t = redis_load r t) \<and>
     (\<forall>p. mem_findPlayerLobby m p = redis_findPlayerLobby r p)"

definition same_service :: "mem_store service_deps \<Rightarrow> redis_db service_deps \<Rightarrow> bool" where
  "same_service dA dB \<longleftrightarrow> store dA = mem_ops \<and> store dB = redis_ops \<and> launch dA = launch dB \<and>
     clock dA = clock dB \<and> clockEnd dA = clockEnd dB \<and>
     (\<forall>k m r. in_step m r \<longrightarrow> in_step (env dA k m) (env dB k r))"

definition redis_empty :: redis_db where
  "redis_empty = \<lparr> r_now = 0, r_lobby = Map.empty, r_player = Map.empty \<rparr>"

lemma in_step_eq: "mem_redis.agree = in_step"
  by (simp add: fun_eq_iff mem_redis.agree_def in_step_def)

lemma same_service_eq: "mem_redis.twins = same_service"
  by (simp add: fun_eq_iff mem_redis.twins_def same_service_def in_step_eq)

lemma empty_in_step: "in_step mem_empty redis_empty"
  by (simp add: in_step_def mem_load_def redis_load_def mem_findPlayerLobby_def redis_findPlayerLobby_def
      mem_empty_def redis_empty_def mem_ok_def redis_ok_def)

text \<open>
  C36: while nothing expires, the in-memory store stands in for Redis: started empty, with the clock of Redis standing still, so that
  no entry of its index of players runs out, the lobby service answers every history of requests alike on both stores, makes the same
  launches, and fails alike, as long as the competing replicas treat the two stores alike. (The in-memory index keeps its entries for
  ever; after the half hour that Redis keeps one the two differ.)
\<close>

theorem memory_stands_in_for_redis:
  assumes "list_all (\<lambda>(dA, dB, q). same_service dA dB) qs"
  shows "fst (serve_all (map (\<lambda>(dA, dB, q). (dA, q)) qs) mem_empty) =
         fst (serve_all (map (\<lambda>(dA, dB, q). (dB, q)) qs) redis_empty)"
  by (rule mem_redis.serve_all_alike [unfolded same_service_eq in_step_eq, OF assms empty_in_step])

definition lone :: "'st store_ops \<Rightarrow> int \<Rightarrow> 'st service_deps" where
  "lone ops now = \<lparr> store = ops, launch = (\<lambda>_. Inr ''g1''), clock = (\<lambda>_. now), clockEnd = now, env = (\<lambda>_ st. st) \<rparr>"

theorem memory_stands_in_for_redis_witness:
  "fst (serve_all [(lone mem_ops 0, ReqTick ''practice''), (lone mem_ops 9, ReqReset ''practice'')] mem_empty) =
   fst (serve_all [(lone redis_ops 0, ReqTick ''practice''), (lone redis_ops 9, ReqReset ''practice'')] redis_empty)"
  using memory_stands_in_for_redis [of "[(lone mem_ops 0, lone redis_ops 0, ReqTick ''practice''),
      (lone mem_ops 9, lone redis_ops 9, ReqReset ''practice'')]"]
  by (simp add: same_service_def lone_def del: serve_all.simps)

end
