(* ===== verification/Db.thy ===== *)
theory Db
  imports Prelude
begin

text \<open>
  The database the money code works on (\<open>packages/db/prisma/schema.prisma\<close>), one list of rows per
  table, with the operations of the Prisma client the code uses. A unique column is checked when
  a row is created, as the index does; an \<open>update\<close> that finds no row throws.

  \<^item> Amounts are \<open>bigint\<close>, hence \<open>int\<close>; dates are epoch milliseconds; \<open>null\<close> is \<open>None\<close>.
  \<^item> Identifiers are drawn from the stream \<open>uuids\<close>, an unspecified source of strings; nothing is
    assumed of it, since a repeated identifier is refused by the primary key.
  \<^item> The body of a \<open>$transaction\<close> is a function to \<open>('a \<times> db) res\<close>: on \<open>Inl\<close> the database it had
    built is dropped, which is the rollback. Transactions are modelled as serialised.
\<close>

section \<open>Tables\<close>

datatype pool_kind = USER_CUSTODY | GAME_ESCROW | TREASURY | RAKE_POOL | REWARDS | EXTERNAL

record pool_account =
  pa_id :: string
  pa_kind :: pool_kind
  pa_name :: string
  pa_owner :: "string option"
  pa_game :: "string option"
  pa_balance :: int
  pa_reserved :: int
  pa_version :: nat

datatype tx_type =
  DEPOSIT | WITHDRAWAL | ENTRY_FEE | PAYOUT | RAKE | REWARD | REFUND | TRANSFER | ADJUSTMENT

datatype tx_direction = CREDIT | DEBIT

datatype tx_status = TX_PENDING | POSTED | REVERSED

record ledger_tx =
  tx_id :: string
  tx_group :: string
  tx_type :: tx_type
  tx_direction :: tx_direction
  tx_status :: tx_status
  tx_amount :: int
  tx_balanceAfter :: int
  tx_user :: "string option"
  tx_pool :: string
  tx_game :: "string option"
  tx_deposit :: "string option"
  tx_withdrawal :: "string option"
  tx_reward :: "string option"
  tx_key :: string
  tx_description :: "string option"

record stake_reservation =
  sr_id :: string
  sr_user :: string
  sr_tier :: string
  sr_lamports :: int

datatype game_status = PENDING | RUNNING | COMPLETED | CANCELLED

datatype settlement_status =
  NOT_REQUIRED | SETTLE_PENDING | SUBMITTED | CONFIRMED | FAILED

text \<open>\<open>g_rakeBps\<close> and \<open>g_mode\<close> are the columns of the game's room, reached through the relation.\<close>

record game_row =
  g_id :: string
  g_status :: game_status
  g_nodeId :: string
  g_pot :: int
  g_rake :: int
  g_payout :: int
  g_settlementSignature :: "string option"
  g_settlementStatus :: settlement_status
  g_settlementAttempts :: nat
  g_settlementError :: "string option"
  g_endedAt :: "int option"
  g_rakeBps :: nat
  g_mode :: string

datatype participant_state = PLAYING | ELIMINATED | SURVIVED | FORFEITED

record game_player =
  gp_game :: string
  gp_user :: string
  gp_wallet :: "string option"
  gp_placement :: "int option"
  gp_score :: int
  gp_kills :: int
  gp_survivedMs :: int
  gp_result :: participant_state

record wallet_row =
  w_id :: string
  w_user :: string
  w_address :: string
  w_primary :: bool
  w_verifiedAt :: "int option"
  w_createdAt :: int

datatype deposit_status = DEP_PENDING | DEP_CONFIRMED | DEP_FAILED | DEP_EXPIRED

record deposit_row =
  d_id :: string
  d_user :: string
  d_wallet :: string
  d_status :: deposit_status
  d_amount :: int
  d_signature :: "string option"
  d_slot :: "int option"
  d_confirmations :: nat
  d_pool :: "string option"
  d_key :: string
  d_failureReason :: "string option"
  d_createdAt :: int
  d_confirmedAt :: "int option"

datatype withdrawal_status =
  WD_REQUESTED | WD_PENDING_REVIEW | WD_APPROVED | WD_SUBMITTED | WD_CONFIRMED | WD_FAILED | WD_REJECTED

record withdrawal_row =
  wd_id :: string
  wd_user :: string
  wd_wallet :: string
  wd_status :: withdrawal_status
  wd_amount :: int
  wd_fee :: int
  wd_signature :: "string option"
  wd_key :: string
  wd_failureReason :: "string option"
  wd_requestedAt :: int
  wd_confirmedAt :: "int option"

record reward_row =
  rw_user :: string
  rw_amount :: int
  rw_game :: "string option"
  rw_key :: string
  rw_grantedAt :: int
  rw_placement :: int

datatype leaderboard_window = DAILY | ALL_TIME

record leaderboard_row =
  lb_window :: leaderboard_window
  lb_period :: string
  lb_user :: string
  lb_rank :: nat
  lb_score :: int
  lb_gamesPlayed :: nat
  lb_wins :: nat
  lb_kills :: int
  lb_computedAt :: int

record db =
  uuids :: "nat \<Rightarrow> string"
  drawn :: nat
  pools :: "pool_account list"
  txs :: "ledger_tx list"
  stakes :: "stake_reservation list"
  games :: "game_row list"
  gamePlayers :: "game_player list"
  wallets :: "wallet_row list"
  deposits :: "deposit_row list"
  withdrawals :: "withdrawal_row list"
  rewards :: "reward_row list"
  leaderboard :: "leaderboard_row list"

section \<open>Errors\<close>

text \<open>\<open>P2002\<close>: a unique index refused the row (with the column); \<open>P2025\<close>: no row to update or read.\<close>

datatype db_error = P2002 string | P2025

datatype money_error =
  DbError db_error
| LedgerImbalance int int
| LedgerInvalidLeg
| PoolAccountMissing
| InsufficientPoolFunds string
| Conflict string
| AlreadyPosted string
| SystemPoolMissing string
| RangeError string
| InsufficientBalance int int
| StakeMismatch string int int
| StakeExceedsBalance string int int
| GameNotFound string
| GameAlreadySettled string
| RefundShortfall string int int
| BadRequest string
| Forbidden string
| NotFound string
| ChainError string

type_synonym 'a tx_run = "(money_error, 'a \<times> db) res"

section \<open>Operations of the client\<close>

definition randomUUID :: "db \<Rightarrow> string \<times> db" where
  "randomUUID d = (uuids d (drawn d), d\<lparr>drawn := Suc (drawn d)\<rparr>)"

definition poolById :: "string \<Rightarrow> db \<Rightarrow> pool_account option" where
  "poolById i d = find (\<lambda>a. pa_id a = i) (pools d)"

definition poolByName :: "string \<Rightarrow> db \<Rightarrow> pool_account option" where
  "poolByName n d = find (\<lambda>a. pa_name a = n) (pools d)"

definition poolByOwner :: "string \<Rightarrow> db \<Rightarrow> pool_account option" where
  "poolByOwner u d = find (\<lambda>a. pa_owner a = Some u) (pools d)"

definition poolByGame :: "string \<Rightarrow> db \<Rightarrow> pool_account option" where
  "poolByGame g d = find (\<lambda>a. pa_game a = Some g) (pools d)"

text \<open>\<open>findUniqueOrThrow\<close>.\<close>

definition orThrow :: "'a option \<Rightarrow> (money_error, 'a) res" where
  "orThrow r = (case r of None \<Rightarrow> Inl (DbError P2025) | Some a \<Rightarrow> Inr a)"

text \<open>\<open>updateMany\<close> and \<open>update\<close> where the row has this id and this version.\<close>

definition poolUpdateMany :: "string \<Rightarrow> nat \<Rightarrow> (pool_account \<Rightarrow> pool_account) \<Rightarrow> db \<Rightarrow> nat \<times> db" where
  "poolUpdateMany i v f d =
    (let P = (\<lambda>a. pa_id a = i \<and> pa_version a = v)
     in (length (filter P (pools d)), d\<lparr>pools := upd_rows P f (pools d)\<rparr>))"

definition poolUpdate :: "string \<Rightarrow> nat \<Rightarrow> (pool_account \<Rightarrow> pool_account) \<Rightarrow> db \<Rightarrow> (money_error, db) res" where
  "poolUpdate i v f d =
    (case poolUpdateMany i v f d of (n, d') \<Rightarrow> if n = 0 then Inl (DbError P2025) else Inr d')"

definition setBalance :: "int \<Rightarrow> pool_account \<Rightarrow> pool_account" where
  "setBalance b a = a\<lparr>pa_balance := b, pa_version := Suc (pa_version a)\<rparr>"

definition setReserved :: "int \<Rightarrow> pool_account \<Rightarrow> pool_account" where
  "setReserved r a = a\<lparr>pa_reserved := r, pa_version := Suc (pa_version a)\<rparr>"

definition poolCreate :: "pool_kind \<Rightarrow> string \<Rightarrow> string option \<Rightarrow> string option \<Rightarrow> db \<Rightarrow> pool_account tx_run" where
  "poolCreate k n owner game d =
    (case randomUUID d of (i, d1) \<Rightarrow>
      let a = \<lparr> pa_id = i, pa_kind = k, pa_name = n, pa_owner = owner, pa_game = game,
                pa_balance = 0, pa_reserved = 0, pa_version = 0 \<rparr>
      in if list_ex (\<lambda>b. pa_id b = i) (pools d) then Inl (DbError (P2002 ''id''))
         else if list_ex (\<lambda>b. pa_name b = n) (pools d) then Inl (DbError (P2002 ''name''))
         else if owner \<noteq> None \<and> list_ex (\<lambda>b. pa_owner b = owner) (pools d)
           then Inl (DbError (P2002 ''owner_user_id''))
         else if game \<noteq> None \<and> list_ex (\<lambda>b. pa_game b = game) (pools d)
           then Inl (DbError (P2002 ''game_id''))
         else Inr (a, d1\<lparr>pools := pools d1 @ [a]\<rparr>))"

text \<open>A transaction row is created with a fresh id; its idempotency key is unique.\<close>

definition txCreate :: "ledger_tx \<Rightarrow> db \<Rightarrow> string tx_run" where
  "txCreate t d =
    (case randomUUID d of (i, d1) \<Rightarrow>
      if list_ex (\<lambda>u. tx_id u = i) (txs d) then Inl (DbError (P2002 ''id''))
      else if list_ex (\<lambda>u. tx_key u = tx_key t) (txs d) then Inl (DbError (P2002 ''idempotency_key''))
      else Inr (i, d1\<lparr>txs := txs d1 @ [t\<lparr>tx_id := i\<rparr>]\<rparr>))"

fun txCreateMany :: "ledger_tx list \<Rightarrow> db \<Rightarrow> (money_error, db) res" where
  "txCreateMany [] d = Inr d"
| "txCreateMany (t # ts) d = rbind (txCreate t d) (\<lambda>(i, d1). txCreateMany ts d1)"

definition gameById :: "string \<Rightarrow> db \<Rightarrow> game_row option" where
  "gameById g d = find (\<lambda>r. g_id r = g) (games d)"

definition gameUpdate :: "string \<Rightarrow> (game_row \<Rightarrow> game_row) \<Rightarrow> db \<Rightarrow> (money_error, db) res" where
  "gameUpdate g f d =
    (if gameById g d = None then Inl (DbError P2025)
     else Inr (d\<lparr>games := upd_rows (\<lambda>r. g_id r = g) f (games d)\<rparr>))"

text \<open>\<open>SUM\<close> of the balances, and of the signed posted amounts.\<close>

definition poolTotal :: "db \<Rightarrow> int" where
  "poolTotal d = sum_list (map pa_balance (pools d))"

definition signed :: "ledger_tx \<Rightarrow> int" where
  "signed t = (if tx_status t \<noteq> POSTED then 0
               else if tx_direction t = CREDIT then tx_amount t else - tx_amount t)"

definition ledgerNet :: "db \<Rightarrow> int" where
  "ledgerNet d = sum_list (map signed (txs d))"

section \<open>What the indexes keep\<close>

definition db_wf :: "db \<Rightarrow> bool" where
  "db_wf d \<longleftrightarrow> distinct (map pa_id (pools d)) \<and> distinct (map pa_name (pools d)) \<and>
     distinct (List.map_filter pa_owner (pools d)) \<and> distinct (List.map_filter pa_game (pools d)) \<and>
     distinct (map tx_id (txs d)) \<and> distinct (map tx_key (txs d))"

text \<open>A later list of accounts: rows are only added, versions only grow, and a row whose version
  has not moved has not changed.\<close>

definition later :: "pool_account list \<Rightarrow> pool_account list \<Rightarrow> bool" where
  "later ps qs \<longleftrightarrow> (\<forall>x \<in> set ps. \<exists>y \<in> set qs. pa_id y = pa_id x \<and> pa_version x \<le> pa_version y \<and>
     (pa_version y = pa_version x \<longrightarrow> y = x))"

lemma later_refl [simp, intro]: "later ps ps"
  by (auto simp: later_def)

lemma later_trans: "later ps qs \<Longrightarrow> later qs rs \<Longrightarrow> later ps rs"
  unfolding later_def by (metis le_antisym le_trans)

lemma later_append [simp]: "later ps (ps @ qs)"
  by (auto simp: later_def)

lemma later_row:
  assumes "later ps qs" and "x \<in> set ps" and "distinct (map pa_id qs)" and "y \<in> set qs"
    and "pa_id y = pa_id x" and "pa_version y = pa_version x"
  shows "y = x"
proof -
  from assms(1,2) obtain z where "z \<in> set qs" "pa_id z = pa_id x" "pa_version z = pa_version x \<longrightarrow> z = x"
    by (auto simp: later_def)
  moreover with assms have "z = y" by (intro distinct_key_eq [OF assms(3)]) auto
  ultimately show ?thesis using assms(6) by simp
qed

end
