(* ===== verification/Ledger.thy ===== *)
theory Ledger
  imports Db "HOL-Library.Sublist"
begin

text \<open>
  The double-entry ledger (\<open>apps/gateway/src/services/ledger.ts\<close>) and the check of its invariant
  (\<open>checkLedgerInvariant\<close> of \<open>reconciler.ts\<close>). The contract \<open>ledger_op\<close> says what every money
  operation of the platform keeps: pool balances and posted entries move together, and the
  transaction table only grows. The first section states what the client's writes do to the
  totals; the money theories that follow reuse it.
\<close>

section \<open>What the writes of the client do\<close>

lemma map_filter_append: "List.map_filter f (xs @ ys) = List.map_filter f xs @ List.map_filter f ys"
  by (simp add: List.map_filter_def)

lemma set_map_filter: "set (List.map_filter f xs) = {y. \<exists>x \<in> set xs. f x = Some y}"
  by (force simp: List.map_filter_def)

text \<open>An update that leaves the identifying columns alone and bumps the version.\<close>

definition versioned :: "(pool_account \<Rightarrow> pool_account) \<Rightarrow> bool" where
  "versioned f \<longleftrightarrow> (\<forall>a. pa_id (f a) = pa_id a \<and> pa_name (f a) = pa_name a \<and>
     pa_owner (f a) = pa_owner a \<and> pa_game (f a) = pa_game a \<and> pa_kind (f a) = pa_kind a \<and>
     pa_version (f a) = Suc (pa_version a))"

lemma versioned_set [simp]: "versioned (setBalance b)" "versioned (setReserved r)"
  by (simp_all add: versioned_def setBalance_def setReserved_def)

lemma setBalance_sel [simp]:
  "pa_balance (setBalance b a) = b" "pa_reserved (setBalance b a) = pa_reserved a"
  "pa_id (setBalance b a) = pa_id a" "pa_kind (setBalance b a) = pa_kind a"
  "pa_owner (setBalance b a) = pa_owner a" "pa_version (setBalance b a) = Suc (pa_version a)"
  "pa_balance (setReserved r a) = pa_balance a" "pa_reserved (setReserved r a) = r"
  "pa_id (setReserved r a) = pa_id a" "pa_owner (setReserved r a) = pa_owner a"
  by (simp_all add: setBalance_def setReserved_def)

lemma map_filter_upd_rows:
  assumes "\<And>a. g (f a) = g a"
  shows "List.map_filter g (upd_rows P f xs) = List.map_filter g xs"
  using assms by (induction xs) (auto simp: map_filter_simps split: option.splits)

lemma upd_rows_version:
  assumes "distinct (map pa_id ps)" and "x \<in> set ps"
  shows "upd_rows (\<lambda>a. pa_id a = pa_id x \<and> pa_version a = pa_version x) f ps =
         upd_rows (\<lambda>a. pa_id a = pa_id x) f ps"
proof -
  have "(pa_id a = pa_id x \<and> pa_version a = pa_version x) = (pa_id a = pa_id x)" if "a \<in> set ps" for a
    using distinct_key_eq [OF assms(1) that assms(2)] by auto
  then show ?thesis by (auto simp: upd_rows_def)
qed

lemma later_upd_rows: "versioned f \<Longrightarrow> later ps (upd_rows P f ps)"
  unfolding later_def
proof
  fix x assume "versioned f" and "x \<in> set ps"
  then show "\<exists>y \<in> set (upd_rows P f ps). pa_id y = pa_id x \<and> pa_version x \<le> pa_version y \<and>
      (pa_version y = pa_version x \<longrightarrow> y = x)"
    by (intro bexI [of _ "if P x then f x else x"]) (auto simp: versioned_def set_upd_rows)
qed

lemma db_wf_upd:
  assumes "db_wf d" and "versioned f"
  shows "db_wf (d\<lparr>pools := upd_rows P f (pools d)\<rparr>)"
  using assms unfolding db_wf_def versioned_def
  by (simp add: map_key_upd_rows map_filter_upd_rows)

lemma poolUpdate_facts:
  assumes "db_wf d" and "versioned f" and "poolUpdate i v f d = Inr d'"
  obtains x where "x \<in> set (pools d)" and "pa_id x = i" and "pa_version x = v"
    and "d' = d\<lparr>pools := upd_rows (\<lambda>a. pa_id a = i) f (pools d)\<rparr>"
    and "db_wf d'" and "later (pools d) (pools d')"
    and "poolTotal d' = poolTotal d - pa_balance x + pa_balance (f x)"
proof -
  let ?P = "\<lambda>a. pa_id a = i \<and> pa_version a = v"
  have d': "d' = d\<lparr>pools := upd_rows ?P f (pools d)\<rparr>" and ne: "filter ?P (pools d) \<noteq> []"
    using assms(3) by (auto simp: poolUpdate_def poolUpdateMany_def Let_def split: if_splits)
  then obtain x where x: "x \<in> set (pools d)" "pa_id x = i" "pa_version x = v"
    by (auto simp: filter_empty_conv)
  have dist: "distinct (map pa_id (pools d))" using assms(1) by (simp add: db_wf_def)
  have eq: "upd_rows ?P f (pools d) = upd_rows (\<lambda>a. pa_id a = i) f (pools d)"
    using upd_rows_version [OF dist x(1)] x by simp
  show thesis
  proof (rule that [OF x])
    show "d' = d\<lparr>pools := upd_rows (\<lambda>a. pa_id a = i) f (pools d)\<rparr>" using d' eq by simp
    show "db_wf d'" unfolding d' by (rule db_wf_upd [OF assms(1,2)])
    show "later (pools d) (pools d')" using later_upd_rows [OF assms(2)] by (simp add: d')
    show "poolTotal d' = poolTotal d - pa_balance x + pa_balance (f x)"
      using sum_upd_key [OF dist x(1,2), of pa_balance f] by (simp add: d' eq poolTotal_def)
  qed
qed

text \<open>A row read in the same state is there to be updated.\<close>

lemma poolUpdate_ok:
  assumes "db_wf d" and "x \<in> set (pools d)"
  shows "poolUpdate (pa_id x) (pa_version x) f d =
         Inr (d\<lparr>pools := upd_rows (\<lambda>a. pa_id a = pa_id x) f (pools d)\<rparr>)"
  using assms upd_rows_version [of "pools d" x f]
  by (auto simp: poolUpdate_def poolUpdateMany_def Let_def db_wf_def filter_empty_conv)

lemma txCreate_facts:
  assumes "db_wf d" and "txCreate t d = Inr (i, d')"
  shows "db_wf d'" and "pools d' = pools d" and "txs d' = txs d @ [t\<lparr>tx_id := i\<rparr>]"
    and "poolTotal d' = poolTotal d" and "ledgerNet d' = ledgerNet d + signed t"
    and "tx_key t \<notin> tx_key ` set (txs d)"
    and "stakes d' = stakes d" and "games d' = games d"
proof -
  from assms(2) have i: "i = uuids d (drawn d)" and d': "d' = d\<lparr>drawn := Suc (drawn d), txs := txs d @ [t\<lparr>tx_id := i\<rparr>]\<rparr>"
    and n: "i \<notin> tx_id ` set (txs d)" "tx_key t \<notin> tx_key ` set (txs d)"
    by (auto simp: txCreate_def randomUUID_def list_ex_iff split: if_splits)
  show "db_wf d'" using assms(1) n unfolding db_wf_def d' by simp
  show "pools d' = pools d" and "txs d' = txs d @ [t\<lparr>tx_id := i\<rparr>]"
    and "poolTotal d' = poolTotal d" and "ledgerNet d' = ledgerNet d + signed t"
    and "tx_key t \<notin> tx_key ` set (txs d)"
    and "stakes d' = stakes d" and "games d' = games d"
    using n by (simp_all add: d' poolTotal_def ledgerNet_def signed_def)
qed

lemma txCreateMany_facts:
  assumes "db_wf d" and "txCreateMany ts d = Inr d'"
  shows "db_wf d' \<and> pools d' = pools d \<and> stakes d' = stakes d \<and> games d' = games d \<and>
         poolTotal d' = poolTotal d \<and> ledgerNet d' = ledgerNet d + sum_list (map signed ts) \<and>
         prefix (txs d) (txs d') \<and> tx_key ` set (txs d') = tx_key ` set (txs d) \<union> tx_key ` set ts"
  using assms
proof (induction ts arbitrary: d)
  case Nil
  then show ?case by simp
next
  case (Cons t ts)
  from Cons.prems obtain i d1 where t: "txCreate t d = Inr (i, d1)" "txCreateMany ts d1 = Inr d'"
    by (auto elim!: rbindE)
  note f = txCreate_facts [OF Cons.prems(1) t(1)]
  from Cons.IH [OF f(1) t(2)] f show ?case
    by (auto simp: prefix_def)
qed

lemma poolCreate_facts:
  assumes "db_wf d" and "poolCreate k n owner game d = Inr (a, d')"
  shows "db_wf d'" and "pools d' = pools d @ [a]" and "txs d' = txs d"
    and "poolTotal d' = poolTotal d" and "ledgerNet d' = ledgerNet d"
    and "pa_balance a = 0" and "pa_reserved a = 0" and "pa_owner a = owner" and "pa_name a = n"
    and "stakes d' = stakes d" and "games d' = games d"
proof -
  let ?i = "uuids d (drawn d)"
  from assms(2) have a: "a = \<lparr> pa_id = ?i, pa_kind = k, pa_name = n, pa_owner = owner, pa_game = game,
                pa_balance = 0, pa_reserved = 0, pa_version = 0 \<rparr>"
    and d': "d' = d\<lparr>drawn := Suc (drawn d), pools := pools d @ [a]\<rparr>"
    and n: "?i \<notin> pa_id ` set (pools d)" "n \<notin> pa_name ` set (pools d)"
    and o: "owner = None \<or> owner \<notin> pa_owner ` set (pools d)"
    and g: "game = None \<or> game \<notin> pa_game ` set (pools d)"
    by (auto simp: poolCreate_def randomUUID_def Let_def list_ex_iff split: if_splits)
  have "distinct (List.map_filter pa_owner (pools d'))" "distinct (List.map_filter pa_game (pools d'))"
    using assms(1) o g unfolding db_wf_def d'
    by (cases owner; cases game; force simp: a map_filter_append map_filter_simps set_map_filter)+
  with assms(1) n have "db_wf d'" unfolding db_wf_def d' by (simp add: a)
  then show "db_wf d'" and "pools d' = pools d @ [a]" and "txs d' = txs d"
    and "poolTotal d' = poolTotal d" and "ledgerNet d' = ledgerNet d"
    and "pa_balance a = 0" and "pa_reserved a = 0" and "pa_owner a = owner" and "pa_name a = n"
    and "stakes d' = stakes d" and "games d' = games d"
    by (simp_all add: d' a poolTotal_def ledgerNet_def)
qed

section \<open>Posting an entry\<close>

record ledger_leg =
  leg_pool :: string
  leg_user :: "string option"
  leg_direction :: tx_direction
  leg_amount :: int
  leg_description :: "string option"

record post_params =
  pp_type :: tx_type
  pp_legs :: "ledger_leg list"
  pp_key :: string
  pp_group :: string
  pp_game :: "string option"
  pp_deposit :: "string option"
  pp_withdrawal :: "string option"
  pp_reward :: "string option"

fun sumLegs :: "ledger_leg list \<Rightarrow> int \<Rightarrow> int \<Rightarrow> (money_error, int \<times> int) res" where
  "sumLegs [] credits debits = Inr (credits, debits)"
| "sumLegs (leg # legs) credits debits =
    (if leg_amount leg \<le> 0 then Inl LedgerInvalidLeg
     else if leg_direction leg = CREDIT then sumLegs legs (credits + leg_amount leg) debits
     else sumLegs legs credits (debits + leg_amount leg))"

definition assertBalanced :: "ledger_leg list \<Rightarrow> (money_error, int \<times> int) res" where
  "assertBalanced legs =
    (if length legs < 2 then Inl (LedgerImbalance 0 0)
     else rbind (sumLegs legs 0 0) (\<lambda>(credits, debits).
       if credits \<noteq> debits then Inl (LedgerImbalance credits debits) else Inr (credits, debits)))"

definition mayGoNegative :: "pool_kind \<Rightarrow> bool" where
  "mayGoNegative kind \<longleftrightarrow> kind = EXTERNAL"

definition leg_delta :: "ledger_leg \<Rightarrow> int" where
  "leg_delta leg = (if leg_direction leg = CREDIT then leg_amount leg else - leg_amount leg)"

definition leg_key :: "post_params \<Rightarrow> nat \<Rightarrow> string" where
  "leg_key p index = pp_key p @ '':'' @ show_nat index"

definition leg_tx :: "post_params \<Rightarrow> nat \<Rightarrow> ledger_leg \<Rightarrow> pool_account \<Rightarrow> ledger_tx" where
  "leg_tx p index leg account =
    \<lparr> tx_id = [], tx_group = pp_group p, tx_type = pp_type p, tx_direction = leg_direction leg,
      tx_status = POSTED, tx_amount = leg_amount leg,
      tx_balanceAfter = pa_balance account + leg_delta leg, tx_user = leg_user leg,
      tx_pool = pa_id account, tx_game = pp_game p, tx_deposit = pp_deposit p,
      tx_withdrawal = pp_withdrawal p, tx_reward = pp_reward p, tx_key = leg_key p index,
      tx_description = leg_description leg \<rparr>"

fun postLegs :: "post_params \<Rightarrow> nat \<Rightarrow> ledger_leg list \<Rightarrow> db \<Rightarrow> string list tx_run" where
  "postLegs p index [] d = Inr ([], d)"
| "postLegs p index (leg # legs) d =
    (case poolById (leg_pool leg) d of
       None \<Rightarrow> Inl PoolAccountMissing
     | Some account \<Rightarrow>
         (let nextBalance = pa_balance account + leg_delta leg
          in if nextBalance < 0 \<and> \<not> mayGoNegative (pa_kind account)
             then Inl (InsufficientPoolFunds (pa_name account))
             else (case poolUpdateMany (pa_id account) (pa_version account) (setBalance nextBalance) d of
                     (count, d1) \<Rightarrow>
                       if count = 0 then Inl (Conflict ''Pool account was modified concurrently; retry the operation'')
                       else rbind (txCreate (leg_tx p index leg account) d1) (\<lambda>(i, d2).
                              rbind (postLegs p (Suc index) legs d2) (\<lambda>(js, d3). Inr (i # js, d3))))))"

definition isUniqueViolation :: "money_error \<Rightarrow> string option \<Rightarrow> bool" where
  "isUniqueViolation error field =
    (case error of
       DbError (P2002 target) \<Rightarrow> (case field of None \<Rightarrow> True | Some f \<Rightarrow> sublist f target)
     | _ \<Rightarrow> False)"

definition postEntry :: "post_params \<Rightarrow> db \<Rightarrow> string list tx_run" where
  "postEntry p d =
    rbind (assertBalanced (pp_legs p)) (\<lambda>_.
      case postLegs p 0 (pp_legs p) d of
        Inr r \<Rightarrow> Inr r
      | Inl error \<Rightarrow>
          if isUniqueViolation error (Some ''idempotency_key'') then Inl (AlreadyPosted (pp_key p))
          else Inl error)"

section \<open>Accounts\<close>

definition custody_name :: "string \<Rightarrow> string" where
  "custody_name userId = ''custody:'' @ userId"

definition getOrCreateCustodyAccount :: "string \<Rightarrow> db \<Rightarrow> pool_account tx_run" where
  "getOrCreateCustodyAccount userId d =
    (let name = custody_name userId
     in case poolByName name d of
          Some existing \<Rightarrow> Inr (existing, d)
        | None \<Rightarrow>
            (case poolCreate USER_CUSTODY name (Some userId) None d of
               Inr r \<Rightarrow> Inr r
             | Inl error \<Rightarrow>
                 if isUniqueViolation error None
                 then rbind (orThrow (poolByName name d)) (\<lambda>raced. Inr (raced, d))
                 else Inl error))"

definition getSystemAccount :: "string \<Rightarrow> db \<Rightarrow> (money_error, pool_account) res" where
  "getSystemAccount name d =
    (case poolByName name d of None \<Rightarrow> Inl (SystemPoolMissing name) | Some account \<Rightarrow> Inr account)"

definition spendable :: "pool_account \<Rightarrow> int" where
  "spendable account =
    (let value = pa_balance account - pa_reserved account in if 0 < value then value else 0)"

section \<open>The ledger invariant\<close>

text \<open>\<open>groupBy\<close> the direction of the posted rows, with the sum of each group.\<close>

definition groupByDirection :: "db \<Rightarrow> (tx_direction \<times> int) list" where
  "groupByDirection d =
    (let rows = filter (\<lambda>t. tx_status t = POSTED) (txs d)
     in map (\<lambda>dir. (dir, sum_list (map tx_amount (filter (\<lambda>t. tx_direction t = dir) rows))))
          (remdups (map tx_direction rows)))"

record ledger_check =
  lc_balanced :: bool
  lc_drift :: int
  lc_poolTotal :: int
  lc_ledgerTotal :: int

definition checkLedgerInvariant :: "db \<Rightarrow> ledger_check" where
  "checkLedgerInvariant d =
    (let poolTot = foldl (\<lambda>sum pool. sum + pa_balance pool) 0 (pools d);
         ledgerTotal = foldl (\<lambda>tot (dir, amount). tot + (if dir = CREDIT then amount else - amount)) 0
                         (groupByDirection d);
         drift = poolTot - ledgerTotal
     in \<lparr> lc_balanced = (drift = 0), lc_drift = drift, lc_poolTotal = poolTot,
          lc_ledgerTotal = ledgerTotal \<rparr>)"

lemma foldl_sum: "foldl (\<lambda>(s::int) x. s + f x) a xs = a + sum_list (map f xs)"
  by (induction xs arbitrary: a) simp_all

lemma foldl_sum_pair: "foldl (\<lambda>(s::int) (x, y). s + g x y) a ps = a + sum_list (map (\<lambda>(x, y). g x y) ps)"
  by (induction ps arbitrary: a) (auto simp: algebra_simps)

lemma sum_by_direction:
  "sum_list (map (\<lambda>dir. if dir = CREDIT then h CREDIT else - h dir) (remdups ds)) =
     (if CREDIT \<in> set ds then h CREDIT else 0) - (if DEBIT \<in> set ds then (h DEBIT :: int) else 0)"
proof (induction ds)
  case Nil
  then show ?case by simp
next
  case (Cons x xs)
  then show ?case by (cases x) auto
qed

lemma sum_signed:
  "sum_list (map signed ts) =
     sum_list (map tx_amount (filter (\<lambda>t. tx_direction t = CREDIT) (filter (\<lambda>t. tx_status t = POSTED) ts))) -
     sum_list (map tx_amount (filter (\<lambda>t. tx_direction t = DEBIT) (filter (\<lambda>t. tx_status t = POSTED) ts)))"
proof (induction ts)
  case Nil
  then show ?case by simp
next
  case (Cons t ts)
  then show ?case by (cases "tx_direction t") (auto simp: signed_def)
qed

lemma groupByDirection_net:
  "sum_list (map (\<lambda>(dir, amount). if dir = CREDIT then amount else - amount) (groupByDirection d)) = ledgerNet d"
proof -
  define rows where "rows = filter (\<lambda>t. tx_status t = POSTED) (txs d)"
  define h where "h dir = sum_list (map tx_amount (filter (\<lambda>t. tx_direction t = dir) rows))" for dir
  have none: "h dir = 0" if "dir \<notin> set (map tx_direction rows)" for dir
  proof -
    have "filter (\<lambda>t. tx_direction t = dir) rows = []" using that by (auto simp: filter_empty_conv)
    then show ?thesis by (simp add: h_def)
  qed
  have "sum_list (map (\<lambda>(dir, amount). if dir = CREDIT then amount else - amount) (groupByDirection d))
      = sum_list (map (\<lambda>dir. if dir = CREDIT then h CREDIT else - h dir) (remdups (map tx_direction rows)))"
    by (auto simp: groupByDirection_def Let_def rows_def h_def comp_def intro!: arg_cong [where f = sum_list])
  also have "\<dots> = h CREDIT - h DEBIT"
    using none [of CREDIT] none [of DEBIT] by (simp only: sum_by_direction) auto
  also have "\<dots> = ledgerNet d"
    by (simp add: h_def rows_def ledgerNet_def sum_signed)
  finally show ?thesis .
qed

lemma checkLedgerInvariant_eq:
  "lc_poolTotal (checkLedgerInvariant d) = poolTotal d"
  "lc_ledgerTotal (checkLedgerInvariant d) = ledgerNet d"
  "lc_drift (checkLedgerInvariant d) = poolTotal d - ledgerNet d"
  "lc_balanced (checkLedgerInvariant d) \<longleftrightarrow> poolTotal d = ledgerNet d"
  using groupByDirection_net [of d]
  by (simp_all add: checkLedgerInvariant_def Let_def foldl_sum foldl_sum_pair poolTotal_def case_prod_beta)

section \<open>What a posted entry does\<close>

text \<open>The abstract effect on an account: its legs' net amount, one version step per leg.\<close>

definition legs_of :: "string \<Rightarrow> ledger_leg list \<Rightarrow> ledger_leg list" where
  "legs_of i legs = filter (\<lambda>leg. leg_pool leg = i) legs"

definition net_of :: "string \<Rightarrow> ledger_leg list \<Rightarrow> int" where
  "net_of i legs = sum_list (map leg_delta (legs_of i legs))"

definition apply_legs :: "ledger_leg list \<Rightarrow> pool_account \<Rightarrow> pool_account" where
  "apply_legs legs a = a\<lparr>pa_balance := pa_balance a + net_of (pa_id a) legs,
     pa_version := pa_version a + length (legs_of (pa_id a) legs)\<rparr>"

text \<open>No account but the outside world is below zero.\<close>

definition solvent :: "pool_account list \<Rightarrow> bool" where
  "solvent ps \<longleftrightarrow> (\<forall>a \<in> set ps. mayGoNegative (pa_kind a) \<or> 0 \<le> pa_balance a)"

lemma legs_of_simps [simp]:
  "legs_of i [] = []"
  "legs_of i (leg # legs) = (if leg_pool leg = i then leg # legs_of i legs else legs_of i legs)"
  by (simp_all add: legs_of_def)

lemma net_of_simps [simp]:
  "net_of i [] = 0"
  "net_of i (leg # legs) = (if leg_pool leg = i then leg_delta leg + net_of i legs else net_of i legs)"
  by (simp_all add: net_of_def)

lemma apply_legs_Nil [simp]: "apply_legs [] a = a"
  by (simp add: apply_legs_def)

lemma apply_legs_sel [simp]:
  "pa_id (apply_legs legs a) = pa_id a" "pa_kind (apply_legs legs a) = pa_kind a"
  "pa_name (apply_legs legs a) = pa_name a" "pa_owner (apply_legs legs a) = pa_owner a"
  "pa_game (apply_legs legs a) = pa_game a" "pa_reserved (apply_legs legs a) = pa_reserved a"
  "pa_balance (apply_legs legs a) = pa_balance a + net_of (pa_id a) legs"
  by (simp_all add: apply_legs_def)

lemma apply_legs_Cons:
  assumes "distinct (map pa_id ps)" and "a \<in> set ps" and "leg_pool leg = pa_id a"
  shows "map (apply_legs legs) (upd_rows (\<lambda>b. pa_id b = pa_id a) (setBalance (pa_balance a + leg_delta leg)) ps)
       = map (apply_legs (leg # legs)) ps"
proof -
  have eq: "b = a" if "b \<in> set ps" "pa_id b = pa_id a" for b
    using distinct_key_eq [OF assms(1) that(1) assms(2)] that(2) by simp
  have "apply_legs legs (if pa_id b = pa_id a then setBalance (pa_balance a + leg_delta leg) b else b)
      = apply_legs (leg # legs) b" if "b \<in> set ps" for b
    using that assms(3) eq [OF that] by (cases "pa_id b = pa_id a") (simp_all add: apply_legs_def setBalance_def)
  then show ?thesis by (simp add: upd_rows_def)
qed

text \<open>One leg: the account it names, its new balance, the row it writes.\<close>

lemma postLegs_step:
  assumes wf: "db_wf d" and run: "postLegs p k (leg # legs) d = Inr (ids, d')"
  obtains a i d1 d2 js where
    "a \<in> set (pools d)" and "pa_id a = leg_pool leg"
    and "0 \<le> pa_balance a + leg_delta leg \<or> mayGoNegative (pa_kind a)"
    and "d1 = d\<lparr>pools := upd_rows (\<lambda>b. pa_id b = pa_id a) (setBalance (pa_balance a + leg_delta leg)) (pools d)\<rparr>"
    and "db_wf d1" and "poolTotal d1 = poolTotal d + leg_delta leg"
    and "txCreate (leg_tx p k leg a) d1 = Inr (i, d2)"
    and "postLegs p (Suc k) legs d2 = Inr (js, d')" and "ids = i # js"
proof -
  from run obtain a where a: "poolById (leg_pool leg) d = Some a"
    by (auto split: option.splits)
  then have mem: "a \<in> set (pools d)" and id: "pa_id a = leg_pool leg"
    by (auto simp: poolById_def dest: find_SomeD)
  let ?f = "setBalance (pa_balance a + leg_delta leg)"
  obtain n d1 where up: "poolUpdateMany (pa_id a) (pa_version a) ?f d = (n, d1)"
    by (cases "poolUpdateMany (pa_id a) (pa_version a) ?f d")
  from run a up have guard: "0 \<le> pa_balance a + leg_delta leg \<or> mayGoNegative (pa_kind a)"
    and n: "n \<noteq> 0" by (auto simp: Let_def split: if_splits)
  from run a up guard n obtain i d2 js where
    r: "txCreate (leg_tx p k leg a) d1 = Inr (i, d2)" "postLegs p (Suc k) legs d2 = Inr (js, d')" "ids = i # js"
    by (auto simp: Let_def elim!: rbindE split: if_splits)
  have "poolUpdate (pa_id a) (pa_version a) ?f d = Inr d1"
    using up n by (simp add: poolUpdate_def)
  from poolUpdate_facts [OF wf versioned_set(1) this] obtain x where
    x: "x \<in> set (pools d)" "pa_id x = pa_id a"
    and d1: "d1 = d\<lparr>pools := upd_rows (\<lambda>b. pa_id b = pa_id a) ?f (pools d)\<rparr>" "db_wf d1"
      "poolTotal d1 = poolTotal d - pa_balance x + pa_balance (?f x)" by metis
  from wf x mem have "x = a" by (intro distinct_key_eq [where key = pa_id]) (auto simp: db_wf_def)
  with d1 show thesis by (intro that [OF mem id guard d1(1,2) _ r]) simp
qed

lemma postLegs_effect:
  assumes "db_wf d" and "postLegs p k legs d = Inr (ids, d')"
  shows "db_wf d' \<and> pools d' = map (apply_legs legs) (pools d) \<and>
         poolTotal d' = poolTotal d + sum_list (map leg_delta legs) \<and>
         ledgerNet d' = ledgerNet d + sum_list (map leg_delta legs) \<and>
         prefix (txs d) (txs d') \<and> stakes d' = stakes d \<and> games d' = games d \<and>
         length ids = length legs"
  using assms
proof (induction legs arbitrary: k d ids)
  case Nil
  then show ?case by (simp add: map_idI)
next
  case (Cons leg legs)
  obtain a i d1 d2 js where
    a: "a \<in> set (pools d)" "pa_id a = leg_pool leg"
      "0 \<le> pa_balance a + leg_delta leg \<or> mayGoNegative (pa_kind a)"
    and d1: "d1 = d\<lparr>pools := upd_rows (\<lambda>b. pa_id b = pa_id a) (setBalance (pa_balance a + leg_delta leg)) (pools d)\<rparr>"
      "db_wf d1" "poolTotal d1 = poolTotal d + leg_delta leg"
    and tx: "txCreate (leg_tx p k leg a) d1 = Inr (i, d2)"
    and rest: "postLegs p (Suc k) legs d2 = Inr (js, d')" and ids: "ids = i # js"
    by (rule postLegs_step [OF Cons.prems])
  note f = txCreate_facts [OF d1(2) tx]
  have net: "signed (leg_tx p k leg a) = leg_delta leg"
    by (simp add: signed_def leg_tx_def leg_delta_def)
  have "map (apply_legs legs) (pools d2) = map (apply_legs (leg # legs)) (pools d)"
    using apply_legs_Cons [OF _ a(1), of leg legs] Cons.prems(1) a(2) f(2) d1(1)
    by (simp add: db_wf_def)
  moreover have "ledgerNet d1 = ledgerNet d" "txs d1 = txs d" "stakes d1 = stakes d" "games d1 = games d"
    by (simp_all add: d1(1) ledgerNet_def)
  ultimately show ?case
    using Cons.IH [OF f(1) rest] f(2-5,7,8) d1(3) net by (auto simp: ids dest: append_prefixD)
qed

text \<open>The entry's rows: one per leg, in order, each with the balance it left behind.\<close>

lemma postLegs_rows:
  assumes "db_wf d" and "postLegs p k legs d = Inr (ids, d')"
  shows "\<exists>ts. txs d' = txs d @ ts \<and> map tx_id ts = ids \<and> map tx_pool ts = map leg_pool legs \<and>
         map tx_direction ts = map leg_direction legs \<and> map tx_amount ts = map leg_amount legs \<and>
         map tx_key ts = map (leg_key p) [k..<k + length legs] \<and> list_all (\<lambda>t. tx_status t = POSTED) ts"
  using assms
proof (induction legs arbitrary: k d ids)
  case Nil
  then show ?case by simp
next
  case (Cons leg legs)
  obtain a i d1 d2 js where
    a: "a \<in> set (pools d)" "pa_id a = leg_pool leg"
      "0 \<le> pa_balance a + leg_delta leg \<or> mayGoNegative (pa_kind a)"
    and d1: "d1 = d\<lparr>pools := upd_rows (\<lambda>b. pa_id b = pa_id a) (setBalance (pa_balance a + leg_delta leg)) (pools d)\<rparr>"
      "db_wf d1" "poolTotal d1 = poolTotal d + leg_delta leg"
    and tx: "txCreate (leg_tx p k leg a) d1 = Inr (i, d2)"
    and rest: "postLegs p (Suc k) legs d2 = Inr (js, d')" and ids: "ids = i # js"
    by (rule postLegs_step [OF Cons.prems])
  note f = txCreate_facts [OF d1(2) tx]
  from Cons.IH [OF f(1) rest] obtain ts where ts:
    "txs d' = txs d2 @ ts" "map tx_id ts = js" "map tx_pool ts = map leg_pool legs"
    "map tx_direction ts = map leg_direction legs" "map tx_amount ts = map leg_amount legs"
    "map tx_key ts = map (leg_key p) [Suc k..<Suc k + length legs]" "list_all (\<lambda>t. tx_status t = POSTED) ts"
    by blast
  let ?t = "(leg_tx p k leg a)\<lparr>tx_id := i\<rparr>"
  have "[k..<k + length (leg # legs)] = k # [Suc k..<Suc k + length legs]"
    by (simp add: upt_conv_Cons del: upt_Suc)
  with ts f(3) a(2) show ?case
    by (intro exI [of _ "?t # ts"]) (simp add: leg_tx_def d1(1) ids)
qed

lemma postLegs_solvent:
  assumes "db_wf d" and "postLegs p k legs d = Inr (ids, d')" and "solvent (pools d)"
  shows "solvent (pools d')"
  using assms
proof (induction legs arbitrary: k d ids)
  case Nil
  then show ?case by simp
next
  case (Cons leg legs)
  obtain a i d1 d2 js where
    a: "a \<in> set (pools d)" "pa_id a = leg_pool leg"
      "0 \<le> pa_balance a + leg_delta leg \<or> mayGoNegative (pa_kind a)"
    and d1: "d1 = d\<lparr>pools := upd_rows (\<lambda>b. pa_id b = pa_id a) (setBalance (pa_balance a + leg_delta leg)) (pools d)\<rparr>"
      "db_wf d1" "poolTotal d1 = poolTotal d + leg_delta leg"
    and tx: "txCreate (leg_tx p k leg a) d1 = Inr (i, d2)"
    and rest: "postLegs p (Suc k) legs d2 = Inr (js, d')" and ids: "ids = i # js"
    by (rule postLegs_step [OF Cons.prems(1,2)])
  note f = txCreate_facts [OF d1(2) tx]
  have eq: "b = a" if "b \<in> set (pools d)" "pa_id b = pa_id a" for b
    using Cons.prems(1) that a(1) by (intro distinct_key_eq [where key = pa_id]) (auto simp: db_wf_def)
  have "solvent (pools d2)"
    unfolding f(2) d1(1) solvent_def
  proof
    fix y assume "y \<in> set (pools (d\<lparr>pools := upd_rows (\<lambda>b. pa_id b = pa_id a)
        (setBalance (pa_balance a + leg_delta leg)) (pools d)\<rparr>))"
    then obtain b where b: "b \<in> set (pools d)"
      "y = (if pa_id b = pa_id a then setBalance (pa_balance a + leg_delta leg) b else b)"
      by (auto simp: set_upd_rows)
    show "mayGoNegative (pa_kind y) \<or> 0 \<le> pa_balance y"
      using b eq [OF b(1)] a(3) Cons.prems(3)
      by (cases "pa_id b = pa_id a") (auto simp: solvent_def)
  qed
  from Cons.IH [OF f(1) rest this] show ?case .
qed

text \<open>A balanced entry moves nothing in total.\<close>

lemma sumLegs_Inr:
  "sumLegs legs c b = Inr (c', b') \<Longrightarrow>
     (\<forall>leg \<in> set legs. 0 < leg_amount leg) \<and> c' - b' = c - b + sum_list (map leg_delta legs)"
  by (induction legs c b arbitrary: c' b' rule: sumLegs.induct) (auto simp: leg_delta_def split: if_splits)

lemma assertBalanced_Inr:
  assumes "assertBalanced legs = Inr r"
  shows "2 \<le> length legs" and "\<forall>leg \<in> set legs. 0 < leg_amount leg"
    and "sum_list (map leg_delta legs) = 0"
  using assms by (auto simp: assertBalanced_def split: if_splits dest!: sumLegs_Inr elim!: rbindE)

lemma sumLegs_total:
  "(\<forall>leg \<in> set legs. 0 < leg_amount leg) \<Longrightarrow> \<exists>c' b'. sumLegs legs c b = Inr (c', b')"
  by (induction legs c b rule: sumLegs.induct) auto

lemma assertBalanced_iff:
  "(\<exists>r. assertBalanced legs = Inr r) \<longleftrightarrow>
     2 \<le> length legs \<and> (\<forall>leg \<in> set legs. 0 < leg_amount leg) \<and> sum_list (map leg_delta legs) = 0"
proof
  assume "\<exists>r. assertBalanced legs = Inr r"
  then show "2 \<le> length legs \<and> (\<forall>leg \<in> set legs. 0 < leg_amount leg) \<and> sum_list (map leg_delta legs) = 0"
    using assertBalanced_Inr by blast
next
  assume r: "2 \<le> length legs \<and> (\<forall>leg \<in> set legs. 0 < leg_amount leg) \<and> sum_list (map leg_delta legs) = 0"
  then obtain c b where "sumLegs legs 0 0 = Inr (c, b)" using sumLegs_total by blast
  with sumLegs_Inr [OF this] r show "\<exists>r. assertBalanced legs = Inr r"
    by (auto simp: assertBalanced_def)
qed

lemma postEntry_Inr:
  assumes "postEntry p d = Inr (ids, d')"
  shows "postLegs p 0 (pp_legs p) d = Inr (ids, d')" and "\<exists>r. assertBalanced (pp_legs p) = Inr r"
  using assms by (auto simp: postEntry_def elim!: rbindE split: sum.splits if_splits)

section \<open>The contract of a money operation\<close>

definition conserves :: "db \<Rightarrow> db \<Rightarrow> bool" where
  "conserves d d' \<longleftrightarrow> db_wf d' \<and> poolTotal d' = poolTotal d \<and> ledgerNet d' = ledgerNet d \<and>
     prefix (txs d) (txs d')"

lemma conservesI:
  "db_wf d' \<Longrightarrow> poolTotal d' = poolTotal d \<Longrightarrow> ledgerNet d' = ledgerNet d \<Longrightarrow>
   prefix (txs d) (txs d') \<Longrightarrow> conserves d d'"
  by (simp add: conserves_def)

lemma conservesD:
  assumes "conserves d d'"
  shows "db_wf d'" and "poolTotal d' = poolTotal d" and "ledgerNet d' = ledgerNet d"
    and "prefix (txs d) (txs d')"
  using assms by (simp_all add: conserves_def)

lemma conserves_refl [simp]: "db_wf d \<Longrightarrow> conserves d d"
  by (simp add: conserves_def)

lemma conserves_trans: "conserves d d' \<Longrightarrow> conserves d' d'' \<Longrightarrow> conserves d d''"
  unfolding conserves_def using prefix_order.trans by auto

locale ledger_op =
  fixes run :: "db \<Rightarrow> (money_error, 'a \<times> db) res"
  assumes run_conserves: "db_wf d \<Longrightarrow> run d = Inr (r, d') \<Longrightarrow> conserves d d'"
begin

text \<open>The operation keeps the books balanced, and never takes back a posted entry.\<close>

lemma keeps_balanced:
  assumes "db_wf d" and "run d = Inr (r, d')" and "lc_balanced (checkLedgerInvariant d)"
  shows "lc_balanced (checkLedgerInvariant d')"
  using conservesD [OF run_conserves [OF assms(1,2)]] assms(3) by (simp add: checkLedgerInvariant_eq)

lemma keeps_entries:
  assumes "db_wf d" and "run d = Inr (r, d')" and "t \<in> set (txs d)"
  shows "t \<in> set (txs d')"
  using conservesD(4) [OF run_conserves [OF assms(1,2)]] assms(3) set_mono_prefix by blast

end

text \<open>
  A function that is not one transaction leaves what it wrote before it threw: it returns its
  outcome and the database. Committing a transaction is such a function.
\<close>

definition transaction :: "(db \<Rightarrow> 'a tx_run) \<Rightarrow> db \<Rightarrow> (money_error, 'a) res \<times> db" where
  "transaction body d = (case body d of Inl e \<Rightarrow> (Inl e, d) | Inr (r, d') \<Rightarrow> (Inr r, d'))"

definition act_bind :: "(money_error, 'a) res \<times> db \<Rightarrow> ('a \<Rightarrow> db \<Rightarrow> (money_error, 'b) res \<times> db)
    \<Rightarrow> (money_error, 'b) res \<times> db" where
  "act_bind m k = (case m of (Inl e, d) \<Rightarrow> (Inl e, d) | (Inr r, d) \<Rightarrow> k r d)"

lemma act_bind_simps [simp]:
  "act_bind (Inl e, d) k = (Inl e, d)" "act_bind (Inr r, d) k = k r d"
  by (simp_all add: act_bind_def)

locale ledger_act =
  fixes act :: "db \<Rightarrow> (money_error, 'a) res \<times> db"
  assumes act_conserves: "db_wf d \<Longrightarrow> conserves d (snd (act d))"
begin

text \<open>Retrying keeps the books, whatever each attempt throws.\<close>

fun attempts :: "nat \<Rightarrow> db \<Rightarrow> db" where
  "attempts 0 d = d"
| "attempts (Suc n) d = attempts n (snd (act d))"

lemma attempts_conserve: "db_wf d \<Longrightarrow> conserves d (attempts n d)"
proof (induction n arbitrary: d)
  case 0
  then show ?case by simp
next
  case (Suc n)
  from act_conserves [OF Suc.prems] Suc.IH [OF conservesD(1) [OF act_conserves [OF Suc.prems]]]
  show ?case by (auto intro: conserves_trans)
qed

lemma attempts_balanced:
  "db_wf d \<Longrightarrow> lc_balanced (checkLedgerInvariant d) \<Longrightarrow> lc_balanced (checkLedgerInvariant (attempts n d))"
  using conservesD [OF attempts_conserve, of d n] by (simp add: checkLedgerInvariant_eq)

end

sublocale ledger_op \<subseteq> committed: ledger_act "transaction run"
proof unfold_locales
  fix d assume "db_wf d"
  then show "conserves d (snd (transaction run d))"
    using run_conserves by (auto simp: transaction_def split: sum.splits prod.splits)
qed

lemma postEntry_conserves:
  assumes "db_wf d" and "postEntry p d = Inr (ids, d')"
  shows "conserves d d'"
  using postLegs_effect [OF assms(1) postEntry_Inr(1) [OF assms(2)]] postEntry_Inr(2) [OF assms(2)]
    assertBalanced_Inr(3)
  by (fastforce simp: conserves_def)

interpretation post: ledger_op "postEntry p" for p
  by unfold_locales (rule postEntry_conserves)

lemma getOrCreateCustodyAccount_facts:
  assumes "db_wf d" and "getOrCreateCustodyAccount u d = Inr (a, d')"
  shows "conserves d d'" and "a \<in> set (pools d')" and "pa_name a = custody_name u"
    and "txs d' = txs d" and "stakes d' = stakes d" and "later (pools d) (pools d')"
    and "pools d' = pools d \<or> pools d' = pools d @ [a] \<and> pa_balance a = 0"
proof -
  have "conserves d d' \<and> a \<in> set (pools d') \<and> pa_name a = custody_name u \<and> txs d' = txs d \<and>
     stakes d' = stakes d \<and> (pools d' = pools d \<or> pools d' = pools d @ [a] \<and> pa_balance a = 0)"
  proof (cases "poolByName (custody_name u) d")
    case (Some x)
    with assms have "a = x" "d' = d" by (auto simp: getOrCreateCustodyAccount_def)
    with Some assms(1) show ?thesis by (auto simp: poolByName_def dest: find_SomeD)
  next
    case None
    with assms(2) have "poolCreate USER_CUSTODY (custody_name u) (Some u) None d = Inr (a, d')"
      by (auto simp: getOrCreateCustodyAccount_def Let_def orThrow_def split: sum.splits if_splits)
    from poolCreate_facts [OF assms(1) this] show ?thesis
      by (simp add: conserves_def)
  qed
  then show "conserves d d'" and "a \<in> set (pools d')" and "pa_name a = custody_name u"
    and "txs d' = txs d" and "stakes d' = stakes d" and "later (pools d) (pools d')"
    and "pools d' = pools d \<or> pools d' = pools d @ [a] \<and> pa_balance a = 0"
    by auto
qed

section \<open>When an entry posts, and that it posts once\<close>

text \<open>The stream still holds fresh identifiers for the transaction table.\<close>

definition fresh_ids :: "db \<Rightarrow> bool" where
  "fresh_ids d \<longleftrightarrow> inj_on (uuids d) {drawn d..} \<and> (\<forall>n \<ge> drawn d. uuids d n \<notin> tx_id ` set (txs d))"

definition debits_of :: "string \<Rightarrow> ledger_leg list \<Rightarrow> int" where
  "debits_of i legs = sum_list (map leg_amount (filter (\<lambda>leg. leg_direction leg = DEBIT) (legs_of i legs)))"

definition covers :: "ledger_leg list \<Rightarrow> db \<Rightarrow> bool" where
  "covers legs d \<longleftrightarrow> (\<forall>leg \<in> set legs. leg_pool leg \<in> pa_id ` set (pools d)) \<and>
     (\<forall>a \<in> set (pools d). mayGoNegative (pa_kind a) \<or> debits_of (pa_id a) legs \<le> pa_balance a)"

lemma debits_of_Cons [simp]:
  "debits_of i (leg # legs) =
     (if leg_pool leg = i \<and> leg_direction leg = DEBIT then leg_amount leg else 0) + debits_of i legs"
  by (simp add: debits_of_def)

lemma debits_of_nonneg: "\<forall>leg \<in> set legs. 0 < leg_amount leg \<Longrightarrow> 0 \<le> debits_of i legs"
proof (induction legs)
  case Nil
  then show ?case by (simp add: debits_of_def)
next
  case (Cons leg legs)
  then show ?case by (auto simp: debits_of_def)
qed

lemma txCreate_ok:
  assumes "fresh_ids d" and "tx_key t \<notin> tx_key ` set (txs d)"
  shows "\<exists>i d'. txCreate t d = Inr (i, d') \<and> fresh_ids d' \<and> txs d' = txs d @ [t\<lparr>tx_id := i\<rparr>] \<and> pools d' = pools d"
proof -
  have "inj_on (uuids d) {Suc (drawn d)..}"
    using assms(1) unfolding fresh_ids_def by (auto intro: inj_on_subset)
  moreover have "uuids d (drawn d) \<noteq> uuids d n" if "Suc (drawn d) \<le> n" for n
    using assms(1) that unfolding fresh_ids_def by (auto dest: inj_onD [where x = "drawn d" and y = n])
  moreover have n: "uuids d (drawn d) \<notin> tx_id ` set (txs d)"
    using assms(1) by (simp add: fresh_ids_def)
  moreover have "txCreate t d = Inr (uuids d (drawn d),
      d\<lparr>drawn := Suc (drawn d), txs := txs d @ [t\<lparr>tx_id := uuids d (drawn d)\<rparr>]\<rparr>)"
    using n assms(2) by (simp add: txCreate_def randomUUID_def list_ex_iff image_iff) metis
  ultimately show ?thesis
    using assms(1) by (simp add: fresh_ids_def) metis
qed

lemma postLegs_ok:
  assumes "db_wf d" and "fresh_ids d" and "\<forall>leg \<in> set legs. 0 < leg_amount leg" and "covers legs d"
    and "\<forall>j. k \<le> j \<longrightarrow> leg_key p j \<notin> tx_key ` set (txs d)"
  shows "\<exists>ids d'. postLegs p k legs d = Inr (ids, d')"
  using assms
proof (induction legs arbitrary: k d)
  case Nil
  then show ?case by simp
next
  case (Cons leg legs)
  from Cons.prems(4) obtain a0 where a0: "a0 \<in> set (pools d)" "pa_id a0 = leg_pool leg"
    by (auto simp: covers_def)
  have dist: "distinct (map pa_id (pools d))" using Cons.prems(1) by (simp add: db_wf_def)
  have a: "poolById (leg_pool leg) d = Some a0"
    unfolding poolById_def by (rule find_key [OF dist a0])
  let ?b = "pa_balance a0 + leg_delta leg"
  have amt: "0 < leg_amount leg" "\<forall>leg \<in> set legs. 0 < leg_amount leg" using Cons.prems(3) by auto
  have cov0: "mayGoNegative (pa_kind a0) \<or> debits_of (pa_id a0) (leg # legs) \<le> pa_balance a0"
    using Cons.prems(4) a0(1) unfolding covers_def by blast
  have guard: "\<not> (?b < 0 \<and> \<not> mayGoNegative (pa_kind a0))"
    using cov0 a0(2) amt(1) debits_of_nonneg [OF amt(2), of "pa_id a0"]
    by (cases "leg_direction leg") (auto simp: leg_delta_def)
  define d1 where "d1 = d\<lparr>pools := upd_rows (\<lambda>b. pa_id b = pa_id a0) (setBalance ?b) (pools d)\<rparr>"
  have up: "poolUpdate (pa_id a0) (pa_version a0) (setBalance ?b) d = Inr d1"
    using poolUpdate_ok [OF Cons.prems(1) a0(1)] by (simp add: d1_def)
  then obtain n where n: "poolUpdateMany (pa_id a0) (pa_version a0) (setBalance ?b) d = (n, d1)" "n \<noteq> 0"
    by (auto simp: poolUpdate_def split: prod.splits if_splits)
  have wf1: "db_wf d1" unfolding d1_def by (rule db_wf_upd [OF Cons.prems(1) versioned_set(1)])
  have d1: "txs d1 = txs d" "fresh_ids d1" using Cons.prems(2) by (simp_all add: d1_def fresh_ids_def)
  have "tx_key (leg_tx p k leg a0) \<notin> tx_key ` set (txs d1)"
    using Cons.prems(5) by (simp add: d1 leg_tx_def)
  from txCreate_ok [OF d1(2) this] obtain i d2 where
    t: "txCreate (leg_tx p k leg a0) d1 = Inr (i, d2)" "fresh_ids d2"
    "txs d2 = txs d @ [(leg_tx p k leg a0)\<lparr>tx_id := i\<rparr>]" "pools d2 = pools d1"
    unfolding d1(1) by blast
  have keys: "\<forall>j. Suc k \<le> j \<longrightarrow> leg_key p j \<notin> tx_key ` set (txs d2)"
    using Cons.prems(5) by (auto simp: t(3) leg_tx_def leg_key_def dest: show_nat_inj)
  have "map pa_id (pools d2) = map pa_id (pools d)"
    by (simp add: t(4) d1_def map_key_upd_rows)
  then have "set (map pa_id (pools d2)) = set (map pa_id (pools d))" by simp
  then have ids2: "pa_id ` set (pools d2) = pa_id ` set (pools d)" by simp
  have "covers legs d2"
    unfolding covers_def
  proof
    show "\<forall>leg \<in> set legs. leg_pool leg \<in> pa_id ` set (pools d2)"
      using Cons.prems(4) ids2 unfolding covers_def by simp
    show "\<forall>a \<in> set (pools d2). mayGoNegative (pa_kind a) \<or> debits_of (pa_id a) legs \<le> pa_balance a"
    proof
      fix y assume "y \<in> set (pools d2)"
      then obtain b where b: "b \<in> set (pools d)" "y = (if pa_id b = pa_id a0 then setBalance ?b b else b)"
        by (auto simp: t(4) d1_def set_upd_rows)
      have cb: "mayGoNegative (pa_kind b) \<or> debits_of (pa_id b) (leg # legs) \<le> pa_balance b"
        using Cons.prems(4) b(1) unfolding covers_def by blast
      show "mayGoNegative (pa_kind y) \<or> debits_of (pa_id y) legs \<le> pa_balance y"
      proof (cases "pa_id b = pa_id a0")
        case True
        have "b = a0" using distinct_key_eq [OF dist b(1) a0(1) True] .
        with b(2) a0(2) amt(1) cov0 show ?thesis
          by (cases "leg_direction leg") (auto simp: leg_delta_def)
      next
        case False
        with b(2) a0(2) cb show ?thesis by simp
      qed
    qed
  qed
  from Cons.IH [OF txCreate_facts(1) [OF wf1 t(1)] t(2) amt(2) this keys]
  obtain ids d' where "postLegs p (Suc k) legs d2 = Inr (ids, d')" by blast
  with a guard n t(1) show ?case by (auto simp: Let_def)
qed

text \<open>An entry whose key has been used is refused, whatever came after it.\<close>

lemma postLegs_used:
  assumes "leg_key p k \<in> tx_key ` set (txs d)"
  shows "\<exists>e. postLegs p k (leg # legs) d = Inl e"
proof (cases "poolById (leg_pool leg) d")
  case None
  then show ?thesis by simp
next
  case (Some a)
  have "\<exists>e. txCreate (leg_tx p k leg a) d1 = Inl e" if "txs d1 = txs d" for d1
    using assms that by (auto simp: txCreate_def randomUUID_def list_ex_iff leg_tx_def)
  moreover have "txs (snd (poolUpdateMany i v f d)) = txs d" for i v f
    by (simp add: poolUpdateMany_def Let_def)
  ultimately have "\<exists>e. txCreate (leg_tx p k leg a) (snd (poolUpdateMany i v f d)) = Inl e" for i v f
    by blast
  then obtain e where "txCreate (leg_tx p k leg a) (snd (poolUpdateMany (pa_id a) (pa_version a)
      (setBalance (pa_balance a + leg_delta leg)) d)) = Inl e" by blast
  with Some show ?thesis by (auto simp: Let_def split: prod.splits)
qed

section \<open>A database to try things on\<close>

definition sample_account :: "string \<Rightarrow> pool_kind \<Rightarrow> string \<Rightarrow> string option \<Rightarrow> string option \<Rightarrow> int \<Rightarrow> int \<Rightarrow> pool_account" where
  "sample_account i k n owner game b r = \<lparr> pa_id = i, pa_kind = k, pa_name = n, pa_owner = owner,
     pa_game = game, pa_balance = b, pa_reserved = r, pa_version = 0 \<rparr>"

definition sample_db :: db where
  "sample_db = \<lparr> uuids = show_nat, drawn = 0,
     pools = [sample_account ''x'' EXTERNAL ''external'' None None (-100) 0,
              sample_account ''r'' RAKE_POOL ''rake'' None None 0 0,
              sample_account ''a'' USER_CUSTODY ''custody:ann'' (Some ''ann'') None 60 0,
              sample_account ''b'' USER_CUSTODY ''custody:bob'' (Some ''bob'') None 40 0],
     txs = [], stakes = [], games = [], gamePlayers = [], wallets = [], deposits = [],
     withdrawals = [], rewards = [], leaderboard = [] \<rparr>"

definition sample_leg :: "string \<Rightarrow> tx_direction \<Rightarrow> int \<Rightarrow> ledger_leg" where
  "sample_leg i dir amt = \<lparr> leg_pool = i, leg_user = None, leg_direction = dir, leg_amount = amt,
     leg_description = None \<rparr>"

definition sample_post :: post_params where
  "sample_post = \<lparr> pp_type = TRANSFER, pp_legs = [sample_leg ''a'' DEBIT 50, sample_leg ''b'' CREDIT 50],
     pp_key = ''move'', pp_group = ''g'', pp_game = None, pp_deposit = None, pp_withdrawal = None,
     pp_reward = None \<rparr>"

lemma sample_db_wf [simp]: "db_wf sample_db"
  by (simp add: sample_db_def db_wf_def sample_account_def map_filter_simps)

lemma inj_show_nat: "inj show_nat"
  by (rule injI) (rule show_nat_inj)

lemma sample_db_fresh [simp]: "fresh_ids sample_db"
  unfolding fresh_ids_def using inj_on_subset [OF inj_show_nat] by (auto simp: sample_db_def)

lemma sample_post_runs: "\<exists>ids d'. postEntry sample_post sample_db = Inr (ids, d')"
  by (simp add: postEntry_def assertBalanced_def sample_post_def sample_leg_def sample_db_def
      sample_account_def poolById_def poolUpdateMany_def txCreate_def randomUUID_def leg_delta_def
      leg_tx_def leg_key_def setBalance_def show_nat.simps digit_def)

section \<open>Properties\<close>

text \<open>
  a posted entry changes exactly the accounts its legs name, each by the net amount of its
  legs and by one version step per leg, touches nothing else of an account, and appends one posted
  row per leg with the leg's account, direction and amount under the entry's keys.
\<close>

theorem postEntry_effect:
  assumes "db_wf d" and "postEntry p d = Inr (ids, d')"
  shows "pools d' = map (apply_legs (pp_legs p)) (pools d) \<and>
         (\<exists>ts. txs d' = txs d @ ts \<and> map tx_id ts = ids \<and> map tx_pool ts = map leg_pool (pp_legs p) \<and>
           map tx_direction ts = map leg_direction (pp_legs p) \<and>
           map tx_amount ts = map leg_amount (pp_legs p) \<and>
           map tx_key ts = map (leg_key p) [0..<length (pp_legs p)] \<and>
           list_all (\<lambda>t. tx_status t = POSTED) ts)"
  using postLegs_effect [OF assms(1) postEntry_Inr(1) [OF assms(2)]]
    postLegs_rows [OF assms(1) postEntry_Inr(1) [OF assms(2)]] by simp

theorem postEntry_effect_witness:
  "\<exists>ids d'. postEntry sample_post sample_db = Inr (ids, d') \<and>
     pools d' = map (apply_legs (pp_legs sample_post)) (pools sample_db)"
  using sample_post_runs postEntry_effect [OF sample_db_wf, of sample_post] by blast

text \<open>
  posting keeps every account but \<open>EXTERNAL\<close> at or above zero: an entry that would overdraw one
  is refused as a whole.
\<close>

theorem postEntry_solvent:
  assumes "db_wf d" and "solvent (pools d)" and "postEntry p d = Inr (ids, d')"
  shows "solvent (pools d')"
  using postLegs_solvent [OF assms(1) postEntry_Inr(1) [OF assms(3)] assms(2)] .

theorem postEntry_solvent_witness:
  "\<exists>ids d'. postEntry sample_post sample_db = Inr (ids, d') \<and> solvent (pools d')"
proof -
  have "solvent (pools sample_db)"
    by (simp add: solvent_def sample_db_def sample_account_def mayGoNegative_def)
  then show ?thesis using sample_post_runs postEntry_solvent [OF sample_db_wf] by blast
qed

text \<open>
  an entry is posted at most once: after it has been posted, and whatever else the ledger has
  recorded since, every entry under the same key is refused.
\<close>

theorem postEntry_once:
  assumes "db_wf d" and "postEntry p d = Inr (ids, d')" and "prefix (txs d') (txs later_db)"
    and "pp_key q = pp_key p"
  shows "\<exists>e. postEntry q later_db = Inl e"
proof (cases "assertBalanced (pp_legs q)")
  case (Inl e)
  then show ?thesis by (simp add: postEntry_def)
next
  case (Inr r)
  then obtain leg legs where legs: "pp_legs q = leg # legs"
    using assertBalanced_Inr(1) by (cases "pp_legs q") fastforce+
  have "2 \<le> length (pp_legs p)" using postEntry_Inr(2) [OF assms(2)] assertBalanced_Inr(1) by blast
  moreover obtain ts where ts: "txs d' = txs d @ ts"
    "map tx_key ts = map (leg_key p) [0..<0 + length (pp_legs p)]"
    using postLegs_rows [OF assms(1) postEntry_Inr(1) [OF assms(2)]] by blast
  ultimately have "leg_key p 0 \<in> set (map tx_key ts)"
    unfolding ts(2) by (auto intro!: rev_image_eqI [of 0])
  then have "leg_key p 0 \<in> tx_key ` set (txs later_db)"
    using set_mono_prefix [OF assms(3)] ts(1) by auto
  moreover have "leg_key q 0 = leg_key p 0" using assms(4) by (simp add: leg_key_def)
  ultimately obtain e where "postLegs q 0 (pp_legs q) later_db = Inl e"
    using postLegs_used [of q 0 later_db leg legs] legs by auto
  with Inr show ?thesis by (auto simp: postEntry_def)
qed

theorem postEntry_once_witness:
  "\<exists>ids d' e. postEntry sample_post sample_db = Inr (ids, d') \<and> postEntry sample_post d' = Inl e"
  using sample_post_runs postEntry_once [OF sample_db_wf] by blast

text \<open>
  a balanced entry of positive legs posts whenever its accounts exist, hold what it debits
  from them, and its key is unused: none of the error branches refuses a legitimate transfer.
\<close>

theorem postEntry_succeeds:
  assumes "db_wf d" and "fresh_ids d" and "2 \<le> length (pp_legs p)"
    and "\<forall>leg \<in> set (pp_legs p). 0 < leg_amount leg" and "sum_list (map leg_delta (pp_legs p)) = 0"
    and "covers (pp_legs p) d" and "\<forall>j. leg_key p j \<notin> tx_key ` set (txs d)"
  shows "\<exists>ids d'. postEntry p d = Inr (ids, d')"
proof -
  obtain r where "assertBalanced (pp_legs p) = Inr r" using assertBalanced_iff assms(3-5) by blast
  moreover obtain ids d' where "postLegs p 0 (pp_legs p) d = Inr (ids, d')"
    using postLegs_ok [OF assms(1,2,4,6)] assms(7) by blast
  ultimately show ?thesis by (simp add: postEntry_def)
qed

theorem postEntry_succeeds_witness: "\<exists>ids d'. postEntry sample_post sample_db = Inr (ids, d')"
  by (rule postEntry_succeeds)
     (simp_all add: sample_post_def sample_leg_def leg_delta_def covers_def debits_of_def legs_of_def
        mayGoNegative_def, simp_all add: sample_db_def sample_account_def)

end
