(* ===== verification/Money_Effects.thy ===== *)
theory Money_Effects
  imports Ledger
begin

text \<open>
  What the money theories share beyond the ledger: running effectful functions one after the other,
  the writes that leave the books alone, and balances as a list that changes account by account.
\<close>

type_synonym 'a act = "(money_error, 'a) res \<times> db"

section \<open>Sequencing\<close>

lemma act_bind_conserves:
  assumes "conserves d (snd m)" and "\<And>r d1. m = (Inr r, d1) \<Longrightarrow> conserves d1 (snd (k r d1))"
  shows "conserves d (snd (act_bind m k))"
proof (cases m)
  case (Pair r d1)
  with assms show ?thesis by (cases r) (auto intro: conserves_trans)
qed

lemma act_bindE:
  assumes "act_bind m k = (Inr r, d')"
  obtains v d1 where "m = (Inr v, d1)" and "k v d1 = (Inr r, d')"
proof (cases m)
  case (Pair x d1)
  with assms that show thesis by (cases x) auto
qed

section \<open>Writes outside the books\<close>

lemma conserves_ext:
  "conserves d (d'\<lparr>gamePlayers := a\<rparr>) = conserves d d'" "conserves d (d'\<lparr>rewards := b\<rparr>) = conserves d d'"
  "conserves d (d'\<lparr>leaderboard := c\<rparr>) = conserves d d'" "conserves d (d'\<lparr>deposits := e\<rparr>) = conserves d d'"
  "conserves d (d'\<lparr>withdrawals := f\<rparr>) = conserves d d'" "conserves d (d'\<lparr>drawn := n\<rparr>) = conserves d d'"
  by (simp_all add: conserves_def db_wf_def poolTotal_def ledgerNet_def)

lemma db_wf_ext [simp]:
  "db_wf (d\<lparr>gamePlayers := a\<rparr>) = db_wf d" "db_wf (d\<lparr>rewards := b\<rparr>) = db_wf d"
  "db_wf (d\<lparr>leaderboard := c\<rparr>) = db_wf d" "db_wf (d\<lparr>games := g\<rparr>) = db_wf d" "db_wf (d\<lparr>drawn := n\<rparr>) = db_wf d"
  "db_wf (d\<lparr>deposits := e\<rparr>) = db_wf d" "db_wf (d\<lparr>withdrawals := f\<rparr>) = db_wf d"
  by (simp_all add: db_wf_def)

text \<open>What the writes outside the money tables leave alone.\<close>

definition same_money :: "db \<Rightarrow> db \<Rightarrow> bool" where
  "same_money d d' \<longleftrightarrow> pools d' = pools d \<and> txs d' = txs d \<and> stakes d' = stakes d"

lemma same_money_refl [simp]: "same_money d d"
  by (simp add: same_money_def)

lemma same_money_trans: "same_money d d1 \<Longrightarrow> same_money d1 d2 \<Longrightarrow> same_money d d2"
  by (simp add: same_money_def)

lemma same_money_conserves: "same_money d d' \<Longrightarrow> db_wf d \<Longrightarrow> conserves d d'"
  by (simp add: same_money_def conserves_def db_wf_def poolTotal_def ledgerNet_def)

lemma same_money_bind:
  assumes "same_money d (snd m)" and "\<And>r d1. m = (Inr r, d1) \<Longrightarrow> same_money d1 (snd (k r d1))"
  shows "same_money d (snd (act_bind m k))"
proof (cases m)
  case (Pair r d1)
  with assms show ?thesis by (cases r) (auto intro: same_money_trans)
qed

lemma act_bind_money:
  assumes "db_wf d" and "same_money d (snd m)" and "\<And>r d1. m = (Inr r, d1) \<Longrightarrow> db_wf d1 \<Longrightarrow> conserves d1 (snd (k r d1))"
  shows "conserves d (snd (act_bind m k))"
proof -
  have c: "conserves d (snd m)" by (rule same_money_conserves [OF assms(2,1)])
  then have "db_wf d1" if "m = (Inr r, d1)" for r d1 using that by (simp add: conserves_def)
  then show ?thesis using act_bind_conserves [OF c] assms(3) by blast
qed

lemma act_bind_keeps:
  assumes "db_wf d" and "conserves d (snd m)" and "\<And>r d1. m = (Inr r, d1) \<Longrightarrow> db_wf d1 \<Longrightarrow> conserves d1 (snd (k r d1))"
  shows "conserves d (snd (act_bind m k))"
  using act_bind_conserves [OF assms(2)] assms(2,3) by (metis conservesD(1) snd_conv)

lemma money_keeps: "same_money d (snd m) \<Longrightarrow> db_wf d \<Longrightarrow> conserves d (snd m)"
  by (rule same_money_conserves)

section \<open>Balances\<close>

text \<open>A balance change keyed by account.\<close>

definition balances :: "db \<Rightarrow> (string \<times> int) list" where
  "balances d = map (\<lambda>a. (pa_id a, pa_balance a)) (pools d)"

definition bump :: "string \<Rightarrow> int \<Rightarrow> (string \<times> int) list \<Rightarrow> (string \<times> int) list" where
  "bump i x bs = map (\<lambda>(j, b). (j, if j = i then b + x else b)) bs"

lemma balances_credit:
  assumes "db_wf d" and "c \<in> set (pools d)"
    and "pools d' = upd_rows (\<lambda>a. pa_id a = pa_id c) (setBalance (pa_balance c + x)) (pools d)"
  shows "balances d' = bump (pa_id c) x (balances d)"
proof -
  have "b = c" if "b \<in> set (pools d)" "pa_id b = pa_id c" for b
    using assms(1,2) that by (intro distinct_key_eq [where key = pa_id]) (auto simp: db_wf_def)
  then have "(pa_id (if pa_id b = pa_id c then setBalance (pa_balance c + x) b else b),
         pa_balance (if pa_id b = pa_id c then setBalance (pa_balance c + x) b else b)) =
        (pa_id b, if pa_id b = pa_id c then pa_balance b + x else pa_balance b)"
    if "b \<in> set (pools d)" for b using that by (cases "pa_id b = pa_id c") auto
  then show ?thesis by (simp add: balances_def bump_def assms(3) upd_rows_def)
qed

lemma balances_set:
  assumes "db_wf d" and "c \<in> set (pools d)"
    and "pools d' = upd_rows (\<lambda>a. pa_id a = pa_id c) (setBalance x) (pools d)"
  shows "balances d' = bump (pa_id c) (x - pa_balance c) (balances d)"
  using balances_credit [OF assms(1,2), of d' "x - pa_balance c"] assms(3) by simp

text \<open>Changing what is reserved moves no balance.\<close>

lemma setReserved_conserves:
  assumes "db_wf d" and "poolUpdate i v (setReserved r) d = Inr d'"
  shows "conserves d d'" and "stakes d' = stakes d" and "txs d' = txs d"
proof -
  from poolUpdate_facts [OF assms(1) versioned_set(2) assms(2)] obtain x where
    "d' = d\<lparr>pools := upd_rows (\<lambda>a. pa_id a = i) (setReserved r) (pools d)\<rparr>" "db_wf d'"
    "poolTotal d' = poolTotal d - pa_balance x + pa_balance (setReserved r x)" by metis
  then show "conserves d d'" and "stakes d' = stakes d" and "txs d' = txs d"
    by (auto simp: conserves_def ledgerNet_def)
qed

section \<open>Entries under their keys\<close>

text \<open>An entry is refused as posted already only when one of its keys has been used.\<close>

lemma postLegs_taken:
  assumes "postLegs p k legs d = Inl (DbError (P2002 f))" and "f \<noteq> ''id''"
  shows "\<exists>j \<ge> k. leg_key p j \<in> tx_key ` set (txs d)"
  using assms(1)
proof (induction legs arbitrary: k d)
  case Nil
  then show ?case by simp
next
  case (Cons leg legs)
  then obtain a where a: "poolById (leg_pool leg) d = Some a" by (cases "poolById (leg_pool leg) d") auto
  obtain n d1 where n: "poolUpdateMany (pa_id a) (pa_version a) (setBalance (pa_balance a + leg_delta leg)) d = (n, d1)"
    by (cases "poolUpdateMany (pa_id a) (pa_version a) (setBalance (pa_balance a + leg_delta leg)) d")
  then have t1: "txs d1 = txs d" by (auto simp: poolUpdateMany_def Let_def)
  show ?case
  proof (cases "txCreate (leg_tx p k leg a) d1")
    case (Inl e)
    with Cons.prems a n have "e = DbError (P2002 f)" by (auto simp: Let_def split: if_splits)
    with Inl assms(2) have "leg_key p k \<in> tx_key ` set (txs d)"
      by (auto simp: txCreate_def randomUUID_def list_ex_iff leg_tx_def t1 image_iff intro: sym split: if_splits)
    then show ?thesis by blast
  next
    case (Inr r)
    obtain i d2 where r: "r = (i, d2)" by (cases r)
    from Inr r have t2: "txs d2 = txs d @ [(leg_tx p k leg a)\<lparr>tx_id := i\<rparr>]"
      by (auto simp: txCreate_def randomUUID_def t1 split: if_splits)
    from Cons.prems a n Inr r have "postLegs p (Suc k) legs d2 = Inl (DbError (P2002 f))"
      by (auto simp: Let_def rbind_eq_Inl split: if_splits prod.splits)
    from Cons.IH [OF this] obtain j where j: "Suc k \<le> j" "leg_key p j \<in> tx_key ` set (txs d2)" by blast
    have "leg_key p j \<noteq> leg_key p k" using j(1) by (auto simp: leg_key_def dest: show_nat_inj)
    with j t2 have "leg_key p j \<in> tx_key ` set (txs d)" by (auto simp: leg_tx_def)
    with j(1) show ?thesis by (intro exI [of _ j]) simp
  qed
qed

lemma postEntry_AlreadyPosted:
  assumes "postEntry p d = Inl (AlreadyPosted k)"
  shows "\<exists>j. leg_key p j \<in> tx_key ` set (txs d)"
proof -
  have ne: "sumLegs legs c b \<noteq> Inl (AlreadyPosted x)" for legs c b x
    by (induction legs c b rule: sumLegs.induct) auto
  have na: "assertBalanced legs \<noteq> Inl (AlreadyPosted x)" for legs x
    by (auto simp: assertBalanced_def ne rbind_eq_Inl split: prod.splits)
  have pl: "postLegs p i legs d1 \<noteq> Inl (AlreadyPosted x)" for i legs d1 x
    by (induction p i legs d1 rule: postLegs.induct)
       (auto simp: Let_def rbind_eq_Inl txCreate_def split: option.splits prod.splits if_splits)
  from assms obtain e where e: "postLegs p 0 (pp_legs p) d = Inl e" "isUniqueViolation e (Some ''idempotency_key'')"
    using na pl by (auto simp: postEntry_def rbind_eq_Inl split: sum.splits if_splits)
  then obtain f where f: "e = DbError (P2002 f)" "sublist ''idempotency_key'' f"
    by (auto simp: isUniqueViolation_def split: money_error.splits db_error.splits)
  have "f \<noteq> ''id''"
  proof
    assume "f = ''id''"
    with f(2) have "length ''idempotency_key'' \<le> length ''id''" by (metis sublist_length_le)
    then show False by simp
  qed
  from postLegs_taken [OF e(1) [unfolded f(1)] this] show ?thesis by blast
qed

text \<open>The tables that money functions leave to the cashier.\<close>

definition same_cashier :: "db \<Rightarrow> db \<Rightarrow> bool" where
  "same_cashier d d' \<longleftrightarrow> deposits d' = deposits d \<and> withdrawals d' = withdrawals d \<and> wallets d' = wallets d"

lemma same_cashier_refl [simp]: "same_cashier d d"
  by (simp add: same_cashier_def)

lemma same_cashier_trans: "same_cashier d d1 \<Longrightarrow> same_cashier d1 d2 \<Longrightarrow> same_cashier d d2"
  by (simp add: same_cashier_def)

lemma txCreate_cashier: "txCreate t d = Inr (i, d') \<Longrightarrow> same_cashier d d'"
  by (auto simp: txCreate_def randomUUID_def same_cashier_def split: if_splits)

lemma postLegs_cashier: "postLegs p k legs d = Inr (ids, d') \<Longrightarrow> same_cashier d d'"
proof (induction legs arbitrary: k d ids)
  case Nil
  then show ?case by simp
next
  case (Cons leg legs)
  then obtain a where a: "poolById (leg_pool leg) d = Some a" by (cases "poolById (leg_pool leg) d") auto
  obtain n d1 where n: "poolUpdateMany (pa_id a) (pa_version a) (setBalance (pa_balance a + leg_delta leg)) d = (n, d1)"
    by (cases "poolUpdateMany (pa_id a) (pa_version a) (setBalance (pa_balance a + leg_delta leg)) d")
  from Cons.prems a n obtain i d2 js where t: "txCreate (leg_tx p k leg a) d1 = Inr (i, d2)" and r: "postLegs p (Suc k) legs d2 = Inr (js, d')"
    by (auto simp: Let_def split: if_splits elim!: rbindE)
  have "same_cashier d d1" using n by (auto simp: poolUpdateMany_def Let_def same_cashier_def)
  with txCreate_cashier [OF t] Cons.IH [OF r] show ?case by (blast intro: same_cashier_trans)
qed

lemma postEntry_cashier: "postEntry p d = Inr (ids, d') \<Longrightarrow> same_cashier d d'"
  using postEntry_Inr(1) postLegs_cashier by blast

lemma custody_cashier: "getOrCreateCustodyAccount u d = Inr (c, d') \<Longrightarrow> same_cashier d d'"
  by (auto simp: getOrCreateCustodyAccount_def Let_def poolCreate_def randomUUID_def orThrow_def same_cashier_def
      split: option.splits sum.splits if_splits)

text \<open>An entry of two legs moves the amount from one account to the other.\<close>

lemma balances_apply_legs:
  assumes "pools d' = map (apply_legs legs) (pools d)"
  shows "balances d' = map (\<lambda>(i, b). (i, b + net_of i legs)) (balances d)"
  by (simp add: balances_def assms comp_def)

end
