(* ===== verification/Stake.thy ===== *)
theory Stake
  imports Money_Effects
begin

text \<open>
  Entry-fee stakes (\<open>packages/db/src/stake.ts\<close>): reserving on join, releasing on leave, and the
  point of no return, where a tier's reservations become a game's pot. Every function that is one
  \<open>$transaction\<close> is a \<open>tx_run\<close>; \<open>reserveEntryFee\<close>, which may create the custody account before its
  transaction, returns its outcome and the database it leaves.
\<close>

declare txCreateMany.simps [simp del]

section \<open>The table\<close>

definition stakeFind :: "string \<Rightarrow> string \<Rightarrow> db \<Rightarrow> stake_reservation option" where
  "stakeFind u t d = find (\<lambda>r. sr_user r = u \<and> sr_tier r = t) (stakes d)"

definition stakeCreate :: "string \<Rightarrow> string \<Rightarrow> int \<Rightarrow> db \<Rightarrow> (money_error, db) res" where
  "stakeCreate u t l d =
    (case randomUUID d of (i, d1) \<Rightarrow>
      if list_ex (\<lambda>r. sr_id r = i) (stakes d) then Inl (DbError (P2002 ''id''))
      else if list_ex (\<lambda>r. sr_user r = u \<and> sr_tier r = t) (stakes d)
        then Inl (DbError (P2002 ''user_id_tier_id''))
      else Inr (d1\<lparr>stakes := stakes d1 @ [\<lparr> sr_id = i, sr_user = u, sr_tier = t, sr_lamports = l \<rparr>]\<rparr>))"

definition stakeDelete :: "string \<Rightarrow> db \<Rightarrow> (money_error, db) res" where
  "stakeDelete i d =
    (if list_ex (\<lambda>r. sr_id r = i) (stakes d)
     then Inr (d\<lparr>stakes := filter (\<lambda>r. sr_id r \<noteq> i) (stakes d)\<rparr>) else Inl (DbError P2025))"

section \<open>Operations\<close>

definition stake_getOrCreateCustodyAccount :: "string \<Rightarrow> db \<Rightarrow> pool_account tx_run" where
  "stake_getOrCreateCustodyAccount userId d =
    (let name = custody_name userId
     in case poolByName name d of
          Some existing \<Rightarrow> Inr (existing, d)
        | None \<Rightarrow>
            (case poolCreate USER_CUSTODY name (Some userId) None d of
               Inr r \<Rightarrow> Inr r
             | Inl error \<Rightarrow> rbind (orThrow (poolByName name d)) (\<lambda>raced. Inr (raced, d))))"

record reserve_result =
  rr_reserved :: int
  rr_already :: bool
  rr_spendableAfter :: int

definition reserveTx :: "string \<Rightarrow> string \<Rightarrow> int \<Rightarrow> string \<Rightarrow> db \<Rightarrow> reserve_result tx_run" where
  "reserveTx userId tid lamports custodyId d =
    (case stakeFind userId tid d of
       Some existing \<Rightarrow>
         rbind (orThrow (poolById custodyId d)) (\<lambda>account.
           Inr (\<lparr> rr_reserved = sr_lamports existing, rr_already = True,
                  rr_spendableAfter = spendable account \<rparr>, d))
     | None \<Rightarrow>
         rbind (orThrow (poolById custodyId d)) (\<lambda>account.
           let available = spendable account
           in if available < lamports then Inl (InsufficientBalance lamports available)
              else rbind (poolUpdate (pa_id account) (pa_version account)
                            (setReserved (pa_reserved account + lamports)) d) (\<lambda>d1.
                   rbind (stakeCreate userId tid lamports d1) (\<lambda>d2.
                     Inr (\<lparr> rr_reserved = lamports, rr_already = False,
                            rr_spendableAfter = available - lamports \<rparr>, d2)))))"

definition reserveEntryFee :: "string \<Rightarrow> string \<Rightarrow> int \<Rightarrow> db \<Rightarrow> (money_error, reserve_result) res \<times> db" where
  "reserveEntryFee userId tid lamports d =
    (if lamports < 0 then (Inl (RangeError ''Entry fee cannot be negative''), d)
     else if lamports = 0 then
       act_bind (transaction (stake_getOrCreateCustodyAccount userId) d)
         (\<lambda>custody d1. (Inr \<lparr> rr_reserved = 0, rr_already = False,
                               rr_spendableAfter = spendable custody \<rparr>, d1))
     else
       act_bind (transaction (stake_getOrCreateCustodyAccount userId) d)
         (\<lambda>custody d1. transaction (reserveTx userId tid lamports (pa_id custody)) d1))"

definition releaseEntryFee :: "string \<Rightarrow> string \<Rightarrow> db \<Rightarrow> int tx_run" where
  "releaseEntryFee userId tid d =
    (case stakeFind userId tid d of
       None \<Rightarrow> Inr (0, d)
     | Some existing \<Rightarrow>
         rbind (case poolByOwner userId d of
                  None \<Rightarrow> Inr d
                | Some custody \<Rightarrow>
                    (let remaining = (if sr_lamports existing < pa_reserved custody
                                  then pa_reserved custody - sr_lamports existing else 0)
                     in poolUpdate (pa_id custody) (pa_version custody) (setReserved remaining) d))
           (\<lambda>d1. rbind (stakeDelete (sr_id existing) d1) (\<lambda>d2. Inr (sr_lamports existing, d2))))"

definition reservationsForTier :: "string \<Rightarrow> db \<Rightarrow> (string \<times> int) list" where
  "reservationsForTier tid d =
    map (\<lambda>r. (sr_user r, sr_lamports r)) (filter (\<lambda>r. sr_tier r = tid) (stakes d))"

text \<open>The loop of \<open>consumeReservations\<close>; its three counters travel along.\<close>

record consume_acc =
  ca_escrowBalance :: int
  ca_total :: int
  ca_consumed :: nat

definition stake_leg :: "string \<Rightarrow> string \<Rightarrow> stake_reservation \<Rightarrow> string \<Rightarrow> tx_direction \<Rightarrow> int
    \<Rightarrow> string \<Rightarrow> string \<Rightarrow> ledger_tx" where
  "stake_leg tid gid row grp dir after pool key =
    \<lparr> tx_id = [], tx_group = grp, tx_type = ENTRY_FEE, tx_direction = dir, tx_status = POSTED,
      tx_amount = sr_lamports row, tx_balanceAfter = after, tx_user = Some (sr_user row),
      tx_pool = pool, tx_game = Some gid, tx_deposit = None, tx_withdrawal = None, tx_reward = None,
      tx_key = key, tx_description = Some (''Entry fee for '' @ tid) \<rparr>"

definition stake_key :: "string \<Rightarrow> string \<Rightarrow> string" where
  "stake_key gid userId = ''stake:'' @ gid @ '':'' @ userId"

definition consumeRow :: "string \<Rightarrow> string \<Rightarrow> pool_account \<Rightarrow> stake_reservation \<Rightarrow> consume_acc \<Rightarrow> db
    \<Rightarrow> consume_acc tx_run" where
  "consumeRow tid gid escrow row acc d =
    (case poolByOwner (sr_user row) d of
       None \<Rightarrow> Inr (acc, d)
     | Some custody \<Rightarrow>
         if pa_balance custody < sr_lamports row
         then Inl (StakeExceedsBalance (sr_user row) (sr_lamports row) (pa_balance custody))
         else
           (let custodyAfter = pa_balance custody - sr_lamports row;
                reservedAfter = (if sr_lamports row < pa_reserved custody
                                 then pa_reserved custody - sr_lamports row else 0);
                escrowBalance = ca_escrowBalance acc + sr_lamports row
            in rbind (poolUpdate (pa_id custody) (pa_version custody)
                       (\<lambda>a. a\<lparr>pa_balance := custodyAfter, pa_reserved := reservedAfter,
                              pa_version := Suc (pa_version a)\<rparr>) d) (\<lambda>d1.
                 case randomUUID d1 of (entryGroupId, d2) \<Rightarrow>
                   rbind (txCreateMany
                     [stake_leg tid gid row entryGroupId DEBIT custodyAfter (pa_id custody)
                        (stake_key gid (sr_user row)),
                      stake_leg tid gid row entryGroupId CREDIT escrowBalance (pa_id escrow)
                        (stake_key gid (sr_user row) @ '':escrow'')] d2) (\<lambda>d3.
                     Inr (\<lparr> ca_escrowBalance = escrowBalance, ca_total = ca_total acc + sr_lamports row,
                            ca_consumed = ca_consumed acc + 1 \<rparr>, d3)))))"

fun consumeRows :: "string \<Rightarrow> string \<Rightarrow> pool_account \<Rightarrow> stake_reservation list \<Rightarrow> consume_acc \<Rightarrow> db
    \<Rightarrow> consume_acc tx_run" where
  "consumeRows tid gid escrow [] acc d = Inr (acc, d)"
| "consumeRows tid gid escrow (row # rows) acc d =
    rbind (consumeRow tid gid escrow row acc d)
      (\<lambda>(acc1, d1). consumeRows tid gid escrow rows acc1 d1)"

definition consumeReservations :: "string \<Rightarrow> string \<Rightarrow> string \<Rightarrow> int option \<Rightarrow> db \<Rightarrow> (nat \<times> int) tx_run" where
  "consumeReservations tid gid escrowAccountId expectedLamports d =
    (let rows = filter (\<lambda>r. sr_tier r = tid) (stakes d);
         staked = foldl (\<lambda>sum row. sum + sr_lamports row) 0 rows
     in rbind (case expectedLamports of
                 None \<Rightarrow> Inr ()
               | Some expected \<Rightarrow> guard_or (staked = expected) (StakeMismatch tid staked expected)) (\<lambda>_.
          if rows = [] then Inr ((0, 0), d)
          else
            rbind (orThrow (poolById escrowAccountId d)) (\<lambda>escrow.
              rbind (consumeRows tid gid escrow rows
                       \<lparr> ca_escrowBalance = pa_balance escrow, ca_total = 0, ca_consumed = 0 \<rparr> d)
                (\<lambda>(acc, d1).
                  rbind (poolUpdate (pa_id escrow) (pa_version escrow)
                           (setBalance (ca_escrowBalance acc)) d1) (\<lambda>d2.
                    Inr ((ca_consumed acc, ca_total acc),
                         d2\<lparr>stakes := filter (\<lambda>r. sr_tier r \<noteq> tid) (stakes d2)\<rparr>))))))"

section \<open>The books are kept\<close>

lemma conserves_stakes [simp]: "conserves d (d'\<lparr>stakes := r\<rparr>) = conserves d d'"
  by (simp add: conserves_def db_wf_def poolTotal_def ledgerNet_def)

lemma conserves_drawn [simp]: "conserves d (d'\<lparr>drawn := n\<rparr>) = conserves d d'"
  by (simp add: conserves_def db_wf_def poolTotal_def ledgerNet_def)

lemma stakeCreate_Inr:
  assumes "stakeCreate u t l d = Inr d'"
  shows "\<exists>i. d' = d\<lparr>drawn := Suc (drawn d), stakes := stakes d @ [\<lparr> sr_id = i, sr_user = u, sr_tier = t, sr_lamports = l \<rparr>]\<rparr> \<and>
           i \<notin> sr_id ` set (stakes d)"
    and "(u, t) \<notin> (\<lambda>r. (sr_user r, sr_tier r)) ` set (stakes d)"
  using assms by (auto simp: stakeCreate_def randomUUID_def list_ex_iff split: if_splits
      intro!: exI [of _ "uuids d (drawn d)"])

lemma stake_getOrCreate_conserves:
  assumes "db_wf d" and "stake_getOrCreateCustodyAccount u d = Inr (a, d')"
  shows "conserves d d'" and "a \<in> set (pools d')" and "pa_name a = custody_name u"
    and "stakes d' = stakes d"
    and "pools d' = pools d \<or> pools d' = pools d @ [a] \<and> pa_owner a = Some u \<and> pa_balance a = 0 \<and> pa_reserved a = 0"
proof -
  have "conserves d d' \<and> a \<in> set (pools d') \<and> pa_name a = custody_name u \<and> stakes d' = stakes d \<and>
     (pools d' = pools d \<or> pools d' = pools d @ [a] \<and> pa_owner a = Some u \<and> pa_balance a = 0 \<and> pa_reserved a = 0)"
  proof (cases "poolByName (custody_name u) d")
    case (Some x)
    with assms have "a = x" "d' = d" by (auto simp: stake_getOrCreateCustodyAccount_def)
    with Some assms(1) show ?thesis by (auto simp: poolByName_def dest: find_SomeD)
  next
    case None
    with assms(2) have "poolCreate USER_CUSTODY (custody_name u) (Some u) None d = Inr (a, d')"
      by (auto simp: stake_getOrCreateCustodyAccount_def Let_def orThrow_def split: sum.splits)
    from poolCreate_facts [OF assms(1) this] show ?thesis
      by (simp add: conserves_def)
  qed
  then show "conserves d d'" and "a \<in> set (pools d')" and "pa_name a = custody_name u"
    and "stakes d' = stakes d"
    and "pools d' = pools d \<or> pools d' = pools d @ [a] \<and> pa_owner a = Some u \<and> pa_balance a = 0 \<and> pa_reserved a = 0"
    by auto
qed

lemma reserveTx_cases:
  assumes "reserveTx u t l i d = Inr (r, d')"
  obtains (already) e where "stakeFind u t d = Some e" and "d' = d" and "rr_already r" and "rr_reserved r = sr_lamports e"
  | (fresh) a d1 where "stakeFind u t d = None" and "poolById i d = Some a" and "l \<le> spendable a"
      and "poolUpdate (pa_id a) (pa_version a) (setReserved (pa_reserved a + l)) d = Inr d1"
      and "stakeCreate u t l d1 = Inr d'"
      and "r = \<lparr> rr_reserved = l, rr_already = False, rr_spendableAfter = spendable a - l \<rparr>"
proof (cases "stakeFind u t d")
  case (Some e)
  with assms show thesis
    by (intro already) (auto simp: reserveTx_def elim!: rbindE)
next
  case None
  with assms obtain a where a: "poolById i d = Some a"
    by (cases "poolById i d") (auto simp: reserveTx_def orThrow_def)
  with None assms have l: "l \<le> spendable a"
    by (auto simp: reserveTx_def orThrow_def Let_def split: if_splits)
  with None a assms obtain d1 where
    "poolUpdate (pa_id a) (pa_version a) (setReserved (pa_reserved a + l)) d = Inr d1"
    "stakeCreate u t l d1 = Inr d'"
    "r = \<lparr> rr_reserved = l, rr_already = False, rr_spendableAfter = spendable a - l \<rparr>"
    by (auto simp: reserveTx_def orThrow_def Let_def elim!: rbindE)
  with None a l show thesis by (rule fresh)
qed

lemma reserveTx_conserves:
  assumes "db_wf d" and "reserveTx u t l i d = Inr (r, d')"
  shows "conserves d d'"
  using assms(2)
proof (cases rule: reserveTx_cases)
  case (already e)
  with assms(1) show ?thesis by simp
next
  case (fresh a d1)
  with setReserved_conserves(1) [OF assms(1) fresh(4)] show ?thesis
    by (auto dest!: stakeCreate_Inr(1))
qed

lemma releaseEntryFee_conserves:
  assumes "db_wf d" and "releaseEntryFee u t d = Inr (r, d')"
  shows "conserves d d'"
proof (cases "stakeFind u t d")
  case None
  with assms show ?thesis by (auto simp: releaseEntryFee_def)
next
  case (Some e)
  with assms(2) obtain d1 where
    u: "(case poolByOwner u d of None \<Rightarrow> Inr d
         | Some custody \<Rightarrow>
             (let remaining = (if sr_lamports e < pa_reserved custody
                           then pa_reserved custody - sr_lamports e else 0)
              in poolUpdate (pa_id custody) (pa_version custody) (setReserved remaining) d)) = Inr d1"
    and s: "stakeDelete (sr_id e) d1 = Inr d'"
    by (auto simp: releaseEntryFee_def elim!: rbindE)
  have "conserves d d1"
  proof (cases "poolByOwner u d")
    case None
    with u assms(1) show ?thesis by simp
  next
    case (Some c)
    with u show ?thesis using setReserved_conserves(1) [OF assms(1)] by (simp add: Let_def)
  qed
  with s show ?thesis by (auto simp: stakeDelete_def split: if_splits)
qed

interpretation release: ledger_op "releaseEntryFee u t" for u t
  by unfold_locales (rule releaseEntryFee_conserves)

interpretation reserve_tx: ledger_op "reserveTx u t l i" for u t l i
  by unfold_locales (rule reserveTx_conserves)

interpretation stake_custody: ledger_op "stake_getOrCreateCustodyAccount u" for u
  by unfold_locales (rule stake_getOrCreate_conserves)

interpretation reserve: ledger_act "reserveEntryFee u t l" for u t l
proof unfold_locales
  fix d assume wf: "db_wf d"
  let ?m = "transaction (stake_getOrCreateCustodyAccount u) d"
  have c: "conserves d (snd ?m)" by (rule stake_custody.committed.act_conserves [OF wf])
  have wf1: "db_wf d1" if "?m = (Inr a, d1)" for a d1 using c that by (auto simp: conserves_def)
  have "conserves d1 (snd (transaction (reserveTx u t l (pa_id a)) d1))" if "?m = (Inr a, d1)" for a d1
    by (rule reserve_tx.committed.act_conserves [OF wf1 [OF that]])
  then show "conserves d (snd (reserveEntryFee u t l d))"
    unfolding reserveEntryFee_def using wf wf1
    by (auto intro!: act_bind_conserves [OF c])
qed

text \<open>Consuming one row: what its player loses is what the running escrow balance gains.\<close>

definition consume_step :: "db \<Rightarrow> consume_acc \<Rightarrow> db \<Rightarrow> consume_acc \<Rightarrow> bool" where
  "consume_step d acc d' acc' \<longleftrightarrow> db_wf d' \<and> later (pools d) (pools d') \<and> prefix (txs d) (txs d') \<and>
     stakes d' = stakes d \<and> ledgerNet d' = ledgerNet d \<and>
     poolTotal d' + ca_escrowBalance acc' = poolTotal d + ca_escrowBalance acc \<and>
     ca_escrowBalance acc' - ca_escrowBalance acc = ca_total acc' - ca_total acc"

lemma consume_step_refl: "db_wf d \<Longrightarrow> consume_step d acc d acc"
  by (simp add: consume_step_def)

lemma consume_step_trans:
  "consume_step d acc d1 acc1 \<Longrightarrow> consume_step d1 acc1 d2 acc2 \<Longrightarrow> consume_step d acc d2 acc2"
  unfolding consume_step_def using later_trans prefix_order.trans by auto

lemma consumeRow_step:
  assumes "db_wf d" and "consumeRow tid gid escrow row acc d = Inr (acc', d')"
  shows "consume_step d acc d' acc'"
proof (cases "poolByOwner (sr_user row) d")
  case None
  with assms show ?thesis by (simp add: consumeRow_def consume_step_refl)
next
  case (Some c)
  let ?after = "pa_balance c - sr_lamports row"
  let ?res = "if sr_lamports row < pa_reserved c then pa_reserved c - sr_lamports row else 0"
  let ?f = "\<lambda>a. a\<lparr>pa_balance := ?after, pa_reserved := ?res, pa_version := Suc (pa_version a)\<rparr>"
  from Some have c: "c \<in> set (pools d)" by (auto simp: poolByOwner_def dest: find_SomeD)
  have "\<not> pa_balance c < sr_lamports row" using assms(2) Some by (auto simp: consumeRow_def)
  with assms(2) Some obtain d1 grp d2 where
    up: "poolUpdate (pa_id c) (pa_version c) ?f d = Inr d1"
    and uu: "randomUUID d1 = (grp, d2)"
    and tx: "txCreateMany [stake_leg tid gid row grp DEBIT ?after (pa_id c) (stake_key gid (sr_user row)),
                stake_leg tid gid row grp CREDIT (ca_escrowBalance acc + sr_lamports row) (pa_id escrow)
                  (stake_key gid (sr_user row) @ '':escrow'')] d2 = Inr d'"
    and acc': "acc' = \<lparr> ca_escrowBalance = ca_escrowBalance acc + sr_lamports row,
                 ca_total = ca_total acc + sr_lamports row, ca_consumed = ca_consumed acc + 1 \<rparr>"
    by (auto simp: consumeRow_def Let_def elim!: rbindE split: prod.splits)
  have v: "versioned ?f" by (simp add: versioned_def)
  obtain x where x: "x \<in> set (pools d)" "pa_id x = pa_id c" "pa_version x = pa_version c"
    and d1: "d1 = d\<lparr>pools := upd_rows (\<lambda>a. pa_id a = pa_id c) ?f (pools d)\<rparr>" "db_wf d1"
      "later (pools d) (pools d1)" "poolTotal d1 = poolTotal d - pa_balance x + pa_balance (?f x)"
    by (rule poolUpdate_facts [OF assms(1) v up])
  have "x = c" using assms(1) x c by (intro distinct_key_eq [where key = pa_id]) (auto simp: db_wf_def)
  with d1(4) have tot: "poolTotal d1 = poolTotal d - sr_lamports row" by simp
  have d2: "d2 = d1\<lparr>drawn := Suc (drawn d1)\<rparr>" using uu by (simp add: randomUUID_def)
  then have "db_wf d2" using d1(2) by (simp add: db_wf_def)
  from txCreateMany_facts [OF this tx] d2 show ?thesis
    using d1 tot by (simp add: consume_step_def acc' signed_def stake_leg_def poolTotal_def ledgerNet_def)
qed

lemma consumeRows_step:
  "db_wf d \<Longrightarrow> consumeRows tid gid escrow rows acc d = Inr (acc', d') \<Longrightarrow> consume_step d acc d' acc'"
proof (induction rows arbitrary: acc d)
  case Nil
  then show ?case by (simp add: consume_step_refl)
next
  case (Cons row rows)
  from Cons.prems(2) obtain acc1 d1 where r: "consumeRow tid gid escrow row acc d = Inr (acc1, d1)"
    "consumeRows tid gid escrow rows acc1 d1 = Inr (acc', d')" by (auto elim!: rbindE)
  note s = consumeRow_step [OF Cons.prems(1) r(1)]
  have "db_wf d1" using s by (simp add: consume_step_def)
  from consume_step_trans [OF s Cons.IH [OF this r(2)]] show ?case .
qed

lemma consumeReservations_Inr:
  assumes "consumeReservations tid gid eid expected d = Inr ((n, tot), d')"
  obtains (empty) "filter (\<lambda>r. sr_tier r = tid) (stakes d) = []" and "n = 0" and "tot = 0" and "d' = d"
  | (some) escrow acc d1 d2 where "filter (\<lambda>r. sr_tier r = tid) (stakes d) \<noteq> []"
      and "poolById eid d = Some escrow"
      and "consumeRows tid gid escrow (filter (\<lambda>r. sr_tier r = tid) (stakes d))
             \<lparr> ca_escrowBalance = pa_balance escrow, ca_total = 0, ca_consumed = 0 \<rparr> d = Inr (acc, d1)"
      and "poolUpdate (pa_id escrow) (pa_version escrow) (setBalance (ca_escrowBalance acc)) d1 = Inr d2"
      and "n = ca_consumed acc" and "tot = ca_total acc"
      and "d' = d2\<lparr>stakes := filter (\<lambda>r. sr_tier r \<noteq> tid) (stakes d2)\<rparr>"
proof (cases "filter (\<lambda>r. sr_tier r = tid) (stakes d) = []")
  case True
  with assms show thesis
    by (intro empty) (auto simp: consumeReservations_def Let_def elim!: rbindE split: option.splits)
next
  case False
  with assms obtain escrow where e: "poolById eid d = Some escrow"
    by (cases "poolById eid d")
       (auto simp: consumeReservations_def orThrow_def Let_def elim!: rbindE split: option.splits)
  from assms False e obtain acc d1 where
    r: "consumeRows tid gid escrow (filter (\<lambda>r. sr_tier r = tid) (stakes d))
          \<lparr> ca_escrowBalance = pa_balance escrow, ca_total = 0, ca_consumed = 0 \<rparr> d = Inr (acc, d1)"
    and k: "rbind (poolUpdate (pa_id escrow) (pa_version escrow) (setBalance (ca_escrowBalance acc)) d1) (\<lambda>d2.
              Inr ((ca_consumed acc, ca_total acc),
                   d2\<lparr>stakes := filter (\<lambda>r. sr_tier r \<noteq> tid) (stakes d2)\<rparr>)) = Inr ((n, tot), d')"
    unfolding consumeReservations_def orThrow_def Let_def
    by (auto elim!: rbindE)
  from k show thesis
    by (auto intro!: some [OF False e r] elim!: rbindE)
qed

lemma consumeReservations_conserves:
  assumes wf: "db_wf d" and run: "consumeReservations tid gid eid expected d = Inr (r, d')"
  shows "conserves d d'"
proof (cases r)
  case (Pair n tot)
  from run [unfolded Pair] show ?thesis
  proof (cases rule: consumeReservations_Inr)
    case empty
    with wf show ?thesis by simp
  next
    case (some escrow acc d1 d2)
    from consumeRows_step [OF wf some(3)]
    have s: "db_wf d1" "later (pools d) (pools d1)" "prefix (txs d) (txs d1)" "ledgerNet d1 = ledgerNet d"
      "poolTotal d1 + ca_escrowBalance acc = poolTotal d + pa_balance escrow"
      by (simp_all add: consume_step_def)
    from some(2) have e: "escrow \<in> set (pools d)" by (auto simp: poolById_def dest: find_SomeD)
    from poolUpdate_facts [OF s(1) versioned_set(1) some(4)] obtain x where
      x: "x \<in> set (pools d1)" "pa_id x = pa_id escrow" "pa_version x = pa_version escrow"
      and d2: "d2 = d1\<lparr>pools := upd_rows (\<lambda>a. pa_id a = pa_id escrow) (setBalance (ca_escrowBalance acc)) (pools d1)\<rparr>"
        "db_wf d2" "poolTotal d2 = poolTotal d1 - pa_balance x + ca_escrowBalance acc" by auto
    have "x = escrow" using later_row [OF s(2) e _ x] s(1) by (simp add: db_wf_def)
    then have "conserves d d2" using d2 s by (simp add: conserves_def ledgerNet_def)
    then show ?thesis by (simp add: some(7))
  qed
qed

interpretation consume: ledger_op "consumeReservations tid gid eid expected" for tid gid eid expected
  by unfold_locales (rule consumeReservations_conserves)

section \<open>Every reservation is covered\<close>

text \<open>What rows say about the owner of an account.\<close>

definition rows_of :: "pool_account \<Rightarrow> stake_reservation list \<Rightarrow> stake_reservation list" where
  "rows_of a rows = filter (\<lambda>r. pa_owner a = Some (sr_user r)) rows"

definition due :: "pool_account \<Rightarrow> stake_reservation list \<Rightarrow> int" where
  "due a rows = sum_list (map sr_lamports (rows_of a rows))"

text \<open>
  \<open>covered rows d\<close>: each row's player has an account, and every account's reserved amount covers the
  rows of its owner and is itself covered by the balance.
\<close>

definition covered :: "stake_reservation list \<Rightarrow> db \<Rightarrow> bool" where
  "covered rows d \<longleftrightarrow> (\<forall>r \<in> set rows. 0 < sr_lamports r \<and> Some (sr_user r) \<in> pa_owner ` set (pools d)) \<and>
     (\<forall>a \<in> set (pools d). pa_owner a \<noteq> None \<longrightarrow> due a rows \<le> pa_reserved a \<and> pa_reserved a \<le> pa_balance a)"

definition linked :: "pool_account list \<Rightarrow> bool" where
  "linked ps \<longleftrightarrow> (\<forall>a \<in> set ps. \<forall>u. pa_name a = custody_name u \<longleftrightarrow> pa_owner a = Some u)"

definition stake_inv :: "db \<Rightarrow> bool" where
  "stake_inv d \<longleftrightarrow> db_wf d \<and> linked (pools d) \<and> covered (stakes d) d \<and>
     distinct (map sr_id (stakes d)) \<and> distinct (map (\<lambda>r. (sr_user r, sr_tier r)) (stakes d))"

lemma rows_of_simps [simp]:
  "rows_of a [] = []"
  "rows_of a (r # rows) = (if pa_owner a = Some (sr_user r) then r # rows_of a rows else rows_of a rows)"
  "rows_of a (rows @ rows') = rows_of a rows @ rows_of a rows'"
  by (simp_all add: rows_of_def)

lemma due_simps [simp]:
  "due a [] = 0"
  "due a (r # rows) = (if pa_owner a = Some (sr_user r) then sr_lamports r + due a rows else due a rows)"
  "due a (rows @ rows') = due a rows + due a rows'"
  by (simp_all add: due_def)

lemma due_owner: "pa_owner a = pa_owner b \<Longrightarrow> due a rows = due b rows"
  by (simp add: due_def rows_of_def)

lemma due_nonneg: "\<forall>r \<in> set rows. 0 < sr_lamports r \<Longrightarrow> 0 \<le> due a rows"
  by (induction rows) auto

lemma due_filter_le:
  assumes "\<forall>r \<in> set rows. 0 < sr_lamports r"
  shows "due a (filter P rows) \<le> due a rows"
  using assms by (induction rows) auto

lemma due_split: "due a (filter P rows) + due a (filter (\<lambda>r. \<not> P r) rows) = due a rows"
  by (induction rows) auto

lemma due_member:
  assumes "\<forall>r \<in> set rows. 0 < sr_lamports r" and "r \<in> set rows" and "pa_owner a = Some (sr_user r)"
  shows "sr_lamports r \<le> due a rows"
  using assms
proof (induction rows)
  case Nil
  then show ?case by simp
next
  case (Cons x xs)
  then show ?case using due_nonneg [of xs a] by auto
qed

lemma map_filter_unique:
  assumes "distinct (List.map_filter f xs)" and "x \<in> set xs" and "y \<in> set xs" and "f x = Some v" and "f y = Some v"
  shows "x = y"
  using assms
proof (induction xs)
  case Nil
  then show ?case by simp
next
  case (Cons z zs)
  then show ?case
    by (cases "f z") (force simp: map_filter_simps set_map_filter)+
qed

lemma owner_unique:
  "db_wf d \<Longrightarrow> a \<in> set (pools d) \<Longrightarrow> b \<in> set (pools d) \<Longrightarrow> pa_owner a = Some u \<Longrightarrow> pa_owner b = Some u \<Longrightarrow> a = b"
  unfolding db_wf_def by (blast intro: map_filter_unique)

section \<open>What consuming does, exactly\<close>

definition take_rows :: "stake_reservation list \<Rightarrow> pool_account \<Rightarrow> pool_account" where
  "take_rows rows a = a\<lparr>pa_balance := pa_balance a - due a rows, pa_reserved := pa_reserved a - due a rows,
     pa_version := pa_version a + length (rows_of a rows)\<rparr>"

lemma take_rows_sel [simp]:
  "pa_owner (take_rows rows a) = pa_owner a" "pa_id (take_rows rows a) = pa_id a"
  "pa_name (take_rows rows a) = pa_name a" "pa_game (take_rows rows a) = pa_game a"
  "pa_kind (take_rows rows a) = pa_kind a"
  "pa_balance (take_rows rows a) = pa_balance a - due a rows"
  "pa_reserved (take_rows rows a) = pa_reserved a - due a rows"
  "pa_version (take_rows rows a) = pa_version a + length (rows_of a rows)"
  by (simp_all add: take_rows_def)

lemma take_rows_Nil [simp]: "take_rows [] a = a"
  by (simp add: take_rows_def)

lemma take_rows_Cons: "take_rows rows (take_rows [r] a) = take_rows (r # rows) a"
  using due_owner [of "take_rows [r] a" a rows]
  by (simp add: take_rows_def rows_of_def algebra_simps)

lemma consumeRow_exact:
  assumes wf: "db_wf d" and cov: "covered (row # rows) d"
    and run: "consumeRow tid gid escrow row acc d = Inr (acc', d')"
  shows "pools d' = map (take_rows [row]) (pools d) \<and> ca_total acc' = ca_total acc + sr_lamports row \<and>
         ca_consumed acc' = ca_consumed acc + 1"
proof -
  from cov obtain a where a: "a \<in> set (pools d)" "pa_owner a = Some (sr_user row)"
    by (auto simp: covered_def image_iff)
  then obtain c where Some: "poolByOwner (sr_user row) d = Some c"
    by (cases "poolByOwner (sr_user row) d") (auto simp: poolByOwner_def dest: find_NoneD)
  then have c: "c \<in> set (pools d)" "pa_owner c = Some (sr_user row)"
    by (auto simp: poolByOwner_def dest: find_SomeD)
  from cov have pos: "\<forall>r \<in> set rows. 0 < sr_lamports r" by (simp add: covered_def)
  have res: "sr_lamports row \<le> pa_reserved c"
    using cov c due_nonneg [OF pos, of c] by (auto simp: covered_def)
  let ?after = "pa_balance c - sr_lamports row"
  let ?res = "if sr_lamports row < pa_reserved c then pa_reserved c - sr_lamports row else 0"
  let ?f = "\<lambda>a. a\<lparr>pa_balance := ?after, pa_reserved := ?res, pa_version := Suc (pa_version a)\<rparr>"
  have "\<not> pa_balance c < sr_lamports row" using run Some by (auto simp: consumeRow_def)
  with run Some obtain d1 grp d2 where
    up: "poolUpdate (pa_id c) (pa_version c) ?f d = Inr d1"
    and uu: "randomUUID d1 = (grp, d2)"
    and tx: "txCreateMany [stake_leg tid gid row grp DEBIT ?after (pa_id c) (stake_key gid (sr_user row)),
                stake_leg tid gid row grp CREDIT (ca_escrowBalance acc + sr_lamports row) (pa_id escrow)
                  (stake_key gid (sr_user row) @ '':escrow'')] d2 = Inr d'"
    and acc': "acc' = \<lparr> ca_escrowBalance = ca_escrowBalance acc + sr_lamports row,
                 ca_total = ca_total acc + sr_lamports row, ca_consumed = ca_consumed acc + 1 \<rparr>"
    by (auto simp: consumeRow_def Let_def elim!: rbindE split: prod.splits)
  have d1: "d1 = d\<lparr>pools := upd_rows (\<lambda>a. pa_id a = pa_id c) ?f (pools d)\<rparr>"
    using up poolUpdate_ok [OF wf c(1), of ?f] by simp
  have d2: "d2 = d1\<lparr>drawn := Suc (drawn d1)\<rparr>" using uu by (simp add: randomUUID_def)
  have "db_wf d2" using db_wf_upd [OF wf, of ?f] by (simp add: d2 d1 db_wf_def versioned_def)
  from txCreateMany_facts [OF this tx] have p: "pools d' = pools d1" by (simp add: d2)
  have "(if pa_id b = pa_id c then ?f b else b) = take_rows [row] b" if b: "b \<in> set (pools d)" for b
  proof (cases "b = c")
    case True
    with c(2) res show ?thesis by (simp add: take_rows_def)
  next
    case False
    then have "pa_id b \<noteq> pa_id c"
      using wf b c(1) distinct_key_eq [of pa_id "pools d" b c] by (auto simp: db_wf_def)
    moreover have "pa_owner b \<noteq> Some (sr_user row)" using owner_unique [OF wf b c(1)] c(2) False by blast
    ultimately show ?thesis by (simp add: take_rows_def)
  qed
  then show ?thesis by (simp add: p d1 upd_rows_def acc')
qed

lemma covered_take:
  assumes "covered (row # rows) d" and "pools d' = map (take_rows [row]) (pools d)"
  shows "covered rows d'"
proof -
  have o: "pa_owner ` set (pools d') = pa_owner ` set (pools d)" by (simp add: assms(2) image_image)
  have "due (take_rows [row] a) rows = due a rows" for a by (rule due_owner) simp
  with assms(1) show ?thesis unfolding covered_def o by (auto simp: assms(2))
qed

lemma consumeRows_exact:
  assumes "db_wf d" and "covered rows d" and "consumeRows tid gid escrow rows acc d = Inr (acc', d')"
  shows "pools d' = map (take_rows rows) (pools d) \<and>
         ca_total acc' = ca_total acc + sum_list (map sr_lamports rows) \<and>
         ca_consumed acc' = ca_consumed acc + length rows"
  using assms
proof (induction rows arbitrary: acc d)
  case Nil
  then show ?case by (simp add: map_idI)
next
  case (Cons row rows)
  from Cons.prems(3) obtain acc1 d1 where r: "consumeRow tid gid escrow row acc d = Inr (acc1, d1)"
    "consumeRows tid gid escrow rows acc1 d1 = Inr (acc', d')" by (auto elim!: rbindE)
  note e = consumeRow_exact [OF Cons.prems(1,2) r(1)]
  have "db_wf d1" using consumeRow_step [OF Cons.prems(1) r(1)] by (simp add: consume_step_def)
  from Cons.IH [OF this covered_take [OF Cons.prems(2)] r(2)] e show ?case
    by (simp add: take_rows_Cons)
qed

lemma consumeRow_no_shortfall:
  assumes "db_wf d" and "covered (row # rows) d"
  shows "consumeRow tid gid escrow row acc d \<noteq> Inl (StakeExceedsBalance u l b)"
proof (cases "poolByOwner (sr_user row) d")
  case None
  then show ?thesis by (simp add: consumeRow_def)
next
  case (Some c)
  then have c: "c \<in> set (pools d)" "pa_owner c = Some (sr_user row)"
    by (auto simp: poolByOwner_def dest: find_SomeD)
  from assms(2) have "sr_lamports row + due c rows \<le> pa_reserved c \<and> pa_reserved c \<le> pa_balance c"
    "\<forall>r \<in> set rows. 0 < sr_lamports r" using c by (auto simp: covered_def)
  with due_nonneg [of rows c] have "\<not> pa_balance c < sr_lamports row" by auto
  moreover have "poolUpdate i v f d \<noteq> Inl (StakeExceedsBalance u l b)" for i v f
    by (auto simp: poolUpdate_def split: prod.splits if_splits)
  moreover have "txCreateMany ts e \<noteq> Inl (StakeExceedsBalance u l b)" for ts e
  proof (induction ts arbitrary: e)
    case Nil
    then show ?case by (simp add: txCreateMany.simps)
  next
    case (Cons t ts)
    then show ?case
      by (auto simp: txCreateMany.simps txCreate_def rbind_eq_Inl split: prod.splits if_splits)
  qed
  ultimately show ?thesis using Some
    by (auto simp: consumeRow_def Let_def rbind_eq_Inl split: prod.splits)
qed

lemma consumeRows_no_shortfall:
  assumes "db_wf d" and "covered rows d"
  shows "consumeRows tid gid escrow rows acc d \<noteq> Inl (StakeExceedsBalance u l b)"
  using assms
proof (induction rows arbitrary: acc d)
  case Nil
  then show ?case by simp
next
  case (Cons row rows)
  show ?case
  proof (cases "consumeRow tid gid escrow row acc d")
    case (Inl e)
    with consumeRow_no_shortfall [OF Cons.prems, of tid gid escrow acc u l b] show ?thesis by simp
  next
    case (Inr x)
    obtain acc1 d1 where x: "x = (acc1, d1)" by (cases x)
    have "db_wf d1" using consumeRow_step [OF Cons.prems(1)] Inr x by (simp add: consume_step_def)
    moreover have "covered rows d1"
      using covered_take [OF Cons.prems(2)] consumeRow_exact [OF Cons.prems] Inr x by blast
    ultimately show ?thesis using Cons.IH Inr x by simp
  qed
qed

lemma covered_filter:
  assumes "covered rows d"
  shows "covered (filter P rows) d"
proof -
  from assms have pos: "\<forall>r \<in> set rows. 0 < sr_lamports r" by (simp add: covered_def)
  have "due a (filter P rows) \<le> pa_reserved a \<and> pa_reserved a \<le> pa_balance a"
    if "a \<in> set (pools d)" "pa_owner a \<noteq> None" for a
    using assms that due_filter_le [OF pos, of a P] unfolding covered_def by (meson order_trans)
  with assms show ?thesis by (simp add: covered_def)
qed

text \<open>A successful run of \<open>consumeReservations\<close> on covered stakes.\<close>

lemma consumeReservations_exact:
  assumes inv: "stake_inv d" and run: "consumeReservations tid gid eid expected d = Inr ((n, tot), d')"
  defines "rows \<equiv> filter (\<lambda>r. sr_tier r = tid) (stakes d)"
  shows "n = length rows \<and> tot = sum_list (map sr_lamports rows) \<and>
         stakes d' = filter (\<lambda>r. sr_tier r \<noteq> tid) (stakes d) \<and>
         pools d' = (if rows = [] then pools d
           else map (\<lambda>a. if pa_id a = eid then setBalance (pa_balance a + tot) a else take_rows rows a) (pools d)) \<and>
         (rows \<noteq> [] \<longrightarrow> eid \<in> pa_id ` set (pools d) \<and>
            (\<forall>a \<in> set (pools d). pa_id a = eid \<longrightarrow> rows_of a rows = []))"
  using run
proof (cases rule: consumeReservations_Inr)
  case empty
  then show ?thesis by (auto simp: rows_def filter_empty_conv intro: filter_True [symmetric])
next
  case (some escrow acc d1 d2)
  have wf: "db_wf d" and cov: "covered (stakes d) d" using inv by (simp_all add: stake_inv_def)
  have covr: "covered rows d" unfolding rows_def by (rule covered_filter [OF cov])
  note ex = consumeRows_exact [OF wf covr some(3) [folded rows_def]]
  note st = consumeRows_step [OF wf some(3)]
  from st have wf1: "db_wf d1" and s1: "stakes d1 = stakes d"
    and eb: "ca_escrowBalance acc = pa_balance escrow + ca_total acc"
    by (simp_all add: consume_step_def)
  from some(2) have e: "escrow \<in> set (pools d)" "pa_id escrow = eid"
    by (auto simp: poolById_def dest: find_SomeD)
  obtain x where x: "x \<in> set (pools d1)" "pa_id x = pa_id escrow" "pa_version x = pa_version escrow"
    and d2: "d2 = d1\<lparr>pools := upd_rows (\<lambda>a. pa_id a = pa_id escrow) (setBalance (ca_escrowBalance acc)) (pools d1)\<rparr>"
    by (rule poolUpdate_facts [OF wf1 versioned_set(1) some(4)])
  from x(1) ex obtain y where y: "y \<in> set (pools d)" "x = take_rows rows y" by auto
  have "y = escrow" using wf y x(2) e(1)
    by (intro distinct_key_eq [where key = pa_id]) (auto simp: db_wf_def)
  with x(3) y(2) have none: "rows_of escrow rows = []" by simp
  have eqe: "b = escrow" if "b \<in> set (pools d)" "pa_id b = eid" for b
    using wf that e by (intro distinct_key_eq [where key = pa_id]) (auto simp: db_wf_def)
  have tot: "tot = ca_total acc" using some(6) .
  have "(if pa_id b = eid then setBalance (ca_escrowBalance acc) (take_rows rows b) else take_rows rows b) =
        (if pa_id b = eid then setBalance (pa_balance b + tot) b else take_rows rows b)"
    if "b \<in> set (pools d)" for b
    using eqe [OF that] none eb tot by (auto simp: take_rows_def due_def setBalance_def)
  then have "pools d2 = map (\<lambda>a. if pa_id a = eid then setBalance (pa_balance a + tot) a else take_rows rows a) (pools d)"
    using ex by (simp add: d2 upd_rows_def e(2))
  moreover have "\<forall>a \<in> set (pools d). pa_id a = eid \<longrightarrow> rows_of a rows = []" using eqe none by blast
  ultimately show ?thesis
    using some ex s1 e d2 by (auto simp: rows_def)
qed

section \<open>The operations keep every reservation covered\<close>

lemma poolById_mem: "db_wf d \<Longrightarrow> a \<in> set (pools d) \<Longrightarrow> poolById (pa_id a) d = Some a"
  unfolding poolById_def db_wf_def by (intro find_key) auto

lemma covered_upd_reserved:
  assumes wf: "db_wf d" and c: "c \<in> set (pools d)" "pa_owner c = Some u"
    and cov: "\<And>a. a \<in> set (pools d) \<Longrightarrow> pa_owner a \<noteq> None \<Longrightarrow> a \<noteq> c \<Longrightarrow>
        due a rows \<le> pa_reserved a \<and> pa_reserved a \<le> pa_balance a"
    and own: "\<forall>r \<in> set rows. 0 < sr_lamports r \<and> Some (sr_user r) \<in> pa_owner ` set (pools d)"
    and new: "due c rows \<le> r" "r \<le> pa_balance c"
    and d': "pools d' = upd_rows (\<lambda>a. pa_id a = pa_id c) (setReserved r) (pools d)"
  shows "covered rows d'"
proof -
  have o: "pa_owner ` set (pools d') = pa_owner ` set (pools d)"
  proof -
    have "map pa_owner (pools d') = map pa_owner (pools d)" unfolding d' by (rule map_key_upd_rows) simp
    then have "set (map pa_owner (pools d')) = set (map pa_owner (pools d))" by simp
    then show ?thesis by simp
  qed
  have "due y rows \<le> pa_reserved y \<and> pa_reserved y \<le> pa_balance y"
    if y: "y \<in> set (pools d')" "pa_owner y \<noteq> None" for y
  proof -
    from y(1) obtain b where b: "b \<in> set (pools d)" "y = (if pa_id b = pa_id c then setReserved r b else b)"
      by (auto simp: d' set_upd_rows)
    show ?thesis
    proof (cases "b = c")
      case True
      with b(2) new show ?thesis using due_owner [of "setReserved r c" c rows] by simp
    next
      case False
      then have "pa_id b \<noteq> pa_id c"
        using wf b(1) c(1) distinct_key_eq [of pa_id "pools d" b c] by (auto simp: db_wf_def)
      with b y(2) cov [OF b(1) _ False] show ?thesis by simp
    qed
  qed
  with own show ?thesis unfolding covered_def o by blast
qed

lemma linked_upd:
  assumes "linked ps" and "\<And>a. pa_name (f a) = pa_name a \<and> pa_owner (f a) = pa_owner a"
  shows "linked (upd_rows P f ps)"
  using assms by (auto simp: linked_def upd_rows_def)

lemma custody_name_inj [simp]: "custody_name u = custody_name v \<longleftrightarrow> u = v"
  by (simp add: custody_name_def)

lemma custody_inv:
  assumes inv: "stake_inv d" and run: "stake_getOrCreateCustodyAccount u d = Inr (a, d')"
  shows "stake_inv d' \<and> a \<in> set (pools d') \<and> pa_owner a = Some u \<and> stakes d' = stakes d"
proof -
  have wf: "db_wf d" using inv by (simp add: stake_inv_def)
  note f = stake_getOrCreate_conserves [OF wf run]
  from f(5) show ?thesis
  proof
    assume p: "pools d' = pools d"
    with inv f show ?thesis by (auto simp: stake_inv_def conserves_def covered_def linked_def)
  next
    assume p: "pools d' = pools d @ [a] \<and> pa_owner a = Some u \<and> pa_balance a = 0 \<and> pa_reserved a = 0"
    have wf': "db_wf d'" using f(1) by (simp add: conserves_def)
    have new: "Some u \<notin> pa_owner ` set (pools d)"
    proof
      assume "Some u \<in> pa_owner ` set (pools d)"
      then have "u \<in> set (List.map_filter pa_owner (pools d))" by (force simp: set_map_filter)
      with wf' p show False by (auto simp: db_wf_def map_filter_append map_filter_simps)
    qed
    have "rows_of a (stakes d) = []"
      using inv new p unfolding stake_inv_def covered_def rows_of_def by (force simp: filter_empty_conv)
    then have "due a (stakes d) = 0" by (simp add: due_def)
    with inv p f(3,4) wf' show ?thesis
      by (auto simp: stake_inv_def covered_def linked_def)
  qed
qed

lemma stake_invD:
  assumes "stake_inv d"
  shows "db_wf d" and "linked (pools d)" and "covered (stakes d) d" and "distinct (map sr_id (stakes d))"
    and "distinct (map (\<lambda>r. (sr_user r, sr_tier r)) (stakes d))"
  using assms by (simp_all add: stake_inv_def)

text \<open>An update of the reserved amount of one account, with the stakes it goes with.\<close>

lemma stake_inv_reserved:
  assumes inv: "stake_inv d" and c: "c \<in> set (pools d)" "pa_owner c = Some u"
    and up: "poolUpdate (pa_id c) (pa_version c) (setReserved r) d = Inr d1"
    and other: "\<And>a. pa_owner a \<noteq> Some u \<Longrightarrow> due a rows \<le> due a (stakes d)"
    and own: "\<forall>x \<in> set rows. 0 < sr_lamports x \<and> Some (sr_user x) \<in> pa_owner ` set (pools d)"
    and new: "due c rows \<le> r" "r \<le> pa_balance c"
    and ids: "distinct (map sr_id rows)" "distinct (map (\<lambda>r. (sr_user r, sr_tier r)) rows)"
  shows "stake_inv (d1\<lparr>drawn := n, stakes := rows\<rparr>)"
proof -
  note i = stake_invD [OF inv]
  have d1: "d1 = d\<lparr>pools := upd_rows (\<lambda>a. pa_id a = pa_id c) (setReserved r) (pools d)\<rparr>"
    using up poolUpdate_ok [OF i(1) c(1), of "setReserved r"] by simp
  have ne: "pa_owner a \<noteq> Some u" if "a \<in> set (pools d)" "a \<noteq> c" for a
    using owner_unique [OF i(1) that(1) c(1)] c(2) that(2) by blast
  have "covered rows d1"
  proof (rule covered_upd_reserved [OF i(1) c _ own new])
    fix a assume a: "a \<in> set (pools d)" "pa_owner a \<noteq> None" "a \<noteq> c"
    have "due a (stakes d) \<le> pa_reserved a \<and> pa_reserved a \<le> pa_balance a"
      using i(3) a by (simp add: covered_def)
    with other [OF ne [OF a(1,3)]] show "due a rows \<le> pa_reserved a \<and> pa_reserved a \<le> pa_balance a" by simp
  qed (simp add: d1)
  moreover have "db_wf d1" unfolding d1 by (rule db_wf_upd [OF i(1) versioned_set(2)])
  moreover have "linked (pools d1)" using linked_upd [OF i(2)] by (simp add: d1 setReserved_def)
  ultimately show ?thesis using ids by (simp add: stake_inv_def db_wf_def covered_def)
qed

lemma reserveTx_inv:
  assumes inv: "stake_inv d" and a: "a \<in> set (pools d)" "pa_owner a = Some u" and l: "0 < l"
    and run: "reserveTx u t l (pa_id a) d = Inr (r, d')"
  shows "stake_inv d'"
  using run
proof (cases rule: reserveTx_cases)
  case (already e)
  with inv show ?thesis by simp
next
  case (fresh b d1)
  note i = stake_invD [OF inv]
  have b: "b = a" using fresh(2) poolById_mem [OF i(1) a(1)] by simp
  from setReserved_conserves(2) [OF i(1) fresh(4)] have s1: "stakes d1 = stakes d" .
  from stakeCreate_Inr [OF fresh(5)] s1 obtain k where
    d': "d' = d1\<lparr>drawn := Suc (drawn d1), stakes := stakes d @ [\<lparr> sr_id = k, sr_user = u, sr_tier = t, sr_lamports = l \<rparr>]\<rparr>"
    and k: "k \<notin> sr_id ` set (stakes d)" "(u, t) \<notin> (\<lambda>r. (sr_user r, sr_tier r)) ` set (stakes d)" by auto
  have room: "pa_reserved a + l \<le> pa_balance a"
    using fresh(3) l b by (auto simp: spendable_def Let_def split: if_splits)
  have "due a (stakes d) \<le> pa_reserved a" using i(3) a by (simp add: covered_def)
  moreover have "\<forall>x \<in> set (stakes d). 0 < sr_lamports x \<and> Some (sr_user x) \<in> pa_owner ` set (pools d)"
    using i(3) by (simp add: covered_def)
  moreover have "Some u \<in> pa_owner ` set (pools d)" using a by force
  ultimately show ?thesis
    unfolding d' using fresh(4) b a(2) room i(4,5) k l
    by (intro stake_inv_reserved [OF inv a]) (auto simp del: distinct_map)
qed

lemma stakeFind_Some:
  "stakeFind u t d = Some e \<Longrightarrow> e \<in> set (stakes d) \<and> sr_user e = u \<and> sr_tier e = t"
  by (auto simp: stakeFind_def dest: find_SomeD)

lemma due_remove:
  assumes "distinct (map sr_id rows)" and "e \<in> set rows"
  shows "due a (filter (\<lambda>r. sr_id r \<noteq> sr_id e) rows) =
         due a rows - (if pa_owner a = Some (sr_user e) then sr_lamports e else 0)"
  using assms
proof (induction rows)
  case Nil
  then show ?case by simp
next
  case (Cons x xs)
  show ?case
  proof (cases "sr_id x = sr_id e")
    case True
    with Cons.prems have "x = e" and "filter (\<lambda>r. sr_id r \<noteq> sr_id e) xs = xs"
      by (auto simp: image_iff intro!: filter_True)
    with True show ?thesis by simp
  next
    case False
    with Cons show ?thesis by auto
  qed
qed

lemma releaseEntryFee_effect:
  assumes inv: "stake_inv d" and e: "stakeFind u t d = Some e"
  obtains c where "c \<in> set (pools d)" and "pa_owner c = Some u" and "sr_lamports e \<le> pa_reserved c"
    and "releaseEntryFee u t d = Inr (sr_lamports e,
           d\<lparr>pools := upd_rows (\<lambda>a. pa_id a = pa_id c) (setReserved (pa_reserved c - sr_lamports e)) (pools d),
             stakes := filter (\<lambda>r. sr_id r \<noteq> sr_id e) (stakes d)\<rparr>)"
proof -
  note i = stake_invD [OF inv]
  from stakeFind_Some [OF e] have em: "e \<in> set (stakes d)" "sr_user e = u" by auto
  with i(3) have "Some u \<in> pa_owner ` set (pools d)" by (auto simp: covered_def)
  then obtain c where cb: "poolByOwner u d = Some c"
    by (cases "poolByOwner u d") (auto simp: poolByOwner_def dest: find_NoneD)
  then have c: "c \<in> set (pools d)" "pa_owner c = Some u" by (auto simp: poolByOwner_def dest: find_SomeD)
  have pos: "\<forall>r \<in> set (stakes d). 0 < sr_lamports r" using i(3) by (simp add: covered_def)
  have le: "sr_lamports e \<le> pa_reserved c"
    using due_member [OF pos em(1), of c] c em(2) i(3) unfolding covered_def by fastforce
  then have next_eq: "(if sr_lamports e < pa_reserved c then pa_reserved c - sr_lamports e else 0) = pa_reserved c - sr_lamports e"
    by simp
  have "list_ex (\<lambda>r. sr_id r = sr_id e) (stakes d)" using em(1) by (auto simp: list_ex_iff)
  then show thesis
    by (intro that [OF c le])
       (simp add: releaseEntryFee_def e cb Let_def next_eq poolUpdate_ok [OF i(1) c(1)] stakeDelete_def)
qed

lemma releaseEntryFee_inv:
  assumes inv: "stake_inv d" and run: "releaseEntryFee u t d = Inr (r, d')"
  shows "stake_inv d'"
proof (cases "stakeFind u t d")
  case None
  with inv run show ?thesis by (simp add: releaseEntryFee_def)
next
  case (Some e)
  note i = stake_invD [OF inv]
  from stakeFind_Some [OF Some] have em: "e \<in> set (stakes d)" "sr_user e = u" by auto
  let ?rows = "filter (\<lambda>r. sr_id r \<noteq> sr_id e) (stakes d)"
  obtain c where c: "c \<in> set (pools d)" "pa_owner c = Some u" "sr_lamports e \<le> pa_reserved c"
    and eff: "releaseEntryFee u t d = Inr (sr_lamports e,
           d\<lparr>pools := upd_rows (\<lambda>a. pa_id a = pa_id c) (setReserved (pa_reserved c - sr_lamports e)) (pools d),
             stakes := ?rows\<rparr>)"
    by (rule releaseEntryFee_effect [OF inv Some])
  let ?d1 = "d\<lparr>pools := upd_rows (\<lambda>a. pa_id a = pa_id c) (setReserved (pa_reserved c - sr_lamports e)) (pools d)\<rparr>"
  have up: "poolUpdate (pa_id c) (pa_version c) (setReserved (pa_reserved c - sr_lamports e)) d = Inr ?d1"
    by (rule poolUpdate_ok [OF i(1) c(1)])
  have pos: "\<forall>r \<in> set (stakes d). 0 < sr_lamports r" using i(3) by (simp add: covered_def)
  have "due c (stakes d) \<le> pa_reserved c" "pa_reserved c \<le> pa_balance c"
    using i(3) c by (auto simp: covered_def)
  moreover have "0 < sr_lamports e" using pos em(1) by blast
  ultimately have new: "due c ?rows \<le> pa_reserved c - sr_lamports e"
    "pa_reserved c - sr_lamports e \<le> pa_balance c"
    using due_remove [OF i(4) em(1), of c] c(2) em(2) by auto
  have "stake_inv (?d1\<lparr>drawn := drawn d, stakes := ?rows\<rparr>)"
    using i(3-5) pos
    by (intro stake_inv_reserved [OF inv c(1,2) up _ _ new])
       (auto simp: due_filter_le covered_def intro: distinct_map_filter)
  with eff run show ?thesis by simp
qed

lemma consumeReservations_inv:
  assumes inv: "stake_inv d" and run: "consumeReservations tid gid eid expected d = Inr (r, d')"
  shows "stake_inv d'"
proof (cases r)
  case (Pair n tot)
  note i = stake_invD [OF inv]
  let ?rows = "filter (\<lambda>r. sr_tier r = tid) (stakes d)"
  let ?rest = "filter (\<lambda>r. sr_tier r \<noteq> tid) (stakes d)"
  note ex = consumeReservations_exact [OF inv run [unfolded Pair]]
  have wf': "db_wf d'" using consumeReservations_conserves [OF i(1) run] by (simp add: conserves_def)
  have pos: "\<forall>r \<in> set (stakes d). 0 < sr_lamports r" using i(3) by (simp add: covered_def)
  have "tot = sum_list (map sr_lamports ?rows)" using ex by blast
  then have tot0: "0 \<le> tot" using pos by (auto intro!: sum_list_nonneg simp: less_imp_le)
  define f where "f a = (if pa_id a = eid then setBalance (pa_balance a + tot) a else take_rows ?rows a)" for a
  have col: "pa_owner (f a) = pa_owner a" "pa_name (f a) = pa_name a" for a
    by (simp_all add: f_def setBalance_def)
  show ?thesis
  proof (cases "?rows = []")
    case True
    with ex have "pools d' = pools d" "stakes d' = stakes d"
      by (auto simp: filter_empty_conv intro: filter_True)
    with inv wf' show ?thesis by (simp add: stake_inv_def covered_def)
  next
    case False
    with ex have p: "pools d' = map f (pools d)" and s: "stakes d' = ?rest"
      and none: "\<forall>a \<in> set (pools d). pa_id a = eid \<longrightarrow> rows_of a ?rows = []"
      by (auto simp: f_def)
    have own: "pa_owner ` set (pools d') = pa_owner ` set (pools d)"
      by (simp only: p set_map image_image col)
    have "due (f a) ?rest \<le> pa_reserved (f a) \<and> pa_reserved (f a) \<le> pa_balance (f a)"
      if a: "a \<in> set (pools d)" "pa_owner a \<noteq> None" for a
    proof -
      have cov: "due a (stakes d) \<le> pa_reserved a" "pa_reserved a \<le> pa_balance a"
        using i(3) a by (auto simp: covered_def)
      have sp: "due a ?rows + due a ?rest = due a (stakes d)" by (rule due_split)
      have "due (f a) ?rest = due a ?rest" by (rule due_owner) (rule col)
      moreover have "due a ?rows = 0" if "pa_id a = eid" using none a that by (simp add: due_def)
      ultimately show ?thesis using cov sp tot0 by (auto simp: f_def)
    qed
    then have "covered ?rest d'"
      using i(3) unfolding covered_def own by (auto simp: p col)
    moreover have "linked (pools d')"
      using i(2) by (simp add: linked_def p col)
    ultimately show ?thesis
      using wf' i(4,5) by (simp add: stake_inv_def s distinct_map_filter)
  qed
qed

lemma reserveEntryFee_inv:
  assumes inv: "stake_inv d"
  shows "stake_inv (snd (reserveEntryFee u t l d))"
proof (cases "l < 0")
  case True
  with inv show ?thesis by (simp add: reserveEntryFee_def)
next
  case False
  show ?thesis
  proof (cases "stake_getOrCreateCustodyAccount u d")
    case (Inl e)
    with inv False show ?thesis by (simp add: reserveEntryFee_def transaction_def)
  next
    case (Inr x)
    obtain a d1 where x: "x = (a, d1)" by (cases x)
    from custody_inv [OF inv Inr [unfolded x]]
    have c: "stake_inv d1" "a \<in> set (pools d1)" "pa_owner a = Some u" by auto
    show ?thesis
    proof (cases "l = 0")
      case True
      with c Inr x show ?thesis by (simp add: reserveEntryFee_def transaction_def)
    next
      case nz: False
      with False have "0 < l" by simp
      show ?thesis
      proof (cases "reserveTx u t l (pa_id a) d1")
        case (Inl e)
        with c Inr x nz False show ?thesis using Inr [unfolded x] by (simp add: reserveEntryFee_def transaction_def)
      next
        case (Inr y)
        obtain r d2 where y: "y = (r, d2)" by (cases y)
        have "stake_inv d2" by (rule reserveTx_inv [OF c \<open>0 < l\<close> Inr [unfolded y]])
        with \<open>stake_getOrCreateCustodyAccount u d = Inr x\<close> Inr x y nz False show ?thesis
          by (simp add: reserveEntryFee_def transaction_def)
      qed
    qed
  qed
qed

text \<open>What a player and the match start do to the stakes, in any order.\<close>

inductive stake_step :: "db \<Rightarrow> db \<Rightarrow> bool" where
  reserving: "stake_step d (snd (reserveEntryFee u t l d))"
| releasing: "releaseEntryFee u t d = Inr (r, d') \<Longrightarrow> stake_step d d'"
| consuming: "consumeReservations tid gid eid expected d = Inr (r, d') \<Longrightarrow> stake_step d d'"

lemma stake_step_inv: "stake_step d d' \<Longrightarrow> stake_inv d \<Longrightarrow> stake_inv d'"
  by (induction rule: stake_step.induct)
     (auto intro: reserveEntryFee_inv releaseEntryFee_inv consumeReservations_inv)

text \<open>A successful reservation finds or makes the account, and then either finds or makes the stake.\<close>

lemma reserveEntryFee_Inr:
  assumes inv: "stake_inv d" and l: "0 < l" and run: "reserveEntryFee u t l d = (Inr r, d')"
  obtains a d1 where "stake_inv d1" and "a \<in> set (pools d1)" and "pa_owner a = Some u"
    and "pa_name a = custody_name u" and "stakes d1 = stakes d"
    and "pools d1 = pools d \<or> pools d1 = pools d @ [a]" and "reserveTx u t l (pa_id a) d1 = Inr (r, d')"
proof -
  have nn: "\<not> l < 0" "l \<noteq> 0" using l by auto
  show thesis
  proof (cases "stake_getOrCreateCustodyAccount u d")
    case (Inl e)
    with run nn show thesis by (simp add: reserveEntryFee_def transaction_def)
  next
    case (Inr x)
    obtain a d1 where x: "x = (a, d1)" by (cases x)
    have wf: "db_wf d" by (rule stake_invD(1) [OF inv])
    note f = stake_getOrCreate_conserves [OF wf Inr [unfolded x]]
    from custody_inv [OF inv Inr [unfolded x]]
    have c: "stake_inv d1" "a \<in> set (pools d1)" "pa_owner a = Some u" "stakes d1 = stakes d" by auto
    have "reserveTx u t l (pa_id a) d1 = Inr (r, d')"
      using run nn Inr x
      by (auto simp: reserveEntryFee_def transaction_def split: sum.splits)
    then show thesis using f(5) by (intro that [OF c(1-3) f(3) c(4)]) auto
  qed
qed

lemma find_append: "find P (xs @ ys) = (case find P xs of None \<Rightarrow> find P ys | Some x \<Rightarrow> Some x)"
  by (induction xs) auto

lemma poolByName_owner:
  assumes "stake_inv d" and "a \<in> set (pools d)" and "pa_name a = custody_name u"
  shows "poolByName (custody_name u) d = Some a"
  using stake_invD(1) [OF assms(1)] assms(2,3) unfolding poolByName_def db_wf_def by (intro find_key) auto

section \<open>Properties\<close>

definition stake_db :: db where
  "stake_db = sample_db\<lparr>pools := pools sample_db @
     [sample_account ''e'' GAME_ESCROW ''escrow:g1'' None (Some ''g1'') 0 0]\<rparr>"

lemma stake_db_inv [simp]: "stake_inv stake_db"
  by (auto simp: stake_inv_def stake_db_def sample_db_def sample_account_def db_wf_def linked_def
      covered_def custody_name_def map_filter_simps)

lemmas stake_eval = stake_db_def sample_db_def sample_account_def reserveEntryFee_def transaction_def
  stake_getOrCreateCustodyAccount_def custody_name_def poolByName_def reserveTx_def stakeFind_def
  orThrow_def poolById_def poolByOwner_def Let_def spendable_def poolUpdate_def poolUpdateMany_def setReserved_def
  stakeCreate_def randomUUID_def releaseEntryFee_def stakeDelete_def show_nat.simps digit_def

text \<open>
  C2: in every sequence of joins, leaves and match starts, refused ones included, every reservation
  stays covered: the reserved amount of a player's account covers all of the player's stakes, and
  the balance covers the reserved amount, so no lamport backs two rooms.
\<close>

theorem stakes_always_covered:
  assumes "stake_inv d0" and "stake_step\<^sup>*\<^sup>* d0 d"
  shows "stake_inv d"
  using assms(2,1) by (induction rule: rtranclp_induct) (auto intro: stake_step_inv)

theorem stakes_always_covered_witness:
  "stake_inv (snd (reserveEntryFee ''bob'' ''gold'' 30 (snd (reserveEntryFee ''ann'' ''gold'' 30 stake_db))))"
  by (rule stakes_always_covered [OF stake_db_inv])
     (blast intro: reserving rtranclp.rtrancl_into_rtrancl)

text \<open>
  joining the same paid room again reserves nothing more: the second call reports the stake
  already held and leaves the database as it was.
\<close>

theorem reserve_idempotent:
  assumes "stake_inv d" and "0 < l" and "reserveEntryFee u t l d = (Inr r, d')" and "0 < l2"
  shows "\<exists>r2. reserveEntryFee u t l2 d' = (Inr r2, d') \<and> rr_already r2 \<and> rr_reserved r2 = rr_reserved r"
proof -
  obtain a d1 where a: "stake_inv d1" "a \<in> set (pools d1)" "pa_owner a = Some u"
    "pa_name a = custody_name u" "stakes d1 = stakes d" "pools d1 = pools d \<or> pools d1 = pools d @ [a]"
    and tx: "reserveTx u t l (pa_id a) d1 = Inr (r, d')"
    by (rule reserveEntryFee_Inr [OF assms(1-3)])
  have inv': "stake_inv d'" by (rule reserveTx_inv [OF a(1-3) assms(2) tx])
  have "\<exists>b e. b \<in> set (pools d') \<and> pa_name b = custody_name u \<and> stakeFind u t d' = Some e \<and>
          sr_lamports e = rr_reserved r"
    using tx
  proof (cases rule: reserveTx_cases)
    case (already e)
    with a show ?thesis by auto
  next
    case (fresh c d2)
    have "c = a" using fresh(2) poolById_mem [OF stake_invD(1) [OF a(1)] a(2)] by simp
    with fresh(4) have d2: "pools d2 = upd_rows (\<lambda>x. pa_id x = pa_id a) (setReserved (pa_reserved a + l)) (pools d1)"
      using poolUpdate_ok [OF stake_invD(1) [OF a(1)] a(2)] by auto
    have "stakes d2 = stakes d1"
      using setReserved_conserves(2) [OF stake_invD(1) [OF a(1)] fresh(4)] .
    with stakeCreate_Inr(1) [OF fresh(5)] obtain i where
      d': "pools d' = pools d2" "stakes d' = stakes d1 @ [\<lparr> sr_id = i, sr_user = u, sr_tier = t, sr_lamports = l \<rparr>]"
      by auto
    have "setReserved (pa_reserved a + l) a \<in> set (pools d')"
      using a(2) unfolding d'(1) d2 set_upd_rows by (intro bexI [of _ a]) auto
    moreover have "pa_name (setReserved (pa_reserved a + l) a) = custody_name u"
      using a(4) by (simp add: setReserved_def)
    moreover have "stakeFind u t d' = Some \<lparr> sr_id = i, sr_user = u, sr_tier = t, sr_lamports = l \<rparr>"
      using fresh(1) by (simp add: stakeFind_def d'(2) find_append)
    ultimately show ?thesis using fresh(6) by force
  qed
  then obtain b e where b: "b \<in> set (pools d')" "pa_name b = custody_name u"
    and e: "stakeFind u t d' = Some e" "sr_lamports e = rr_reserved r" by blast
  have "poolByName (custody_name u) d' = Some b" by (rule poolByName_owner [OF inv' b])
  with b e assms(4) poolById_mem [OF stake_invD(1) [OF inv'] b(1)] show ?thesis
    by (simp add: reserveEntryFee_def transaction_def stake_getOrCreateCustodyAccount_def reserveTx_def orThrow_def)
qed

lemma stake_db_reserve: "\<exists>r d'. reserveEntryFee ''ann'' ''gold'' 30 stake_db = (Inr r, d')"
  by (simp add: stake_eval)

theorem reserve_idempotent_witness:
  "\<exists>r d' r2. reserveEntryFee ''ann'' ''gold'' 30 stake_db = (Inr r, d') \<and>
     reserveEntryFee ''ann'' ''gold'' 30 d' = (Inr r2, d') \<and> rr_already r2"
  using stake_db_reserve reserve_idempotent [OF stake_db_inv, of 30 "''ann''" "''gold''" _ _ 30] by fastforce

lemma reserve_outcomes:
  assumes inv: "stake_inv d" and c: "poolByName (custody_name u) d = Some c" and new: "stakeFind u t d = None"
    and l: "0 < l"
  shows "spendable c < l \<Longrightarrow> reserveEntryFee u t l d = (Inl (InsufficientBalance l (spendable c)), d)"
    and "reserveEntryFee u t l d = (Inr r, d') \<Longrightarrow>
      l \<le> spendable c \<and> rr_spendableAfter r = spendable c - l \<and>
      pools d' = upd_rows (\<lambda>a. pa_id a = pa_id c) (setReserved (pa_reserved c + l)) (pools d) \<and>
      (\<exists>i. stakes d' = stakes d @ [\<lparr> sr_id = i, sr_user = u, sr_tier = t, sr_lamports = l \<rparr>]) \<and>
      txs d' = txs d"
proof -
  note wf = stake_invD(1) [OF inv]
  from c have cm: "c \<in> set (pools d)" by (auto simp: poolByName_def dest: find_SomeD)
  have run: "reserveEntryFee u t l d = transaction (reserveTx u t l (pa_id c)) d"
    using l c by (simp add: reserveEntryFee_def transaction_def stake_getOrCreateCustodyAccount_def)
  show "reserveEntryFee u t l d = (Inl (InsufficientBalance l (spendable c)), d)" if "spendable c < l"
    using that new poolById_mem [OF wf cm]
    by (simp add: run transaction_def reserveTx_def orThrow_def Let_def)
  assume "reserveEntryFee u t l d = (Inr r, d')"
  then have "reserveTx u t l (pa_id c) d = Inr (r, d')"
    by (auto simp: run transaction_def split: sum.splits)
  then show "l \<le> spendable c \<and> rr_spendableAfter r = spendable c - l \<and>
      pools d' = upd_rows (\<lambda>a. pa_id a = pa_id c) (setReserved (pa_reserved c + l)) (pools d) \<and>
      (\<exists>i. stakes d' = stakes d @ [\<lparr> sr_id = i, sr_user = u, sr_tier = t, sr_lamports = l \<rparr>]) \<and>
      txs d' = txs d"
  proof (cases rule: reserveTx_cases)
    case (already e)
    with new show ?thesis by simp
  next
    case (fresh a d1)
    have "a = c" using fresh(2) poolById_mem [OF wf cm] by simp
    with fresh(4) have "d1 = d\<lparr>pools := upd_rows (\<lambda>x. pa_id x = pa_id c) (setReserved (pa_reserved c + l)) (pools d)\<rparr>"
      using poolUpdate_ok [OF wf cm] by auto
    with stakeCreate_Inr(1) [OF fresh(5)] fresh(3,6) \<open>a = c\<close> show ?thesis by auto
  qed
qed

text \<open>
  a player who has not staked a room can stake exactly what is spendable: the join is refused,
  with nothing written, when the fee exceeds balance minus reserved, and otherwise reserves the fee,
  moves no balance, touches no other account and records the stake.
\<close>

theorem reserve_spec:
  assumes "stake_inv d" and "poolByName (custody_name u) d = Some c" and "stakeFind u t d = None" and "0 < l"
  shows "(spendable c < l \<longrightarrow> reserveEntryFee u t l d = (Inl (InsufficientBalance l (spendable c)), d)) \<and>
    (\<forall>r d'. reserveEntryFee u t l d = (Inr r, d') \<longrightarrow>
      l \<le> spendable c \<and> rr_spendableAfter r = spendable c - l \<and>
      pools d' = upd_rows (\<lambda>a. pa_id a = pa_id c) (setReserved (pa_reserved c + l)) (pools d) \<and>
      (\<exists>i. stakes d' = stakes d @ [\<lparr> sr_id = i, sr_user = u, sr_tier = t, sr_lamports = l \<rparr>]) \<and>
      txs d' = txs d)"
  using reserve_outcomes [OF assms] by blast

theorem reserve_spec_witness:
  "reserveEntryFee ''ann'' ''gold'' 61 stake_db = (Inl (InsufficientBalance 61 60), stake_db)"
proof -
  obtain c where c: "poolByName (custody_name ''ann'') stake_db = Some c" "spendable c = 60"
    by (simp add: stake_eval)
  have n: "stakeFind ''ann'' ''gold'' stake_db = None" by (simp add: stake_eval)
  from reserve_spec [OF stake_db_inv c(1) n, of 61] c(2) show ?thesis by simp
qed

text \<open>
  leaving undoes joining: releasing a fresh stake returns the amount reserved and leaves every
  account's balance and reserved amount and the table of stakes as they were before the join, and
  a second leave releases nothing.
\<close>

theorem reserve_release_roundtrip:
  assumes inv: "stake_inv d" and c: "poolByName (custody_name u) d = Some c" and new: "stakeFind u t d = None"
    and l: "0 < l" and run: "reserveEntryFee u t l d = (Inr r, d')"
  shows "\<exists>d''. releaseEntryFee u t d' = Inr (l, d'') \<and> stakes d'' = stakes d \<and>
           map (\<lambda>a. (pa_id a, pa_balance a, pa_reserved a)) (pools d'') =
             map (\<lambda>a. (pa_id a, pa_balance a, pa_reserved a)) (pools d) \<and>
           releaseEntryFee u t d'' = Inr (0, d'')"
proof -
  note wf = stake_invD(1) [OF inv]
  from c have cm: "c \<in> set (pools d)" "pa_name c = custody_name u"
    by (auto simp: poolByName_def dest: find_SomeD)
  have cu: "pa_owner c = Some u" using stake_invD(2) [OF inv] cm by (simp add: linked_def)
  have inv': "stake_inv d'" using reserveEntryFee_inv [OF inv, of u t l] run by simp
  from reserve_outcomes(2) [OF inv c new l run] obtain i where
    p: "pools d' = upd_rows (\<lambda>a. pa_id a = pa_id c) (setReserved (pa_reserved c + l)) (pools d)"
    and s: "stakes d' = stakes d @ [\<lparr> sr_id = i, sr_user = u, sr_tier = t, sr_lamports = l \<rparr>]" by blast
  let ?e = "\<lparr> sr_id = i, sr_user = u, sr_tier = t, sr_lamports = l \<rparr>"
  have e: "stakeFind u t d' = Some ?e" using new by (simp add: stakeFind_def s find_append)
  obtain b where b: "b \<in> set (pools d')" "pa_owner b = Some u" "l \<le> pa_reserved b"
    and eff: "releaseEntryFee u t d' = Inr (l,
           d'\<lparr>pools := upd_rows (\<lambda>a. pa_id a = pa_id b) (setReserved (pa_reserved b - l)) (pools d'),
             stakes := filter (\<lambda>r. sr_id r \<noteq> i) (stakes d')\<rparr>)"
    using releaseEntryFee_effect [OF inv' e] by auto
  have c': "setReserved (pa_reserved c + l) c \<in> set (pools d')"
    using cm(1) unfolding p set_upd_rows by (intro bexI [of _ c]) auto
  have "b = setReserved (pa_reserved c + l) c"
    using owner_unique [OF stake_invD(1) [OF inv'] b(1) c' b(2)] cu by simp
  with p have p2: "upd_rows (\<lambda>a. pa_id a = pa_id b) (setReserved (pa_reserved b - l)) (pools d') =
      map (\<lambda>a. if pa_id a = pa_id c then setReserved (pa_reserved c) (setReserved (pa_reserved c + l) a) else a) (pools d)"
    by (auto simp: upd_rows_def)
  have restored: "(pa_id (if pa_id a = pa_id c then setReserved (pa_reserved c) (setReserved (pa_reserved c + l) a) else a),
       pa_balance (if pa_id a = pa_id c then setReserved (pa_reserved c) (setReserved (pa_reserved c + l) a) else a),
       pa_reserved (if pa_id a = pa_id c then setReserved (pa_reserved c) (setReserved (pa_reserved c + l) a) else a)) =
      (pa_id a, pa_balance a, pa_reserved a)" if "a \<in> set (pools d)" for a
    using distinct_key_eq [of pa_id "pools d" a c] wf that cm(1) by (auto simp: db_wf_def)
  have "i \<notin> sr_id ` set (stakes d)" using stake_invD(4) [OF inv'] by (auto simp: s)
  then have f: "filter (\<lambda>r. sr_id r \<noteq> i) (stakes d') = stakes d"
    by (auto simp: s intro!: filter_True)
  let ?d'' = "d'\<lparr>pools := upd_rows (\<lambda>a. pa_id a = pa_id b) (setReserved (pa_reserved b - l)) (pools d'),
             stakes := stakes d\<rparr>"
  have "releaseEntryFee u t ?d'' = Inr (0, ?d'')"
    using new by (simp add: releaseEntryFee_def stakeFind_def)
  moreover have "map (\<lambda>a. (pa_id a, pa_balance a, pa_reserved a)) (pools ?d'') =
             map (\<lambda>a. (pa_id a, pa_balance a, pa_reserved a)) (pools d)"
    using restored by (simp add: p2)
  ultimately show ?thesis using eff f by (intro exI [of _ ?d'']) simp
qed

theorem reserve_release_roundtrip_witness:
  "\<exists>r d' d''. reserveEntryFee ''ann'' ''gold'' 30 stake_db = (Inr r, d') \<and>
     releaseEntryFee ''ann'' ''gold'' d' = Inr (30, d'') \<and> stakes d'' = []"
proof -
  obtain c where c: "poolByName (custody_name ''ann'') stake_db = Some c" by (simp add: stake_eval)
  have n: "stakeFind ''ann'' ''gold'' stake_db = None" by (simp add: stake_eval)
  have s: "stakes stake_db = []" by (simp add: stake_db_def sample_db_def)
  obtain r d' where r: "reserveEntryFee ''ann'' ''gold'' 30 stake_db = (Inr r, d')"
    using stake_db_reserve by blast
  from reserve_release_roundtrip [OF stake_db_inv c n _ r] s r show ?thesis by auto
qed

lemma consume_outcomes:
  assumes "stake_inv d" and "consumeReservations tid gid eid expected d = Inr ((n, tot), d')"
  defines "rows \<equiv> filter (\<lambda>r. sr_tier r = tid) (stakes d)"
  shows "n = length rows \<and> tot = sum_list (map sr_lamports rows) \<and>
         stakes d' = filter (\<lambda>r. sr_tier r \<noteq> tid) (stakes d) \<and>
         map (\<lambda>a. (pa_id a, pa_balance a, pa_reserved a)) (pools d') =
           map (\<lambda>a. (pa_id a, pa_balance a - due a rows + (if pa_id a = eid then tot else 0),
                      pa_reserved a - due a rows)) (pools d)"
proof -
  note ex = consumeReservations_exact [OF assms(1,2), folded rows_def]
  have "map (\<lambda>a. (pa_id a, pa_balance a, pa_reserved a)) (pools d') =
           map (\<lambda>a. (pa_id a, pa_balance a - due a rows + (if pa_id a = eid then tot else 0),
                      pa_reserved a - due a rows)) (pools d)"
  proof (cases "rows = []")
    case True
    with ex show ?thesis by simp
  next
    case False
    with ex show ?thesis by (auto simp: due_def)
  qed
  with ex show ?thesis by simp
qed

text \<open>
  at match start every stake of the tier becomes pot: each staked player's balance and reserved
  amount fall by exactly their stakes, the escrow rises by the sum, no other account changes, the
  count and total returned are those of the table, and the tier's reservations are gone.
\<close>

theorem consume_spec:
  assumes "stake_inv d" and "consumeReservations tid gid eid expected d = Inr ((n, tot), d')"
  defines "rows \<equiv> filter (\<lambda>r. sr_tier r = tid) (stakes d)"
  shows "n = length rows \<and> tot = sum_list (map sr_lamports rows) \<and>
         stakes d' = filter (\<lambda>r. sr_tier r \<noteq> tid) (stakes d) \<and>
         map (\<lambda>a. (pa_id a, pa_balance a, pa_reserved a)) (pools d') =
           map (\<lambda>a. (pa_id a, pa_balance a - due a rows + (if pa_id a = eid then tot else 0),
                      pa_reserved a - due a rows)) (pools d)"
  unfolding rows_def by (rule consume_outcomes [OF assms(1,2)])

definition staked_db :: db where
  "staked_db = stake_db\<lparr>stakes :=
     [\<lparr> sr_id = ''s1'', sr_user = ''ann'', sr_tier = ''gold'', sr_lamports = 30 \<rparr>,
      \<lparr> sr_id = ''s2'', sr_user = ''bob'', sr_tier = ''gold'', sr_lamports = 30 \<rparr>],
     pools := map (\<lambda>a. if pa_owner a \<noteq> None then a\<lparr>pa_reserved := 30\<rparr> else a) (pools stake_db)\<rparr>"

lemma staked_db_inv [simp]: "stake_inv staked_db"
  by (auto simp: stake_inv_def staked_db_def stake_db_def sample_db_def sample_account_def db_wf_def linked_def
      covered_def custody_name_def map_filter_simps)

lemma staked_db_consume: "\<exists>d'. consumeReservations ''gold'' ''g1'' ''e'' (Some 60) staked_db = Inr ((2, 60), d')"
  by (simp add: staked_db_def consumeReservations_def consumeRow_def stake_eval stake_leg_def stake_key_def
      txCreateMany.simps txCreate_def setBalance_def)

theorem consume_spec_witness:
  "\<exists>d'. consumeReservations ''gold'' ''g1'' ''e'' (Some 60) staked_db = Inr ((2, 60), d') \<and> stakes d' = []"
proof -
  obtain d' where r: "consumeReservations ''gold'' ''g1'' ''e'' (Some 60) staked_db = Inr ((2, 60), d')"
    using staked_db_consume by blast
  from consume_spec [OF staked_db_inv r] r show ?thesis by (auto simp: staked_db_def)
qed

lemma consume_refused:
  fixes tid :: string
  assumes inv: "stake_inv d"
  defines "staked \<equiv> sum_list (map sr_lamports (filter (\<lambda>r. sr_tier r = tid) (stakes d)))"
  shows "consumeReservations tid gid eid (Some e) d = Inl (StakeMismatch tid staked e) \<longleftrightarrow> staked \<noteq> e"
    and "consumeReservations tid gid eid expected d \<noteq> Inl (StakeExceedsBalance u l b)"
proof -
  let ?rows = "filter (\<lambda>r. sr_tier r = tid) (stakes d)"
  have cov: "covered ?rows d" by (rule covered_filter [OF stake_invD(3) [OF inv]])
  have up: "poolUpdate i v f d1 = Inl x \<Longrightarrow> x = DbError P2025" for i v f d1 x
    by (auto simp: poolUpdate_def split: prod.splits if_splits)
  have tx: "txCreateMany ts d1 = Inl x \<Longrightarrow> \<exists>k. x = DbError (P2002 k)" for ts d1 x
    by (induction ts arbitrary: d1)
       (auto simp: txCreateMany.simps txCreate_def rbind_eq_Inl split: prod.splits if_splits)
  have row: "consumeRow tid gid esc r acc d1 \<noteq> Inl (StakeMismatch t s x)" for esc r acc d1 t s x
    by (auto simp: consumeRow_def Let_def rbind_eq_Inl split: option.splits prod.splits dest: up tx)
  have rws: "consumeRows tid gid esc rs acc d1 \<noteq> Inl (StakeMismatch t s x)" for esc rs acc d1 t s x
    by (induction rs arbitrary: acc d1) (auto simp: rbind_eq_Inl row)
  show "consumeReservations tid gid eid (Some e) d = Inl (StakeMismatch tid staked e) \<longleftrightarrow> staked \<noteq> e"
    unfolding staked_def
    by (auto simp: consumeReservations_def Let_def foldl_sum rbind_eq_Inl orThrow_def rws
        split: option.splits dest: up)
  show "consumeReservations tid gid eid expected d \<noteq> Inl (StakeExceedsBalance u l b)"
    using consumeRows_no_shortfall [OF stake_invD(1) [OF inv] cov]
    by (auto simp: consumeReservations_def Let_def rbind_eq_Inl orThrow_def
        split: option.splits dest: up)
qed

text \<open>
  a match start refuses in time: with covered stakes the only way to be refused for money is
  that the stakes do not add up to the expected amount, which is reported with both amounts before
  anything moves; no player is ever found short.
\<close>

theorem consume_refusals:
  fixes tid :: string
  assumes "stake_inv d"
  defines "staked \<equiv> sum_list (map sr_lamports (filter (\<lambda>r. sr_tier r = tid) (stakes d)))"
  shows "(consumeReservations tid gid eid (Some e) d = Inl (StakeMismatch tid staked e) \<longleftrightarrow> staked \<noteq> e) \<and>
         (\<forall>u l b. consumeReservations tid gid eid expected d \<noteq> Inl (StakeExceedsBalance u l b))"
  unfolding staked_def using consume_refused [OF assms(1)] by blast

theorem consume_refusals_witness:
  "consumeReservations ''gold'' ''g1'' ''e'' (Some 90) staked_db = Inl (StakeMismatch ''gold'' 60 90)"
proof -
  have "sum_list (map sr_lamports (filter (\<lambda>r. sr_tier r = ''gold'') (stakes staked_db))) = 60"
    by (simp add: staked_db_def)
  with consume_refusals [OF staked_db_inv, of "''gold''" "''g1''" "''e''" 90 None] show ?thesis by simp
qed

text \<open>
  a reservation whose player has no account is deleted with nothing moved: the check of the
  expected total passes, the total returned falls short of it, and the stake is gone.
\<close>

theorem consume_drops_orphans:
  assumes "stakes d = [r]" and "poolByOwner (sr_user r) d = None" and "poolById eid d = Some escrow"
    and "db_wf d"
  shows "\<exists>d'. consumeReservations (sr_tier r) gid eid (Some (sr_lamports r)) d = Inr ((0, 0), d') \<and>
           stakes d' = [] \<and> txs d' = txs d \<and> poolTotal d' = poolTotal d"
proof -
  from assms(3) have e: "escrow \<in> set (pools d)" "pa_id escrow = eid" by (auto simp: poolById_def dest: find_SomeD)
  have up: "poolUpdate (pa_id escrow) (pa_version escrow) (setBalance (pa_balance escrow)) d =
      Inr (d\<lparr>pools := upd_rows (\<lambda>a. pa_id a = pa_id escrow) (setBalance (pa_balance escrow)) (pools d)\<rparr>)"
    by (rule poolUpdate_ok [OF assms(4) e(1)])
  have "sum_list (map pa_balance (upd_rows (\<lambda>a. pa_id a = pa_id escrow) (setBalance (pa_balance escrow)) (pools d))) =
      sum_list (map pa_balance (pools d)) - pa_balance escrow + pa_balance escrow"
    using sum_upd_key [of pa_id "pools d" escrow "pa_id escrow" pa_balance "setBalance (pa_balance escrow)"]
      e(1) assms(4) by (simp add: db_wf_def)
  with assms up show ?thesis
    by (simp add: consumeReservations_def orThrow_def consumeRow_def poolTotal_def)
qed

theorem consume_drops_orphans_witness:
  "\<exists>d'. consumeReservations ''gold'' ''g1'' ''e'' (Some 7)
      (stake_db\<lparr>stakes := [\<lparr> sr_id = ''s'', sr_user = ''eve'', sr_tier = ''gold'', sr_lamports = 7 \<rparr>]\<rparr>) =
      Inr ((0, 0), d') \<and> stakes d' = []"
  using consume_drops_orphans [where r = "\<lparr> sr_id = ''s'', sr_user = ''eve'', sr_tier = ''gold'', sr_lamports = 7 \<rparr>"
      and d = "stake_db\<lparr>stakes := [\<lparr> sr_id = ''s'', sr_user = ''eve'', sr_tier = ''gold'', sr_lamports = 7 \<rparr>]\<rparr>"
      and gid = "''g1''" and eid = "''e''"]
  by (fastforce simp: stake_db_def sample_db_def sample_account_def poolByOwner_def poolById_def db_wf_def map_filter_simps)

end
