(* ===== verification/Refund.thy ===== *)
theory Refund
  imports Stake
begin

text \<open>
  Cancelling a game and handing its pot back (\<open>packages/db/src/refund.ts\<close>). Amounts come from the
  ledger: the posted entry-fee credits of the game's escrow, less the players an earlier attempt
  already repaid. The caller's \<open>audit\<close> hook runs inside the transaction; it may throw, and it
  writes to no table of this model.
\<close>

section \<open>Operations\<close>

record refund_leg =
  rl_user :: string
  rl_lamports :: int

record cancel_result =
  cr_gameId :: string
  cr_cancelled :: bool
  cr_refunds :: "refund_leg list"
  cr_totalLamports :: int
  cr_alreadyRefundedCount :: nat

definition getCustodyAccount :: "string \<Rightarrow> db \<Rightarrow> pool_account tx_run" where
  "getCustodyAccount userId d =
    (case poolByOwner userId d of
       Some existing \<Rightarrow> Inr (existing, d)
     | None \<Rightarrow> poolCreate USER_CUSTODY (custody_name userId) (Some userId) None d)"

definition cancelRow :: "string \<Rightarrow> game_row \<Rightarrow> string \<Rightarrow> int \<Rightarrow> db \<Rightarrow> bool tx_run" where
  "cancelRow gid before reason at d =
    rbind (gameUpdate gid (\<lambda>g. g\<lparr>g_status := CANCELLED,
             g_endedAt := (case g_endedAt before of None \<Rightarrow> Some at | Some e \<Rightarrow> Some e),
             g_settlementStatus := NOT_REQUIRED, g_settlementError := Some (take 500 reason)\<rparr>) d)
      (\<lambda>d'. Inr (g_status before \<noteq> CANCELLED, d'))"

text \<open>The three reads of the ledger.\<close>

definition paidOut :: "string \<Rightarrow> db \<Rightarrow> ledger_tx option" where
  "paidOut gid d = find (\<lambda>t. tx_game t = Some gid \<and> (tx_type t = PAYOUT \<or> tx_type t = RAKE) \<and>
     tx_status t = POSTED) (txs d)"

definition is_stake :: "string \<Rightarrow> string \<Rightarrow> ledger_tx \<Rightarrow> bool" where
  "is_stake gid eid t \<longleftrightarrow> tx_game t = Some gid \<and> tx_pool t = eid \<and> tx_type t = ENTRY_FEE \<and>
     tx_direction t = CREDIT \<and> tx_status t = POSTED"

definition stakedByUser :: "string \<Rightarrow> string \<Rightarrow> db \<Rightarrow> (string option \<times> int) list" where
  "stakedByUser gid eid d =
    (let rows = filter (is_stake gid eid) (txs d)
     in map (\<lambda>u. (u, sum_list (map tx_amount (filter (\<lambda>t. tx_user t = u) rows))))
          (remdups (map tx_user rows)))"

definition refundedUsers :: "string \<Rightarrow> string \<Rightarrow> db \<Rightarrow> string option list" where
  "refundedUsers gid eid d =
    remdups (map tx_user (filter (\<lambda>t. tx_game t = Some gid \<and> tx_pool t = eid \<and> tx_type t = REFUND \<and>
       tx_direction t = DEBIT) (txs d)))"

text \<open>An empty user id is falsy, like \<open>null\<close>.\<close>

fun owedLegs :: "string option list \<Rightarrow> (string option \<times> int) list \<Rightarrow> refund_leg list" where
  "owedLegs already [] = []"
| "owedLegs already ((u, amount) # rows) =
    (case u of
       None \<Rightarrow> owedLegs already rows
     | Some user \<Rightarrow>
         if user = [] \<or> amount \<le> 0 then owedLegs already rows
         else if u \<in> set already then owedLegs already rows
         else \<lparr> rl_user = user, rl_lamports = amount \<rparr> # owedLegs already rows)"

definition refund_tx :: "string \<Rightarrow> refund_leg \<Rightarrow> string \<Rightarrow> tx_direction \<Rightarrow> int \<Rightarrow> string \<Rightarrow> string \<Rightarrow> ledger_tx" where
  "refund_tx gid leg grp dir after pool key =
    \<lparr> tx_id = [], tx_group = grp, tx_type = REFUND, tx_direction = dir, tx_status = POSTED,
      tx_amount = rl_lamports leg, tx_balanceAfter = after, tx_user = Some (rl_user leg),
      tx_pool = pool, tx_game = Some gid, tx_deposit = None, tx_withdrawal = None, tx_reward = None,
      tx_key = key, tx_description = Some ''Entry fee refunded: match cancelled'' \<rparr>"

definition refund_key :: "string \<Rightarrow> string \<Rightarrow> string" where
  "refund_key gid userId = ''refund:'' @ gid @ '':'' @ userId"

definition refundLeg :: "string \<Rightarrow> pool_account \<Rightarrow> refund_leg \<Rightarrow> int \<Rightarrow> db \<Rightarrow> int tx_run" where
  "refundLeg gid escrow leg escrowBalance d =
    rbind (getCustodyAccount (rl_user leg) d) (\<lambda>(custody, d1).
      let escrowBalance' = escrowBalance - rl_lamports leg;
          custodyAfter = pa_balance custody + rl_lamports leg
      in case randomUUID d1 of (entryGroupId, d2) \<Rightarrow>
        rbind (poolUpdate (pa_id custody) (pa_version custody) (setBalance custodyAfter) d2) (\<lambda>d3.
          rbind (txCreateMany
            [refund_tx gid leg entryGroupId DEBIT escrowBalance' (pa_id escrow)
               (refund_key gid (rl_user leg) @ '':escrow''),
             refund_tx gid leg entryGroupId CREDIT custodyAfter (pa_id custody)
               (refund_key gid (rl_user leg))] d3)
            (\<lambda>d4. Inr (escrowBalance', d4))))"

fun refundLegs :: "string \<Rightarrow> pool_account \<Rightarrow> refund_leg list \<Rightarrow> int \<Rightarrow> db \<Rightarrow> int tx_run" where
  "refundLegs gid escrow [] eb d = Inr (eb, d)"
| "refundLegs gid escrow (leg # legs) eb d =
    rbind (refundLeg gid escrow leg eb d) (\<lambda>(eb1, d1). refundLegs gid escrow legs eb1 d1)"

definition cancelGameAndRefund :: "string \<Rightarrow> string \<Rightarrow> int \<Rightarrow> (db \<Rightarrow> (money_error, unit) res) \<Rightarrow> db
    \<Rightarrow> cancel_result tx_run" where
  "cancelGameAndRefund gid reason at audit d =
    (case gameById gid d of
       None \<Rightarrow> Inl (GameNotFound gid)
     | Some game \<Rightarrow>
         if g_status game = COMPLETED then Inl (GameAlreadySettled gid)
         else
           (case poolByGame gid d of
              None \<Rightarrow>
                rbind (cancelRow gid game reason at d) (\<lambda>(updated, d1).
                  rbind (audit d1) (\<lambda>_.
                    Inr (\<lparr> cr_gameId = gid, cr_cancelled = updated, cr_refunds = [],
                           cr_totalLamports = 0, cr_alreadyRefundedCount = 0 \<rparr>, d1)))
            | Some escrow \<Rightarrow>
                if paidOut gid d \<noteq> None then Inl (GameAlreadySettled gid)
                else
                  (let already = refundedUsers gid (pa_id escrow) d;
                       owed = owedLegs already (stakedByUser gid (pa_id escrow) d);
                       tot = foldl (\<lambda>sum leg. sum + rl_lamports leg) 0 owed
                   in if pa_balance escrow < tot then Inl (RefundShortfall gid tot (pa_balance escrow))
                      else
                        rbind (refundLegs gid escrow owed (pa_balance escrow) d) (\<lambda>(escrowBalance, d1).
                          rbind (if owed \<noteq> []
                                 then poolUpdate (pa_id escrow) (pa_version escrow) (setBalance escrowBalance) d1
                                 else Inr d1) (\<lambda>d2.
                            rbind (cancelRow gid game reason at d2) (\<lambda>(cancelled, d3).
                              rbind (audit d3) (\<lambda>_.
                                Inr (\<lparr> cr_gameId = gid, cr_cancelled = cancelled, cr_refunds = owed,
                                       cr_totalLamports = tot,
                                       cr_alreadyRefundedCount = length already \<rparr>, d3))))))))"

section \<open>The books are kept\<close>

text \<open>One refund: what the running escrow balance loses is what the player gains.\<close>

definition refund_step :: "db \<Rightarrow> int \<Rightarrow> db \<Rightarrow> int \<Rightarrow> bool" where
  "refund_step d eb d' eb' \<longleftrightarrow> db_wf d' \<and> later (pools d) (pools d') \<and> prefix (txs d) (txs d') \<and>
     stakes d' = stakes d \<and> games d' = games d \<and> ledgerNet d' = ledgerNet d \<and>
     poolTotal d' + eb' = poolTotal d + eb"

lemma refund_step_refl: "db_wf d \<Longrightarrow> refund_step d eb d eb"
  by (simp add: refund_step_def)

lemma refund_step_trans: "refund_step d eb d1 eb1 \<Longrightarrow> refund_step d1 eb1 d2 eb2 \<Longrightarrow> refund_step d eb d2 eb2"
  unfolding refund_step_def using later_trans prefix_order.trans by auto

lemma getCustodyAccount_facts:
  assumes "db_wf d" and "getCustodyAccount u d = Inr (c, d')"
  shows "db_wf d'" and "later (pools d) (pools d')" and "txs d' = txs d" and "stakes d' = stakes d"
    and "games d' = games d" and "poolTotal d' = poolTotal d" and "ledgerNet d' = ledgerNet d"
    and "c \<in> set (pools d')" and "pa_owner c = Some u"
    and "poolByOwner u d = Some c \<and> d' = d \<or> poolByOwner u d = None"
proof -
  have "db_wf d' \<and> later (pools d) (pools d') \<and> txs d' = txs d \<and> stakes d' = stakes d \<and> games d' = games d \<and>
    poolTotal d' = poolTotal d \<and> ledgerNet d' = ledgerNet d \<and> c \<in> set (pools d') \<and> pa_owner c = Some u \<and>
    (poolByOwner u d = Some c \<and> d' = d \<or> poolByOwner u d = None)"
  proof (cases "poolByOwner u d")
    case None
    with assms(2) have "poolCreate USER_CUSTODY (custody_name u) (Some u) None d = Inr (c, d')"
      by (simp add: getCustodyAccount_def)
    from poolCreate_facts [OF assms(1) this] None show ?thesis by simp
  next
    case (Some x)
    with assms have "x = c" "d' = d" by (simp_all add: getCustodyAccount_def)
    with Some assms(1) show ?thesis by (auto simp: poolByOwner_def dest: find_SomeD)
  qed
  then show "db_wf d'" and "later (pools d) (pools d')" and "txs d' = txs d" and "stakes d' = stakes d"
    and "games d' = games d" and "poolTotal d' = poolTotal d" and "ledgerNet d' = ledgerNet d"
    and "c \<in> set (pools d')" and "pa_owner c = Some u"
    and "poolByOwner u d = Some c \<and> d' = d \<or> poolByOwner u d = None" by auto
qed

lemma refundLeg_cases:
  assumes "refundLeg gid escrow leg eb d = Inr (eb', d')"
  obtains c d1 grp d2 d3 where "getCustodyAccount (rl_user leg) d = Inr (c, d1)"
    and "d2 = d1\<lparr>drawn := Suc (drawn d1)\<rparr>"
    and "poolUpdate (pa_id c) (pa_version c) (setBalance (pa_balance c + rl_lamports leg)) d2 = Inr d3"
    and "txCreateMany
            [refund_tx gid leg grp DEBIT (eb - rl_lamports leg) (pa_id escrow) (refund_key gid (rl_user leg) @ '':escrow''),
             refund_tx gid leg grp CREDIT (pa_balance c + rl_lamports leg) (pa_id c) (refund_key gid (rl_user leg))] d3
          = Inr d'"
    and "eb' = eb - rl_lamports leg"
  using assms by (auto simp: refundLeg_def Let_def randomUUID_def elim!: rbindE)

lemma refundLeg_step:
  assumes wf: "db_wf d" and run: "refundLeg gid escrow leg eb d = Inr (eb', d')"
  shows "refund_step d eb d' eb'"
proof -
  obtain c d1 grp d2 d3 where g: "getCustodyAccount (rl_user leg) d = Inr (c, d1)"
    and d2: "d2 = d1\<lparr>drawn := Suc (drawn d1)\<rparr>"
    and up: "poolUpdate (pa_id c) (pa_version c) (setBalance (pa_balance c + rl_lamports leg)) d2 = Inr d3"
    and tx: "txCreateMany
            [refund_tx gid leg grp DEBIT (eb - rl_lamports leg) (pa_id escrow) (refund_key gid (rl_user leg) @ '':escrow''),
             refund_tx gid leg grp CREDIT (pa_balance c + rl_lamports leg) (pa_id c) (refund_key gid (rl_user leg))] d3
          = Inr d'"
    and eb': "eb' = eb - rl_lamports leg"
    by (rule refundLeg_cases [OF run])
  note f = getCustodyAccount_facts [OF wf g]
  have wf2: "db_wf d2" using f(1) by (simp add: d2 db_wf_def)
  obtain x where x: "x \<in> set (pools d2)" "pa_id x = pa_id c" "pa_version x = pa_version c"
    and d3: "d3 = d2\<lparr>pools := upd_rows (\<lambda>a. pa_id a = pa_id c) (setBalance (pa_balance c + rl_lamports leg)) (pools d2)\<rparr>"
      "db_wf d3" "later (pools d2) (pools d3)"
      "poolTotal d3 = poolTotal d2 - pa_balance x + pa_balance (setBalance (pa_balance c + rl_lamports leg) x)"
    by (rule poolUpdate_facts [OF wf2 versioned_set(1) up])
  have "x = c" using wf2 x(1,2) f(8) by (intro distinct_key_eq [where key = pa_id]) (auto simp: d2 db_wf_def)
  then have t3: "poolTotal d3 = poolTotal d + rl_lamports leg"
    using d3(4) f(6) by (simp add: d2 poolTotal_def)
  have l3: "later (pools d) (pools d3)" using later_trans [OF f(2)] d3(3) by (simp add: d2)
  from txCreateMany_facts [OF d3(2) tx] show ?thesis
    using d3(1) t3 l3 f
    by (simp add: refund_step_def eb' d2 signed_def refund_tx_def ledgerNet_def)
qed

lemma refundLegs_step:
  "db_wf d \<Longrightarrow> refundLegs gid escrow legs eb d = Inr (eb', d') \<Longrightarrow> refund_step d eb d' eb'"
proof (induction legs arbitrary: eb d)
  case Nil
  then show ?case by (simp add: refund_step_refl)
next
  case (Cons leg legs)
  from Cons.prems(2) obtain eb1 d1 where r: "refundLeg gid escrow leg eb d = Inr (eb1, d1)"
    "refundLegs gid escrow legs eb1 d1 = Inr (eb', d')" by (auto elim!: rbindE)
  note s = refundLeg_step [OF Cons.prems(1) r(1)]
  have "db_wf d1" using s by (simp add: refund_step_def)
  from refund_step_trans [OF s Cons.IH [OF this r(2)]] show ?case .
qed

lemma cancelRow_Inr:
  assumes "cancelRow gid before reason at d = Inr (b, d')"
  shows "\<exists>gs. d' = d\<lparr>games := gs\<rparr>" and "b = (g_status before \<noteq> CANCELLED)"
    and "games d' = upd_rows (\<lambda>r. g_id r = gid) (\<lambda>g. g\<lparr>g_status := CANCELLED,
             g_endedAt := (case g_endedAt before of None \<Rightarrow> Some at | Some e \<Rightarrow> Some e),
             g_settlementStatus := NOT_REQUIRED, g_settlementError := Some (take 500 reason)\<rparr>) (games d)"
  using assms by (auto simp: cancelRow_def gameUpdate_def elim!: rbindE split: if_splits)

lemma conserves_games [simp]: "conserves d (d'\<lparr>games := r\<rparr>) = conserves d d'"
  by (simp add: conserves_def db_wf_def poolTotal_def ledgerNet_def)

lemma cancel_cases:
  assumes "cancelGameAndRefund gid reason at audit d = Inr (r, d')"
  obtains (free) game where "gameById gid d = Some game" and "g_status game \<noteq> COMPLETED" and "poolByGame gid d = None"
      and "cancelRow gid game reason at d = Inr (cr_cancelled r, d')"
      and "cr_refunds r = []" and "cr_totalLamports r = 0"
  | (paid) game escrow eb d1 d2 where "gameById gid d = Some game" and "g_status game \<noteq> COMPLETED"
      and "poolByGame gid d = Some escrow" and "paidOut gid d = None"
      and "cr_refunds r = owedLegs (refundedUsers gid (pa_id escrow) d) (stakedByUser gid (pa_id escrow) d)"
      and "cr_totalLamports r = sum_list (map rl_lamports (cr_refunds r))"
      and "cr_totalLamports r \<le> pa_balance escrow"
      and "refundLegs gid escrow (cr_refunds r) (pa_balance escrow) d = Inr (eb, d1)"
      and "(if cr_refunds r \<noteq> [] then poolUpdate (pa_id escrow) (pa_version escrow) (setBalance eb) d1 else Inr d1) = Inr d2"
      and "cancelRow gid game reason at d2 = Inr (cr_cancelled r, d')"
proof (cases "gameById gid d")
  case None
  with assms show thesis by (simp add: cancelGameAndRefund_def)
next
  case game: (Some game)
  with assms have nc: "g_status game \<noteq> COMPLETED" by (auto simp: cancelGameAndRefund_def)
  show thesis
  proof (cases "poolByGame gid d")
    case None
    with game nc assms show thesis
      by (intro free [OF game nc None]) (auto simp: cancelGameAndRefund_def elim!: rbindE)
  next
    case (Some escrow)
    let ?owed = "owedLegs (refundedUsers gid (pa_id escrow) d) (stakedByUser gid (pa_id escrow) d)"
    from assms game nc Some have np: "paidOut gid d = None"
      by (cases "paidOut gid d") (auto simp: cancelGameAndRefund_def)
    from assms game nc Some np have le: "sum_list (map rl_lamports ?owed) \<le> pa_balance escrow"
      by (auto simp: cancelGameAndRefund_def Let_def foldl_sum split: if_splits)
    from assms game nc Some np le obtain eb d1 d2 cancelled where
      r1: "refundLegs gid escrow ?owed (pa_balance escrow) d = Inr (eb, d1)"
      and r2: "(if ?owed \<noteq> [] then poolUpdate (pa_id escrow) (pa_version escrow) (setBalance eb) d1 else Inr d1) = Inr d2"
      and r3: "cancelRow gid game reason at d2 = Inr (cancelled, d')"
      and r: "r = \<lparr> cr_gameId = gid, cr_cancelled = cancelled, cr_refunds = ?owed,
               cr_totalLamports = sum_list (map rl_lamports ?owed),
               cr_alreadyRefundedCount = length (refundedUsers gid (pa_id escrow) d) \<rparr>"
      unfolding cancelGameAndRefund_def Let_def foldl_sum
      by (auto elim!: rbindE simp del: owedLegs.simps)
    show thesis
      by (rule paid [OF game nc Some np, of eb d1 d2]) (use r1 r2 r3 r le in simp_all)
  qed
qed

lemma cancel_conserves:
  assumes wf: "db_wf d" and run: "cancelGameAndRefund gid reason at audit d = Inr (r, d')"
  shows "conserves d d'"
  using run
proof (cases rule: cancel_cases)
  case (free game)
  from cancelRow_Inr(1) [OF free(4)] wf show ?thesis by auto
next
  case (paid game escrow eb d1 d2)
  from refundLegs_step [OF wf paid(8)]
  have s: "db_wf d1" "later (pools d) (pools d1)" "prefix (txs d) (txs d1)" "ledgerNet d1 = ledgerNet d"
    "poolTotal d1 + eb = poolTotal d + pa_balance escrow" by (simp_all add: refund_step_def)
  have "conserves d d2"
  proof (cases "cr_refunds r = []")
    case True
    with paid(8,9) wf show ?thesis by simp
  next
    case False
    then have up: "poolUpdate (pa_id escrow) (pa_version escrow) (setBalance eb) d1 = Inr d2" using paid(9) by simp
    obtain x where x: "x \<in> set (pools d1)" "pa_id x = pa_id escrow" "pa_version x = pa_version escrow"
      and d2: "d2 = d1\<lparr>pools := upd_rows (\<lambda>a. pa_id a = pa_id escrow) (setBalance eb) (pools d1)\<rparr>" "db_wf d2"
        "later (pools d1) (pools d2)" "poolTotal d2 = poolTotal d1 - pa_balance x + pa_balance (setBalance eb x)"
      by (rule poolUpdate_facts [OF s(1) versioned_set(1) up])
    have e: "escrow \<in> set (pools d)" using paid(3) by (auto simp: poolByGame_def dest: find_SomeD)
    have "x = escrow" using later_row [OF s(2) e _ x] s(1) by (simp add: db_wf_def)
    then show ?thesis using d2 s by (simp add: conserves_def ledgerNet_def)
  qed
  with cancelRow_Inr(1) [OF paid(10)] show ?thesis by auto
qed

interpretation cancel: ledger_op "cancelGameAndRefund gid reason at audit" for gid reason at audit
  by unfold_locales (rule cancel_conserves)

section \<open>What a refund does, exactly\<close>

definition owed_to :: "pool_account \<Rightarrow> refund_leg list \<Rightarrow> int" where
  "owed_to a legs = sum_list (map rl_lamports (filter (\<lambda>leg. pa_owner a = Some (rl_user leg)) legs))"

definition give :: "refund_leg list \<Rightarrow> pool_account \<Rightarrow> pool_account" where
  "give legs a = a\<lparr>pa_balance := pa_balance a + owed_to a legs,
     pa_version := pa_version a + length (filter (\<lambda>leg. pa_owner a = Some (rl_user leg)) legs)\<rparr>"

definition all_known :: "refund_leg list \<Rightarrow> db \<Rightarrow> bool" where
  "all_known legs d \<longleftrightarrow> (\<forall>leg \<in> set legs. Some (rl_user leg) \<in> pa_owner ` set (pools d))"

lemma give_sel [simp]:
  "pa_id (give legs a) = pa_id a" "pa_owner (give legs a) = pa_owner a"
  "pa_reserved (give legs a) = pa_reserved a" "pa_balance (give legs a) = pa_balance a + owed_to a legs"
  "pa_version (give legs a) = pa_version a + length (filter (\<lambda>leg. pa_owner a = Some (rl_user leg)) legs)"
  by (simp_all add: give_def)

lemma give_Cons: "give legs (give [leg] a) = give (leg # legs) a"
  by (simp add: give_def owed_to_def algebra_simps)

lemma txCreateMany_rows:
  assumes "db_wf d" and "txCreateMany ts d = Inr d'"
  shows "\<exists>us. txs d' = txs d @ us \<and> list_all2 (\<lambda>t u. \<exists>i. u = t\<lparr>tx_id := i\<rparr>) ts us"
  using assms
proof (induction ts arbitrary: d)
  case Nil
  then show ?case by (simp add: txCreateMany.simps)
next
  case (Cons t ts)
  from Cons.prems obtain i d1 where t: "txCreate t d = Inr (i, d1)" "txCreateMany ts d1 = Inr d'"
    by (auto simp: txCreateMany.simps elim!: rbindE)
  note f = txCreate_facts [OF Cons.prems(1) t(1)]
  from Cons.IH [OF f(1) t(2)] obtain us where "txs d' = txs d1 @ us"
    "list_all2 (\<lambda>t u. \<exists>i. u = t\<lparr>tx_id := i\<rparr>) ts us" by blast
  with f(3) show ?case by (intro exI [of _ "t\<lparr>tx_id := i\<rparr> # us"]) auto
qed

text \<open>The rows one refund writes: a debit of the escrow and a credit of the player.\<close>

definition refund_rows :: "string \<Rightarrow> string \<Rightarrow> string \<Rightarrow> ledger_tx list \<Rightarrow> bool" where
  "refund_rows gid eid u ts \<longleftrightarrow> (\<forall>t \<in> set ts. tx_type t = REFUND \<and> tx_game t = Some gid) \<and>
     (\<exists>t \<in> set ts. tx_pool t = eid \<and> tx_direction t = DEBIT \<and> tx_user t = Some u)"

lemma refundLeg_exact:
  assumes wf: "db_wf d" and kn: "Some (rl_user leg) \<in> pa_owner ` set (pools d)"
    and run: "refundLeg gid escrow leg eb d = Inr (eb', d')"
  shows "pools d' = map (give [leg]) (pools d) \<and> eb' = eb - rl_lamports leg \<and>
         (\<exists>ts. txs d' = txs d @ ts \<and> refund_rows gid (pa_id escrow) (rl_user leg) ts)"
proof -
  obtain c d1 grp d2 d3 where g: "getCustodyAccount (rl_user leg) d = Inr (c, d1)"
    and d2: "d2 = d1\<lparr>drawn := Suc (drawn d1)\<rparr>"
    and up: "poolUpdate (pa_id c) (pa_version c) (setBalance (pa_balance c + rl_lamports leg)) d2 = Inr d3"
    and tx: "txCreateMany
            [refund_tx gid leg grp DEBIT (eb - rl_lamports leg) (pa_id escrow) (refund_key gid (rl_user leg) @ '':escrow''),
             refund_tx gid leg grp CREDIT (pa_balance c + rl_lamports leg) (pa_id c) (refund_key gid (rl_user leg))] d3
          = Inr d'"
    and eb': "eb' = eb - rl_lamports leg"
    by (rule refundLeg_cases [OF run])
  note f = getCustodyAccount_facts [OF wf g]
  have "poolByOwner (rl_user leg) d \<noteq> None" using kn by (auto simp: poolByOwner_def find_None_iff)
  with f(10) have d1: "d1 = d" by auto
  from f(8) have c: "c \<in> set (pools d)" by (simp add: d1)
  have wf2: "db_wf d2" using wf by (simp add: d2 d1 db_wf_def)
  have d3: "d3 = d2\<lparr>pools := upd_rows (\<lambda>a. pa_id a = pa_id c) (setBalance (pa_balance c + rl_lamports leg)) (pools d2)\<rparr>"
    using up poolUpdate_ok [OF wf2, of c] c by (simp add: d2 d1)
  have wf3: "db_wf d3" unfolding d3 by (rule db_wf_upd [OF wf2 versioned_set(1)])
  have "(if pa_id b = pa_id c then setBalance (pa_balance c + rl_lamports leg) b else b) = give [leg] b"
    if b: "b \<in> set (pools d)" for b
  proof (cases "b = c")
    case True
    with f(9) show ?thesis by (simp add: give_def setBalance_def owed_to_def)
  next
    case False
    then have "pa_id b \<noteq> pa_id c"
      using wf b c distinct_key_eq [of pa_id "pools d" b c] by (auto simp: db_wf_def)
    moreover have "pa_owner b \<noteq> Some (rl_user leg)" using owner_unique [OF wf b c] f(9) False by blast
    ultimately show ?thesis by (simp add: give_def owed_to_def)
  qed
  then have p: "pools d3 = map (give [leg]) (pools d)" by (simp add: d3 d2 d1 upd_rows_def)
  obtain us where us: "txs d' = txs d3 @ us"
    "list_all2 (\<lambda>t u. \<exists>i. u = t\<lparr>tx_id := i\<rparr>)
       [refund_tx gid leg grp DEBIT (eb - rl_lamports leg) (pa_id escrow) (refund_key gid (rl_user leg) @ '':escrow''),
        refund_tx gid leg grp CREDIT (pa_balance c + rl_lamports leg) (pa_id c) (refund_key gid (rl_user leg))] us"
    using txCreateMany_rows [OF wf3 tx] by blast
  have "refund_rows gid (pa_id escrow) (rl_user leg) us"
    using us(2) by (auto simp: refund_rows_def list_all2_Cons1 refund_tx_def)
  then show ?thesis
    using txCreateMany_facts [OF wf3 tx] p us(1) by (simp add: eb' d3 d2 d1)
qed

lemma refundLegs_exact:
  assumes "db_wf d" and "all_known legs d" and "refundLegs gid escrow legs eb d = Inr (eb', d')"
  shows "pools d' = map (give legs) (pools d) \<and> eb' = eb - sum_list (map rl_lamports legs) \<and>
         (\<exists>ts. txs d' = txs d @ ts \<and> (\<forall>t \<in> set ts. tx_type t = REFUND \<and> tx_game t = Some gid) \<and>
           (\<forall>leg \<in> set legs. \<exists>t \<in> set ts. tx_pool t = pa_id escrow \<and> tx_direction t = DEBIT \<and>
              tx_user t = Some (rl_user leg)))"
  using assms
proof (induction legs arbitrary: eb d)
  case Nil
  then show ?case by (simp add: give_def owed_to_def)
next
  case (Cons leg legs)
  from Cons.prems(3) obtain eb1 d1 where r: "refundLeg gid escrow leg eb d = Inr (eb1, d1)"
    "refundLegs gid escrow legs eb1 d1 = Inr (eb', d')" by (auto elim!: rbindE)
  have kn: "Some (rl_user leg) \<in> pa_owner ` set (pools d)" using Cons.prems(2) by (simp add: all_known_def)
  note e = refundLeg_exact [OF Cons.prems(1) kn r(1)]
  have "db_wf d1" using refundLeg_step [OF Cons.prems(1) r(1)] by (simp add: refund_step_def)
  moreover have "all_known legs d1" using Cons.prems(2) e by (simp add: all_known_def image_image)
  ultimately obtain ts where IH: "pools d' = map (give legs) (pools d1)"
    "eb' = eb1 - sum_list (map rl_lamports legs)" "txs d' = txs d1 @ ts"
    "\<forall>t \<in> set ts. tx_type t = REFUND \<and> tx_game t = Some gid"
    "\<forall>leg \<in> set legs. \<exists>t \<in> set ts. tx_pool t = pa_id escrow \<and> tx_direction t = DEBIT \<and> tx_user t = Some (rl_user leg)"
    using Cons.IH r(2) by blast
  from e obtain us where us: "txs d1 = txs d @ us" "refund_rows gid (pa_id escrow) (rl_user leg) us" by blast
  have "pools d' = map (give (leg # legs)) (pools d)" using e IH(1) by (simp add: give_Cons)
  moreover have "eb' = eb - sum_list (map rl_lamports (leg # legs))" using e IH(2) by simp
  moreover have "txs d' = txs d @ (us @ ts)" using us(1) IH(3) by simp
  moreover have "\<forall>t \<in> set (us @ ts). tx_type t = REFUND \<and> tx_game t = Some gid"
    using us(2) IH(4) by (auto simp: refund_rows_def)
  moreover have "\<forall>leg \<in> set (leg # legs). \<exists>t \<in> set (us @ ts). tx_pool t = pa_id escrow \<and>
      tx_direction t = DEBIT \<and> tx_user t = Some (rl_user leg)"
    using us(2) IH(5) by (auto simp: refund_rows_def)
  ultimately show ?case by blast
qed

text \<open>A successful cancellation of a game with an escrow, whose players have accounts.\<close>

lemma cancel_exact:
  assumes wf: "db_wf d" and run: "cancelGameAndRefund gid reason at audit d = Inr (r, d')"
    and e: "poolByGame gid d = Some escrow"
    and kn: "all_known (owedLegs (refundedUsers gid (pa_id escrow) d) (stakedByUser gid (pa_id escrow) d)) d"
  shows "cr_refunds r = owedLegs (refundedUsers gid (pa_id escrow) d) (stakedByUser gid (pa_id escrow) d) \<and>
         cr_totalLamports r = sum_list (map rl_lamports (cr_refunds r)) \<and> cr_totalLamports r \<le> pa_balance escrow \<and>
         pools d' = (if cr_refunds r = [] then pools d
           else map (\<lambda>a. if pa_id a = pa_id escrow then setBalance (pa_balance a - cr_totalLamports r) a
                         else give (cr_refunds r) a) (pools d)) \<and>
         (cr_refunds r \<noteq> [] \<longrightarrow> owed_to escrow (cr_refunds r) = 0) \<and>
         (\<exists>ts. txs d' = txs d @ ts \<and> (\<forall>t \<in> set ts. tx_type t = REFUND \<and> tx_game t = Some gid) \<and>
           (\<forall>leg \<in> set (cr_refunds r). \<exists>t \<in> set ts. tx_pool t = pa_id escrow \<and> tx_direction t = DEBIT \<and>
              tx_user t = Some (rl_user leg)))"
  using run
proof (cases rule: cancel_cases)
  case (free game)
  with e show ?thesis by simp
next
  case (paid game escrow' eb d1 d2)
  have ee: "escrow' = escrow" using paid(3) e by simp
  have kn': "all_known (cr_refunds r) d" using kn paid(5) by (simp add: ee)
  note ex = refundLegs_exact [OF wf kn' paid(8)]
  have wf1: "db_wf d1" using refundLegs_step [OF wf paid(8)] by (simp add: refund_step_def)
  have em: "escrow \<in> set (pools d)" using e by (auto simp: poolByGame_def dest: find_SomeD)
  obtain gs where d': "d' = d2\<lparr>games := gs\<rparr>" using cancelRow_Inr(1) [OF paid(10)] by blast
  show ?thesis
  proof (cases "cr_refunds r = []")
    case True
    with paid(8,9) have "d2 = d" by simp
    with True paid(5-7) show ?thesis by (simp add: d' ee)
  next
    case False
    then have up: "poolUpdate (pa_id escrow) (pa_version escrow) (setBalance eb) d1 = Inr d2"
      using paid(9) by (simp add: ee)
    obtain x where x: "x \<in> set (pools d1)" "pa_id x = pa_id escrow" "pa_version x = pa_version escrow"
      and d2: "d2 = d1\<lparr>pools := upd_rows (\<lambda>a. pa_id a = pa_id escrow) (setBalance eb) (pools d1)\<rparr>"
      by (rule poolUpdate_facts [OF wf1 versioned_set(1) up])
    from x(1) ex obtain y where y: "y \<in> set (pools d)" "x = give (cr_refunds r) y" by auto
    have ye: "y = escrow" using wf y x(2) em
      by (intro distinct_key_eq [where key = pa_id]) (auto simp: db_wf_def)
    with x(3) y(2) have "filter (\<lambda>leg. pa_owner escrow = Some (rl_user leg)) (cr_refunds r) = []" by simp
    then have none: "owed_to escrow (cr_refunds r) = 0" "give (cr_refunds r) escrow = escrow"
      by (simp_all add: owed_to_def give_def)
    have eqe: "b = escrow" if "b \<in> set (pools d)" "pa_id b = pa_id escrow" for b
      using wf that em by (intro distinct_key_eq [where key = pa_id]) (auto simp: db_wf_def)
    have "(if pa_id b = pa_id escrow then setBalance eb (give (cr_refunds r) b) else give (cr_refunds r) b) =
          (if pa_id b = pa_id escrow then setBalance (pa_balance b - cr_totalLamports r) b else give (cr_refunds r) b)"
      if "b \<in> set (pools d)" for b
      using eqe [OF that] none(2) ex paid(6) ee by auto
    note cong = map_cong [OF refl this]
    have "pools d1 = map (give (cr_refunds r)) (pools d)" using ex by blast
    then have "pools d' = map (\<lambda>b. if pa_id b = pa_id escrow then setBalance eb (give (cr_refunds r) b)
        else give (cr_refunds r) b) (pools d)" by (simp add: d' d2 upd_rows_def)
    also note cong
    finally have "pools d' = map (\<lambda>a. if pa_id a = pa_id escrow then setBalance (pa_balance a - cr_totalLamports r) a
                         else give (cr_refunds r) a) (pools d)" .
    with False none(1) ex paid(5-7) show ?thesis by (simp add: d' d2 ee)
  qed
qed

section \<open>Repeating a cancellation\<close>

lemma owedLegs_member:
  assumes "(Some user, amount) \<in> set rows" and "user \<noteq> []" and "0 < amount" and "Some user \<notin> set already"
  shows "\<lparr> rl_user = user, rl_lamports = amount \<rparr> \<in> set (owedLegs already rows)"
  using assms by (induction already rows rule: owedLegs.induct) (auto split: option.splits)

lemma owedLegs_Nil:
  assumes "\<And>user amount. (Some user, amount) \<in> set rows \<Longrightarrow> user \<noteq> [] \<Longrightarrow> 0 < amount \<Longrightarrow> Some user \<in> set already"
  shows "owedLegs already rows = []"
  using assms by (induction already rows rule: owedLegs.induct) (force split: option.splits)+

lemma stakedByUser_append:
  assumes "txs d' = txs d @ ts" and "\<forall>t \<in> set ts. tx_type t = REFUND \<and> tx_game t = Some gid"
  shows "stakedByUser gid eid d' = stakedByUser gid eid d"
proof -
  have "filter (is_stake gid eid) ts = []" using assms(2) by (auto simp: filter_empty_conv is_stake_def)
  then show ?thesis by (simp add: stakedByUser_def assms(1))
qed

lemma paidOut_append:
  assumes "txs d' = txs d @ ts" and "\<forall>t \<in> set ts. tx_type t = REFUND \<and> tx_game t = Some gid"
    and "paidOut gid d = None"
  shows "paidOut gid d' = None"
  using assms by (auto simp: paidOut_def find_None_iff)

lemma give_game [simp]: "pa_game (give legs a) = pa_game a" "pa_game (setBalance b a) = pa_game a"
  by (simp_all add: give_def setBalance_def)

lemma find_map_rows: "find P (map f xs) = map_option f (find (P \<circ> f) xs)"
  by (induction xs) auto

lemma poolByGame_map:
  assumes "\<And>a. pa_game (f a) = pa_game a" and "poolByGame g d = Some e" and "pools d' = map f (pools d)"
  shows "poolByGame g d' = Some (f e)"
  using assms by (simp add: poolByGame_def find_map_rows comp_def)

text \<open>A cancellation with nothing left to refund only rewrites the game's row.\<close>

lemma cancel_nothing_owed:
  assumes g: "gameById gid d = Some game" "g_status game \<noteq> COMPLETED"
    and e: "poolByGame gid d = Some escrow" and np: "paidOut gid d = None"
    and none: "owedLegs (refundedUsers gid (pa_id escrow) d) (stakedByUser gid (pa_id escrow) d) = []"
    and bal: "0 \<le> pa_balance escrow" and audit: "\<And>x. audit x = Inr ()"
  shows "\<exists>r d'. cancelGameAndRefund gid reason at audit d = Inr (r, d') \<and> cr_refunds r = [] \<and>
           cr_totalLamports r = 0 \<and> cr_cancelled r = (g_status game \<noteq> CANCELLED) \<and>
           pools d' = pools d \<and> txs d' = txs d"
  using g e np none bal
  by (simp add: cancelGameAndRefund_def Let_def cancelRow_def gameUpdate_def audit)

section \<open>Properties\<close>

lemma cancel_status:
  assumes wf: "db_wf d" and run: "cancelGameAndRefund gid reason at audit d = Inr (r, d')"
  shows "\<exists>g. gameById gid d' = Some g \<and> g_status g = CANCELLED \<and> g_settlementStatus g = NOT_REQUIRED"
proof -
  have "\<exists>game d2. gameById gid d = Some game \<and> games d2 = games d \<and>
      cancelRow gid game reason at d2 = Inr (cr_cancelled r, d')"
    using run
  proof (cases rule: cancel_cases)
    case (free game)
    then show ?thesis by blast
  next
    case (paid game escrow eb d1 d2)
    have "games d1 = games d" using refundLegs_step [OF wf paid(8)] by (simp add: refund_step_def)
    moreover have "games d2 = games d1"
      using paid(9) by (auto simp: poolUpdate_def poolUpdateMany_def Let_def split: if_splits)
    ultimately show ?thesis using paid(1,10) by auto
  qed
  then obtain game d2 where g: "gameById gid d = Some game" "games d2 = games d"
    and c: "cancelRow gid game reason at d2 = Inr (cr_cancelled r, d')" by blast
  show ?thesis
    using g cancelRow_Inr(3) [OF c] find_SomeD(2) [OF g(1) [unfolded gameById_def]]
    by (simp add: gameById_def find_upd_rows_same)
qed

lemma cancel_effects:
  assumes "db_wf d" and "cancelGameAndRefund gid reason at audit d = Inr (r, d')"
    and "poolByGame gid d = Some escrow"
    and "all_known (owedLegs (refundedUsers gid (pa_id escrow) d) (stakedByUser gid (pa_id escrow) d)) d"
  shows "cr_refunds r = owedLegs (refundedUsers gid (pa_id escrow) d) (stakedByUser gid (pa_id escrow) d) \<and>
         cr_totalLamports r = sum_list (map rl_lamports (cr_refunds r)) \<and>
         cr_totalLamports r \<le> pa_balance escrow \<and>
         map (\<lambda>a. (pa_id a, pa_balance a, pa_reserved a)) (pools d') =
           map (\<lambda>a. (pa_id a, pa_balance a + owed_to a (cr_refunds r) -
                        (if pa_id a = pa_id escrow then cr_totalLamports r else 0), pa_reserved a)) (pools d) \<and>
         (\<exists>g. gameById gid d' = Some g \<and> g_status g = CANCELLED \<and> g_settlementStatus g = NOT_REQUIRED)"
proof -
  note ex = cancel_exact [OF assms]
  have em: "escrow \<in> set (pools d)" using assms(3) by (auto simp: poolByGame_def dest: find_SomeD)
  have eqe: "b = escrow" if "b \<in> set (pools d)" "pa_id b = pa_id escrow" for b
    using assms(1) that em by (intro distinct_key_eq [where key = pa_id]) (auto simp: db_wf_def)
  have "map (\<lambda>a. (pa_id a, pa_balance a, pa_reserved a)) (pools d') =
           map (\<lambda>a. (pa_id a, pa_balance a + owed_to a (cr_refunds r) -
                        (if pa_id a = pa_id escrow then cr_totalLamports r else 0), pa_reserved a)) (pools d)"
  proof (cases "cr_refunds r = []")
    case True
    with ex show ?thesis by (simp add: owed_to_def)
  next
    case False
    from ex have "pools d' = (if cr_refunds r = [] then pools d
           else map (\<lambda>a. if pa_id a = pa_id escrow then setBalance (pa_balance a - cr_totalLamports r) a
                         else give (cr_refunds r) a) (pools d))" by blast
    then have p: "pools d' = map (\<lambda>a. if pa_id a = pa_id escrow then setBalance (pa_balance a - cr_totalLamports r) a
                         else give (cr_refunds r) a) (pools d)"
      by (simp only: False if_False)
    have none: "owed_to escrow (cr_refunds r) = 0" using ex False by blast
    have "owed_to b (cr_refunds r) = 0" if "b \<in> set (pools d)" "pa_id b = pa_id escrow" for b
      using eqe [OF that] none by simp
    then show ?thesis unfolding p by simp
  qed
  with ex cancel_status [OF assms(1,2)] show ?thesis by blast
qed

text \<open>The accounts a cancellation opens for players who had none: empty, one for each of them.\<close>

definition opened_for :: "refund_leg list \<Rightarrow> pool_account list \<Rightarrow> pool_account list \<Rightarrow> bool" where
  "opened_for legs ps opened \<longleftrightarrow>
     map pa_owner opened = map (\<lambda>leg. Some (rl_user leg)) (filter (\<lambda>leg. Some (rl_user leg) \<notin> pa_owner ` set ps) legs) \<and>
     (\<forall>a \<in> set opened. pa_balance a = 0 \<and> pa_reserved a = 0)"

lemma opened_for_known: "all_known legs d \<Longrightarrow> opened_for legs (pools d) []"
  by (auto simp: opened_for_def all_known_def filter_empty_conv)

lemma refundLeg_opens:
  assumes wf: "db_wf d" and run: "refundLeg gid escrow leg eb d = Inr (eb', d')"
  shows "\<exists>opened ts. opened_for [leg] (pools d) opened \<and> pools d' = map (give [leg]) (pools d @ opened) \<and>
         eb' = eb - rl_lamports leg \<and> txs d' = txs d @ ts \<and> refund_rows gid (pa_id escrow) (rl_user leg) ts"
proof (cases "Some (rl_user leg) \<in> pa_owner ` set (pools d)")
  case True
  then have "opened_for [leg] (pools d) []" by (simp add: opened_for_def)
  with refundLeg_exact [OF wf True run] show ?thesis by force
next
  case False
  then have no: "poolByOwner (rl_user leg) d = None" by (force simp: poolByOwner_def find_None_iff)
  obtain c d1 where g: "getCustodyAccount (rl_user leg) d = Inr (c, d1)" by (rule refundLeg_cases [OF run])
  note f = getCustodyAccount_facts [OF wf g]
  from g no have new: "poolCreate USER_CUSTODY (custody_name (rl_user leg)) (Some (rl_user leg)) None d = Inr (c, d1)"
    by (simp add: getCustodyAccount_def)
  then have p: "pools d1 = pools d @ [c]" "pa_balance c = 0" "pa_reserved c = 0" "txs d1 = txs d"
    by (auto simp: poolCreate_def Let_def randomUUID_def split: if_splits prod.splits)
  have "getCustodyAccount (rl_user leg) d1 = Inr (c, d1)"
    using no f(9) p(1) by (simp add: getCustodyAccount_def poolByOwner_def find_append)
  then have same: "refundLeg gid escrow leg eb d1 = Inr (eb', d')" using run g by (simp add: refundLeg_def)
  have kn: "Some (rl_user leg) \<in> pa_owner ` set (pools d1)" using f(9) p(1) by simp
  have "opened_for [leg] (pools d) [c]" using False f(9) p(2,3) by (simp add: opened_for_def)
  with refundLeg_exact [OF f(1) kn same] p show ?thesis by (metis (no_types, lifting))
qed

lemma refundLegs_opens:
  assumes "db_wf d" and "refundLegs gid escrow legs eb d = Inr (eb', d')" and "distinct (map rl_user legs)"
  shows "\<exists>opened. opened_for legs (pools d) opened \<and> pools d' = map (give legs) (pools d @ opened) \<and>
         eb' = eb - sum_list (map rl_lamports legs)"
  using assms
proof (induction legs arbitrary: eb d)
  case Nil
  then show ?case by (auto simp: opened_for_def give_def owed_to_def)
next
  case (Cons leg legs)
  from Cons.prems(2) obtain eb1 d1 where r: "refundLeg gid escrow leg eb d = Inr (eb1, d1)"
    "refundLegs gid escrow legs eb1 d1 = Inr (eb', d')" by (auto elim!: rbindE)
  obtain one where one: "opened_for [leg] (pools d) one" "pools d1 = map (give [leg]) (pools d @ one)"
    "eb1 = eb - rl_lamports leg" using refundLeg_opens [OF Cons.prems(1) r(1)] by blast
  have "db_wf d1" using refundLeg_step [OF Cons.prems(1) r(1)] by (simp add: refund_step_def)
  with Cons.IH r(2) Cons.prems(3) obtain more where more: "opened_for legs (pools d1) more"
    "pools d' = map (give legs) (pools d1 @ more)" "eb' = eb1 - sum_list (map rl_lamports legs)" by auto
  have owners: "pa_owner ` set (pools d1) = insert (Some (rl_user leg)) (pa_owner ` set (pools d))"
  proof -
    have "pa_owner ` set (pools d1) = pa_owner ` set (pools d) \<union> set (map pa_owner one)"
      by (simp add: one(2) image_Un image_image)
    also have "set (map pa_owner one) = (if Some (rl_user leg) \<in> pa_owner ` set (pools d) then {} else {Some (rl_user leg)})"
      using one(1) by (simp only: opened_for_def) simp
    finally show ?thesis by auto
  qed
  have ne: "rl_user l \<noteq> rl_user leg" if "l \<in> set legs" for l
  proof
    assume "rl_user l = rl_user leg"
    with that have "rl_user leg \<in> rl_user ` set legs" by (metis imageI)
    with Cons.prems(3) show False by simp
  qed
  have fl: "filter (\<lambda>l. Some (rl_user l) \<notin> pa_owner ` set (pools d1)) legs =
      filter (\<lambda>l. Some (rl_user l) \<notin> pa_owner ` set (pools d)) legs"
    by (intro filter_cong [OF refl]) (simp add: owners ne)
  have other: "give (leg # legs) a = give legs a" if "a \<in> set more" for a
  proof -
    have "pa_owner a \<in> set (map pa_owner more)" using that by simp
    also have "\<dots> = (\<lambda>l. Some (rl_user l)) ` {l \<in> set legs. Some (rl_user l) \<notin> pa_owner ` set (pools d1)}"
      using more(1) by (simp only: opened_for_def) auto
    finally obtain l where "l \<in> set legs" "pa_owner a = Some (rl_user l)" by blast
    with ne [of l] have "pa_owner a \<noteq> Some (rl_user leg)" by simp
    then show ?thesis by (simp add: give_def owed_to_def)
  qed
  have "map pa_owner (one @ more) =
      map (\<lambda>l. Some (rl_user l)) (filter (\<lambda>l. Some (rl_user l) \<notin> pa_owner ` set (pools d)) (leg # legs))"
    using one(1) more(1) unfolding opened_for_def fl by simp
  moreover have "\<forall>a \<in> set (one @ more). pa_balance a = 0 \<and> pa_reserved a = 0"
    using one(1) more(1) by (auto simp: opened_for_def)
  ultimately have "opened_for (leg # legs) (pools d) (one @ more)" unfolding opened_for_def by blast
  moreover have "pools d' = map (give (leg # legs)) (pools d @ (one @ more))"
    using more(2) one(2) other by (simp add: give_Cons)
  moreover have "eb' = eb - sum_list (map rl_lamports (leg # legs))" using more(3) one(3) by simp
  ultimately show ?case by blast
qed

lemma owedLegs_users: "set (map (\<lambda>l. Some (rl_user l)) (owedLegs already rows)) \<subseteq> set (map fst rows)"
  by (induction already rows rule: owedLegs.induct) (force split: option.splits if_splits)+

lemma owedLegs_distinct: "distinct (map fst rows) \<Longrightarrow> distinct (map rl_user (owedLegs already rows))"
proof (induction already rows rule: owedLegs.induct)
  case (2 already u amount rows)
  have "user \<notin> set (map rl_user (owedLegs already rows))" if "u = Some user" for user
    using owedLegs_users [of already rows] 2(5) that by force
  with 2 show ?case by (auto split: option.splits)
qed simp

lemma staked_distinct: "distinct (map fst (stakedByUser gid eid d))"
  by (simp add: stakedByUser_def Let_def comp_def)

text \<open>Every branch of a cancellation that succeeds: no escrow account, or one that pays the players back.\<close>

lemma cancel_pays:
  assumes wf: "db_wf d" and run: "cancelGameAndRefund gid reason at audit d = Inr (r, d')"
    and e: "poolByGame gid d = Some escrow"
  shows "cr_refunds r = owedLegs (refundedUsers gid (pa_id escrow) d) (stakedByUser gid (pa_id escrow) d) \<and>
         cr_totalLamports r = sum_list (map rl_lamports (cr_refunds r)) \<and> cr_totalLamports r \<le> pa_balance escrow \<and>
         (\<exists>opened. opened_for (cr_refunds r) (pools d) opened \<and>
            map (\<lambda>a. (pa_id a, pa_owner a, pa_balance a, pa_reserved a)) (pools d') =
            map (\<lambda>a. (pa_id a, pa_owner a, pa_balance a + owed_to a (cr_refunds r) -
                        (if pa_id a = pa_id escrow then cr_totalLamports r else 0), pa_reserved a)) (pools d @ opened))"
  using run
proof (cases rule: cancel_cases)
  case (free game)
  with e show ?thesis by simp
next
  case (paid game escrow' eb d1 d2)
  have ee: "escrow' = escrow" using paid(3) e by simp
  have dist: "distinct (map rl_user (cr_refunds r))" by (simp add: paid(5) owedLegs_distinct staked_distinct)
  obtain opened where op: "opened_for (cr_refunds r) (pools d) opened"
    and p1: "pools d1 = map (give (cr_refunds r)) (pools d @ opened)"
    and eb': "eb = pa_balance escrow' - sum_list (map rl_lamports (cr_refunds r))"
    using refundLegs_opens [OF wf paid(8) dist] by (elim exE conjE)
  have eb: "eb = pa_balance escrow - cr_totalLamports r" unfolding eb' ee paid(6) by (rule refl)
  have wf1: "db_wf d1" using refundLegs_step [OF wf paid(8)] by (simp add: refund_step_def)
  have em: "escrow \<in> set (pools d)" using e by (auto simp: poolByGame_def dest: find_SomeD)
  obtain gs where d': "d' = d2\<lparr>games := gs\<rparr>" using cancelRow_Inr(1) [OF paid(10)] by blast
  let ?row = "\<lambda>a. (pa_id a, pa_owner a, pa_balance a + owed_to a (cr_refunds r) -
                        (if pa_id a = pa_id escrow then cr_totalLamports r else 0), pa_reserved a)"
  have "map (\<lambda>a. (pa_id a, pa_owner a, pa_balance a, pa_reserved a)) (pools d') = map ?row (pools d @ opened)"
  proof (cases "cr_refunds r = []")
    case True
    with paid(8,9) have "d2 = d" by simp
    moreover have "opened = []" using op True by (simp add: opened_for_def)
    ultimately show ?thesis using True paid(6) by (simp add: d' owed_to_def)
  next
    case False
    then have up: "poolUpdate (pa_id escrow) (pa_version escrow) (setBalance eb) d1 = Inr d2"
      using paid(9) by (simp add: ee)
    obtain x where x: "x \<in> set (pools d1)" "pa_id x = pa_id escrow" "pa_version x = pa_version escrow"
      and d2: "d2 = d1\<lparr>pools := upd_rows (\<lambda>a. pa_id a = pa_id escrow) (setBalance eb) (pools d1)\<rparr>"
      by (rule poolUpdate_facts [OF wf1 versioned_set(1) up])
    have "map pa_id (pools d1) = map pa_id (pools d @ opened)" by (simp add: p1)
    moreover have "distinct (map pa_id (pools d1))" using wf1 by (simp add: db_wf_def)
    ultimately have ids: "distinct (map pa_id (pools d @ opened))" by (simp only:)
    have eqe: "b = escrow" if "b \<in> set (pools d @ opened)" "pa_id b = pa_id escrow" for b
      using distinct_key_eq [OF ids that(1), of escrow] em that(2) by simp
    from x(1) obtain y where y: "y \<in> set (pools d @ opened)" "x = give (cr_refunds r) y" by (auto simp: p1)
    have "y = escrow" using eqe [OF y(1)] x(2) y(2) by simp
    with x(3) y(2) have "filter (\<lambda>leg. pa_owner escrow = Some (rl_user leg)) (cr_refunds r) = []" by simp
    then have none: "owed_to escrow (cr_refunds r) = 0" by (simp add: owed_to_def)
    have "(\<lambda>a. (pa_id a, pa_owner a, pa_balance a, pa_reserved a))
        (if pa_id (give (cr_refunds r) b) = pa_id escrow then setBalance eb (give (cr_refunds r) b) else give (cr_refunds r) b) = ?row b"
      if "b \<in> set (pools d @ opened)" for b
    proof (cases "pa_id b = pa_id escrow")
      case True
      with eqe [OF that] none show ?thesis by (simp add: eb setBalance_def)
    next
      case False
      then show ?thesis by simp
    qed
    note rows = map_cong [OF refl this]
    have "pools d' = map (\<lambda>b. if pa_id (give (cr_refunds r) b) = pa_id escrow then setBalance eb (give (cr_refunds r) b)
        else give (cr_refunds r) b) (pools d @ opened)"
      by (simp add: d' d2 p1 upd_rows_def)
    then show ?thesis using rows by (simp only: map_map comp_def)
  qed
  with op have "\<exists>opened. opened_for (cr_refunds r) (pools d) opened \<and>
      map (\<lambda>a. (pa_id a, pa_owner a, pa_balance a, pa_reserved a)) (pools d') = map ?row (pools d @ opened)"
    by (intro exI [of _ opened] conjI)
  then show ?thesis using paid(5-7) unfolding ee by (intro conjI)
qed


text \<open>
  cancelling twice pays once: after a cancellation, a second one finds every staker repaid,
  posts nothing, moves nothing and reports that the game was cancelled already.
\<close>

theorem cancel_idempotent:
  assumes wf: "db_wf d" and run: "cancelGameAndRefund gid reason at audit d = Inr (r, d')"
    and e: "poolByGame gid d = Some escrow"
    and kn: "all_known (owedLegs (refundedUsers gid (pa_id escrow) d) (stakedByUser gid (pa_id escrow) d)) d"
    and audit: "\<And>x. audit x = Inr ()" and bal: "0 \<le> pa_balance escrow"
  shows "\<exists>r2 d2. cancelGameAndRefund gid reason2 at2 audit d' = Inr (r2, d2) \<and> cr_refunds r2 = [] \<and>
           cr_totalLamports r2 = 0 \<and> \<not> cr_cancelled r2 \<and> pools d2 = pools d' \<and> txs d2 = txs d'"
proof -
  note ex = cancel_exact [OF wf run e kn]
  from ex obtain ts where ts: "txs d' = txs d @ ts" "\<forall>t \<in> set ts. tx_type t = REFUND \<and> tx_game t = Some gid"
    and rows: "\<forall>leg \<in> set (cr_refunds r). \<exists>t \<in> set ts. tx_pool t = pa_id escrow \<and> tx_direction t = DEBIT \<and>
              tx_user t = Some (rl_user leg)" by blast
  obtain g where g: "gameById gid d' = Some g" "g_status g = CANCELLED"
    using cancel_status [OF wf run] by blast
  define f where "f a = (if cr_refunds r = [] then a else if pa_id a = pa_id escrow
    then setBalance (pa_balance a - cr_totalLamports r) a else give (cr_refunds r) a)" for a
  from ex have "pools d' = (if cr_refunds r = [] then pools d
           else map (\<lambda>a. if pa_id a = pa_id escrow then setBalance (pa_balance a - cr_totalLamports r) a
                         else give (cr_refunds r) a) (pools d))" by blast
  then have f: "pools d' = map f (pools d)"
    by (cases "cr_refunds r = []") (simp_all add: f_def [abs_def])
  have fe: "poolByGame gid d' = Some (f escrow)"
    by (rule poolByGame_map [OF _ e f]) (simp add: f_def)
  have fi: "pa_id (f escrow) = pa_id escrow" by (simp add: f_def)
  have "cr_totalLamports r \<le> pa_balance escrow" using ex by blast
  with bal have fb: "0 \<le> pa_balance (f escrow)" by (simp add: f_def)
  have "paidOut gid d = None" using run by (cases rule: cancel_cases) (use e in simp_all)
  then have np: "paidOut gid d' = None" by (rule paidOut_append [OF ts])
  have st: "stakedByUser gid (pa_id escrow) d' = stakedByUser gid (pa_id escrow) d"
    by (rule stakedByUser_append [OF ts])
  have "owedLegs (refundedUsers gid (pa_id escrow) d') (stakedByUser gid (pa_id escrow) d) = []"
  proof (rule owedLegs_Nil)
    fix user amount
    assume u: "(Some user, amount) \<in> set (stakedByUser gid (pa_id escrow) d)" "user \<noteq> []" "0 < amount"
    show "Some user \<in> set (refundedUsers gid (pa_id escrow) d')"
    proof (cases "Some user \<in> set (refundedUsers gid (pa_id escrow) d)")
      case True
      then show ?thesis by (auto simp: refundedUsers_def ts(1))
    next
      case False
      from owedLegs_member [OF u False] ex
      have "\<lparr> rl_user = user, rl_lamports = amount \<rparr> \<in> set (cr_refunds r)" by simp
      with rows obtain t where "t \<in> set ts" "tx_pool t = pa_id escrow" "tx_direction t = DEBIT" "tx_user t = Some user"
        by fastforce
      with ts show ?thesis by (force simp: refundedUsers_def)
    qed
  qed
  then have none: "owedLegs (refundedUsers gid (pa_id (f escrow)) d') (stakedByUser gid (pa_id (f escrow)) d') = []"
    by (simp add: fi st)
  from cancel_nothing_owed [OF g(1) _ fe np none fb audit, of reason2 at2] g(2) show ?thesis by auto
qed

lemma cancel_refused:
  assumes "gameById gid d = Some game"
  shows "g_status game = COMPLETED \<Longrightarrow> cancelGameAndRefund gid reason at audit d = Inl (GameAlreadySettled gid)"
    and "poolByGame gid d = Some escrow \<Longrightarrow> t \<in> set (txs d) \<Longrightarrow> tx_game t = Some gid \<Longrightarrow>
         tx_type t = PAYOUT \<or> tx_type t = RAKE \<Longrightarrow> tx_status t = POSTED \<Longrightarrow>
         cancelGameAndRefund gid reason at audit d = Inl (GameAlreadySettled gid)"
    and "g_status game \<noteq> COMPLETED \<Longrightarrow> poolByGame gid d = Some escrow \<Longrightarrow> paidOut gid d = None \<Longrightarrow>
         pa_balance escrow < sum_list (map rl_lamports
           (owedLegs (refundedUsers gid (pa_id escrow) d) (stakedByUser gid (pa_id escrow) d))) \<Longrightarrow>
         \<exists>owed. cancelGameAndRefund gid reason at audit d = Inl (RefundShortfall gid owed (pa_balance escrow))"
proof -
  show "cancelGameAndRefund gid reason at audit d = Inl (GameAlreadySettled gid)" if "g_status game = COMPLETED"
    using assms that by (simp add: cancelGameAndRefund_def)
  show "cancelGameAndRefund gid reason at audit d = Inl (GameAlreadySettled gid)"
    if "poolByGame gid d = Some escrow" "t \<in> set (txs d)" "tx_game t = Some gid"
      "tx_type t = PAYOUT \<or> tx_type t = RAKE" "tx_status t = POSTED"
  proof -
    have "paidOut gid d \<noteq> None" using that by (auto simp: paidOut_def find_None_iff)
    with assms that show ?thesis by (auto simp: cancelGameAndRefund_def)
  qed
  show "\<exists>owed. cancelGameAndRefund gid reason at audit d = Inl (RefundShortfall gid owed (pa_balance escrow))"
    if "g_status game \<noteq> COMPLETED" "poolByGame gid d = Some escrow" "paidOut gid d = None"
      "pa_balance escrow < sum_list (map rl_lamports
           (owedLegs (refundedUsers gid (pa_id escrow) d) (stakedByUser gid (pa_id escrow) d)))"
    using assms that by (simp add: cancelGameAndRefund_def Let_def foldl_sum)
qed

text \<open>
  a game that has paid out is never refunded, whether its status or only the ledger says so,
  and an escrow that holds less than is owed is reported instead of being overdrawn.
\<close>

theorem cancel_refusals:
  assumes "gameById gid d = Some game"
  shows "(g_status game = COMPLETED \<longrightarrow>
            cancelGameAndRefund gid reason at audit d = Inl (GameAlreadySettled gid)) \<and>
         (poolByGame gid d = Some escrow \<and> t \<in> set (txs d) \<and> tx_game t = Some gid \<and>
            (tx_type t = PAYOUT \<or> tx_type t = RAKE) \<and> tx_status t = POSTED \<longrightarrow>
            cancelGameAndRefund gid reason at audit d = Inl (GameAlreadySettled gid)) \<and>
         (g_status game \<noteq> COMPLETED \<and> poolByGame gid d = Some escrow \<and> paidOut gid d = None \<and>
            pa_balance escrow < sum_list (map rl_lamports
              (owedLegs (refundedUsers gid (pa_id escrow) d) (stakedByUser gid (pa_id escrow) d))) \<longrightarrow>
            (\<exists>owed. cancelGameAndRefund gid reason at audit d = Inl (RefundShortfall gid owed (pa_balance escrow))))"
  using cancel_refused [OF assms] by blast

section \<open>A stake and its refund\<close>

text \<open>What consuming writes that a refund later reads: one escrow credit per reservation.\<close>

definition stake_credits :: "string \<Rightarrow> string \<Rightarrow> ledger_tx list \<Rightarrow> (string option \<times> int) list" where
  "stake_credits gid eid ts = map (\<lambda>t. (tx_user t, tx_amount t)) (filter (is_stake gid eid) ts)"

lemma stake_credits_append [simp]:
  "stake_credits gid eid (ts @ us) = stake_credits gid eid ts @ stake_credits gid eid us"
  by (simp add: stake_credits_def)

lemma poolUpdate_frame:
  assumes "poolUpdate i v f d = Inr d'"
  shows "txs d' = txs d" and "stakes d' = stakes d" and "games d' = games d"
  using assms by (auto simp: poolUpdate_def poolUpdateMany_def Let_def split: if_splits)

lemma consumeRow_rows:
  assumes wf: "db_wf d" and cov: "covered (row # rows) d"
    and run: "consumeRow tid gid escrow row acc d = Inr (acc', d')"
  shows "\<exists>ts. txs d' = txs d @ ts \<and> stake_credits gid (pa_id escrow) ts = [(Some (sr_user row), sr_lamports row)] \<and>
           list_all (\<lambda>t. tx_type t = ENTRY_FEE) ts"
proof -
  from cov obtain a where a: "a \<in> set (pools d)" "pa_owner a = Some (sr_user row)"
    by (auto simp: covered_def image_iff)
  then obtain c where Some: "poolByOwner (sr_user row) d = Some c"
    by (cases "poolByOwner (sr_user row) d") (auto simp: poolByOwner_def dest: find_NoneD)
  let ?after = "pa_balance c - sr_lamports row"
  let ?res = "if sr_lamports row < pa_reserved c then pa_reserved c - sr_lamports row else 0"
  let ?f = "\<lambda>a. a\<lparr>pa_balance := ?after, pa_reserved := ?res, pa_version := Suc (pa_version a)\<rparr>"
  have "\<not> pa_balance c < sr_lamports row" using run Some by (auto simp: consumeRow_def)
  with run Some obtain d1 grp d2 where
    up: "poolUpdate (pa_id c) (pa_version c) ?f d = Inr d1" and uu: "randomUUID d1 = (grp, d2)"
    and tx: "txCreateMany [stake_leg tid gid row grp DEBIT ?after (pa_id c) (stake_key gid (sr_user row)),
                stake_leg tid gid row grp CREDIT (ca_escrowBalance acc + sr_lamports row) (pa_id escrow)
                  (stake_key gid (sr_user row) @ '':escrow'')] d2 = Inr d'"
    by (auto simp: consumeRow_def Let_def elim!: rbindE split: prod.splits)
  have v: "versioned ?f" by (simp add: versioned_def)
  have "db_wf d1" by (rule poolUpdate_facts [OF wf v up])
  with uu poolUpdate_frame [OF up] have d2: "txs d2 = txs d" "db_wf d2" by (auto simp: randomUUID_def db_wf_def)
  from txCreateMany_rows [OF d2(2) tx] show ?thesis
    by (auto simp: d2(1) list_all2_Cons1 stake_credits_def is_stake_def stake_leg_def)
qed

lemma consumeRows_rows:
  assumes "db_wf d" and "covered rows d" and "consumeRows tid gid escrow rows acc d = Inr (acc', d')"
  shows "\<exists>ts. txs d' = txs d @ ts \<and> list_all (\<lambda>t. tx_type t = ENTRY_FEE) ts \<and>
           stake_credits gid (pa_id escrow) ts = map (\<lambda>r. (Some (sr_user r), sr_lamports r)) rows"
  using assms
proof (induction rows arbitrary: acc d)
  case Nil
  then show ?case by (simp add: stake_credits_def)
next
  case (Cons row rows)
  from Cons.prems(3) obtain acc1 d1 where r: "consumeRow tid gid escrow row acc d = Inr (acc1, d1)"
    "consumeRows tid gid escrow rows acc1 d1 = Inr (acc', d')" by (auto elim!: rbindE)
  obtain ts where ts: "txs d1 = txs d @ ts" "stake_credits gid (pa_id escrow) ts = [(Some (sr_user row), sr_lamports row)]"
    "list_all (\<lambda>t. tx_type t = ENTRY_FEE) ts"
    using consumeRow_rows [OF Cons.prems(1,2) r(1)] by blast
  have wf1: "db_wf d1" using consumeRow_step [OF Cons.prems(1) r(1)] by (simp add: consume_step_def)
  have cov1: "covered rows d1"
    using covered_take [OF Cons.prems(2)] consumeRow_exact [OF Cons.prems(1,2) r(1)] by blast
  obtain us where us: "txs d' = txs d1 @ us" "list_all (\<lambda>t. tx_type t = ENTRY_FEE) us"
    "stake_credits gid (pa_id escrow) us = map (\<lambda>r. (Some (sr_user r), sr_lamports r)) rows"
    using Cons.IH [OF wf1 cov1 r(2)] by blast
  show ?case
    by (rule exI [of _ "ts @ us"]) (use ts us in simp)
qed

text \<open>Grouping the credits of distinct players gives the credits back.\<close>

lemma stakedByUser_credits:
  "stakedByUser gid eid d =
     map (\<lambda>u. (u, sum_list (map snd (filter (\<lambda>c. fst c = u) (stake_credits gid eid (txs d))))))
       (remdups (map fst (stake_credits gid eid (txs d))))"
  by (simp add: stakedByUser_def stake_credits_def Let_def comp_def filter_map)

lemma group_distinct:
  assumes "distinct (map fst cs)"
  shows "map (\<lambda>u. (u, sum_list (map snd (filter (\<lambda>c. fst c = u) cs)))) (remdups (map fst cs)) = (cs :: ('a \<times> int) list)"
proof -
  have "filter (\<lambda>c'. fst c' = fst c) cs = [c]" if "c \<in> set cs" for c
    using assms that
  proof (induction cs)
    case Nil
    then show ?case by simp
  next
    case (Cons x xs)
    show ?case
    proof (cases "c = x")
      case True
      have "filter (\<lambda>c'. fst c' = fst c) xs = []"
        using Cons.prems(1) True by (auto simp: filter_empty_conv image_iff)
      with True show ?thesis by simp
    next
      case False
      with Cons show ?thesis by (auto simp: image_iff)
    qed
  qed
  then have "map (\<lambda>c. (fst c, sum_list (map snd (filter (\<lambda>c'. fst c' = fst c) cs)))) cs = cs"
    by (simp add: map_idI)
  then show ?thesis using assms by (simp add: comp_def distinct_remdups_id)
qed

lemma owedLegs_all:
  assumes "\<forall>r \<in> set rows. sr_user r \<noteq> [] \<and> 0 < sr_lamports r"
  shows "owedLegs [] (map (\<lambda>r. (Some (sr_user r), sr_lamports r)) rows) =
         map (\<lambda>r. \<lparr> rl_user = sr_user r, rl_lamports = sr_lamports r \<rparr>) rows"
  using assms by (induction rows) auto

lemma owed_to_rows:
  "owed_to a (map (\<lambda>r. \<lparr> rl_user = sr_user r, rl_lamports = sr_lamports r \<rparr>) rows) = due a rows"
  by (simp add: owed_to_def due_def rows_of_def filter_map comp_def)

text \<open>The ledger a cancellation reads after a match start of a fresh game.\<close>

lemma consumed_ledger:
  assumes inv: "stake_inv d" and fresh: "\<forall>t \<in> set (txs d). tx_game t \<noteq> Some gid"
    and names: "\<forall>r \<in> set (stakes d). sr_user r \<noteq> []"
    and run: "consumeReservations tid gid eid expected d = Inr ((n, tot), d')"
  defines "rows \<equiv> filter (\<lambda>r. sr_tier r = tid) (stakes d)"
  shows "owedLegs (refundedUsers gid eid d') (stakedByUser gid eid d') =
           map (\<lambda>r. \<lparr> rl_user = sr_user r, rl_lamports = sr_lamports r \<rparr>) rows"
    and "paidOut gid d' = None"
proof -
  note i = stake_invD [OF inv]
  have "\<exists>ts. txs d' = txs d @ ts \<and> list_all (\<lambda>t. tx_type t = ENTRY_FEE) ts \<and>
           stake_credits gid eid ts = map (\<lambda>r. (Some (sr_user r), sr_lamports r)) rows"
    using run
  proof (cases rule: consumeReservations_Inr)
    case empty
    then show ?thesis by (simp add: rows_def stake_credits_def)
  next
    case (some escrow acc d1 d2)
    have "pa_id escrow = eid" using some(2) by (auto simp: poolById_def dest: find_SomeD)
    moreover have "txs d' = txs d1" using poolUpdate_frame [OF some(4)] some(7) by simp
    ultimately show ?thesis
      using consumeRows_rows [OF i(1) covered_filter [OF i(3)] some(3)] by (simp add: rows_def)
  qed
  then obtain ts where ts: "txs d' = txs d @ ts" "list_all (\<lambda>t. tx_type t = ENTRY_FEE) ts"
    "stake_credits gid eid ts = map (\<lambda>r. (Some (sr_user r), sr_lamports r)) rows" by blast
  have "stake_credits gid eid (txs d) = []"
    using fresh by (auto simp: stake_credits_def is_stake_def filter_empty_conv)
  then have cr: "stake_credits gid eid (txs d') = map (\<lambda>r. (Some (sr_user r), sr_lamports r)) rows"
    by (simp add: ts)
  have "distinct (map sr_user rows)"
  proof -
    have "distinct (map (\<lambda>r. (sr_user r, sr_tier r)) rows)"
      unfolding rows_def by (rule distinct_map_filter [OF i(5)])
    moreover have "inj_on sr_user (set rows)" if "inj_on (\<lambda>r. (sr_user r, sr_tier r)) (set rows)"
      using that by (auto simp: inj_on_def rows_def)
    ultimately show ?thesis by (simp add: distinct_map)
  qed
  then have "distinct (map fst (map (\<lambda>r. (Some (sr_user r), sr_lamports r)) rows))"
    by (simp add: comp_def distinct_map inj_on_def)
  from group_distinct [OF this] have st: "stakedByUser gid eid d' = map (\<lambda>r. (Some (sr_user r), sr_lamports r)) rows"
    by (simp only: stakedByUser_credits cr)
  have rf: "refundedUsers gid eid d' = []"
    using fresh ts(2) by (auto simp: refundedUsers_def ts(1) list_all_iff filter_empty_conv)
  have "\<forall>r \<in> set rows. sr_user r \<noteq> [] \<and> 0 < sr_lamports r"
    using names i(3) by (simp add: rows_def covered_def)
  then show "owedLegs (refundedUsers gid eid d') (stakedByUser gid eid d') =
           map (\<lambda>r. \<lparr> rl_user = sr_user r, rl_lamports = sr_lamports r \<rparr>) rows"
    using owedLegs_all by (simp add: st rf)
  show "paidOut gid d' = None"
    using fresh ts(2) by (auto simp: paidOut_def find_None_iff ts(1) list_all_iff)
qed

text \<open>
  C35: a match that starts and is then cancelled costs nobody anything: when the stakes of a tier
  have been consumed into a fresh game's escrow and the game is cancelled, every account has the
  balance it had before the start, and every player has been repaid the whole stake.
\<close>

theorem consume_cancel_roundtrip:
  assumes inv: "stake_inv d" and fresh: "\<forall>t \<in> set (txs d). tx_game t \<noteq> Some gid"
    and names: "\<forall>r \<in> set (stakes d). sr_user r \<noteq> []"
    and consume: "consumeReservations tid gid eid expected d = Inr ((n, tot), d1)"
    and escrow: "poolByGame gid d1 = Some escrow" "pa_id escrow = eid"
    and cancel: "cancelGameAndRefund gid reason at audit d1 = Inr (r, d2)"
  shows "map (\<lambda>a. (pa_id a, pa_balance a)) (pools d2) = map (\<lambda>a. (pa_id a, pa_balance a)) (pools d) \<and>
         cr_totalLamports r = tot \<and>
         cr_refunds r = map (\<lambda>x. \<lparr> rl_user = sr_user x, rl_lamports = sr_lamports x \<rparr>)
           (filter (\<lambda>x. sr_tier x = tid) (stakes d))"
proof -
  let ?rows = "filter (\<lambda>x. sr_tier x = tid) (stakes d)"
  let ?legs = "map (\<lambda>x. \<lparr> rl_user = sr_user x, rl_lamports = sr_lamports x \<rparr>) ?rows"
  have wf1: "db_wf d1" using consumeReservations_conserves [OF stake_invD(1) [OF inv] consume]
    by (simp add: conserves_def)
  note led = consumed_ledger [OF inv fresh names consume]
  have c1: "tot = sum_list (map sr_lamports ?rows)"
    "map (\<lambda>a. (pa_id a, pa_balance a, pa_reserved a)) (pools d1) =
      map (\<lambda>a. (pa_id a, pa_balance a - due a ?rows + (if pa_id a = eid then tot else 0),
                 pa_reserved a - due a ?rows)) (pools d)"
    using consume_outcomes [OF inv consume] by blast+
  have ex: "pools d1 = (if ?rows = [] then pools d
      else map (\<lambda>a. if pa_id a = eid then setBalance (pa_balance a + tot) a else take_rows ?rows a) (pools d))"
    using consumeReservations_exact [OF inv consume] by blast
  define f where "f a = (if ?rows = [] then a else if pa_id a = eid then setBalance (pa_balance a + tot) a
      else take_rows ?rows a)" for a
  have f: "pools d1 = map f (pools d)" using ex by (cases "?rows = []") (simp_all add: f_def [abs_def])
  have fo: "pa_owner (f a) = pa_owner a" "pa_id (f a) = pa_id a" for a by (simp_all add: f_def)
  have own: "pa_owner ` set (pools d1) = pa_owner ` set (pools d)" by (simp add: f image_image fo)
  have kn: "all_known ?legs d1"
    using stake_invD(3) [OF inv] by (auto simp: all_known_def own covered_def)
  have c2: "cr_refunds r = ?legs" "cr_totalLamports r = sum_list (map rl_lamports (cr_refunds r))"
    "map (\<lambda>a. (pa_id a, pa_balance a, pa_reserved a)) (pools d2) =
       map (\<lambda>a. (pa_id a, pa_balance a + owed_to a (cr_refunds r) -
              (if pa_id a = eid then cr_totalLamports r else 0), pa_reserved a)) (pools d1)"
    using cancel_effects [OF wf1 cancel escrow(1)] kn led(1) escrow(2) by auto
  have tot: "cr_totalLamports r = tot" by (simp add: c1(1) c2 comp_def)
  have "map (\<lambda>a. (pa_id a, pa_balance a)) (pools d2) =
      map (\<lambda>a. (pa_id a, pa_balance a + due a ?rows - (if pa_id a = eid then tot else 0))) (pools d1)"
    using arg_cong [OF c2(3), of "map (\<lambda>(i, b, v). (i, b))"] by (simp add: comp_def c2(1) owed_to_rows tot)
  also have "\<dots> = map (\<lambda>a. (pa_id a, pa_balance a)) (pools d)"
  proof -
    have "(pa_balance (f a) + due (f a) ?rows - (if pa_id a = eid then tot else 0)) = pa_balance a"
      if a: "a \<in> set (pools d)" for a
    proof -
      have d: "due (f a) ?rows = due a ?rows" by (rule due_owner) (rule fo)
      have "map (\<lambda>x. (pa_balance (f x))) (pools d) =
          map (\<lambda>x. pa_balance x - due x ?rows + (if pa_id x = eid then tot else 0)) (pools d)"
        using arg_cong [OF c1(2), of "map (\<lambda>(i, b, v). b)"] by (simp add: comp_def f)
      then have "pa_balance (f a) = pa_balance a - due a ?rows + (if pa_id a = eid then tot else 0)"
        using a by (simp add: map_eq_conv)
      with d show ?thesis by simp
    qed
    then show ?thesis by (simp add: f comp_def fo)
  qed
  finally show ?thesis using tot c2(1) by simp
qed

section \<open>A match that starts and is cancelled\<close>

definition sample_game :: "string \<Rightarrow> game_status \<Rightarrow> int \<Rightarrow> nat \<Rightarrow> game_row" where
  "sample_game gid st pot bps = \<lparr> g_id = gid, g_status = st, g_nodeId = ''n1'', g_pot = pot, g_rake = 0,
     g_payout = 0, g_settlementSignature = None, g_settlementStatus = NOT_REQUIRED,
     g_settlementAttempts = 0, g_settlementError = None, g_endedAt = None, g_rakeBps = bps,
     g_mode = ''WAGER'' \<rparr>"

definition match_db :: db where
  "match_db = staked_db\<lparr>games := [sample_game ''g1'' PENDING 60 500]\<rparr>"

lemma match_db_inv [simp]: "stake_inv match_db"
proof -
  have "stake_inv (staked_db\<lparr>games := gs\<rparr>) = stake_inv staked_db" for gs
    by (simp add: stake_inv_def db_wf_def covered_def)
  then show ?thesis by (simp add: match_db_def)
qed

text \<open>The database after both stakes of the match were consumed.\<close>

definition started_tx :: "string \<Rightarrow> string \<Rightarrow> tx_direction \<Rightarrow> int \<Rightarrow> string \<Rightarrow> string \<Rightarrow> string \<Rightarrow> ledger_tx" where
  "started_tx i grp dir after u pool key = \<lparr> tx_id = i, tx_group = grp, tx_type = ENTRY_FEE, tx_direction = dir,
     tx_status = POSTED, tx_amount = 30, tx_balanceAfter = after, tx_user = Some u, tx_pool = pool,
     tx_game = Some ''g1'', tx_deposit = None, tx_withdrawal = None, tx_reward = None, tx_key = key,
     tx_description = Some ''Entry fee for gold'' \<rparr>"

lemmas match_eval = match_db_def staked_db_def sample_game_def consumeReservations_def consumeRow_def
  stake_eval stake_leg_def stake_key_def txCreateMany.simps txCreate_def setBalance_def

definition started_db :: db where
  "started_db = match_db\<lparr>drawn := 6, stakes := [],
     pools := [sample_account ''x'' EXTERNAL ''external'' None None (-100) 0,
       sample_account ''r'' RAKE_POOL ''rake'' None None 0 0,
       (sample_account ''a'' USER_CUSTODY ''custody:ann'' (Some ''ann'') None 30 0)\<lparr>pa_version := 1\<rparr>,
       (sample_account ''b'' USER_CUSTODY ''custody:bob'' (Some ''bob'') None 10 0)\<lparr>pa_version := 1\<rparr>,
       (sample_account ''e'' GAME_ESCROW ''escrow:g1'' None (Some ''g1'') 60 0)\<lparr>pa_version := 1\<rparr>],
     txs := [started_tx ''1'' ''0'' DEBIT 30 ''ann'' ''a'' ''stake:g1:ann'',
       started_tx ''2'' ''0'' CREDIT 30 ''ann'' ''e'' ''stake:g1:ann:escrow'',
       started_tx ''4'' ''3'' DEBIT 10 ''bob'' ''b'' ''stake:g1:bob'',
       started_tx ''5'' ''3'' CREDIT 60 ''bob'' ''e'' ''stake:g1:bob:escrow'']\<rparr>"

lemma match_starts: "consumeReservations ''gold'' ''g1'' ''e'' (Some 60) match_db = Inr ((2, 60), started_db)"
  by (simp add: match_eval started_db_def started_tx_def)

lemma started_db_wf [simp]: "db_wf started_db"
  by (simp add: started_db_def started_tx_def sample_account_def match_eval db_wf_def map_filter_simps)

lemma started_escrow: "poolByGame ''g1'' started_db =
    Some ((sample_account ''e'' GAME_ESCROW ''escrow:g1'' None (Some ''g1'') 60 0)\<lparr>pa_version := 1\<rparr>)"
  by (simp add: poolByGame_def started_db_def sample_account_def)

lemma started_owed:
  "owedLegs (refundedUsers ''g1'' ''e'' started_db) (stakedByUser ''g1'' ''e'' started_db) =
     [\<lparr> rl_user = ''ann'', rl_lamports = 30 \<rparr>, \<lparr> rl_user = ''bob'', rl_lamports = 30 \<rparr>]"
  by (simp add: refundedUsers_def stakedByUser_def is_stake_def started_db_def started_tx_def)

lemma match_cancelled: "\<exists>r d2. cancelGameAndRefund ''g1'' ''no show'' 7 (\<lambda>_. Inr ()) started_db = Inr (r, d2)"
proof -
  have g: "gameById ''g1'' started_db = Some (sample_game ''g1'' PENDING 60 500)"
    by (simp add: gameById_def started_db_def match_db_def sample_game_def)
  have p: "paidOut ''g1'' started_db = None" by (simp add: paidOut_def started_db_def started_tx_def)
  show ?thesis
    unfolding cancelGameAndRefund_def started_escrow g
    by (simp add: p started_owed sample_account_def Let_def sample_game_def,
        simp add: refundLeg_def getCustodyAccount_def refund_tx_def refund_key_def
        cancelRow_def gameUpdate_def gameById_def started_db_def started_tx_def match_eval)
qed

theorem consume_cancel_roundtrip_witness:
  "\<exists>r d2. cancelGameAndRefund ''g1'' ''no show'' 7 (\<lambda>_. Inr ()) started_db = Inr (r, d2) \<and>
     map (\<lambda>a. (pa_id a, pa_balance a)) (pools d2) = map (\<lambda>a. (pa_id a, pa_balance a)) (pools match_db)"
proof -
  obtain r d2 where c: "cancelGameAndRefund ''g1'' ''no show'' 7 (\<lambda>_. Inr ()) started_db = Inr (r, d2)"
    using match_cancelled by blast
  have "\<forall>t \<in> set (txs match_db). tx_game t \<noteq> Some ''g1''" "\<forall>r \<in> set (stakes match_db). sr_user r \<noteq> []"
    by (simp_all add: match_eval)
  from consume_cancel_roundtrip [OF match_db_inv this match_starts started_escrow _ c] c show ?thesis
    by (simp add: sample_account_def)
qed


theorem cancel_idempotent_witness:
  "\<exists>r d2 r2 d3. cancelGameAndRefund ''g1'' ''no show'' 7 (\<lambda>_. Inr ()) started_db = Inr (r, d2) \<and>
     cancelGameAndRefund ''g1'' ''again'' 8 (\<lambda>_. Inr ()) d2 = Inr (r2, d3) \<and> cr_refunds r2 = [] \<and> txs d3 = txs d2"
proof -
  obtain r d2 where c: "cancelGameAndRefund ''g1'' ''no show'' 7 (\<lambda>_. Inr ()) started_db = Inr (r, d2)"
    using match_cancelled by blast
  have "all_known (owedLegs (refundedUsers ''g1'' ''e'' started_db) (stakedByUser ''g1'' ''e'' started_db)) started_db"
    unfolding started_owed by (simp add: all_known_def started_db_def sample_account_def)
  with cancel_idempotent [OF started_db_wf c started_escrow, of "''again''" 8] c show ?thesis
    by (simp add: sample_account_def) blast
qed

theorem cancel_refusals_witness:
  "cancelGameAndRefund ''g1'' ''late'' 7 (\<lambda>_. Inr ()) (started_db\<lparr>games := [sample_game ''g1'' COMPLETED 60 500]\<rparr>) =
     Inl (GameAlreadySettled ''g1'')"
proof -
  have "gameById ''g1'' (started_db\<lparr>games := [sample_game ''g1'' COMPLETED 60 500]\<rparr>) = Some (sample_game ''g1'' COMPLETED 60 500)"
    and "g_status (sample_game ''g1'' COMPLETED 60 500) = COMPLETED"
    by (simp_all add: gameById_def sample_game_def)
  with cancel_refusals show ?thesis by blast
qed

end
