(* ===== verification/Payout.thy ===== *)
theory Payout
  imports Prelude Complex_Main
begin

text \<open>
  Verifying a reported result and splitting the pot (\<open>apps/worker/src/settlement/verify.ts\<close> and
  \<open>payout.ts\<close>). A report is parsed JSON, so its numbers are finite (rational) or, for a literal too
  large for a double, infinite; \<open>NaN\<close> cannot be written in JSON. The stable sorts of the code are
  \<open>sort_key\<close>; a \<open>Set\<close> keeps the order of first insertion.
\<close>

section \<open>Numbers of a report\<close>

datatype js_number = NegInf | Finite rat | PosInf

definition isFinite :: "js_number \<Rightarrow> bool" where
  "isFinite x = (case x of Finite _ \<Rightarrow> True | _ \<Rightarrow> False)"

instantiation js_number :: linorder
begin

fun less_eq_js_number :: "js_number \<Rightarrow> js_number \<Rightarrow> bool" where
  "less_eq_js_number NegInf _ = True"
| "less_eq_js_number (Finite x) NegInf = False"
| "less_eq_js_number (Finite x) (Finite y) = (x \<le> y)"
| "less_eq_js_number (Finite x) PosInf = True"
| "less_eq_js_number PosInf y = (y = PosInf)"

definition less_js_number :: "js_number \<Rightarrow> js_number \<Rightarrow> bool" where
  "less_js_number x y \<longleftrightarrow> x \<le> y \<and> \<not> y \<le> x"

instance
proof
  fix x y z :: js_number
  show "x < y \<longleftrightarrow> x \<le> y \<and> \<not> y \<le> x" by (rule less_js_number_def)
  show "x \<le> x" by (cases x) auto
  show "x \<le> y \<Longrightarrow> y \<le> z \<Longrightarrow> x \<le> z" by (cases x; cases y; cases z) auto
  show "x \<le> y \<Longrightarrow> y \<le> x \<Longrightarrow> x = y" by (cases x; cases y) auto
  show "x \<le> y \<or> y \<le> x" by (cases x; cases y) auto
qed

end

definition negative :: "js_number \<Rightarrow> bool" where
  "negative x \<longleftrightarrow> x < Finite 0"

section \<open>Reports\<close>

record reported_standing =
  st_player :: string
  st_placement :: js_number
  st_score :: js_number
  st_kills :: js_number
  st_survivedMs :: js_number

record match_report =
  mr_gameId :: string
  mr_roomId :: string
  mr_nodeId :: string
  mr_standings :: "reported_standing list"
  mr_endedAtMs :: js_number

datatype verification_failure =
  NoStandings | UnknownPlayer | MissingPlayer | DuplicatePlayer | InvalidPlacement | NegativeMetric
| WrongGame | WrongNode

record verified_result =
  vr_ok :: bool
  vr_failures :: "verification_failure list"
  vr_standings :: "reported_standing list"

record verification_context =
  vc_gameId :: string
  vc_entrants :: "string list"
  vc_expectedNodeId :: "string option"

definition bad_metric :: "reported_standing \<Rightarrow> bool" where
  "bad_metric s \<longleftrightarrow> \<not> isFinite (st_score s) \<or> negative (st_score s) \<or>
     \<not> isFinite (st_kills s) \<or> negative (st_kills s) \<or>
     \<not> isFinite (st_survivedMs s) \<or> negative (st_survivedMs s)"

text \<open>The loop over the standings, with the players seen so far.\<close>

fun checkStandings :: "string list \<Rightarrow> string list \<Rightarrow> reported_standing list \<Rightarrow> verification_failure list" where
  "checkStandings entrants seen [] = []"
| "checkStandings entrants seen (s # ss) =
    (if st_player s \<in> set seen then [DuplicatePlayer] else []) @
    (if st_player s \<notin> set entrants then [UnknownPlayer] else []) @
    (if bad_metric s then [NegativeMetric] else []) @
    checkStandings entrants (st_player s # seen) ss"

text \<open>The placements, sorted, against 1, 2, ...: one failure at the first mismatch.\<close>

fun checkPlacements :: "nat \<Rightarrow> js_number list \<Rightarrow> verification_failure list" where
  "checkPlacements i [] = []"
| "checkPlacements i (p # ps) =
    (if p \<noteq> Finite (of_nat (i + 1)) then [InvalidPlacement] else checkPlacements (i + 1) ps)"

text \<open>\<open>[...new Set(xs)]\<close>.\<close>

definition uniq :: "'a list \<Rightarrow> 'a list" where
  "uniq xs = rev (remdups (rev xs))"

definition sortStandings :: "reported_standing list \<Rightarrow> reported_standing list" where
  "sortStandings ss = sort_key st_placement ss"

definition verifyResult :: "match_report \<Rightarrow> verification_context \<Rightarrow> verified_result" where
  "verifyResult report context =
    (let f1 = (if mr_gameId report \<noteq> vc_gameId context then [WrongGame] else []);
         f2 = f1 @ (case vc_expectedNodeId context of
                      None \<Rightarrow> []
                    | Some n \<Rightarrow> if n \<noteq> [] \<and> mr_nodeId report \<noteq> n then [WrongNode] else [])
     in if mr_standings report = [] then
          \<lparr> vr_ok = False, vr_failures = f2 @ [NoStandings], vr_standings = [] \<rparr>
        else
          (let entrants = uniq (vc_entrants context);
               seen = map st_player (mr_standings report);
               f3 = f2 @ checkStandings entrants [] (mr_standings report);
               f4 = f3 @ map (\<lambda>_. MissingPlayer) (filter (\<lambda>e. e \<notin> set seen) entrants);
               f5 = f4 @ checkPlacements 0 (sort (map st_placement (mr_standings report)));
               unique = uniq f5
           in if unique \<noteq> [] then \<lparr> vr_ok = False, vr_failures = unique, vr_standings = [] \<rparr>
              else \<lparr> vr_ok = True, vr_failures = [], vr_standings = sortStandings (mr_standings report) \<rparr>))"

definition detectWinner :: "verified_result \<Rightarrow> reported_standing option" where
  "detectWinner r =
    (if \<not> vr_ok r then None else find (\<lambda>s. st_placement s = Finite 1) (vr_standings r))"

fun describeFailure :: "verification_failure \<Rightarrow> string" where
  "describeFailure NoStandings = ''The report contained no standings''"
| "describeFailure UnknownPlayer = ''A reported player never entered this game''"
| "describeFailure MissingPlayer = ''An entrant is missing from the report''"
| "describeFailure DuplicatePlayer = ''A player appears more than once''"
| "describeFailure InvalidPlacement = ''Placements are not a gapless 1..N sequence''"
| "describeFailure NegativeMetric = ''A score, kill count or duration was negative or non-finite''"
| "describeFailure WrongGame = ''The report is for a different game''"
| "describeFailure WrongNode = ''The report came from a node that did not host this game''"

section \<open>Prize splitting\<close>

record payout_share =
  ps_player :: string
  ps_placement :: js_number
  ps_lamports :: int

definition WINNER_SHARE_BPS :: nat where
  "WINNER_SHARE_BPS = 10000"

definition BPS_DENOMINATOR :: int where
  "BPS_DENOMINATOR = 10000"

definition tableFor :: "nat \<Rightarrow> nat list" where
  "tableFor playerCount = [WINNER_SHARE_BPS]"

text \<open>The loop over the paid places: the shares, and what they allocate.\<close>

fun shareOut :: "int \<Rightarrow> reported_standing list \<Rightarrow> nat list \<Rightarrow> payout_share list \<times> int" where
  "shareOut pool [] shares = ([], 0)"
| "shareOut pool (s # ss) shares =
    (let bps = (case shares of [] \<Rightarrow> 0 | b # _ \<Rightarrow> int b);
         amount = (pool * bps) sdiv BPS_DENOMINATOR
     in case shareOut pool ss (tl shares) of
          (payouts, allocated) \<Rightarrow>
            (\<lparr> ps_player = st_player s, ps_placement = st_placement s, ps_lamports = amount \<rparr> # payouts,
             amount + allocated))"

definition computePayouts :: "reported_standing list \<Rightarrow> int \<Rightarrow> payout_share list" where
  "computePayouts standings pool =
    (if standings = [] \<or> pool \<le> 0 then []
     else
       (let ordered = sortStandings standings;
            shares = tableFor (length ordered);
            paid = take (length shares) ordered
        in case shareOut pool paid shares of
             (payouts, allocated) \<Rightarrow>
               (let remainder = pool - allocated;
                    payouts' = (case payouts of
                                  [] \<Rightarrow> []
                                | p # ps \<Rightarrow> if remainder \<noteq> 0
                                            then p\<lparr>ps_lamports := ps_lamports p + remainder\<rparr> # ps
                                            else p # ps)
                in filter (\<lambda>p. 0 < ps_lamports p) payouts')))"

definition totalPayout :: "payout_share list \<Rightarrow> int" where
  "totalPayout payouts = foldl (\<lambda>sum p. sum + ps_lamports p) 0 payouts"

definition splitPot :: "int \<Rightarrow> nat \<Rightarrow> int \<times> int" where
  "splitPot potLamports rakeBps =
    (let rake = (potLamports * int rakeBps) sdiv BPS_DENOMINATOR
     in (potLamports - rake, rake))"

definition MAX_WINNERS_PER_TX :: nat where
  "MAX_WINNERS_PER_TX = 8"

definition withinTransactionLimit :: "payout_share list \<Rightarrow> bool" where
  "withinTransactionLimit payouts \<longleftrightarrow> length payouts \<le> MAX_WINNERS_PER_TX"

section \<open>What verification means\<close>

lemma set_uniq [simp]: "set (uniq xs) = set xs"
  by (simp add: uniq_def)

lemma uniq_Nil [simp]: "uniq xs = [] \<longleftrightarrow> xs = []"
  by (simp add: uniq_def)

lemma distinct_uniq [simp]: "distinct (uniq xs)"
  by (simp add: uniq_def)

lemma checkStandings_Nil:
  "checkStandings entrants seen ss = [] \<longleftrightarrow>
     distinct (map st_player ss) \<and> set (map st_player ss) \<inter> set seen = {} \<and>
     set (map st_player ss) \<subseteq> set entrants \<and> (\<forall>s \<in> set ss. \<not> bad_metric s)"
  by (induction ss arbitrary: seen) auto

lemma checkStandings_set:
  "set (checkStandings entrants seen ss) =
     (if distinct (map st_player ss) \<and> set (map st_player ss) \<inter> set seen = {} then {} else {DuplicatePlayer}) \<union>
     (if set (map st_player ss) \<subseteq> set entrants then {} else {UnknownPlayer}) \<union>
     (if \<forall>s \<in> set ss. \<not> bad_metric s then {} else {NegativeMetric})"
  by (induction ss arbitrary: seen) auto

lemma checkPlacements_Nil:
  "checkPlacements i ps = [] \<longleftrightarrow> ps = map (\<lambda>k. Finite (of_nat k)) [Suc i..<Suc i + length ps]"
proof (induction ps arbitrary: i)
  case Nil
  then show ?case by simp
next
  case (Cons p ps)
  have u: "[Suc i..<Suc i + length (p # ps)] = Suc i # [Suc (Suc i)..<Suc (Suc i) + length ps]"
    by (simp add: upt_conv_Cons del: upt_Suc)
  show ?case unfolding u using Cons [of "Suc i"] by (simp del: upt_Suc)
qed

lemma checkPlacements_set:
  "set (checkPlacements i ps) = (if checkPlacements i ps = [] then {} else {InvalidPlacement})"
  by (induction ps arbitrary: i) auto

text \<open>The reference: what a correct report of this game is.\<close>

definition correct_report :: "match_report \<Rightarrow> verification_context \<Rightarrow> bool" where
  "correct_report report context \<longleftrightarrow>
     mr_gameId report = vc_gameId context \<and>
     (\<forall>n. vc_expectedNodeId context = Some n \<and> n \<noteq> [] \<longrightarrow> mr_nodeId report = n) \<and>
     mr_standings report \<noteq> [] \<and> distinct (map st_player (mr_standings report)) \<and>
     set (map st_player (mr_standings report)) = set (vc_entrants context) \<and>
     (\<forall>s \<in> set (mr_standings report). \<not> bad_metric s) \<and>
     map st_placement (sortStandings (mr_standings report)) =
       map (\<lambda>k. Finite (of_nat k)) [1..<Suc (length (mr_standings report))]"

lemma sort_placements: "sort (map st_placement ss) = map st_placement (sortStandings ss)"
proof -
  have i: "map st_placement (insort_key st_placement s xs) = insort (st_placement s) (map st_placement xs)" for s xs
    by (induction xs) auto
  have "map st_placement (sort_key st_placement ss) = sort (map st_placement ss)"
    by (induction ss) (simp_all add: i)
  then show ?thesis by (simp add: sortStandings_def)
qed

lemma missing_Nil: "map (\<lambda>_. x) (filter P xs) = [] \<longleftrightarrow> (\<forall>e \<in> set xs. \<not> P e)"
  by (simp add: filter_empty_conv)

lemma verifyResult_ok: "vr_ok (verifyResult report context) \<longleftrightarrow> correct_report report context"
proof (cases "mr_standings report = []")
  case True
  then show ?thesis by (simp add: verifyResult_def correct_report_def Let_def)
next
  case False
  have pl: "checkPlacements 0 (sort (map st_placement (mr_standings report))) = [] \<longleftrightarrow>
      map st_placement (sortStandings (mr_standings report)) =
        map (\<lambda>k. Finite (of_nat k)) [1..<Suc (length (mr_standings report))]"
    by (simp add: checkPlacements_Nil sort_placements sortStandings_def del: upt_Suc)
  show ?thesis
    using False
    by (simp add: verifyResult_def Let_def correct_report_def checkStandings_Nil pl filter_empty_conv
        del: upt_Suc split: option.splits) blast
qed

lemma verifyResult_standings:
  "vr_ok (verifyResult report context) \<Longrightarrow>
     vr_standings (verifyResult report context) = sortStandings (mr_standings report) \<and>
     vr_failures (verifyResult report context) = []"
  by (auto simp: verifyResult_def Let_def split: if_splits)

lemma sortStandings_facts:
  "length (sortStandings ss) = length ss" "set (sortStandings ss) = set ss" "sortStandings ss = [] \<longleftrightarrow> ss = []"
proof -
  show l: "length (sortStandings ss) = length ss" and "set (sortStandings ss) = set ss"
    by (simp_all add: sortStandings_def)
  from l show "sortStandings ss = [] \<longleftrightarrow> ss = []" by (metis length_0_conv)
qed

lemma winner_first:
  assumes "correct_report report context"
  shows "st_placement (hd (sortStandings (mr_standings report))) = Finite 1"
    and "detectWinner (verifyResult report context) = Some (hd (sortStandings (mr_standings report)))"
proof -
  let ?ss = "sortStandings (mr_standings report)"
  have ok: "vr_ok (verifyResult report context)" using assms by (simp add: verifyResult_ok)
  have ne: "?ss \<noteq> []" using assms by (simp add: correct_report_def sortStandings_facts)
  have "map st_placement ?ss = map (\<lambda>k. Finite (of_nat k)) [1..<Suc (length ?ss)]"
    using assms by (simp add: correct_report_def sortStandings_facts del: upt_Suc)
  with ne show f: "st_placement (hd ?ss) = Finite 1"
    by (cases ?ss) (simp_all add: upt_conv_Cons del: upt_Suc)
  with ne show "detectWinner (verifyResult report context) = Some (hd ?ss)"
    using ok verifyResult_standings [OF ok] by (cases ?ss) (simp_all add: detectWinner_def)
qed

section \<open>What splitting means\<close>

lemma computePayouts_eq:
  assumes "standings \<noteq> []" and "0 < pool"
  shows "computePayouts standings pool =
    [\<lparr> ps_player = st_player (hd (sortStandings standings)),
       ps_placement = st_placement (hd (sortStandings standings)), ps_lamports = pool \<rparr>]"
proof -
  have "sortStandings standings \<noteq> []" using assms(1) by (simp add: sortStandings_facts)
  then obtain s ss where "sortStandings standings = s # ss" by (cases "sortStandings standings") auto
  then show ?thesis
    using assms by (simp add: computePayouts_def tableFor_def WINNER_SHARE_BPS_def BPS_DENOMINATOR_def)
qed

lemma computePayouts_Nil: "computePayouts standings pool = [] \<longleftrightarrow> standings = [] \<or> pool \<le> 0"
  using computePayouts_eq [of standings pool] by (cases "standings = [] \<or> pool \<le> 0") (auto simp: computePayouts_def)

lemma totalPayout_eq: "totalPayout ps = sum_list (map ps_lamports ps)"
proof -
  have "foldl (\<lambda>sum p. sum + ps_lamports p) a ps = a + sum_list (map ps_lamports ps)" for a
    by (induction ps arbitrary: a) simp_all
  then show ?thesis by (simp add: totalPayout_def)
qed

lemma splitPot_facts:
  assumes "splitPot pot bps = (prize, rake)" and "0 \<le> pot" and "bps \<le> 10000"
  shows "prize + rake = pot" and "0 \<le> rake" and "rake \<le> pot" and "0 \<le> prize"
    and "rake = pot * int bps div 10000"
proof -
  have r: "rake = pot * int bps sdiv 10000" and p: "prize = pot - rake"
    using assms(1) by (auto simp: splitPot_def Let_def BPS_DENOMINATOR_def)
  have b: "0 \<le> pot * int bps sdiv 10000" "pot * int bps sdiv 10000 \<le> pot"
    by (rule bps_share_bounds [OF assms(2)]; use assms(3) in simp)+
  show "prize + rake = pot" and "0 \<le> rake" and "rake \<le> pot" and "0 \<le> prize"
    using b unfolding r p by linarith+
  show "rake = pot * int bps div 10000" using assms(2) by (simp add: r)
qed

section \<open>Properties\<close>

text \<open>
  C37: verification accepts exactly the correct reports: the right game and node, everyone who paid
  and nobody else, each once, finite non-negative metrics, and placements that are a permutation
  of 1..N. An accepted result lists just the standings that were reported, ordered by place from one
  to N, and its winner is the first of them; a refused result lists none and has no winner.
\<close>

theorem verifyResult_correct:
  "(vr_ok (verifyResult report context) \<longleftrightarrow> correct_report report context) \<and>
   (if vr_ok (verifyResult report context)
    then distinct (vr_standings (verifyResult report context)) \<and>
      set (vr_standings (verifyResult report context)) = set (mr_standings report) \<and>
      map st_placement (vr_standings (verifyResult report context)) =
        map (\<lambda>k. Finite (of_nat k)) [1..<Suc (length (mr_standings report))]
    else vr_standings (verifyResult report context) = []) \<and>
   (case detectWinner (verifyResult report context) of
      None \<Rightarrow> \<not> vr_ok (verifyResult report context)
    | Some w \<Rightarrow> st_player w \<in> set (vc_entrants context) \<and> st_placement w = Finite 1 \<and>
        w = hd (vr_standings (verifyResult report context)))"
proof (cases "vr_ok (verifyResult report context)")
  case True
  then have c: "correct_report report context" by (simp add: verifyResult_ok)
  have "hd (sortStandings (mr_standings report)) \<in> set (mr_standings report)"
    using c hd_in_set [of "sortStandings (mr_standings report)"]
    by (simp add: correct_report_def sortStandings_facts)
  then have "st_player (hd (sortStandings (mr_standings report))) \<in> set (vc_entrants context)"
    using c by (auto simp: correct_report_def)
  moreover have "set (sortStandings (mr_standings report)) = set (mr_standings report)"
    by (simp add: sortStandings_facts)
  moreover have "distinct (sortStandings (mr_standings report))"
  proof -
    have "distinct (mr_standings report)" using c by (simp add: correct_report_def distinct_map)
    then show ?thesis by (simp add: sortStandings_def)
  qed
  moreover have "map st_placement (sortStandings (mr_standings report)) =
      map (\<lambda>k. Finite (of_nat k)) [1..<Suc (length (mr_standings report))]"
    using c by (simp only: correct_report_def)
  ultimately show ?thesis
    using winner_first [OF c] verifyResult_standings [OF True] True by (simp add: verifyResult_ok [symmetric] del: upt_Suc)
next
  case False
  then have "vr_standings (verifyResult report context) = []"
    unfolding verifyResult_def Let_def by (simp only: split: if_splits) auto
  with False show ?thesis by (simp add: verifyResult_ok [symmetric] detectWinner_def)
qed

text \<open>
  verification reports every reason at once: each failure is listed exactly when its own check
  fails, none twice.
\<close>

theorem verifyResult_failures:
  assumes "mr_standings report \<noteq> []"
  shows "set (vr_failures (verifyResult report context)) =
      (if mr_gameId report = vc_gameId context then {} else {WrongGame}) \<union>
      (if \<forall>n. vc_expectedNodeId context = Some n \<and> n \<noteq> [] \<longrightarrow> mr_nodeId report = n then {} else {WrongNode}) \<union>
      (if distinct (map st_player (mr_standings report)) then {} else {DuplicatePlayer}) \<union>
      (if set (map st_player (mr_standings report)) \<subseteq> set (vc_entrants context) then {} else {UnknownPlayer}) \<union>
      (if \<forall>s \<in> set (mr_standings report). \<not> bad_metric s then {} else {NegativeMetric}) \<union>
      (if set (vc_entrants context) \<subseteq> set (map st_player (mr_standings report)) then {} else {MissingPlayer}) \<union>
      (if map st_placement (sortStandings (mr_standings report)) =
            map (\<lambda>k. Finite (of_nat k)) [1..<Suc (length (mr_standings report))]
       then {} else {InvalidPlacement}) \<and>
    distinct (vr_failures (verifyResult report context))"
proof (rule conjI)
  let ?ss = "mr_standings report"
  have pl: "checkPlacements 0 (sort (map st_placement ?ss)) = [] \<longleftrightarrow>
      map st_placement (sortStandings ?ss) = map (\<lambda>k. Finite (of_nat k)) [1..<Suc (length ?ss)]"
    by (simp add: checkPlacements_Nil sort_placements sortStandings_def del: upt_Suc)
  let ?f12 = "(if mr_gameId report \<noteq> vc_gameId context then [WrongGame] else []) @
      (case vc_expectedNodeId context of None \<Rightarrow> []
       | Some n \<Rightarrow> if n \<noteq> [] \<and> mr_nodeId report \<noteq> n then [WrongNode] else [])"
  let ?f5 = "?f12 @ checkStandings (uniq (vc_entrants context)) [] ?ss @
      map (\<lambda>_. MissingPlayer) (filter (\<lambda>e. e \<notin> set (map st_player ?ss)) (uniq (vc_entrants context))) @
      checkPlacements 0 (sort (map st_placement ?ss))"
  have vf: "vr_failures (verifyResult report context) = uniq ?f5"
    using assms by (simp add: verifyResult_def Let_def uniq_def)
  then show "distinct (vr_failures (verifyResult report context))" by simp
  have f1: "set (if mr_gameId report \<noteq> vc_gameId context then [WrongGame] else []) =
      (if mr_gameId report = vc_gameId context then {} else {WrongGame})" by simp
  have f2: "set (case vc_expectedNodeId context of None \<Rightarrow> []
       | Some n \<Rightarrow> if n \<noteq> [] \<and> mr_nodeId report \<noteq> n then [WrongNode] else []) = (if \<forall>n. vc_expectedNodeId context = Some n \<and> n \<noteq> [] \<longrightarrow> mr_nodeId report = n then {} else {WrongNode})"
    by (auto split: option.splits)
  have ms: "set (map (\<lambda>_. MissingPlayer) (filter (\<lambda>e. e \<notin> set (map st_player ?ss)) (uniq (vc_entrants context)))) =
      (if set (vc_entrants context) \<subseteq> set (map st_player ?ss) then {} else {MissingPlayer})"
    by auto
  show "set (vr_failures (verifyResult report context)) =
      (if mr_gameId report = vc_gameId context then {} else {WrongGame}) \<union>
      (if \<forall>n. vc_expectedNodeId context = Some n \<and> n \<noteq> [] \<longrightarrow> mr_nodeId report = n then {} else {WrongNode}) \<union>
      (if distinct (map st_player (mr_standings report)) then {} else {DuplicatePlayer}) \<union>
      (if set (map st_player (mr_standings report)) \<subseteq> set (vc_entrants context) then {} else {UnknownPlayer}) \<union>
      (if \<forall>s \<in> set (mr_standings report). \<not> bad_metric s then {} else {NegativeMetric}) \<union>
      (if set (vc_entrants context) \<subseteq> set (map st_player (mr_standings report)) then {} else {MissingPlayer}) \<union>
      (if map st_placement (sortStandings (mr_standings report)) =
            map (\<lambda>k. Finite (of_nat k)) [1..<Suc (length (mr_standings report))]
       then {} else {InvalidPlacement})"
    unfolding vf set_uniq set_append f1 f2 ms checkStandings_set checkPlacements_set pl
    by (simp add: Un_assoc del: upt_Suc)
qed

text \<open>
  C38: the prize pool is paid out to the lamport and to the winner alone: the shares sum to exactly
  the pool, which together with the rake is exactly the pot, every share is positive, the count is
  within the chain's limit, and the payee is the first-placed standing.
\<close>

theorem payouts_exact:
  assumes "splitPot pot bps = (prize, rake)" and "0 \<le> pot" and "bps \<le> 10000"
    and "standings \<noteq> []" and "0 < prize"
  shows "totalPayout (computePayouts standings prize) + rake = pot \<and> 0 \<le> rake \<and>
         withinTransactionLimit (computePayouts standings prize) \<and>
         map ps_player (computePayouts standings prize) = [st_player (hd (sortStandings standings))] \<and>
         (\<forall>s \<in> set standings. st_placement (hd (sortStandings standings)) \<le> st_placement s)"
proof -
  let ?ss = "sortStandings standings"
  have ne: "?ss \<noteq> []" using assms(4) by (simp add: sortStandings_facts)
  have "sorted (map st_placement ?ss)" by (simp add: sortStandings_def)
  with ne have "\<forall>s \<in> set ?ss. st_placement (hd ?ss) \<le> st_placement s"
    by (cases ?ss) auto
  then show ?thesis
    using splitPot_facts [OF assms(1-3)] computePayouts_eq [OF assms(4,5)]
    by (simp add: totalPayout_eq withinTransactionLimit_def MAX_WINNERS_PER_TX_def sortStandings_facts)
qed

definition sample_standing :: "string \<Rightarrow> rat \<Rightarrow> reported_standing" where
  "sample_standing p n = \<lparr> st_player = p, st_placement = Finite n, st_score = Finite 10,
     st_kills = Finite 0, st_survivedMs = Finite 1000 \<rparr>"

theorem payouts_exact_witness:
  "totalPayout (computePayouts [sample_standing ''bob'' 2, sample_standing ''ann'' 1] 57) + 3 = 60"
  using payouts_exact [of 60 500 57 3 "[sample_standing ''bob'' 2, sample_standing ''ann'' 1]"]
  by (simp add: splitPot_def BPS_DENOMINATOR_def)

theorem verifyResult_failures_witness:
  "set (vr_failures (verifyResult
     \<lparr> mr_gameId = ''g'', mr_roomId = ''r'', mr_nodeId = ''n'', mr_standings = [sample_standing ''bob'' 1],
       mr_endedAtMs = Finite 0 \<rparr>
     \<lparr> vc_gameId = ''g'', vc_entrants = [''ann''], vc_expectedNodeId = None \<rparr>)) = {UnknownPlayer, MissingPlayer}"
  by (subst conjunct1 [OF verifyResult_failures])
     (simp_all add: sample_standing_def bad_metric_def isFinite_def negative_def less_js_number_def
        sortStandings_def insert_commute)

end
