(* ===== verification/Text_Format.thy ===== *)
theory Text_Format
  imports Prelude
begin

text \<open>
  What the program does with text, shared by its components: \<open>Array.join\<close> and \<open>String.split\<close> on
  newlines, zero padding, and \<open>Date.toISOString\<close> for the years that take four digits. A date is its
  number of milliseconds since the epoch.
\<close>

section \<open>Joining and splitting\<close>

fun join_with :: "string \<Rightarrow> string list \<Rightarrow> string" where
  "join_with sep [] = []"
| "join_with sep [x] = x"
| "join_with sep (x # y # ys) = x @ sep @ join_with sep (y # ys)"

abbreviation newline :: char where
  "newline \<equiv> CHR 0x0A"

abbreviation carriage_return :: char where
  "carriage_return \<equiv> CHR 0x0D"

fun split_lines :: "string \<Rightarrow> string list" where
  "split_lines [] = [[]]"
| "split_lines (c # cs) =
    (if c = newline then [] # split_lines cs
     else (case split_lines cs of [] \<Rightarrow> [[c]] | l # ls \<Rightarrow> (c # l) # ls))"

lemma split_lines_not_Nil [simp]: "split_lines s \<noteq> []"
  by (cases s) (auto split: list.split)

lemma split_lines_plain: "newline \<notin> set s \<Longrightarrow> split_lines s = [s]"
  by (induction s) auto

lemma split_lines_append:
  "newline \<notin> set s \<Longrightarrow> split_lines (s @ newline # t) = s # split_lines t"
  by (induction s) auto

text \<open>Splitting undoes joining, as long as no part holds a newline.\<close>

lemma split_join_lines:
  assumes "xs \<noteq> []" and "\<forall>x \<in> set xs. newline \<notin> set x"
  shows "split_lines (join_with [newline] xs) = xs"
  using assms
proof (induction "[newline]" xs rule: join_with.induct)
  case (3 x y ys)
  then show ?case by (simp add: split_lines_append)
qed (simp_all add: split_lines_plain)

section \<open>Prefixes\<close>

fun strip_prefix :: "string \<Rightarrow> string \<Rightarrow> string option" where
  "strip_prefix [] s = Some s"
| "strip_prefix (p # ps) [] = None"
| "strip_prefix (p # ps) (c # cs) = (if p = c then strip_prefix ps cs else None)"

lemma strip_prefix_append [simp]: "strip_prefix p (p @ s) = Some s"
  by (induction p) auto

lemma strip_prefix_Some: "strip_prefix p s = Some r \<longleftrightarrow> s = p @ r"
  by (induction p s rule: strip_prefix.induct) auto

text \<open>A line the regular expression \<open>.+\<close> matches from end to end: not empty, no line terminator.\<close>

definition plain_line :: "string \<Rightarrow> bool" where
  "plain_line s \<longleftrightarrow> s \<noteq> [] \<and> newline \<notin> set s \<and> carriage_return \<notin> set s"

section \<open>Dates\<close>

definition pad :: "nat \<Rightarrow> nat \<Rightarrow> string" where
  "pad w n = replicate (w - length (show_nat n)) (digit 0) @ show_nat n"

definition isoDay :: "int \<Rightarrow> string" where
  "isoDay ms =
    (let z = ms div 86400000 + 719468;
         era = z div 146097;
         doe = z mod 146097;
         yoe = (doe - doe div 1460 + doe div 36524 - doe div 146096) div 365;
         doy = doe - (365 * yoe + yoe div 4 - yoe div 100);
         mp = (5 * doy + 2) div 153;
         day = doy - (153 * mp + 2) div 5 + 1;
         month = (if mp < 10 then mp + 3 else mp - 9);
         year = yoe + era * 400 + (if month \<le> 2 then 1 else 0)
     in pad 4 (nat year) @ ''-'' @ pad 2 (nat month) @ ''-'' @ pad 2 (nat day))"

definition toISOString :: "int \<Rightarrow> string" where
  "toISOString ms =
    (let t = nat (ms mod 86400000)
     in isoDay ms @ ''T'' @ pad 2 (t div 3600000) @ '':'' @ pad 2 (t div 60000 mod 60) @ '':'' @
        pad 2 (t div 1000 mod 60) @ ''.'' @ pad 3 (t mod 1000) @ ''Z'')"

section \<open>Decimal numerals\<close>

definition show_int :: "int \<Rightarrow> string" where
  "show_int n = (if n < 0 then CHR ''-'' # show_nat (nat (- n)) else show_nat (nat n))"

definition digit_value :: "char \<Rightarrow> nat option" where
  "digit_value c = (if 48 \<le> (of_char c :: nat) \<and> (of_char c :: nat) \<le> 57 then Some (of_char c - 48) else None)"

fun read_digits :: "nat \<Rightarrow> string \<Rightarrow> nat" where
  "read_digits n [] = n"
| "read_digits n (c # cs) = (case digit_value c of None \<Rightarrow> n | Some d \<Rightarrow> read_digits (n * 10 + d) cs)"

definition is_space :: "char \<Rightarrow> bool" where
  "is_space c \<longleftrightarrow> (of_char c :: nat) \<in> {9, 10, 11, 12, 13, 32, 160}"

text \<open>\<open>Number.parseInt(s, 10)\<close>: white space, a sign, the digits there are; no digit gives \<open>NaN\<close>.\<close>

definition parseInt10 :: "string \<Rightarrow> int option" where
  "parseInt10 s =
    (let t = dropWhile is_space s;
         neg = (t \<noteq> [] \<and> hd t = CHR ''-'');
         u = (if t \<noteq> [] \<and> (hd t = CHR ''-'' \<or> hd t = CHR ''+'') then tl t else t)
     in if u = [] \<or> digit_value (hd u) = None then None
        else Some (if neg then - int (read_digits 0 u) else int (read_digits 0 u)))"

lemma digit_value_digit: "n < 10 \<Longrightarrow> digit_value (digit n) = Some n"
  by (auto simp: digit_value_def digit_def numeral_eq_Suc less_Suc_eq)

lemma read_digits_append:
  assumes "\<forall>c \<in> set s. digit_value c \<noteq> None"
  shows "read_digits n (s @ t) = read_digits (read_digits n s) t"
  using assms by (induction s arbitrary: n) auto

lemma show_nat_digits: "\<forall>c \<in> set (show_nat n). digit_value c \<noteq> None"
proof (induction n rule: show_nat.induct)
  case (1 n)
  then show ?case by (subst show_nat.simps) (auto simp: digit_value_digit)
qed

lemma read_digits_show_nat: "read_digits 0 (show_nat n) = n"
proof (induction n rule: show_nat.induct)
  case (1 n)
  show ?case
  proof (cases "n < 10")
    case True
    then show ?thesis by (subst show_nat.simps) (simp add: digit_value_digit)
  next
    case False
    then show ?thesis
      using 1 by (subst show_nat.simps) (simp add: read_digits_append show_nat_digits digit_value_digit)
  qed
qed

text \<open>A natural number is read back from its decimal numeral.\<close>

lemma parseInt10_show_nat [simp]: "parseInt10 (show_nat n) = Some (int n)"
proof -
  have hd: "hd (show_nat n) \<in> set (show_nat n)" by simp
  then have d: "digit_value (hd (show_nat n)) \<noteq> None" using show_nat_digits by blast
  then have c: "48 \<le> (of_char (hd (show_nat n)) :: nat)" "of_char (hd (show_nat n)) \<le> (57::nat)"
    by (auto simp: digit_value_def split: if_splits)
  have w: "dropWhile is_space (show_nat n) = show_nat n"
    using c by (cases "show_nat n") (auto simp: is_space_def)
  have s: "hd (show_nat n) \<noteq> CHR ''-''" "hd (show_nat n) \<noteq> CHR ''+''" using c by auto
  show ?thesis by (simp add: parseInt10_def Let_def w s d read_digits_show_nat)
qed

end
