(* ===== verification/Settle.thy ===== *)
theory Settle
  imports Refund Payout Text_Format
begin

text \<open>
  The post-game pipeline (\<open>apps/worker/src/settlement/settle.ts\<close>): detect the winner, verify,
  persist, unlock and pay on chain, post the ledger, record and notify. \<open>settleGame\<close> is not one
  transaction: it returns what it returns or throws together with the database it leaves. The
  chain, Redis and the clock are the fields of \<open>settle_deps\<close>; \<open>sd_during\<close> is what other processes
  commit while the chain calls run.
\<close>

section \<open>What settlement depends on\<close>

text \<open>The payload under \<open>match:result:<gameId>\<close>: none, text that is not JSON, or a report.\<close>

datatype raw_result = Absent | NotJson | Parsed match_report

record settle_deps =
  sd_result :: "string \<Rightarrow> raw_result"
  sd_entryExists :: "string \<Rightarrow> string \<Rightarrow> bool"
  sd_vaultBalance :: "string \<Rightarrow> int option"
  sd_rentFloor :: "int option"
  sd_canSign :: bool
  sd_startRoom :: "string \<Rightarrow> (string, unit) res"
  sd_unlockPrize :: "string \<Rightarrow> (string, unit) res"
  sd_settleToWinner :: "string \<Rightarrow> string \<Rightarrow> string \<Rightarrow> (string, string) res"
  sd_feeDestination :: string
  sd_now :: int
  sd_during :: "db \<Rightarrow> db"

datatype settle_outcome =
  Settled string int int "string option"
| NoResult string
| Rejected "string list"
| AlreadySettled

record notification =
  no_gameId :: string
  no_winnerId :: string
  no_payouts :: "(string \<times> int) list"

definition resultKey :: "string \<Rightarrow> string" where
  "resultKey gid = ''match:result:'' @ gid"

section \<open>Errors of the chain\<close>

definition includesStr :: "string \<Rightarrow> string \<Rightarrow> bool" where
  "includesStr message part = sublist part message"

definition isAlreadyDone :: "string \<Rightarrow> bool" where
  "isAlreadyDone message \<longleftrightarrow> includesStr message ''PrizeNotUnlocked'' \<or>
     includesStr message ''RoomAlreadySettled'' \<or> includesStr message ''already in use''"

text \<open>The case-insensitive test that takes a room already started for started.\<close>

definition lower :: "char \<Rightarrow> char" where
  "lower c = (let n = of_char c :: nat in if 65 \<le> n \<and> n \<le> 90 then char_of (n + 32) else c)"

definition alreadyStarted :: "string \<Rightarrow> bool" where
  "alreadyStarted message \<longleftrightarrow>
     (let m = map lower message
      in includesStr m ''already'' \<or> includesStr m ''invalidroomstatus'' \<or> includesStr m ''roomnotopen'')"

section \<open>Wallets and entrants\<close>

definition resolveWallets :: "string list \<Rightarrow> db \<Rightarrow> string \<rightharpoonup> string" where
  "resolveWallets userIds d =
    (let rows = filter (\<lambda>w. w_user w \<in> set userIds \<and> w_verifiedAt w \<noteq> None) (wallets d);
         ordered = sort_key (\<lambda>w. \<not> w_primary w) (sort_key w_createdAt rows)
     in map_of (map (\<lambda>w. (w_user w, w_address w)) ordered))"

definition adoptEntrants :: "settle_deps \<Rightarrow> string \<Rightarrow> game_row \<Rightarrow> match_report \<Rightarrow> db
    \<Rightarrow> string list \<times> string option" where
  "adoptEntrants dep gid game report d =
    (let entrants = map gp_user (filter (\<lambda>p. gp_game p = gid) (gamePlayers d));
         expectedNodeId = Some (g_nodeId game)
     in if entrants = [] then
          (let reported = map st_player (mr_standings report);
               addresses = resolveWallets reported d;
               paid = filter (\<lambda>p. case addresses p of None \<Rightarrow> False
                                  | Some address \<Rightarrow> address \<noteq> [] \<and> sd_entryExists dep gid address) reported
           in if paid \<noteq> [] then (paid, Some (mr_nodeId report)) else (entrants, expectedNodeId))
        else (entrants, expectedNodeId))"

section \<open>Persisting the standings\<close>

text \<open>An \<open>Int\<close> column takes a 32-bit integer; the client refuses any other number.\<close>

definition prismaInt :: "js_number \<Rightarrow> (money_error, int) res" where
  "prismaInt x =
    (case x of
       Finite r \<Rightarrow> if of_int \<lfloor>r\<rfloor> = r \<and> - 2147483648 \<le> \<lfloor>r\<rfloor> \<and> \<lfloor>r\<rfloor> \<le> 2147483647 then Inr \<lfloor>r\<rfloor>
                   else Inl (RangeError ''Int'')
     | _ \<Rightarrow> Inl (RangeError ''Int''))"

definition standingRow :: "reported_standing \<Rightarrow> (money_error, game_player \<Rightarrow> game_player) res" where
  "standingRow s =
    rbind (prismaInt (st_placement s)) (\<lambda>placement.
      rbind (prismaInt (st_score s)) (\<lambda>score.
        rbind (prismaInt (st_kills s)) (\<lambda>kills.
          rbind (prismaInt (st_survivedMs s)) (\<lambda>survivedMs.
            Inr (\<lambda>p. p\<lparr>gp_placement := Some placement, gp_score := score, gp_kills := kills,
                       gp_survivedMs := survivedMs,
                       gp_result := (if st_placement s = Finite 1 then SURVIVED else ELIMINATED)\<rparr>)))))"

fun persistStandings :: "string \<Rightarrow> reported_standing list \<Rightarrow> db \<Rightarrow> unit act" where
  "persistStandings gid [] d = (Inr (), d)"
| "persistStandings gid (s # ss) d =
    (case standingRow s of
       Inl e \<Rightarrow> (Inl e, d)
     | Inr f \<Rightarrow> persistStandings gid ss
         (d\<lparr>gamePlayers := upd_rows (\<lambda>p. gp_game p = gid \<and> gp_user p = st_player s) f (gamePlayers d)\<rparr>))"

section \<open>Rewards and the ledger\<close>

definition num_floor :: "js_number \<Rightarrow> int" where
  "num_floor x = (case x of Finite r \<Rightarrow> \<lfloor>r\<rfloor> | _ \<Rightarrow> 0)"

definition payout_key :: "string \<Rightarrow> string \<Rightarrow> string" where
  "payout_key gid p = ''payout:'' @ gid @ '':'' @ p"

text \<open>A reward that is there already is left as it is.\<close>

fun createRewards :: "int \<Rightarrow> string \<Rightarrow> payout_share list \<Rightarrow> db \<Rightarrow> db" where
  "createRewards now gid [] d = d"
| "createRewards now gid (p # ps) d =
    (let key = payout_key gid (ps_player p)
     in createRewards now gid ps
          (if list_ex (\<lambda>r. rw_key r = key) (rewards d) then d
           else d\<lparr>rewards := rewards d @ [\<lparr> rw_user = ps_player p, rw_amount = ps_lamports p,
                    rw_game = Some gid, rw_key = key, rw_grantedAt = now,
                    rw_placement = num_floor (ps_placement p) \<rparr>]\<rparr>))"

definition settle_tx :: "string \<Rightarrow> tx_type \<Rightarrow> string \<Rightarrow> tx_direction \<Rightarrow> int \<Rightarrow> int \<Rightarrow> string option
    \<Rightarrow> string \<Rightarrow> string \<Rightarrow> string \<Rightarrow> ledger_tx" where
  "settle_tx gid ty grp dir amount after user pool key descr =
    \<lparr> tx_id = [], tx_group = grp, tx_type = ty, tx_direction = dir, tx_status = POSTED,
      tx_amount = amount, tx_balanceAfter = after, tx_user = user, tx_pool = pool, tx_game = Some gid,
      tx_deposit = None, tx_withdrawal = None, tx_reward = None, tx_key = key,
      tx_description = Some descr \<rparr>"

definition settle_key :: "string \<Rightarrow> string \<Rightarrow> string" where
  "settle_key gid p = ''settle:'' @ gid @ '':'' @ p"

definition settleLeg :: "string \<Rightarrow> pool_account \<Rightarrow> payout_share \<Rightarrow> int \<Rightarrow> db \<Rightarrow> int tx_run" where
  "settleLeg gid escrow payout escrowBalance d =
    (case poolByOwner (ps_player payout) d of
       None \<Rightarrow> Inr (escrowBalance, d)
     | Some custody \<Rightarrow>
         (let escrowBalance' = escrowBalance - ps_lamports payout;
              custodyAfter = pa_balance custody + ps_lamports payout
          in case randomUUID d of (entryGroupId, d1) \<Rightarrow>
            rbind (poolUpdate (pa_id custody) (pa_version custody) (setBalance custodyAfter) d1) (\<lambda>d2.
              rbind (txCreateMany
                [settle_tx gid PAYOUT entryGroupId DEBIT (ps_lamports payout) escrowBalance' None (pa_id escrow)
                   (settle_key gid (ps_player payout) @ '':escrow'') ''Prize pool payout'',
                 settle_tx gid PAYOUT entryGroupId CREDIT (ps_lamports payout) custodyAfter
                   (Some (ps_player payout)) (pa_id custody) (settle_key gid (ps_player payout)) ''Prize won''] d2)
                (\<lambda>d3. Inr (escrowBalance', d3)))))"

fun settleLegs :: "string \<Rightarrow> pool_account \<Rightarrow> payout_share list \<Rightarrow> int \<Rightarrow> db \<Rightarrow> int tx_run" where
  "settleLegs gid escrow [] eb d = Inr (eb, d)"
| "settleLegs gid escrow (p # ps) eb d =
    rbind (settleLeg gid escrow p eb d) (\<lambda>(eb1, d1). settleLegs gid escrow ps eb1 d1)"

definition settleRake :: "string \<Rightarrow> pool_account \<Rightarrow> int \<Rightarrow> int \<Rightarrow> db \<Rightarrow> int tx_run" where
  "settleRake gid escrow rake escrowBalance d =
    (if 0 < rake then
       (case poolByName ''rake'' d of
          None \<Rightarrow> Inr (escrowBalance, d)
        | Some rakeAccount \<Rightarrow>
            (let escrowBalance' = escrowBalance - rake;
                 rakeAfter = pa_balance rakeAccount + rake
             in case randomUUID d of (entryGroupId, d1) \<Rightarrow>
               rbind (poolUpdate (pa_id rakeAccount) (pa_version rakeAccount) (setBalance rakeAfter) d1) (\<lambda>d2.
                 rbind (txCreateMany
                   [settle_tx gid RAKE entryGroupId DEBIT rake escrowBalance' None (pa_id escrow)
                      (settle_key gid ''rake'' @ '':escrow'') ''Platform fee'',
                    settle_tx gid RAKE entryGroupId CREDIT rake rakeAfter None (pa_id rakeAccount)
                      (settle_key gid ''rake'') ''Platform fee''] d2)
                   (\<lambda>d3. Inr (escrowBalance', d3)))))
     else Inr (escrowBalance, d))"

definition settleTx :: "string \<Rightarrow> pool_account \<Rightarrow> payout_share list \<Rightarrow> int \<Rightarrow> db \<Rightarrow> unit tx_run" where
  "settleTx gid escrow payouts rake d =
    rbind (settleLegs gid escrow payouts (pa_balance escrow) d) (\<lambda>(eb1, d1).
      rbind (settleRake gid escrow rake eb1 d1) (\<lambda>(eb2, d2).
        rbind (poolUpdate (pa_id escrow) (pa_version escrow) (setBalance eb2) d2) (\<lambda>d3. Inr ((), d3))))"

definition escrow_name :: "string \<Rightarrow> string" where
  "escrow_name gid = ''escrow:'' @ gid"

definition payoutPosted :: "string \<Rightarrow> db \<Rightarrow> bool" where
  "payoutPosted gid d = list_ex (\<lambda>t. tx_game t = Some gid \<and> tx_type t = PAYOUT) (txs d)"

definition postSettlementLedger :: "string \<Rightarrow> payout_share list \<Rightarrow> int \<Rightarrow> db \<Rightarrow> unit act" where
  "postSettlementLedger gid payouts rake d =
    (case poolByName (escrow_name gid) d of
       None \<Rightarrow> (Inr (), d)
     | Some escrow \<Rightarrow>
         if payoutPosted gid d then (Inr (), d) else transaction (settleTx gid escrow payouts rake) d)"

text \<open>A write to the game's row that throws when the row is gone.\<close>

definition gameWrite :: "string \<Rightarrow> (game_row \<Rightarrow> game_row) \<Rightarrow> db \<Rightarrow> unit act" where
  "gameWrite gid f d = (case gameUpdate gid f d of Inl e \<Rightarrow> (Inl e, d) | Inr d' \<Rightarrow> (Inr (), d'))"

definition recordRewards :: "int \<Rightarrow> string \<Rightarrow> payout_share list \<Rightarrow> int \<Rightarrow> db \<Rightarrow> unit act" where
  "recordRewards now gid payouts rake d =
    act_bind (gameWrite gid (\<lambda>g. g\<lparr>g_payout := totalPayout payouts, g_rake := rake\<rparr>)
                (createRewards now gid payouts d))
      (\<lambda>_ d1. postSettlementLedger gid payouts rake d1)"

section \<open>Leaderboard\<close>

definition toBigInt :: "js_number \<Rightarrow> (money_error, int) res" where
  "toBigInt x =
    (case x of Finite r \<Rightarrow> if of_int \<lfloor>r\<rfloor> = r then Inr \<lfloor>r\<rfloor> else Inl (RangeError ''BigInt'')
     | _ \<Rightarrow> Inl (RangeError ''BigInt''))"

definition leaderboardRow :: "int \<Rightarrow> leaderboard_window \<Rightarrow> string \<Rightarrow> reported_standing \<Rightarrow> db \<Rightarrow> unit act" where
  "leaderboardRow now window period s d =
    (let P = (\<lambda>r. lb_window r = window \<and> lb_period r = period \<and> lb_user r = st_player s);
         isWin = (st_placement s = Finite 1)
     in case find P (leaderboard d) of
          Some existing \<Rightarrow>
            (case rbind (toBigInt (max (Finite (of_int (lb_score existing))) (st_score s))) (\<lambda>score.
                    rbind (prismaInt (st_kills s)) (\<lambda>kills.
                      rbind (prismaInt (Finite (of_int (lb_kills existing + kills)))) (\<lambda>k. Inr (score, k)))) of
               Inl e \<Rightarrow> (Inl e, d)
             | Inr (score, kills) \<Rightarrow>
                 (Inr (), d\<lparr>leaderboard := upd_rows P (\<lambda>r. r\<lparr>lb_score := score,
                    lb_gamesPlayed := lb_gamesPlayed existing + 1,
                    lb_wins := lb_wins existing + (if isWin then 1 else 0), lb_kills := kills,
                    lb_computedAt := now\<rparr>) (leaderboard d)\<rparr>))
        | None \<Rightarrow>
            (case rbind (toBigInt (st_score s)) (\<lambda>score.
                    rbind (prismaInt (st_kills s)) (\<lambda>kills. Inr (score, kills))) of
               Inl e \<Rightarrow> (Inl e, d)
             | Inr (score, kills) \<Rightarrow>
                 (Inr (), d\<lparr>leaderboard := leaderboard d @ [\<lparr> lb_window = window, lb_period = period,
                    lb_user = st_player s, lb_rank = 0, lb_score = score, lb_gamesPlayed = 1,
                    lb_wins = (if isWin then 1 else 0), lb_kills = kills, lb_computedAt = now \<rparr>]\<rparr>)))"

fun updateLeaderboard :: "int \<Rightarrow> reported_standing list \<Rightarrow> db \<Rightarrow> unit act" where
  "updateLeaderboard now [] d = (Inr (), d)"
| "updateLeaderboard now (s # ss) d =
    act_bind (leaderboardRow now DAILY (isoDay now) s d) (\<lambda>_ d1.
      act_bind (leaderboardRow now ALL_TIME ''all'' s d1) (\<lambda>_ d2. updateLeaderboard now ss d2))"

section \<open>Finishing\<close>

definition finishGame :: "int \<Rightarrow> string \<Rightarrow> settlement_status \<Rightarrow> string option \<Rightarrow> db \<Rightarrow> unit act" where
  "finishGame now gid st signature d =
    (let keep = (case signature of None \<Rightarrow> True | Some s \<Rightarrow> s = [])
     in if \<not> keep \<and> list_ex (\<lambda>g. g_id g \<noteq> gid \<and> g_settlementSignature g = signature) (games d)
        then (Inl (DbError (P2002 ''settlement_signature'')), d)
        else gameWrite gid (\<lambda>g. g\<lparr>g_status := COMPLETED, g_endedAt := Some now, g_settlementStatus := st,
               g_settlementSignature := (if keep then g_settlementSignature g else signature),
               g_settlementError := None\<rparr>) d)"

definition notifyPlayers :: "string \<Rightarrow> string \<Rightarrow> payout_share list \<Rightarrow> notification" where
  "notifyPlayers gid winnerId payouts =
    \<lparr> no_gameId = gid, no_winnerId = winnerId,
      no_payouts = map (\<lambda>p. (ps_player p, ps_lamports p)) payouts \<rparr>"

section \<open>The chain leg\<close>

text \<open>Start the room if nothing did, unlock the prize; \<open>None\<close> when nothing is to be thrown.\<close>

definition unlockOnChain :: "settle_deps \<Rightarrow> string \<Rightarrow> string option" where
  "unlockOnChain dep gid =
    (let result = (case sd_startRoom dep gid of
                     Inl m \<Rightarrow> if alreadyStarted m then sd_unlockPrize dep gid else Inl m
                   | Inr _ \<Rightarrow> sd_unlockPrize dep gid)
     in case result of
          Inr _ \<Rightarrow> None
        | Inl m \<Rightarrow> if isAlreadyDone m then None else Some m)"

datatype chain_leg = ChainPaid "string option" | NoWallet

definition failGame :: "string \<Rightarrow> string \<Rightarrow> db \<Rightarrow> unit act" where
  "failGame gid reason d =
    gameWrite gid (\<lambda>g. g\<lparr>g_settlementStatus := FAILED, g_settlementError := Some reason\<rparr>) d"

definition chainLeg :: "settle_deps \<Rightarrow> string \<Rightarrow> string \<Rightarrow> db \<Rightarrow> chain_leg act" where
  "chainLeg dep gid winnerId d =
    (if \<not> sd_canSign dep then (Inr (ChainPaid None), d)
     else
       (case unlockOnChain dep gid of
          Some m \<Rightarrow> (Inl (ChainError m), d)
        | None \<Rightarrow>
            (case resolveWallets [winnerId] d winnerId of
               None \<Rightarrow> act_bind (failGame gid ''winner has no wallet on record'' d) (\<lambda>_ d1. (Inr NoWallet, d1))
             | Some address \<Rightarrow>
                 if address = [] then
                   act_bind (failGame gid ''winner has no wallet on record'' d) (\<lambda>_ d1. (Inr NoWallet, d1))
                 else
                   (case sd_settleToWinner dep gid address (sd_feeDestination dep) of
                      Inr signature \<Rightarrow> (Inr (ChainPaid (Some signature)), d)
                    | Inl m \<Rightarrow>
                        if isAlreadyDone m then (Inr (ChainPaid None), d)
                        else act_bind (failGame gid m d) (\<lambda>_ d1. (Inl (ChainError m), d1))))))"

section \<open>The pot\<close>

text \<open>An empty vault behind a recorded pot means that the money has already gone.\<close>

definition vaultEmptied :: "settle_deps \<Rightarrow> string \<Rightarrow> game_row \<Rightarrow> bool" where
  "vaultEmptied dep gid game \<longleftrightarrow> 0 < g_pot game \<and> sd_canSign dep \<and>
     (let balance = (case sd_vaultBalance dep gid of None \<Rightarrow> -1 | Some b \<Rightarrow> b);
          rentFloor = (case sd_rentFloor dep of None \<Rightarrow> 0 | Some r \<Rightarrow> r)
      in 0 \<le> balance \<and> balance \<le> rentFloor)"

definition readPot :: "settle_deps \<Rightarrow> string \<Rightarrow> game_row \<Rightarrow> db \<Rightarrow> int act" where
  "readPot dep gid game d =
    (if g_pot game \<noteq> 0 then (Inr (g_pot game), d)
     else
       (let balance = (case sd_vaultBalance dep gid of None \<Rightarrow> 0 | Some b \<Rightarrow> b);
            rentFloor = (case sd_rentFloor dep of None \<Rightarrow> 0 | Some r \<Rightarrow> r)
        in if rentFloor < balance then
             (let pot = balance - rentFloor
              in act_bind (gameWrite gid (\<lambda>g. g\<lparr>g_pot := pot\<rparr>) d) (\<lambda>_ d1. (Inr pot, d1)))
           else (Inr 0, d)))"

section \<open>The pipeline\<close>

text \<open>From the pot on: split, pay, record, notify.\<close>

definition settleMoney :: "settle_deps \<Rightarrow> string \<Rightarrow> reported_standing list \<Rightarrow> string \<Rightarrow> nat \<Rightarrow> int \<Rightarrow> db
    \<Rightarrow> (settle_outcome \<times> notification list) act" where
  "settleMoney dep gid standings winnerId rakeBps pot d =
    (case splitPot pot rakeBps of (prizePool, rake) \<Rightarrow>
      let payouts = computePayouts standings prizePool
      in if pot = 0 \<or> payouts = [] then
           act_bind (finishGame (sd_now dep) gid NOT_REQUIRED None d) (\<lambda>_ d1.
             act_bind (updateLeaderboard (sd_now dep) standings d1) (\<lambda>_ d2.
               (Inr (Settled winnerId 0 0 None, [notifyPlayers gid winnerId []]), d2)))
         else if \<not> withinTransactionLimit payouts then
           (Inr (Rejected [''payout list exceeds the per-transaction winner cap''], []), d)
         else if totalPayout payouts \<noteq> prizePool then
           (Inr (Rejected [''payouts do not sum to the prize pool''], []), d)
         else
           act_bind (gameWrite gid (\<lambda>g. g\<lparr>g_settlementStatus := SETTLE_PENDING,
                        g_settlementAttempts := g_settlementAttempts g + 1\<rparr>) d) (\<lambda>_ d1.
             act_bind (chainLeg dep gid winnerId (sd_during dep d1)) (\<lambda>leg d2.
               case leg of
                 NoWallet \<Rightarrow> (Inr (Rejected [''a winner has no verified wallet on record''], []), d2)
               | ChainPaid signature \<Rightarrow>
                   act_bind (recordRewards (sd_now dep) gid payouts rake d2) (\<lambda>_ d3.
                     act_bind (updateLeaderboard (sd_now dep) standings d3) (\<lambda>_ d4.
                       act_bind (finishGame (sd_now dep) gid CONFIRMED signature d4) (\<lambda>_ d5.
                         (Inr (Settled winnerId prizePool rake signature,
                               [notifyPlayers gid winnerId payouts]), d5)))))))"

text \<open>From a verified result on.\<close>

definition settleVerified :: "settle_deps \<Rightarrow> string \<Rightarrow> game_row \<Rightarrow> verified_result \<Rightarrow> db
    \<Rightarrow> (settle_outcome \<times> notification list) act" where
  "settleVerified dep gid game verified d =
    (case detectWinner verified of
       None \<Rightarrow> (Inr (Rejected [''no winner in a verified result''], []), d)
     | Some winner \<Rightarrow>
         act_bind (persistStandings gid (vr_standings verified) d) (\<lambda>_ d1.
           if vaultEmptied dep gid game then
             act_bind (finishGame (sd_now dep) gid CONFIRMED None d1) (\<lambda>_ d2. (Inr (AlreadySettled, []), d2))
           else
             act_bind (readPot dep gid game d1) (\<lambda>pot d2.
               settleMoney dep gid (vr_standings verified) (st_player winner) (g_rakeBps game) pot d2)))"

definition settleGame :: "settle_deps \<Rightarrow> string \<Rightarrow> db \<Rightarrow> (settle_outcome \<times> notification list) act" where
  "settleGame dep gid d =
    (case gameById gid d of
       None \<Rightarrow> (Inr (NoResult ''game not found'', []), d)
     | Some game \<Rightarrow>
         if g_settlementStatus game = CONFIRMED then (Inr (AlreadySettled, []), d)
         else if g_status game = CANCELLED then
           (Inr (Rejected [''game was cancelled and its entry fees refunded''], []), d)
         else
           (case sd_result dep (resultKey gid) of
              Absent \<Rightarrow> (Inr (NoResult ''realtime node has not reported a result yet'', []), d)
            | NotJson \<Rightarrow> (Inr (Rejected [''result payload was not valid JSON''], []), d)
            | Parsed report \<Rightarrow>
                (case adoptEntrants dep gid game report d of (entrants, expectedNodeId) \<Rightarrow>
                  (let verified = verifyResult report
                         \<lparr> vc_gameId = gid, vc_entrants = entrants, vc_expectedNodeId = expectedNodeId \<rparr>
                   in if \<not> vr_ok verified then
                        (let reasons = map describeFailure (vr_failures verified)
                         in act_bind (failGame gid (join_with ''; '' reasons) d)
                              (\<lambda>_ d1. (Inr (Rejected reasons, []), d1)))
                      else settleVerified dep gid game verified d))))"

section \<open>The books are kept\<close>

lemma gameWrite_money: "same_money d (snd (gameWrite gid f d))"
  by (auto simp: gameWrite_def gameUpdate_def same_money_def)

lemma persistStandings_money: "same_money d (snd (persistStandings gid ss d))"
proof (induction ss arbitrary: d)
  case Nil
  then show ?case by simp
next
  case (Cons s ss)
  show ?case
  proof (cases "standingRow s")
    case (Inr f)
    let ?d = "d\<lparr>gamePlayers := upd_rows (\<lambda>p. gp_game p = gid \<and> gp_user p = st_player s) f (gamePlayers d)\<rparr>"
    have "same_money d ?d" by (simp add: same_money_def)
    with Inr Cons [of ?d] show ?thesis by (auto intro: same_money_trans)
  qed simp
qed

lemma createRewards_money: "same_money d (createRewards now gid ps d)"
proof (induction ps arbitrary: d)
  case Nil
  then show ?case by simp
next
  case (Cons p ps)
  from Cons [of d] Cons [of "d\<lparr>rewards := r\<rparr>" for r] show ?case
    by (auto simp: Let_def same_money_def)
qed

lemma leaderboardRow_money: "same_money d (snd (leaderboardRow now w period s d))"
  by (auto simp: leaderboardRow_def Let_def same_money_def split: option.split sum.split)

lemma updateLeaderboard_money: "same_money d (snd (updateLeaderboard now ss d))"
proof (induction ss arbitrary: d)
  case Nil
  then show ?case by simp
next
  case (Cons s ss)
  show ?case
    unfolding updateLeaderboard.simps
    by (intro same_money_bind leaderboardRow_money Cons)
qed

lemma finishGame_money: "same_money d (snd (finishGame now gid st sig d))"
  using gameWrite_money by (simp add: finishGame_def Let_def)

lemma failGame_money: "same_money d (snd (failGame gid m d))"
  by (simp add: failGame_def gameWrite_money)

lemma readPot_money: "same_money d (snd (readPot dep gid game d))"
  by (auto simp: readPot_def Let_def intro!: same_money_bind gameWrite_money)

lemma chainLeg_money: "same_money d (snd (chainLeg dep gid w d))"
  by (auto simp: chainLeg_def intro!: same_money_bind failGame_money split: option.split sum.split)

text \<open>One account is credited and two rows are posted that cancel out.\<close>

lemma credit_account:
  assumes wf: "db_wf d" and c: "c \<in> set (pools d)" and d1: "d1 = d\<lparr>drawn := Suc (drawn d)\<rparr>"
    and up: "poolUpdate (pa_id c) (pa_version c) (setBalance (pa_balance c + amount)) d1 = Inr d2"
    and tx: "txCreateMany [t, u] d2 = Inr d'" and tu: "signed t = - amount" "signed u = amount"
  shows "refund_step d eb d' (eb - amount)"
    and "pools d' = upd_rows (\<lambda>a. pa_id a = pa_id c) (setBalance (pa_balance c + amount)) (pools d)"
    and "\<exists>us. txs d' = txs d @ us \<and> list_all2 (\<lambda>t u. \<exists>i. u = t\<lparr>tx_id := i\<rparr>) [t, u] us"
proof -
  have wf1: "db_wf d1" using wf by (simp add: d1)
  have "c \<in> set (pools d1)" using c by (simp add: d1)
  from poolUpdate_ok [OF wf1 this, of "setBalance (pa_balance c + amount)"] up
  have d2: "d2 = d1\<lparr>pools := upd_rows (\<lambda>a. pa_id a = pa_id c) (setBalance (pa_balance c + amount)) (pools d1)\<rparr>"
    by simp
  have wf2: "db_wf d2" unfolding d2 by (rule db_wf_upd [OF wf1 versioned_set(1)])
  have l: "later (pools d) (pools d2)" using later_upd_rows [OF versioned_set(1)] by (simp add: d2 d1)
  have "poolTotal d2 = poolTotal d + amount"
    using sum_upd_key [of pa_id "pools d" c "pa_id c" pa_balance "setBalance (pa_balance c + amount)"] c wf
    by (simp add: d2 d1 poolTotal_def db_wf_def)
  with txCreateMany_facts [OF wf2 tx] l tu show "refund_step d eb d' (eb - amount)"
    by (simp add: refund_step_def d2 d1 ledgerNet_def)
  show "pools d' = upd_rows (\<lambda>a. pa_id a = pa_id c) (setBalance (pa_balance c + amount)) (pools d)"
    using txCreateMany_facts [OF wf2 tx] by (simp add: d2 d1)
  show "\<exists>us. txs d' = txs d @ us \<and> list_all2 (\<lambda>t u. \<exists>i. u = t\<lparr>tx_id := i\<rparr>) [t, u] us"
    using txCreateMany_rows [OF wf2 tx] by (simp add: d2 d1)
qed

lemma settleLeg_cases:
  assumes wf: "db_wf d" and run: "settleLeg gid escrow p eb d = Inr (eb', d')"
  obtains (skipped) "poolByOwner (ps_player p) d = None" and "eb' = eb" and "d' = d"
  | (paid) c us where "poolByOwner (ps_player p) d = Some c" and "c \<in> set (pools d)"
      and "eb' = eb - ps_lamports p" and "refund_step d eb d' eb'"
      and "pools d' = upd_rows (\<lambda>a. pa_id a = pa_id c) (setBalance (pa_balance c + ps_lamports p)) (pools d)"
      and "txs d' = txs d @ us" and "\<exists>t \<in> set us. tx_game t = Some gid \<and> tx_type t = PAYOUT \<and> tx_status t = POSTED"
proof (cases "poolByOwner (ps_player p) d")
  case None
  with run show thesis by (intro skipped) (simp_all add: settleLeg_def)
next
  case (Some c)
  then have c: "c \<in> set (pools d)" by (auto simp: poolByOwner_def dest: find_SomeD)
  from run Some obtain grp d1 d2 where d1: "d1 = d\<lparr>drawn := Suc (drawn d)\<rparr>"
    and up: "poolUpdate (pa_id c) (pa_version c) (setBalance (pa_balance c + ps_lamports p)) d1 = Inr d2"
    and tx: "txCreateMany
                [settle_tx gid PAYOUT grp DEBIT (ps_lamports p) (eb - ps_lamports p) None (pa_id escrow)
                   (settle_key gid (ps_player p) @ '':escrow'') ''Prize pool payout'',
                 settle_tx gid PAYOUT grp CREDIT (ps_lamports p) (pa_balance c + ps_lamports p)
                   (Some (ps_player p)) (pa_id c) (settle_key gid (ps_player p)) ''Prize won''] d2 = Inr d'"
    and eb': "eb' = eb - ps_lamports p"
    by (auto simp: settleLeg_def Let_def randomUUID_def elim!: rbindE)
  have r: "refund_step d eb d' eb'"
    unfolding eb' by (rule credit_account(1) [OF wf c d1 up tx]) (simp_all add: signed_def settle_tx_def)
  have p: "pools d' = upd_rows (\<lambda>a. pa_id a = pa_id c) (setBalance (pa_balance c + ps_lamports p)) (pools d)"
    by (rule credit_account(2) [OF wf c d1 up tx]) (simp_all add: signed_def settle_tx_def)
  obtain us where us: "txs d' = txs d @ us"
    "list_all2 (\<lambda>t u. \<exists>i. u = t\<lparr>tx_id := i\<rparr>)
       [settle_tx gid PAYOUT grp DEBIT (ps_lamports p) (eb - ps_lamports p) None (pa_id escrow)
          (settle_key gid (ps_player p) @ '':escrow'') ''Prize pool payout'',
        settle_tx gid PAYOUT grp CREDIT (ps_lamports p) (pa_balance c + ps_lamports p)
          (Some (ps_player p)) (pa_id c) (settle_key gid (ps_player p)) ''Prize won''] us"
    using credit_account(3) [OF wf c d1 up tx] by (auto simp: signed_def settle_tx_def)
  from us(2) have "\<exists>t \<in> set us. tx_game t = Some gid \<and> tx_type t = PAYOUT \<and> tx_status t = POSTED"
    by (auto simp: list_all2_Cons1 settle_tx_def)
  with Some c eb' r p us(1) show thesis by (rule paid)
qed

lemma settleLeg_step:
  assumes wf: "db_wf d" and run: "settleLeg gid escrow p eb d = Inr (eb', d')"
  shows "refund_step d eb d' eb'"
  using wf by (cases rule: settleLeg_cases [OF wf run]) (simp_all add: refund_step_refl)

lemma settleLegs_step:
  "db_wf d \<Longrightarrow> settleLegs gid escrow ps eb d = Inr (eb', d') \<Longrightarrow> refund_step d eb d' eb'"
proof (induction ps arbitrary: eb d)
  case Nil
  then show ?case by (simp add: refund_step_refl)
next
  case (Cons p ps)
  from Cons.prems(2) obtain eb1 d1 where r: "settleLeg gid escrow p eb d = Inr (eb1, d1)"
    "settleLegs gid escrow ps eb1 d1 = Inr (eb', d')" by (auto elim!: rbindE)
  note s = settleLeg_step [OF Cons.prems(1) r(1)]
  have "db_wf d1" using s by (simp add: refund_step_def)
  from refund_step_trans [OF s Cons.IH [OF this r(2)]] show ?case .
qed

lemma settleRake_cases:
  assumes wf: "db_wf d" and run: "settleRake gid escrow rake eb d = Inr (eb', d')"
  obtains (skipped) "rake \<le> 0 \<or> poolByName ''rake'' d = None" and "eb' = eb" and "d' = d"
  | (taken) c us where "0 < rake" and "poolByName ''rake'' d = Some c" and "c \<in> set (pools d)"
      and "eb' = eb - rake" and "refund_step d eb d' eb'"
      and "pools d' = upd_rows (\<lambda>a. pa_id a = pa_id c) (setBalance (pa_balance c + rake)) (pools d)"
      and "txs d' = txs d @ us" and "\<exists>t \<in> set us. tx_game t = Some gid \<and> tx_type t = RAKE \<and> tx_status t = POSTED"
proof (cases "0 < rake \<and> poolByName ''rake'' d \<noteq> None")
  case False
  with run show thesis by (intro skipped) (auto simp: settleRake_def split: if_splits)
next
  case True
  then obtain c where Some: "poolByName ''rake'' d = Some c" and pos: "0 < rake" by auto
  then have c: "c \<in> set (pools d)" by (auto simp: poolByName_def dest: find_SomeD)
  from run Some pos obtain grp d1 d2 where d1: "d1 = d\<lparr>drawn := Suc (drawn d)\<rparr>"
    and up: "poolUpdate (pa_id c) (pa_version c) (setBalance (pa_balance c + rake)) d1 = Inr d2"
    and tx: "txCreateMany
                   [settle_tx gid RAKE grp DEBIT rake (eb - rake) None (pa_id escrow)
                      (settle_key gid ''rake'' @ '':escrow'') ''Platform fee'',
                    settle_tx gid RAKE grp CREDIT rake (pa_balance c + rake) None (pa_id c)
                      (settle_key gid ''rake'') ''Platform fee''] d2 = Inr d'"
    and eb': "eb' = eb - rake"
    by (auto simp: settleRake_def Let_def randomUUID_def elim!: rbindE)
  have r: "refund_step d eb d' eb'"
    unfolding eb' by (rule credit_account(1) [OF wf c d1 up tx]) (simp_all add: signed_def settle_tx_def)
  have p: "pools d' = upd_rows (\<lambda>a. pa_id a = pa_id c) (setBalance (pa_balance c + rake)) (pools d)"
    by (rule credit_account(2) [OF wf c d1 up tx]) (simp_all add: signed_def settle_tx_def)
  obtain us where us: "txs d' = txs d @ us"
    "list_all2 (\<lambda>t u. \<exists>i. u = t\<lparr>tx_id := i\<rparr>)
       [settle_tx gid RAKE grp DEBIT rake (eb - rake) None (pa_id escrow)
          (settle_key gid ''rake'' @ '':escrow'') ''Platform fee'',
        settle_tx gid RAKE grp CREDIT rake (pa_balance c + rake) None (pa_id c)
          (settle_key gid ''rake'') ''Platform fee''] us"
    using credit_account(3) [OF wf c d1 up tx] by (auto simp: signed_def settle_tx_def)
  from us(2) have "\<exists>t \<in> set us. tx_game t = Some gid \<and> tx_type t = RAKE \<and> tx_status t = POSTED"
    by (auto simp: list_all2_Cons1 settle_tx_def)
  with pos Some c eb' r p us(1) show thesis by (rule taken)
qed

lemma settleRake_step:
  assumes wf: "db_wf d" and run: "settleRake gid escrow rake eb d = Inr (eb', d')"
  shows "refund_step d eb d' eb'"
  using wf by (cases rule: settleRake_cases [OF wf run]) (simp_all add: refund_step_refl)

lemma settleTx_Inr:
  assumes "settleTx gid escrow payouts rake d = Inr (r, d')"
  obtains eb1 d1 eb2 d2 where "settleLegs gid escrow payouts (pa_balance escrow) d = Inr (eb1, d1)"
    and "settleRake gid escrow rake eb1 d1 = Inr (eb2, d2)"
    and "poolUpdate (pa_id escrow) (pa_version escrow) (setBalance eb2) d2 = Inr d'"
  using assms by (auto simp: settleTx_def elim!: rbindE)

lemma settleTx_conserves:
  assumes wf: "db_wf d" and e: "escrow \<in> set (pools d)" and run: "settleTx gid escrow payouts rake d = Inr (r, d')"
  shows "conserves d d'"
proof -
  obtain eb1 d1 eb2 d2 where r1: "settleLegs gid escrow payouts (pa_balance escrow) d = Inr (eb1, d1)"
    and r2: "settleRake gid escrow rake eb1 d1 = Inr (eb2, d2)"
    and up: "poolUpdate (pa_id escrow) (pa_version escrow) (setBalance eb2) d2 = Inr d'"
    by (rule settleTx_Inr [OF run])
  note s1 = settleLegs_step [OF wf r1]
  have wf1: "db_wf d1" using s1 by (simp add: refund_step_def)
  from refund_step_trans [OF s1 settleRake_step [OF wf1 r2]]
  have s: "db_wf d2" "later (pools d) (pools d2)" "prefix (txs d) (txs d2)" "ledgerNet d2 = ledgerNet d"
    "poolTotal d2 + eb2 = poolTotal d + pa_balance escrow" by (simp_all add: refund_step_def)
  obtain x where x: "x \<in> set (pools d2)" "pa_id x = pa_id escrow" "pa_version x = pa_version escrow"
    and d': "d' = d2\<lparr>pools := upd_rows (\<lambda>a. pa_id a = pa_id escrow) (setBalance eb2) (pools d2)\<rparr>" "db_wf d'"
      "later (pools d2) (pools d')" "poolTotal d' = poolTotal d2 - pa_balance x + pa_balance (setBalance eb2 x)"
    by (rule poolUpdate_facts [OF s(1) versioned_set(1) up])
  have "x = escrow" using later_row [OF s(2) e _ x] s(1) by (simp add: db_wf_def)
  then show ?thesis using d' s by (simp add: conserves_def ledgerNet_def)
qed

interpretation settle_ledger: ledger_act "postSettlementLedger gid payouts rake" for gid payouts rake
proof unfold_locales
  fix d assume wf: "db_wf d"
  show "conserves d (snd (postSettlementLedger gid payouts rake d))"
  proof (cases "poolByName (escrow_name gid) d")
    case None
    with wf show ?thesis by (simp add: postSettlementLedger_def)
  next
    case (Some escrow)
    then have "escrow \<in> set (pools d)" by (auto simp: poolByName_def dest: find_SomeD)
    from settleTx_conserves [OF wf this] Some wf show ?thesis
      by (auto simp: postSettlementLedger_def transaction_def split: sum.split)
  qed
qed

text \<open>What the others commit during the chain calls, when they too keep the books.\<close>

definition fair_others :: "settle_deps \<Rightarrow> bool" where
  "fair_others dep \<longleftrightarrow> (\<forall>d. db_wf d \<longrightarrow> conserves d (sd_during dep d))"

lemma recordRewards_conserves: "db_wf d \<Longrightarrow> conserves d (snd (recordRewards now gid payouts rake d))"
  unfolding recordRewards_def
  by (rule act_bind_money [OF _ same_money_trans [OF createRewards_money gameWrite_money]])
     (auto intro: settle_ledger.act_conserves)

lemma settleMoney_conserves:
  assumes wf: "db_wf d" and fair: "fair_others dep"
  shows "conserves d (snd (settleMoney dep gid standings winnerId rakeBps pot d))"
proof (cases "splitPot pot rakeBps")
  case (Pair prizePool rake)
  let ?payouts = "computePayouts standings prizePool"
  have during: "conserves d1 (sd_during dep d1)" if "db_wf d1" for d1
    using fair that by (simp add: fair_others_def)
  have fin: "conserves d1 (snd (finishGame (sd_now dep) gid st sig d1))" if "db_wf d1" for st sig d1
    by (rule money_keeps [OF finishGame_money that])
  have lb: "conserves d1 (snd (updateLeaderboard (sd_now dep) standings d1))" if "db_wf d1" for d1
    by (rule money_keeps [OF updateLeaderboard_money that])
  have ch: "conserves d1 (snd (chainLeg dep gid winnerId (sd_during dep d1)))" if wf1: "db_wf d1" for d1
  proof -
    have "db_wf (sd_during dep d1)" using during [OF wf1] by (simp add: conserves_def)
    from conserves_trans [OF during [OF wf1] money_keeps [OF chainLeg_money this]] show ?thesis .
  qed
  have tail: "conserves d1 (snd (case leg of
                 NoWallet \<Rightarrow> (Inr (Rejected [''a winner has no verified wallet on record''], []), d1)
               | ChainPaid signature \<Rightarrow>
                   act_bind (recordRewards (sd_now dep) gid ?payouts rake d1) (\<lambda>_ d3.
                     act_bind (updateLeaderboard (sd_now dep) standings d3) (\<lambda>_ d4.
                       act_bind (finishGame (sd_now dep) gid CONFIRMED signature d4) (\<lambda>_ d5.
                         (Inr (Settled winnerId prizePool rake signature,
                               [notifyPlayers gid winnerId ?payouts]), d5))))))"
    if "db_wf d1" for d1 leg
    using that by (cases leg) (auto intro!: act_bind_keeps recordRewards_conserves lb fin)
  show ?thesis
    unfolding settleMoney_def Pair Let_def prod.case
    using wf
    by (auto intro!: act_bind_keeps [OF _ fin] act_bind_keeps [OF _ lb] act_bind_keeps [OF _ ch]
        act_bind_keeps [OF _ money_keeps [OF gameWrite_money]] tail)
qed

lemma settleGame_conserves:
  assumes wf: "db_wf d" and fair: "fair_others dep"
  shows "conserves d (snd (settleGame dep gid d))"
proof -
  have ver: "conserves d (snd (settleVerified dep gid game v d))" for game v
    unfolding settleVerified_def using wf
    by (auto intro!: act_bind_keeps [OF _ money_keeps [OF persistStandings_money]]
        act_bind_keeps [OF _ money_keeps [OF finishGame_money]] act_bind_keeps [OF _ money_keeps [OF readPot_money]]
        settleMoney_conserves [OF _ fair] split: option.split)
  show ?thesis
    unfolding settleGame_def Let_def using wf ver
    by (auto intro!: act_bind_keeps [OF _ money_keeps [OF failGame_money]] split: option.split raw_result.split prod.split)
qed

section \<open>What the settlement ledger does, exactly\<close>

text \<open>The escrow is the named one, and neither the winner's account nor the rake's.\<close>

lemma settleTx_error:
  assumes wf: "db_wf d" and run: "settleTx gid escrow payouts rake d = Inl e"
  shows "\<exists>x. e = DbError x"
proof -
  have up: "poolUpdate i v f d1 = Inl x \<Longrightarrow> \<exists>y. x = DbError y" for i v f d1 x
    by (auto simp: poolUpdate_def split: prod.splits if_splits)
  have tx: "txCreateMany ts d1 = Inl x \<Longrightarrow> \<exists>y. x = DbError y" for ts d1 x
    by (induction ts arbitrary: d1)
       (auto simp: txCreateMany.simps txCreate_def rbind_eq_Inl split: prod.splits if_splits)
  have leg: "settleLeg gid escrow p eb d1 = Inl x \<Longrightarrow> \<exists>y. x = DbError y" for p eb d1 x
    by (auto simp: settleLeg_def Let_def rbind_eq_Inl split: option.splits prod.splits dest: up tx)
  have legs: "settleLegs gid escrow ps eb d1 = Inl x \<Longrightarrow> \<exists>y. x = DbError y" for ps eb d1 x
    by (induction ps arbitrary: eb d1) (auto simp: rbind_eq_Inl dest: leg)
  have rk: "settleRake gid escrow rake eb d1 = Inl x \<Longrightarrow> \<exists>y. x = DbError y" for eb d1 x
    by (auto simp: settleRake_def Let_def rbind_eq_Inl split: option.splits prod.splits if_splits dest: up tx)
  from run show ?thesis
    by (auto simp: settleTx_def rbind_eq_Inl dest: up legs rk)
qed

section \<open>What a settled outcome means\<close>

lemma finishGame_Inr:
  assumes "finishGame now gid st sig d = (Inr u, d')"
  shows "\<exists>g. gameById gid d' = Some g \<and> g_status g = COMPLETED \<and> g_settlementStatus g = st"
proof -
  have "gameWrite gid f d = (Inr u, d') \<Longrightarrow> (\<And>g. g_id (f g) = g_id g) \<Longrightarrow>
      \<exists>g. gameById gid d' = Some (f g)" for f
  proof -
    assume w: "gameWrite gid f d = (Inr u, d')" and f: "\<And>g. g_id (f g) = g_id g"
    then obtain g0 where g0: "gameById gid d = Some g0"
      and d': "d' = d\<lparr>games := upd_rows (\<lambda>r. g_id r = gid) f (games d)\<rparr>"
      by (cases "gameById gid d") (auto simp: gameWrite_def gameUpdate_def)
    from g0 have "g_id g0 = gid" by (auto simp: gameById_def dest: find_SomeD)
    with g0 d' f show "\<exists>g. gameById gid d' = Some (f g)"
      by (auto simp: gameById_def find_upd_rows_same)
  qed
  note w = this
  define keep where "keep = (case sig of None \<Rightarrow> True | Some s \<Rightarrow> s = [])"
  define f where "f g = g\<lparr>g_status := COMPLETED, g_endedAt := Some now, g_settlementStatus := st,
               g_settlementSignature := (if keep then g_settlementSignature g else sig),
               g_settlementError := None\<rparr>" for g :: game_row
  have "finishGame now gid st sig d =
      (if \<not> keep \<and> list_ex (\<lambda>g. g_id g \<noteq> gid \<and> g_settlementSignature g = sig) (games d)
       then (Inl (DbError (P2002 ''settlement_signature'')), d) else gameWrite gid f d)"
    by (simp add: finishGame_def Let_def keep_def f_def [abs_def])
  with assms have "gameWrite gid f d = (Inr u, d')" by (simp split: if_splits)
  then obtain g where "gameById gid d' = Some (f g)" using w [of f] by (auto simp: f_def)
  then show ?thesis by (simp add: f_def)
qed

lemma settleMoney_Settled:
  assumes "settleMoney dep gid standings winnerId bps pot d = (Inr (Settled w prize rake sig, ns), d')"
    and "prize \<noteq> 0"
  obtains d2 d3 d4 where "w = winnerId" and "splitPot pot bps = (prize, rake)" and "pot \<noteq> 0"
    and "totalPayout (computePayouts standings prize) = prize"
    and "recordRewards (sd_now dep) gid (computePayouts standings prize) rake d2 = (Inr (), d3)"
    and "updateLeaderboard (sd_now dep) standings d3 = (Inr (), d4)"
    and "finishGame (sd_now dep) gid CONFIRMED sig d4 = (Inr (), d')"
    and "ns = [notifyPlayers gid winnerId (computePayouts standings prize)]"
proof -
  obtain pp rr where sp: "splitPot pot bps = (pp, rr)" by (cases "splitPot pot bps")
  show thesis
  proof (cases "pot = 0 \<or> computePayouts standings pp = []")
    case True
    with assms sp show thesis by (auto simp: settleMoney_def elim!: act_bindE)
  next
    case False
    then have ne: "pot \<noteq> 0" "computePayouts standings pp \<noteq> []" by auto
    from assms(1) sp ne have lim: "withinTransactionLimit (computePayouts standings pp)"
      "totalPayout (computePayouts standings pp) = pp"
      by (auto simp: settleMoney_def Let_def split: if_splits)
    from assms(1) have "act_bind (gameWrite gid (\<lambda>g. g\<lparr>g_settlementStatus := SETTLE_PENDING,
                        g_settlementAttempts := g_settlementAttempts g + 1\<rparr>) d) (\<lambda>_ d1.
             act_bind (chainLeg dep gid winnerId (sd_during dep d1)) (\<lambda>leg d2.
               case leg of
                 NoWallet \<Rightarrow> (Inr (Rejected [''a winner has no verified wallet on record''], []), d2)
               | ChainPaid signature \<Rightarrow>
                   act_bind (recordRewards (sd_now dep) gid (computePayouts standings pp) rr d2) (\<lambda>_ d3.
                     act_bind (updateLeaderboard (sd_now dep) standings d3) (\<lambda>_ d4.
                       act_bind (finishGame (sd_now dep) gid CONFIRMED signature d4) (\<lambda>_ d5.
                         (Inr (Settled winnerId pp rr signature,
                               [notifyPlayers gid winnerId (computePayouts standings pp)]), d5))))))
        = (Inr (Settled w prize rake sig, ns), d')"
      by (simp add: settleMoney_def sp ne lim Let_def)
    then obtain d1 leg d2 where ch: "chainLeg dep gid winnerId (sd_during dep d1) = (Inr leg, d2)"
      and k: "(case leg of
                 NoWallet \<Rightarrow> (Inr (Rejected [''a winner has no verified wallet on record''], []), d2)
               | ChainPaid signature \<Rightarrow>
                   act_bind (recordRewards (sd_now dep) gid (computePayouts standings pp) rr d2) (\<lambda>_ d3.
                     act_bind (updateLeaderboard (sd_now dep) standings d3) (\<lambda>_ d4.
                       act_bind (finishGame (sd_now dep) gid CONFIRMED signature d4) (\<lambda>_ d5.
                         (Inr (Settled winnerId pp rr signature,
                               [notifyPlayers gid winnerId (computePayouts standings pp)]), d5)))))
        = (Inr (Settled w prize rake sig, ns), d')"
      by (auto elim!: act_bindE)
    from k obtain signature where leg: "leg = ChainPaid signature" by (cases leg) auto
    from k [unfolded leg chain_leg.case] obtain d3 d4 where
      "recordRewards (sd_now dep) gid (computePayouts standings pp) rr d2 = (Inr (), d3)"
      "updateLeaderboard (sd_now dep) standings d3 = (Inr (), d4)"
      "finishGame (sd_now dep) gid CONFIRMED signature d4 = (Inr (), d')"
      "w = winnerId" "prize = pp" "rake = rr" "sig = signature"
      "ns = [notifyPlayers gid winnerId (computePayouts standings pp)]"
      by (auto elim!: act_bindE)
    with sp ne(1) lim(2) show thesis by (intro that [of d2 d3 d4]) auto
  qed
qed

lemma settleGame_Settled:
  assumes "settleGame dep gid d = (Inr (Settled w prize rake sig, ns), d')"
  obtains game report entrants node d1 pot d2 where "gameById gid d = Some game"
    and "g_settlementStatus game \<noteq> CONFIRMED" and "g_status game \<noteq> CANCELLED"
    and "sd_result dep (resultKey gid) = Parsed report"
    and "adoptEntrants dep gid game report d = (entrants, node)"
    and "correct_report report \<lparr> vc_gameId = gid, vc_entrants = entrants, vc_expectedNodeId = node \<rparr>"
    and "readPot dep gid game d1 = (Inr pot, d2)"
    and "settleMoney dep gid (sortStandings (mr_standings report))
           (st_player (hd (sortStandings (mr_standings report)))) (g_rakeBps game) pot d2
         = (Inr (Settled w prize rake sig, ns), d')"
proof -
  from assms obtain game where g: "gameById gid d = Some game" by (cases "gameById gid d") (auto simp: settleGame_def)
  with assms have st: "g_settlementStatus game \<noteq> CONFIRMED" "g_status game \<noteq> CANCELLED"
    by (auto simp: settleGame_def split: if_splits)
  from assms g st obtain report where rep: "sd_result dep (resultKey gid) = Parsed report"
    by (cases "sd_result dep (resultKey gid)") (auto simp: settleGame_def)
  obtain entrants node where ad: "adoptEntrants dep gid game report d = (entrants, node)"
    by (cases "adoptEntrants dep gid game report d")
  let ?ctx = "\<lparr> vc_gameId = gid, vc_entrants = entrants, vc_expectedNodeId = node \<rparr>"
  let ?v = "verifyResult report ?ctx"
  from assms g st rep ad have ok: "vr_ok ?v"
    by (auto simp: settleGame_def Let_def elim!: act_bindE split: if_splits)
  then have c: "correct_report report ?ctx" by (simp add: verifyResult_ok)
  from assms g st rep ad ok have "settleVerified dep gid game ?v d = (Inr (Settled w prize rake sig, ns), d')"
    by (simp add: settleGame_def)
  then obtain d1 pot d2 where "readPot dep gid game d1 = (Inr pot, d2)"
    "settleMoney dep gid (sortStandings (mr_standings report))
           (st_player (hd (sortStandings (mr_standings report)))) (g_rakeBps game) pot d2
         = (Inr (Settled w prize rake sig, ns), d')"
    using winner_first(2) [OF c] verifyResult_standings [OF ok]
    by (auto simp: settleVerified_def elim!: act_bindE split: if_splits)
  with g st rep ad c show thesis by (rule that)
qed

section \<open>Properties\<close>

text \<open>What a payment to an account that may be missing does: nothing without the account.\<close>

definition paid_to :: "pool_account option \<Rightarrow> int \<Rightarrow> int" where
  "paid_to account amount = (case account of None \<Rightarrow> 0 | Some _ \<Rightarrow> amount)"

definition credit :: "pool_account option \<Rightarrow> int \<Rightarrow> (string \<times> int) list \<Rightarrow> (string \<times> int) list" where
  "credit account amount bs = (case account of None \<Rightarrow> bs | Some a \<Rightarrow> bump (pa_id a) amount bs)"

lemma keeps_id: "map_option (\<lambda>x. pa_id (if pa_id x = i then setBalance b x else x)) account = map_option pa_id account"
  by (cases account) (auto simp: setBalance_def)

lemma keeps_name: "pa_name (setBalance b a) = pa_name a"
  by (simp add: setBalance_def)

lemma settleLeg_credit:
  assumes wf: "db_wf d" and run: "settleLeg gid escrow p eb d = Inr (eb', d')"
  defines "won \<equiv> poolByOwner (ps_player p) d"
  shows "eb' = eb - paid_to won (ps_lamports p)" and "balances d' = credit won (ps_lamports p) (balances d)"
    and "map_option pa_id (poolByName n d') = map_option pa_id (poolByName n d)"
    and "won \<noteq> None \<Longrightarrow> payoutPosted gid d'" and "prefix (txs d) (txs d')"
proof -
  have "eb' = eb - paid_to won (ps_lamports p) \<and> balances d' = credit won (ps_lamports p) (balances d) \<and>
      map_option pa_id (poolByName n d') = map_option pa_id (poolByName n d) \<and>
      (won \<noteq> None \<longrightarrow> payoutPosted gid d') \<and> prefix (txs d) (txs d')"
  proof (cases rule: settleLeg_cases [OF wf run, case_names skipped paid])
    case skipped
    then show ?thesis by (simp add: won_def paid_to_def credit_def)
  next
    case (paid c us)
    then show ?thesis
      using balances_credit [OF wf paid(2,5)]
      by (auto simp: won_def paid_to_def credit_def payoutPosted_def list_ex_iff poolByName_def option.map_comp comp_def
          find_upd_rows_same [of pa_name] keeps_name keeps_id)
  qed
  then show "eb' = eb - paid_to won (ps_lamports p)" "balances d' = credit won (ps_lamports p) (balances d)"
    "map_option pa_id (poolByName n d') = map_option pa_id (poolByName n d)" "won \<noteq> None \<Longrightarrow> payoutPosted gid d'"
    "prefix (txs d) (txs d')" by blast+
qed

lemma settleRake_credit:
  assumes wf: "db_wf d" and run: "settleRake gid escrow rake eb d = Inr (eb', d')"
  defines "fee \<equiv> if 0 < rake then poolByName ''rake'' d else None"
  shows "eb' = eb - paid_to fee rake" and "balances d' = credit fee rake (balances d)" and "prefix (txs d) (txs d')"
proof -
  have "eb' = eb - paid_to fee rake \<and> balances d' = credit fee rake (balances d) \<and> prefix (txs d) (txs d')"
  proof (cases rule: settleRake_cases [OF wf run, case_names skipped taken])
    case skipped
    then show ?thesis by (auto simp: fee_def paid_to_def credit_def)
  next
    case (taken c us)
    then show ?thesis using balances_credit [OF wf taken(3,6)] by (auto simp: fee_def paid_to_def credit_def)
  qed
  then show "eb' = eb - paid_to fee rake" "balances d' = credit fee rake (balances d)" "prefix (txs d) (txs d')" by blast+
qed

lemma credit_cong: "map_option pa_id a = map_option pa_id b \<Longrightarrow> credit a n bs = credit b n bs"
  by (cases a; cases b) (auto simp: credit_def)

lemma paid_to_cong: "map_option pa_id a = map_option pa_id b \<Longrightarrow> paid_to a n = paid_to b n"
  by (cases a; cases b) (auto simp: paid_to_def)

lemma payoutPosted_prefix: "payoutPosted gid d \<Longrightarrow> prefix (txs d) (txs d') \<Longrightarrow> payoutPosted gid d'"
  by (auto simp: payoutPosted_def prefix_def)

lemma settleTx_credit:
  assumes wf: "db_wf d" and e: "escrow \<in> set (pools d)" and run: "settleTx gid escrow ps rake d = Inr (u, d')"
    and ps: "ps = [] \<and> won = None \<and> prize = 0 \<or> (\<exists>p. ps = [p] \<and> won = poolByOwner (ps_player p) d \<and> prize = ps_lamports p)"
  defines "fee \<equiv> if 0 < rake then poolByName ''rake'' d else None"
  shows "balances d' = bump (pa_id escrow) (- (paid_to won prize + paid_to fee rake))
           (credit fee rake (credit won prize (balances d)))"
    and "won \<noteq> None \<Longrightarrow> payoutPosted gid d'"
proof -
  obtain eb1 d1 eb2 d2 where r1: "settleLegs gid escrow ps (pa_balance escrow) d = Inr (eb1, d1)"
    and r2: "settleRake gid escrow rake eb1 d1 = Inr (eb2, d2)"
    and up: "poolUpdate (pa_id escrow) (pa_version escrow) (setBalance eb2) d2 = Inr d'"
    by (rule settleTx_Inr [OF run])
  have s1: "refund_step d (pa_balance escrow) d1 eb1" by (rule settleLegs_step [OF wf r1])
  have l1: "eb1 = pa_balance escrow - paid_to won prize \<and> balances d1 = credit won prize (balances d) \<and>
      map_option pa_id (poolByName ''rake'' d1) = map_option pa_id (poolByName ''rake'' d) \<and>
      (won \<noteq> None \<longrightarrow> payoutPosted gid d1)"
  proof (cases ps)
    case Nil
    with ps r1 show ?thesis by (auto simp: paid_to_def credit_def)
  next
    case (Cons p qs)
    with ps r1 have "settleLeg gid escrow p (pa_balance escrow) d = Inr (eb1, d1)" by (auto elim!: rbindE)
    from settleLeg_credit [OF wf this] Cons ps show ?thesis by auto
  qed
  have wf1: "db_wf d1" using s1 by (simp add: refund_step_def)
  have fee: "map_option pa_id (if 0 < rake then poolByName ''rake'' d1 else None) = map_option pa_id fee"
    using l1 by (simp add: fee_def)
  note l2 = settleRake_credit [OF wf1 r2]
  from refund_step_trans [OF s1 settleRake_step [OF wf1 r2]]
  have s: "db_wf d2" "later (pools d) (pools d2)" by (simp_all add: refund_step_def)
  obtain x where x: "x \<in> set (pools d2)" "pa_id x = pa_id escrow" "pa_version x = pa_version escrow"
    and d': "d' = d2\<lparr>pools := upd_rows (\<lambda>a. pa_id a = pa_id escrow) (setBalance eb2) (pools d2)\<rparr>"
    by (rule poolUpdate_facts [OF s(1) versioned_set(1) up])
  have xe: "x = escrow" using later_row [OF s(2) e _ x] s(1) by (simp add: db_wf_def)
  have b3: "balances d' = bump (pa_id escrow) (eb2 - pa_balance escrow) (balances d2)"
    using balances_set [OF s(1), of escrow d' eb2] x(1) xe d' by simp
  show "balances d' = bump (pa_id escrow) (- (paid_to won prize + paid_to fee rake))
           (credit fee rake (credit won prize (balances d)))"
    using l1 by (simp add: b3 l2(1,2) credit_cong [OF fee] paid_to_cong [OF fee])
  show "payoutPosted gid d'" if "won \<noteq> None"
  proof -
    from l1 that payoutPosted_prefix [OF _ l2(3)] have "payoutPosted gid d2" by blast
    then show ?thesis by (simp add: payoutPosted_def d')
  qed
qed

text \<open>
  C4: settlement moves the prize to the winner and the rake to the platform, out of the pot, and nothing
  else: whenever posting a settlement succeeds, with an escrow account and no payout posted yet, the
  first-placed player's account gains the prize, the rake account the rake, the escrow account loses
  just the two together, which is the pot, and every other balance stands. A player without an account
  is not paid and the prize stays in escrow; so does the rake without a rake account. Without an escrow
  account, or when the payout was posted before, no balance changes; and once the winner has been paid,
  posting again changes nothing at all.
\<close>

theorem settlement_pays_pot:
  assumes wf: "db_wf d" and split: "splitPot pot bps = (prize, rake)"
    and run: "postSettlementLedger gid (computePayouts standings prize) rake d = (Inr (), d')"
  defines "won \<equiv> if standings = [] \<or> prize \<le> 0 then None else poolByOwner (st_player (hd (sortStandings standings))) d"
    and "fee \<equiv> if 0 < rake then poolByName ''rake'' d else None"
  shows "prize + rake = pot \<and>
    (case poolByName (escrow_name gid) d of
       None \<Rightarrow> d' = d
     | Some escrow \<Rightarrow>
         if payoutPosted gid d then d' = d
         else balances d' = bump (pa_id escrow) (- (paid_to won prize + paid_to fee rake))
                (credit fee rake (credit won prize (balances d))) \<and>
              (won \<noteq> None \<longrightarrow> postSettlementLedger gid (computePayouts standings prize) rake d' = (Inr (), d')))"
proof -
  let ?ps = "computePayouts standings prize"
  have sum: "prize + rake = pot" using split by (auto simp: splitPot_def Let_def)
  have ps: "?ps = [] \<and> won = None \<and> (if ?ps = [] then 0 else prize) = 0 \<or>
      (\<exists>p. ?ps = [p] \<and> won = poolByOwner (ps_player p) d \<and> (if ?ps = [] then 0 else prize) = ps_lamports p)"
    using computePayouts_eq [of standings prize] computePayouts_Nil [of standings prize] by (auto simp: won_def)
  have zero: "paid_to won (if ?ps = [] then 0 else prize) = paid_to won prize"
    "credit won (if ?ps = [] then 0 else prize) bs = credit won prize bs" for bs
    using computePayouts_Nil [of standings prize] by (auto simp: won_def paid_to_def credit_def)
  show ?thesis
  proof (cases "poolByName (escrow_name gid) d")
    case None
    with run sum show ?thesis by (simp add: postSettlementLedger_def)
  next
    case (Some escrow)
    then have em: "escrow \<in> set (pools d)" by (auto simp: poolByName_def dest: find_SomeD)
    show ?thesis
    proof (cases "payoutPosted gid d")
      case True
      with run sum Some show ?thesis by (simp add: postSettlementLedger_def)
    next
      case False
      with run Some obtain u where tx: "settleTx gid escrow ?ps rake d = Inr (u, d')"
        by (auto simp: postSettlementLedger_def transaction_def split: sum.splits)
      note c = settleTx_credit [OF wf em tx ps, unfolded zero, folded fee_def]
      have "postSettlementLedger gid ?ps rake d' = (Inr (), d')" if "won \<noteq> None"
        using c(2) [OF that] by (simp add: postSettlementLedger_def split: option.split)
      with c(1) sum Some False show ?thesis by simp
    qed
  qed
qed

definition sample_standings :: "reported_standing list" where
  "sample_standings = [sample_standing ''ann'' 2, sample_standing ''bob'' 1]"

lemma sample_order: "hd (sortStandings sample_standings) = sample_standing ''bob'' 1"
  by (simp add: sample_standings_def sample_standing_def sortStandings_def)

lemma sample_split: "splitPot 60 500 = (57, 3)"
  by (simp add: splitPot_def BPS_DENOMINATOR_def)

lemma sample_payouts: "computePayouts sample_standings 57 =
    [\<lparr> ps_player = ''bob'', ps_placement = Finite 1, ps_lamports = 57 \<rparr>]"
  using computePayouts_eq [of sample_standings 57] sample_order
  by (simp add: sample_standings_def sample_standing_def)

lemma started_settles:
  "\<exists>d'. postSettlementLedger ''g1'' (computePayouts sample_standings 57) 3 started_db = (Inr (), d')"
  unfolding sample_payouts
  by (simp add: postSettlementLedger_def escrow_name_def payoutPosted_def settleTx_def settleLeg_def settleRake_def
      settle_tx_def settle_key_def transaction_def started_db_def started_tx_def match_eval)

lemma started_accounts:
  "poolByOwner ''bob'' started_db = Some ((sample_account ''b'' USER_CUSTODY ''custody:bob'' (Some ''bob'') None 10 0)\<lparr>pa_version := 1\<rparr>)"
  "poolByName ''rake'' started_db = Some (sample_account ''r'' RAKE_POOL ''rake'' None None 0 0)"
  "poolByName (escrow_name ''g1'') started_db =
     Some ((sample_account ''e'' GAME_ESCROW ''escrow:g1'' None (Some ''g1'') 60 0)\<lparr>pa_version := 1\<rparr>)"
  "\<not> payoutPosted ''g1'' started_db"
  by (simp_all add: poolByOwner_def poolByName_def escrow_name_def payoutPosted_def started_db_def
      started_tx_def sample_account_def)

theorem settlement_pays_pot_witness:
  "\<exists>d'. postSettlementLedger ''g1'' (computePayouts sample_standings 57) 3 started_db = (Inr (), d') \<and>
     balances d' = [(''x'', -100), (''r'', 3), (''a'', 30), (''b'', 67), (''e'', 0)]"
proof -
  obtain d' where r: "postSettlementLedger ''g1'' (computePayouts sample_standings 57) 3 started_db = (Inr (), d')"
    using started_settles by blast
  have w: "poolByOwner (st_player (hd (sortStandings sample_standings))) started_db =
      Some ((sample_account ''b'' USER_CUSTODY ''custody:bob'' (Some ''bob'') None 10 0)\<lparr>pa_version := 1\<rparr>)"
    using started_accounts(1) by (simp add: sample_order, simp add: sample_standing_def)
  have "balances d' = bump ''e'' (-60) (bump ''r'' 3 (bump ''b'' 57 (balances started_db)))"
    using settlement_pays_pot [OF started_db_wf sample_split r] w started_accounts(2-4)
    by (simp add: sample_standings_def sample_account_def paid_to_def credit_def)
  with r show ?thesis
    by (simp add: balances_def bump_def started_db_def sample_account_def)
qed

text \<open>
  C1: a settled match is settled by the rules and only once: when \<open>settleGame\<close> reports a prize, the
  game was neither cancelled nor settled, the report was a correct one for the recorded entrants,
  the winner named is its first-placed player, prize and rake add up to the pot, the game ends up
  completed and confirmed, and running the pipeline again does nothing.
\<close>

theorem settleGame_settles_once:
  assumes "settleGame dep gid d = (Inr (Settled w prize rake sig, ns), d')" and "prize \<noteq> 0"
  shows "(\<exists>game report entrants node pot. gameById gid d = Some game \<and> g_status game \<noteq> CANCELLED \<and>
           g_settlementStatus game \<noteq> CONFIRMED \<and> sd_result dep (resultKey gid) = Parsed report \<and>
           adoptEntrants dep gid game report d = (entrants, node) \<and>
           correct_report report \<lparr> vc_gameId = gid, vc_entrants = entrants, vc_expectedNodeId = node \<rparr> \<and>
           w = st_player (hd (sortStandings (mr_standings report))) \<and> prize + rake = pot \<and>
           (g_pot game \<noteq> 0 \<longrightarrow> pot = g_pot game)) \<and>
         (\<exists>g. gameById gid d' = Some g \<and> g_status g = COMPLETED \<and> g_settlementStatus g = CONFIRMED) \<and>
         settleGame dep gid d' = (Inr (AlreadySettled, []), d')"
proof -
  obtain game report entrants node d1 pot d2 where g: "gameById gid d = Some game"
    "g_settlementStatus game \<noteq> CONFIRMED" "g_status game \<noteq> CANCELLED"
    "sd_result dep (resultKey gid) = Parsed report" "adoptEntrants dep gid game report d = (entrants, node)"
    "correct_report report \<lparr> vc_gameId = gid, vc_entrants = entrants, vc_expectedNodeId = node \<rparr>"
    and rp: "readPot dep gid game d1 = (Inr pot, d2)"
    and m: "settleMoney dep gid (sortStandings (mr_standings report))
           (st_player (hd (sortStandings (mr_standings report)))) (g_rakeBps game) pot d2
         = (Inr (Settled w prize rake sig, ns), d')"
    by (rule settleGame_Settled [OF assms(1)])
  obtain d4 d5 d6 where w: "w = st_player (hd (sortStandings (mr_standings report)))"
    "splitPot pot (g_rakeBps game) = (prize, rake)" and fin: "finishGame (sd_now dep) gid CONFIRMED sig d6 = (Inr (), d')"
    by (rule settleMoney_Settled [OF m assms(2)])
  from w(2) have "prize + rake = pot" by (auto simp: splitPot_def Let_def)
  moreover have "g_pot game \<noteq> 0 \<longrightarrow> pot = g_pot game" using rp by (auto simp: readPot_def)
  moreover obtain g' where g': "gameById gid d' = Some g'" "g_status g' = COMPLETED" "g_settlementStatus g' = CONFIRMED"
    using finishGame_Inr [OF fin] by blast
  moreover have "settleGame dep gid d' = (Inr (AlreadySettled, []), d')" using g' by (simp add: settleGame_def)
  ultimately show ?thesis using g w(1) by blast
qed

text \<open>
  settlement keeps the books: whatever \<open>settleGame\<close> returns or throws, and wherever it stops,
  pool balances and posted entries have moved together and no posted entry is gone, provided the
  processes that commit during its chain calls keep the books as well.
\<close>

theorem settleGame_keeps_books:
  assumes "db_wf d" and "fair_others dep" and "lc_balanced (checkLedgerInvariant d)"
  shows "lc_balanced (checkLedgerInvariant (snd (settleGame dep gid d))) \<and>
         prefix (txs d) (txs (snd (settleGame dep gid d)))"
  using conservesD [OF settleGame_conserves [OF assms(1,2), of gid]] assms(3)
  by (simp add: checkLedgerInvariant_eq)

text \<open>
  a replayed leaderboard update counts the game again: for a player already on the board it
  adds another game played, so replaying the stage does not merely overwrite.
\<close>

theorem leaderboard_replay_counts_twice:
  assumes "find (\<lambda>r. lb_window r = win \<and> lb_period r = period \<and> lb_user r = st_player s) (leaderboard d) = Some row"
    and "leaderboardRow now win period s d = (Inr (), d1)"
  shows "\<exists>row'. find (\<lambda>r. lb_window r = win \<and> lb_period r = period \<and> lb_user r = st_player s) (leaderboard d1) = Some row' \<and>
           lb_gamesPlayed row' = lb_gamesPlayed row + 1"
proof -
  let ?P = "\<lambda>r. lb_window r = win \<and> lb_period r = period \<and> lb_user r = st_player s"
  from assms(2) obtain score kills where
    d1: "d1 = d\<lparr>leaderboard := upd_rows ?P (\<lambda>r. r\<lparr>lb_score := score, lb_gamesPlayed := lb_gamesPlayed row + 1,
                    lb_wins := lb_wins row + (if st_placement s = Finite 1 then 1 else 0), lb_kills := kills,
                    lb_computedAt := now\<rparr>) (leaderboard d)\<rparr>"
    unfolding leaderboardRow_def Let_def assms(1) by (auto split: sum.splits)
  define f where "f r = r\<lparr>lb_score := score, lb_gamesPlayed := lb_gamesPlayed row + 1,
      lb_wins := lb_wins row + (if st_placement s = Finite 1 then 1 else 0), lb_kills := kills,
      lb_computedAt := now\<rparr>" for r :: leaderboard_row
  have fP: "?P (f r) = ?P r" for r by (simp add: f_def)
  have "find ?P (upd_rows ?P f xs) = map_option f (find ?P xs)" for xs
    using fP by (induction xs) auto
  with assms(1) have "find ?P (leaderboard d1) = Some (f row)"
    by (simp add: d1 f_def [abs_def])
  then show ?thesis by (simp add: f_def)
qed

section \<open>A match that is played and settled\<close>

definition sample_report :: match_report where
  "sample_report = \<lparr> mr_gameId = ''g1'', mr_roomId = ''g1'', mr_nodeId = ''n1'',
     mr_standings = sample_standings, mr_endedAtMs = Finite 5 \<rparr>"

definition sample_deps :: "(db \<Rightarrow> db) \<Rightarrow> settle_deps" where
  "sample_deps during = \<lparr> sd_result = (\<lambda>_. Parsed sample_report), sd_entryExists = (\<lambda>_ _. False),
     sd_vaultBalance = (\<lambda>_. None), sd_rentFloor = None, sd_canSign = False,
     sd_startRoom = (\<lambda>_. Inr ()), sd_unlockPrize = (\<lambda>_. Inr ()), sd_settleToWinner = (\<lambda>_ _ _. Inr ''sig''),
     sd_feeDestination = ''fee'', sd_now = 0, sd_during = during \<rparr>"

definition sample_player :: "string \<Rightarrow> game_player" where
  "sample_player u = \<lparr> gp_game = ''g1'', gp_user = u, gp_wallet = None, gp_placement = None, gp_score = 0,
     gp_kills = 0, gp_survivedMs = 0, gp_result = PLAYING \<rparr>"

definition played_db :: db where
  "played_db = started_db\<lparr>gamePlayers := [sample_player ''ann'', sample_player ''bob'']\<rparr>"

lemma sample_sorted: "sortStandings sample_standings = [sample_standing ''bob'' 1, sample_standing ''ann'' 2]"
  by (simp add: sample_standings_def sample_standing_def sortStandings_def)

lemma sample_verified:
  "verifyResult sample_report \<lparr> vc_gameId = ''g1'', vc_entrants = [''ann'', ''bob''], vc_expectedNodeId = Some ''n1'' \<rparr> =
     \<lparr> vr_ok = True, vr_failures = [], vr_standings = [sample_standing ''bob'' 1, sample_standing ''ann'' 2] \<rparr>"
  (is "?v = _")
proof -
  have "map st_placement (sortStandings sample_standings) =
      map (\<lambda>k. Finite (rat_of_nat k)) [1..<Suc (length sample_standings)]"
    unfolding sample_sorted by (simp add: sample_standings_def sample_standing_def upt_rec)
  then have ok: "vr_ok ?v"
    unfolding verifyResult_ok correct_report_def
    by (auto simp: sample_report_def sample_standings_def sample_standing_def bad_metric_def
        isFinite_def negative_def less_js_number_def)
  with verifyResult_standings [OF ok] show ?thesis
    by (simp add: sample_report_def sample_sorted)
qed

lemma played_entrants:
  "gameById ''g1'' played_db = Some (sample_game ''g1'' PENDING 60 500)"
  "adoptEntrants (sample_deps during) ''g1'' (sample_game ''g1'' PENDING 60 500) sample_report played_db =
     ([''ann'', ''bob''], Some ''n1'')"
  by (simp_all add: gameById_def adoptEntrants_def played_db_def sample_player_def started_db_def match_db_def
      sample_game_def)

text \<open>The database with the standings persisted and the attempt counted.\<close>

definition persisted_db :: db where
  "persisted_db = started_db\<lparr>
     gamePlayers := [(sample_player ''ann'')\<lparr>gp_placement := Some 2, gp_score := 10, gp_survivedMs := 1000, gp_result := ELIMINATED\<rparr>,
                     (sample_player ''bob'')\<lparr>gp_placement := Some 1, gp_score := 10, gp_survivedMs := 1000, gp_result := SURVIVED\<rparr>],
     games := [(sample_game ''g1'' PENDING 60 500)\<lparr>g_settlementStatus := SETTLE_PENDING, g_settlementAttempts := 1\<rparr>]\<rparr>"

lemma sample_standing_sel:
  "st_player (sample_standing p n) = p" "st_placement (sample_standing p n) = Finite n"
  by (simp_all add: sample_standing_def)

lemma sample_deps_sel:
  "sd_canSign (sample_deps during) = False" "sd_during (sample_deps during) = during"
  "sd_now (sample_deps during) = 0" "sd_vaultBalance (sample_deps during) k = None"
  "sd_rentFloor (sample_deps during) = None" "sd_result (sample_deps during) r = Parsed sample_report"
  by (simp_all add: sample_deps_def)

lemma sample_game_sel:
  "g_pot (sample_game g st pot bps) = pot" "g_rakeBps (sample_game g st pot bps) = bps"
  "g_settlementStatus (sample_game g st pot bps) \<noteq> CONFIRMED"
  "g_status (sample_game g PENDING pot bps) \<noteq> CANCELLED"
  by (simp_all add: sample_game_def)

lemma played_reaches_money:
  "settleGame (sample_deps during) ''g1'' played_db =
     act_bind (recordRewards 0 ''g1'' (computePayouts [sample_standing ''bob'' 1, sample_standing ''ann'' 2] 57) 3
                 (during persisted_db)) (\<lambda>_ d3.
       act_bind (updateLeaderboard 0 [sample_standing ''bob'' 1, sample_standing ''ann'' 2] d3) (\<lambda>_ d4.
         act_bind (finishGame 0 ''g1'' CONFIRMED None d4) (\<lambda>_ d5.
           (Inr (Settled ''bob'' 57 3 None,
                 [notifyPlayers ''g1'' ''bob''
                    (computePayouts [sample_standing ''bob'' 1, sample_standing ''ann'' 2] 57)]), d5))))"
proof -
  let ?ss = "[sample_standing ''bob'' 1, sample_standing ''ann'' 2]"
  have s1: "settleGame (sample_deps during) ''g1'' played_db =
      settleVerified (sample_deps during) ''g1'' (sample_game ''g1'' PENDING 60 500)
        \<lparr> vr_ok = True, vr_failures = [], vr_standings = ?ss \<rparr> played_db"
    by (simp add: settleGame_def played_entrants sample_deps_sel sample_verified sample_game_sel)
  have ps: "persistStandings ''g1'' ?ss played_db =
      (Inr (), persisted_db\<lparr>games := [sample_game ''g1'' PENDING 60 500]\<rparr>)"
    by (simp add: standingRow_def prismaInt_def sample_standing_def played_db_def sample_player_def
        persisted_db_def started_db_def match_db_def)
  have pay: "computePayouts ?ss 57 = [\<lparr> ps_player = ''bob'', ps_placement = Finite 1, ps_lamports = 57 \<rparr>]"
    using computePayouts_eq [of ?ss 57] by (simp add: sortStandings_def sample_standing_def)
  have gw: "gameWrite ''g1'' (\<lambda>g. g\<lparr>g_settlementStatus := SETTLE_PENDING, g_settlementAttempts := Suc (g_settlementAttempts g)\<rparr>)
      (persisted_db\<lparr>games := [sample_game ''g1'' PENDING 60 500]\<rparr>) = (Inr (), persisted_db)"
    by (simp add: gameWrite_def gameUpdate_def gameById_def persisted_db_def sample_game_def)
  have win: "detectWinner \<lparr> vr_ok = True, vr_failures = [], vr_standings = ?ss \<rparr> = Some (sample_standing ''bob'' 1)"
    by (simp add: detectWinner_def sample_standing_sel)
  have money: "settleMoney (sample_deps during) ''g1'' ?ss ''bob'' 500 60
        (persisted_db\<lparr>games := [sample_game ''g1'' PENDING 60 500]\<rparr>) =
     act_bind (recordRewards 0 ''g1'' (computePayouts ?ss 57) 3 (during persisted_db)) (\<lambda>_ d3.
       act_bind (updateLeaderboard 0 ?ss d3) (\<lambda>_ d4.
         act_bind (finishGame 0 ''g1'' CONFIRMED None d4) (\<lambda>_ d5.
           (Inr (Settled ''bob'' 57 3 None, [notifyPlayers ''g1'' ''bob'' (computePayouts ?ss 57)]), d5))))"
    unfolding settleMoney_def sample_split prod.case Let_def pay
    by (simp add: withinTransactionLimit_def MAX_WINNERS_PER_TX_def totalPayout_def gw chainLeg_def sample_deps_sel)
  show ?thesis
    unfolding s1 settleVerified_def win option.case verified_result.simps ps
    by (simp add: vaultEmptied_def readPot_def sample_deps_sel sample_game_sel sample_standing_sel money)
qed

definition refunded_tx :: "string \<Rightarrow> string \<Rightarrow> tx_direction \<Rightarrow> int \<Rightarrow> string \<Rightarrow> string \<Rightarrow> string \<Rightarrow> ledger_tx" where
  "refunded_tx i grp dir after u pool key =
     (refund_tx ''g1'' \<lparr> rl_user = u, rl_lamports = 30 \<rparr> grp dir after pool key)\<lparr>tx_id := i\<rparr>"

text \<open>An operator cancels the game while settlement is waiting for the chain.\<close>

definition operator_cancels :: "db \<Rightarrow> db" where
  "operator_cancels d = (case cancelGameAndRefund ''g1'' ''no show'' 7 (\<lambda>_. Inr ()) d of Inl _ \<Rightarrow> d | Inr (_, d') \<Rightarrow> d')"

definition cancelled_db :: db where
  "cancelled_db = persisted_db\<lparr>drawn := 12,
     pools := [sample_account ''x'' EXTERNAL ''external'' None None (-100) 0,
       sample_account ''r'' RAKE_POOL ''rake'' None None 0 0,
       (sample_account ''a'' USER_CUSTODY ''custody:ann'' (Some ''ann'') None 60 0)\<lparr>pa_version := 2\<rparr>,
       (sample_account ''b'' USER_CUSTODY ''custody:bob'' (Some ''bob'') None 40 0)\<lparr>pa_version := 2\<rparr>,
       (sample_account ''e'' GAME_ESCROW ''escrow:g1'' None (Some ''g1'') 0 0)\<lparr>pa_version := 2\<rparr>],
     txs := txs started_db @
       [refunded_tx ''7'' ''6'' DEBIT 30 ''ann'' ''e'' ''refund:g1:ann:escrow'',
        refunded_tx ''8'' ''6'' CREDIT 60 ''ann'' ''a'' ''refund:g1:ann'',
        refunded_tx ''10'' ''9'' DEBIT 0 ''bob'' ''e'' ''refund:g1:bob:escrow'',
        refunded_tx ''11'' ''9'' CREDIT 40 ''bob'' ''b'' ''refund:g1:bob''],
     games := [(sample_game ''g1'' CANCELLED 60 500)\<lparr>g_endedAt := Some 7, g_settlementAttempts := 1,
        g_settlementError := Some ''no show''\<rparr>]\<rparr>"

lemma persisted_owed:
  "owedLegs (refundedUsers ''g1'' ''e'' persisted_db) (stakedByUser ''g1'' ''e'' persisted_db) =
     [\<lparr> rl_user = ''ann'', rl_lamports = 30 \<rparr>, \<lparr> rl_user = ''bob'', rl_lamports = 30 \<rparr>]"
  using started_owed by (simp add: persisted_db_def refundedUsers_def stakedByUser_def)

lemma operator_cancels_persisted: "operator_cancels persisted_db = cancelled_db"
proof -
  have g: "gameById ''g1'' persisted_db = Some ((sample_game ''g1'' PENDING 60 500)
       \<lparr>g_settlementStatus := SETTLE_PENDING, g_settlementAttempts := 1\<rparr>)"
    by (simp add: gameById_def persisted_db_def sample_game_def)
  have p: "paidOut ''g1'' persisted_db = None"
    by (simp add: paidOut_def persisted_db_def started_db_def started_tx_def)
  have e: "poolByGame ''g1'' persisted_db =
      Some ((sample_account ''e'' GAME_ESCROW ''escrow:g1'' None (Some ''g1'') 60 0)\<lparr>pa_version := 1\<rparr>)"
    using started_escrow by (simp add: poolByGame_def persisted_db_def)
  have i: "pa_id ((sample_account ''e'' GAME_ESCROW ''escrow:g1'' None (Some ''g1'') 60 0)\<lparr>pa_version := 1\<rparr>) = ''e''"
    by (simp add: sample_account_def)
  show ?thesis
    unfolding operator_cancels_def cancelGameAndRefund_def g e option.case i persisted_owed Let_def p
    by (simp add: sample_game_def refundLeg_def getCustodyAccount_def refund_key_def refund_tx_def cancelRow_def
        gameUpdate_def gameById_def persisted_db_def cancelled_db_def refunded_tx_def started_db_def started_tx_def match_eval)
qed


text \<open>What follows the chain leg, on a concrete database.\<close>

definition finish_sample :: "db \<Rightarrow> (money_error, unit) res \<times> db" where
  "finish_sample d =
     act_bind (updateLeaderboard 0 [sample_standing ''bob'' 1, sample_standing ''ann'' 2] d) (\<lambda>_ d4.
       finishGame 0 ''g1'' CONFIRMED None d4)"

lemma updateLeaderboard_sample:
  assumes "leaderboard d = []"
  shows "\<exists>rows. updateLeaderboard 0 [sample_standing ''bob'' 1, sample_standing ''ann'' 2] d =
    (Inr (), d\<lparr>leaderboard := rows\<rparr>)"
  using assms
  by (simp add: leaderboardRow_def Let_def sample_standing_def toBigInt_def prismaInt_def)
     (rule exI, rule refl)

lemma finish_sample_pools:
  assumes "leaderboard d = []" and "gameById ''g1'' d \<noteq> None"
  shows "\<exists>d'. finish_sample d = (Inr (), d') \<and> pools d' = pools d"
proof -
  obtain rows where "updateLeaderboard 0 [sample_standing ''bob'' 1, sample_standing ''ann'' 2] d =
    (Inr (), d\<lparr>leaderboard := rows\<rparr>)" using updateLeaderboard_sample [OF assms(1)] by blast
  with assms(2) show ?thesis
    by (auto simp: finish_sample_def finishGame_def gameWrite_def gameUpdate_def gameById_def)
qed

lemma played_settles:
  assumes "recordRewards 0 ''g1'' (computePayouts [sample_standing ''bob'' 1, sample_standing ''ann'' 2] 57) 3
      (during persisted_db) = (Inr (), d3)"
    and "leaderboard d3 = []" and "gameById ''g1'' d3 \<noteq> None"
  shows "\<exists>ns d'. settleGame (sample_deps during) ''g1'' played_db = (Inr (Settled ''bob'' 57 3 None, ns), d') \<and>
    pools d' = pools d3"
proof -
  obtain d' where f: "finish_sample d3 = (Inr (), d')" "pools d' = pools d3"
    using finish_sample_pools [OF assms(2,3)] by blast
  then show ?thesis
    unfolding played_reaches_money assms(1)
    by (auto simp: finish_sample_def act_bind_def split: sum.splits prod.splits)
qed

text \<open>
  settlement does not notice a cancellation that lands during its chain calls: every entrant has
  been refunded, yet the winner is paid the prize and the platform its rake, and the match's escrow
  is left overdrawn by the whole pot.
\<close>

theorem settlement_overdraws_cancelled_match:
  "\<exists>ns d'. settleGame (sample_deps operator_cancels) ''g1'' played_db = (Inr (Settled ''bob'' 57 3 None, ns), d') \<and>
     balances d' = [(''x'', -100), (''r'', 3), (''a'', 60), (''b'', 97), (''e'', -60)]"
proof -
  have pay: "computePayouts [sample_standing ''bob'' 1, sample_standing ''ann'' 2] 57 =
      [\<lparr> ps_player = ''bob'', ps_placement = Finite 1, ps_lamports = 57 \<rparr>]"
    using computePayouts_eq [of "[sample_standing ''bob'' 1, sample_standing ''ann'' 2]" 57]
    by (simp add: sortStandings_def sample_standing_def)
  have r: "\<exists>d3. recordRewards 0 ''g1'' (computePayouts [sample_standing ''bob'' 1, sample_standing ''ann'' 2] 57) 3
      (operator_cancels persisted_db) = (Inr (), d3) \<and> leaderboard d3 = [] \<and> gameById ''g1'' d3 \<noteq> None \<and>
      balances d3 = [(''x'', -100), (''r'', 3), (''a'', 60), (''b'', 97), (''e'', -60)]"
    unfolding operator_cancels_persisted pay
    by (simp add: recordRewards_def gameWrite_def gameUpdate_def gameById_def postSettlementLedger_def escrow_name_def
        payoutPosted_def settleTx_def settleLeg_def settleRake_def settle_tx_def settle_key_def transaction_def
        cancelled_db_def persisted_db_def refunded_tx_def refund_tx_def started_db_def started_tx_def balances_def
        totalPayout_def match_eval)
  then obtain d3 where d3: "recordRewards 0 ''g1'' (computePayouts [sample_standing ''bob'' 1, sample_standing ''ann'' 2] 57) 3
      (operator_cancels persisted_db) = (Inr (), d3)" "leaderboard d3 = []" "gameById ''g1'' d3 \<noteq> None"
    and b: "balances d3 = [(''x'', -100), (''r'', 3), (''a'', 60), (''b'', 97), (''e'', -60)]" by blast
  obtain ns d' where s: "settleGame (sample_deps operator_cancels) ''g1'' played_db = (Inr (Settled ''bob'' 57 3 None, ns), d')"
    and p: "pools d' = pools d3"
    using played_settles [of operator_cancels, OF d3] by blast
  from p b have "balances d' = [(''x'', -100), (''r'', 3), (''a'', 60), (''b'', 97), (''e'', -60)]"
    by (simp add: balances_def)
  with s show ?thesis by blast
qed

lemma played_settles_alone:
  "\<exists>ns d'. settleGame (sample_deps id) ''g1'' played_db = (Inr (Settled ''bob'' 57 3 None, ns), d')"
proof -
  have pay: "computePayouts [sample_standing ''bob'' 1, sample_standing ''ann'' 2] 57 =
      [\<lparr> ps_player = ''bob'', ps_placement = Finite 1, ps_lamports = 57 \<rparr>]"
    using computePayouts_eq [of "[sample_standing ''bob'' 1, sample_standing ''ann'' 2]" 57]
    by (simp add: sortStandings_def sample_standing_def)
  have r: "\<exists>d3. recordRewards 0 ''g1'' (computePayouts [sample_standing ''bob'' 1, sample_standing ''ann'' 2] 57) 3
      (id persisted_db) = (Inr (), d3) \<and> leaderboard d3 = [] \<and> gameById ''g1'' d3 \<noteq> None"
    unfolding pay
    by (simp add: recordRewards_def gameWrite_def gameUpdate_def gameById_def postSettlementLedger_def escrow_name_def
        payoutPosted_def settleTx_def settleLeg_def settleRake_def settle_tx_def settle_key_def transaction_def
        persisted_db_def started_db_def started_tx_def totalPayout_def match_eval)
  then show ?thesis using played_settles [of id] by blast
qed

theorem settleGame_settles_once_witness:
  "\<exists>ns d'. settleGame (sample_deps id) ''g1'' played_db = (Inr (Settled ''bob'' 57 3 None, ns), d') \<and>
     settleGame (sample_deps id) ''g1'' d' = (Inr (AlreadySettled, []), d')"
proof -
  obtain ns d' where s: "settleGame (sample_deps id) ''g1'' played_db = (Inr (Settled ''bob'' 57 3 None, ns), d')"
    using played_settles_alone by blast
  with settleGame_settles_once [OF s] show ?thesis by simp
qed

lemma played_db_books: "db_wf played_db" "lc_balanced (checkLedgerInvariant played_db)"
proof -
  show "db_wf played_db" using started_db_wf by (simp add: played_db_def db_wf_def)
  show "lc_balanced (checkLedgerInvariant played_db)"
    by (simp add: checkLedgerInvariant_eq played_db_def poolTotal_def ledgerNet_def started_db_def started_tx_def
        sample_account_def signed_def)
qed

theorem settleGame_keeps_books_witness:
  "lc_balanced (checkLedgerInvariant (snd (settleGame (sample_deps id) ''g1'' played_db)))"
proof -
  have "fair_others (sample_deps id)" by (simp add: fair_others_def sample_deps_sel conserves_refl)
  from settleGame_keeps_books [OF played_db_books(1) this played_db_books(2)] show ?thesis by blast
qed

definition ranked_db :: db where
  "ranked_db = played_db\<lparr>leaderboard := [\<lparr> lb_window = ALL_TIME, lb_period = ''all'', lb_user = ''ann'', lb_rank = 0,
     lb_score = 20, lb_gamesPlayed = 1, lb_wins = 0, lb_kills = 0, lb_computedAt = 0 \<rparr>]\<rparr>"

theorem leaderboard_replay_counts_twice_witness:
  "\<exists>d1. leaderboardRow 0 ALL_TIME ''all'' (sample_standing ''ann'' 2) ranked_db = (Inr (), d1) \<and>
     (\<exists>row'. find (\<lambda>r. lb_window r = ALL_TIME \<and> lb_period r = ''all'' \<and> lb_user r = ''ann'') (leaderboard d1) = Some row' \<and>
        lb_gamesPlayed row' = 2)"
proof -
  obtain d1 where r: "leaderboardRow 0 ALL_TIME ''all'' (sample_standing ''ann'' 2) ranked_db = (Inr (), d1)"
    by (simp add: leaderboardRow_def Let_def sample_standing_def ranked_db_def toBigInt_def prismaInt_def max_def)
  have f: "find (\<lambda>r. lb_window r = ALL_TIME \<and> lb_period r = ''all'' \<and> lb_user r = st_player (sample_standing ''ann'' 2))
      (leaderboard ranked_db) = Some (hd (leaderboard ranked_db))"
    by (simp add: ranked_db_def sample_standing_sel)
  from leaderboard_replay_counts_twice [OF f r] have "\<exists>row'.
      find (\<lambda>r. lb_window r = ALL_TIME \<and> lb_period r = ''all'' \<and> lb_user r = ''ann'') (leaderboard d1) = Some row' \<and>
      lb_gamesPlayed row' = 2"
    by (simp add: ranked_db_def sample_standing_sel numeral_2_eq_2)
  with r show ?thesis by blast
qed

end
