(* ===== verification/Custody_Chain.thy ===== *)
theory Custody_Chain
  imports Prelude
begin

text \<open>
  What the gateway reads off the chain (\<open>packages/solana/src/verify-custody.ts\<close>, the balance part of
  \<open>tx/parse.ts\<close>, \<open>splitWithdrawal\<close> of \<open>instructions.ts\<close>). A parsed transaction of the Solana client
  is the record of the fields the code reads; keys are their base-58 text.
\<close>

section \<open>A parsed transaction\<close>

record tx_meta =
  mt_err :: bool
  mt_inner :: "string list list"
  mt_logs :: "string list"
  mt_pre :: "int list"
  mt_post :: "int list"

text \<open>\<open>pt_programs\<close> are the program ids of the top-level instructions, \<open>pt_keys\<close> the account keys
  with their signer flag; an absent list of \<open>meta\<close> is the empty list, as \<open>??\<close> makes it.\<close>

record parsed_tx =
  pt_slot :: int
  pt_blockTime :: "int option"
  pt_programs :: "string list"
  pt_keys :: "(string \<times> bool) list"
  pt_meta :: "tx_meta option"

datatype chain_failure =
  TransactionFailed | ProgramNotInvoked | SignerMismatch | AmountMismatch | WrongDirection

record chain_result =
  cv_ok :: bool
  cv_failure :: "chain_failure option"
  cv_observed :: int
  cv_slot :: int
  cv_blockTime :: "int option"

section \<open>Reading it\<close>

definition nthOr0 :: "int list \<Rightarrow> nat \<Rightarrow> int" where
  "nthOr0 xs i = (if i < length xs then xs ! i else 0)"

text \<open>\<open>forEach\<close> over the keys with their index; \<open>set\<close> overwrites an earlier entry of the same key.\<close>

fun balanceChanges :: "tx_meta \<Rightarrow> nat \<Rightarrow> (string \<times> bool) list \<Rightarrow> (string \<rightharpoonup> int) \<Rightarrow> (string \<rightharpoonup> int)" where
  "balanceChanges meta index [] changes = changes"
| "balanceChanges meta index ((key, signer) # keys) changes =
    (let delta = nthOr0 (mt_post meta) index - nthOr0 (mt_pre meta) index
     in balanceChanges meta (Suc index) keys
          (if delta \<noteq> 0 then changes(key \<mapsto> delta) else changes))"

definition parseBalanceChanges :: "parsed_tx \<Rightarrow> (string \<rightharpoonup> int)" where
  "parseBalanceChanges t =
    (case pt_meta t of None \<Rightarrow> Map.empty | Some meta \<Rightarrow> balanceChanges meta 0 (pt_keys t) Map.empty)"

definition changeOf :: "parsed_tx \<Rightarrow> string \<Rightarrow> int" where
  "changeOf t key = (case parseBalanceChanges t key of None \<Rightarrow> 0 | Some delta \<Rightarrow> delta)"

definition txErr :: "parsed_tx \<Rightarrow> bool" where
  "txErr t = (case pt_meta t of None \<Rightarrow> False | Some meta \<Rightarrow> mt_err meta)"

definition startsWith :: "string \<Rightarrow> string \<Rightarrow> bool" where
  "startsWith line p = (take (length p) line = p)"

definition invokedProgram :: "parsed_tx \<Rightarrow> string \<Rightarrow> bool" where
  "invokedProgram t program =
    (list_ex (\<lambda>p. p = program) (pt_programs t) \<or>
     list_ex (list_ex (\<lambda>p. p = program)) (case pt_meta t of None \<Rightarrow> [] | Some meta \<Rightarrow> mt_inner meta) \<or>
     list_ex (\<lambda>line. startsWith line (''Program '' @ program @ '' invoke''))
       (case pt_meta t of None \<Rightarrow> [] | Some meta \<Rightarrow> mt_logs meta))"

definition isSigner :: "parsed_tx \<Rightarrow> string \<Rightarrow> bool" where
  "isSigner t wallet = list_ex (\<lambda>(key, signer). signer \<and> key = wallet) (pt_keys t)"

definition verifyIncomingTransfer :: "parsed_tx \<Rightarrow> string \<Rightarrow> int \<Rightarrow> bool \<times> int" where
  "verifyIncomingTransfer t destination minLamports =
    (if txErr t then (False, 0)
     else (let credited = changeOf t destination in (minLamports \<le> credited, credited)))"

section \<open>Verification\<close>

definition chainFailure :: "chain_failure \<Rightarrow> chain_result" where
  "chainFailure reason = \<lparr> cv_ok = False, cv_failure = Some reason, cv_observed = 0, cv_slot = 0, cv_blockTime = None \<rparr>"

definition verifyDeposit :: "parsed_tx \<Rightarrow> string \<Rightarrow> string \<Rightarrow> string \<Rightarrow> int \<Rightarrow> chain_result" where
  "verifyDeposit t program pool depositor expectedLamports =
    (if txErr t then chainFailure TransactionFailed
     else if \<not> invokedProgram t program then chainFailure ProgramNotInvoked
     else if \<not> isSigner t depositor then chainFailure SignerMismatch
     else
       (let credited = changeOf t pool;
            base = (\<lambda>ok f. \<lparr> cv_ok = ok, cv_failure = f, cv_observed = credited, cv_slot = pt_slot t,
                             cv_blockTime = pt_blockTime t \<rparr>)
        in if credited \<le> 0 then base False (Some WrongDirection)
           else if credited < expectedLamports then base False (Some AmountMismatch)
           else base True None))"

record withdrawal_result = chain_result +
  cv_debited :: int
  cv_fee :: int

definition verifyWithdrawal :: "parsed_tx \<Rightarrow> string \<Rightarrow> string \<Rightarrow> string \<Rightarrow> string \<Rightarrow> int \<Rightarrow> int \<Rightarrow> withdrawal_result" where
  "verifyWithdrawal t program pool treasury recipient expectedGross expectedFee =
    (let bare = (\<lambda>reason. \<lparr> cv_ok = False, cv_failure = Some reason, cv_observed = 0, cv_slot = 0,
                            cv_blockTime = None, cv_debited = 0, cv_fee = 0 \<rparr>)
     in if txErr t then bare TransactionFailed
        else if \<not> invokedProgram t program then bare ProgramNotInvoked
        else if \<not> isSigner t recipient then bare SignerMismatch
        else
          (let poolDelta = changeOf t pool;
               treasuryDelta = changeOf t treasury;
               debitedFromPool = (if poolDelta < 0 then - poolDelta else 0);
               feeToTreasury = (if 0 < treasuryDelta then treasuryDelta else 0);
               base = (\<lambda>ok f. \<lparr> cv_ok = ok, cv_failure = f, cv_observed = debitedFromPool,
                                cv_slot = pt_slot t, cv_blockTime = pt_blockTime t,
                                cv_debited = debitedFromPool, cv_fee = feeToTreasury \<rparr>)
           in if 0 \<le> poolDelta then base False (Some WrongDirection)
              else if debitedFromPool \<noteq> expectedGross then base False (Some AmountMismatch)
              else if feeToTreasury \<noteq> expectedFee then base False (Some AmountMismatch)
              else base True None))"

section \<open>The fee split\<close>

definition CHAIN_BPS_DENOMINATOR :: int where
  "CHAIN_BPS_DENOMINATOR = 10000"

definition MAX_WITHDRAWAL_FEE_BPS :: int where
  "MAX_WITHDRAWAL_FEE_BPS = 200"

datatype split_error = NegativeAmount | FeeOutOfRange

definition splitWithdrawal :: "int \<Rightarrow> int \<Rightarrow> (split_error, int \<times> int \<times> int) res" where
  "splitWithdrawal grossLamports withdrawalFeeBps =
    (if grossLamports < 0 then Inl NegativeAmount
     else if withdrawalFeeBps < 0 \<or> MAX_WITHDRAWAL_FEE_BPS < withdrawalFeeBps then Inl FeeOutOfRange
     else (let fee = (grossLamports * withdrawalFeeBps) sdiv CHAIN_BPS_DENOMINATOR
           in Inr (grossLamports, fee, grossLamports - fee)))"

section \<open>Facts\<close>

text \<open>With distinct keys, the change of a key is the difference of its two balances.\<close>

lemma balanceChanges_other:
  "key \<notin> fst ` set keys \<Longrightarrow> balanceChanges meta i keys changes key = changes key"
  by (induction meta i keys changes rule: balanceChanges.induct) (auto simp: Let_def)

lemma balanceChanges_key:
  assumes "distinct (map fst keys)" and "j < length keys" and "changes (fst (keys ! j)) = None"
  shows "balanceChanges meta i keys changes (fst (keys ! j)) =
    (let delta = nthOr0 (mt_post meta) (i + j) - nthOr0 (mt_pre meta) (i + j)
     in if delta \<noteq> 0 then Some delta else None)"
  using assms
proof (induction keys arbitrary: i j changes)
  case Nil
  then show ?case by simp
next
  case (Cons x keys)
  obtain key signer where x: "x = (key, signer)" by (cases x)
  show ?case
  proof (cases j)
    case 0
    with Cons.prems x balanceChanges_other [of key keys] show ?thesis by (simp add: Let_def)
  next
    case (Suc j')
    with Cons.prems have "fst (keys ! j') \<in> fst ` set keys" by (intro imageI nth_mem) simp
    with Cons.prems(1) x have n: "fst (keys ! j') \<noteq> key" by auto
    let ?delta = "nthOr0 (mt_post meta) i - nthOr0 (mt_pre meta) i"
    define ch where "ch = (if ?delta \<noteq> 0 then changes(key \<mapsto> ?delta) else changes)"
    have "ch (fst (keys ! j')) = None" using Cons.prems(3) Suc n by (simp add: ch_def)
    from Cons.IH [of j' ch "Suc i", OF _ _ this, unfolded ch_def] Cons.prems(1,2) Suc x show ?thesis by (simp add: Let_def)
  qed
qed

lemma changeOf_key:
  assumes "pt_meta t = Some meta" and "distinct (map fst (pt_keys t))" and "j < length (pt_keys t)"
  shows "changeOf t (fst (pt_keys t ! j)) = nthOr0 (mt_post meta) j - nthOr0 (mt_pre meta) j"
  using balanceChanges_key [OF assms(2,3), of Map.empty meta 0] assms(1)
  by (simp add: changeOf_def parseBalanceChanges_def Let_def)

lemma verifyDeposit_ok:
  "cv_ok (verifyDeposit t program pool depositor expected) \<longleftrightarrow>
     \<not> txErr t \<and> invokedProgram t program \<and> isSigner t depositor \<and> 0 < changeOf t pool \<and> expected \<le> changeOf t pool"
  by (auto simp: verifyDeposit_def chainFailure_def Let_def)

lemma verifyDeposit_observed:
  "cv_ok (verifyDeposit t program pool depositor expected) \<Longrightarrow>
   cv_observed (verifyDeposit t program pool depositor expected) = changeOf t pool \<and>
   cv_slot (verifyDeposit t program pool depositor expected) = pt_slot t"
  by (auto simp: verifyDeposit_def chainFailure_def Let_def split: if_splits)

lemma verifyWithdrawal_ok:
  "cv_ok (verifyWithdrawal t program pool treasury recipient gross fee) \<longleftrightarrow>
     \<not> txErr t \<and> invokedProgram t program \<and> isSigner t recipient \<and> changeOf t pool < 0 \<and>
     - changeOf t pool = gross \<and> (if 0 < changeOf t treasury then changeOf t treasury else 0) = fee"
  by (auto simp: verifyWithdrawal_def Let_def)

lemma splitWithdrawal_facts:
  assumes "splitWithdrawal g bps = Inr (gross, fee, net)"
  shows "gross = g" and "net + fee = gross" and "0 \<le> fee" and "fee \<le> net"
    and "fee * 10000 \<le> g * bps" and "g * bps < (fee + 1) * 10000"
proof -
  from assms have g: "0 \<le> g" "0 \<le> bps" "bps \<le> 200" and fee: "fee = g * bps div 10000"
    and "gross = g" "net = g - fee"
    by (auto simp: splitWithdrawal_def Let_def MAX_WITHDRAWAL_FEE_BPS_def CHAIN_BPS_DENOMINATOR_def sdiv_nonneg split: if_splits)
  then show "gross = g" and "net + fee = gross" by simp_all
  have p: "0 \<le> g * bps" using g by simp
  then show "0 \<le> fee" by (simp add: fee)
  define n where "n = g * bps"
  have "n div 10000 * 10000 \<le> n" "n < (n div 10000 + 1) * 10000" by presburger+
  then show a: "fee * 10000 \<le> g * bps" and "g * bps < (fee + 1) * 10000" by (simp_all add: fee n_def)
  have "g * bps \<le> g * 200" using g by (intro mult_left_mono) auto
  with a g(1) have "fee * 2 \<le> g" by linarith
  then show "fee \<le> net" using \<open>net = g - fee\<close> by simp
qed

section \<open>Properties\<close>

text \<open>
  a deposit is accepted on the chain's word alone: exactly when the transaction succeeded, invoked
  the program, was signed by the depositing wallet and raised the vault's own balance by a positive
  amount of at least what was announced; the amount reported is that rise.
\<close>

theorem deposit_verified_by_chain:
  assumes "pt_meta t = Some meta" and "distinct (map fst (pt_keys t))" and "j < length (pt_keys t)"
    and "pool = fst (pt_keys t ! j)"
  defines "rise \<equiv> nthOr0 (mt_post meta) j - nthOr0 (mt_pre meta) j"
  shows "(cv_ok (verifyDeposit t program pool depositor expected) \<longleftrightarrow>
            \<not> mt_err meta \<and> invokedProgram t program \<and> (depositor, True) \<in> set (pt_keys t) \<and>
            0 < rise \<and> expected \<le> rise) \<and>
         (cv_ok (verifyDeposit t program pool depositor expected) \<longrightarrow>
            cv_observed (verifyDeposit t program pool depositor expected) = rise)"
proof -
  have r: "changeOf t pool = rise" unfolding rise_def assms(4) by (rule changeOf_key [OF assms(1-3)])
  have s: "isSigner t depositor \<longleftrightarrow> (depositor, True) \<in> set (pt_keys t)"
    by (auto simp: isSigner_def list_ex_iff)
  have e: "txErr t = mt_err meta" by (simp add: txErr_def assms(1))
  show ?thesis using verifyDeposit_ok verifyDeposit_observed unfolding r [symmetric] s [symmetric] e [symmetric] by blast
qed

definition sample_chain_tx :: "int \<Rightarrow> int \<Rightarrow> parsed_tx" where
  "sample_chain_tx before after = \<lparr> pt_slot = 9, pt_blockTime = None, pt_programs = [''arena''],
     pt_keys = [(''w-ann'', True), (''vault'', False)],
     pt_meta = Some \<lparr> mt_err = False, mt_inner = [], mt_logs = [], mt_pre = [100, before], mt_post = [0, after] \<rparr> \<rparr>"

theorem deposit_verified_by_chain_witness:
  "cv_ok (verifyDeposit (sample_chain_tx 5 55) ''arena'' ''vault'' ''w-ann'' 40) \<and>
   cv_observed (verifyDeposit (sample_chain_tx 5 55) ''arena'' ''vault'' ''w-ann'' 40) = 50"
proof -
  let ?m = "\<lparr> mt_err = False, mt_inner = [], mt_logs = [], mt_pre = [100, 5], mt_post = [0, 55] \<rparr>"
  have "pt_meta (sample_chain_tx 5 55) = Some ?m" "distinct (map fst (pt_keys (sample_chain_tx 5 55)))"
    "1 < length (pt_keys (sample_chain_tx 5 55))" "''vault'' = fst (pt_keys (sample_chain_tx 5 55) ! 1)"
    "invokedProgram (sample_chain_tx 5 55) ''arena''"
    by (simp_all add: sample_chain_tx_def invokedProgram_def)
  from deposit_verified_by_chain [OF this(1-4), of "''arena''" "''w-ann''" 40] this(5) show ?thesis
    by (simp add: nthOr0_def sample_chain_tx_def)
qed

text \<open>
  the withdrawal fee is exact: the split adds up to the amount asked for, the fee is the amount
  times the rate rounded down to the lamport, as the program computes it, and it never exceeds what
  the player receives; rates outside 0 to 200 basis points are refused.
\<close>

theorem withdrawal_split_exact:
  assumes "0 \<le> g"
  shows "(0 \<le> bps \<and> bps \<le> 200 \<longrightarrow>
            (\<exists>fee net. splitWithdrawal g bps = Inr (g, fee, net) \<and> net + fee = g \<and> 0 \<le> fee \<and> fee \<le> net \<and>
               fee * 10000 \<le> g * bps \<and> g * bps < (fee + 1) * 10000)) \<and>
         (\<not> (0 \<le> bps \<and> bps \<le> 200) \<longrightarrow> splitWithdrawal g bps = Inl FeeOutOfRange)"
proof (cases "0 \<le> bps \<and> bps \<le> 200")
  case True
  with assms obtain fee net where s: "splitWithdrawal g bps = Inr (g, fee, net)"
    by (auto simp: splitWithdrawal_def Let_def MAX_WITHDRAWAL_FEE_BPS_def)
  from splitWithdrawal_facts [OF s] s True show ?thesis by blast
next
  case False
  with assms show ?thesis by (auto simp: splitWithdrawal_def MAX_WITHDRAWAL_FEE_BPS_def)
qed

theorem withdrawal_split_exact_witness:
  "splitWithdrawal 10001 150 = Inr (10001, 150, 9851)"
  using withdrawal_split_exact [of 10001 150] by (auto simp: splitWithdrawal_def Let_def MAX_WITHDRAWAL_FEE_BPS_def CHAIN_BPS_DENOMINATOR_def)

end
