(* ===== verification/Deposit.thy ===== *)
theory Deposit
  imports Money_Effects Custody_Chain
begin

text \<open>
  Deposits (\<open>apps/gateway/src/services/deposit.service.ts\<close>): the intent, its confirmation against the
  chain and its expiry. A confirmation awaits the chain once it has read the deposit; what other
  requests commit meanwhile is \<open>cd_during\<close>. Every statement outside a \<open>$transaction\<close> commits on its
  own, so a handler leaves behind what it wrote before it threw.
\<close>

section \<open>Dependencies\<close>

text \<open>\<open>cd_lock\<close> says whether the Redis lock is free, \<open>cd_parsed\<close> what the RPC node answers (or
  throws), \<open>cd_validKey\<close> what \<open>new PublicKey\<close> accepts.\<close>

record cashier_deps =
  cd_lock :: "string \<Rightarrow> bool"
  cd_parsed :: "string \<Rightarrow> (string, parsed_tx option) res"
  cd_validKey :: "string \<Rightarrow> bool"
  cd_program :: string
  cd_pool :: string
  cd_treasury :: string
  cd_feeBps :: int
  cd_now :: int
  cd_during :: "db \<Rightarrow> db"

section \<open>The tables\<close>

definition walletById :: "string \<Rightarrow> db \<Rightarrow> wallet_row option" where
  "walletById i d = find (\<lambda>w. w_id w = i) (wallets d)"

definition depositById :: "string \<Rightarrow> db \<Rightarrow> deposit_row option" where
  "depositById i d = find (\<lambda>r. d_id r = i) (deposits d)"

definition depositBySignature :: "string \<Rightarrow> db \<Rightarrow> deposit_row option" where
  "depositBySignature s d = find (\<lambda>r. d_signature r = Some s) (deposits d)"

text \<open>A row keeps the unique columns: its id, its key, its signature when it has one.\<close>

definition depositCreate :: "string \<Rightarrow> string \<Rightarrow> int \<Rightarrow> string \<Rightarrow> int \<Rightarrow> db \<Rightarrow> string tx_run" where
  "depositCreate userId walletId amount key now d =
    (case randomUUID d of (i, d1) \<Rightarrow>
      if list_ex (\<lambda>r. d_id r = i) (deposits d) then Inl (DbError (P2002 ''id''))
      else if list_ex (\<lambda>r. d_key r = key) (deposits d) then Inl (DbError (P2002 ''idempotency_key''))
      else Inr (i, d1\<lparr>deposits := deposits d1 @ [\<lparr> d_id = i, d_user = userId, d_wallet = walletId,
             d_status = DEP_PENDING, d_amount = amount, d_signature = None, d_slot = None,
             d_confirmations = 0, d_pool = None, d_key = key, d_failureReason = None,
             d_createdAt = now, d_confirmedAt = None \<rparr>]\<rparr>))"

definition depositUpdate :: "string \<Rightarrow> (deposit_row \<Rightarrow> deposit_row) \<Rightarrow> db \<Rightarrow> (money_error, db) res" where
  "depositUpdate i f d =
    (case depositById i d of
       None \<Rightarrow> Inl (DbError P2025)
     | Some r \<Rightarrow>
         if d_signature (f r) \<noteq> None \<and>
            list_ex (\<lambda>x. d_id x \<noteq> i \<and> d_signature x = d_signature (f r)) (deposits d)
         then Inl (DbError (P2002 ''tx_signature''))
         else Inr (d\<lparr>deposits := upd_rows (\<lambda>x. d_id x = i) f (deposits d)\<rparr>))"

section \<open>Intents\<close>

definition MIN_DEPOSIT_LAMPORTS :: int where
  "MIN_DEPOSIT_LAMPORTS = 10000"

definition DEPOSIT_INTENT_TTL_MS :: int where
  "DEPOSIT_INTENT_TTL_MS = 15 * 60 * 1000"

record deposit_intent =
  di_depositId :: string
  di_amount :: int
  di_poolAddress :: string
  di_programId :: string
  di_expiresAt :: int

definition createDepositIntent :: "cashier_deps \<Rightarrow> string \<Rightarrow> string \<Rightarrow> int \<Rightarrow> db \<Rightarrow> deposit_intent act" where
  "createDepositIntent dep userId walletId amount d =
    (if amount < MIN_DEPOSIT_LAMPORTS then (Inl (BadRequest ''Minimum deposit is 10000 lamports''), d)
     else
       (let expiresAt = cd_now dep + DEPOSIT_INTENT_TTL_MS
        in case randomUUID d of (key, d1) \<Rightarrow>
             act_bind (transaction (depositCreate userId walletId amount (''deposit:'' @ key) (cd_now dep)) d1)
               (\<lambda>i d2. (Inr \<lparr> di_depositId = i, di_amount = amount, di_poolAddress = cd_pool dep,
                              di_programId = cd_program dep, di_expiresAt = expiresAt \<rparr>, d2))))"

section \<open>Confirmation\<close>

datatype confirm_outcome = DepConfirmed int string | DepPending string | DepFailed string

fun depositFailureText :: "chain_failure option \<Rightarrow> string" where
  "depositFailureText (Some TransactionFailed) = ''The on-chain transaction failed''"
| "depositFailureText (Some ProgramNotInvoked) = ''Transaction did not invoke the arena program''"
| "depositFailureText (Some SignerMismatch) = ''Transaction was not signed by the deposit wallet''"
| "depositFailureText (Some AmountMismatch) = ''Transferred amount was less than the requested deposit''"
| "depositFailureText (Some WrongDirection) = ''Transaction did not credit the custody vault''"
| "depositFailureText None = ''Deposit could not be verified''"

definition deposit_key :: "string \<Rightarrow> string" where
  "deposit_key i = ''deposit:'' @ i"

definition depositPost :: "deposit_row \<Rightarrow> pool_account \<Rightarrow> pool_account \<Rightarrow> int \<Rightarrow> string \<Rightarrow> post_params" where
  "depositPost deposit custody external credited grp =
    \<lparr> pp_type = DEPOSIT,
      pp_legs =
        [\<lparr> leg_pool = pa_id external, leg_user = None, leg_direction = DEBIT, leg_amount = credited,
           leg_description = Some ''Deposit from wallet'' \<rparr>,
         \<lparr> leg_pool = pa_id custody, leg_user = Some (d_user deposit), leg_direction = CREDIT,
           leg_amount = credited, leg_description = Some ''Deposit credited'' \<rparr>],
      pp_key = deposit_key (d_id deposit), pp_group = grp, pp_game = None, pp_deposit = Some (d_id deposit),
      pp_withdrawal = None, pp_reward = None \<rparr>"

text \<open>Posting, where an entry that has posted already is no error.\<close>

definition postOnce :: "post_params \<Rightarrow> db \<Rightarrow> unit act" where
  "postOnce p d =
    (case transaction (postEntry p) d of
       (Inl e, d1) \<Rightarrow> (case e of AlreadyPosted k \<Rightarrow> (Inr (), d1) | _ \<Rightarrow> (Inl e, d1))
     | (Inr ids, d1) \<Rightarrow> (Inr (), d1))"

text \<open>From a verified transfer on: the accounts, the entry, the row.\<close>

definition creditDeposit :: "cashier_deps \<Rightarrow> deposit_row \<Rightarrow> string \<Rightarrow> chain_result \<Rightarrow> db \<Rightarrow> confirm_outcome act" where
  "creditDeposit dep deposit signature result d =
    act_bind (transaction (getOrCreateCustodyAccount (d_user deposit)) d) (\<lambda>custody d1.
      case getSystemAccount ''external'' d1 of
        Inl e \<Rightarrow> (Inl e, d1)
      | Inr external \<Rightarrow>
          (let credited = cv_observed result
           in case randomUUID d1 of (entryGroupId, d2) \<Rightarrow>
             act_bind (postOnce (depositPost deposit custody external credited entryGroupId) d2) (\<lambda>_ d3.
               case depositUpdate (d_id deposit)
                      (\<lambda>r. r\<lparr>d_status := DEP_CONFIRMED, d_signature := Some signature,
                             d_slot := Some (cv_slot result), d_confirmations := 1,
                             d_confirmedAt := Some (cd_now dep), d_pool := Some (pa_id custody)\<rparr>) d3 of
                 Inl error \<Rightarrow>
                   (Inl (if isUniqueViolation error (Some ''tx_signature'')
                         then Conflict ''This transaction signature has already been credited''
                         else error), d3)
               | Inr d4 \<Rightarrow> (Inr (DepConfirmed credited signature), d4))))"

text \<open>From the chain's answer on.\<close>

definition settleDeposit :: "cashier_deps \<Rightarrow> deposit_row \<Rightarrow> wallet_row \<Rightarrow> string \<Rightarrow> db \<Rightarrow> confirm_outcome act" where
  "settleDeposit dep deposit wallet signature d =
    (case cd_parsed dep signature of
       Inl m \<Rightarrow> (Inl (ChainError m), d)
     | Inr None \<Rightarrow> (Inr (DepPending ''Transaction not yet visible on chain''), d)
     | Inr (Some parsed) \<Rightarrow>
         if \<not> cd_validKey dep (w_address wallet) then (Inl (ChainError ''Invalid public key''), d)
         else
           (let result = verifyDeposit parsed (cd_program dep) (cd_pool dep) (w_address wallet) (d_amount deposit)
            in if \<not> cv_ok result then
                 (let reason = depositFailureText (cv_failure result)
                  in case depositUpdate (d_id deposit)
                            (\<lambda>r. r\<lparr>d_status := DEP_FAILED, d_failureReason := Some reason\<rparr>) d of
                       Inl e \<Rightarrow> (Inl e, d)
                     | Inr d1 \<Rightarrow> (Inr (DepFailed reason), d1))
               else creditDeposit dep deposit signature result d))"

fun depositStatusText :: "deposit_status \<Rightarrow> string" where
  "depositStatusText DEP_PENDING = ''PENDING''"
| "depositStatusText DEP_CONFIRMED = ''CONFIRMED''"
| "depositStatusText DEP_FAILED = ''FAILED''"
| "depositStatusText DEP_EXPIRED = ''EXPIRED''"

definition confirmDeposit :: "cashier_deps \<Rightarrow> string \<Rightarrow> string \<Rightarrow> string \<Rightarrow> db \<Rightarrow> confirm_outcome act" where
  "confirmDeposit dep userId depositId signature d =
    (if \<not> cd_lock dep (''deposit:'' @ depositId) then (Inl (Conflict ''This deposit is already being confirmed''), d)
     else
       (case depositById depositId d of
          None \<Rightarrow> (Inl (NotFound ''Deposit''), d)
        | Some deposit \<Rightarrow>
            (case walletById (d_wallet deposit) d of
               None \<Rightarrow> (Inl (DbError P2025), d)
             | Some wallet \<Rightarrow>
                 if d_user deposit \<noteq> userId then (Inl (NotFound ''Deposit''), d)
                 else if d_status deposit = DEP_CONFIRMED then
                   (Inr (DepConfirmed (d_amount deposit)
                      (case d_signature deposit of None \<Rightarrow> signature | Some s \<Rightarrow> s)), d)
                 else if d_status deposit \<noteq> DEP_PENDING then
                   (Inl (Conflict (''Deposit is '' @ depositStatusText (d_status deposit) @
                      '' and can no longer be confirmed'')), d)
                 else
                   (case depositBySignature signature d of
                      Some existing \<Rightarrow>
                        if d_id existing \<noteq> d_id deposit
                        then (Inl (Conflict ''This transaction signature has already been credited''), d)
                        else settleDeposit dep deposit wallet signature (cd_during dep d)
                    | None \<Rightarrow> settleDeposit dep deposit wallet signature (cd_during dep d)))))"

section \<open>Expiry\<close>

definition expireStaleDeposits :: "int \<Rightarrow> db \<Rightarrow> nat \<times> db" where
  "expireStaleDeposits olderThan d =
    (let P = (\<lambda>r. d_status r = DEP_PENDING \<and> d_signature r = None \<and> d_createdAt r < olderThan)
     in (length (filter P (deposits d)),
         d\<lparr>deposits := upd_rows P (\<lambda>r. r\<lparr>d_status := DEP_EXPIRED,
             d_failureReason := Some ''No transaction was submitted before the intent expired''\<rparr>) (deposits d)\<rparr>))"

section \<open>The books are kept\<close>

lemma depositUpdate_Inr:
  assumes "depositUpdate i f d = Inr d'"
  shows "d' = d\<lparr>deposits := upd_rows (\<lambda>x. d_id x = i) f (deposits d)\<rparr>"
    and "\<exists>r. depositById i d = Some r \<and>
      (d_signature (f r) \<noteq> None \<longrightarrow> (\<forall>x \<in> set (deposits d). d_id x \<noteq> i \<longrightarrow> d_signature x \<noteq> d_signature (f r)))"
  using assms by (auto simp: depositUpdate_def list_ex_iff split: option.splits if_splits)

lemma depositUpdate_money: "depositUpdate i f d = Inr d' \<Longrightarrow> same_money d d'"
  by (auto dest: depositUpdate_Inr simp: same_money_def)

lemma depositCreate_money: "depositCreate u w a k now d = Inr (i, d') \<Longrightarrow> same_money d d'"
  by (auto simp: depositCreate_def randomUUID_def same_money_def split: if_splits)

lemma transaction_money:
  assumes "\<And>r d'. body d = Inr (r, d') \<Longrightarrow> same_money d d'"
  shows "same_money d (snd (transaction body d))"
  using assms by (auto simp: transaction_def split: sum.split)

lemma randomUUID_money: "same_money d (snd (randomUUID d))"
  by (simp add: randomUUID_def same_money_def)

interpretation custody: ledger_op "getOrCreateCustodyAccount u" for u
  by unfold_locales (rule getOrCreateCustodyAccount_facts(1))

lemma postOnce_keeps: "db_wf d \<Longrightarrow> conserves d (snd (postOnce p d))"
proof -
  assume wf: "db_wf d"
  have "snd (postOnce p d) = snd (transaction (postEntry p) d)"
    by (auto simp: postOnce_def split: prod.split sum.split money_error.split)
  with post.committed.act_conserves [OF wf, of p] show ?thesis by simp
qed

interpretation post_once: ledger_act "postOnce p" for p
  by unfold_locales (rule postOnce_keeps)

definition fair_requests :: "cashier_deps \<Rightarrow> bool" where
  "fair_requests dep \<longleftrightarrow> (\<forall>d. db_wf d \<longrightarrow> conserves d (cd_during dep d))"

lemma creditDeposit_keeps:
  assumes wf: "db_wf d"
  shows "conserves d (snd (creditDeposit dep deposit signature result d))"
  unfolding creditDeposit_def
proof (rule act_bind_keeps [OF wf custody.committed.act_conserves [OF wf]])
  fix c d1
  assume wf1: "db_wf d1"
  define k where "k external = (case randomUUID d1 of (entryGroupId, d2) \<Rightarrow>
             act_bind (postOnce (depositPost deposit c external (cv_observed result) entryGroupId) d2) (\<lambda>_ d3.
               case depositUpdate (d_id deposit)
                      (\<lambda>r. r\<lparr>d_status := DEP_CONFIRMED, d_signature := Some signature,
                             d_slot := Some (cv_slot result), d_confirmations := 1,
                             d_confirmedAt := Some (cd_now dep), d_pool := Some (pa_id c)\<rparr>) d3 of
                 Inl error \<Rightarrow>
                   (Inl (if isUniqueViolation error (Some ''tx_signature'')
                         then Conflict ''This transaction signature has already been credited''
                         else error), d3)
               | Inr d4 \<Rightarrow> (Inr (DepConfirmed (cv_observed result) signature), d4)))" for external
  have "conserves d1 (snd (k external))" for external
  proof -
    obtain g d2 where g: "randomUUID d1 = (g, d2)" by (cases "randomUUID d1")
    have c2: "conserves d1 d2" using same_money_conserves [OF randomUUID_money wf1] g by simp
    then have wf2: "db_wf d2" by (simp add: conserves_def)
    have "conserves d2 (snd (k external))"
      unfolding k_def g prod.case
      by (rule act_bind_keeps [OF wf2 post_once.act_conserves [OF wf2]])
         (auto split: sum.split dest: depositUpdate_money intro: same_money_conserves)
    with c2 show ?thesis by (rule conserves_trans)
  qed
  then show "conserves d1 (snd (case getSystemAccount ''external'' d1 of
        Inl e \<Rightarrow> (Inl e, d1)
      | Inr external \<Rightarrow>
          (let credited = cv_observed result
           in case randomUUID d1 of (entryGroupId, d2) \<Rightarrow>
             act_bind (postOnce (depositPost deposit c external credited entryGroupId) d2) (\<lambda>_ d3.
               case depositUpdate (d_id deposit)
                      (\<lambda>r. r\<lparr>d_status := DEP_CONFIRMED, d_signature := Some signature,
                             d_slot := Some (cv_slot result), d_confirmations := 1,
                             d_confirmedAt := Some (cd_now dep), d_pool := Some (pa_id c)\<rparr>) d3 of
                 Inl error \<Rightarrow>
                   (Inl (if isUniqueViolation error (Some ''tx_signature'')
                         then Conflict ''This transaction signature has already been credited''
                         else error), d3)
               | Inr d4 \<Rightarrow> (Inr (DepConfirmed credited signature), d4)))))"
    using wf1 by (auto simp: k_def Let_def split: sum.split)
qed

lemma confirmDeposit_keeps:
  assumes wf: "db_wf d" and fair: "fair_requests dep"
  shows "conserves d (snd (confirmDeposit dep u i sig d))"
proof -
  have c: "conserves d (cd_during dep d)" using assms by (simp add: fair_requests_def)
  then have wf1: "db_wf (cd_during dep d)" by (simp add: conserves_def)
  have "conserves (cd_during dep d) (snd (settleDeposit dep dp w sig (cd_during dep d)))" for dp w
    unfolding settleDeposit_def Let_def using wf1
    by (auto split: sum.split option.split intro: creditDeposit_keeps same_money_conserves dest: depositUpdate_money)
  with c have "conserves d (snd (settleDeposit dep dp w sig (cd_during dep d)))" for dp w
    by (blast intro: conserves_trans)
  with wf show ?thesis
    unfolding confirmDeposit_def by (auto split: option.split)
qed

section \<open>What a confirmation does\<close>

definition key_unused :: "string \<Rightarrow> db \<Rightarrow> bool" where
  "key_unused k d \<longleftrightarrow> (\<forall>t \<in> set (txs d). \<forall>j. tx_key t \<noteq> k @ '':'' @ show_nat j)"

lemma postOnce_Inr:
  assumes "postOnce p d = (Inr (), d')" and "key_unused (pp_key p) d"
  shows "\<exists>ids. postEntry p d = Inr (ids, d')"
proof (cases "postEntry p d")
  case (Inl e)
  with assms(1) obtain k where "e = AlreadyPosted k" "d' = d"
    by (auto simp: postOnce_def transaction_def split: money_error.splits)
  with Inl postEntry_AlreadyPosted obtain j where "leg_key p j \<in> tx_key ` set (txs d)" by blast
  then obtain t where "t \<in> set (txs d)" "tx_key t = pp_key p @ '':'' @ show_nat j" by (force simp: leg_key_def)
  with assms(2) show ?thesis unfolding key_unused_def by blast
next
  case (Inr r)
  with assms(1) show ?thesis by (cases r) (simp add: postOnce_def transaction_def)
qed

text \<open>The general form: what a posted entry of a cashier leaves.\<close>

lemma postOnce_effect:
  assumes "db_wf d" and "postOnce p d = (Inr (), d')" and "key_unused (pp_key p) d"
  shows "db_wf d'" and "pools d' = map (apply_legs (pp_legs p)) (pools d)" and "same_cashier d d'"
    and "prefix (txs d) (txs d')"
proof -
  obtain ids where r: "postEntry p d = Inr (ids, d')" using postOnce_Inr [OF assms(2,3)] by blast
  from postEntry_conserves [OF assms(1) r] show "db_wf d'" "prefix (txs d) (txs d')" by (simp_all add: conserves_def)
  show "pools d' = map (apply_legs (pp_legs p)) (pools d)"
    using postLegs_effect [OF assms(1) postEntry_Inr(1) [OF r]] by blast
  show "same_cashier d d'" by (rule postEntry_cashier [OF r])
qed

lemma poolByName_mem: "poolByName n d = Some a \<Longrightarrow> a \<in> set (pools d) \<and> pa_name a = n"
  by (auto simp: poolByName_def dest: find_SomeD)

lemma custody_not_system: "custody_name u \<noteq> ''external''" "custody_name u \<noteq> ''treasury''"
  by (simp_all add: custody_name_def)

lemma distinct_accounts:
  assumes "db_wf d" and "poolByName n d = Some a" and "poolByName m d = Some b" and "n \<noteq> m"
  shows "pa_id a \<noteq> pa_id b"
proof
  assume "pa_id a = pa_id b"
  with assms have "a = b"
    using poolByName_mem by (intro distinct_key_eq [where key = pa_id and xs = "pools d"]) (auto simp: db_wf_def)
  with assms show False using poolByName_mem by blast
qed

lemma creditDeposit_fresh:
  assumes wf: "db_wf d" and c: "poolByName (custody_name (d_user deposit)) d = Some c"
    and x: "poolByName ''external'' d = Some x" and new: "key_unused (deposit_key (d_id deposit)) d"
    and run: "creditDeposit dep deposit signature result d = (Inr out, d')"
  shows "out = DepConfirmed (cv_observed result) signature"
    and "balances d' = bump (pa_id x) (- cv_observed result) (bump (pa_id c) (cv_observed result) (balances d))"
    and "deposits d' = upd_rows (\<lambda>r. d_id r = d_id deposit)
           (\<lambda>r. r\<lparr>d_status := DEP_CONFIRMED, d_signature := Some signature, d_slot := Some (cv_slot result),
                  d_confirmations := 1, d_confirmedAt := Some (cd_now dep), d_pool := Some (pa_id c)\<rparr>) (deposits d)"
    and "wallets d' = wallets d"
proof -
  let ?f = "\<lambda>r. r\<lparr>d_status := DEP_CONFIRMED, d_signature := Some signature, d_slot := Some (cv_slot result),
                  d_confirmations := 1, d_confirmedAt := Some (cd_now dep), d_pool := Some (pa_id c)\<rparr>"
  obtain g d2 where g: "randomUUID d = (g, d2)" by (cases "randomUUID d")
  then have d2: "d2 = d\<lparr>drawn := Suc (drawn d)\<rparr>" by (simp add: randomUUID_def)
  let ?p = "depositPost deposit c x (cv_observed result) g"
  have gc: "transaction (getOrCreateCustodyAccount (d_user deposit)) d = (Inr c, d)"
    using c by (simp add: transaction_def getOrCreateCustodyAccount_def)
  have gs: "getSystemAccount ''external'' d = Inr x" using x by (simp add: getSystemAccount_def)
  from run obtain d3 where p: "postOnce ?p d2 = (Inr (), d3)"
    and u: "depositUpdate (d_id deposit) ?f d3 = Inr d'" and out: "out = DepConfirmed (cv_observed result) signature"
    unfolding creditDeposit_def gc act_bind_simps gs sum.case Let_def g prod.case
    by (elim act_bindE) (auto split: sum.splits)
  show "out = DepConfirmed (cv_observed result) signature" by (rule out)
  have wf2: "db_wf d2" using wf by (simp add: d2)
  have "key_unused (pp_key ?p) d2" using new by (simp add: d2 key_unused_def depositPost_def)
  note e = postOnce_effect [OF wf2 p this]
  note du = depositUpdate_Inr(1) [OF u]
  have ne: "pa_id c \<noteq> pa_id x" by (rule distinct_accounts [OF wf c x custody_not_system(1)])
  have "balances d' = map (\<lambda>(i, b). (i, b + net_of i (pp_legs ?p))) (balances d)"
    using e(2) by (intro balances_apply_legs) (simp add: du d2)
  then show "balances d' = bump (pa_id x) (- cv_observed result) (bump (pa_id c) (cv_observed result) (balances d))"
    using ne by (simp add: bump_def depositPost_def leg_delta_def case_prod_unfold comp_def)
  show "deposits d' = upd_rows (\<lambda>r. d_id r = d_id deposit) ?f (deposits d)" "wallets d' = wallets d"
    using e(3) by (simp_all add: du d2 same_cashier_def)
qed

lemma depositById_upd:
  assumes "depositById i d = Some r" and "\<And>x. d_id (f x) = d_id x"
    and "deposits d' = upd_rows (\<lambda>x. d_id x = i) f (deposits d)"
  shows "depositById i d' = Some (f r)"
proof -
  have "find (\<lambda>x. d_id x = i) (upd_rows (\<lambda>x. d_id x = i) f xs) = map_option f (find (\<lambda>x. d_id x = i) xs)" for xs
    using assms(2) by (induction xs) auto
  with assms show ?thesis by (simp add: depositById_def)
qed

section \<open>Properties\<close>

text \<open>
  C18: a deposit that is confirmed credits what the chain moved, once: when a first confirmation answers
  with success, the transaction was signed by the deposit's wallet and raised the vault by the credited
  amount, at least the one announced; the player's account gains it, the external account mirrors it, and
  no other balance changes; the row records the signature; and confirming again, with any signature,
  changes nothing. Any other requests may commit while the chain is asked: the amounts are added to what
  they leave, so long as they do not touch this deposit, which its lock keeps to one confirmation at a
  time. It is said of players who have a custody account. A confirmation that fails on a signature
  recorded meanwhile is outside: \<open>deposit_credited_twice\<close> shows what it leaves.
\<close>

theorem deposit_credits_once:
  assumes e: "e = cd_during dep d" and wf: "db_wf e" and row: "depositById i d = Some r" "d_status r = DEP_PENDING"
    and own: "depositById i e = Some r" "walletById (d_wallet r) e = walletById (d_wallet r) d"
    and c: "poolByName (custody_name u) e = Some c" and x: "poolByName ''external'' e = Some x"
    and new: "key_unused (deposit_key i) e"
    and run: "confirmDeposit dep u i signature d = (Inr (DepConfirmed amount s), d')"
  shows "(\<exists>t w. cd_parsed dep signature = Inr (Some t) \<and> walletById (d_wallet r) d = Some w \<and>
            isSigner t (w_address w) \<and> invokedProgram t (cd_program dep) \<and>
            amount = changeOf t (cd_pool dep) \<and> d_amount r \<le> amount) \<and>
         balances d' = bump (pa_id x) (- amount) (bump (pa_id c) amount (balances e)) \<and>
         (\<exists>r'. depositById i d' = Some r' \<and> d_status r' = DEP_CONFIRMED \<and> d_signature r' = Some signature \<and>
            confirmDeposit dep u i again d' = (Inr (DepConfirmed (d_amount r') signature), d'))"
proof -
  from run have lock: "cd_lock dep (''deposit:'' @ i)" by (auto simp: confirmDeposit_def split: if_splits)
  have ri: "d_id r = i" using row(1) by (auto simp: depositById_def dest: find_SomeD)
  from row run lock obtain w where w: "walletById (d_wallet r) d = Some w" and u: "d_user r = u"
    and sd: "settleDeposit dep r w signature e = (Inr (DepConfirmed amount s), d')"
    by (auto simp: confirmDeposit_def e split: option.splits if_splits)
  then obtain t where t: "cd_parsed dep signature = Inr (Some t)"
    by (auto simp: settleDeposit_def split: sum.splits option.splits)
  let ?v = "verifyDeposit t (cd_program dep) (cd_pool dep) (w_address w) (d_amount r)"
  have ok: "cv_ok ?v" and cr: "creditDeposit dep r signature ?v e = (Inr (DepConfirmed amount s), d')"
    using sd t by (auto simp: settleDeposit_def Let_def split: if_splits sum.splits)
  have c': "poolByName (custody_name (d_user r)) e = Some c" and new': "key_unused (deposit_key (d_id r)) e"
    using c new u ri by simp_all
  note f = creditDeposit_fresh [OF wf c' x new' cr]
  from f(1) have am: "amount = cv_observed ?v" "s = signature" by simp_all
  with ok have "isSigner t (w_address w) \<and> invokedProgram t (cd_program dep) \<and> amount = changeOf t (cd_pool dep) \<and> d_amount r \<le> amount"
    using verifyDeposit_ok verifyDeposit_observed by metis
  moreover obtain r' where r': "depositById i d' = Some r'" "d_status r' = DEP_CONFIRMED" "d_signature r' = Some signature"
    "d_user r' = u" "d_wallet r' = d_wallet r"
    using depositById_upd [OF own(1) _ f(3) [unfolded ri]] u by simp
  moreover have "walletById (d_wallet r') d' = Some w" using w own(2) r' f(4) by (simp add: walletById_def)
  with r' lock have "confirmDeposit dep u i again d' = (Inr (DepConfirmed (d_amount r') signature), d')"
    by (simp add: confirmDeposit_def)
  ultimately show ?thesis using t w f(2) [folded am(1)] by blast
qed

section \<open>Deposits to try things on\<close>

definition sample_wallet :: "string \<Rightarrow> string \<Rightarrow> wallet_row" where
  "sample_wallet i u = \<lparr> w_id = i, w_user = u, w_address = ''w-'' @ u, w_primary = True, w_verifiedAt = Some 0,
     w_createdAt = 0 \<rparr>"

definition sample_deposit :: "string \<Rightarrow> deposit_row" where
  "sample_deposit i = \<lparr> d_id = i, d_user = ''ann'', d_wallet = ''w1'', d_status = DEP_PENDING, d_amount = 40,
     d_signature = None, d_slot = None, d_confirmations = 0, d_pool = None, d_key = ''k'' @ i,
     d_failureReason = None, d_createdAt = 0, d_confirmedAt = None \<rparr>"

definition cashier_db :: db where
  "cashier_db = sample_db\<lparr>wallets := [sample_wallet ''w1'' ''ann''],
     deposits := [sample_deposit ''p'', sample_deposit ''q'']\<rparr>"

definition cashier :: "(db \<Rightarrow> db) \<Rightarrow> cashier_deps" where
  "cashier during = \<lparr> cd_lock = (\<lambda>_. True), cd_parsed = (\<lambda>_. Inr (Some (sample_chain_tx 5 55))),
     cd_validKey = (\<lambda>_. True), cd_program = ''arena'', cd_pool = ''vault'', cd_treasury = ''treasury'',
     cd_feeBps = 100, cd_now = 7, cd_during = during \<rparr>"

lemmas cashier_eval = cashier_def confirmDeposit_def depositById_def walletById_def depositBySignature_def
  settleDeposit_def verifyDeposit_def txErr_def invokedProgram_def isSigner_def changeOf_def parseBalanceChanges_def
  sample_chain_tx_def nthOr0_def creditDeposit_def transaction_def getOrCreateCustodyAccount_def poolByName_def
  getSystemAccount_def randomUUID_def postOnce_def postEntry_def assertBalanced_def depositPost_def deposit_key_def
  poolById_def leg_delta_def mayGoNegative_def poolUpdateMany_def setBalance_def txCreate_def leg_tx_def leg_key_def
  depositUpdate_def isUniqueViolation_def sample_deposit_def sample_wallet_def custody_name_def
  sample_account_def show_nat.simps digit_def Let_def

lemma cashier_db_wf [simp]: "db_wf cashier_db"
  using sample_db_wf by (simp add: cashier_db_def db_wf_def)

lemma cashier_confirms:
  "\<exists>d'. confirmDeposit (cashier id) ''ann'' ''p'' ''sig'' cashier_db = (Inr (DepConfirmed 50 ''sig''), d')"
  by (simp add: cashier_eval cashier_db_def sample_db_def)

theorem deposit_credits_once_witness:
  "\<exists>d'. confirmDeposit (cashier id) ''ann'' ''p'' ''sig'' cashier_db = (Inr (DepConfirmed 50 ''sig''), d') \<and>
     balances d' = [(''x'', -150), (''r'', 0), (''a'', 110), (''b'', 40)]"
proof -
  obtain d' where r: "confirmDeposit (cashier id) ''ann'' ''p'' ''sig'' cashier_db = (Inr (DepConfirmed 50 ''sig''), d')"
    using cashier_confirms by blast
  have "depositById ''p'' cashier_db = Some (sample_deposit ''p'')" "d_status (sample_deposit ''p'') = DEP_PENDING"
    "poolByName (custody_name ''ann'') cashier_db = Some (sample_account ''a'' USER_CUSTODY ''custody:ann'' (Some ''ann'') None 60 0)"
    "poolByName ''external'' cashier_db = Some (sample_account ''x'' EXTERNAL ''external'' None None (-100) 0)"
    "key_unused (deposit_key ''p'') cashier_db" "cashier_db = cd_during (cashier id) cashier_db"
    by (simp_all add: cashier_db_def sample_db_def depositById_def sample_deposit_def poolByName_def sample_account_def
        custody_name_def key_unused_def cashier_def)
  from deposit_credits_once [OF this(6) cashier_db_wf this(1,2,1) refl this(3-5) r] r show ?thesis
    by (simp add: balances_def bump_def cashier_db_def sample_db_def sample_account_def)
qed

text \<open>
  one transfer can be credited twice: while a confirmation awaits the chain, a confirmation of
  another deposit with the same signature goes through; the first then posts its own entry before it
  runs into the unique signature, answers that the transfer has been credited already, and leaves its
  credit in place. The external account shows twice what the vault received.
\<close>

theorem deposit_credited_twice:
  "\<exists>d'. confirmDeposit (cashier (\<lambda>d. snd (confirmDeposit (cashier id) ''ann'' ''q'' ''sig'' d))) ''ann'' ''p'' ''sig'' cashier_db
       = (Inl (Conflict ''This transaction signature has already been credited''), d') \<and>
     changeOf (sample_chain_tx 5 55) ''vault'' = 50 \<and>
     balances d' = [(''x'', -200), (''r'', 0), (''a'', 160), (''b'', 40)]"
  by (simp add: cashier_eval cashier_db_def sample_db_def balances_def)

end
