(* ===== verification/Withdrawal.thy ===== *)
theory Withdrawal
  imports Deposit
begin

text \<open>
  Withdrawals (\<open>apps/gateway/src/services/withdrawal.service.ts\<close>): the quote, the intent that reserves
  the amount, the confirmation against the chain, failure and expiry. A confirmation awaits the chain
  after it has read the row; what commits meanwhile is \<open>cd_during\<close>, as for deposits.
\<close>

section \<open>The table\<close>

definition withdrawalById :: "string \<Rightarrow> db \<Rightarrow> withdrawal_row option" where
  "withdrawalById i d = find (\<lambda>r. wd_id r = i) (withdrawals d)"

definition withdrawalBySignature :: "string \<Rightarrow> db \<Rightarrow> withdrawal_row option" where
  "withdrawalBySignature s d = find (\<lambda>r. wd_signature r = Some s) (withdrawals d)"

definition withdrawalCreate :: "string \<Rightarrow> string \<Rightarrow> int \<Rightarrow> int \<Rightarrow> withdrawal_status \<Rightarrow> string \<Rightarrow> int \<Rightarrow> db
    \<Rightarrow> string tx_run" where
  "withdrawalCreate userId walletId amount fee st key now d =
    (case randomUUID d of (i, d1) \<Rightarrow>
      if list_ex (\<lambda>r. wd_id r = i) (withdrawals d) then Inl (DbError (P2002 ''id''))
      else if list_ex (\<lambda>r. wd_key r = key) (withdrawals d) then Inl (DbError (P2002 ''idempotency_key''))
      else Inr (i, d1\<lparr>withdrawals := withdrawals d1 @ [\<lparr> wd_id = i, wd_user = userId, wd_wallet = walletId,
             wd_status = st, wd_amount = amount, wd_fee = fee, wd_signature = None, wd_key = key,
             wd_failureReason = None, wd_requestedAt = now, wd_confirmedAt = None \<rparr>]\<rparr>))"

definition withdrawalUpdate :: "string \<Rightarrow> (withdrawal_row \<Rightarrow> withdrawal_row) \<Rightarrow> db \<Rightarrow> (money_error, db) res" where
  "withdrawalUpdate i f d =
    (case withdrawalById i d of
       None \<Rightarrow> Inl (DbError P2025)
     | Some r \<Rightarrow>
         if wd_signature (f r) \<noteq> None \<and>
            list_ex (\<lambda>x. wd_id x \<noteq> i \<and> wd_signature x = wd_signature (f r)) (withdrawals d)
         then Inl (DbError (P2002 ''tx_signature''))
         else Inr (d\<lparr>withdrawals := upd_rows (\<lambda>x. wd_id x = i) f (withdrawals d)\<rparr>))"

section \<open>Quotes and intents\<close>

definition MIN_WITHDRAWAL_LAMPORTS :: int where
  "MIN_WITHDRAWAL_LAMPORTS = 10000"

definition REVIEW_THRESHOLD_LAMPORTS :: int where
  "REVIEW_THRESHOLD_LAMPORTS = 50000000000"

definition WITHDRAWAL_INTENT_TTL_MS :: int where
  "WITHDRAWAL_INTENT_TTL_MS = 15 * 60 * 1000"

record withdrawal_quote =
  wq_gross :: int
  wq_fee :: int
  wq_net :: int
  wq_feeBps :: int
  wq_spendable :: int

definition splitOrThrow :: "int \<Rightarrow> int \<Rightarrow> (money_error, int \<times> int \<times> int) res" where
  "splitOrThrow amount bps =
    (case splitWithdrawal amount bps of
       Inl NegativeAmount \<Rightarrow> Inl (ChainError ''Withdrawal amount must be positive'')
     | Inl FeeOutOfRange \<Rightarrow> Inl (ChainError ''Withdrawal fee must be between 0 and 200 bps'')
     | Inr r \<Rightarrow> Inr r)"

definition quoteWithdrawal :: "cashier_deps \<Rightarrow> string \<Rightarrow> int \<Rightarrow> db \<Rightarrow> withdrawal_quote act" where
  "quoteWithdrawal dep userId amount d =
    act_bind (transaction (getOrCreateCustodyAccount userId) d) (\<lambda>custody d1.
      case splitOrThrow amount (cd_feeBps dep) of
        Inl e \<Rightarrow> (Inl e, d1)
      | Inr (gross, fee, net) \<Rightarrow>
          (Inr \<lparr> wq_gross = gross, wq_fee = fee, wq_net = net, wq_feeBps = cd_feeBps dep,
                wq_spendable = spendable custody \<rparr>, d1))"

record withdrawal_intent =
  wi_withdrawalId :: string
  wi_gross :: int
  wi_fee :: int
  wi_net :: int
  wi_programId :: string
  wi_expiresAt :: int
  wi_requiresReview :: bool

text \<open>The transaction: check, reserve under the version, record.\<close>

definition reserveWithdrawal :: "string \<Rightarrow> string \<Rightarrow> int \<Rightarrow> int \<Rightarrow> bool \<Rightarrow> int \<Rightarrow> db \<Rightarrow> string tx_run" where
  "reserveWithdrawal userId walletId gross fee requiresReview now d =
    rbind (orThrow (poolByName (custody_name userId) d)) (\<lambda>custody.
      if spendable custody < gross then Inl (BadRequest ''Insufficient spendable balance'')
      else
        (case poolUpdateMany (pa_id custody) (pa_version custody) (setReserved (pa_reserved custody + gross)) d of
           (count, d1) \<Rightarrow>
             if count = 0 then Inl (Conflict ''Balance changed while creating the withdrawal; retry'')
             else
               (case randomUUID d1 of (key, d2) \<Rightarrow>
                  withdrawalCreate userId walletId gross fee
                    (if requiresReview then WD_PENDING_REVIEW else WD_APPROVED) (''withdrawal:'' @ key) now d2)))"

definition createWithdrawalIntent :: "cashier_deps \<Rightarrow> string \<Rightarrow> string \<Rightarrow> int \<Rightarrow> db \<Rightarrow> withdrawal_intent act" where
  "createWithdrawalIntent dep userId walletId amount d =
    (if amount < MIN_WITHDRAWAL_LAMPORTS then (Inl (BadRequest ''Minimum withdrawal is 10000 lamports''), d)
     else
       (case walletById walletId d of
          None \<Rightarrow> (Inl (NotFound ''Wallet''), d)
        | Some wallet \<Rightarrow>
            if w_user wallet \<noteq> userId then (Inl (NotFound ''Wallet''), d)
            else if w_verifiedAt wallet = None
              then (Inl (Forbidden ''Wallet ownership has not been verified''), d)
            else
              (case splitOrThrow amount (cd_feeBps dep) of
                 Inl e \<Rightarrow> (Inl e, d)
               | Inr (gross, fee, net) \<Rightarrow>
                   (let requiresReview = (REVIEW_THRESHOLD_LAMPORTS \<le> gross)
                    in act_bind (transaction (reserveWithdrawal userId walletId gross fee requiresReview (cd_now dep)) d)
                         (\<lambda>i d1. (Inr \<lparr> wi_withdrawalId = i, wi_gross = gross, wi_fee = fee, wi_net = net,
                            wi_programId = cd_program dep, wi_expiresAt = cd_now dep + WITHDRAWAL_INTENT_TTL_MS,
                            wi_requiresReview = requiresReview \<rparr>, d1))))))"

section \<open>Releasing and failing\<close>

text \<open>The clamp, and an update by id: the version is neither checked nor bumped.\<close>

definition clampReserved :: "int \<Rightarrow> pool_account \<Rightarrow> pool_account" where
  "clampReserved next a = a\<lparr>pa_reserved := (if 0 < next then next else 0)\<rparr>"

text \<open>The reservation is read and the rest of it written back; \<open>between\<close> is what commits in the gap.\<close>

definition releaseAround :: "(db \<Rightarrow> db) \<Rightarrow> string \<Rightarrow> int \<Rightarrow> db \<Rightarrow> db" where
  "releaseAround between userId amount d =
    (case poolByName (custody_name userId) d of
       None \<Rightarrow> d
     | Some custody \<Rightarrow>
         (let d1 = between d
          in d1\<lparr>pools := upd_rows (\<lambda>a. pa_id a = pa_id custody) (clampReserved (pa_reserved custody - amount)) (pools d1)\<rparr>))"

text \<open>With nothing in the gap.\<close>

definition releaseReservation :: "string \<Rightarrow> int \<Rightarrow> db \<Rightarrow> db" where
  "releaseReservation userId amount d = releaseAround (\<lambda>d. d) userId amount d"

lemma releaseReservation_eq:
  "releaseReservation userId amount d =
    (case poolByName (custody_name userId) d of
       None \<Rightarrow> d
     | Some custody \<Rightarrow>
         d\<lparr>pools := upd_rows (\<lambda>a. pa_id a = pa_id custody) (clampReserved (pa_reserved custody - amount)) (pools d)\<rparr>)"
  unfolding releaseReservation_def releaseAround_def Let_def by (rule refl)

definition failWithdrawal :: "string \<Rightarrow> string \<Rightarrow> int \<Rightarrow> string \<Rightarrow> db \<Rightarrow> unit act" where
  "failWithdrawal withdrawalId userId reservedAmount reason d =
    (case withdrawalUpdate withdrawalId (\<lambda>r. r\<lparr>wd_status := WD_FAILED, wd_failureReason := Some reason\<rparr>) d of
       Inl e \<Rightarrow> (Inl e, d)
     | Inr d1 \<Rightarrow> (Inr (), releaseReservation userId reservedAmount d1))"

definition EXPIRED_REASON :: string where
  "EXPIRED_REASON = ''Intent expired before a transaction was submitted''"

fun failAll :: "withdrawal_row list \<Rightarrow> db \<Rightarrow> unit act" where
  "failAll [] d = (Inr (), d)"
| "failAll (r # rs) d =
    act_bind (failWithdrawal (wd_id r) (wd_user r) (wd_amount r) EXPIRED_REASON d) (\<lambda>_ d1. failAll rs d1)"

definition expireStaleWithdrawals :: "int \<Rightarrow> db \<Rightarrow> nat act" where
  "expireStaleWithdrawals olderThan d =
    (let stale = filter (\<lambda>r. (wd_status r = WD_APPROVED \<or> wd_status r = WD_REQUESTED) \<and>
                              wd_signature r = None \<and> wd_requestedAt r < olderThan) (withdrawals d)
     in act_bind (failAll stale d) (\<lambda>_ d1. (Inr (length stale), d1)))"

section \<open>Confirmation\<close>

datatype withdrawal_outcome = WdConfirmed string int int | WdPending string | WdFailed string

fun withdrawalFailureText :: "chain_failure option \<Rightarrow> string" where
  "withdrawalFailureText (Some TransactionFailed) = ''The on-chain transaction failed''"
| "withdrawalFailureText (Some ProgramNotInvoked) = ''Transaction did not invoke the arena program''"
| "withdrawalFailureText (Some SignerMismatch) = ''Transaction was not signed by the withdrawal wallet''"
| "withdrawalFailureText (Some AmountMismatch) = ''On-chain amounts did not match the requested withdrawal''"
| "withdrawalFailureText (Some WrongDirection) = ''Transaction did not debit the custody vault''"
| "withdrawalFailureText None = ''Withdrawal could not be verified''"

definition withdrawal_key :: "string \<Rightarrow> string" where
  "withdrawal_key i = ''withdrawal:'' @ i"

definition withdrawalLegs :: "withdrawal_row \<Rightarrow> pool_account \<Rightarrow> pool_account \<Rightarrow> pool_account \<Rightarrow> ledger_leg list" where
  "withdrawalLegs w custody external treasury =
    [\<lparr> leg_pool = pa_id custody, leg_user = Some (wd_user w), leg_direction = DEBIT, leg_amount = wd_amount w,
       leg_description = Some ''Withdrawal to wallet'' \<rparr>,
     \<lparr> leg_pool = pa_id external, leg_user = None, leg_direction = CREDIT, leg_amount = wd_amount w - wd_fee w,
       leg_description = Some ''Net paid to wallet'' \<rparr>] @
    (if 0 < wd_fee w
     then [\<lparr> leg_pool = pa_id treasury, leg_user = None, leg_direction = CREDIT, leg_amount = wd_fee w,
             leg_description = Some ''Withdrawal fee'' \<rparr>]
     else [])"

definition withdrawalPost :: "withdrawal_row \<Rightarrow> ledger_leg list \<Rightarrow> string \<Rightarrow> post_params" where
  "withdrawalPost w legs grp =
    \<lparr> pp_type = WITHDRAWAL, pp_legs = legs, pp_key = withdrawal_key (wd_id w), pp_group = grp, pp_game = None,
      pp_deposit = None, pp_withdrawal = Some (wd_id w), pp_reward = None \<rparr>"

text \<open>Once the entry is posted: release the reservation, then mark the row.\<close>

definition debitTail :: "cashier_deps \<Rightarrow> withdrawal_row \<Rightarrow> string \<Rightarrow> db \<Rightarrow> withdrawal_outcome act" where
  "debitTail dep w signature d =
    (let d4 = releaseReservation (wd_user w) (wd_amount w) d
     in case withdrawalUpdate (wd_id w)
               (\<lambda>r. r\<lparr>wd_status := WD_CONFIRMED, wd_signature := Some signature,
                      wd_confirmedAt := Some (cd_now dep)\<rparr>) d4 of
          Inl error \<Rightarrow>
            (Inl (if isUniqueViolation error (Some ''tx_signature'')
                  then Conflict ''This transaction signature is already recorded'' else error), d4)
        | Inr d5 \<Rightarrow> (Inr (WdConfirmed signature (wd_amount w - wd_fee w) (wd_fee w)), d5))"

text \<open>From a verified transfer on: the accounts, the entry, the reservation, the row.\<close>

definition debitWithdrawal :: "cashier_deps \<Rightarrow> withdrawal_row \<Rightarrow> string \<Rightarrow> db \<Rightarrow> withdrawal_outcome act" where
  "debitWithdrawal dep w signature d =
    act_bind (transaction (getOrCreateCustodyAccount (wd_user w)) d) (\<lambda>custody d1.
      case rbind (getSystemAccount ''external'' d1) (\<lambda>external.
             rbind (getSystemAccount ''treasury'' d1) (\<lambda>treasury. Inr (external, treasury))) of
        Inl e \<Rightarrow> (Inl e, d1)
      | Inr (external, treasury) \<Rightarrow>
          (case randomUUID d1 of (entryGroupId, d2) \<Rightarrow>
             act_bind (postOnce (withdrawalPost w (withdrawalLegs w custody external treasury) entryGroupId) d2)
               (\<lambda>_ d3. debitTail dep w signature d3)))"

definition settleWithdrawal :: "cashier_deps \<Rightarrow> withdrawal_row \<Rightarrow> wallet_row \<Rightarrow> string \<Rightarrow> db \<Rightarrow> withdrawal_outcome act" where
  "settleWithdrawal dep w wallet signature d =
    (case cd_parsed dep signature of
       Inl m \<Rightarrow> (Inl (ChainError m), d)
     | Inr None \<Rightarrow>
         (case withdrawalUpdate (wd_id w) (\<lambda>r. r\<lparr>wd_status := WD_SUBMITTED, wd_signature := Some signature\<rparr>) d of
            Inl e \<Rightarrow> (Inl e, d)
          | Inr d1 \<Rightarrow> (Inr (WdPending ''Transaction not yet visible on chain''), d1))
     | Inr (Some parsed) \<Rightarrow>
         if \<not> cd_validKey dep (w_address wallet) then (Inl (ChainError ''Invalid public key''), d)
         else
           (let result = verifyWithdrawal parsed (cd_program dep) (cd_pool dep) (cd_treasury dep)
                           (w_address wallet) (wd_amount w) (wd_fee w)
            in if \<not> cv_ok result then
                 (let reason = withdrawalFailureText (cv_failure result)
                  in act_bind (failWithdrawal (wd_id w) (wd_user w) (wd_amount w) reason d)
                       (\<lambda>_ d1. (Inr (WdFailed reason), d1)))
               else debitWithdrawal dep w signature d))"

fun withdrawalStatusText :: "withdrawal_status \<Rightarrow> string" where
  "withdrawalStatusText WD_REQUESTED = ''REQUESTED''"
| "withdrawalStatusText WD_PENDING_REVIEW = ''PENDING_REVIEW''"
| "withdrawalStatusText WD_APPROVED = ''APPROVED''"
| "withdrawalStatusText WD_SUBMITTED = ''SUBMITTED''"
| "withdrawalStatusText WD_CONFIRMED = ''CONFIRMED''"
| "withdrawalStatusText WD_FAILED = ''FAILED''"
| "withdrawalStatusText WD_REJECTED = ''REJECTED''"

definition confirmWithdrawal :: "cashier_deps \<Rightarrow> string \<Rightarrow> string \<Rightarrow> string \<Rightarrow> db \<Rightarrow> withdrawal_outcome act" where
  "confirmWithdrawal dep userId withdrawalId signature d =
    (if \<not> cd_lock dep (''withdrawal:'' @ withdrawalId)
     then (Inl (Conflict ''This withdrawal is already being confirmed''), d)
     else
       (case withdrawalById withdrawalId d of
          None \<Rightarrow> (Inl (NotFound ''Withdrawal''), d)
        | Some w \<Rightarrow>
            (case walletById (wd_wallet w) d of
               None \<Rightarrow> (Inl (DbError P2025), d)
             | Some wallet \<Rightarrow>
                 if wd_user w \<noteq> userId then (Inl (NotFound ''Withdrawal''), d)
                 else if wd_status w = WD_CONFIRMED then
                   (Inr (WdConfirmed (case wd_signature w of None \<Rightarrow> signature | Some s \<Rightarrow> s)
                      (wd_amount w - wd_fee w) (wd_fee w)), d)
                 else if wd_status w \<noteq> WD_APPROVED \<and> wd_status w \<noteq> WD_SUBMITTED then
                   (Inl (Conflict (''Withdrawal is '' @ withdrawalStatusText (wd_status w) @
                      '' and cannot be confirmed'')), d)
                 else
                   (case withdrawalBySignature signature d of
                      Some duplicate \<Rightarrow>
                        if wd_id duplicate \<noteq> wd_id w
                        then (Inl (Conflict ''This transaction signature is already recorded''), d)
                        else settleWithdrawal dep w wallet signature (cd_during dep d)
                    | None \<Rightarrow> settleWithdrawal dep w wallet signature (cd_during dep d)))))"

section \<open>The books are kept\<close>

lemma withdrawalUpdate_Inr:
  assumes "withdrawalUpdate i f d = Inr d'"
  shows "d' = d\<lparr>withdrawals := upd_rows (\<lambda>x. wd_id x = i) f (withdrawals d)\<rparr>"
  using assms by (auto simp: withdrawalUpdate_def split: option.splits if_splits)

lemma withdrawalUpdate_money: "withdrawalUpdate i f d = Inr d' \<Longrightarrow> same_money d d'"
  by (auto dest: withdrawalUpdate_Inr simp: same_money_def)

lemma withdrawalCreate_Inr:
  assumes "withdrawalCreate u w a fee st k now d = Inr (i, d')"
  shows "same_money d d'" and "\<exists>r. withdrawals d' = withdrawals d @ [r] \<and> wd_id r = i \<and> wd_user r = u \<and>
    wd_amount r = a \<and> wd_fee r = fee \<and> wd_status r = st \<and> wd_signature r = None"
  using assms by (auto simp: withdrawalCreate_def randomUUID_def same_money_def split: if_splits)

text \<open>A change of the reserved amount alone, versioned or not.\<close>

lemma clampReserved_sel [simp]:
  "pa_balance (clampReserved n a) = pa_balance a" "pa_id (clampReserved n a) = pa_id a"
  "pa_name (clampReserved n a) = pa_name a" "pa_owner (clampReserved n a) = pa_owner a"
  "pa_game (clampReserved n a) = pa_game a" "pa_kind (clampReserved n a) = pa_kind a"
  "pa_reserved (clampReserved n a) = max 0 n"
  by (simp_all add: clampReserved_def)

lemma releaseReservation_keeps:
  assumes "db_wf d"
  shows "conserves d (releaseReservation u a d)"
proof (cases "poolByName (custody_name u) d")
  case None
  with assms show ?thesis by (simp add: releaseReservation_eq)
next
  case (Some c)
  have t: "map pa_balance (upd_rows P (clampReserved n) ps) = map pa_balance ps" for P n ps
    by (simp add: upd_rows_def)
  show ?thesis
    using assms Some unfolding conserves_def db_wf_def
    by (simp add: releaseReservation_eq map_key_upd_rows map_filter_upd_rows poolTotal_def ledgerNet_def t)
qed

lemma releaseReservation_frame [simp]:
  "balances (releaseReservation u a d) = balances d" "withdrawals (releaseReservation u a d) = withdrawals d"
  "deposits (releaseReservation u a d) = deposits d" "wallets (releaseReservation u a d) = wallets d"
  "txs (releaseReservation u a d) = txs d" "stakes (releaseReservation u a d) = stakes d"
  by (simp_all add: releaseReservation_eq balances_def upd_rows_def split: option.split)

interpretation fail_withdrawal: ledger_act "failWithdrawal i u a reason" for i u a reason
  by unfold_locales
     (auto simp: failWithdrawal_def split: sum.split dest: withdrawalUpdate_money
       intro: conserves_trans [OF same_money_conserves releaseReservation_keeps]
       same_money_conserves [THEN conservesD(1)])

lemma failAll_keeps: "db_wf d \<Longrightarrow> conserves d (snd (failAll rs d))"
  by (induction rs arbitrary: d) (auto intro!: act_bind_keeps fail_withdrawal.act_conserves)

lemma expireStaleWithdrawals_keeps: "db_wf d \<Longrightarrow> conserves d (snd (expireStaleWithdrawals t d))"
  unfolding expireStaleWithdrawals_def Let_def by (rule act_bind_keeps) (auto intro: failAll_keeps)

text \<open>Reserving: the account, the row, nothing else.\<close>

lemma reserveWithdrawal_Inr:
  assumes "db_wf d" and "reserveWithdrawal u w gross fee rv now d = Inr (i, d')"
  obtains c where "poolByName (custody_name u) d = Some c" and "gross \<le> spendable c"
    and "pools d' = upd_rows (\<lambda>a. pa_id a = pa_id c) (setReserved (pa_reserved c + gross)) (pools d)"
    and "conserves d d'" and "txs d' = txs d"
    and "\<exists>r. withdrawals d' = withdrawals d @ [r] \<and> wd_id r = i \<and> wd_user r = u \<and> wd_amount r = gross \<and>
           wd_fee r = fee \<and> wd_status r = (if rv then WD_PENDING_REVIEW else WD_APPROVED) \<and> wd_signature r = None"
proof -
  from assms(2) obtain c where c: "poolByName (custody_name u) d = Some c"
    by (cases "poolByName (custody_name u) d") (auto simp: reserveWithdrawal_def orThrow_def)
  have cm: "c \<in> set (pools d)" using poolByName_mem [OF c] by blast
  let ?f = "setReserved (pa_reserved c + gross)"
  let ?d1 = "d\<lparr>pools := upd_rows (\<lambda>a. pa_id a = pa_id c) ?f (pools d)\<rparr>"
  have up: "poolUpdate (pa_id c) (pa_version c) ?f d = Inr ?d1" by (rule poolUpdate_ok [OF assms(1) cm])
  then obtain n where n: "poolUpdateMany (pa_id c) (pa_version c) ?f d = (n, ?d1)" "n \<noteq> 0"
    by (auto simp: poolUpdate_def split: prod.splits if_splits)
  have cons: "conserves d ?d1" by (rule setReserved_conserves(1) [OF assms(1) up])
  obtain k d2 where k: "randomUUID ?d1 = (k, d2)" by (cases "randomUUID ?d1")
  then have d2: "d2 = ?d1\<lparr>drawn := Suc (drawn d)\<rparr>" by (simp add: randomUUID_def)
  from assms(2) c n k have g: "gross \<le> spendable c"
    and cr: "withdrawalCreate u w gross fee (if rv then WD_PENDING_REVIEW else WD_APPROVED) (''withdrawal:'' @ k) now d2 = Inr (i, d')"
    by (auto simp: reserveWithdrawal_def orThrow_def not_less split: if_splits)
  note wc = withdrawalCreate_Inr [OF cr]
  show thesis
  proof (rule that [OF c g])
    show "pools d' = upd_rows (\<lambda>a. pa_id a = pa_id c) ?f (pools d)" "txs d' = txs d"
      using wc(1) by (simp_all add: same_money_def d2)
    have "conserves d d2" using cons by (simp add: d2 conserves_ext)
    moreover have "db_wf d2" using calculation by (simp add: conserves_def)
    ultimately show "conserves d d'" using same_money_conserves [OF wc(1)] by (blast intro: conserves_trans)
    show "\<exists>r. withdrawals d' = withdrawals d @ [r] \<and> wd_id r = i \<and> wd_user r = u \<and> wd_amount r = gross \<and>
           wd_fee r = fee \<and> wd_status r = (if rv then WD_PENDING_REVIEW else WD_APPROVED) \<and> wd_signature r = None"
      using wc(2) by (simp add: d2)
  qed
qed

interpretation reserve_withdrawal: ledger_op "reserveWithdrawal u w gross fee rv now" for u w gross fee rv now
  by unfold_locales (rule reserveWithdrawal_Inr)

lemma debitTail_keeps: "db_wf d \<Longrightarrow> conserves d (snd (debitTail dep w signature d))"
  by (auto simp: debitTail_def Let_def split: sum.split dest: withdrawalUpdate_money
      intro: releaseReservation_keeps conserves_trans [OF releaseReservation_keeps]
        same_money_conserves [OF _ conservesD(1) [OF releaseReservation_keeps]])

lemma debitWithdrawal_keeps:
  assumes wf: "db_wf d"
  shows "conserves d (snd (debitWithdrawal dep w signature d))"
  unfolding debitWithdrawal_def
proof (rule act_bind_keeps [OF wf custody.committed.act_conserves [OF wf]])
  fix c d1 assume wf1: "db_wf d1"
  obtain g d2 where g: "randomUUID d1 = (g, d2)" by (cases "randomUUID d1")
  have c2: "conserves d1 d2" using same_money_conserves [OF randomUUID_money wf1] g by simp
  then have wf2: "db_wf d2" by (simp add: conserves_def)
  have "conserves d1 (snd (act_bind (postOnce p d2) (\<lambda>_ d3. debitTail dep w signature d3)))" for p
    by (rule conserves_trans [OF c2]) (rule act_bind_keeps [OF wf2 post_once.act_conserves [OF wf2] debitTail_keeps])
  with wf1 show "conserves d1 (snd (case rbind (getSystemAccount ''external'' d1) (\<lambda>external.
             rbind (getSystemAccount ''treasury'' d1) (\<lambda>treasury. Inr (external, treasury))) of
        Inl e \<Rightarrow> (Inl e, d1)
      | Inr (external, treasury) \<Rightarrow>
          (case randomUUID d1 of (entryGroupId, d2) \<Rightarrow>
             act_bind (postOnce (withdrawalPost w (withdrawalLegs w c external treasury) entryGroupId) d2)
               (\<lambda>_ d3. debitTail dep w signature d3))))"
    by (auto simp: g split: sum.split prod.split)
qed

lemma confirmWithdrawal_keeps:
  assumes wf: "db_wf d" and fair: "fair_requests dep"
  shows "conserves d (snd (confirmWithdrawal dep u i sig d))"
proof -
  have c: "conserves d (cd_during dep d)" using assms by (simp add: fair_requests_def)
  then have wf1: "db_wf (cd_during dep d)" by (simp add: conserves_def)
  have "conserves (cd_during dep d) (snd (settleWithdrawal dep w wl sig (cd_during dep d)))" for w wl
    unfolding settleWithdrawal_def Let_def using wf1
    by (auto split: sum.split option.split intro!: debitWithdrawal_keeps act_bind_keeps fail_withdrawal.act_conserves
        intro: same_money_conserves dest: withdrawalUpdate_money)
  with c have "conserves d (snd (settleWithdrawal dep w wl sig (cd_during dep d)))" for w wl
    by (blast intro: conserves_trans)
  with wf show ?thesis
    unfolding confirmWithdrawal_def by (auto split: option.split)
qed

lemma createWithdrawalIntent_keeps: "db_wf d \<Longrightarrow> conserves d (snd (createWithdrawalIntent dep u w a d))"
  unfolding createWithdrawalIntent_def Let_def
  by (auto split: option.split sum.split prod.split intro!: act_bind_keeps reserve_withdrawal.committed.act_conserves)

lemma createDepositIntent_keeps:
  assumes wf: "db_wf d"
  shows "conserves d (snd (createDepositIntent dep u w a d))"
proof -
  obtain g d1 where g: "randomUUID d = (g, d1)" by (cases "randomUUID d")
  then have m: "same_money d d1" using randomUUID_money [of d] by simp
  have "same_money d1 (snd (act_bind (transaction (depositCreate u w a k now) d1) (\<lambda>i d2. (Inr (f i), d2))))"
    for k now and f :: "string \<Rightarrow> deposit_intent"
    by (rule same_money_bind [OF transaction_money]) (auto dest: depositCreate_money)
  from same_money_conserves [OF same_money_trans [OF m this] wf] show ?thesis
    by (simp add: createDepositIntent_def Let_def g wf)
qed

lemma expireStaleDeposits_keeps: "db_wf d \<Longrightarrow> conserves d (snd (expireStaleDeposits t d))"
  by (simp add: expireStaleDeposits_def Let_def conserves_ext)

section \<open>What a confirmation does\<close>

lemma find_map: "find P (map f xs) = map_option f (find (P \<circ> f) xs)"
  by (induction xs) auto

lemma bump_bump_net:
  assumes "i \<noteq> j" and "i \<noteq> k" and "j \<noteq> k"
  shows "map (\<lambda>(l, b). (l, b + (if l = i then x else if l = j then y else if l = k then z else 0))) bs =
    bump i x (bump j y (bump k (z :: int) bs))"
  using assms by (auto simp: bump_def)

lemma debitWithdrawal_fresh:
  assumes wf: "db_wf d" and c: "poolByName (custody_name (wd_user w)) d = Some c"
    and x: "poolByName ''external'' d = Some x" and t: "poolByName ''treasury'' d = Some tr"
    and new: "key_unused (withdrawal_key (wd_id w)) d" and fee: "0 \<le> wd_fee w"
    and run: "debitWithdrawal dep w signature d = (Inr out, d')"
  shows "out = WdConfirmed signature (wd_amount w - wd_fee w) (wd_fee w)"
    and "balances d' = bump (pa_id c) (- wd_amount w) (bump (pa_id x) (wd_amount w - wd_fee w) (bump (pa_id tr) (wd_fee w) (balances d)))"
    and "withdrawals d' = upd_rows (\<lambda>r. wd_id r = wd_id w)
           (\<lambda>r. r\<lparr>wd_status := WD_CONFIRMED, wd_signature := Some signature, wd_confirmedAt := Some (cd_now dep)\<rparr>) (withdrawals d)"
    and "map (\<lambda>a. (pa_id a, pa_reserved a)) (pools d') =
           map (\<lambda>a. (pa_id a, if pa_id a = pa_id c then max 0 (pa_reserved c - wd_amount w) else pa_reserved a)) (pools d)"
    and "wallets d' = wallets d"
proof -
  let ?f = "\<lambda>r. r\<lparr>wd_status := WD_CONFIRMED, wd_signature := Some signature, wd_confirmedAt := Some (cd_now dep)\<rparr>"
  obtain g d2 where g: "randomUUID d = (g, d2)" by (cases "randomUUID d")
  then have d2: "d2 = d\<lparr>drawn := Suc (drawn d)\<rparr>" by (simp add: randomUUID_def)
  let ?legs = "withdrawalLegs w c x tr"
  let ?p = "withdrawalPost w ?legs g"
  have gc: "transaction (getOrCreateCustodyAccount (wd_user w)) d = (Inr c, d)"
    using c by (simp add: transaction_def getOrCreateCustodyAccount_def)
  have gs: "getSystemAccount ''external'' d = Inr x" "getSystemAccount ''treasury'' d = Inr tr"
    using x t by (simp_all add: getSystemAccount_def)
  from run obtain d3 where p: "postOnce ?p d2 = (Inr (), d3)" and tl: "debitTail dep w signature d3 = (Inr out, d')"
    unfolding debitWithdrawal_def gc act_bind_simps gs by (auto simp: g elim: act_bindE)
  let ?d4 = "releaseReservation (wd_user w) (wd_amount w) d3"
  from tl have u: "withdrawalUpdate (wd_id w) ?f ?d4 = Inr d'" and out: "out = WdConfirmed signature (wd_amount w - wd_fee w) (wd_fee w)"
    by (auto simp: debitTail_def Let_def split: sum.splits)
  show "out = WdConfirmed signature (wd_amount w - wd_fee w) (wd_fee w)" by (rule out)
  have wf2: "db_wf d2" using wf by (simp add: d2)
  have "key_unused (pp_key ?p) d2" using new by (simp add: d2 key_unused_def withdrawalPost_def)
  note e = postOnce_effect [OF wf2 p this]
  note wu = withdrawalUpdate_Inr [OF u]
  have ne: "pa_id c \<noteq> pa_id x" "pa_id c \<noteq> pa_id tr" "pa_id x \<noteq> pa_id tr"
    using distinct_accounts [OF wf c x custody_not_system(1)] distinct_accounts [OF wf c t custody_not_system(2)]
      distinct_accounts [OF wf x t] by auto
  have net: "net_of i ?legs = (if i = pa_id c then - wd_amount w else if i = pa_id x then wd_amount w - wd_fee w
      else if i = pa_id tr then wd_fee w else 0)" for i
    using ne fee by (auto simp: withdrawalLegs_def leg_delta_def)
  have "balances d3 = map (\<lambda>(i, b). (i, b + net_of i ?legs)) (balances d)"
    using balances_apply_legs [OF e(2)] by (simp add: withdrawalPost_def d2 balances_def)
  then have "balances d3 = bump (pa_id c) (- wd_amount w) (bump (pa_id x) (wd_amount w - wd_fee w) (bump (pa_id tr) (wd_fee w) (balances d)))"
    unfolding net bump_bump_net [OF ne(1,2,3)] .
  moreover have "balances d' = balances ?d4" by (simp add: wu balances_def)
  ultimately show "balances d' = bump (pa_id c) (- wd_amount w) (bump (pa_id x) (wd_amount w - wd_fee w) (bump (pa_id tr) (wd_fee w) (balances d)))"
    by simp
  show "withdrawals d' = upd_rows (\<lambda>r. wd_id r = wd_id w) ?f (withdrawals d)" "wallets d' = wallets d"
    using e(3) by (simp_all add: wu d2 same_cashier_def)
  have al: "pa_id (apply_legs ?legs a) = pa_id a" "pa_name (apply_legs ?legs a) = pa_name a"
    "pa_reserved (apply_legs ?legs a) = pa_reserved a" for a by (simp_all add: apply_legs_def)
  have p3: "pools d3 = map (apply_legs ?legs) (pools d)" using e(2) by (simp add: withdrawalPost_def d2)
  have "poolByName (custody_name (wd_user w)) d3 = Some (apply_legs ?legs c)"
    using c by (simp add: poolByName_def p3 find_map comp_def al)
  then have "pools d' = upd_rows (\<lambda>a. pa_id a = pa_id c) (clampReserved (pa_reserved c - wd_amount w)) (map (apply_legs ?legs) (pools d))"
    by (simp add: wu releaseReservation_eq p3 al)
  then show "map (\<lambda>a. (pa_id a, pa_reserved a)) (pools d') =
           map (\<lambda>a. (pa_id a, if pa_id a = pa_id c then max 0 (pa_reserved c - wd_amount w) else pa_reserved a)) (pools d)"
    by (simp add: upd_rows_def al)
qed

section \<open>Properties\<close>

text \<open>
  a withdrawal intent takes what is spendable and no more: it is refused with nothing written when
  the amount exceeds balance minus reserved; otherwise it goes to a verified wallet of the player,
  reserves exactly the amount on the player's account, moves no balance, and records the amount with
  its fee, held for review from the threshold on.
\<close>

theorem withdrawal_intent_reserves:
  assumes "db_wf d" and "poolByName (custody_name u) d = Some c"
  shows "(spendable c < amount \<longrightarrow> (\<exists>e. createWithdrawalIntent dep u wid amount d = (Inl e, d))) \<and>
    (\<forall>intent d'. createWithdrawalIntent dep u wid amount d = (Inr intent, d') \<longrightarrow>
      (\<exists>w at. walletById wid d = Some w \<and> w_user w = u \<and> w_verifiedAt w = Some at) \<and>
      10000 \<le> amount \<and> amount \<le> spendable c \<and> wi_gross intent = amount \<and> wi_net intent + wi_fee intent = amount \<and>
      pools d' = upd_rows (\<lambda>a. pa_id a = pa_id c) (setReserved (pa_reserved c + amount)) (pools d) \<and> txs d' = txs d \<and>
      (\<exists>r. withdrawals d' = withdrawals d @ [r] \<and> wd_id r = wi_withdrawalId intent \<and> wd_user r = u \<and>
         wd_amount r = amount \<and> wd_fee r = wi_fee intent \<and>
         wd_status r = (if 50000000000 \<le> amount then WD_PENDING_REVIEW else WD_APPROVED)))"
proof (intro conjI impI allI)
  have short: "\<exists>e. reserveWithdrawal u wid amount fee rv now d = Inl e" if "spendable c < amount" for fee rv now
    using that assms(2) by (simp add: reserveWithdrawal_def orThrow_def)
  have split: "splitOrThrow amount bps = Inr r \<Longrightarrow> fst r = amount" for bps r
    by (auto simp: splitOrThrow_def splitWithdrawal_def Let_def split: sum.splits split_error.splits if_splits)
  show "\<exists>e. createWithdrawalIntent dep u wid amount d = (Inl e, d)" if s: "spendable c < amount"
  proof (cases "splitOrThrow amount (cd_feeBps dep)")
    case (Inl e)
    then show ?thesis by (auto simp: createWithdrawalIntent_def split: option.split)
  next
    case (Inr r)
    obtain fee net where r: "r = (amount, fee, net)" using split [OF Inr] by (cases r) auto
    obtain e where "reserveWithdrawal u wid amount fee (REVIEW_THRESHOLD_LAMPORTS \<le> amount) (cd_now dep) d = Inl e"
      using short [OF s] by blast
    with Inr r show ?thesis
      by (auto simp: createWithdrawalIntent_def Let_def transaction_def split: option.split)
  qed
  fix intent d' assume run: "createWithdrawalIntent dep u wid amount d = (Inr intent, d')"
  then obtain w fee net where w: "walletById wid d = Some w" "w_user w = u" "w_verifiedAt w \<noteq> None" "10000 \<le> amount"
    and sp: "splitOrThrow amount (cd_feeBps dep) = Inr (amount, fee, net)"
    and tx: "act_bind (transaction (reserveWithdrawal u wid amount fee (REVIEW_THRESHOLD_LAMPORTS \<le> amount) (cd_now dep)) d)
         (\<lambda>i d1. (Inr \<lparr> wi_withdrawalId = i, wi_gross = amount, wi_fee = fee, wi_net = net,
            wi_programId = cd_program dep, wi_expiresAt = cd_now dep + WITHDRAWAL_INTENT_TTL_MS,
            wi_requiresReview = (REVIEW_THRESHOLD_LAMPORTS \<le> amount) \<rparr>, d1)) = (Inr intent, d')"
    using split by (fastforce simp: createWithdrawalIntent_def Let_def MIN_WITHDRAWAL_LAMPORTS_def
        split: if_splits option.splits sum.splits prod.splits)
  from tx obtain i where rs: "reserveWithdrawal u wid amount fee (REVIEW_THRESHOLD_LAMPORTS \<le> amount) (cd_now dep) d = Inr (i, d')"
    and it: "wi_withdrawalId intent = i" "wi_gross intent = amount" "wi_fee intent = fee" "wi_net intent = net"
    by (elim act_bindE) (auto simp: transaction_def split: sum.splits)
  have "splitWithdrawal amount (cd_feeBps dep) = Inr (amount, fee, net)"
    using sp by (auto simp: splitOrThrow_def split: sum.splits split_error.splits)
  from splitWithdrawal_facts(2) [OF this] have "net + fee = amount" .
  with it show "wi_gross intent = amount" "wi_net intent + wi_fee intent = amount" by simp_all
  show "\<exists>w at. walletById wid d = Some w \<and> w_user w = u \<and> w_verifiedAt w = Some at" "10000 \<le> amount" using w by auto
  obtain c' where "poolByName (custody_name u) d = Some c'" and "amount \<le> spendable c'"
    and "pools d' = upd_rows (\<lambda>a. pa_id a = pa_id c') (setReserved (pa_reserved c' + amount)) (pools d)"
    and "conserves d d'" and "txs d' = txs d"
    and "\<exists>r. withdrawals d' = withdrawals d @ [r] \<and> wd_id r = i \<and> wd_user r = u \<and> wd_amount r = amount \<and>
           wd_fee r = fee \<and> wd_status r = (if REVIEW_THRESHOLD_LAMPORTS \<le> amount then WD_PENDING_REVIEW else WD_APPROVED) \<and> wd_signature r = None"
    by (rule reserveWithdrawal_Inr [OF assms(1) rs])
  then show "amount \<le> spendable c" "txs d' = txs d"
    "pools d' = upd_rows (\<lambda>a. pa_id a = pa_id c) (setReserved (pa_reserved c + amount)) (pools d)"
    "\<exists>r. withdrawals d' = withdrawals d @ [r] \<and> wd_id r = wi_withdrawalId intent \<and> wd_user r = u \<and>
         wd_amount r = amount \<and> wd_fee r = wi_fee intent \<and>
         wd_status r = (if 50000000000 \<le> amount then WD_PENDING_REVIEW else WD_APPROVED)"
    using assms(2) it by (auto simp: REVIEW_THRESHOLD_LAMPORTS_def)
qed

text \<open>
  C19: a withdrawal that is confirmed mirrors the chain exactly: when a first confirmation answers with
  success, the transaction was signed by the withdrawal's wallet, the vault lost the amount and the
  treasury gained the fee on chain, and in the ledger the player's account loses the amount, the external
  account gains the net and the treasury the fee; no other balance changes; the reservation of the amount
  is gone and the row records the signature. Any other requests may commit while the chain is asked, so
  long as they do not touch this withdrawal, which its lock keeps to one confirmation at a time; from the
  chain's answer on nothing else runs. It is said of players who have a custody account and with both
  system accounts in place. What an expiry can still release after a failure is outside:
  \<open>withdrawal_released_twice\<close>.
\<close>

theorem withdrawal_mirrors_chain:
  assumes e: "e = cd_during dep d" and wf: "db_wf e" and row: "withdrawalById i d = Some w"
    "wd_status w = WD_APPROVED \<or> wd_status w = WD_SUBMITTED"
    and own: "withdrawalById i e = Some w"
    and c: "poolByName (custody_name u) e = Some c" and x: "poolByName ''external'' e = Some x"
    and tr: "poolByName ''treasury'' e = Some tr" and new: "key_unused (withdrawal_key i) e"
    and run: "confirmWithdrawal dep u i signature d = (Inr (WdConfirmed s net fee), d')"
  shows "(\<exists>t wl. cd_parsed dep signature = Inr (Some t) \<and> walletById (wd_wallet w) d = Some wl \<and>
            isSigner t (w_address wl) \<and> - changeOf t (cd_pool dep) = wd_amount w \<and>
            max 0 (changeOf t (cd_treasury dep)) = wd_fee w) \<and>
         net = wd_amount w - wd_fee w \<and> fee = wd_fee w \<and>
         balances d' = bump (pa_id c) (- wd_amount w) (bump (pa_id x) net (bump (pa_id tr) fee (balances e))) \<and>
         map (\<lambda>a. (pa_id a, pa_reserved a)) (pools d') =
           map (\<lambda>a. (pa_id a, if pa_id a = pa_id c then max 0 (pa_reserved c - wd_amount w) else pa_reserved a)) (pools e) \<and>
         (\<exists>w'. withdrawalById i d' = Some w' \<and> wd_status w' = WD_CONFIRMED \<and> wd_signature w' = Some signature)"
proof -
  from run have lock: "cd_lock dep (''withdrawal:'' @ i)" by (auto simp: confirmWithdrawal_def split: if_splits)
  have wi: "wd_id w = i" using row(1) by (auto simp: withdrawalById_def dest: find_SomeD)
  from row run lock obtain wl where wl: "walletById (wd_wallet w) d = Some wl" and u: "wd_user w = u"
    and sd: "settleWithdrawal dep w wl signature e = (Inr (WdConfirmed s net fee), d')"
    by (auto simp: confirmWithdrawal_def e split: option.splits if_splits)
  then obtain t where t: "cd_parsed dep signature = Inr (Some t)"
    by (auto simp: settleWithdrawal_def split: sum.splits option.splits)
  let ?v = "verifyWithdrawal t (cd_program dep) (cd_pool dep) (cd_treasury dep) (w_address wl) (wd_amount w) (wd_fee w)"
  have ok: "cv_ok ?v" and db: "debitWithdrawal dep w signature e = (Inr (WdConfirmed s net fee), d')"
    using sd t by (auto simp: settleWithdrawal_def Let_def split: if_splits elim!: act_bindE)
  have v: "isSigner t (w_address wl)" "- changeOf t (cd_pool dep) = wd_amount w"
    "max 0 (changeOf t (cd_treasury dep)) = wd_fee w"
    using ok unfolding verifyWithdrawal_ok by (auto simp: max_def split: if_splits)
  then have fee: "0 \<le> wd_fee w" by linarith
  have c': "poolByName (custody_name (wd_user w)) e = Some c" and new': "key_unused (withdrawal_key (wd_id w)) e"
    using c new u wi by simp_all
  note f = debitWithdrawal_fresh [OF wf c' x tr new' fee db]
  have "find (\<lambda>r. wd_id r = i) (upd_rows (\<lambda>r. wd_id r = i)
      (\<lambda>r. r\<lparr>wd_status := WD_CONFIRMED, wd_signature := Some signature, wd_confirmedAt := Some (cd_now dep)\<rparr>) rs) =
     map_option (\<lambda>r. r\<lparr>wd_status := WD_CONFIRMED, wd_signature := Some signature, wd_confirmedAt := Some (cd_now dep)\<rparr>)
      (find (\<lambda>r. wd_id r = i) rs)" for rs :: "withdrawal_row list"
    by (induction rs) auto
  then have "\<exists>w'. withdrawalById i d' = Some w' \<and> wd_status w' = WD_CONFIRMED \<and> wd_signature w' = Some signature"
    using own by (simp add: withdrawalById_def f(3) wi)
  with t wl v f(1,2,4) show ?thesis by simp
qed

section \<open>Withdrawals to try things on\<close>

definition sample_withdrawal :: "string \<Rightarrow> withdrawal_row" where
  "sample_withdrawal i = \<lparr> wd_id = i, wd_user = ''ann'', wd_wallet = ''w1'', wd_status = WD_APPROVED, wd_amount = 10,
     wd_fee = 1, wd_signature = None, wd_key = ''k'' @ i, wd_failureReason = None, wd_requestedAt = 0,
     wd_confirmedAt = None \<rparr>"

definition payout_tx :: parsed_tx where
  "payout_tx = \<lparr> pt_slot = 9, pt_blockTime = None, pt_programs = [''arena''],
     pt_keys = [(''w-ann'', True), (''vault'', False), (''treasury'', False)],
     pt_meta = Some \<lparr> mt_err = False, mt_inner = [], mt_logs = [], mt_pre = [0, 100, 0], mt_post = [9, 90, 1] \<rparr> \<rparr>"

text \<open>Ann holds 60, of which 10 each back two withdrawals and 10 her stake in the gold room.\<close>

definition paying_db :: db where
  "paying_db = sample_db\<lparr>wallets := [sample_wallet ''w1'' ''ann''],
     pools := sample_account ''t'' TREASURY ''treasury'' None None 0 0 #
       map (\<lambda>a. if pa_name a = ''custody:ann'' then a\<lparr>pa_reserved := 30\<rparr> else a) (pools sample_db),
     stakes := [\<lparr> sr_id = ''s'', sr_user = ''ann'', sr_tier = ''gold'', sr_lamports = 10 \<rparr>],
     withdrawals := [sample_withdrawal ''p'', sample_withdrawal ''q'']\<rparr>"

definition payer :: "(db \<Rightarrow> db) \<Rightarrow> cashier_deps" where
  "payer during = (cashier during)\<lparr>cd_parsed := (\<lambda>_. Inr (Some payout_tx))\<rparr>"

lemmas payer_eval = payer_def cashier_def confirmWithdrawal_def withdrawalById_def walletById_def
  withdrawalBySignature_def settleWithdrawal_def verifyWithdrawal_def txErr_def invokedProgram_def isSigner_def
  changeOf_def parseBalanceChanges_def payout_tx_def nthOr0_def debitWithdrawal_def debitTail_def transaction_def
  getOrCreateCustodyAccount_def poolByName_def getSystemAccount_def randomUUID_def postOnce_def postEntry_def
  assertBalanced_def withdrawalPost_def withdrawalLegs_def withdrawal_key_def poolById_def leg_delta_def
  mayGoNegative_def poolUpdateMany_def setBalance_def txCreate_def leg_tx_def leg_key_def withdrawalUpdate_def
  isUniqueViolation_def sample_withdrawal_def sample_wallet_def custody_name_def releaseReservation_eq
  clampReserved_def sample_account_def show_nat.simps digit_def Let_def

lemma paying_db_wf [simp]: "db_wf paying_db"
  by (simp add: paying_db_def db_wf_def sample_db_def sample_account_def map_filter_simps)

lemma payer_confirms:
  "\<exists>d'. confirmWithdrawal (payer id) ''ann'' ''p'' ''sig'' paying_db = (Inr (WdConfirmed ''sig'' 9 1), d')"
  by (simp add: payer_eval paying_db_def sample_db_def)

theorem withdrawal_mirrors_chain_witness:
  "\<exists>d'. confirmWithdrawal (payer id) ''ann'' ''p'' ''sig'' paying_db = (Inr (WdConfirmed ''sig'' 9 1), d') \<and>
     balances d' = [(''t'', 1), (''x'', -91), (''r'', 0), (''a'', 50), (''b'', 40)]"
proof -
  obtain d' where r: "confirmWithdrawal (payer id) ''ann'' ''p'' ''sig'' paying_db = (Inr (WdConfirmed ''sig'' 9 1), d')"
    using payer_confirms by blast
  have s: "paying_db = cd_during (payer id) paying_db" "withdrawalById ''p'' paying_db = Some (sample_withdrawal ''p'')"
    "wd_status (sample_withdrawal ''p'') = WD_APPROVED \<or> wd_status (sample_withdrawal ''p'') = WD_SUBMITTED"
    "poolByName (custody_name ''ann'') paying_db = Some (sample_account ''a'' USER_CUSTODY ''custody:ann'' (Some ''ann'') None 60 30)"
    "poolByName ''external'' paying_db = Some (sample_account ''x'' EXTERNAL ''external'' None None (-100) 0)"
    "poolByName ''treasury'' paying_db = Some (sample_account ''t'' TREASURY ''treasury'' None None 0 0)"
    "key_unused (withdrawal_key ''p'') paying_db"
    by (simp_all add: payer_def cashier_def paying_db_def sample_db_def withdrawalById_def sample_withdrawal_def
        poolByName_def sample_account_def custody_name_def key_unused_def)
  from withdrawal_mirrors_chain [OF s(1) paying_db_wf s(2,3,2) s(4-7) r] r show ?thesis
    by (simp add: balances_def bump_def paying_db_def sample_db_def sample_account_def sample_withdrawal_def)
qed

text \<open>
  a withdrawal whose confirmation fails at the last step gives its reservation back twice: the
  entry is posted and the reservation released before the signature is found to be taken, the row stays
  approved, and its expiry releases the same amount again, out of what backs the player's stake.
\<close>

theorem withdrawal_released_twice:
  "\<exists>d1 d2. confirmWithdrawal (payer (\<lambda>d. snd (confirmWithdrawal (payer id) ''ann'' ''q'' ''sig'' d))) ''ann'' ''p'' ''sig'' paying_db
       = (Inl (Conflict ''This transaction signature is already recorded''), d1) \<and>
     expireStaleWithdrawals 900000 d1 = (Inr 1, d2) \<and>
     map (\<lambda>a. (pa_id a, pa_balance a, pa_reserved a)) (filter (\<lambda>a. pa_owner a = Some ''ann'') (pools d2)) = [(''a'', 40, 0)] \<and>
     map sr_lamports (stakes d2) = [10]"
  by (simp add: payer_eval paying_db_def sample_db_def expireStaleWithdrawals_def failWithdrawal_def)

theorem withdrawal_intent_reserves_witness:
  "\<exists>intent d'. createWithdrawalIntent (payer id) ''bob'' ''w2'' 20000
       (paying_db\<lparr>wallets := [sample_wallet ''w2'' ''bob''],
          pools := [sample_account ''b'' USER_CUSTODY ''custody:bob'' (Some ''bob'') None 50000 0]\<rparr>) = (Inr intent, d') \<and>
     map pa_reserved (pools d') = [20000]"
proof -
  let ?d = "paying_db\<lparr>wallets := [sample_wallet ''w2'' ''bob''],
          pools := [sample_account ''b'' USER_CUSTODY ''custody:bob'' (Some ''bob'') None 50000 0]\<rparr>"
  have "\<exists>intent d'. createWithdrawalIntent (payer id) ''bob'' ''w2'' 20000 ?d = (Inr intent, d')"
    by (simp add: createWithdrawalIntent_def MIN_WITHDRAWAL_LAMPORTS_def splitOrThrow_def splitWithdrawal_def
        MAX_WITHDRAWAL_FEE_BPS_def CHAIN_BPS_DENOMINATOR_def payer_eval reserveWithdrawal_def orThrow_def spendable_def
        setReserved_def withdrawalCreate_def paying_db_def sample_db_def)
  then obtain intent d' where r: "createWithdrawalIntent (payer id) ''bob'' ''w2'' 20000 ?d = (Inr intent, d')" by blast
  have wf: "db_wf ?d" by (simp add: db_wf_def sample_account_def map_filter_simps paying_db_def sample_db_def)
  have c: "poolByName (custody_name ''bob'') ?d = Some (sample_account ''b'' USER_CUSTODY ''custody:bob'' (Some ''bob'') None 50000 0)"
    by (simp add: poolByName_def custody_name_def sample_account_def)
  from withdrawal_intent_reserves [OF wf c, of 20000 "payer id" "''w2''"] r show ?thesis
    by (simp add: sample_account_def setReserved_def)
qed

text \<open>
  the cashier keeps the books: whatever a deposit or withdrawal handler answers or throws, pool
  balances and posted entries have moved together and no posted entry is gone, as long as the requests
  that commit while it awaits the chain keep the books too.
\<close>

theorem cashier_keeps_books:
  assumes "db_wf d" and "fair_requests dep" and "lc_balanced (checkLedgerInvariant d)"
    and "d' \<in> {snd (createDepositIntent dep u i amount d), snd (confirmDeposit dep u i sig d), snd (expireStaleDeposits t d),
               snd (quoteWithdrawal dep u amount d), snd (createWithdrawalIntent dep u i amount d),
               snd (confirmWithdrawal dep u i sig d), snd (expireStaleWithdrawals t d)}"
  shows "lc_balanced (checkLedgerInvariant d') \<and> prefix (txs d) (txs d')"
proof -
  have q: "conserves d (snd (quoteWithdrawal dep u amount d))"
    unfolding quoteWithdrawal_def
    by (rule act_bind_keeps [OF assms(1) custody.committed.act_conserves [OF assms(1)]]) (auto split: sum.split)
  have "conserves d d'"
    using assms(4) q createDepositIntent_keeps [OF assms(1)] confirmDeposit_keeps [OF assms(1,2)]
      expireStaleDeposits_keeps [OF assms(1)] createWithdrawalIntent_keeps [OF assms(1)]
      confirmWithdrawal_keeps [OF assms(1,2)] expireStaleWithdrawals_keeps [OF assms(1)] by blast
  from conservesD [OF this] assms(3) show ?thesis by (simp add: checkLedgerInvariant_eq)
qed

theorem cashier_keeps_books_witness:
  "lc_balanced (checkLedgerInvariant (snd (confirmDeposit (cashier id) ''ann'' ''p'' ''sig'' cashier_db)))"
proof -
  have "fair_requests (cashier id)" by (simp add: fair_requests_def cashier_def)
  moreover have "lc_balanced (checkLedgerInvariant cashier_db)"
    by (simp add: checkLedgerInvariant_eq cashier_db_def sample_db_def poolTotal_def ledgerNet_def sample_account_def)
  ultimately show ?thesis using cashier_keeps_books [OF cashier_db_wf] by blast
qed

text \<open>
  a release reads the reservation and writes the rest of it back, so what is reserved between the two is
  lost: a release of 30 across which another withdrawal reserves 10 leaves nothing reserved for that one.
\<close>

definition reserves_ten :: "db \<Rightarrow> db" where
  "reserves_ten d = d\<lparr>pools := upd_rows (\<lambda>a. pa_id a = ''a'') (\<lambda>a. a\<lparr>pa_reserved := pa_reserved a + 10\<rparr>) (pools d)\<rparr>"

theorem release_drops_reservation:
  "map_option pa_reserved (poolByName (custody_name ''ann'') paying_db) = Some 30 \<and>
   map_option pa_reserved (poolByName (custody_name ''ann'') (releaseAround reserves_ten ''ann'' 30 paying_db)) = Some 0 \<and>
   map_option pa_reserved (poolByName (custody_name ''ann'') (releaseAround (\<lambda>d. d) ''ann'' 30 (reserves_ten paying_db))) = Some 10"
  by (simp add: releaseAround_def reserves_ten_def paying_db_def sample_db_def poolByName_def sample_account_def
      custody_name_def clampReserved_def)

end
