(* ===== verification/Reconciler.thy ===== *)
theory Reconciler
  imports Withdrawal
begin

text \<open>
  The reconciler (\<open>apps/gateway/src/services/reconciler.ts\<close>): one pass retries unconfirmed deposits and
  withdrawals, expires abandoned intents and checks the ledger. A retry that throws is logged and
  skipped; an expiry that throws ends the pass. The rows come in the order of the table, at most 100 of
  each kind, as \<open>take\<close> gives them.
\<close>

record reconcile_report =
  rp_depositsRecovered :: nat
  rp_depositsExpired :: nat
  rp_withdrawalsRecovered :: nat
  rp_withdrawalsExpired :: nat
  rp_ledgerBalanced :: bool
  rp_ledgerDrift :: int

definition pendingDeposits :: "db \<Rightarrow> deposit_row list" where
  "pendingDeposits d = take 100 (filter (\<lambda>r. d_status r = DEP_PENDING \<and> d_signature r \<noteq> None) (deposits d))"

definition pendingWithdrawals :: "db \<Rightarrow> withdrawal_row list" where
  "pendingWithdrawals d = take 100 (filter (\<lambda>r. wd_status r = WD_SUBMITTED \<and> wd_signature r \<noteq> None) (withdrawals d))"

text \<open>The empty signature is falsy, and is skipped.\<close>

fun retryDeposits :: "cashier_deps \<Rightarrow> deposit_row list \<Rightarrow> nat \<Rightarrow> db \<Rightarrow> nat \<times> db" where
  "retryDeposits dep [] recovered d = (recovered, d)"
| "retryDeposits dep (r # rs) recovered d =
    (case d_signature r of
       None \<Rightarrow> retryDeposits dep rs recovered d
     | Some s \<Rightarrow>
         if s = [] then retryDeposits dep rs recovered d
         else
           (case confirmDeposit dep (d_user r) (d_id r) s d of
              (Inr (DepConfirmed amount sig), d1) \<Rightarrow> retryDeposits dep rs (Suc recovered) d1
            | (_, d1) \<Rightarrow> retryDeposits dep rs recovered d1))"

fun retryWithdrawals :: "cashier_deps \<Rightarrow> withdrawal_row list \<Rightarrow> nat \<Rightarrow> db \<Rightarrow> nat \<times> db" where
  "retryWithdrawals dep [] recovered d = (recovered, d)"
| "retryWithdrawals dep (r # rs) recovered d =
    (case wd_signature r of
       None \<Rightarrow> retryWithdrawals dep rs recovered d
     | Some s \<Rightarrow>
         if s = [] then retryWithdrawals dep rs recovered d
         else
           (case confirmWithdrawal dep (wd_user r) (wd_id r) s d of
              (Inr (WdConfirmed sig net fee), d1) \<Rightarrow> retryWithdrawals dep rs (Suc recovered) d1
            | (_, d1) \<Rightarrow> retryWithdrawals dep rs recovered d1))"

definition reconcileOnce :: "cashier_deps \<Rightarrow> db \<Rightarrow> reconcile_report act" where
  "reconcileOnce dep d =
    (case retryDeposits dep (pendingDeposits d) 0 d of (depositsRecovered, d1) \<Rightarrow>
     case retryWithdrawals dep (pendingWithdrawals d1) 0 d1 of (withdrawalsRecovered, d2) \<Rightarrow>
     case expireStaleDeposits (cd_now dep - DEPOSIT_INTENT_TTL_MS) d2 of (depositsExpired, d3) \<Rightarrow>
       act_bind (expireStaleWithdrawals (cd_now dep - WITHDRAWAL_INTENT_TTL_MS) d3) (\<lambda>withdrawalsExpired d4.
         let check = checkLedgerInvariant d4
         in (Inr \<lparr> rp_depositsRecovered = depositsRecovered, rp_depositsExpired = depositsExpired,
                   rp_withdrawalsRecovered = withdrawalsRecovered, rp_withdrawalsExpired = withdrawalsExpired,
                   rp_ledgerBalanced = lc_balanced check, rp_ledgerDrift = lc_drift check \<rparr>, d4)))"

section \<open>The books are kept\<close>

lemma retryDeposits_keeps:
  "db_wf d \<Longrightarrow> fair_requests dep \<Longrightarrow> conserves d (snd (retryDeposits dep rs n d))"
proof (induction rs arbitrary: n d)
  case Nil
  then show ?case by simp
next
  case (Cons r rs)
  show ?case
  proof (cases "d_signature r")
    case None
    with Cons show ?thesis by simp
  next
    case (Some s)
    obtain x d1 where x: "confirmDeposit dep (d_user r) (d_id r) s d = (x, d1)"
      by (cases "confirmDeposit dep (d_user r) (d_id r) s d")
    have c: "conserves d d1" using confirmDeposit_keeps [OF Cons.prems, of "d_user r" "d_id r" s] x by simp
    have "conserves d1 (snd (retryDeposits dep rs m d1))" for m
      by (rule Cons.IH [OF conservesD(1) [OF c] Cons.prems(2)])
    with c Cons Some x show ?thesis
      by (auto intro: conserves_trans split: sum.split confirm_outcome.split)
  qed
qed

lemma retryWithdrawals_keeps:
  "db_wf d \<Longrightarrow> fair_requests dep \<Longrightarrow> conserves d (snd (retryWithdrawals dep rs n d))"
proof (induction rs arbitrary: n d)
  case Nil
  then show ?case by simp
next
  case (Cons r rs)
  show ?case
  proof (cases "wd_signature r")
    case None
    with Cons show ?thesis by simp
  next
    case (Some s)
    obtain x d1 where x: "confirmWithdrawal dep (wd_user r) (wd_id r) s d = (x, d1)"
      by (cases "confirmWithdrawal dep (wd_user r) (wd_id r) s d")
    have c: "conserves d d1" using confirmWithdrawal_keeps [OF Cons.prems, of "wd_user r" "wd_id r" s] x by simp
    have "conserves d1 (snd (retryWithdrawals dep rs m d1))" for m
      by (rule Cons.IH [OF conservesD(1) [OF c] Cons.prems(2)])
    with c Cons Some x show ?thesis
      by (auto intro: conserves_trans split: sum.split withdrawal_outcome.split)
  qed
qed

lemma reconcileOnce_keeps:
  assumes wf: "db_wf d" and fair: "fair_requests dep"
  shows "conserves d (snd (reconcileOnce dep d))"
proof -
  obtain n1 d1 where 1: "retryDeposits dep (pendingDeposits d) 0 d = (n1, d1)" by (cases "retryDeposits dep (pendingDeposits d) 0 d")
  have c1: "conserves d d1" using retryDeposits_keeps [OF assms, of "pendingDeposits d" 0] 1 by simp
  obtain n2 d2 where 2: "retryWithdrawals dep (pendingWithdrawals d1) 0 d1 = (n2, d2)"
    by (cases "retryWithdrawals dep (pendingWithdrawals d1) 0 d1")
  have c2: "conserves d1 d2" using retryWithdrawals_keeps [OF conservesD(1) [OF c1] fair, of "pendingWithdrawals d1" 0] 2 by simp
  obtain n3 d3 where 3: "expireStaleDeposits (cd_now dep - DEPOSIT_INTENT_TTL_MS) d2 = (n3, d3)"
    by (cases "expireStaleDeposits (cd_now dep - DEPOSIT_INTENT_TTL_MS) d2")
  have c3: "conserves d2 d3" using expireStaleDeposits_keeps [OF conservesD(1) [OF c2]] 3 by (metis snd_conv)
  have wf3: "db_wf d3" using c3 by (simp add: conserves_def)
  have "conserves d3 (snd (reconcileOnce dep d))"
    unfolding reconcileOnce_def 1 2 3 prod.case Let_def
    by (rule act_bind_keeps [OF wf3 expireStaleWithdrawals_keeps [OF wf3]]) simp
  with c1 c2 c3 show ?thesis by (blast intro: conserves_trans)
qed

section \<open>Where the signatures of deposits come from\<close>

text \<open>A run of the platform, seen from the table of deposits: the operations of the service, each
  confirmation with the run that goes on while it awaits the chain, and whatever leaves the table alone.\<close>

inductive deposit_run :: "db \<Rightarrow> db \<Rightarrow> bool" where
  run_start: "deposit_run d d"
| run_intent: "deposit_run d0 d \<Longrightarrow> deposit_run d0 (snd (createDepositIntent dep u w a d))"
| run_confirm: "deposit_run d0 d \<Longrightarrow> deposit_run d (cd_during dep d) \<Longrightarrow>
    deposit_run d0 (snd (confirmDeposit dep u i s d))"
| run_expire: "deposit_run d0 d \<Longrightarrow> deposit_run d0 (snd (expireStaleDeposits t d))"
| run_other: "deposit_run d0 d \<Longrightarrow> deposits d' = deposits d \<Longrightarrow> deposit_run d0 d'"

definition unsigned_pending :: "db \<Rightarrow> bool" where
  "unsigned_pending d \<longleftrightarrow> (\<forall>r \<in> set (deposits d). d_status r = DEP_PENDING \<longrightarrow> d_signature r = None)"

lemma unsigned_upd:
  assumes "unsigned_pending d" and "depositUpdate i f d = Inr d'" and "\<And>r. d_status (f r) \<noteq> DEP_PENDING"
  shows "unsigned_pending d'"
  using assms depositUpdate_Inr(1) [OF assms(2)] by (auto simp: unsigned_pending_def set_upd_rows)

lemma unsigned_intent: "unsigned_pending d \<Longrightarrow> unsigned_pending (snd (createDepositIntent dep u w a d))"
  by (auto simp: createDepositIntent_def Let_def randomUUID_def transaction_def depositCreate_def unsigned_pending_def)

lemma unsigned_credit: "unsigned_pending d \<Longrightarrow> unsigned_pending (snd (creditDeposit dep r s v d))"
proof -
  assume u: "unsigned_pending d"
  have 1: "deposits (snd (transaction (getOrCreateCustodyAccount x) d)) = deposits d" for x
    by (auto simp: transaction_def split: sum.split dest: custody_cashier simp: same_cashier_def)
  have 2: "deposits (snd (postOnce p d2)) = deposits d2" for p d2
    by (auto simp: postOnce_def transaction_def split: sum.split money_error.split dest: postEntry_cashier
        simp: same_cashier_def)
  obtain x d1 where t: "transaction (getOrCreateCustodyAccount (d_user r)) d = (x, d1)"
    by (cases "transaction (getOrCreateCustodyAccount (d_user r)) d")
  have d1: "unsigned_pending d1" using u 1 [of "d_user r"] t by (simp add: unsigned_pending_def)
  have k: "unsigned_pending (snd (case depositUpdate i f d3 of
      Inl error \<Rightarrow> (Inl (g error), d3) | Inr d4 \<Rightarrow> (Inr (h d4), d4)))"
    if "unsigned_pending d3" "\<And>r. d_status (f r) \<noteq> DEP_PENDING" for d3 i f
      and g :: "money_error \<Rightarrow> money_error" and h :: "db \<Rightarrow> confirm_outcome"
    using that unsigned_upd by (auto split: sum.split)
  obtain gid d2 where g: "randomUUID d1 = (gid, d2)" by (cases "randomUUID d1")
  have d2: "unsigned_pending d2" using d1 g by (auto simp: randomUUID_def unsigned_pending_def)
  have "unsigned_pending (snd (act_bind (postOnce p d2) (\<lambda>_ d3. case depositUpdate i f d3 of
      Inl error \<Rightarrow> (Inl (g error), d3) | Inr d4 \<Rightarrow> (Inr (h d4), d4))))"
    if "\<And>r. d_status (f r) \<noteq> DEP_PENDING" for p i f
      and g :: "money_error \<Rightarrow> money_error" and h :: "db \<Rightarrow> confirm_outcome"
  proof -
    obtain y d3 where y: "postOnce p d2 = (y, d3)" by (cases "postOnce p d2")
    have "unsigned_pending d3" using d2 2 [of p d2] y by (simp add: unsigned_pending_def)
    with k [OF this that] y show ?thesis by (cases y) simp_all
  qed
  note posted = this
  show ?thesis
  proof (cases x)
    case (Inl e)
    with d1 t show ?thesis by (simp add: creditDeposit_def)
  next
    case (Inr c)
    show ?thesis
    proof (cases "getSystemAccount ''external'' d1")
      case (Inl e)
      with d1 t Inr show ?thesis by (simp add: creditDeposit_def)
    next
      case ext: (Inr external)
      show ?thesis
        unfolding creditDeposit_def t Inr act_bind_simps ext sum.case Let_def g prod.case
        by (rule posted) simp
    qed
  qed
qed

lemma unsigned_confirm:
  assumes "unsigned_pending d" and "unsigned_pending (cd_during dep d)"
  shows "unsigned_pending (snd (confirmDeposit dep u i s d))"
proof -
  have "unsigned_pending (snd (settleDeposit dep r w s (cd_during dep d)))" for r w
    unfolding settleDeposit_def Let_def using assms(2)
    by (auto split: sum.split option.split intro: unsigned_credit unsigned_upd)
  with assms(1) show ?thesis
    unfolding confirmDeposit_def by (auto split: option.split)
qed

lemma deposit_run_unsigned: "deposit_run d0 d \<Longrightarrow> unsigned_pending d0 \<Longrightarrow> unsigned_pending d"
proof (induction rule: deposit_run.induct)
  case (run_expire d0 d t)
  then show ?case by (auto simp: expireStaleDeposits_def Let_def unsigned_pending_def set_upd_rows)
next
  case (run_other d0 d d')
  then show ?case by (simp add: unsigned_pending_def)
qed (auto intro: unsigned_intent unsigned_confirm)

section \<open>Properties\<close>

text \<open>
  the recovery of deposits never finds anything: only a confirmation writes the signature of a
  deposit, and it confirms it in the same statement, so no run of the platform ever leaves a pending
  deposit with a signature, which is what the reconciler looks for; every pass recovers none.
\<close>

theorem no_deposit_to_recover:
  assumes "deposit_run d0 d" and "deposits d0 = []"
  shows "pendingDeposits d = [] \<and>
    (\<forall>dep report d'. reconcileOnce dep d = (Inr report, d') \<longrightarrow> rp_depositsRecovered report = 0)"
proof -
  have "unsigned_pending d" by (rule deposit_run_unsigned [OF assms(1)]) (simp add: unsigned_pending_def assms(2))
  then have "pendingDeposits d = []" by (auto simp: pendingDeposits_def unsigned_pending_def filter_empty_conv)
  then show ?thesis
    by (auto simp: reconcileOnce_def Let_def split: prod.splits elim!: act_bindE)
qed

theorem no_deposit_to_recover_witness:
  "pendingDeposits (snd (createDepositIntent (cashier id) ''ann'' ''w1'' 20000 sample_db)) = []"
proof -
  have "deposits sample_db = []" by (simp add: sample_db_def)
  then show ?thesis using no_deposit_to_recover [OF run_intent [OF run_start]] by blast
qed

text \<open>
  a pass of the reconciler keeps the books and its tripwire tells the truth: it reports a balanced
  ledger when the books were balanced before, and takes back no posted entry, whatever it retried,
  skipped or expired.
\<close>

theorem reconcile_keeps_books:
  assumes "db_wf d" and "fair_requests dep" and "lc_balanced (checkLedgerInvariant d)"
    and "reconcileOnce dep d = (Inr report, d')"
  shows "rp_ledgerBalanced report \<and> rp_ledgerDrift report = 0 \<and> prefix (txs d) (txs d')"
proof -
  have c: "conserves d d'" using reconcileOnce_keeps [OF assms(1,2)] assms(4) by (metis snd_conv)
  have r: "rp_ledgerBalanced report = lc_balanced (checkLedgerInvariant d')"
    "rp_ledgerDrift report = lc_drift (checkLedgerInvariant d')"
    using assms(4) by (auto simp: reconcileOnce_def Let_def split: prod.splits elim!: act_bindE)
  have "lc_balanced k = (lc_drift k = 0)" if "k = checkLedgerInvariant d'" for k
    using that by (simp add: checkLedgerInvariant_def Let_def)
  with r conservesD [OF c] assms(3) show ?thesis by (simp add: checkLedgerInvariant_eq)
qed

theorem reconcile_keeps_books_witness:
  "\<exists>report d'. reconcileOnce (cashier id) sample_db = (Inr report, d') \<and> rp_ledgerBalanced report"
proof -
  have "\<exists>report d'. reconcileOnce (cashier id) sample_db = (Inr report, d')"
    by (simp add: reconcileOnce_def pendingDeposits_def pendingWithdrawals_def sample_db_def expireStaleDeposits_def
        expireStaleWithdrawals_def Let_def)
  then obtain report d' where r: "reconcileOnce (cashier id) sample_db = (Inr report, d')" by blast
  have "fair_requests (cashier id)" by (simp add: fair_requests_def cashier_def)
  moreover have "lc_balanced (checkLedgerInvariant sample_db)"
    by (simp add: checkLedgerInvariant_eq sample_db_def poolTotal_def ledgerNet_def sample_account_def)
  ultimately show ?thesis using reconcile_keeps_books [OF sample_db_wf _ _ r] r by blast
qed

end
