(* ===== verification/Auth_Message.thy ===== *)
theory Auth_Message
  imports Text_Format
begin

text \<open>
  The message a wallet signs and its verification (\<open>packages/solana/src/auth/message.ts\<close> and
  \<open>verify.ts\<close>). The base58 decoder (\<open>bs58\<close>) and the ed25519 verifier (\<open>tweetnacl\<close>) are packages:
  they are fields of \<open>sig_scheme\<close>, the decoder answering \<open>None\<close> where it throws, the verifier applied to
  the UTF-8 bytes of the message and answering \<open>None\<close> where it throws.
\<close>

section \<open>The message\<close>

record auth_message =
  am_domain :: string
  am_wallet :: string
  am_nonce :: string
  am_issuedAt :: string
  am_expiresAt :: string

definition DEFAULT_STATEMENT :: string where
  "DEFAULT_STATEMENT =
    ''Sign this message to authenticate. This request will not trigger a transaction or cost any fees.''"

definition DOMAIN_SUFFIX :: string where
  "DOMAIN_SUFFIX = '' wants you to sign in with your Solana account:''"

definition buildAuthMessage :: "auth_message \<Rightarrow> string \<Rightarrow> string" where
  "buildAuthMessage m statement =
    join_with [newline]
      [am_domain m @ DOMAIN_SUFFIX, am_wallet m, [], statement, [],
       ''Nonce: '' @ am_nonce m, ''Issued At: '' @ am_issuedAt m, ''Expires At: '' @ am_expiresAt m]"

section \<open>Reading it back\<close>

record parsed_message =
  pm_domain :: "string option"
  pm_wallet :: "string option"
  pm_nonce :: "string option"
  pm_issuedAt :: "string option"
  pm_expiresAt :: "string option"

text \<open>\<open>/^(.+) wants ...:$/\<close>: what stands before the suffix.\<close>

definition match_suffix :: "string \<Rightarrow> string \<Rightarrow> string option" where
  "match_suffix suf line =
    (case strip_prefix (rev suf) (rev line) of
       Some r \<Rightarrow> if plain_line (rev r) then Some (rev r) else None
     | None \<Rightarrow> None)"

text \<open>\<open>/^Nonce: (.+)$/\<close> and its like: what stands after the prefix.\<close>

definition match_prefix :: "string \<Rightarrow> string \<Rightarrow> string option" where
  "match_prefix pre line =
    (case strip_prefix pre line of
       Some r \<Rightarrow> if plain_line r then Some r else None
     | None \<Rightarrow> None)"

definition or_keep :: "'a option \<Rightarrow> 'a option \<Rightarrow> 'a option" where
  "or_keep new old = (case new of Some x \<Rightarrow> Some x | None \<Rightarrow> old)"

fun parseLines :: "string list \<Rightarrow> parsed_message \<Rightarrow> parsed_message" where
  "parseLines [] result = result"
| "parseLines (line # lines) result =
    parseLines lines
      (result\<lparr>pm_nonce := or_keep (match_prefix ''Nonce: '' line) (pm_nonce result),
              pm_issuedAt := or_keep (match_prefix ''Issued At: '' line) (pm_issuedAt result),
              pm_expiresAt := or_keep (match_prefix ''Expires At: '' line) (pm_expiresAt result)\<rparr>)"

definition parseAuthMessage :: "string \<Rightarrow> parsed_message" where
  "parseAuthMessage message =
    (let lines = split_lines message
     in parseLines lines
          \<lparr> pm_domain = match_suffix DOMAIN_SUFFIX (lines ! 0),
            pm_wallet = (if 1 < length lines \<and> lines ! 1 \<noteq> [] then Some (lines ! 1) else None),
            pm_nonce = None, pm_issuedAt = None, pm_expiresAt = None \<rparr>)"

section \<open>Verification\<close>

record sig_scheme =
  sg_base58 :: "string \<Rightarrow> nat list option"
  sg_ed25519 :: "string \<Rightarrow> nat list \<Rightarrow> nat list \<Rightarrow> bool option"

definition verifySignature :: "sig_scheme \<Rightarrow> string \<Rightarrow> string \<Rightarrow> string \<Rightarrow> bool" where
  "verifySignature sg message signature wallet =
    (case sg_base58 sg wallet of
       None \<Rightarrow> False
     | Some publicKeyBytes \<Rightarrow>
         (case sg_base58 sg signature of
            None \<Rightarrow> False
          | Some signatureBytes \<Rightarrow>
              if length publicKeyBytes \<noteq> 32 then False
              else if length signatureBytes \<noteq> 64 then False
              else (case sg_ed25519 sg message signatureBytes publicKeyBytes of None \<Rightarrow> False | Some b \<Rightarrow> b)))"

datatype signature_error = SignatureMismatch string | InvalidExpiry | NonceExpired

definition assertValidSignature :: "sig_scheme \<Rightarrow> string \<Rightarrow> string \<Rightarrow> string \<Rightarrow> (signature_error, unit) res" where
  "assertValidSignature sg message signature wallet =
    (if \<not> verifySignature sg message signature wallet then Inl (SignatureMismatch wallet) else Inr ())"

text \<open>The expiry as \<open>new Date\<close> reads it: \<open>None\<close> for an invalid date.\<close>

definition verifyAuthSignature :: "sig_scheme \<Rightarrow> auth_message \<Rightarrow> string \<Rightarrow> string \<Rightarrow> int \<Rightarrow> int option
    \<Rightarrow> (signature_error, unit) res" where
  "verifyAuthSignature sg m statement signature now expiresAt =
    (case expiresAt of
       None \<Rightarrow> Inl InvalidExpiry
     | Some e \<Rightarrow>
         if e < now then Inl NonceExpired
         else assertValidSignature sg (buildAuthMessage m statement) signature (am_wallet m))"

section \<open>Lemmas\<close>

lemma match_suffix_append: "match_suffix suf (d @ suf) = (if plain_line d then Some d else None)"
  by (simp add: match_suffix_def)

lemma match_prefix_append: "match_prefix pre (pre @ x) = (if plain_line x then Some x else None)"
  by (simp add: match_prefix_def)

lemma match_prefix_other: "strip_prefix pre line = None \<Longrightarrow> match_prefix pre line = None"
  by (simp add: match_prefix_def)

lemma parseLines_keeps:
  "pm_domain (parseLines ls r) = pm_domain r" "pm_wallet (parseLines ls r) = pm_wallet r"
  by (induction ls arbitrary: r) auto

text \<open>What the lines at the end say counts, whatever the lines before them look like.\<close>

lemma parseLines_append: "parseLines (ls @ ms) r = parseLines ms (parseLines ls r)"
  by (induction ls arbitrary: r) auto

definition sane_message :: "auth_message \<Rightarrow> bool" where
  "sane_message m \<longleftrightarrow> plain_line (am_domain m) \<and> plain_line (am_wallet m) \<and> plain_line (am_nonce m) \<and>
     plain_line (am_issuedAt m) \<and> plain_line (am_expiresAt m)"

lemma plain_lineD: "plain_line s \<Longrightarrow> newline \<notin> set s"
  by (simp add: plain_line_def)

lemma message_lines:
  assumes "sane_message m" and "newline \<notin> set statement"
  shows "split_lines (buildAuthMessage m statement) =
    [am_domain m @ DOMAIN_SUFFIX, am_wallet m, [], statement, [],
     ''Nonce: '' @ am_nonce m, ''Issued At: '' @ am_issuedAt m, ''Expires At: '' @ am_expiresAt m]"
  unfolding buildAuthMessage_def
  by (rule split_join_lines)
     (use assms in \<open>auto simp: sane_message_def dest: plain_lineD simp: DOMAIN_SUFFIX_def\<close>)

lemma last_lines:
  assumes "plain_line n" and "plain_line i" and "plain_line e"
  shows "parseLines [''Nonce: '' @ n, ''Issued At: '' @ i, ''Expires At: '' @ e] r =
    r\<lparr>pm_nonce := Some n, pm_issuedAt := Some i, pm_expiresAt := Some e\<rparr>"
proof -
  have "match_prefix ''Nonce: '' (''Nonce: '' @ n) = Some n"
    "match_prefix ''Issued At: '' (''Issued At: '' @ i) = Some i"
    "match_prefix ''Expires At: '' (''Expires At: '' @ e) = Some e"
    using assms by (simp_all only: match_prefix_append if_True)
  moreover have "match_prefix ''Nonce: '' (''Issued At: '' @ i) = None"
    "match_prefix ''Nonce: '' (''Expires At: '' @ e) = None"
    "match_prefix ''Issued At: '' (''Nonce: '' @ n) = None"
    "match_prefix ''Issued At: '' (''Expires At: '' @ e) = None"
    "match_prefix ''Expires At: '' (''Nonce: '' @ n) = None"
    "match_prefix ''Expires At: '' (''Issued At: '' @ i) = None"
    by (simp_all add: match_prefix_def)
  ultimately show ?thesis
    by (simp only: parseLines.simps or_keep_def option.case) simp
qed

text \<open>
  the message round-trips: parsing what was built gives back the domain, the wallet, the nonce and
  both dates, whatever statement stands in between and even if it imitates the other lines, as long as
  no field is empty or holds a line terminator.
\<close>
theorem auth_message_roundtrip:
  assumes sane: "sane_message m" and one_line: "newline \<notin> set statement"
  shows "parseAuthMessage (buildAuthMessage m statement) =
    \<lparr> pm_domain = Some (am_domain m), pm_wallet = Some (am_wallet m), pm_nonce = Some (am_nonce m),
      pm_issuedAt = Some (am_issuedAt m), pm_expiresAt = Some (am_expiresAt m) \<rparr>"
proof -
  let ?front = "[am_domain m @ DOMAIN_SUFFIX, am_wallet m, [], statement, []]"
  let ?tail = "[''Nonce: '' @ am_nonce m, ''Issued At: '' @ am_issuedAt m, ''Expires At: '' @ am_expiresAt m]"
  have lines: "split_lines (buildAuthMessage m statement) = ?front @ ?tail"
    by (simp only: message_lines [OF sane one_line] append_Cons append_Nil)
  have fields: "plain_line (am_domain m)" "plain_line (am_wallet m)" "plain_line (am_nonce m)"
    "plain_line (am_issuedAt m)" "plain_line (am_expiresAt m)"
    using sane by (simp_all add: sane_message_def)
  have wallet: "am_wallet m \<noteq> []" using fields(2) by (simp add: plain_line_def)
  show ?thesis
    unfolding parseAuthMessage_def Let_def lines parseLines_append last_lines [OF fields(3-5)]
    using wallet fields(1)
    by (simp add: parseLines_keeps match_suffix_append del: parseLines.simps)
qed

theorem auth_message_roundtrip_witness:
  "pm_nonce (parseAuthMessage (buildAuthMessage
     \<lparr> am_domain = ''arena'', am_wallet = ''w1'', am_nonce = ''abc'', am_issuedAt = ''t0'', am_expiresAt = ''t1'' \<rparr>
     ''Nonce: forged'')) = Some ''abc''"
  by (subst auth_message_roundtrip) (simp_all add: sane_message_def plain_line_def)

end
