(* ===== verification/Auth.thy ===== *)
theory Auth
  imports Auth_Message Db
begin

text \<open>
  Wallet sign-in, token issuance and rotation (\<open>apps/gateway/src/services/auth.service.ts\<close>) and the
  guard of the API (\<open>plugins/auth.ts\<close>).

  The state holds the three tables of the service and its three families of Redis keys, each key with
  the time it expires at. Times are milliseconds; a date that goes through JSON is kept as its number.
  Random draws come from a supply of values. The signature scheme, the token library and SHA-256 are
  fields of \<open>auth_deps\<close>, and \<open>ad_during\<close> is what other requests commit between a read and the write
  that follows it.
\<close>

section \<open>Data\<close>

datatype user_role = PLAYER | MODERATOR | ADMIN

datatype user_status = ACTIVE | SHADOWBANNED | BANNED | CLOSED

record user_row =
  u_id :: string
  u_username :: "string option"
  u_displayName :: "string option"
  u_role :: user_role
  u_status :: user_status
  u_createdAt :: int
  u_lastSeenAt :: "int option"

record refresh_row =
  rt_id :: string
  rt_user :: string
  rt_family :: string
  rt_hash :: string
  rt_userAgent :: "string option"
  rt_ipHash :: "string option"
  rt_expiresAt :: int
  rt_revokedAt :: "int option"

record nonce_record =
  nr_nonce :: string
  nr_issuedAt :: int
  nr_expiresAt :: int

datatype nonce_value = NonceJson nonce_record | NonceCorrupt

record auth_state =
  as_users :: "user_row list"
  as_wallets :: "wallet_row list"
  as_tokens :: "refresh_row list"
  as_nonces :: "string \<rightharpoonup> nonce_value \<times> int"
  as_revoked :: "string \<rightharpoonup> int"
  as_cutoffs :: "string \<rightharpoonup> string \<times> int"
  as_random :: "nat \<Rightarrow> string"
  as_drawn :: nat

record access_claims =
  ac_sub :: string
  ac_wallet :: string
  ac_role :: user_role
  ac_jti :: string
  ac_nickname :: "string option"

text \<open>What the token library answers for a token it accepts.\<close>

record verified_token = access_claims +
  vt_iat :: "int option"
  vt_exp :: "int option"

record auth_deps =
  ad_now :: int
  ad_domain :: string
  ad_accessTtlSeconds :: int
  ad_jwtSign :: "access_claims \<Rightarrow> int \<Rightarrow> string"
  ad_jwtVerify :: "int \<Rightarrow> string \<Rightarrow> verified_token option"
  ad_sig :: sig_scheme
  ad_sha256 :: "string \<Rightarrow> string"
  ad_during :: "auth_state \<Rightarrow> auth_state"

record issued_session =
  is_userId :: string
  is_wallet :: string
  is_nickname :: "string option"
  is_role :: user_role
  is_createdAt :: string
  is_accessToken :: string
  is_refreshToken :: string
  is_expiresIn :: int

datatype auth_error =
  Unauthorized string
| NotPermitted string
| TokenReuse
| TooManyRequests string
| AuthDb db_error

type_synonym 'a auth_io = "(auth_error, 'a, auth_state) io"

definition NONCE_TTL_SECONDS :: int where
  "NONCE_TTL_SECONDS = 300"

definition REFRESH_TTL_SECONDS :: int where
  "REFRESH_TTL_SECONDS = 30 * 24 * 60 * 60"

section \<open>Primitives\<close>

text \<open>\<open>randomUUID()\<close> and \<open>randomBytes(32)\<close>: the next value of the supply.\<close>

definition draw :: "auth_state \<Rightarrow> string \<times> auth_state" where
  "draw s = (as_random s (as_drawn s), s\<lparr>as_drawn := Suc (as_drawn s)\<rparr>)"

text \<open>A key of Redis is there until its time has come.\<close>

definition unexpired :: "int \<Rightarrow> ('a \<times> int) option \<Rightarrow> 'a option" where
  "unexpired now entry = (case entry of None \<Rightarrow> None | Some (v, e) \<Rightarrow> if now < e then Some v else None)"

definition hashToken :: "auth_deps \<Rightarrow> string \<Rightarrow> string" where
  "hashToken dep token = ad_sha256 dep token"

definition hashIp :: "auth_deps \<Rightarrow> string option \<Rightarrow> string \<Rightarrow> string option" where
  "hashIp dep ip salt =
    (case ip of
       None \<Rightarrow> None
     | Some i \<Rightarrow> if i = [] then None
                 else Some (take 64 (ad_sha256 dep (''ip:'' @ salt @ '':'' @ i))))"

definition userById :: "string \<Rightarrow> auth_state \<Rightarrow> user_row option" where
  "userById i s = find (\<lambda>u. u_id u = i) (as_users s)"

definition walletByAddress :: "string \<Rightarrow> auth_state \<Rightarrow> wallet_row option" where
  "walletByAddress a s = find (\<lambda>w. w_address w = a) (as_wallets s)"

definition tokenByHash :: "string \<Rightarrow> auth_state \<Rightarrow> refresh_row option" where
  "tokenByHash h s = find (\<lambda>r. rt_hash r = h) (as_tokens s)"

section \<open>Nonces\<close>

definition authText :: "auth_deps \<Rightarrow> string \<Rightarrow> nonce_record \<Rightarrow> string" where
  "authText dep wallet r =
    buildAuthMessage
      \<lparr> am_domain = ad_domain dep, am_wallet = wallet, am_nonce = nr_nonce r,
        am_issuedAt = toISOString (nr_issuedAt r), am_expiresAt = toISOString (nr_expiresAt r) \<rparr>
      DEFAULT_STATEMENT"

definition issueNonce :: "auth_deps \<Rightarrow> string \<Rightarrow> auth_state \<Rightarrow> (nonce_record \<times> string) \<times> auth_state" where
  "issueNonce dep wallet s =
    (case draw s of (nonce, s1) \<Rightarrow>
      let record = \<lparr> nr_nonce = nonce, nr_issuedAt = ad_now dep,
                     nr_expiresAt = ad_now dep + NONCE_TTL_SECONDS * 1000 \<rparr>
      in ((record, authText dep wallet record),
          s1\<lparr>as_nonces := (as_nonces s1)(wallet \<mapsto> (NonceJson record, ad_now dep + NONCE_TTL_SECONDS * 1000))\<rparr>))"

definition consumeNonce :: "auth_deps \<Rightarrow> string \<Rightarrow> auth_state \<Rightarrow> nonce_record option \<times> auth_state" where
  "consumeNonce dep wallet s =
    (let raw = unexpired (ad_now dep) (as_nonces s wallet);
         s1 = s\<lparr>as_nonces := (as_nonces s)(wallet := None)\<rparr>
     in case raw of
          None \<Rightarrow> (None, s1)
        | Some NonceCorrupt \<Rightarrow> (None, s1)
        | Some (NonceJson record) \<Rightarrow> (Some record, s1))"

section \<open>Users and sessions\<close>

text \<open>The user as it was read before the timestamps are written.\<close>

definition upsertWalletOwner :: "auth_deps \<Rightarrow> string \<Rightarrow> auth_state \<Rightarrow> user_row auth_io" where
  "upsertWalletOwner dep address s =
    (case walletByAddress address s of
       Some existing \<Rightarrow>
         (case userById (w_user existing) s of
            None \<Rightarrow> (Inl (AuthDb P2025), s)
          | Some user \<Rightarrow>
              (let s1 = ad_during dep s
               in if \<not> list_ex (\<lambda>w. w_id w = w_id existing) (as_wallets s1) \<or> userById (w_user existing) s1 = None
                  then (Inl (AuthDb P2025), s1)
                  else (Inr user,
                        s1\<lparr>as_wallets := upd_rows (\<lambda>w. w_id w = w_id existing)
                               (\<lambda>w. w\<lparr>w_verifiedAt := Some (ad_now dep)\<rparr>) (as_wallets s1),
                            as_users := upd_rows (\<lambda>u. u_id u = w_user existing)
                               (\<lambda>u. u\<lparr>u_lastSeenAt := Some (ad_now dep)\<rparr>) (as_users s1)\<rparr>)))
     | None \<Rightarrow>
         (let s1 = ad_during dep s
          in case draw s1 of (uid, s2) \<Rightarrow>
             case draw s2 of (wid, s3) \<Rightarrow>
               if list_ex (\<lambda>w. w_address w = address) (as_wallets s3) then (Inl (AuthDb (P2002 ''address'')), s3)
               else
                 (let user = \<lparr> u_id = uid, u_username = None, u_displayName = None, u_role = PLAYER,
                               u_status = ACTIVE, u_createdAt = ad_now dep,
                               u_lastSeenAt = Some (ad_now dep) \<rparr>
                  in (Inr user,
                      s3\<lparr>as_users := as_users s3 @ [user],
                          as_wallets := as_wallets s3 @
                            [\<lparr> w_id = wid, w_user = uid, w_address = address, w_primary = True,
                               w_verifiedAt = Some (ad_now dep), w_createdAt = ad_now dep \<rparr>]\<rparr>))))"

record session_context =
  sc_userAgent :: "string option"
  sc_ipHash :: "string option"
  sc_familyId :: "string option"

text \<open>Verified wallets only, the primary one first; the rows of the table are in the order of creation.\<close>

definition sessionWallet :: "string \<Rightarrow> auth_state \<Rightarrow> string" where
  "sessionWallet userId s =
    (let mine = filter (\<lambda>w. w_user w = userId \<and> w_verifiedAt w \<noteq> None) (as_wallets s)
     in case find w_primary mine of
          Some w \<Rightarrow> w_address w
        | None \<Rightarrow> (case mine of [] \<Rightarrow> [] | w # _ \<Rightarrow> w_address w))"

definition nicknameOf :: "user_row \<Rightarrow> string option" where
  "nicknameOf u = (case u_displayName u of Some n \<Rightarrow> Some n | None \<Rightarrow> u_username u)"

text \<open>The tokens and the row of a session. It is read and written as one step: other requests act before it or after it.\<close>

definition issueSession :: "auth_deps \<Rightarrow> user_row \<Rightarrow> session_context \<Rightarrow> auth_state \<Rightarrow> issued_session auth_io" where
  "issueSession dep user ctx s =
    (let wallet = sessionWallet (u_id user) s
     in case draw s of (jti, s1) \<Rightarrow>
        let accessToken = ad_jwtSign dep
              \<lparr> ac_sub = u_id user, ac_wallet = wallet, ac_role = u_role user, ac_jti = jti,
                ac_nickname = nicknameOf user \<rparr> (ad_accessTtlSeconds dep)
        in case draw s1 of (refreshToken, s2) \<Rightarrow>
           case (case sc_familyId ctx of Some f \<Rightarrow> (f, s2) | None \<Rightarrow> draw s2) of (familyId, s3) \<Rightarrow>
           case draw s3 of (i, s4) \<Rightarrow>
             if tokenByHash (hashToken dep refreshToken) s4 \<noteq> None
             then (Inl (AuthDb (P2002 ''token_hash'')), s4)
             else
               (Inr \<lparr> is_userId = u_id user, is_wallet = wallet, is_nickname = nicknameOf user,
                      is_role = u_role user, is_createdAt = toISOString (u_createdAt user),
                      is_accessToken = accessToken, is_refreshToken = refreshToken,
                      is_expiresIn = ad_accessTtlSeconds dep \<rparr>,
                s4\<lparr>as_tokens := as_tokens s4 @
                  [\<lparr> rt_id = i, rt_user = u_id user, rt_family = familyId,
                     rt_hash = hashToken dep refreshToken,
                     rt_userAgent = map_option (take 256) (sc_userAgent ctx), rt_ipHash = sc_ipHash ctx,
                     rt_expiresAt = ad_now dep + REFRESH_TTL_SECONDS * 1000, rt_revokedAt = None \<rparr>]\<rparr>))"

definition barred :: "user_row \<Rightarrow> bool" where
  "barred u \<longleftrightarrow> u_status u = BANNED \<or> u_status u = CLOSED"

record sign_in =
  si_wallet :: string
  si_signature :: string
  si_nonce :: string
  si_userAgent :: "string option"
  si_ip :: "string option"
  si_ipSalt :: string

definition verifyWalletSignature :: "auth_deps \<Rightarrow> sign_in \<Rightarrow> auth_state \<Rightarrow> issued_session auth_io" where
  "verifyWalletSignature dep p s =
    (case consumeNonce dep (si_wallet p) s of
       (None, s1) \<Rightarrow> (Inl (Unauthorized ''Nonce is unknown, expired or already used''), s1)
     | (Some record, s1) \<Rightarrow>
         if nr_nonce record \<noteq> si_nonce p
         then (Inl (Unauthorized ''Nonce does not match the outstanding challenge''), s1)
         else if nr_expiresAt record < ad_now dep then (Inl (Unauthorized ''Nonce has expired''), s1)
         else if \<not> verifySignature (ad_sig dep) (authText dep (si_wallet p) record) (si_signature p) (si_wallet p)
         then (Inl (Unauthorized ''Signature does not match the wallet''), s1)
         else
           io_bind (upsertWalletOwner dep (si_wallet p) s1) (\<lambda>user s2.
             if barred user then (Inl (NotPermitted ''This account is not permitted to sign in''), s2)
             else issueSession dep user
                    \<lparr> sc_userAgent = si_userAgent p, sc_ipHash = hashIp dep (si_ip p) (si_ipSalt p),
                      sc_familyId = None \<rparr> s2))"

record connect_params =
  cp_wallet :: string
  cp_nickname :: "string option"
  cp_userAgent :: "string option"
  cp_ip :: "string option"
  cp_ipSalt :: string

definition connectWallet :: "auth_deps \<Rightarrow> connect_params \<Rightarrow> auth_state \<Rightarrow> issued_session auth_io" where
  "connectWallet dep p s =
    io_bind (upsertWalletOwner dep (cp_wallet p) s) (\<lambda>user s1.
      if barred user then (Inl (NotPermitted ''This account is not permitted to play''), s1)
      else
        io_bind
          (if cp_nickname p \<noteq> None \<and> cp_nickname p \<noteq> u_displayName user then
             (case userById (u_id user) s1 of
                None \<Rightarrow> (Inl (AuthDb P2025), s1)
              | Some row \<Rightarrow>
                  (Inr (row\<lparr>u_displayName := cp_nickname p\<rparr>),
                   s1\<lparr>as_users := upd_rows (\<lambda>u. u_id u = u_id user)
                          (\<lambda>u. u\<lparr>u_displayName := cp_nickname p\<rparr>) (as_users s1)\<rparr>))
           else (Inr user, s1))
          (\<lambda>owner s2. issueSession dep owner
             \<lparr> sc_userAgent = cp_userAgent p, sc_ipHash = hashIp dep (cp_ip p) (cp_ipSalt p),
               sc_familyId = None \<rparr> s2))"

section \<open>Rotation\<close>

record refresh_params =
  rf_token :: string
  rf_userAgent :: "string option"
  rf_ip :: "string option"
  rf_ipSalt :: string

text \<open>\<open>updateMany\<close> on the tokens that are still live.\<close>

definition revokeWhere :: "(refresh_row \<Rightarrow> bool) \<Rightarrow> int \<Rightarrow> auth_state \<Rightarrow> auth_state" where
  "revokeWhere P now s =
    s\<lparr>as_tokens := upd_rows (\<lambda>r. P r \<and> rt_revokedAt r = None) (\<lambda>r. r\<lparr>rt_revokedAt := Some now\<rparr>) (as_tokens s)\<rparr>"

definition rotateRefreshToken :: "auth_deps \<Rightarrow> refresh_params \<Rightarrow> auth_state \<Rightarrow> issued_session auth_io" where
  "rotateRefreshToken dep p s =
    (case tokenByHash (hashToken dep (rf_token p)) s of
       None \<Rightarrow> (Inl (Unauthorized ''Refresh token is not recognised''), s)
     | Some stored \<Rightarrow>
         (case userById (rt_user stored) s of
            None \<Rightarrow> (Inl (AuthDb P2025), s)
          | Some user \<Rightarrow>
              if rt_revokedAt stored \<noteq> None then
                (Inl TokenReuse, revokeWhere (\<lambda>r. rt_family r = rt_family stored) (ad_now dep) (ad_during dep s))
              else if rt_expiresAt stored < ad_now dep then
                (Inl (Unauthorized ''Refresh token has expired''), s)
              else if barred user then (Inl (NotPermitted ''This account is not permitted to sign in''), s)
              else
                (let s1 = ad_during dep s
                 in if \<not> list_ex (\<lambda>r. rt_id r = rt_id stored) (as_tokens s1) then (Inl (AuthDb P2025), s1)
                    else issueSession dep user
                           \<lparr> sc_userAgent = rf_userAgent p, sc_ipHash = hashIp dep (rf_ip p) (rf_ipSalt p),
                             sc_familyId = Some (rt_family stored) \<rparr>
                           (s1\<lparr>as_tokens := upd_rows (\<lambda>r. rt_id r = rt_id stored)
                                (\<lambda>r. r\<lparr>rt_revokedAt := Some (ad_now dep)\<rparr>) (as_tokens s1)\<rparr>))))"

section \<open>Revocation\<close>

definition revokeAccessToken :: "auth_deps \<Rightarrow> string \<Rightarrow> int \<Rightarrow> auth_state \<Rightarrow> auth_state" where
  "revokeAccessToken dep jti expiresAtSeconds s =
    (let remaining = - ((ad_now dep - expiresAtSeconds * 1000) div 1000)
     in if remaining \<le> 0 then s
        else s\<lparr>as_revoked := (as_revoked s)(jti \<mapsto> ad_now dep + remaining * 1000)\<rparr>)"

definition isAccessTokenRevoked :: "int \<Rightarrow> auth_state \<Rightarrow> string \<Rightarrow> bool" where
  "isAccessTokenRevoked now s jti = (case as_revoked s jti of None \<Rightarrow> False | Some e \<Rightarrow> now < e)"

definition logout :: "auth_deps \<Rightarrow> string \<Rightarrow> string \<Rightarrow> int \<Rightarrow> auth_state \<Rightarrow> auth_state" where
  "logout dep userId jti accessTokenExp s =
    revokeAccessToken dep jti accessTokenExp (revokeWhere (\<lambda>r. rt_user r = userId) (ad_now dep) s)"

definition revokeAllSessions :: "auth_deps \<Rightarrow> string \<Rightarrow> auth_state \<Rightarrow> auth_state" where
  "revokeAllSessions dep userId s =
    (let s1 = revokeWhere (\<lambda>r. rt_user r = userId) (ad_now dep) s
     in s1\<lparr>as_cutoffs := (as_cutoffs s1)(userId \<mapsto>
             (show_int (ad_now dep div 1000), ad_now dep + ad_accessTtlSeconds dep * 2 * 1000))\<rparr>)"

definition isBeforeCutoff :: "int option \<Rightarrow> string option \<Rightarrow> bool" where
  "isBeforeCutoff issuedAtSeconds cutoff =
    (case (cutoff, issuedAtSeconds) of
       (Some c, Some iat) \<Rightarrow> (case parseInt10 c of None \<Rightarrow> False | Some cutoffSeconds \<Rightarrow> iat < cutoffSeconds)
     | _ \<Rightarrow> False)"

section \<open>The guard\<close>

definition authenticate :: "auth_deps \<Rightarrow> string \<Rightarrow> auth_state \<Rightarrow> (auth_error, verified_token) res" where
  "authenticate dep token s =
    (case ad_jwtVerify dep (ad_now dep) token of
       None \<Rightarrow> Inl (Unauthorized ''Invalid or expired token'')
     | Some user \<Rightarrow>
         if isAccessTokenRevoked (ad_now dep) s (ac_jti user) then Inl (Unauthorized ''Token has been revoked'')
         else if isBeforeCutoff (vt_iat user) (unexpired (ad_now dep) (as_cutoffs s (ac_sub user)))
         then Inl (Unauthorized ''Session was revoked; sign in again'')
         else Inr user)"

definition requireRole :: "user_role list \<Rightarrow> verified_token \<Rightarrow> (auth_error, unit) res" where
  "requireRole roles user =
    (if ac_role user \<notin> set roles then Inl (NotPermitted ''Insufficient role'') else Inr ())"

end
