(* ===== verification/Auth_Histories.thy ===== *)
theory Auth_Histories
  imports Auth
begin

text \<open>
  What sign-in, rotation and revocation guarantee. A history is a list of requests with the times they
  are served at; \<open>auth_inv\<close> is what every history keeps of the table of refresh tokens: ids and hashes
  are unique, everything in it comes from draws already made, and no family has two live tokens.
\<close>

section \<open>Histories\<close>

datatype auth_request =
  NonceRequest string
| SignIn sign_in
| Connect connect_params
| Refresh refresh_params
| Logout string string int
| RevokeAll string

fun auth_serve :: "auth_deps \<Rightarrow> auth_request \<Rightarrow> auth_state \<Rightarrow> auth_state" where
  "auth_serve dep (NonceRequest w) s = snd (issueNonce dep w s)"
| "auth_serve dep (SignIn p) s = snd (verifyWalletSignature dep p s)"
| "auth_serve dep (Connect p) s = snd (connectWallet dep p s)"
| "auth_serve dep (Refresh p) s = snd (rotateRefreshToken dep p s)"
| "auth_serve dep (Logout u jti e) s = logout dep u jti e s"
| "auth_serve dep (RevokeAll u) s = revokeAllSessions dep u s"

fun run_auth :: "auth_deps \<Rightarrow> (int \<times> auth_request) list \<Rightarrow> auth_state \<Rightarrow> auth_state" where
  "run_auth dep [] s = s"
| "run_auth dep ((t, q) # es) s = run_auth dep es (auth_serve (dep\<lparr>ad_now := t\<rparr>) q s)"

text \<open>The requests are served one at a time, and neither draws nor digests repeat.\<close>

definition serial :: "auth_deps \<Rightarrow> bool" where
  "serial dep \<longleftrightarrow> ad_during dep = (\<lambda>s. s)"

definition fresh_secrets :: "auth_deps \<Rightarrow> auth_state \<Rightarrow> bool" where
  "fresh_secrets dep s \<longleftrightarrow> inj (as_random s) \<and> inj (ad_sha256 dep)"

lemma serial_now [simp]: "serial (dep\<lparr>ad_now := t\<rparr>) = serial dep"
  by (simp add: serial_def)

lemma fresh_secrets_now [simp]: "fresh_secrets (dep\<lparr>ad_now := t\<rparr>) s = fresh_secrets dep s"
  by (simp add: fresh_secrets_def)

section \<open>The invariant\<close>

definition drawn_values :: "auth_state \<Rightarrow> string set" where
  "drawn_values s = as_random s ` {..<as_drawn s}"

definition live_tokens :: "auth_state \<Rightarrow> refresh_row list" where
  "live_tokens s = filter (\<lambda>r. rt_revokedAt r = None) (as_tokens s)"

definition auth_inv :: "auth_deps \<Rightarrow> auth_state \<Rightarrow> bool" where
  "auth_inv dep s \<longleftrightarrow>
     fresh_secrets dep s \<and>
     distinct (map rt_id (as_tokens s)) \<and> distinct (map rt_hash (as_tokens s)) \<and>
     (\<forall>r \<in> set (as_tokens s). rt_id r \<in> drawn_values s \<and> rt_family r \<in> drawn_values s \<and>
        rt_hash r \<in> ad_sha256 dep ` drawn_values s) \<and>
     distinct (map rt_family (live_tokens s))"

lemma auth_inv_now [simp]: "auth_inv (dep\<lparr>ad_now := t\<rparr>) s = auth_inv dep s"
  by (simp add: auth_inv_def)

lemma auth_inv_fresh: "auth_inv dep s \<Longrightarrow> fresh_secrets dep s"
  by (simp add: auth_inv_def)

text \<open>A step that leaves the table of tokens alone and only draws.\<close>

definition quiet :: "auth_state \<Rightarrow> auth_state \<Rightarrow> bool" where
  "quiet s s' \<longleftrightarrow> as_tokens s' = as_tokens s \<and> as_random s' = as_random s \<and> as_drawn s \<le> as_drawn s'"

lemma quiet_refl [simp]: "quiet s s"
  by (simp add: quiet_def)

lemma quiet_trans: "quiet s s' \<Longrightarrow> quiet s' s'' \<Longrightarrow> quiet s s''"
  by (auto simp: quiet_def)

lemma quiet_drawn: "quiet s s' \<Longrightarrow> drawn_values s \<subseteq> drawn_values s'"
  by (auto simp: quiet_def drawn_values_def)

lemma quiet_inv: "quiet s s' \<Longrightarrow> auth_inv dep s \<Longrightarrow> auth_inv dep s'"
  using quiet_drawn [of s s'] image_mono [OF quiet_drawn, of s s' "ad_sha256 dep"]
  by (auto simp: auth_inv_def quiet_def live_tokens_def fresh_secrets_def)

lemma draw_eq [simp]: "draw s = (as_random s (as_drawn s), s\<lparr>as_drawn := Suc (as_drawn s)\<rparr>)"
  by (simp add: draw_def)

lemma quiet_draw [simp]: "quiet s (s\<lparr>as_drawn := Suc (as_drawn s)\<rparr>)"
  by (simp add: quiet_def)

lemma quiet_nonce: "quiet s (snd (issueNonce dep w s))"
  by (simp add: issueNonce_def quiet_def Let_def)

lemma quiet_consume: "quiet s (snd (consumeNonce dep w s))"
  by (auto simp: consumeNonce_def quiet_def Let_def split: option.split nonce_value.split)

lemma quiet_upsert: "serial dep \<Longrightarrow> quiet s (snd (upsertWalletOwner dep a s))"
  by (auto simp: upsertWalletOwner_def quiet_def Let_def serial_def split: option.split)

text \<open>A value not yet drawn is none of those in the table.\<close>

lemma undrawn:
  assumes "fresh_secrets dep s" and "as_drawn s \<le> n"
  shows "as_random s n \<notin> drawn_values s"
    and "ad_sha256 dep (as_random s n) \<notin> ad_sha256 dep ` drawn_values s"
  using assms by (auto simp: fresh_secrets_def drawn_values_def inj_eq)

lemma drawn_now: "n < as_drawn s \<Longrightarrow> as_random s n \<in> drawn_values s"
  by (auto simp: drawn_values_def)

section \<open>Issuing a session\<close>

text \<open>The one new row, when the draws are fresh.\<close>

lemma issueSession_effect:
  assumes inv: "auth_inv dep s"
  obtains sess n i f m where "issueSession dep user ctx s =
      (Inr sess, s\<lparr>as_drawn := n, as_tokens := as_tokens s @
         [\<lparr> rt_id = as_random s i, rt_user = u_id user,
            rt_family = (case sc_familyId ctx of Some g \<Rightarrow> g | None \<Rightarrow> as_random s f),
            rt_hash = ad_sha256 dep (as_random s m), rt_userAgent = map_option (take 256) (sc_userAgent ctx),
            rt_ipHash = sc_ipHash ctx, rt_expiresAt = ad_now dep + REFRESH_TTL_SECONDS * 1000,
            rt_revokedAt = None \<rparr>]\<rparr>)"
    and "is_refreshToken sess = as_random s m" and "is_role sess = u_role user"
    and "is_userId sess = u_id user"
    and "as_drawn s \<le> i" "as_drawn s \<le> f" "as_drawn s \<le> m" "i < n" "f < n" "m < n" "as_drawn s \<le> n"
proof -
  let ?d = "as_drawn s"
  have fresh: "fresh_secrets dep s" and hashes: "\<forall>r \<in> set (as_tokens s). rt_hash r \<in> ad_sha256 dep ` drawn_values s"
    using inv by (auto simp: auth_inv_def)
  have "ad_sha256 dep (as_random s (Suc ?d)) \<notin> ad_sha256 dep ` drawn_values s"
    using undrawn(2) [OF fresh, of "Suc ?d"] by simp
  then have none: "find (\<lambda>r. rt_hash r = ad_sha256 dep (as_random s (Suc ?d))) (as_tokens s) = None"
    using hashes unfolding find_None_iff by metis
  show ?thesis
  proof (cases "sc_familyId ctx")
    case None
    show ?thesis
      by (rule that [where i = "Suc (Suc (Suc ?d))" and f = "Suc (Suc ?d)" and m = "Suc ?d" and n = "?d + 4"
            and sess = "case issueSession dep user ctx s of (Inr x, _) \<Rightarrow> x"])
         (simp_all add: issueSession_def Let_def None tokenByHash_def hashToken_def none numeral_eq_Suc)
  next
    case (Some g)
    show ?thesis
      by (rule that [where i = "Suc (Suc ?d)" and f = "Suc (Suc ?d)" and m = "Suc ?d" and n = "?d + 3"
            and sess = "case issueSession dep user ctx s of (Inr x, _) \<Rightarrow> x"])
         (simp_all add: issueSession_def Let_def Some tokenByHash_def hashToken_def none numeral_eq_Suc)
  qed
qed

lemma issueSession_inv:
  assumes inv: "auth_inv dep s"
    and fam: "\<And>g. sc_familyId ctx = Some g \<Longrightarrow> g \<in> drawn_values s \<and> g \<notin> rt_family ` set (live_tokens s)"
  shows "auth_inv dep (snd (issueSession dep user ctx s))"
proof -
  obtain sess n i f m where eq: "issueSession dep user ctx s =
      (Inr sess, s\<lparr>as_drawn := n, as_tokens := as_tokens s @
         [\<lparr> rt_id = as_random s i, rt_user = u_id user,
            rt_family = (case sc_familyId ctx of Some g \<Rightarrow> g | None \<Rightarrow> as_random s f),
            rt_hash = ad_sha256 dep (as_random s m), rt_userAgent = map_option (take 256) (sc_userAgent ctx),
            rt_ipHash = sc_ipHash ctx, rt_expiresAt = ad_now dep + REFRESH_TTL_SECONDS * 1000,
            rt_revokedAt = None \<rparr>]\<rparr>)"
      (is "_ = (_, ?s')")
    and b: "as_drawn s \<le> i" "as_drawn s \<le> f" "as_drawn s \<le> m" "i < n" "f < n" "m < n" "as_drawn s \<le> n"
    by (rule issueSession_effect [OF inv])
  have fresh: "fresh_secrets dep s" using inv by (simp add: auth_inv_def)
  have sub: "drawn_values s \<subseteq> drawn_values ?s'" using b(7) by (auto simp: drawn_values_def)
  have new: "as_random s k \<in> drawn_values ?s'" if "k < n" for k using that by (auto simp: drawn_values_def)
  have old: "as_random s k \<notin> drawn_values s" "ad_sha256 dep (as_random s k) \<notin> ad_sha256 dep ` drawn_values s"
    if "as_drawn s \<le> k" for k using undrawn [OF fresh that] by auto
  have rows: "\<forall>r \<in> set (as_tokens s). rt_id r \<in> drawn_values s \<and> rt_family r \<in> drawn_values s \<and>
        rt_hash r \<in> ad_sha256 dep ` drawn_values s"
    using inv by (simp add: auth_inv_def)
  let ?g = "case sc_familyId ctx of Some g \<Rightarrow> g | None \<Rightarrow> as_random s f"
  have g: "?g \<in> drawn_values ?s'" "?g \<notin> rt_family ` set (live_tokens s)"
    using fam sub new [OF b(5)] old(1) [OF b(2)] rows
    by (auto split: option.split simp: live_tokens_def)
  have ids: "as_random s i \<notin> rt_id ` set (as_tokens s)" "ad_sha256 dep (as_random s m) \<notin> rt_hash ` set (as_tokens s)"
    using rows old(1) [OF b(1)] old(2) [OF b(3)] by auto
  have mem: "\<forall>r \<in> set (as_tokens ?s'). rt_id r \<in> drawn_values ?s' \<and> rt_family r \<in> drawn_values ?s' \<and>
        rt_hash r \<in> ad_sha256 dep ` drawn_values ?s'"
    using rows sub new [OF b(4)] new [OF b(6)] g(1) by auto
  have "distinct (map rt_family (live_tokens ?s'))"
    using inv g(2) by (simp add: auth_inv_def live_tokens_def)
  moreover have "distinct (map rt_id (as_tokens ?s'))" "distinct (map rt_hash (as_tokens ?s'))"
    using inv ids by (simp_all add: auth_inv_def)
  moreover have "fresh_secrets dep ?s'" using fresh by (simp add: fresh_secrets_def)
  ultimately have "auth_inv dep ?s'" using mem unfolding auth_inv_def by blast
  with eq show ?thesis by simp
qed

section \<open>Revoking\<close>

lemma live_revokeWhere:
  "live_tokens (revokeWhere P t s) = filter (\<lambda>r. \<not> P r) (live_tokens s)"
proof -
  have "filter (\<lambda>r. rt_revokedAt r = None) (upd_rows (\<lambda>r. P r \<and> rt_revokedAt r = None) (\<lambda>r. r\<lparr>rt_revokedAt := Some t\<rparr>) xs)
      = filter (\<lambda>r. \<not> P r) (filter (\<lambda>r. rt_revokedAt r = None) xs)" for xs
    by (induction xs) auto
  then show ?thesis by (simp add: live_tokens_def revokeWhere_def)
qed

lemma revokeWhere_inv: "auth_inv dep s \<Longrightarrow> auth_inv dep (revokeWhere P t s)"
proof -
  assume inv: "auth_inv dep s"
  have keys: "map rt_id (as_tokens (revokeWhere P t s)) = map rt_id (as_tokens s)"
    "map rt_hash (as_tokens (revokeWhere P t s)) = map rt_hash (as_tokens s)"
    "map rt_family (as_tokens (revokeWhere P t s)) = map rt_family (as_tokens s)"
    by (simp_all add: revokeWhere_def map_key_upd_rows)
  have "\<forall>r \<in> set (as_tokens (revokeWhere P t s)). rt_id r \<in> drawn_values s \<and> rt_family r \<in> drawn_values s \<and>
        rt_hash r \<in> ad_sha256 dep ` drawn_values s"
    using inv by (auto simp: auth_inv_def revokeWhere_def set_upd_rows)
  moreover have "drawn_values (revokeWhere P t s) = drawn_values s" "fresh_secrets dep (revokeWhere P t s)"
    using inv by (simp_all add: drawn_values_def revokeWhere_def auth_inv_def fresh_secrets_def)
  ultimately show ?thesis
    using inv by (simp add: auth_inv_def keys live_revokeWhere distinct_map_filter)
qed

lemma revokeAccessToken_quiet: "quiet s (revokeAccessToken dep jti e s)"
  by (simp add: revokeAccessToken_def quiet_def Let_def)

lemma logout_inv: "auth_inv dep s \<Longrightarrow> auth_inv dep (logout dep u jti e s)"
  unfolding logout_def by (rule quiet_inv [OF revokeAccessToken_quiet revokeWhere_inv])

lemma revokeAll_inv: "auth_inv dep s \<Longrightarrow> auth_inv dep (revokeAllSessions dep u s)"
  unfolding revokeAllSessions_def Let_def
  by (rule quiet_inv [OF _ revokeWhere_inv [of dep s "\<lambda>r. rt_user r = u" "ad_now dep"]]) (simp_all add: quiet_def)

section \<open>Every request keeps the invariant\<close>

lemma upsert_inv: "serial dep \<Longrightarrow> auth_inv dep s \<Longrightarrow> auth_inv dep (snd (upsertWalletOwner dep a s))"
  by (rule quiet_inv [OF quiet_upsert])

lemma verify_inv:
  assumes "serial dep" and inv: "auth_inv dep s"
  shows "auth_inv dep (snd (verifyWalletSignature dep p s))"
proof -
  obtain r s1 where c: "consumeNonce dep (si_wallet p) s = (r, s1)" by (cases "consumeNonce dep (si_wallet p) s")
  have i1: "auth_inv dep s1" using quiet_inv [OF quiet_consume inv, of dep "si_wallet p"] c by simp
  obtain v s2 where u: "upsertWalletOwner dep (si_wallet p) s1 = (v, s2)" by (cases "upsertWalletOwner dep (si_wallet p) s1")
  have i2: "auth_inv dep s2" using upsert_inv [OF assms(1) i1, of "si_wallet p"] u by simp
  show ?thesis
    using i1 i2 by (cases v; cases r) (auto simp: verifyWalletSignature_def c u intro: issueSession_inv)
qed

lemma connect_inv:
  assumes "serial dep" and inv: "auth_inv dep s"
  shows "auth_inv dep (snd (connectWallet dep p s))"
proof -
  obtain v s1 where u: "upsertWalletOwner dep (cp_wallet p) s = (v, s1)" by (cases "upsertWalletOwner dep (cp_wallet p) s")
  have i1: "auth_inv dep s1" using upsert_inv [OF assms, of "cp_wallet p"] u by simp
  have i2: "auth_inv dep (s1\<lparr>as_users := us\<rparr>)" for us by (rule quiet_inv [OF _ i1]) (simp add: quiet_def)
  show ?thesis
    using i1 i2 by (cases v) (auto simp: connectWallet_def u intro!: issueSession_inv split: option.split)
qed

text \<open>The row a token names is the only one of its id and, while it lives, the only live one of its family.\<close>

lemma live_of_family:
  assumes "auth_inv dep s" and "r \<in> set (as_tokens s)" and "rt_revokedAt r = None"
    and "q \<in> set (as_tokens s)" and "rt_revokedAt q = None" and "rt_family q = rt_family r"
  shows "q = r"
  using assms by (intro distinct_key_eq [of rt_family "live_tokens s"]) (auto simp: auth_inv_def live_tokens_def)

text \<open>Spending a live token ends its family for the moment.\<close>

lemma spend_eq:
  assumes inv: "auth_inv dep s" and r: "r \<in> set (as_tokens s)" and live: "rt_revokedAt r = None"
  shows "s\<lparr>as_tokens := upd_rows (\<lambda>q. rt_id q = rt_id r) (\<lambda>q. q\<lparr>rt_revokedAt := Some t\<rparr>) (as_tokens s)\<rparr>
       = revokeWhere (\<lambda>q. rt_family q = rt_family r) t s"
proof -
  have "(rt_id q = rt_id r) = (rt_family q = rt_family r \<and> rt_revokedAt q = None)"
    if "q \<in> set (as_tokens s)" for q
    using that live_of_family [OF inv r live that] live
      distinct_key_eq [of rt_id "as_tokens s" q r] r inv by (auto simp: auth_inv_def)
  then show ?thesis unfolding revokeWhere_def upd_rows_def by (auto intro: auth_state.fold_congs(3))
qed

lemma rotate_inv:
  assumes "serial dep" and inv: "auth_inv dep s"
  shows "auth_inv dep (snd (rotateRefreshToken dep p s))"
proof (cases "tokenByHash (hashToken dep (rf_token p)) s")
  case None
  with inv show ?thesis by (simp add: rotateRefreshToken_def)
next
  case (Some r)
  then have r: "r \<in> set (as_tokens s)" by (auto simp: tokenByHash_def dest: find_SomeD)
  let ?s1 = "revokeWhere (\<lambda>q. rt_family q = rt_family r) (ad_now dep) s"
  have i1: "auth_inv dep ?s1" by (rule revokeWhere_inv [OF inv])
  have "rt_family r \<in> drawn_values s" using inv r by (simp add: auth_inv_def)
  then have f: "rt_family r \<in> drawn_values ?s1" by (simp add: drawn_values_def revokeWhere_def)
  have "rt_family r \<notin> rt_family ` set (live_tokens ?s1)" by (auto simp: live_revokeWhere)
  with f have iss: "auth_inv dep (snd (issueSession dep u
      \<lparr>sc_userAgent = a, sc_ipHash = h, sc_familyId = Some (rt_family r)\<rparr> ?s1))" for u a h
    by (intro issueSession_inv [OF i1]) auto
  have ex: "list_ex (\<lambda>q. rt_id q = rt_id r) (as_tokens s)" using r by (auto simp: list_ex_iff)
  show ?thesis
  proof (cases "rt_revokedAt r")
    case None
    show ?thesis
      using inv iss ex assms(1)
      by (simp add: rotateRefreshToken_def Some serial_def None spend_eq [OF inv r None] split: option.split)
  next
    case (Some t)
    then show ?thesis
      using inv i1 assms(1) \<open>tokenByHash _ _ = Some r\<close>
      by (simp add: rotateRefreshToken_def serial_def split: option.split)
  qed
qed

lemma auth_serve_inv: "serial dep \<Longrightarrow> auth_inv dep s \<Longrightarrow> auth_inv dep (auth_serve dep q s)"
  by (cases q)
     (auto intro: verify_inv connect_inv rotate_inv logout_inv revokeAll_inv quiet_inv [OF quiet_nonce])

lemma run_auth_inv: "serial dep \<Longrightarrow> auth_inv dep s \<Longrightarrow> auth_inv dep (run_auth dep es s)"
proof (induction es arbitrary: s)
  case (Cons e es)
  obtain t q where e: "e = (t, q)" by (cases e)
  have "auth_inv (dep\<lparr>ad_now := t\<rparr>) (auth_serve (dep\<lparr>ad_now := t\<rparr>) q s)"
    by (rule auth_serve_inv) (use Cons.prems in simp_all)
  with Cons show ?case by (simp add: e)
qed simp

definition auth_start :: "user_row list \<Rightarrow> wallet_row list \<Rightarrow> (nat \<Rightarrow> string) \<Rightarrow> auth_state" where
  "auth_start us ws rnd =
    \<lparr> as_users = us, as_wallets = ws, as_tokens = [], as_nonces = Map.empty, as_revoked = Map.empty,
      as_cutoffs = Map.empty, as_random = rnd, as_drawn = 0 \<rparr>"

lemma auth_start_inv: "inj rnd \<Longrightarrow> inj (ad_sha256 dep) \<Longrightarrow> auth_inv dep (auth_start us ws rnd)"
  by (simp add: auth_inv_def auth_start_def live_tokens_def fresh_secrets_def)

section \<open>What a request never takes back\<close>

text \<open>Rows stay, and what is revoked stays revoked.\<close>

definition outlives :: "refresh_row \<Rightarrow> refresh_row \<Rightarrow> bool" where
  "outlives r r' \<longleftrightarrow> rt_hash r' = rt_hash r \<and> rt_family r' = rt_family r \<and> rt_user r' = rt_user r \<and>
     (rt_revokedAt r \<noteq> None \<longrightarrow> rt_revokedAt r' \<noteq> None)"

lemma outlives_refl [simp]: "outlives r r"
  by (simp add: outlives_def)

lemma outlives_here [simp]: "r \<in> set rs \<Longrightarrow> \<exists>x \<in> set rs. outlives r x"
  by (auto intro: outlives_refl)

lemma outlives_trans: "outlives r r' \<Longrightarrow> outlives r' r'' \<Longrightarrow> outlives r r''"
  by (auto simp: outlives_def)

lemma outlives_upd:
  "r \<in> set rs \<Longrightarrow> \<exists>r' \<in> set (upd_rows P (\<lambda>r. r\<lparr>rt_revokedAt := Some t\<rparr>) rs). outlives r r'"
  by (induction rs) (auto simp: outlives_def)

definition grows :: "auth_state \<Rightarrow> auth_state \<Rightarrow> bool" where
  "grows s s' \<longleftrightarrow> (\<forall>r \<in> set (as_tokens s). \<exists>r' \<in> set (as_tokens s'). outlives r r') \<and>
     u_id ` set (as_users s) \<subseteq> u_id ` set (as_users s')"

lemma grows_refl [simp]: "grows s s"
  by (auto simp: grows_def intro: outlives_refl)

lemma grows_trans: "grows s s' \<Longrightarrow> grows s' s'' \<Longrightarrow> grows s s''"
  unfolding grows_def by (meson order_trans outlives_trans)

lemma grows_same: "as_tokens s' = as_tokens s \<Longrightarrow> as_users s' = as_users s \<Longrightarrow> grows s s'"
  by (auto simp: grows_def intro: outlives_refl)

lemma grows_upd: "grows s (s\<lparr>as_tokens := upd_rows P (\<lambda>r. r\<lparr>rt_revokedAt := Some t\<rparr>) (as_tokens s)\<rparr>)"
  by (simp add: grows_def outlives_upd)

lemma grows_revokeWhere: "grows s (revokeWhere P t s)"
  unfolding revokeWhere_def by (rule grows_upd)

lemma grows_issue: "grows s (snd (issueSession dep u ctx s))"
  by (auto simp: grows_def issueSession_def Let_def split: prod.split option.split)

lemma user_ids_upd: "u_id ` set (upd_rows P (\<lambda>u. u\<lparr>u_lastSeenAt := x\<rparr>) us) = u_id ` set us"
  "u_id ` set (upd_rows P (\<lambda>u. u\<lparr>u_displayName := y\<rparr>) us) = u_id ` set us"
  by (induction us) auto

lemma grows_upsert: "serial dep \<Longrightarrow> grows s (snd (upsertWalletOwner dep a s))"
  by (auto simp: grows_def upsertWalletOwner_def serial_def Let_def user_ids_upd split: option.split)

lemma grows_consume: "grows s (snd (consumeNonce dep w s))"
  by (rule grows_same) (auto simp: consumeNonce_def Let_def split: option.split nonce_value.split)

lemma grows_verify:
  assumes "serial dep"
  shows "grows s (snd (verifyWalletSignature dep p s))"
proof -
  obtain r s1 where c: "consumeNonce dep (si_wallet p) s = (r, s1)" by (cases "consumeNonce dep (si_wallet p) s")
  have 1: "grows s s1" using grows_consume [of s dep "si_wallet p"] c by simp
  obtain v s2 where u: "upsertWalletOwner dep (si_wallet p) s1 = (v, s2)" by (cases "upsertWalletOwner dep (si_wallet p) s1")
  have 2: "grows s1 s2" using grows_upsert [OF assms, of s1 "si_wallet p"] u by simp
  have 3: "grows s (snd (issueSession dep x ctx s2))" for x ctx
    by (rule grows_trans [OF grows_trans [OF 1 2] grows_issue])
  show ?thesis
    using 1 grows_trans [OF 1 2] 3 by (cases v; cases r) (simp_all add: verifyWalletSignature_def c u)
qed

lemma grows_connect:
  assumes "serial dep"
  shows "grows s (snd (connectWallet dep p s))"
proof -
  obtain v s1 where u: "upsertWalletOwner dep (cp_wallet p) s = (v, s1)" by (cases "upsertWalletOwner dep (cp_wallet p) s")
  have 1: "grows s s1" using grows_upsert [OF assms, of s "cp_wallet p"] u by simp
  have 2: "grows s1 (s1\<lparr>as_users := upd_rows P (\<lambda>u. u\<lparr>u_displayName := y\<rparr>) (as_users s1)\<rparr>)" for P y
    by (auto simp: grows_def user_ids_upd)
  have 3: "grows s (snd (issueSession dep x ctx s1))" for x ctx by (rule grows_trans [OF 1 grows_issue])
  have 4: "grows s (snd (issueSession dep x ctx (s1\<lparr>as_users := upd_rows P (\<lambda>u. u\<lparr>u_displayName := y\<rparr>) (as_users s1)\<rparr>)))"
    for x ctx P y by (rule grows_trans [OF grows_trans [OF 1 2] grows_issue])
  show ?thesis using 1 3 4 by (cases v) (auto simp: connectWallet_def u split: option.split)
qed

lemma grows_rotate:
  assumes "serial dep"
  shows "grows s (snd (rotateRefreshToken dep p s))"
proof -
  have 2: "grows s (snd (issueSession dep x ctx (s\<lparr>as_tokens := upd_rows P (\<lambda>r. r\<lparr>rt_revokedAt := Some t\<rparr>) (as_tokens s)\<rparr>)))"
    for x ctx P t by (rule grows_trans [OF grows_upd grows_issue])
  show ?thesis
    using assms 2 by (auto simp: rotateRefreshToken_def serial_def Let_def grows_revokeWhere split: option.split)
qed

lemma grows_logout: "grows s (logout dep u jti e s)"
  unfolding logout_def
  by (rule grows_trans [OF grows_revokeWhere grows_same]) (simp_all add: revokeAccessToken_def Let_def)

lemma grows_revokeAll: "grows s (revokeAllSessions dep u s)"
  unfolding revokeAllSessions_def Let_def by (rule grows_trans [OF grows_revokeWhere grows_same]) simp_all

lemma grows_nonce: "grows s (snd (issueNonce dep w s))"
  by (rule grows_same) (simp_all add: issueNonce_def Let_def)

lemma grows_serve: "serial dep \<Longrightarrow> grows s (auth_serve dep q s)"
  by (cases q)
     (simp_all add: grows_verify grows_connect grows_rotate grows_logout grows_revokeAll grows_nonce)

lemma grows_run: "serial dep \<Longrightarrow> grows s (run_auth dep es s)"
proof (induction es arbitrary: s)
  case (Cons e es)
  obtain t q where e: "e = (t, q)" by (cases e)
  have "grows s (auth_serve (dep\<lparr>ad_now := t\<rparr>) q s)" by (rule grows_serve) (simp add: Cons.prems)
  with Cons show ?case by (auto simp: e intro: grows_trans)
qed simp

end
