(* ===== verification/Auth_Properties.thy ===== *)
theory Auth_Properties
  imports Auth_Histories
begin

text \<open>
  The guarantees the sign-in service states in its header, and where they end: a signature proves
  ownership and nothing replays; refresh tokens are single-use, as long as requests are served one at a
  time; revocation takes effect at once.
\<close>

section \<open>Sign-in\<close>

lemma nonces_upsert: "serial dep \<Longrightarrow> as_nonces (snd (upsertWalletOwner dep a s)) = as_nonces s"
  by (auto simp: upsertWalletOwner_def serial_def Let_def split: option.split)

lemma nonces_issue: "as_nonces (snd (issueSession dep u ctx s)) = as_nonces s"
  by (auto simp: issueSession_def Let_def split: option.split prod.split)

lemma nonces_consume: "as_nonces (snd (consumeNonce dep w s)) = (as_nonces s)(w := None)"
  by (auto simp: consumeNonce_def Let_def split: option.split nonce_value.split)

lemma nonces_verify:
  assumes "serial dep"
  shows "as_nonces (snd (verifyWalletSignature dep p s)) = (as_nonces s)(si_wallet p := None)"
proof -
  obtain r s1 where c: "consumeNonce dep (si_wallet p) s = (r, s1)" by (cases "consumeNonce dep (si_wallet p) s")
  have 1: "as_nonces s1 = (as_nonces s)(si_wallet p := None)" using nonces_consume [of dep "si_wallet p" s] c by simp
  obtain v s2 where u: "upsertWalletOwner dep (si_wallet p) s1 = (v, s2)" by (cases "upsertWalletOwner dep (si_wallet p) s1")
  have 2: "as_nonces s2 = as_nonces s1" using nonces_upsert [OF assms, of "si_wallet p" s1] u by simp
  show ?thesis
    using 1 2 by (cases r; cases v) (simp_all add: verifyWalletSignature_def c u nonces_issue)
qed

lemma nonces_connect: "serial dep \<Longrightarrow> as_nonces (snd (connectWallet dep p s)) = as_nonces s"
proof -
  assume "serial dep"
  obtain v s1 where u: "upsertWalletOwner dep (cp_wallet p) s = (v, s1)" by (cases "upsertWalletOwner dep (cp_wallet p) s")
  have "as_nonces s1 = as_nonces s" using nonces_upsert [OF \<open>serial dep\<close>, of "cp_wallet p" s] u by simp
  then show ?thesis by (cases v) (auto simp: connectWallet_def u nonces_issue split: option.split)
qed

lemma nonces_rotate: "serial dep \<Longrightarrow> as_nonces (snd (rotateRefreshToken dep p s)) = as_nonces s"
  by (auto simp: rotateRefreshToken_def serial_def Let_def nonces_issue revokeWhere_def split: option.split)

lemma nonces_run:
  assumes "serial dep" and "as_nonces s w = None" and "\<forall>(t, q) \<in> set es. q \<noteq> NonceRequest w"
  shows "as_nonces (run_auth dep es s) w = None"
  using assms(2,3)
proof (induction es arbitrary: s)
  case (Cons e es)
  obtain t q where e: "e = (t, q)" by (cases e)
  have "as_nonces (auth_serve (dep\<lparr>ad_now := t\<rparr>) q s) w = None"
    using Cons.prems assms(1) e
    by (cases q)
       (auto simp: nonces_verify nonces_connect nonces_rotate issueNonce_def Let_def logout_def
         revokeAccessToken_def revokeAllSessions_def revokeWhere_def)
  then show ?case using Cons e by simp
qed simp

lemma consume_none: "as_nonces s w = None \<Longrightarrow> fst (consumeNonce dep w s) = None"
  by (simp add: consumeNonce_def unexpired_def)

lemma verify_none:
  assumes "as_nonces s (si_wallet p) = None"
  shows "fst (verifyWalletSignature dep p s) = Inl (Unauthorized ''Nonce is unknown, expired or already used'')"
  using consume_none [OF assms, of dep]
  by (cases "consumeNonce dep (si_wallet p) s") (simp add: verifyWalletSignature_def)

text \<open>
  C6: a signature proves ownership and nothing replays: a session is issued by sign-in only to a
  signature, by the wallet itself, of the message the server rebuilds around the nonce it has
  outstanding for that wallet, unexpired and echoed by the client; and once any attempt was made for a
  wallet, however it ended, every further one fails until a new nonce is issued for it.
\<close>
theorem signin_proves_ownership:
  assumes serial: "serial dep"
  shows "(\<forall>sess. fst (verifyWalletSignature dep p s) = Inr sess \<longrightarrow>
           (\<exists>r. unexpired (ad_now dep) (as_nonces s (si_wallet p)) = Some (NonceJson r) \<and>
                nr_nonce r = si_nonce p \<and> ad_now dep \<le> nr_expiresAt r \<and>
                verifySignature (ad_sig dep) (authText dep (si_wallet p) r) (si_signature p) (si_wallet p))) \<and>
         (\<forall>es t q. (\<forall>(u, e) \<in> set es. e \<noteq> NonceRequest (si_wallet p)) \<and> si_wallet q = si_wallet p \<longrightarrow>
           fst (verifyWalletSignature (dep\<lparr>ad_now := t\<rparr>) q
                  (run_auth dep es (snd (verifyWalletSignature dep p s)))) =
             Inl (Unauthorized ''Nonce is unknown, expired or already used''))"
proof (intro conjI allI impI)
  fix sess
  assume ok: "fst (verifyWalletSignature dep p s) = Inr sess"
  obtain r s1 where c: "consumeNonce dep (si_wallet p) s = (r, s1)" by (cases "consumeNonce dep (si_wallet p) s")
  obtain n where r: "r = Some n" using ok c by (cases r) (auto simp: verifyWalletSignature_def)
  have raw: "unexpired (ad_now dep) (as_nonces s (si_wallet p)) = Some (NonceJson n)"
    using c r by (auto simp: consumeNonce_def Let_def split: option.splits nonce_value.splits)
  then show "\<exists>r. unexpired (ad_now dep) (as_nonces s (si_wallet p)) = Some (NonceJson r) \<and>
      nr_nonce r = si_nonce p \<and> ad_now dep \<le> nr_expiresAt r \<and>
      verifySignature (ad_sig dep) (authText dep (si_wallet p) r) (si_signature p) (si_wallet p)"
    using ok c r by (intro exI [of _ n]) (auto simp: verifyWalletSignature_def split: if_splits)
next
  fix es :: "(int \<times> auth_request) list" and t and q :: sign_in
  assume a: "(\<forall>(u, e) \<in> set es. e \<noteq> NonceRequest (si_wallet p)) \<and> si_wallet q = si_wallet p"
  have "as_nonces (run_auth dep es (snd (verifyWalletSignature dep p s))) (si_wallet p) = None"
    by (rule nonces_run [OF serial]) (use a in \<open>simp_all add: nonces_verify [OF serial]\<close>)
  then show "fst (verifyWalletSignature (dep\<lparr>ad_now := t\<rparr>) q
        (run_auth dep es (snd (verifyWalletSignature dep p s)))) =
      Inl (Unauthorized ''Nonce is unknown, expired or already used'')"
    using a by (intro verify_none) simp
qed

section \<open>Refresh tokens\<close>

text \<open>
  no session ever has two live refresh tokens: whatever requests were served, in whatever order and
  at whatever times, at most one token of each family is not revoked.
\<close>
theorem one_live_token_per_family:
  assumes "serial dep" and "inj rnd" and "inj (ad_sha256 dep)"
  shows "distinct (map rt_family (filter (\<lambda>r. rt_revokedAt r = None)
           (as_tokens (run_auth dep es (auth_start us ws rnd)))))"
  using run_auth_inv [OF assms(1) auth_start_inv [OF assms(2,3), of us ws], of es]
  by (simp add: auth_inv_def live_tokens_def)

text \<open>The row a hash names, wherever its row has gone since.\<close>

lemma token_follows:
  assumes "grows s s'" and inv: "auth_inv dep s'" and r: "r \<in> set (as_tokens s)"
  obtains r' where "tokenByHash (rt_hash r) s' = Some r'" and "outlives r r'" and "r' \<in> set (as_tokens s')"
proof -
  obtain r' where r': "r' \<in> set (as_tokens s')" "outlives r r'" using assms(1) r by (auto simp: grows_def)
  have "tokenByHash (rt_hash r) s' = Some r'"
    unfolding tokenByHash_def
    by (rule find_key [of rt_hash]) (use inv r' in \<open>auto simp: auth_inv_def outlives_def\<close>)
  with r' that show ?thesis by blast
qed

text \<open>What a successful rotation leaves: the token spent, its successor in the same family.\<close>

lemma rotate_success:
  assumes serial: "serial dep" and inv: "auth_inv dep s"
    and ok: "rotateRefreshToken dep p s = (Inr sess, s1)"
  obtains r r1 n1 where "tokenByHash (hashToken dep (rf_token p)) s = Some r"
    and "rt_revokedAt r = None"
    and "r1 \<in> set (as_tokens s1)" "rt_hash r1 = hashToken dep (rf_token p)" "rt_revokedAt r1 \<noteq> None"
    and "n1 \<in> set (as_tokens s1)" "rt_hash n1 = hashToken dep (is_refreshToken sess)"
    and "rt_family n1 = rt_family r1" "rt_user r1 \<in> u_id ` set (as_users s1)"
proof -
  obtain r where r: "tokenByHash (hashToken dep (rf_token p)) s = Some r"
    using ok by (cases "tokenByHash (hashToken dep (rf_token p)) s") (simp_all add: rotateRefreshToken_def)
  obtain u where u: "userById (rt_user r) s = Some u"
    using ok by (cases "userById (rt_user r) s") (simp_all add: rotateRefreshToken_def r)
  have live: "rt_revokedAt r = None" using ok u r by (simp add: rotateRefreshToken_def split: if_splits)
  have mem: "r \<in> set (as_tokens s)" and hash: "rt_hash r = hashToken dep (rf_token p)"
    using r by (auto simp: tokenByHash_def dest: find_SomeD)
  let ?s0 = "revokeWhere (\<lambda>q. rt_family q = rt_family r) (ad_now dep) s"
  let ?ctx = "\<lparr>sc_userAgent = rf_userAgent p, sc_ipHash = hashIp dep (rf_ip p) (rf_ipSalt p), sc_familyId = Some (rt_family r)\<rparr>"
  have iss: "issueSession dep u ?ctx ?s0 = (Inr sess, s1)"
    using ok serial live
    by (simp add: rotateRefreshToken_def r u serial_def spend_eq [OF inv mem live] Let_def split: if_splits)
  obtain sess' n i f k where eff: "issueSession dep u ?ctx ?s0 =
      (Inr sess', ?s0\<lparr>as_drawn := n, as_tokens := as_tokens ?s0 @
         [\<lparr> rt_id = as_random ?s0 i, rt_user = u_id u,
            rt_family = (case sc_familyId ?ctx of Some g \<Rightarrow> g | None \<Rightarrow> as_random ?s0 f),
            rt_hash = ad_sha256 dep (as_random ?s0 k), rt_userAgent = map_option (take 256) (sc_userAgent ?ctx),
            rt_ipHash = sc_ipHash ?ctx, rt_expiresAt = ad_now dep + REFRESH_TTL_SECONDS * 1000,
            rt_revokedAt = None \<rparr>]\<rparr>)" and tok: "is_refreshToken sess' = as_random ?s0 k"
    by (rule issueSession_effect [OF revokeWhere_inv [OF inv]])
  have s1: "s1 = ?s0\<lparr>as_drawn := n, as_tokens := as_tokens ?s0 @
         [\<lparr> rt_id = as_random ?s0 i, rt_user = u_id u, rt_family = rt_family r,
            rt_hash = ad_sha256 dep (as_random ?s0 k), rt_userAgent = map_option (take 256) (rf_userAgent p),
            rt_ipHash = hashIp dep (rf_ip p) (rf_ipSalt p), rt_expiresAt = ad_now dep + REFRESH_TTL_SECONDS * 1000,
            rt_revokedAt = None \<rparr>]\<rparr>" and sess: "sess = sess'"
    using iss eff by simp_all
  have "r\<lparr>rt_revokedAt := Some (ad_now dep)\<rparr> \<in> set (as_tokens ?s0)"
    using mem live by (force simp: revokeWhere_def set_upd_rows)
  moreover have "rt_user r \<in> u_id ` set (as_users s1)"
    using find_SomeD [OF u [unfolded userById_def]] imageI [of u "set (as_users s)" u_id] by (simp add: s1 revokeWhere_def)
  ultimately show ?thesis
    by (intro that [of r "r\<lparr>rt_revokedAt := Some (ad_now dep)\<rparr>" "last (as_tokens s1)"])
       (use r live hash tok in \<open>auto simp: s1 sess hashToken_def\<close>)
qed

lemma user_follows:
  assumes "grows s s'" and "i \<in> u_id ` set (as_users s)"
  obtains u where "userById i s' = Some u"
proof -
  have "i \<in> u_id ` set (as_users s')" using assms unfolding grows_def by blast
  then have "userById i s' \<noteq> None" unfolding userById_def find_None_iff by blast
  then show ?thesis using that by auto
qed

text \<open>
  C7: where requests on the sessions are served one at a time and neither draws nor digests repeat,
  presenting a spent refresh token burns its session: once a token has been rotated, presenting it again, at
  any later time and whatever other sign-ins, refreshes and sign-outs were served in between, is answered as
  reuse, and afterwards the token that had replaced it is revoked too, like every other token of the family.
  Refreshes that interleave escape this: \<open>concurrent_refresh_forks_session\<close> shows two live
  tokens.
\<close>

theorem reuse_burns_family:
  assumes serial: "serial dep" and rnd: "inj rnd" and sha: "inj (ad_sha256 dep)"
    and s: "s = run_auth dep es (auth_start us ws rnd)"
    and ok: "rotateRefreshToken (dep\<lparr>ad_now := t\<rparr>) p s = (Inr sess, s1)"
    and again: "rf_token q = rf_token p"
  shows "fst (rotateRefreshToken (dep\<lparr>ad_now := t'\<rparr>) q (run_auth dep es' s1)) = Inl TokenReuse \<and>
    (\<exists>n. tokenByHash (hashToken dep (is_refreshToken sess))
            (snd (rotateRefreshToken (dep\<lparr>ad_now := t'\<rparr>) q (run_auth dep es' s1))) = Some n \<and>
         rt_revokedAt n \<noteq> None \<and>
         (\<forall>r \<in> set (as_tokens (snd (rotateRefreshToken (dep\<lparr>ad_now := t'\<rparr>) q (run_auth dep es' s1)))).
            rt_family r = rt_family n \<longrightarrow> rt_revokedAt r \<noteq> None))"
proof -
  let ?D = "dep\<lparr>ad_now := t\<rparr>" and ?s2 = "run_auth dep es' s1"
  have inv: "auth_inv dep s" unfolding s by (rule run_auth_inv [OF serial auth_start_inv [OF rnd sha]])
  have inv1: "auth_inv dep s1" using rotate_inv [of ?D s p] serial inv ok by simp
  have inv2: "auth_inv dep ?s2" by (rule run_auth_inv [OF serial inv1])
  have g: "grows s1 ?s2" by (rule grows_run [OF serial])
  obtain r r1 n1 where r1: "r1 \<in> set (as_tokens s1)" "rt_hash r1 = hashToken ?D (rf_token p)" "rt_revokedAt r1 \<noteq> None"
    and n1: "n1 \<in> set (as_tokens s1)" "rt_hash n1 = hashToken ?D (is_refreshToken sess)"
    and fam: "rt_family n1 = rt_family r1" and usr: "rt_user r1 \<in> u_id ` set (as_users s1)"
    by (rule rotate_success [of ?D s p sess s1]) (use serial inv ok in simp_all)
  obtain r2 where r2: "tokenByHash (rt_hash r1) ?s2 = Some r2" "outlives r1 r2"
    by (rule token_follows [OF g inv2 r1(1)])
  obtain n2 where n2: "tokenByHash (rt_hash n1) ?s2 = Some n2" "outlives n1 n2" "n2 \<in> set (as_tokens ?s2)"
    by (rule token_follows [OF g inv2 n1(1)])
  obtain u where u: "userById (rt_user r2) ?s2 = Some u"
    using user_follows [OF g usr] r2(2) by (auto simp: outlives_def)
  have spent: "rt_revokedAt r2 \<noteq> None" using r2(2) r1(3) by (simp add: outlives_def)
  let ?s3 = "revokeWhere (\<lambda>x. rt_family x = rt_family r2) t' ?s2"
  have res: "rotateRefreshToken (dep\<lparr>ad_now := t'\<rparr>) q ?s2 = (Inl TokenReuse, ?s3)"
    using r2(1) r1(2) u spent serial again
    by (simp add: rotateRefreshToken_def hashToken_def serial_def)
  have inv3: "auth_inv dep ?s3" by (rule revokeWhere_inv [OF inv2])
  obtain n3 where n3: "tokenByHash (rt_hash n2) ?s3 = Some n3" "outlives n2 n3" "n3 \<in> set (as_tokens ?s3)"
    by (rule token_follows [OF grows_revokeWhere inv3 n2(3)])
  have fam3: "rt_family n3 = rt_family r2" using n3(2) n2(2) r2(2) fam by (simp add: outlives_def)
  have dead: "\<forall>r \<in> set (as_tokens ?s3). rt_family r = rt_family n3 \<longrightarrow> rt_revokedAt r \<noteq> None"
    using fam3 by (auto simp: revokeWhere_def set_upd_rows)
  have "rt_hash n2 = hashToken dep (is_refreshToken sess)" using n2(2) n1(2) by (simp add: outlives_def hashToken_def)
  then have found: "tokenByHash (hashToken dep (is_refreshToken sess)) ?s3 = Some n3" using n3(1) by simp
  have "rt_revokedAt n3 \<noteq> None" using dead n3(3) by blast
  with found dead show ?thesis unfolding res fst_conv snd_conv by blast
qed

section \<open>Revocation\<close>

text \<open>The denylist entry of a token lasts until the token has expired, whatever is served later.\<close>

definition denied_until :: "int \<Rightarrow> string \<Rightarrow> auth_state \<Rightarrow> bool" where
  "denied_until e jti s \<longleftrightarrow> (\<exists>x. as_revoked s jti = Some x \<and> e \<le> x)"

lemma revokeAccessToken_denies:
  assumes "ad_now dep < e * 1000"
  shows "denied_until (e * 1000) jti (revokeAccessToken dep jti e s)"
proof -
  have "(ad_now dep - e * 1000) div 1000 < 0" using assms by (simp add: div_neg_pos_less0)
  moreover have "1000 * ((ad_now dep - e * 1000) div 1000) \<le> ad_now dep - e * 1000"
    using mult_div_mod_eq [of 1000 "ad_now dep - e * 1000"] pos_mod_sign [of 1000 "ad_now dep - e * 1000"] by linarith
  ultimately show ?thesis by (auto simp: revokeAccessToken_def denied_until_def Let_def)
qed

lemma revoked_upsert: "serial dep \<Longrightarrow> as_revoked (snd (upsertWalletOwner dep a s)) = as_revoked s"
  "serial dep \<Longrightarrow> as_cutoffs (snd (upsertWalletOwner dep a s)) = as_cutoffs s"
  by (auto simp: upsertWalletOwner_def serial_def Let_def split: option.split)

lemma revoked_issue: "as_revoked (snd (issueSession dep u ctx s)) = as_revoked s"
  "as_cutoffs (snd (issueSession dep u ctx s)) = as_cutoffs s"
  by (auto simp: issueSession_def Let_def split: option.split prod.split)

lemma revoked_consume: "as_revoked (snd (consumeNonce dep w s)) = as_revoked s"
  "as_cutoffs (snd (consumeNonce dep w s)) = as_cutoffs s"
  by (auto simp: consumeNonce_def Let_def split: option.split nonce_value.split)

definition same_denials :: "auth_state \<Rightarrow> auth_state \<Rightarrow> bool" where
  "same_denials s s' \<longleftrightarrow> as_revoked s' = as_revoked s \<and> as_cutoffs s' = as_cutoffs s"

lemma denials_verify: "serial dep \<Longrightarrow> same_denials s (snd (verifyWalletSignature dep p s))"
proof -
  assume serial: "serial dep"
  obtain r s1 where c: "consumeNonce dep (si_wallet p) s = (r, s1)" by (cases "consumeNonce dep (si_wallet p) s")
  obtain v s2 where u: "upsertWalletOwner dep (si_wallet p) s1 = (v, s2)" by (cases "upsertWalletOwner dep (si_wallet p) s1")
  show ?thesis
    using revoked_consume [of dep "si_wallet p" s] revoked_upsert [OF serial, of "si_wallet p" s1] c u
    by (cases r; cases v) (simp_all add: verifyWalletSignature_def same_denials_def revoked_issue)
qed

lemma denials_connect: "serial dep \<Longrightarrow> same_denials s (snd (connectWallet dep p s))"
proof -
  assume serial: "serial dep"
  obtain v s1 where u: "upsertWalletOwner dep (cp_wallet p) s = (v, s1)" by (cases "upsertWalletOwner dep (cp_wallet p) s")
  show ?thesis
    using revoked_upsert [OF serial, of "cp_wallet p" s] u
    by (cases v) (auto simp: connectWallet_def same_denials_def revoked_issue split: option.split)
qed

lemma denials_rotate: "serial dep \<Longrightarrow> same_denials s (snd (rotateRefreshToken dep p s))"
  by (auto simp: rotateRefreshToken_def serial_def Let_def same_denials_def revoked_issue revokeWhere_def
      split: option.split)

lemma revokeWhere_dead:
  assumes "r \<in> set (as_tokens (revokeWhere P t s))" and "P r"
    and P: "\<And>x. P (x\<lparr>rt_revokedAt := Some t\<rparr>) = P x"
  shows "rt_revokedAt r \<noteq> None"
proof -
  obtain x where r: "r = (if P x \<and> rt_revokedAt x = None then x\<lparr>rt_revokedAt := Some t\<rparr> else x)"
    using assms(1) by (auto simp: revokeWhere_def set_upd_rows)
  show ?thesis
  proof (cases "P x \<and> rt_revokedAt x = None")
    case True
    have "r = x\<lparr>rt_revokedAt := Some t\<rparr>" by (rule trans [OF r if_P [OF True]])
    then show ?thesis by simp
  next
    case False
    have "r = x" by (rule trans [OF r if_not_P [OF False]])
    with False assms(2) show ?thesis by simp
  qed
qed

lemma denied_serve:
  assumes "serial dep" and d: "denied_until (e * 1000) jti s" and "\<forall>u e'. q = Logout u jti e' \<longrightarrow> e' = e"
  shows "denied_until (e * 1000) jti (auth_serve dep q s)"
proof (cases q)
  case (Logout u j e')
  show ?thesis
  proof (cases "j = jti \<and> ad_now dep < e * 1000")
    case True
    with assms(3) Logout show ?thesis by (simp add: logout_def revokeAccessToken_denies)
  next
    case False
    then show ?thesis
      using d assms(3) Logout
      by (auto simp: logout_def revokeAccessToken_def revokeWhere_def denied_until_def Let_def
          pos_imp_zdiv_nonneg_iff)
  qed
next
  case (NonceRequest w)
  with d show ?thesis by (simp add: issueNonce_def denied_until_def Let_def)
next
  case (RevokeAll u)
  with d show ?thesis by (simp add: revokeAllSessions_def revokeWhere_def denied_until_def Let_def)
qed (use assms denials_verify denials_connect denials_rotate in \<open>simp_all add: denied_until_def same_denials_def\<close>)

lemma denied_run:
  assumes "serial dep" and "denied_until (e * 1000) jti s"
    and "\<forall>(t, q) \<in> set es. \<forall>u e'. q = Logout u jti e' \<longrightarrow> e' = e"
  shows "denied_until (e * 1000) jti (run_auth dep es s)"
  using assms(2,3)
proof (induction es arbitrary: s)
  case (Cons x es)
  obtain t q where x: "x = (t, q)" by (cases x)
  have "denied_until (e * 1000) jti (auth_serve (dep\<lparr>ad_now := t\<rparr>) q s)"
    by (rule denied_serve) (use Cons.prems assms(1) x in auto)
  then show ?case using Cons x by simp
qed simp

text \<open>
  logging out takes effect at once and for good: an access token that was accepted is refused at every
  later time, whatever is served in between, until it has expired by itself; and every refresh token of
  the player is revoked. The token library is relied on to read the same claims from the same token and
  to refuse it from its expiry on.
\<close>
theorem logout_is_final:
  assumes serial: "serial dep" and ok: "authenticate dep token s = Inr v"
    and library: "\<And>t v'. ad_jwtVerify dep t token = Some v' \<Longrightarrow> v' = v \<and> vt_exp v = Some e \<and> t < e * 1000"
    and es: "\<forall>(t, q) \<in> set es. \<forall>u e'. q = Logout u (ac_jti v) e' \<longrightarrow> e' = e"
  shows "(\<exists>m. authenticate (dep\<lparr>ad_now := t\<rparr>) token (run_auth dep es (logout dep (ac_sub v) (ac_jti v) e s)) = Inl m) \<and>
    (\<forall>r \<in> set (as_tokens (logout dep (ac_sub v) (ac_jti v) e s)). rt_user r = ac_sub v \<longrightarrow> rt_revokedAt r \<noteq> None)"
proof
  have "ad_jwtVerify dep (ad_now dep) token \<noteq> None"
    using ok by (auto simp: authenticate_def split: option.splits)
  then have now: "ad_now dep < e * 1000" using library by auto
  have "denied_until (e * 1000) (ac_jti v) (run_auth dep es (logout dep (ac_sub v) (ac_jti v) e s))"
    by (rule denied_run [OF serial _ es]) (simp add: logout_def revokeAccessToken_denies [OF now])
  then obtain x where x: "as_revoked (run_auth dep es (logout dep (ac_sub v) (ac_jti v) e s)) (ac_jti v) = Some x"
    and le: "e * 1000 \<le> x" by (auto simp: denied_until_def)
  show "\<exists>m. authenticate (dep\<lparr>ad_now := t\<rparr>) token (run_auth dep es (logout dep (ac_sub v) (ac_jti v) e s)) = Inl m"
  proof (cases "ad_jwtVerify dep t token")
    case None
    then show ?thesis by (simp add: authenticate_def)
  next
    case (Some v')
    then have "v' = v" "t < x" using library [OF Some] le by auto
    with Some x show ?thesis by (simp add: authenticate_def isAccessTokenRevoked_def)
  qed
  show "\<forall>r \<in> set (as_tokens (logout dep (ac_sub v) (ac_jti v) e s)). rt_user r = ac_sub v \<longrightarrow> rt_revokedAt r \<noteq> None"
    using revokeWhere_dead [of _ "\<lambda>r. rt_user r = ac_sub v" "ad_now dep" s]
    by (simp add: logout_def revokeAccessToken_def Let_def)
qed

text \<open>The cut-off of a user only moves forward.\<close>

definition cut_from :: "int \<Rightarrow> int \<Rightarrow> string \<Rightarrow> auth_state \<Rightarrow> bool" where
  "cut_from c e u s \<longleftrightarrow> (\<exists>k x. as_cutoffs s u = Some (show_int k, x) \<and> c \<le> k \<and> 0 \<le> k \<and> e \<le> x)"

lemma revokeAll_cuts:
  assumes "0 \<le> T" and "T \<le> ad_now dep"
  shows "cut_from (T div 1000) (T + ad_accessTtlSeconds dep * 2 * 1000) u (revokeAllSessions dep u s)"
proof -
  have "T div 1000 \<le> ad_now dep div 1000" using assms(2) by (rule zdiv_mono1) simp
  with assms show ?thesis by (auto simp: revokeAllSessions_def cut_from_def Let_def pos_imp_zdiv_nonneg_iff)
qed

lemma cut_serve:
  assumes "serial dep" and c: "cut_from (T div 1000) (T + ad_accessTtlSeconds dep * 2 * 1000) u s"
    and "0 \<le> T" and "T \<le> ad_now dep"
  shows "cut_from (T div 1000) (T + ad_accessTtlSeconds dep * 2 * 1000) u (auth_serve dep q s)"
proof (cases q)
  case (RevokeAll w)
  show ?thesis
  proof (cases "w = u")
    case True
    with RevokeAll revokeAll_cuts [OF assms(3,4), of u s] show ?thesis by simp
  next
    case False
    with RevokeAll c show ?thesis by (simp add: revokeAllSessions_def cut_from_def Let_def revokeWhere_def)
  qed
next
  case (Logout w j e')
  with c show ?thesis by (simp add: logout_def revokeAccessToken_def revokeWhere_def cut_from_def Let_def)
next
  case (NonceRequest w)
  with c show ?thesis by (simp add: issueNonce_def cut_from_def Let_def)
qed (use assms denials_verify denials_connect denials_rotate in \<open>simp_all add: cut_from_def same_denials_def\<close>)

lemma cut_run:
  assumes "serial dep" and "cut_from (T div 1000) (T + ad_accessTtlSeconds dep * 2 * 1000) u s"
    and "0 \<le> T" and "\<forall>(t, q) \<in> set es. T \<le> t"
  shows "cut_from (T div 1000) (T + ad_accessTtlSeconds dep * 2 * 1000) u (run_auth dep es s)"
  using assms(2,4)
proof (induction es arbitrary: s)
  case (Cons x es)
  obtain t q where x: "x = (t, q)" by (cases x)
  have "cut_from (T div 1000) (T + ad_accessTtlSeconds (dep\<lparr>ad_now := t\<rparr>) * 2 * 1000) u (auth_serve (dep\<lparr>ad_now := t\<rparr>) q s)"
    by (rule cut_serve) (use Cons.prems assms(1,3) x in auto)
  then show ?case using Cons x by simp
qed simp

text \<open>
  revoking all sessions of a player takes effect at once: from then on, whatever is served in
  between, no access token minted in an earlier second is accepted again, and every refresh token the
  player holds is revoked. Of the token library it relies on the same as logging out, and that a token
  expires at most its lifetime after it was issued.
\<close>
theorem revoke_all_is_immediate:
  assumes serial: "serial dep"
    and library: "\<And>t v'. ad_jwtVerify dep t token = Some v' \<Longrightarrow> v' = v \<and> vt_exp v = Some e \<and> t < e * 1000"
    and claims: "vt_iat v = Some i" "ac_sub v = u" "e \<le> i + ad_accessTtlSeconds dep" "0 \<le> ad_accessTtlSeconds dep"
    and before: "i < ad_now dep div 1000" "0 \<le> ad_now dep"
    and es: "\<forall>(t, q) \<in> set es. ad_now dep \<le> t"
  shows "(\<exists>m. authenticate (dep\<lparr>ad_now := t\<rparr>) token (run_auth dep es (revokeAllSessions dep u s)) = Inl m) \<and>
    (\<forall>r \<in> set (as_tokens (revokeAllSessions dep u s)). rt_user r = u \<longrightarrow> rt_revokedAt r \<noteq> None)"
proof
  let ?T = "ad_now dep"
  have "cut_from (?T div 1000) (?T + ad_accessTtlSeconds dep * 2 * 1000) u (run_auth dep es (revokeAllSessions dep u s))"
    by (rule cut_run [OF serial revokeAll_cuts before(2) es]) (use before in simp_all)
  then obtain k x where k: "as_cutoffs (run_auth dep es (revokeAllSessions dep u s)) u = Some (show_int k, x)"
    and le: "?T div 1000 \<le> k" "0 \<le> k" "?T + ad_accessTtlSeconds dep * 2 * 1000 \<le> x"
    by (auto simp: cut_from_def)
  have parse: "parseInt10 (show_int k) = Some k" using le(2) by (simp add: show_int_def)
  show "\<exists>m. authenticate (dep\<lparr>ad_now := t\<rparr>) token (run_auth dep es (revokeAllSessions dep u s)) = Inl m"
  proof (cases "ad_jwtVerify dep t token")
    case None
    then show ?thesis by (simp add: authenticate_def)
  next
    case (Some v')
    then have v: "v' = v" "t < e * 1000" using library [OF Some] by auto
    have "?T div 1000 * 1000 \<le> ?T" by simp
    then have "t < x" using v(2) claims(3,4) before(1) le(3) by linarith
    then have "isBeforeCutoff (vt_iat v) (unexpired t (as_cutoffs (run_auth dep es (revokeAllSessions dep u s)) (ac_sub v)))"
      using k claims before(1) le(1) parse by (simp add: isBeforeCutoff_def unexpired_def)
    with Some v show ?thesis by (simp add: authenticate_def)
  qed
  show "\<forall>r \<in> set (as_tokens (revokeAllSessions dep u s)). rt_user r = u \<longrightarrow> rt_revokedAt r \<noteq> None"
    using revokeWhere_dead [of _ "\<lambda>r. rt_user r = u" "ad_now dep" s]
    by (simp add: revokeAllSessions_def Let_def)
qed

section \<open>Where the guarantees end\<close>

text \<open>
  connecting a wallet needs no proof of owning it: whoever names the address of an account that is not
  barred is given a session of that account with its role, whatever the signature scheme is and with no
  signature in the request, and the wallet is stamped as verified.
\<close>
theorem connect_needs_no_signature:
  assumes serial: "serial dep" and inv: "auth_inv dep s"
    and wallet: "walletByAddress (cp_wallet p) s = Some w" and user: "userById (w_user w) s = Some u"
    and free: "\<not> barred u" and nick: "cp_nickname p = None"
  shows "\<exists>sess s'. connectWallet dep p s = (Inr sess, s') \<and> is_userId sess = u_id u \<and> is_role sess = u_role u \<and>
    (\<exists>w' \<in> set (as_wallets s'). w_address w' = cp_wallet p \<and> w_user w' = w_user w \<and> w_verifiedAt w' = Some (ad_now dep))"
proof -
  have w: "w \<in> set (as_wallets s)" "w_address w = cp_wallet p"
    using wallet by (auto simp: walletByAddress_def dest: find_SomeD)
  let ?s1 = "s\<lparr>as_wallets := upd_rows (\<lambda>x. w_id x = w_id w) (\<lambda>x. x\<lparr>w_verifiedAt := Some (ad_now dep)\<rparr>) (as_wallets s),
     as_users := upd_rows (\<lambda>x. u_id x = w_user w) (\<lambda>x. x\<lparr>u_lastSeenAt := Some (ad_now dep)\<rparr>) (as_users s)\<rparr>"
  let ?ctx = "\<lparr>sc_userAgent = cp_userAgent p, sc_ipHash = hashIp dep (cp_ip p) (cp_ipSalt p), sc_familyId = None\<rparr>"
  have ex: "list_ex (\<lambda>x. w_id x = w_id w) (as_wallets s)" using w by (auto simp: list_ex_iff)
  have up: "upsertWalletOwner dep (cp_wallet p) s = (Inr u, ?s1)"
    using serial ex by (simp add: upsertWalletOwner_def wallet user serial_def Let_def)
  have inv1: "auth_inv dep ?s1" using upsert_inv [OF serial inv, of "cp_wallet p"] up by simp
  obtain sess n i f k where eff: "issueSession dep u ?ctx ?s1 =
      (Inr sess, ?s1\<lparr>as_drawn := n, as_tokens := as_tokens ?s1 @
         [\<lparr> rt_id = as_random ?s1 i, rt_user = u_id u,
            rt_family = (case sc_familyId ?ctx of Some g \<Rightarrow> g | None \<Rightarrow> as_random ?s1 f),
            rt_hash = ad_sha256 dep (as_random ?s1 k), rt_userAgent = map_option (take 256) (sc_userAgent ?ctx),
            rt_ipHash = sc_ipHash ?ctx, rt_expiresAt = ad_now dep + REFRESH_TTL_SECONDS * 1000,
            rt_revokedAt = None \<rparr>]\<rparr>)" (is "_ = (_, ?s2)")
      and sess: "is_role sess = u_role u" "is_userId sess = u_id u"
    by (rule issueSession_effect [OF inv1])
  have "connectWallet dep p s = (Inr sess, ?s2)"
    unfolding connectWallet_def up using eff free nick by simp
  moreover have "w\<lparr>w_verifiedAt := Some (ad_now dep)\<rparr> \<in> set (as_wallets ?s2)"
    using w(1) by (force simp: set_upd_rows)
  moreover have "w_address (w\<lparr>w_verifiedAt := Some (ad_now dep)\<rparr>) = cp_wallet p"
    "w_user (w\<lparr>w_verifiedAt := Some (ad_now dep)\<rparr>) = w_user w"
    "w_verifiedAt (w\<lparr>w_verifiedAt := Some (ad_now dep)\<rparr>) = Some (ad_now dep)"
    using w(2) by simp_all
  ultimately show ?thesis using sess by blast
qed

section \<open>Examples\<close>

definition sample_sig :: sig_scheme where
  "sample_sig = \<lparr> sg_base58 = (\<lambda>x. Some (replicate (if x = ''sig'' then 64 else 32) 0)),
    sg_ed25519 = (\<lambda>_ _ _. Some True) \<rparr>"

definition player_token :: verified_token where
  "player_token = \<lparr> ac_sub = ''u1'', ac_wallet = ''w1'', ac_role = PLAYER, ac_jti = ''jti'', ac_nickname = None,
    vt_iat = Some 900, vt_exp = Some 1800 \<rparr>"

definition sample_auth :: "(auth_state \<Rightarrow> auth_state) \<Rightarrow> auth_deps" where
  "sample_auth during = \<lparr> ad_now = 1000000, ad_domain = ''arena'', ad_accessTtlSeconds = 900,
    ad_jwtSign = (\<lambda>c ttl. ac_jti c), ad_jwtVerify = (\<lambda>t k. if t < 1800000 then Some player_token else None),
    ad_sig = sample_sig, ad_sha256 = (\<lambda>x. CHR ''#'' # x), ad_during = during \<rparr>"

definition sample_user :: "string \<Rightarrow> user_role \<Rightarrow> user_row" where
  "sample_user i role = \<lparr> u_id = i, u_username = None, u_displayName = None, u_role = role, u_status = ACTIVE,
    u_createdAt = 0, u_lastSeenAt = None \<rparr>"

definition unary :: "nat \<Rightarrow> string" where
  "unary n = replicate n (CHR ''x'')"

definition auth_db :: auth_state where
  "auth_db = auth_start [sample_user ''u1'' ADMIN]
    [\<lparr> w_id = ''i1'', w_user = ''u1'', w_address = ''w1'', w_primary = True, w_verifiedAt = None, w_createdAt = 0 \<rparr>]
    unary"

definition signing :: sign_in where
  "signing = \<lparr> si_wallet = ''w1'', si_signature = ''sig'', si_nonce = [], si_userAgent = None, si_ip = None,
    si_ipSalt = [] \<rparr>"

definition connecting :: connect_params where
  "connecting = \<lparr> cp_wallet = ''w1'', cp_nickname = None, cp_userAgent = None, cp_ip = None, cp_ipSalt = [] \<rparr>"

definition refreshing :: "string \<Rightarrow> refresh_params" where
  "refreshing t = \<lparr> rf_token = t, rf_userAgent = None, rf_ip = None, rf_ipSalt = [] \<rparr>"

lemma inj_unary: "inj unary"
  by (rule injI) (simp add: unary_def)

lemma sample_auth_facts [simp]:
  "serial (sample_auth (\<lambda>s. s))" "inj (ad_sha256 (sample_auth during))"
  by (simp_all add: serial_def sample_auth_def inj_def)

lemma auth_db_inv: "auth_inv (sample_auth (\<lambda>s. s)) auth_db"
  unfolding auth_db_def by (rule auth_start_inv [OF inj_unary]) simp

lemmas auth_samples = unary_def serial_def sample_auth_def auth_db_def auth_start_def sample_user_def sample_sig_def signing_def
  connecting_def refreshing_def player_token_def

lemmas auth_steps = upsertWalletOwner_def walletByAddress_def userById_def tokenByHash_def issueSession_def
  connectWallet_def rotateRefreshToken_def barred_def hashToken_def hashIp_def sessionWallet_def revokeWhere_def Let_def

text \<open>Alone, and with the same refresh served in the middle of another.\<close>

definition alone_auth :: auth_deps where
  "alone_auth = sample_auth (\<lambda>s. s)"

definition racing_auth :: auth_deps where
  "racing_auth = sample_auth (\<lambda>s. snd (rotateRefreshToken alone_auth (refreshing ''x'') s))"

definition connected_db :: auth_state where
  "connected_db = snd (connectWallet alone_auth connecting auth_db)"

lemma alone_auth_facts [simp]: "serial alone_auth" "inj (ad_sha256 alone_auth)"
  by (simp_all add: alone_auth_def)

theorem signin_proves_ownership_witness:
  "\<exists>sess r. fst (verifyWalletSignature alone_auth signing (auth_serve alone_auth (NonceRequest ''w1'') auth_db)) = Inr sess \<and>
     nr_nonce r = si_nonce signing \<and>
     verifySignature (ad_sig alone_auth) (authText alone_auth (si_wallet signing) r) (si_signature signing) (si_wallet signing)"
proof -
  let ?st = "auth_serve alone_auth (NonceRequest ''w1'') auth_db"
  have "\<not> isl (fst (verifyWalletSignature alone_auth signing ?st))"
    by (simp add: verifyWalletSignature_def consumeNonce_def unexpired_def issueNonce_def verifySignature_def
        alone_auth_def auth_samples auth_steps NONCE_TTL_SECONDS_def)
  then obtain sess where "fst (verifyWalletSignature alone_auth signing ?st) = Inr sess"
    by (cases "fst (verifyWalletSignature alone_auth signing ?st)") auto
  then show ?thesis using signin_proves_ownership [OF alone_auth_facts(1), of signing ?st] by blast
qed

theorem one_live_token_per_family_witness:
  "distinct (map rt_family (filter (\<lambda>r. rt_revokedAt r = None)
     (as_tokens (run_auth alone_auth [(0, Connect connecting), (5, Refresh (refreshing ''x''))] (auth_start [] [] unary)))))"
  by (rule one_live_token_per_family [OF alone_auth_facts(1) inj_unary alone_auth_facts(2)])

lemma answered: "\<not> isl (fst m) \<Longrightarrow> m = (Inr (projr (fst m)), snd m)"
  by (cases m; cases "fst m") auto

definition started_auth :: auth_state where
  "started_auth = run_auth alone_auth [(0, Connect connecting)] (auth_start [] [] unary)"

definition rotated :: "issued_session auth_io" where
  "rotated = rotateRefreshToken (alone_auth\<lparr>ad_now := 5\<rparr>) (refreshing ''xxx'') started_auth"

theorem reuse_burns_family_witness:
  "\<not> isl (fst rotated) \<and>
   fst (rotateRefreshToken (alone_auth\<lparr>ad_now := 9\<rparr>) (refreshing ''xxx'') (run_auth alone_auth [] (snd rotated))) =
     Inl TokenReuse"
proof
  show ok: "\<not> isl (fst rotated)"
    by (simp add: rotated_def started_auth_def alone_auth_def auth_samples auth_steps REFRESH_TTL_SECONDS_def)
  show "fst (rotateRefreshToken (alone_auth\<lparr>ad_now := 9\<rparr>) (refreshing ''xxx'') (run_auth alone_auth [] (snd rotated))) =
     Inl TokenReuse"
    by (rule conjunct1 [OF reuse_burns_family [OF alone_auth_facts(1) inj_unary alone_auth_facts(2)
          started_auth_def trans [OF rotated_def [symmetric] answered [OF ok]] refl]])
qed

theorem logout_is_final_witness:
  "\<exists>m. authenticate (alone_auth\<lparr>ad_now := 1700000\<rparr>) ''tok''
     (run_auth alone_auth [(1500000, Connect connecting)] (logout alone_auth ''u1'' ''jti'' 1800 auth_db)) = Inl m"
proof -
  have ok: "authenticate alone_auth ''tok'' auth_db = Inr player_token" by code_simp
  have lib: "\<And>t v'. ad_jwtVerify alone_auth t ''tok'' = Some v' \<Longrightarrow>
      v' = player_token \<and> vt_exp player_token = Some 1800 \<and> t < 1800 * 1000"
    by (auto simp: alone_auth_def sample_auth_def player_token_def split: if_splits)
  have "\<forall>(t, q) \<in> set [(1500000, Connect connecting)]. \<forall>u e'. q = Logout u (ac_jti player_token) e' \<longrightarrow> e' = 1800"
    by simp
  from conjunct1 [OF logout_is_final [OF alone_auth_facts(1) ok lib this]]
  show ?thesis by (simp add: player_token_def)
qed

theorem revoke_all_is_immediate_witness:
  "\<exists>m. authenticate (alone_auth\<lparr>ad_now := 1700000\<rparr>) ''tok''
     (run_auth alone_auth [(1500000, Connect connecting)] (revokeAllSessions alone_auth ''u1'' auth_db)) = Inl m"
proof -
  have lib: "\<And>t v'. ad_jwtVerify alone_auth t ''tok'' = Some v' \<Longrightarrow>
      v' = player_token \<and> vt_exp player_token = Some 1800 \<and> t < 1800 * 1000"
    by (auto simp: alone_auth_def sample_auth_def player_token_def split: if_splits)
  show ?thesis
    by (rule conjunct1 [OF revoke_all_is_immediate [OF alone_auth_facts(1) lib, where i = 900]])
       (auto simp: player_token_def alone_auth_def sample_auth_def)
qed

theorem connect_needs_no_signature_witness:
  "\<exists>sess s'. connectWallet alone_auth connecting auth_db = (Inr sess, s') \<and> is_role sess = ADMIN"
proof -
  have "walletByAddress (cp_wallet connecting) auth_db = Some (hd (as_wallets auth_db))"
    "userById (w_user (hd (as_wallets auth_db))) auth_db = Some (sample_user ''u1'' ADMIN)"
    "\<not> barred (sample_user ''u1'' ADMIN)" "cp_nickname connecting = None"
    by (simp_all add: auth_samples walletByAddress_def userById_def barred_def)
  from connect_needs_no_signature [OF alone_auth_facts(1) auth_db_inv [folded alone_auth_def] this]
  show ?thesis by (auto simp: sample_user_def)
qed

text \<open>
  refresh tokens are single-use only one request at a time: two refreshes of the same token that
  interleave between the read and the write are both answered with a session, and leave the family with
  two live tokens.
\<close>
theorem concurrent_refresh_forks_session:
  "\<exists>sess1 s1 sess2 s2.
     rotateRefreshToken alone_auth (refreshing ''x'') connected_db = (Inr sess1, s1) \<and>
     rotateRefreshToken racing_auth (refreshing ''x'') connected_db = (Inr sess2, s2) \<and>
     is_refreshToken sess1 \<noteq> is_refreshToken sess2 \<and>
     map (\<lambda>r. (rt_family r, rt_hash r)) (filter (\<lambda>r. rt_revokedAt r = None) (as_tokens s2)) =
       [(''xx'', hashToken alone_auth (is_refreshToken sess1)), (''xx'', hashToken alone_auth (is_refreshToken sess2))]"
proof -
  let ?a = "rotateRefreshToken alone_auth (refreshing ''x'') connected_db"
  let ?b = "rotateRefreshToken racing_auth (refreshing ''x'') connected_db"
  have "?a = (Inr (projr (fst ?a)), snd ?a)" by (rule answered) (simp add: connected_db_def alone_auth_def racing_auth_def auth_samples auth_steps REFRESH_TTL_SECONDS_def)
  moreover have "?b = (Inr (projr (fst ?b)), snd ?b)" by (rule answered) (simp add: connected_db_def alone_auth_def racing_auth_def auth_samples auth_steps REFRESH_TTL_SECONDS_def)
  moreover have "is_refreshToken (projr (fst ?a)) \<noteq> is_refreshToken (projr (fst ?b))" 
    by (simp add: connected_db_def alone_auth_def racing_auth_def auth_samples auth_steps REFRESH_TTL_SECONDS_def)
  moreover have "map (\<lambda>r. (rt_family r, rt_hash r)) (filter (\<lambda>r. rt_revokedAt r = None) (as_tokens (snd ?b))) =
       [(''xx'', hashToken alone_auth (is_refreshToken (projr (fst ?a)))),
        (''xx'', hashToken alone_auth (is_refreshToken (projr (fst ?b))))]" 
    by (simp add: connected_db_def alone_auth_def racing_auth_def auth_samples auth_steps REFRESH_TTL_SECONDS_def)
  ultimately show ?thesis
    by (intro exI [of _ "projr (fst ?a)"] exI [of _ "snd ?a"] exI [of _ "projr (fst ?b)"] exI [of _ "snd ?b"] conjI)
qed

end
