(* ===== verification/Auth_Routes.thy ===== *)
theory Auth_Routes
  imports Auth_Properties
begin

text \<open>
  The routes of authentication (\<open>apps/gateway/src/routes/auth.routes.ts\<close>) with the origin check of
  \<open>lib/refresh-cookie.ts\<close>: the lock-out after failed attempts, the order of the checks, and which token a
  refresh spends. The counters of failed attempts are a fourth family of Redis keys: a count and the time
  it expires at, if it has one. Schemas, rate limits and the attributes of the cookie are left out; the
  cookie a reply sets is the session's refresh token.
\<close>

type_synonym failure_counters = "string \<rightharpoonup> nat \<times> int option"

type_synonym 'a route = "(auth_error, 'a, auth_state \<times> failure_counters) io"

definition MAX_FAILURES :: nat where
  "MAX_FAILURES = 10"

definition FAILURE_WINDOW_SECONDS :: int where
  "FAILURE_WINDOW_SECONDS = 900"

section \<open>Counting failures\<close>

definition failureEntry :: "int \<Rightarrow> failure_counters \<Rightarrow> string \<Rightarrow> (nat \<times> int option) option" where
  "failureEntry now f wallet =
    (case f wallet of
       None \<Rightarrow> None
     | Some (n, None) \<Rightarrow> Some (n, None)
     | Some (n, Some e) \<Rightarrow> if now < e then Some (n, Some e) else None)"

definition assertNotLockedOut :: "int \<Rightarrow> failure_counters \<Rightarrow> string \<Rightarrow> (auth_error, unit) res" where
  "assertNotLockedOut now f wallet =
    (case failureEntry now f wallet of
       Some (failures, ttl) \<Rightarrow>
         if MAX_FAILURES \<le> failures
         then Inl (TooManyRequests ''Too many failed attempts for this wallet. Try again later.'') else Inr ()
     | None \<Rightarrow> Inr ())"

text \<open>\<open>incr\<close> keeps the expiry of a key that exists; only the first increment sets one.\<close>

definition recordFailure :: "int \<Rightarrow> string \<Rightarrow> failure_counters \<Rightarrow> failure_counters" where
  "recordFailure now wallet f =
    (let (count, ttl) = (case failureEntry now f wallet of None \<Rightarrow> (1, None) | Some (n, e) \<Rightarrow> (n + 1, e))
     in f(wallet \<mapsto> (count, if count = 1 then Some (now + FAILURE_WINDOW_SECONDS * 1000) else ttl)))"

section \<open>The routes\<close>

definition nonceRoute :: "auth_deps \<Rightarrow> string \<Rightarrow> auth_state \<times> failure_counters \<Rightarrow> (string \<times> string \<times> int) route" where
  "nonceRoute dep wallet st =
    (case assertNotLockedOut (ad_now dep) (snd st) wallet of
       Inl e \<Rightarrow> (Inl e, st)
     | Inr _ \<Rightarrow>
         (case issueNonce dep wallet (fst st) of
            ((record, message), s1) \<Rightarrow> (Inr (nr_nonce record, message, nr_expiresAt record div 1000), (s1, snd st))))"

definition verifyRoute :: "auth_deps \<Rightarrow> sign_in \<Rightarrow> auth_state \<times> failure_counters \<Rightarrow> issued_session route" where
  "verifyRoute dep p st =
    (case assertNotLockedOut (ad_now dep) (snd st) (si_wallet p) of
       Inl e \<Rightarrow> (Inl e, st)
     | Inr _ \<Rightarrow>
         (case verifyWalletSignature dep p (fst st) of
            (Inr session, s1) \<Rightarrow> (Inr session, (s1, (snd st)(si_wallet p := None)))
          | (Inl error, s1) \<Rightarrow> (Inl error, (s1, recordFailure (ad_now dep) (si_wallet p) (snd st)))))"

definition connectRoute :: "auth_deps \<Rightarrow> connect_params \<Rightarrow> auth_state \<times> failure_counters \<Rightarrow> issued_session route" where
  "connectRoute dep p st = (case connectWallet dep p (fst st) of (r, s1) \<Rightarrow> (r, (s1, snd st)))"

definition isAllowedOrigin :: "string list \<Rightarrow> string option \<Rightarrow> bool" where
  "isAllowedOrigin origins origin =
    (case origin of None \<Rightarrow> True | Some x \<Rightarrow> if x = [] then True else x \<in> set origins)"

text \<open>The body wins over the cookie; an empty token counts as none.\<close>

definition refreshRoute :: "auth_deps \<Rightarrow> string list \<Rightarrow> string option \<Rightarrow> string option \<Rightarrow> string option
    \<Rightarrow> (string \<Rightarrow> refresh_params) \<Rightarrow> auth_state \<times> failure_counters \<Rightarrow> issued_session route" where
  "refreshRoute dep origins origin body cookie params st =
    (if \<not> isAllowedOrigin origins origin then (Inl (Unauthorized ''Refresh is not allowed from this origin''), st)
     else
       (case (case body of Some t \<Rightarrow> Some t | None \<Rightarrow> cookie) of
          None \<Rightarrow> (Inl (Unauthorized ''No refresh token supplied''), st)
        | Some token \<Rightarrow>
            if token = [] then (Inl (Unauthorized ''No refresh token supplied''), st)
            else (case rotateRefreshToken dep (params token) (fst st) of (r, s1) \<Rightarrow> (r, (s1, snd st)))))"

definition logoutRoute :: "auth_deps \<Rightarrow> string \<Rightarrow> auth_state \<times> failure_counters \<Rightarrow> unit route" where
  "logoutRoute dep token st =
    (case authenticate dep token (fst st) of
       Inl e \<Rightarrow> (Inl e, st)
     | Inr user \<Rightarrow>
         (Inr (), (logout dep (ac_sub user) (ac_jti user)
                     (case vt_exp user of Some e \<Rightarrow> e | None \<Rightarrow> ad_now dep div 1000) (fst st), snd st)))"

section \<open>The lock-out\<close>

fun attempts_at :: "auth_deps \<Rightarrow> (int \<times> sign_in) list \<Rightarrow> auth_state \<times> failure_counters \<Rightarrow> auth_state \<times> failure_counters" where
  "attempts_at dep [] st = st"
| "attempts_at dep ((t, p) # ps) st = attempts_at dep ps (snd (verifyRoute (dep\<lparr>ad_now := t\<rparr>) p st))"

definition forger :: "auth_deps \<Rightarrow> sign_in \<Rightarrow> bool" where
  "forger dep p \<longleftrightarrow> (\<forall>m. \<not> verifySignature (ad_sig dep) m (si_signature p) (si_wallet p))"

lemma forger_fails: "forger dep p \<Longrightarrow> \<exists>e s1. verifyWalletSignature dep p s = (Inl e, s1)"
  by (cases "consumeNonce dep (si_wallet p) s"; cases "fst (consumeNonce dep (si_wallet p) s)")
     (auto simp: verifyWalletSignature_def forger_def)

text \<open>Within the window one more failure counts, up to the limit, and the window stands.\<close>

lemma forged_attempt:
  assumes "forger dep p" and "si_wallet p = w" and "snd st w = Some (k, Some e)" and "ad_now dep < e" and "0 < k"
  shows "snd (snd (verifyRoute dep p st)) w = Some (if k < MAX_FAILURES then k + 1 else k, Some e)"
  using forger_fails [OF assms(1), of "fst st"] assms(2-)
  by (auto simp: verifyRoute_def assertNotLockedOut_def failureEntry_def recordFailure_def split: sum.split)

lemma first_attempt:
  assumes "forger dep p" and "si_wallet p = w" and "snd st w = None"
  shows "snd (snd (verifyRoute dep p st)) w = Some (1, Some (ad_now dep + FAILURE_WINDOW_SECONDS * 1000))"
  using forger_fails [OF assms(1), of "fst st"] assms(2-)
  by (auto simp: verifyRoute_def assertNotLockedOut_def failureEntry_def recordFailure_def split: sum.split)

lemma forger_now [simp]: "forger (dep\<lparr>ad_now := t\<rparr>) p = forger dep p"
  by (simp add: forger_def)

lemma forged_attempts:
  assumes "snd st w = Some (k, Some e)" and "0 < k" and "k \<le> MAX_FAILURES"
    and "\<forall>(t, p) \<in> set ps. forger dep p \<and> si_wallet p = w \<and> t < e"
  shows "snd (attempts_at dep ps st) w = Some (min MAX_FAILURES (k + length ps), Some e)"
  using assms
proof (induction ps arbitrary: st k)
  case (Cons x ps)
  obtain t p where x: "x = (t, p)" by (cases x)
  have "snd (snd (verifyRoute (dep\<lparr>ad_now := t\<rparr>) p st)) w = Some (if k < MAX_FAILURES then k + 1 else k, Some e)"
    by (rule forged_attempt) (use Cons.prems x in auto)
  from Cons.IH [OF this] show ?case using Cons.prems x by (auto simp: min_def split: if_splits)
qed simp

text \<open>
  forged sign-ins lock a wallet out, and only for a while: when somebody who cannot sign for a wallet
  has made ten attempts or more within fifteen minutes of the first, every sign-in and every request for
  a nonce for that wallet is refused, with nothing consumed or issued, until those fifteen minutes are
  over, and then no longer; the window does not slide.
\<close>
theorem forged_signins_lock_out:
  assumes clean: "snd st w = None" and first: "ps = (t0, p0) # qs" and many: "MAX_FAILURES \<le> length ps"
    and forged: "\<forall>(t, p) \<in> set ps. forger dep p \<and> si_wallet p = w \<and> t < t0 + FAILURE_WINDOW_SECONDS * 1000"
    and q: "si_wallet q = w"
  shows "(t < t0 + FAILURE_WINDOW_SECONDS * 1000 \<longrightarrow>
      (\<exists>m. verifyRoute (dep\<lparr>ad_now := t\<rparr>) q (attempts_at dep ps st) = (Inl (TooManyRequests m), attempts_at dep ps st) \<and>
           nonceRoute (dep\<lparr>ad_now := t\<rparr>) w (attempts_at dep ps st) = (Inl (TooManyRequests m), attempts_at dep ps st))) \<and>
    (t0 + FAILURE_WINDOW_SECONDS * 1000 \<le> t \<longrightarrow>
      assertNotLockedOut t (snd (attempts_at dep ps st)) w = Inr ())"
proof -
  let ?e = "t0 + FAILURE_WINDOW_SECONDS * 1000"
  have f0: "forger (dep\<lparr>ad_now := t0\<rparr>) p0" "si_wallet p0 = w" using forged first by auto
  have "snd (snd (verifyRoute (dep\<lparr>ad_now := t0\<rparr>) p0 st)) w = Some (1, Some ?e)"
    using first_attempt [OF f0 clean] by simp
  then have "snd (attempts_at dep qs (snd (verifyRoute (dep\<lparr>ad_now := t0\<rparr>) p0 st))) w
      = Some (min MAX_FAILURES (1 + length qs), Some ?e)"
    by (rule forged_attempts) (use forged first in \<open>auto simp: MAX_FAILURES_def\<close>)
  then have entry: "snd (attempts_at dep ps st) w = Some (MAX_FAILURES, Some ?e)"
    using many first by (simp add: min_def)
  then show ?thesis
    using q by (simp add: verifyRoute_def nonceRoute_def assertNotLockedOut_def failureEntry_def)
qed

definition forging_auth :: auth_deps where
  "forging_auth = alone_auth\<lparr>ad_sig := \<lparr> sg_base58 = (\<lambda>x. None), sg_ed25519 = (\<lambda>_ _ _. None) \<rparr>\<rparr>"

theorem forged_signins_lock_out_witness:
  "\<exists>m. verifyRoute (forging_auth\<lparr>ad_now := 50\<rparr>) signing
     (attempts_at forging_auth (replicate 10 (0, signing)) (auth_db, Map.empty)) =
     (Inl (TooManyRequests m), attempts_at forging_auth (replicate 10 (0, signing)) (auth_db, Map.empty))"
proof -
  have forged: "\<forall>(t, p) \<in> set (replicate 10 (0, signing)). forger forging_auth p \<and> si_wallet p = ''w1'' \<and>
      t < 0 + FAILURE_WINDOW_SECONDS * 1000"
    by (simp add: forger_def forging_auth_def verifySignature_def signing_def FAILURE_WINDOW_SECONDS_def)
  have "replicate 10 (0, signing) = (0, signing) # replicate 9 (0, signing)" by (simp add: numeral_eq_Suc)
  from forged_signins_lock_out [OF _ this _ forged, where st = "(auth_db, Map.empty)" and q = signing and t = 50]
  show ?thesis by (auto simp: MAX_FAILURES_def FAILURE_WINDOW_SECONDS_def signing_def)
qed

end
