(* ===== verification/Numbers.thy ===== *)
theory Numbers
  imports Complex_Main Text_Format
begin

text \<open>
  Numbers of the program that are not integers, and numerals that are not decimal. A JavaScript number is
  an exact rational here: the rounding of doubles, the infinities and \<open>NaN\<close> are not modelled.
\<close>

section \<open>Rounding and remainders\<close>

text \<open>\<open>Math.round\<close>\<close>

definition js_round :: "rat \<Rightarrow> int" where
  "js_round x = \<lfloor>x + 1 / 2\<rfloor>"

lemma js_round_mono: "x \<le> y \<Longrightarrow> js_round x \<le> js_round y"
  unfolding js_round_def by (intro floor_mono) simp

lemma js_round_int [simp]: "js_round (of_int n) = n"
  unfolding js_round_def by (rule floor_unique) simp_all

lemma js_round_ge: "of_int n \<le> x \<Longrightarrow> n \<le> js_round x"
  using js_round_mono [of "of_int n" x] by simp

lemma js_round_le: "x \<le> of_int n \<Longrightarrow> js_round x \<le> n"
  using js_round_mono [of x "of_int n"] by simp

text \<open>A number rounded moves by a half at most.\<close>

lemma js_round_near: "\<bar>of_int (js_round x) - x\<bar> \<le> 1 / 2"
  unfolding js_round_def by linarith

text \<open>The operator \<open>%\<close> keeps the sign of the dividend.\<close>

definition js_trunc :: "rat \<Rightarrow> int" where
  "js_trunc x = (if x < 0 then \<lceil>x\<rceil> else \<lfloor>x\<rfloor>)"

definition js_rem :: "rat \<Rightarrow> rat \<Rightarrow> rat" where
  "js_rem x y = x - y * of_int (js_trunc (x / y))"

lemma js_trunc_near: "- 1 < x - of_int (js_trunc x)" "x - of_int (js_trunc x) < 1"
proof -
  show "- 1 < x - of_int (js_trunc x)" unfolding js_trunc_def by (split if_split) linarith
  show "x - of_int (js_trunc x) < 1" unfolding js_trunc_def by (split if_split) linarith
qed

lemma js_rem_less:
  assumes "0 < y" shows "- y < js_rem x y" and "js_rem x y < y"
proof -
  have "x = y * (x / y)" using assms by simp
  then have e: "js_rem x y = y * (x / y - of_int (js_trunc (x / y)))"
    unfolding js_rem_def by (simp add: right_diff_distrib)
  from js_trunc_near [of "x / y"] have "y * (- 1) < y * (x / y - of_int (js_trunc (x / y)))" "y * (x / y - of_int (js_trunc (x / y))) < y * 1"
    using assms by (simp_all only: mult_less_cancel_left_pos)
  then show "- y < js_rem x y" "js_rem x y < y" by (simp_all add: e)
qed

text \<open>Taking the remainder, adding the period and taking it again brings a number into one period.\<close>

lemma js_rem_twice:
  assumes "0 < y"
  shows "js_rem (js_rem x y + y) y = x - y * of_int \<lfloor>x / y\<rfloor>"
proof -
  let ?k = "js_trunc (x / y)" and ?z = "js_rem x y + y"
  have z: "0 < ?z" using js_rem_less(1) [OF assms, of x] by linarith
  have t: "js_trunc (?z / y) = \<lfloor>?z / y\<rfloor>"
    using z assms by (simp add: js_trunc_def divide_less_0_iff)
  have d: "?z / y = x / y - of_int ?k + 1"
    using assms by (simp add: js_rem_def add_divide_distrib diff_divide_distrib)
  have f: "\<lfloor>?z / y\<rfloor> = \<lfloor>x / y\<rfloor> - ?k + 1"
    unfolding d by linarith
  have "js_rem ?z y = ?z - y * of_int (\<lfloor>x / y\<rfloor> - ?k + 1)"
    unfolding js_rem_def [of ?z y] t f ..
  also have "\<dots> = x - y * of_int \<lfloor>x / y\<rfloor>"
    by (simp add: js_rem_def algebra_simps)
  finally show ?thesis .
qed

section \<open>Hexadecimal digits\<close>

definition hex_value :: "char \<Rightarrow> nat option" where
  "hex_value c =
    (let n = (of_char c :: nat)
     in if 48 \<le> n \<and> n \<le> 57 then Some (n - 48)
        else if 97 \<le> n \<and> n \<le> 102 then Some (n - 87)
        else if 65 \<le> n \<and> n \<le> 70 then Some (n - 55) else None)"

fun read_hex :: "nat \<Rightarrow> string \<Rightarrow> nat" where
  "read_hex n [] = n"
| "read_hex n (c # cs) = (case hex_value c of None \<Rightarrow> n | Some d \<Rightarrow> read_hex (n * 16 + d) cs)"

end
