(* ===== verification/Rpc_Errors.thy ===== *)
theory Rpc_Errors
  imports Text_Format "HOL-Library.Sublist" Numbers
begin

text \<open>
  What the Solana client throws and how it is classified (\<open>packages/solana/src/errors.ts\<close>, with the
  tables of \<open>constants.ts\<close> and the log readers of \<open>tx/parse.ts\<close>). An error is either one of the SDK's own
  or something a library threw, of which the code reads the message and the custom code of an
  \<open>InstructionError\<close>, at the top or under \<open>err\<close>. Characters are those of Latin-1,
  with the dash of one message at its place in Windows-1252.
\<close>

section \<open>Errors\<close>

datatype service_kind =
  PlainService
| ProgramFailure nat string
| RpcFailure
| ConfirmationTimeout string
| CircuitOpen int
| Aborted

record solana_error =
  se_kind :: service_kind
  se_message :: string
  se_retryable :: bool

text \<open>\<open>ri_code\<close>: the element after the index in \<open>InstructionError\<close>, when it is an object with a number
  under \<open>Custom\<close>; the outer option says whether there is such an array at all.\<close>

record raw_error =
  ri_code :: "nat option option"
  ri_err_code :: "nat option option"
  ri_message :: string

datatype thrown = Service solana_error | Raw raw_error

definition ARENA_ERROR_CODES :: "string list" where
  "ARENA_ERROR_CODES =
    [''ProgramPaused'', ''UnauthorizedAdmin'', ''UnauthorizedSettlement'', ''NoPendingAdmin'', ''NotPendingAdmin'',
     ''FeeTooHigh'', ''TreasuryMismatch'', ''DepositTooSmall'', ''WithdrawalTooSmall'', ''InsufficientBalance'',
     ''InsufficientVaultFunds'', ''WouldBreakRentExemption'', ''PlayerOwnerMismatch'', ''RoomNotOpen'',
     ''RoomNotInProgress'', ''PrizeNotUnlocked'', ''RoomAlreadySettled'', ''RoomCancelled'', ''RoomNotCancelled'',
     ''RoomFull'', ''InvalidRoomCapacity'', ''EntryFeeTooSmall'', ''EntryFeesNotLocked'', ''CancelDelayNotElapsed'',
     ''EntryFeeAlreadyLocked'', ''EntryFeeNotLocked'', ''AlreadyPaid'', ''AlreadyRefunded'', ''RoomPlayerMismatch'',
     ''RoomPlayerOwnerMismatch'', ''NoWinners'', ''TooManyWinners'', ''WinnerAccountMismatch'', ''PayoutMismatch'',
     ''ZeroPayout'', ''DuplicateWinner'', ''Overflow'', ''Underflow'', ''RoomNotFinished'', ''PlayerNotFinished'']"

text \<open>The codes are consecutive from 6000 on.\<close>

definition arenaErrorName :: "nat \<Rightarrow> string option" where
  "arenaErrorName code =
    (if 6000 \<le> code \<and> code - 6000 < length ARENA_ERROR_CODES then Some (ARENA_ERROR_CODES ! (code - 6000)) else None)"

definition RETRYABLE_RPC_ERRORS :: "string list" where
  "RETRYABLE_RPC_ERRORS =
    [''BlockhashNotFound'', ''Blockhash not found'', ''block height exceeded'', ''Node is behind'',
     ''was not confirmed'', ''Transaction simulation failed: Blockhash'', ''failed to get recent blockhash'',
     ''socket hang up'', ''ETIMEDOUT'', ''ECONNRESET'', ''ENOTFOUND'', ''fetch failed'', ''429'',
     ''Too Many Requests'', ''502'', ''503'', ''504'']"

definition ProgramError :: "nat \<Rightarrow> solana_error" where
  "ProgramError code =
    (let name = (case arenaErrorName code of Some n \<Rightarrow> n | None \<Rightarrow> ''Unknown('' @ show_nat code @ '')'')
     in \<lparr> se_kind = ProgramFailure code name,
          se_message = ''Arena program error '' @ show_nat code @ '': '' @ name, se_retryable = False \<rparr>)"

definition RpcError :: "string \<Rightarrow> bool \<Rightarrow> solana_error" where
  "RpcError m r = \<lparr> se_kind = RpcFailure, se_message = m, se_retryable = r \<rparr>"

definition ConfirmationTimeoutError :: "string \<Rightarrow> int \<Rightarrow> solana_error" where
  "ConfirmationTimeoutError signature timeoutMs =
    \<lparr> se_kind = ConfirmationTimeout signature,
      se_message = ''Transaction '' @ signature @ '' was not confirmed within '' @ show_int timeoutMs @
        ''ms. It may still land '' @ [CHR 0x97] @ '' check the signature before resubmitting.'',
      se_retryable = False \<rparr>"

section \<open>Reading codes out of text\<close>

text \<open>An unanchored regular expression: the leftmost place where it matches.\<close>

fun first_match :: "(string \<Rightarrow> 'a option) \<Rightarrow> string \<Rightarrow> 'a option" where
  "first_match f [] = f []"
| "first_match f (c # cs) = (case f (c # cs) of Some r \<Rightarrow> Some r | None \<Rightarrow> first_match f cs)"

text \<open>\<open>([0-9a-fA-F]+)\<close> and \<open>(\d+)\<close> as a number: at least one digit, then as many as there are.\<close>

definition hex_number :: "string \<Rightarrow> nat option" where
  "hex_number s = (case s of [] \<Rightarrow> None | c # _ \<Rightarrow> if hex_value c = None then None else Some (read_hex 0 s))"

definition decimal_number :: "string \<Rightarrow> nat option" where
  "decimal_number s = (case s of [] \<Rightarrow> None | c # _ \<Rightarrow> if digit_value c = None then None else Some (read_digits 0 s))"

definition skip_spaces :: "string \<Rightarrow> string" where
  "skip_spaces s = dropWhile is_space s"

definition hexErrorAt :: "string \<Rightarrow> nat option" where
  "hexErrorAt s = Option.bind (strip_prefix ''custom program error: 0x'' s) hex_number"

text \<open>\<open>Custom(?:\s*[:(]\s*|\s+)(\d+)\<close>\<close>

definition customAt :: "string \<Rightarrow> nat option" where
  "customAt s =
    Option.bind (strip_prefix ''Custom'' s) (\<lambda>r.
      case skip_spaces r of
        [] \<Rightarrow> None
      | c # cs \<Rightarrow>
          if c = CHR '':'' \<or> c = CHR ''('' then decimal_number (skip_spaces cs)
          else if r \<noteq> c # cs then decimal_number (c # cs) else None)"

definition extractProgramErrorCode :: "raw_error \<Rightarrow> nat option" where
  "extractProgramErrorCode e =
    (case (case ri_code e of Some c \<Rightarrow> Some c | None \<Rightarrow> ri_err_code e) of
       Some (Some custom) \<Rightarrow> Some custom
     | _ \<Rightarrow>
         (case first_match hexErrorAt (ri_message e) of
            Some n \<Rightarrow> Some n
          | None \<Rightarrow> first_match customAt (ri_message e)))"

definition isRetryable :: "thrown \<Rightarrow> bool" where
  "isRetryable error =
    (case error of
       Service e \<Rightarrow> se_retryable e
     | Raw e \<Rightarrow> list_ex (\<lambda>needle. sublist needle (ri_message e)) RETRYABLE_RPC_ERRORS)"

definition toServiceError :: "thrown \<Rightarrow> solana_error" where
  "toServiceError error =
    (case error of
       Service e \<Rightarrow> e
     | Raw e \<Rightarrow>
         (case extractProgramErrorCode e of
            Some code \<Rightarrow> ProgramError code
          | None \<Rightarrow> RpcError (ri_message e) (isRetryable error)))"

section \<open>Logs\<close>

definition is_word :: "char \<Rightarrow> bool" where
  "is_word c \<longleftrightarrow>
    (let n = (of_char c :: nat) in (48 \<le> n \<and> n \<le> 57) \<or> (65 \<le> n \<and> n \<le> 90) \<or> (97 \<le> n \<and> n \<le> 122) \<or> n = 95)"

text \<open>\<open>Error Code: (\w+)\. Error Number: (\d+)\<close>\<close>

definition anchorAt :: "string \<Rightarrow> nat option" where
  "anchorAt s =
    Option.bind (strip_prefix ''Error Code: '' s) (\<lambda>r.
      if takeWhile is_word r = [] then None
      else Option.bind (strip_prefix ''. Error Number: '' (dropWhile is_word r)) decimal_number)"

fun parseErrorCodeFromLogs :: "string list \<Rightarrow> nat option" where
  "parseErrorCodeFromLogs [] = None"
| "parseErrorCodeFromLogs (line # logs) =
    (case first_match hexErrorAt line of
       Some n \<Rightarrow> Some n
     | None \<Rightarrow> (case first_match anchorAt line of Some n \<Rightarrow> Some n | None \<Rightarrow> parseErrorCodeFromLogs logs))"

definition PROGRAM_DATA_PREFIX :: string where
  "PROGRAM_DATA_PREFIX = ''Program data: ''"

definition trim :: "string \<Rightarrow> string" where
  "trim s = rev (skip_spaces (rev (skip_spaces s)))"

fun parseAnchorEvents :: "string list \<Rightarrow> string list" where
  "parseAnchorEvents [] = []"
| "parseAnchorEvents (line # logs) =
    (case strip_prefix PROGRAM_DATA_PREFIX line of
       None \<Rightarrow> parseAnchorEvents logs
     | Some r \<Rightarrow> if trim r = [] then parseAnchorEvents logs else trim r # parseAnchorEvents logs)"

section \<open>What the classification guarantees\<close>

text \<open>A program failure, once normalised, is never tried again; normalising twice changes nothing.\<close>

lemma program_error_final: "\<not> isRetryable (Service (ProgramError code))"
  by (simp add: isRetryable_def ProgramError_def Let_def)

lemma toServiceError_idem: "toServiceError (Service (toServiceError e)) = toServiceError e"
  by (cases e) (simp_all add: toServiceError_def)

lemma toServiceError_retryable:
  "se_retryable (toServiceError e) \<Longrightarrow> isRetryable e"
  by (cases e) (auto simp: toServiceError_def isRetryable_def RpcError_def ProgramError_def Let_def split: option.splits)

end
