(* ===== verification/Circuit_Breaker.thy ===== *)
theory Circuit_Breaker
  imports Rpc_Errors
begin

text \<open>
  The circuit breaker of the RPC client (\<open>packages/solana/src/tx/circuit-breaker.ts\<close>). A call is two
  steps, its admission and, once the function has answered, the report of the result; between them other
  calls run. \<open>execute\<close> runs both steps without interruption; \<open>breaker_step\<close> and \<open>run_breaker\<close> let
  the steps of any number of calls interleave, the calls under way being kept with the time and the role
  they were admitted with.
\<close>

section \<open>State\<close>

datatype circuit_state = CClosed | COpen | CHalfOpen

record breaker_options =
  bo_failureThreshold :: nat
  bo_windowMs :: int
  bo_cooldownMs :: int
  bo_successThreshold :: nat

definition DEFAULT_BREAKER :: breaker_options where
  "DEFAULT_BREAKER = \<lparr> bo_failureThreshold = 5, bo_windowMs = 30000, bo_cooldownMs = 10000, bo_successThreshold = 2 \<rparr>"

record breaker =
  br_state :: circuit_state
  br_failures :: "int list"
  br_openedAtMs :: int
  br_probeSuccesses :: nat
  br_probeInFlight :: bool

definition new_breaker :: breaker where
  "new_breaker = \<lparr> br_state = CClosed, br_failures = [], br_openedAtMs = 0, br_probeSuccesses = 0, br_probeInFlight = False \<rparr>"

definition CircuitOpenError :: "int \<Rightarrow> solana_error" where
  "CircuitOpenError retryAfterMs =
    \<lparr> se_kind = CircuitOpen retryAfterMs,
      se_message = ''RPC circuit is open; retry in '' @ show_int (- ((- retryAfterMs) div 1000)) @ ''s'',
      se_retryable = True \<rparr>"

section \<open>Admission and results\<close>

record decision =
  de_allowed :: bool
  de_probe :: bool
  de_retryAfterMs :: int

text \<open>Half-open: one caller gets through at a time.\<close>

definition admitProbe :: "breaker_options \<Rightarrow> breaker \<Rightarrow> decision \<times> breaker" where
  "admitProbe opt b =
    (if br_probeInFlight b
     then (\<lparr> de_allowed = False, de_probe = False, de_retryAfterMs = bo_cooldownMs opt \<rparr>, b)
     else (\<lparr> de_allowed = True, de_probe = True, de_retryAfterMs = 0 \<rparr>, b\<lparr>br_probeInFlight := True\<rparr>))"

definition admit :: "breaker_options \<Rightarrow> int \<Rightarrow> breaker \<Rightarrow> decision \<times> breaker" where
  "admit opt now b =
    (if br_state b = CClosed then (\<lparr> de_allowed = True, de_probe = False, de_retryAfterMs = 0 \<rparr>, b)
     else
       (let elapsed = now - br_openedAtMs b
        in if br_state b = COpen then
             (if elapsed < bo_cooldownMs opt
              then (\<lparr> de_allowed = False, de_probe = False, de_retryAfterMs = bo_cooldownMs opt - elapsed \<rparr>, b)
              else admitProbe opt (b\<lparr>br_state := CHalfOpen, br_probeSuccesses := 0, br_probeInFlight := False\<rparr>))
           else admitProbe opt b))"

definition onSuccess :: "breaker_options \<Rightarrow> bool \<Rightarrow> breaker \<Rightarrow> breaker" where
  "onSuccess opt probe b =
    (if probe then
       (let successes = br_probeSuccesses b + 1;
            b1 = b\<lparr>br_probeInFlight := False, br_probeSuccesses := successes\<rparr>
        in if bo_successThreshold opt \<le> successes
           then b1\<lparr>br_state := CClosed, br_failures := [], br_probeSuccesses := 0\<rparr> else b1)
     else if br_state b = CClosed then b\<lparr>br_failures := []\<rparr> else b)"

definition onFailure :: "breaker_options \<Rightarrow> int \<Rightarrow> bool \<Rightarrow> breaker \<Rightarrow> breaker" where
  "onFailure opt now probe b =
    (if probe then b\<lparr>br_probeInFlight := False, br_state := COpen, br_openedAtMs := now\<rparr>
     else
       (let failures = filter (\<lambda>t. now - t < bo_windowMs opt) (br_failures b @ [now]);
            b1 = b\<lparr>br_failures := failures\<rparr>
        in if bo_failureThreshold opt \<le> length failures then b1\<lparr>br_state := COpen, br_openedAtMs := now\<rparr> else b1))"

definition reset_breaker :: "breaker \<Rightarrow> breaker" where
  "reset_breaker b = b\<lparr>br_state := CClosed, br_failures := [], br_probeSuccesses := 0, br_probeInFlight := False\<rparr>"

text \<open>A call with nothing in between, of a function that answers \<open>r\<close>.\<close>

definition execute :: "breaker_options \<Rightarrow> int \<Rightarrow> (thrown, 'a) res \<Rightarrow> breaker \<Rightarrow> (thrown, 'a) res \<times> breaker" where
  "execute opt now r b =
    (case admit opt now b of (decision, b1) \<Rightarrow>
       if \<not> de_allowed decision then (Inl (Service (CircuitOpenError (de_retryAfterMs decision))), b1)
       else (case r of
               Inr result \<Rightarrow> (Inr result, onSuccess opt (de_probe decision) b1)
             | Inl error \<Rightarrow> (Inl error, onFailure opt now (de_probe decision) b1)))"

section \<open>Interleaved calls\<close>

datatype breaker_event = Begin int | Finish nat bool | Reset_Breaker

type_synonym breaker_run = "breaker \<times> (int \<times> bool) list"

text \<open>\<open>Finish i ok\<close> is the result of the \<open>i\<close>-th call under way.\<close>

fun breaker_step :: "breaker_options \<Rightarrow> breaker_event \<Rightarrow> breaker_run \<Rightarrow> breaker_run" where
  "breaker_step opt (Begin now) (b, flight) =
    (case admit opt now b of (decision, b1) \<Rightarrow>
       if de_allowed decision then (b1, flight @ [(now, de_probe decision)]) else (b1, flight))"
| "breaker_step opt (Finish i ok) (b, flight) =
    (if i < length flight then
       (case flight ! i of (now, probe) \<Rightarrow>
          ((if ok then onSuccess opt probe b else onFailure opt now probe b), take i flight @ drop (Suc i) flight))
     else (b, flight))"
| "breaker_step opt Reset_Breaker (b, flight) = (reset_breaker b, flight)"

fun run_breaker :: "breaker_options \<Rightarrow> breaker_event list \<Rightarrow> breaker_run \<Rightarrow> breaker_run" where
  "run_breaker opt [] s = s"
| "run_breaker opt (e # es) s = run_breaker opt es (breaker_step opt e s)"

section \<open>Calls one after another\<close>

fun calls :: "breaker_options \<Rightarrow> (int \<times> (thrown, unit) res) list \<Rightarrow> breaker \<Rightarrow> breaker" where
  "calls opt [] b = b"
| "calls opt ((now, r) # cs) b = calls opt cs (snd (execute opt now r b))"

lemma calls_append: "calls opt (cs @ ds) b = calls opt ds (calls opt cs b)"
  by (induction cs arbitrary: b) auto

text \<open>A call in the closed state.\<close>

lemma execute_closed:
  assumes "br_state b = CClosed"
  shows "snd (execute opt now r b) = (case r of Inr _ \<Rightarrow> b\<lparr>br_failures := []\<rparr> | Inl _ \<Rightarrow> onFailure opt now False b)"
  using assms by (simp add: execute_def admit_def onSuccess_def split: sum.split)

text \<open>Failures within one window add up.\<close>

lemma failures_add_up:
  assumes "br_state b = CClosed" and "\<forall>t \<in> set (br_failures b). last ts - t < bo_windowMs opt"
    and "sorted ts" and "ts \<noteq> []" and "last ts - hd ts < bo_windowMs opt"
    and "length (br_failures b) + length ts = bo_failureThreshold opt"
  shows "br_state (calls opt (map (\<lambda>t. (t, Inl e)) ts) b) = COpen \<and>
    br_openedAtMs (calls opt (map (\<lambda>t. (t, Inl e)) ts) b) = last ts"
  using assms
proof (induction ts arbitrary: b)
  case Nil
  then show ?case by simp
next
  case (Cons t ts)
  have le: "t \<le> last (t # ts)" using Cons.prems(3) by (auto simp: last_conv_nth)
  have keep: "filter (\<lambda>x. t - x < bo_windowMs opt) (br_failures b @ [t]) = br_failures b @ [t]"
    using Cons.prems(2,5) le by (auto simp: filter_id_conv)
  show ?case
  proof (cases ts)
    case Nil
    with Cons.prems keep show ?thesis by (simp add: execute_closed onFailure_def Let_def)
  next
    case (Cons u us)
    let ?b = "b\<lparr>br_failures := br_failures b @ [t]\<rparr>"
    have step: "snd (execute opt t (Inl e :: (thrown, unit) res) b) = ?b"
      using Cons.prems keep Cons by (simp add: execute_closed onFailure_def Let_def)
    have "br_state (calls opt (map (\<lambda>t. (t, Inl e)) ts) ?b) = COpen \<and>
      br_openedAtMs (calls opt (map (\<lambda>t. (t, Inl e)) ts) ?b) = last ts"
    proof (rule Cons.IH)
      show "last ts - hd ts < bo_windowMs opt"
        using Cons.prems(3,5) Cons by auto
    qed (use Cons.prems Cons in auto)
    with Cons step show ?thesis by simp
  qed
qed

text \<open>While the circuit is open and cooling down, a call fails at once and changes nothing.\<close>

lemma execute_cooling:
  assumes "br_state b = COpen" and "now - br_openedAtMs b < bo_cooldownMs opt"
  shows "execute opt now r b = (Inl (Service (CircuitOpenError (bo_cooldownMs opt - (now - br_openedAtMs b)))), b)"
  using assms by (simp add: execute_def admit_def Let_def)

text \<open>From half-open with no probe under way, successes close the circuit.\<close>

lemma probes_close:
  assumes "br_state b = CHalfOpen" and "\<not> br_probeInFlight b" and "ts \<noteq> []"
    and "br_probeSuccesses b + length ts = bo_successThreshold opt"
  shows "br_state (calls opt (map (\<lambda>t. (t, Inr ())) ts) b) = CClosed \<and>
    br_failures (calls opt (map (\<lambda>t. (t, Inr ())) ts) b) = []"
  using assms
proof (induction ts arbitrary: b)
  case (Cons t ts)
  have step: "snd (execute opt t (Inr ()) b) = onSuccess opt True (b\<lparr>br_probeInFlight := True\<rparr>)"
    using Cons.prems by (simp add: execute_def admit_def admitProbe_def Let_def)
  show ?case
  proof (cases ts)
    case Nil
    with Cons.prems step show ?thesis by (simp add: onSuccess_def Let_def)
  next
    case (Cons u us)
    let ?b = "b\<lparr>br_probeInFlight := False, br_probeSuccesses := br_probeSuccesses b + 1\<rparr>"
    have "snd (execute opt t (Inr ()) b) = ?b"
      using Cons.prems step Cons by (simp add: onSuccess_def Let_def)
    moreover have "br_state (calls opt (map (\<lambda>t. (t, Inr ())) ts) ?b) = CClosed \<and>
      br_failures (calls opt (map (\<lambda>t. (t, Inr ())) ts) ?b) = []"
      by (rule Cons.IH) (use Cons.prems Cons in auto)
    ultimately show ?thesis by simp
  qed
qed simp

lemma open_probe:
  assumes "br_state b = COpen" and "bo_cooldownMs opt \<le> now - br_openedAtMs b"
  shows "execute opt now r b =
    execute opt now r (b\<lparr>br_state := CHalfOpen, br_probeSuccesses := 0, br_probeInFlight := False\<rparr>)"
  using assms by (simp add: execute_def admit_def Let_def)

text \<open>
  the breaker opens, fails fast and recovers: when the threshold of failures is reached within one
  window the circuit opens; every call made during the cooldown is refused at once, without running and
  without a trace; and when the endpoint answers again after the cooldown, the configured number of
  successes closes the circuit with its history cleared.
\<close>
theorem breaker_opens_and_recovers:
  assumes ts: "sorted ts" "ts \<noteq> []" "length ts = bo_failureThreshold opt" "last ts - hd ts < bo_windowMs opt"
    and us: "us \<noteq> []" "length us = bo_successThreshold opt" "last ts + bo_cooldownMs opt \<le> hd us"
  shows "let b = calls opt (map (\<lambda>t. (t, Inl e)) ts) new_breaker in
    br_state b = COpen \<and>
    (\<forall>now (r :: (thrown, 'r) res). now < last ts + bo_cooldownMs opt \<longrightarrow>
       execute opt now r b = (Inl (Service (CircuitOpenError (last ts + bo_cooldownMs opt - now))), b)) \<and>
    br_state (calls opt (map (\<lambda>t. (t, Inr ())) us) b) = CClosed \<and>
    br_failures (calls opt (map (\<lambda>t. (t, Inr ())) us) b) = []"
proof -
  let ?b = "calls opt (map (\<lambda>t. (t, Inl e)) ts) new_breaker"
  have opened: "br_state ?b = COpen \<and> br_openedAtMs ?b = last ts"
    by (rule failures_add_up) (use ts in \<open>simp_all add: new_breaker_def\<close>)
  have cooling: "execute opt now r ?b = (Inl (Service (CircuitOpenError (last ts + bo_cooldownMs opt - now))), ?b)"
    if "now < last ts + bo_cooldownMs opt" for now and r :: "(thrown, 'r) res"
    using execute_cooling [of ?b now opt r] opened that by (simp add: algebra_simps)
  let ?h = "?b\<lparr>br_state := CHalfOpen, br_probeSuccesses := 0, br_probeInFlight := False\<rparr>"
  have "execute opt (hd us) (Inr ()) ?b = execute opt (hd us) (Inr ()) ?h"
    by (rule open_probe) (use opened us(3) in simp_all)
  then have same: "calls opt (map (\<lambda>t. (t, Inr ())) us) ?b = calls opt (map (\<lambda>t. (t, Inr ())) us) ?h"
    using us(1) by (cases us) auto
  have "br_state (calls opt (map (\<lambda>t. (t, Inr ())) us) ?h) = CClosed \<and>
      br_failures (calls opt (map (\<lambda>t. (t, Inr ())) us) ?h) = []"
    by (rule probes_close) (use us in simp_all)
  with opened cooling same show ?thesis by (simp add: Let_def)
qed

theorem breaker_opens_and_recovers_witness:
  "br_state (calls DEFAULT_BREAKER [(15000, Inr ()), (15001, Inr ())]
     (calls DEFAULT_BREAKER (map (\<lambda>t. (t, Inl (Service (RpcError ''503'' True)))) [0, 10, 20, 30, 40]) new_breaker)) = CClosed"
  using breaker_opens_and_recovers [where 'r = unit, of "[0, 10, 20, 30, 40]" DEFAULT_BREAKER "[15000, 15001]"
      "Service (RpcError ''503'' True)"]
  by (simp add: DEFAULT_BREAKER_def Let_def)

section \<open>One probe at a time\<close>

definition probes :: "(int \<times> bool) list \<Rightarrow> nat" where
  "probes flight = length (filter snd flight)"

text \<open>No override, and no call admitted while the circuit was closed fails after it has opened.\<close>

fun calm :: "breaker_options \<Rightarrow> breaker_event list \<Rightarrow> breaker_run \<Rightarrow> bool" where
  "calm opt [] s = True"
| "calm opt (e # es) s =
    ((case e of
        Begin now \<Rightarrow> True
      | Reset_Breaker \<Rightarrow> False
      | Finish i ok \<Rightarrow> ok \<or> length (snd s) \<le> i \<or> snd (snd s ! i) \<or> br_state (fst s) = CClosed) \<and>
     calm opt es (breaker_step opt e s))"

definition probe_inv :: "breaker_run \<Rightarrow> bool" where
  "probe_inv s \<longleftrightarrow>
     probes (snd s) = (if br_state (fst s) = CHalfOpen \<and> br_probeInFlight (fst s) then 1 else 0)"

lemma probes_simps [simp]:
  "probes [] = 0" "probes (flight @ [(t, p)]) = probes flight + (if p then 1 else 0)"
  by (simp_all add: probes_def)

lemma probes_take_drop:
  assumes "i < length flight"
  shows "probes flight = probes (take i flight @ drop (Suc i) flight) + (if snd (flight ! i) then 1 else 0)"
proof -
  have "flight = take i flight @ flight ! i # drop (Suc i) flight" using assms by (rule id_take_nth_drop)
  then have "probes flight = length (filter snd (take i flight @ flight ! i # drop (Suc i) flight))"
    unfolding probes_def by (rule arg_cong)
  then show ?thesis by (simp add: probes_def)
qed

lemma probe_inv_step:
  assumes inv: "probe_inv s" and calm: "calm opt (e # es) s" and t: "0 < bo_failureThreshold opt"
  shows "probe_inv (breaker_step opt e s)"
proof -
  obtain b flight where s: "s = (b, flight)" by (cases s)
  show ?thesis
  proof (cases e)
    case (Begin now)
    with inv s show ?thesis
      by (cases "br_state b") (auto simp: probe_inv_def admit_def admitProbe_def Let_def split: if_splits)
  next
    case (Finish i ok)
    show ?thesis
    proof (cases "i < length flight")
      case True
      obtain now probe where c: "flight ! i = (now, probe)" by (cases "flight ! i")
      have p: "probes flight = probes (take i flight @ drop (Suc i) flight) + (if probe then 1 else 0)"
        using probes_take_drop [OF True] c by simp
      show ?thesis
        using inv calm s Finish True c p
        by (auto simp: probe_inv_def onSuccess_def onFailure_def Let_def split: if_splits)
    next
      case False
      with inv s Finish show ?thesis by simp
    qed
  next
    case Reset_Breaker
    with calm show ?thesis by simp
  qed
qed

text \<open>
  at most one probe is ever under way: however calls interleave, as long as no operator overrides the
  breaker and no call admitted before the circuit opened fails after it, there is at most one probe
  among the calls under way, and none while the circuit is closed or open.
\<close>
theorem one_probe_at_a_time:
  assumes "calm opt es (new_breaker, [])" and "0 < bo_failureThreshold opt"
  shows "probes (snd (run_breaker opt es (new_breaker, []))) \<le> 1 \<and>
    (br_state (fst (run_breaker opt es (new_breaker, []))) \<noteq> CHalfOpen \<longrightarrow>
      probes (snd (run_breaker opt es (new_breaker, []))) = 0)"
proof -
  have "probe_inv (run_breaker opt es s)" if "probe_inv s" "calm opt es s" for s
    using that
  proof (induction es arbitrary: s)
    case (Cons e es)
    then show ?case using probe_inv_step [OF Cons.prems assms(2)] by simp
  qed simp
  then have "probe_inv (run_breaker opt es (new_breaker, []))"
    using assms(1) by (simp add: probe_inv_def new_breaker_def)
  then show ?thesis by (auto simp: probe_inv_def split: if_splits)
qed

theorem one_probe_at_a_time_witness:
  "probes (snd (run_breaker \<lparr> bo_failureThreshold = 1, bo_windowMs = 10, bo_cooldownMs = 10, bo_successThreshold = 1 \<rparr>
     [Begin 0, Finish 0 False, Begin 20, Begin 21] (new_breaker, []))) \<le> 1"
  by (rule conjunct1 [OF one_probe_at_a_time])
     (simp_all add: new_breaker_def admit_def admitProbe_def onFailure_def Let_def)

section \<open>Where it falls short of its comments\<close>

text \<open>
  a late failure lets a second probe loose: six calls are under way when five of them fail and open
  the circuit; after the cooldown a probe is let through; the sixth call then fails with the time it was
  admitted at, which re-opens the circuit as of that time, so the next caller is let through as a second
  probe at once, while the first is still under way.
\<close>
theorem late_failure_doubles_probe:
  "let s = run_breaker DEFAULT_BREAKER
       (replicate 6 (Begin 0) @ replicate 5 (Finish 0 False) @ [Begin 10000, Finish 0 False, Begin 10001])
       (new_breaker, [])
   in br_state (fst s) = CHalfOpen \<and> probes (snd s) = 2"
  by code_simp

lemma half_failing_step:
  assumes "br_state b = CClosed" and "br_failures b = []" and "1 < bo_failureThreshold opt"
  shows "br_state (calls opt [(t, Inl e), (u, Inr ())] b) = CClosed \<and>
    br_failures (calls opt [(t, Inl e), (u, Inr ())] b) = []"
  using assms by (simp add: execute_def admit_def onFailure_def onSuccess_def Let_def)

text \<open>
  a service that fails half its calls never opens the circuit: every success in the closed state
  clears the history, so failures that alternate with successes stay below every threshold above one,
  however many there are and however close together.
\<close>
theorem half_failing_never_opens:
  assumes "1 < bo_failureThreshold opt"
  shows "br_state (calls opt (concat (map (\<lambda>t. [(t, Inl e), (t, Inr ())]) ts)) new_breaker) = CClosed"
proof -
  have "br_state (calls opt (concat (map (\<lambda>t. [(t, Inl e), (t, Inr ())]) ts)) b) = CClosed"
    if "br_state b = CClosed" "br_failures b = []" for b
    using that
  proof (induction ts arbitrary: b)
    case (Cons t ts)
    have "br_state (calls opt [(t, Inl e), (t, Inr ())] b) = CClosed \<and>
        br_failures (calls opt [(t, Inl e), (t, Inr ())] b) = []"
      by (rule half_failing_step [OF Cons.prems assms])
    with Cons.IH [of "calls opt [(t, Inl e), (t, Inr ())] b"] show ?case by simp
  qed simp
  then show ?thesis by (simp add: new_breaker_def)
qed

theorem half_failing_never_opens_witness:
  "br_state (calls DEFAULT_BREAKER (concat (map (\<lambda>t. [(t, Inl e), (t, Inr ())]) (replicate 1000 0))) new_breaker) = CClosed"
  by (rule half_failing_never_opens) (simp add: DEFAULT_BREAKER_def)

end
