(* ===== verification/Rpc_Retry.thy ===== *)
theory Rpc_Retry
  imports Rpc_Errors
begin

text \<open>
  Retrying and confirming (\<open>packages/solana/src/tx/retry.ts\<close>, \<open>tx/confirm.ts\<close>) and the failover between
  RPC endpoints (\<open>connection.ts\<close>). What a call does outside is a function on a state of its own, which
  also carries the clock and the random numbers; \<open>onRetry\<close>, \<open>onStatus\<close> and \<open>onFailover\<close> only report, and
  the abort signal is left out. Numbers are exact rationals: the rounding of doubles is not modelled.
\<close>

section \<open>Backoff\<close>

record retry_options =
  ro_maxAttempts :: nat
  ro_initialDelayMs :: rat
  ro_maxDelayMs :: rat
  ro_factor :: rat
  ro_jitter :: rat

definition DEFAULT_RETRY :: retry_options where
  "DEFAULT_RETRY = \<lparr> ro_maxAttempts = 4, ro_initialDelayMs = 300, ro_maxDelayMs = 8000, ro_factor = 2, ro_jitter = 3 / 10 \<rparr>"

definition computeBackoff :: "nat \<Rightarrow> retry_options \<Rightarrow> rat \<Rightarrow> int" where
  "computeBackoff attempt opt random =
    (let exponential = min (ro_initialDelayMs opt * ro_factor opt ^ (attempt - 1)) (ro_maxDelayMs opt);
         spread = exponential * ro_jitter opt;
         jittered = exponential - spread / 2 + random * spread
     in max 0 (js_round (min jittered (ro_maxDelayMs opt))))"

section \<open>Retrying\<close>

record 's timing =
  ti_random :: "'s \<Rightarrow> rat \<times> 's"
  ti_sleep :: "int \<Rightarrow> 's \<Rightarrow> 's"

text \<open>The loop from attempt \<open>attempt\<close> on, with \<open>left\<close> attempts to go.\<close>

fun retryFrom :: "'s timing \<Rightarrow> retry_options \<Rightarrow> (thrown \<Rightarrow> bool) \<Rightarrow> (nat \<Rightarrow> 's \<Rightarrow> (thrown, 'a, 's) io) \<Rightarrow> nat \<Rightarrow> nat
    \<Rightarrow> thrown \<Rightarrow> 's \<Rightarrow> (thrown, 'a, 's) io" where
  "retryFrom ti opt shouldRetry fn attempt 0 lastError s = (Inl (Service (toServiceError lastError)), s)"
| "retryFrom ti opt shouldRetry fn attempt (Suc left) lastError s =
    (case fn attempt s of
       (Inr r, s1) \<Rightarrow> (Inr r, s1)
     | (Inl error, s1) \<Rightarrow>
         if ro_maxAttempts opt \<le> attempt \<or> \<not> shouldRetry error then (Inl (Service (toServiceError error)), s1)
         else (case ti_random ti s1 of
                 (random, s2) \<Rightarrow>
                   retryFrom ti opt shouldRetry fn (Suc attempt) left error
                     (ti_sleep ti (computeBackoff attempt opt random) s2)))"

text \<open>With no attempt at all, \<open>undefined\<close> is what is thrown.\<close>

definition no_error :: thrown where
  "no_error = Raw \<lparr> ri_code = None, ri_err_code = None, ri_message = [] \<rparr>"

definition withRetry :: "'s timing \<Rightarrow> retry_options \<Rightarrow> (thrown \<Rightarrow> bool) \<Rightarrow> (nat \<Rightarrow> 's \<Rightarrow> (thrown, 'a, 's) io) \<Rightarrow> 's
    \<Rightarrow> (thrown, 'a, 's) io" where
  "withRetry ti opt shouldRetry fn s = retryFrom ti opt shouldRetry fn 1 (ro_maxAttempts opt) no_error s"

section \<open>Failover\<close>

text \<open>The loop with \<open>left\<close> endpoints to try, over \<open>n\<close> endpoints, from endpoint \<open>i\<close>; it answers where the pool points to.\<close>

fun failoverFrom :: "nat \<Rightarrow> (nat \<Rightarrow> 's \<Rightarrow> (thrown, 'a, 's) io) \<Rightarrow> nat \<Rightarrow> nat \<Rightarrow> 's \<Rightarrow> (thrown, 'a, nat \<times> 's) io" where
  "failoverFrom n fn 0 i s =
    (Inl (Service (RpcError (''All '' @ show_nat n @ '' RPC endpoints failed'') True)), (i, s))"
| "failoverFrom n fn (Suc left) i s =
    (case fn i s of
       (Inr r, s1) \<Rightarrow> (Inr r, (i, s1))
     | (Inl error, s1) \<Rightarrow>
         if \<not> isRetryable error then (Inl error, (i, s1))
         else failoverFrom n fn left ((i + 1) mod n) s1)"

definition withFailover :: "nat \<Rightarrow> (nat \<Rightarrow> 's \<Rightarrow> (thrown, 'a, 's) io) \<Rightarrow> nat \<Rightarrow> 's \<Rightarrow> (thrown, 'a, nat \<times> 's) io" where
  "withFailover n fn i s = failoverFrom n fn n i s"

section \<open>Confirmation\<close>

datatype commitment = Processed | Confirmed | Finalized

record sig_status =
  ss_slot :: int
  ss_err :: "raw_error option"
  ss_confirmation :: "commitment option"

record confirm_options =
  co_commitment :: commitment
  co_timeoutMs :: int
  co_pollIntervalMs :: int
  co_rebroadcastIntervalMs :: int

record 's chain_env =
  ce_now :: "'s \<Rightarrow> int \<times> 's"
  ce_sleep :: "int \<Rightarrow> 's \<Rightarrow> 's"
  ce_send :: "bool \<Rightarrow> 's \<Rightarrow> (thrown, string, 's) io"
  ce_status :: "string \<Rightarrow> 's \<Rightarrow> (thrown, sig_status option, 's) io"
  ce_height :: "'s \<Rightarrow> (thrown, int, 's) io"

definition reached :: "commitment \<Rightarrow> sig_status \<Rightarrow> bool" where
  "reached c st \<longleftrightarrow>
    (if c = Finalized then ss_confirmation st = Some Finalized
     else ss_confirmation st = Some Confirmed \<or> ss_confirmation st = Some Finalized)"

text \<open>What one poll decides: to stop, or to go on in a new state.\<close>

datatype ('s, 'a) polled = Stop "(thrown, 'a, 's) io" | Again int 's

definition afterStatus :: "'s chain_env \<Rightarrow> confirm_options \<Rightarrow> string \<Rightarrow> int \<Rightarrow> int \<Rightarrow> int \<Rightarrow> 's
    \<Rightarrow> ('s, string \<times> int) polled" where
  "afterStatus ce opt signature lastValid elapsed lastBroadcast s =
    (case ce_height ce s of
       (h, s1) \<Rightarrow>
         if (case h of Inr blockHeight \<Rightarrow> lastValid < blockHeight | Inl _ \<Rightarrow> False)
         then Stop (Inl (Service (ConfirmationTimeoutError signature elapsed)), s1)
         else (case ce_now ce s1 of (t, s2) \<Rightarrow>
                 if co_rebroadcastIntervalMs opt \<le> t - lastBroadcast then
                   (case ce_now ce s2 of (t', s3) \<Rightarrow>
                      Again t' (ce_sleep ce (co_pollIntervalMs opt) (snd (ce_send ce True s3))))
                 else Again lastBroadcast (ce_sleep ce (co_pollIntervalMs opt) s2)))"

definition poll :: "'s chain_env \<Rightarrow> confirm_options \<Rightarrow> string \<Rightarrow> int \<Rightarrow> int \<Rightarrow> int \<Rightarrow> 's \<Rightarrow> ('s, string \<times> int) polled" where
  "poll ce opt signature lastValid startedAt lastBroadcast s =
    (case ce_now ce s of (t, s1) \<Rightarrow>
      let elapsed = t - startedAt
      in if co_timeoutMs opt \<le> elapsed
         then Stop (Inl (Service (ConfirmationTimeoutError signature (co_timeoutMs opt))), s1)
         else (case ce_status ce signature s1 of (answer, s2) \<Rightarrow>
                 (case (case answer of Inr st \<Rightarrow> st | Inl _ \<Rightarrow> None) of
                    None \<Rightarrow> afterStatus ce opt signature lastValid elapsed lastBroadcast s2
                  | Some st \<Rightarrow>
                      (case ss_err st of
                         Some e \<Rightarrow> Stop (Inl (Service (toServiceError (Raw e))), s2)
                       | None \<Rightarrow>
                           if reached (co_commitment opt) st then Stop (Inr (signature, ss_slot st), s2)
                           else afterStatus ce opt signature lastValid elapsed lastBroadcast s2))))"

text \<open>\<open>for (;;)\<close>: \<open>None\<close> when the fuel runs out before the loop ends.\<close>

fun pollLoop :: "nat \<Rightarrow> 's chain_env \<Rightarrow> confirm_options \<Rightarrow> string \<Rightarrow> int \<Rightarrow> int \<Rightarrow> int \<Rightarrow> 's
    \<Rightarrow> (thrown, string \<times> int, 's) io option" where
  "pollLoop 0 ce opt signature lastValid startedAt lastBroadcast s = None"
| "pollLoop (Suc fuel) ce opt signature lastValid startedAt lastBroadcast s =
    (case poll ce opt signature lastValid startedAt lastBroadcast s of
       Stop r \<Rightarrow> Some r
     | Again lastBroadcast' s' \<Rightarrow> pollLoop fuel ce opt signature lastValid startedAt lastBroadcast' s')"

definition sendAndConfirm :: "nat \<Rightarrow> 's chain_env \<Rightarrow> 's timing \<Rightarrow> retry_options \<Rightarrow> confirm_options \<Rightarrow> int \<Rightarrow> 's
    \<Rightarrow> (thrown, string \<times> int, 's) io option" where
  "sendAndConfirm fuel ce ti ropt opt lastValid s =
    (case withRetry ti ropt isRetryable (\<lambda>_. ce_send ce False) s of
       (Inl e, s1) \<Rightarrow> Some (Inl e, s1)
     | (Inr signature, s1) \<Rightarrow>
         (case ce_now ce s1 of (startedAt, s2) \<Rightarrow>
            pollLoop fuel ce opt signature lastValid startedAt startedAt s2))"

section \<open>The backoff is bounded\<close>

lemma jitter_bounds:
  fixes e k c M :: rat
  assumes "0 \<le> c" and "c \<le> k" and "e \<le> M"
  shows "e - k / 2 \<le> min (e - k / 2 + c) M" and "min (e - k / 2 + c) M \<le> e + k / 2"
  using assms by (auto simp: min_def)

lemma half_off: "0 \<le> a - k / 2" if "k \<le> a" "0 \<le> k" for a k :: rat
  using that by linarith

text \<open>
  the delay before a retry stays in its bounds: it is never negative and never above the maximum, and
  as long as the exponential value has not reached the maximum it is at least that value less half the
  jitter and at most that value plus half the jitter, to the nearest millisecond.
\<close>
theorem backoff_bounds:
  assumes nonneg: "0 \<le> ro_initialDelayMs opt" "0 \<le> ro_factor opt" "0 \<le> ro_jitter opt" "ro_jitter opt \<le> 1"
    and rnd: "0 \<le> r" "r \<le> 1" and top: "ro_maxDelayMs opt = of_int m" "0 \<le> m"
  shows "0 \<le> computeBackoff attempt opt r \<and> computeBackoff attempt opt r \<le> m \<and>
    (ro_initialDelayMs opt * ro_factor opt ^ (attempt - 1) \<le> ro_maxDelayMs opt \<longrightarrow>
      js_round (ro_initialDelayMs opt * ro_factor opt ^ (attempt - 1) * (1 - ro_jitter opt / 2)) \<le> computeBackoff attempt opt r \<and>
      computeBackoff attempt opt r \<le> js_round (ro_initialDelayMs opt * ro_factor opt ^ (attempt - 1) * (1 + ro_jitter opt / 2)))"
proof -
  let ?x = "ro_initialDelayMs opt * ro_factor opt ^ (attempt - 1)" and ?j = "ro_jitter opt"
  let ?e = "min ?x (of_int m)"
  let ?v = "?e - ?e * ?j / 2 + r * (?e * ?j)"
  have x: "0 \<le> ?x" using nonneg by simp
  have b: "computeBackoff attempt opt r = max 0 (js_round (min ?v (of_int m)))"
    by (simp add: computeBackoff_def Let_def top)
  have up: "computeBackoff attempt opt r \<le> m" unfolding b using top(2) by (simp add: js_round_le)
  have "js_round (?x * (1 - ?j / 2)) \<le> computeBackoff attempt opt r \<and>
      computeBackoff attempt opt r \<le> js_round (?x * (1 + ?j / 2))" if "?x \<le> of_int m"
  proof -
    have e: "?e = ?x" using that by simp
    have s: "0 \<le> ?x * ?j" using x nonneg(3) by simp
    have rs: "0 \<le> r * (?x * ?j)" "r * (?x * ?j) \<le> ?x * ?j"
      using mult_nonneg_nonneg [OF rnd(1) s] mult_right_mono [OF rnd(2) s] by simp_all
    have "?x * ?j \<le> ?x * 1" by (rule mult_left_mono [OF nonneg(4) x])
    then have k: "?x * ?j \<le> ?x" by (simp only: mult_1_right)
    have l: "?x * (1 - ?j / 2) = ?x - ?x * ?j / 2" and u: "?x * (1 + ?j / 2) = ?x + ?x * ?j / 2"
      by (simp_all only: right_diff_distrib distrib_left mult_1_right times_divide_eq_right)
    have lo0: "0 \<le> ?x * (1 - ?j / 2)" unfolding l by (rule half_off [OF k s])
    have lo: "?x * (1 - ?j / 2) \<le> min ?v (of_int m)"
      unfolding e l by (rule jitter_bounds(1) [OF rs that])
    have hi: "min ?v (of_int m) \<le> ?x * (1 + ?j / 2)"
      unfolding e u by (rule jitter_bounds(2) [OF rs that])
    have "0 \<le> js_round (min ?v (of_int m))"
      by (rule js_round_ge) (simp only: of_int_0, rule order_trans [OF lo0 lo])
    then have "computeBackoff attempt opt r = js_round (min ?v (of_int m))" unfolding b by (rule max_absorb2)
    then show ?thesis using js_round_mono [OF lo] js_round_mono [OF hi] by (simp only: simp_thms)
  qed
  with up show ?thesis unfolding top(1) by (simp add: b)
qed

theorem backoff_bounds_witness:
  "0 \<le> computeBackoff 5 DEFAULT_RETRY (3 / 4) \<and> computeBackoff 5 DEFAULT_RETRY (3 / 4) \<le> 8000"
  using backoff_bounds [of DEFAULT_RETRY "3 / 4" 8000 5] by (simp add: DEFAULT_RETRY_def)

section \<open>The discipline of retrying\<close>

text \<open>The same function with a trail of its attempts and their answers.\<close>

definition logged :: "(nat \<Rightarrow> 's \<Rightarrow> (thrown, 'a, 's) io) \<Rightarrow> nat \<Rightarrow> (nat \<times> (thrown, 'a) res) list \<times> 's
    \<Rightarrow> (thrown, 'a, (nat \<times> (thrown, 'a) res) list \<times> 's) io" where
  "logged fn attempt st = (case fn attempt (snd st) of (r, s1) \<Rightarrow> (r, (fst st @ [(attempt, r)], s1)))"

lemma logged_apply [simp]:
  "logged fn n (tr, s) = (case fn n s of (r, s1) \<Rightarrow> (r, (tr @ [(n, r)], s1)))"
  by (simp add: logged_def)

definition logged_timing :: "'s timing \<Rightarrow> ('l \<times> 's) timing" where
  "logged_timing ti = \<lparr> ti_random = (\<lambda>st. case ti_random ti (snd st) of (x, s1) \<Rightarrow> (x, (fst st, s1))),
                        ti_sleep = (\<lambda>ms st. (fst st, ti_sleep ti ms (snd st))) \<rparr>"

definition disciplined :: "(thrown \<Rightarrow> bool) \<Rightarrow> nat \<Rightarrow> (nat \<times> (thrown, 'a) res) list \<Rightarrow> (thrown, 'a) res \<Rightarrow> bool" where
  "disciplined shouldRetry most trail r \<longleftrightarrow>
     map fst trail = [1..<Suc (length trail)] \<and> length trail \<le> most \<and>
     (\<forall>x \<in> set (butlast trail). \<exists>e. snd x = Inl e \<and> shouldRetry e) \<and>
     (trail \<noteq> [] \<longrightarrow>
       (case snd (last trail) of
          Inr v \<Rightarrow> r = Inr v
        | Inl e \<Rightarrow> r = Inl (Service (toServiceError e)) \<and> (length trail = most \<or> \<not> shouldRetry e)))"

lemma retryFrom_disciplined:
  assumes "retryFrom (logged_timing ti) opt sr (logged fn) (Suc (length trail)) left err (trail, s) = (r, (trail', s'))"
    and "map fst trail = [1..<Suc (length trail)]" and "length trail + left = ro_maxAttempts opt" and "0 < left"
    and "\<forall>x \<in> set trail. \<exists>e. snd x = Inl e \<and> sr e"
  shows "disciplined sr (ro_maxAttempts opt) trail' r \<and> trail' \<noteq> []"
  using assms
proof (induction left arbitrary: trail err s)
  case 0
  then show ?case by simp
next
  case (Suc left)
  obtain a s1 where fn: "fn (Suc (length trail)) s = (a, s1)" by (cases "fn (Suc (length trail)) s")
  let ?trail = "trail @ [(Suc (length trail), a)]"
  have idx: "map fst ?trail = [1..<Suc (length ?trail)]" using Suc.prems(2) by simp
  show ?case
  proof (cases a)
    case (Inr v)
    with Suc.prems fn idx show ?thesis by (auto simp: disciplined_def)
  next
    case (Inl e)
    show ?thesis
    proof (cases "ro_maxAttempts opt \<le> Suc (length trail) \<or> \<not> sr e")
      case True
      with Suc.prems fn idx Inl show ?thesis by (auto simp: disciplined_def)
    next
      case False
      obtain x s2 where x: "ti_random ti s1 = (x, s2)" by (cases "ti_random ti s1")
      have "retryFrom (logged_timing ti) opt sr (logged fn) (Suc (length ?trail)) left e
          (?trail, ti_sleep ti (computeBackoff (Suc (length trail)) opt x) s2) = (r, (trail', s'))"
        using Suc.prems(1) fn Inl False x by (simp add: logged_timing_def)
      then show ?thesis
        by (rule Suc.IH) (use idx Suc.prems False Inl in auto)
    qed
  qed
qed

text \<open>
  retrying keeps its discipline: the attempts made are the first, the second and so on, never more
  than allowed; every attempt that was followed by another failed with an error worth retrying; and what
  comes out is the last attempt's, its value or its normalised error, which is either not worth retrying
  or that of the last attempt allowed.
\<close>
theorem retry_discipline:
  assumes "0 < ro_maxAttempts opt"
    and "withRetry (logged_timing ti) opt shouldRetry (logged fn) ([], s) = (r, (trail, s'))"
  shows "trail \<noteq> [] \<and> map fst trail = [1..<Suc (length trail)] \<and> length trail \<le> ro_maxAttempts opt \<and>
    (\<forall>x \<in> set (butlast trail). \<exists>e. snd x = Inl e \<and> shouldRetry e) \<and>
    (case snd (last trail) of
       Inr v \<Rightarrow> r = Inr v
     | Inl e \<Rightarrow> r = Inl (Service (toServiceError e)) \<and> (length trail = ro_maxAttempts opt \<or> \<not> shouldRetry e))"
proof -
  have "disciplined shouldRetry (ro_maxAttempts opt) trail r \<and> trail \<noteq> []"
    by (rule retryFrom_disciplined [of ti opt shouldRetry fn "[]" _ no_error s])
       (use assms in \<open>simp_all add: withRetry_def\<close>)
  then show ?thesis by (simp add: disciplined_def)
qed

text \<open>
  a program error can be retried after all: the text of the error is searched for the digits of
  gateway errors before its program error code is looked at, so a deterministic rejection that mentions,
  say, an amount with \<open>504\<close> in it counts as transient, although normalised it is a program error that is not.
\<close>
theorem program_error_retried:
  "\<exists>e. extractProgramErrorCode e = Some 1 \<and> isRetryable (Raw e) \<and> \<not> se_retryable (toServiceError (Raw e))"
proof (intro exI conjI)
  let ?e = "\<lparr> ri_code = None, ri_err_code = Some (Some 1), ri_message = ''insufficient lamports 15042'' \<rparr>"
  show "extractProgramErrorCode ?e = Some 1" by (simp add: extractProgramErrorCode_def)
  then show "\<not> se_retryable (toServiceError (Raw ?e))"
    by (simp add: toServiceError_def ProgramError_def Let_def)
  have "sublist ''504'' ''insufficient lamports 15042''"
    unfolding sublist_def by (intro exI [of _ "''insufficient lamports 1''"] exI [of _ "''2''"]) simp
  then show "isRetryable (Raw ?e)" by (simp add: isRetryable_def RETRYABLE_RPC_ERRORS_def)
qed

section \<open>The confirmation loop ends\<close>

text \<open>Time never runs backwards, the clock tells it, and sleeping takes as long as it says.\<close>

definition clocked :: "'s chain_env \<Rightarrow> ('s \<Rightarrow> int) \<Rightarrow> bool" where
  "clocked ce time \<longleftrightarrow>
     (\<forall>s. fst (ce_now ce s) = time s \<and> time s \<le> time (snd (ce_now ce s))) \<and>
     (\<forall>s b. time s \<le> time (snd (ce_send ce b s))) \<and>
     (\<forall>s x. time s \<le> time (snd (ce_status ce x s))) \<and>
     (\<forall>s. time s \<le> time (snd (ce_height ce s))) \<and>
     (\<forall>s ms. time s + ms \<le> time (ce_sleep ce ms s))"

lemma clockedD:
  assumes "clocked ce time"
  shows "ce_now ce s = (t, s1) \<Longrightarrow> t = time s \<and> time s \<le> time s1"
    and "ce_status ce x s = (a, s1) \<Longrightarrow> time s \<le> time s1"
    and "ce_height ce s = (h, s1) \<Longrightarrow> time s \<le> time s1"
    and "time s \<le> time (snd (ce_send ce b s))" and "time s + ms \<le> time (ce_sleep ce ms s)"
  using assms unfolding clocked_def by (metis fst_conv snd_conv)+

lemma afterStatus_time:
  assumes c: "clocked ce time" and "afterStatus ce opt sig lv el lb s = Again lb' s'"
  shows "time s + co_pollIntervalMs opt \<le> time s'"
proof -
  obtain h s1 where h: "ce_height ce s = (h, s1)" by (cases "ce_height ce s")
  obtain t s2 where t: "ce_now ce s1 = (t, s2)" by (cases "ce_now ce s1")
  obtain t' s3 where t': "ce_now ce s2 = (t', s3)" by (cases "ce_now ce s2")
  have m: "time s \<le> time s1" "time s1 \<le> time s2" "time s2 \<le> time s3"
    using clockedD(3) [OF c h] clockedD(1) [OF c t] clockedD(1) [OF c t'] by auto
  note sl = clockedD(5) [OF c, of _ "co_pollIntervalMs opt"] and sn = clockedD(4) [OF c, of s3 True]
  show ?thesis
    using assms(2) m sl [of s2] sl [of "snd (ce_send ce True s3)"] sn
    by (auto simp: afterStatus_def h t t' split: if_splits sum.splits)
qed

lemma poll_time:
  assumes c: "clocked ce time" and p: "poll ce opt sig lv st lb s = Again lb' s'"
  shows "time s + co_pollIntervalMs opt \<le> time s'" and "time s - st < co_timeoutMs opt"
proof -
  obtain t s1 where t: "ce_now ce s = (t, s1)" by (cases "ce_now ce s")
  obtain a s2 where a: "ce_status ce sig s1 = (a, s2)" by (cases "ce_status ce sig s1")
  have m: "t = time s" "time s \<le> time s1" "time s1 \<le> time s2" using clockedD(1,2) [OF c] t a by auto
  have "afterStatus ce opt sig lv (t - st) lb s2 = Again lb' s'" and lt: "\<not> co_timeoutMs opt \<le> t - st"
    using p by (auto simp: poll_def t a Let_def split: if_splits option.splits sum.splits)
  from afterStatus_time [OF c this(1)] m show "time s + co_pollIntervalMs opt \<le> time s'" by simp
  from lt m show "time s - st < co_timeoutMs opt" by simp
qed

text \<open>What a confirmation that succeeds has seen.\<close>

lemma poll_stop:
  assumes "poll ce opt sig lv st lb s = Stop (Inr (sig', slot), s')"
  shows "sig' = sig \<and> (\<exists>s1 s2 x. ce_status ce sig s1 = (Inr (Some x), s2) \<and> ss_err x = None \<and>
    reached (co_commitment opt) x \<and> slot = ss_slot x)"
proof -
  have no: "afterStatus ce opt sig lv el lb s2 \<noteq> Stop (Inr (sig', slot), s')" for el s2
    by (auto simp: afterStatus_def split: prod.split if_splits)
  obtain t s1 where t: "ce_now ce s = (t, s1)" by (cases "ce_now ce s")
  obtain a s2 where a: "ce_status ce sig s1 = (a, s2)" by (cases "ce_status ce sig s1")
  obtain x where "a = Inr (Some x)" "ss_err x = None" "reached (co_commitment opt) x" "slot = ss_slot x" "sig' = sig"
    using assms no by (auto simp: poll_def t a Let_def split: if_splits option.splits sum.splits)
  with a show ?thesis by blast
qed

text \<open>
  C39: waiting for a confirmation ends: with a clock that runs and a positive poll interval, the loop is over
  after at most one poll per interval of the timeout and one more, whatever the node answers, drops or
  fails to answer; and when it reports success, the node has reported that very signature as executed
  without an error at the commitment asked for, in the slot returned.
\<close>
theorem confirmation_ends:
  assumes c: "clocked ce time" and pos: "0 < co_pollIntervalMs opt"
    and fuel: "co_timeoutMs opt \<le> (int fuel - 1) * co_pollIntervalMs opt" and pos_fuel: "0 < fuel"
    and start: "startedAt \<le> time s"
  shows "\<exists>r s'. pollLoop fuel ce opt signature lastValid startedAt lastBroadcast s = Some (r, s') \<and>
    (\<forall>sig slot. r = Inr (sig, slot) \<longrightarrow> sig = signature \<and>
       (\<exists>s1 s2 x. ce_status ce signature s1 = (Inr (Some x), s2) \<and> ss_err x = None \<and>
          reached (co_commitment opt) x \<and> slot = ss_slot x))"
proof -
  let ?ok = "\<lambda>r. \<forall>sig slot. r = Inr (sig, slot) \<longrightarrow> sig = signature \<and>
       (\<exists>s1 s2 x. ce_status ce signature s1 = (Inr (Some x), s2) \<and> ss_err x = None \<and>
          reached (co_commitment opt) x \<and> slot = ss_slot x)"
  have "\<exists>r s'. pollLoop fuel ce opt signature lastValid startedAt lb s = Some (r, s') \<and> ?ok r"
    if "co_timeoutMs opt - (time s - startedAt) \<le> (int fuel - 1) * co_pollIntervalMs opt" "0 < fuel" for fuel lb s
    using that
  proof (induction fuel arbitrary: lb s)
    case (Suc fuel)
    show ?case
    proof (cases "poll ce opt signature lastValid startedAt lb s")
      case (Stop a)
      obtain r s' where a: "a = (r, s')" by (cases a)
      have "?ok r" using poll_stop [of ce opt signature lastValid startedAt lb s] Stop unfolding a by auto
      moreover have "pollLoop (Suc fuel) ce opt signature lastValid startedAt lb s = Some (r, s')"
        using Stop a by simp
      ultimately show ?thesis by blast
    next
      case (Again lb' s')
      note t = poll_time [OF c Again]
      have "0 < int fuel * co_pollIntervalMs opt" using Suc.prems(1) t(2) by simp
      then have f: "0 < fuel" using pos by (simp add: zero_less_mult_iff)
      have "(int fuel - 1) * co_pollIntervalMs opt = int fuel * co_pollIntervalMs opt - co_pollIntervalMs opt"
        by (simp only: left_diff_distrib mult_1)
      then have "co_timeoutMs opt - (time s' - startedAt) \<le> (int fuel - 1) * co_pollIntervalMs opt"
        using Suc.prems(1) t(1) by simp
      from Suc.IH [OF this f] Again show ?thesis by simp
    qed
  qed simp
  then show ?thesis using fuel pos_fuel start by simp
qed

section \<open>Examples\<close>

text \<open>A node that never reports the transaction, with a clock that only sleeping advances.\<close>

definition silent_node :: "int chain_env" where
  "silent_node = \<lparr> ce_now = (\<lambda>t. (t, t)), ce_sleep = (\<lambda>ms t. t + ms), ce_send = (\<lambda>_ t. (Inr ''sig'', t)),
    ce_status = (\<lambda>_ t. (Inr None, t)), ce_height = (\<lambda>t. (Inr 0, t)) \<rparr>"

definition sample_confirm :: confirm_options where
  "sample_confirm = \<lparr> co_commitment = Confirmed, co_timeoutMs = 3000, co_pollIntervalMs = 1000, co_rebroadcastIntervalMs = 3000 \<rparr>"

theorem confirmation_ends_witness:
  "\<exists>r s'. pollLoop 4 silent_node sample_confirm ''sig'' 10 0 0 0 = Some (r, s')"
proof -
  have "clocked silent_node (\<lambda>t. t)" by (simp add: clocked_def silent_node_def)
  from confirmation_ends [OF this, of sample_confirm 4 0 0 "''sig''" 10 0]
  show ?thesis by (auto simp: sample_confirm_def)
qed

theorem retry_discipline_witness:
  "\<exists>r trail s'. withRetry (logged_timing \<lparr> ti_random = (\<lambda>s. (0, s)), ti_sleep = (\<lambda>ms s. s + ms) \<rparr>) DEFAULT_RETRY
     isRetryable (logged (\<lambda>n s. if n < 3 then (Inl (Service (RpcError ''429'' True)), s) else (Inr n, s))) ([], 0) = (r, (trail, s')) \<and>
   length trail \<le> 4 \<and> map fst trail = [1..<Suc (length trail)]"
proof -
  let ?m = "withRetry (logged_timing \<lparr> ti_random = (\<lambda>s. (0, s)), ti_sleep = (\<lambda>ms s. s + ms) \<rparr>) DEFAULT_RETRY
     isRetryable (logged (\<lambda>n s. if n < 3 then (Inl (Service (RpcError ''429'' True)), s) else (Inr n, s))) ([], 0)"
  obtain r trail s' where m: "?m = (r, (trail, s'))" by (cases ?m) auto
  from retry_discipline [OF _ m] m show ?thesis by (auto simp: DEFAULT_RETRY_def)
qed

end
