(* ===== verification/Cycle_Plan.thy ===== *)
theory Cycle_Plan
  imports Text_Format Tiers
begin

text \<open>
  The schedule of a match cycle (\<open>apps/worker/src/cycle/plan.ts\<close>) and its queue (\<open>queue.ts\<close>). The queue
  itself is the BullMQ package: a record of what the code uses of it, \<open>add\<close> and the jobs it holds. What
  the code relies on, that a job whose id is known is not added again, is the predicate \<open>dedupes\<close>.
\<close>

section \<open>The plan\<close>

definition CYCLE_DURATION_MS :: int where
  "CYCLE_DURATION_MS = 10 * 60 * 1000"

datatype cycle_stage =
  CreateGame | CreatePool | OpenLobby | CloseLobby | StartMatch | EndMatch | ArchiveGame

fun stage_name :: "cycle_stage \<Rightarrow> string" where
  "stage_name CreateGame = ''create-game''"
| "stage_name CreatePool = ''create-pool''"
| "stage_name OpenLobby = ''open-lobby''"
| "stage_name CloseLobby = ''close-lobby''"
| "stage_name StartMatch = ''start-match''"
| "stage_name EndMatch = ''end-match''"
| "stage_name ArchiveGame = ''archive-game''"

definition CYCLE_STAGES :: "cycle_stage list" where
  "CYCLE_STAGES = [CreateGame, CreatePool, OpenLobby, CloseLobby, StartMatch, EndMatch, ArchiveGame]"

record stage_plan =
  sp_stage :: cycle_stage
  sp_offsetMs :: int
  sp_attempts :: nat
  sp_description :: string

definition CYCLE_PLAN :: "stage_plan list" where
  "CYCLE_PLAN =
    [\<lparr> sp_stage = CreateGame, sp_offsetMs = 0, sp_attempts = 5,
       sp_description = ''Persist the Game row and allocate its identifiers.'' \<rparr>,
     \<lparr> sp_stage = CreatePool, sp_offsetMs = 5000, sp_attempts = 8,
       sp_description = ''Create the on-chain room account and its escrow vault PDA.'' \<rparr>,
     \<lparr> sp_stage = OpenLobby, sp_offsetMs = 15000, sp_attempts = 5,
       sp_description = ''Open the lobby for joins.'' \<rparr>,
     \<lparr> sp_stage = CloseLobby, sp_offsetMs = 5 * 60000, sp_attempts = 5,
       sp_description = ''Stop accepting players and lock escrowed entry fees.'' \<rparr>,
     \<lparr> sp_stage = StartMatch, sp_offsetMs = 5 * 60000 + 20000, sp_attempts = 5,
       sp_description = ''Place the room on a realtime node and issue join tickets.'' \<rparr>,
     \<lparr> sp_stage = EndMatch, sp_offsetMs = 9 * 60000, sp_attempts = 10,
       sp_description = ''Collect results, unlock the prize and pay the winners.'' \<rparr>,
     \<lparr> sp_stage = ArchiveGame, sp_offsetMs = 9 * 60000 + 45000, sp_attempts = 5,
       sp_description = ''Write match history, update aggregates and clear the lobby.'' \<rparr>]"

text \<open>The lookups throw on a stage the tables do not have.\<close>

definition getStagePlan :: "cycle_stage \<Rightarrow> (string, stage_plan) res" where
  "getStagePlan stage =
    (case map_of (rev (map (\<lambda>e. (sp_stage e, e)) CYCLE_PLAN)) stage of
       None \<Rightarrow> Inl (''Unknown cycle stage: '' @ stage_name stage)
     | Some plan \<Rightarrow> Inr plan)"

fun indexOf :: "'a \<Rightarrow> 'a list \<Rightarrow> nat option" where
  "indexOf x [] = None"
| "indexOf x (y # ys) = (if x = y then Some 0 else map_option Suc (indexOf x ys))"

definition nextStage :: "cycle_stage \<Rightarrow> (string, cycle_stage option) res" where
  "nextStage stage =
    (case indexOf stage CYCLE_STAGES of
       None \<Rightarrow> Inl (''Unknown cycle stage: '' @ stage_name stage)
     | Some i \<Rightarrow> Inr (if Suc i < length CYCLE_STAGES then Some (CYCLE_STAGES ! Suc i) else None))"

definition delayUntilStage :: "cycle_stage \<Rightarrow> int \<Rightarrow> int \<Rightarrow> (string, int) res" where
  "delayUntilStage stage cycleStartedAt now =
    rbind (getStagePlan stage) (\<lambda>plan. Inr (max 0 (cycleStartedAt + sp_offsetMs plan - now)))"

definition acceptWindowMs :: "(string, int) res" where
  "acceptWindowMs = rbind (getStagePlan CloseLobby) (\<lambda>c. rbind (getStagePlan OpenLobby) (\<lambda>opened.
     Inr (sp_offsetMs c - sp_offsetMs opened)))"

definition matchDurationMs :: "(string, int) res" where
  "matchDurationMs = rbind (getStagePlan EndMatch) (\<lambda>e. rbind (getStagePlan StartMatch) (\<lambda>s.
     Inr (sp_offsetMs e - sp_offsetMs s)))"

definition cycleId :: "string \<Rightarrow> int \<Rightarrow> string" where
  "cycleId tid windowStart = tid @ '':'' @ show_int windowStart"

definition currentWindowStart :: "int \<Rightarrow> int" where
  "currentWindowStart now = (now div CYCLE_DURATION_MS) * CYCLE_DURATION_MS"

definition stageJobId :: "string \<Rightarrow> cycle_stage \<Rightarrow> string" where
  "stageJobId cycle stage = cycle @ '':'' @ stage_name stage"

section \<open>The queue\<close>

record job_data =
  jd_cycleId :: string
  jd_tierId :: string
  jd_stage :: cycle_stage
  jd_startedAt :: int
  jd_gameId :: "string option"
  jd_roomId :: "string option"
  jd_nodeId :: "string option"
  jd_realtimeUrl :: "string option"

record job =
  jb_id :: string
  jb_data :: job_data
  jb_delay :: int
  jb_attempts :: nat

record 'q queue_api =
  q_add :: "job \<Rightarrow> 'q \<Rightarrow> 'q"
  q_jobs :: "'q \<Rightarrow> job list"

definition dedupes :: "'q queue_api \<Rightarrow> bool" where
  "dedupes api \<longleftrightarrow> (\<forall>j q. q_jobs api (q_add api j q) =
     (if jb_id j \<in> jb_id ` set (q_jobs api q) then q_jobs api q else q_jobs api q @ [j]))"

definition enqueueStage :: "'q queue_api \<Rightarrow> job_data \<Rightarrow> int \<Rightarrow> 'q \<Rightarrow> (string, 'q) res" where
  "enqueueStage api data now q =
    rbind (getStagePlan (jd_stage data)) (\<lambda>plan.
      rbind (delayUntilStage (jd_stage data) (jd_startedAt data) now) (\<lambda>delay.
        Inr (q_add api \<lparr> jb_id = stageJobId (jd_cycleId data) (jd_stage data), jb_data = data,
                         jb_delay = delay, jb_attempts = sp_attempts plan \<rparr> q)))"

definition startCycle :: "'q queue_api \<Rightarrow> string \<Rightarrow> int \<Rightarrow> 'q \<Rightarrow> (string, string \<times> 'q) res" where
  "startCycle api tid now q =
    (let windowStart = currentWindowStart now;
         i = cycleId tid windowStart
     in rbind (enqueueStage api \<lparr> jd_cycleId = i, jd_tierId = tid, jd_stage = CreateGame,
                jd_startedAt = windowStart, jd_gameId = None, jd_roomId = None, jd_nodeId = None,
                jd_realtimeUrl = None \<rparr> now q) (\<lambda>q1. Inr (i, q1)))"

text \<open>One cycle per tier; a tier that cannot start is noted and the others go on.\<close>

fun tickCycles :: "'q queue_api \<Rightarrow> string list \<Rightarrow> int \<Rightarrow> 'q \<Rightarrow> (string list \<times> string list) \<times> 'q" where
  "tickCycles api [] now q = (([], []), q)"
| "tickCycles api (tid # tids) now q =
    (case startCycle api tid now q of
       Inl _ \<Rightarrow> (case tickCycles api tids now q of ((started, failed), q2) \<Rightarrow> ((started, tid # failed), q2))
     | Inr (i, q1) \<Rightarrow>
         (case tickCycles api tids now q1 of ((started, failed), q2) \<Rightarrow> ((i # started, failed), q2)))"

definition handleSchedulerTick :: "'q queue_api \<Rightarrow> int \<Rightarrow> 'q \<Rightarrow> (string list \<times> string list) \<times> 'q" where
  "handleSchedulerTick api now q = tickCycles api TIER_IDS now q"

section \<open>The tables are complete\<close>

definition plan_of :: "cycle_stage \<Rightarrow> stage_plan" where
  "plan_of stage = projr (getStagePlan stage)"

lemma plan_table:
  "\<not> isl (getStagePlan s) \<and> sp_stage (plan_of s) = s \<and>
   (sp_offsetMs (plan_of s), sp_attempts (plan_of s)) =
     (case s of CreateGame \<Rightarrow> (0, 5) | CreatePool \<Rightarrow> (5000, 8) | OpenLobby \<Rightarrow> (15000, 5)
      | CloseLobby \<Rightarrow> (300000, 5) | StartMatch \<Rightarrow> (320000, 5) | EndMatch \<Rightarrow> (540000, 10)
      | ArchiveGame \<Rightarrow> (585000, 5))"
  by (cases s; hypsubst; code_simp)

lemma getStagePlan_total [simp]: "getStagePlan s = Inr (plan_of s)"
  using plan_table [of s] by (cases "getStagePlan s") (simp_all add: plan_of_def)

lemma plan_of_stage [simp]: "sp_stage (plan_of s) = s"
  using plan_table [of s] by simp

lemma plan_of_attempts: "0 < sp_attempts (plan_of s)"
  using plan_table [of s] by (cases s) simp_all

lemma delayUntilStage_eq [simp]:
  "delayUntilStage stage start now = Inr (max 0 (start + sp_offsetMs (plan_of stage) - now))"
  by (simp add: delayUntilStage_def)

fun successor :: "cycle_stage \<Rightarrow> cycle_stage option" where
  "successor CreateGame = Some CreatePool"
| "successor CreatePool = Some OpenLobby"
| "successor OpenLobby = Some CloseLobby"
| "successor CloseLobby = Some StartMatch"
| "successor StartMatch = Some EndMatch"
| "successor EndMatch = Some ArchiveGame"
| "successor ArchiveGame = None"

lemma nextStage_eq [simp]: "nextStage stage = Inr (successor stage)"
  by (cases stage) (simp_all add: nextStage_def CYCLE_STAGES_def)

lemma windows: "acceptWindowMs = Inr 285000" "matchDurationMs = Inr 220000"
  using plan_table [of OpenLobby] plan_table [of CloseLobby] plan_table [of StartMatch] plan_table [of EndMatch]
  by (simp_all add: acceptWindowMs_def matchDurationMs_def)

definition stage_job :: "job_data \<Rightarrow> int \<Rightarrow> job" where
  "stage_job data now = \<lparr> jb_id = stageJobId (jd_cycleId data) (jd_stage data), jb_data = data,
     jb_delay = max 0 (jd_startedAt data + sp_offsetMs (plan_of (jd_stage data)) - now),
     jb_attempts = sp_attempts (plan_of (jd_stage data)) \<rparr>"

lemma enqueueStage_eq [simp]: "enqueueStage api data now q = Inr (q_add api (stage_job data now) q)"
  by (simp add: enqueueStage_def stage_job_def)

definition first_data :: "string \<Rightarrow> int \<Rightarrow> job_data" where
  "first_data tid now = \<lparr> jd_cycleId = cycleId tid (currentWindowStart now), jd_tierId = tid,
     jd_stage = CreateGame, jd_startedAt = currentWindowStart now, jd_gameId = None, jd_roomId = None,
     jd_nodeId = None, jd_realtimeUrl = None \<rparr>"

lemma startCycle_eq [simp]:
  "startCycle api tid now q =
     Inr (cycleId tid (currentWindowStart now), q_add api (stage_job (first_data tid now) now) q)"
  by (simp add: startCycle_def first_data_def Let_def)

lemma tickCycles_eq:
  "tickCycles api tids now q = ((map (\<lambda>tid. cycleId tid (currentWindowStart now)) tids, []),
     fold (\<lambda>tid. q_add api (stage_job (first_data tid now) now)) tids q)"
  by (induction tids arbitrary: q) simp_all

section \<open>Job ids\<close>

lemma show_int_digits: "CHR '':'' \<notin> set (show_int n)"
proof -
  have "CHR '':'' \<notin> set (show_nat m)" for m
    using show_nat_digits [of m] by (auto simp: digit_value_def)
  then show ?thesis by (simp add: show_int_def)
qed

lemma show_int_inj: "show_int m = show_int n \<longleftrightarrow> m = n"
proof
  have minus: "CHR ''-'' \<notin> set (show_nat k)" for k
    using show_nat_digits [of k] by (auto simp: digit_value_def)
  assume eq: "show_int m = show_int n"
  show "m = n"
  proof (cases "m < 0"; cases "n < 0")
    assume "m < 0" "n < 0"
    with eq show ?thesis by (auto simp: show_int_def dest: show_nat_inj)
  next
    assume a: "m < 0" "\<not> n < 0"
    then have "CHR ''-'' # show_nat (nat (- m)) = show_nat (nat n)" using eq by (simp add: show_int_def)
    then have "CHR ''-'' \<in> set (show_nat (nat n))" by (metis list.set_intros(1))
    with minus show ?thesis by blast
  next
    assume a: "\<not> m < 0" "n < 0"
    then have "show_nat (nat m) = CHR ''-'' # show_nat (nat (- n))" using eq by (simp add: show_int_def)
    then have "CHR ''-'' \<in> set (show_nat (nat m))" by (metis list.set_intros(1))
    with minus show ?thesis by blast
  next
    assume "\<not> m < 0" "\<not> n < 0"
    with eq show ?thesis by (auto simp: show_int_def dest: show_nat_inj)
  qed
qed simp

lemma append_colon_eq:
  "c \<notin> set a \<Longrightarrow> c \<notin> set b \<Longrightarrow> a @ c # x = b @ c # y \<longleftrightarrow> a = b \<and> x = y"
proof (induction a arbitrary: b)
  case Nil
  then show ?case by (cases b) auto
next
  case (Cons d a)
  then show ?case by (cases b) auto
qed

lemma stage_name_plain: "CHR '':'' \<notin> set (stage_name s)"
  by (cases s) simp_all

lemma stage_name_inj: "stage_name s = stage_name t \<longleftrightarrow> s = t"
  by (cases s; cases t) simp_all

lemma tier_id_plain: "tid \<in> set TIER_IDS \<Longrightarrow> CHR '':'' \<notin> set tid"
  by (auto simp: TIER_IDS_eq)

lemma stageJobId_inj: "stageJobId c s = stageJobId d t \<longleftrightarrow> c = d \<and> s = t"
proof
  assume "stageJobId c s = stageJobId d t"
  then have "rev (stage_name s) @ CHR '':'' # rev c = rev (stage_name t) @ CHR '':'' # rev d"
    by (simp add: stageJobId_def) (metis append.assoc append_Cons append_Nil rev.simps(2) rev_append rev_rev_ident)
  then show "c = d \<and> s = t"
    by (subst (asm) append_colon_eq) (simp_all add: stage_name_plain stage_name_inj)
qed simp

lemma cycleId_inj:
  assumes "tid \<in> set TIER_IDS" and "tid' \<in> set TIER_IDS"
  shows "cycleId tid a = cycleId tid' b \<longleftrightarrow> tid = tid' \<and> a = b"
  using assms by (simp add: cycleId_def append_colon_eq tier_id_plain show_int_inj)

end
