(* ===== verification/Cycle_Stages.thy ===== *)
theory Cycle_Stages
  imports Cycle_Plan Lobby_Service Settle
begin

text \<open>
  The stage handlers of a match cycle (\<open>apps/worker/src/cycle/stages.ts\<close>) over the money tables, the lobby
  service and settlement, with the tables they add: rooms, the other columns of a game, match history.
  Chain calls are fields of \<open>stage_ctx\<close>, by the game's id; logging is left out. A handler is not one
  transaction: it returns what it throws or returns together with the state it leaves.
\<close>

section \<open>State\<close>

record room_row =
  rm_id :: string
  rm_code :: string
  rm_name :: string
  rm_mode :: string
  rm_maxPlayers :: "nat option"
  rm_entryFee :: int
  rm_rakeBps :: nat

record game_info =
  gi_game :: string
  gi_room :: string
  gi_seed :: int
  gi_startedAt :: int
  gi_playerCount :: nat
  gi_matchPda :: "string option"

record history_row =
  mh_user :: string
  mh_game :: string
  mh_room :: string
  mh_mode :: string
  mh_placement :: "int option"
  mh_score :: int
  mh_kills :: int
  mh_survivedMs :: int
  mh_entry :: int
  mh_payout :: int
  mh_net :: int
  mh_playedAt :: int

record match_started =
  ms_tierId :: string
  ms_gameId :: string
  ms_startedAt :: int
  ms_durationMs :: int

text \<open>The transactions the stages send themselves; what settlement sends is in its own model.\<close>

datatype chain_call =
  CreateRoomCall string int nat
| StartRoomCall string
| CloseRoomCall string

text \<open>\<open>wd_paid\<close> is what a participant's row says was paid in and paid out.\<close>

record 'st world =
  wd_db :: db
  wd_rooms :: "room_row list"
  wd_info :: "game_info list"
  wd_paid :: "string \<Rightarrow> string \<Rightarrow> int \<times> int"
  wd_history :: "history_row list"
  wd_lobbies :: 'st
  wd_published :: "match_started list"
  wd_notified :: "notification list"
  wd_calls :: "chain_call list"

record 'st stage_ctx =
  sx_lobby :: "'st service_deps"
  sx_settle :: settle_deps
  sx_vaultAddress :: "string \<Rightarrow> string"
  sx_getBalance :: "string \<Rightarrow> (string, int) res"
  sx_createRoom :: "string \<Rightarrow> int \<Rightarrow> nat \<Rightarrow> (string, unit) res"
  sx_publish :: "match_started \<Rightarrow> (string, unit) res"
  sx_random :: rat

datatype cycle_error =
  NoTier string
| NoGameId string
| DbFailed money_error
| LobbyFailed service_error
| BadUuid string
| RedisFailed string
| Unsettled string

record job_patch =
  pt_gameId :: "string option"
  pt_roomId :: "string option"

datatype stage_result = Patch job_patch | Abort string | CancelMatch string

type_synonym ('st, 'a) staged = "(cycle_error, 'a, 'st world) io"

definition no_patch :: job_patch where
  "no_patch = \<lparr> pt_gameId = None, pt_roomId = None \<rparr>"

text \<open>A step on the money tables alone.\<close>

definition on_db :: "(db \<Rightarrow> (money_error, 'a) res \<times> db) \<Rightarrow> 'st world \<Rightarrow> ('st, 'a) staged" where
  "on_db act w =
    (case act (wd_db w) of
       (Inl e, d) \<Rightarrow> (Inl (DbFailed e), w\<lparr>wd_db := d\<rparr>)
     | (Inr v, d) \<Rightarrow> (Inr v, w\<lparr>wd_db := d\<rparr>))"

text \<open>An optional id that JavaScript takes for absent when it is empty.\<close>

definition given :: "string option \<Rightarrow> string option" where
  "given x = (if x = Some [] then None else x)"

section \<open>Room ids\<close>

text \<open>\<open>roomIdFromUuid\<close> refuses a game id without 32 hexadecimal places; \<open>replace\<close> drops the dashes.\<close>

definition roomIdFromUuid :: "string \<Rightarrow> (cycle_error, string) res" where
  "roomIdFromUuid uuid =
    (let hex = filter (\<lambda>c. c \<noteq> CHR ''-'') uuid
     in if length hex \<noteq> 32 then Inl (BadUuid uuid) else Inr hex)"

section \<open>create-game\<close>

definition modeForTier :: "string \<Rightarrow> (tier_error, string) res" where
  "modeForTier tid =
    rbind (requireTier tid) (\<lambda>tier. Inr (if 0 < entryFeeLamports tier then ''WAGER'' else ''CASUAL''))"

definition ON_CHAIN_UNLIMITED_PLAYERS :: nat where
  "ON_CHAIN_UNLIMITED_PLAYERS = 65535"

definition MAX_SAFE_INTEGER :: int where
  "MAX_SAFE_INTEGER = 2 ^ 53 - 1"

definition gameRoom :: "string \<Rightarrow> 'st world \<Rightarrow> string option" where
  "gameRoom gid w = map_option gi_room (find (\<lambda>i. gi_game i = gid) (wd_info w))"

text \<open>The rake of a game is read through its room, so it moves with the room.\<close>

definition updateRoom :: "room_row \<Rightarrow> room_tier \<Rightarrow> 'st world \<Rightarrow> 'st world" where
  "updateRoom room tier w =
    w\<lparr>wd_rooms := upd_rows (\<lambda>r. rm_id r = rm_id room)
         (\<lambda>r. r\<lparr>rm_entryFee := entryFeeLamports tier, rm_maxPlayers := maxPlayers tier, rm_rakeBps := rakeBps tier\<rparr>)
         (wd_rooms w),
      wd_db := (wd_db w)\<lparr>games := upd_rows (\<lambda>g. gameRoom (g_id g) w = Some (rm_id room))
         (\<lambda>g. g\<lparr>g_rakeBps := rakeBps tier\<rparr>) (games (wd_db w))\<rparr>\<rparr>"

definition createRoomRow :: "room_tier \<Rightarrow> string \<Rightarrow> 'st world \<Rightarrow> ('st, room_row) staged" where
  "createRoomRow tier mode w =
    (case randomUUID (wd_db w) of (i, d) \<Rightarrow>
      let room = \<lparr> rm_id = i, rm_code = t_id tier, rm_name = t_name tier, rm_mode = mode,
                   rm_maxPlayers = maxPlayers tier, rm_entryFee = entryFeeLamports tier,
                   rm_rakeBps = rakeBps tier \<rparr>
      in if list_ex (\<lambda>r. rm_id r = i) (wd_rooms w) then (Inl (DbFailed (DbError (P2002 ''id''))), w)
         else (Inr room, w\<lparr>wd_db := d, wd_rooms := wd_rooms w @ [room]\<rparr>))"

definition roomByCode :: "string \<Rightarrow> 'st world \<Rightarrow> room_row option" where
  "roomByCode code w = find (\<lambda>r. rm_code r = code) (wd_rooms w)"

definition pending_game :: "string \<Rightarrow> string \<Rightarrow> room_row \<Rightarrow> game_row" where
  "pending_game i nodeId room =
    \<lparr> g_id = i, g_status = PENDING, g_nodeId = nodeId, g_pot = 0, g_rake = 0, g_payout = 0,
      g_settlementSignature = None, g_settlementStatus = NOT_REQUIRED, g_settlementAttempts = 0,
      g_settlementError = None, g_endedAt = None, g_rakeBps = rm_rakeBps room, g_mode = rm_mode room \<rparr>"

definition createGameRow :: "room_row \<Rightarrow> string \<Rightarrow> int \<Rightarrow> int \<Rightarrow> 'st world \<Rightarrow> ('st, string) staged" where
  "createGameRow room nodeId seed startedAt w =
    (case randomUUID (wd_db w) of (i, d) \<Rightarrow>
      if gameById i d \<noteq> None then (Inl (DbFailed (DbError (P2002 ''id''))), w)
      else (Inr i, w\<lparr>wd_db := d\<lparr>games := games d @ [pending_game i nodeId room]\<rparr>,
              wd_info := wd_info w @ [\<lparr> gi_game = i, gi_room = rm_id room, gi_seed = seed,
                gi_startedAt = startedAt, gi_playerCount = 0, gi_matchPda = None \<rparr>]\<rparr>))"

definition seedOf :: "rat \<Rightarrow> int" where
  "seedOf r = \<lfloor>r * of_int MAX_SAFE_INTEGER\<rfloor>"

definition findCycleGame :: "string \<Rightarrow> string \<Rightarrow> 'st world \<Rightarrow> game_row option" where
  "findCycleGame roomId cycle w =
    find (\<lambda>g. g_nodeId g = cycle \<and> gameRoom (g_id g) w = Some roomId) (games (wd_db w))"

definition createGame :: "'st stage_ctx \<Rightarrow> job_data \<Rightarrow> 'st world \<Rightarrow> ('st, stage_result) staged" where
  "createGame ctx data w =
    (case requireTier (jd_tierId data) of
       Inl (UnknownTier i) \<Rightarrow> (Inl (NoTier i), w)
     | Inr tier \<Rightarrow>
         io_bind (case roomByCode (t_id tier) w of
                    Some room \<Rightarrow> (Inr room, updateRoom room tier w)
                  | None \<Rightarrow>
                      (case modeForTier (t_id tier) of
                         Inl (UnknownTier i) \<Rightarrow> (Inl (NoTier i), w)
                       | Inr mode \<Rightarrow> createRoomRow tier mode w))
           (\<lambda>room w1.
             let room' = (case roomByCode (t_id tier) w1 of None \<Rightarrow> room | Some r \<Rightarrow> r)
             in case findCycleGame (rm_id room) (jd_cycleId data) w1 of
                  Some existing \<Rightarrow>
                    (Inr (Patch \<lparr> pt_gameId = Some (g_id existing), pt_roomId = Some (rm_id room) \<rparr>), w1)
                | None \<Rightarrow>
                    io_bind (createGameRow room' (jd_cycleId data) (seedOf (sx_random ctx)) (jd_startedAt data) w1)
                      (\<lambda>gid w2. (Inr (Patch \<lparr> pt_gameId = Some gid, pt_roomId = Some (rm_id room) \<rparr>), w2))))"

section \<open>create-pool\<close>

definition gameExists :: "string \<Rightarrow> db \<Rightarrow> unit act" where
  "gameExists gid d = (if gameById gid d = None then (Inl (DbError P2025), d) else (Inr (), d))"

definition setInfo :: "string \<Rightarrow> (game_info \<Rightarrow> game_info) \<Rightarrow> 'st world \<Rightarrow> 'st world" where
  "setInfo gid f w = w\<lparr>wd_info := upd_rows (\<lambda>i. gi_game i = gid) f (wd_info w)\<rparr>"

text \<open>The address column of the account is not read by anything modelled and is left out.\<close>

definition upsertEscrow :: "string \<Rightarrow> db \<Rightarrow> unit act" where
  "upsertEscrow gid d =
    (case poolByName (escrow_name gid) d of
       Some _ \<Rightarrow> (Inr (), d)
     | None \<Rightarrow> (case poolCreate GAME_ESCROW (escrow_name gid) None (Some gid) d of
                  Inl e \<Rightarrow> (Inl e, d)
                | Inr (_, d') \<Rightarrow> (Inr (), d')))"

definition recordFailed :: "string \<Rightarrow> string \<Rightarrow> db \<Rightarrow> unit act" where
  "recordFailed gid reason d =
    gameWrite gid (\<lambda>g. g\<lparr>g_settlementStatus := FAILED, g_settlementError := Some reason\<rparr>) d"

text \<open>The body of the \<open>try\<close>: \<open>Inl\<close> is what was thrown in it.\<close>

definition called :: "chain_call \<Rightarrow> 'st world \<Rightarrow> 'st world" where
  "called c w = w\<lparr>wd_calls := wd_calls w @ [c]\<rparr>"

definition tryCreateRoom :: "'st stage_ctx \<Rightarrow> room_tier \<Rightarrow> string \<Rightarrow> 'st world \<Rightarrow> (string, unit, 'st world) io" where
  "tryCreateRoom ctx tier gid w =
    (case sx_getBalance ctx gid of
       Inl m \<Rightarrow> (Inl m, w)
     | Inr balance \<Rightarrow>
         if 0 < balance then (Inr (), w)
         else
           (let fee = entryFeeLamports tier;
                seats = (case maxPlayers tier of None \<Rightarrow> ON_CHAIN_UNLIMITED_PLAYERS | Some n \<Rightarrow> n);
                w1 = called (CreateRoomCall gid fee seats) w
            in case sx_createRoom ctx gid fee seats of
                 Inl m \<Rightarrow> (Inl m, w1)
               | Inr _ \<Rightarrow>
                   (case gameWrite gid (\<lambda>g. g\<lparr>g_settlementStatus := SETTLE_PENDING, g_settlementError := None\<rparr>)
                           (wd_db w1) of
                      (Inl _, d) \<Rightarrow> (Inl ''P2025'', w1\<lparr>wd_db := d\<rparr>)
                    | (Inr _, d) \<Rightarrow> (Inr (), w1\<lparr>wd_db := d\<rparr>))))"

definition createPool :: "'st stage_ctx \<Rightarrow> job_data \<Rightarrow> 'st world \<Rightarrow> ('st, stage_result) staged" where
  "createPool ctx data w =
    (case requireTier (jd_tierId data) of
       Inl (UnknownTier i) \<Rightarrow> (Inl (NoTier i), w)
     | Inr tier \<Rightarrow>
         (case given (jd_gameId data) of
            None \<Rightarrow> (Inl (NoGameId ''create-pool ran without a gameId''), w)
          | Some gid \<Rightarrow>
              if entryFeeLamports tier = 0 then (Inr (Patch no_patch), w)
              else
                (case get_lobby (sx_lobby ctx) (jd_tierId data) (wd_lobbies w) of
                   None \<Rightarrow> (Inr (Patch no_patch), w)
                 | Some queued \<Rightarrow>
                     if ls_playerCount queued = 0 then (Inr (Patch no_patch), w)
                     else
                       (case roomIdFromUuid gid of
                          Inl e \<Rightarrow> (Inl e, w)
                        | Inr _ \<Rightarrow>
                            io_bind (on_db (upsertEscrow gid) w) (\<lambda>_ w1.
                              io_bind (on_db (gameExists gid) w1) (\<lambda>_ w2.
                                let w3 = setInfo gid (\<lambda>i. i\<lparr>gi_matchPda := Some (sx_vaultAddress ctx gid)\<rparr>) w2
                                in if \<not> sd_canSign (sx_settle ctx) then
                                     io_bind (on_db (recordFailed gid
                                       ''on-chain settlement disabled: no settlement authority configured'') w3)
                                       (\<lambda>_ w4. (Inr (Patch no_patch), w4))
                                   else
                                     (case tryCreateRoom ctx tier gid w3 of
                                        (Inr _, w4) \<Rightarrow> (Inr (Patch no_patch), w4)
                                      | (Inl m, w4) \<Rightarrow>
                                          io_bind (on_db (recordFailed gid (take 500 (''create_room failed: '' @ m))) w4)
                                            (\<lambda>_ w5. (Inr (Patch no_patch), w5)))))))))"

section \<open>open-lobby\<close>

definition openLobby :: "'st stage_ctx \<Rightarrow> job_data \<Rightarrow> 'st world \<Rightarrow> ('st, stage_result) staged" where
  "openLobby ctx data w =
    (case open_lobby (sx_lobby ctx) (jd_tierId data) (jd_gameId data) False (wd_lobbies w) of
       (Inl e, st, _) \<Rightarrow> (Inl (LobbyFailed e), w\<lparr>wd_lobbies := st\<rparr>)
     | (Inr _, st, _) \<Rightarrow> (Inr (Patch no_patch), w\<lparr>wd_lobbies := st\<rparr>))"

section \<open>close-lobby\<close>

definition isAlreadyStarted :: "string \<Rightarrow> bool" where
  "isAlreadyStarted message =
    (let m = map lower message
     in includesStr m ''already'' \<or> includesStr m ''invalidroomstatus'' \<or> includesStr m ''roomnotopen'')"

text \<open>What the vault holds above its own rent; a read that fails counts as nothing.\<close>

definition collectedPot :: "'st stage_ctx \<Rightarrow> string option \<Rightarrow> (cycle_error, int) res" where
  "collectedPot ctx gid =
    rbind (case gid of
             None \<Rightarrow> Inr 0
           | Some g \<Rightarrow> rbind (roomIdFromUuid g) (\<lambda>_. Inr (case sx_getBalance ctx g of Inl _ \<Rightarrow> 0 | Inr b \<Rightarrow> b)))
      (\<lambda>vaultLamports.
        let rentFloor = (case sd_rentFloor (sx_settle ctx) of None \<Rightarrow> 0 | Some r \<Rightarrow> r)
        in Inr (if rentFloor < vaultLamports then vaultLamports - rentFloor else 0))"

definition sealVault :: "'st stage_ctx \<Rightarrow> string \<Rightarrow> 'st world \<Rightarrow> ('st, unit) staged" where
  "sealVault ctx gid w =
    (let w1 = called (StartRoomCall gid) w
     in case sd_startRoom (sx_settle ctx) gid of
          Inr _ \<Rightarrow> (Inr (), w1)
        | Inl m \<Rightarrow> if isAlreadyStarted m then (Inr (), w1)
                  else on_db (recordFailed gid (take 500 (''start_room failed: '' @ m))) w1)"

definition startedGame :: "'st stage_ctx \<Rightarrow> string option \<Rightarrow> nat \<Rightarrow> int \<Rightarrow> 'st world \<Rightarrow> ('st, unit) staged" where
  "startedGame ctx gid count pot w =
    (case gid of
       None \<Rightarrow> (Inr (), w)
     | Some g \<Rightarrow>
         io_bind (on_db (gameWrite g (\<lambda>r. r\<lparr>g_status := RUNNING, g_pot := pot\<rparr>)) w) (\<lambda>_ w1.
           let w2 = setInfo g (\<lambda>i. i\<lparr>gi_playerCount := count\<rparr>) w1
           in if 0 < pot \<and> sd_canSign (sx_settle ctx) then sealVault ctx g w2 else (Inr (), w2)))"

definition closeLobby :: "'st stage_ctx \<Rightarrow> job_data \<Rightarrow> 'st world \<Rightarrow> ('st, stage_result) staged" where
  "closeLobby ctx data w =
    (case requireTier (jd_tierId data) of
       Inl (UnknownTier i) \<Rightarrow> (Inl (NoTier i), w)
     | Inr tier \<Rightarrow>
         if entryFeeLamports tier = 0 then (Inr (Patch no_patch), w)
         else
           (let lobby = get_lobby (sx_lobby ctx) (jd_tierId data) (wd_lobbies w);
                count = (case lobby of None \<Rightarrow> 0 | Some l \<Rightarrow> ls_playerCount l)
            in if lobby = None \<or> count < minPlayers tier then
                 (Inr (Abort (''only '' @ show_nat count @ '' players; minimum is '' @ show_nat (minPlayers tier))), w)
               else if 0 < entryFeeLamports tier \<and>
                       poolByName (escrow_name (case jd_gameId data of None \<Rightarrow> [] | Some g \<Rightarrow> g)) (wd_db w) = None then
                 (Inr (Abort ''escrow pool account is missing; create-pool did not run''), w)
               else
                 (case collectedPot ctx (given (jd_gameId data)) of
                    Inl e \<Rightarrow> (Inl e, w)
                  | Inr pot \<Rightarrow>
                      io_bind (startedGame ctx (given (jd_gameId data)) count pot w)
                        (\<lambda>_ w1. (Inr (Patch no_patch), w1)))))"

section \<open>start-match\<close>

definition startMatch :: "'st stage_ctx \<Rightarrow> job_data \<Rightarrow> 'st world \<Rightarrow> ('st, stage_result) staged" where
  "startMatch ctx data w =
    (case given (jd_gameId data) of
       None \<Rightarrow> (Inl (NoGameId ''start-match ran without a gameId''), w)
     | Some gid \<Rightarrow>
         (case matchDurationMs of
            Inl m \<Rightarrow> (Inl (Unsettled m), w)
          | Inr duration \<Rightarrow>
              (let message = \<lparr> ms_tierId = jd_tierId data, ms_gameId = gid,
                     ms_startedAt = sd_now (sx_settle ctx), ms_durationMs = duration \<rparr>
               in case sx_publish ctx message of
                    Inl m \<Rightarrow> (Inl (RedisFailed m), w)
                  | Inr _ \<Rightarrow> (Inr (Patch no_patch), w\<lparr>wd_published := wd_published w @ [message]\<rparr>))))"

section \<open>end-match\<close>

definition settleNow :: "settle_deps \<Rightarrow> string \<Rightarrow> 'st world \<Rightarrow> ('st, settle_outcome) staged" where
  "settleNow dep gid w =
    io_bind (on_db (settleGame dep gid) w)
      (\<lambda>(outcome, sent) w1. (Inr outcome, w1\<lparr>wd_notified := wd_notified w1 @ sent\<rparr>))"

definition endMatch :: "'st stage_ctx \<Rightarrow> job_data \<Rightarrow> 'st world \<Rightarrow> ('st, stage_result) staged" where
  "endMatch ctx data w =
    (case given (jd_gameId data) of
       None \<Rightarrow> (Inl (NoGameId ''end-match ran without a gameId''), w)
     | Some gid \<Rightarrow>
         io_bind (settleNow (sx_settle ctx) gid w) (\<lambda>outcome w1.
           case outcome of
             Settled _ _ _ _ \<Rightarrow> (Inr (Patch no_patch), w1)
           | AlreadySettled \<Rightarrow> (Inr (Patch no_patch), w1)
           | NoResult reason \<Rightarrow> (Inl (Unsettled (''Cannot settle '' @ gid @ '': '' @ reason)), w1)
           | Rejected reasons \<Rightarrow>
               (Inr (CancelMatch (''settlement rejected: '' @ join_with ''; '' reasons)), w1)))"

section \<open>archive-game\<close>

definition history_of :: "'st world \<Rightarrow> game_row \<Rightarrow> game_info \<Rightarrow> game_player \<Rightarrow> history_row" where
  "history_of w game info p =
    (case wd_paid w (gp_game p) (gp_user p) of (entry, payout) \<Rightarrow>
      \<lparr> mh_user = gp_user p, mh_game = g_id game, mh_room = gi_room info, mh_mode = g_mode game,
        mh_placement = gp_placement p, mh_score = gp_score p, mh_kills = gp_kills p,
        mh_survivedMs = gp_survivedMs p, mh_entry = entry, mh_payout = payout, mh_net = payout - entry,
        mh_playedAt = gi_startedAt info \<rparr>)"

text \<open>\<open>createMany\<close> with \<open>skipDuplicates\<close>: a row whose player and game are there already is skipped.\<close>

fun createHistory :: "history_row list \<Rightarrow> history_row list \<Rightarrow> history_row list" where
  "createHistory [] table = table"
| "createHistory (h # hs) table = createHistory hs
     (if list_ex (\<lambda>r. mh_user r = mh_user h \<and> mh_game r = mh_game h) table then table else table @ [h])"

text \<open>Whether closing the room succeeds makes no difference: a failure is logged and dropped.\<close>

definition reclaimRent :: "string \<Rightarrow> 'st world \<Rightarrow> 'st world" where
  "reclaimRent gid w = (case roomIdFromUuid gid of Inl _ \<Rightarrow> w | Inr _ \<Rightarrow> called (CloseRoomCall gid) w)"

definition archiveGame :: "'st stage_ctx \<Rightarrow> job_data \<Rightarrow> 'st world \<Rightarrow> ('st, stage_result) staged" where
  "archiveGame ctx data w =
    (case given (jd_gameId data) of
       None \<Rightarrow> (Inl (NoGameId ''archive-game ran without a gameId''), w)
     | Some gid \<Rightarrow>
         (let w0 = (if sd_canSign (sx_settle ctx) then reclaimRent gid w else w);
              participants = filter (\<lambda>p. gp_game p = gid) (gamePlayers (wd_db w0))
          in case (gameById gid (wd_db w0), find (\<lambda>i. gi_game i = gid) (wd_info w0)) of
               (Some game, Some info) \<Rightarrow>
                 (let w1 = w0\<lparr>wd_history := createHistory (map (history_of w0 game info) participants) (wd_history w0)\<rparr>
                  in case reset_lobby (sx_lobby ctx) (jd_tierId data) (wd_lobbies w1) of
                       (Inl e, st, _) \<Rightarrow> (Inl (LobbyFailed e), w1\<lparr>wd_lobbies := st\<rparr>)
                     | (Inr _, st, _) \<Rightarrow> (Inr (Patch no_patch), w1\<lparr>wd_lobbies := st\<rparr>))
             | _ \<Rightarrow> (Inr (Patch no_patch), w0)))"

section \<open>The table of handlers\<close>

definition runStage :: "'st stage_ctx \<Rightarrow> cycle_stage \<Rightarrow> job_data \<Rightarrow> 'st world \<Rightarrow> ('st, stage_result) staged" where
  "runStage ctx s =
    (case s of
       CreateGame \<Rightarrow> createGame ctx
     | CreatePool \<Rightarrow> createPool ctx
     | OpenLobby \<Rightarrow> openLobby ctx
     | CloseLobby \<Rightarrow> closeLobby ctx
     | StartMatch \<Rightarrow> startMatch ctx
     | EndMatch \<Rightarrow> endMatch ctx
     | ArchiveGame \<Rightarrow> archiveGame ctx)"

end
