(* ===== verification/Cycle_Worker.thy ===== *)
theory Cycle_Worker
  imports Cycle_Stages
begin

text \<open>
  The worker of the match cycle (\<open>apps/worker/src/cycle/worker.ts\<close>): it runs the stage a job names, puts
  the next stage on the queue, and hands the pot back when a stage that can hold money cancels or is out
  of attempts. \<open>render\<close> is the text JavaScript makes of an error. A run of the system is any
  interleaving of scheduler ticks, attempts of queued jobs, lost attempts and writes of other processes.
\<close>

section \<open>Handing the pot back\<close>

definition js_index :: "'a \<Rightarrow> 'a list \<Rightarrow> int" where
  "js_index x xs = (case indexOf x xs of None \<Rightarrow> -1 | Some i \<Rightarrow> int i)"

definition FIRST_FUNDED_STAGE :: int where
  "FIRST_FUNDED_STAGE = js_index CloseLobby CYCLE_STAGES"

definition holdsMoney :: "cycle_stage \<Rightarrow> bool" where
  "holdsMoney stage \<longleftrightarrow> FIRST_FUNDED_STAGE \<le> js_index stage CYCLE_STAGES"

definition refundAbandonedMatch :: "int \<Rightarrow> string option \<Rightarrow> string \<Rightarrow> 'st world \<Rightarrow> ('st, unit) staged" where
  "refundAbandonedMatch now gid reason w =
    (case given gid of
       None \<Rightarrow> (Inr (), w)
     | Some g \<Rightarrow>
         (case cancelGameAndRefund g reason now (\<lambda>_. Inr ()) (wd_db w) of
            Inr (_, d) \<Rightarrow> (Inr (), w\<lparr>wd_db := d\<rparr>)
          | Inl (GameAlreadySettled _) \<Rightarrow> (Inr (), w)
          | Inl (GameNotFound _) \<Rightarrow> (Inr (), w)
          | Inl e \<Rightarrow> (Inl (DbFailed e), w)))"

section \<open>Processing a job\<close>

datatype job_outcome = StageOk "cycle_stage option" | StageCancelled string | StageAborted string

definition patched :: "job_data \<Rightarrow> job_patch \<Rightarrow> cycle_stage \<Rightarrow> job_data" where
  "patched data p following = data\<lparr>
     jd_gameId := (case pt_gameId p of None \<Rightarrow> jd_gameId data | Some g \<Rightarrow> Some g),
     jd_roomId := (case pt_roomId p of None \<Rightarrow> jd_roomId data | Some r \<Rightarrow> Some r),
     jd_stage := following\<rparr>"

definition processJob :: "'q queue_api \<Rightarrow> 'st stage_ctx \<Rightarrow> job_data \<Rightarrow> 'st world \<times> 'q
    \<Rightarrow> (cycle_error, job_outcome, 'st world \<times> 'q) io" where
  "processJob api ctx data s =
    (case s of (w, q) \<Rightarrow>
      (case runStage ctx (jd_stage data) data w of
         (Inl e, w1) \<Rightarrow> (Inl e, w1, q)
       | (Inr (CancelMatch reason), w1) \<Rightarrow>
           (case refundAbandonedMatch (sd_now (sx_settle ctx)) (jd_gameId data) reason w1 of
              (Inl e, w2) \<Rightarrow> (Inl e, w2, q)
            | (Inr _, w2) \<Rightarrow> (Inr (StageCancelled reason), w2, q))
       | (Inr (Abort reason), w1) \<Rightarrow> (Inr (StageAborted reason), w1, q)
       | (Inr (Patch p), w1) \<Rightarrow>
           (case nextStage (jd_stage data) of
              Inl m \<Rightarrow> (Inl (Unsettled m), w1, q)
            | Inr None \<Rightarrow> (Inr (StageOk None), w1, q)
            | Inr (Some following) \<Rightarrow>
                (case enqueueStage api (patched data p following) (sd_now (sx_settle ctx)) q of
                   Inl m \<Rightarrow> (Inl (Unsettled m), w1, q)
                 | Inr q1 \<Rightarrow> (Inr (StageOk (Some following)), w1, q1)))))"

text \<open>\<open>attemptsMade\<close> counts the attempt that has just failed.\<close>

definition isFinalAttempt :: "job \<Rightarrow> nat \<Rightarrow> bool" where
  "isFinalAttempt j attemptsMade \<longleftrightarrow> jb_attempts j \<le> attemptsMade"

definition onFailed :: "'st stage_ctx \<Rightarrow> (cycle_error \<Rightarrow> string) \<Rightarrow> job \<Rightarrow> nat \<Rightarrow> cycle_error \<Rightarrow> 'st world \<Rightarrow> 'st world" where
  "onFailed ctx render j attemptsMade e w =
    (if isFinalAttempt j attemptsMade \<and> holdsMoney (jd_stage (jb_data j)) \<and> given (jd_gameId (jb_data j)) \<noteq> None
     then snd (refundAbandonedMatch (sd_now (sx_settle ctx)) (jd_gameId (jb_data j))
            (''stage '' @ stage_name (jd_stage (jb_data j)) @ '' failed after '' @ show_nat attemptsMade @
             '' attempts: '' @ render e) w)
     else w)"

definition attemptJob :: "'q queue_api \<Rightarrow> 'st stage_ctx \<Rightarrow> (cycle_error \<Rightarrow> string) \<Rightarrow> job \<Rightarrow> nat
    \<Rightarrow> 'st world \<times> 'q \<Rightarrow> (cycle_error, job_outcome, 'st world \<times> 'q) io" where
  "attemptJob api ctx render j made s =
    (case processJob api ctx (jb_data j) s of
       (Inr r, s1) \<Rightarrow> (Inr r, s1)
     | (Inl e, (w1, q1)) \<Rightarrow> (Inl e, (onFailed ctx render j (Suc made) e w1, q1)))"

section \<open>Runs\<close>

text \<open>Two records are kept of the past: \<open>cs_done\<close>, which stages of which cycles have returned for the next
  one to be queued, and \<open>cs_games\<close>, the games the table held after each attempt, with the cycle each row
  was created for (its \<open>nodeId\<close> column).\<close>

record ('st, 'q) cycle_sys =
  cs_world :: "'st world"
  cs_queue :: 'q
  cs_made :: "string \<Rightarrow> nat"
  cs_done :: "(string \<times> cycle_stage) list"
  cs_games :: "(string \<times> string) list"

definition ran :: "job \<Rightarrow> (cycle_error, job_outcome) res \<Rightarrow> (string \<times> cycle_stage) list" where
  "ran j r = (case r of Inr (StageOk _) \<Rightarrow> [(jd_cycleId (jb_data j), jd_stage (jb_data j))] | _ \<Rightarrow> [])"

definition heldGames :: "'st world \<Rightarrow> (string \<times> string) list" where
  "heldGames w = map (\<lambda>g. (g_nodeId g, g_id g)) (games (wd_db w))"

inductive cycle_reach :: "'q queue_api \<Rightarrow> (cycle_error \<Rightarrow> string) \<Rightarrow> ('st, 'q) cycle_sys \<Rightarrow> bool"
  for api render where
  boot: "q_jobs api (cs_queue cs) = [] \<Longrightarrow> cs_done cs = [] \<Longrightarrow> cs_games cs = [] \<Longrightarrow> cycle_reach api render cs"
| scheduled: "cycle_reach api render cs \<Longrightarrow>
    cycle_reach api render (cs\<lparr>cs_queue := snd (handleSchedulerTick api now (cs_queue cs))\<rparr>)"
| attempted: "cycle_reach api render cs \<Longrightarrow> j \<in> set (q_jobs api (cs_queue cs)) \<Longrightarrow>
    attemptJob api ctx render j (cs_made cs (jb_id j)) (cs_world cs, cs_queue cs) = (r, w, q) \<Longrightarrow>
    cycle_reach api render (cs\<lparr>cs_world := w, cs_queue := q,
      cs_made := (cs_made cs)(jb_id j := cs_made cs (jb_id j) + (if isl r then 1 else 0)),
      cs_done := cs_done cs @ ran j r, cs_games := cs_games cs @ heldGames w\<rparr>)"
| lost: "cycle_reach api render cs \<Longrightarrow> j \<in> set (q_jobs api (cs_queue cs)) \<Longrightarrow>
    processJob api ctx (jb_data j) (cs_world cs, cs_queue cs) = (r, w, q) \<Longrightarrow>
    cycle_reach api render (cs\<lparr>cs_world := w, cs_queue := q, cs_done := cs_done cs @ ran j r, cs_games := cs_games cs @ heldGames w\<rparr>)"
| elsewhere: "cycle_reach api render cs \<Longrightarrow> cycle_reach api render (cs\<lparr>cs_world := w\<rparr>)"

end
