(* ===== verification/Cycle_Properties.thy ===== *)
theory Cycle_Properties
  imports Cycle_Worker
begin

text \<open>
  What the match cycle guarantees: jobs follow the plan whatever order the queue runs them in
  (\<open>plan_inv\<close>), no stage unbalances the books, and a match whose last stage is over or given up is
  settled or its players have been refunded.
\<close>

section \<open>A cancellation leaves nobody unpaid\<close>

definition escrow_ids :: "db \<Rightarrow> (string \<times> string option) list" where
  "escrow_ids d = map (\<lambda>a. (pa_id a, pa_game a)) (filter (\<lambda>a. pa_game a \<noteq> None) (pools d))"

lemma poolByGame_ids:
  "map_option pa_id (poolByGame g d) = map_option fst (find (\<lambda>p. snd p = Some g) (escrow_ids d))"
proof -
  have "map_option pa_id (find (\<lambda>a. pa_game a = Some g) ps) =
    map_option fst (find (\<lambda>p. snd p = Some g) (map (\<lambda>a. (pa_id a, pa_game a)) (filter (\<lambda>a. pa_game a \<noteq> None) ps)))" for ps
    by (induction ps) auto
  then show ?thesis by (simp add: poolByGame_def escrow_ids_def)
qed

lemma escrow_ids_upd:
  assumes "\<And>a. pa_id (f a) = pa_id a" and "\<And>a. pa_game (f a) = pa_game a"
  shows "escrow_ids (d\<lparr>pools := upd_rows P f (pools d)\<rparr>) = escrow_ids d"
proof -
  have "map (\<lambda>a. (pa_id a, pa_game a)) (filter (\<lambda>a. pa_game a \<noteq> None) (upd_rows P f ps)) =
    map (\<lambda>a. (pa_id a, pa_game a)) (filter (\<lambda>a. pa_game a \<noteq> None) ps)" for ps
    using assms by (induction ps) auto
  then show ?thesis by (simp add: escrow_ids_def)
qed

lemma escrow_ids_setBalance:
  "poolUpdate i v (setBalance b) d = Inr d' \<Longrightarrow> escrow_ids d' = escrow_ids d"
  by (auto simp: poolUpdate_def poolUpdateMany_def Let_def escrow_ids_upd setBalance_def split: if_splits)

lemma escrow_ids_custody:
  assumes "getCustodyAccount u d = Inr (c, d')"
  shows "escrow_ids d' = escrow_ids d"
  using assms by (auto simp: getCustodyAccount_def poolCreate_def randomUUID_def escrow_ids_def Let_def
      split: option.splits if_splits)

lemma refundLeg_rows:
  assumes wf: "db_wf d" and run: "refundLeg gid escrow leg eb d = Inr (eb', d')"
  shows "escrow_ids d' = escrow_ids d \<and>
    (\<exists>ts. txs d' = txs d @ ts \<and> refund_rows gid (pa_id escrow) (rl_user leg) ts)"
proof -
  obtain c d1 grp d2 d3 where g: "getCustodyAccount (rl_user leg) d = Inr (c, d1)"
    and d2: "d2 = d1\<lparr>drawn := Suc (drawn d1)\<rparr>"
    and up: "poolUpdate (pa_id c) (pa_version c) (setBalance (pa_balance c + rl_lamports leg)) d2 = Inr d3"
    and tx: "txCreateMany
            [refund_tx gid leg grp DEBIT (eb - rl_lamports leg) (pa_id escrow) (refund_key gid (rl_user leg) @ '':escrow''),
             refund_tx gid leg grp CREDIT (pa_balance c + rl_lamports leg) (pa_id c) (refund_key gid (rl_user leg))] d3
          = Inr d'"
    by (rule refundLeg_cases [OF run])
  note f = getCustodyAccount_facts [OF wf g]
  have wf2: "db_wf d2" using f(1) by (simp add: d2 db_wf_def)
  obtain x where "x \<in> set (pools d2)" and wf3: "db_wf d3"
    by (rule poolUpdate_facts [OF wf2 versioned_set(1) up])
  have ids: "escrow_ids d' = escrow_ids d"
    using txCreateMany_facts [OF wf3 tx] escrow_ids_setBalance [OF up] escrow_ids_custody [OF g]
    by (simp add: escrow_ids_def d2)
  have t3: "txs d3 = txs d" using poolUpdate_frame(1) [OF up] f(3) by (simp add: d2)
  obtain us where "txs d' = txs d3 @ us" "list_all2 (\<lambda>t u. \<exists>i. u = t\<lparr>tx_id := i\<rparr>)
      [refund_tx gid leg grp DEBIT (eb - rl_lamports leg) (pa_id escrow) (refund_key gid (rl_user leg) @ '':escrow''),
       refund_tx gid leg grp CREDIT (pa_balance c + rl_lamports leg) (pa_id c) (refund_key gid (rl_user leg))] us"
    using txCreateMany_rows [OF wf3 tx] by blast
  then show ?thesis
    using ids t3 by (auto simp: list_all2_Cons1 refund_rows_def refund_tx_def)
qed

lemma refundLegs_rows:
  "db_wf d \<Longrightarrow> refundLegs gid escrow legs eb d = Inr (eb', d') \<Longrightarrow> escrow_ids d' = escrow_ids d \<and>
   (\<exists>ts. txs d' = txs d @ ts \<and> (\<forall>t \<in> set ts. tx_type t = REFUND \<and> tx_game t = Some gid) \<and>
     (\<forall>leg \<in> set legs. \<exists>t \<in> set ts. tx_pool t = pa_id escrow \<and> tx_direction t = DEBIT \<and>
        tx_user t = Some (rl_user leg)))"
proof (induction legs arbitrary: eb d)
  case (Cons leg legs)
  from Cons.prems(2) obtain eb1 d1 where r: "refundLeg gid escrow leg eb d = Inr (eb1, d1)"
    "refundLegs gid escrow legs eb1 d1 = Inr (eb', d')" by (auto elim!: rbindE)
  have "db_wf d1" using refundLeg_step [OF Cons.prems(1) r(1)] by (simp add: refund_step_def)
  from Cons.IH [OF this r(2)] obtain ts where ts: "escrow_ids d' = escrow_ids d1" "txs d' = txs d1 @ ts"
    "\<forall>t \<in> set ts. tx_type t = REFUND \<and> tx_game t = Some gid"
    "\<forall>leg \<in> set legs. \<exists>t \<in> set ts. tx_pool t = pa_id escrow \<and> tx_direction t = DEBIT \<and> tx_user t = Some (rl_user leg)"
    by blast
  from refundLeg_rows [OF Cons.prems(1) r(1)] obtain us where us: "escrow_ids d1 = escrow_ids d"
    "txs d1 = txs d @ us" "refund_rows gid (pa_id escrow) (rl_user leg) us" by blast
  show ?case
    using ts us unfolding refund_rows_def by (intro conjI exI [of _ "us @ ts"]) auto
qed simp

definition unpaid :: "string \<Rightarrow> db \<Rightarrow> refund_leg list" where
  "unpaid gid d = (case poolByGame gid d of None \<Rightarrow> []
     | Some escrow \<Rightarrow> owedLegs (refundedUsers gid (pa_id escrow) d) (stakedByUser gid (pa_id escrow) d))"

lemma refunds_cover:
  assumes ts: "txs d' = txs d @ ts" "\<forall>t \<in> set ts. tx_type t = REFUND \<and> tx_game t = Some gid"
    and rows: "\<forall>leg \<in> set (owedLegs (refundedUsers gid eid d) (stakedByUser gid eid d)).
      \<exists>t \<in> set ts. tx_pool t = eid \<and> tx_direction t = DEBIT \<and> tx_user t = Some (rl_user leg)"
  shows "owedLegs (refundedUsers gid eid d') (stakedByUser gid eid d') = []"
  unfolding stakedByUser_append [OF ts]
proof (rule owedLegs_Nil)
  fix user amount
  assume u: "(Some user, amount) \<in> set (stakedByUser gid eid d)" "user \<noteq> []" "0 < amount"
  show "Some user \<in> set (refundedUsers gid eid d')"
  proof (cases "Some user \<in> set (refundedUsers gid eid d)")
    case True
    then show ?thesis by (auto simp: refundedUsers_def ts(1))
  next
    case False
    with rows owedLegs_member [OF u] obtain t where "t \<in> set ts" "tx_pool t = eid" "tx_direction t = DEBIT"
      "tx_user t = Some user" by fastforce
    with ts show ?thesis by (force simp: refundedUsers_def)
  qed
qed

lemma cancel_leaves_nobody_unpaid:
  assumes wf: "db_wf d" and run: "cancelGameAndRefund gid reason now audit d = Inr (r, d')"
  shows "unpaid gid d' = []"
  using run
proof (cases rule: cancel_cases)
  case (free game)
  obtain gs where "d' = d\<lparr>games := gs\<rparr>" using cancelRow_Inr(1) [OF free(4)] by blast
  with free(3) show ?thesis by (simp add: unpaid_def poolByGame_def)
next
  case (paid game escrow eb d1 d2)
  obtain gs where d': "d' = d2\<lparr>games := gs\<rparr>" using cancelRow_Inr(1) [OF paid(10)] by blast
  from refundLegs_rows [OF wf paid(8)] obtain ts where ids: "escrow_ids d1 = escrow_ids d"
    and ts: "txs d1 = txs d @ ts" "\<forall>t \<in> set ts. tx_type t = REFUND \<and> tx_game t = Some gid"
    and rows: "\<forall>leg \<in> set (cr_refunds r). \<exists>t \<in> set ts. tx_pool t = pa_id escrow \<and> tx_direction t = DEBIT \<and>
        tx_user t = Some (rl_user leg)" by blast
  have "txs d2 = txs d1 \<and> escrow_ids d2 = escrow_ids d1"
    using paid(9) poolUpdate_frame(1) escrow_ids_setBalance by (auto split: if_splits)
  then have t: "txs d' = txs d @ ts" "escrow_ids d' = escrow_ids d" using ts ids by (simp_all add: d' escrow_ids_def)
  have "map_option pa_id (poolByGame gid d') = Some (pa_id escrow)"
    using paid(3) poolByGame_ids [of gid d] poolByGame_ids [of gid d'] t(2) by simp
  then obtain e where e: "poolByGame gid d' = Some e" "pa_id e = pa_id escrow" by auto
  from refunds_cover [OF t(1) ts(2)] rows paid(5) e show ?thesis by (simp add: unpaid_def)
qed

section \<open>The stages keep the books\<close>

definition books :: "'st world \<Rightarrow> 'st world \<Rightarrow> bool" where
  "books w w' \<longleftrightarrow> (db_wf (wd_db w) \<longrightarrow> conserves (wd_db w) (wd_db w'))"

lemma books_refl [simp]: "books w w"
  by (simp add: books_def)

lemma books_trans: "books w w1 \<Longrightarrow> books w1 w2 \<Longrightarrow> books w w2"
  using conservesD(1) conserves_trans unfolding books_def by blast

lemma books_frame [simp]:
  "books w (w'\<lparr>wd_rooms := a\<rparr>) = books w w'" "books w (w'\<lparr>wd_info := b\<rparr>) = books w w'"
  "books w (w'\<lparr>wd_history := c\<rparr>) = books w w'" "books w (w'\<lparr>wd_lobbies := e\<rparr>) = books w w'"
  "books w (w'\<lparr>wd_published := f\<rparr>) = books w w'" "books w (w'\<lparr>wd_notified := g\<rparr>) = books w w'"
  "books w (w'\<lparr>wd_calls := h\<rparr>) = books w w'"
  "books (w\<lparr>wd_info := b\<rparr>) w' = books w w'" "books (w\<lparr>wd_calls := h\<rparr>) w' = books w w'"
  by (simp_all add: books_def)

lemma conserves_drawn_games:
  "db_wf d \<Longrightarrow> conserves d (d\<lparr>drawn := n\<rparr>)" "db_wf d \<Longrightarrow> conserves d (d\<lparr>drawn := n, games := g\<rparr>)"
  "db_wf d \<Longrightarrow> conserves d (d\<lparr>games := g\<rparr>)"
  by (simp_all add: conserves_def db_wf_def poolTotal_def ledgerNet_def)

lemma books_on_db:
  assumes "\<And>d. db_wf d \<Longrightarrow> conserves d (snd (act d))"
  shows "books w (snd (on_db act w))"
  using assms [of "wd_db w"] by (cases "act (wd_db w)"; cases "fst (act (wd_db w))") (auto simp: on_db_def books_def)

lemma books_bind:
  assumes "books w (snd m)" and "\<And>r w1. m = (Inr r, w1) \<Longrightarrow> books w1 (snd (k r w1))"
  shows "books w (snd (io_bind m k))"
  using assms by (cases m; cases "fst m") (auto simp: io_bind_def intro: books_trans)

lemma books_game [intro!]:
  "books w (snd (on_db (gameWrite gid f) w))" "books w (snd (on_db (recordFailed gid m) w))"
  by (rule books_on_db; simp add: recordFailed_def gameWrite_money same_money_conserves)+

lemma upsertEscrow_conserves:
  assumes "db_wf d"
  shows "conserves d (snd (upsertEscrow gid d))"
proof (cases "poolByName (escrow_name gid) d")
  case (Some a)
  with assms show ?thesis by (simp add: upsertEscrow_def)
next
  case None
  show ?thesis
  proof (cases "poolCreate GAME_ESCROW (escrow_name gid) None (Some gid) d")
    case (Inl e)
    with None assms show ?thesis by (simp add: upsertEscrow_def)
  next
    case (Inr x)
    obtain a d' where x: "x = (a, d')" by (cases x)
    note f = poolCreate_facts [OF assms Inr [unfolded x]]
    show ?thesis using None Inr x f(1,3,4,5) by (simp add: upsertEscrow_def conserves_def)
  qed
qed

lemma createGame_books: "books w (snd (createGame ctx data w))"
proof (cases "requireTier (jd_tierId data)")
  case (Inl e)
  then show ?thesis by (cases e) (simp add: createGame_def)
next
  case (Inr tier)
  have room: "books w (snd (case roomByCode (t_id tier) w of
       Some room \<Rightarrow> (Inr room, updateRoom room tier w)
     | None \<Rightarrow> (case modeForTier (t_id tier) of
         Inl (UnknownTier i) \<Rightarrow> (Inl (NoTier i), w)
       | Inr mode \<Rightarrow> createRoomRow tier mode w)))"
    by (auto simp: books_def updateRoom_def createRoomRow_def randomUUID_def Let_def conserves_drawn_games
        split: option.split sum.split tier_error.split)
  have game: "books w1 (snd (createGameRow r n sd st w1))" for r n sd st and w1 :: "'a world"
    by (auto simp: books_def createGameRow_def randomUUID_def conserves_drawn_games)
  show ?thesis
    unfolding createGame_def Inr sum.case
    by (rule books_bind [OF room]) (auto simp: Let_def intro!: books_bind game split: option.split)
qed

lemma tryCreateRoom_books: "books w (snd (tryCreateRoom ctx tier gid w))"
proof -
  have written: "books w (w'\<lparr>wd_db := snd (gameWrite gid f (wd_db w'))\<rparr>)" if "books w w'" for f w'
    by (rule books_trans [OF that]) (simp add: books_def same_money_conserves gameWrite_money)
  have tried: "books w (snd (case gameWrite gid f (wd_db w1) of
      (Inl _, d) \<Rightarrow> (Inl ''P2025'', w1\<lparr>wd_db := d\<rparr>) | (Inr _, d) \<Rightarrow> (Inr (), w1\<lparr>wd_db := d\<rparr>)))"
    if "books w w1" for f w1
    using written [OF that, of f] by (cases "gameWrite gid f (wd_db w1)"; cases "fst (gameWrite gid f (wd_db w1))") auto
  have "books w (called c w)" for c by (simp add: called_def)
  then show ?thesis
    by (auto simp: tryCreateRoom_def Let_def split: sum.split intro!: tried)
qed

lemma createPool_books: "books w (snd (createPool ctx data w))"
proof -
  have body: "books w (snd (io_bind (on_db (upsertEscrow gid) w) (\<lambda>_ w1.
      io_bind (on_db (gameExists gid) w1) (\<lambda>_ w2.
        let w3 = setInfo gid f w2
        in if \<not> sd_canSign (sx_settle ctx) then io_bind (on_db (recordFailed gid m) w3) (\<lambda>_ w4. (Inr (Patch no_patch), w4))
           else (case tryCreateRoom ctx tier gid w3 of
                (Inr _, w4) \<Rightarrow> (Inr (Patch no_patch), w4)
              | (Inl m, w4) \<Rightarrow> io_bind (on_db (recordFailed gid (take 500 (''create_room failed: '' @ m))) w4)
                    (\<lambda>_ w5. (Inr (Patch no_patch), w5)))))))" for gid f m tier
  proof (rule books_bind [OF books_on_db [OF upsertEscrow_conserves]], assumption, rule books_bind)
    fix w1 :: "'a world"
    show "books w1 (snd (on_db (gameExists gid) w1))" by (rule books_on_db) (auto simp: gameExists_def)
    fix w2 :: "'a world"
    have w3: "books w2 (setInfo gid f w2)" by (simp add: setInfo_def)
    obtain r w4 where t: "tryCreateRoom ctx tier gid (setInfo gid f w2) = (r, w4)"
      by (cases "tryCreateRoom ctx tier gid (setInfo gid f w2)")
    have w4: "books w2 w4" using books_trans [OF w3 tryCreateRoom_books, of ctx tier gid] t by simp
    show "books w2 (snd (let w3 = setInfo gid f w2
        in if \<not> sd_canSign (sx_settle ctx) then io_bind (on_db (recordFailed gid m) w3) (\<lambda>_ w4. (Inr (Patch no_patch), w4))
           else (case tryCreateRoom ctx tier gid w3 of
                (Inr _, w4) \<Rightarrow> (Inr (Patch no_patch), w4)
              | (Inl m, w4) \<Rightarrow> io_bind (on_db (recordFailed gid (take 500 (''create_room failed: '' @ m))) w4)
                    (\<lambda>_ w5. (Inr (Patch no_patch), w5)))))"
    proof (cases "sd_canSign (sx_settle ctx)")
      case True
      then show ?thesis using w4 t
        by (cases r) (auto simp: Let_def intro!: books_trans [OF w4] books_bind)
    next
      case False
      then show ?thesis by (auto simp: Let_def intro!: books_trans [OF w3] books_bind)
    qed
  qed
  show ?thesis
    unfolding createPool_def by (auto split: sum.split tier_error.split option.split intro!: body)
qed

lemma sealVault_books: "books w (snd (sealVault ctx gid w))"
  by (auto simp: sealVault_def called_def Let_def split: sum.split intro: books_trans [OF _ books_game(2)])

lemma closeLobby_books: "books w (snd (closeLobby ctx data w))"
proof -
  have seal: "books w (snd (sealVault ctx g (w\<lparr>wd_info := i\<rparr>)))" for g i and w :: "'a world"
    using sealVault_books [of "w\<lparr>wd_info := i\<rparr>" ctx g] by simp
  have started: "books w (snd (startedGame ctx gid n pot w))" for gid n pot
    by (auto simp: startedGame_def Let_def setInfo_def split: option.split
        intro!: books_bind intro: seal)
  show ?thesis
    unfolding closeLobby_def Let_def
    by (auto split: sum.split tier_error.split intro!: books_bind started)
qed

lemma settleNow_books:
  assumes "fair_others dep"
  shows "books w (snd (settleNow dep gid w))"
  unfolding settleNow_def using settleGame_conserves [OF _ assms]
  by (intro books_bind books_on_db) auto

lemma runStage_books:
  assumes "fair_others (sx_settle ctx)"
  shows "books w (snd (runStage ctx s data w))"
proof (cases s)
  case EndMatch
  have "books w (snd (endMatch ctx data w))"
    unfolding endMatch_def
    by (auto split: option.split settle_outcome.split intro!: books_bind settleNow_books assms)
  with EndMatch show ?thesis by (simp add: runStage_def)
qed (auto simp: runStage_def createGame_books createPool_books closeLobby_books openLobby_def startMatch_def
      archiveGame_def reclaimRent_def called_def Let_def split: sum.split option.split prod.split)

lemma refund_books: "books w (snd (refundAbandonedMatch now gid reason w))"
  using cancel_conserves
  by (auto simp: refundAbandonedMatch_def books_def split: option.split sum.split money_error.split)

section \<open>Jobs follow the plan\<close>

abbreviation job_cycle :: "job \<Rightarrow> string" where
  "job_cycle j \<equiv> jd_cycleId (jb_data j)"

abbreviation job_stage :: "job \<Rightarrow> cycle_stage" where
  "job_stage j \<equiv> jd_stage (jb_data j)"

abbreviation job_game :: "job \<Rightarrow> string option" where
  "job_game j \<equiv> jd_gameId (jb_data j)"

definition planned :: "(string \<times> cycle_stage) list \<Rightarrow> (string \<times> string) list \<Rightarrow> job \<Rightarrow> bool" where
  "planned trail seen j \<longleftrightarrow> jb_id j = stageJobId (job_cycle j) (job_stage j) \<and>
     jb_attempts j = sp_attempts (plan_of (job_stage j)) \<and> 0 \<le> jb_delay j \<and>
     (job_stage j \<noteq> CreateGame \<longrightarrow> (\<exists>g. job_game j = Some g \<and> (job_cycle j, g) \<in> set seen) \<and>
        (\<exists>p. successor p = Some (job_stage j) \<and> (job_cycle j, p) \<in> set trail))"

text \<open>The jobs of one cycle past \<open>create-game\<close> name one game.\<close>

definition one_game :: "job list \<Rightarrow> bool" where
  "one_game jobs \<longleftrightarrow> (\<forall>j \<in> set jobs. \<forall>k \<in> set jobs. job_cycle j = job_cycle k \<and> job_stage j \<noteq> CreateGame \<and>
     job_stage k \<noteq> CreateGame \<longrightarrow> job_game j = job_game k)"

definition plan_inv :: "job list \<Rightarrow> (string \<times> cycle_stage) list \<Rightarrow> (string \<times> string) list \<Rightarrow> bool" where
  "plan_inv jobs trail seen \<longleftrightarrow> distinct (map jb_id jobs) \<and> (\<forall>j \<in> set jobs. planned trail seen j) \<and>
     (\<forall>(c, s) \<in> set trail. \<exists>j \<in> set jobs. job_cycle j = c \<and> job_stage j = s) \<and> one_game jobs"

lemma plan_invD:
  assumes "plan_inv jobs trail seen"
  shows "distinct (map jb_id jobs)" and "j \<in> set jobs \<Longrightarrow> planned trail seen j"
    and "(c, s) \<in> set trail \<Longrightarrow> \<exists>j \<in> set jobs. job_cycle j = c \<and> job_stage j = s"
    and "j \<in> set jobs \<Longrightarrow> k \<in> set jobs \<Longrightarrow> job_cycle j = job_cycle k \<Longrightarrow> job_stage j \<noteq> CreateGame \<Longrightarrow>
      job_stage k \<noteq> CreateGame \<Longrightarrow> job_game j = job_game k"
proof -
  note parts = assms [unfolded plan_inv_def]
  show "distinct (map jb_id jobs)" using parts by (rule conjunct1)
  show "planned trail seen j" if "j \<in> set jobs" by (rule bspec [OF parts [THEN conjunct2, THEN conjunct1] that])
  show "\<exists>j \<in> set jobs. job_cycle j = c \<and> job_stage j = s" if "(c, s) \<in> set trail"
    using bspec [OF parts [THEN conjunct2, THEN conjunct2, THEN conjunct1] that] by simp
  show "job_game j = job_game k" if "j \<in> set jobs" "k \<in> set jobs" "job_cycle j = job_cycle k" "job_stage j \<noteq> CreateGame"
      "job_stage k \<noteq> CreateGame"
    using parts [THEN conjunct2, THEN conjunct2, THEN conjunct2, unfolded one_game_def] that by blast
qed

lemma planned_id: "planned trail seen j \<Longrightarrow> jb_id j = stageJobId (job_cycle j) (job_stage j)"
  unfolding planned_def by (rule conjunct1)

lemma planned_game: "planned trail seen j \<Longrightarrow> job_stage j \<noteq> CreateGame \<Longrightarrow>
    \<exists>g. job_game j = Some g \<and> (job_cycle j, g) \<in> set seen"
  unfolding planned_def by (elim conjE) simp

lemma planned_append: "planned trail seen j \<Longrightarrow> planned (trail @ rest) (seen @ further) j"
  by (auto simp: planned_def)

lemma plan_inv_add:
  assumes "dedupes api" and "plan_inv (q_jobs api q) trail seen" and "planned trail seen j"
    and "jb_id j \<notin> jb_id ` set (q_jobs api q) \<Longrightarrow> job_stage j \<noteq> CreateGame \<Longrightarrow>
      \<forall>k \<in> set (q_jobs api q). job_cycle k = job_cycle j \<and> job_stage k \<noteq> CreateGame \<longrightarrow> job_game k = job_game j"
  shows "plan_inv (q_jobs api (q_add api j q)) trail seen"
proof (cases "jb_id j \<in> jb_id ` set (q_jobs api q)")
  case True
  with assms(1,2) show ?thesis by (simp add: dedupes_def)
next
  case False
  then have q: "q_jobs api (q_add api j q) = q_jobs api q @ [j]" using assms(1) by (simp add: dedupes_def)
  note inv = plan_invD [OF assms(2)]
  have "one_game (q_jobs api q @ [j])"
    unfolding one_game_def
  proof (intro ballI impI)
    fix k l
    assume k: "k \<in> set (q_jobs api q @ [j])" and l: "l \<in> set (q_jobs api q @ [j])"
      and s: "job_cycle k = job_cycle l \<and> job_stage k \<noteq> CreateGame \<and> job_stage l \<noteq> CreateGame"
    consider "k = j" "l = j" | "k = j" "l \<in> set (q_jobs api q)" | "k \<in> set (q_jobs api q)" "l = j"
      | "k \<in> set (q_jobs api q)" "l \<in> set (q_jobs api q)" using k l by auto
    then show "job_game k = job_game l"
    proof cases
      case 1
      then show ?thesis by simp
    next
      case 2
      with assms(4) [OF False] s show ?thesis by metis
    next
      case 3
      with assms(4) [OF False] s show ?thesis by metis
    next
      case 4
      from inv(4) [OF this] s show ?thesis by blast
    qed
  qed
  moreover have "\<forall>k \<in> set (q_jobs api q @ [j]). planned trail seen k" using inv(2) assms(3) by auto
  moreover have "distinct (map jb_id (q_jobs api q @ [j]))" using inv(1) False by simp
  moreover have "\<forall>(c, s) \<in> set trail. \<exists>k \<in> set (q_jobs api q @ [j]). job_cycle k = c \<and> job_stage k = s"
    using inv(3) by fastforce
  ultimately show ?thesis unfolding q plan_inv_def by (intro conjI)
qed

lemma plan_inv_log:
  assumes "plan_inv jobs trail seen" and "j \<in> set jobs"
  shows "plan_inv jobs (trail @ ran j r) (seen @ further)"
  using assms planned_append
  by (auto simp: plan_inv_def ran_def split: sum.split job_outcome.split)

lemma planned_first: "planned trail seen (stage_job (first_data tid now) now)"
  by (simp add: planned_def stage_job_def first_data_def)

lemma plan_inv_tick:
  assumes "dedupes api" and "plan_inv (q_jobs api q) trail seen"
  shows "plan_inv (q_jobs api (snd (handleSchedulerTick api now q))) trail seen"
proof -
  have "plan_inv (q_jobs api (fold (\<lambda>tid. q_add api (stage_job (first_data tid now) now)) tids q)) trail seen" for tids
    using assms(2)
  proof (induction tids arbitrary: q)
    case (Cons tid tids)
    have "job_stage (stage_job (first_data tid now) now) = CreateGame" by (simp add: stage_job_def first_data_def)
    then have "plan_inv (q_jobs api (q_add api (stage_job (first_data tid now) now) q)) trail seen"
      by (intro plan_inv_add [OF assms(1) Cons.prems planned_first]) simp
    from Cons.IH [OF this] show ?case by simp
  qed simp
  then show ?thesis by (simp add: handleSchedulerTick_def tickCycles_eq)
qed

text \<open>\<open>create-game\<close> names a game that is then in the table, with the cycle as its node; no later stage names one.\<close>

lemma createGame_patch:
  assumes "createGame ctx data w = (Inr res, w')"
  obtains g r where "res = Patch \<lparr> pt_gameId = Some g, pt_roomId = Some r \<rparr>"
    and "(jd_cycleId data, g) \<in> set (heldGames w')"
proof -
  obtain tier where t: "requireTier (jd_tierId data) = Inr tier"
    using assms by (cases "requireTier (jd_tierId data)") (auto simp: createGame_def split: tier_error.splits)
  from assms t obtain room w1 where
    "(let room' = (case roomByCode (t_id tier) w1 of None \<Rightarrow> room | Some r \<Rightarrow> r)
      in case findCycleGame (rm_id room) (jd_cycleId data) w1 of
           Some existing \<Rightarrow> (Inr (Patch \<lparr> pt_gameId = Some (g_id existing), pt_roomId = Some (rm_id room) \<rparr>), w1)
         | None \<Rightarrow>
             io_bind (createGameRow room' (jd_cycleId data) (seedOf (sx_random ctx)) (jd_startedAt data) w1)
               (\<lambda>gid w2. (Inr (Patch \<lparr> pt_gameId = Some gid, pt_roomId = Some (rm_id room) \<rparr>), w2))) = (Inr res, w')"
    by (auto simp: createGame_def io_bind_eq_Inr)
  note run = this [unfolded Let_def]
  show thesis
  proof (cases "findCycleGame (rm_id room) (jd_cycleId data) w1")
    case (Some e)
    with run have r: "res = Patch \<lparr> pt_gameId = Some (g_id e), pt_roomId = Some (rm_id room) \<rparr>" "w' = w1" by simp_all
    from Some have "e \<in> set (games (wd_db w1))" "g_nodeId e = jd_cycleId data"
      by (auto simp: findCycleGame_def dest: find_SomeD)
    with r show thesis by (intro that [OF r(1)]) (force simp: heldGames_def)
  next
    case None
    with run obtain gid where r: "res = Patch \<lparr> pt_gameId = Some gid, pt_roomId = Some (rm_id room) \<rparr>"
      and c: "createGameRow (case roomByCode (t_id tier) w1 of None \<Rightarrow> room | Some r \<Rightarrow> r) (jd_cycleId data)
            (seedOf (sx_random ctx)) (jd_startedAt data) w1 = (Inr gid, w')"
      by (auto simp: io_bind_eq_Inr)
    from c have "(jd_cycleId data, gid) \<in> set (heldGames w')"
      by (auto simp: createGameRow_def pending_game_def heldGames_def split: prod.splits if_splits)
    with r show thesis by (rule that)
  qed
qed

definition names_none :: "(cycle_error, stage_result) res \<times> 'st world \<Rightarrow> bool" where
  "names_none x \<longleftrightarrow> (\<forall>p. fst x = Inr (Patch p) \<longrightarrow> p = no_patch)"

lemma names_none_simps [simp]:
  "names_none (Inl e, w)" "names_none (Inr (Patch no_patch), w)" "names_none (Inr (Abort m), w)" "names_none (Inr (CancelMatch m), w)"
  by (simp_all add: names_none_def)

lemma names_none_bind: "(\<And>v w. names_none (k v w)) \<Longrightarrow> names_none (io_bind m k)"
  by (cases m rule: prod.exhaust; cases "fst m") (auto simp: names_none_def io_bind_def)

lemma names_none_stages:
  "names_none (createPool ctx data w)" "names_none (openLobby ctx data w)" "names_none (closeLobby ctx data w)"
  "names_none (startMatch ctx data w)" "names_none (endMatch ctx data w)" "names_none (archiveGame ctx data w)"
  by (auto simp: createPool_def openLobby_def closeLobby_def startMatch_def endMatch_def archiveGame_def Let_def
      split: sum.split option.split prod.split tier_error.split settle_outcome.split intro!: names_none_bind)

lemma later_patch:
  assumes "runStage ctx s data w = (Inr (Patch p), w')" and "s \<noteq> CreateGame"
  shows "p = no_patch"
proof -
  have "names_none (runStage ctx s data w)" using assms(2) by (cases s) (simp_all add: runStage_def names_none_stages)
  with assms(1) show ?thesis by (simp add: names_none_def)
qed

text \<open>Processing leaves the queue alone or adds the job of the next stage, for the same cycle.\<close>

lemma processJob_queue:
  assumes "processJob api ctx data (w, q) = (r, w', q')"
  obtains (same) "q' = q" and "\<And>f. r \<noteq> Inr (StageOk (Some f))"
  | (advanced) f p where "r = Inr (StageOk (Some f))" and "successor (jd_stage data) = Some f"
      and "q' = q_add api (stage_job (patched data p f) (sd_now (sx_settle ctx))) q"
      and "jd_stage data = CreateGame \<Longrightarrow> \<exists>g. pt_gameId p = Some g \<and> (jd_cycleId data, g) \<in> set (heldGames w')"
      and "jd_stage data \<noteq> CreateGame \<Longrightarrow> pt_gameId p = None"
proof (cases "\<exists>f. r = Inr (StageOk (Some f))")
  case False
  with assms have "q' = q"
    by (auto simp: processJob_def split: sum.splits prod.splits stage_result.splits option.splits)
  with False show thesis by (intro same) auto
next
  case True
  then obtain f where f: "r = Inr (StageOk (Some f))" by blast
  obtain x w1 where s: "runStage ctx (jd_stage data) data w = (x, w1)"
    by (cases "runStage ctx (jd_stage data) data w")
  from assms f s obtain p where p: "x = Inr (Patch p)" "successor (jd_stage data) = Some f"
    "q' = q_add api (stage_job (patched data p f) (sd_now (sx_settle ctx))) q" "w' = w1"
    by (auto simp: processJob_def split: sum.splits prod.splits stage_result.splits option.splits)
  have "\<exists>g. pt_gameId p = Some g \<and> (jd_cycleId data, g) \<in> set (heldGames w')" if "jd_stage data = CreateGame"
    using s p(1,4) that by (auto simp: runStage_def elim: createGame_patch)
  moreover have "pt_gameId p = None" if "jd_stage data \<noteq> CreateGame"
    using later_patch [OF s [unfolded p(1)] that] by (simp add: no_patch_def)
  ultimately show thesis using f p(2,3) by (intro advanced)
qed

text \<open>Going back from a queued stage, every stage before it has run.\<close>

definition before :: "cycle_stage \<Rightarrow> cycle_stage set" where
  "before s = set (takeWhile (\<lambda>x. x \<noteq> s) CYCLE_STAGES)"

lemma before_first: "before CreateGame = {}"
  by (simp add: before_def CYCLE_STAGES_def)

lemma before_successor: "successor p = Some s \<Longrightarrow> before s = insert p (before p)"
  by (cases p) (auto simp: before_def CYCLE_STAGES_def)

lemma stage_induct:
  assumes "P CreateGame" and "\<And>p s. successor p = Some s \<Longrightarrow> P p \<Longrightarrow> P s"
  shows "P s"
proof -
  note step = assms(2)
  have "P CreatePool" by (rule step [OF _ assms(1)]) simp
  moreover from this have "P OpenLobby" by (rule step [rotated]) simp
  moreover from this have "P CloseLobby" by (rule step [rotated]) simp
  moreover from this have "P StartMatch" by (rule step [rotated]) simp
  moreover from this have "P EndMatch" by (rule step [rotated]) simp
  moreover from this have "P ArchiveGame" by (rule step [rotated]) simp
  ultimately show ?thesis using assms(1) by (cases s) simp_all
qed

lemma successor_inj: "successor p = Some s \<Longrightarrow> successor p' = Some s \<Longrightarrow> p = p'"
  by (cases p; cases p') auto

lemma earlier_ran:
  assumes inv: "plan_inv jobs trail seen"
  shows "\<forall>j \<in> set jobs. job_stage j = s \<longrightarrow> (\<forall>p \<in> before s. (job_cycle j, p) \<in> set trail)"
proof (induction s rule: stage_induct)
  case (2 p s)
  show ?case
  proof (intro ballI impI)
    fix j x assume j: "j \<in> set jobs" "job_stage j = s" and x: "x \<in> before s"
    have ne: "s \<noteq> CreateGame" using 2(1) by (cases p) auto
    with inv j obtain p' where "successor p' = Some s" "(job_cycle j, p') \<in> set trail"
      by (auto simp: plan_inv_def planned_def)
    with 2(1) have here: "(job_cycle j, p) \<in> set trail" using successor_inj by blast
    then obtain k where k: "k \<in> set jobs" "job_cycle k = job_cycle j" "job_stage k = p"
      using plan_invD(3) [OF inv] by blast
    show "(job_cycle j, x) \<in> set trail"
    proof (cases "x = p")
      case False
      then have "x \<in> before p" using x before_successor [OF 2(1)] by simp
      with 2(2) k show ?thesis by metis
    qed (use here in simp)
  qed
qed (simp add: before_first)

lemma first_follower:
  assumes inv: "plan_inv jobs trail seen" and k: "k \<in> set jobs" "job_stage k \<noteq> CreateGame"
  obtains m where "m \<in> set jobs" and "job_cycle m = job_cycle k" and "job_stage m = CreatePool"
proof (cases "job_stage k = CreatePool")
  case True
  with k(1) that show thesis by blast
next
  case False
  with k(2) have "CreatePool \<in> before (job_stage k)" by (cases "job_stage k") (auto simp: before_def CYCLE_STAGES_def)
  with earlier_ran [OF inv, of "job_stage k"] k(1) have "(job_cycle k, CreatePool) \<in> set trail" by blast
  with plan_invD(3) [OF inv] that show thesis by blast
qed

lemma plan_inv_process:
  assumes api: "dedupes api" and inv: "plan_inv (q_jobs api q) trail seen" and j: "j \<in> set (q_jobs api q)"
    and run: "processJob api ctx (jb_data j) (w, q) = (r, w', q')"
  shows "plan_inv (q_jobs api q') (trail @ ran j r) (seen @ heldGames w')"
  using run
proof (cases rule: processJob_queue)
  case same
  with plan_inv_log [OF inv j] show ?thesis by simp
next
  case (advanced f p)
  let ?new = "stage_job (patched (jb_data j) p f) (sd_now (sx_settle ctx))"
  have c: "ran j r = [(job_cycle j, job_stage j)]" using advanced(1) by (simp add: ran_def)
  note pj = plan_invD(2) [OF inv j]
  have new: "job_cycle ?new = job_cycle j" "job_stage ?new = f" "jb_id ?new = stageJobId (job_cycle j) f"
    "job_game ?new = (case pt_gameId p of None \<Rightarrow> job_game j | Some g \<Rightarrow> Some g)"
    by (simp_all add: stage_job_def patched_def)
  have "\<exists>g. job_game ?new = Some g \<and> (job_cycle j, g) \<in> set (seen @ heldGames w')"
  proof (cases "job_stage j = CreateGame")
    case True
    with advanced(4) new(4) show ?thesis by auto
  next
    case False
    with advanced(5) new(4) planned_game [OF pj] show ?thesis by auto
  qed
  then have pl: "planned (trail @ ran j r) (seen @ heldGames w') ?new"
    using advanced(2) c by (auto simp: planned_def stage_job_def patched_def)
  have "job_game k = job_game ?new"
    if fresh: "jb_id ?new \<notin> jb_id ` set (q_jobs api q)" and k: "k \<in> set (q_jobs api q)" "job_cycle k = job_cycle j" "job_stage k \<noteq> CreateGame" for k
  proof (cases "job_stage j = CreateGame")
    case False
    then have "job_game ?new = job_game j" using advanced(5) new(4) by simp
    with plan_invD(4) [OF inv k(1) j k(2,3) False] show ?thesis by simp
  next
    case True
    then have f: "f = CreatePool" using advanced(2) by simp
    obtain m where m: "m \<in> set (q_jobs api q)" "job_cycle m = job_cycle j" "job_stage m = CreatePool"
      using first_follower [OF inv k(1,3)] k(2) by auto
    then have "jb_id m = jb_id ?new" unfolding new(3) using planned_id [OF plan_invD(2) [OF inv m(1)]] f by simp
    with m(1) fresh have False by (metis imageI)
    then show ?thesis ..
  qed
  then have "plan_inv (q_jobs api (q_add api ?new q)) (trail @ ran j r) (seen @ heldGames w')"
    using new(1) by (intro plan_inv_add [OF api plan_inv_log [OF inv j] pl]) simp_all
  then show ?thesis unfolding advanced(3) .
qed

lemma cycle_reach_inv:
  assumes "dedupes api" and "cycle_reach api render cs"
  shows "plan_inv (q_jobs api (cs_queue cs)) (cs_done cs) (cs_games cs)"
  using assms(2)
proof induction
  case (boot cs)
  then show ?case by (simp add: plan_inv_def one_game_def)
next
  case (scheduled cs now)
  then show ?case by (simp add: plan_inv_tick [OF assms(1)])
next
  case (attempted cs j ctx r w q)
  obtain w1 where p: "processJob api ctx (jb_data j) (cs_world cs, cs_queue cs) = (r, w1, q)"
    and w: "w = w1 \<or> isl r"
    using attempted(3) by (auto simp: attemptJob_def split: prod.splits sum.splits)
  show ?case
  proof (cases "isl r")
    case False
    with plan_inv_process [OF assms(1) attempted(4,2) p] w show ?thesis by simp
  next
    case True
    from p have "q = cs_queue cs" by (cases rule: processJob_queue) (use True in auto)
    with plan_inv_log [OF attempted(4,2)] show ?thesis by simp
  qed
next
  case (lost cs j ctx r w q)
  from plan_inv_process [OF assms(1) lost(4,2,3)] show ?case by simp
qed simp

text \<open>
  C21: every cycle follows the plan: whatever order the queue runs its jobs in, however often it runs them
  again, whatever fails or is changed elsewhere in between, a queued job of a stage means that each stage
  before it has run for that cycle and returned; past the first stage it carries a game that was in the table
  as one created for its very cycle, the same for all jobs of the cycle; it is the only job of its stage and
  cycle; and it has the budget of attempts the plan gives that stage.
\<close>
theorem cycle_follows_plan:
  assumes api: "dedupes api" and reach: "cycle_reach api render cs" and j: "j \<in> set (q_jobs api (cs_queue cs))"
  shows "(\<forall>p \<in> set (takeWhile (\<lambda>x. x \<noteq> jd_stage (jb_data j)) CYCLE_STAGES). (jd_cycleId (jb_data j), p) \<in> set (cs_done cs)) \<and>
    (jd_stage (jb_data j) = CreateGame \<or>
       (\<exists>g. jd_gameId (jb_data j) = Some g \<and> (jd_cycleId (jb_data j), g) \<in> set (cs_games cs))) \<and>
    (\<forall>k \<in> set (q_jobs api (cs_queue cs)). jd_cycleId (jb_data k) = jd_cycleId (jb_data j) \<longrightarrow>
       (jd_stage (jb_data k) = jd_stage (jb_data j) \<longrightarrow> k = j) \<and>
       (jd_stage (jb_data j) \<noteq> CreateGame \<and> jd_stage (jb_data k) \<noteq> CreateGame \<longrightarrow>
          jd_gameId (jb_data k) = jd_gameId (jb_data j))) \<and>
    jb_attempts j = sp_attempts (plan_of (jd_stage (jb_data j))) \<and> 0 \<le> jb_delay j"
proof -
  note inv = cycle_reach_inv [OF api reach]
  note p = plan_invD(2) [OF inv j]
  have one: "k = j" if k: "k \<in> set (q_jobs api (cs_queue cs))" "job_cycle k = job_cycle j" "job_stage k = job_stage j" for k
  proof (rule distinct_key_eq [OF plan_invD(1) [OF inv] k(1) j])
    show "jb_id k = jb_id j" using planned_id [OF p] planned_id [OF plan_invD(2) [OF inv k(1)]] k(2,3) by simp
  qed
  note game = plan_invD(4) [OF inv _ j]
  have "\<forall>p \<in> set (takeWhile (\<lambda>x. x \<noteq> job_stage j) CYCLE_STAGES). (job_cycle j, p) \<in> set (cs_done cs)"
    using earlier_ran [OF inv, of "job_stage j"] j unfolding before_def by blast
  moreover have "job_stage j = CreateGame \<or> (\<exists>g. job_game j = Some g \<and> (job_cycle j, g) \<in> set (cs_games cs))"
    using planned_game [OF p] by blast
  moreover have "\<forall>k \<in> set (q_jobs api (cs_queue cs)). job_cycle k = job_cycle j \<longrightarrow> (job_stage k = job_stage j \<longrightarrow> k = j) \<and>
      (job_stage j \<noteq> CreateGame \<and> job_stage k \<noteq> CreateGame \<longrightarrow> job_game k = job_game j)"
    using one game by blast
  moreover have "jb_attempts j = sp_attempts (plan_of (job_stage j)) \<and> 0 \<le> jb_delay j"
    using p unfolding planned_def by (elim conjE) (intro conjI)
  ultimately show ?thesis by blast
qed

section \<open>A match ends settled or refunded\<close>

text \<open>What the database says of a match that is over; it says nothing of what its vault on chain still holds.\<close>

definition match_closed :: "string \<Rightarrow> db \<Rightarrow> bool" where
  "match_closed g d \<longleftrightarrow> gameById g d = None \<or> paidOut g d \<noteq> None \<or>
     (\<exists>game. gameById g d = Some game \<and>
        (g_settlementStatus game = CONFIRMED \<or> g_status game = COMPLETED \<or>
         (g_status game = CANCELLED \<and> unpaid g d = [])))"

lemma txCreateMany_Inl: "txCreateMany ts d = Inl e \<Longrightarrow> \<exists>x. e = DbError x"
  by (induction ts arbitrary: d) (auto simp: txCreateMany.simps txCreate_def randomUUID_def rbind_eq_Inl split: if_splits)

lemma poolUpdate_Inl: "poolUpdate i v f d = Inl e \<Longrightarrow> e = DbError P2025"
  by (auto simp: poolUpdate_def split: prod.splits if_splits)

lemma refundLegs_Inl: "refundLegs gid escrow legs eb d = Inl e \<Longrightarrow> \<exists>x. e = DbError x"
proof (induction legs arbitrary: eb d)
  case (Cons leg legs)
  have "\<exists>x. e = DbError x" if "refundLeg gid escrow leg eb d = Inl e"
    using that txCreateMany_Inl poolUpdate_Inl
    by (fastforce simp: refundLeg_def rbind_eq_Inl Let_def randomUUID_def getCustodyAccount_def poolCreate_def
        split: option.splits if_splits)
  with Cons show ?case by (auto simp: rbind_eq_Inl)
qed simp

text \<open>When a cancellation is refused because the match is over or unknown, it is.\<close>

lemma cancel_refused_closed:
  assumes "cancelGameAndRefund g reason now (\<lambda>_. Inr ()) d = Inl e"
    and "e = GameAlreadySettled x \<or> e = GameNotFound x"
  shows "match_closed g d"
proof (cases "gameById g d")
  case game: (Some game)
  show ?thesis
  proof (cases "g_status game = COMPLETED \<or> paidOut g d \<noteq> None")
    case False
    then have nc: "g_status game \<noteq> COMPLETED" "paidOut g d = None" by auto
    have row: "cancelRow g game reason now d1 = Inl e' \<Longrightarrow> e' = DbError P2025" for d1 e'
      by (auto simp: cancelRow_def gameUpdate_def rbind_eq_Inl split: if_splits)
    show ?thesis
    proof (cases "poolByGame g d")
      case None
      with assms game nc row show ?thesis by (auto simp: cancelGameAndRefund_def rbind_eq_Inl)
    next
      case (Some escrow)
      define owed where "owed = owedLegs (refundedUsers g (pa_id escrow) d) (stakedByUser g (pa_id escrow) d)"
      define tot where "tot = foldl (\<lambda>sum leg. sum + rl_lamports leg) 0 owed"
      from assms(1) game Some nc
      have "(\<exists>y. e = DbError y) \<or> (\<exists>a b. e = RefundShortfall g a b)"
        unfolding cancelGameAndRefund_def
        by (simp add: owed_def [symmetric] tot_def [symmetric] Let_def rbind_eq_Inl split: if_splits)
           (auto simp: rbind_eq_Inl dest!: refundLegs_Inl poolUpdate_Inl row)
      with assms(2) show ?thesis by auto
    qed
  qed (use game in \<open>auto simp: match_closed_def\<close>)
qed (simp add: match_closed_def)

lemma refund_closes:
  assumes wf: "db_wf (wd_db w)" and g: "given gid = Some g"
    and run: "refundAbandonedMatch now gid reason w = (Inr u, w')"
  shows "match_closed g (wd_db w')"
proof (cases "cancelGameAndRefund g reason now (\<lambda>_. Inr ()) (wd_db w)")
  case (Inr x)
  obtain r d where x: "x = (r, d)" by (cases x)
  have "wd_db w' = d" using run g Inr x by (auto simp: refundAbandonedMatch_def)
  with cancel_status [OF wf Inr [unfolded x]] cancel_leaves_nobody_unpaid [OF wf Inr [unfolded x]]
  show ?thesis by (auto simp: match_closed_def)
next
  case (Inl e)
  with run g have "w' = w" "\<exists>x. e = GameAlreadySettled x \<or> e = GameNotFound x"
    by (auto simp: refundAbandonedMatch_def split: money_error.splits)
  with cancel_refused_closed [OF Inl] show ?thesis by auto
qed

text \<open>A refund that fails changes nothing.\<close>

lemma refund_fails:
  assumes g: "given gid = Some g" and run: "refundAbandonedMatch now gid reason w = (Inl e, w')"
  shows "w' = w \<and> (\<exists>e. cancelGameAndRefund g reason now (\<lambda>_. Inr ()) (wd_db w) = Inl e)"
  using run g by (auto simp: refundAbandonedMatch_def split: sum.splits money_error.splits)

lemma leaderboard_games: "games (snd (updateLeaderboard now ss d)) = games d"
proof (induction ss arbitrary: d)
  case (Cons s ss)
  have row: "games (snd (leaderboardRow now w p s d)) = games d" for w p d
    by (auto simp: leaderboardRow_def Let_def split: option.split sum.split)
  have bind: "games (snd (act_bind m k)) = games d" if "games (snd m) = games d" "\<And>r d1. games d1 = games d \<Longrightarrow> games (snd (k r d1)) = games d"
    for m :: "unit act" and k :: "unit \<Rightarrow> db \<Rightarrow> unit act"
    using that by (cases m; cases "fst m") (auto simp: act_bind_def)
  show ?case by (simp add: bind row Cons)
qed simp

definition settled_row :: "string \<Rightarrow> db \<Rightarrow> bool" where
  "settled_row g d \<longleftrightarrow> (\<exists>game. gameById g d = Some game \<and> (g_settlementStatus game = CONFIRMED \<or> g_status game = COMPLETED))"

lemma settled_row_games: "games d' = games d \<Longrightarrow> settled_row g d' = settled_row g d"
  by (simp add: settled_row_def gameById_def)

definition over :: "settle_outcome \<Rightarrow> bool" where
  "over out \<longleftrightarrow> out = AlreadySettled \<or> (\<exists>w p r s. out = Settled w p r s)"

definition finished_with :: "settle_deps \<Rightarrow> string \<Rightarrow> reported_standing list \<Rightarrow> db \<Rightarrow> bool" where
  "finished_with dep gid st d' \<longleftrightarrow> (\<exists>s sig d1. finishGame (sd_now dep) gid s sig d1 = (Inr (), d') \<or>
      (\<exists>d2. finishGame (sd_now dep) gid s sig d1 = (Inr (), d2) \<and> updateLeaderboard (sd_now dep) st d2 = (Inr (), d')))"

lemma settleMoney_tail:
  assumes "(case leg of
       NoWallet \<Rightarrow> (Inr (Rejected [''a winner has no verified wallet on record''], []), d2)
     | ChainPaid signature \<Rightarrow>
         act_bind (recordRewards (sd_now dep) gid payouts rake d2) (\<lambda>_ d3.
           act_bind (updateLeaderboard (sd_now dep) st d3) (\<lambda>_ d4.
             act_bind (finishGame (sd_now dep) gid CONFIRMED signature d4) (\<lambda>_ d5.
               (Inr (Settled w prize rake signature, notes), d5))))) = (Inr (out, ns), d')"
    and "over out"
  shows "finished_with dep gid st d'"
proof (cases leg)
  case NoWallet
  with assms show ?thesis by (auto simp: over_def)
next
  case (ChainPaid signature)
  note r = assms(1) [unfolded ChainPaid chain_leg.case]
  obtain d3 where r3: "act_bind (updateLeaderboard (sd_now dep) st d3) (\<lambda>_ d4.
             act_bind (finishGame (sd_now dep) gid CONFIRMED signature d4) (\<lambda>_ d5.
               (Inr (Settled w prize rake signature, notes), d5))) = (Inr (out, ns), d')"
    using r by (rule act_bindE)
  obtain d4 where r4: "act_bind (finishGame (sd_now dep) gid CONFIRMED signature d4) (\<lambda>_ d5.
               (Inr (Settled w prize rake signature, notes), d5)) = (Inr (out, ns), d')"
    using r3 by (rule act_bindE)
  from r4 obtain d5 where "finishGame (sd_now dep) gid CONFIRMED signature d4 = (Inr (), d5)" "d5 = d'"
    by (rule act_bindE) auto
  then show ?thesis by (auto simp: finished_with_def)
qed

lemma settleMoney_finished:
  assumes run: "settleMoney dep gid st w bps pot d = (Inr (out, ns), d')" and over: "over out"
  shows "finished_with dep gid st d'"
proof -
  obtain prize rake where sp: "splitPot pot bps = (prize, rake)" by (cases "splitPot pot bps")
  let ?payouts = "computePayouts st prize"
  consider "pot = 0 \<or> ?payouts = []" | "\<not> (pot = 0 \<or> ?payouts = [])" "\<not> withinTransactionLimit ?payouts"
    | "\<not> (pot = 0 \<or> ?payouts = [])" "withinTransactionLimit ?payouts" "totalPayout ?payouts \<noteq> prize"
    | "\<not> (pot = 0 \<or> ?payouts = [])" "withinTransactionLimit ?payouts" "totalPayout ?payouts = prize" by blast
  then show ?thesis
  proof cases
    case 1
    with run have "act_bind (finishGame (sd_now dep) gid NOT_REQUIRED None d) (\<lambda>_ d1.
             act_bind (updateLeaderboard (sd_now dep) st d1) (\<lambda>_ d2.
               (Inr (Settled w 0 0 None, [notifyPlayers gid w []]), d2))) = (Inr (out, ns), d')"
      by (simp add: settleMoney_def sp Let_def)
    then obtain u d1 where "finishGame (sd_now dep) gid NOT_REQUIRED None d = (Inr u, d1)"
      and r: "act_bind (updateLeaderboard (sd_now dep) st d1) (\<lambda>_ d2.
               (Inr (Settled w 0 0 None, [notifyPlayers gid w []]), d2)) = (Inr (out, ns), d')"
      by (rule act_bindE)
    moreover from r obtain d2 where "updateLeaderboard (sd_now dep) st d1 = (Inr (), d2)" "d2 = d'"
      by (rule act_bindE) auto
    ultimately show ?thesis by (auto simp: finished_with_def)
  next
    case 4
    with run have "act_bind (gameWrite gid (\<lambda>g. g\<lparr>g_settlementStatus := SETTLE_PENDING,
                        g_settlementAttempts := g_settlementAttempts g + 1\<rparr>) d) (\<lambda>_ d1.
             act_bind (chainLeg dep gid w (sd_during dep d1)) (\<lambda>leg d2.
               case leg of
                 NoWallet \<Rightarrow> (Inr (Rejected [''a winner has no verified wallet on record''], []), d2)
               | ChainPaid signature \<Rightarrow>
                   act_bind (recordRewards (sd_now dep) gid ?payouts rake d2) (\<lambda>_ d3.
                     act_bind (updateLeaderboard (sd_now dep) st d3) (\<lambda>_ d4.
                       act_bind (finishGame (sd_now dep) gid CONFIRMED signature d4) (\<lambda>_ d5.
                         (Inr (Settled w prize rake signature, [notifyPlayers gid w ?payouts]), d5))))))
        = (Inr (out, ns), d')"
      by (simp add: settleMoney_def sp Let_def)
    then obtain d1 where "act_bind (chainLeg dep gid w (sd_during dep d1)) (\<lambda>leg d2.
               case leg of
                 NoWallet \<Rightarrow> (Inr (Rejected [''a winner has no verified wallet on record''], []), d2)
               | ChainPaid signature \<Rightarrow>
                   act_bind (recordRewards (sd_now dep) gid ?payouts rake d2) (\<lambda>_ d3.
                     act_bind (updateLeaderboard (sd_now dep) st d3) (\<lambda>_ d4.
                       act_bind (finishGame (sd_now dep) gid CONFIRMED signature d4) (\<lambda>_ d5.
                         (Inr (Settled w prize rake signature, [notifyPlayers gid w ?payouts]), d5)))))
        = (Inr (out, ns), d')" by (rule act_bindE)
    from this show ?thesis by (rule act_bindE) (rule settleMoney_tail [OF _ over])
  qed (use run over sp in \<open>auto simp: settleMoney_def Let_def over_def\<close>)
qed

lemma finishGame_row: "finishGame now gid s sig d1 = (Inr (), d2) \<Longrightarrow> settled_row gid d2"
  using finishGame_Inr [of now gid s sig d1 "()" d2] unfolding settled_row_def by blast

lemma finished_row:
  assumes "finished_with dep gid st d'"
  shows "settled_row gid d'"
  using assms unfolding finished_with_def
proof (elim exE disjE conjE)
  fix s sig d1 d2
  assume f: "finishGame (sd_now dep) gid s sig d1 = (Inr (), d2)"
    and u: "updateLeaderboard (sd_now dep) st d2 = (Inr (), d')"
  have "games d' = games d2" using leaderboard_games [of "sd_now dep" st d2] unfolding u snd_conv .
  from iffD2 [OF settled_row_games [OF this] finishGame_row [OF f]] show ?thesis .
qed (rule finishGame_row)

lemma settleMoney_over:
  "settleMoney dep gid st w bps pot d = (Inr (out, ns), d') \<Longrightarrow> over out \<Longrightarrow> settled_row gid d'"
  by (rule finished_row [OF settleMoney_finished])

lemma settleGame_over:
  assumes run: "settleGame dep gid d = (Inr (out, ns), d')" and "over out"
  shows "settled_row gid d'"
proof -
  obtain game where g: "gameById gid d = Some game"
    using assms by (cases "gameById gid d") (auto simp: settleGame_def over_def)
  show ?thesis
  proof (cases "g_settlementStatus game = CONFIRMED")
    case True
    with run g show ?thesis by (auto simp: settleGame_def settled_row_def)
  next
    case False
    with run g assms(2) obtain v where v: "settleVerified dep gid game v d = (Inr (out, ns), d')"
      by (auto simp: settleGame_def Let_def over_def elim!: act_bindE split: if_splits raw_result.splits prod.splits)
    obtain winner where dw: "detectWinner v = Some winner"
      using v assms(2) by (cases "detectWinner v") (auto simp: settleVerified_def over_def)
    from v [unfolded settleVerified_def dw option.case]
    obtain d1 where "(if vaultEmptied dep gid game then
             act_bind (finishGame (sd_now dep) gid CONFIRMED None d1) (\<lambda>_ d2. (Inr (AlreadySettled, []), d2))
           else
             act_bind (readPot dep gid game d1) (\<lambda>pot d2.
               settleMoney dep gid (vr_standings v) (st_player winner) (g_rakeBps game) pot d2)) = (Inr (out, ns), d')"
      by (rule act_bindE)
    then show ?thesis
      using settleMoney_over [OF _ assms(2)]
      by (auto simp: settled_row_def dest!: finishGame_Inr elim!: act_bindE split: if_splits)
  qed
qed

text \<open>What an attempt leaves, by what it answered.\<close>

lemma attempt_cases:
  assumes "attemptJob api ctx render j made (w, q) = (r, w', q')"
  obtains (returned) "isl r = False" and "processJob api ctx (jb_data j) (w, q) = (r, w', q')"
  | (failed) e w1 where "r = Inl e" and "processJob api ctx (jb_data j) (w, q) = (Inl e, w1, q')"
      and "w' = onFailed ctx render j (Suc made) e w1"
  using assms by (auto simp: attemptJob_def split: prod.splits sum.splits)

lemma processJob_books:
  assumes "fair_others (sx_settle ctx)" and "processJob api ctx data (w, q) = (r, w', q')"
  shows "books w w'"
proof -
  obtain x w1 where s: "runStage ctx (jd_stage data) data w = (x, w1)"
    by (cases "runStage ctx (jd_stage data) data w")
  have b: "books w w1" using runStage_books [OF assms(1), of w "jd_stage data" data] s by simp
  have c: "books w w2" if "refundAbandonedMatch now gid reason w1 = (y, w2)" for now gid reason y w2
    using books_trans [OF b refund_books, of now gid reason] that by simp
  from assms(2) s b c show ?thesis
    by (auto simp: processJob_def split: sum.splits prod.splits stage_result.splits option.splits)
qed

lemma onFailed_final:
  assumes wf: "db_wf (wd_db w)" and g: "given (jd_gameId (jb_data j)) = Some g"
    and money: "holdsMoney (jd_stage (jb_data j))" and final: "jb_attempts j \<le> made"
  shows "match_closed g (wd_db (onFailed ctx render j made e w)) \<or>
    (\<exists>reason e'. cancelGameAndRefund g reason (sd_now (sx_settle ctx)) (\<lambda>_. Inr ())
       (wd_db (onFailed ctx render j made e w)) = Inl e')"
proof -
  obtain reason where f: "onFailed ctx render j made e w =
      snd (refundAbandonedMatch (sd_now (sx_settle ctx)) (jd_gameId (jb_data j)) reason w)"
    using g money final by (simp add: onFailed_def isFinalAttempt_def)
  obtain x w2 where x: "refundAbandonedMatch (sd_now (sx_settle ctx)) (jd_gameId (jb_data j)) reason w = (x, w2)"
    by (cases "refundAbandonedMatch (sd_now (sx_settle ctx)) (jd_gameId (jb_data j)) reason w")
  show ?thesis
  proof (cases x)
    case (Inr u)
    with refund_closes [OF wf g x [unfolded Inr]] f x show ?thesis by simp
  next
    case (Inl e')
    with refund_fails [OF g x [unfolded Inl]] f x show ?thesis by auto
  qed
qed

lemma endMatch_closed:
  assumes "endMatch ctx data w = (Inr (Patch p), w')" and "given (jd_gameId data) = Some g"
  shows "match_closed g (wd_db w')"
proof -
  obtain x d where s: "settleGame (sx_settle ctx) g (wd_db w) = (x, d)" by (cases "settleGame (sx_settle ctx) g (wd_db w)")
  with assms obtain out ns where x: "x = Inr (out, ns)"
    by (cases x) (auto simp: endMatch_def settleNow_def on_db_def)
  with assms s have "(case out of Settled _ _ _ _ \<Rightarrow> True | AlreadySettled \<Rightarrow> True | _ \<Rightarrow> False) \<and> wd_db w' = d"
    by (cases out) (auto simp: endMatch_def settleNow_def on_db_def)
  then have w': "wd_db w' = d" "over out" by (auto simp: over_def split: settle_outcome.splits)
  note s = s [unfolded x]
  from settleGame_over [OF s w'(2)] w'(1) show ?thesis by (auto simp: match_closed_def settled_row_def)
qed


end
