(* ===== verification/Cycle_Loops.thy ===== *)
theory Cycle_Loops
  imports Cycle_Properties
begin

text \<open>
  The two timers beside the queue: settling finished matches early
  (\<open>apps/worker/src/cycle/settle-finished.ts\<close>) and opening rooms for tiers somebody waits in
  (\<open>ensure-rooms.ts\<close>). What either throws inside its own \<open>try\<close> is logged and the loop goes on. The set of
  finished games in Redis is a list of ids.
\<close>

section \<open>Settling finished matches\<close>

definition SETTLE_QUEUE :: string where
  "SETTLE_QUEUE = ''settle:pending''"

text \<open>A game leaves the queue when it is settled, or when the same report would be refused again.\<close>

definition leaves_queue :: "settle_outcome \<Rightarrow> bool" where
  "leaves_queue out = (case out of Settled _ _ _ _ \<Rightarrow> True | AlreadySettled \<Rightarrow> True | Rejected _ \<Rightarrow> True | NoResult _ \<Rightarrow> False)"

fun settleQueued :: "settle_deps \<Rightarrow> string list \<Rightarrow> 'st world \<times> string list \<Rightarrow> 'st world \<times> string list" where
  "settleQueued dep [] s = s"
| "settleQueued dep (g # gs) (w, queue) =
    (case settleNow dep g w of
       (Inl _, w1) \<Rightarrow> settleQueued dep gs (w1, queue)
     | (Inr out, w1) \<Rightarrow> settleQueued dep gs (w1, if leaves_queue out then removeAll g queue else queue))"

definition startedAtOf :: "'st world \<Rightarrow> string \<Rightarrow> int" where
  "startedAtOf w gid = (case find (\<lambda>i. gi_game i = gid) (wd_info w) of None \<Rightarrow> 0 | Some i \<Rightarrow> gi_startedAt i)"

definition unfinishedGames :: "'st world \<Rightarrow> string list" where
  "unfinishedGames w =
    take 20 (map g_id (sort_key (\<lambda>g. - startedAtOf w (g_id g))
      (filter (\<lambda>g. (g_status g = RUNNING \<or> g_status g = PENDING) \<and>
         (g_settlementStatus g = SETTLE_PENDING \<or> g_settlementStatus g = NOT_REQUIRED)) (games (wd_db w)))))"

fun settleReported :: "settle_deps \<Rightarrow> string list \<Rightarrow> 'st world \<Rightarrow> 'st world" where
  "settleReported dep [] w = w"
| "settleReported dep (g # gs) w =
    settleReported dep gs (if sd_result dep (resultKey g) = Absent then w else snd (settleNow dep g w))"

definition settleFinished :: "settle_deps \<Rightarrow> 'st world \<times> string list \<Rightarrow> 'st world \<times> string list" where
  "settleFinished dep s =
    (case settleQueued dep (snd s) s of (w1, queue) \<Rightarrow>
      (settleReported dep (unfinishedGames w1) w1, queue))"

section \<open>Opening rooms\<close>

definition ensure_node :: "string \<Rightarrow> int \<Rightarrow> string" where
  "ensure_node tid now = ''ensure:'' @ tid @ '':'' @ show_int now"

definition bindGame :: "'st stage_ctx \<Rightarrow> room_tier \<Rightarrow> 'st world \<Rightarrow> ('st, string) staged" where
  "bindGame ctx tier w =
    io_bind (case roomByCode (t_id tier) w of
               Some room \<Rightarrow> (Inr room, w)
             | None \<Rightarrow> createRoomRow tier ''WAGER'' w)
      (\<lambda>room w1. createGameRow room (ensure_node (t_id tier) (sd_now (sx_settle ctx))) (seedOf (sx_random ctx))
         (sd_now (sx_settle ctx)) w1)"

text \<open>Bind a game to a queue that has none; \<open>None\<close> when that failed.\<close>

definition boundGame :: "'st stage_ctx \<Rightarrow> room_tier \<Rightarrow> string option \<Rightarrow> 'st world \<Rightarrow> string option \<times> 'st world" where
  "boundGame ctx tier current w =
    (case given current of
       Some g \<Rightarrow> (Some g, w)
     | None \<Rightarrow>
         (case bindGame ctx tier w of
            (Inl _, w1) \<Rightarrow> (None, w1)
          | (Inr g, w1) \<Rightarrow>
              if g = [] then (None, w1)
              else (case open_lobby (sx_lobby ctx) (t_id tier) (Some g) False (wd_lobbies w1) of
                      (Inl _, st, _) \<Rightarrow> (None, w1\<lparr>wd_lobbies := st\<rparr>)
                    | (Inr _, st, _) \<Rightarrow> (Some g, w1\<lparr>wd_lobbies := st\<rparr>))))"

definition openOnChain :: "'st stage_ctx \<Rightarrow> room_tier \<Rightarrow> string \<Rightarrow> 'st world \<Rightarrow> 'st world" where
  "openOnChain ctx tier gid w =
    (case sx_getBalance ctx gid of
       Inl _ \<Rightarrow> w
     | Inr balance \<Rightarrow>
         if 0 < balance then w
         else called (CreateRoomCall gid (entryFeeLamports tier)
                (case maxPlayers tier of None \<Rightarrow> ON_CHAIN_UNLIMITED_PLAYERS | Some n \<Rightarrow> n)) w)"

text \<open>The room id is derived outside the \<open>try\<close>: an id that is no UUID ends the pass.\<close>

fun ensureTiers :: "'st stage_ctx \<Rightarrow> room_tier list \<Rightarrow> 'st world \<Rightarrow> ('st, unit) staged" where
  "ensureTiers ctx [] w = (Inr (), w)"
| "ensureTiers ctx (tier # tiers) w =
    (if entryFeeLamports tier = 0 then ensureTiers ctx tiers w
     else
       (case get_lobby (sx_lobby ctx) (t_id tier) (wd_lobbies w) of
          None \<Rightarrow> ensureTiers ctx tiers w
        | Some lobby \<Rightarrow>
            if ls_playerCount lobby = 0 then ensureTiers ctx tiers w
            else
              (case boundGame ctx tier (ls_gameId lobby) w of
                 (None, w1) \<Rightarrow> ensureTiers ctx tiers w1
               | (Some gid, w1) \<Rightarrow>
                   (case roomIdFromUuid gid of
                      Inl e \<Rightarrow> (Inl e, w1)
                    | Inr _ \<Rightarrow> ensureTiers ctx tiers (openOnChain ctx tier gid w1)))))"

definition ensureRooms :: "'st stage_ctx \<Rightarrow> 'st world \<Rightarrow> ('st, unit) staged" where
  "ensureRooms ctx w =
    (if \<not> sd_canSign (sx_settle ctx) then (Inr (), w) else ensureTiers ctx ROOM_TIERS w)"

section \<open>The books\<close>

lemma settleQueued_books:
  assumes "fair_others dep"
  shows "books w (fst (settleQueued dep gs (w, queue)))"
proof (induction gs arbitrary: w queue)
  case (Cons g gs)
  obtain r w1 where s: "settleNow dep g w = (r, w1)" by (cases "settleNow dep g w")
  with settleNow_books [OF assms, of w g] have "books w w1" by simp
  with s Cons show ?case by (cases r) (auto intro: books_trans)
qed simp

lemma settleReported_books:
  assumes "fair_others dep"
  shows "books w (settleReported dep gs w)"
proof (induction gs arbitrary: w)
  case (Cons g gs)
  show ?case using Cons settleNow_books [OF assms, of w g] by (auto intro: books_trans)
qed simp

lemma createRoomRow_books: "books w (snd (createRoomRow tier mode w))"
  by (auto simp: books_def createRoomRow_def randomUUID_def Let_def conserves_drawn_games)

lemma createGameRow_books: "books w (snd (createGameRow room n sd st w))"
  by (auto simp: books_def createGameRow_def randomUUID_def conserves_drawn_games)

lemma bindGame_books: "books w (snd (bindGame ctx tier w))"
  unfolding bindGame_def
  by (rule books_bind [OF _ createGameRow_books]) (auto simp: createRoomRow_books split: option.split)

lemma boundGame_books: "books w (snd (boundGame ctx tier current w))"
proof -
  obtain r w1 where b: "bindGame ctx tier w = (r, w1)" by (cases "bindGame ctx tier w")
  with bindGame_books [of w ctx tier] have "books w w1" by simp
  with b show ?thesis
    by (cases r) (auto simp: boundGame_def split: option.split prod.split sum.split)
qed

lemma ensureTiers_books: "books w (snd (ensureTiers ctx tiers w))"
proof (induction tiers arbitrary: w)
  case (Cons tier tiers)
  have bound: "books w w1" if "boundGame ctx tier c w = (x, w1)" for c x w1
    using boundGame_books [of w ctx tier c] that by simp
  have opened: "books w (openOnChain ctx tier g w1)" if "boundGame ctx tier c w = (x, w1)" for c x g w1
    using bound [OF that] by (auto simp: openOnChain_def called_def split: sum.split)
  show ?case
    by (auto split: option.split prod.split sum.split
        intro: Cons books_trans [OF bound Cons] books_trans [OF opened Cons] bound)
qed simp

lemma attemptJob_books:
  assumes "fair_others (sx_settle ctx)" and run: "attemptJob api ctx render j made (w, q) = (r, w', q')"
  shows "books w w'"
  using run
proof (cases rule: attempt_cases)
  case returned
  from processJob_books [OF assms(1) returned(2)] show ?thesis .
next
  case (failed e w1)
  have "books w1 w'" using refund_books by (auto simp: failed(3) onFailed_def)
  with processJob_books [OF assms(1) failed(2)] show ?thesis by (rule books_trans)
qed

text \<open>
  C40: nothing the worker does unbalances the books: an attempt of any stage with the refund a failure
  brings, a pass over finished matches and a pass over waiting rooms leave the sum of all balances and
  the sum of the ledger as they were and only append to the ledger, as long as those who write meanwhile
  do the same.
\<close>
theorem worker_keeps_books:
  assumes wf: "db_wf (wd_db w)" and fair: "fair_others (sx_settle ctx)"
  shows "conserves (wd_db w) (wd_db (fst (snd (attemptJob api ctx render j made (w, q))))) \<and>
    conserves (wd_db w) (wd_db (fst (settleFinished (sx_settle ctx) (w, queue)))) \<and>
    conserves (wd_db w) (wd_db (snd (ensureRooms ctx w)))"
proof (intro conjI)
  obtain r w' q' where a: "attemptJob api ctx render j made (w, q) = (r, w', q')"
    by (cases "attemptJob api ctx render j made (w, q)") auto
  from attemptJob_books [OF fair a] a wf
  show "conserves (wd_db w) (wd_db (fst (snd (attemptJob api ctx render j made (w, q)))))"
    by (simp add: books_def)
  obtain w1 queue1 where s: "settleQueued (sx_settle ctx) queue (w, queue) = (w1, queue1)"
    by (cases "settleQueued (sx_settle ctx) queue (w, queue)")
  have "books w w1" using settleQueued_books [OF fair, of w queue queue] by (simp add: s)
  from books_trans [OF this settleReported_books [OF fair]]
  have "books w (fst (settleFinished (sx_settle ctx) (w, queue)))" by (simp add: settleFinished_def s)
  then show "conserves (wd_db w) (wd_db (fst (settleFinished (sx_settle ctx) (w, queue))))"
    using wf by (simp add: books_def)
  have "books w (snd (ensureRooms ctx w))" by (simp add: ensureRooms_def ensureTiers_books)
  then show "conserves (wd_db w) (wd_db (snd (ensureRooms ctx w)))" using wf by (simp add: books_def)
qed

section \<open>One cycle per tier and window\<close>

lemma fold_known:
  assumes "dedupes api" and "\<forall>t \<in> set ts. jb_id (f t) \<in> jb_id ` set (q_jobs api q)"
  shows "q_jobs api (fold (\<lambda>t. q_add api (f t)) ts q) = q_jobs api q"
  using assms(2)
proof (induction ts arbitrary: q)
  case (Cons t ts)
  have "q_jobs api (q_add api (f t) q) = q_jobs api q"
    using assms(1) Cons.prems by (simp add: dedupes_def)
  then show ?case using Cons by simp
qed simp

lemma fold_fresh:
  assumes "dedupes api" and "distinct (map (\<lambda>t. jb_id (f t)) ts)"
    and "\<forall>t \<in> set ts. jb_id (f t) \<notin> jb_id ` set (q_jobs api q)"
  shows "q_jobs api (fold (\<lambda>t. q_add api (f t)) ts q) = q_jobs api q @ map f ts"
  using assms(2,3)
proof (induction ts arbitrary: q)
  case (Cons t ts)
  have a: "q_jobs api (q_add api (f t) q) = q_jobs api q @ [f t]"
    using assms(1) Cons.prems by (simp add: dedupes_def)
  have "jb_id (f t) \<notin> (\<lambda>t. jb_id (f t)) ` set ts" using Cons.prems(1) by simp
  then have "\<forall>u \<in> set ts. jb_id (f u) \<notin> jb_id ` set (q_jobs api (q_add api (f t) q))"
    using Cons.prems(2) by (auto simp: a) (metis image_eqI)
  then show ?case using Cons a by simp
qed simp

definition opening_job :: "int \<Rightarrow> string \<Rightarrow> job" where
  "opening_job now tid = stage_job (first_data tid now) now"

lemma opening_job_id: "jb_id (opening_job now tid) = stageJobId (cycleId tid (currentWindowStart now)) CreateGame"
  by (simp add: opening_job_def stage_job_def first_data_def)

lemma tick_jobs:
  "q_jobs api (snd (handleSchedulerTick api now q)) = q_jobs api (fold (\<lambda>tid. q_add api (opening_job now tid)) TIER_IDS q)"
  by (simp add: handleSchedulerTick_def tickCycles_eq opening_job_def)

lemma window_ids: "distinct (map (\<lambda>tid. stageJobId (cycleId tid (currentWindowStart now)) CreateGame) TIER_IDS)"
  using distinct_TIER_IDS by (auto simp: distinct_map stageJobId_inj cycleId_inj intro!: inj_onI)

text \<open>
  a window is opened once: the first tick in a ten-minute window queues one job for each tier, all
  with ids of their own, and any further tick in that window, from whichever scheduler, queues nothing.
\<close>
theorem window_opens_once:
  assumes api: "dedupes api"
    and fresh: "\<forall>tid \<in> set TIER_IDS. stageJobId (cycleId tid (currentWindowStart now)) CreateGame \<notin> jb_id ` set (q_jobs api q)"
    and same: "currentWindowStart now' = currentWindowStart now"
  shows "map jb_id (q_jobs api (snd (handleSchedulerTick api now q))) =
       map jb_id (q_jobs api q) @ map (\<lambda>tid. stageJobId (cycleId tid (currentWindowStart now)) CreateGame) TIER_IDS \<and>
     distinct (map (\<lambda>tid. stageJobId (cycleId tid (currentWindowStart now)) CreateGame) TIER_IDS) \<and>
     q_jobs api (snd (handleSchedulerTick api now' (snd (handleSchedulerTick api now q)))) =
       q_jobs api (snd (handleSchedulerTick api now q))"
proof -
  note d = window_ids [of now]
  have one: "q_jobs api (snd (handleSchedulerTick api now q)) = q_jobs api q @ map (opening_job now) TIER_IDS"
    unfolding tick_jobs by (rule fold_fresh [OF api]) (use d fresh in \<open>simp_all add: opening_job_id\<close>)
  have "q_jobs api (snd (handleSchedulerTick api now' (snd (handleSchedulerTick api now q)))) =
       q_jobs api (snd (handleSchedulerTick api now q))"
    unfolding tick_jobs [of _ now'] by (rule fold_known [OF api]) (auto simp: one opening_job_id same image_Un image_image)
  with d one show ?thesis by (simp add: opening_job_id)
qed

section \<open>Witnesses\<close>

text \<open>A queue that is a list, a worker with an empty store of lobbies, and one game that was played.\<close>

definition list_queue :: "job list queue_api" where
  "list_queue = \<lparr> q_add = (\<lambda>j q. if list_ex (\<lambda>k. jb_id k = jb_id j) q then q else q @ [j]), q_jobs = (\<lambda>q. q) \<rparr>"

lemma list_queue_dedupes: "dedupes list_queue"
  by (auto simp: dedupes_def list_queue_def list_ex_iff) (metis image_eqI)

definition sample_ctx :: "mem_store stage_ctx" where
  "sample_ctx = \<lparr> sx_lobby = \<lparr> store = mem_ops, launch = (\<lambda>_. Inl []), clock = (\<lambda>_. 0), clockEnd = 0, env = (\<lambda>_ st. st) \<rparr>,
     sx_settle = sample_deps id, sx_vaultAddress = (\<lambda>g. g), sx_getBalance = (\<lambda>_. Inr 0),
     sx_createRoom = (\<lambda>_ _ _. Inr ()), sx_publish = (\<lambda>_. Inr ()), sx_random = 1 / 2 \<rparr>"

definition sample_world :: "mem_store world" where
  "sample_world = \<lparr> wd_db = played_db, wd_rooms = [], wd_info = [], wd_paid = (\<lambda>_ _. (0, 0)), wd_history = [],
     wd_lobbies = mem_empty, wd_published = [], wd_notified = [], wd_calls = [] \<rparr>"

definition ending_job :: job where
  "ending_job = stage_job \<lparr> jd_cycleId = ''bronze:0'', jd_tierId = ''bronze'', jd_stage = EndMatch, jd_startedAt = 0,
     jd_gameId = Some ''g1'', jd_roomId = None, jd_nodeId = None, jd_realtimeUrl = None \<rparr> 0"

lemma sample_fair: "fair_others (sx_settle sample_ctx)"
  by (simp add: sample_ctx_def fair_others_def sample_deps_sel)


theorem worker_keeps_books_witness:
  "conserves played_db (wd_db (fst (snd (attemptJob list_queue sample_ctx (\<lambda>_. []) ending_job 0 (sample_world, [])))))"
proof -
  have "db_wf (wd_db sample_world)" "wd_db sample_world = played_db"
    using played_db_books(1) by (simp_all add: sample_world_def)
  with worker_keeps_books [OF _ sample_fair, of sample_world list_queue "\<lambda>_. []" ending_job 0 "[]" "[]"] show ?thesis
    by simp
qed

theorem window_opens_once_witness:
  "q_jobs list_queue (snd (handleSchedulerTick list_queue 7 (snd (handleSchedulerTick list_queue 5 [])))) =
     q_jobs list_queue (snd (handleSchedulerTick list_queue 5 []))"
  using window_opens_once [OF list_queue_dedupes, of 5 "[]" 7]
  by (simp add: list_queue_def currentWindowStart_def CYCLE_DURATION_MS_def)

definition ticked :: "(mem_store, job list) cycle_sys" where
  "ticked = \<lparr> cs_world = sample_world\<lparr>wd_db := played_db\<lparr>games := []\<rparr>\<rparr>,
     cs_queue = snd (handleSchedulerTick list_queue 5 []), cs_made = (\<lambda>_. 0), cs_done = [], cs_games = [] \<rparr>"

lemma ticked_reach: "cycle_reach list_queue (\<lambda>_. []) ticked"
proof -
  have "cycle_reach list_queue (\<lambda>_. []) (ticked\<lparr>cs_queue := []\<rparr>)"
    by (rule cycle_reach.boot) (simp_all add: list_queue_def ticked_def)
  from cycle_reach.scheduled [OF this, of 5] show ?thesis by (simp add: ticked_def)
qed

lemma tick_list: "snd (handleSchedulerTick list_queue 5 []) = map (opening_job 5) TIER_IDS"
  using fold_fresh [OF list_queue_dedupes, of "opening_job 5" TIER_IDS "[]"] tick_jobs [of list_queue 5 "[]"]
    window_ids [of 5]
  by (simp add: list_queue_def opening_job_id)

text \<open>The first attempt of the opening job of the bronze tier creates the game and queues the next stage.\<close>

lemma opening_runs:
  "\<exists>w p. runStage sample_ctx CreateGame (first_data ''bronze'' 5) (cs_world ticked) = (Inr (Patch p), w)"
proof -
  have t: "requireTier ''bronze'' = Inr (the (getTier ''bronze''))"
    by (simp add: requireTier_def getTier_def BY_ID_def ROOM_TIERS_def)
  show ?thesis
    by (simp add: runStage_def createGame_def first_data_def t modeForTier_def roomByCode_def createRoomRow_def
        randomUUID_def findCycleGame_def createGameRow_def gameById_def ticked_def sample_world_def Let_def
        BY_ID_def ROOM_TIERS_def getTier_def)
qed

theorem cycle_follows_plan_witness:
  "\<exists>(cs :: (mem_store, job list) cycle_sys) j. cycle_reach list_queue (\<lambda>_. []) cs \<and> j \<in> set (q_jobs list_queue (cs_queue cs)) \<and>
     jd_stage (jb_data j) = CreatePool \<and> (jd_cycleId (jb_data j), CreateGame) \<in> set (cs_done cs)"
proof -
  let ?j = "opening_job 5 ''bronze''"
  have jd: "jb_data ?j = first_data ''bronze'' 5" by (simp add: opening_job_def stage_job_def)
  have j: "?j \<in> set (q_jobs list_queue (cs_queue ticked))"
    by (simp add: ticked_def tick_list) (simp add: list_queue_def TIER_IDS_eq)
  obtain w p where st: "runStage sample_ctx CreateGame (first_data ''bronze'' 5) (cs_world ticked) = (Inr (Patch p), w)"
    using opening_runs by blast
  let ?next = "stage_job (patched (first_data ''bronze'' 5) p CreatePool) (sd_now (sx_settle sample_ctx))"
  let ?q = "q_add list_queue ?next (cs_queue ticked)"
  have a: "attemptJob list_queue sample_ctx (\<lambda>_. []) ?j (cs_made ticked (jb_id ?j)) (cs_world ticked, cs_queue ticked) =
      (Inr (StageOk (Some CreatePool)), w, ?q)"
    using st by (simp add: attemptJob_def processJob_def jd) (simp add: first_data_def)
  note reach = cycle_reach.attempted [OF ticked_reach j a]
  have "jd_stage (jb_data ?next) = CreatePool \<and> jb_id ?next \<notin> jb_id ` set (map (opening_job 5) TIER_IDS)"
    by (auto simp: stage_job_def patched_def opening_job_id stageJobId_inj)
  then have next_in: "?next \<in> set (q_jobs list_queue ?q)" "jd_stage (jb_data ?next) = CreatePool"
    using list_queue_dedupes tick_list by (simp_all add: dedupes_def ticked_def) (simp add: list_queue_def)
  let ?cs = "ticked\<lparr>cs_world := w, cs_queue := ?q, cs_made := (cs_made ticked)(jb_id ?j := cs_made ticked (jb_id ?j) +
      (if isl (Inr (StageOk (Some CreatePool)) :: (cycle_error, job_outcome) res) then 1 else 0)),
      cs_done := cs_done ticked @ ran ?j (Inr (StageOk (Some CreatePool))),
      cs_games := cs_games ticked @ heldGames w\<rparr>"
  have here: "?next \<in> set (q_jobs list_queue (cs_queue ?cs))" using next_in(1) by simp
  have "CreateGame \<in> set (takeWhile (\<lambda>x. x \<noteq> jd_stage (jb_data ?next)) CYCLE_STAGES)"
    by (simp add: next_in(2) CYCLE_STAGES_def)
  with conjunct1 [OF cycle_follows_plan [OF list_queue_dedupes reach here]]
  have "(jd_cycleId (jb_data ?next), CreateGame) \<in> set (cs_done ?cs)" by blast
  with reach here next_in(2) show ?thesis by blast
qed

end
