(* ===== verification/Bytes.thy ===== *)
theory Bytes
  imports Numbers "HOL-Library.Word"
begin

text \<open>
  Bytes and buffers, shared by the codecs: little-endian integers, what \<open>DataView\<close> and \<open>Uint8Array\<close> do
  with a buffer, and the loops that write a list of items behind one another or read them back. The
  locale \<open>wire_item\<close> is the contract of one item: its writer lays its bytes at the cursor, its reader
  finds them there. Inside it the loops are proved once, for every kind of item.
\<close>

section \<open>Little-endian integers\<close>

type_synonym byte = "8 word"
type_synonym buffer = "byte list"

fun le_bytes :: "nat \<Rightarrow> int \<Rightarrow> byte list" where
  "le_bytes 0 n = []"
| "le_bytes (Suc k) n = word_of_int n # le_bytes k (n div 256)"

fun le_value :: "byte list \<Rightarrow> int" where
  "le_value [] = 0"
| "le_value (b # bs) = uint b + 256 * le_value bs"

lemma length_le_bytes [simp]: "length (le_bytes k n) = k"
  by (induction k arbitrary: n) auto

lemma uint_byte: "uint (word_of_int n :: byte) = n mod 256"
  by (simp add: uint_word_of_int)

lemma uint_byte_bounds: "0 \<le> uint (b :: byte)" "uint (b :: byte) < 256"
  using uint_lt2p [of b] by simp_all

lemma le_value_bytes: "le_value (le_bytes k n) = n mod 256 ^ k"
proof (induction k arbitrary: n)
  case (Suc k)
  have "n mod (256 * 256 ^ k) = 256 * (n div 256 mod 256 ^ k) + n mod 256"
    by (rule zmod_zmult2_eq) simp
  with Suc show ?case by (simp add: uint_byte)
qed simp

lemma le_value_bounds: "0 \<le> le_value bs" "le_value bs < 256 ^ length bs"
proof -
  have "0 \<le> le_value bs \<and> le_value bs < 256 ^ length bs"
  proof (induction bs)
    case (Cons b bs)
    with uint_byte_bounds [of b] show ?case by (auto simp: algebra_simps)
  qed simp
  then show "0 \<le> le_value bs" "le_value bs < 256 ^ length bs" by auto
qed

lemma le_bytes_inj:
  assumes "0 \<le> m" "m < 256 ^ k" "0 \<le> n" "n < 256 ^ k" "le_bytes k m = le_bytes k n"
  shows "m = n"
  using arg_cong [OF assms(5), of le_value] assms(1-4) by (simp add: le_value_bytes)

text \<open>Two's complement: what a signed read makes of a value.\<close>

definition as_signed :: "nat \<Rightarrow> int \<Rightarrow> int" where
  "as_signed k n = (if 2 * n < 256 ^ k then n else n - 256 ^ k)"

lemma as_signed_mod: "- (256 ^ k) \<le> 2 * n \<Longrightarrow> 2 * n < 256 ^ k \<Longrightarrow> as_signed k (n mod 256 ^ k) = n"
proof -
  assume b: "- (256 ^ k) \<le> 2 * n" "2 * n < 256 ^ k"
  show ?thesis
  proof (cases "0 \<le> n")
    case False
    have "n mod 256 ^ k = (n + 256 ^ k) mod 256 ^ k" by simp
    also have "\<dots> = n + 256 ^ k" using b False by (intro mod_pos_pos_trivial) auto
    finally show ?thesis using b False by (simp add: as_signed_def)
  qed (use b in \<open>simp add: as_signed_def\<close>)
qed

section \<open>Buffers\<close>

text \<open>\<open>OutOfBounds\<close> is the \<open>RangeError\<close> of an access outside the buffer; \<open>Refused\<close> one the code raises.\<close>

datatype codec_error = OutOfBounds | Refused string

definition patch :: "nat \<Rightarrow> byte list \<Rightarrow> buffer \<Rightarrow> buffer" where
  "patch off bs buf = take off buf @ bs @ drop (off + length bs) buf"

definition put_bytes :: "nat \<Rightarrow> byte list \<Rightarrow> buffer \<Rightarrow> (codec_error, buffer) res" where
  "put_bytes off bs buf = (if off + length bs \<le> length buf then Inr (patch off bs buf) else Inl OutOfBounds)"

definition get_bytes :: "nat \<Rightarrow> nat \<Rightarrow> buffer \<Rightarrow> (codec_error, byte list) res" where
  "get_bytes k off buf = (if off + k \<le> length buf then Inr (take k (drop off buf)) else Inl OutOfBounds)"

definition setUint :: "nat \<Rightarrow> nat \<Rightarrow> int \<Rightarrow> buffer \<Rightarrow> (codec_error, buffer) res" where
  "setUint k off n buf = put_bytes off (le_bytes k n) buf"

definition getUint :: "nat \<Rightarrow> nat \<Rightarrow> buffer \<Rightarrow> (codec_error, int) res" where
  "getUint k off buf = rbind (get_bytes k off buf) (\<lambda>bs. Inr (le_value bs))"

definition getInt :: "nat \<Rightarrow> nat \<Rightarrow> buffer \<Rightarrow> (codec_error, int) res" where
  "getInt k off buf = rbind (getUint k off buf) (\<lambda>n. Inr (as_signed k n))"

text \<open>An assignment to an element of a \<open>Uint8Array\<close> outside it is dropped, a read outside gives nothing.\<close>

definition store_byte :: "nat \<Rightarrow> int \<Rightarrow> buffer \<Rightarrow> buffer" where
  "store_byte i n buf = buf[i := word_of_int n]"

definition byte_at :: "nat \<Rightarrow> buffer \<Rightarrow> byte option" where
  "byte_at i buf = (if i < length buf then Some (buf ! i) else None)"

lemma length_patch [simp]: "off + length bs \<le> length buf \<Longrightarrow> length (patch off bs buf) = length buf"
  by (simp add: patch_def)

lemma patch_Nil [simp]: "patch off [] buf = buf"
  by (simp add: patch_def)

lemma patch_patch:
  assumes "off + length bs + length cs \<le> length buf"
  shows "patch (off + length bs) cs (patch off bs buf) = patch off (bs @ cs) buf"
proof -
  have l: "length (take off buf) = off" using assms by simp
  have "take (off + length bs) (patch off bs buf) = take off buf @ bs"
    using l by (simp add: patch_def)
  moreover have "drop (off + length bs + length cs) (patch off bs buf) = drop (off + length bs + length cs) buf"
    using l by (simp add: patch_def add.assoc) (simp add: add.commute add.left_commute)
  ultimately show ?thesis by (simp add: patch_def add.assoc)
qed

lemma patch_patch' [simp]:
  "off' = off + length bs \<Longrightarrow> off' + length cs \<le> length buf \<Longrightarrow>
    patch off' cs (patch off bs buf) = patch off (bs @ cs) buf"
  using patch_patch by blast

lemma take_patch: "off + length bs \<le> length buf \<Longrightarrow> take (off + length bs) (patch off bs buf) = take off buf @ bs"
  by (simp add: patch_def)

lemma put_fits [simp]: "off + length bs \<le> length buf \<Longrightarrow> put_bytes off bs buf = Inr (patch off bs buf)"
  by (simp add: put_bytes_def)

lemma setUint_fits [simp]: "off + k \<le> length buf \<Longrightarrow> setUint k off n buf = Inr (patch off (le_bytes k n) buf)"
  by (simp add: setUint_def)

lemma get_bytes_at:
  assumes "off = length pre" and "length bs = k"
  shows "get_bytes k off (pre @ bs @ post) = Inr bs"
  using assms by (simp add: get_bytes_def)

lemma getUint_at:
  assumes "off = length pre"
  shows "getUint k off (pre @ le_bytes k n @ post) = Inr (n mod 256 ^ k)"
  using get_bytes_at [OF assms, of "le_bytes k n" k post] by (simp add: getUint_def le_value_bytes)

lemma getInt_at:
  assumes "off = length pre" and "- (256 ^ k) \<le> 2 * n" and "2 * n < 256 ^ k"
  shows "getInt k off (pre @ le_bytes k n @ post) = Inr n"
  using getUint_at [OF assms(1)] as_signed_mod [OF assms(2,3)] by (simp add: getInt_def)

section \<open>Items behind one another\<close>

text \<open>A cursor is the buffer with the place where the next field goes.\<close>

type_synonym cursor = "nat \<times> buffer"
type_synonym writer = "cursor \<Rightarrow> (codec_error, cursor) res"
type_synonym 'a reader = "buffer \<Rightarrow> nat \<Rightarrow> (codec_error, 'a \<times> nat) res"

definition writeUint :: "nat \<Rightarrow> int \<Rightarrow> writer" where
  "writeUint k n c = (case c of (off, buf) \<Rightarrow> rbind (setUint k off n buf) (\<lambda>buf. Inr (off + k, buf)))"

definition writeBytes :: "byte list \<Rightarrow> writer" where
  "writeBytes bs c = (case c of (off, buf) \<Rightarrow> rbind (put_bytes off bs buf) (\<lambda>buf. Inr (off + length bs, buf)))"

definition readUint :: "nat \<Rightarrow> int reader" where
  "readUint k buf off = rbind (getUint k off buf) (\<lambda>n. Inr (n, off + k))"

definition readInt :: "nat \<Rightarrow> int reader" where
  "readInt k buf off = rbind (getInt k off buf) (\<lambda>n. Inr (n, off + k))"

text \<open>A loop that writes each item where the one before it ended, and one that reads a number of them.\<close>

fun write_each :: "('a \<Rightarrow> writer) \<Rightarrow> 'a list \<Rightarrow> writer" where
  "write_each wr [] c = Inr c"
| "write_each wr (x # xs) c = rbind (wr x c) (write_each wr xs)"

fun read_each :: "'b reader \<Rightarrow> nat \<Rightarrow> 'b list reader" where
  "read_each rd 0 buf off = Inr ([], off)"
| "read_each rd (Suc n) buf off =
    rbind (rd buf off) (\<lambda>(y, off'). rbind (read_each rd n buf off') (\<lambda>(ys, end_off). Inr (y # ys, end_off)))"

text \<open>A writer lays given bytes at the cursor, when they fit; a reader makes a value of bytes wherever they stand.\<close>

definition emits :: "writer \<Rightarrow> byte list \<Rightarrow> bool" where
  "emits w bs \<longleftrightarrow> (\<forall>off buf. off + length bs \<le> length buf \<longrightarrow> w (off, buf) = Inr (off + length bs, patch off bs buf))"

definition yields :: "'a reader \<Rightarrow> byte list \<Rightarrow> 'a \<Rightarrow> bool" where
  "yields r bs v \<longleftrightarrow> (\<forall>pre post. r (pre @ bs @ post) (length pre) = Inr (v, length pre + length bs))"

named_theorems wire \<open>what the fields emit and yield\<close>

lemma emitsD: "emits w bs \<Longrightarrow> off + length bs \<le> length buf \<Longrightarrow> w (off, buf) = Inr (off + length bs, patch off bs buf)"
  by (simp add: emits_def)

lemma yieldsD: "yields r bs v \<Longrightarrow> off = length pre \<Longrightarrow> r (pre @ bs @ post) off = Inr (v, off + length bs)"
  by (simp add: yields_def)

lemma emits_seq:
  assumes "emits v bs" and "emits w cs"
  shows "emits (\<lambda>c. rbind (v c) w) (bs @ cs)"
  using assms by (auto simp: emits_def)

lemma yields_seq:
  assumes "yields r bs x" and "yields (s x) cs y"
  shows "yields (\<lambda>buf off. rbind (r buf off) (\<lambda>(x, off). s x buf off)) (bs @ cs) y"
  unfolding yields_def
proof (intro allI)
  fix pre post
  show "rbind (r (pre @ (bs @ cs) @ post) (length pre)) (\<lambda>(x, off). s x (pre @ (bs @ cs) @ post) off) =
      Inr (y, length pre + length (bs @ cs))"
    using yieldsD [OF assms(1) refl, of pre "cs @ post"] yieldsD [OF assms(2), of _ "pre @ bs" post] by simp
qed

lemma yields_done: "yields (\<lambda>buf off. Inr (v, off)) [] v"
  by (simp add: yields_def)

lemma emits_uint [wire]: "emits (writeUint k n) (le_bytes k n)"
  by (simp add: emits_def writeUint_def)

lemma emits_bytes [wire]: "emits (writeBytes bs) bs"
  by (simp add: emits_def writeBytes_def)

lemma yields_uint: "v = n mod 256 ^ k \<Longrightarrow> yields (readUint k) (le_bytes k n) v"
  by (simp add: yields_def readUint_def getUint_at)

lemma yields_int: "- (256 ^ k) \<le> 2 * n \<Longrightarrow> 2 * n < 256 ^ k \<Longrightarrow> yields (readInt k) (le_bytes k n) n"
  by (simp add: yields_def readInt_def getInt_at)

locale wire_item =
  fixes wr :: "'a \<Rightarrow> writer"
    and bytes :: "'a \<Rightarrow> byte list"
    and rd :: "'b reader"
    and received :: "'a \<Rightarrow> 'b"
    and ok :: "'a \<Rightarrow> bool"
  assumes writes: "emits (wr x) (bytes x)"
    and reads: "ok x \<Longrightarrow> yields rd (bytes x) (received x)"
begin

lemma writes_all: "emits (write_each wr xs) (concat (map bytes xs))"
proof (induction xs)
  case Nil
  then show ?case by (simp add: emits_def)
next
  case (Cons x xs)
  then show ?case using emits_seq [OF writes, of "write_each wr xs"] by simp
qed

lemma reads_all:
  assumes "list_all ok xs" and "n = length xs"
  shows "yields (read_each rd n) (concat (map bytes xs)) (map received xs)"
  unfolding assms(2) using assms(1)
proof (induction xs)
  case Nil
  then show ?case by (simp add: yields_def)
next
  case (Cons x xs)
  then have one: "yields rd (bytes x) (received x)"
    and rest: "yields (read_each rd (length xs)) (concat (map bytes xs)) (map received xs)"
    by (simp_all add: reads)
  show ?case
    unfolding yields_def
  proof (intro allI)
    fix pre post
    show "read_each rd (length (x # xs)) (pre @ concat (map bytes (x # xs)) @ post) (length pre) =
        Inr (map received (x # xs), length pre + length (concat (map bytes (x # xs))))"
      using yieldsD [OF one refl, of pre "concat (map bytes xs) @ post"] yieldsD [OF rest, of _ "pre @ bytes x" post]
      by simp
  qed
qed

end

text \<open>A number of four bytes is such an item.\<close>

interpretation u32: wire_item "writeUint 4" "le_bytes 4" "readUint 4" "\<lambda>n. n mod 2 ^ 32" "\<lambda>_. True"
  by unfold_locales (simp_all add: wire yields_uint)

end
