(* ===== verification/Utf8.thy ===== *)
theory Utf8
  imports Bytes
begin

text \<open>
  Text as JavaScript has it, a list of UTF-16 code units, and the platform's \<open>TextEncoder\<close> and
  \<open>TextDecoder\<close>: the encoder replaces a surrogate without its partner, the decoder is the state machine
  of the encoding standard, which replaces what is malformed and drops a byte order mark at the start.
\<close>

type_synonym js_string = "16 word list"

section \<open>Encoding\<close>

definition is_lead :: "nat \<Rightarrow> bool" where
  "is_lead u \<longleftrightarrow> 0xD800 \<le> u \<and> u < 0xDC00"

definition is_trail :: "nat \<Rightarrow> bool" where
  "is_trail u \<longleftrightarrow> 0xDC00 \<le> u \<and> u < 0xE000"

fun scalars_of :: "nat list \<Rightarrow> nat list" where
  "scalars_of [] = []"
| "scalars_of [u] = [if is_lead u \<or> is_trail u then 0xFFFD else u]"
| "scalars_of (u # v # us) =
    (if is_lead u \<and> is_trail v then (0x10000 + (u - 0xD800) * 0x400 + (v - 0xDC00)) # scalars_of us
     else (if is_lead u \<or> is_trail u then 0xFFFD else u) # scalars_of (v # us))"

definition utf8_code :: "nat \<Rightarrow> nat list" where
  "utf8_code cp =
    (if cp < 0x80 then [cp]
     else if cp < 0x800 then [0xC0 + cp div 64, 0x80 + cp mod 64]
     else if cp < 0x10000 then [0xE0 + cp div 4096, 0x80 + cp div 64 mod 64, 0x80 + cp mod 64]
     else [0xF0 + cp div 262144, 0x80 + cp div 4096 mod 64, 0x80 + cp div 64 mod 64, 0x80 + cp mod 64])"

definition encodeText :: "js_string \<Rightarrow> byte list" where
  "encodeText s = map of_nat (concat (map utf8_code (scalars_of (map unat s))))"

section \<open>Decoding\<close>

text \<open>\<open>utf8_scan needed lower upper cp bytes\<close>: the bytes still needed, the bounds of the next one, the code point so far.\<close>

function utf8_scan :: "nat \<Rightarrow> nat \<Rightarrow> nat \<Rightarrow> nat \<Rightarrow> nat list \<Rightarrow> nat list" where
  "utf8_scan needed lower upper cp [] = (if needed = 0 then [] else [0xFFFD])"
| "utf8_scan 0 lower upper cp (b # bs) =
    (if b < 0x80 then b # utf8_scan 0 0x80 0xBF 0 bs
     else if 0xC2 \<le> b \<and> b \<le> 0xDF then utf8_scan 1 0x80 0xBF (b - 0xC0) bs
     else if 0xE0 \<le> b \<and> b \<le> 0xEF then
       utf8_scan 2 (if b = 0xE0 then 0xA0 else 0x80) (if b = 0xED then 0x9F else 0xBF) (b - 0xE0) bs
     else if 0xF0 \<le> b \<and> b \<le> 0xF4 then
       utf8_scan 3 (if b = 0xF0 then 0x90 else 0x80) (if b = 0xF4 then 0x8F else 0xBF) (b - 0xF0) bs
     else 0xFFFD # utf8_scan 0 0x80 0xBF 0 bs)"
| "utf8_scan (Suc n) lower upper cp (b # bs) =
    (if lower \<le> b \<and> b \<le> upper then
       (if n = 0 then (cp * 64 + (b - 0x80)) # utf8_scan 0 0x80 0xBF 0 bs
        else utf8_scan n 0x80 0xBF (cp * 64 + (b - 0x80)) bs)
     else 0xFFFD # utf8_scan 0 0x80 0xBF 0 (b # bs))"
  by pat_completeness auto
termination
  by (relation "measure (\<lambda>(n, _, _, _, bs). 2 * length bs + (if n = 0 then 0 else 1))") auto

declare utf8_scan.simps [simp del]

definition utf16_units :: "nat \<Rightarrow> nat list" where
  "utf16_units cp =
    (if cp < 0x10000 then [cp]
     else [0xD800 + (cp - 0x10000) div 0x400, 0xDC00 + (cp - 0x10000) mod 0x400])"

definition drop_bom :: "nat list \<Rightarrow> nat list" where
  "drop_bom cps = (case cps of [] \<Rightarrow> [] | cp # rest \<Rightarrow> if cp = 0xFEFF then rest else cps)"

definition decodeText :: "byte list \<Rightarrow> js_string" where
  "decodeText bs = map of_nat (concat (map utf16_units (drop_bom (utf8_scan 0 0x80 0xBF 0 (map unat bs)))))"

section \<open>The two are inverse on well-formed text\<close>

fun paired :: "nat list \<Rightarrow> bool" where
  "paired [] = True"
| "paired [u] \<longleftrightarrow> \<not> is_lead u \<and> \<not> is_trail u"
| "paired (u # v # us) \<longleftrightarrow>
    (if is_lead u then is_trail v \<and> paired us else \<not> is_trail u \<and> paired (v # us))"

text \<open>Text that is sent unchanged: surrogates come in pairs and it does not begin with a byte order mark.\<close>

definition plain_text :: "js_string \<Rightarrow> bool" where
  "plain_text s \<longleftrightarrow> paired (map unat s) \<and> (s = [] \<or> unat (hd s) \<noteq> 0xFEFF)"

definition scalar :: "nat \<Rightarrow> bool" where
  "scalar cp \<longleftrightarrow> cp < 0x110000 \<and> \<not> is_lead cp \<and> \<not> is_trail cp"

text \<open>What a pair of surrogates stands for.\<close>

lemma pair_scalar:
  assumes "is_lead u" and "is_trail v"
  shows "scalar (0x10000 + (u - 0xD800) * 0x400 + (v - 0xDC00))"
    and "utf16_units (0x10000 + (u - 0xD800) * 0x400 + (v - 0xDC00)) = [u, v]"
proof -
  define h k where "h = u - 0xD800" and "k = v - 0xDC00"
  have hk: "u = 0xD800 + h" "v = 0xDC00 + k" "h < 1024" "k < 1024"
    using assms unfolding h_def k_def is_lead_def is_trail_def by linarith+
  have "scalar (0x10000 + h * 0x400 + k)"
    using hk by (simp add: scalar_def is_lead_def is_trail_def)
  then show "scalar (0x10000 + (u - 0xD800) * 0x400 + (v - 0xDC00))" by (simp add: h_def k_def)
  have "(h * 1024 + k) div 1024 = h" "(h * 1024 + k) mod 1024 = k" using hk by simp_all
  then have "utf16_units (0x10000 + h * 0x400 + k) = [u, v]"
    using hk by (simp add: utf16_units_def)
  then show "utf16_units (0x10000 + (u - 0xD800) * 0x400 + (v - 0xDC00)) = [u, v]" by (simp add: h_def k_def)
qed

lemma lone_scalar: "u < 0x10000 \<Longrightarrow> scalar (if is_lead u \<or> is_trail u then 0xFFFD else u)"
  by (simp add: scalar_def is_lead_def is_trail_def)

lemma scalars_of_scalar: "\<forall>u \<in> set us. u < 0x10000 \<Longrightarrow> \<forall>cp \<in> set (scalars_of us). scalar cp"
proof (induction us rule: scalars_of.induct)
  case (3 u v us)
  then show ?case using pair_scalar(1) [of u v] lone_scalar [of u] by simp
qed (use lone_scalar in simp_all)

text \<open>One continuation byte, and the lead bytes of each length.\<close>

lemma scan_next:
  assumes "l \<le> 0x80 + d" "0x80 + d \<le> u"
  shows "utf8_scan (Suc n) l u c ((0x80 + d) # bs) =
    (if n = 0 then (c * 64 + d) # utf8_scan 0 0x80 0xBF 0 bs else utf8_scan n 0x80 0xBF (c * 64 + d) bs)"
  by (subst utf8_scan.simps(3)) (simp only: assms simp_thms if_True add_diff_cancel_left')

lemma scan_lead:
  "2 \<le> a \<Longrightarrow> a < 32 \<Longrightarrow> utf8_scan 0 l u c ((0xC0 + a) # bs) = utf8_scan (Suc 0) 0x80 0xBF a bs"
  "a < 16 \<Longrightarrow> utf8_scan 0 l u c ((0xE0 + a) # bs) =
     utf8_scan (Suc (Suc 0)) (if a = 0 then 0xA0 else 0x80) (if a = 13 then 0x9F else 0xBF) a bs"
  "a < 5 \<Longrightarrow> utf8_scan 0 l u c ((0xF0 + a) # bs) =
     utf8_scan (Suc (Suc (Suc 0))) (if a = 0 then 0x90 else 0x80) (if a = 4 then 0x8F else 0xBF) a bs"
  by (simp_all add: utf8_scan.simps(2) numeral_2_eq_2 numeral_3_eq_3)

text \<open>Code points in base 64.\<close>

lemma base64_digits:
  fixes cp :: nat
  shows "cp = cp div 64 * 64 + cp mod 64" "cp div 64 = cp div 4096 * 64 + cp div 64 mod 64"
    "cp div 4096 = cp div 262144 * 64 + cp div 4096 mod 64"
proof -
  have q: "cp div 4096 = cp div 64 div 64" "cp div 262144 = cp div 4096 div 64"
    by (simp_all flip: div_mult2_eq)
  show "cp = cp div 64 * 64 + cp mod 64" "cp div 64 = cp div 4096 * 64 + cp div 64 mod 64"
    "cp div 4096 = cp div 262144 * 64 + cp div 4096 mod 64"
    unfolding q by (simp_all only: div_mult_mod_eq)
qed

lemma scan_code:
  assumes s: "scalar cp"
  shows "utf8_scan 0 l u c (utf8_code cp @ bs) = cp # utf8_scan 0 0x80 0xBF 0 bs"
proof -
  consider "cp < 0x80" | "0x80 \<le> cp \<and> cp < 0x800" | "0x800 \<le> cp \<and> cp < 0x10000" | "0x10000 \<le> cp"
    by linarith
  then show ?thesis
  proof cases
    case 1
    then show ?thesis by (simp add: utf8_code_def utf8_scan.simps)
  next
    case 2
    define a b where "a = cp div 64" and "b = cp mod 64"
    have cp: "cp = a * 64 + b" "b < 64" by (simp_all add: a_def b_def)
    with 2 have "2 \<le> a" "a < 32" by linarith+
    moreover have "utf8_code cp = [0xC0 + a, 0x80 + b]" using 2 by (simp add: utf8_code_def a_def b_def)
    ultimately show ?thesis using cp by (simp add: scan_lead scan_next)
  next
    case 3
    define a b d where "a = cp div 4096" and "b = cp div 64 mod 64" and "d = cp mod 64"
    have cp: "cp = (a * 64 + b) * 64 + d" "b < 64" "d < 64"
      using base64_digits [of cp] by (simp_all add: a_def b_def d_def)
    have f: "cp = a * 4096 + b * 64 + d" using cp(1) by simp
    have a: "a < 16" using 3 f by simp
    have lo: "(if a = 0 then 0xA0 else 0x80) \<le> 0x80 + b" using 3 f cp(2,3) by auto
    have hi: "0x80 + b \<le> (if a = 13 then 0x9F else 0xBF)"
    proof (cases "a = 13")
      case True
      have "\<not> (0xD800 \<le> cp \<and> cp < 0xE000)"
        using s by (auto simp: scalar_def is_lead_def is_trail_def)
      then have "\<not> 0xD800 \<le> cp" using f cp(2,3) True by auto
      then show ?thesis using f True by auto
    qed (use cp(2) in simp)
    have "utf8_code cp = [0xE0 + a, 0x80 + b, 0x80 + d]"
      using 3 by (simp add: utf8_code_def a_def b_def d_def)
    then show ?thesis
      using a cp(2-) by (simp add: scan_lead scan_next [OF lo hi] scan_next f)
  next
    case 4
    define a b d e where "a = cp div 262144" and "b = cp div 4096 mod 64" and "d = cp div 64 mod 64" and "e = cp mod 64"
    have cp: "cp = ((a * 64 + b) * 64 + d) * 64 + e" "b < 64" "d < 64" "e < 64"
      using base64_digits [of cp] by (simp_all add: a_def b_def d_def e_def)
    have top: "cp < 0x110000" using s by (simp add: scalar_def)
    have f: "cp = a * 262144 + b * 4096 + d * 64 + e" using cp(1) by simp
    have a: "a < 5" using top f by simp
    have lo: "(if a = 0 then 0x90 else 0x80) \<le> 0x80 + b" using 4 f cp(2-4) by auto
    have hi: "0x80 + b \<le> (if a = 4 then 0x8F else 0xBF)" using top f cp(2-4) by auto
    have "utf8_code cp = [0xF0 + a, 0x80 + b, 0x80 + d, 0x80 + e]"
      using 4 by (simp add: utf8_code_def a_def b_def d_def e_def)
    then show ?thesis
      using a cp(2-) by (simp add: scan_lead scan_next [OF lo hi] scan_next f)
  qed
qed

lemma scan_codes:
  "\<forall>cp \<in> set cps. scalar cp \<Longrightarrow> utf8_scan 0 0x80 0xBF 0 (concat (map utf8_code cps)) = cps"
proof (induction cps)
  case Nil
  then show ?case by (simp add: utf8_scan.simps)
next
  case (Cons cp cps)
  then show ?case by (simp add: scan_code)
qed

lemma utf8_code_bytes: "scalar cp \<Longrightarrow> \<forall>b \<in> set (utf8_code cp). b < 256"
  by (auto simp: utf8_code_def scalar_def)

text \<open>A code unit takes at most three bytes; the two of a pair share four.\<close>

lemma length_utf8_code: "length (utf8_code cp) \<le> (if cp < 0x10000 then 3 else 4)"
  by (simp add: utf8_code_def)

lemma length_codes: "\<forall>u \<in> set us. u < 0x10000 \<Longrightarrow> length (concat (map utf8_code (scalars_of us))) \<le> 3 * length us"
proof (induction us rule: scalars_of.induct)
  case (2 u)
  then show ?case using length_utf8_code [of u] length_utf8_code [of "0xFFFD"] by simp
next
  case (3 u v us)
  show ?case
  proof (cases "is_lead u \<and> is_trail v")
    case True
    define c where "c = 0x10000 + (u - 0xD800) * 0x400 + (v - 0xDC00)"
    have "length (utf8_code c) \<le> 4" using length_utf8_code [of c] by (simp split: if_splits)
    with 3 True show ?thesis by (simp add: c_def)
  next
    case False
    define w where "w = (if is_lead u \<or> is_trail u then 0xFFFD else u)"
    have "w < 0x10000" using 3(3) by (simp add: w_def)
    then have "length (utf8_code w) \<le> 3" using length_utf8_code [of w] by simp
    moreover have "scalars_of (u # v # us) = w # scalars_of (v # us)"
      using False by (simp add: w_def)
    ultimately show ?thesis using 3(2) [OF False] 3(3) by (simp del: scalars_of.simps)
  qed
qed simp

lemma unat_16: "unat (u :: 16 word) < 0x10000"
  using unsigned_less [of u] by simp

lemma length_encodeText: "length (encodeText s) \<le> 3 * length s"
  using length_codes [of "map unat s"] by (simp add: encodeText_def unat_16)

lemma units_of_scalars: "paired us \<Longrightarrow> \<forall>u \<in> set us. u < 0x10000 \<Longrightarrow> concat (map utf16_units (scalars_of us)) = us"
proof (induction us rule: scalars_of.induct)
  case (2 u)
  then show ?case by (simp add: utf16_units_def)
next
  case (3 u v us)
  show ?case
  proof (cases "is_lead u")
    case True
    with 3 show ?thesis using pair_scalar(2) [of u v] by simp
  next
    case False
    with 3 show ?thesis by (auto simp: utf16_units_def)
  qed
qed simp

lemma no_bom: "\<forall>u \<in> set us. u < 0x10000 \<Longrightarrow> us = [] \<or> hd us \<noteq> 0xFEFF \<Longrightarrow> drop_bom (scalars_of us) = scalars_of us"
  by (cases us rule: scalars_of.cases) (auto simp: drop_bom_def is_lead_def is_trail_def)

theorem text_roundtrip: "plain_text s \<Longrightarrow> decodeText (encodeText s) = s"
proof -
  assume p: "plain_text s"
  let ?us = "map unat s"
  have u: "\<forall>u \<in> set ?us. u < 0x10000" by (simp add: unat_16)
  note sc = scalars_of_scalar [OF u]
  have "map unat (encodeText s) = concat (map utf8_code (scalars_of ?us))"
    using sc utf8_code_bytes by (fastforce simp: encodeText_def map_concat unat_of_nat
        intro!: arg_cong [where f = concat] map_idI mod_less)
  then have "decodeText (encodeText s) = map of_nat (concat (map utf16_units (drop_bom (scalars_of ?us))))"
    by (simp add: decodeText_def scan_codes [OF sc])
  also have "drop_bom (scalars_of ?us) = scalars_of ?us"
    using p u by (intro no_bom) (auto simp: plain_text_def hd_map)
  also have "concat (map utf16_units (scalars_of ?us)) = ?us"
    using p u by (intro units_of_scalars) (auto simp: plain_text_def)
  finally show ?thesis by (simp add: comp_def)
qed

end
