(* ===== verification/Binary_Codec.thy ===== *)
theory Binary_Codec
  imports Utf8
begin

unbundle bit_operations_syntax

text \<open>
  The binary protocol of \<open>packages/protocol/src/binary.ts\<close>: snapshots of the arena from the server to a
  viewer, batches of inputs back. Fields are written at a cursor that the code keeps as \<open>offset\<close>; the
  snapshot is written into a buffer sized by \<open>estimateSize\<close> and cut to what was written. Numbers are exact
  rationals, so the rounding of doubles is left out, and coordinates are finite, as the schemas demand.
\<close>

section \<open>What is sent\<close>

record vec =
  vx :: rat
  vy :: rat

record snake_view =
  sn_id :: string
  sn_nickname :: js_string
  sn_points :: "vec list"
  sn_angle :: rat
  sn_mass :: rat
  sn_radius :: rat
  sn_boosting :: bool
  sn_skinId :: "string option"
  sn_isBot :: bool

record food_view =
  fd_id :: int
  fd_position :: vec
  fd_mass :: rat
  fd_hue :: int

record snapshot =
  ss_tick :: int
  ss_serverTime :: int
  ss_ackSeq :: int
  ss_snakes :: "snake_view list"
  ss_food :: "food_view list"
  ss_removedSnakes :: "string list"
  ss_removedFood :: "int list"

record input_command =
  ic_seq :: int
  ic_angle :: rat
  ic_boost :: bool
  ic_dt :: rat

record input_batch =
  ib_commands :: "input_command list"
  ib_clientTime :: int

section \<open>Constants\<close>

definition SNAPSHOT_TYPE :: int where "SNAPSHOT_TYPE = 1"
definition INPUT_BATCH_TYPE :: int where "INPUT_BATCH_TYPE = 2"
definition HEADER_BYTES :: nat where "HEADER_BYTES = 22"
definition POSITION_SCALE :: rat where "POSITION_SCALE = 4"
definition UUID_BYTES :: nat where "UUID_BYTES = 16"

text \<open>\<open>Math.PI\<close> is this double.\<close>

definition MATH_PI :: rat where "MATH_PI = 884279719003555 / 281474976710656"
definition ANGLE_SCALE :: rat where "ANGLE_SCALE = 65535 / (MATH_PI * 2)"

section \<open>Fields\<close>

definition clampI16 :: "rat \<Rightarrow> int" where
  "clampI16 value = max (- 32768) (min 32767 (js_round value))"

text \<open>\<open>Number.parseInt(s, 16)\<close>: white space, a sign, \<open>0x\<close>, the digits there are.\<close>

definition parseInt16 :: "string \<Rightarrow> int option" where
  "parseInt16 s =
    (let t = dropWhile is_space s;
         neg = (t \<noteq> [] \<and> hd t = CHR ''-'');
         u = (if t \<noteq> [] \<and> (hd t = CHR ''-'' \<or> hd t = CHR ''+'') then tl t else t);
         d = (if take 2 u = ''0x'' \<or> take 2 u = ''0X'' then drop 2 u else u)
     in if d = [] \<or> hex_value (hd d) = None then None
        else Some (if neg then - int (read_hex 0 d) else int (read_hex 0 d)))"

definition uuidByte :: "string \<Rightarrow> nat \<Rightarrow> int" where
  "uuidByte hex i = (case parseInt16 (take 2 (drop (i * 2) hex)) of None \<Rightarrow> 0 | Some n \<Rightarrow> n)"

definition uuidToBytes :: "string \<Rightarrow> buffer \<Rightarrow> nat \<Rightarrow> buffer" where
  "uuidToBytes uuid out offset =
    (let hex = filter (\<lambda>c. c \<noteq> CHR ''-'') uuid
     in fold (\<lambda>i out. store_byte (offset + i) (uuidByte hex i) out) [0..<UUID_BYTES] out)"

definition hex_digit :: "nat \<Rightarrow> char" where
  "hex_digit n = ''0123456789abcdef'' ! n"

definition hex_byte :: "byte \<Rightarrow> string" where
  "hex_byte b = (let n = unat b in if n < 16 then [CHR ''0'', hex_digit n] else [hex_digit (n div 16), hex_digit (n mod 16)])"

definition dashed :: "string \<Rightarrow> string" where
  "dashed hex = take 8 hex @ ''-'' @ take 4 (drop 8 hex) @ ''-'' @ take 4 (drop 12 hex) @ ''-'' @
     take 4 (drop 16 hex) @ ''-'' @ drop 20 hex"

definition bytesToUuid :: "buffer \<Rightarrow> nat \<Rightarrow> string" where
  "bytesToUuid bytes offset =
    dashed (concat (map (\<lambda>i. hex_byte (case byte_at (offset + i) bytes of None \<Rightarrow> 0 | Some b \<Rightarrow> b)) [0..<UUID_BYTES]))"

definition normalised :: "rat \<Rightarrow> rat" where
  "normalised angle = js_rem (js_rem angle (MATH_PI * 2) + MATH_PI * 2) (MATH_PI * 2)"

definition packAngle :: "rat \<Rightarrow> int" where
  "packAngle angle = js_round (normalised angle * ANGLE_SCALE)"

definition snakeFlags :: "snake_view \<Rightarrow> int" where
  "snakeFlags s = (if sn_boosting s then 1 else 0) OR (if sn_isBot s then 2 else 0)"

section \<open>Snapshots\<close>

definition estimateSize :: "snapshot \<Rightarrow> nat" where
  "estimateSize s =
    HEADER_BYTES +
    sum_list (map (\<lambda>snake. UUID_BYTES + 1 + length (sn_nickname snake) * 3 + 2 + 2 + 2 + 1 + 2 +
      length (sn_points snake) * 4) (ss_snakes s)) +
    length (ss_food s) * 9 + length (ss_removedSnakes s) * UUID_BYTES + length (ss_removedFood s) * 4"

definition writeUuid :: "string \<Rightarrow> writer" where
  "writeUuid uuid c = (case c of (off, buf) \<Rightarrow> Inr (off + UUID_BYTES, uuidToBytes uuid buf off))"

definition writeVec :: "vec \<Rightarrow> vec \<Rightarrow> writer" where
  "writeVec origin p c =
    rbind (writeUint 2 (clampI16 ((vx p - vx origin) * POSITION_SCALE)) c)
      (writeUint 2 (clampI16 ((vy p - vy origin) * POSITION_SCALE)))"

definition writeSnake :: "vec \<Rightarrow> snake_view \<Rightarrow> writer" where
  "writeSnake origin s c =
    (let nickname = encodeText (sn_nickname s) in
     rbind (writeUuid (sn_id s) c) (\<lambda>c.
     rbind (writeUint 1 (int (length nickname)) c) (\<lambda>c.
     rbind (writeBytes nickname c) (\<lambda>c.
     rbind (writeUint 2 (packAngle (sn_angle s)) c) (\<lambda>c.
     rbind (writeUint 2 (min 65535 (js_round (sn_mass s))) c) (\<lambda>c.
     rbind (writeUint 2 (min 65535 (js_round (sn_radius s * 4))) c) (\<lambda>c.
     rbind (writeUint 1 (snakeFlags s) c) (\<lambda>c.
     rbind (writeUint 2 (int (length (sn_points s))) c)
       (write_each (writeVec origin) (sn_points s))))))))))"

definition writeFood :: "vec \<Rightarrow> food_view \<Rightarrow> writer" where
  "writeFood origin f c =
    rbind (writeUint 4 (fd_id f) c) (\<lambda>c.
    rbind (writeVec origin (fd_position f) c)
      (writeUint 1 (min 255 (js_round (fd_mass f)))))"

definition writeHeader :: "snapshot \<Rightarrow> bool \<Rightarrow> writer" where
  "writeHeader s full c =
    rbind (writeUint 1 SNAPSHOT_TYPE c) (\<lambda>c.
    rbind (writeUint 1 (if full then 1 else 0) c) (\<lambda>c.
    rbind (writeUint 2 (int (length (ss_snakes s))) c) (\<lambda>c.
    rbind (writeUint 2 (int (length (ss_food s))) c) (\<lambda>c.
    rbind (writeUint 2 (int (length (ss_removedSnakes s))) c) (\<lambda>c.
    rbind (writeUint 2 (int (length (ss_removedFood s))) c) (\<lambda>c.
    rbind (writeUint 4 (ss_tick s) c) (\<lambda>c.
    rbind (writeUint 4 (ss_serverTime s) c)
      (writeUint 4 (ss_ackSeq s)))))))))"

definition encodeSnapshot :: "snapshot \<Rightarrow> vec \<Rightarrow> bool \<Rightarrow> (codec_error, buffer) res" where
  "encodeSnapshot s origin full =
    rbind (writeHeader s full (0, replicate (estimateSize s) 0)) (\<lambda>c.
    rbind (write_each (writeSnake origin) (ss_snakes s) c) (\<lambda>c.
    rbind (write_each (writeFood origin) (ss_food s) c) (\<lambda>c.
    rbind (write_each writeUuid (ss_removedSnakes s) c) (\<lambda>c.
    rbind (write_each (writeUint 4) (ss_removedFood s) c) (\<lambda>(off, buf). Inr (take off buf))))))"

definition readUuid :: "string reader" where
  "readUuid buf off = Inr (bytesToUuid buf off, off + UUID_BYTES)"

definition readText :: "nat \<Rightarrow> js_string reader" where
  "readText n buf off = Inr (decodeText (take n (drop off buf)), off + n)"

definition readVec :: "vec \<Rightarrow> vec reader" where
  "readVec origin buf off =
    rbind (readInt 2 buf off) (\<lambda>(x, off).
    rbind (readInt 2 buf off) (\<lambda>(y, off).
      Inr (\<lparr>vx = of_int x / POSITION_SCALE + vx origin, vy = of_int y / POSITION_SCALE + vy origin\<rparr>, off)))"

definition readSnake :: "vec \<Rightarrow> snake_view reader" where
  "readSnake origin buf off =
    rbind (readUuid buf off) (\<lambda>(uuid, off).
    rbind (readUint 1 buf off) (\<lambda>(nicknameLength, off).
    rbind (readText (nat nicknameLength) buf off) (\<lambda>(nickname, off).
    rbind (readUint 2 buf off) (\<lambda>(angle, off).
    rbind (readUint 2 buf off) (\<lambda>(mass, off).
    rbind (readUint 2 buf off) (\<lambda>(radius, off).
    rbind (readUint 1 buf off) (\<lambda>(flags, off).
    rbind (readUint 2 buf off) (\<lambda>(pointCount, off).
    rbind (read_each (readVec origin) (nat pointCount) buf off) (\<lambda>(points, off).
      Inr (\<lparr>sn_id = uuid, sn_nickname = nickname, sn_points = points, sn_angle = of_int angle / ANGLE_SCALE,
        sn_mass = of_int mass, sn_radius = of_int radius / 4, sn_boosting = (flags AND 1 \<noteq> 0), sn_skinId = None,
        sn_isBot = (flags AND 2 \<noteq> 0)\<rparr>, off))))))))))"

definition readFood :: "vec \<Rightarrow> food_view reader" where
  "readFood origin buf off =
    rbind (readUint 4 buf off) (\<lambda>(fid, off).
    rbind (readVec origin buf off) (\<lambda>(position, off).
    rbind (readUint 1 buf off) (\<lambda>(mass, off).
      Inr (\<lparr>fd_id = fid, fd_position = position, fd_mass = of_int mass, fd_hue = fid mod 360\<rparr>, off))))"

text \<open>The counts of the header, then its three numbers.\<close>

definition readHeader :: "buffer \<Rightarrow> (codec_error, (int \<times> int \<times> int \<times> int) \<times> int \<times> int \<times> int) res" where
  "readHeader buf =
    rbind (getUint 1 0 buf) (\<lambda>messageType.
    if messageType \<noteq> SNAPSHOT_TYPE
    then Inl (Refused (''Expected a snapshot message, got type '' @ show_int messageType))
    else
      rbind (getUint 2 2 buf) (\<lambda>snakeCount.
      rbind (getUint 2 4 buf) (\<lambda>foodCount.
      rbind (getUint 2 6 buf) (\<lambda>removedSnakeCount.
      rbind (getUint 2 8 buf) (\<lambda>removedFoodCount.
      rbind (getUint 4 10 buf) (\<lambda>tick.
      rbind (getUint 4 14 buf) (\<lambda>serverTime.
      rbind (getUint 4 18 buf) (\<lambda>ackSeq.
        Inr ((snakeCount, foodCount, removedSnakeCount, removedFoodCount), tick, serverTime, ackSeq)))))))))"

definition readBody :: "vec \<Rightarrow> int \<Rightarrow> int \<Rightarrow> int \<Rightarrow> int \<Rightarrow> int \<Rightarrow> int \<Rightarrow> int \<Rightarrow> snapshot reader" where
  "readBody origin snakeCount foodCount removedSnakeCount removedFoodCount tick serverTime ackSeq buf off =
    rbind (read_each (readSnake origin) (nat snakeCount) buf off) (\<lambda>(snakes, off).
    rbind (read_each (readFood origin) (nat foodCount) buf off) (\<lambda>(food, off).
    rbind (read_each readUuid (nat removedSnakeCount) buf off) (\<lambda>(removedSnakes, off).
    rbind (read_each (readUint 4) (nat removedFoodCount) buf off) (\<lambda>(removedFood, off).
      Inr (\<lparr>ss_tick = tick, ss_serverTime = serverTime, ss_ackSeq = ackSeq, ss_snakes = snakes, ss_food = food,
        ss_removedSnakes = removedSnakes, ss_removedFood = removedFood\<rparr>, off)))))"

definition decodeSnapshot :: "buffer \<Rightarrow> vec \<Rightarrow> (codec_error, snapshot) res" where
  "decodeSnapshot buf origin =
    (if length buf < HEADER_BYTES then Inl (Refused ''Snapshot buffer is shorter than its header'')
     else rbind (readHeader buf) (\<lambda>((snakes, food, removedSnakes, removedFood), tick, serverTime, ackSeq).
       rbind (readBody origin snakes food removedSnakes removedFood tick serverTime ackSeq buf HEADER_BYTES)
         (\<lambda>(s, _). Inr s)))"

section \<open>Inputs\<close>

definition writeCommand :: "input_command \<Rightarrow> writer" where
  "writeCommand cmd c =
    rbind (writeUint 4 (ic_seq cmd) c) (\<lambda>c.
    rbind (writeUint 2 (packAngle (ic_angle cmd)) c) (\<lambda>c.
    rbind (writeUint 1 (if ic_boost cmd then 1 else 0) c)
      (writeUint 1 (min 255 (js_round (ic_dt cmd))))))"

definition encodeInputBatch :: "input_batch \<Rightarrow> (codec_error, buffer) res" where
  "encodeInputBatch batch =
    rbind (writeUint 1 INPUT_BATCH_TYPE (0, replicate (6 + length (ib_commands batch) * 8) 0)) (\<lambda>c.
    rbind (writeUint 1 (int (length (ib_commands batch))) c) (\<lambda>c.
    rbind (writeUint 4 (ib_clientTime batch) c) (\<lambda>c.
    rbind (write_each writeCommand (ib_commands batch) c) (\<lambda>(_, buf). Inr buf))))"

definition signedAngle :: "rat \<Rightarrow> rat" where
  "signedAngle angle = (if MATH_PI < angle then angle - MATH_PI * 2 else angle)"

definition readCommand :: "input_command reader" where
  "readCommand buf off =
    rbind (getUint 2 (off + 4) buf) (\<lambda>angle.
    rbind (getUint 4 off buf) (\<lambda>seq.
    rbind (getUint 1 (off + 6) buf) (\<lambda>boost.
    rbind (getUint 1 (off + 7) buf) (\<lambda>dt.
      Inr (\<lparr>ic_seq = seq, ic_angle = signedAngle (of_int angle / ANGLE_SCALE), ic_boost = (boost = 1),
        ic_dt = of_int dt\<rparr>, off + 8)))))"

definition decodeInputBatch :: "buffer \<Rightarrow> (codec_error, input_batch) res" where
  "decodeInputBatch buf =
    (if length buf < 6 then Inl (Refused ''Input batch is too short'')
     else
       rbind (getUint 1 0 buf) (\<lambda>messageType.
       if messageType \<noteq> INPUT_BATCH_TYPE then Inl (Refused ''Not an input batch message'')
       else
         rbind (getUint 1 1 buf) (\<lambda>count.
         if count = 0 \<or> 10 < count then Inl (Refused (''Invalid input batch size: '' @ show_int count))
         else if int (length buf) < 6 + count * 8
         then Inl (Refused ''Input batch is shorter than its declared command count'')
         else
           rbind (read_each readCommand (nat count) buf 6) (\<lambda>(commands, _).
           rbind (getUint 4 2 buf) (\<lambda>clientTime.
             Inr \<lparr>ib_commands = commands, ib_clientTime = clientTime\<rparr>)))))"

end
