(* ===== verification/Binary_Properties.thy ===== *)
theory Binary_Properties
  imports Binary_Codec
begin

text \<open>
  What the binary protocol guarantees: a snapshot always fits the buffer that was sized for it, the viewer
  reads back what was sent up to the precision of the wire, and whatever a client sends as its inputs is
  either refused or read inside its bounds.
\<close>

section \<open>Player ids\<close>

lemma store_byte_patch: "i < length buf \<Longrightarrow> store_byte i n buf = patch i [word_of_int n] buf"
  by (simp add: store_byte_def patch_def upd_conv_take_nth_drop)

lemma fold_store:
  "off + n \<le> length buf \<Longrightarrow>
    fold (\<lambda>i. store_byte (off + i) (f i)) [0..<n] buf = patch off (map (\<lambda>i. word_of_int (f i)) [0..<n]) buf"
proof (induction n)
  case (Suc n)
  then show ?case by (simp add: store_byte_patch)
qed simp

definition uuid_hex :: "string \<Rightarrow> string" where
  "uuid_hex u = filter (\<lambda>c. c \<noteq> CHR ''-'') u"

definition uuid_bytes :: "string \<Rightarrow> byte list" where
  "uuid_bytes u = map (\<lambda>i. word_of_int (uuidByte (uuid_hex u) i)) [0..<UUID_BYTES]"

lemma length_uuid_bytes [simp]: "length (uuid_bytes u) = 16"
  by (simp add: uuid_bytes_def UUID_BYTES_def)

lemma emits_uuid [wire]: "emits (writeUuid u) (uuid_bytes u)"
  by (simp add: emits_def writeUuid_def uuidToBytes_def uuid_bytes_def uuid_hex_def Let_def fold_store UUID_BYTES_def)

text \<open>An id in the form 8-4-4-4-12 of hexadecimal digits comes back with its letters in lower case.\<close>

definition uuid_format :: "string \<Rightarrow> bool" where
  "uuid_format u \<longleftrightarrow> length (uuid_hex u) = 32 \<and> list_all (\<lambda>c. hex_value c \<noteq> None) (uuid_hex u) \<and> u = dashed (uuid_hex u)"

definition ascii_lower :: "char \<Rightarrow> char" where
  "ascii_lower c = (if 65 \<le> (of_char c :: nat) \<and> (of_char c :: nat) \<le> 90 then char_of (of_char c + 32 :: nat) else c)"

definition hex_char_ok :: "char \<Rightarrow> bool" where
  "hex_char_ok c \<longleftrightarrow> (case hex_value c of None \<Rightarrow> True | Some v \<Rightarrow>
     v < 16 \<and> hex_digit v = ascii_lower c \<and> \<not> is_space c \<and> c \<notin> {CHR ''-'', CHR ''+'', CHR ''x'', CHR ''X''})"

lemma hex_chars: "list_all hex_char_ok (Enum.enum :: char list)"
  by code_simp

lemma hex_value_digit:
  assumes "hex_value c = Some v"
  shows "v < 16" and "hex_digit v = ascii_lower c" and "\<not> is_space c" and "c \<noteq> CHR ''-''" and "c \<noteq> CHR ''+''"
    and "c \<noteq> CHR ''x''" and "c \<noteq> CHR ''X''"
proof -
  have "hex_char_ok c" using hex_chars by (simp add: list_all_iff enum_UNIV)
  with assms show "v < 16" "hex_digit v = ascii_lower c" "\<not> is_space c" "c \<noteq> CHR ''-''" "c \<noteq> CHR ''+''"
    "c \<noteq> CHR ''x''" "c \<noteq> CHR ''X''" by (simp_all add: hex_char_ok_def)
qed

lemma hex_pair:
  assumes "hex_value a = Some x" and "hex_value b = Some y"
  shows "parseInt16 [a, b] = Some (int (16 * x + y))"
    and "hex_byte (word_of_int (int (16 * x + y))) = [ascii_lower a, ascii_lower b]"
proof -
  note a = hex_value_digit [OF assms(1)] and b = hex_value_digit [OF assms(2)]
  show "parseInt16 [a, b] = Some (int (16 * x + y))"
    using a b assms by (simp add: parseInt16_def Let_def)
  have "unat (word_of_int (int (16 * x + y)) :: byte) = 16 * x + y"
    using a(1) b(1) by (simp add: unat_of_nat flip: of_nat_add of_nat_mult) 
  moreover have "CHR ''0'' = hex_digit 0" by (simp add: hex_digit_def)
  ultimately have "hex_byte (word_of_int (int (16 * x + y))) = [hex_digit x, hex_digit y]"
    using b(1) by (cases "x = 0") (simp_all add: hex_byte_def Let_def)
  then show "hex_byte (word_of_int (int (16 * x + y))) = [ascii_lower a, ascii_lower b]"
    by (simp only: a(2) b(2))
qed

lemma hex_pairs:
  "length h = 2 * n \<Longrightarrow> list_all (\<lambda>c. hex_value c \<noteq> None) h \<Longrightarrow>
    concat (map (\<lambda>i. hex_byte (word_of_int (uuidByte h i))) [0..<n]) = map ascii_lower h"
proof (induction n arbitrary: h)
  case (Suc n)
  from Suc.prems(1) obtain a b g where h: "h = a # b # g" "length g = 2 * n"
    by (cases h; cases "tl h") auto
  from Suc.prems(2) h obtain x y where xy: "hex_value a = Some x" "hex_value b = Some y" by auto
  have "uuidByte h \<circ> Suc = uuidByte g" by (rule ext) (simp add: uuidByte_def h(1))
  moreover have "uuidByte h 0 = int (16 * x + y)"
    using hex_pair(1) [OF xy] by (simp add: uuidByte_def h(1) numeral_2_eq_2)
  moreover have "map (\<lambda>i. hex_byte (word_of_int (uuidByte h i))) [0..<Suc n] =
      hex_byte (word_of_int (uuidByte h 0)) # map (\<lambda>i. hex_byte (word_of_int ((uuidByte h \<circ> Suc) i))) [0..<n]"
    by (simp add: upt_conv_Cons flip: map_Suc_upt del: upt_Suc)
  ultimately show ?case
    using Suc.IH [of g] Suc.prems(2) hex_pair(2) [OF xy] by (simp add: h del: upt_Suc)
qed simp

lemma yields_uuid:
  assumes "uuid_format u"
  shows "yields readUuid (uuid_bytes u) (map ascii_lower u)"
  unfolding yields_def
proof (intro allI)
  fix pre post
  let ?h = "uuid_hex u" and ?buf = "pre @ uuid_bytes u @ post"
  have u: "length ?h = 2 * 16" "list_all (\<lambda>c. hex_value c \<noteq> None) ?h" "u = dashed ?h"
    using assms by (simp_all add: uuid_format_def)
  have "byte_at (length pre + i) ?buf = Some (word_of_int (uuidByte ?h i))" if "i < 16" for i
    using that by (simp add: byte_at_def nth_append uuid_bytes_def UUID_BYTES_def)
  then have "bytesToUuid ?buf (length pre) =
      dashed (concat (map (\<lambda>i. hex_byte (word_of_int (uuidByte ?h i))) [0..<16]))"
    unfolding bytesToUuid_def UUID_BYTES_def
    by (intro arg_cong [where f = dashed] arg_cong [where f = concat] map_cong refl) simp
  also have "\<dots> = dashed (map ascii_lower ?h)" using hex_pairs [OF u(1,2)] by simp
  also have "\<dots> = map ascii_lower (dashed ?h)"
    by (simp add: dashed_def take_map drop_map ascii_lower_def)
  finally show "readUuid ?buf (length pre) = Inr (map ascii_lower u, length pre + length (uuid_bytes u))"
    using u(3) by (simp add: readUuid_def UUID_BYTES_def)
qed

interpretation uuid: wire_item writeUuid uuid_bytes readUuid "map ascii_lower" uuid_format
  by unfold_locales (simp_all add: wire yields_uuid)

section \<open>Angles and coordinates\<close>

abbreviation TURN :: rat where "TURN \<equiv> MATH_PI * 2"

lemma MATH_PI_pos [simp]: "0 < MATH_PI" "MATH_PI \<noteq> 0"
  by (simp_all add: MATH_PI_def)

lemma ANGLE_SCALE_pos [simp]: "0 < ANGLE_SCALE" "ANGLE_SCALE \<noteq> 0"
  by (simp_all add: ANGLE_SCALE_def)

lemma TURN_scale: "TURN * ANGLE_SCALE = 65535"
  using MATH_PI_pos by (simp add: ANGLE_SCALE_def)

lemma normalised_eq: "normalised a = a - TURN * of_int \<lfloor>a / TURN\<rfloor>"
  unfolding normalised_def by (rule js_rem_twice) simp

lemma normalised_bounds: "0 \<le> normalised a" "normalised a < TURN"
proof -
  have e: "normalised a = TURN * (a / TURN - of_int \<lfloor>a / TURN\<rfloor>)"
    by (simp add: normalised_eq right_diff_distrib)
  have "0 \<le> a / TURN - of_int \<lfloor>a / TURN\<rfloor>" "a / TURN - of_int \<lfloor>a / TURN\<rfloor> < 1" by linarith+
  then show "0 \<le> normalised a" "normalised a < TURN"
    unfolding e using MATH_PI_pos by (simp_all only: mult_nonneg_nonneg mult_less_cancel_left2) (simp_all add: not_le)
qed

lemma packAngle_bounds: "0 \<le> packAngle a" "packAngle a \<le> 65535"
proof -
  have "0 \<le> normalised a * ANGLE_SCALE"
    using normalised_bounds(1) [of a] by (intro mult_nonneg_nonneg) (simp_all add: less_imp_le)
  then show "0 \<le> packAngle a" unfolding packAngle_def by (intro js_round_ge) simp
  have "normalised a * ANGLE_SCALE \<le> TURN * ANGLE_SCALE"
    using normalised_bounds(2) [of a] by (intro mult_right_mono) (simp_all add: less_imp_le)
  then show "packAngle a \<le> 65535" unfolding packAngle_def TURN_scale by (intro js_round_le) simp
qed

text \<open>Half a step of the wire, and the angle up to full turns.\<close>

definition same_angle :: "rat \<Rightarrow> rat \<Rightarrow> bool" where
  "same_angle a b \<longleftrightarrow> (\<exists>k::int. \<bar>b - a - TURN * of_int k\<bar> * ANGLE_SCALE \<le> 1 / 2)"

lemma packed_angle: "same_angle a (of_int (packAngle a) / ANGLE_SCALE)"
proof -
  let ?n = "normalised a"
  have "\<bar>of_int (packAngle a) - ?n * ANGLE_SCALE\<bar> \<le> 1 / 2"
    unfolding packAngle_def by (rule js_round_near)
  moreover have "of_int (packAngle a) / ANGLE_SCALE - a - TURN * of_int (- \<lfloor>a / TURN\<rfloor>) =
      (of_int (packAngle a) - ?n * ANGLE_SCALE) / ANGLE_SCALE"
    by (simp add: normalised_eq diff_divide_distrib)
  ultimately show ?thesis
    unfolding same_angle_def using ANGLE_SCALE_pos(1) by (metis abs_divide abs_of_pos nonzero_eq_divide_eq less_numeral_extra(3))
qed

lemma same_angle_turned: "same_angle a b \<Longrightarrow> same_angle a (signedAngle b)"
proof -
  assume "same_angle a b"
  then obtain k where k: "\<bar>b - a - TURN * of_int k\<bar> * ANGLE_SCALE \<le> 1 / 2" by (auto simp: same_angle_def)
  show ?thesis
  proof (cases "MATH_PI < b")
    case True
    have "b - TURN - a - TURN * of_int (k - 1) = b - a - TURN * of_int k" by (simp add: algebra_simps)
    with k have "same_angle a (b - TURN)" unfolding same_angle_def by metis
    with True show ?thesis by (simp add: signedAngle_def)
  qed (use \<open>same_angle a b\<close> in \<open>simp add: signedAngle_def\<close>)
qed

lemma clampI16_bounds: "- 32768 \<le> clampI16 x" "clampI16 x \<le> 32767"
  by (auto simp: clampI16_def)

lemma clampI16_near:
  assumes "\<bar>x\<bar> \<le> 32767"
  shows "\<bar>of_int (clampI16 x) - x\<bar> \<le> 1 / 2"
proof -
  have "js_round x \<le> 32767" using assms by (intro js_round_le) simp
  moreover have "- 32767 \<le> js_round x" using assms by (intro js_round_ge) simp
  ultimately have "clampI16 x = js_round x" by (simp add: clampI16_def)
  then show ?thesis using js_round_near [of x] by simp
qed

section \<open>Items of a snapshot\<close>

text \<open>A writer or reader is composed of those of its fields.\<close>

lemma yields_map: "yields r bs x \<Longrightarrow> v = f x \<Longrightarrow> yields (\<lambda>buf off. rbind (r buf off) (\<lambda>(x, off). Inr (f x, off))) bs v"
  by (simp add: yields_def)

lemma emits_let: "emits (\<lambda>c. w (t::'a) c) bs \<Longrightarrow> emits (\<lambda>c. let x = t in w x c) bs"
  by simp

definition vec_bytes :: "vec \<Rightarrow> vec \<Rightarrow> byte list" where
  "vec_bytes origin p = le_bytes 2 (clampI16 ((vx p - vx origin) * POSITION_SCALE)) @
     le_bytes 2 (clampI16 ((vy p - vy origin) * POSITION_SCALE))"

text \<open>The viewer adds the origin it assumes, \<open>eye\<close>, to what was sent relative to \<open>origin\<close>.\<close>

definition vec_received :: "vec \<Rightarrow> vec \<Rightarrow> vec \<Rightarrow> vec" where
  "vec_received origin eye p =
    \<lparr>vx = of_int (clampI16 ((vx p - vx origin) * POSITION_SCALE)) / POSITION_SCALE + vx eye,
     vy = of_int (clampI16 ((vy p - vy origin) * POSITION_SCALE)) / POSITION_SCALE + vy eye\<rparr>"

lemma emits_vec [wire]: "emits (writeVec origin p) (vec_bytes origin p)"
proof -
  have "writeVec origin p = (\<lambda>c. rbind (writeUint 2 (clampI16 ((vx p - vx origin) * POSITION_SCALE)) c)
      (writeUint 2 (clampI16 ((vy p - vy origin) * POSITION_SCALE))))"
    by (rule ext) (simp add: writeVec_def)
  then show ?thesis unfolding vec_bytes_def by (simp only:) (intro emits_seq emits_uint)
qed

lemma yields_clamped: "yields (readInt 2) (le_bytes 2 (clampI16 x)) (clampI16 x)"
  using clampI16_bounds [of x] by (intro yields_int) (simp_all add: eval_nat_numeral)

lemma yields_vec: "yields (readVec eye) (vec_bytes origin p) (vec_received origin eye p)"
  unfolding readVec_def vec_bytes_def
  by (rule yields_seq [OF yields_clamped yields_map [OF yields_clamped]]) (simp add: vec_received_def)

interpretation vec: wire_item "writeVec origin" "vec_bytes origin" "readVec eye" "vec_received origin eye" "\<lambda>_. True" for origin eye
  by unfold_locales (simp_all add: wire yields_vec)

lemma length_vec_bytes [simp]: "length (vec_bytes origin p) = 4"
  by (simp add: vec_bytes_def)

lemma length_vecs [simp]: "length (concat (map (vec_bytes origin) ps)) = 4 * length ps"
  by (induction ps) simp_all

definition food_bytes :: "vec \<Rightarrow> food_view \<Rightarrow> byte list" where
  "food_bytes origin f = le_bytes 4 (fd_id f) @ vec_bytes origin (fd_position f) @ le_bytes 1 (min 255 (js_round (fd_mass f)))"

definition food_received :: "vec \<Rightarrow> vec \<Rightarrow> food_view \<Rightarrow> food_view" where
  "food_received origin eye f = \<lparr>fd_id = fd_id f, fd_position = vec_received origin eye (fd_position f),
     fd_mass = of_int (min 255 (js_round (fd_mass f))), fd_hue = fd_id f mod 360\<rparr>"

definition food_ok :: "food_view \<Rightarrow> bool" where
  "food_ok f \<longleftrightarrow> 0 \<le> fd_id f \<and> fd_id f < 2 ^ 32 \<and> 0 \<le> fd_mass f"

lemma emits_food [wire]: "emits (writeFood origin f) (food_bytes origin f)"
proof -
  have "writeFood origin f = (\<lambda>c. rbind (writeUint 4 (fd_id f) c) (\<lambda>c. rbind (writeVec origin (fd_position f) c)
      (writeUint 1 (min 255 (js_round (fd_mass f))))))"
    by (rule ext) (simp add: writeFood_def)
  then show ?thesis unfolding food_bytes_def by (simp only:) (intro emits_seq wire)
qed

lemma js_round_nonneg: "0 \<le> x \<Longrightarrow> 0 \<le> js_round x"
  by (rule js_round_ge) simp

lemma yields_food: "food_ok f \<Longrightarrow> yields (readFood eye) (food_bytes origin f) (food_received origin eye f)"
  unfolding readFood_def food_bytes_def
  by (rule yields_seq [OF yields_uint yields_seq [OF yields_vec yields_map [OF yields_uint]]])
    (auto simp: food_received_def food_ok_def min_def js_round_nonneg)

interpretation food: wire_item "writeFood origin" "food_bytes origin" "readFood eye" "food_received origin eye" food_ok for origin eye
  by unfold_locales (simp_all add: wire yields_food)

definition snake_bytes :: "vec \<Rightarrow> snake_view \<Rightarrow> byte list" where
  "snake_bytes origin s =
    uuid_bytes (sn_id s) @ le_bytes 1 (int (length (encodeText (sn_nickname s)))) @ encodeText (sn_nickname s) @
    le_bytes 2 (packAngle (sn_angle s)) @ le_bytes 2 (min 65535 (js_round (sn_mass s))) @
    le_bytes 2 (min 65535 (js_round (sn_radius s * 4))) @ le_bytes 1 (snakeFlags s) @
    le_bytes 2 (int (length (sn_points s))) @ concat (map (vec_bytes origin) (sn_points s))"

definition snake_received :: "vec \<Rightarrow> vec \<Rightarrow> snake_view \<Rightarrow> snake_view" where
  "snake_received origin eye s =
    \<lparr>sn_id = map ascii_lower (sn_id s), sn_nickname = sn_nickname s,
     sn_points = map (vec_received origin eye) (sn_points s),
     sn_angle = of_int (packAngle (sn_angle s)) / ANGLE_SCALE,
     sn_mass = of_int (min 65535 (js_round (sn_mass s))),
     sn_radius = of_int (min 65535 (js_round (sn_radius s * 4))) / 4,
     sn_boosting = sn_boosting s, sn_skinId = None, sn_isBot = sn_isBot s\<rparr>"

definition snake_ok :: "snake_view \<Rightarrow> bool" where
  "snake_ok s \<longleftrightarrow> uuid_format (sn_id s) \<and> plain_text (sn_nickname s) \<and> length (encodeText (sn_nickname s)) < 256 \<and>
     0 \<le> sn_mass s \<and> 0 \<le> sn_radius s \<and> length (sn_points s) < 65536"

lemma emits_snake [wire]: "emits (writeSnake origin s) (snake_bytes origin s)"
proof -
  let ?n = "encodeText (sn_nickname s)"
  have "writeSnake origin s = (\<lambda>c.
     rbind (writeUuid (sn_id s) c) (\<lambda>c. rbind (writeUint 1 (int (length ?n)) c) (\<lambda>c.
     rbind (writeBytes ?n c) (\<lambda>c. rbind (writeUint 2 (packAngle (sn_angle s)) c) (\<lambda>c.
     rbind (writeUint 2 (min 65535 (js_round (sn_mass s))) c) (\<lambda>c.
     rbind (writeUint 2 (min 65535 (js_round (sn_radius s * 4))) c) (\<lambda>c.
     rbind (writeUint 1 (snakeFlags s) c) (\<lambda>c. rbind (writeUint 2 (int (length (sn_points s))) c)
       (write_each (writeVec origin) (sn_points s))))))))))"
    by (rule ext) (simp add: writeSnake_def Let_def)
  then show ?thesis unfolding snake_bytes_def by (simp only:) (intro emits_seq wire vec.writes_all)
qed

lemma yields_text: "plain_text s \<Longrightarrow> n = length (encodeText s) \<Longrightarrow> yields (readText n) (encodeText s) s"
  by (simp add: yields_def readText_def text_roundtrip)

lemma flags_back:
  "snakeFlags s mod 256 = snakeFlags s" "(snakeFlags s AND 1 \<noteq> 0) = sn_boosting s" "(snakeFlags s AND 2 \<noteq> 0) = sn_isBot s"
  by (simp_all add: snakeFlags_def)

lemma yields_snake:
  assumes "snake_ok s"
  shows "yields (readSnake eye) (snake_bytes origin s) (snake_received origin eye s)"
proof -
  have ok: "uuid_format (sn_id s)" "plain_text (sn_nickname s)" "length (encodeText (sn_nickname s)) < 256"
    "0 \<le> js_round (sn_mass s)" "0 \<le> js_round (sn_radius s * 4)" "length (sn_points s) < 65536"
    using assms by (simp_all add: snake_ok_def js_round_nonneg)
  have pts: "list_all (\<lambda>_. True) (sn_points s)" by (simp add: list_all_iff)
  show ?thesis
    unfolding readSnake_def snake_bytes_def
  proof (rule yields_seq [OF yields_uuid [OF ok(1)] yields_seq [OF yields_uint [OF refl]
        yields_seq [OF yields_text [OF ok(2)] yields_seq [OF yields_uint [OF refl] yields_seq [OF yields_uint [OF refl]
        yields_seq [OF yields_uint [OF refl] yields_seq [OF yields_uint [OF refl] yields_seq [OF yields_uint [OF refl]
        yields_map [OF vec.reads_all [OF pts]]]]]]]]]])
    show "nat (int (length (encodeText (sn_nickname s))) mod 256 ^ 1) = length (encodeText (sn_nickname s))"
      using ok(3) by simp
    show "nat (int (length (sn_points s)) mod 256\<^sup>2) = length (sn_points s)" using ok(6) by simp
  qed (use ok packAngle_bounds [of "sn_angle s"] in \<open>simp add: snake_received_def flags_back min_def\<close>)
qed

interpretation snake: wire_item "writeSnake origin" "snake_bytes origin" "readSnake eye" "snake_received origin eye" snake_ok for origin eye
  by unfold_locales (simp_all add: wire yields_snake)

section \<open>Snapshots\<close>

definition header_bytes :: "snapshot \<Rightarrow> bool \<Rightarrow> byte list" where
  "header_bytes s full =
    le_bytes 1 SNAPSHOT_TYPE @ le_bytes 1 (if full then 1 else 0) @ le_bytes 2 (int (length (ss_snakes s))) @
    le_bytes 2 (int (length (ss_food s))) @ le_bytes 2 (int (length (ss_removedSnakes s))) @
    le_bytes 2 (int (length (ss_removedFood s))) @ le_bytes 4 (ss_tick s) @ le_bytes 4 (ss_serverTime s) @ le_bytes 4 (ss_ackSeq s)"

definition body_bytes :: "snapshot \<Rightarrow> vec \<Rightarrow> byte list" where
  "body_bytes s origin =
    concat (map (snake_bytes origin) (ss_snakes s)) @ concat (map (food_bytes origin) (ss_food s)) @
    concat (map uuid_bytes (ss_removedSnakes s)) @ concat (map (le_bytes 4) (ss_removedFood s))"

lemma length_header_bytes [simp]: "length (header_bytes s full) = 22"
  by (simp add: header_bytes_def)

lemma length_snake_bytes: "length (snake_bytes origin s) = 26 + length (encodeText (sn_nickname s)) + 4 * length (sn_points s)"
  by (simp add: snake_bytes_def)

lemma length_body_le: "22 + length (body_bytes s origin) \<le> estimateSize s"
proof -
  have "length (concat (map (snake_bytes origin) ss)) \<le>
      sum_list (map (\<lambda>snake. UUID_BYTES + 1 + length (sn_nickname snake) * 3 + 2 + 2 + 2 + 1 + 2 + length (sn_points snake) * 4) ss)" for ss
  proof (induction ss)
    case (Cons a ss)
    then show ?case using length_encodeText [of "sn_nickname a"] by (simp add: length_snake_bytes UUID_BYTES_def)
  qed simp
  moreover have "length (concat (map (food_bytes origin) fs)) = length fs * 9" for fs
    by (induction fs) (simp_all add: food_bytes_def)
  moreover have "length (concat (map uuid_bytes us)) = length us * 16" for us
    by (induction us) simp_all
  moreover have "length (concat (map (le_bytes 4) ns)) = length ns * 4" for ns
    by (induction ns) simp_all
  ultimately show ?thesis by (simp add: body_bytes_def estimateSize_def HEADER_BYTES_def UUID_BYTES_def)
qed

lemma emits_header: "emits (writeHeader s full) (header_bytes s full)"
proof -
  have "writeHeader s full = (\<lambda>c.
    rbind (writeUint 1 SNAPSHOT_TYPE c) (\<lambda>c. rbind (writeUint 1 (if full then 1 else 0) c) (\<lambda>c.
    rbind (writeUint 2 (int (length (ss_snakes s))) c) (\<lambda>c. rbind (writeUint 2 (int (length (ss_food s))) c) (\<lambda>c.
    rbind (writeUint 2 (int (length (ss_removedSnakes s))) c) (\<lambda>c.
    rbind (writeUint 2 (int (length (ss_removedFood s))) c) (\<lambda>c. rbind (writeUint 4 (ss_tick s) c) (\<lambda>c.
    rbind (writeUint 4 (ss_serverTime s) c) (writeUint 4 (ss_ackSeq s))))))))))"
    by (rule ext) (simp add: writeHeader_def)
  then show ?thesis unfolding header_bytes_def by (simp only:) (intro emits_seq emits_uint)
qed

text \<open>The buffer is never too small, whatever is sent.\<close>

lemma encodeSnapshot_eq: "encodeSnapshot s origin full = Inr (header_bytes s full @ body_bytes s origin)"
proof -
  let ?w = "\<lambda>c. rbind (writeHeader s full c) (\<lambda>c. rbind (write_each (writeSnake origin) (ss_snakes s) c) (\<lambda>c.
      rbind (write_each (writeFood origin) (ss_food s) c) (\<lambda>c. rbind (write_each writeUuid (ss_removedSnakes s) c)
      (write_each (writeUint 4) (ss_removedFood s)))))"
  let ?bs = "header_bytes s full @ body_bytes s origin"
  have "emits ?w ?bs"
    unfolding body_bytes_def
    by (intro emits_seq emits_header snake.writes_all food.writes_all uuid.writes_all u32.writes_all)
  moreover have "0 + length ?bs \<le> length (replicate (estimateSize s) (0::byte))"
    using length_body_le [of s origin] by simp
  ultimately have w: "?w (0, replicate (estimateSize s) 0) = Inr (0 + length ?bs, patch 0 ?bs (replicate (estimateSize s) 0))"
    by (rule emitsD)
  have "encodeSnapshot s origin full = rbind (?w (0, replicate (estimateSize s) 0)) (\<lambda>(off, buf). Inr (take off buf))"
    by (auto simp: encodeSnapshot_def rbind_def split: sum.splits)
  then show ?thesis unfolding w by (simp add: patch_def)
qed

text \<open>
  What the protocol can carry: counts, ids and clocks in range, ids that are UUIDs, nicknames of at most 255
  bytes whose surrogates are paired, nothing negative.
\<close>

definition sendable :: "snapshot \<Rightarrow> bool" where
  "sendable s \<longleftrightarrow>
    length (ss_snakes s) < 65536 \<and> length (ss_food s) < 65536 \<and> length (ss_removedSnakes s) < 65536 \<and>
    length (ss_removedFood s) < 65536 \<and>
    0 \<le> ss_tick s \<and> ss_tick s < 2 ^ 32 \<and> 0 \<le> ss_serverTime s \<and> ss_serverTime s < 2 ^ 32 \<and>
    0 \<le> ss_ackSeq s \<and> ss_ackSeq s < 2 ^ 32 \<and>
    list_all snake_ok (ss_snakes s) \<and> list_all food_ok (ss_food s) \<and> list_all uuid_format (ss_removedSnakes s) \<and>
    list_all (\<lambda>n. 0 \<le> n \<and> n < 2 ^ 32) (ss_removedFood s)"

definition snapshot_received :: "vec \<Rightarrow> vec \<Rightarrow> snapshot \<Rightarrow> snapshot" where
  "snapshot_received origin eye s = s\<lparr>
     ss_snakes := map (snake_received origin eye) (ss_snakes s), ss_food := map (food_received origin eye) (ss_food s),
     ss_removedSnakes := map (map ascii_lower) (ss_removedSnakes s)\<rparr>"

lemma getUint_pre:
  assumes "off = length pre"
  shows "getUint k off (pre @ le_bytes k n @ post) = Inr (n mod 256 ^ k)"
  using assms by (rule getUint_at)

lemma readHeader_bytes:
  "readHeader (header_bytes s full @ body) =
    Inr ((int (length (ss_snakes s)) mod 256 ^ 2, int (length (ss_food s)) mod 256 ^ 2,
      int (length (ss_removedSnakes s)) mod 256 ^ 2, int (length (ss_removedFood s)) mod 256 ^ 2),
      ss_tick s mod 256 ^ 4, ss_serverTime s mod 256 ^ 4, ss_ackSeq s mod 256 ^ 4)"
proof -
  let ?t = "le_bytes 1 SNAPSHOT_TYPE" and ?f = "le_bytes 1 (if full then 1 else 0)"
    and ?a = "le_bytes 2 (int (length (ss_snakes s)))" and ?b = "le_bytes 2 (int (length (ss_food s)))"
    and ?c = "le_bytes 2 (int (length (ss_removedSnakes s)))" and ?d = "le_bytes 2 (int (length (ss_removedFood s)))"
    and ?x = "le_bytes 4 (ss_tick s)" and ?y = "le_bytes 4 (ss_serverTime s)" and ?z = "le_bytes 4 (ss_ackSeq s)"
  let ?buf = "header_bytes s full @ body"
  have "getUint 1 0 ?buf = Inr (SNAPSHOT_TYPE mod 256 ^ 1)"
    using getUint_at [of 0 "[]" 1] by (simp add: header_bytes_def)
  moreover have "getUint 2 2 ?buf = Inr (int (length (ss_snakes s)) mod 256 ^ 2)"
    using getUint_at [of 2 "?t @ ?f" 2] by (simp add: header_bytes_def)
  moreover have "getUint 2 4 ?buf = Inr (int (length (ss_food s)) mod 256 ^ 2)"
    using getUint_at [of 4 "?t @ ?f @ ?a" 2] by (simp add: header_bytes_def)
  moreover have "getUint 2 6 ?buf = Inr (int (length (ss_removedSnakes s)) mod 256 ^ 2)"
    using getUint_at [of 6 "?t @ ?f @ ?a @ ?b" 2] by (simp add: header_bytes_def)
  moreover have "getUint 2 8 ?buf = Inr (int (length (ss_removedFood s)) mod 256 ^ 2)"
    using getUint_at [of 8 "?t @ ?f @ ?a @ ?b @ ?c" 2] by (simp add: header_bytes_def)
  moreover have "getUint 4 10 ?buf = Inr (ss_tick s mod 256 ^ 4)"
    using getUint_at [of 10 "?t @ ?f @ ?a @ ?b @ ?c @ ?d" 4] by (simp add: header_bytes_def)
  moreover have "getUint 4 14 ?buf = Inr (ss_serverTime s mod 256 ^ 4)"
    using getUint_at [of 14 "?t @ ?f @ ?a @ ?b @ ?c @ ?d @ ?x" 4] by (simp add: header_bytes_def)
  moreover have "getUint 4 18 ?buf = Inr (ss_ackSeq s mod 256 ^ 4)"
    using getUint_at [of 18 "?t @ ?f @ ?a @ ?b @ ?c @ ?d @ ?x @ ?y" 4] by (simp add: header_bytes_def)
  ultimately show ?thesis by (simp add: readHeader_def SNAPSHOT_TYPE_def)
qed

lemma decode_encoded:
  assumes "sendable s"
  shows "decodeSnapshot (header_bytes s full @ body_bytes s origin) eye = Inr (snapshot_received origin eye s)"
proof -
  have ok: "list_all snake_ok (ss_snakes s)" "list_all food_ok (ss_food s)" "list_all uuid_format (ss_removedSnakes s)"
    and u: "list_all (\<lambda>_. True) (ss_removedFood s)" "map (\<lambda>n. n mod 2 ^ 32) (ss_removedFood s) = ss_removedFood s"
    using assms by (auto simp: sendable_def list_all_iff intro!: map_idI)
  have n: "nat (int (length (ss_snakes s)) mod 256 ^ 2) = length (ss_snakes s)"
    "nat (int (length (ss_food s)) mod 256 ^ 2) = length (ss_food s)"
    "nat (int (length (ss_removedSnakes s)) mod 256 ^ 2) = length (ss_removedSnakes s)"
    "nat (int (length (ss_removedFood s)) mod 256 ^ 2) = length (ss_removedFood s)"
    "ss_tick s mod 256 ^ 4 = ss_tick s" "ss_serverTime s mod 256 ^ 4 = ss_serverTime s" "ss_ackSeq s mod 256 ^ 4 = ss_ackSeq s"
    using assms by (simp_all add: sendable_def)
  let ?r = "readBody eye (int (length (ss_snakes s)) mod 256 ^ 2) (int (length (ss_food s)) mod 256 ^ 2)
      (int (length (ss_removedSnakes s)) mod 256 ^ 2) (int (length (ss_removedFood s)) mod 256 ^ 2)
      (ss_tick s) (ss_serverTime s) (ss_ackSeq s)"
  have "yields ?r (body_bytes s origin) (snapshot_received origin eye s)"
    unfolding readBody_def body_bytes_def
    by (rule yields_seq [OF snake.reads_all [OF ok(1)] yields_seq [OF food.reads_all [OF ok(2)]
          yields_seq [OF uuid.reads_all [OF ok(3)] yields_map [OF u32.reads_all [OF u(1)]]]]])
      (simp_all only: n u(2), simp add: snapshot_received_def)
  from yieldsD [OF this, of 22 "header_bytes s full" "[]"]
  have "?r (header_bytes s full @ body_bytes s origin) 22 = Inr (snapshot_received origin eye s, 22 + length (body_bytes s origin))"
    by simp
  then show ?thesis by (simp only: decodeSnapshot_def HEADER_BYTES_def readHeader_bytes n(5-7) rbind_Inr prod.case) simp
qed

text \<open>How close the viewer comes to what was sent.\<close>

definition vec_near :: "vec \<Rightarrow> vec \<Rightarrow> vec \<Rightarrow> bool" where
  "vec_near origin p q \<longleftrightarrow>
    (\<bar>vx p - vx origin\<bar> \<le> 32767 / 4 \<longrightarrow> \<bar>vx q - vx p\<bar> \<le> 1 / 8) \<and>
    (\<bar>vy p - vy origin\<bar> \<le> 32767 / 4 \<longrightarrow> \<bar>vy q - vy p\<bar> \<le> 1 / 8)"

definition snake_near :: "vec \<Rightarrow> snake_view \<Rightarrow> snake_view \<Rightarrow> bool" where
  "snake_near origin s t \<longleftrightarrow>
    sn_id t = map ascii_lower (sn_id s) \<and> sn_nickname t = sn_nickname s \<and> sn_boosting t = sn_boosting s \<and>
    sn_isBot t = sn_isBot s \<and> same_angle (sn_angle s) (sn_angle t) \<and>
    (sn_mass s \<le> 65535 \<longrightarrow> \<bar>sn_mass t - sn_mass s\<bar> \<le> 1 / 2) \<and>
    (sn_radius s \<le> 65535 / 4 \<longrightarrow> \<bar>sn_radius t - sn_radius s\<bar> \<le> 1 / 8) \<and>
    list_all2 (vec_near origin) (sn_points s) (sn_points t)"

definition food_near :: "vec \<Rightarrow> food_view \<Rightarrow> food_view \<Rightarrow> bool" where
  "food_near origin f g \<longleftrightarrow> fd_id g = fd_id f \<and> vec_near origin (fd_position f) (fd_position g) \<and>
    (fd_mass f \<le> 255 \<longrightarrow> \<bar>fd_mass g - fd_mass f\<bar> \<le> 1 / 2)"

lemma coordinate_near:
  fixes x o' :: rat
  assumes "\<bar>x - o'\<bar> \<le> 32767 / 4"
  shows "\<bar>of_int (clampI16 ((x - o') * 4)) / 4 + o' - x\<bar> \<le> 1 / 8"
proof -
  have a: "x - o' \<le> 32767 / 4" "- (x - o') \<le> 32767 / 4" using assms by (simp_all only: abs_le_iff)
  then have "\<bar>(x - o') * 4\<bar> \<le> 32767" unfolding abs_le_iff by (simp_all add: field_simps)
  from clampI16_near [OF this]
  have "of_int (clampI16 ((x - o') * 4)) - (x - o') * 4 \<le> 1 / 2" "- (of_int (clampI16 ((x - o') * 4)) - (x - o') * 4) \<le> 1 / 2"
    by (simp_all only: abs_le_iff)
  then show ?thesis unfolding abs_le_iff by (simp_all add: field_simps)
qed

lemma vec_received_near: "vec_near origin p (vec_received origin origin p)"
  unfolding vec_near_def vec_received_def POSITION_SCALE_def vec.simps
  by (intro conjI impI coordinate_near)

lemma capped_near: "x \<le> of_int n \<Longrightarrow> \<bar>of_int (min n (js_round x)) - x\<bar> \<le> 1 / 2"
  using js_round_near [of x] js_round_le [of x n] by (simp add: min_absorb2)

lemma snake_received_near: "snake_near origin s (snake_received origin origin s)"
proof -
  have "\<bar>of_int (min 65535 (js_round (sn_radius s * 4))) / 4 - sn_radius s\<bar> \<le> 1 / 8" if "sn_radius s \<le> 65535 / 4"
    using capped_near [of "sn_radius s * 4" 65535] that by (simp add: abs_le_iff field_simps)
  moreover have "\<bar>of_int (min 65535 (js_round (sn_mass s))) - sn_mass s\<bar> \<le> 1 / 2" if "sn_mass s \<le> 65535"
    using capped_near [of "sn_mass s" 65535] that by simp
  moreover have "list_all2 (vec_near origin) (sn_points s) (map (vec_received origin origin) (sn_points s))"
    by (simp add: list_all2_conv_all_nth vec_received_near)
  ultimately show ?thesis
    unfolding snake_near_def snake_received_def by (simp add: packed_angle)
qed

lemma food_received_near: "food_near origin f (food_received origin origin f)"
  using capped_near [of "fd_mass f" 255] by (simp add: food_near_def food_received_def vec_received_near)

section \<open>What the protocol guarantees\<close>

text \<open>
  C24: a snapshot never overruns its buffer: whatever it holds, encoding returns, no write falls outside the
  buffer, and what is sent is the 22 bytes of the header and no more than was estimated.
\<close>
theorem snapshot_fits:
  "\<exists>buf. encodeSnapshot s origin full = Inr buf \<and> HEADER_BYTES \<le> length buf \<and> length buf \<le> estimateSize s"
  using encodeSnapshot_eq [of s origin full] length_body_le [of s origin] by (simp add: HEADER_BYTES_def)

text \<open>
  C22: the viewer sees what was sent: a snapshot the protocol can carry is decoded to the same clocks, counts,
  ids, nicknames and flags, with every coordinate in the window around the viewer within an eighth of a unit,
  every mass within a half and every heading within half a step of the wire, up to full turns.
\<close>
theorem snapshot_roundtrip:
  assumes "sendable s"
  shows "\<exists>buf t. encodeSnapshot s origin full = Inr buf \<and> decodeSnapshot buf origin = Inr t \<and>
    ss_tick t = ss_tick s \<and> ss_serverTime t = ss_serverTime s \<and> ss_ackSeq t = ss_ackSeq s \<and>
    list_all2 (snake_near origin) (ss_snakes s) (ss_snakes t) \<and> list_all2 (food_near origin) (ss_food s) (ss_food t) \<and>
    ss_removedSnakes t = map (map ascii_lower) (ss_removedSnakes s) \<and> ss_removedFood t = ss_removedFood s"
  using decode_encoded [OF assms, of full origin origin] encodeSnapshot_eq [of s origin full]
  by (simp add: snapshot_received_def list_all2_map2 list.rel_refl_strong snake_received_near food_received_near list_all2_refl)

text \<open>
  A viewer that assumes another origin than the sender used sees everything displaced by the difference.
  The server encodes relative to the head of the viewer's snake, the client decodes relative to its camera.
\<close>
theorem wrong_origin_displaces:
  assumes "sendable s"
  shows "\<exists>buf t u. encodeSnapshot s origin full = Inr buf \<and> decodeSnapshot buf origin = Inr t \<and> decodeSnapshot buf eye = Inr u \<and>
    map sn_points (ss_snakes u) =
      map (map (\<lambda>p. \<lparr>vx = vx p + (vx eye - vx origin), vy = vy p + (vy eye - vy origin)\<rparr>) \<circ> sn_points) (ss_snakes t)"
  using decode_encoded [OF assms, of full origin origin] decode_encoded [OF assms, of full origin eye] encodeSnapshot_eq [of s origin full]
  by (simp add: snapshot_received_def snake_received_def vec_received_def)

section \<open>Inputs\<close>

definition command_bytes :: "input_command \<Rightarrow> byte list" where
  "command_bytes c = le_bytes 4 (ic_seq c) @ le_bytes 2 (packAngle (ic_angle c)) @ le_bytes 1 (if ic_boost c then 1 else 0) @
     le_bytes 1 (min 255 (js_round (ic_dt c)))"

definition command_received :: "input_command \<Rightarrow> input_command" where
  "command_received c = \<lparr>ic_seq = ic_seq c, ic_angle = signedAngle (of_int (packAngle (ic_angle c)) / ANGLE_SCALE),
     ic_boost = ic_boost c, ic_dt = of_int (min 255 (js_round (ic_dt c)))\<rparr>"

definition command_ok :: "input_command \<Rightarrow> bool" where
  "command_ok c \<longleftrightarrow> 0 \<le> ic_seq c \<and> ic_seq c < 2 ^ 32 \<and> 0 \<le> ic_dt c"

lemma length_command_bytes [simp]: "length (command_bytes c) = 8"
  by (simp add: command_bytes_def)

lemma length_commands: "length (concat (map command_bytes cs)) = 8 * length cs"
  by (induction cs) simp_all

lemma emits_command [wire]: "emits (writeCommand c) (command_bytes c)"
proof -
  have "writeCommand c = (\<lambda>k. rbind (writeUint 4 (ic_seq c) k) (\<lambda>k. rbind (writeUint 2 (packAngle (ic_angle c)) k) (\<lambda>k.
      rbind (writeUint 1 (if ic_boost c then 1 else 0) k) (writeUint 1 (min 255 (js_round (ic_dt c)))))))"
    by (rule ext) (simp add: writeCommand_def)
  then show ?thesis unfolding command_bytes_def by (simp only:) (intro emits_seq wire)
qed

lemma yields_command:
  assumes "command_ok c"
  shows "yields readCommand (command_bytes c) (command_received c)"
  unfolding yields_def
proof (intro allI)
  fix pre post :: "byte list"
  let ?s = "le_bytes 4 (ic_seq c)" and ?a = "le_bytes 2 (packAngle (ic_angle c))"
    and ?b = "le_bytes 1 (if ic_boost c then 1 else 0)" and ?d = "le_bytes 1 (min 255 (js_round (ic_dt c)))"
    and ?buf = "pre @ command_bytes c @ post"
  have "getUint 2 (length pre + 4) ?buf = Inr (packAngle (ic_angle c) mod 256 ^ 2)"
    using getUint_at [of "length pre + 4" "pre @ ?s" 2] by (simp add: command_bytes_def)
  moreover have "getUint 4 (length pre) ?buf = Inr (ic_seq c mod 256 ^ 4)"
    using getUint_at [of "length pre" pre 4] by (simp add: command_bytes_def)
  moreover have "getUint 1 (length pre + 6) ?buf = Inr ((if ic_boost c then 1 else 0) mod 256 ^ 1)"
    using getUint_at [of "length pre + 6" "pre @ ?s @ ?a" 1] by (simp add: command_bytes_def)
  moreover have "getUint 1 (length pre + 7) ?buf = Inr (min 255 (js_round (ic_dt c)) mod 256 ^ 1)"
    using getUint_at [of "length pre + 7" "pre @ ?s @ ?a @ ?b" 1] by (simp add: command_bytes_def)
  ultimately show "readCommand ?buf (length pre) = Inr (command_received c, length pre + length (command_bytes c))"
    using assms packAngle_bounds [of "ic_angle c"] js_round_nonneg [of "ic_dt c"]
    by (simp add: readCommand_def command_received_def command_ok_def min_def)
qed

interpretation command: wire_item writeCommand command_bytes readCommand command_received command_ok
  by unfold_locales (simp_all add: wire yields_command)

text \<open>What a decoded command is, whoever sent it.\<close>

definition command_safe :: "input_command \<Rightarrow> bool" where
  "command_safe c \<longleftrightarrow> 0 \<le> ic_seq c \<and> ic_seq c < 2 ^ 32 \<and> - MATH_PI < ic_angle c \<and> ic_angle c \<le> MATH_PI \<and>
     0 \<le> ic_dt c \<and> ic_dt c \<le> 255"

lemma getUint_inside:
  assumes "off + k \<le> length buf"
  shows "\<exists>n. getUint k off buf = Inr n \<and> 0 \<le> n \<and> n < 256 ^ k"
  using assms le_value_bounds [of "take k (drop off buf)"] by (simp add: getUint_def get_bytes_def)

lemma signedAngle_bounds:
  assumes "0 \<le> n" and "n \<le> 65535"
  shows "- MATH_PI < signedAngle (of_int n / ANGLE_SCALE)" and "signedAngle (of_int n / ANGLE_SCALE) \<le> MATH_PI"
proof -
  have "0 \<le> of_int n / ANGLE_SCALE" using assms(1) by (simp add: less_imp_le)
  moreover have "of_int n / ANGLE_SCALE \<le> TURN"
  proof -
    have "of_int n \<le> TURN * ANGLE_SCALE" using assms(2) unfolding TURN_scale by simp
    then show ?thesis by (simp add: pos_divide_le_eq)
  qed
  ultimately show "- MATH_PI < signedAngle (of_int n / ANGLE_SCALE)" "signedAngle (of_int n / ANGLE_SCALE) \<le> MATH_PI"
    using MATH_PI_pos(1) unfolding signedAngle_def by (auto simp del: MATH_PI_pos)
qed

lemma readCommand_inside:
  assumes "off + 8 \<le> length buf"
  shows "\<exists>c. readCommand buf off = Inr (c, off + 8) \<and> command_safe c"
proof -
  obtain a where a: "getUint 2 (off + 4) buf = Inr a" "0 \<le> a" "a < 256 ^ 2" using getUint_inside [of "off + 4" 2 buf] assms by auto
  obtain s where s: "getUint 4 off buf = Inr s" "0 \<le> s" "s < 256 ^ 4" using getUint_inside [of off 4 buf] assms by auto
  obtain b where b: "getUint 1 (off + 6) buf = Inr b" using getUint_inside [of "off + 6" 1 buf] assms by auto
  obtain d where d: "getUint 1 (off + 7) buf = Inr d" "0 \<le> d" "d < 256 ^ 1" using getUint_inside [of "off + 7" 1 buf] assms by auto
  show ?thesis
    using signedAngle_bounds [of a] a s b d by (simp add: readCommand_def command_safe_def)
qed

lemma read_commands_inside:
  "off + 8 * n \<le> length buf \<Longrightarrow>
    \<exists>cs. read_each readCommand n buf off = Inr (cs, off + 8 * n) \<and> length cs = n \<and> list_all command_safe cs"
proof (induction n arbitrary: off)
  case (Suc n)
  obtain c where c: "readCommand buf off = Inr (c, off + 8)" "command_safe c"
    using readCommand_inside [of off buf] Suc.prems by auto
  obtain cs where "read_each readCommand n buf (off + 8) = Inr (cs, off + 8 + 8 * n)" "length cs = n" "list_all command_safe cs"
    using Suc.IH [of "off + 8"] Suc.prems by auto
  with c show ?case by simp
qed simp

text \<open>
  C23: a client cannot make the server read outside a packet: every sequence of bytes is refused with an error
  of the protocol or decoded to one to ten commands that the packet has room for, each with a heading within
  half a turn either way and a step of at most 255 milliseconds.
\<close>
theorem input_batch_safe:
  "case decodeInputBatch buf of
     Inl e \<Rightarrow> e \<noteq> OutOfBounds
   | Inr batch \<Rightarrow> ib_commands batch \<noteq> [] \<and> length (ib_commands batch) \<le> 10 \<and>
       6 + 8 * length (ib_commands batch) \<le> length buf \<and> 0 \<le> ib_clientTime batch \<and> ib_clientTime batch < 2 ^ 32 \<and>
       list_all command_safe (ib_commands batch)"
proof (cases "length buf < 6")
  case False
  obtain t where t: "getUint 1 0 buf = Inr t" using getUint_inside [of 0 1 buf] False by auto
  obtain n where n: "getUint 1 1 buf = Inr n" "0 \<le> n" using getUint_inside [of 1 1 buf] False by auto
  obtain k where k: "getUint 4 2 buf = Inr k" "0 \<le> k" "k < 2 ^ 32" using getUint_inside [of 2 4 buf] False by auto
  show ?thesis
  proof (cases "t = INPUT_BATCH_TYPE \<and> n \<noteq> 0 \<and> n \<le> 10 \<and> 6 + n * 8 \<le> int (length buf)")
    case True
    then have "6 + 8 * nat n \<le> length buf" using n(2) by linarith
    from read_commands_inside [OF this] obtain cs where
      "read_each readCommand (nat n) buf 6 = Inr (cs, 6 + 8 * nat n)" "length cs = nat n" "list_all command_safe cs" by auto
    with True False t n k show ?thesis by (auto simp: decodeInputBatch_def)
  next
    case ok: False
    with False t n show ?thesis by (auto simp: decodeInputBatch_def)
  qed
qed (simp add: decodeInputBatch_def)

text \<open>
  inputs arrive as they were sampled: a batch of one to ten commands is decoded to the same sequence
  numbers and flags, headings within half a step of the wire up to full turns, and steps rounded to the
  millisecond.
\<close>
theorem input_batch_roundtrip:
  assumes "ib_commands batch \<noteq> []" and "length (ib_commands batch) \<le> 10" and "list_all command_ok (ib_commands batch)"
    and "0 \<le> ib_clientTime batch" and "ib_clientTime batch < 2 ^ 32"
  shows "\<exists>buf b. encodeInputBatch batch = Inr buf \<and> length buf = 6 + 8 * length (ib_commands batch) \<and>
    decodeInputBatch buf = Inr b \<and> ib_clientTime b = ib_clientTime batch \<and>
    list_all2 (\<lambda>c d. ic_seq d = ic_seq c \<and> ic_boost d = ic_boost c \<and> same_angle (ic_angle c) (ic_angle d) \<and>
       (ic_dt c \<le> 255 \<longrightarrow> \<bar>ic_dt d - ic_dt c\<bar> \<le> 1 / 2)) (ib_commands batch) (ib_commands b)"
proof -
  let ?cs = "ib_commands batch"
  let ?head = "le_bytes 1 INPUT_BATCH_TYPE @ le_bytes 1 (int (length ?cs)) @ le_bytes 4 (ib_clientTime batch)"
  let ?body = "concat (map command_bytes ?cs)"
  let ?w = "\<lambda>c. rbind (writeUint 1 INPUT_BATCH_TYPE c) (\<lambda>c. rbind (writeUint 1 (int (length ?cs)) c) (\<lambda>c.
      rbind (writeUint 4 (ib_clientTime batch) c) (write_each writeCommand ?cs)))"
  let ?buf = "(le_bytes 1 INPUT_BATCH_TYPE @ le_bytes 1 (int (length ?cs)) @ le_bytes 4 (ib_clientTime batch)) @ ?body"
  have n: "int (length ?cs) mod 256 = int (length ?cs)" "0 < length ?cs" using assms(1,2) by simp_all
  have l: "length ?body = 8 * length ?cs" by (rule length_commands)
  have "emits ?w (le_bytes 1 INPUT_BATCH_TYPE @ le_bytes 1 (int (length ?cs)) @ le_bytes 4 (ib_clientTime batch) @ ?body)"
    by (intro emits_seq emits_uint command.writes_all)
  from emitsD [OF this, of 0 "replicate (6 + length ?cs * 8) 0"]
  have e: "encodeInputBatch batch = Inr ?buf"
    by (auto simp: encodeInputBatch_def rbind_def l patch_def split: sum.splits)
  have t: "getUint 1 0 ?buf = Inr (INPUT_BATCH_TYPE mod 256 ^ 1)" using getUint_at [of 0 "[]" 1] by simp
  have c: "getUint 1 1 ?buf = Inr (int (length ?cs) mod 256 ^ 1)"
    using getUint_at [of 1 "le_bytes 1 INPUT_BATCH_TYPE" 1 "int (length ?cs)" "le_bytes 4 (ib_clientTime batch) @ ?body"] by simp
  have k: "getUint 4 2 ?buf = Inr (ib_clientTime batch mod 256 ^ 4)"
    using getUint_at [of 2 "le_bytes 1 INPUT_BATCH_TYPE @ le_bytes 1 (int (length ?cs))" 4] by simp
  have "read_each readCommand (length ?cs) (?head @ ?body @ []) 6 = Inr (map command_received ?cs, 6 + length ?body)"
    by (rule yieldsD [OF command.reads_all [OF assms(3) refl]]) simp
  then have r: "read_each readCommand (length ?cs) ?buf 6 = Inr (map command_received ?cs, 6 + length ?body)" by simp
  have d: "decodeInputBatch ?buf = Inr \<lparr>ib_commands = map command_received ?cs, ib_clientTime = ib_clientTime batch\<rparr>"
    using assms(2,4,5) n r l unfolding decodeInputBatch_def t c k by (simp add: INPUT_BATCH_TYPE_def)
  have near: "ic_seq (command_received x) = ic_seq x \<and> ic_boost (command_received x) = ic_boost x \<and>
      same_angle (ic_angle x) (ic_angle (command_received x)) \<and> (ic_dt x \<le> 255 \<longrightarrow> \<bar>ic_dt (command_received x) - ic_dt x\<bar> \<le> 1 / 2)" for x
    using capped_near [of "ic_dt x" 255] same_angle_turned [OF packed_angle, of "ic_angle x"] by (simp add: command_received_def)
  have "length ?buf = 6 + 8 * length ?cs" by (simp add: l)
  moreover have "list_all2 (\<lambda>c d. ic_seq d = ic_seq c \<and> ic_boost d = ic_boost c \<and> same_angle (ic_angle c) (ic_angle d) \<and>
       (ic_dt c \<le> 255 \<longrightarrow> \<bar>ic_dt d - ic_dt c\<bar> \<le> 1 / 2)) ?cs (map command_received ?cs)"
    unfolding list_all2_conv_all_nth using near by simp
  ultimately show ?thesis using e d by simp
qed

section \<open>Witnesses\<close>

definition sample_snapshot :: snapshot where
  "sample_snapshot = \<lparr>ss_tick = 4242, ss_serverTime = 123456, ss_ackSeq = 99,
     ss_snakes = [\<lparr>sn_id = ''123e4567-e89b-12d3-a456-426614174000'', sn_nickname = [97, 108, 105, 99, 101],
       sn_points = [\<lparr>vx = 1010, vy = - 490\<rparr>, \<lparr>vx = 1000, vy = - 500\<rparr>, \<lparr>vx = 990, vy = - 510\<rparr>],
       sn_angle = 5 / 4, sn_mass = 250, sn_radius = 67 / 2, sn_boosting = True, sn_skinId = None, sn_isBot = False\<rparr>],
     ss_food = [\<lparr>fd_id = 7, fd_position = \<lparr>vx = 1050, vy = - 450\<rparr>, fd_mass = 4, fd_hue = 120\<rparr>],
     ss_removedSnakes = [''00000000-0000-0000-0000-0000000000ff''], ss_removedFood = [11, 12, 13]\<rparr>"

definition sample_batch :: input_batch where
  "sample_batch = \<lparr>ib_commands = [\<lparr>ic_seq = 1, ic_angle = 1 / 2, ic_boost = False, ic_dt = 33\<rparr>,
     \<lparr>ic_seq = 2, ic_angle = - 3 / 2, ic_boost = True, ic_dt = 34\<rparr>], ib_clientTime = 987654\<rparr>"

lemma sample_uuids:
  "uuid_format ''123e4567-e89b-12d3-a456-426614174000''" "uuid_format ''00000000-0000-0000-0000-0000000000ff''"
  by code_simp+

lemma sample_name: "plain_text [97, 108, 105, 99, 101]" "length (encodeText [97, 108, 105, 99, 101]) = 5"
  by (simp_all add: plain_text_def is_lead_def is_trail_def encodeText_def utf8_code_def)

lemma sample_sendable: "sendable sample_snapshot"
  by (simp add: sendable_def sample_snapshot_def snake_ok_def food_ok_def sample_uuids sample_name)

theorem snapshot_roundtrip_witness:
  "\<exists>buf t. encodeSnapshot sample_snapshot \<lparr>vx = 1000, vy = - 500\<rparr> True = Inr buf \<and>
    decodeSnapshot buf \<lparr>vx = 1000, vy = - 500\<rparr> = Inr t \<and> ss_tick t = 4242 \<and> ss_removedFood t = [11, 12, 13] \<and>
    map sn_id (ss_snakes t) = [''123e4567-e89b-12d3-a456-426614174000'']"
proof -
  let ?o = "\<lparr>vx = 1000, vy = - 500\<rparr>"
  from snapshot_roundtrip [OF sample_sendable, of ?o True] obtain buf t where
    t: "encodeSnapshot sample_snapshot ?o True = Inr buf" "decodeSnapshot buf ?o = Inr t" "ss_tick t = ss_tick sample_snapshot"
      "ss_removedFood t = ss_removedFood sample_snapshot"
      "list_all2 (snake_near ?o) (ss_snakes sample_snapshot) (ss_snakes t)" by blast
  from t(5) have "map sn_id (ss_snakes t) = map (map ascii_lower) (map sn_id (ss_snakes sample_snapshot))"
    by (auto simp: list_all2_conv_all_nth snake_near_def intro!: nth_equalityI)
  also have "\<dots> = [''123e4567-e89b-12d3-a456-426614174000'']"
    by (simp add: sample_snapshot_def ascii_lower_def)
  finally show ?thesis using t by (auto simp: sample_snapshot_def)
qed

theorem input_batch_roundtrip_witness:
  "\<exists>buf b. encodeInputBatch sample_batch = Inr buf \<and> length buf = 22 \<and> decodeInputBatch buf = Inr b \<and>
    map ic_seq (ib_commands b) = [1, 2] \<and> map ic_boost (ib_commands b) = [False, True]"
proof -
  have ok: "ib_commands sample_batch \<noteq> []" "length (ib_commands sample_batch) \<le> 10" "list_all command_ok (ib_commands sample_batch)"
    "0 \<le> ib_clientTime sample_batch" "ib_clientTime sample_batch < 2 ^ 32"
    by (simp_all add: sample_batch_def command_ok_def)
  from input_batch_roundtrip [OF ok] show ?thesis
    by (auto simp: sample_batch_def list_all2_Cons1)
qed

end
