(* ===== verification/Spatial_Hash.thy ===== *)
theory Spatial_Hash
  imports Complex_Main "HOL-Library.Word" Prelude
begin

unbundle bit_operations_syntax

text \<open>
  The uniform grid of \<open>packages/game-core/src/spatial-hash.ts\<close>: entities are kept in buckets by cell, a query
  returns what lies in the cells a circle touches. Coordinates are real numbers, keys of cells are the 32-bit
  integers the code packs. The locale \<open>broad_phase\<close> is what the simulation asks of such an index: that a query
  names everything inside its square and nothing that was never put in.
\<close>

section \<open>Cells\<close>

definition cellKey :: "int \<Rightarrow> int \<Rightarrow> 32 word" where
  "cellKey cx cy = push_bit 16 (word_of_int (cx + 32768)) OR word_of_int (cy + 32768)"

record spatial_hash =
  sh_cellSize :: real
  sh_buckets :: "32 word \<Rightarrow> nat list option"

definition new_hash :: "real \<Rightarrow> (string, spatial_hash) res" where
  "new_hash cellSize =
    (if cellSize \<le> 0 then Inl ''cellSize must be positive''
     else Inr \<lparr>sh_cellSize = cellSize, sh_buckets = \<lambda>_. None\<rparr>)"

definition cellOf :: "spatial_hash \<Rightarrow> real \<Rightarrow> int" where
  "cellOf h v = \<lfloor>v / sh_cellSize h\<rfloor>"

definition keyOf :: "spatial_hash \<Rightarrow> real \<times> real \<Rightarrow> 32 word" where
  "keyOf h p = cellKey (cellOf h (fst p)) (cellOf h (snd p))"

definition insert_entity :: "nat \<Rightarrow> real \<times> real \<Rightarrow> spatial_hash \<Rightarrow> spatial_hash" where
  "insert_entity eid p h =
    (let key = keyOf h p in
     h\<lparr>sh_buckets := (sh_buckets h)(key \<mapsto>
        (case sh_buckets h key of Some bucket \<Rightarrow> bucket @ [eid] | None \<Rightarrow> [eid]))\<rparr>)"

definition swap_remove :: "nat \<Rightarrow> 'a list \<Rightarrow> 'a list" where
  "swap_remove i bucket =
    (let rest = butlast bucket in if i < length rest then rest[i := last bucket] else rest)"

definition remove_entity :: "nat \<Rightarrow> real \<times> real \<Rightarrow> spatial_hash \<Rightarrow> spatial_hash" where
  "remove_entity eid p h =
    (let key = keyOf h p in
     (case sh_buckets h key of
        None \<Rightarrow> h
      | Some bucket \<Rightarrow>
          (case find_index (\<lambda>e. e = eid) bucket of
             None \<Rightarrow> h
           | Some i \<Rightarrow>
               (let bucket' = swap_remove i bucket
                in h\<lparr>sh_buckets := (sh_buckets h)(key := (if bucket' = [] then None else Some bucket'))\<rparr>))))"

definition queryCircle :: "real \<times> real \<Rightarrow> real \<Rightarrow> spatial_hash \<Rightarrow> nat list" where
  "queryCircle p r h =
    concat (map (\<lambda>cx. concat (map (\<lambda>cy. case sh_buckets h (cellKey cx cy) of None \<Rightarrow> [] | Some bucket \<Rightarrow> bucket)
        [cellOf h (snd p - r)..cellOf h (snd p + r)]))
      [cellOf h (fst p - r)..cellOf h (fst p + r)])"

definition clear_hash :: "spatial_hash \<Rightarrow> spatial_hash" where
  "clear_hash h = h\<lparr>sh_buckets := \<lambda>_. None\<rparr>"

section \<open>What the index contains\<close>

definition bucket_of :: "spatial_hash \<Rightarrow> 32 word \<Rightarrow> nat list" where
  "bucket_of h key = (case sh_buckets h key of None \<Rightarrow> [] | Some bucket \<Rightarrow> bucket)"

text \<open>The index holds exactly the entities of a table of positions, each in the bucket of its cell, once.\<close>

definition indexes :: "spatial_hash \<Rightarrow> (nat \<times> real \<times> real) list \<Rightarrow> bool" where
  "indexes h es \<longleftrightarrow> 0 < sh_cellSize h \<and> distinct (map fst es) \<and>
    (\<forall>key. distinct (bucket_of h key) \<and> set (bucket_of h key) = fst ` {x \<in> set es. keyOf h (snd x) = key})"

lemma cellOf_mono: "0 < sh_cellSize h \<Longrightarrow> x \<le> y \<Longrightarrow> cellOf h x \<le> cellOf h y"
  unfolding cellOf_def by (intro floor_mono divide_right_mono) simp_all

lemma set_queryCircle:
  "set (queryCircle p r h) =
    (\<Union>cx \<in> {cellOf h (fst p - r)..cellOf h (fst p + r)}. \<Union>cy \<in> {cellOf h (snd p - r)..cellOf h (snd p + r)}.
      set (bucket_of h (cellKey cx cy)))"
  by (simp add: queryCircle_def bucket_of_def)

lemma indexed_in: "indexes h es \<Longrightarrow> (e, p) \<in> set es \<Longrightarrow> e \<in> set (bucket_of h (keyOf h p))"
  unfolding indexes_def by force

lemma indexes_clear: "0 < sh_cellSize h \<Longrightarrow> indexes (clear_hash h) []"
  by (simp add: indexes_def clear_hash_def bucket_of_def)

lemma keyOf_buckets [simp]: "keyOf (h\<lparr>sh_buckets := b\<rparr>) p = keyOf h p"
  by (simp add: keyOf_def cellOf_def)

lemma indexes_insert:
  assumes "indexes h es" and "e \<notin> fst ` set es"
  shows "indexes (insert_entity e p h) (es @ [(e, p)])"
proof -
  have b: "bucket_of (insert_entity e p h) key = bucket_of h key @ (if key = keyOf h p then [e] else [])" for key
    by (simp add: bucket_of_def insert_entity_def Let_def split: option.split)
  have k: "keyOf (insert_entity e p h) q = keyOf h q" for q by (simp add: insert_entity_def Let_def)
  have fresh: "e \<notin> set (bucket_of h key)" for key using assms by (force simp: indexes_def)
  have set: "fst ` {x \<in> set (es @ [(e, p)]). keyOf h (snd x) = key} =
      fst ` {x \<in> set es. keyOf h (snd x) = key} \<union> (if key = keyOf h p then {e} else {})" for key
    by (force split: if_splits)
  show ?thesis
    using assms fresh unfolding indexes_def b k set by (auto simp: insert_entity_def Let_def)
qed

lemma swap_remove_set:
  assumes "distinct xs" and "i < length xs"
  shows "set (swap_remove i xs) = set xs - {xs ! i}" and "distinct (swap_remove i xs)"
proof -
  obtain ys z where xs: "xs = ys @ [z]" using assms(2) by (cases xs rule: rev_cases) auto
  have "set (swap_remove i xs) = set xs - {xs ! i} \<and> distinct (swap_remove i xs)"
  proof (cases "i < length ys")
    case True
    with assms(1) have "z \<noteq> ys ! i" "z \<notin> set ys" "distinct ys" by (auto simp: xs)
    with True show ?thesis
      by (auto simp: xs swap_remove_def nth_append set_update_distinct distinct_list_update)
  next
    case False
    with assms have "xs ! i = z" by (auto simp: xs nth_append)
    with False assms(1) show ?thesis by (auto simp: xs swap_remove_def)
  qed
  then show "set (swap_remove i xs) = set xs - {xs ! i}" and "distinct (swap_remove i xs)" by auto
qed

lemma indexes_remove:
  assumes h: "indexes h es" and e: "(e, p) \<in> set es"
  shows "indexes (remove_entity e p h) (filter (\<lambda>x. fst x \<noteq> e) es)"
proof -
  let ?k = "keyOf h p"
  have mem: "e \<in> set (bucket_of h ?k)" using indexed_in [OF h e] .
  then obtain bucket where bucket: "sh_buckets h ?k = Some bucket" by (cases "sh_buckets h ?k") (auto simp: bucket_of_def)
  with mem have "e \<in> set bucket" by (simp add: bucket_of_def)
  then obtain i where i: "find_index (\<lambda>x. x = e) bucket = Some i"
    using find_index_from_None [of 0 "\<lambda>x. x = e" bucket] by auto
  note find = find_index_from_Some [OF i]
  have eq: "bucket_of h ?k = bucket" using bucket by (simp add: bucket_of_def)
  have d: "distinct bucket" using h unfolding indexes_def eq [symmetric] by blast
  have sw: "set (swap_remove i bucket) = set bucket - {e}" "distinct (swap_remove i bucket)"
    using swap_remove_set [OF d, of i] find by auto
  have b: "bucket_of (remove_entity e p h) key = (if key = ?k then swap_remove i bucket else bucket_of h key)" for key
    using bucket i by (simp add: bucket_of_def remove_entity_def Let_def)
  have k: "keyOf (remove_entity e p h) q = keyOf h q" for q
    using bucket i by (simp add: remove_entity_def Let_def)
  have size: "0 < sh_cellSize (remove_entity e p h)"
    using h bucket i by (simp add: remove_entity_def Let_def indexes_def)
  have only: "q = p" if "(e, q) \<in> set es" for q
    using h e that by (force simp: indexes_def dest: distinct_key_eq [where key = fst])
  have "set (bucket_of (remove_entity e p h) key) = fst ` {x \<in> set (filter (\<lambda>x. fst x \<noteq> e) es). keyOf h (snd x) = key}"
    for key
  proof -
    have "set (bucket_of h key) = fst ` {x \<in> set es. keyOf h (snd x) = key}" using h by (simp add: indexes_def)
    moreover have "set (bucket_of (remove_entity e p h) key) = set (bucket_of h key) - {e}"
    proof (cases "key = ?k")
      case True
      then show ?thesis using sw(1) bucket by (simp add: b) (simp add: bucket_of_def)
    next
      case False
      then have "e \<notin> set (bucket_of h key)" using h only by (auto simp: indexes_def)
      with False show ?thesis by (simp add: b)
    qed
    ultimately show ?thesis by auto
  qed
  moreover have "distinct (bucket_of (remove_entity e p h) key)" for key
    using sw(2) h by (simp add: b indexes_def)
  moreover have "distinct (map fst (filter (\<lambda>x. fst x \<noteq> e) es))"
    using h by (intro distinct_map_filter) (simp add: indexes_def)
  ultimately show ?thesis using size by (simp add: indexes_def k)
qed

section \<open>A query misses nothing and makes nothing up\<close>

text \<open>Whatever lies in the square around the circle is named, whatever is named is indexed; no bound on coordinates.\<close>

lemma queryCircle_complete:
  assumes "indexes h es" and "(e, q) \<in> set es" and "\<bar>fst q - fst p\<bar> \<le> r" and "\<bar>snd q - snd p\<bar> \<le> r"
  shows "e \<in> set (queryCircle p r h)"
proof -
  have c: "0 < sh_cellSize h" using assms(1) by (simp add: indexes_def)
  have "cellOf h (fst q) \<in> {cellOf h (fst p - r)..cellOf h (fst p + r)}"
    "cellOf h (snd q) \<in> {cellOf h (snd p - r)..cellOf h (snd p + r)}"
    using assms(3,4) by (auto intro!: cellOf_mono [OF c])
  moreover have "e \<in> set (bucket_of h (cellKey (cellOf h (fst q)) (cellOf h (snd q))))"
    using indexed_in [OF assms(1,2)] by (simp add: keyOf_def)
  ultimately show ?thesis unfolding set_queryCircle by blast
qed

lemma queryCircle_sound: "indexes h es \<Longrightarrow> e \<in> set (queryCircle p r h) \<Longrightarrow> e \<in> fst ` set es"
  unfolding set_queryCircle by (force simp: indexes_def)

text \<open>Inside the range of 16-bit cells, keys are not shared, so nothing is named twice.\<close>

definition cell_in_range :: "int \<Rightarrow> bool" where
  "cell_in_range c \<longleftrightarrow> - 32768 \<le> c \<and> c < 32768"

lemma uint_cellKey:
  assumes "cell_in_range cx" and "cell_in_range cy"
  shows "uint (cellKey cx cy) = (cx + 32768) * 65536 + (cy + 32768)"
proof -
  define a b where "a = cx + 32768" and "b = cy + 32768"
  have r: "0 \<le> a" "a < 65536" "0 \<le> b" "b < 65536" using assms by (simp_all add: a_def b_def cell_in_range_def)
  have "push_bit 16 a AND b = 0"
  proof (rule bit_eqI)
    fix n
    have "\<not> bit b n" if "16 \<le> n"
    proof -
      have "take_bit 16 b = b" using r by (simp add: take_bit_int_eq_self)
      with that show ?thesis by (metis bit_take_bit_iff linorder_not_less)
    qed
    then show "bit (push_bit 16 a AND b) n \<longleftrightarrow> bit (0 :: int) n"
      by (auto simp: bit_and_iff bit_push_bit_iff)
  qed
  then have "push_bit 16 a OR b = push_bit 16 a + b" by (simp add: disjunctive_add_eq_or)
  moreover have "cellKey cx cy = word_of_int (push_bit 16 a OR b)"
    unfolding cellKey_def a_def [symmetric] b_def [symmetric]
    by (rule bit_word_eqI) (auto simp: bit_or_iff bit_push_bit_iff bit_word_of_int_iff)
  ultimately have "cellKey cx cy = word_of_int (a * 65536 + b)" by (simp only: push_bit_eq_mult) simp
  then have "uint (cellKey cx cy) = (a * 65536 + b) mod 2 ^ 32" by (simp only: uint_word_of_int) simp
  also have "\<dots> = a * 65536 + b" using r by (intro mod_pos_pos_trivial) simp_all
  finally show ?thesis by (simp add: a_def b_def)
qed

lemma cellKey_inj:
  assumes "cell_in_range a" "cell_in_range b" "cell_in_range c" "cell_in_range d" and "cellKey a b = cellKey c d"
  shows "a = c \<and> b = d"
proof -
  define x y u v where "x = a + 32768" and "y = b + 32768" and "u = c + 32768" and "v = d + 32768"
  have e: "x * 65536 + y = u * 65536 + v"
    using arg_cong [OF assms(5), of uint] assms(1-4) unfolding x_def y_def u_def v_def by (simp only: uint_cellKey)
  have r: "0 \<le> y" "y < 65536" "0 \<le> v" "v < 65536"
    using assms(2,4) by (simp_all add: cell_in_range_def y_def v_def)
  have "x = (x * 65536 + y) div 65536" "u = (u * 65536 + v) div 65536" using r by simp_all
  with e have "x = u" by simp
  with e show ?thesis by (simp add: x_def y_def u_def v_def)
qed

end
