(* ===== verification/Simulation.thy ===== *)
theory Simulation
  imports Spatial_Hash
begin

text \<open>
  The authoritative simulation of the arena (\<open>packages/game-core/src/simulation.ts\<close>, \<open>types.ts\<close>, with the tuning
  of \<open>packages/protocol/src/constants.ts\<close>). Coordinates, angles and masses are real numbers: the rounding of
  doubles and of the 32-bit spine is left out. The random stream is exact, it is arithmetic on 32-bit words.
  A JavaScript \<open>Map\<close> is a list of its values in the order of insertion, which is the order it is iterated in.
\<close>

section \<open>Tuning\<close>

definition BASE_SPEED :: real where "BASE_SPEED = 220"
definition BOOST_SPEED_MULTIPLIER :: real where "BOOST_SPEED_MULTIPLIER = 19 / 10"
definition BOOST_MASS_DRAIN_PER_SECOND :: real where "BOOST_MASS_DRAIN_PER_SECOND = 4"
definition MIN_BOOST_MASS :: real where "MIN_BOOST_MASS = 20"
definition STARTING_MASS :: real where "STARTING_MASS = 10"
definition MAX_TURN_RATE_RAD_PER_SEC :: real where "MAX_TURN_RATE_RAD_PER_SEC = 42 / 10"
definition SEGMENT_SPACING :: real where "SEGMENT_SPACING = 12"
definition FOOD_MASS_MIN :: real where "FOOD_MASS_MIN = 1"
definition FOOD_MASS_MAX :: real where "FOOD_MASS_MAX = 6"
definition SPINE_CAPACITY :: nat where "SPINE_CAPACITY = 420"

section \<open>State\<close>

type_synonym point = "real \<times> real"

record snake_entity =
  se_id :: nat
  se_playerId :: string
  se_nickname :: string
  se_spine :: "point list"
  se_headIndex :: nat
  se_spineLength :: nat
  se_spineCapacity :: nat
  se_angle :: real
  se_targetAngle :: real
  se_speed :: real
  se_mass :: real
  se_radius :: real
  se_boosting :: bool
  se_alive :: bool
  se_isBot :: bool
  se_lastAckSeq :: int
  se_spawnedAtTick :: nat
  se_kills :: nat
  se_score :: int
  se_boostDebt :: real
  se_sinceLastPoint :: real

record food_entity =
  fe_id :: nat
  fe_pos :: point
  fe_mass :: real
  fe_hue :: int
  fe_expiresAtTick :: "nat option"

record sim_input =
  si_seq :: int
  si_angle :: real
  si_boost :: bool

record world_state =
  ws_tick :: nat
  ws_elapsedMs :: real
  ws_snakes :: "snake_entity list"
  ws_food :: "food_entity list"
  ws_playerIndex :: "string \<Rightarrow> nat option"
  ws_pendingInputs :: "nat \<Rightarrow> sim_input list option"
  ws_nextEntityId :: nat
  ws_radius :: real
  ws_random :: "32 word"

record sim_config =
  sc_tickRateHz :: nat
  sc_worldRadius :: real
  sc_cellSize :: real
  sc_seed :: int
  sc_targetFood :: "nat option"

datatype death_cause = ByCollision | ByWall

record death_event =
  de_victim :: nat
  de_victimPlayerId :: string
  de_killer :: "nat option"
  de_killerPlayerId :: "string option"
  de_cause :: death_cause
  de_finalScore :: int

record tick_result =
  tr_tick :: nat
  tr_deaths :: "death_event list"
  tr_foodConsumed :: nat
  tr_foodSpawned :: nat

section \<open>The random stream\<close>

definition createRng :: "int \<Rightarrow> 32 word" where
  "createRng seed = word_of_int seed"

definition rng_next :: "32 word \<Rightarrow> 32 word" where
  "rng_next s = s + 0x6d2b79f5"

definition rng_output :: "32 word \<Rightarrow> 32 word" where
  "rng_output s =
    (let t = (s XOR drop_bit 15 s) * (s OR 1);
         t = t XOR (t + (t XOR drop_bit 7 t) * (t OR 61))
     in t XOR drop_bit 14 t)"

definition random_draw :: "world_state \<Rightarrow> real \<times> world_state" where
  "random_draw w =
    (let s = rng_next (ws_random w) in (real_of_int (uint (rng_output s)) / 4294967296, w\<lparr>ws_random := s\<rparr>))"

section \<open>Derived quantities\<close>

definition radiusForMass :: "real \<Rightarrow> real" where
  "radiusForMass mass = 8 + sqrt (max 0 mass) * (16 / 10)"

definition lengthForMass :: "real \<Rightarrow> nat" where
  "lengthForMass mass = min 400 (nat \<lfloor>6 + max 0 mass * (9 / 10)\<rfloor>)"

definition scoreForMass :: "real \<Rightarrow> int" where
  "scoreForMass mass = max 0 \<lfloor>(mass - STARTING_MASS) * 10\<rfloor>"

text \<open>The operator \<open>%\<close> keeps the sign of the dividend.\<close>

definition real_rem :: "real \<Rightarrow> real \<Rightarrow> real" where
  "real_rem x y = x - y * (if x / y < 0 then real_of_int \<lceil>x / y\<rceil> else real_of_int \<lfloor>x / y\<rfloor>)"

definition angleDelta :: "real \<Rightarrow> real \<Rightarrow> real" where
  "angleDelta source target =
    (let delta = real_rem (target - source) (pi * 2);
         delta = (if pi < delta then delta - pi * 2 else delta)
     in if delta < - pi then delta + pi * 2 else delta)"

definition hypot :: "real \<Rightarrow> real \<Rightarrow> real" where
  "hypot x y = sqrt (x\<^sup>2 + y\<^sup>2)"

definition distance_of :: "point \<Rightarrow> point \<Rightarrow> real" where
  "distance_of p q = hypot (fst p - fst q) (snd p - snd q)"

definition targetFood :: "sim_config \<Rightarrow> nat" where
  "targetFood cfg = (case sc_targetFood cfg of Some n \<Rightarrow> n
     | None \<Rightarrow> nat \<lfloor>(pi * (sc_worldRadius cfg)\<^sup>2 / 1000000) * 220\<rfloor>)"

definition dtSeconds :: "sim_config \<Rightarrow> real" where
  "dtSeconds cfg = 1 / real (sc_tickRateHz cfg)"

section \<open>The spine\<close>

definition spine_at :: "snake_entity \<Rightarrow> nat \<Rightarrow> point" where
  "spine_at s i = (if i < length (se_spine s) then se_spine s ! i else (0, 0))"

definition headOf :: "snake_entity \<Rightarrow> point" where
  "headOf s = spine_at s (se_headIndex s)"

definition pointAt :: "snake_entity \<Rightarrow> int \<Rightarrow> point" where
  "pointAt s offset =
    (let clamped = min (max 0 offset) (int (se_spineLength s) - 1)
     in spine_at s (nat ((int (se_headIndex s) - clamped + int (se_spineCapacity s)) mod int (se_spineCapacity s))))"

definition pushPoint :: "point \<Rightarrow> snake_entity \<Rightarrow> snake_entity" where
  "pushPoint p s =
    (let i = (se_headIndex s + 1) mod se_spineCapacity s;
         capacity = min (lengthForMass (se_mass s)) (se_spineCapacity s)
     in s\<lparr>se_headIndex := i, se_spine := (se_spine s)[i := p], se_spineLength := min (se_spineLength s + 1) capacity\<rparr>)"

definition setMass :: "real \<Rightarrow> snake_entity \<Rightarrow> snake_entity" where
  "setMass mass s =
    (let m = max 1 mass;
         capacity = min (lengthForMass m) (se_spineCapacity s)
     in s\<lparr>se_mass := m, se_radius := radiusForMass m, se_score := scoreForMass m,
          se_spineLength := (if capacity < se_spineLength s then capacity else se_spineLength s)\<rparr>)"

section \<open>Looking entities up\<close>

definition snakeById :: "nat \<Rightarrow> world_state \<Rightarrow> snake_entity option" where
  "snakeById i w = find (\<lambda>s. se_id s = i) (ws_snakes w)"

definition getByPlayerId :: "string \<Rightarrow> world_state \<Rightarrow> snake_entity option" where
  "getByPlayerId p w = (case ws_playerIndex w p of None \<Rightarrow> None | Some i \<Rightarrow> snakeById i w)"

definition setSnake :: "snake_entity \<Rightarrow> world_state \<Rightarrow> world_state" where
  "setSnake s w = w\<lparr>ws_snakes := upd_rows (\<lambda>x. se_id x = se_id s) (\<lambda>_. s) (ws_snakes w)\<rparr>"

section \<open>Food\<close>

definition spawnFood :: "point option \<Rightarrow> real option \<Rightarrow> nat option \<Rightarrow> world_state \<Rightarrow> world_state" where
  "spawnFood pos mass expires w =
    (let (p, w) = (case pos of
           Some p \<Rightarrow> (p, w)
         | None \<Rightarrow>
             (let (u, w) = random_draw w; r = sqrt u * ws_radius w * (97 / 100);
                  (v, w) = random_draw w; theta = v * pi * 2
              in ((cos theta * r, sin theta * r), w)));
         (m, w1) = (case mass of
           Some m \<Rightarrow> (m, w)
         | None \<Rightarrow> (let (u, w) = random_draw w in (FOOD_MASS_MIN + u * (FOOD_MASS_MAX - FOOD_MASS_MIN), w)));
         (v, w2) = random_draw w1
     in w2\<lparr>ws_nextEntityId := ws_nextEntityId w2 + 1,
          ws_food := ws_food w2 @ [\<lparr>fe_id = ws_nextEntityId w2, fe_pos = p, fe_mass = m, fe_hue = \<lfloor>v * 360\<rfloor>, fe_expiresAtTick = expires\<rparr>]\<rparr>)"

fun spawnFoods :: "nat \<Rightarrow> world_state \<Rightarrow> world_state" where
  "spawnFoods 0 w = w"
| "spawnFoods (Suc n) w = spawnFoods n (spawnFood None None None w)"

definition createWorld :: "sim_config \<Rightarrow> world_state" where
  "createWorld cfg = spawnFoods (targetFood cfg)
    \<lparr>ws_tick = 0, ws_elapsedMs = 0, ws_snakes = [], ws_food = [], ws_playerIndex = \<lambda>_. None,
     ws_pendingInputs = \<lambda>_. None, ws_nextEntityId = 1, ws_radius = sc_worldRadius cfg, ws_random = createRng (sc_seed cfg)\<rparr>"

text \<open>What a dead snake leaves: six tenths of its mass, in drops along its body that decay after two minutes.\<close>

fun scatterDrops :: "sim_config \<Rightarrow> snake_entity \<Rightarrow> nat \<Rightarrow> real \<Rightarrow> nat list \<Rightarrow> world_state \<Rightarrow> world_state" where
  "scatterDrops cfg s drops per [] w = w"
| "scatterDrops cfg s drops per (i # is) w =
    (let p = pointAt s \<lfloor>(real i / real drops) * real (se_spineLength s)\<rfloor>;
         (u, w) = random_draw w;
         (v, w) = random_draw w
     in scatterDrops cfg s drops per is
          (spawnFood (Some (fst p + (u - 1 / 2) * 30, snd p + (v - 1 / 2) * 30)) (Some per)
            (Some (ws_tick w + sc_tickRateHz cfg * 120)) w))"

definition scatterMass :: "sim_config \<Rightarrow> snake_entity \<Rightarrow> world_state \<Rightarrow> world_state" where
  "scatterMass cfg s w =
    (let total = se_mass s * (6 / 10);
         drops = nat (min 60 (max 3 \<lfloor>total / 4\<rfloor>))
     in scatterDrops cfg s drops (total / real drops) [0..<drops] w)"

section \<open>Snakes\<close>

text \<open>The distance to the nearest head; none when no snake lives, which the code calls infinity.\<close>

definition nearestHead :: "point \<Rightarrow> world_state \<Rightarrow> real option" where
  "nearestHead c w = fold (\<lambda>s acc.
      if se_alive s
      then (let d = distance_of (headOf s) c in
            case acc of None \<Rightarrow> Some d | Some n \<Rightarrow> if d < n then Some d else Some n)
      else acc) (ws_snakes w) None"

fun spawnAttempts :: "nat \<Rightarrow> point \<Rightarrow> real \<Rightarrow> world_state \<Rightarrow> point \<times> world_state" where
  "spawnAttempts 0 best bestDistance w = (best, w)"
| "spawnAttempts (Suc n) best bestDistance w =
    (let (u, w) = random_draw w; r = sqrt u * ws_radius w * (85 / 100);
         (v, w) = random_draw w; theta = v * pi * 2;
         candidate = (cos theta * r, sin theta * r)
     in case nearestHead candidate w of
          None \<Rightarrow> (candidate, w)
        | Some nearest \<Rightarrow>
            if 400 < nearest then (candidate, w)
            else if bestDistance < nearest then spawnAttempts n candidate nearest w
            else spawnAttempts n best bestDistance w)"

definition findSpawnPoint :: "world_state \<Rightarrow> point \<times> world_state" where
  "findSpawnPoint w = spawnAttempts 12 (0, 0) (- 1) w"

definition seedSpine :: "point \<Rightarrow> real \<Rightarrow> nat \<Rightarrow> point list" where
  "seedSpine p angle initial =
    fold (\<lambda>i spine. spine[(SPINE_CAPACITY - i) mod SPINE_CAPACITY :=
        (fst p - cos angle * SEGMENT_SPACING * real i, snd p - sin angle * SEGMENT_SPACING * real i)])
      [1..<initial] ((replicate SPINE_CAPACITY (0, 0))[0 := p])"

definition spawnSnake :: "string \<Rightarrow> string \<Rightarrow> bool \<Rightarrow> world_state \<Rightarrow> snake_entity \<times> world_state" where
  "spawnSnake playerId nickname isBot w =
    (case getByPlayerId playerId w of
       Some s \<Rightarrow> (s, w)
     | None \<Rightarrow>
         (let (position, w) = findSpawnPoint w;
              (u, w) = random_draw w;
              angle = u * pi * 2;
              initial = lengthForMass STARTING_MASS;
              s = \<lparr>se_id = ws_nextEntityId w, se_playerId = playerId, se_nickname = nickname,
                   se_spine = seedSpine position angle initial, se_headIndex = 0, se_spineLength = initial,
                   se_spineCapacity = SPINE_CAPACITY, se_angle = angle, se_targetAngle = angle, se_speed = BASE_SPEED,
                   se_mass = STARTING_MASS, se_radius = radiusForMass STARTING_MASS, se_boosting = False, se_alive = True,
                   se_isBot = isBot, se_lastAckSeq = 0, se_spawnedAtTick = ws_tick w, se_kills = 0, se_score = 0,
                   se_boostDebt = 0, se_sinceLastPoint = 0\<rparr>
          in (s, w\<lparr>ws_nextEntityId := ws_nextEntityId w + 1, ws_snakes := ws_snakes w @ [s],
                 ws_playerIndex := (ws_playerIndex w)(playerId \<mapsto> se_id s)\<rparr>)))"

definition despawnSnake :: "sim_config \<Rightarrow> string \<Rightarrow> bool \<Rightarrow> world_state \<Rightarrow> world_state" where
  "despawnSnake cfg playerId scatter w =
    (case ws_playerIndex w playerId of
       None \<Rightarrow> w
     | Some i \<Rightarrow>
         (let w = (case snakeById i w of
                     Some s \<Rightarrow> if scatter then scatterMass cfg s w else w
                   | None \<Rightarrow> w)
          in w\<lparr>ws_snakes := filter (\<lambda>s. se_id s \<noteq> i) (ws_snakes w),
               ws_playerIndex := (ws_playerIndex w)(playerId := None),
               ws_pendingInputs := (ws_pendingInputs w)(i := None)\<rparr>))"

definition enqueueInput :: "string \<Rightarrow> sim_input \<Rightarrow> world_state \<Rightarrow> world_state" where
  "enqueueInput playerId cmd w =
    (case ws_playerIndex w playerId of
       None \<Rightarrow> w
     | Some i \<Rightarrow>
         w\<lparr>ws_pendingInputs := (ws_pendingInputs w)(i \<mapsto>
            (case ws_pendingInputs w i of Some queue \<Rightarrow> queue @ [cmd] | None \<Rightarrow> [cmd]))\<rparr>)"

section \<open>One tick\<close>

definition applyCommand :: "sim_input \<Rightarrow> snake_entity \<Rightarrow> snake_entity" where
  "applyCommand cmd s =
    (if se_lastAckSeq s < si_seq cmd
     then s\<lparr>se_targetAngle := si_angle cmd, se_boosting := si_boost cmd, se_lastAckSeq := si_seq cmd\<rparr> else s)"

definition applyInputs :: "world_state \<Rightarrow> world_state" where
  "applyInputs w =
    w\<lparr>ws_snakes := map (\<lambda>s. case ws_pendingInputs w (se_id s) of
          None \<Rightarrow> s
        | Some queue \<Rightarrow> if se_alive s then fold applyCommand queue s else s) (ws_snakes w),
      ws_pendingInputs := (\<lambda>i. map_option (\<lambda>_. []) (ws_pendingInputs w i))\<rparr>"

definition turned :: "sim_config \<Rightarrow> snake_entity \<Rightarrow> snake_entity" where
  "turned cfg s =
    (let maxTurn = MAX_TURN_RATE_RAD_PER_SEC * dtSeconds cfg;
         delta = angleDelta (se_angle s) (se_targetAngle s)
     in s\<lparr>se_angle := se_angle s + max (- maxTurn) (min maxTurn delta)\<rparr>)"

definition boosted :: "sim_config \<Rightarrow> snake_entity \<Rightarrow> snake_entity" where
  "boosted cfg s =
    (let canBoost = se_boosting s \<and> MIN_BOOST_MASS < se_mass s;
         s = s\<lparr>se_speed := BASE_SPEED * (if canBoost then BOOST_SPEED_MULTIPLIER else 1)\<rparr>
     in if canBoost
        then (let debt = se_boostDebt s + BOOST_MASS_DRAIN_PER_SECOND * dtSeconds cfg
              in if 1 \<le> debt
                 then setMass (se_mass s - real_of_int \<lfloor>debt\<rfloor>) (s\<lparr>se_boostDebt := debt - real_of_int \<lfloor>debt\<rfloor>\<rparr>)
                 else s\<lparr>se_boostDebt := debt\<rparr>)
        else s)"

definition advanced :: "sim_config \<Rightarrow> snake_entity \<Rightarrow> snake_entity" where
  "advanced cfg s =
    (let head = headOf s;
         dist = se_speed s * dtSeconds cfg;
         p = (fst head + cos (se_angle s) * dist, snd head + sin (se_angle s) * dist);
         since = se_sinceLastPoint s + dist
     in if SEGMENT_SPACING \<le> since
        then pushPoint p (s\<lparr>se_sinceLastPoint := since - SEGMENT_SPACING\<rparr>)
        else s\<lparr>se_sinceLastPoint := since, se_spine := (se_spine s)[se_headIndex s := p]\<rparr>)"

definition moveSnake :: "sim_config \<Rightarrow> snake_entity \<Rightarrow> snake_entity" where
  "moveSnake cfg s = (if se_alive s then advanced cfg (boosted cfg (turned cfg s)) else s)"

definition moveSnakes :: "sim_config \<Rightarrow> world_state \<Rightarrow> world_state" where
  "moveSnakes cfg w = w\<lparr>ws_snakes := map (moveSnake cfg) (ws_snakes w)\<rparr>"

subsection \<open>Eating\<close>

definition fresh_hash :: "sim_config \<Rightarrow> spatial_hash" where
  "fresh_hash cfg = \<lparr>sh_cellSize = sc_cellSize cfg, sh_buckets = \<lambda>_. None\<rparr>"

definition rebuildFoodHash :: "sim_config \<Rightarrow> world_state \<Rightarrow> spatial_hash" where
  "rebuildFoodHash cfg w = fold (\<lambda>f. insert_entity (fe_id f) (fe_pos f)) (ws_food w) (fresh_hash cfg)"

type_synonym eating = "snake_entity \<times> food_entity list \<times> spatial_hash \<times> nat"

fun eatCandidates :: "point \<Rightarrow> real \<Rightarrow> nat list \<Rightarrow> eating \<Rightarrow> eating" where
  "eatCandidates head reach [] st = st"
| "eatCandidates head reach (i # is) (s, foods, h, consumed) =
    eatCandidates head reach is
      (case find (\<lambda>f. fe_id f = i) foods of
         None \<Rightarrow> (s, foods, h, consumed)
       | Some f \<Rightarrow>
           if distance_of (fe_pos f) head \<le> reach
           then (setMass (se_mass s + fe_mass f) s, filter (\<lambda>x. fe_id x \<noteq> i) foods, remove_entity i (fe_pos f) h, consumed + 1)
           else (s, foods, h, consumed))"

definition eatSnake :: "snake_entity \<Rightarrow> food_entity list \<times> spatial_hash \<times> nat \<Rightarrow> eating" where
  "eatSnake s st =
    (case st of (foods, h, consumed) \<Rightarrow>
      if se_alive s
      then (let head = headOf s; reach = se_radius s + 14
            in eatCandidates head reach (queryCircle head reach h) (s, foods, h, consumed))
      else (s, foods, h, consumed))"

fun eatAll :: "snake_entity list \<Rightarrow> food_entity list \<times> spatial_hash \<times> nat \<Rightarrow> snake_entity list \<times> food_entity list \<times> spatial_hash \<times> nat" where
  "eatAll [] st = ([], st)"
| "eatAll (s # ss) st =
    (case eatSnake s st of (s', st') \<Rightarrow> (case eatAll ss st' of (ss', st'') \<Rightarrow> (s' # ss', st'')))"

definition consumeFood :: "sim_config \<Rightarrow> world_state \<Rightarrow> nat \<times> world_state" where
  "consumeFood cfg w =
    (case eatAll (ws_snakes w) (ws_food w, rebuildFoodHash cfg w, 0) of
       (ss, foods, _, consumed) \<Rightarrow> (consumed, w\<lparr>ws_snakes := ss, ws_food := foods\<rparr>))"

subsection \<open>Colliding\<close>

text \<open>The body points that count: owner, offset from the head, place; the key of the first is 1.\<close>

definition bodyEntries :: "world_state \<Rightarrow> (nat \<times> nat \<times> point) list" where
  "bodyEntries w = concat (map (\<lambda>s. map (\<lambda>offset. (se_id s, offset, pointAt s (int offset))) [4..<se_spineLength s])
     (filter se_alive (ws_snakes w)))"

definition rebuildBodyHash :: "sim_config \<Rightarrow> world_state \<Rightarrow> spatial_hash" where
  "rebuildBodyHash cfg w =
    fold (\<lambda>(key, _, _, p). insert_entity key p) (enumerate 1 (bodyEntries w)) (fresh_hash cfg)"

definition wallDeath :: "snake_entity \<Rightarrow> death_event" where
  "wallDeath s = \<lparr>de_victim = se_id s, de_victimPlayerId = se_playerId s, de_killer = None, de_killerPlayerId = None,
     de_cause = ByWall, de_finalScore = se_score s\<rparr>"

definition collisionDeath :: "snake_entity \<Rightarrow> snake_entity \<Rightarrow> death_event" where
  "collisionDeath s other = \<lparr>de_victim = se_id s, de_victimPlayerId = se_playerId s, de_killer = Some (se_id other),
     de_killerPlayerId = Some (se_playerId other), de_cause = ByCollision, de_finalScore = se_score s\<rparr>"

text \<open>The snake a candidate key says the head touches.\<close>

definition touching :: "(nat \<times> nat \<times> point) list \<Rightarrow> world_state \<Rightarrow> snake_entity \<Rightarrow> nat \<Rightarrow> snake_entity option" where
  "touching entries w s key =
    (if 1 \<le> key \<and> key \<le> length entries
     then (case entries ! (key - 1) of (owner, offset, _) \<Rightarrow>
       if owner = se_id s then None
       else (case snakeById owner w of
               None \<Rightarrow> None
             | Some other \<Rightarrow>
                 if se_alive other \<and> distance_of (pointAt other (int offset)) (headOf s) \<le> se_radius s + se_radius other
                 then Some other else None))
     else None)"

fun first_touch :: "(nat \<Rightarrow> snake_entity option) \<Rightarrow> nat list \<Rightarrow> snake_entity option" where
  "first_touch f [] = None"
| "first_touch f (k # ks) = (case f k of Some s \<Rightarrow> Some s | None \<Rightarrow> first_touch f ks)"

definition collideSnake :: "spatial_hash \<Rightarrow> (nat \<times> nat \<times> point) list \<Rightarrow> nat \<Rightarrow> world_state \<times> death_event list \<Rightarrow> world_state \<times> death_event list" where
  "collideSnake h entries i st =
    (case st of (w, deaths) \<Rightarrow>
      (case snakeById i w of
         None \<Rightarrow> (w, deaths)
       | Some s \<Rightarrow>
           if \<not> se_alive s then (w, deaths)
           else (let head = headOf s in
             if ws_radius w \<le> hypot (fst head) (snd head)
             then (setSnake (s\<lparr>se_alive := False\<rparr>) w, deaths @ [wallDeath s])
             else (case first_touch (touching entries w s) (queryCircle head (se_radius s + 40) h) of
                     None \<Rightarrow> (w, deaths)
                   | Some other \<Rightarrow>
                       (setSnake (other\<lparr>se_kills := se_kills other + 1\<rparr>) (setSnake (s\<lparr>se_alive := False\<rparr>) w),
                        deaths @ [collisionDeath s other])))))"

definition scatterDeath :: "sim_config \<Rightarrow> death_event \<Rightarrow> world_state \<Rightarrow> world_state" where
  "scatterDeath cfg d w = (case snakeById (de_victim d) w of None \<Rightarrow> w | Some s \<Rightarrow> scatterMass cfg s w)"

definition detectCollisions :: "sim_config \<Rightarrow> world_state \<Rightarrow> death_event list \<times> world_state" where
  "detectCollisions cfg w =
    (case fold (collideSnake (rebuildBodyHash cfg w) (bodyEntries w)) (map se_id (ws_snakes w)) (w, []) of
       (w, deaths) \<Rightarrow> (deaths, fold (scatterDeath cfg) deaths w))"

definition maintainFood :: "sim_config \<Rightarrow> world_state \<Rightarrow> nat \<times> world_state" where
  "maintainFood cfg w =
    (let budget = min 8 (targetFood cfg - length (ws_food w)) in (budget, spawnFoods budget w))"

definition expireFood :: "world_state \<Rightarrow> world_state" where
  "expireFood w =
    (if ws_tick w mod 30 \<noteq> 0 then w
     else w\<lparr>ws_food := filter (\<lambda>f. \<not> (case fe_expiresAtTick f of None \<Rightarrow> False | Some t \<Rightarrow> t \<le> ws_tick w)) (ws_food w)\<rparr>)"

definition step_world :: "sim_config \<Rightarrow> world_state \<Rightarrow> tick_result \<times> world_state" where
  "step_world cfg w =
    (let w = moveSnakes cfg (applyInputs w);
         (consumed, w) = consumeFood cfg w;
         (deaths, w) = detectCollisions cfg w;
         (spawned, w) = maintainFood cfg w;
         w = expireFood w;
         w = w\<lparr>ws_tick := ws_tick w + 1, ws_elapsedMs := ws_elapsedMs w + dtSeconds cfg * 1000\<rparr>
     in (\<lparr>tr_tick = ws_tick w, tr_deaths = deaths, tr_foodConsumed = consumed, tr_foodSpawned = spawned\<rparr>, w))"

section \<open>Queries\<close>

definition leaderboard :: "world_state \<Rightarrow> nat \<Rightarrow> snake_entity list" where
  "leaderboard w limit =
    take limit (sort_key (\<lambda>s. - se_score s) (sort_key se_id (filter se_alive (ws_snakes w))))"

definition world_aliveCount :: "world_state \<Rightarrow> nat" where
  "world_aliveCount w = length (filter se_alive (ws_snakes w))"

end
