(* ===== verification/Room.thy ===== *)
theory Room
  imports Simulation Payout
begin

text \<open>
  One game world with its players (\<open>apps/realtime/src/rooms/room.ts\<close>, \<open>aoi.ts\<close>): seats, eliminations, the tick,
  what each viewer is sent, and the standings. What the sockets are told is a list of messages; a snapshot is
  the value that is handed to the encoder of \<open>Binary_Codec\<close>. The settings of the node are an argument, and so is the
  collation \<open>localeCompare\<close> compares by.

  A room that has not been started has no world and no seats, so the operations that need a world never run there.
\<close>

section \<open>Area of interest\<close>

record aoi_view =
  av_visible :: "nat list"
  av_entered :: "nat list"
  av_exited :: "nat list"

definition createAoiView :: aoi_view where
  "createAoiView = \<lparr>av_visible = [], av_entered = [], av_exited = []\<rparr>"

definition updateAoiView :: "aoi_view \<Rightarrow> nat list \<Rightarrow> aoi_view" where
  "updateAoiView view candidates =
    (let candidateSet = uniq candidates
     in \<lparr>av_visible = candidateSet,
         av_entered = filter (\<lambda>i. i \<notin> set (av_visible view)) candidates,
         av_exited = filter (\<lambda>i. i \<notin> set candidateSet) (av_visible view)\<rparr>)"

definition withinRadius :: "point \<Rightarrow> point \<Rightarrow> real \<Rightarrow> bool" where
  "withinRadius a b radius \<longleftrightarrow>
    (let dx = fst a - fst b; dy = snd a - snd b in dx * dx + dy * dy \<le> radius * radius)"

definition AOI_RADIUS :: real where "AOI_RADIUS = 1400"

section \<open>State\<close>

datatype room_status = RoomWarming | RoomActive | RoomDraining | RoomClosed

record node_config =
  nc_nodeId :: string
  nc_tickRateHz :: nat
  nc_ticksPerSnapshot :: nat
  nc_reconnectGraceSeconds :: int
  nc_cellSize :: real
  nc_maxRooms :: nat
  nc_maxPlayersPerRoom :: nat

record seat =
  seat_playerId :: string
  seat_socketId :: string
  seat_nickname :: string
  seat_aoi :: aoi_view
  seat_disconnectedAtMs :: "int option"
  seat_shadowbanned :: bool

record leaderboard_entry =
  le_playerId :: string
  le_nickname :: string
  le_score :: int
  le_kills :: nat
  le_rank :: nat

record final_score =
  fs_score :: int
  fs_kills :: nat

record elimination =
  el_tick :: nat
  el_survivedMs :: int

record room =
  rm_roomId :: string
  rm_mode :: string
  rm_region :: string
  rm_maxPlayers :: nat
  rm_status :: room_status
  rm_world :: "world_state option"
  rm_sim :: sim_config
  rm_seats :: "seat list"
  rm_recentlyRemoved :: "string list"
  rm_ticksSinceSnapshot :: nat
  rm_leaderboard :: "leaderboard_entry list"
  rm_finalScores :: "string \<Rightarrow> final_score option"
  rm_eliminations :: "string \<Rightarrow> elimination option"
  rm_eliminationCounter :: nat
  rm_gameId :: "string option"
  rm_entrants :: "string list"
  rm_reported :: bool
  rm_announced :: bool

subsection \<open>What is sent\<close>

record snake_msg =
  sm_id :: string
  sm_nickname :: string
  sm_points :: "point list"
  sm_angle :: real
  sm_mass :: real
  sm_radius :: real
  sm_boosting :: bool
  sm_isBot :: bool

record food_msg =
  fm_id :: nat
  fm_position :: point
  fm_mass :: real
  fm_hue :: int

record snapshot_msg =
  sp_tick :: nat
  sp_serverTime :: int
  sp_ackSeq :: int
  sp_snakes :: "snake_msg list"
  sp_food :: "food_msg list"
  sp_removedSnakes :: "string list"
  sp_removedFood :: "nat list"

record standing =
  sd_playerId :: string
  sd_placement :: nat
  sd_score :: int
  sd_kills :: nat
  sd_survivedMs :: int

record match_result =
  re_gameId :: "string option"
  re_roomId :: string
  re_nodeId :: string
  re_endedAtMs :: int
  re_standings :: "standing list"

datatype message =
    MsgDied string "string option" death_cause int int
  | MsgSnapshot string snapshot_msg point
  | MsgLeaderboard "leaderboard_entry list"
  | MsgEnded "string option" "string option" "string option" nat "standing list"

section \<open>Life of a room\<close>

definition new_room :: "node_config \<Rightarrow> string \<Rightarrow> string \<Rightarrow> string \<Rightarrow> nat \<Rightarrow> int \<Rightarrow> string option \<Rightarrow> room" where
  "new_room nc roomId mode region maxPlayers seed gameId =
    \<lparr>rm_roomId = roomId, rm_mode = mode, rm_region = region, rm_maxPlayers = maxPlayers, rm_status = RoomWarming,
     rm_world = None,
     rm_sim = \<lparr>sc_tickRateHz = nc_tickRateHz nc, sc_worldRadius = 8000, sc_cellSize = nc_cellSize nc, sc_seed = seed, sc_targetFood = None\<rparr>,
     rm_seats = [], rm_recentlyRemoved = [], rm_ticksSinceSnapshot = 0, rm_leaderboard = [],
     rm_finalScores = \<lambda>_. None, rm_eliminations = \<lambda>_. None, rm_eliminationCounter = 0, rm_gameId = gameId, rm_entrants = [],
     rm_reported = False, rm_announced = False\<rparr>"

definition start_room :: "room \<Rightarrow> room" where
  "start_room r = r\<lparr>rm_world := Some (createWorld (rm_sim r)), rm_status := RoomActive\<rparr>"

definition playerCount :: "room \<Rightarrow> nat" where
  "playerCount r = length (rm_seats r)"

definition isFull :: "room \<Rightarrow> bool" where
  "isFull r \<longleftrightarrow> rm_maxPlayers r \<le> playerCount r"

definition drain_room :: "room \<Rightarrow> room" where
  "drain_room r = r\<lparr>rm_status := RoomDraining\<rparr>"

definition close_room :: "room \<Rightarrow> room" where
  "close_room r = r\<lparr>rm_status := RoomClosed, rm_seats := []\<rparr>"

section \<open>Seats\<close>

definition seatOf :: "string \<Rightarrow> room \<Rightarrow> seat option" where
  "seatOf p r = find (\<lambda>s. seat_playerId s = p) (rm_seats r)"

definition hasPlayer :: "string \<Rightarrow> room \<Rightarrow> bool" where
  "hasPlayer p r \<longleftrightarrow> seatOf p r \<noteq> None"

definition updSeat :: "string \<Rightarrow> (seat \<Rightarrow> seat) \<Rightarrow> room \<Rightarrow> room" where
  "updSeat p f r = r\<lparr>rm_seats := upd_rows (\<lambda>s. seat_playerId s = p) f (rm_seats r)\<rparr>"

text \<open>The snake and the clock of a room.\<close>

definition snakeOf :: "string \<Rightarrow> room \<Rightarrow> snake_entity option" where
  "snakeOf p r = (case rm_world r of None \<Rightarrow> None | Some w \<Rightarrow> getByPlayerId p w)"

definition elapsed :: "room \<Rightarrow> int" where
  "elapsed r = (case rm_world r of None \<Rightarrow> 0 | Some w \<Rightarrow> \<lfloor>ws_elapsedMs w\<rfloor>)"

definition inWorld :: "(world_state \<Rightarrow> world_state) \<Rightarrow> room \<Rightarrow> room" where
  "inWorld f r = r\<lparr>rm_world := map_option f (rm_world r)\<rparr>"

definition addPlayer :: "string \<Rightarrow> string \<Rightarrow> string \<Rightarrow> room \<Rightarrow> (string, room) res" where
  "addPlayer p socketId nickname r =
    (if rm_world r = None then Inl (''Room '' @ rm_roomId r @ '' has not been started'')
     else case seatOf p r of
       Some _ \<Rightarrow> Inr (updSeat p (\<lambda>s. s\<lparr>seat_socketId := socketId, seat_disconnectedAtMs := None, seat_aoi := createAoiView\<rparr>) r)
     | None \<Rightarrow>
         Inr (inWorld (\<lambda>w. snd (spawnSnake p nickname False w))
           (r\<lparr>rm_seats := rm_seats r @ [\<lparr>seat_playerId = p, seat_socketId = socketId, seat_nickname = nickname, seat_aoi = createAoiView,
                seat_disconnectedAtMs = None, seat_shadowbanned = False\<rparr>],
              rm_entrants := (if p \<in> set (rm_entrants r) then rm_entrants r else rm_entrants r @ [p])\<rparr>)))"

definition markDisconnected :: "string \<Rightarrow> int \<Rightarrow> room \<Rightarrow> room" where
  "markDisconnected p now r = updSeat p (\<lambda>s. s\<lparr>seat_disconnectedAtMs := Some now\<rparr>) r"

text \<open>Only the first elimination of a player counts.\<close>

definition eliminate :: "string \<Rightarrow> room \<Rightarrow> room" where
  "eliminate p r =
    (if rm_eliminations r p \<noteq> None then r
     else r\<lparr>rm_eliminationCounter := rm_eliminationCounter r + 1,
            rm_eliminations := (rm_eliminations r)(p \<mapsto> \<lparr>el_tick = rm_eliminationCounter r + 1, el_survivedMs = elapsed r\<rparr>)\<rparr>)"

definition captureScore :: "string \<Rightarrow> room \<Rightarrow> room" where
  "captureScore p r =
    (case snakeOf p r of None \<Rightarrow> r
     | Some s \<Rightarrow> r\<lparr>rm_finalScores := (rm_finalScores r)(p \<mapsto> \<lparr>fs_score = se_score s, fs_kills = se_kills s\<rparr>)\<rparr>)"

definition removePlayer :: "string \<Rightarrow> room \<Rightarrow> room" where
  "removePlayer p r =
    (if seatOf p r = None then r
     else (let r = r\<lparr>rm_seats := filter (\<lambda>s. seat_playerId s \<noteq> p) (rm_seats r)\<rparr>;
               r = (if rm_eliminations r p \<noteq> None then r else eliminate p (captureScore p r));
               r = inWorld (despawnSnake (rm_sim r) p True) r
           in r\<lparr>rm_recentlyRemoved := rm_recentlyRemoved r @ [p]\<rparr>))"

definition setShadowbanned :: "string \<Rightarrow> bool \<Rightarrow> room \<Rightarrow> room" where
  "setShadowbanned p v r = updSeat p (\<lambda>s. s\<lparr>seat_shadowbanned := v\<rparr>) r"

definition isShadowbanned :: "string \<Rightarrow> room \<Rightarrow> bool" where
  "isShadowbanned p r = (case seatOf p r of None \<Rightarrow> True | Some s \<Rightarrow> seat_shadowbanned s)"

definition markEliminatedForTest :: "string \<Rightarrow> int \<Rightarrow> room \<Rightarrow> room" where
  "markEliminatedForTest p survivedMs r =
    (if rm_eliminations r p \<noteq> None then r
     else r\<lparr>rm_eliminationCounter := rm_eliminationCounter r + 1,
            rm_eliminations := (rm_eliminations r)(p \<mapsto> \<lparr>el_tick = rm_eliminationCounter r + 1, el_survivedMs = survivedMs\<rparr>)\<rparr>)"

definition room_applyInput :: "string \<Rightarrow> sim_input \<Rightarrow> room \<Rightarrow> room" where
  "room_applyInput p cmd r =
    (case seatOf p r of None \<Rightarrow> r
     | Some s \<Rightarrow> if seat_shadowbanned s then r else inWorld (enqueueInput p cmd) r)"

definition respawn :: "string \<Rightarrow> room \<Rightarrow> room" where
  "respawn p r =
    (case seatOf p r of None \<Rightarrow> r
     | Some s \<Rightarrow> inWorld (\<lambda>w. snd (spawnSnake p (seat_nickname s) False (despawnSnake (rm_sim r) p False w))) r)"

section \<open>Snapshots\<close>

definition toSnakeState :: "snake_entity \<Rightarrow> snake_msg" where
  "toSnakeState s =
    \<lparr>sm_id = se_playerId s, sm_nickname = se_nickname s,
     sm_points = map (\<lambda>offset. pointAt s (int offset)) [0..<min (se_spineLength s) 120],
     sm_angle = se_angle s, sm_mass = se_mass s, sm_radius = se_radius s, sm_boosting = se_boosting s, sm_isBot = se_isBot s\<rparr>"

definition visible_snakes :: "world_state \<Rightarrow> point \<Rightarrow> snake_entity list" where
  "visible_snakes w origin = filter (\<lambda>s. se_alive s \<and> withinRadius (headOf s) origin AOI_RADIUS) (ws_snakes w)"

definition visible_food :: "world_state \<Rightarrow> point \<Rightarrow> food_entity list" where
  "visible_food w origin = filter (\<lambda>f. withinRadius (fe_pos f) origin AOI_RADIUS) (ws_food w)"

definition buildSnapshot :: "world_state \<Rightarrow> string list \<Rightarrow> point \<Rightarrow> seat \<Rightarrow> snapshot_msg \<times> seat" where
  "buildSnapshot w removed origin s =
    (let snakes = visible_snakes w origin;
         view = updateAoiView (seat_aoi s) (map se_id snakes)
     in (\<lparr>sp_tick = ws_tick w, sp_serverTime = \<lfloor>ws_elapsedMs w\<rfloor>,
          sp_ackSeq = (case getByPlayerId (seat_playerId s) w of None \<Rightarrow> 0 | Some self \<Rightarrow> se_lastAckSeq self),
          sp_snakes = map toSnakeState snakes,
          sp_food = map (\<lambda>f. \<lparr>fm_id = fe_id f, fm_position = fe_pos f, fm_mass = fe_mass f, fm_hue = fe_hue f\<rparr>) (visible_food w origin),
          sp_removedSnakes = removed, sp_removedFood = av_exited view\<rparr>,
         s\<lparr>seat_aoi := view\<rparr>))"

definition sendSnapshot :: "world_state \<Rightarrow> string list \<Rightarrow> seat \<Rightarrow> message list \<times> seat" where
  "sendSnapshot w removed s =
    (if seat_disconnectedAtMs s \<noteq> None then ([], s)
     else (let origin = (case getByPlayerId (seat_playerId s) w of None \<Rightarrow> (0, 0) | Some snake \<Rightarrow> headOf snake);
               (snapshot, s') = buildSnapshot w removed origin s
           in ([MsgSnapshot (seat_socketId s) snapshot origin], s')))"

definition broadcastSnapshots :: "room \<Rightarrow> message list \<times> room" where
  "broadcastSnapshots r =
    (case rm_world r of None \<Rightarrow> ([], r)
     | Some w \<Rightarrow>
         (let sent = map (sendSnapshot w (rm_recentlyRemoved r)) (rm_seats r)
          in (concat (map fst sent), r\<lparr>rm_seats := map snd sent\<rparr>)))"

definition broadcastLeaderboard :: "room \<Rightarrow> message list \<times> room" where
  "broadcastLeaderboard r =
    (case rm_world r of None \<Rightarrow> ([], r)
     | Some w \<Rightarrow>
         (let entries = map (\<lambda>(i, s). \<lparr>le_playerId = se_playerId s, le_nickname = se_nickname s, le_score = se_score s,
                le_kills = se_kills s, le_rank = i\<rparr>) (enumerate 1 (leaderboard w 10))
          in ([MsgLeaderboard entries], r\<lparr>rm_leaderboard := entries\<rparr>)))"

section \<open>The tick\<close>

definition recordDeath :: "death_event \<Rightarrow> room \<Rightarrow> room" where
  "recordDeath d r =
    (let p = de_victimPlayerId d;
         kills = (case snakeOf p r of None \<Rightarrow> 0 | Some s \<Rightarrow> se_kills s)
     in eliminate p (r\<lparr>rm_finalScores := (rm_finalScores r)(p \<mapsto> \<lparr>fs_score = de_finalScore d, fs_kills = kills\<rparr>)\<rparr>))"

definition diedMessage :: "room \<Rightarrow> death_event \<Rightarrow> message" where
  "diedMessage r d = MsgDied (de_victimPlayerId d) (de_killerPlayerId d) (de_cause d) (de_finalScore d) (elapsed r)"

definition graceMs :: "node_config \<Rightarrow> int" where
  "graceMs nc = nc_reconnectGraceSeconds nc * 1000"

definition evictSeat :: "node_config \<Rightarrow> int \<Rightarrow> seat \<Rightarrow> room \<Rightarrow> room" where
  "evictSeat nc now s r =
    (case seat_disconnectedAtMs s of None \<Rightarrow> r
     | Some t \<Rightarrow> if graceMs nc \<le> now - t then removePlayer (seat_playerId s) r else r)"

definition evictExpiredDisconnects :: "node_config \<Rightarrow> int \<Rightarrow> room \<Rightarrow> room" where
  "evictExpiredDisconnects nc now r = fold (evictSeat nc now) (rm_seats r) r"

definition snapshotTurn :: "node_config \<Rightarrow> room \<Rightarrow> message list \<times> room" where
  "snapshotTurn nc r =
    (let n = rm_ticksSinceSnapshot r + 1
     in if nc_ticksPerSnapshot nc \<le> n
        then (case broadcastSnapshots (r\<lparr>rm_ticksSinceSnapshot := 0\<rparr>) of (ms, r') \<Rightarrow> (ms, r'\<lparr>rm_recentlyRemoved := []\<rparr>))
        else ([], r\<lparr>rm_ticksSinceSnapshot := n\<rparr>))"

definition leaderboardTurn :: "node_config \<Rightarrow> room \<Rightarrow> message list \<times> room" where
  "leaderboardTurn nc r =
    (case rm_world r of None \<Rightarrow> ([], r)
     | Some w \<Rightarrow> if ws_tick w mod nc_tickRateHz nc = 0 then broadcastLeaderboard r else ([], r))"

definition tick_room :: "node_config \<Rightarrow> int \<Rightarrow> room \<Rightarrow> message list \<times> room" where
  "tick_room nc now r =
    (if rm_status r \<noteq> RoomActive \<and> rm_status r \<noteq> RoomDraining then ([], r)
     else case rm_world r of None \<Rightarrow> ([], r)
     | Some w \<Rightarrow>
         (let (result, w') = step_world (rm_sim r) w;
              r = fold recordDeath (tr_deaths result) (r\<lparr>rm_world := Some w'\<rparr>);
              died = map (diedMessage r) (tr_deaths result);
              r = evictExpiredDisconnects nc now r;
              (snapshots, r) = snapshotTurn nc r;
              (board, r) = leaderboardTurn nc r
          in (died @ snapshots @ board, r)))"

section \<open>The result\<close>

record result_row =
  rr_playerId :: string
  rr_score :: int
  rr_kills :: nat
  rr_survivedMs :: int
  rr_order :: "nat option"

definition resultRow :: "room \<Rightarrow> string \<Rightarrow> result_row" where
  "resultRow r p =
    \<lparr>rr_playerId = p,
     rr_score = (case snakeOf p r of Some s \<Rightarrow> se_score s | None \<Rightarrow> (case rm_finalScores r p of Some f \<Rightarrow> fs_score f | None \<Rightarrow> 0)),
     rr_kills = (case snakeOf p r of Some s \<Rightarrow> se_kills s | None \<Rightarrow> (case rm_finalScores r p of Some f \<Rightarrow> fs_kills f | None \<Rightarrow> 0)),
     rr_survivedMs = (case rm_eliminations r p of Some e \<Rightarrow> el_survivedMs e | None \<Rightarrow> elapsed r),
     rr_order = map_option el_tick (rm_eliminations r p)\<rparr>"

text \<open>Descending by the order of elimination, none being infinity, then by score, kills, and the collation of the id.\<close>

definition orderKey :: "result_row \<Rightarrow> int" where
  "orderKey row = (case rr_order row of None \<Rightarrow> - 1 | Some _ \<Rightarrow> 0)"

definition sortRows :: "(string \<Rightarrow> real) \<Rightarrow> result_row list \<Rightarrow> result_row list" where
  "sortRows collation rows =
    sort_key orderKey
      (sort_key (\<lambda>row. case rr_order row of None \<Rightarrow> 0 | Some t \<Rightarrow> - int t)
        (sort_key (\<lambda>row. - rr_score row)
          (sort_key (\<lambda>row. - int (rr_kills row))
            (sort_key (\<lambda>row. collation (rr_playerId row)) rows))))"

definition toStanding :: "nat \<times> result_row \<Rightarrow> standing" where
  "toStanding = (\<lambda>(i, row). \<lparr>sd_playerId = rr_playerId row, sd_placement = i, sd_score = rr_score row, sd_kills = rr_kills row,
     sd_survivedMs = rr_survivedMs row\<rparr>)"

definition buildResult :: "node_config \<Rightarrow> (string \<Rightarrow> real) \<Rightarrow> int \<Rightarrow> string option \<Rightarrow> room \<Rightarrow> match_result" where
  "buildResult nc collation now gameId r =
    \<lparr>re_gameId = gameId, re_roomId = rm_roomId r, re_nodeId = nc_nodeId nc, re_endedAtMs = now,
     re_standings = map toStanding (enumerate 1 (sortRows collation (map (resultRow r) (rm_entrants r))))\<rparr>"

definition room_aliveCount :: "room \<Rightarrow> nat" where
  "room_aliveCount r = length (filter (\<lambda>s. snakeOf (seat_playerId s) r \<noteq> None) (rm_seats r))"

definition isResolved :: "room \<Rightarrow> bool" where
  "isResolved r \<longleftrightarrow> (rm_status r = RoomActive \<or> rm_status r = RoomDraining) \<and> 2 \<le> length (rm_entrants r) \<and> room_aliveCount r \<le> 1"

definition hasResult :: "room \<Rightarrow> bool" where
  "hasResult r \<longleftrightarrow> \<not> rm_reported r \<and> rm_gameId r \<noteq> None \<and> isResolved r"

definition markAnnounced :: "room \<Rightarrow> room" where
  "markAnnounced r = r\<lparr>rm_announced := True\<rparr>"

definition markReported :: "room \<Rightarrow> room" where
  "markReported r = r\<lparr>rm_reported := True\<rparr>"

definition unmarkReported :: "room \<Rightarrow> room" where
  "unmarkReported r = r\<lparr>rm_reported := False\<rparr>"

definition announceEnd :: "match_result \<Rightarrow> room \<Rightarrow> message" where
  "announceEnd result r =
    (let winner = find (\<lambda>row. sd_placement row = 1) (re_standings result)
     in MsgEnded (re_gameId result) (map_option sd_playerId winner)
          (map_option (\<lambda>row. case seatOf (sd_playerId row) r of Some s \<Rightarrow> seat_nickname s | None \<Rightarrow> take 8 (sd_playerId row)) winner)
          (length (re_standings result)) (re_standings result))"

end
