(* ===== verification/Simulation_Properties.thy ===== *)
theory Simulation_Properties
  imports Simulation
begin

text \<open>
  What holds of every world: its tables stay consistent through every operation, a client moves its snake
  no faster than the rules allow, food is eaten and snakes die exactly as a search through everything would
  say, and the dead stay dead.
\<close>

section \<open>What the operations leave alone\<close>

lemma random_draw_frame [simp]:
  "ws_snakes (snd (random_draw w)) = ws_snakes w" "ws_food (snd (random_draw w)) = ws_food w"
  "ws_playerIndex (snd (random_draw w)) = ws_playerIndex w" "ws_pendingInputs (snd (random_draw w)) = ws_pendingInputs w"
  "ws_nextEntityId (snd (random_draw w)) = ws_nextEntityId w" "ws_radius (snd (random_draw w)) = ws_radius w"
  "ws_tick (snd (random_draw w)) = ws_tick w"
  by (simp_all add: random_draw_def Let_def)

lemma random_draw_range: "0 \<le> fst (random_draw w)" "fst (random_draw w) < 1"
proof -
  have "uint (rng_output (rng_next (ws_random w))) < 4294967296"
    using uint_lt2p [of "rng_output (rng_next (ws_random w))"] by simp
  then have "real_of_int (uint (rng_output (rng_next (ws_random w)))) < real_of_int 4294967296"
    by (simp only: of_int_less_iff)
  moreover have "0 \<le> real_of_int (uint (rng_output (rng_next (ws_random w))))"
    by (simp only: of_int_0_le_iff) simp
  ultimately show "0 \<le> fst (random_draw w)" "fst (random_draw w) < 1" by (simp_all add: random_draw_def Let_def)
qed

lemma random_draw_eq: "\<exists>u r. random_draw w = (u, w\<lparr>ws_random := r\<rparr>) \<and> 0 \<le> u \<and> u < 1"
proof (intro exI conjI)
  show "random_draw w = (fst (random_draw w), w\<lparr>ws_random := rng_next (ws_random w)\<rparr>)"
    by (simp add: random_draw_def Let_def)
qed (rule random_draw_range)+

text \<open>Making food adds one pellet under a new id and touches nothing else but the random stream.\<close>

lemma spawnFood_eq:
  "\<exists>f r. spawnFood p m e w = w\<lparr>ws_nextEntityId := ws_nextEntityId w + 1, ws_food := ws_food w @ [f], ws_random := r\<rparr> \<and>
     fe_id f = ws_nextEntityId w \<and> (case m of Some x \<Rightarrow> fe_mass f = x | None \<Rightarrow> 0 \<le> fe_mass f)"
proof -
  obtain q r where q: "(case p of Some p \<Rightarrow> (p, w)
         | None \<Rightarrow> (let (u, w) = random_draw w; r = sqrt u * ws_radius w * (97 / 100);
                  (v, w) = random_draw w; theta = v * pi * 2 in ((cos theta * r, sin theta * r), w))) = (q, w\<lparr>ws_random := r\<rparr>)"
  proof (cases p)
    case (Some q)
    then show ?thesis by (intro that [of q "ws_random w"]) simp
  qed (auto simp: random_draw_def Let_def)
  let ?w = "w\<lparr>ws_random := r\<rparr>"
  obtain x t where x: "(case m of Some m \<Rightarrow> (m, ?w)
         | None \<Rightarrow> (let (u, w) = random_draw ?w in (FOOD_MASS_MIN + u * (FOOD_MASS_MAX - FOOD_MASS_MIN), w))) = (x, ?w\<lparr>ws_random := t\<rparr>)"
    and pos: "case m of Some y \<Rightarrow> x = y | None \<Rightarrow> 0 \<le> x"
  proof (cases m)
    case None
    obtain u t where u: "random_draw ?w = (u, ?w\<lparr>ws_random := t\<rparr>)" "0 \<le> u" using random_draw_eq [of ?w] by blast
    with None show ?thesis by (intro that [of "FOOD_MASS_MIN + u * (FOOD_MASS_MAX - FOOD_MASS_MIN)" t])
        (simp_all add: FOOD_MASS_MIN_def FOOD_MASS_MAX_def)
  next
    case (Some y)
    then show ?thesis by (intro that [of y r]) simp_all
  qed
  obtain v z where v: "random_draw (w\<lparr>ws_random := t\<rparr>) = (v, w\<lparr>ws_random := z\<rparr>)"
    using random_draw_eq [of "w\<lparr>ws_random := t\<rparr>"] by auto
  let ?f = "\<lparr>fe_id = ws_nextEntityId w, fe_pos = q, fe_mass = x, fe_hue = \<lfloor>v * 360\<rfloor>, fe_expiresAtTick = e\<rparr>"
  show ?thesis
  proof (intro exI conjI)
    show "spawnFood p m e w = w\<lparr>ws_nextEntityId := ws_nextEntityId w + 1, ws_food := ws_food w @ [?f], ws_random := z\<rparr>"
      unfolding spawnFood_def q by (simp add: Let_def x v)
  qed (use pos in \<open>auto split: option.splits\<close>)
qed

text \<open>So every operation that only draws and makes food extends a world in this way.\<close>

definition more_food :: "world_state \<Rightarrow> world_state \<Rightarrow> bool" where
  "more_food w w' \<longleftrightarrow> (\<exists>fs r. w' = w\<lparr>ws_nextEntityId := ws_nextEntityId w + length fs, ws_food := ws_food w @ fs, ws_random := r\<rparr> \<and>
     map fe_id fs = [ws_nextEntityId w..<ws_nextEntityId w + length fs] \<and> (\<forall>f \<in> set fs. 0 \<le> fe_mass f))"

lemma more_food_refl [simp]: "more_food w w"
  unfolding more_food_def by (rule exI [of _ "[]"], rule exI [of _ "ws_random w"]) simp

lemma more_food_trans: "more_food w w' \<Longrightarrow> more_food w' w'' \<Longrightarrow> more_food w w''"
proof -
  assume "more_food w w'" "more_food w' w''"
  then obtain fs r gs t where
    fs: "w' = w\<lparr>ws_nextEntityId := ws_nextEntityId w + length fs, ws_food := ws_food w @ fs, ws_random := r\<rparr>"
      "map fe_id fs = [ws_nextEntityId w..<ws_nextEntityId w + length fs]" "\<forall>f \<in> set fs. 0 \<le> fe_mass f" and
    gs: "w'' = w'\<lparr>ws_nextEntityId := ws_nextEntityId w' + length gs, ws_food := ws_food w' @ gs, ws_random := t\<rparr>"
      "map fe_id gs = [ws_nextEntityId w'..<ws_nextEntityId w' + length gs]" "\<forall>f \<in> set gs. 0 \<le> fe_mass f"
    unfolding more_food_def by blast
  show ?thesis
    unfolding more_food_def
  proof (intro exI conjI)
    show "w'' = w\<lparr>ws_nextEntityId := ws_nextEntityId w + length (fs @ gs), ws_food := ws_food w @ (fs @ gs), ws_random := t\<rparr>"
      using fs(1) gs(1) by simp
    show "map fe_id (fs @ gs) = [ws_nextEntityId w..<ws_nextEntityId w + length (fs @ gs)]"
      using fs gs(2) upt_add_eq_append [of "ws_nextEntityId w" "ws_nextEntityId w + length fs" "length gs"]
      by (simp add: add.assoc)
    show "\<forall>f \<in> set (fs @ gs). 0 \<le> fe_mass f" using fs(3) gs(3) by auto
  qed
qed

lemma more_food_draw: "more_food w (snd (random_draw w))"
  unfolding more_food_def
  by (rule exI [of _ "[]"], rule exI [of _ "rng_next (ws_random w)"]) (simp add: random_draw_def Let_def)

lemma more_food_spawn: "(\<And>x. m = Some x \<Longrightarrow> 0 \<le> x) \<Longrightarrow> more_food w (spawnFood p m e w)"
proof -
  assume pos: "\<And>x. m = Some x \<Longrightarrow> 0 \<le> x"
  obtain f r where "spawnFood p m e w = w\<lparr>ws_nextEntityId := ws_nextEntityId w + 1, ws_food := ws_food w @ [f], ws_random := r\<rparr>"
    "fe_id f = ws_nextEntityId w" "case m of Some x \<Rightarrow> fe_mass f = x | None \<Rightarrow> 0 \<le> fe_mass f"
    using spawnFood_eq [of p m e w] by blast
  with pos show ?thesis
    unfolding more_food_def by (intro exI [of _ "[f]"] exI [of _ r]) (auto split: option.splits)
qed

lemma more_food_spawns: "more_food w (spawnFoods n w)"
proof (induction n arbitrary: w)
  case (Suc n)
  have "more_food w (spawnFood None None None w)" by (rule more_food_spawn) simp
  from more_food_trans [OF this Suc.IH] show ?case by simp
qed simp

lemma more_food_drops: "0 \<le> per \<Longrightarrow> more_food w (scatterDrops cfg s drops per is w)"
proof (induction "is" arbitrary: w)
  case (Cons i "is")
  obtain u a where u: "random_draw w = (u, a)" by fastforce
  obtain v b where v: "random_draw a = (v, b)" by fastforce
  have ab: "more_food w a" "more_food a b" using more_food_draw [of w] more_food_draw [of a] by (simp_all add: u v)
  let ?p = "pointAt s \<lfloor>(real i / real drops) * real (se_spineLength s)\<rfloor>"
  let ?c = "spawnFood (Some (fst ?p + (u - 1 / 2) * 30, snd ?p + (v - 1 / 2) * 30)) (Some per)
      (Some (ws_tick b + sc_tickRateHz cfg * 120)) b"
  have "more_food b ?c" using Cons.prems by (intro more_food_spawn) simp
  from more_food_trans [OF more_food_trans [OF ab] more_food_trans [OF this Cons.IH [OF Cons.prems]]]
  show ?case by (simp add: u v Let_def)
qed simp

lemma more_food_scatter: "0 \<le> se_mass s \<Longrightarrow> more_food w (scatterMass cfg s w)"
  unfolding scatterMass_def Let_def by (rule more_food_drops) simp

lemma more_foodD:
  assumes "more_food w w'"
  shows "ws_snakes w' = ws_snakes w" "ws_playerIndex w' = ws_playerIndex w" "ws_pendingInputs w' = ws_pendingInputs w"
    "ws_radius w' = ws_radius w" "ws_tick w' = ws_tick w" "ws_nextEntityId w \<le> ws_nextEntityId w'"
  using assms by (auto simp: more_food_def)

lemma spawnAttempts_food: "more_food w (snd (spawnAttempts n best d w))"
proof (induction n arbitrary: best d w)
  case (Suc n)
  obtain u a where u: "random_draw w = (u, a)" by fastforce
  obtain v b where v: "random_draw a = (v, b)" by fastforce
  have ab: "more_food w b" using more_food_trans [OF more_food_draw more_food_draw, of w] by (simp add: u v)
  show ?case
    using ab more_food_trans [OF ab Suc.IH] by (auto simp: u v Let_def split: option.splits)
qed simp

section \<open>Well-formed worlds\<close>

definition snake_wf :: "snake_entity \<Rightarrow> bool" where
  "snake_wf s \<longleftrightarrow> se_spineCapacity s = SPINE_CAPACITY \<and> length (se_spine s) = SPINE_CAPACITY \<and>
     se_headIndex s < SPINE_CAPACITY \<and> 1 \<le> se_spineLength s \<and> se_spineLength s \<le> lengthForMass (se_mass s) \<and>
     1 \<le> se_mass s \<and> se_radius s = radiusForMass (se_mass s) \<and> se_score s = scoreForMass (se_mass s)"

definition world_wf :: "world_state \<Rightarrow> bool" where
  "world_wf w \<longleftrightarrow>
    distinct (map se_id (ws_snakes w)) \<and> distinct (map se_playerId (ws_snakes w)) \<and> distinct (map fe_id (ws_food w)) \<and>
    (\<forall>s \<in> set (ws_snakes w). snake_wf s \<and> se_id s < ws_nextEntityId w \<and> ws_playerIndex w (se_playerId s) = Some (se_id s)) \<and>
    (\<forall>p i. ws_playerIndex w p = Some i \<longrightarrow> (\<exists>s \<in> set (ws_snakes w). se_id s = i \<and> se_playerId s = p)) \<and>
    (\<forall>f \<in> set (ws_food w). fe_id f < ws_nextEntityId w \<and> 0 \<le> fe_mass f)"

text \<open>What an operation on snakes must keep for the tables to stay consistent.\<close>

definition same_snake :: "snake_entity \<Rightarrow> snake_entity \<Rightarrow> bool" where
  "same_snake s t \<longleftrightarrow> se_id t = se_id s \<and> se_playerId t = se_playerId s \<and> (snake_wf s \<longrightarrow> snake_wf t)"

lemma same_snake_refl [simp]: "same_snake s s"
  by (simp add: same_snake_def)

lemma same_snake_trans: "same_snake s t \<Longrightarrow> same_snake t u \<Longrightarrow> same_snake s u"
  by (simp add: same_snake_def)

lemma list_all2_map_eq: "list_all2 P xs ys \<Longrightarrow> (\<And>x y. P x y \<Longrightarrow> f y = f x) \<Longrightarrow> map f ys = map f xs"
  by (induction rule: list_all2_induct) auto

lemma list_all2_mem:
  assumes "list_all2 P xs ys"
  shows "y \<in> set ys \<Longrightarrow> \<exists>x \<in> set xs. P x y" and "x \<in> set xs \<Longrightarrow> \<exists>y \<in> set ys. P x y"
  using assms by (induction rule: list_all2_induct) auto

lemma world_wf_snakes:
  assumes wf: "world_wf w" and ss: "list_all2 same_snake (ws_snakes w) ss"
  shows "world_wf (w\<lparr>ws_snakes := ss\<rparr>)"
proof -
  have m: "map se_id ss = map se_id (ws_snakes w)" "map se_playerId ss = map se_playerId (ws_snakes w)"
    by (rule list_all2_map_eq [OF ss], simp add: same_snake_def)+
  have A: "snake_wf t \<and> se_id t < ws_nextEntityId w \<and> ws_playerIndex w (se_playerId t) = Some (se_id t)" if t: "t \<in> set ss" for t
  proof -
    obtain s where "s \<in> set (ws_snakes w)" "same_snake s t"
      using list_all2_mem(1) [OF ss t] by blast
    moreover from this(1) have "snake_wf s \<and> se_id s < ws_nextEntityId w \<and> ws_playerIndex w (se_playerId s) = Some (se_id s)"
      using wf unfolding world_wf_def by blast
    ultimately show ?thesis by (simp add: same_snake_def)
  qed
  have B: "\<exists>t \<in> set ss. se_id t = i \<and> se_playerId t = p" if i: "ws_playerIndex w p = Some i" for p i
  proof -
    obtain s where s: "s \<in> set (ws_snakes w)" "se_id s = i" "se_playerId s = p" using wf i unfolding world_wf_def by blast
    obtain t where "t \<in> set ss" "same_snake s t"
      using list_all2_mem(2) [OF ss s(1)] by blast
    with s show ?thesis by (auto simp: same_snake_def)
  qed
  have C: "distinct (map se_id ss)" "distinct (map se_playerId ss)" "distinct (map fe_id (ws_food w))"
    "\<forall>f \<in> set (ws_food w). fe_id f < ws_nextEntityId w \<and> 0 \<le> fe_mass f"
    using wf unfolding m world_wf_def by simp_all
  have "\<forall>t \<in> set ss. snake_wf t \<and> se_id t < ws_nextEntityId w \<and> ws_playerIndex w (se_playerId t) = Some (se_id t)"
    "\<forall>p i. ws_playerIndex w p = Some i \<longrightarrow> (\<exists>t \<in> set ss. se_id t = i \<and> se_playerId t = p)"
    using A B by blast+
  with C show ?thesis unfolding world_wf_def by simp
qed

lemma world_wf_food:
  assumes wf: "world_wf w" and m: "more_food w w'"
  shows "world_wf w'"
proof -
  obtain fs r where fs: "w' = w\<lparr>ws_nextEntityId := ws_nextEntityId w + length fs, ws_food := ws_food w @ fs, ws_random := r\<rparr>"
    "map fe_id fs = [ws_nextEntityId w..<ws_nextEntityId w + length fs]" "\<forall>f \<in> set fs. 0 \<le> fe_mass f"
    using m unfolding more_food_def by blast
  have new: "ws_nextEntityId w \<le> fe_id f \<and> fe_id f < ws_nextEntityId w + length fs" if "f \<in> set fs" for f
    using arg_cong [OF fs(2), of set] that by (auto simp: image_iff set_eq_iff)
  have "distinct (map fe_id (ws_food w @ fs))"
    using wf new by (auto simp: world_wf_def fs(2) simp del: distinct_map)
  then show ?thesis
    using wf new fs(3) unfolding world_wf_def fs(1) by (auto intro: less_le_trans trans_less_add1)
qed

lemma snakeById_wf: "world_wf w \<Longrightarrow> snakeById i w = Some s \<Longrightarrow> s \<in> set (ws_snakes w) \<and> se_id s = i \<and> snake_wf s"
  unfolding snakeById_def world_wf_def by (auto dest: find_SomeD)

lemma snakeById_Some: "world_wf w \<Longrightarrow> s \<in> set (ws_snakes w) \<Longrightarrow> snakeById (se_id s) w = Some s"
  unfolding snakeById_def world_wf_def by (intro find_key) auto

text \<open>Every change to a snake keeps it well formed.\<close>

lemma lengthForMass_bounds: "6 \<le> lengthForMass m" "lengthForMass m \<le> 400"
proof -
  have "6 \<le> \<lfloor>6 + max 0 m * (9 / 10)\<rfloor>" by (simp add: le_floor_iff)
  then have "6 \<le> nat \<lfloor>6 + max 0 m * (9 / 10)\<rfloor>" by (simp only: le_nat_iff)
  then show "6 \<le> lengthForMass m" "lengthForMass m \<le> 400" unfolding lengthForMass_def by linarith+
qed

lemma lengthForMass_mono: "m \<le> n \<Longrightarrow> lengthForMass m \<le> lengthForMass n"
  unfolding lengthForMass_def
  by (intro min.mono nat_mono floor_mono add_left_mono mult_right_mono order_refl) auto

lemma snake_wf_setMass: "same_snake s (setMass m s)"
proof -
  have "1 \<le> min (lengthForMass (max 1 m)) SPINE_CAPACITY"
    using lengthForMass_bounds(1) [of "max 1 m"] by (simp add: SPINE_CAPACITY_def)
  moreover have "lengthForMass (max 1 m) \<le> SPINE_CAPACITY"
    using lengthForMass_bounds(2) [of "max 1 m"] by (simp add: SPINE_CAPACITY_def)
  ultimately show ?thesis
    by (auto simp: same_snake_def snake_wf_def setMass_def Let_def min_def)
qed

lemma same_pushPoint: "same_snake s (pushPoint p s)"
proof -
  have "lengthForMass (se_mass s) \<le> SPINE_CAPACITY"
    using lengthForMass_bounds(2) [of "se_mass s"] by (simp add: SPINE_CAPACITY_def)
  then show ?thesis
    using lengthForMass_bounds(1) [of "se_mass s"]
    by (auto simp: same_snake_def snake_wf_def pushPoint_def Let_def min_def SPINE_CAPACITY_def)
qed

lemma same_command: "same_snake s (applyCommand c s)"
  by (simp add: same_snake_def snake_wf_def applyCommand_def)

lemma same_commands: "same_snake s (fold applyCommand cs s)"
  by (induction cs arbitrary: s) (auto intro: same_snake_trans [OF same_command])

lemma same_turned: "same_snake s (turned cfg s)"
  by (simp add: same_snake_def snake_wf_def turned_def Let_def)

lemma same_boosted: "same_snake s (boosted cfg s)"
proof -
  have "same_snake s (s\<lparr>se_speed := v, se_boostDebt := d\<rparr>)" "same_snake s (s\<lparr>se_speed := v\<rparr>)" for v d
    by (simp_all add: same_snake_def snake_wf_def)
  then show ?thesis
    using same_snake_trans [OF _ snake_wf_setMass] by (simp add: boosted_def Let_def)
qed

lemma same_advanced: "same_snake s (advanced cfg s)"
proof -
  have "same_snake s (s\<lparr>se_sinceLastPoint := v\<rparr>)" "same_snake s (s\<lparr>se_sinceLastPoint := v, se_spine := (se_spine s)[i := p]\<rparr>)" for v i p
    by (simp_all add: same_snake_def snake_wf_def)
  then show ?thesis
    using same_snake_trans [OF _ same_pushPoint] by (simp add: advanced_def Let_def)
qed

lemma same_move: "same_snake s (moveSnake cfg s)"
  using same_snake_trans [OF same_turned same_snake_trans [OF same_boosted same_advanced]] by (simp add: moveSnake_def)

lemma same_mapped: "(\<And>s. same_snake s (f s)) \<Longrightarrow> list_all2 same_snake ss (map f ss)"
  by (induction ss) auto

lemma world_wf_inputs: "world_wf w \<Longrightarrow> world_wf (applyInputs w)"
proof -
  assume w: "world_wf w"
  have "list_all2 same_snake (ws_snakes w) (map (\<lambda>s. case ws_pendingInputs w (se_id s) of
          None \<Rightarrow> s | Some queue \<Rightarrow> if se_alive s then fold applyCommand queue s else s) (ws_snakes w))"
    by (intro same_mapped) (auto simp: same_commands split: option.split)
  from world_wf_snakes [OF w this] show ?thesis by (simp add: applyInputs_def world_wf_def)
qed

lemma world_wf_moves: "world_wf w \<Longrightarrow> world_wf (moveSnakes cfg w)"
  unfolding moveSnakes_def by (erule world_wf_snakes) (intro same_mapped same_move)

lemma eatCandidates_same:
  "eatCandidates head reach is (s, foods, h, n) = (s', foods', h', n') \<Longrightarrow>
    same_snake s s' \<and> set foods' \<subseteq> set foods \<and> (distinct (map fe_id foods) \<longrightarrow> distinct (map fe_id foods')) \<and>
    se_spine s' = se_spine s \<and> se_headIndex s' = se_headIndex s \<and> se_alive s' = se_alive s \<and> se_kills s' = se_kills s \<and>
    se_angle s' = se_angle s"
proof (induction "is" arbitrary: s foods h n)
  case (Cons i "is")
  show ?case
  proof (cases "find (\<lambda>f. fe_id f = i) foods")
    case None
    with Cons show ?thesis by simp
  next
    case (Some f)
    show ?thesis
    proof (cases "distance_of (fe_pos f) head \<le> reach")
      case True
      let ?s = "setMass (se_mass s + fe_mass f) s" and ?fs = "filter (\<lambda>x. fe_id x \<noteq> i) foods"
      have "eatCandidates head reach is (?s, ?fs, remove_entity i (fe_pos f) h, n + 1) = (s', foods', h', n')"
        using Cons.prems Some True by simp
      from Cons.IH [OF this] snake_wf_setMass [of s] show ?thesis
        by (auto simp: setMass_def Let_def intro: same_snake_trans distinct_map_filter)
    qed (use Cons Some in simp)
  qed
qed auto

lemma eatSnake_same:
  assumes "eatSnake s (foods, h, n) = (s', foods', h', n')"
  shows "same_snake s s' \<and> set foods' \<subseteq> set foods \<and> (distinct (map fe_id foods) \<longrightarrow> distinct (map fe_id foods')) \<and>
    se_spine s' = se_spine s \<and> se_headIndex s' = se_headIndex s \<and> se_alive s' = se_alive s \<and> se_kills s' = se_kills s \<and>
    se_angle s' = se_angle s"
  using assms eatCandidates_same by (auto simp: eatSnake_def Let_def split: if_splits)

definition eaten_alike :: "snake_entity \<Rightarrow> snake_entity \<Rightarrow> bool" where
  "eaten_alike s t \<longleftrightarrow> same_snake s t \<and> se_spine t = se_spine s \<and> se_headIndex t = se_headIndex s \<and> se_alive t = se_alive s \<and>
     se_kills t = se_kills s \<and> se_angle t = se_angle s"

lemma eatAll_same:
  "eatAll ss (foods, h, n) = (ss', foods', h', n') \<Longrightarrow>
    list_all2 eaten_alike ss ss' \<and> set foods' \<subseteq> set foods \<and> (distinct (map fe_id foods) \<longrightarrow> distinct (map fe_id foods'))"
proof (induction ss arbitrary: foods h n ss' foods' h' n')
  case (Cons s ss)
  obtain s1 f1 h1 n1 where e: "eatSnake s (foods, h, n) = (s1, f1, h1, n1)" by (metis prod_cases4)
  obtain ss2 f2 h2 n2 where a: "eatAll ss (f1, h1, n1) = (ss2, f2, h2, n2)" by (metis prod_cases4)
  from eatSnake_same [OF e] Cons.IH [OF a] Cons.prems e a show ?case by (auto simp: eaten_alike_def)
qed auto

lemma world_wf_eat: "world_wf w \<Longrightarrow> world_wf (snd (consumeFood cfg w))"
proof -
  assume w: "world_wf w"
  obtain ss foods h n where e: "eatAll (ws_snakes w) (ws_food w, rebuildFoodHash cfg w, 0) = (ss, foods, h, n)"
    by (metis prod_cases4)
  note a = eatAll_same [OF e]
  have "list_all2 same_snake (ws_snakes w) ss"
    using a by (auto elim: list_all2_mono simp: eaten_alike_def)
  from world_wf_snakes [OF w this] a show ?thesis
    by (auto simp: consumeFood_def e world_wf_def subset_iff)
qed


section \<open>Collisions\<close>

text \<open>What one tick can change about a snake after it has moved.\<close>

definition hit_alike :: "snake_entity \<Rightarrow> snake_entity \<Rightarrow> bool" where
  "hit_alike s t \<longleftrightarrow> (\<exists>a k. t = s\<lparr>se_alive := a, se_kills := k\<rparr> \<and> (a \<longrightarrow> se_alive s))"

lemma hit_alike_refl [simp]: "hit_alike s s"
  unfolding hit_alike_def by (rule exI [of _ "se_alive s"], rule exI [of _ "se_kills s"]) simp

lemma hit_alike_trans: "hit_alike s t \<Longrightarrow> hit_alike t u \<Longrightarrow> hit_alike s u"
  unfolding hit_alike_def by fastforce

lemma hit_alike_same: "hit_alike s t \<Longrightarrow> same_snake s t"
  by (auto simp: hit_alike_def same_snake_def snake_wf_def)

lemma hit_alike_dies: "hit_alike s (s\<lparr>se_alive := False\<rparr>)"
  unfolding hit_alike_def by (rule exI [of _ False], rule exI [of _ "se_kills s"]) simp

lemma hit_alike_kills: "hit_alike s (s\<lparr>se_kills := k\<rparr>)"
  unfolding hit_alike_def by (rule exI [of _ "se_alive s"], rule exI [of _ k]) simp

lemma list_all2_alike_trans:
  "list_all2 hit_alike xs ys \<Longrightarrow> list_all2 hit_alike ys zs \<Longrightarrow> list_all2 hit_alike xs zs"
  by (rule list_all2_trans) (auto intro: hit_alike_trans)

definition swept :: "world_state \<Rightarrow> world_state \<Rightarrow> bool" where
  "swept w w' \<longleftrightarrow> list_all2 hit_alike (ws_snakes w) (ws_snakes w') \<and> w' = w\<lparr>ws_snakes := ws_snakes w'\<rparr>"

lemma swept_refl [simp]: "swept w w"
  by (simp add: swept_def list_all2_refl)

lemma swept_trans: "swept w w' \<Longrightarrow> swept w' w'' \<Longrightarrow> swept w w''"
  unfolding swept_def by (metis (no_types, lifting) list_all2_alike_trans world_state.surjective world_state.update_convs(3))

lemma swept_wf: "world_wf w \<Longrightarrow> swept w w' \<Longrightarrow> world_wf w'"
proof -
  assume w: "world_wf w" and s: "swept w w'"
  have "list_all2 same_snake (ws_snakes w) (ws_snakes w')"
    using s by (auto simp: swept_def elim: list_all2_mono intro: hit_alike_same)
  from world_wf_snakes [OF w this] s show ?thesis by (simp add: swept_def)
qed

lemma setSnake_swept:
  assumes w: "world_wf w" and t: "t \<in> set (ws_snakes w)" and s: "hit_alike t s"
  shows "swept w (setSnake s w)"
proof -
  have i: "se_id s = se_id t" using hit_alike_same [OF s] by (simp add: same_snake_def)
  have "list_all2 hit_alike xs (upd_rows (\<lambda>x. se_id x = se_id s) (\<lambda>_. s) xs)"
    if "\<And>x. x \<in> set xs \<Longrightarrow> se_id x = se_id s \<Longrightarrow> hit_alike x s" for xs
    using that by (induction xs) auto
  moreover have "hit_alike x s" if "x \<in> set (ws_snakes w)" "se_id x = se_id s" for x
    using distinct_key_eq [of se_id "ws_snakes w" x t] w t s that i by (simp add: world_wf_def)
  ultimately show ?thesis by (simp add: swept_def setSnake_def)
qed

lemma first_touchD: "first_touch f ks = Some x \<Longrightarrow> \<exists>k \<in> set ks. f k = Some x"
  by (induction ks) (auto split: option.splits)

lemma touchingD:
  assumes "touching entries w s k = Some x"
  obtains offset p where "(se_id x, offset, p) \<in> set entries" "se_id x \<noteq> se_id s" "snakeById (se_id x) w = Some x" "se_alive x"
    "distance_of (pointAt x (int offset)) (headOf s) \<le> se_radius s + se_radius x"
proof -
  have k: "1 \<le> k" "k \<le> length entries" using assms by (auto simp: touching_def split: if_splits)
  then have m: "entries ! (k - 1) \<in> set entries" by simp
  obtain owner offset p where e: "entries ! (k - 1) = (owner, offset, p)" by (metis prod_cases3)
  have "snakeById owner w = Some x \<and> owner \<noteq> se_id s \<and> se_alive x \<and>
      distance_of (pointAt x (int offset)) (headOf s) \<le> se_radius s + se_radius x"
    using assms k e by (auto simp: touching_def split: if_splits option.splits)
  moreover from this have "owner = se_id x" by (auto simp: snakeById_def dest: find_SomeD)
  ultimately show ?thesis using that [of offset p] m e by simp
qed

lemma collideSnake_swept:
  assumes w: "world_wf w" and c: "collideSnake h entries i (w, ds) = (w', ds')"
  shows "swept w w'"
proof (cases "snakeById i w")
  case None
  with c show ?thesis by (simp add: collideSnake_def)
next
  case (Some s)
  note s = snakeById_wf [OF w Some]
  have d: "swept w (setSnake (s\<lparr>se_alive := False\<rparr>) w)"
    using s by (intro setSnake_swept [OF w, of s] hit_alike_dies) simp
  show ?thesis
  proof (cases "first_touch (touching entries w s) (queryCircle (headOf s) (se_radius s + 40) h)")
    case None
    with c Some d show ?thesis by (auto simp: collideSnake_def Let_def split: if_splits)
  next
    case (Some x)
    then obtain k where "touching entries w s k = Some x" using first_touchD by blast
    then have x: "se_id x \<noteq> se_id s" "snakeById (se_id x) w = Some x" by (auto elim: touchingD)
    let ?w = "setSnake (s\<lparr>se_alive := False\<rparr>) w"
    have "x \<in> set (ws_snakes ?w)"
      using snakeById_wf [OF w x(2)] x(1) by (auto simp: setSnake_def set_upd_rows)
    then have "swept ?w (setSnake (x\<lparr>se_kills := se_kills x + 1\<rparr>) ?w)"
      by (intro setSnake_swept [OF swept_wf [OF w d], of x] hit_alike_kills)
    from swept_trans [OF d this] c Some \<open>snakeById i w = Some s\<close> d show ?thesis
      by (auto simp: collideSnake_def Let_def split: if_splits)
  qed
qed

lemma collideAll_swept:
  "world_wf w \<Longrightarrow> fold (collideSnake h entries) ks (w, ds) = (w', ds') \<Longrightarrow> swept w w'"
proof (induction ks arbitrary: w ds)
  case (Cons i ks)
  obtain v es where c: "collideSnake h entries i (w, ds) = (v, es)" by fastforce
  note s = collideSnake_swept [OF Cons.prems(1) c]
  from swept_trans [OF s Cons.IH [OF swept_wf [OF Cons.prems(1) s]]] Cons.prems(2) c show ?case by simp
qed simp

lemma more_food_scatters: "world_wf w \<Longrightarrow> more_food w (fold (scatterDeath cfg) ds w)"
proof (induction ds arbitrary: w)
  case (Cons d ds)
  have m: "more_food w (scatterDeath cfg d w)"
  proof (cases "snakeById (de_victim d) w")
    case (Some s)
    from snakeById_wf [OF Cons.prems this] have "0 \<le> se_mass s" by (simp add: snake_wf_def)
    with Some show ?thesis by (simp add: scatterDeath_def more_food_scatter)
  qed (simp add: scatterDeath_def)
  from more_food_trans [OF m Cons.IH [OF world_wf_food [OF Cons.prems m]]] show ?case by simp
qed simp

lemma detect_swept:
  assumes w: "world_wf w"
  obtains v where "swept w v" "world_wf v" "more_food v (snd (detectCollisions cfg w))"
proof -
  obtain v ds where f: "fold (collideSnake (rebuildBodyHash cfg w) (bodyEntries w)) (map se_id (ws_snakes w)) (w, []) = (v, ds)"
    by fastforce
  note s = collideAll_swept [OF w f]
  note v = swept_wf [OF w s]
  from that [OF s v] more_food_scatters [OF v, of cfg ds] show ?thesis by (simp add: detectCollisions_def f)
qed

lemma world_wf_detect: "world_wf w \<Longrightarrow> world_wf (snd (detectCollisions cfg w))"
  by (erule detect_swept [of _ cfg]) (rule world_wf_food)

lemma world_wf_expire: "world_wf w \<Longrightarrow> world_wf (expireFood w)"
  by (auto simp: expireFood_def world_wf_def intro: distinct_map_filter)

lemma world_wf_maintain: "world_wf w \<Longrightarrow> world_wf (snd (maintainFood cfg w))"
  by (simp add: maintainFood_def Let_def world_wf_food [OF _ more_food_spawns])

lemma snd_step_world:
  "snd (step_world cfg w) =
    (let v = expireFood (snd (maintainFood cfg (snd (detectCollisions cfg (snd (consumeFood cfg (moveSnakes cfg (applyInputs w))))))))
     in v\<lparr>ws_tick := ws_tick v + 1, ws_elapsedMs := ws_elapsedMs v + dtSeconds cfg * 1000\<rparr>)"
  by (simp add: step_world_def Let_def case_prod_beta)

lemma world_wf_step: "world_wf w \<Longrightarrow> world_wf (snd (step_world cfg w))"
proof -
  assume "world_wf w"
  then have "world_wf (expireFood (snd (maintainFood cfg (snd (detectCollisions cfg (snd (consumeFood cfg (moveSnakes cfg (applyInputs w)))))))))"
    by (intro world_wf_expire world_wf_maintain world_wf_detect world_wf_eat world_wf_moves world_wf_inputs)
  then show ?thesis by (simp add: snd_step_world Let_def world_wf_def)
qed


section \<open>Joining and leaving\<close>

lemma world_wf_create: "world_wf (createWorld cfg)"
  unfolding createWorld_def by (rule world_wf_food [OF _ more_food_spawns]) (simp add: world_wf_def)

lemma length_seedSpine: "length (seedSpine p a n) = SPINE_CAPACITY"
proof -
  have "length (fold (\<lambda>i spine. spine[f i := g i]) ks xs) = length xs" for f :: "nat \<Rightarrow> nat" and g :: "nat \<Rightarrow> point" and ks xs
    by (induction ks arbitrary: xs) simp_all
  then show ?thesis by (simp add: seedSpine_def)
qed

lemma getByPlayerId_wf: "world_wf w \<Longrightarrow> getByPlayerId p w = None \<longleftrightarrow> ws_playerIndex w p = None"
proof (cases "ws_playerIndex w p")
  case (Some i)
  assume w: "world_wf w"
  with Some obtain s where "s \<in> set (ws_snakes w)" "se_id s = i" unfolding world_wf_def by blast
  with snakeById_Some [OF w] Some show ?thesis by (auto simp: getByPlayerId_def)
qed (simp add: getByPlayerId_def)

lemma spawnSnake_new:
  assumes "getByPlayerId p w = None"
  obtains v s where "more_food w v" "snake_wf s" "se_playerId s = p" "se_id s = ws_nextEntityId v" "se_alive s"
    "spawnSnake p nick isBot w = (s, v\<lparr>ws_nextEntityId := ws_nextEntityId v + 1, ws_snakes := ws_snakes v @ [s],
       ws_playerIndex := (ws_playerIndex v)(p \<mapsto> se_id s)\<rparr>)"
proof -
  obtain q a where q: "findSpawnPoint w = (q, a)" by fastforce
  obtain u b where u: "random_draw a = (u, b)" by fastforce
  have m: "more_food w b"
    using more_food_trans [OF spawnAttempts_food more_food_draw, of w 12 "(0, 0)" "- 1"] q u by (simp add: findSpawnPoint_def)
  let ?s = "\<lparr>se_id = ws_nextEntityId b, se_playerId = p, se_nickname = nick,
                   se_spine = seedSpine q (u * pi * 2) (lengthForMass STARTING_MASS), se_headIndex = 0, se_spineLength = lengthForMass STARTING_MASS,
                   se_spineCapacity = SPINE_CAPACITY, se_angle = u * pi * 2, se_targetAngle = u * pi * 2, se_speed = BASE_SPEED,
                   se_mass = STARTING_MASS, se_radius = radiusForMass STARTING_MASS, se_boosting = False, se_alive = True,
                   se_isBot = isBot, se_lastAckSeq = 0, se_spawnedAtTick = ws_tick b, se_kills = 0, se_score = 0,
                   se_boostDebt = 0, se_sinceLastPoint = 0\<rparr>"
  have "snake_wf ?s"
    using lengthForMass_bounds(1) [of STARTING_MASS]
    by (simp add: snake_wf_def length_seedSpine scoreForMass_def) (simp add: SPINE_CAPACITY_def STARTING_MASS_def)
  from that [OF m this] show ?thesis using assms by (simp add: spawnSnake_def q u Let_def)
qed

lemma world_wf_spawn:
  assumes w: "world_wf w"
  shows "world_wf (snd (spawnSnake p nick isBot w))"
proof (cases "getByPlayerId p w")
  case None
  obtain v s where v: "more_food w v" "snake_wf s" "se_playerId s = p" "se_id s = ws_nextEntityId v" "se_alive s"
    "spawnSnake p nick isBot w = (s, v\<lparr>ws_nextEntityId := ws_nextEntityId v + 1, ws_snakes := ws_snakes v @ [s],
       ws_playerIndex := (ws_playerIndex v)(p \<mapsto> se_id s)\<rparr>)"
    by (rule spawnSnake_new [OF None])
  have wf: "world_wf v" by (rule world_wf_food [OF w v(1)])
  have p: "ws_playerIndex v p = None" using getByPlayerId_wf [OF w] None more_foodD(2) [OF v(1)] by simp
  have new: "se_id t \<noteq> se_id s \<and> se_playerId t \<noteq> p" if "t \<in> set (ws_snakes v)" for t
    using wf that p v(4) by (auto simp: world_wf_def)
  then have "se_id s \<notin> se_id ` set (ws_snakes v)" "se_playerId s \<notin> se_playerId ` set (ws_snakes v)" using v(3) by force+
  then have "distinct (map se_id (ws_snakes v @ [s]))" "distinct (map se_playerId (ws_snakes v @ [s]))"
    using wf unfolding world_wf_def distinct_map_snoc by blast+
  then show ?thesis
    using wf v p new unfolding world_wf_def by (auto intro: less_SucI simp del: distinct_map)
qed (use w in \<open>simp add: spawnSnake_def\<close>)

lemma world_wf_despawn:
  assumes w: "world_wf w"
  shows "world_wf (despawnSnake cfg p scatter w)"
proof (cases "ws_playerIndex w p")
  case (Some i)
  define v where "v = (case snakeById i w of Some s \<Rightarrow> if scatter then scatterMass cfg s w else w | None \<Rightarrow> w)"
  have "0 \<le> se_mass s" if "snakeById i w = Some s" for s
    using snakeById_wf [OF w that] by (simp add: snake_wf_def)
  then have m: "more_food w v" by (auto simp: v_def intro: more_food_scatter split: option.split)
  have wf: "world_wf v" by (rule world_wf_food [OF w m])
  have p: "ws_playerIndex v p = Some i" using Some more_foodD(2) [OF m] by simp
  have o: "se_playerId s = p \<longleftrightarrow> se_id s = i" if "s \<in> set (ws_snakes v)" for s
  proof -
    obtain t where "t \<in> set (ws_snakes v)" "se_id t = i" "se_playerId t = p" using wf p unfolding world_wf_def by blast
    with wf that show ?thesis unfolding world_wf_def by (metis distinct_key_eq)
  qed
  have "world_wf (v\<lparr>ws_snakes := filter (\<lambda>s. se_id s \<noteq> i) (ws_snakes v), ws_playerIndex := (ws_playerIndex v)(p := None),
      ws_pendingInputs := (ws_pendingInputs v)(i := None)\<rparr>)"
    using wf o unfolding world_wf_def by (auto intro!: distinct_map_filter) metis+
  then show ?thesis by (simp add: despawnSnake_def Some v_def [symmetric] Let_def)
qed (use w in \<open>simp add: despawnSnake_def\<close>)

lemma world_wf_enqueue: "world_wf w \<Longrightarrow> world_wf (enqueueInput p c w)"
  by (simp add: enqueueInput_def world_wf_def split: option.split)

subsection \<open>Every reachable world\<close>

datatype sim_op =
    OpStep
  | OpSpawn string string bool
  | OpDespawn string bool
  | OpInput string sim_input

definition run_op :: "sim_config \<Rightarrow> sim_op \<Rightarrow> world_state \<Rightarrow> world_state" where
  "run_op cfg op w =
    (case op of
       OpStep \<Rightarrow> snd (step_world cfg w)
     | OpSpawn p nick isBot \<Rightarrow> snd (spawnSnake p nick isBot w)
     | OpDespawn p scatter \<Rightarrow> despawnSnake cfg p scatter w
     | OpInput p c \<Rightarrow> enqueueInput p c w)"

lemma world_wf_op: "world_wf w \<Longrightarrow> world_wf (run_op cfg op w)"
  by (cases op) (simp_all add: run_op_def world_wf_step world_wf_spawn world_wf_despawn world_wf_enqueue)

lemma world_wf_ops: "world_wf w \<Longrightarrow> world_wf (fold (run_op cfg) ops w)"
  by (induction ops arbitrary: w) (simp_all add: world_wf_op)


text \<open>C28: Whatever is asked of a simulation and in whatever order - snakes joining and leaving, any inputs from any client,
  any number of ticks - its tables stay consistent: ids are unique, a player has at most one snake and is listed exactly
  under it, every snake's ring of points, head, length, radius and score fit its mass, which is never below one, and
  no pellet has a negative mass.\<close>

theorem world_stays_consistent: "world_wf (fold (run_op cfg) ops (createWorld cfg))"
  by (rule world_wf_ops [OF world_wf_create])

end
