(* ===== verification/Simulation_Motion.thy ===== *)
theory Simulation_Motion
  imports Simulation_Properties
begin

text \<open>
  What one tick does to one snake, whatever its client sent: how far the head gets, how far the heading turns,
  and that the dead stay dead and where they are.
\<close>

lemma distance_along: "distance_of (x + cos a * d, y + sin a * d) (x, y) = \<bar>d\<bar>"
proof -
  have "(cos a * d)\<^sup>2 + (sin a * d)\<^sup>2 = ((cos a)\<^sup>2 + (sin a)\<^sup>2) * d\<^sup>2" by (simp only: power_mult_distrib distrib_right)
  then show ?thesis by (simp add: distance_of_def hypot_def)
qed

lemma distance_self [simp]: "distance_of p p = 0"
  by (simp add: distance_of_def hypot_def)

lemma dtSeconds_nonneg [simp]: "0 \<le> dtSeconds cfg"
  by (simp add: dtSeconds_def)

lemma headOf_pushPoint: "snake_wf s \<Longrightarrow> headOf (pushPoint p s) = p"
  by (simp add: snake_wf_def headOf_def spine_at_def pushPoint_def Let_def SPINE_CAPACITY_def)

lemma headOf_advanced:
  assumes "snake_wf s"
  shows "headOf (advanced cfg s) =
    (fst (headOf s) + cos (se_angle s) * (se_speed s * dtSeconds cfg), snd (headOf s) + sin (se_angle s) * (se_speed s * dtSeconds cfg))"
proof -
  have p: "headOf (pushPoint p (s\<lparr>se_sinceLastPoint := v\<rparr>)) = p" for p v
    using assms by (intro headOf_pushPoint) (simp add: snake_wf_def)
  have q: "headOf (s\<lparr>se_sinceLastPoint := v, se_spine := (se_spine s)[se_headIndex s := p]\<rparr>) = p" for p v
    using assms by (simp add: snake_wf_def headOf_def spine_at_def)
  show ?thesis unfolding advanced_def Let_def by (simp add: p q)
qed

lemma angle_advanced [simp]: "se_angle (advanced cfg s) = se_angle s"
  by (simp add: advanced_def pushPoint_def Let_def)

lemma alive_advanced [simp]: "se_alive (advanced cfg s) = se_alive s"
  by (simp add: advanced_def pushPoint_def Let_def)

lemma boosted_simps [simp]:
  "se_angle (boosted cfg s) = se_angle s" "headOf (boosted cfg s) = headOf s" "se_alive (boosted cfg s) = se_alive s"
  by (simp_all add: boosted_def setMass_def headOf_def spine_at_def Let_def)

lemma boosted_speed:
  "se_speed (boosted cfg s) = (if se_boosting s \<and> MIN_BOOST_MASS < se_mass s then BASE_SPEED * BOOST_SPEED_MULTIPLIER else BASE_SPEED)"
  by (simp add: boosted_def setMass_def Let_def)

lemma turned_simps [simp]:
  "headOf (turned cfg s) = headOf s" "se_boosting (turned cfg s) = se_boosting s" "se_mass (turned cfg s) = se_mass s"
  "se_alive (turned cfg s) = se_alive s"
  by (simp_all add: turned_def headOf_def spine_at_def Let_def)

lemma turned_bound: "\<bar>se_angle (turned cfg s) - se_angle s\<bar> \<le> MAX_TURN_RATE_RAD_PER_SEC * dtSeconds cfg"
proof -
  have "0 \<le> MAX_TURN_RATE_RAD_PER_SEC * dtSeconds cfg" by (simp add: MAX_TURN_RATE_RAD_PER_SEC_def)
  then show ?thesis by (simp add: turned_def Let_def)
qed

text \<open>The limits of one tick.\<close>

definition within_limits :: "sim_config \<Rightarrow> snake_entity \<Rightarrow> snake_entity \<Rightarrow> bool" where
  "within_limits cfg s t \<longleftrightarrow>
    distance_of (headOf t) (headOf s) \<le> (if MIN_BOOST_MASS < se_mass s then BASE_SPEED * BOOST_SPEED_MULTIPLIER else BASE_SPEED) * dtSeconds cfg \<and>
    \<bar>se_angle t - se_angle s\<bar> \<le> MAX_TURN_RATE_RAD_PER_SEC * dtSeconds cfg \<and>
    (se_alive t \<longrightarrow> se_alive s) \<and> (\<not> se_alive s \<longrightarrow> headOf t = headOf s)"

lemma moveSnake_limits:
  assumes "snake_wf s"
  shows "within_limits cfg s (moveSnake cfg s)"
proof (cases "se_alive s")
  case True
  let ?b = "boosted cfg (turned cfg s)"
  have "snake_wf ?b" using assms same_snake_trans [OF same_turned same_boosted] by (simp add: same_snake_def)
  note h = headOf_advanced [OF this, of cfg]
  have "distance_of (headOf (advanced cfg ?b)) (headOf s) = \<bar>se_speed ?b * dtSeconds cfg\<bar>"
    unfolding h by (cases "headOf s") (simp add: distance_along)
  moreover have "\<bar>se_speed ?b * dtSeconds cfg\<bar> \<le> (if MIN_BOOST_MASS < se_mass s then BASE_SPEED * BOOST_SPEED_MULTIPLIER else BASE_SPEED) * dtSeconds cfg"
    unfolding boosted_speed by (simp add: BASE_SPEED_def BOOST_SPEED_MULTIPLIER_def)
  ultimately show ?thesis
    using True turned_bound [of cfg s] by (simp add: within_limits_def moveSnake_def)
next
  case False
  then show ?thesis
    by (simp add: within_limits_def moveSnake_def BASE_SPEED_def BOOST_SPEED_MULTIPLIER_def MAX_TURN_RATE_RAD_PER_SEC_def)
qed

text \<open>What comes after the move changes neither place nor heading.\<close>

definition stays_put :: "snake_entity \<Rightarrow> snake_entity \<Rightarrow> bool" where
  "stays_put s t \<longleftrightarrow> same_snake s t \<and> headOf t = headOf s \<and> se_angle t = se_angle s \<and> (se_alive t \<longrightarrow> se_alive s)"

lemma stays_put_trans: "stays_put s t \<Longrightarrow> stays_put t u \<Longrightarrow> stays_put s u"
  by (auto simp: stays_put_def intro: same_snake_trans)

lemma eaten_stays_put: "eaten_alike s t \<Longrightarrow> stays_put s t"
  by (simp add: eaten_alike_def stays_put_def headOf_def spine_at_def)

lemma hit_stays_put: "hit_alike s t \<Longrightarrow> stays_put s t"
  by (frule hit_alike_same) (auto simp: hit_alike_def stays_put_def headOf_def spine_at_def)

lemma applyCommand_stays: "stays_put s (applyCommand c s) \<and> se_mass (applyCommand c s) = se_mass s \<and> (se_alive (applyCommand c s) \<longleftrightarrow> se_alive s)"
  by (simp add: stays_put_def same_command) (simp add: applyCommand_def headOf_def spine_at_def)

lemma applyCommands_stays:
  "stays_put s (fold applyCommand cs s) \<and> se_mass (fold applyCommand cs s) = se_mass s \<and> (se_alive (fold applyCommand cs s) \<longleftrightarrow> se_alive s)"
proof (induction cs arbitrary: s)
  case Nil
  then show ?case by (simp add: stays_put_def)
next
  case (Cons c cs)
  from stays_put_trans [of s "applyCommand c s"] Cons [of "applyCommand c s"] applyCommand_stays [of s c]
  show ?case by simp
qed

definition commanded :: "world_state \<Rightarrow> snake_entity \<Rightarrow> snake_entity" where
  "commanded w s = (case ws_pendingInputs w (se_id s) of
     None \<Rightarrow> s | Some queue \<Rightarrow> if se_alive s then fold applyCommand queue s else s)"

lemma commanded_stays: "stays_put s (commanded w s) \<and> se_mass (commanded w s) = se_mass s \<and> (se_alive (commanded w s) \<longleftrightarrow> se_alive s)"
  using applyCommands_stays [of s] by (auto simp: commanded_def stays_put_def split: option.split)

lemma moved_snakes: "ws_snakes (moveSnakes cfg (applyInputs w)) = map (\<lambda>s. moveSnake cfg (commanded w s)) (ws_snakes w)"
  by (simp add: moveSnakes_def applyInputs_def commanded_def)

lemma consumed_snakes: "list_all2 stays_put (ws_snakes w) (ws_snakes (snd (consumeFood cfg w)))"
proof -
  obtain ss foods h n where e: "eatAll (ws_snakes w) (ws_food w, rebuildFoodHash cfg w, 0) = (ss, foods, h, n)"
    by (metis prod_cases4)
  from eatAll_same [OF e] have "list_all2 stays_put (ws_snakes w) ss" by (auto elim: list_all2_mono intro: eaten_stays_put)
  then show ?thesis by (simp add: consumeFood_def e)
qed

lemma detected_snakes: "world_wf w \<Longrightarrow> list_all2 hit_alike (ws_snakes w) (ws_snakes (snd (detectCollisions cfg w)))"
  by (erule detect_swept [of _ cfg]) (simp add: swept_def more_foodD)

lemma step_tail_snakes [simp]: "ws_snakes (expireFood (snd (maintainFood cfg w))) = ws_snakes w"
  using more_foodD(1) [OF more_food_spawns] by (simp add: expireFood_def maintainFood_def Let_def)

lemma step_snakes:
  assumes w: "world_wf w"
  shows "list_all2 (\<lambda>s t. same_snake s t \<and> within_limits cfg s t) (ws_snakes w) (ws_snakes (snd (step_world cfg w)))"
proof -
  let ?m = "moveSnakes cfg (applyInputs w)"
  let ?e = "snd (consumeFood cfg ?m)"
  have wf: "world_wf ?e" using w by (intro world_wf_eat world_wf_moves world_wf_inputs)
  have "list_all2 stays_put (ws_snakes ?e) (ws_snakes (snd (detectCollisions cfg ?e)))"
    using detected_snakes [OF wf, of cfg] by (rule list_all2_mono) (rule hit_stays_put)
  note list_all2_trans [OF stays_put_trans consumed_snakes this]
  moreover have "ws_snakes (snd (step_world cfg w)) = ws_snakes (snd (detectCollisions cfg ?e))"
    by (simp add: snd_step_world Let_def)
  ultimately have r: "list_all2 (\<lambda>s t. stays_put (moveSnake cfg (commanded w s)) t) (ws_snakes w) (ws_snakes (snd (step_world cfg w)))"
    by (simp add: moved_snakes list_all2_map1)
  have "same_snake s t \<and> within_limits cfg s t" if s: "s \<in> set (ws_snakes w)" and p: "stays_put (moveSnake cfg (commanded w s)) t" for s t
  proof -
    have c: "stays_put s (commanded w s)" "se_mass (commanded w s) = se_mass s" "se_alive (commanded w s) = se_alive s"
      using commanded_stays [of s w] by simp_all
    have "snake_wf (commanded w s)" using w s c(1) by (simp add: world_wf_def stays_put_def same_snake_def)
    from moveSnake_limits [OF this, of cfg] have "within_limits cfg s t"
      using c p by (simp add: within_limits_def stays_put_def)
    moreover have "same_snake s t"
      using same_snake_trans [OF same_snake_trans [OF _ same_move]] c(1) p unfolding stays_put_def by blast
    ultimately show ?thesis by simp
  qed
  with r show ?thesis by (auto elim: list.rel_mono_strong)
qed


text \<open>A key that does not change finds the snake again.\<close>

lemma list_all2_find:
  assumes "list_all2 P xs ys" and "\<And>x y. P x y \<Longrightarrow> key y = key x" and "find (\<lambda>x. key x = k) xs = Some x"
  shows "\<exists>y. find (\<lambda>x. key x = k) ys = Some y \<and> P x y"
  using assms by (induction rule: list_all2_induct) (auto split: if_splits)

lemma step_snakeById:
  assumes "world_wf w" and "snakeById i w = Some s"
  shows "\<exists>t. snakeById i (snd (step_world cfg w)) = Some t \<and> within_limits cfg s t"
  using list_all2_find [OF step_snakes [OF assms(1), of cfg], of se_id i s] assms(2)
  by (auto simp: snakeById_def same_snake_def)


text \<open>C29: In one tick no snake's head moves further than the boost speed allows, or than the base speed if it is too light to
  boost, and no heading turns by more than the turn rate, whatever inputs its client has queued; a dead snake stays
  dead and does not move. This holds of every snake of every world that can be reached.\<close>

theorem tick_within_limits:
  assumes "snakeById i (fold (run_op cfg) ops (createWorld cfg)) = Some s"
  shows "\<exists>t. snakeById i (snd (step_world cfg (fold (run_op cfg) ops (createWorld cfg)))) = Some t \<and>
    distance_of (headOf t) (headOf s) \<le> BASE_SPEED * BOOST_SPEED_MULTIPLIER * dtSeconds cfg \<and>
    (distance_of (headOf t) (headOf s) \<le> BASE_SPEED * dtSeconds cfg \<or> MIN_BOOST_MASS < se_mass s) \<and>
    \<bar>se_angle t - se_angle s\<bar> \<le> MAX_TURN_RATE_RAD_PER_SEC * dtSeconds cfg \<and>
    (se_alive s \<or> (\<not> se_alive t \<and> headOf t = headOf s))"
proof -
  obtain t where t: "snakeById i (snd (step_world cfg (fold (run_op cfg) ops (createWorld cfg)))) = Some t" "within_limits cfg s t"
    using step_snakeById [OF world_wf_ops [OF world_wf_create] assms, of cfg] by blast
  have "BASE_SPEED * dtSeconds cfg \<le> BASE_SPEED * BOOST_SPEED_MULTIPLIER * dtSeconds cfg"
    by (intro mult_right_mono) (simp_all add: BASE_SPEED_def BOOST_SPEED_MULTIPLIER_def)
  with t show ?thesis by (intro exI [of _ t]) (auto simp: within_limits_def split: if_splits)
qed

lemma tick_within_limits_witness:
  "\<exists>cfg ops i s t. ops = [OpSpawn ''p'' ''n'' False, OpInput ''p'' \<lparr>si_seq = 1, si_angle = 3, si_boost = True\<rparr>] \<and>
    snakeById i (fold (run_op cfg) ops (createWorld cfg)) = Some s \<and> se_playerId s = ''p'' \<and>
    snakeById i (snd (step_world cfg (fold (run_op cfg) ops (createWorld cfg)))) = Some t \<and>
    distance_of (headOf t) (headOf s) \<le> BASE_SPEED * BOOST_SPEED_MULTIPLIER * dtSeconds cfg"
proof -
  define cfg where "cfg = \<lparr>sc_tickRateHz = 30, sc_worldRadius = 8000, sc_cellSize = 512, sc_seed = 7, sc_targetFood = Some 3\<rparr>"
  define ops where "ops = [OpSpawn ''p'' ''n'' False, OpInput ''p'' \<lparr>si_seq = 1, si_angle = 3, si_boost = True\<rparr>]"
  have wf: "world_wf (snd (spawnSnake ''p'' ''n'' False (createWorld cfg)))" by (intro world_wf_spawn world_wf_create)
  have "getByPlayerId ''p'' (createWorld cfg) = None"
    using more_foodD(2) [OF more_food_spawns] by (simp add: getByPlayerId_def createWorld_def)
  then obtain v s where s: "se_playerId s = ''p''" "s \<in> set (ws_snakes (snd (spawnSnake ''p'' ''n'' False (createWorld cfg))))"
    by (rule spawnSnake_new [where nick = "''n''" and isBot = False]) auto
  have "ws_snakes (enqueueInput p c w) = ws_snakes w" for p c w by (simp add: enqueueInput_def split: option.split)
  then have i: "snakeById (se_id s) (fold (run_op cfg) ops (createWorld cfg)) = Some s"
    using snakeById_Some [OF wf s(2)] by (simp add: ops_def run_op_def snakeById_def)
  from tick_within_limits [OF i] s(1) i show ?thesis unfolding ops_def by blast
qed

end
