(* ===== verification/Room_Properties.thy ===== *)
theory Room_Properties
  imports Room Simulation_Motion
begin

text \<open>
  What holds of every room. The players with a snake are exactly the seated ones, every entrant is in the
  standings once, the first elimination of a player stands for good, and the standings put whoever lasted longer
  first and pass the verification of settlement.
\<close>

section \<open>Sorting by several keys\<close>

lemma insort_key_wrt:
  assumes "\<And>a b. f a < f b \<Longrightarrow> R a b" and "\<And>x. x \<in> set zs \<Longrightarrow> f x = f y \<Longrightarrow> R y x"
  shows "sorted_wrt R zs \<Longrightarrow> sorted (map f zs) \<Longrightarrow> sorted_wrt R (insort_key f y zs)"
  using assms(2)
proof (induction zs)
  case (Cons z zs)
  show ?case
  proof (cases "f y \<le> f z")
    case True
    have "R y x" if "x \<in> set (z # zs)" for x
    proof (cases "f x = f y")
      case False
      from that Cons.prems(2) have "f z \<le> f x" by auto
      with True False show ?thesis by (intro assms(1)) simp
    qed (use Cons.prems(3) that in simp)
    with True Cons.prems(1) show ?thesis by simp
  next
    case False
    then have "R z y" by (intro assms(1)) simp
    with False Cons show ?thesis by (simp add: set_insort_key)
  qed
qed simp

text \<open>A stable sort refines the order it finds.\<close>

lemma sort_key_wrt:
  assumes "sorted_wrt Q xs" and "\<And>a b. f a = f b \<Longrightarrow> Q a b \<Longrightarrow> R a b" and "\<And>a b. f a < f b \<Longrightarrow> R a b"
  shows "sorted_wrt R (sort_key f xs)"
  using assms(1)
proof (induction xs)
  case (Cons x xs)
  have "R x y" if "y \<in> set (sort_key f xs)" "f y = f x" for y
    using Cons.prems that assms(2) by simp
  then have "sorted_wrt R (insort_key f x (sort_key f xs))"
    using Cons by (intro insort_key_wrt [OF assms(3)]) simp_all
  then show ?case by simp
qed simp

section \<open>The clock, the index and the deaths of a tick\<close>

lemma more_food_elapsed: "more_food w w' \<Longrightarrow> ws_elapsedMs w' = ws_elapsedMs w"
  by (auto simp: more_food_def)

lemma swept_frame: "swept w w' \<Longrightarrow> ws_playerIndex w' = ws_playerIndex w \<and> ws_elapsedMs w' = ws_elapsedMs w"
  unfolding swept_def by (metis world_state.select_convs world_state.simps world_state.surjective world_state.update_convs(3))

lemma consume_frame: "ws_playerIndex (snd (consumeFood cfg w)) = ws_playerIndex w \<and> ws_elapsedMs (snd (consumeFood cfg w)) = ws_elapsedMs w"
  by (simp add: consumeFood_def case_prod_beta)

lemma step_frame:
  assumes "world_wf w"
  shows "ws_playerIndex (snd (step_world cfg w)) = ws_playerIndex w"
    and "ws_elapsedMs (snd (step_world cfg w)) = ws_elapsedMs w + dtSeconds cfg * 1000"
proof -
  let ?e = "snd (consumeFood cfg (moveSnakes cfg (applyInputs w)))"
  have wf: "world_wf ?e" using assms by (intro world_wf_eat world_wf_moves world_wf_inputs)
  obtain v where v: "swept ?e v" "more_food v (snd (detectCollisions cfg ?e))" by (rule detect_swept [OF wf, of cfg])
  have d: "ws_playerIndex (snd (detectCollisions cfg ?e)) = ws_playerIndex w" "ws_elapsedMs (snd (detectCollisions cfg ?e)) = ws_elapsedMs w"
    using swept_frame [OF v(1)] more_foodD(2) [OF v(2)] more_food_elapsed [OF v(2)] consume_frame [of cfg "moveSnakes cfg (applyInputs w)"]
    by (simp_all add: moveSnakes_def applyInputs_def)
  have t: "ws_playerIndex (expireFood (snd (maintainFood cfg x))) = ws_playerIndex x"
    "ws_elapsedMs (expireFood (snd (maintainFood cfg x))) = ws_elapsedMs x" for x
    using more_foodD(2) [OF more_food_spawns] more_food_elapsed [OF more_food_spawns]
    by (simp_all add: expireFood_def maintainFood_def Let_def)
  show "ws_playerIndex (snd (step_world cfg w)) = ws_playerIndex w"
    "ws_elapsedMs (snd (step_world cfg w)) = ws_elapsedMs w + dtSeconds cfg * 1000"
    by (simp_all add: snd_step_world Let_def t d)
qed

definition fair_death :: "world_state \<Rightarrow> death_event \<Rightarrow> bool" where
  "fair_death w d \<longleftrightarrow> 0 \<le> de_finalScore d \<and> ws_playerIndex w (de_victimPlayerId d) \<noteq> None"

lemma collideSnake_deaths:
  assumes w: "world_wf w" and c: "collideSnake h entries i (w, ds) = (w', ds')"
  shows "\<exists>new. ds' = ds @ new \<and> (\<forall>d \<in> set new. fair_death w d)"
proof (cases "snakeById i w")
  case (Some s)
  note s = snakeById_wf [OF w Some]
  then have "0 \<le> se_score s" "ws_playerIndex w (se_playerId s) \<noteq> None"
    using w by (auto simp: snake_wf_def scoreForMass_def world_wf_def)
  then have "fair_death w (wallDeath s)" "fair_death w (collisionDeath s t)" for t
    by (simp_all add: fair_death_def wallDeath_def collisionDeath_def)
  with Some c show ?thesis
    by (auto simp: collideSnake_def Let_def split: if_splits option.splits)
qed (use c in \<open>auto simp: collideSnake_def\<close>)

lemma collideAll_deaths:
  "world_wf w \<Longrightarrow> fold (collideSnake h entries) ks (w, ds) = (w', ds') \<Longrightarrow> \<forall>d \<in> set ds. fair_death w d \<Longrightarrow> \<forall>d \<in> set ds'. fair_death w d"
proof (induction ks arbitrary: w ds)
  case (Cons k ks)
  obtain v es where c: "collideSnake h entries k (w, ds) = (v, es)" by fastforce
  note s = collideSnake_swept [OF Cons.prems(1) c]
  have "fair_death v d \<longleftrightarrow> fair_death w d" for d using swept_frame [OF s] by (simp add: fair_death_def)
  moreover have "\<forall>d \<in> set es. fair_death w d"
    using collideSnake_deaths [OF Cons.prems(1) c] Cons.prems(3) by auto
  moreover have "fold (collideSnake h entries) ks (v, es) = (w', ds')" using Cons.prems(2) c by simp
  ultimately show ?case using Cons.IH [OF swept_wf [OF Cons.prems(1) s]] by simp
qed simp

lemma step_deaths:
  assumes "world_wf w"
  shows "\<forall>d \<in> set (tr_deaths (fst (step_world cfg w))). fair_death w d"
proof -
  let ?e = "snd (consumeFood cfg (moveSnakes cfg (applyInputs w)))"
  have wf: "world_wf ?e" using assms by (intro world_wf_eat world_wf_moves world_wf_inputs)
  obtain v ds where f: "fold (collideSnake (rebuildBodyHash cfg ?e) (bodyEntries ?e)) (map se_id (ws_snakes ?e)) (?e, []) = (v, ds)" by fastforce
  have "\<forall>d \<in> set ds. fair_death ?e d" using collideAll_deaths [OF wf f] by simp
  moreover have "fair_death ?e d \<longleftrightarrow> fair_death w d" for d
    using consume_frame [of cfg "moveSnakes cfg (applyInputs w)"] by (simp add: fair_death_def moveSnakes_def applyInputs_def)
  moreover have "tr_deaths (fst (step_world cfg w)) = ds"
    using f by (simp add: step_world_def Let_def case_prod_beta detectCollisions_def)
  ultimately show ?thesis by simp
qed

lemma spawn_frame:
  assumes "world_wf w"
  shows "ws_playerIndex (snd (spawnSnake p nick isBot w)) q \<noteq> None \<longleftrightarrow> q = p \<or> ws_playerIndex w q \<noteq> None"
    and "ws_elapsedMs (snd (spawnSnake p nick isBot w)) = ws_elapsedMs w"
proof -
  have "(ws_playerIndex (snd (spawnSnake p nick isBot w)) q \<noteq> None \<longleftrightarrow> q = p \<or> ws_playerIndex w q \<noteq> None) \<and>
      ws_elapsedMs (snd (spawnSnake p nick isBot w)) = ws_elapsedMs w"
  proof (cases "getByPlayerId p w")
    case None
    obtain v s where v: "more_food w v" "snake_wf s" "se_playerId s = p" "se_id s = ws_nextEntityId v" "se_alive s"
      "spawnSnake p nick isBot w = (s, v\<lparr>ws_nextEntityId := ws_nextEntityId v + 1, ws_snakes := ws_snakes v @ [s],
         ws_playerIndex := (ws_playerIndex v)(p \<mapsto> se_id s)\<rparr>)"
      by (rule spawnSnake_new [OF None])
    then show ?thesis using more_foodD(2) [OF v(1)] more_food_elapsed [OF v(1)] by simp
  next
    case (Some s)
    then have "ws_playerIndex w p \<noteq> None" using getByPlayerId_wf [OF assms] by (metis option.distinct(1))
    with Some show ?thesis by (auto simp: spawnSnake_def)
  qed
  then show "ws_playerIndex (snd (spawnSnake p nick isBot w)) q \<noteq> None \<longleftrightarrow> q = p \<or> ws_playerIndex w q \<noteq> None"
    "ws_elapsedMs (snd (spawnSnake p nick isBot w)) = ws_elapsedMs w" by simp_all
qed

lemma despawn_frame:
  assumes "world_wf w"
  shows "ws_playerIndex (despawnSnake cfg p scatter w) q \<noteq> None \<longleftrightarrow> q \<noteq> p \<and> ws_playerIndex w q \<noteq> None"
    and "ws_elapsedMs (despawnSnake cfg p scatter w) = ws_elapsedMs w"
proof -
  have "0 \<le> se_mass s" if "snakeById i w = Some s" for i s
    using snakeById_wf [OF assms that] by (simp add: snake_wf_def)
  then have m: "more_food w (scatterMass cfg s w)" if "snakeById i w = Some s" for i s using more_food_scatter that by blast
  have "ws_playerIndex (scatterMass cfg s w) = ws_playerIndex w" "ws_elapsedMs (scatterMass cfg s w) = ws_elapsedMs w"
    if "snakeById i w = Some s" for i s
    using more_foodD(2) [OF m [OF that]] more_food_elapsed [OF m [OF that]] .
  then show "ws_playerIndex (despawnSnake cfg p scatter w) q \<noteq> None \<longleftrightarrow> q \<noteq> p \<and> ws_playerIndex w q \<noteq> None"
    "ws_elapsedMs (despawnSnake cfg p scatter w) = ws_elapsedMs w"
    by (auto simp: despawnSnake_def Let_def split: option.split)
qed


section \<open>Rooms that can be reached\<close>

datatype room_op =
    RoAdd string string string
  | RoDisconnect string int
  | RoRemove string
  | RoShadowban string bool
  | RoInput string sim_input
  | RoRespawn string
  | RoTick int
  | RoDrain
  | RoAnnounced
  | RoReported
  | RoUnreported
  | RoGameId string

definition run_room :: "node_config \<Rightarrow> room_op \<Rightarrow> room \<Rightarrow> room" where
  "run_room nc op r =
    (case op of
       RoAdd p sock nick \<Rightarrow> (case addPlayer p sock nick r of Inl _ \<Rightarrow> r | Inr r' \<Rightarrow> r')
     | RoDisconnect p now \<Rightarrow> markDisconnected p now r
     | RoRemove p \<Rightarrow> removePlayer p r
     | RoShadowban p v \<Rightarrow> setShadowbanned p v r
     | RoInput p cmd \<Rightarrow> room_applyInput p cmd r
     | RoRespawn p \<Rightarrow> respawn p r
     | RoTick now \<Rightarrow> snd (tick_room nc now r)
     | RoDrain \<Rightarrow> drain_room r
     | RoAnnounced \<Rightarrow> markAnnounced r
     | RoReported \<Rightarrow> markReported r
     | RoUnreported \<Rightarrow> unmarkReported r
     | RoGameId g \<Rightarrow> (if rm_gameId r = None then r\<lparr>rm_gameId := Some g\<rparr> else r))"

definition opened :: "node_config \<Rightarrow> string \<Rightarrow> int \<Rightarrow> string option \<Rightarrow> room" where
  "opened nc roomId seed gameId = start_room (new_room nc roomId ''casual'' ''us-east'' (nc_maxPlayersPerRoom nc) seed gameId)"

definition elims_ok :: "room \<Rightarrow> bool" where
  "elims_ok r \<longleftrightarrow>
    (\<forall>p e. rm_eliminations r p = Some e \<longrightarrow> el_tick e \<le> rm_eliminationCounter r \<and> 0 \<le> el_survivedMs e) \<and>
    (\<forall>p q e f. rm_eliminations r p = Some e \<and> rm_eliminations r q = Some f \<and> el_tick e = el_tick f \<longrightarrow> p = q)"

definition world_ok :: "room \<Rightarrow> bool" where
  "world_ok r \<longleftrightarrow> (\<exists>w. rm_world r = Some w \<and> world_wf w \<and> 0 \<le> ws_elapsedMs w \<and>
     (\<forall>p. ws_playerIndex w p \<noteq> None \<longleftrightarrow> p \<in> seat_playerId ` set (rm_seats r)))"

definition room_ok :: "room \<Rightarrow> bool" where
  "room_ok r \<longleftrightarrow> world_ok r \<and> elims_ok r \<and> distinct (map seat_playerId (rm_seats r)) \<and> distinct (rm_entrants r) \<and>
     seat_playerId ` set (rm_seats r) \<subseteq> set (rm_entrants r) \<and>
     (\<forall>p f. rm_finalScores r p = Some f \<longrightarrow> 0 \<le> fs_score f)"

text \<open>An elimination stands, later ones come after it, and nobody who entered is forgotten.\<close>

definition advances :: "room \<Rightarrow> room \<Rightarrow> bool" where
  "advances r r' \<longleftrightarrow>
    (\<forall>p e. rm_eliminations r p = Some e \<longrightarrow> rm_eliminations r' p = Some e) \<and>
    rm_eliminationCounter r \<le> rm_eliminationCounter r' \<and>
    (\<forall>p e. rm_eliminations r p = None \<and> rm_eliminations r' p = Some e \<longrightarrow> rm_eliminationCounter r < el_tick e) \<and>
    set (rm_entrants r) \<subseteq> set (rm_entrants r')"

lemma advances_refl [simp]: "advances r r"
  by (auto simp: advances_def)

lemma advances_trans: "advances r s \<Longrightarrow> advances s t \<Longrightarrow> advances r t"
  unfolding advances_def by (smt (verit) le_less_trans less_le_trans not_None_eq order_trans subset_trans)

text \<open>Operations that leave the books of a room alone.\<close>

definition same_books :: "room \<Rightarrow> room \<Rightarrow> bool" where
  "same_books r r' \<longleftrightarrow> rm_eliminations r' = rm_eliminations r \<and> rm_eliminationCounter r' = rm_eliminationCounter r \<and>
     rm_entrants r' = rm_entrants r \<and> rm_finalScores r' = rm_finalScores r"

lemma same_books_advances: "same_books r r' \<Longrightarrow> advances r r'"
  by (auto simp: same_books_def advances_def)

lemma room_ok_same:
  assumes "room_ok r" and "same_books r r'" and "rm_world r' = rm_world r" and "map seat_playerId (rm_seats r') = map seat_playerId (rm_seats r)"
  shows "room_ok r'"
proof -
  have "seat_playerId ` set (rm_seats r') = seat_playerId ` set (rm_seats r)" using arg_cong [OF assms(4), of set] by simp
  with assms show ?thesis by (simp add: room_ok_def world_ok_def elims_ok_def same_books_def del: distinct_map) 
qed

lemma room_ok_world:
  assumes r: "room_ok r" and s: "same_books r r'" and seats: "map seat_playerId (rm_seats r') = map seat_playerId (rm_seats r)"
    and w: "rm_world r = Some w" and w': "rm_world r' = Some w'" "world_wf w'" "0 \<le> ws_elapsedMs w'"
      "\<And>p. ws_playerIndex w' p \<noteq> None \<longleftrightarrow> ws_playerIndex w p \<noteq> None"
  shows "room_ok r'"
proof -
  have "seat_playerId ` set (rm_seats r') = seat_playerId ` set (rm_seats r)" using arg_cong [OF seats, of set] by simp
  moreover from this have "world_ok r'" using r w w' by (simp add: room_ok_def world_ok_def)
  ultimately show ?thesis using r s seats by (simp add: room_ok_def elims_ok_def same_books_def del: distinct_map)
qed

lemma updSeat_ids: "(\<And>s. seat_playerId (f s) = seat_playerId s) \<Longrightarrow> map seat_playerId (rm_seats (updSeat p f r)) = map seat_playerId (rm_seats r)"
  by (simp add: updSeat_def map_key_upd_rows)

lemma room_ok_updSeat: "room_ok r \<Longrightarrow> (\<And>s. seat_playerId (f s) = seat_playerId s) \<Longrightarrow> room_ok (updSeat p f r) \<and> advances r (updSeat p f r)"
proof -
  assume r: "room_ok r" and f: "\<And>s. seat_playerId (f s) = seat_playerId s"
  have "same_books r (updSeat p f r)" "rm_world (updSeat p f r) = rm_world r" by (simp_all add: same_books_def updSeat_def)
  with r updSeat_ids [OF f] show ?thesis by (blast intro: room_ok_same same_books_advances)
qed

lemma eliminate_advances: "advances r (eliminate p r)"
  by (auto simp: eliminate_def advances_def)

lemma elims_ok_eliminate: "elims_ok r \<Longrightarrow> 0 \<le> elapsed r \<Longrightarrow> elims_ok (eliminate p r)"
proof -
  assume r: "elims_ok r" and e: "0 \<le> elapsed r"
  have b: "el_tick e < Suc (rm_eliminationCounter r)" if "rm_eliminations r q = Some e" for q e
    using r that by (simp add: elims_ok_def less_Suc_eq_le)
  from r have u: "p = q" if "rm_eliminations r p = Some e" "rm_eliminations r q = Some f" "el_tick e = el_tick f" for p q e f
    using that unfolding elims_ok_def by blast
  have s: "0 \<le> el_survivedMs e" if "rm_eliminations r q = Some e" for q e using r that by (simp add: elims_ok_def)
  show ?thesis
    using e s unfolding elims_ok_def eliminate_def by (auto split: if_splits intro: u dest: b less_imp_le)
qed

lemma elapsed_ok: "world_ok r \<Longrightarrow> 0 \<le> elapsed r"
  by (auto simp: world_ok_def elapsed_def)

lemma room_ok_eliminate: "room_ok r \<Longrightarrow> room_ok (eliminate p r)"
  using elims_ok_eliminate [OF _ elapsed_ok, of r p]
  by (simp add: room_ok_def world_ok_def) (auto simp: eliminate_def)

lemma room_ok_worldE:
  assumes "room_ok r"
  obtains w where "rm_world r = Some w" "world_wf w" "0 \<le> ws_elapsedMs w"
    "\<forall>p. ws_playerIndex w p \<noteq> None \<longleftrightarrow> p \<in> seat_playerId ` set (rm_seats r)"
proof -
  have "world_ok r" using assms by (simp only: room_ok_def)
  then obtain w where w: "rm_world r = Some w" "world_wf w" "0 \<le> ws_elapsedMs w"
    "\<forall>p. ws_playerIndex w p \<noteq> None \<longleftrightarrow> p \<in> seat_playerId ` set (rm_seats r)"
    unfolding world_ok_def by (elim exE conjE)
  show ?thesis by (rule that [OF w])
qed

lemma snakeOf_iff:
  assumes "room_ok r"
  shows "snakeOf p r \<noteq> None \<longleftrightarrow> p \<in> seat_playerId ` set (rm_seats r)"
proof -
  obtain w where w: "rm_world r = Some w" "world_wf w" "0 \<le> ws_elapsedMs w" "\<forall>p. ws_playerIndex w p \<noteq> None \<longleftrightarrow> p \<in> seat_playerId ` set (rm_seats r)"
    by (rule room_ok_worldE [OF assms])
  have "getByPlayerId p w \<noteq> None \<longleftrightarrow> ws_playerIndex w p \<noteq> None" using getByPlayerId_wf [OF w(2)] by simp
  then show ?thesis using w(4) [rule_format, of p] by (simp only: snakeOf_def w(1) option.case)
qed

lemma snakeOf_score: "room_ok r \<Longrightarrow> snakeOf p r = Some s \<Longrightarrow> 0 \<le> se_score s"
proof -
  assume r: "room_ok r" and s: "snakeOf p r = Some s"
  obtain w where w: "rm_world r = Some w" "world_wf w" using room_ok_worldE [OF r] by metis
  with s obtain i where "snakeById i w = Some s" by (auto simp: snakeOf_def getByPlayerId_def split: option.splits)
  from snakeById_wf [OF w(2) this] show ?thesis by (simp add: snake_wf_def scoreForMass_def)
qed


subsection \<open>Every operation keeps the invariant and advances\<close>

lemma room_ok_keep: "room_ok r \<Longrightarrow> same_books r r' \<Longrightarrow> rm_world r' = rm_world r \<Longrightarrow>
    map seat_playerId (rm_seats r') = map seat_playerId (rm_seats r) \<Longrightarrow> room_ok r' \<and> advances r r'"
  using room_ok_same same_books_advances by blast

lemma elims_eq: "rm_eliminations r' = rm_eliminations r \<Longrightarrow> rm_eliminationCounter r' = rm_eliminationCounter r \<Longrightarrow> elims_ok r' \<longleftrightarrow> elims_ok r"
  by (simp add: elims_ok_def)

lemma room_add:
  assumes r: "room_ok r" and a: "addPlayer p sock nick r = Inr r'"
  shows "room_ok r' \<and> advances r r'"
proof (cases "seatOf p r")
  case (Some s)
  with a have "r' = updSeat p (\<lambda>s. s\<lparr>seat_socketId := sock, seat_disconnectedAtMs := None, seat_aoi := createAoiView\<rparr>) r"
    by (simp add: addPlayer_def split: if_splits)
  with room_ok_updSeat [OF r] show ?thesis by simp
next
  case None
  obtain w where w: "rm_world r = Some w" "world_wf w" "0 \<le> ws_elapsedMs w"
    "\<forall>p. ws_playerIndex w p \<noteq> None \<longleftrightarrow> p \<in> seat_playerId ` set (rm_seats r)" by (rule room_ok_worldE [OF r])
  let ?seat = "\<lparr>seat_playerId = p, seat_socketId = sock, seat_nickname = nick, seat_aoi = createAoiView,
                seat_disconnectedAtMs = None, seat_shadowbanned = False\<rparr>"
  let ?w = "snd (spawnSnake p nick False w)"
  have r': "rm_world r' = Some ?w" "rm_seats r' = rm_seats r @ [?seat]" "rm_eliminations r' = rm_eliminations r"
    "rm_eliminationCounter r' = rm_eliminationCounter r" "rm_finalScores r' = rm_finalScores r"
    "rm_entrants r' = (if p \<in> set (rm_entrants r) then rm_entrants r else rm_entrants r @ [p])"
    using a None w(1) by (auto simp: addPlayer_def inWorld_def)
  have new: "p \<notin> seat_playerId ` set (rm_seats r)" using None by (auto simp: seatOf_def find_None_iff)
  have "world_ok r'"
    unfolding world_ok_def
    using world_wf_spawn [OF w(2)] spawn_frame [OF w(2)] w(3,4) by (auto simp: r'(1,2))
  moreover have "elims_ok r'" using r by (simp add: room_ok_def elims_eq [OF r'(3,4)])
  moreover have "distinct (map seat_playerId (rm_seats r'))"
    unfolding r'(2) distinct_map_snoc using r new by (simp add: room_ok_def)
  ultimately have "room_ok r'" using r by (auto simp: room_ok_def r'(2,5,6) simp del: distinct_map)
  moreover have "advances r r'" unfolding advances_def by (auto simp: r')
  ultimately show ?thesis by simp
qed

lemma captureScore_frame [simp]:
  "rm_world (captureScore p r) = rm_world r" "rm_seats (captureScore p r) = rm_seats r" "rm_eliminations (captureScore p r) = rm_eliminations r"
  "rm_eliminationCounter (captureScore p r) = rm_eliminationCounter r" "rm_entrants (captureScore p r) = rm_entrants r"
  "rm_sim (captureScore p r) = rm_sim r"
  by (simp_all add: captureScore_def split: option.split)

lemma eliminate_frame [simp]:
  "rm_world (eliminate p r) = rm_world r" "rm_seats (eliminate p r) = rm_seats r" "rm_entrants (eliminate p r) = rm_entrants r"
  "rm_finalScores (eliminate p r) = rm_finalScores r" "rm_sim (eliminate p r) = rm_sim r" "rm_status (eliminate p r) = rm_status r"
  by (simp_all add: eliminate_def)

lemma room_remove:
  assumes r: "room_ok r"
  shows "room_ok (removePlayer p r) \<and> advances r (removePlayer p r)"
proof (cases "seatOf p r")
  case None
  with r show ?thesis by (simp add: removePlayer_def)
next
  case (Some s)
  obtain w where w: "rm_world r = Some w" "world_wf w" "0 \<le> ws_elapsedMs w"
    "\<forall>p. ws_playerIndex w p \<noteq> None \<longleftrightarrow> p \<in> seat_playerId ` set (rm_seats r)" by (rule room_ok_worldE [OF r])
  define a where "a = r\<lparr>rm_seats := filter (\<lambda>s. seat_playerId s \<noteq> p) (rm_seats r)\<rparr>"
  define b where "b = (if rm_eliminations a p \<noteq> None then a else eliminate p (captureScore p a))"
  define r' where "r' = removePlayer p r"
  have r': "r' = (inWorld (despawnSnake (rm_sim b) p True) b)\<lparr>rm_recentlyRemoved := rm_recentlyRemoved b @ [p]\<rparr>"
    using Some unfolding r'_def removePlayer_def b_def a_def by (simp add: Let_def inWorld_def)
  have a: "rm_world a = Some w" "rm_entrants a = rm_entrants r" "rm_finalScores a = rm_finalScores r" "rm_eliminations a = rm_eliminations r"
    "rm_eliminationCounter a = rm_eliminationCounter r" "advances r a"
    using w(1) by (auto simp: a_def advances_def)
  have b: "rm_world b = Some w" "rm_seats b = filter (\<lambda>s. seat_playerId s \<noteq> p) (rm_seats r)" "rm_entrants b = rm_entrants r"
    by (simp_all add: b_def a(1,2)) (simp_all add: a_def)
  have scores: "0 \<le> fs_score f" if "rm_finalScores b q = Some f" for q f
  proof -
    have "snakeOf q a = snakeOf q r" for q by (simp add: snakeOf_def a(1) w(1))
    then have s: "0 \<le> se_score s" if "snakeOf p a = Some s" for s using snakeOf_score [OF r] that by simp
    have old: "0 \<le> fs_score f" if "rm_finalScores a q = Some f" for q f using r that a(3) by (simp add: room_ok_def)
    show ?thesis
      using that old s by (auto simp: b_def captureScore_def split: if_splits option.splits)
  qed
  have elims: "elims_ok b"
  proof -
    have e: "elims_ok a" using r by (simp add: room_ok_def elims_eq [OF a(4,5)])
    moreover have "elims_ok (captureScore p a)" using e by (simp add: elims_ok_def)
    moreover have "0 \<le> elapsed (captureScore p a)" using w(3) by (simp add: elapsed_def a(1))
    ultimately show ?thesis unfolding b_def by (simp add: elims_ok_eliminate)
  qed
  have adv: "advances r b"
  proof -
    have "advances a (captureScore p a)" by (auto simp: advances_def)
    then have "advances a b" using advances_trans [OF _ eliminate_advances] by (simp add: b_def)
    with a(6) show ?thesis by (rule advances_trans)
  qed
  have p: "rm_world r' = Some (despawnSnake (rm_sim b) p True w)" "rm_seats r' = rm_seats b" "rm_entrants r' = rm_entrants b"
    "rm_finalScores r' = rm_finalScores b" "rm_eliminations r' = rm_eliminations b" "rm_eliminationCounter r' = rm_eliminationCounter b"
    by (simp_all add: r' inWorld_def b(1))
  have "world_ok r'"
    unfolding world_ok_def using world_wf_despawn [OF w(2)] despawn_frame [OF w(2)] w(3,4) by (auto simp: p(1,2) b(2))
  moreover have "distinct (map seat_playerId (rm_seats r'))" unfolding p(2) b(2)
    by (rule distinct_map_filter) (use r in \<open>simp add: room_ok_def\<close>)
  moreover have "elims_ok r'" using elims by (simp add: elims_eq [OF p(5,6)])
  ultimately have "room_ok r'" using r scores by (auto simp: room_ok_def p b simp del: distinct_map)
  moreover have "advances r r'" using adv by (simp add: advances_def p)
  ultimately show ?thesis by (simp add: r'_def)
qed


definition kept :: "room \<Rightarrow> room \<Rightarrow> bool" where
  "kept r r' \<longleftrightarrow> (room_ok r \<longrightarrow> room_ok r') \<and> advances r r'"

lemma kept_refl [simp]: "kept r r"
  by (simp add: kept_def)

lemma kept_trans: "kept r s \<Longrightarrow> kept s t \<Longrightarrow> kept r t"
  using advances_trans by (simp add: kept_def) blast

lemma kept_books: "same_books r r' \<Longrightarrow> rm_world r' = rm_world r \<Longrightarrow> map seat_playerId (rm_seats r') = map seat_playerId (rm_seats r) \<Longrightarrow> kept r r'"
  using room_ok_same same_books_advances by (simp add: kept_def)

lemma room_respawn:
  assumes r: "room_ok r"
  shows "room_ok (respawn p r) \<and> advances r (respawn p r)"
proof (cases "seatOf p r")
  case (Some s)
  obtain w where w: "rm_world r = Some w" "world_wf w" "0 \<le> ws_elapsedMs w"
    "\<forall>p. ws_playerIndex w p \<noteq> None \<longleftrightarrow> p \<in> seat_playerId ` set (rm_seats r)" by (rule room_ok_worldE [OF r])
  have p: "p \<in> seat_playerId ` set (rm_seats r)" using Some by (auto simp: seatOf_def dest: find_SomeD)
  let ?d = "despawnSnake (rm_sim r) p False w"
  let ?w = "snd (spawnSnake p (seat_nickname s) False ?d)"
  have d: "world_wf ?d" by (rule world_wf_despawn [OF w(2)])
  have i: "ws_playerIndex ?w q \<noteq> None \<longleftrightarrow> ws_playerIndex w q \<noteq> None" for q
    using spawn_frame(1) [OF d, of p _ False q] despawn_frame(1) [OF w(2), of "rm_sim r" p False q] w(4) p by auto
  have e: "0 \<le> ws_elapsedMs ?w" using spawn_frame(2) [OF d] despawn_frame(2) [OF w(2)] w(3) by simp
  have r': "rm_world (respawn p r) = Some ?w" "same_books r (respawn p r)" "rm_seats (respawn p r) = rm_seats r"
    using Some w(1) by (simp_all add: respawn_def inWorld_def same_books_def)
  have "room_ok (respawn p r)"
    by (rule room_ok_world [OF r r'(2) _ w(1) r'(1) world_wf_spawn [OF d] e i]) (simp add: r'(3))
  with same_books_advances [OF r'(2)] show ?thesis by simp
qed (use r in \<open>simp add: respawn_def\<close>)

lemma room_input:
  assumes r: "room_ok r"
  shows "room_ok (room_applyInput p c r) \<and> advances r (room_applyInput p c r)"
proof (cases "\<exists>s. seatOf p r = Some s \<and> \<not> seat_shadowbanned s")
  case True
  obtain w where w: "rm_world r = Some w" "world_wf w" "0 \<le> ws_elapsedMs w"
    "\<forall>p. ws_playerIndex w p \<noteq> None \<longleftrightarrow> p \<in> seat_playerId ` set (rm_seats r)" by (rule room_ok_worldE [OF r])
  let ?r = "room_applyInput p c r"
  have f: "ws_playerIndex (enqueueInput p c w) = ws_playerIndex w" "ws_elapsedMs (enqueueInput p c w) = ws_elapsedMs w"
    by (simp_all add: enqueueInput_def split: option.split)
  have r': "rm_world ?r = Some (enqueueInput p c w)" "same_books r ?r" "rm_seats ?r = rm_seats r"
    using True w(1) by (auto simp: room_applyInput_def inWorld_def same_books_def)
  have "room_ok ?r"
    by (rule room_ok_world [OF r r'(2) _ w(1) r'(1) world_wf_enqueue [OF w(2)]]) (simp_all add: r'(3) f w(3))
  with same_books_advances [OF r'(2)] show ?thesis by simp
next
  case False
  with r show ?thesis by (auto simp: room_applyInput_def split: option.split)
qed

subsection \<open>The tick\<close>

lemma recordDeath_kept:
  assumes "0 \<le> de_finalScore d"
  shows "kept r (recordDeath d r)" and "rm_world (recordDeath d r) = rm_world r" and "rm_seats (recordDeath d r) = rm_seats r"
proof -
  let ?s = "r\<lparr>rm_finalScores := (rm_finalScores r)(de_victimPlayerId d \<mapsto>
    \<lparr>fs_score = de_finalScore d, fs_kills = (case snakeOf (de_victimPlayerId d) r of None \<Rightarrow> 0 | Some s \<Rightarrow> se_kills s)\<rparr>)\<rparr>"
  have "room_ok r \<Longrightarrow> room_ok ?s" using assms by (auto simp: room_ok_def world_ok_def elims_ok_def)
  moreover have "advances r ?s" by (auto simp: advances_def)
  ultimately have "kept r ?s" by (simp add: kept_def)
  moreover have "kept ?s (eliminate (de_victimPlayerId d) ?s)" using room_ok_eliminate eliminate_advances by (simp add: kept_def)
  ultimately show "kept r (recordDeath d r)" unfolding recordDeath_def Let_def by (rule kept_trans)
  show "rm_world (recordDeath d r) = rm_world r" "rm_seats (recordDeath d r) = rm_seats r"
    by (simp_all add: recordDeath_def Let_def)
qed

lemma recordDeaths_kept:
  "\<forall>d \<in> set ds. 0 \<le> de_finalScore d \<Longrightarrow>
    kept r (fold recordDeath ds r) \<and> rm_world (fold recordDeath ds r) = rm_world r \<and> rm_seats (fold recordDeath ds r) = rm_seats r"
proof (induction ds arbitrary: r)
  case (Cons d ds)
  have d: "0 \<le> de_finalScore d" using Cons.prems by simp
  note recordDeath_kept [OF d, of r]
  moreover have "kept (recordDeath d r) (fold recordDeath ds (recordDeath d r)) \<and>
      rm_world (fold recordDeath ds (recordDeath d r)) = rm_world (recordDeath d r) \<and>
      rm_seats (fold recordDeath ds (recordDeath d r)) = rm_seats (recordDeath d r)"
    by (rule Cons.IH) (use Cons.prems in simp)
  ultimately show ?case using kept_trans by simp
qed simp

lemma evictions_kept: "room_ok r \<Longrightarrow> room_ok (fold (evictSeat nc now) ss r) \<and> advances r (fold (evictSeat nc now) ss r)"
proof (induction ss arbitrary: r)
  case (Cons s ss)
  have s: "room_ok (evictSeat nc now s r) \<and> advances r (evictSeat nc now s r)"
    using room_remove [OF Cons.prems] Cons.prems by (simp add: evictSeat_def split: option.split)
  with Cons.IH [of "evictSeat nc now s r"] show ?case using advances_trans by simp blast
qed simp

lemma sendSnapshot_id: "seat_playerId (snd (sendSnapshot w removed s)) = seat_playerId s"
  by (simp add: sendSnapshot_def buildSnapshot_def Let_def)

lemma snapshotTurn_kept: "kept r (snd (snapshotTurn nc r))"
proof (rule kept_books)
  show "same_books r (snd (snapshotTurn nc r))" "rm_world (snd (snapshotTurn nc r)) = rm_world r"
    "map seat_playerId (rm_seats (snd (snapshotTurn nc r))) = map seat_playerId (rm_seats r)"
    by (auto simp: snapshotTurn_def broadcastSnapshots_def same_books_def Let_def case_prod_beta sendSnapshot_id comp_def split: option.split)
qed

lemma leaderboardTurn_kept: "kept r (snd (leaderboardTurn nc r))"
  by (rule kept_books) (auto simp: leaderboardTurn_def broadcastLeaderboard_def same_books_def Let_def split: option.split)

lemma room_tick:
  assumes r: "room_ok r"
  shows "room_ok (snd (tick_room nc now r)) \<and> advances r (snd (tick_room nc now r))"
proof (cases "rm_status r \<noteq> RoomActive \<and> rm_status r \<noteq> RoomDraining")
  case True
  with r show ?thesis by (simp add: tick_room_def)
next
  case False
  obtain w where w: "rm_world r = Some w" "world_wf w" "0 \<le> ws_elapsedMs w"
    "\<forall>p. ws_playerIndex w p \<noteq> None \<longleftrightarrow> p \<in> seat_playerId ` set (rm_seats r)" by (rule room_ok_worldE [OF r])
  obtain res w' where step: "step_world (rm_sim r) w = (res, w')" by fastforce
  have w': "world_wf w'" "0 \<le> ws_elapsedMs w'" "ws_playerIndex w' = ws_playerIndex w"
    using world_wf_step [OF w(2), of "rm_sim r"] step_frame [OF w(2), of "rm_sim r"] w(3) by (simp_all add: step)
  have deaths: "\<forall>d \<in> set (tr_deaths res). 0 \<le> de_finalScore d"
    using step_deaths [OF w(2), of "rm_sim r"] by (simp add: step fair_death_def)
  define a where "a = r\<lparr>rm_world := Some w'\<rparr>"
  have sa: "same_books r a" by (simp add: a_def same_books_def)
  have a: "room_ok a" by (rule room_ok_world [OF r sa _ w(1) _ w'(1,2)]) (simp_all add: a_def w'(3))
  define b where "b = fold recordDeath (tr_deaths res) a"
  have b: "room_ok b" "advances a b" using recordDeaths_kept [OF deaths, of a] a by (simp_all add: b_def kept_def)
  define c where "c = evictExpiredDisconnects nc now b"
  have c: "room_ok c" "advances b c" using evictions_kept [OF b(1)] by (simp_all add: c_def evictExpiredDisconnects_def)
  define d where "d = snd (snapshotTurn nc c)"
  define e where "e = snd (leaderboardTurn nc d)"
  have "kept c e" using kept_trans [OF snapshotTurn_kept leaderboardTurn_kept] by (simp add: d_def e_def)
  with c have e: "room_ok e" "advances c e" by (simp_all add: kept_def)
  have "snd (tick_room nc now r) = e"
    using False w(1) by (auto simp: tick_room_def step Let_def case_prod_beta e_def d_def c_def b_def a_def)
  moreover have "advances r e"
    using same_books_advances [OF sa] b(2) c(2) e(2) advances_trans by blast
  ultimately show ?thesis using e(1) by simp
qed

lemma room_run:
  assumes "room_ok r"
  shows "room_ok (run_room nc op r) \<and> advances r (run_room nc op r)"
proof (cases op)
  case (RoAdd p sock nick)
  with assms room_add [OF assms] show ?thesis by (auto simp: run_room_def split: sum.split)
next
  case (RoDisconnect p now)
  with room_ok_updSeat [OF assms] show ?thesis by (simp add: run_room_def markDisconnected_def)
next
  case (RoShadowban p v)
  with room_ok_updSeat [OF assms] show ?thesis by (simp add: run_room_def setShadowbanned_def)
qed (use assms room_remove room_input room_respawn room_tick in
    \<open>auto simp: run_room_def drain_room_def markAnnounced_def markReported_def unmarkReported_def
      intro!: room_ok_keep [OF assms, THEN conjunct1] room_ok_keep [OF assms, THEN conjunct2] simp: same_books_def\<close>)

lemma room_runs: "room_ok r \<Longrightarrow> room_ok (fold (run_room nc) ops r) \<and> advances r (fold (run_room nc) ops r)"
proof (induction ops arbitrary: r)
  case (Cons op ops)
  from room_run [OF Cons.prems, of nc op] Cons.IH [of "run_room nc op r"] show ?case using advances_trans by simp blast
qed simp

lemma room_ok_opened: "room_ok (opened nc roomId seed gameId)"
proof -
  let ?r = "opened nc roomId seed gameId"
  have w: "rm_world ?r = Some (createWorld (rm_sim ?r))" by (simp add: opened_def start_room_def new_room_def)
  have "ws_playerIndex (createWorld cfg) p = None" "ws_elapsedMs (createWorld cfg) = 0" for cfg p
    using more_foodD(2) [OF more_food_spawns] more_food_elapsed [OF more_food_spawns] by (simp_all add: createWorld_def)
  then have "world_ok ?r" unfolding world_ok_def using world_wf_create
    by (intro exI [of _ "createWorld (rm_sim ?r)"]) (simp add: w, simp add: opened_def start_room_def new_room_def)
  then show ?thesis
    unfolding room_ok_def by (simp add: elims_ok_def) (simp add: opened_def start_room_def new_room_def)
qed

end
