(* ===== verification/Room_Standings.thy ===== *)
theory Room_Standings
  imports Room_Properties
begin

text \<open>
  The standings a room reports. They pass the verification of settlement (\<open>Payout\<close>), whoever was out first is never
  ranked ahead of somebody who was still in, and what a room calls alive is only a seat.
\<close>

section \<open>The order of the rows\<close>

definition outlasted_by :: "result_row \<Rightarrow> result_row \<Rightarrow> bool" where
  "outlasted_by y x \<longleftrightarrow> (\<exists>t. rr_order y = Some t \<and> (case rr_order x of None \<Rightarrow> True | Some u \<Rightarrow> t < u))"

lemma sortRows_order: "sorted_wrt (\<lambda>a b. \<not> outlasted_by a b) (sortRows collation rows)"
proof -
  let ?tick = "\<lambda>row. case rr_order row of None \<Rightarrow> 0 | Some t \<Rightarrow> - int t"
  have "sorted_wrt (\<lambda>a b. ?tick a \<le> ?tick b) (sort_key ?tick xs)" for xs
    using sorted_sort_key [of ?tick xs] by (simp only: sorted_wrt_map)
  then show ?thesis
    unfolding sortRows_def
    by (rule sort_key_wrt) (auto simp: orderKey_def outlasted_by_def split: option.splits)
qed

lemma set_sortRows [simp]: "set (sortRows collation rows) = set rows"
  by (simp add: sortRows_def)

lemma length_sortRows [simp]: "length (sortRows collation rows) = length rows"
  by (simp add: sortRows_def)

lemma distinct_sort_key: "distinct (map f (sort_key k xs)) \<longleftrightarrow> distinct (map f xs)"
  by (simp add: distinct_map)

lemma distinct_sortRows: "distinct (map f (sortRows collation rows)) \<longleftrightarrow> distinct (map f rows)"
  by (simp only: sortRows_def distinct_sort_key)

section \<open>The rows of a result\<close>

definition result_rows :: "(string \<Rightarrow> real) \<Rightarrow> room \<Rightarrow> result_row list" where
  "result_rows collation r = sortRows collation (map (resultRow r) (rm_entrants r))"

lemma standings_nth:
  "length (re_standings (buildResult nc collation now g r)) = length (rm_entrants r)"
  "i < length (rm_entrants r) \<Longrightarrow> re_standings (buildResult nc collation now g r) ! i =
    (let row = result_rows collation r ! i in
     \<lparr>sd_playerId = rr_playerId row, sd_placement = Suc i, sd_score = rr_score row, sd_kills = rr_kills row, sd_survivedMs = rr_survivedMs row\<rparr>)"
  by (simp_all add: buildResult_def toStanding_def nth_enumerate_eq result_rows_def Let_def)

lemma result_row_nth:
  assumes "i < length (rm_entrants r)"
  shows "\<exists>p \<in> set (rm_entrants r). result_rows collation r ! i = resultRow r p"
proof -
  have "result_rows collation r ! i \<in> set (result_rows collation r)" using assms by (intro nth_mem) (simp add: result_rows_def)
  then show ?thesis by (auto simp: result_rows_def)
qed

lemma standing_of:
  assumes "s \<in> set (re_standings (buildResult nc collation now g r))"
  shows "\<exists>i < length (rm_entrants r). sd_placement s = Suc i \<and> result_rows collation r ! i = resultRow r (sd_playerId s) \<and>
    sd_playerId s \<in> set (rm_entrants r)"
proof -
  obtain i where i: "i < length (rm_entrants r)" "s = re_standings (buildResult nc collation now g r) ! i"
    using assms by (auto simp: in_set_conv_nth standings_nth(1))
  obtain p where p: "p \<in> set (rm_entrants r)" "result_rows collation r ! i = resultRow r p" using result_row_nth [OF i(1)] by blast
  have "sd_playerId s = p \<and> sd_placement s = Suc i" using i p(2) by (simp add: standings_nth(2) Let_def resultRow_def)
  with i p show ?thesis by auto
qed

lemma toStanding_columns:
  "map sd_playerId (map toStanding (enumerate n rows)) = map rr_playerId rows"
  "map sd_placement (map toStanding (enumerate n rows)) = [n..<n + length rows]"
proof -
  show "map sd_playerId (map toStanding (enumerate n rows)) = map rr_playerId rows"
    by (induction rows arbitrary: n) (simp_all add: toStanding_def)
  have "map sd_placement (map toStanding (enumerate n rows)) = map fst (enumerate n rows)"
    by (induction rows arbitrary: n) (simp_all add: toStanding_def)
  then show "map sd_placement (map toStanding (enumerate n rows)) = [n..<n + length rows]" by simp
qed

lemma standings_columns:
  "map sd_playerId (re_standings (buildResult nc collation now g r)) = map rr_playerId (result_rows collation r)"
  "map sd_placement (re_standings (buildResult nc collation now g r)) = [1..<Suc (length (rm_entrants r))]"
proof -
  have e: "re_standings (buildResult nc collation now g r) = map toStanding (enumerate 1 (result_rows collation r))"
    by (simp add: buildResult_def result_rows_def)
  show "map sd_playerId (re_standings (buildResult nc collation now g r)) = map rr_playerId (result_rows collation r)"
    unfolding e by (rule toStanding_columns)
  show "map sd_placement (re_standings (buildResult nc collation now g r)) = [1..<Suc (length (rm_entrants r))]"
    unfolding e toStanding_columns(2) by (simp add: result_rows_def)
qed

definition last_longer :: "room \<Rightarrow> string \<Rightarrow> string \<Rightarrow> bool" where
  "last_longer r p q \<longleftrightarrow> (\<exists>f. rm_eliminations r q = Some f \<and> (\<forall>e. rm_eliminations r p = Some e \<longrightarrow> el_tick f < el_tick e))"

lemma outlasted_resultRow: "last_longer r p q \<Longrightarrow> outlasted_by (resultRow r q) (resultRow r p)"
  by (auto simp: last_longer_def outlasted_by_def resultRow_def split: option.split)

lemma placed_ahead:
  assumes x: "x \<in> set (re_standings (buildResult nc collation now g r))" and y: "y \<in> set (re_standings (buildResult nc collation now g r))"
    and l: "last_longer r (sd_playerId x) (sd_playerId y)"
  shows "sd_placement x < sd_placement y"
proof -
  obtain i where i: "i < length (rm_entrants r)" "sd_placement x = Suc i" "result_rows collation r ! i = resultRow r (sd_playerId x)"
    using standing_of [OF x] by blast
  obtain j where j: "j < length (rm_entrants r)" "sd_placement y = Suc j" "result_rows collation r ! j = resultRow r (sd_playerId y)"
    using standing_of [OF y] by blast
  note o = outlasted_resultRow [OF l]
  have s: "sorted_wrt (\<lambda>a b. \<not> outlasted_by a b) (result_rows collation r)" by (simp only: result_rows_def sortRows_order)
  have "\<not> j < i"
    using sorted_wrt_nth_less [OF s, of j i] i(1,3) j(3) o by (auto simp: result_rows_def)
  moreover have "i \<noteq> j" using i(3) j(3) o by (auto simp: outlasted_by_def)
  ultimately show ?thesis using i(2) j(2) by simp
qed

section \<open>Verification accepts it\<close>

text \<open>The report settlement reads back: numbers are whole, so the text they travel as keeps them.\<close>

definition read_standing :: "standing \<Rightarrow> reported_standing" where
  "read_standing s = \<lparr>st_player = sd_playerId s, st_placement = Finite (of_nat (sd_placement s)), st_score = Finite (of_int (sd_score s)),
     st_kills = Finite (of_nat (sd_kills s)), st_survivedMs = Finite (of_int (sd_survivedMs s))\<rparr>"

definition read_report :: "match_result \<Rightarrow> match_report" where
  "read_report m = \<lparr>mr_gameId = (case re_gameId m of None \<Rightarrow> '''' | Some g \<Rightarrow> g), mr_roomId = re_roomId m, mr_nodeId = re_nodeId m,
     mr_standings = map read_standing (re_standings m), mr_endedAtMs = Finite (of_int (re_endedAtMs m))\<rparr>"

lemma resultRow_nonneg:
  assumes "room_ok r"
  shows "0 \<le> rr_score (resultRow r p)" "0 \<le> rr_survivedMs (resultRow r p)"
proof -
  have f: "0 \<le> fs_score f" if "rm_finalScores r p = Some f" for f using assms that by (simp add: room_ok_def)
  show "0 \<le> rr_score (resultRow r p)"
    using f snakeOf_score [OF assms] by (simp add: resultRow_def split: option.split)
  have "0 \<le> el_survivedMs e" if "rm_eliminations r p = Some e" for e using assms that by (simp add: room_ok_def elims_ok_def)
  moreover have "0 \<le> elapsed r" using assms elapsed_ok by (simp add: room_ok_def)
  ultimately show "0 \<le> rr_survivedMs (resultRow r p)" by (simp add: resultRow_def split: option.split)
qed

lemma standing_metrics:
  assumes "room_ok r" and "s \<in> set (re_standings (buildResult nc collation now g r))"
  shows "\<not> bad_metric (read_standing s)"
proof -
  obtain i where i: "i < length (rm_entrants r)" "s = re_standings (buildResult nc collation now g r) ! i"
    using assms(2) by (auto simp: in_set_conv_nth standings_nth(1))
  obtain p where p: "result_rows collation r ! i = resultRow r p" using result_row_nth [OF i(1)] by blast
  have "0 \<le> sd_score s" "0 \<le> sd_survivedMs s"
    using i resultRow_nonneg [OF assms(1), of p] by (simp_all add: standings_nth(2) Let_def p)
  then show ?thesis by (simp add: bad_metric_def read_standing_def isFinite_def negative_def less_js_number_def)
qed

lemma sorted_placements:
  assumes "map st_placement ss = map (\<lambda>k. Finite (of_nat k)) [1..<Suc n]"
  shows "sortStandings ss = ss"
proof -
  have "sorted (map (\<lambda>k. Finite (of_nat k)) [a..<b])" for a b
    by (simp add: sorted_wrt_map)
  then show ?thesis unfolding sortStandings_def by (intro sort_key_id_if_sorted) (simp only: assms)
qed

lemma correct_result:
  assumes r: "room_ok r" and e: "rm_entrants r \<noteq> []" and s: "set entrants = set (rm_entrants r)"
  shows "correct_report (read_report (buildResult nc collation now (Some g) r))
    \<lparr>vc_gameId = g, vc_entrants = entrants, vc_expectedNodeId = Some (nc_nodeId nc)\<rparr>"
    and "sortStandings (mr_standings (read_report (buildResult nc collation now (Some g) r))) =
      mr_standings (read_report (buildResult nc collation now (Some g) r))"
proof -
  let ?ss = "re_standings (buildResult nc collation now (Some g) r)"
  let ?rs = "mr_standings (read_report (buildResult nc collation now (Some g) r))"
  have rs: "?rs = map read_standing ?ss" by (simp add: read_report_def)
  have len: "length ?rs = length (rm_entrants r)" by (simp add: rs standings_nth(1))
  have pl: "map st_placement ?rs = map (\<lambda>k. Finite (of_nat k)) [1..<Suc (length ?rs)]"
  proof -
    have "map st_placement (map read_standing ss) = map (\<lambda>k. Finite (of_nat k)) (map sd_placement ss)" for ss
      by (simp add: read_standing_def)
    then show ?thesis unfolding rs len [unfolded rs] by (simp only: standings_columns(2))
  qed
  show sorted: "sortStandings ?rs = ?rs" by (rule sorted_placements [OF pl])
  have players: "map st_player ?rs = map rr_playerId (result_rows collation r)"
  proof -
    have "map st_player (map read_standing ss) = map sd_playerId ss" for ss by (simp add: read_standing_def)
    then show ?thesis unfolding rs by (simp only: standings_columns(1))
  qed
  have ids: "map rr_playerId (map (resultRow r) ps) = ps" for ps by (induction ps) (simp_all add: resultRow_def)
  have "distinct (map st_player ?rs)"
    unfolding players result_rows_def distinct_sortRows ids using r by (simp add: room_ok_def)
  moreover have "set (map st_player ?rs) = set entrants"
    unfolding players s using arg_cong [OF ids [of "rm_entrants r"], of set] by (simp add: result_rows_def image_image)
  moreover have "\<not> bad_metric s" if "s \<in> set ?rs" for s using that standing_metrics [OF r] by (auto simp: rs)
  moreover have "?rs \<noteq> []" using len e by (metis length_0_conv)
  moreover have "mr_gameId (read_report (buildResult nc collation now (Some g) r)) = g"
    "mr_nodeId (read_report (buildResult nc collation now (Some g) r)) = nc_nodeId nc"
    by (simp_all add: read_report_def buildResult_def)
  ultimately show "correct_report (read_report (buildResult nc collation now (Some g) r))
      \<lparr>vc_gameId = g, vc_entrants = entrants, vc_expectedNodeId = Some (nc_nodeId nc)\<rparr>"
    unfolding correct_report_def using pl sorted by simp
qed


section \<open>What a room calls alive\<close>

text \<open>A dead snake keeps its place in the world and in the index until its player leaves, so every seat counts as alive.\<close>

lemma alive_counts_seats: "room_ok r \<Longrightarrow> room_aliveCount r = playerCount r"
proof -
  assume r: "room_ok r"
  have "filter (\<lambda>s. snakeOf (seat_playerId s) r \<noteq> None) (rm_seats r) = rm_seats r"
    using snakeOf_iff [OF r] by (intro filter_True) auto
  then show ?thesis by (simp add: room_aliveCount_def playerCount_def)
qed

text \<open>The finding: deaths alone never resolve a match, it takes players to leave.\<close>

lemma deaths_do_not_resolve:
  "isResolved (fold (run_room nc) ops (opened nc roomId seed gameId)) \<longleftrightarrow>
    (let r = fold (run_room nc) ops (opened nc roomId seed gameId) in
      rm_status r \<in> {RoomActive, RoomDraining} \<and> 2 \<le> length (rm_entrants r) \<and> length (rm_seats r) \<le> 1)"
  using alive_counts_seats [of "fold (run_room nc) ops (opened nc roomId seed gameId)"] room_runs [OF room_ok_opened]
  by (auto simp: isResolved_def playerCount_def Let_def)

text \<open>The finding: two players never share a place in the order of elimination, so the score never breaks a tie.\<close>

lemma no_elimination_ties:
  assumes "rm_eliminations (fold (run_room nc) ops (opened nc roomId seed gameId)) p = Some e"
    and "rm_eliminations (fold (run_room nc) ops (opened nc roomId seed gameId)) q = Some f" and "p \<noteq> q"
  shows "el_tick e \<noteq> el_tick f"
  using room_runs [OF room_ok_opened, of nc ops] assms unfolding room_ok_def elims_ok_def by metis

subsection \<open>A reconnect and the end of the old socket\<close>

lemma removePlayer_seats: "rm_seats (removePlayer p r) = filter (\<lambda>s. seat_playerId s \<noteq> p) (rm_seats r)"
proof (cases "seatOf p r")
  case None
  then have "filter (\<lambda>s. seat_playerId s \<noteq> p) (rm_seats r) = rm_seats r"
    by (auto simp: seatOf_def find_None_iff filter_id_conv)
  with None show ?thesis by (simp add: removePlayer_def)
qed (simp add: removePlayer_def Let_def inWorld_def)

lemma evictions_seats:
  "rm_seats (fold (evictSeat nc now) ss r) =
    filter (\<lambda>x. \<forall>s \<in> set ss. seat_playerId s = seat_playerId x \<longrightarrow> (\<forall>t. seat_disconnectedAtMs s = Some t \<longrightarrow> now - t < graceMs nc)) (rm_seats r)"
proof (induction ss arbitrary: r)
  case (Cons s ss)
  have "rm_seats (evictSeat nc now s r) =
      filter (\<lambda>x. seat_playerId s = seat_playerId x \<longrightarrow> (\<forall>t. seat_disconnectedAtMs s = Some t \<longrightarrow> now - t < graceMs nc)) (rm_seats r)"
    by (auto simp: evictSeat_def removePlayer_seats filter_id_conv intro!: filter_cong split: option.split)
  with Cons.IH [of "evictSeat nc now s r"] show ?case by (simp add: conj_commute cong: conj_cong)
qed simp

lemma turns_seats:
  "map seat_playerId (rm_seats (snd (snapshotTurn nc r))) = map seat_playerId (rm_seats r)"
  "map seat_playerId (rm_seats (snd (leaderboardTurn nc r))) = map seat_playerId (rm_seats r)"
  by (auto simp: snapshotTurn_def leaderboardTurn_def broadcastSnapshots_def broadcastLeaderboard_def Let_def case_prod_beta sendSnapshot_id comp_def split: option.split)

lemma tick_evicts:
  assumes r: "room_ok r" and active: "rm_status r = RoomActive" and s: "s \<in> set (rm_seats r)"
    and t: "seat_disconnectedAtMs s = Some t" and g: "graceMs nc \<le> now - t"
  shows "seat_playerId s \<notin> seat_playerId ` set (rm_seats (snd (tick_room nc now r)))"
proof -
  obtain w where w: "rm_world r = Some w" "world_wf w" "0 \<le> ws_elapsedMs w"
    "\<forall>p. ws_playerIndex w p \<noteq> None \<longleftrightarrow> p \<in> seat_playerId ` set (rm_seats r)" by (rule room_ok_worldE [OF r])
  obtain res w' where step: "step_world (rm_sim r) w = (res, w')" by fastforce
  have deaths: "\<forall>d \<in> set (tr_deaths res). 0 \<le> de_finalScore d"
    using step_deaths [OF w(2), of "rm_sim r"] by (simp add: step fair_death_def)
  let ?b = "fold recordDeath (tr_deaths res) (r\<lparr>rm_world := Some w'\<rparr>)"
  have b: "rm_seats ?b = rm_seats r" using recordDeaths_kept [OF deaths, of "r\<lparr>rm_world := Some w'\<rparr>"] by simp
  have "seat_playerId ` set (rm_seats (snd (tick_room nc now r))) = seat_playerId ` set (rm_seats (evictExpiredDisconnects nc now ?b))"
    using arg_cong [OF turns_seats(1) [of nc "evictExpiredDisconnects nc now ?b"], of set]
      arg_cong [OF turns_seats(2) [of nc "snd (snapshotTurn nc (evictExpiredDisconnects nc now ?b))"], of set] active w(1)
    by (simp add: tick_room_def step Let_def case_prod_beta)
  then show ?thesis using s t g b by (auto simp: evictExpiredDisconnects_def evictions_seats)
qed

text \<open>The finding: the old socket of a player who is back marks the seat, and the player is thrown out while connected.\<close>

lemma late_disconnect_evicts:
  assumes r: "r = fold (run_room nc) ops (opened nc roomId seed gameId)"
    and active: "rm_status r = RoomActive" and seated: "seatOf p r \<noteq> None" and again: "addPlayer p newSocket nick r = Inr r'"
  shows "seatOf p (snd (tick_room nc (t + graceMs nc) (markDisconnected p t r'))) = None"
proof -
  obtain s where s: "seatOf p r = Some s" using seated by blast
  then have mem: "s \<in> set (rm_seats r)" "seat_playerId s = p" by (auto simp: seatOf_def dest: find_SomeD)
  have ok: "room_ok r" unfolding r using room_runs [OF room_ok_opened] by blast
  let ?f = "\<lambda>s. s\<lparr>seat_socketId := newSocket, seat_disconnectedAtMs := None, seat_aoi := createAoiView\<rparr>"
  have r': "r' = updSeat p ?f r" using again s by (simp add: addPlayer_def split: if_splits)
  let ?m = "markDisconnected p t r'"
  have "room_ok ?m" using room_ok_updSeat [OF ok] room_ok_updSeat by (simp add: r' markDisconnected_def)
  moreover have "rm_status ?m = RoomActive" using active by (simp add: r' markDisconnected_def updSeat_def)
  moreover have "(?f s)\<lparr>seat_disconnectedAtMs := Some t\<rparr> \<in> set (rm_seats ?m)"
    using mem by (simp add: r' markDisconnected_def updSeat_def upd_rows_def image_image)
  ultimately have "p \<notin> seat_playerId ` set (rm_seats (snd (tick_room nc (t + graceMs nc) ?m)))"
    using tick_evicts [of ?m "(?f s)\<lparr>seat_disconnectedAtMs := Some t\<rparr>" t nc "t + graceMs nc"] mem(2) by simp
  then show ?thesis by (auto simp: seatOf_def find_None_iff)
qed


section \<open>What settlement can rely on\<close>

lemma rank_settled:
  assumes r: "room_ok r" and q: "q \<in> set (rm_entrants r)" "rm_eliminations r q = Some f"
    and p: "p \<in> set (rm_entrants r)" "rm_eliminations r p = None" and a: "room_ok r'" "advances r r'"
  shows "last_longer r' p q"
proof -
  have "rm_eliminations r' q = Some f" using a(2) q(2) by (simp add: advances_def)
  moreover have "el_tick f < el_tick e" if "rm_eliminations r' p = Some e" for e
  proof -
    have "el_tick f \<le> rm_eliminationCounter r" using r q(2) by (simp add: room_ok_def elims_ok_def)
    also have "\<dots> < el_tick e" using a(2) p(2) that by (simp add: advances_def)
    finally show ?thesis .
  qed
  ultimately show ?thesis by (simp add: last_longer_def)
qed

lemma standing_found:
  assumes "room_ok r" and "p \<in> set (rm_entrants r)"
  shows "\<exists>x. find (\<lambda>s. sd_playerId s = p) (re_standings (buildResult nc collation now g r)) = Some x \<and>
    x \<in> set (re_standings (buildResult nc collation now g r)) \<and> sd_playerId x = p"
proof -
  have "map rr_playerId (map (resultRow r) ps) = ps" for ps by (induction ps) (simp_all add: resultRow_def)
  from arg_cong [OF this [of "rm_entrants r"], of set]
  have "p \<in> set (map sd_playerId (re_standings (buildResult nc collation now g r)))"
    unfolding standings_columns(1) using assms(2) by (simp add: result_rows_def image_image)
  then obtain x where "find (\<lambda>s. sd_playerId s = p) (re_standings (buildResult nc collation now g r)) = Some x"
    by (cases "find (\<lambda>s. sd_playerId s = p) (re_standings (buildResult nc collation now g r))") (auto simp: find_None_iff)
  with find_SomeD [OF this] show ?thesis by blast
qed

text \<open>C26: Whoever goes out while another is still in is ranked behind that other for good: once a player of a room has been
  eliminated, by dying or by leaving, and another has not, no later join, respawn, input, disconnection or tick
  brings the first ahead of the second in the standings the room reports.\<close>

theorem first_out_never_ahead:
  assumes "r = fold (run_room nc) ops (opened nc roomId seed gameId)"
    and "p \<in> set (rm_entrants r)" and "rm_eliminations r p = None"
    and "q \<in> set (rm_entrants r)" and "rm_eliminations r q = Some f"
  shows "\<exists>x y. let standings = re_standings (buildResult nc collation now g (fold (run_room nc) later r)) in
    find (\<lambda>s. sd_playerId s = p) standings = Some x \<and> find (\<lambda>s. sd_playerId s = q) standings = Some y \<and>
    sd_placement x < sd_placement y"
proof -
  have r: "room_ok r" using room_runs [OF room_ok_opened] assms(1) by blast
  let ?r = "fold (run_room nc) later r"
  have r': "room_ok ?r" "advances r ?r" using room_runs [OF r] by blast+
  then have e: "p \<in> set (rm_entrants ?r)" "q \<in> set (rm_entrants ?r)" using assms(2,4) by (auto simp: advances_def)
  obtain x where x: "find (\<lambda>s. sd_playerId s = p) (re_standings (buildResult nc collation now g ?r)) = Some x"
    "x \<in> set (re_standings (buildResult nc collation now g ?r))" "sd_playerId x = p" using standing_found [OF r'(1) e(1)] by blast
  obtain y where y: "find (\<lambda>s. sd_playerId s = q) (re_standings (buildResult nc collation now g ?r)) = Some y"
    "y \<in> set (re_standings (buildResult nc collation now g ?r))" "sd_playerId y = q" using standing_found [OF r'(1) e(2)] by blast
  have "sd_placement x < sd_placement y"
    using placed_ahead [OF x(2) y(2)] rank_settled [OF r assms(4,5,2,3) r'] x(3) y(3) by simp
  with x(1) y(1) show ?thesis unfolding Let_def by blast
qed

definition a_node :: node_config where
  "a_node = \<lparr>nc_nodeId = ''node-1'', nc_tickRateHz = 30, nc_ticksPerSnapshot = 2, nc_reconnectGraceSeconds = 15, nc_cellSize = 512,
     nc_maxRooms = 40, nc_maxPlayersPerRoom = 120\<rparr>"

definition two_entered :: "room_op list" where
  "two_entered = [RoAdd ''a'' ''s1'' ''ann'', RoAdd ''b'' ''s2'' ''bob'']"

lemma two_entered_facts:
  "rm_entrants (fold (run_room a_node) two_entered (opened a_node ''r'' 7 (Some ''g''))) = [''a'', ''b'']"
  "rm_entrants (fold (run_room a_node) (two_entered @ [RoRemove ''b'']) (opened a_node ''r'' 7 (Some ''g''))) = [''a'', ''b'']"
  "rm_eliminations (fold (run_room a_node) (two_entered @ [RoRemove ''b'']) (opened a_node ''r'' 7 (Some ''g''))) ''a'' = None"
  "rm_eliminations (fold (run_room a_node) (two_entered @ [RoRemove ''b'']) (opened a_node ''r'' 7 (Some ''g''))) ''b'' \<noteq> None"
  by (simp_all add: two_entered_def run_room_def addPlayer_def opened_def start_room_def new_room_def seatOf_def inWorld_def
      removePlayer_def eliminate_def captureScore_def Let_def split: option.split)

lemma first_out_never_ahead_witness:
  "\<exists>x y. let standings = re_standings (buildResult a_node (\<lambda>_. 0) 0 (Some ''g'')
      (fold (run_room a_node) [RoAdd ''b'' ''s3'' ''bob'', RoRespawn ''b'', RoRemove ''a'']
        (fold (run_room a_node) (two_entered @ [RoRemove ''b'']) (opened a_node ''r'' 7 (Some ''g''))))) in
    find (\<lambda>s. sd_playerId s = ''a'') standings = Some x \<and> find (\<lambda>s. sd_playerId s = ''b'') standings = Some y \<and>
    sd_placement x < sd_placement y"
proof -
  let ?r = "fold (run_room a_node) (two_entered @ [RoRemove ''b'']) (opened a_node ''r'' 7 (Some ''g''))"
  obtain f where f: "rm_eliminations ?r ''b'' = Some f" using two_entered_facts(4) by blast
  have m: "''a'' \<in> set (rm_entrants ?r)" "''b'' \<in> set (rm_entrants ?r)" unfolding two_entered_facts(2) by simp_all
  show ?thesis by (rule first_out_never_ahead [OF refl m(1) two_entered_facts(3) m(2) f])
qed

text \<open>A room's report is correct in the sense of settlement exactly when game, node and entrants are the ones settlement expects.\<close>

lemma report_correct_iff:
  assumes r: "room_ok r" and e: "rm_entrants r \<noteq> []"
  shows "correct_report (read_report (buildResult nc collation now (Some g) r)) ctx \<longleftrightarrow>
    vc_gameId ctx = g \<and> (\<forall>n. vc_expectedNodeId ctx = Some n \<and> n \<noteq> '''' \<longrightarrow> nc_nodeId nc = n) \<and> set (vc_entrants ctx) = set (rm_entrants r)"
proof -
  note c = correct_result(1) [OF r e refl, of nc collation now g, unfolded correct_report_def verification_context.select_convs]
  have "mr_gameId (read_report (buildResult nc collation now (Some g) r)) = g" using c by blast
  moreover have "mr_nodeId (read_report (buildResult nc collation now (Some g) r)) = nc_nodeId nc"
    by (simp add: read_report_def buildResult_def)
  moreover have "set (map st_player (mr_standings (read_report (buildResult nc collation now (Some g) r)))) = set (rm_entrants r)"
    using c by blast
  ultimately show ?thesis using c unfolding correct_report_def by auto
qed

text \<open>C25: What a room reports is what settlement can settle, as far as the room can know: whatever happened in a room somebody entered,
  verification accepts its report exactly when settlement expects this game, does not expect another node, and takes as entrants exactly
  the players who ever connected to the room; then everybody who connected is listed as the room listed them, also those who died or
  left, and the winner settlement reads off the report is the first of the standings the room built. (Settlement takes the entrants
  from the database when it lists any for the game, so one listed there who never connected has the report refused.)\<close>

theorem reported_standings_settle:
  assumes "r = fold (run_room nc) ops (opened nc roomId seed gameId)" and "rm_entrants r \<noteq> []"
  shows "let report = read_report (buildResult nc collation now (Some g) r); verified = verifyResult report ctx
         in (vr_ok verified \<longleftrightarrow> vc_gameId ctx = g \<and> (\<forall>n. vc_expectedNodeId ctx = Some n \<and> n \<noteq> '''' \<longrightarrow> nc_nodeId nc = n) \<and>
               set (vc_entrants ctx) = set (rm_entrants r)) \<and>
            (vr_ok verified \<longrightarrow> vr_standings verified = mr_standings report \<and> set (map st_player (mr_standings report)) = set (rm_entrants r) \<and>
               detectWinner verified = Some (read_standing (hd (re_standings (buildResult nc collation now (Some g) r)))))"
proof -
  have r: "room_ok r" using room_runs [OF room_ok_opened] assms(1) by blast
  let ?report = "read_report (buildResult nc collation now (Some g) r)"
  note iff = report_correct_iff [OF r assms(2), of nc collation now g ctx]
  have "re_standings (buildResult nc collation now (Some g) r) \<noteq> []"
    using standings_nth(1) [of nc collation now "Some g" r] assms(2) by (metis length_0_conv)
  then have first: "hd (mr_standings ?report) = read_standing (hd (re_standings (buildResult nc collation now (Some g) r)))"
    by (simp add: read_report_def hd_map)
  have "vr_standings (verifyResult ?report ctx) = mr_standings ?report \<and> set (map st_player (mr_standings ?report)) = set (rm_entrants r) \<and>
      detectWinner (verifyResult ?report ctx) = Some (read_standing (hd (re_standings (buildResult nc collation now (Some g) r))))"
    if ok: "vr_ok (verifyResult ?report ctx)"
  proof -
    have c: "correct_report ?report ctx" using ok by (simp only: verifyResult_ok)
    then have "set (vc_entrants ctx) = set (rm_entrants r)" using iff by blast
    moreover have "set (map st_player (mr_standings ?report)) = set (vc_entrants ctx)" using c unfolding correct_report_def by blast
    moreover have "sortStandings (mr_standings ?report) = mr_standings ?report" by (rule correct_result(2) [OF r assms(2) refl])
    ultimately show ?thesis using verifyResult_standings [OF ok] winner_first(2) [OF c] first by simp
  qed
  with iff show ?thesis by (simp only: Let_def verifyResult_ok [symmetric]) blast
qed

lemma reported_standings_settle_witness:
  "vr_ok (verifyResult (read_report (buildResult a_node (\<lambda>_. 0) 0 (Some ''g'') (fold (run_room a_node) two_entered (opened a_node ''r'' 7 (Some ''g'')))))
    \<lparr>vc_gameId = ''g'', vc_entrants = [''b'', ''a''], vc_expectedNodeId = Some (nc_nodeId a_node)\<rparr>)"
  using reported_standings_settle [OF refl, of a_node two_entered "''r''" 7 "Some ''g''" "\<lambda>_. 0" 0 "''g''"
      "\<lparr>vc_gameId = ''g'', vc_entrants = [''b'', ''a''], vc_expectedNodeId = Some (nc_nodeId a_node)\<rparr>"]
  by (simp add: two_entered_facts(1) Let_def insert_commute)

text \<open>The finding: an entrant on record who never connected keeps the whole match from being settled.\<close>

lemma absent_entrant_blocks_settlement:
  assumes "room_ok r" and "rm_entrants r \<noteq> []" and "p \<in> set (vc_entrants ctx)" and "p \<notin> set (rm_entrants r)"
  shows "\<not> vr_ok (verifyResult (read_report (buildResult nc collation now (Some g) r)) ctx)"
  using report_correct_iff [OF assms(1,2)] assms(3,4) by (auto simp: verifyResult_ok)

end
