(* ===== verification/Room_Manager.thy ===== *)
theory Room_Manager
  imports Room_Standings "HOL-Library.Word"
begin

unbundle bit_operations_syntax

text \<open>
  The rooms of one node (\<open>apps/realtime/src/rooms/room-manager.ts\<close>): creation, the fixed-step loop, the hand-off of
  results to settlement, and reaping. Every room has a number of its own, as the handlers and the writes under
  way hold the room itself and not its name. What has reached Redis is the list of commands that succeeded; a write
  under way is a list entry until its outcome is known.
\<close>

section \<open>State\<close>

record hosted =
  ho_number :: nat
  ho_room :: room

record publication =
  pb_number :: nat
  pb_gameId :: string
  pb_result :: match_result

datatype redis_command = RedisSet publication | RedisSadd string nat

record manager =
  mg_rooms :: "hosted list"
  mg_created :: nat
  mg_running :: bool
  mg_nextTickAt :: real
  mg_pending :: "publication list"
  mg_redis :: "redis_command list"

definition new_manager :: manager where
  "new_manager = \<lparr>mg_rooms = [], mg_created = 0, mg_running = False, mg_nextTickAt = 0, mg_pending = [], mg_redis = []\<rparr>"

definition roomCount :: "manager \<Rightarrow> nat" where
  "roomCount m = length (mg_rooms m)"

definition totalPlayers :: "manager \<Rightarrow> nat" where
  "totalPlayers m = sum_list (map (\<lambda>h. playerCount (ho_room h)) (mg_rooms m))"

definition roomNamed :: "string \<Rightarrow> manager \<Rightarrow> hosted option" where
  "roomNamed roomId m = find (\<lambda>h. rm_roomId (ho_room h) = roomId) (mg_rooms m)"

definition onRoom :: "nat \<Rightarrow> (room \<Rightarrow> room) \<Rightarrow> manager \<Rightarrow> manager" where
  "onRoom n f m = m\<lparr>mg_rooms := upd_rows (\<lambda>h. ho_number h = n) (\<lambda>h. h\<lparr>ho_room := f (ho_room h)\<rparr>) (mg_rooms m)\<rparr>"

section \<open>Rooms\<close>

text \<open>The FNV hash of the room's name; \<open>charCodeAt\<close> of a character is its code.\<close>

definition hashSeed :: "string \<Rightarrow> int" where
  "hashSeed roomId = uint (fold (\<lambda>c hash. (hash XOR of_nat (of_char c)) * 16777619) roomId (2166136261 :: 32 word))"

definition ensureRoom :: "node_config \<Rightarrow> string \<Rightarrow> string \<Rightarrow> string \<Rightarrow> string option \<Rightarrow> manager \<Rightarrow> (string, hosted \<times> manager) res" where
  "ensureRoom nc roomId mode region gameId m =
    (case roomNamed roomId m of
       Some h \<Rightarrow>
         (let r = (if rm_gameId (ho_room h) = None \<and> gameId \<noteq> None then (ho_room h)\<lparr>rm_gameId := gameId\<rparr> else ho_room h)
          in Inr (h\<lparr>ho_room := r\<rparr>, onRoom (ho_number h) (\<lambda>_. r) m))
     | None \<Rightarrow>
         if nc_maxRooms nc \<le> roomCount m then Inl (''Node '' @ nc_nodeId nc @ '' is at its room cap'')
         else (let h = \<lparr>ho_number = mg_created m,
                        ho_room = start_room (new_room nc roomId mode region (nc_maxPlayersPerRoom nc) (hashSeed roomId) gameId)\<rparr>
               in Inr (h, m\<lparr>mg_rooms := mg_rooms m @ [h], mg_created := mg_created m + 1\<rparr>)))"

definition closeRoom :: "string \<Rightarrow> manager \<Rightarrow> manager" where
  "closeRoom roomId m = m\<lparr>mg_rooms := filter (\<lambda>h. rm_roomId (ho_room h) \<noteq> roomId) (mg_rooms m)\<rparr>"

section \<open>Handing results over\<close>

text \<open>One room of the pass: the messages to it, the room afterwards, and the write that is started.\<close>

definition reportRoom :: "node_config \<Rightarrow> (string \<Rightarrow> real) \<Rightarrow> int \<Rightarrow> hosted \<Rightarrow> message list \<times> hosted \<times> publication list" where
  "reportRoom nc collation now h =
    (let r = ho_room h in
     if \<not> isResolved r then ([], h, [])
     else (let (ms, r) = (if rm_announced r then ([], r)
                  else ([announceEnd (buildResult nc collation now (rm_gameId r) r) r], drain_room (markAnnounced r)))
           in if \<not> hasResult r then (ms, h\<lparr>ho_room := r\<rparr>, [])
              else (case rm_gameId r of
                      None \<Rightarrow> (ms, h\<lparr>ho_room := r\<rparr>, [])
                    | Some g \<Rightarrow> (ms, h\<lparr>ho_room := markReported r\<rparr>,
                        [\<lparr>pb_number = ho_number h, pb_gameId = g, pb_result = buildResult nc collation now (Some g) r\<rparr>]))))"

definition reportFinishedMatches :: "node_config \<Rightarrow> (string \<Rightarrow> real) \<Rightarrow> int \<Rightarrow> manager \<Rightarrow> (string \<times> message) list \<times> manager" where
  "reportFinishedMatches nc collation now m =
    (let out = map (reportRoom nc collation now) (mg_rooms m)
     in (concat (map (\<lambda>(ms, h, _). map (Pair (rm_roomId (ho_room h))) ms) out),
         m\<lparr>mg_rooms := map (\<lambda>(_, h, _). h) out, mg_pending := mg_pending m @ concat (map (\<lambda>(_, _, ps). ps) out)\<rparr>))"

text \<open>The outcome of the write at a position: both commands land, or one of them fails and the room is to try again. A command that is
  reported as failed is taken not to have landed; that a write lands whose answer is lost is not modelled.\<close>

datatype outcome = Landed | SetFailed | SaddFailed

definition publicationDone :: "nat \<Rightarrow> outcome \<Rightarrow> manager \<Rightarrow> manager" where
  "publicationDone i out m =
    (if i < length (mg_pending m)
     then (let p = mg_pending m ! i;
               m = m\<lparr>mg_pending := take i (mg_pending m) @ drop (Suc i) (mg_pending m)\<rparr>
           in case out of
                Landed \<Rightarrow> m\<lparr>mg_redis := mg_redis m @ [RedisSet p, RedisSadd (pb_gameId p) (pb_number p)]\<rparr>
              | SetFailed \<Rightarrow> onRoom (pb_number p) unmarkReported m
              | SaddFailed \<Rightarrow> onRoom (pb_number p) unmarkReported (m\<lparr>mg_redis := mg_redis m @ [RedisSet p]\<rparr>))
     else m)"

definition reapEmptyRooms :: "manager \<Rightarrow> manager" where
  "reapEmptyRooms m = m\<lparr>mg_rooms := filter (\<lambda>h. \<not> (playerCount (ho_room h) = 0 \<and> rm_status (ho_room h) = RoomDraining)) (mg_rooms m)\<rparr>"

section \<open>The loop\<close>

definition tickIntervalMs :: "node_config \<Rightarrow> real" where
  "tickIntervalMs nc = 1000 / real (nc_tickRateHz nc)"

definition tickRooms :: "node_config \<Rightarrow> int \<Rightarrow> manager \<Rightarrow> (string \<times> message) list \<times> manager" where
  "tickRooms nc now m =
    (let out = map (\<lambda>h. case tick_room nc now (ho_room h) of (ms, r) \<Rightarrow> (map (Pair (rm_roomId r)) ms, h\<lparr>ho_room := r\<rparr>)) (mg_rooms m)
     in (concat (map fst out), m\<lparr>mg_rooms := map snd out, mg_nextTickAt := mg_nextTickAt m + tickIntervalMs nc\<rparr>))"

fun tickTimes :: "node_config \<Rightarrow> int \<Rightarrow> nat \<Rightarrow> manager \<Rightarrow> (string \<times> message) list \<times> manager" where
  "tickTimes nc now 0 m = ([], m)"
| "tickTimes nc now (Suc n) m =
    (let (ms, m) = tickRooms nc now m; (ms', m) = tickTimes nc now n m in (ms @ ms', m))"

definition ticksDue :: "node_config \<Rightarrow> int \<Rightarrow> manager \<Rightarrow> int" where
  "ticksDue nc now m = 1 + \<lfloor>(real_of_int now - mg_nextTickAt m) / tickIntervalMs nc\<rfloor>"

definition runTick :: "node_config \<Rightarrow> (string \<Rightarrow> real) \<Rightarrow> int \<Rightarrow> manager \<Rightarrow> (string \<times> message) list \<times> manager" where
  "runTick nc collation now m =
    (let due = ticksDue nc now m;
         (steps, m) = (if 5 < due then (5, m\<lparr>mg_nextTickAt := real_of_int now\<rparr>) else (due, m));
         (ms, m) = tickTimes nc now (nat steps) m;
         (ms', m) = reportFinishedMatches nc collation now m
     in (ms @ ms', reapEmptyRooms m))"

definition scheduleNext :: "int \<Rightarrow> manager \<Rightarrow> real option" where
  "scheduleNext now m = (if mg_running m then Some (max 0 (mg_nextTickAt m - real_of_int now)) else None)"

definition startLoop :: "int \<Rightarrow> manager \<Rightarrow> manager" where
  "startLoop now m = (if mg_running m then m else m\<lparr>mg_running := True, mg_nextTickAt := real_of_int now\<rparr>)"

definition stopLoop :: "manager \<Rightarrow> manager" where
  "stopLoop m = m\<lparr>mg_running := False\<rparr>"

text \<open>Draining asks every room to empty; when they have, or the time is up, all are closed.\<close>

definition drainRooms :: "manager \<Rightarrow> manager" where
  "drainRooms m = m\<lparr>mg_rooms := map (\<lambda>h. h\<lparr>ho_room := drain_room (ho_room h)\<rparr>) (mg_rooms m)\<rparr>"

definition drainDone :: "manager \<Rightarrow> int \<Rightarrow> int \<Rightarrow> bool" where
  "drainDone m now deadline \<longleftrightarrow> \<not> (0 < totalPlayers m \<and> now < deadline)"

definition closeAll :: "manager \<Rightarrow> manager" where
  "closeAll m = fold closeRoom (map (\<lambda>h. rm_roomId (ho_room h)) (mg_rooms m)) m"

definition saturation :: "node_config \<Rightarrow> manager \<Rightarrow> real" where
  "saturation nc m =
    (let byRooms = real (roomCount m) / real (nc_maxRooms nc);
         capacity = nc_maxRooms nc * nc_maxPlayersPerRoom nc;
         byPlayers = (if 0 < capacity then real (totalPlayers m) / real capacity else 0)
     in min 1 (max byRooms byPlayers))"

section \<open>Histories\<close>

text \<open>What players do goes to the room their connection holds; marking results is the manager's.\<close>

definition from_client :: "room_op \<Rightarrow> bool" where
  "from_client op = (case op of
     RoTick _ \<Rightarrow> False | RoDrain \<Rightarrow> False | RoAnnounced \<Rightarrow> False | RoReported \<Rightarrow> False | RoUnreported \<Rightarrow> False | RoGameId _ \<Rightarrow> False | _ \<Rightarrow> True)"

datatype mg_op =
    MgEnsure string "string option"
  | MgClient nat room_op
  | MgTick int
  | MgOutcome nat outcome
  | MgClose string
  | MgDrain
  | MgCloseAll

definition run_mg :: "node_config \<Rightarrow> (string \<Rightarrow> real) \<Rightarrow> mg_op \<Rightarrow> manager \<Rightarrow> manager" where
  "run_mg nc collation op m =
    (case op of
       MgEnsure roomId gameId \<Rightarrow> (case ensureRoom nc roomId ''casual'' ''us-east'' gameId m of Inl _ \<Rightarrow> m | Inr (_, m') \<Rightarrow> m')
     | MgClient n rop \<Rightarrow> (if from_client rop then onRoom n (run_room nc rop) m else m)
     | MgTick now \<Rightarrow> snd (runTick nc collation now m)
     | MgOutcome i out \<Rightarrow> publicationDone i out m
     | MgClose roomId \<Rightarrow> closeRoom roomId m
     | MgDrain \<Rightarrow> drainRooms m
     | MgCloseAll \<Rightarrow> closeAll m)"

end
