(* ===== verification/Room_Handoff.thy ===== *)
theory Room_Handoff
  imports Room_Manager
begin

text \<open>
  The hand-off of results: a match that is over and has a game behind it is handed to settlement by the next
  pass, and never twice, however writes fail and rooms come and go; the loop never falls behind for good. A room
  that is empty when its result is written is gone before the write is known to have landed.
\<close>

section \<open>What nobody but the manager touches\<close>

lemma updSeat_reported [simp]: "rm_reported (updSeat p f r) = rm_reported r"
  by (simp add: updSeat_def)

lemma inWorld_reported [simp]: "rm_reported (inWorld f r) = rm_reported r"
  by (simp add: inWorld_def)

lemma eliminate_reported [simp]: "rm_reported (eliminate p r) = rm_reported r"
  by (simp add: eliminate_def)

lemma removePlayer_reported [simp]: "rm_reported (removePlayer p r) = rm_reported r"
  by (simp add: removePlayer_def captureScore_def Let_def split: option.split)

lemma recordDeaths_reported [simp]: "rm_reported (fold recordDeath ds r) = rm_reported r"
  by (induction ds arbitrary: r) (simp_all add: recordDeath_def Let_def)

lemma evictions_reported [simp]: "rm_reported (fold (evictSeat nc now) ss r) = rm_reported r"
  by (induction ss arbitrary: r) (simp_all add: evictSeat_def split: option.split)

lemma tick_reported [simp]: "rm_reported (snd (tick_room nc now r)) = rm_reported r"
proof -
  have "rm_reported (snd (snapshotTurn nc x)) = rm_reported x" "rm_reported (snd (leaderboardTurn nc x)) = rm_reported x" for x
    by (auto simp: snapshotTurn_def broadcastSnapshots_def leaderboardTurn_def broadcastLeaderboard_def Let_def case_prod_beta split: option.split)
  then show ?thesis by (simp add: tick_room_def evictExpiredDisconnects_def Let_def case_prod_beta split: option.split)
qed

lemma client_reported: "from_client op \<Longrightarrow> rm_reported (run_room nc op r) = rm_reported r"
  by (cases op) (auto simp: from_client_def run_room_def addPlayer_def markDisconnected_def setShadowbanned_def room_applyInput_def
      respawn_def split: sum.split if_splits option.splits)

section \<open>Named once\<close>

definition named :: "manager \<Rightarrow> nat list" where
  "named m = concat (map (\<lambda>c. case c of RedisSadd _ n \<Rightarrow> [n] | RedisSet _ \<Rightarrow> []) (mg_redis m))"

definition handed_over :: "manager \<Rightarrow> nat list" where
  "handed_over m = named m @ map pb_number (mg_pending m)"

definition handoff_ok :: "manager \<Rightarrow> bool" where
  "handoff_ok m \<longleftrightarrow> distinct (map ho_number (mg_rooms m)) \<and> distinct (handed_over m) \<and>
    (\<forall>h \<in> set (mg_rooms m). ho_number h < mg_created m \<and> (rm_reported (ho_room h) \<longleftrightarrow> ho_number h \<in> set (handed_over m))) \<and>
    (\<forall>n \<in> set (handed_over m). n < mg_created m)"

lemma onRoom_simps [simp]:
  "mg_redis (onRoom n f m) = mg_redis m" "mg_pending (onRoom n f m) = mg_pending m" "mg_created (onRoom n f m) = mg_created m"
  "mg_nextTickAt (onRoom n f m) = mg_nextTickAt m" "named (onRoom n f m) = named m"
  "handed_over (onRoom n f m) = handed_over m" "map ho_number (mg_rooms (onRoom n f m)) = map ho_number (mg_rooms m)"
  by (simp_all add: onRoom_def named_def handed_over_def map_key_upd_rows)

text \<open>Changing rooms one by one, without touching what is reported.\<close>

lemma handoff_rooms:
  assumes m: "handoff_ok m" and f: "\<And>h. h \<in> set (mg_rooms m) \<Longrightarrow> ho_number (f h) = ho_number h \<and> rm_reported (ho_room (f h)) = rm_reported (ho_room h)"
    and m': "mg_rooms m' = map f (mg_rooms m)" "mg_redis m' = mg_redis m" "mg_pending m' = mg_pending m" "mg_created m' = mg_created m"
  shows "handoff_ok m'"
proof -
  have "handed_over m' = handed_over m" by (simp add: handed_over_def named_def m')
  moreover have "map ho_number (mg_rooms m') = map ho_number (mg_rooms m)" using f by (simp add: m')
  then have "distinct (map ho_number (mg_rooms m'))" using m by (simp add: handoff_ok_def)
  ultimately show ?thesis using m f unfolding handoff_ok_def by (simp add: m'(1,4) del: distinct_map map_map)
qed

lemma handoff_subset:
  assumes m: "handoff_ok m" and m': "mg_rooms m' = filter P (mg_rooms m)" "mg_redis m' = mg_redis m" "mg_pending m' = mg_pending m" "mg_created m' = mg_created m"
  shows "handoff_ok m'"
proof -
  have "handed_over m' = handed_over m" by (simp add: handed_over_def named_def m')
  moreover have "distinct (map ho_number (mg_rooms m'))" unfolding m'(1) by (rule distinct_map_filter) (use m in \<open>simp add: handoff_ok_def\<close>)
  ultimately show ?thesis using m by (auto simp: handoff_ok_def m' simp del: distinct_map)
qed

lemma handoff_onRoom:
  assumes "handoff_ok m" and "\<And>r. rm_reported (f r) = rm_reported r"
  shows "handoff_ok (onRoom n f m)"
  by (rule handoff_rooms [OF assms(1), where f = "\<lambda>h. if ho_number h = n then h\<lparr>ho_room := f (ho_room h)\<rparr> else h"])
    (simp_all add: onRoom_def upd_rows_def assms(2))

lemma handoff_ensure:
  assumes m: "handoff_ok m" and e: "ensureRoom nc roomId mode region g m = Inr (h, m')"
  shows "handoff_ok m'"
proof (cases "roomNamed roomId m")
  case None
  with e have m': "mg_rooms m' = mg_rooms m @ [h]" "mg_created m' = mg_created m + 1" "mg_redis m' = mg_redis m" "mg_pending m' = mg_pending m"
    "ho_number h = mg_created m" "\<not> rm_reported (ho_room h)"
    by (auto simp: ensureRoom_def Let_def start_room_def new_room_def split: if_splits)
  have h: "handed_over m' = handed_over m" by (simp add: handed_over_def named_def m')
  have "mg_created m \<notin> ho_number ` set (mg_rooms m)" using m by (auto simp: handoff_ok_def)
  then have "distinct (map ho_number (mg_rooms m'))"
    unfolding m'(1) distinct_map_snoc m'(5) using m by (simp add: handoff_ok_def)
  then show ?thesis using m by (auto simp: handoff_ok_def h m' less_Suc_eq simp del: distinct_map)
next
  case (Some k)
  note k = Some
  let ?r = "if rm_gameId (ho_room k) = None \<and> g \<noteq> None then (ho_room k)\<lparr>rm_gameId := g\<rparr> else ho_room k"
  have m': "m' = onRoom (ho_number k) (\<lambda>_. ?r) m" using e k by (auto simp: ensureRoom_def Let_def)
  have kin: "k \<in> set (mg_rooms m)" using k by (auto simp: roomNamed_def dest: find_SomeD)
  have only: "h = k" if "h \<in> set (mg_rooms m)" "ho_number h = ho_number k" for h
    using distinct_key_eq [of ho_number "mg_rooms m" h k] m that kin by (simp add: handoff_ok_def)
  show ?thesis
    by (rule handoff_rooms [OF m, where f = "\<lambda>h. if ho_number h = ho_number k then h\<lparr>ho_room := ?r\<rparr> else h"])
      (auto simp: m' onRoom_def upd_rows_def dest: only)
qed

lemma reportRoom_facts:
  assumes "reportRoom nc collation now h = (ms, h', ps)"
  shows "ho_number h' = ho_number h \<and>
    (ps = [] \<and> rm_reported (ho_room h') = rm_reported (ho_room h) \<or>
     \<not> rm_reported (ho_room h) \<and> rm_reported (ho_room h') \<and> map pb_number ps = [ho_number h]) \<and>
    (isResolved (ho_room h) \<and> rm_gameId (ho_room h) \<noteq> None \<longrightarrow> rm_reported (ho_room h')) \<and>
    rm_seats (ho_room h') = rm_seats (ho_room h) \<and>
    (isResolved (ho_room h) \<and> rm_announced (ho_room h) = (rm_status (ho_room h) = RoomDraining) \<longrightarrow> rm_status (ho_room h') = RoomDraining)"
proof -
  let ?r = "ho_room h"
  have res: "isResolved (drain_room (markAnnounced ?r)) \<longleftrightarrow> isResolved ?r" if "isResolved ?r"
    using that by (simp add: isResolved_def drain_room_def markAnnounced_def room_aliveCount_def snakeOf_def)
  have same: "rm_reported (drain_room (markAnnounced ?r)) = rm_reported ?r" "rm_gameId (drain_room (markAnnounced ?r)) = rm_gameId ?r"
    "rm_seats (drain_room (markAnnounced ?r)) = rm_seats ?r" "rm_status (drain_room (markAnnounced ?r)) = RoomDraining"
    by (simp_all add: drain_room_def markAnnounced_def)
  show ?thesis
    using assms res same
    by (auto simp: reportRoom_def Let_def hasResult_def markReported_def split: if_splits option.splits)
qed


lemma handoff_report:
  assumes m: "handoff_ok m"
  shows "handoff_ok (snd (reportFinishedMatches nc collation now m))"
    and "h \<in> set (mg_rooms m) \<Longrightarrow> isResolved (ho_room h) \<Longrightarrow> rm_gameId (ho_room h) \<noteq> None \<Longrightarrow>
      ho_number h \<in> set (handed_over (snd (reportFinishedMatches nc collation now m)))"
proof -
  let ?m = "snd (reportFinishedMatches nc collation now m)"
  let ?f = "\<lambda>h. fst (snd (reportRoom nc collation now h))"
  let ?p = "\<lambda>h. snd (snd (reportRoom nc collation now h))"
  have facts: "ho_number (?f h) = ho_number h \<and>
    (?p h = [] \<and> rm_reported (ho_room (?f h)) = rm_reported (ho_room h) \<or>
     \<not> rm_reported (ho_room h) \<and> rm_reported (ho_room (?f h)) \<and> map pb_number (?p h) = [ho_number h]) \<and>
    (isResolved (ho_room h) \<and> rm_gameId (ho_room h) \<noteq> None \<longrightarrow> rm_reported (ho_room (?f h)))" for h
    using reportRoom_facts [of nc collation now h "fst (reportRoom nc collation now h)" "?f h" "?p h"] by simp
  define new where "new = concat (map ?p (mg_rooms m))"
  have m': "mg_rooms ?m = map ?f (mg_rooms m)" "mg_pending ?m = mg_pending m @ new" "mg_redis ?m = mg_redis m" "mg_created ?m = mg_created m"
    by (simp_all add: reportFinishedMatches_def Let_def comp_def case_prod_beta new_def)
  have ho: "handed_over ?m = handed_over m @ map pb_number new" by (simp add: handed_over_def named_def m')
  have nums: "set (map pb_number (concat (map ?p hs))) = {ho_number h | h. h \<in> set hs \<and> \<not> rm_reported (ho_room h) \<and> rm_reported (ho_room (?f h))} \<and>
      (distinct (map ho_number hs) \<longrightarrow> distinct (map pb_number (concat (map ?p hs))))" for hs
  proof (induction hs)
    case (Cons h hs)
    from facts [of h] show ?case
    proof (elim conjE disjE)
      assume "?p h = []" "rm_reported (ho_room (?f h)) = rm_reported (ho_room h)"
      then show ?thesis using Cons by auto
    next
      assume n: "\<not> rm_reported (ho_room h)" "rm_reported (ho_room (?f h))" "map pb_number (?p h) = [ho_number h]"
      then have s: "set (map pb_number (concat (map ?p (h # hs)))) = insert (ho_number h) (set (map pb_number (concat (map ?p hs))))"
        by simp
      have d: "distinct (map pb_number (concat (map ?p (h # hs)))) \<longleftrightarrow> distinct (ho_number h # map pb_number (concat (map ?p hs)))"
        using n(3) by (simp only: list.map concat.simps map_append append.simps)
      show ?thesis unfolding s d using Cons n by auto
    qed
  qed simp
  have newset: "set (map pb_number new) = {ho_number h | h. h \<in> set (mg_rooms m) \<and> \<not> rm_reported (ho_room h) \<and> rm_reported (ho_room (?f h))}"
    "distinct (map pb_number new)" using nums [of "mg_rooms m"] m by (simp_all add: new_def handoff_ok_def)
  have fresh: "set (handed_over m) \<inter> set (map pb_number new) = {}" using m unfolding newset(1) by (auto simp: handoff_ok_def)
  have mem: "rm_reported (ho_room (?f h)) \<longleftrightarrow> ho_number h \<in> set (handed_over ?m)" if h: "h \<in> set (mg_rooms m)" for h
  proof -
    have old: "rm_reported (ho_room h) \<longleftrightarrow> ho_number h \<in> set (handed_over m)" using m h by (simp add: handoff_ok_def)
    have only: "k = h" if "k \<in> set (mg_rooms m)" "ho_number k = ho_number h" for k
      using distinct_key_eq [of ho_number "mg_rooms m" k h] m that h by (simp add: handoff_ok_def)
    have "ho_number h \<in> set (map pb_number new) \<longleftrightarrow> \<not> rm_reported (ho_room h) \<and> rm_reported (ho_room (?f h))"
      unfolding newset(1) using h by (auto dest: only)
    moreover have "rm_reported (ho_room h) \<longrightarrow> rm_reported (ho_room (?f h))" using facts [of h] by blast
    ultimately show ?thesis unfolding ho set_append Un_iff old [symmetric] by blast
  qed
  have numbers: "map ho_number (mg_rooms ?m) = map ho_number (mg_rooms m)" using facts by (simp add: m'(1))
  show "handoff_ok ?m"
    unfolding handoff_ok_def numbers
  proof (intro conjI ballI)
    show "distinct (map ho_number (mg_rooms m))" using m by (simp add: handoff_ok_def)
    show "distinct (handed_over ?m)" unfolding ho distinct_append using m newset(2) fresh by (simp add: handoff_ok_def)
    fix h' assume "h' \<in> set (mg_rooms ?m)"
    then obtain h where h: "h \<in> set (mg_rooms m)" "h' = ?f h" by (auto simp: m'(1))
    show "ho_number h' < mg_created ?m" using h m facts by (simp add: m'(4) handoff_ok_def)
    show "rm_reported (ho_room h') \<longleftrightarrow> ho_number h' \<in> set (handed_over ?m)" using mem [OF h(1)] facts [of h] h(2) by simp
  next
    fix n assume "n \<in> set (handed_over ?m)"
    then have "n \<in> set (handed_over m) \<or> n \<in> set (map pb_number new)" unfolding ho by auto
    then show "n < mg_created ?m" using m unfolding newset(1) by (auto simp: m'(4) handoff_ok_def)
  qed
  show "h \<in> set (mg_rooms m) \<Longrightarrow> isResolved (ho_room h) \<Longrightarrow> rm_gameId (ho_room h) \<noteq> None \<Longrightarrow> ho_number h \<in> set (handed_over ?m)"
    using mem [of h] facts [of h] by blast
qed

lemma handoff_done:
  assumes m: "handoff_ok m"
  shows "handoff_ok (publicationDone i out m)"
proof (cases "i < length (mg_pending m)")
  case True
  define p where "p = mg_pending m ! i"
  have split: "mg_pending m = take i (mg_pending m) @ p # drop (Suc i) (mg_pending m)" using True by (simp add: p_def id_take_nth_drop)
  define rest where "rest = take i (mg_pending m) @ drop (Suc i) (mg_pending m)"
  have set: "set (handed_over m) = insert (pb_number p) (set (named m @ map pb_number rest))"
    unfolding handed_over_def by (subst split) (auto simp: rest_def)
  have d: "distinct (named m @ map pb_number rest)" "pb_number p \<notin> set (named m @ map pb_number rest)"
    using m unfolding handoff_ok_def handed_over_def by (subst (asm) split, auto simp: rest_def)+
  show ?thesis
  proof (cases "out = Landed")
    case True
    define m' where "m' = publicationDone i out m"
    have m': "mg_rooms m' = mg_rooms m" "mg_created m' = mg_created m" "handed_over m' = (named m @ [pb_number p]) @ map pb_number rest"
      using \<open>i < length (mg_pending m)\<close> True by (simp_all add: m'_def publicationDone_def Let_def p_def rest_def handed_over_def named_def)
    have "distinct (handed_over m')" "set (handed_over m') = set (handed_over m)" unfolding m'(3) set using d by auto
    with m have "handoff_ok m'" by (simp add: handoff_ok_def m'(1,2))
    then show ?thesis by (simp add: m'_def)
  next
    case False
    define m' where "m' = publicationDone i out m"
    have m': "mg_rooms m' = map (\<lambda>h. if ho_number h = pb_number p then h\<lparr>ho_room := unmarkReported (ho_room h)\<rparr> else h) (mg_rooms m)"
      "mg_created m' = mg_created m" "handed_over m' = named m @ map pb_number rest"
      using \<open>i < length (mg_pending m)\<close> False
      by (cases out; simp add: m'_def publicationDone_def Let_def p_def rest_def handed_over_def named_def onRoom_def upd_rows_def)+
    have numbers: "map ho_number (mg_rooms m') = map ho_number (mg_rooms m)" by (simp add: m'(1))
    have "handoff_ok m'"
      unfolding handoff_ok_def numbers
    proof (intro conjI ballI)
      show "distinct (map ho_number (mg_rooms m))" "distinct (handed_over m')" using m d by (simp_all add: handoff_ok_def m'(3))
      fix h' assume "h' \<in> set (mg_rooms m')"
      then obtain h where h: "h \<in> set (mg_rooms m)"
        "h' = (if ho_number h = pb_number p then h\<lparr>ho_room := unmarkReported (ho_room h)\<rparr> else h)" by (auto simp: m'(1))
      have "ho_number h < mg_created m" using m h(1) by (simp add: handoff_ok_def)
      then show "ho_number h' < mg_created m'" by (simp add: m'(2) h(2))
      have "rm_reported (ho_room h) \<longleftrightarrow> ho_number h \<in> set (handed_over m)" using m h(1) by (simp add: handoff_ok_def)
      then show "rm_reported (ho_room h') \<longleftrightarrow> ho_number h' \<in> set (handed_over m')"
        unfolding m'(3) set using d(2) by (simp add: h(2) unmarkReported_def)
    next
      fix n assume "n \<in> set (handed_over m')"
      then have "n \<in> set (handed_over m)" unfolding m'(3) set by simp
      then show "n < mg_created m'" using m by (simp add: handoff_ok_def m'(2))
    qed
    then show ?thesis by (simp add: m'_def)
  qed
qed (use m in \<open>simp add: publicationDone_def\<close>)

lemma handoff_tickRooms: "handoff_ok m \<Longrightarrow> handoff_ok (snd (tickRooms nc now m))"
  by (erule handoff_rooms [where f = "\<lambda>h. h\<lparr>ho_room := snd (tick_room nc now (ho_room h))\<rparr>"])
    (simp_all add: tickRooms_def Let_def case_prod_beta comp_def)

lemma handoff_tickTimes: "handoff_ok m \<Longrightarrow> handoff_ok (snd (tickTimes nc now n m))"
  by (induction n arbitrary: m) (simp_all add: Let_def case_prod_beta handoff_tickRooms)

lemma handoff_next: "handoff_ok m \<Longrightarrow> handoff_ok (m\<lparr>mg_nextTickAt := t\<rparr>)"
  by (erule handoff_rooms [where f = id]) simp_all

definition ticked :: "node_config \<Rightarrow> int \<Rightarrow> manager \<Rightarrow> manager" where
  "ticked nc now m = snd (tickTimes nc now (nat (min 5 (ticksDue nc now m)))
     (if 5 < ticksDue nc now m then m\<lparr>mg_nextTickAt := real_of_int now\<rparr> else m))"

lemma snd_runTick: "snd (runTick nc collation now m) = reapEmptyRooms (snd (reportFinishedMatches nc collation now (ticked nc now m)))"
  by (simp add: runTick_def ticked_def Let_def case_prod_beta)

lemma handoff_ticked: "handoff_ok m \<Longrightarrow> handoff_ok (ticked nc now m)"
  unfolding ticked_def by (intro handoff_tickTimes) (simp add: handoff_next)

lemma handed_over_reap [simp]: "handed_over (reapEmptyRooms m) = handed_over m"
  by (simp add: reapEmptyRooms_def handed_over_def named_def)

lemma handoff_close: "handoff_ok m \<Longrightarrow> handoff_ok (closeRoom r m)"
  by (erule handoff_subset) (simp_all add: closeRoom_def)

lemma handoff_closes: "handoff_ok m \<Longrightarrow> handoff_ok (fold closeRoom rs m)"
  by (induction rs arbitrary: m) (simp_all add: handoff_close)

lemma handoff_run: "handoff_ok m \<Longrightarrow> handoff_ok (run_mg nc collation op m)"
proof (cases op)
  case (MgEnsure roomId g)
  assume "handoff_ok m"
  then show ?thesis using handoff_ensure by (auto simp: run_mg_def MgEnsure split: sum.split)
next
  case (MgTick now)
  assume m: "handoff_ok m"
  have "handoff_ok (reapEmptyRooms (snd (reportFinishedMatches nc collation now (ticked nc now m))))"
    by (rule handoff_subset [OF handoff_report(1) [OF handoff_ticked [OF m]]]) (simp_all add: reapEmptyRooms_def)
  then show ?thesis by (simp add: run_mg_def MgTick snd_runTick)
next
  case MgDrain
  assume "handoff_ok m"
  then show ?thesis
    by (rule handoff_rooms [where f = "\<lambda>h. h\<lparr>ho_room := drain_room (ho_room h)\<rparr>"])
      (simp_all add: run_mg_def MgDrain drainRooms_def drain_room_def)
qed (simp_all add: run_mg_def handoff_onRoom client_reported handoff_done handoff_close closeAll_def handoff_closes)

lemma handoff_runs: "handoff_ok m \<Longrightarrow> handoff_ok (fold (run_mg nc collation) ops m)"
  by (induction ops arbitrary: m) (simp_all add: handoff_run)

lemma handoff_new: "handoff_ok new_manager"
  by (simp add: handoff_ok_def new_manager_def handed_over_def named_def)


text \<open>The loop never falls behind for good: when the timer fires late, the next deadline is in the future, by at most five steps.\<close>

lemma tickTimes_next: "mg_nextTickAt (snd (tickTimes nc now n m)) = mg_nextTickAt m + real n * tickIntervalMs nc"
proof (induction n arbitrary: m)
  case (Suc n)
  have "mg_nextTickAt (snd (tickRooms nc now m)) = mg_nextTickAt m + tickIntervalMs nc" by (simp add: tickRooms_def Let_def)
  with Suc [of "snd (tickRooms nc now m)"] show ?case by (simp add: Let_def case_prod_beta algebra_simps)
qed simp

lemma loop_catches_up:
  assumes rate: "0 < nc_tickRateHz nc" and late: "mg_nextTickAt m \<le> real_of_int now"
  shows "real_of_int now < mg_nextTickAt (snd (runTick nc collation now m))"
    and "mg_nextTickAt (snd (runTick nc collation now m)) \<le> real_of_int now + 5 * tickIntervalMs nc"
proof -
  have i: "0 < tickIntervalMs nc" using rate by (simp add: tickIntervalMs_def)
  let ?lag = "(real_of_int now - mg_nextTickAt m) / tickIntervalMs nc"
  have nxt: "mg_nextTickAt (snd (runTick nc collation now m)) = mg_nextTickAt (ticked nc now m)"
    by (simp add: snd_runTick reapEmptyRooms_def reportFinishedMatches_def Let_def)
  have "real_of_int now < mg_nextTickAt (ticked nc now m) \<and> mg_nextTickAt (ticked nc now m) \<le> real_of_int now + 5 * tickIntervalMs nc"
  proof (cases "5 < ticksDue nc now m")
    case True
    then show ?thesis using i by (simp add: ticked_def tickTimes_next)
  next
    case False
    have "0 \<le> ?lag" using late i by simp
    then have d: "1 \<le> ticksDue nc now m" by (simp add: ticksDue_def)
    have "?lag < real_of_int (ticksDue nc now m)" "real_of_int (ticksDue nc now m) \<le> ?lag + 1"
      unfolding ticksDue_def by linarith+
    then have "real_of_int now - mg_nextTickAt m < real_of_int (ticksDue nc now m) * tickIntervalMs nc"
      "real_of_int (ticksDue nc now m) * tickIntervalMs nc \<le> real_of_int now - mg_nextTickAt m + tickIntervalMs nc"
      using i by (simp_all add: field_simps)
    moreover have "mg_nextTickAt (ticked nc now m) = mg_nextTickAt m + real_of_int (ticksDue nc now m) * tickIntervalMs nc"
      using False d by (simp add: ticked_def tickTimes_next min_def)
    ultimately show ?thesis using i by linarith
  qed
  then show "real_of_int now < mg_nextTickAt (snd (runTick nc collation now m))"
    "mg_nextTickAt (snd (runTick nc collation now m)) \<le> real_of_int now + 5 * tickIntervalMs nc"
    by (simp_all only: nxt)
qed

section \<open>The results\<close>

text \<open>C27: A finished match is handed to settlement by the next pass over the rooms and named to it at most once: in every history
  of joins, moves, ticks, failing and succeeding writes and closing rooms, no room's match is on the queue twice or
  on the queue and being written again, and after a pass every resolved match with a game is one of them. (A write that is reported as
  failed has not landed.)\<close>

theorem results_handed_over_once:
  assumes "m = fold (run_mg nc collation) ops new_manager" and "h \<in> set (mg_rooms (ticked nc now m))"
    and "isResolved (ho_room h)" and "rm_gameId (ho_room h) \<noteq> None"
  shows "distinct (handed_over (run_mg nc collation (MgTick now) m)) \<and>
    ho_number h \<in> set (handed_over (run_mg nc collation (MgTick now) m))"
proof
  have m: "handoff_ok m" unfolding assms(1) by (rule handoff_runs [OF handoff_new])
  show "distinct (handed_over (run_mg nc collation (MgTick now) m))"
    using handoff_run [OF m, of nc collation "MgTick now"] by (simp add: handoff_ok_def)
  show "ho_number h \<in> set (handed_over (run_mg nc collation (MgTick now) m))"
    using handoff_report(2) [OF handoff_ticked [OF m] assms(2-4)] by (simp add: run_mg_def snd_runTick)
qed

section \<open>A room that is gone before its write has landed\<close>

definition forgotten :: "nat \<Rightarrow> manager \<Rightarrow> bool" where
  "forgotten n m \<longleftrightarrow> n < mg_created m \<and> n \<notin> ho_number ` set (mg_rooms m) \<and> n \<notin> set (handed_over m)"

lemma forgotten_rooms:
  assumes "forgotten n m" and "ho_number ` set (mg_rooms m') \<subseteq> ho_number ` set (mg_rooms m)" and "mg_created m \<le> mg_created m'"
    and "set (handed_over m') \<subseteq> set (handed_over m)"
  shows "forgotten n m'"
  using assms by (auto simp: forgotten_def)

lemma numbers_image: "map ho_number xs = map ho_number ys \<Longrightarrow> ho_number ` set xs = ho_number ` set ys"
  by (metis list.set_map)

lemma forgotten_run:
  assumes f: "forgotten n m"
  shows "forgotten n (run_mg nc collation op m)"
proof (cases op)
  case (MgEnsure roomId g)
  show ?thesis
  proof (cases "roomNamed roomId m")
    case None
    then show ?thesis using f by (auto simp: run_mg_def MgEnsure ensureRoom_def Let_def forgotten_def handed_over_def named_def)
  next
    case (Some k)
    show ?thesis by (rule forgotten_rooms [OF f])
        (use Some numbers_image [OF onRoom_simps(7)] in \<open>auto simp: run_mg_def MgEnsure ensureRoom_def Let_def\<close>)
  qed
next
  case (MgTick now)
  have t: "ho_number ` set (mg_rooms (ticked nc now m)) = ho_number ` set (mg_rooms m) \<and> mg_created (ticked nc now m) = mg_created m \<and>
      handed_over (ticked nc now m) = handed_over m"
  proof -
    have "ho_number ` set (mg_rooms (snd (tickTimes nc now k x))) = ho_number ` set (mg_rooms x) \<and>
        mg_created (snd (tickTimes nc now k x)) = mg_created x \<and> handed_over (snd (tickTimes nc now k x)) = handed_over x" for k x
    proof (induction k arbitrary: x)
      case (Suc k)
      have "ho_number ` set (mg_rooms (snd (tickRooms nc now x))) = ho_number ` set (mg_rooms x)"
        "mg_created (snd (tickRooms nc now x)) = mg_created x" "handed_over (snd (tickRooms nc now x)) = handed_over x"
        by (auto simp: tickRooms_def Let_def case_prod_beta image_image handed_over_def named_def)
      with Suc [of "snd (tickRooms nc now x)"] show ?case by (simp add: Let_def case_prod_beta)
    qed simp
    from this [of _ m] this [of _ "m\<lparr>mg_nextTickAt := real_of_int now\<rparr>"] show ?thesis
      by (simp add: ticked_def handed_over_def named_def)
  qed
  let ?m = "ticked nc now m"
  have facts: "ho_number (fst (snd (reportRoom nc collation now h))) = ho_number h \<and>
      set (map pb_number (snd (snd (reportRoom nc collation now h)))) \<subseteq> {ho_number h}" for h
    using reportRoom_facts [of nc collation now h "fst (reportRoom nc collation now h)" "fst (snd (reportRoom nc collation now h))"
      "snd (snd (reportRoom nc collation now h))"] by auto
  have r: "ho_number ` set (mg_rooms (snd (reportFinishedMatches nc collation now ?m))) = ho_number ` set (mg_rooms ?m)"
    using facts by (simp add: reportFinishedMatches_def Let_def case_prod_beta image_image)
  have "set (handed_over (snd (reportFinishedMatches nc collation now ?m))) \<subseteq> set (handed_over ?m) \<union> ho_number ` set (mg_rooms ?m)"
    using facts by (fastforce simp: reportFinishedMatches_def Let_def case_prod_beta handed_over_def named_def)
  with r t f have "forgotten n (snd (reportFinishedMatches nc collation now ?m))"
    unfolding forgotten_def by (auto simp: reportFinishedMatches_def Let_def)
  then show ?thesis by (rule forgotten_rooms) (auto simp: run_mg_def MgTick snd_runTick, auto simp: reapEmptyRooms_def)
next
  case (MgOutcome i out)
  have in_set: "set (take i xs @ drop (Suc i) xs) \<subseteq> set xs" for xs :: "publication list"
    by (auto dest: in_set_takeD in_set_dropD)
  have "set (handed_over (publicationDone i out m)) \<subseteq> set (handed_over m)"
    using in_set [of "mg_pending m"]
    by (cases out) (auto simp: publicationDone_def Let_def handed_over_def named_def onRoom_def)
  moreover have "ho_number ` set (mg_rooms (publicationDone i out m)) = ho_number ` set (mg_rooms m)"
    by (cases out) (auto simp: publicationDone_def Let_def intro!: numbers_image simp: onRoom_def map_key_upd_rows)
  moreover have "mg_created (publicationDone i out m) = mg_created m"
    by (cases out) (simp_all add: publicationDone_def Let_def)
  ultimately show ?thesis by (intro forgotten_rooms [OF f]) (simp_all add: run_mg_def MgOutcome)
next
  case MgCloseAll
  have "forgotten n x \<Longrightarrow> forgotten n (fold closeRoom rs x)" for rs x
  proof (induction rs arbitrary: x)
    case (Cons r rs)
    have "forgotten n (closeRoom r x)"
      by (rule forgotten_rooms [OF Cons.prems]) (auto simp: closeRoom_def handed_over_def named_def)
    with Cons.IH show ?case by simp
  qed simp
  with f show ?thesis by (simp add: run_mg_def MgCloseAll closeAll_def)
next
  case (MgClient k rop)
  show ?thesis
    by (rule forgotten_rooms [OF f]) (use numbers_image [OF onRoom_simps(7)] in \<open>auto simp: run_mg_def MgClient\<close>)
next
  case (MgClose r)
  show ?thesis by (rule forgotten_rooms [OF f]) (auto simp: run_mg_def MgClose closeRoom_def handed_over_def named_def)
next
  case MgDrain
  show ?thesis by (rule forgotten_rooms [OF f]) (auto simp: run_mg_def MgDrain drainRooms_def image_image handed_over_def named_def)
qed

lemma forgotten_runs: "forgotten n m \<Longrightarrow> forgotten n (fold (run_mg nc collation) ops m)"
  by (induction ops arbitrary: m) (simp_all add: forgotten_run)


subsection \<open>A finished match stays finished\<close>

definition same_front :: "room \<Rightarrow> room \<Rightarrow> bool" where
  "same_front r r' \<longleftrightarrow> rm_status r' = rm_status r \<and> rm_gameId r' = rm_gameId r \<and> rm_announced r' = rm_announced r"

lemma same_front_trans: "same_front r s \<Longrightarrow> same_front s t \<Longrightarrow> same_front r t"
  by (simp add: same_front_def)

lemma front_remove: "same_front r (removePlayer p r)"
  by (simp add: same_front_def removePlayer_def eliminate_def captureScore_def inWorld_def Let_def split: option.split)

lemma front_evictions: "same_front r (fold (evictSeat nc now) ss r)"
proof (induction ss arbitrary: r)
  case (Cons s ss)
  have "same_front r (evictSeat nc now s r)" using front_remove by (auto simp: evictSeat_def same_front_def split: option.split)
  from same_front_trans [OF this Cons] show ?case by simp
qed (simp add: same_front_def)

lemma front_deaths: "same_front r (fold recordDeath ds r)"
proof (induction ds arbitrary: r)
  case (Cons d ds)
  have "same_front r (recordDeath d r)" by (simp add: same_front_def recordDeath_def eliminate_def Let_def)
  from same_front_trans [OF this Cons] show ?case by simp
qed (simp add: same_front_def)

lemma front_tick: "same_front r (snd (tick_room nc now r))"
proof -
  have turns: "same_front x (snd (snapshotTurn nc x))" "same_front x (snd (leaderboardTurn nc x))" for x
    by (auto simp: same_front_def snapshotTurn_def broadcastSnapshots_def leaderboardTurn_def broadcastLeaderboard_def Let_def case_prod_beta split: option.split)
  have "same_front r (r\<lparr>rm_world := w\<rparr>)" for w by (simp add: same_front_def)
  then have "same_front r (evictExpiredDisconnects nc now (fold recordDeath ds (r\<lparr>rm_world := w\<rparr>)))" for ds w
    using same_front_trans front_deaths front_evictions unfolding evictExpiredDisconnects_def by blast
  then have "same_front r (snd (leaderboardTurn nc (snd (snapshotTurn nc (evictExpiredDisconnects nc now (fold recordDeath ds (r\<lparr>rm_world := w\<rparr>)))))))" for ds w
    using same_front_trans turns by blast
  moreover have "same_front r r" by (simp add: same_front_def)
  ultimately show ?thesis by (simp add: tick_room_def Let_def case_prod_beta split: option.split)
qed

lemma tick_shrinks:
  assumes "room_ok r"
  shows "length (rm_seats (snd (tick_room nc now r))) \<le> length (rm_seats r)"
proof -
  obtain w where w: "rm_world r = Some w" "world_wf w" "0 \<le> ws_elapsedMs w"
    "\<forall>p. ws_playerIndex w p \<noteq> None \<longleftrightarrow> p \<in> seat_playerId ` set (rm_seats r)" by (rule room_ok_worldE [OF assms])
  obtain res w' where step: "step_world (rm_sim r) w = (res, w')" by fastforce
  have deaths: "\<forall>d \<in> set (tr_deaths res). 0 \<le> de_finalScore d"
    using step_deaths [OF w(2), of "rm_sim r"] by (simp add: step fair_death_def)
  let ?b = "fold recordDeath (tr_deaths res) (r\<lparr>rm_world := Some w'\<rparr>)"
  have b: "rm_seats ?b = rm_seats r" using recordDeaths_kept [OF deaths, of "r\<lparr>rm_world := Some w'\<rparr>"] by simp
  have "length (rm_seats (evictExpiredDisconnects nc now ?b)) \<le> length (rm_seats r)"
    by (simp add: evictExpiredDisconnects_def evictions_seats b)
  then show ?thesis
    using arg_cong [OF turns_seats(1) [of nc "evictExpiredDisconnects nc now ?b"], of length]
      arg_cong [OF turns_seats(2) [of nc "snd (snapshotTurn nc (evictExpiredDisconnects nc now ?b))"], of length] w(1)
    by (simp add: tick_room_def step Let_def case_prod_beta)
qed

lemma tick_resolved:
  assumes r: "room_ok r" and res: "isResolved r"
  shows "isResolved (snd (tick_room nc now r))"
proof -
  let ?r = "snd (tick_room nc now r)"
  have ok: "room_ok ?r" "advances r ?r" using room_tick [OF r] by blast+
  have "set (rm_entrants r) \<subseteq> set (rm_entrants ?r)" using ok(2) by (simp add: advances_def)
  then have "card (set (rm_entrants r)) \<le> card (set (rm_entrants ?r))" by (intro card_mono) simp_all
  then have "length (rm_entrants r) \<le> length (rm_entrants ?r)" using r ok(1) by (simp add: room_ok_def distinct_card)
  moreover have "room_aliveCount ?r \<le> room_aliveCount r"
    using tick_shrinks [OF r] alive_counts_seats [OF r] alive_counts_seats [OF ok(1)] by (simp add: playerCount_def)
  ultimately show ?thesis using res front_tick [of r nc now] by (simp add: isResolved_def same_front_def)
qed

subsection \<open>An example\<close>

text \<open>Two players join a room with a game and leave it again, in the order given.\<close>

definition left_ops :: "string list \<Rightarrow> mg_op list" where
  "left_ops ps = [MgEnsure ''r'' (Some ''g''), MgClient 0 (RoAdd ''a'' ''s1'' ''ann''), MgClient 0 (RoAdd ''b'' ''s2'' ''bob'')] @
     map (\<lambda>p. MgClient 0 (RoRemove p)) ps"

definition left_room :: "string list \<Rightarrow> room" where
  "left_room ps = fold (run_room a_node) (two_entered @ map RoRemove ps) (opened a_node ''r'' (hashSeed ''r'') (Some ''g''))"

lemma left_ops_room:
  "fold (run_mg a_node c) (left_ops ps) new_manager =
    \<lparr>mg_rooms = [\<lparr>ho_number = 0, ho_room = left_room ps\<rparr>], mg_created = 1, mg_running = False, mg_nextTickAt = 0, mg_pending = [], mg_redis = []\<rparr>"
proof -
  have "fold (run_mg a_node c) (map (\<lambda>p. MgClient 0 (RoRemove p)) ps)
      \<lparr>mg_rooms = [\<lparr>ho_number = 0, ho_room = r\<rparr>], mg_created = 1, mg_running = False, mg_nextTickAt = 0, mg_pending = [], mg_redis = []\<rparr> =
      \<lparr>mg_rooms = [\<lparr>ho_number = 0, ho_room = fold (run_room a_node) (map RoRemove ps) r\<rparr>], mg_created = 1, mg_running = False,
        mg_nextTickAt = 0, mg_pending = [], mg_redis = []\<rparr>" for r
    by (induction ps arbitrary: r) (simp_all add: run_mg_def from_client_def onRoom_def)
  then show ?thesis
    by (simp add: left_ops_def left_room_def two_entered_def run_mg_def from_client_def onRoom_def ensureRoom_def roomNamed_def
        new_manager_def roomCount_def a_node_def [THEN arg_cong, of nc_maxRooms] opened_def Let_def)
qed

lemma left_room_ok: "room_ok (left_room ps)"
  using room_runs [OF room_ok_opened] by (simp add: left_room_def del: fold_append)

lemma left_room_facts:
  "rm_entrants (left_room ps) = [''a'', ''b'']" "rm_status (left_room ps) = RoomActive" "rm_gameId (left_room ps) = Some ''g''"
  "\<not> rm_announced (left_room ps)" "map seat_playerId (rm_seats (left_room ps)) = filter (\<lambda>p. p \<notin> set ps) [''a'', ''b'']"
proof -
  let ?r = "fold (run_room a_node) two_entered (opened a_node ''r'' (hashSeed ''r'') (Some ''g''))"
  have r: "rm_entrants ?r = [''a'', ''b'']" "rm_status ?r = RoomActive" "rm_gameId ?r = Some ''g''" "\<not> rm_announced ?r"
    "map seat_playerId (rm_seats ?r) = [''a'', ''b'']"
    by (simp_all add: two_entered_def run_room_def addPlayer_def opened_def start_room_def new_room_def seatOf_def inWorld_def)
  have e: "rm_entrants (removePlayer p x) = rm_entrants x" for p x
    by (simp add: removePlayer_def inWorld_def Let_def)
  have keep: "rm_entrants (fold (run_room a_node) (map RoRemove ps) x) = rm_entrants x \<and> same_front x (fold (run_room a_node) (map RoRemove ps) x) \<and>
      map seat_playerId (rm_seats (fold (run_room a_node) (map RoRemove ps) x)) = filter (\<lambda>p. p \<notin> set ps) (map seat_playerId (rm_seats x))" for x
  proof (induction ps arbitrary: x)
    case (Cons p ps)
    have s: "map seat_playerId (rm_seats (removePlayer p x)) = filter (\<lambda>q. q \<noteq> p) (map seat_playerId (rm_seats x))"
      by (simp add: removePlayer_seats filter_map comp_def)
    from Cons [of "removePlayer p x"] same_front_trans [OF front_remove [of x p]] show ?case
      by (simp add: run_room_def e s conj_commute)
  qed (simp add: same_front_def)
  from keep [of ?r] r show "rm_entrants (left_room ps) = [''a'', ''b'']" "rm_status (left_room ps) = RoomActive" "rm_gameId (left_room ps) = Some ''g''"
    "\<not> rm_announced (left_room ps)" "map seat_playerId (rm_seats (left_room ps)) = filter (\<lambda>p. p \<notin> set ps) [''a'', ''b'']"
    by (simp_all add: left_room_def same_front_def)
qed

lemma left_room_resolved: "ps \<noteq> [] \<Longrightarrow> set ps \<subseteq> {''a'', ''b''} \<Longrightarrow> isResolved (left_room ps)"
proof -
  assume ps: "ps \<noteq> []" "set ps \<subseteq> {''a'', ''b''}"
  have "length (filter (\<lambda>p. p \<notin> set ps) [''a'', ''b'']) \<le> 1" using ps by (cases ps) auto
  then have "length (rm_seats (left_room ps)) \<le> 1" using arg_cong [OF left_room_facts(5) [of ps], of length] by simp
  then show ?thesis
    using alive_counts_seats [OF left_room_ok [of ps]] by (simp add: isResolved_def left_room_facts(1,2) playerCount_def)
qed

lemma left_ticked:
  "mg_rooms (ticked a_node 0 (fold (run_mg a_node c) (left_ops ps) new_manager)) =
    [\<lparr>ho_number = 0, ho_room = snd (tick_room a_node 0 (left_room ps))\<rparr>]"
  "mg_pending (ticked a_node 0 (fold (run_mg a_node c) (left_ops ps) new_manager)) = []"
  "mg_redis (ticked a_node 0 (fold (run_mg a_node c) (left_ops ps) new_manager)) = []"
  "mg_created (ticked a_node 0 (fold (run_mg a_node c) (left_ops ps) new_manager)) = 1"
  unfolding left_ops_room by (simp_all add: ticked_def ticksDue_def tickRooms_def Let_def case_prod_beta)

lemma results_handed_over_once_witness:
  "0 \<in> set (handed_over (run_mg a_node (\<lambda>_. 0) (MgTick 0) (fold (run_mg a_node (\<lambda>_. 0)) (left_ops [''b'']) new_manager)))"
proof -
  let ?r = "snd (tick_room a_node 0 (left_room [''b'']))"
  have "isResolved ?r" by (rule tick_resolved [OF left_room_ok left_room_resolved]) simp_all
  moreover have "rm_gameId ?r \<noteq> None" using front_tick [of "left_room [''b'']" a_node 0] by (simp add: same_front_def left_room_facts)
  moreover have "\<lparr>ho_number = 0, ho_room = ?r\<rparr> \<in> set (mg_rooms (ticked a_node 0 (fold (run_mg a_node (\<lambda>_. 0)) (left_ops [''b'']) new_manager)))"
    by (simp add: left_ticked)
  ultimately show ?thesis using results_handed_over_once [OF refl, of "\<lparr>ho_number = 0, ho_room = ?r\<rparr>" a_node 0] by simp
qed

text \<open>The finding: when both have left, the room is closed by the pass that starts the write, and a write that fails is never tried again.\<close>

lemma failed_write_is_lost:
  "0 \<notin> set (handed_over (fold (run_mg a_node c) later
    (fold (run_mg a_node c) (left_ops [''b'', ''a''] @ [MgTick 0, MgOutcome 0 SetFailed]) new_manager)))"
proof -
  let ?m = "fold (run_mg a_node c) (left_ops [''b'', ''a'']) new_manager"
  let ?r = "snd (tick_room a_node 0 (left_room [''b'', ''a'']))"
  let ?h = "\<lparr>ho_number = 0, ho_room = ?r\<rparr>"
  obtain ms h' ps where rep: "reportRoom a_node c 0 ?h = (ms, h', ps)" by (metis prod_cases3)
  have res: "isResolved ?r" by (rule tick_resolved [OF left_room_ok left_room_resolved]) simp_all
  have front: "rm_status ?r = RoomActive" "\<not> rm_announced ?r" using front_tick [of "left_room [''b'', ''a'']" a_node 0] by (simp_all add: same_front_def left_room_facts)
  have "length (rm_seats ?r) \<le> length (rm_seats (left_room [''b'', ''a'']))" by (rule tick_shrinks [OF left_room_ok])
  moreover have "length (rm_seats (left_room [''b'', ''a''])) = 0" using arg_cong [OF left_room_facts(5) [of "[''b'', ''a'']"], of length] by simp
  ultimately have seats: "rm_seats ?r = []" by simp
  note f = reportRoom_facts [OF rep]
  have h': "rm_seats (ho_room h') = []" "rm_status (ho_room h') = RoomDraining" using f res front seats by simp_all
  define n where "n = run_mg a_node c (MgTick 0) ?m"
  have n: "mg_rooms n = []" "mg_pending n = ps" "mg_redis n = []" "mg_created n = 1"
    using h' by (simp_all add: n_def run_mg_def snd_runTick reapEmptyRooms_def reportFinishedMatches_def left_ticked rep Let_def playerCount_def)
  have "length ps \<le> 1" using f by (auto dest: arg_cong [where f = length])
  then have "forgotten 0 (run_mg a_node c (MgOutcome 0 SetFailed) n)"
    by (cases ps) (simp_all add: run_mg_def publicationDone_def forgotten_def handed_over_def named_def onRoom_def n Let_def)
  from forgotten_runs [OF this, of a_node c later] show ?thesis by (simp add: forgotten_def n_def)
qed

end
