(* ===== verification/Anti_Cheat.thy ===== *)
theory Anti_Cheat
  imports Simulation Utf8 "HOL-Library.AList"
begin

text \<open>
  What a realtime node does against hostile clients (\<open>apps/realtime/src/anticheat\<close>, \<open>io/middleware/connection-guard.ts\<close>,
  \<open>rate-limit.ts\<close>): the validation of inputs, the budgets of events and of connections, the sanitising of chat, and
  the check of movement. The three token buckets are one locale, \<open>token_bucket\<close>: the law of one attempt, and what
  follows for any number of them.

  A number that a client sends is \<open>NotFinite\<close> or a real number; the code only ever asks first whether it is finite.
\<close>

datatype js_num = NotFinite | Num real

section \<open>A token bucket\<close>

text \<open>An attempt at a time refills the bucket for the time that has passed, up to the burst, and takes a token if there is one.\<close>

definition refilled :: "real \<Rightarrow> real \<Rightarrow> real \<Rightarrow> int \<Rightarrow> int \<Rightarrow> real" where
  "refilled rate burst tokens since now = min burst (tokens + (real_of_int (max 0 (now - since)) / 1000) * rate)"

locale token_bucket =
  fixes attempt :: "int \<Rightarrow> 's \<Rightarrow> bool \<times> 's"
    and tokens :: "'s \<Rightarrow> real" and last_time :: "'s \<Rightarrow> int" and rate burst :: real
  assumes rate_nonneg: "0 \<le> rate" and burst_nonneg: "0 \<le> burst"
    and attempt_law: "attempt now s = (ok, s') \<Longrightarrow>
      (ok \<longleftrightarrow> 1 \<le> refilled rate burst (tokens s) (last_time s) now) \<and>
      tokens s' = refilled rate burst (tokens s) (last_time s) now - (if ok then 1 else 0) \<and> last_time s' = now"
begin

fun admitted :: "int list \<Rightarrow> 's \<Rightarrow> nat" where
  "admitted [] s = 0"
| "admitted (now # ts) s = (case attempt now s of (ok, s') \<Rightarrow> (if ok then 1 else 0) + admitted ts s')"

lemma attempt_nonneg:
  assumes "attempt now s = (ok, s')" and "0 \<le> tokens s"
  shows "0 \<le> tokens s'"
proof -
  have "0 \<le> refilled rate burst (tokens s) (last_time s) now"
    using assms(2) rate_nonneg burst_nonneg by (simp add: refilled_def)
  with attempt_law [OF assms(1)] show ?thesis by auto
qed

text \<open>However attempts are spaced, what gets through is at most what was in the bucket and what has flowed in.\<close>

lemma admitted_bound:
  assumes "sorted (last_time s # ts)" and "0 \<le> tokens s"
  shows "real (admitted ts s) \<le> tokens s + real_of_int (last (last_time s # ts) - last_time s) / 1000 * rate"
  using assms
proof (induction ts arbitrary: s)
  case (Cons now ts)
  obtain ok s' where a: "attempt now s = (ok, s')" by fastforce
  note law = attempt_law [OF a]
  let ?x = "refilled rate burst (tokens s) (last_time s) now"
  have le: "last_time s \<le> now" using Cons.prems(1) by simp
  have x: "?x \<le> tokens s + real_of_int (now - last_time s) / 1000 * rate"
    using le by (simp add: refilled_def max_def)
  have "sorted (last_time s' # ts)" using Cons.prems(1) law by simp
  from Cons.IH [OF this attempt_nonneg [OF a Cons.prems(2)]]
  have "real (admitted ts s') \<le> ?x - (if ok then 1 else 0) + real_of_int (last (now # ts) - now) / 1000 * rate"
    using law by simp
  moreover have "real (admitted (now # ts) s) = (if ok then 1 else 0) + real (admitted ts s')" by (simp add: a)
  ultimately have "real (admitted (now # ts) s) \<le> ?x + real_of_int (last (now # ts) - now) / 1000 * rate" by linarith
  also have "\<dots> \<le> tokens s + real_of_int (now - last_time s) / 1000 * rate + real_of_int (last (now # ts) - now) / 1000 * rate"
    using x by simp
  also have "\<dots> = tokens s + real_of_int (last (now # ts) - last_time s) / 1000 * rate"
    by (simp add: field_simps)
  finally show ?case by simp
qed simp

text \<open>Who waits for a token to flow in is let through.\<close>

lemma patient_admitted:
  assumes "0 \<le> tokens s" and "1 \<le> burst" and "1000 \<le> real_of_int (now - last_time s) * rate"
  shows "fst (attempt now s)"
proof -
  obtain ok s' where a: "attempt now s = (ok, s')" by fastforce
  have "real_of_int (now - last_time s) * rate \<le> real_of_int (max 0 (now - last_time s)) * rate"
    using rate_nonneg by (intro mult_right_mono) simp_all
  then have "1 \<le> real_of_int (max 0 (now - last_time s)) / 1000 * rate" using assms(3) by simp
  then have "1 \<le> refilled rate burst (tokens s) (last_time s) now"
    using assms(1,2) unfolding refilled_def min.bounded_iff by linarith
  with attempt_law [OF a] show ?thesis by (simp add: a)
qed

end

section \<open>Inputs\<close>

datatype rejection = StaleSequence | SequenceJump | RateLimited | BadAngle | BadDt

record input_guard =
  ig_lastSeq :: real
  ig_budget :: real
  ig_lastRefillMs :: int
  ig_suspicion :: int
  ig_rejections :: "rejection \<Rightarrow> nat option"

record client_input =
  ci_seq :: js_num
  ci_angle :: js_num
  ci_boost :: bool
  ci_dt :: js_num

definition createGuardState :: "int \<Rightarrow> real \<Rightarrow> input_guard" where
  "createGuardState now burst =
    \<lparr>ig_lastSeq = 0, ig_budget = burst, ig_lastRefillMs = now, ig_suspicion = 0, ig_rejections = \<lambda>_. None\<rparr>"

definition clampDeltaTime :: "js_num \<Rightarrow> real \<Rightarrow> real" where
  "clampDeltaTime dt maxDt = (case dt of NotFinite \<Rightarrow> 0 | Num x \<Rightarrow> if x < 0 then 0 else min x maxDt)"

definition clampTurn :: "real \<Rightarrow> js_num \<Rightarrow> real \<Rightarrow> real" where
  "clampTurn current requested maxRadPerTick =
    (case requested of NotFinite \<Rightarrow> current
     | Num x \<Rightarrow> current + max (- maxRadPerTick) (min maxRadPerTick (angleDelta current x)))"

definition is_integer :: "js_num \<Rightarrow> bool" where
  "is_integer n = (case n of NotFinite \<Rightarrow> False | Num x \<Rightarrow> x = real_of_int \<lfloor>x\<rfloor>)"

definition isSequenceValid :: "real \<Rightarrow> js_num \<Rightarrow> rejection option" where
  "isSequenceValid lastSeq incoming =
    (case incoming of NotFinite \<Rightarrow> Some StaleSequence
     | Num x \<Rightarrow> if \<not> is_integer incoming \<or> x \<le> lastSeq then Some StaleSequence
               else if 600 < x - lastSeq then Some SequenceJump else None)"

definition consumeInputBudget :: "real \<Rightarrow> real \<Rightarrow> int \<Rightarrow> input_guard \<Rightarrow> bool \<times> input_guard" where
  "consumeInputBudget ratePerSecond burst now s =
    (let elapsed = max 0 (now - ig_lastRefillMs s);
         budget = min burst (ig_budget s + (real_of_int elapsed / 1000) * ratePerSecond);
         s = s\<lparr>ig_lastRefillMs := now, ig_budget := budget\<rparr>
     in if budget < 1 then (False, s) else (True, s\<lparr>ig_budget := budget - 1\<rparr>))"

fun SUSPICION_WEIGHTS :: "rejection \<Rightarrow> int" where
  "SUSPICION_WEIGHTS RateLimited = 1"
| "SUSPICION_WEIGHTS StaleSequence = 1"
| "SUSPICION_WEIGHTS SequenceJump = 4"
| "SUSPICION_WEIGHTS BadAngle = 8"
| "SUSPICION_WEIGHTS BadDt = 8"

definition SUSPICION_THRESHOLD :: int where "SUSPICION_THRESHOLD = 200"

record outcome_of_batch =
  ob_accepted :: "client_input list"
  ob_rejected :: "(client_input \<times> rejection) list"

definition record_rejection :: "client_input \<Rightarrow> rejection \<Rightarrow> input_guard \<times> outcome_of_batch \<Rightarrow> input_guard \<times> outcome_of_batch" where
  "record_rejection cmd reason st =
    (case st of (s, out) \<Rightarrow>
      (s\<lparr>ig_rejections := (ig_rejections s)(reason \<mapsto> (case ig_rejections s reason of None \<Rightarrow> 0 | Some n \<Rightarrow> n) + 1),
         ig_suspicion := ig_suspicion s + SUSPICION_WEIGHTS reason\<rparr>,
       out\<lparr>ob_rejected := ob_rejected out @ [(cmd, reason)]\<rparr>))"

record batch_options =
  bo_now :: int
  bo_maxDtMs :: real
  bo_ratePerSecond :: real
  bo_burst :: real

definition angle_ok :: "js_num \<Rightarrow> bool" where
  "angle_ok a = (case a of NotFinite \<Rightarrow> False | Num x \<Rightarrow> \<bar>x\<bar> \<le> pi + 1 / 1000000)"

definition dt_ok :: "js_num \<Rightarrow> bool" where
  "dt_ok a = (case a of NotFinite \<Rightarrow> False | Num x \<Rightarrow> 0 \<le> x \<and> x \<le> 250)"

definition validateCommand :: "batch_options \<Rightarrow> client_input \<Rightarrow> input_guard \<times> outcome_of_batch \<Rightarrow> input_guard \<times> outcome_of_batch" where
  "validateCommand opts cmd st =
    (case st of (s, out) \<Rightarrow>
      (let (ok, s) = consumeInputBudget (bo_ratePerSecond opts) (bo_burst opts) (bo_now opts) s in
       if \<not> ok then record_rejection cmd RateLimited (s, out)
       else case isSequenceValid (ig_lastSeq s) (ci_seq cmd) of
         Some reason \<Rightarrow> record_rejection cmd reason (s, out)
       | None \<Rightarrow>
           if \<not> angle_ok (ci_angle cmd) then record_rejection cmd BadAngle (s, out)
           else if \<not> dt_ok (ci_dt cmd) then record_rejection cmd BadDt (s, out)
           else (s\<lparr>ig_lastSeq := (case ci_seq cmd of Num x \<Rightarrow> x | NotFinite \<Rightarrow> ig_lastSeq s)\<rparr>,
                 out\<lparr>ob_accepted := ob_accepted out @ [cmd\<lparr>ci_dt := Num (clampDeltaTime (ci_dt cmd) (bo_maxDtMs opts))\<rparr>]\<rparr>)))"

definition validateInputBatch :: "batch_options \<Rightarrow> client_input list \<Rightarrow> input_guard \<Rightarrow> input_guard \<times> outcome_of_batch" where
  "validateInputBatch opts commands s = fold (validateCommand opts) commands (s, \<lparr>ob_accepted = [], ob_rejected = []\<rparr>)"

definition decaySuspicion :: "int \<Rightarrow> input_guard \<Rightarrow> input_guard" where
  "decaySuspicion amount s = s\<lparr>ig_suspicion := max 0 (ig_suspicion s - amount)\<rparr>"

definition shouldShadowban :: "input_guard \<Rightarrow> bool" where
  "shouldShadowban s \<longleftrightarrow> SUSPICION_THRESHOLD \<le> ig_suspicion s"

text \<open>The guards by socket.\<close>

definition getGuard :: "int \<Rightarrow> real \<Rightarrow> string \<Rightarrow> (string \<Rightarrow> input_guard option) \<Rightarrow> input_guard \<times> (string \<Rightarrow> input_guard option)" where
  "getGuard now burst socketId guards =
    (case guards socketId of Some g \<Rightarrow> (g, guards)
     | None \<Rightarrow> (let g = createGuardState now burst in (g, guards(socketId \<mapsto> g))))"

definition releaseGuard :: "string \<Rightarrow> (string \<Rightarrow> input_guard option) \<Rightarrow> (string \<Rightarrow> input_guard option)" where
  "releaseGuard socketId guards = guards(socketId := None)"

section \<open>Events\<close>

record bucket =
  bk_tokens :: real
  bk_lastRefillMs :: int

record event_limit =
  lim_ratePerSecond :: real
  lim_burst :: real

definition EVENT_LIMITS :: "string \<Rightarrow> event_limit option" where
  "EVENT_LIMITS = [''chat'' \<mapsto> \<lparr>lim_ratePerSecond = 1 / 2, lim_burst = 3\<rparr>,
     ''ping'' \<mapsto> \<lparr>lim_ratePerSecond = 4, lim_burst = 8\<rparr>,
     ''respawn'' \<mapsto> \<lparr>lim_ratePerSecond = 1 / 2, lim_burst = 3\<rparr>,
     ''join'' \<mapsto> \<lparr>lim_ratePerSecond = 1, lim_burst = 3\<rparr>]"

definition spend :: "real \<Rightarrow> real \<Rightarrow> int \<Rightarrow> bucket \<Rightarrow> bool \<times> bucket" where
  "spend ratePerSecond burst now b =
    (let elapsed = max 0 (now - bk_lastRefillMs b);
         tokens = min burst (bk_tokens b + (real_of_int elapsed / 1000) * ratePerSecond);
         b = \<lparr>bk_tokens = tokens, bk_lastRefillMs = now\<rparr>
     in if tokens < 1 then (False, b) else (True, b\<lparr>bk_tokens := tokens - 1\<rparr>))"

definition allow :: "string \<Rightarrow> int \<Rightarrow> (string \<Rightarrow> bucket option) \<Rightarrow> bool \<times> (string \<Rightarrow> bucket option)" where
  "allow event now budgets =
    (case EVENT_LIMITS event of
       None \<Rightarrow> (True, budgets)
     | Some limit \<Rightarrow>
         (let b = (case budgets event of Some b \<Rightarrow> b | None \<Rightarrow> \<lparr>bk_tokens = lim_burst limit, bk_lastRefillMs = now\<rparr>);
              (ok, b) = spend (lim_ratePerSecond limit) (lim_burst limit) now b
          in (ok, budgets(event \<mapsto> b))))"

section \<open>Connections\<close>

record guard_options =
  go_ratePerSecond :: real
  go_burst :: real
  go_idleTtlMs :: int

definition DEFAULT_CONNECTION_GUARD :: guard_options where
  "DEFAULT_CONNECTION_GUARD = \<lparr>go_ratePerSecond = 2, go_burst = 10, go_idleTtlMs = 60000\<rparr>"

type_synonym connection_guard = "(string \<times> bucket) list"

definition tryConsume :: "guard_options \<Rightarrow> string \<Rightarrow> int \<Rightarrow> connection_guard \<Rightarrow> bool \<times> connection_guard" where
  "tryConsume opts address now buckets =
    (let b = (case map_of buckets address of Some b \<Rightarrow> b | None \<Rightarrow> \<lparr>bk_tokens = go_burst opts, bk_lastRefillMs = now\<rparr>);
         (ok, b') = spend (go_ratePerSecond opts) (go_burst opts) now b
     in (ok, AList.update address b' buckets))"

definition idle_full :: "guard_options \<Rightarrow> int \<Rightarrow> bucket \<Rightarrow> bool" where
  "idle_full opts now b \<longleftrightarrow>
    (let idle = now - bk_lastRefillMs b;
         level = bk_tokens b + (real_of_int idle / 1000) * go_ratePerSecond opts
     in go_idleTtlMs opts < idle \<and> go_burst opts \<le> level)"

definition sweep :: "guard_options \<Rightarrow> int \<Rightarrow> connection_guard \<Rightarrow> nat \<times> connection_guard" where
  "sweep opts now buckets =
    (let kept = filter (\<lambda>(_, b). \<not> idle_full opts now b) buckets in (length buckets - length kept, kept))"

datatype header = NoHeader | OneHeader string | Headers "string list"

definition js_space :: "char \<Rightarrow> bool" where
  "js_space c \<longleftrightarrow> (of_char c :: nat) \<in> {9, 10, 11, 12, 13, 32, 160}"

definition js_trim :: "string \<Rightarrow> string" where
  "js_trim s = rev (dropWhile js_space (rev (dropWhile js_space s)))"

definition clientAddress :: "string \<Rightarrow> header \<Rightarrow> bool \<Rightarrow> string" where
  "clientAddress address forwarded trustProxy =
    (if \<not> trustProxy then address
     else (let raw = (case forwarded of NoHeader \<Rightarrow> '''' | OneHeader s \<Rightarrow> s | Headers (s # _) \<Rightarrow> s | Headers [] \<Rightarrow> '''')
           in if raw = '''' then address else js_trim (takeWhile (\<lambda>c. c \<noteq> CHR '','') raw)))"

section \<open>Chat\<close>

definition white :: "16 word \<Rightarrow> bool" where
  "white c \<longleftrightarrow> (let u = unat c in (9 \<le> u \<and> u \<le> 13) \<or> u \<in> {0x20, 0xA0, 0x1680, 0x2028, 0x2029, 0x202F, 0x205F, 0x3000, 0xFEFF} \<or>
     (0x2000 \<le> u \<and> u \<le> 0x200A))"

definition hidden :: "16 word \<Rightarrow> bool" where
  "hidden c \<longleftrightarrow> (let u = unat c in u \<le> 0x1F \<or> (0x7F \<le> u \<and> u \<le> 0x9F) \<or> (0x200B \<le> u \<and> u \<le> 0x200F) \<or>
     (0x202A \<le> u \<and> u \<le> 0x202E) \<or> (0x2066 \<le> u \<and> u \<le> 0x2069) \<or> u = 0xFEFF)"

fun collapse :: "bool \<Rightarrow> js_string \<Rightarrow> js_string" where
  "collapse inRun [] = []"
| "collapse inRun (c # cs) = (if white c then (if inRun then collapse True cs else 0x20 # collapse True cs) else c # collapse False cs)"

definition trim_units :: "js_string \<Rightarrow> js_string" where
  "trim_units s = rev (dropWhile white (rev (dropWhile white s)))"

definition chat_payload_ok :: "js_string \<Rightarrow> bool" where
  "chat_payload_ok body \<longleftrightarrow> 1 \<le> length body \<and> length body \<le> 140"

definition sanitiseChat :: "js_string \<Rightarrow> js_string option" where
  "sanitiseChat body =
    (let cleaned = trim_units (filter (\<lambda>c. \<not> hidden c) (collapse False body))
     in if cleaned = [] then None else Some (take 140 cleaned))"

section \<open>Movement\<close>

record movement_sample =
  ms_place :: point
  ms_tick :: int

datatype verdict = VerdictOk | Teleport | Speed

definition maxTravelPerTick :: "real \<Rightarrow> real \<Rightarrow> real" where
  "maxTravelPerTick baseSpeed boostMultiplier = baseSpeed * boostMultiplier * (105 / 100)"

definition TELEPORT_FACTOR :: real where "TELEPORT_FACTOR = 4"

definition checkMovement :: "movement_sample \<Rightarrow> movement_sample \<Rightarrow> real \<Rightarrow> verdict \<times> real \<times> real" where
  "checkMovement previous current maxPerTick =
    (let ticks = ms_tick current - ms_tick previous;
         dist = distance_of (ms_place current) (ms_place previous)
     in if ticks \<le> 0 then (VerdictOk, dist, 0)
        else (let allowed = maxPerTick * real_of_int ticks
              in if allowed * TELEPORT_FACTOR < dist then (Teleport, dist, allowed)
                 else if allowed < dist then (Speed, dist, allowed)
                 else (VerdictOk, dist, allowed)))"

definition isKillPlausible :: "point \<times> real \<Rightarrow> point \<times> real \<Rightarrow> real \<Rightarrow> bool" where
  "isKillPlausible killer victim margin \<longleftrightarrow>
    (let contactRange = radiusForMass (snd killer) + radiusForMass (snd victim) + maxTravelPerTick 1 1 * margin
     in distance_of (fst killer) (fst victim) \<le> contactRange)"

record movement_guard =
  mv_last :: "movement_sample option"
  mv_violations :: nat
  mv_maxPerTick :: real

definition observe :: "movement_sample \<Rightarrow> movement_guard \<Rightarrow> verdict \<times> movement_guard" where
  "observe sample g =
    (case mv_last g of
       None \<Rightarrow> (VerdictOk, g\<lparr>mv_last := Some sample\<rparr>)
     | Some previous \<Rightarrow>
         (let v = fst (checkMovement previous sample (mv_maxPerTick g))
          in (v, g\<lparr>mv_last := Some sample, mv_violations := mv_violations g + (if v \<noteq> VerdictOk then 1 else 0)\<rparr>)))"

definition reset_guard :: "movement_guard \<Rightarrow> movement_guard" where
  "reset_guard g = g\<lparr>mv_last := None\<rparr>"

end
