(* ===== verification/Simulation_Contacts.thy ===== *)
theory Simulation_Contacts
  imports Simulation_Properties
begin

text \<open>
  The grid against a search through everything. Eating is, for any world and any cell size, what comparing each
  snake with each pellet gives. Dying is what comparing each head with each body point gives as long as no snake
  is wider than the margin the query adds; beyond it the grid can miss a contact.
\<close>

section \<open>The index after a rebuild\<close>

lemma indexes_inserts:
  "indexes h es \<Longrightarrow> distinct (map fst (es @ fs)) \<Longrightarrow> indexes (fold (\<lambda>(e, p). insert_entity e p) fs h) (es @ fs)"
proof (induction fs arbitrary: h es)
  case (Cons f fs)
  obtain e p where f: "f = (e, p)" by (metis prod.exhaust)
  have "indexes (insert_entity e p h) (es @ [(e, p)])"
    using Cons.prems by (intro indexes_insert) (auto simp: f)
  from Cons.IH [OF this] Cons.prems(2) show ?case by (simp add: f)
qed simp

lemma indexes_fresh: "0 < sc_cellSize cfg \<Longrightarrow> indexes (fresh_hash cfg) []"
  by (simp add: indexes_def fresh_hash_def bucket_of_def)

definition food_places :: "food_entity list \<Rightarrow> (nat \<times> point) list" where
  "food_places foods = map (\<lambda>f. (fe_id f, fe_pos f)) foods"

lemma fst_food_places [simp]: "map fst (food_places foods) = map fe_id foods"
  by (simp add: food_places_def comp_def)

lemma indexes_rebuildFoodHash:
  assumes "0 < sc_cellSize cfg" and "distinct (map fe_id (ws_food w))"
  shows "indexes (rebuildFoodHash cfg w) (food_places (ws_food w))"
proof -
  have "rebuildFoodHash cfg w = fold (\<lambda>(e, p). insert_entity e p) (food_places (ws_food w)) (fresh_hash cfg)"
    by (simp add: rebuildFoodHash_def food_places_def fold_map comp_def)
  with indexes_inserts [OF indexes_fresh [OF assms(1)], of "food_places (ws_food w)"] assms(2) show ?thesis by simp
qed

lemma distance_of_square:
  assumes "distance_of q p \<le> r"
  shows "\<bar>fst q - fst p\<bar> \<le> r" "\<bar>snd q - snd p\<bar> \<le> r"
proof -
  let ?x = "fst q - fst p" and ?y = "snd q - snd p"
  have "\<bar>?x\<bar> \<le> sqrt (?x\<^sup>2 + ?y\<^sup>2)" "\<bar>?y\<bar> \<le> sqrt (?x\<^sup>2 + ?y\<^sup>2)"
    by (rule real_le_rsqrt, simp)+
  with assms show "\<bar>?x\<bar> \<le> r" "\<bar>?y\<bar> \<le> r" unfolding distance_of_def hypot_def by linarith+
qed

section \<open>Eating\<close>

text \<open>Each snake in turn takes every pellet within its reach at the start of its turn.\<close>

definition in_reach :: "snake_entity \<Rightarrow> food_entity \<Rightarrow> bool" where
  "in_reach s f \<longleftrightarrow> distance_of (fe_pos f) (headOf s) \<le> se_radius s + 14"

definition eat_ref :: "snake_entity \<Rightarrow> food_entity list \<Rightarrow> snake_entity \<times> food_entity list" where
  "eat_ref s foods =
    (if se_alive s
     then (setMass (se_mass s + sum_list (map fe_mass (filter (in_reach s) foods))) s, filter (\<lambda>f. \<not> in_reach s f) foods)
     else (s, foods))"

fun eatAll_ref :: "snake_entity list \<Rightarrow> food_entity list \<Rightarrow> snake_entity list \<times> food_entity list" where
  "eatAll_ref [] foods = ([], foods)"
| "eatAll_ref (s # ss) foods =
    (case eat_ref s foods of (t, foods') \<Rightarrow> (case eatAll_ref ss foods' of (ts, foods'') \<Rightarrow> (t # ts, foods'')))"

definition consume_ref :: "world_state \<Rightarrow> nat \<times> world_state" where
  "consume_ref w = (case eatAll_ref (ws_snakes w) (ws_food w) of
     (ss, foods) \<Rightarrow> (length (ws_food w) - length foods, w\<lparr>ws_snakes := ss, ws_food := foods\<rparr>))"

lemma setMass_grow:
  assumes "snake_wf s" and "se_mass s \<le> m"
  shows "setMass m s = s\<lparr>se_mass := m, se_radius := radiusForMass m, se_score := scoreForMass m\<rparr>"
proof -
  have "1 \<le> m" "lengthForMass m \<le> SPINE_CAPACITY" "se_spineLength s \<le> lengthForMass m"
    using assms lengthForMass_mono [OF assms(2)] lengthForMass_bounds(2) [of m] by (simp_all add: snake_wf_def SPINE_CAPACITY_def)
  with assms show ?thesis by (simp add: setMass_def Let_def snake_wf_def max_def)
qed

lemma setMass_same: "snake_wf s \<Longrightarrow> setMass (se_mass s) s = s"
  by (subst setMass_grow) (auto simp: snake_wf_def)

lemma setMass_setMass:
  assumes "snake_wf s" and "se_mass s \<le> m" and "m \<le> n"
  shows "setMass n (setMass m s) = setMass n s"
proof -
  have wf: "snake_wf (setMass m s)" using assms(1) snake_wf_setMass [of s m] by (simp add: same_snake_def)
  have "setMass n (setMass m s) = (setMass m s)\<lparr>se_mass := n, se_radius := radiusForMass n, se_score := scoreForMass n\<rparr>"
    using assms by (intro setMass_grow [OF wf]) (simp add: setMass_grow)
  with assms show ?thesis by (simp add: setMass_grow)
qed

lemma sum_remove_key:
  fixes g :: "'a \<Rightarrow> 'b :: comm_monoid_add"
  assumes "distinct (map key xs)" and "x \<in> set xs" and "P x"
  shows "sum_list (map g (filter P xs)) = g x + sum_list (map g (filter P (filter (\<lambda>y. key y \<noteq> key x) xs)))"
  using assms
proof (induction xs)
  case (Cons y ys)
  show ?case
  proof (cases "x = y")
    case True
    with Cons.prems have "filter (\<lambda>y. key y \<noteq> key x) ys = ys" by (auto simp: filter_id_conv image_iff)
    with True Cons.prems show ?thesis by simp
  next
    case False
    with Cons.prems have "key y \<noteq> key x" "x \<in> set ys" by (auto simp: image_iff)
    with Cons show ?thesis by (auto simp: add.left_commute)
  qed
qed simp

lemma length_remove_key:
  assumes "distinct (map key xs)" and "x \<in> set xs"
  shows "length xs = Suc (length (filter (\<lambda>y. key y \<noteq> key x) xs))"
  using sum_remove_key [OF assms, of "\<lambda>_. True" "\<lambda>_. 1 :: nat"] by (simp add: sum_list_triv)

text \<open>The pellets among the candidates that are close enough.\<close>

definition taken :: "point \<Rightarrow> real \<Rightarrow> nat list \<Rightarrow> food_entity \<Rightarrow> bool" where
  "taken head reach ks f \<longleftrightarrow> fe_id f \<in> set ks \<and> distance_of (fe_pos f) head \<le> reach"

lemma taken_Cons: "taken head reach (k # ks) f \<longleftrightarrow> (fe_id f = k \<and> distance_of (fe_pos f) head \<le> reach) \<or> taken head reach ks f"
  by (auto simp: taken_def)

definition eaten_up :: "point \<Rightarrow> real \<Rightarrow> nat list \<Rightarrow> snake_entity \<Rightarrow> food_entity list \<Rightarrow> spatial_hash \<Rightarrow> nat \<Rightarrow> eating \<Rightarrow> bool" where
  "eaten_up head reach ks s foods h n st \<longleftrightarrow>
    (\<exists>h'. st = (setMass (se_mass s + sum_list (map fe_mass (filter (taken head reach ks) foods))) s,
        filter (\<lambda>f. \<not> taken head reach ks f) foods, h',
        n + (length foods - length (filter (\<lambda>f. \<not> taken head reach ks f) foods))) \<and>
      indexes h' (food_places (filter (\<lambda>f. \<not> taken head reach ks f) foods)))"

lemma eaten_up_step:
  assumes f: "f \<in> set foods" "fe_id f = k" "distance_of (fe_pos f) head \<le> reach"
    and d: "distinct (map fe_id foods)" and wf: "snake_wf s" and nonneg: "\<forall>f \<in> set foods. 0 \<le> fe_mass f"
    and e: "eaten_up head reach ks (setMass (se_mass s + fe_mass f) s) (filter (\<lambda>x. fe_id x \<noteq> k) foods) h (n + 1) st"
  shows "eaten_up head reach (k # ks) s foods h' n st"
proof -
  let ?fs = "filter (\<lambda>x. fe_id x \<noteq> k) foods" and ?s = "setMass (se_mass s + fe_mass f) s"
  let ?sum = "sum_list (map fe_mass (filter (taken head reach ks) ?fs))"
  have pos: "0 \<le> fe_mass f" using nonneg f(1) by simp
  have mass: "se_mass ?s = se_mass s + fe_mass f" using wf pos by (subst setMass_grow) simp_all
  have "filter (taken head reach (k # ks)) ?fs = filter (taken head reach ks) ?fs"
    by (rule filter_cong [OF refl]) (auto simp: taken_Cons)
  moreover have "sum_list (map fe_mass (filter (taken head reach (k # ks)) foods)) = fe_mass f + sum_list (map fe_mass (filter (taken head reach (k # ks)) ?fs))"
    using sum_remove_key [OF d f(1), of "taken head reach (k # ks)" fe_mass] f(2,3) by (simp add: taken_Cons)
  ultimately have sum: "sum_list (map fe_mass (filter (taken head reach (k # ks)) foods)) = fe_mass f + ?sum" by simp
  have only: "x = f" if "x \<in> set foods" "fe_id x = k" for x using distinct_key_eq [OF d that(1) f(1)] that f(2) by simp
  have rest: "filter (\<lambda>x. \<not> taken head reach (k # ks) x) foods = filter (\<lambda>x. \<not> taken head reach ks x) ?fs"
    unfolding filter_filter by (rule filter_cong [OF refl]) (use only f(3) in \<open>auto simp: taken_Cons\<close>)
  have len: "length foods = Suc (length ?fs)" using length_remove_key [OF d f(1)] f(2) by simp
  have "0 \<le> ?sum" using nonneg by (intro sum_list_nonneg) auto
  then have set: "setMass (se_mass ?s + ?sum) ?s = setMass (se_mass s + sum_list (map fe_mass (filter (taken head reach (k # ks)) foods))) s"
    unfolding mass sum using setMass_setMass [OF wf, of "se_mass s + fe_mass f"] pos by (simp add: add.assoc)
  have "length (filter (\<lambda>x. \<not> taken head reach ks x) ?fs) \<le> length ?fs" by (rule length_filter_le)
  then have count: "n + 1 + (length ?fs - length (filter (\<lambda>x. \<not> taken head reach ks x) ?fs)) =
      n + (length foods - length (filter (\<lambda>x. \<not> taken head reach (k # ks) x) foods))"
    unfolding rest len by linarith
  show ?thesis using e unfolding eaten_up_def set count rest .
qed

lemma eatCandidates_eq:
  assumes "indexes h (food_places foods)" and "snake_wf s" and "\<forall>f \<in> set foods. 0 \<le> fe_mass f"
    and "distinct (map fe_id foods)"
  shows "eaten_up head reach ks s foods h n (eatCandidates head reach ks (s, foods, h, n))"
  using assms
proof (induction ks arbitrary: s foods h n)
  case Nil
  then show ?case by (simp add: setMass_same eaten_up_def taken_def)
next
  case (Cons k ks)
  show ?case
  proof (cases "\<exists>f \<in> set foods. fe_id f = k \<and> distance_of (fe_pos f) head \<le> reach")
    case False
    have "eatCandidates head reach (k # ks) (s, foods, h, n) = eatCandidates head reach ks (s, foods, h, n)"
      using False by (auto split: option.split dest: find_SomeD)
    moreover have "filter (taken head reach (k # ks)) foods = filter (taken head reach ks) foods"
      "filter (\<lambda>f. \<not> taken head reach (k # ks) f) foods = filter (\<lambda>f. \<not> taken head reach ks f) foods"
      using False by (auto intro!: filter_cong simp: taken_Cons)
    ultimately show ?thesis using Cons.IH [OF Cons.prems, of n] by (simp add: eaten_up_def)
  next
    case True
    then obtain f where f: "f \<in> set foods" "fe_id f = k" "distance_of (fe_pos f) head \<le> reach" by blast
    let ?fs = "filter (\<lambda>x. fe_id x \<noteq> k) foods" and ?s = "setMass (se_mass s + fe_mass f) s"
    have step: "eatCandidates head reach (k # ks) (s, foods, h, n) = eatCandidates head reach ks (?s, ?fs, remove_entity k (fe_pos f) h, n + 1)"
      using find_key [OF Cons.prems(4) f(1,2)] f(3) by simp
    have wf: "snake_wf ?s" using Cons.prems(2) snake_wf_setMass [of s] by (simp add: same_snake_def)
    have "filter (\<lambda>x. fst x \<noteq> k) (food_places foods) = food_places ?fs"
      by (simp add: food_places_def filter_map comp_def)
    moreover have "(k, fe_pos f) \<in> set (food_places foods)" using f by (auto simp: food_places_def)
    ultimately have idx: "indexes (remove_entity k (fe_pos f) h) (food_places ?fs)"
      using indexes_remove [OF Cons.prems(1)] by metis
    have nonneg: "\<forall>f \<in> set ?fs. 0 \<le> fe_mass f" using Cons.prems(3) by simp
    show ?thesis
      unfolding step
      by (rule eaten_up_step [OF f Cons.prems(4) Cons.prems(2,3) Cons.IH [OF idx wf nonneg distinct_map_filter [OF Cons.prems(4)]]])
  qed
qed

text \<open>The candidates of a query miss no pellet in reach, so the grid can be left out.\<close>

lemma eatSnake_eq:
  assumes i: "indexes h (food_places foods)" and s: "snake_wf s" and m: "\<forall>f \<in> set foods. 0 \<le> fe_mass f"
    and d: "distinct (map fe_id foods)"
  shows "\<exists>h'. eatSnake s (foods, h, n) =
      (fst (eat_ref s foods), snd (eat_ref s foods), h', n + (length foods - length (snd (eat_ref s foods)))) \<and>
    indexes h' (food_places (snd (eat_ref s foods)))"
proof (cases "se_alive s")
  case True
  let ?ks = "queryCircle (headOf s) (se_radius s + 14) h"
  have t: "taken (headOf s) (se_radius s + 14) ?ks f \<longleftrightarrow> in_reach s f" if "f \<in> set foods" for f
  proof -
    have "fe_id f \<in> set ?ks" if "distance_of (fe_pos f) (headOf s) \<le> se_radius s + 14"
      using queryCircle_complete [OF i, of "fe_id f" "fe_pos f"] distance_of_square [OF that] \<open>f \<in> set foods\<close>
      by (auto simp: food_places_def)
    then show ?thesis by (auto simp: taken_def in_reach_def)
  qed
  then have "filter (taken (headOf s) (se_radius s + 14) ?ks) foods = filter (in_reach s) foods"
    "filter (\<lambda>f. \<not> taken (headOf s) (se_radius s + 14) ?ks f) foods = filter (\<lambda>f. \<not> in_reach s f) foods"
    by (auto intro!: filter_cong)
  with eatCandidates_eq [OF i s m d, of "headOf s" "se_radius s + 14" ?ks n] True show ?thesis
    by (simp add: eaten_up_def eatSnake_def eat_ref_def Let_def)
qed (use i in \<open>simp add: eatSnake_def eat_ref_def\<close>)

lemma eat_ref_keeps: "set (snd (eat_ref s foods)) \<subseteq> set foods" "distinct (map fe_id foods) \<Longrightarrow> distinct (map fe_id (snd (eat_ref s foods)))"
  "length (snd (eat_ref s foods)) \<le> length foods"
  by (auto simp: eat_ref_def intro: distinct_map_filter)

lemma eatAll_eq:
  "indexes h (food_places foods) \<Longrightarrow> \<forall>s \<in> set ss. snake_wf s \<Longrightarrow> \<forall>f \<in> set foods. 0 \<le> fe_mass f \<Longrightarrow>
    distinct (map fe_id foods) \<Longrightarrow>
    \<exists>h'. eatAll ss (foods, h, n) =
      (fst (eatAll_ref ss foods), snd (eatAll_ref ss foods), h', n + (length foods - length (snd (eatAll_ref ss foods)))) \<and>
      length (snd (eatAll_ref ss foods)) \<le> length foods"
proof (induction ss arbitrary: foods h n)
  case (Cons s ss)
  obtain t rest where t: "eat_ref s foods = (t, rest)" by fastforce
  obtain h1 where e: "eatSnake s (foods, h, n) = (t, rest, h1, n + (length foods - length rest))" "indexes h1 (food_places rest)"
    using eatSnake_eq [OF Cons.prems(1) _ Cons.prems(3,4), of s n] Cons.prems(2) t by auto
  note k = eat_ref_keeps [where s = s and foods = foods]
  have r: "\<forall>s \<in> set ss. snake_wf s" "\<forall>f \<in> set rest. 0 \<le> fe_mass f" "distinct (map fe_id rest)"
    using Cons.prems k t by auto
  obtain h2 where a: "eatAll ss (rest, h1, n + (length foods - length rest)) =
      (fst (eatAll_ref ss rest), snd (eatAll_ref ss rest), h2, n + (length foods - length rest) + (length rest - length (snd (eatAll_ref ss rest))))"
    "length (snd (eatAll_ref ss rest)) \<le> length rest"
    using Cons.IH [OF e(2) r, of "n + (length foods - length rest)"] by blast
  from e(1) a k(3) t show ?case by (simp add: case_prod_beta)
qed simp

lemma consumeFood_ref:
  assumes "0 < sc_cellSize cfg" and "world_wf w"
  shows "consumeFood cfg w = consume_ref w"
proof -
  obtain h' where "eatAll (ws_snakes w) (ws_food w, rebuildFoodHash cfg w, 0) =
      (fst (eatAll_ref (ws_snakes w) (ws_food w)), snd (eatAll_ref (ws_snakes w) (ws_food w)), h',
       0 + (length (ws_food w) - length (snd (eatAll_ref (ws_snakes w) (ws_food w)))))"
    using eatAll_eq [OF indexes_rebuildFoodHash [OF assms(1)], of w "ws_snakes w" 0] assms(2) by (auto simp: world_wf_def)
  then show ?thesis by (simp add: consumeFood_def consume_ref_def case_prod_beta)
qed


section \<open>Colliding\<close>

text \<open>A snake dies when its head is past the edge, or touches a body point of another living snake past its neck.\<close>

definition body_contact :: "snake_entity \<Rightarrow> snake_entity \<Rightarrow> bool" where
  "body_contact s t \<longleftrightarrow> se_id t \<noteq> se_id s \<and> se_alive t \<and>
    (\<exists>offset \<in> set [4..<se_spineLength t]. distance_of (pointAt t (int offset)) (headOf s) \<le> se_radius s + se_radius t)"

definition out_of_world :: "world_state \<Rightarrow> snake_entity \<Rightarrow> bool" where
  "out_of_world w s \<longleftrightarrow> ws_radius w \<le> hypot (fst (headOf s)) (snd (headOf s))"

definition collide_ref :: "nat \<Rightarrow> world_state \<times> nat list \<Rightarrow> world_state \<times> nat list" where
  "collide_ref i st =
    (case st of (w, victims) \<Rightarrow>
      (case snakeById i w of
         None \<Rightarrow> (w, victims)
       | Some s \<Rightarrow>
           if se_alive s \<and> (out_of_world w s \<or> (\<exists>t \<in> set (ws_snakes w). body_contact s t))
           then (setSnake (s\<lparr>se_alive := False\<rparr>) w, victims @ [i])
           else (w, victims)))"

definition victims_ref :: "world_state \<Rightarrow> nat list" where
  "victims_ref w = snd (fold collide_ref (map se_id (ws_snakes w)) (w, []))"

subsection \<open>What the index of bodies holds\<close>

definition body_places :: "(nat \<times> nat \<times> point) list \<Rightarrow> (nat \<times> point) list" where
  "body_places entries = map (\<lambda>(key, _, _, p). (key, p)) (enumerate 1 entries)"

lemma indexes_rebuildBodyHash:
  assumes "0 < sc_cellSize cfg"
  shows "indexes (rebuildBodyHash cfg w) (body_places (bodyEntries w))"
proof -
  have "rebuildBodyHash cfg w = fold (\<lambda>(e, p). insert_entity e p) (body_places (bodyEntries w)) (fresh_hash cfg)"
    unfolding rebuildBodyHash_def body_places_def fold_map by (rule fold_cong) auto
  moreover have "map fst (body_places es) = map fst (enumerate 1 es)" for es
    by (simp add: body_places_def comp_def case_prod_beta)
  then have "distinct (map fst (body_places (bodyEntries w)))" by (simp only: map_fst_enumerate distinct_upt)
  ultimately show ?thesis using indexes_inserts [OF indexes_fresh [OF assms], of "body_places (bodyEntries w)"] by simp
qed

lemma body_place:
  assumes "j < length entries" and "entries ! j = (i, offset, p)"
  shows "(Suc j, p) \<in> set (body_places entries)"
proof -
  have "(Suc j, i, offset, p) \<in> set (enumerate 1 entries)"
    using assms by (auto simp: in_set_enumerate_eq)
  then show ?thesis by (force simp: body_places_def)
qed

lemma bodyEntries_iff:
  "(i, offset, p) \<in> set (bodyEntries w) \<longleftrightarrow>
    (\<exists>s \<in> set (ws_snakes w). se_alive s \<and> se_id s = i \<and> offset \<in> set [4..<se_spineLength s] \<and> p = pointAt s (int offset))"
  by (auto simp: bodyEntries_def)

lemma hit_alike_pointAt: "hit_alike s t \<Longrightarrow> pointAt t k = pointAt s k"
  by (auto simp: hit_alike_def pointAt_def spine_at_def Let_def)

lemma touch_iff:
  assumes c: "0 < sc_cellSize cfg" and w: "world_wf w" and v: "swept w v"
    and s: "s \<in> set (ws_snakes v)" and thin: "\<forall>t \<in> set (ws_snakes w). se_radius t \<le> 40"
  shows "first_touch (touching (bodyEntries w) v s) (queryCircle (headOf s) (se_radius s + 40) (rebuildBodyHash cfg w)) \<noteq> None \<longleftrightarrow>
    (\<exists>t \<in> set (ws_snakes v). body_contact s t)"
    (is "first_touch ?f ?ks \<noteq> None \<longleftrightarrow> _")
proof
  assume "first_touch ?f ?ks \<noteq> None"
  then obtain k t where "?f k = Some t" using first_touchD by blast
  then obtain offset p where t: "(se_id t, offset, p) \<in> set (bodyEntries w)" "se_id t \<noteq> se_id s" "snakeById (se_id t) v = Some t"
    "se_alive t" "distance_of (pointAt t (int offset)) (headOf s) \<le> se_radius s + se_radius t"
    by (rule touchingD)
  have m: "t \<in> set (ws_snakes v)" using snakeById_wf [OF swept_wf [OF w v] t(3)] by simp
  obtain t0 where t0: "t0 \<in> set (ws_snakes w)" "hit_alike t0 t" using v list_all2_mem(1) [OF _ m] unfolding swept_def by blast
  obtain t1 where t1: "t1 \<in> set (ws_snakes w)" "se_id t1 = se_id t" "offset \<in> set [4..<se_spineLength t1]"
    using t(1) unfolding bodyEntries_iff by blast
  have "t1 = t0"
    using w t0 t1 distinct_key_eq [of se_id "ws_snakes w" t1 t0] by (auto simp: world_wf_def hit_alike_def)
  then have "offset \<in> set [4..<se_spineLength t]" using t0(2) t1(3) by (auto simp: hit_alike_def)
  with t m show "\<exists>t \<in> set (ws_snakes v). body_contact s t" unfolding body_contact_def by blast
next
  assume "\<exists>t \<in> set (ws_snakes v). body_contact s t"
  then obtain t offset where t: "t \<in> set (ws_snakes v)" "se_id t \<noteq> se_id s" "se_alive t" "offset \<in> set [4..<se_spineLength t]"
    "distance_of (pointAt t (int offset)) (headOf s) \<le> se_radius s + se_radius t"
    unfolding body_contact_def by blast
  obtain t0 where t0: "t0 \<in> set (ws_snakes w)" "hit_alike t0 t" using v list_all2_mem(1) [OF _ t(1)] unfolding swept_def by blast
  have "(se_id t, offset, pointAt t (int offset)) \<in> set (bodyEntries w)"
    unfolding bodyEntries_iff using t0 t(3,4) by (intro bexI [of _ t0]) (auto simp: hit_alike_pointAt, auto simp: hit_alike_def)
  then obtain j where j: "j < length (bodyEntries w)" "bodyEntries w ! j = (se_id t, offset, pointAt t (int offset))"
    by (auto simp: in_set_conv_nth)
  have "se_radius t \<le> 40" using t0 thin by (auto simp: hit_alike_def)
  with t(5) have "distance_of (pointAt t (int offset)) (headOf s) \<le> se_radius s + 40" by simp
  from queryCircle_complete [OF indexes_rebuildBodyHash [OF c] body_place [OF j]] distance_of_square [OF this]
  have "Suc j \<in> set ?ks" by blast
  moreover have "?f (Suc j) = Some t"
    using j t snakeById_Some [OF swept_wf [OF w v] t(1)] by (simp add: touching_def)
  moreover have "first_touch f ks \<noteq> None" if "k \<in> set ks" "f k = Some t" for f ks and k :: nat
    using that by (induction ks) (auto split: option.split)
  ultimately show "first_touch ?f ?ks \<noteq> None" by blast
qed


subsection \<open>The sweep\<close>

definition no_kills :: "snake_entity \<Rightarrow> snake_entity" where
  "no_kills s = s\<lparr>se_kills := 0\<rparr>"

text \<open>The two sweeps agree on everything but who is credited with a kill.\<close>

definition sweeps_agree :: "world_state \<times> death_event list \<Rightarrow> world_state \<times> nat list \<Rightarrow> bool" where
  "sweeps_agree st rt \<longleftrightarrow> ws_snakes (fst rt) = map no_kills (ws_snakes (fst st)) \<and> ws_radius (fst rt) = ws_radius (fst st) \<and>
     snd rt = map de_victim (snd st)"

lemma no_kills_simps [simp]:
  "se_id (no_kills s) = se_id s" "se_alive (no_kills s) = se_alive s" "headOf (no_kills s) = headOf s"
  "se_radius (no_kills s) = se_radius s" "se_spineLength (no_kills s) = se_spineLength s" "pointAt (no_kills s) k = pointAt s k"
  "no_kills (no_kills s) = no_kills s" "(no_kills s)\<lparr>se_alive := a\<rparr> = no_kills (s\<lparr>se_alive := a\<rparr>)" "no_kills (s\<lparr>se_kills := k\<rparr>) = no_kills s"
  by (simp_all add: no_kills_def headOf_def pointAt_def spine_at_def Let_def)

lemma body_contact_no_kills [simp]: "body_contact (no_kills s) (no_kills t) \<longleftrightarrow> body_contact s t"
  by (simp add: body_contact_def)

lemma find_map_key: "(\<And>x. key (f x) = key x) \<Longrightarrow> find (\<lambda>x. key x = k) (map f xs) = map_option f (find (\<lambda>x. key x = k) xs)"
  by (induction xs) auto

lemma setSnake_no_kills: "map no_kills (ws_snakes (setSnake s w)) = ws_snakes (setSnake (no_kills s) (v\<lparr>ws_snakes := map no_kills (ws_snakes w)\<rparr>))"
  by (simp add: setSnake_def upd_rows_def)

text \<open>Crediting a kill changes nothing else.\<close>

lemma setSnake_credit:
  assumes "world_wf w" and "t \<in> set (ws_snakes w)"
  shows "map no_kills (ws_snakes (setSnake (t\<lparr>se_kills := k\<rparr>) w)) = map no_kills (ws_snakes w)"
proof -
  have "x = t" if "x \<in> set (ws_snakes w)" "se_id x = se_id t" for x
    using distinct_key_eq [of se_id "ws_snakes w" x t] assms that by (simp add: world_wf_def)
  then show ?thesis by (auto simp: setSnake_def upd_rows_def)
qed

lemma collide_agrees:
  assumes c: "0 < sc_cellSize cfg" and w: "world_wf w" and v: "swept w (fst st)"
    and thin: "\<forall>t \<in> set (ws_snakes w). se_radius t \<le> 40" and a: "sweeps_agree st rt"
  shows "sweeps_agree (collideSnake (rebuildBodyHash cfg w) (bodyEntries w) i st) (collide_ref i rt)"
proof -
  obtain x ds where st: "st = (x, ds)" by fastforce
  obtain y us where rt: "rt = (y, us)" by fastforce
  have y: "ws_snakes y = map no_kills (ws_snakes x)" "ws_radius y = ws_radius x" "us = map de_victim ds"
    using a by (simp_all add: sweeps_agree_def st rt)
  have wf: "world_wf x" using swept_wf [OF w v] by (simp add: st)
  have find: "snakeById i y = map_option no_kills (snakeById i x)" by (simp add: snakeById_def y(1) find_map_key)
  show ?thesis
  proof (cases "snakeById i x")
    case None
    with find a show ?thesis by (simp add: st rt collideSnake_def collide_ref_def)
  next
    case (Some s)
    note s = snakeById_wf [OF wf Some]
    let ?d = "setSnake (s\<lparr>se_alive := False\<rparr>) x"
    have dead: "ws_snakes (setSnake (no_kills (s\<lparr>se_alive := False\<rparr>)) y) = map no_kills (ws_snakes ?d)"
      "ws_radius (setSnake (no_kills (s\<lparr>se_alive := False\<rparr>)) y) = ws_radius ?d"
      using y by (simp_all add: setSnake_def upd_rows_def)
    have ref: "(\<exists>t \<in> set (ws_snakes y). body_contact (no_kills s) t) \<longleftrightarrow> (\<exists>t \<in> set (ws_snakes x). body_contact s t)"
      by (simp add: y(1))
    have out: "out_of_world y (no_kills s) \<longleftrightarrow> out_of_world x s" by (simp add: out_of_world_def y(2))
    let ?t = "first_touch (touching (bodyEntries w) x s) (queryCircle (headOf s) (se_radius s + 40) (rebuildBodyHash cfg w))"
    have touch: "(\<exists>t \<in> set (ws_snakes x). body_contact s t) \<longleftrightarrow> ?t \<noteq> None"
      using touch_iff [OF c w v _ thin, of s] s by (simp add: st)
    show ?thesis
    proof (cases "se_alive s \<and> \<not> out_of_world x s \<and> ?t \<noteq> None")
      case True
      then obtain t where t: "?t = Some t" by auto
      then obtain k where "touching (bodyEntries w) x s k = Some t" using first_touchD by blast
      then have u: "se_id t \<noteq> se_id s" "snakeById (se_id t) x = Some t" by (auto elim: touchingD)
      have wd: "world_wf ?d" using s by (intro swept_wf [OF wf setSnake_swept [OF wf, of s]] hit_alike_dies) simp
      have "t \<in> set (ws_snakes ?d)" using snakeById_wf [OF wf u(2)] u(1) by (auto simp: setSnake_def set_upd_rows)
      note credit = setSnake_credit [OF wd this, of "se_kills t + 1"]
      have real: "collideSnake (rebuildBodyHash cfg w) (bodyEntries w) i st = (setSnake (t\<lparr>se_kills := se_kills t + 1\<rparr>) ?d, ds @ [collisionDeath s t])"
        using True t Some by (simp add: st collideSnake_def Let_def out_of_world_def)
      have spec: "collide_ref i rt = (setSnake (no_kills (s\<lparr>se_alive := False\<rparr>)) y, us @ [i])"
        using True Some find ref touch by (simp add: rt collide_ref_def)
      show ?thesis
        unfolding real spec sweeps_agree_def using dead credit y(3) s by (simp add: collisionDeath_def) (simp add: setSnake_def)
    next
      case False
      then show ?thesis
        using a Some find ref touch out dead s y
        by (auto simp: st rt sweeps_agree_def collideSnake_def collide_ref_def Let_def out_of_world_def wallDeath_def)
    qed
  qed
qed

lemma collide_all_agree:
  assumes c: "0 < sc_cellSize cfg" and w: "world_wf w" and thin: "\<forall>t \<in> set (ws_snakes w). se_radius t \<le> 40"
  shows "swept w (fst st) \<Longrightarrow> sweeps_agree st rt \<Longrightarrow>
    sweeps_agree (fold (collideSnake (rebuildBodyHash cfg w) (bodyEntries w)) ks st) (fold collide_ref ks rt)"
proof (induction ks arbitrary: st rt)
  case (Cons k ks)
  let ?st = "collideSnake (rebuildBodyHash cfg w) (bodyEntries w) k st"
  have "swept (fst st) (fst ?st)"
    using collideSnake_swept [OF swept_wf [OF w Cons.prems(1)], of "rebuildBodyHash cfg w" "bodyEntries w" k "snd st" "fst ?st" "snd ?st"] by simp
  from Cons.IH [OF swept_trans [OF Cons.prems(1) this] collide_agrees [OF c w Cons.prems(1) thin Cons.prems(2)]]
  show ?case by simp
qed simp

text \<open>The reference ignores kills, so it may start from the world itself.\<close>

lemma collide_ref_no_kills:
  "sweeps_agree (w, []) (w\<lparr>ws_snakes := map no_kills (ws_snakes w)\<rparr>, [])"
  by (simp add: sweeps_agree_def)

lemma collide_ref_agrees:
  assumes "map no_kills (ws_snakes (fst st)) = map no_kills (ws_snakes (fst rt))" and "ws_radius (fst st) = ws_radius (fst rt)"
    and "snd st = snd rt"
  shows "map no_kills (ws_snakes (fst (collide_ref i st))) = map no_kills (ws_snakes (fst (collide_ref i rt))) \<and>
    ws_radius (fst (collide_ref i st)) = ws_radius (fst (collide_ref i rt)) \<and> snd (collide_ref i st) = snd (collide_ref i rt)"
proof -
  obtain x us where st: "st = (x, us)" by fastforce
  obtain y vs where rt: "rt = (y, vs)" by fastforce
  have e: "map no_kills (ws_snakes x) = map no_kills (ws_snakes y)" "ws_radius x = ws_radius y" "us = vs"
    using assms by (simp_all add: st rt)
  have f: "map_option no_kills (snakeById i x) = map_option no_kills (snakeById i y)"
    using e(1) by (metis find_map_key no_kills_simps(1) snakeById_def)
  have contact: "(\<exists>t \<in> set (ws_snakes z). body_contact s t) \<longleftrightarrow> (\<exists>t \<in> set (map no_kills (ws_snakes z)). body_contact (no_kills s) t)" for z s
    by simp
  show ?thesis
  proof (cases "snakeById i x")
    case None
    with f e show ?thesis by (simp add: st rt collide_ref_def)
  next
    case (Some s)
    with f obtain s' where s': "snakeById i y = Some s'" "no_kills s' = no_kills s" by (cases "snakeById i y") auto
    have "se_alive s' = se_alive s" "headOf s' = headOf s" using s'(2) by (metis no_kills_simps)+
    moreover from this have "out_of_world y s' \<longleftrightarrow> out_of_world x s" using e(2) by (simp add: out_of_world_def)
    moreover have "(\<exists>t \<in> set (ws_snakes y). body_contact s' t) \<longleftrightarrow> (\<exists>t \<in> set (ws_snakes x). body_contact s t)"
      unfolding contact using e(1) s'(2) by simp
    moreover have "map no_kills (ws_snakes (setSnake (s'\<lparr>se_alive := False\<rparr>) y)) = map no_kills (ws_snakes (setSnake (s\<lparr>se_alive := False\<rparr>) x))"
      using setSnake_no_kills [of "s'\<lparr>se_alive := False\<rparr>" y w] setSnake_no_kills [of "s\<lparr>se_alive := False\<rparr>" x w] e(1) s'(2)
      by (metis no_kills_simps(8))
    ultimately show ?thesis
      using Some s' e by (simp add: st rt collide_ref_def setSnake_def)
  qed
qed

lemma collide_ref_fold:
  "map no_kills (ws_snakes (fst st)) = map no_kills (ws_snakes (fst rt)) \<Longrightarrow> ws_radius (fst st) = ws_radius (fst rt) \<Longrightarrow> snd st = snd rt \<Longrightarrow>
    snd (fold collide_ref ks st) = snd (fold collide_ref ks rt)"
proof (induction ks arbitrary: st rt)
  case (Cons k ks)
  note c = collide_ref_agrees [OF Cons.prems, of k]
  from Cons.IH [OF c [THEN conjunct1] c [THEN conjunct2, THEN conjunct1] c [THEN conjunct2, THEN conjunct2]]
  show ?case by simp
qed simp

lemma detectCollisions_ref:
  assumes "0 < sc_cellSize cfg" and "world_wf w" and "\<forall>t \<in> set (ws_snakes w). se_radius t \<le> 40"
  shows "map de_victim (fst (detectCollisions cfg w)) = victims_ref w"
proof -
  let ?real = "fold (collideSnake (rebuildBodyHash cfg w) (bodyEntries w)) (map se_id (ws_snakes w)) (w, [])"
  let ?v = "w\<lparr>ws_snakes := map no_kills (ws_snakes w)\<rparr>"
  have "sweeps_agree ?real (fold collide_ref (map se_id (ws_snakes w)) (?v, []))"
    by (rule collide_all_agree [OF assms _ collide_ref_no_kills]) simp
  then have "map de_victim (snd ?real) = snd (fold collide_ref (map se_id (ws_snakes w)) (?v, []))" by (simp add: sweeps_agree_def)
  also have "\<dots> = victims_ref w" unfolding victims_ref_def by (rule collide_ref_fold) (simp_all add: comp_def)
  finally show ?thesis by (simp add: detectCollisions_def case_prod_beta)
qed


subsection \<open>Beyond the margin\<close>

text \<open>A snake of mass 900 is 56 wide. A head 65 away from its body touches it, and the query, which looks 40 past the head, stops in the cell before.\<close>

definition a_snake :: "nat \<Rightarrow> string \<Rightarrow> point \<Rightarrow> real \<Rightarrow> nat \<Rightarrow> snake_entity" where
  "a_snake i p q mass len = \<lparr>se_id = i, se_playerId = p, se_nickname = p, se_spine = replicate SPINE_CAPACITY q, se_headIndex = 0,
     se_spineLength = len, se_spineCapacity = SPINE_CAPACITY, se_angle = 0, se_targetAngle = 0, se_speed = BASE_SPEED,
     se_mass = mass, se_radius = radiusForMass mass, se_boosting = False, se_alive = True, se_isBot = False, se_lastAckSeq = 0,
     se_spawnedAtTick = 0, se_kills = 0, se_score = scoreForMass mass, se_boostDebt = 0, se_sinceLastPoint = 0\<rparr>"

definition a_world :: "snake_entity list \<Rightarrow> world_state" where
  "a_world ss = \<lparr>ws_tick = 0, ws_elapsedMs = 0, ws_snakes = ss, ws_food = [], ws_playerIndex = map_of (map (\<lambda>s. (se_playerId s, se_id s)) ss),
     ws_pendingInputs = \<lambda>_. None, ws_nextEntityId = Suc (length ss), ws_radius = 8000, ws_random = 0\<rparr>"

definition a_config :: sim_config where
  "a_config = \<lparr>sc_tickRateHz = 30, sc_worldRadius = 8000, sc_cellSize = 512, sc_seed = 0, sc_targetFood = Some 0\<rparr>"

definition wide_world :: world_state where
  "wide_world = a_world [a_snake 1 ''a'' (450, 0) 16 4, a_snake 2 ''b'' (515, 0) 900 5]"

lemma radius_16: "radiusForMass 16 = 72 / 5"
proof -
  have "sqrt 16 = (4 :: real)" by (rule real_sqrt_unique) simp_all
  then show ?thesis by (simp add: radiusForMass_def)
qed

lemma radius_900: "radiusForMass 900 = 56"
proof -
  have "sqrt 900 = (30 :: real)" by (rule real_sqrt_unique) simp_all
  then show ?thesis by (simp add: radiusForMass_def)
qed

lemma headOf_a_snake [simp]: "headOf (a_snake i p q m l) = q"
  by (simp add: headOf_def spine_at_def a_snake_def SPINE_CAPACITY_def)

lemma pointAt_a_snake [simp]: "pointAt (a_snake i p q m l) k = q"
proof -
  have "nat (x mod int SPINE_CAPACITY) < SPINE_CAPACITY" for x
    by (simp add: SPINE_CAPACITY_def nat_less_iff)
  then show ?thesis by (simp add: pointAt_def spine_at_def a_snake_def Let_def)
qed

lemma a_snake_simps [simp]:
  "se_id (a_snake i p q m l) = i" "se_playerId (a_snake i p q m l) = p" "se_radius (a_snake i p q m l) = radiusForMass m"
  "se_alive (a_snake i p q m l) = True" "se_spineLength (a_snake i p q m l) = l" "se_mass (a_snake i p q m l) = m"
  by (simp_all add: a_snake_def)

lemma snake_wf_a_snake: "1 \<le> m \<Longrightarrow> 1 \<le> l \<Longrightarrow> l \<le> 6 \<Longrightarrow> snake_wf (a_snake i p q m l)"
  using lengthForMass_bounds(1) [of m] by (simp add: snake_wf_def) (simp add: a_snake_def SPINE_CAPACITY_def)

lemma wide_world_wf: "world_wf wide_world"
  by (auto simp: world_wf_def wide_world_def a_world_def snake_wf_a_snake split: if_splits)

lemma wide_world_touch: "victims_ref wide_world = [1]"
proof -
  have "\<exists>offset\<ge>4. offset < (5 :: nat)" by (rule exI [of _ 4]) simp
  then show ?thesis
    by (simp add: victims_ref_def wide_world_def a_world_def collide_ref_def snakeById_def body_contact_def out_of_world_def
        setSnake_def upd_rows_def distance_of_def hypot_def radius_16 radius_900)
qed

lemma wide_world_entries: "bodyEntries wide_world = [(2, 4, 515, 0)]"
  by (simp add: bodyEntries_def wide_world_def a_world_def)

lemma wide_world_missed: "fst (detectCollisions a_config wide_world) = []"
proof -
  let ?h = "rebuildBodyHash a_config wide_world"
  have h: "?h = insert_entity 1 (515, 0) (fresh_hash a_config)"
    by (simp add: rebuildBodyHash_def wide_world_entries)
  have cells: "\<lfloor>(515 :: real) / 512\<rfloor> = 1" "\<lfloor>((450 :: real) - (72 / 5 + 40)) / 512\<rfloor> = 0" "\<lfloor>((450 :: real) + (72 / 5 + 40)) / 512\<rfloor> = 0"
    "\<lfloor>((0 :: real) - (72 / 5 + 40)) / 512\<rfloor> = - 1" "\<lfloor>((0 :: real) + (72 / 5 + 40)) / 512\<rfloor> = 0"
    by (simp_all add: floor_eq_iff)
  have "[- 1..0] = [- 1, 0 :: int]" by (simp add: upto.simps)
  moreover have "cellKey 0 (- 1) \<noteq> cellKey 1 0" "cellKey 0 0 \<noteq> cellKey 1 0"
    using cellKey_inj [of 0 "- 1" 1 0] cellKey_inj [of 0 0 1 0] by (auto simp: cell_in_range_def)
  ultimately have q: "queryCircle (450, 0) (72 / 5 + 40) ?h = []"
    unfolding h queryCircle_def cellOf_def
    by (simp add: cells insert_entity_def Let_def fresh_hash_def a_config_def keyOf_def cellOf_def del: upto.simps)
  then have q: "queryCircle (450, 0) (272 / 5) ?h = []" by simp
  let ?w = "wide_world" and ?a = "a_snake 1 ''a'' (450, 0) 16 4" and ?b = "a_snake 2 ''b'' (515, 0) 900 5"
  have s: "snakeById 1 ?w = Some ?a" "snakeById 2 ?w = Some ?b" "ws_radius ?w = 8000" "map se_id (ws_snakes ?w) = [1, 2]"
    by (simp_all add: snakeById_def wide_world_def a_world_def)
  have one: "collideSnake ?h (bodyEntries ?w) 1 (?w, []) = (?w, [])"
    by (simp add: collideSnake_def s Let_def q radius_16 hypot_def del: One_nat_def)
  have "touching (bodyEntries ?w) ?w ?b k = None" for k
    by (simp add: touching_def wide_world_entries s)
  then have "first_touch (touching (bodyEntries ?w) ?w ?b) ks = None" for ks by (induction ks) simp_all
  then have two: "collideSnake ?h (bodyEntries ?w) 2 (?w, []) = (?w, [])"
    by (simp add: collideSnake_def s Let_def radius_900 hypot_def del: One_nat_def)
  show ?thesis by (simp add: detectCollisions_def s(4) one two del: One_nat_def)
qed


text \<open>The finding: two snakes in contact, and the sweep of the code reports no death.\<close>

lemma wide_snake_missed:
  "world_wf wide_world \<and> victims_ref wide_world = [1] \<and> fst (detectCollisions a_config wide_world) = []"
  using wide_world_wf wide_world_touch wide_world_missed by simp

section \<open>The grid can be left out\<close>

text \<open>C30: Eating through the grid, with pellets removed from it while it is searched, is eating by comparing each snake with
  each pellet: every living snake in turn takes exactly the pellets within its reach, grows by their mass, and the
  number reported is the number taken, whatever the size of a cell.\<close>

theorem eating_is_exact:
  assumes "0 < sc_cellSize cfg"
  shows "consumeFood cfg (moveSnakes cfg (applyInputs (fold (run_op cfg) ops (createWorld cfg)))) =
    consume_ref (moveSnakes cfg (applyInputs (fold (run_op cfg) ops (createWorld cfg))))"
  by (intro consumeFood_ref assms world_wf_moves world_wf_inputs world_wf_ops world_wf_create)

lemma eating_is_exact_witness:
  "0 < sc_cellSize a_config \<and>
    consumeFood a_config (moveSnakes a_config (applyInputs (fold (run_op a_config) [OpSpawn ''p'' ''n'' False] (createWorld a_config)))) =
    consume_ref (moveSnakes a_config (applyInputs (fold (run_op a_config) [OpSpawn ''p'' ''n'' False] (createWorld a_config))))"
  using eating_is_exact [of a_config "[OpSpawn ''p'' ''n'' False]"] by (simp add: a_config_def)

text \<open>C31: While no snake is wider than 40, the margin of the query, the deaths the grid finds are exactly those a sweep
  over every head and every body point finds, in the same order: a snake dies when it has left the world or touches
  a living other past its first four points, and a snake that died earlier in the sweep kills nobody.\<close>

theorem collisions_are_exact:
  assumes "0 < sc_cellSize cfg" and "world_wf w" and "\<forall>t \<in> set (ws_snakes w). se_radius t \<le> 40"
  shows "map de_victim (fst (detectCollisions cfg w)) = victims_ref w"
  by (rule detectCollisions_ref [OF assms])

definition thin_world :: world_state where
  "thin_world = a_world [a_snake 1 ''a'' (450, 0) 16 4, a_snake 2 ''b'' (460, 0) 16 5]"

lemma collisions_are_exact_witness:
  "map de_victim (fst (detectCollisions a_config thin_world)) = [1]"
proof -
  have wf: "world_wf thin_world" by (auto simp: world_wf_def thin_world_def a_world_def snake_wf_a_snake split: if_splits)
  have thin: "\<forall>t \<in> set (ws_snakes thin_world). se_radius t \<le> 40" by (simp add: thin_world_def a_world_def radius_16)
  have "\<exists>offset\<ge>4. offset < (5 :: nat)" by (rule exI [of _ 4]) simp
  then have "victims_ref thin_world = [1]"
    by (simp add: victims_ref_def thin_world_def a_world_def collide_ref_def snakeById_def body_contact_def out_of_world_def
        setSnake_def upd_rows_def distance_of_def hypot_def radius_16)
  then show ?thesis using collisions_are_exact [OF _ wf thin, of a_config] by (simp add: a_config_def)
qed

end
