(* ===== verification/Anti_Cheat_Properties.thy ===== *)
theory Anti_Cheat_Properties
  imports Anti_Cheat Simulation_Motion Simulation_Contacts
begin

text \<open>
  What the checks guarantee: a client's inputs are limited over any stretch of time and the accepted ones are well
  formed, connections are limited by address whether or not idle entries are swept, chat carries no
  invisible characters, and no snake the simulation moves is ever called a cheat.
\<close>

section \<open>The buckets of the code\<close>

lemma token_bucket_spend: "0 \<le> rate \<Longrightarrow> 0 \<le> burst \<Longrightarrow> token_bucket (spend rate burst) bk_tokens bk_lastRefillMs rate burst"
  by unfold_locales (auto simp: spend_def refilled_def Let_def split: if_splits)

interpretation inputs: token_bucket "consumeInputBudget (real n) (real n)" ig_budget ig_lastRefillMs "real n" "real n" for n :: nat
  by unfold_locales (auto simp: consumeInputBudget_def refilled_def Let_def split: if_splits)

interpretation chats: token_bucket "spend (1 / 2) 3" bk_tokens bk_lastRefillMs "1 / 2" 3
  by (rule token_bucket_spend) simp_all

interpretation connections: token_bucket "spend 2 10" bk_tokens bk_lastRefillMs 2 10
  by (rule token_bucket_spend) simp_all

section \<open>Inputs\<close>

fun run_batches :: "real \<Rightarrow> nat \<Rightarrow> (int \<times> client_input list) list \<Rightarrow> input_guard \<Rightarrow> client_input list" where
  "run_batches maxDt n [] s = []"
| "run_batches maxDt n ((now, cmds) # bs) s =
    (case validateInputBatch \<lparr>bo_now = now, bo_maxDtMs = maxDt, bo_ratePerSecond = real n, bo_burst = real n\<rparr> cmds s of
       (s', out) \<Rightarrow> ob_accepted out @ run_batches maxDt n bs s')"

text \<open>Each command is one attempt of the bucket, and only an attempt that succeeds can be accepted.\<close>

lemma record_rejection_simps [simp]:
  "ig_budget (fst (record_rejection c x st)) = ig_budget (fst st)" "ig_lastRefillMs (fst (record_rejection c x st)) = ig_lastRefillMs (fst st)"
  "ig_lastSeq (fst (record_rejection c x st)) = ig_lastSeq (fst st)" "ob_accepted (snd (record_rejection c x st)) = ob_accepted (snd st)"
  by (simp_all add: record_rejection_def case_prod_beta)

definition seq_num :: "client_input \<Rightarrow> real" where
  "seq_num c = (case ci_seq c of Num x \<Rightarrow> x | NotFinite \<Rightarrow> 0)"

definition well_formed_input :: "real \<Rightarrow> client_input \<Rightarrow> bool" where
  "well_formed_input maxDt c \<longleftrightarrow> is_integer (ci_seq c) \<and>
    (\<exists>a. ci_angle c = Num a \<and> - (pi + 1 / 1000000) \<le> a \<and> a \<le> pi + 1 / 1000000) \<and> (\<exists>dt. ci_dt c = Num dt \<and> 0 \<le> dt \<and> dt \<le> maxDt)"

lemma validateCommand_step:
  assumes v: "validateCommand opts c (s, out) = (s', out')" and m: "0 \<le> bo_maxDtMs opts"
    and a: "consumeInputBudget (bo_ratePerSecond opts) (bo_burst opts) (bo_now opts) s = (ok, t)"
  shows "ig_budget s' = ig_budget t \<and> ig_lastRefillMs s' = ig_lastRefillMs t \<and>
    (ob_accepted out' = ob_accepted out \<and> ig_lastSeq s' = ig_lastSeq s \<or>
     (\<exists>d. ok \<and> ob_accepted out' = ob_accepted out @ [d] \<and> well_formed_input (bo_maxDtMs opts) d \<and>
       ig_lastSeq s < seq_num d \<and> ig_lastSeq s' = seq_num d))"
proof -
  have t: "ig_lastSeq t = ig_lastSeq s" using a by (auto simp: consumeInputBudget_def Let_def split: if_splits)
  let ?d = "c\<lparr>ci_dt := Num (clampDeltaTime (ci_dt c) (bo_maxDtMs opts))\<rparr>"
  show ?thesis
  proof (cases "ok \<and> isSequenceValid (ig_lastSeq t) (ci_seq c) = None \<and> angle_ok (ci_angle c) \<and> dt_ok (ci_dt c)")
    case True
    then obtain x where x: "ci_seq c = Num x" "is_integer (ci_seq c)" "ig_lastSeq t < x"
      by (cases "ci_seq c") (auto simp: isSequenceValid_def split: if_splits)
    have "0 \<le> clampDeltaTime (ci_dt c) (bo_maxDtMs opts) \<and> clampDeltaTime (ci_dt c) (bo_maxDtMs opts) \<le> bo_maxDtMs opts"
      using m by (simp add: clampDeltaTime_def split: js_num.split)
    moreover obtain a where "ci_angle c = Num a" "- (pi + 1 / 1000000) \<le> a" "a \<le> pi + 1 / 1000000"
      using True by (cases "ci_angle c") (auto simp: angle_ok_def)
    ultimately have "well_formed_input (bo_maxDtMs opts) ?d" using x by (simp add: well_formed_input_def)
    moreover have "s' = t\<lparr>ig_lastSeq := x\<rparr>" "ob_accepted out' = ob_accepted out @ [?d]"
      using v a True x(1) by (auto simp: validateCommand_def Let_def)
    ultimately show ?thesis using True x t by (simp add: seq_num_def)
  next
    case False
    then have "\<exists>x. record_rejection c x (t, out) = (s', out')"
      using v a by (auto simp: validateCommand_def Let_def split: if_splits option.splits)
    then obtain x where r: "record_rejection c x (t, out) = (s', out')" by blast
    have "ig_budget s' = ig_budget t" "ig_lastRefillMs s' = ig_lastRefillMs t" "ig_lastSeq s' = ig_lastSeq t" "ob_accepted out' = ob_accepted out"
      using record_rejection_simps [of c x "(t, out)"] unfolding r by simp_all
    with t show ?thesis by simp
  qed
qed

text \<open>What a run keeps: the accepted commands are in order, well formed, and paid for.\<close>

definition paid :: "nat \<Rightarrow> real \<Rightarrow> int \<Rightarrow> input_guard \<Rightarrow> client_input list \<Rightarrow> bool" where
  "paid n maxDt t0 s acc \<longleftrightarrow> sorted_wrt (\<lambda>a b. seq_num a < seq_num b) acc \<and> (\<forall>c \<in> set acc. seq_num c \<le> ig_lastSeq s) \<and>
     (\<forall>c \<in> set acc. well_formed_input maxDt c) \<and> 0 \<le> ig_budget s \<and> t0 \<le> ig_lastRefillMs s \<and>
     real (length acc) + ig_budget s \<le> real n + real_of_int (ig_lastRefillMs s - t0) / 1000 * real n"

lemma paid_command:
  assumes p: "paid n maxDt t0 s (acc @ ob_accepted out)" and m: "0 \<le> maxDt" and now: "ig_lastRefillMs s \<le> now"
    and v: "validateCommand \<lparr>bo_now = now, bo_maxDtMs = maxDt, bo_ratePerSecond = real n, bo_burst = real n\<rparr> c (s, out) = (s', out')"
  shows "paid n maxDt t0 s' (acc @ ob_accepted out') \<and> ig_lastRefillMs s' = now"
proof -
  obtain ok t where a: "consumeInputBudget (real n) (real n) now s = (ok, t)" by fastforce
  note law = inputs.attempt_law [OF a]
  let ?x = "refilled (real n) (real n) (ig_budget s) (ig_lastRefillMs s) now"
  have x: "?x \<le> ig_budget s + real_of_int (now - ig_lastRefillMs s) / 1000 * real n" using now by (simp add: refilled_def max_def)
  have b: "0 \<le> ig_budget t" using inputs.attempt_nonneg [OF a] p by (simp add: paid_def)
  have e: "real_of_int (ig_lastRefillMs s - t0) / 1000 * real n + real_of_int (now - ig_lastRefillMs s) / 1000 * real n =
      real_of_int (now - t0) / 1000 * real n" by (simp add: field_simps)
  have level: "real (length (acc @ ob_accepted out)) + ?x \<le> real n + real_of_int (now - t0) / 1000 * real n"
    using p x e by (simp add: paid_def) 
  from validateCommand_step [OF v, of ok t] a m have s':
    "ig_budget s' = ig_budget t" "ig_lastRefillMs s' = ig_lastRefillMs t" and
    cs: "ob_accepted out' = ob_accepted out \<and> ig_lastSeq s' = ig_lastSeq s \<or>
     (\<exists>d. ok \<and> ob_accepted out' = ob_accepted out @ [d] \<and> well_formed_input maxDt d \<and> ig_lastSeq s < seq_num d \<and> ig_lastSeq s' = seq_num d)"
    by simp_all
  have last: "ig_lastRefillMs t = now" "ig_budget t = ?x - (if ok then 1 else 0)" using law by simp_all
  from cs show ?thesis
  proof (elim disjE exE conjE)
    assume "ob_accepted out' = ob_accepted out" "ig_lastSeq s' = ig_lastSeq s"
    then show ?thesis using p level b last now s' by (auto simp: paid_def)
  next
    fix d assume d: ok "ob_accepted out' = ob_accepted out @ [d]" "well_formed_input maxDt d" "ig_lastSeq s < seq_num d" "ig_lastSeq s' = seq_num d"
    have "\<forall>c \<in> set (acc @ ob_accepted out). seq_num c < seq_num d"
      using p d(4) unfolding paid_def by (blast intro: le_less_trans)
    then have "sorted_wrt (\<lambda>a b. seq_num a < seq_num b) (acc @ ob_accepted out')" "\<forall>c \<in> set (acc @ ob_accepted out'). seq_num c \<le> seq_num d"
      using p d(2) by (auto simp: paid_def sorted_wrt_append intro: less_imp_le)
    then show ?thesis using p level b last now s' d unfolding paid_def by simp
  qed
qed

lemma paid_commands:
  assumes m: "0 \<le> maxDt"
  shows "paid n maxDt t0 s (acc @ ob_accepted out) \<Longrightarrow> ig_lastRefillMs s \<le> now \<Longrightarrow>
    fold (validateCommand \<lparr>bo_now = now, bo_maxDtMs = maxDt, bo_ratePerSecond = real n, bo_burst = real n\<rparr>) cs (s, out) = (s', out') \<Longrightarrow>
    paid n maxDt t0 s' (acc @ ob_accepted out') \<and> ig_lastRefillMs s' \<le> now"
proof (induction cs arbitrary: s out)
  case (Cons c cs)
  let ?o = "\<lparr>bo_now = now, bo_maxDtMs = maxDt, bo_ratePerSecond = real n, bo_burst = real n\<rparr>"
  obtain t o1 where v: "validateCommand ?o c (s, out) = (t, o1)" by fastforce
  from paid_command [OF Cons.prems(1) m Cons.prems(2) v] Cons.IH [of t o1] Cons.prems(3) v show ?case by simp
qed simp

lemma paid_batches:
  assumes m: "0 \<le> maxDt"
  shows "paid n maxDt t0 s acc \<Longrightarrow> sorted (ig_lastRefillMs s # map fst bs) \<Longrightarrow>
    \<exists>s'. paid n maxDt t0 s' (acc @ run_batches maxDt n bs s) \<and> ig_lastRefillMs s' \<le> last (ig_lastRefillMs s # map fst bs)"
proof (induction bs arbitrary: s acc)
  case Nil
  then show ?case by auto
next
  case (Cons b bs)
  obtain now cmds where b: "b = (now, cmds)" by fastforce
  let ?o = "\<lparr>bo_now = now, bo_maxDtMs = maxDt, bo_ratePerSecond = real n, bo_burst = real n\<rparr>"
  obtain t out where v: "validateInputBatch ?o cmds s = (t, out)" by fastforce
  have le: "ig_lastRefillMs s \<le> now" using Cons.prems(2) by (simp add: b)
  have t: "paid n maxDt t0 t (acc @ ob_accepted out) \<and> ig_lastRefillMs t \<le> now"
    using paid_commands [OF m _ le, of n t0 acc "\<lparr>ob_accepted = [], ob_rejected = []\<rparr>" cmds t out] Cons.prems(1) v
    by (simp add: validateInputBatch_def)
  have "sorted (ig_lastRefillMs t # map fst bs)" using Cons.prems(2) t by (cases bs) (auto simp: b)
  from Cons.IH [OF _ this, of "acc @ ob_accepted out"] t obtain s' where
    "paid n maxDt t0 s' (acc @ ob_accepted out @ run_batches maxDt n bs t)" "ig_lastRefillMs s' \<le> last (ig_lastRefillMs t # map fst bs)" by auto
  moreover have "last (ig_lastRefillMs t # map fst bs) \<le> last (ig_lastRefillMs s # map fst (b # bs))" using t by (simp add: b)
  ultimately show ?case using v by (intro exI [of _ s']) (auto simp: b)
qed

text \<open>C32: The inputs of a socket are limited whatever the client sends on it: over any sequence of batches the commands a node accepts
  from one socket are no more than one second's allowance and what flows in at the configured rate, they come in strictly increasing
  order of their sequence numbers, and each has a finite heading of at most a half turn and a millionth of a radian either way and a
  time step no longer than a tick. (A new socket starts with a new allowance.)\<close>

theorem inputs_limited:
  assumes "sorted (t0 # map fst batches)" and "0 \<le> maxDt"
  shows "let accepted = run_batches maxDt n batches (createGuardState t0 (real n)) in
    real (length accepted) \<le> real n + real_of_int (last (t0 # map fst batches) - t0) / 1000 * real n \<and>
    sorted_wrt (\<lambda>a b. seq_num a < seq_num b) accepted \<and> list_all (well_formed_input maxDt) accepted"
proof -
  have "paid n maxDt t0 (createGuardState t0 (real n)) []" by (simp add: paid_def createGuardState_def)
  from paid_batches [OF assms(2) this, of batches] assms(1) obtain s' where
    s': "paid n maxDt t0 s' (run_batches maxDt n batches (createGuardState t0 (real n)))" "ig_lastRefillMs s' \<le> last (t0 # map fst batches)"
    by (auto simp: createGuardState_def)
  have "real_of_int (ig_lastRefillMs s' - t0) / 1000 * real n \<le> real_of_int (last (t0 # map fst batches) - t0) / 1000 * real n"
    using s'(2) by (intro mult_right_mono divide_right_mono) simp_all
  with s'(1) show ?thesis by (simp add: paid_def Let_def list_all_iff)
qed

definition an_input :: "real \<Rightarrow> client_input" where
  "an_input k = \<lparr>ci_seq = Num k, ci_angle = Num 0, ci_boost = False, ci_dt = Num 100\<rparr>"

lemma inputs_limited_witness:
  "let accepted = run_batches 33 2 [(0, [an_input 1, an_input 2, an_input 3]), (500, [an_input 4])] (createGuardState 0 2) in
    real (length accepted) \<le> 2 + 500 / 1000 * 2 \<and> sorted_wrt (\<lambda>a b. seq_num a < seq_num b) accepted \<and> list_all (well_formed_input 33) accepted"
  using inputs_limited [of 0 "[(0, [an_input 1, an_input 2, an_input 3]), (500, [an_input 4])]" 33 2] by simp


section \<open>Connections\<close>

subsection \<open>Sweeping idle entries is never noticed\<close>

datatype guard_op = Attempt string int | Sweep int

definition op_time :: "guard_op \<Rightarrow> int" where
  "op_time op = (case op of Attempt _ t \<Rightarrow> t | Sweep t \<Rightarrow> t)"

definition is_attempt :: "guard_op \<Rightarrow> bool" where
  "is_attempt op = (case op of Attempt _ _ \<Rightarrow> True | Sweep _ \<Rightarrow> False)"

lemma op_simps [simp]:
  "op_time (Attempt a t) = t" "op_time (Sweep t) = t" "is_attempt (Attempt a t)" "\<not> is_attempt (Sweep t)"
  by (simp_all add: op_time_def is_attempt_def)

fun run_guard :: "guard_options \<Rightarrow> guard_op list \<Rightarrow> connection_guard \<Rightarrow> bool list" where
  "run_guard opts [] g = []"
| "run_guard opts (Attempt a t # ops) g = (case tryConsume opts a t g of (ok, g') \<Rightarrow> ok # run_guard opts ops g')"
| "run_guard opts (Sweep t # ops) g = run_guard opts ops (snd (sweep opts t g))"

lemma map_of_tryConsume:
  "map_of (snd (tryConsume opts a t g)) =
    (map_of g)(a \<mapsto> snd (spend (go_ratePerSecond opts) (go_burst opts) t
      (case map_of g a of Some b \<Rightarrow> b | None \<Rightarrow> \<lparr>bk_tokens = go_burst opts, bk_lastRefillMs = t\<rparr>)))"
  by (simp add: tryConsume_def Let_def case_prod_beta update_conv')

lemma fst_tryConsume:
  "fst (tryConsume opts a t g) = fst (spend (go_ratePerSecond opts) (go_burst opts) t
      (case map_of g a of Some b \<Rightarrow> b | None \<Rightarrow> \<lparr>bk_tokens = go_burst opts, bk_lastRefillMs = t\<rparr>))"
  by (simp add: tryConsume_def Let_def case_prod_beta)

lemma map_of_sweep:
  "distinct (map fst g) \<Longrightarrow> map_of (snd (sweep opts t g)) =
    (\<lambda>a. case map_of g a of None \<Rightarrow> None | Some b \<Rightarrow> if idle_full opts t b then None else Some b)"
proof -
  assume "distinct (map fst g)"
  then have "map_of (filter (\<lambda>(_, b). \<not> P b) g) = (\<lambda>a. case map_of g a of None \<Rightarrow> None | Some b \<Rightarrow> if P b then None else Some b)" for P
  proof (induction g)
    case (Cons x g)
    obtain a b where x: "x = (a, b)" by fastforce
    have "map_of g a = None" using Cons.prems by (simp add: x map_of_eq_None_iff)
    with Cons show ?case by (auto simp: x fun_eq_iff)
  qed (simp add: fun_eq_iff)
  then show ?thesis by (simp add: sweep_def Let_def)
qed

text \<open>A swept entry would be full again by now, so a fresh one is no gift.\<close>

definition swept_alike :: "guard_options \<Rightarrow> int \<Rightarrow> connection_guard \<Rightarrow> connection_guard \<Rightarrow> bool" where
  "swept_alike opts now g h \<longleftrightarrow> distinct (map fst g) \<and>
    (\<forall>a. map_of g a = map_of h a \<or>
       (map_of g a = None \<and> (\<exists>b. map_of h a = Some b \<and> bk_lastRefillMs b \<le> now \<and>
          go_burst opts \<le> bk_tokens b + (real_of_int (now - bk_lastRefillMs b) / 1000) * go_ratePerSecond opts)))"

lemma full_spend:
  assumes "bk_lastRefillMs b \<le> t" and "go_burst opts \<le> bk_tokens b + (real_of_int (t - bk_lastRefillMs b) / 1000) * go_ratePerSecond opts"
  shows "spend (go_ratePerSecond opts) (go_burst opts) t b = spend (go_ratePerSecond opts) (go_burst opts) t \<lparr>bk_tokens = go_burst opts, bk_lastRefillMs = t\<rparr>"
  using assms by (simp add: spend_def Let_def max_def min_def)

lemma swept_alike_later:
  assumes "swept_alike opts now g h" and "now \<le> t" and "0 \<le> go_ratePerSecond opts"
  shows "swept_alike opts t g h"
proof -
  have "real_of_int (now - x) / 1000 * go_ratePerSecond opts \<le> real_of_int (t - x) / 1000 * go_ratePerSecond opts" for x
    using assms(2,3) by (intro mult_right_mono divide_right_mono) simp_all
  then have "y \<le> z + real_of_int (now - x) / 1000 * go_ratePerSecond opts \<Longrightarrow> y \<le> z + real_of_int (t - x) / 1000 * go_ratePerSecond opts" for x y z
    by (meson add_left_mono order_trans)
  with assms(1,2) show ?thesis unfolding swept_alike_def by (meson order_trans)
qed

lemma distinct_tryConsume: "distinct (map fst g) \<Longrightarrow> distinct (map fst (snd (tryConsume opts a t g)))"
  by (simp add: tryConsume_def Let_def case_prod_beta distinct_update)

lemma swept_alike_attempt:
  assumes s: "swept_alike opts t g h"
  shows "fst (tryConsume opts a t g) = fst (tryConsume opts a t h) \<and> swept_alike opts t (snd (tryConsume opts a t g)) (snd (tryConsume opts a t h))"
proof -
  let ?new = "\<lparr>bk_tokens = go_burst opts, bk_lastRefillMs = t\<rparr>"
  have e: "spend (go_ratePerSecond opts) (go_burst opts) t (case map_of g a of Some b \<Rightarrow> b | None \<Rightarrow> ?new) =
      spend (go_ratePerSecond opts) (go_burst opts) t (case map_of h a of Some b \<Rightarrow> b | None \<Rightarrow> ?new)"
    using s full_spend unfolding swept_alike_def by (metis option.case)
  have "fst (tryConsume opts a t g) = fst (tryConsume opts a t h)" unfolding fst_tryConsume by (simp only: e)
  moreover have "swept_alike opts t (snd (tryConsume opts a t g)) (snd (tryConsume opts a t h))"
    using s distinct_tryConsume unfolding swept_alike_def map_of_tryConsume e by simp
  ultimately show ?thesis by simp
qed

lemma swept_alike_sweep:
  assumes s: "swept_alike opts t g h" and ttl: "0 \<le> go_idleTtlMs opts"
  shows "swept_alike opts t (snd (sweep opts t g)) h"
proof -
  have d: "distinct (map fst g)" using s by (simp add: swept_alike_def)
  have kept: "distinct (map fst (snd (sweep opts t g)))" using d by (simp add: sweep_def Let_def distinct_map_filter)
  have "bk_lastRefillMs b \<le> t \<and> go_burst opts \<le> bk_tokens b + real_of_int (t - bk_lastRefillMs b) / 1000 * go_ratePerSecond opts"
    if "idle_full opts t b" for b
    using that ttl by (simp add: idle_full_def Let_def)
  note full = this
  let ?g = "snd (sweep opts t g)"
  have "map_of ?g a = map_of h a \<or> (map_of ?g a = None \<and> (\<exists>b. map_of h a = Some b \<and> bk_lastRefillMs b \<le> t \<and>
          go_burst opts \<le> bk_tokens b + (real_of_int (t - bk_lastRefillMs b) / 1000) * go_ratePerSecond opts))" for a
  proof (cases "map_of g a")
    case None
    then have "map_of ?g a = map_of g a" by (simp add: map_of_sweep [OF d])
    with s show ?thesis unfolding swept_alike_def by metis
  next
    case (Some b)
    then have "map_of h a = Some b" using s unfolding swept_alike_def by (metis option.distinct(1))
    with Some full [of b] show ?thesis by (simp add: map_of_sweep [OF d])
  qed
  with kept show ?thesis by (simp only: swept_alike_def simp_thms)
qed

lemma sweep_run:
  assumes "0 \<le> go_ratePerSecond opts" and "0 \<le> go_idleTtlMs opts"
  shows "swept_alike opts now g h \<Longrightarrow> sorted (now # map op_time ops) \<Longrightarrow> run_guard opts ops g = run_guard opts (filter is_attempt ops) h"
proof (induction ops arbitrary: now g h)
  case (Cons op ops)
  have le: "now \<le> op_time op" "sorted (op_time op # map op_time ops)" using Cons.prems(2) by simp_all
  note s = swept_alike_later [OF Cons.prems(1) le(1) assms(1)]
  show ?case
  proof (cases op)
    case (Attempt a t)
    with s have a: "fst (tryConsume opts a t g) = fst (tryConsume opts a t h)"
      "swept_alike opts t (snd (tryConsume opts a t g)) (snd (tryConsume opts a t h))"
      using swept_alike_attempt by simp_all
    have "sorted (t # map op_time ops)" using le Attempt by simp
    from Cons.IH [OF a(2) this] a(1) show ?thesis by (simp add: Attempt case_prod_beta)
  next
    case (Sweep t)
    from s have "swept_alike opts t (snd (sweep opts t g)) h" by (intro swept_alike_sweep [OF _ assms(2)]) (simp add: Sweep)
    moreover have "sorted (t # map op_time ops)" using le Sweep by simp
    ultimately show ?thesis using Cons.IH by (simp add: Sweep)
  qed
qed simp

text \<open>C34: Sweeping idle addresses out of the connection guard is never noticed: at whatever times sweeps run, every attempt to
  connect is answered exactly as if nothing had ever been swept, so no address earns a fresh allowance by being
  forgotten.\<close>

theorem sweeping_is_invisible:
  assumes "sorted (map op_time ops)"
  shows "run_guard DEFAULT_CONNECTION_GUARD ops [] = run_guard DEFAULT_CONNECTION_GUARD (filter is_attempt ops) []"
proof (cases ops)
  case (Cons op rest)
  have "swept_alike DEFAULT_CONNECTION_GUARD (op_time op) [] []" by (simp add: swept_alike_def)
  then show ?thesis
    by (rule sweep_run [rotated 2]) (use assms Cons in \<open>simp_all add: DEFAULT_CONNECTION_GUARD_def\<close>)
qed simp

lemma sweeping_is_invisible_witness:
  "run_guard DEFAULT_CONNECTION_GUARD [Attempt ''x'' 0, Sweep 61000, Attempt ''x'' 62000] [] =
    run_guard DEFAULT_CONNECTION_GUARD [Attempt ''x'' 0, Attempt ''x'' 62000] []"
  using sweeping_is_invisible [of "[Attempt ''x'' 0, Sweep 61000, Attempt ''x'' 62000]"] by simp

subsection \<open>An address the client chooses\<close>

text \<open>The finding: behind a proxy the address is the left-most entry of a header the client can send itself, so each
  connection can name a new address and none is ever refused.\<close>

lemma fresh_address_admitted:
  assumes "map_of g a = None" and "1 \<le> go_burst opts"
  shows "fst (tryConsume opts a now g)"
  using assms by (simp add: tryConsume_def spend_def Let_def)

lemma forged_address:
  assumes "\<forall>c \<in> set fake. c \<noteq> CHR '','' \<and> \<not> js_space c" and "fake \<noteq> []"
  shows "clientAddress address (OneHeader (fake @ '','' @ realAddress)) True = fake"
proof -
  have "takeWhile (\<lambda>c. c \<noteq> CHR '','') (fake @ '','' @ realAddress) = fake" using assms(1) by (subst takeWhile_append2) auto
  moreover have "js_trim fake = fake"
  proof -
    have "dropWhile js_space xs = xs" if "\<forall>c \<in> set xs. \<not> js_space c" for xs using that by (cases xs) auto
    from this [of fake] this [of "rev fake"] assms(1) show ?thesis by (simp add: js_trim_def)
  qed
  ultimately show ?thesis using assms(2) by (simp add: clientAddress_def Let_def)
qed


section \<open>Chat\<close>

lemma set_collapse: "c \<in> set (collapse b s) \<Longrightarrow> c = 0x20 \<or> \<not> white c"
  by (induction b s rule: collapse.induct) (auto split: if_splits)

lemma dropWhile_stop: "\<not> P y \<Longrightarrow> dropWhile P (xs @ [y]) = dropWhile P xs @ [y]"
  by (induction xs) auto

lemma hd_trim_units: "trim_units s \<noteq> [] \<Longrightarrow> \<not> white (hd (trim_units s))"
proof (cases "dropWhile white s")
  case Nil
  then show "trim_units s \<noteq> [] \<Longrightarrow> ?thesis" by (simp add: trim_units_def)
next
  case (Cons y zs)
  have "\<not> white y" using hd_dropWhile [of white s] Cons by simp
  with Cons show "trim_units s \<noteq> [] \<Longrightarrow> ?thesis" by (simp add: trim_units_def dropWhile_stop)
qed

lemma set_trim_units: "set (trim_units s) \<subseteq> set s"
  by (auto simp: trim_units_def dest!: set_dropWhileD)

text \<open>Chat that is passed on carries nothing invisible: no control character, zero-width character or override of the
  direction of text, no white space but plain blanks, at least one and at most 140 characters, and the first is visible.\<close>

theorem chat_is_clean:
  assumes "sanitiseChat body = Some s"
  shows "1 \<le> length s \<and> length s \<le> 140 \<and> list_all (\<lambda>c. \<not> hidden c \<and> (c = 0x20 \<or> \<not> white c)) s \<and> \<not> white (hd s)"
proof -
  define t where "t = trim_units (filter (\<lambda>c. \<not> hidden c) (collapse False body))"
  have s: "t \<noteq> []" "s = take 140 t" using assms by (auto simp: sanitiseChat_def t_def Let_def split: if_splits)
  have t: "\<not> hidden c \<and> (c = 0x20 \<or> \<not> white c)" if "c \<in> set t" for c
    using that set_trim_units set_collapse unfolding t_def by fastforce
  have "hd s = hd t" using s by (cases t) simp_all
  moreover have "\<not> white (hd t)" using hd_trim_units s(1) by (simp add: t_def)
  moreover have "set s \<subseteq> set t" unfolding s(2) by (rule set_take_subset)
  ultimately show ?thesis using s t by (simp add: list_all_iff subset_iff Suc_le_eq)
qed

lemma chat_is_clean_witness:
  "let s = [0x68, 0x20, 0x69] in sanitiseChat [0x68, 0x0A, 0x0A, 0x69, 0x202E] = Some s \<and>
    list_all (\<lambda>c. \<not> hidden c \<and> (c = 0x20 \<or> \<not> white c)) s"
proof -
  have "sanitiseChat [0x68, 0x0A, 0x0A, 0x69, 0x202E] = Some [0x68, 0x20, 0x69]"
    by (simp add: sanitiseChat_def trim_units_def white_def hidden_def Let_def)
  with chat_is_clean [OF this] show ?thesis by (simp only: Let_def)
qed

text \<open>The finding: white space is collapsed before invisible characters are taken out, so blanks around one of them end up side by side.\<close>

lemma blanks_survive: "sanitiseChat [0x61, 0x20, 0x200B, 0x20, 0x62] = Some [0x61, 0x20, 0x20, 0x62]"
  by (simp add: sanitiseChat_def trim_units_def white_def hidden_def Let_def)

section \<open>Movement\<close>

lemma distance_triangle: "distance_of p r \<le> distance_of p q + distance_of q r"
  using real_sqrt_sum_squares_triangle_ineq [of "fst p - fst q" "fst q - fst r" "snd p - snd q" "snd q - snd r"]
  by (simp add: distance_of_def hypot_def)

definition gone :: "nat \<Rightarrow> world_state \<Rightarrow> bool" where
  "gone i w \<longleftrightarrow> snakeById i w = None \<and> i < ws_nextEntityId w"

lemma step_tick:
  assumes "world_wf w"
  shows "ws_tick (snd (step_world cfg w)) = ws_tick w + 1" and "ws_nextEntityId w \<le> ws_nextEntityId (snd (step_world cfg w))"
proof -
  let ?m = "moveSnakes cfg (applyInputs w)"
  let ?e = "snd (consumeFood cfg ?m)"
  have wf: "world_wf ?e" using assms by (intro world_wf_eat world_wf_moves world_wf_inputs)
  obtain v where v: "swept ?e v" "more_food v (snd (detectCollisions cfg ?e))" by (rule detect_swept [OF wf, of cfg])
  have e: "ws_tick ?e = ws_tick w" "ws_nextEntityId ?e = ws_nextEntityId w"
    by (simp_all add: consumeFood_def case_prod_beta moveSnakes_def applyInputs_def)
  have "ws_tick v = ws_tick ?e" "ws_nextEntityId v = ws_nextEntityId ?e" using v(1) unfolding swept_def by (cases v; cases ?e; auto)+
  then have d: "ws_tick (snd (detectCollisions cfg ?e)) = ws_tick w" "ws_nextEntityId w \<le> ws_nextEntityId (snd (detectCollisions cfg ?e))"
    using more_foodD(5,6) [OF v(2)] e by simp_all
  have t: "ws_tick (expireFood (snd (maintainFood cfg x))) = ws_tick x"
    "ws_nextEntityId x \<le> ws_nextEntityId (expireFood (snd (maintainFood cfg x)))" for x
    using more_foodD(5,6) [OF more_food_spawns] by (simp_all add: expireFood_def maintainFood_def Let_def)
  show "ws_tick (snd (step_world cfg w)) = ws_tick w + 1" using d(1) t(1) by (simp add: snd_step_world Let_def)
  show "ws_nextEntityId w \<le> ws_nextEntityId (snd (step_world cfg w))" using order_trans [OF d(2) t(2)] by (simp add: snd_step_world Let_def)
qed

lemma list_all2_find_None:
  "list_all2 P xs ys \<Longrightarrow> (\<And>x y. P x y \<Longrightarrow> key y = key x) \<Longrightarrow> find (\<lambda>x. key x = k) ys = None \<longleftrightarrow> find (\<lambda>x. key x = k) xs = None"
  by (induction rule: list_all2_induct) auto

lemma find_filter_key: "find (\<lambda>s. se_id s = i) (filter (\<lambda>s. se_id s \<noteq> k) ss) = (if i = k then None else find (\<lambda>s. se_id s = i) ss)"
  by (induction ss) auto

lemma find_snoc: "\<not> P x \<Longrightarrow> find P (xs @ [x]) = find P xs"
  by (induction xs) auto

text \<open>What one operation does to one snake.\<close>

lemma op_snake:
  assumes w: "world_wf w" and i: "i < ws_nextEntityId w"
    and w'_def: "w' = run_op cfg op w"
  shows "ws_nextEntityId w \<le> ws_nextEntityId w' \<and>
    (snakeById i w' = None \<or>
     (\<exists>s t. snakeById i w = Some s \<and> snakeById i w' = Some t \<and> ws_tick w \<le> ws_tick w' \<and>
        distance_of (headOf t) (headOf s) \<le> BASE_SPEED * BOOST_SPEED_MULTIPLIER * dtSeconds cfg * real (ws_tick w' - ws_tick w)))"
proof (cases op)
  case OpStep
  then have w': "w' = snd (step_world cfg w)" by (simp add: w'_def run_op_def)
  have "BASE_SPEED * dtSeconds cfg \<le> BASE_SPEED * BOOST_SPEED_MULTIPLIER * dtSeconds cfg"
    by (intro mult_right_mono) (simp_all add: BASE_SPEED_def BOOST_SPEED_MULTIPLIER_def)
  then have lim: "distance_of (headOf t) (headOf s) \<le> BASE_SPEED * BOOST_SPEED_MULTIPLIER * dtSeconds cfg" if "within_limits cfg s t" for s t
    using that by (auto simp: within_limits_def split: if_splits)
  show ?thesis
  proof (cases "snakeById i w")
    case None
    then have "snakeById i w' = None"
      using list_all2_find_None [OF step_snakes [OF w, of cfg], of se_id i] by (simp add: w' snakeById_def same_snake_def)
    then show ?thesis using step_tick(2) [OF w] by (simp add: w')
  next
    case (Some s)
    from step_snakeById [OF w Some, of cfg] obtain t where "snakeById i w' = Some t" "within_limits cfg s t" by (auto simp: w')
    with Some lim step_tick [OF w, of cfg] show ?thesis by (simp add: w')
  qed
next
  case (OpSpawn p nick isBot)
  have w': "w' = snd (spawnSnake p nick isBot w)" by (simp add: w'_def run_op_def OpSpawn)
  show ?thesis
  proof (cases "getByPlayerId p w")
    case None
    obtain v s where v: "more_food w v" "snake_wf s" "se_playerId s = p" "se_id s = ws_nextEntityId v" "se_alive s"
      "spawnSnake p nick isBot w = (s, v\<lparr>ws_nextEntityId := ws_nextEntityId v + 1, ws_snakes := ws_snakes v @ [s],
         ws_playerIndex := (ws_playerIndex v)(p \<mapsto> se_id s)\<rparr>)"
      by (rule spawnSnake_new [OF None])
    have "se_id s \<noteq> i" using more_foodD(6) [OF v(1)] i v(4) by simp
    then have "snakeById i w' = snakeById i w"
      using more_foodD(1) [OF v(1)] by (simp add: w' v(6) snakeById_def find_snoc)
    then show ?thesis using more_foodD(5,6) [OF v(1)] by (cases "snakeById i w") (simp_all add: w' v(6))
  next
    case (Some s)
    then have "w' = w" by (simp add: w' spawnSnake_def)
    then show ?thesis by (cases "snakeById i w") simp_all
  qed
next
  case (OpDespawn p scatter)
  show ?thesis
  proof (cases "ws_playerIndex w p")
    case None
    then have "w' = w" by (simp add: w'_def run_op_def OpDespawn despawnSnake_def)
    then show ?thesis by (cases "snakeById i w") simp_all
  next
    case (Some k)
    define v where "v = (case snakeById k w of Some s \<Rightarrow> if scatter then scatterMass cfg s w else w | None \<Rightarrow> w)"
    have "0 \<le> se_mass s" if "snakeById k w = Some s" for s using snakeById_wf [OF w that] by (simp add: snake_wf_def)
    then have m: "more_food w v" by (auto simp: v_def intro: more_food_scatter split: option.split)
    have w': "w' = v\<lparr>ws_snakes := filter (\<lambda>s. se_id s \<noteq> k) (ws_snakes v), ws_playerIndex := (ws_playerIndex v)(p := None),
        ws_pendingInputs := (ws_pendingInputs v)(k := None)\<rparr>"
      by (simp add: w'_def run_op_def OpDespawn despawnSnake_def Some v_def [symmetric] Let_def)
    have "snakeById i w' = (if i = k then None else snakeById i w)"
      using more_foodD(1) [OF m] by (simp add: w' snakeById_def find_filter_key)
    then show ?thesis using more_foodD(5,6) [OF m] by (cases "snakeById i w") (simp_all add: w')
  qed
next
  case (OpInput p c)
  have "snakeById i w' = snakeById i w" "ws_tick w' = ws_tick w" "ws_nextEntityId w' = ws_nextEntityId w"
    by (simp_all add: w'_def run_op_def OpInput enqueueInput_def snakeById_def split: option.split)
  then show ?thesis by (cases "snakeById i w") simp_all
qed

lemma gone_ops: "world_wf w \<Longrightarrow> gone i w \<Longrightarrow> gone i (fold (run_op cfg) ops w)"
proof (induction ops arbitrary: w)
  case (Cons op ops)
  have "gone i (run_op cfg op w)" using op_snake [OF Cons.prems(1) _ refl, of i cfg op] Cons.prems(2) by (auto simp: gone_def)
  with Cons.IH [OF world_wf_op [OF Cons.prems(1)]] show ?case by simp
qed simp

lemma ops_snake:
  "world_wf w \<Longrightarrow> snakeById i w = Some s \<Longrightarrow> snakeById i (fold (run_op cfg) ops w) = Some t \<Longrightarrow>
    ws_tick w \<le> ws_tick (fold (run_op cfg) ops w) \<and>
    distance_of (headOf t) (headOf s) \<le> BASE_SPEED * BOOST_SPEED_MULTIPLIER * dtSeconds cfg * real (ws_tick (fold (run_op cfg) ops w) - ws_tick w)"
proof (induction ops arbitrary: w s)
  case (Cons op ops)
  let ?v = "run_op cfg op w" and ?M = "BASE_SPEED * BOOST_SPEED_MULTIPLIER * dtSeconds cfg"
  have wf: "world_wf ?v" by (rule world_wf_op [OF Cons.prems(1)])
  have i: "i < ws_nextEntityId w" using snakeById_wf [OF Cons.prems(1,2)] Cons.prems(1) by (auto simp: world_wf_def)
  note o = op_snake [OF Cons.prems(1) i refl, of cfg op]
  have "snakeById i ?v \<noteq> None"
  proof
    assume "snakeById i ?v = None"
    then have "gone i ?v" using o i by (simp add: gone_def)
    from gone_ops [OF wf this, of cfg ops] Cons.prems(3) show False by (simp add: gone_def)
  qed
  then obtain u where u: "snakeById i ?v = Some u" "ws_tick w \<le> ws_tick ?v" "distance_of (headOf u) (headOf s) \<le> ?M * real (ws_tick ?v - ws_tick w)"
    using o Cons.prems(2) by auto
  have IH: "ws_tick ?v \<le> ws_tick (fold (run_op cfg) ops ?v)"
    "distance_of (headOf t) (headOf u) \<le> ?M * real (ws_tick (fold (run_op cfg) ops ?v) - ws_tick ?v)"
    using Cons.IH [OF wf u(1) Cons.prems(3) [unfolded fold_simps]] by blast+
  have "real (ws_tick (fold (run_op cfg) ops ?v) - ws_tick w) = real (ws_tick (fold (run_op cfg) ops ?v) - ws_tick ?v) + real (ws_tick ?v - ws_tick w)"
    using u(2) IH(1) by simp
  then have "?M * real (ws_tick (fold (run_op cfg) ops ?v) - ws_tick w) =
      ?M * real (ws_tick (fold (run_op cfg) ops ?v) - ws_tick ?v) + ?M * real (ws_tick ?v - ws_tick w)" by (simp only: distrib_left)
  with u IH distance_triangle [of "headOf t" "headOf s" "headOf u"] show ?case
    unfolding fold_simps by (intro conjI) linarith+
qed simp

definition sample_of :: "world_state \<Rightarrow> snake_entity \<Rightarrow> movement_sample" where
  "sample_of w s = \<lparr>ms_place = headOf s, ms_tick = int (ws_tick w)\<rparr>"

text \<open>C33: The check of movement never accuses an honest server: between any two moments of a match, with any inputs, deaths,
  joins and leaves in between, a snake that is there at both has moved within the limit of the check, so the
  verdict is never speed or teleport.\<close>

theorem honest_movement_passes:
  assumes "w = fold (run_op cfg) earlier (createWorld cfg)" and "snakeById i w = Some s"
    and "w' = fold (run_op cfg) later w" and "snakeById i w' = Some t"
  shows "fst (checkMovement (sample_of w s) (sample_of w' t) (maxTravelPerTick (BASE_SPEED * dtSeconds cfg) BOOST_SPEED_MULTIPLIER)) = VerdictOk"
proof -
  let ?M = "BASE_SPEED * BOOST_SPEED_MULTIPLIER * dtSeconds cfg"
  have wf: "world_wf w" unfolding assms(1) by (rule world_wf_ops [OF world_wf_create])
  have m: "ws_tick w \<le> ws_tick w'" "distance_of (headOf t) (headOf s) \<le> ?M * real (ws_tick w' - ws_tick w)"
    using ops_snake [OF wf assms(2), of cfg later t] assms(4) unfolding assms(3) by blast+
  define n where "n = real (ws_tick w' - ws_tick w)"
  define M where "M = ?M"
  define L where "L = maxTravelPerTick (BASE_SPEED * dtSeconds cfg) BOOST_SPEED_MULTIPLIER"
  have M: "0 \<le> M" by (simp add: M_def BASE_SPEED_def BOOST_SPEED_MULTIPLIER_def)
  have L: "L = M * (105 / 100)" by (simp add: L_def M_def maxTravelPerTick_def)
  have n: "0 \<le> n" by (simp add: n_def)
  have d: "distance_of (headOf t) (headOf s) \<le> M * n" using m(2) by (simp only: M_def n_def)
  have "M * n \<le> L * n" "0 \<le> L * n" using M n by (simp_all add: L mult_right_mono)
  moreover from this have "L * n \<le> L * n * TELEPORT_FACTOR" by (simp add: TELEPORT_FACTOR_def)
  moreover have "real_of_int (int (ws_tick w') - int (ws_tick w)) = n" using m(1) by (simp add: n_def)
  ultimately have v: "\<not> L * real_of_int (int (ws_tick w') - int (ws_tick w)) * TELEPORT_FACTOR < distance_of (headOf t) (headOf s)"
    "\<not> L * real_of_int (int (ws_tick w') - int (ws_tick w)) < distance_of (headOf t) (headOf s)" using d by simp_all
  show ?thesis
    unfolding checkMovement_def sample_of_def Let_def L_def [symmetric] movement_sample.simps by (simp add: v [simplified])
qed


lemma honest_movement_passes_witness:
  "\<exists>s t. let w = fold (run_op a_config) [OpSpawn ''p'' ''n'' False] (createWorld a_config); w' = fold (run_op a_config) [OpStep] w in
    se_playerId s = ''p'' \<and> snakeById (se_id s) w = Some s \<and> snakeById (se_id s) w' = Some t \<and>
    fst (checkMovement (sample_of w s) (sample_of w' t) (maxTravelPerTick (BASE_SPEED * dtSeconds a_config) BOOST_SPEED_MULTIPLIER)) = VerdictOk"
proof -
  let ?w = "fold (run_op a_config) [OpSpawn ''p'' ''n'' False] (createWorld a_config)"
  have wf: "world_wf ?w" by (rule world_wf_ops [OF world_wf_create])
  have "getByPlayerId ''p'' (createWorld a_config) = None"
    using more_foodD(2) [OF more_food_spawns] by (simp add: getByPlayerId_def createWorld_def)
  then obtain s where s: "se_playerId s = ''p''" "s \<in> set (ws_snakes ?w)"
    by (rule spawnSnake_new [where nick = "''n''" and isBot = False]) (auto simp: run_op_def)
  note i = snakeById_Some [OF wf s(2)]
  obtain t where t: "snakeById (se_id s) (fold (run_op a_config) [OpStep] ?w) = Some t"
    using step_snakeById [OF wf i, of a_config] by (auto simp: run_op_def)
  from honest_movement_passes [OF refl i refl t] s(1) i t show ?thesis unfolding Let_def by blast
qed

text \<open>The finding: the check of kills compares heads, but a head can die on any point of a body that is thousands long.\<close>

lemma tail_kill_called_impossible: "\<not> isKillPlausible ((0, 0), 900) ((1000, 0), 16) 4"
  by (simp add: isKillPlausible_def distance_of_def hypot_def maxTravelPerTick_def radius_900 radius_16)

end
