(* ===== verification/Ticket.thy ===== *)
theory Ticket
  imports Text_Format Bytes
begin

text \<open>
  Join tickets (\<open>apps/matchmaker/src/placement/ticket.ts\<close>) and the copy of the verifier that the realtime node runs
  (\<open>apps/realtime/src/io/middleware/authenticate.ts\<close>). A ticket is the claims as JSON in base64url, a dot, and an
  HMAC of that payload. The HMAC and the JSON text of the claims are arguments (\<open>ticket_env\<close>): what JSON is
  asked for is that it reads back what it wrote (\<open>json_law\<close>). Base64url is modelled as the platform has it.
\<close>

section \<open>Base64url\<close>

definition BASE64URL :: string where
  "BASE64URL = ''ABCDEFGHIJKLMNOPQRSTUVWXYZabcdefghijklmnopqrstuvwxyz0123456789-_''"

definition sextet :: "nat \<Rightarrow> char" where
  "sextet n = BASE64URL ! n"

fun base64url :: "byte list \<Rightarrow> string" where
  "base64url [] = []"
| "base64url [a] = (let n = unat a * 16 in [sextet (n div 64), sextet (n mod 64)])"
| "base64url [a, b] = (let n = (unat a * 256 + unat b) * 4 in
     [sextet (n div 4096), sextet (n div 64 mod 64), sextet (n mod 64)])"
| "base64url (a # b # c # bs) = (let n = (unat a * 256 + unat b) * 256 + unat c in
     sextet (n div 262144) # sextet (n div 4096 mod 64) # sextet (n div 64 mod 64) # sextet (n mod 64) # base64url bs)"

text \<open>The decoder takes both alphabets and passes over what is in neither.\<close>

definition sextet_value :: "char \<Rightarrow> nat option" where
  "sextet_value c = (if c = CHR ''+'' then Some 62 else if c = CHR ''/'' then Some 63
     else find_index (\<lambda>d. d = c) BASE64URL)"

definition low_byte :: "nat \<Rightarrow> byte" where
  "low_byte n = word_of_nat (n mod 256)"

fun join_sextets :: "nat list \<Rightarrow> byte list" where
  "join_sextets (p # q # r # s # ns) = (let n = ((p * 64 + q) * 64 + r) * 64 + s in
     low_byte (n div 65536) # low_byte (n div 256) # low_byte n # join_sextets ns)"
| "join_sextets [p, q, r] = (let n = (p * 64 + q) * 64 + r in [low_byte (n div 1024), low_byte (n div 4)])"
| "join_sextets [p, q] = [low_byte ((p * 64 + q) div 16)]"
| "join_sextets _ = []"

definition from_base64url :: "string \<Rightarrow> byte list" where
  "from_base64url s = join_sextets (List.map_filter sextet_value s)"

lemma sextet_all: "list_all (\<lambda>n. sextet_value (sextet n) = Some n \<and> sextet n \<noteq> CHR ''.'') [0..<64]"
  by code_simp

lemma sextet_value_sextet: "n < 64 \<Longrightarrow> sextet_value (sextet n) = Some n"
  and sextet_plain: "n < 64 \<Longrightarrow> sextet n \<noteq> CHR ''.''"
  using sextet_all by (simp_all add: list_all_iff)

lemma low_byte_eq: "n mod 256 = unat a \<Longrightarrow> low_byte n = a"
  by (simp add: low_byte_def)

lemma byte_bound: "unat (a :: byte) < 256"
  using unsigned_less [of a] by simp

lemma sextets_3: "(n div 4096 * 64 + n div 64 mod 64) * 64 + n mod 64 = (n :: nat)"
  using div_mult_mod_eq [of n 64] div_mult_mod_eq [of "n div 64" 64] by (simp add: div_mult2_eq [of n 64 64, simplified])

lemma sextets_4: "((n div 262144 * 64 + n div 4096 mod 64) * 64 + n div 64 mod 64) * 64 + n mod 64 = (n :: nat)"
  using sextets_3 [of "n div 64"] div_mult_mod_eq [of n 64] by (simp add: div_mult2_eq [of n 64, symmetric])

lemma below_64: "a < 256 \<Longrightarrow> a * 16 div 64 < (64 :: nat)"
  "a < 256 \<Longrightarrow> b < 256 \<Longrightarrow> (a * 256 + b) * 4 div 4096 < (64 :: nat)"
  "a < 256 \<Longrightarrow> b < 256 \<Longrightarrow> c < 256 \<Longrightarrow> ((a * 256 + b) * 256 + c) div 262144 < (64 :: nat)"
  by (rule less_mult_imp_div_less, simp)+

lemma decode_sextets:
  "n div 64 < 64 \<Longrightarrow> from_base64url [sextet (n div 64), sextet (n mod 64)] = [low_byte (n div 16)]"
  "n div 4096 < 64 \<Longrightarrow> from_base64url [sextet (n div 4096), sextet (n div 64 mod 64), sextet (n mod 64)] =
     [low_byte (n div 1024), low_byte (n div 4)]"
  "n div 262144 < 64 \<Longrightarrow> from_base64url (sextet (n div 262144) # sextet (n div 4096 mod 64) # sextet (n div 64 mod 64) #
     sextet (n mod 64) # cs) = low_byte (n div 65536) # low_byte (n div 256) # low_byte n # from_base64url cs"
  by (simp_all add: from_base64url_def map_filter_simps sextet_value_sextet Let_def sextets_3 sextets_4 del: distrib_right_numeral)

lemma base64url_roundtrip: "from_base64url (base64url bs) = bs"
proof (induction bs rule: base64url.induct)
  case (2 a)
  define n where "n = unat a * 16"
  have "n div 64 < 64" using below_64(1) [OF byte_bound] by (simp only: n_def)
  then have "from_base64url (base64url [a]) = [low_byte (n div 16)]"
    by (simp only: base64url.simps Let_def decode_sextets flip: n_def)
  then show ?case using byte_bound [of a] by (simp add: n_def low_byte_def)
next
  case (3 a b)
  define n where "n = (unat a * 256 + unat b) * 4"
  have "n div 4096 < 64" using below_64(2) [OF byte_bound byte_bound] by (simp only: n_def)
  then have "from_base64url (base64url [a, b]) = [low_byte (n div 1024), low_byte (n div 4)]"
    by (simp only: base64url.simps Let_def decode_sextets flip: n_def)
  moreover have "n div 1024 = (unat a * 256 + unat b) div 256" using div_mult2_eq [of n 4 256] by (simp add: n_def)
  ultimately show ?case using byte_bound [of a] byte_bound [of b] by (simp add: n_def low_byte_def)
next
  case (4 a b c bs)
  define n where "n = (unat a * 256 + unat b) * 256 + unat c"
  have "n div 262144 < 64" using below_64(3) [OF byte_bound byte_bound byte_bound] by (simp only: n_def)
  then have "from_base64url (base64url (a # b # c # bs)) =
      low_byte (n div 65536) # low_byte (n div 256) # low_byte n # from_base64url (base64url bs)"
    by (simp only: base64url.simps Let_def decode_sextets flip: n_def)
  moreover have "n div 256 = unat a * 256 + unat b" "n mod 256 = unat c"
    using byte_bound [of c] by (simp add: n_def) (use byte_bound [of c] in \<open>simp only: n_def mod_mult_self3 mod_less\<close>)
  moreover have "n div 65536 = n div 256 div 256" by (simp add: div_mult2_eq [symmetric])
  ultimately have "from_base64url (base64url (a # b # c # bs)) = low_byte (unat a) # low_byte (unat a * 256 + unat b) # low_byte n # bs"
    using byte_bound [of b] 4 by simp
  moreover have "low_byte (unat a) = a" "low_byte (unat a * 256 + unat b) = b" "low_byte n = c"
    using byte_bound [of a] byte_bound [of b] \<open>n mod 256 = unat c\<close> by (intro low_byte_eq; simp)+
  ultimately show ?case by simp
qed (simp add: from_base64url_def map_filter_simps)

lemma base64url_plain: "CHR ''.'' \<notin> set (base64url bs)"
proof -
  have plain: "n < 64 \<Longrightarrow> CHR ''.'' \<noteq> sextet n" for n using sextet_plain by metis
  show ?thesis
  proof (induction bs rule: base64url.induct)
    case (2 a)
    show ?case using below_64(1) [OF byte_bound, of a] by (auto simp: Let_def plain)
  next
    case (3 a b)
    show ?case using below_64(2) [OF byte_bound byte_bound, of a b] by (auto simp: Let_def plain)
  next
    case (4 a b c bs)
    then show ?case using below_64(3) [OF byte_bound byte_bound byte_bound, of a b c] by (auto simp: Let_def plain)
  qed simp
qed

section \<open>Tickets\<close>

record ticket_claims =
  tk_playerId :: string
  tk_wallet :: string
  tk_roomId :: string
  tk_nodeId :: string
  tk_nickname :: string
  tk_gameId :: "string option"
  tk_issuedAt :: int
  tk_expiresAt :: int

definition TICKET_TTL_MS :: int where "TICKET_TTL_MS = 30000"

text \<open>What parsing a payload gives: no JSON, \<open>null\<close>, an object without a number as its expiry, or claims.\<close>

datatype ticket_json = NotJson | JsonNull | Untimed | Claims ticket_claims

record ticket_env =
  te_stringify :: "ticket_claims \<Rightarrow> byte list"
  te_parse :: "byte list \<Rightarrow> ticket_json"
  te_hmac :: "string \<Rightarrow> string \<Rightarrow> byte list"

definition json_law :: "ticket_env \<Rightarrow> bool" where
  "json_law te \<longleftrightarrow> (\<forall>c. te_parse te (te_stringify te c) = Claims c)"

datatype ticket_error = Malformed | BadSignature | TicketExpired | NullClaims

fun split_on :: "char \<Rightarrow> string \<Rightarrow> string list" where
  "split_on d [] = [[]]"
| "split_on d (c # cs) = (if c = d then [] # split_on d cs
     else (case split_on d cs of [] \<Rightarrow> [[c]] | p # ps \<Rightarrow> (c # p) # ps))"

definition sign_ticket :: "ticket_env \<Rightarrow> string \<Rightarrow> string \<Rightarrow> string" where
  "sign_ticket te payload secret = base64url (te_hmac te secret payload)"

definition mintTicket :: "ticket_env \<Rightarrow> ticket_claims \<Rightarrow> string \<Rightarrow> string" where
  "mintTicket te claims secret =
    (let payload = base64url (te_stringify te claims) in payload @ ''.'' @ sign_ticket te payload secret)"

definition verifyTicket :: "ticket_env \<Rightarrow> string \<Rightarrow> string \<Rightarrow> int \<Rightarrow> (ticket_error, ticket_claims) res" where
  "verifyTicket te ticket secret now =
    (case split_on CHR ''.'' ticket of
       [payload, signature] \<Rightarrow>
         (let expected = sign_ticket te payload secret in
          if length expected \<noteq> length signature \<or> expected \<noteq> signature then Inl BadSignature
          else (case te_parse te (from_base64url payload) of
                  NotJson \<Rightarrow> Inl Malformed
                | JsonNull \<Rightarrow> Inl NullClaims
                | Untimed \<Rightarrow> Inl TicketExpired
                | Claims c \<Rightarrow> if tk_expiresAt c \<le> now then Inl TicketExpired else Inr c))
     | _ \<Rightarrow> Inl Malformed)"

text \<open>The copy on the realtime node throws plain errors; a payload that does not parse throws the parser's own.\<close>

datatype node_ticket_error = MalformedTicket | BadTicketSignature | TicketIsExpired | ParserThrew | TypeErrorThrew

definition nodeVerifyTicket :: "ticket_env \<Rightarrow> string \<Rightarrow> string \<Rightarrow> int \<Rightarrow> (node_ticket_error, ticket_claims) res" where
  "nodeVerifyTicket te ticket secret now =
    (let parts = split_on CHR ''.'' ticket in
     if length parts \<noteq> 2 then Inl MalformedTicket
     else (let payload = parts ! 0; provided = parts ! 1; expected = base64url (te_hmac te secret payload) in
       if length expected \<noteq> length provided \<or> expected \<noteq> provided then Inl BadTicketSignature
       else (case te_parse te (from_base64url payload) of
               NotJson \<Rightarrow> Inl ParserThrew
             | JsonNull \<Rightarrow> Inl TypeErrorThrew
             | Untimed \<Rightarrow> Inl TicketIsExpired
             | Claims c \<Rightarrow> if tk_expiresAt c \<le> now then Inl TicketIsExpired else Inr c)))"

record claims_params =
  cp_playerId :: string
  cp_wallet :: string
  cp_roomId :: string
  cp_nodeId :: string
  cp_nickname :: string
  cp_gameId :: "string option"

definition buildTicketClaims :: "claims_params \<Rightarrow> int \<Rightarrow> ticket_claims" where
  "buildTicketClaims p issuedAt =
    \<lparr>tk_playerId = cp_playerId p, tk_wallet = cp_wallet p, tk_roomId = cp_roomId p, tk_nodeId = cp_nodeId p,
     tk_nickname = cp_nickname p, tk_gameId = cp_gameId p, tk_issuedAt = issuedAt,
     tk_expiresAt = issuedAt + TICKET_TTL_MS\<rparr>"

section \<open>What a ticket proves\<close>

lemma split_on_not_Nil [simp]: "split_on d s \<noteq> []"
  by (induction s) (auto split: list.split)

lemma split_on_plain: "d \<notin> set s \<Longrightarrow> split_on d s = [s]"
  by (induction s) auto

lemma split_on_append: "d \<notin> set p \<Longrightarrow> split_on d (p @ d # s) = p # split_on d s"
  by (induction p) auto

lemma split_on_two: "split_on d s = [p, q] \<Longrightarrow> s = p @ d # q"
proof (induction s arbitrary: p)
  case (Cons c cs)
  show ?case
  proof (cases "c = d")
    case True
    with Cons.prems have "p = []" "split_on d cs = [q]" by auto
    moreover have "split_on d s = [r] \<Longrightarrow> s = r" for s r
      by (induction s arbitrary: r) (auto split: if_splits list.splits)
    ultimately show ?thesis using True by simp
  next
    case False
    then obtain p' where "split_on d cs = [p', q]" "p = c # p'"
      using Cons.prems by (auto split: list.splits)
    with Cons.IH show ?thesis by simp
  qed
qed simp

lemma split_minted: "split_on CHR ''.'' (mintTicket te c secret) =
    [base64url (te_stringify te c), sign_ticket te (base64url (te_stringify te c)) secret]"
  by (simp add: mintTicket_def Let_def sign_ticket_def split_on_append split_on_plain base64url_plain)

text \<open>The two copies of the verifier accept the same tickets, with the same claims.\<close>

lemma verifiers_agree: "nodeVerifyTicket te ticket secret now = Inr c \<longleftrightarrow> verifyTicket te ticket secret now = Inr c"
proof (cases "split_on CHR ''.'' ticket")
  case (Cons payload rest)
  show ?thesis
  proof (cases rest)
    case (Cons signature more_parts)
    then show ?thesis using \<open>split_on CHR ''.'' ticket = payload # rest\<close>
      by (cases more_parts) (auto simp: nodeVerifyTicket_def verifyTicket_def Let_def sign_ticket_def split: ticket_json.split)
  qed (use Cons in \<open>simp add: nodeVerifyTicket_def verifyTicket_def\<close>)
qed simp

lemma verify_minted:
  assumes "json_law te"
  shows "verifyTicket te (mintTicket te c secret) secret now = (if now < tk_expiresAt c then Inr c else Inl TicketExpired)"
  using assms by (simp add: verifyTicket_def split_minted base64url_roundtrip json_law_def)

lemma verified_is_signed:
  assumes "verifyTicket te ticket secret now = Inr c"
  shows "\<exists>payload. ticket = payload @ ''.'' @ sign_ticket te payload secret \<and> te_parse te (from_base64url payload) = Claims c \<and>
    now < tk_expiresAt c"
proof -
  obtain payload signature where "split_on CHR ''.'' ticket = [payload, signature]"
    using assms by (auto simp: verifyTicket_def split: list.splits)
  moreover from split_on_two [OF this] have "ticket = payload @ ''.'' @ signature" by simp
  ultimately show ?thesis using assms
    by (auto simp: verifyTicket_def Let_def split: if_splits ticket_json.splits)
qed

text \<open>Minting is injective, so a ticket names one set of claims.\<close>

lemma mintTicket_inj: "json_law te \<Longrightarrow> mintTicket te c secret = mintTicket te c' secret \<Longrightarrow> c = c'"
  using split_minted [of te c secret] split_minted [of te c' secret]
  by (metis base64url_roundtrip json_law_def list.inject ticket_json.inject)

end
