(* ===== verification/Placement.thy ===== *)
theory Placement
  imports Ticket Numbers "HOL-Library.AList"
begin

text \<open>
  Where a match is placed (\<open>apps/matchmaker/src/placement/strategy.ts\<close>, \<open>registry.ts\<close>): the registry of realtime nodes,
  the nodes that are fit to take a room, and the choice among them. What Redis holds is one map from keys to values
  with an expiry, under the keys of \<open>packages/redis/src/keys.ts\<close>; JSON text is a value that has been parsed, or that
  does not parse. Loads are real numbers.
\<close>

section \<open>What Redis holds\<close>

record raw_node =
  rn_nodeId :: "string option"
  rn_advertiseUrl :: "string option"
  rn_region :: "string option"
  rn_rooms :: "real option"
  rn_players :: "real option"
  rn_maxRooms :: "real option"
  rn_saturation :: "real option"
  rn_updatedAt :: "real option"
  rn_draining :: bool

datatype node_json = NodeNotJson | NodeNotObject | NodeObject raw_node

record staged_meta =
  sg_roomId :: string
  sg_gameId :: string
  sg_tierId :: string
  sg_realtimeUrl :: string

record open_match =
  om_roomId :: string
  om_nodeId :: string
  om_realtimeUrl :: string

datatype redis_value = TicketText string | MetaJson staged_meta | RoomText string
  | OpenJson open_match | OpenNotJson | NodePayload node_json

text \<open>\<open>cl_removals\<close> are the removals from the index that a reader has sent without waiting and that have not landed yet.\<close>

record cluster_db =
  cl_keys :: "string \<Rightarrow> (redis_value \<times> int) option"
  cl_nodes :: "string list"
  cl_removals :: "string list list"

definition live :: "int \<Rightarrow> cluster_db \<Rightarrow> string \<Rightarrow> redis_value option" where
  "live now db key = (case cl_keys db key of None \<Rightarrow> None | Some (v, e) \<Rightarrow> if now < e then Some v else None)"

definition put :: "string \<Rightarrow> redis_value \<Rightarrow> int \<Rightarrow> cluster_db \<Rightarrow> cluster_db" where
  "put key v expires db = db\<lparr>cl_keys := (cl_keys db)(key \<mapsto> (v, expires))\<rparr>"

definition del :: "string \<Rightarrow> cluster_db \<Rightarrow> cluster_db" where
  "del key db = db\<lparr>cl_keys := (cl_keys db)(key := None)\<rparr>"

definition matchTicket :: "string \<Rightarrow> string" where "matchTicket pid = ''ticket:'' @ pid"

definition stagedMetaKey :: "string \<Rightarrow> string" where "stagedMetaKey pid = ''ticket:meta:'' @ pid"

definition reconnectRoom :: "string \<Rightarrow> string" where "reconnectRoom pid = ''reconnect:'' @ pid"

definition openMatchKey :: "string \<Rightarrow> string" where "openMatchKey tid = ''match:open:'' @ tid"

definition nodeHeartbeat :: "string \<Rightarrow> string" where "nodeHeartbeat nodeId = ''cluster:node:'' @ nodeId"

section \<open>The registry\<close>

record node_candidate =
  cd_nodeId :: string
  cd_advertiseUrl :: string
  cd_region :: string
  cd_rooms :: real
  cd_players :: real
  cd_maxRooms :: real
  cd_saturation :: real
  cd_updatedAt :: real
  cd_draining :: bool

definition parseNodePayload :: "node_json option \<Rightarrow> node_candidate option" where
  "parseNodePayload raw =
    (case raw of
       Some (NodeObject n) \<Rightarrow>
         (case (rn_nodeId n, rn_advertiseUrl n, rn_region n, rn_rooms n, rn_players n, rn_maxRooms n, rn_saturation n, rn_updatedAt n) of
            (Some i, Some url, Some region, Some rooms, Some players, Some maxRooms, Some saturation, Some updatedAt) \<Rightarrow>
              if i = '''' then None
              else Some \<lparr>cd_nodeId = i, cd_advertiseUrl = url, cd_region = region, cd_rooms = rooms, cd_players = players,
                cd_maxRooms = maxRooms, cd_saturation = saturation, cd_updatedAt = updatedAt, cd_draining = rn_draining n\<rparr>
          | _ \<Rightarrow> None)
     | _ \<Rightarrow> None)"

text \<open>The index is read first (\<open>ids\<close>), then the payloads in one go. The removal of the ids whose payload is gone or unusable is
  sent and not waited for, so it lands at some later moment, or never.\<close>

definition nodePayload :: "int \<Rightarrow> cluster_db \<Rightarrow> string \<Rightarrow> node_json option" where
  "nodePayload now db i = (case live now db (nodeHeartbeat i) of Some (NodePayload p) \<Rightarrow> Some p | Some _ \<Rightarrow> Some NodeNotJson | None \<Rightarrow> None)"

definition loadFrom :: "string list \<Rightarrow> int \<Rightarrow> cluster_db \<Rightarrow> node_candidate list \<times> cluster_db" where
  "loadFrom ids now db =
    (let parsed = map (\<lambda>i. (i, parseNodePayload (nodePayload now db i))) ids;
         dead = map fst (filter (\<lambda>(i, n). n = None) parsed)
     in (List.map_filter snd parsed, if dead = [] then db else db\<lparr>cl_removals := cl_removals db @ [dead]\<rparr>))"

definition loadNodes :: "int \<Rightarrow> cluster_db \<Rightarrow> node_candidate list \<times> cluster_db" where
  "loadNodes now db = loadFrom (cl_nodes db) now db"

definition removalLands :: "nat \<Rightarrow> cluster_db \<Rightarrow> cluster_db" where
  "removalLands n db =
    (if n < length (cl_removals db)
     then db\<lparr>cl_nodes := filter (\<lambda>i. i \<notin> set (cl_removals db ! n)) (cl_nodes db),
            cl_removals := take n (cl_removals db) @ drop (Suc n) (cl_removals db)\<rparr>
     else db)"

section \<open>The choice\<close>

datatype strategy = LeastLoaded | BestFit | RegionAffinity

definition filterHealthy :: "int \<Rightarrow> int \<Rightarrow> node_candidate list \<Rightarrow> node_candidate list" where
  "filterHealthy maxAgeMs now candidates =
    filter (\<lambda>n. \<not> cd_draining n \<and> cd_rooms n < cd_maxRooms n \<and> of_int now - cd_updatedAt n \<le> of_int maxAgeMs) candidates"

definition placementPool :: "node_candidate list \<Rightarrow> string \<Rightarrow> strategy \<Rightarrow> node_candidate list" where
  "placementPool candidates region strat =
    (let inRegion = filter (\<lambda>n. cd_region n = region) candidates
     in if strat = RegionAffinity then inRegion else if 0 < length inRegion then inRegion else candidates)"

definition usableNodes :: "node_candidate list \<Rightarrow> node_candidate list" where
  "usableNodes pool =
    (let usable = filter (\<lambda>n. cd_saturation n < 85 / 100) pool in if 0 < length usable then usable else pool)"

definition selectPlacement :: "node_candidate list \<Rightarrow> string \<Rightarrow> strategy \<Rightarrow> node_candidate option" where
  "selectPlacement candidates region strat =
    (if candidates = [] then None
     else (let pool = placementPool candidates region strat in
       if pool = [] then None
       else (let sorted_pool = sort_key (\<lambda>n. if strat = LeastLoaded then cd_saturation n else - cd_saturation n) (usableNodes pool)
             in case sorted_pool of [] \<Rightarrow> None | chosen # _ \<Rightarrow> Some chosen)))"

text \<open>\<open>GET /servers\<close>: one line per region, in the order the regions first appear.\<close>

record region_load =
  rl_nodes :: nat
  rl_players :: real
  rl_saturation :: real

definition addNode :: "node_candidate \<Rightarrow> (string \<times> region_load) list \<Rightarrow> (string \<times> region_load) list" where
  "addNode n acc =
    (let b = (case map_of acc (cd_region n) of Some b \<Rightarrow> b | None \<Rightarrow> \<lparr>rl_nodes = 0, rl_players = 0, rl_saturation = 0\<rparr>)
     in AList.update (cd_region n)
          \<lparr>rl_nodes = rl_nodes b + 1, rl_players = rl_players b + cd_players n, rl_saturation = rl_saturation b + cd_saturation n\<rparr> acc)"

definition regionalCapacity :: "node_candidate list \<Rightarrow> (string \<times> region_load) list" where
  "regionalCapacity healthy =
    map (\<lambda>(region, b). (region, b\<lparr>rl_saturation := (if rl_nodes b = 0 then 0 else rl_saturation b / of_nat (rl_nodes b))\<rparr>))
      (fold addNode healthy [])"

definition serversRoute :: "int \<Rightarrow> int \<Rightarrow> cluster_db \<Rightarrow> (string \<times> region_load) list \<times> cluster_db" where
  "serversRoute maxAgeMs now db =
    (case loadNodes now db of (nodes, db') \<Rightarrow> (regionalCapacity (filterHealthy maxAgeMs now nodes), db'))"

section \<open>Facts\<close>

lemma live_put: "live now (put k v e db) k' = (if k' = k then if now < e then Some v else None else live now db k')"
  by (simp add: live_def put_def)

lemma live_del: "live now (del k db) k' = (if k' = k then None else live now db k')"
  by (simp add: live_def del_def)

lemma put_nodes [simp]: "cl_nodes (put k v e db) = cl_nodes db" "cl_nodes (del k db) = cl_nodes db"
  by (simp_all add: put_def del_def)

lemma loadNodes_db [simp]:
  "cl_keys (snd (loadNodes now db)) = cl_keys db" "cl_nodes (snd (loadNodes now db)) = cl_nodes db"
  by (simp_all add: loadNodes_def loadFrom_def Let_def)

lemma loadNodes_keys: "live now (snd (loadNodes t db)) k = live now db k"
  by (simp add: live_def)

text \<open>The keys of different players, and of different purposes, are different, as ids have no colon.\<close>

definition plain_id :: "string \<Rightarrow> bool" where "plain_id p \<longleftrightarrow> CHR '':'' \<notin> set p"

lemma key_simps [simp]:
  "matchTicket p = matchTicket q \<longleftrightarrow> p = q" "stagedMetaKey p = stagedMetaKey q \<longleftrightarrow> p = q"
  "reconnectRoom p = reconnectRoom q \<longleftrightarrow> p = q" "openMatchKey s = openMatchKey t \<longleftrightarrow> s = t"
  "matchTicket p \<noteq> reconnectRoom q" "matchTicket p \<noteq> openMatchKey t" "stagedMetaKey p \<noteq> reconnectRoom q"
  "stagedMetaKey p \<noteq> openMatchKey t" "reconnectRoom p \<noteq> openMatchKey t"
  "reconnectRoom q \<noteq> matchTicket p" "openMatchKey t \<noteq> matchTicket p" "reconnectRoom q \<noteq> stagedMetaKey p"
  "openMatchKey t \<noteq> stagedMetaKey p" "openMatchKey t \<noteq> reconnectRoom p"
  by (simp_all add: matchTicket_def stagedMetaKey_def reconnectRoom_def openMatchKey_def)

lemma meta_key [simp]:
  "plain_id p \<Longrightarrow> matchTicket p \<noteq> stagedMetaKey q" "plain_id p \<Longrightarrow> stagedMetaKey q \<noteq> matchTicket p"
  by (auto simp: matchTicket_def stagedMetaKey_def plain_id_def)

lemma selectPlacement_Some:
  assumes "selectPlacement candidates region strat = Some n"
  shows "n \<in> set (usableNodes (placementPool candidates region strat))"
    and "m \<in> set (usableNodes (placementPool candidates region strat)) \<Longrightarrow>
      if strat = LeastLoaded then cd_saturation n \<le> cd_saturation m else cd_saturation m \<le> cd_saturation n"
proof -
  let ?key = "\<lambda>n. if strat = LeastLoaded then cd_saturation n else - cd_saturation n"
  let ?pool = "usableNodes (placementPool candidates region strat)"
  obtain rest where s: "sort_key ?key ?pool = n # rest"
    using assms by (auto simp: selectPlacement_def Let_def split: if_splits list.splits)
  have "set (n # rest) = set ?pool" using s [symmetric] by simp
  moreover have "sorted (map ?key (n # rest))" unfolding s [symmetric] by simp
  ultimately show "n \<in> set ?pool"
    and "m \<in> set ?pool \<Longrightarrow> if strat = LeastLoaded then cd_saturation n \<le> cd_saturation m else cd_saturation m \<le> cd_saturation n"
    by (auto simp: sorted_map split: if_splits)
qed

lemma selectPlacement_None: "selectPlacement candidates region strat = None \<longleftrightarrow> placementPool candidates region strat = []"
proof -
  have "sort_key f xs = [] \<longleftrightarrow> xs = []" for f :: "node_candidate \<Rightarrow> real" and xs
    by (metis length_0_conv length_sort)
  moreover have "usableNodes xs = [] \<longleftrightarrow> xs = []" for xs by (auto simp: usableNodes_def Let_def)
  ultimately show ?thesis
    by (auto simp: selectPlacement_def Let_def placementPool_def split: list.split)
qed

lemma set_pool: "set (usableNodes (placementPool candidates region strat)) \<subseteq> set candidates"
  by (auto simp: usableNodes_def placementPool_def Let_def split: if_splits)

lemma map_of_addNode: "map_of (addNode n acc) r = (if r = cd_region n then
    Some (let b = (case map_of acc r of Some b \<Rightarrow> b | None \<Rightarrow> \<lparr>rl_nodes = 0, rl_players = 0, rl_saturation = 0\<rparr>) in
      \<lparr>rl_nodes = rl_nodes b + 1, rl_players = rl_players b + cd_players n, rl_saturation = rl_saturation b + cd_saturation n\<rparr>)
    else map_of acc r)"
  by (simp add: addNode_def Let_def update_conv' split: option.split)

text \<open>What a node has to be, and which of two such nodes is to be preferred: one in the region over one
  outside it; of two alike in that, one with headroom over one without; of two alike in both, the busier,
  or the less busy when the strategy says so.\<close>

definition fit_node :: "int \<Rightarrow> int \<Rightarrow> node_candidate \<Rightarrow> bool" where
  "fit_node maxAge now n \<longleftrightarrow>
     \<not> cd_draining n \<and> cd_rooms n < cd_maxRooms n \<and> of_int now - cd_updatedAt n \<le> of_int maxAge"

definition at_least_as_good :: "string \<Rightarrow> strategy \<Rightarrow> node_candidate \<Rightarrow> node_candidate \<Rightarrow> bool" where
  "at_least_as_good region strat n m \<longleftrightarrow>
     cd_region n = region \<and> cd_region m \<noteq> region \<or>
     (cd_region n = region \<longleftrightarrow> cd_region m = region) \<and>
     (cd_saturation n < 85 / 100 \<and> 85 / 100 \<le> cd_saturation m \<or>
      (cd_saturation n < 85 / 100 \<longleftrightarrow> cd_saturation m < 85 / 100) \<and>
      (if strat = LeastLoaded then cd_saturation n \<le> cd_saturation m else cd_saturation m \<le> cd_saturation n))"

text \<open>
  C16: a new match is placed where it should be: on a node that is alive, not draining and has room, in the
  region asked for under region affinity, such that no other such node is better. A node in the region is
  better than one outside it; among nodes alike in that, one with headroom is better than one without; and
  among those alike in both, the busier one is, or the less busy one if the strategy is to spread the load.
  There is no placement only if no node is fit, or none in the region under region affinity.
\<close>

theorem placement_is_fit:
  "(let fit = filter (\<lambda>m. fit_node maxAge now m \<and> (strat = RegionAffinity \<longrightarrow> cd_region m = region)) candidates
    in case selectPlacement (filterHealthy maxAge now candidates) region strat of
         None \<Rightarrow> fit = []
       | Some n \<Rightarrow> n \<in> set fit \<and> list_all (at_least_as_good region strat n) fit)"
proof -
  let ?h = "filterHealthy maxAge now candidates"
  have h: "set ?h = {m \<in> set candidates. fit_node maxAge now m}" by (auto simp: filterHealthy_def fit_node_def)
  show ?thesis
  proof (cases "selectPlacement ?h region strat")
    case None
    then have "placementPool ?h region strat = []" by (simp add: selectPlacement_None)
    then have none: "m \<notin> set ?h" if "strat = RegionAffinity \<longrightarrow> cd_region m = region" for m
      using that by (auto simp: placementPool_def Let_def filter_empty_conv split: if_splits)
    show ?thesis unfolding None option.case Let_def using none by (auto simp: filter_empty_conv h)
  next
    case (Some n)
    note facts = selectPlacement_Some [OF Some]
    have n: "n \<in> set ?h" using facts(1) set_pool by blast
    have region: "strat = RegionAffinity \<longrightarrow> cd_region n = region"
      using facts(1) by (auto simp: usableNodes_def placementPool_def Let_def split: if_splits)
    have "at_least_as_good region strat n m"
      if m: "m \<in> set ?h" "strat = RegionAffinity \<longrightarrow> cd_region m = region" for m
    proof (cases "cd_region n = region \<and> cd_region m \<noteq> region")
      case True
      then show ?thesis by (simp add: at_least_as_good_def)
    next
      case False
      have pool: "m \<in> set (placementPool ?h region strat) \<and> (cd_region n = region \<longleftrightarrow> cd_region m = region)"
        using facts(1) m False by (auto simp: usableNodes_def placementPool_def Let_def filter_empty_conv split: if_splits)
      have use: "m \<in> set (usableNodes (placementPool ?h region strat)) \<or> cd_saturation n < 85 / 100 \<and> 85 / 100 \<le> cd_saturation m"
        using facts(1) pool by (auto simp: usableNodes_def Let_def filter_empty_conv split: if_splits)
      have same: "cd_saturation n < 85 / 100 \<longleftrightarrow> cd_saturation m < 85 / 100"
        if "m \<in> set (usableNodes (placementPool ?h region strat))"
        using facts(1) that by (auto simp: usableNodes_def Let_def filter_empty_conv split: if_splits)
      show ?thesis using use same facts(2) pool by (auto simp: at_least_as_good_def)
    qed
    with n region Some h show ?thesis by (auto simp: list_all_iff Let_def)
  qed
qed

definition a_node :: "string \<Rightarrow> real \<Rightarrow> node_candidate" where
  "a_node i load = \<lparr>cd_nodeId = i, cd_advertiseUrl = ''wss://'' @ i, cd_region = ''us-east'', cd_rooms = 3, cd_players = 40,
     cd_maxRooms = 50, cd_saturation = load, cd_updatedAt = 9000, cd_draining = False\<rparr>"

theorem placement_is_fit_witness:
  "selectPlacement (filterHealthy 10000 10000 [a_node ''a'' (1 / 2), a_node ''b'' (9 / 10), a_node ''c'' (3 / 5)]) ''eu-west'' BestFit =
     Some (a_node ''c'' (3 / 5)) \<and>
   list_all (at_least_as_good ''eu-west'' BestFit (a_node ''c'' (3 / 5)))
     [a_node ''a'' (1 / 2), a_node ''b'' (9 / 10), a_node ''c'' (3 / 5)]"
proof -
  let ?c = "[a_node ''a'' (1 / 2), a_node ''b'' (9 / 10), a_node ''c'' (3 / 5)]"
  have p: "selectPlacement (filterHealthy 10000 10000 ?c) ''eu-west'' BestFit = Some (a_node ''c'' (3 / 5))"
    by (simp add: filterHealthy_def selectPlacement_def placementPool_def usableNodes_def a_node_def Let_def)
  have f: "filter (fit_node 10000 10000) ?c = ?c" by (simp add: fit_node_def a_node_def)
  from placement_is_fit [of 10000 10000 BestFit "''eu-west''" ?c] p f show ?thesis by (simp only: Let_def option.case strategy.distinct simp_thms)
qed

end
