(* ===== verification/Matchmaker.thy ===== *)
theory Matchmaker
  imports Placement Lobby_Service
begin

text \<open>
  Getting into a match (\<open>apps/matchmaker/src/routes/match.routes.ts\<close>, the launch of \<open>plugins/lobbies.ts\<close>): a launch
  stages a ticket for each player of the lobby; \<open>POST /matchmake\<close> hands the staged ticket out, or mints one for the
  game bound to the tier, or for the open world that entrants of a tier share. The race for that world is a machine
  of one Redis command per step, so that entrants can be interleaved; \<open>openMatch\<close> runs it for one request, with what
  others do between its commands as the argument \<open>others\<close>.
\<close>

section \<open>Data\<close>

record mm_config =
  mc_env :: ticket_env
  mc_secret :: string
  mc_strategy :: strategy
  mc_heartbeatTtlSeconds :: int
  mc_noteLands :: "int \<Rightarrow> string \<Rightarrow> bool"

record match_request =
  mr_playerId :: string
  mr_wallet :: string
  mr_nickname :: "string option"
  mr_mode :: string
  mr_region :: "string option"
  mr_tierId :: "string option"

record match_ticket =
  mt_roomId :: string
  mt_realtimeUrl :: string
  mt_ticket :: string
  mt_expiresAt :: int
  mt_region :: string
  mt_mode :: string

datatype placement_error = NoCapacity | NoPlacement

definition RECONNECT_WINDOW_MS :: int where "RECONNECT_WINDOW_MS = 5 * 60000"

definition OPEN_MATCH_TTL_MS :: int where "OPEN_MATCH_TTL_MS = 5 * 60000"

definition STAGED_TTL_MS :: int where "STAGED_TTL_MS = 60 * 1000"

definition roomIdOf :: "string \<Rightarrow> string" where
  "roomIdOf gid = take 16 (filter (\<lambda>c. c \<noteq> CHR ''-'') gid)"

text \<open>The note that lets a player in again is written as best it can: \<open>mc_noteLands\<close> says when, and for whom, the write lands.\<close>

definition noteReconnectRoom :: "mm_config \<Rightarrow> int \<Rightarrow> string \<Rightarrow> string \<Rightarrow> cluster_db \<Rightarrow> cluster_db" where
  "noteReconnectRoom cfg now pid roomId db =
    (if mc_noteLands cfg now pid then put (reconnectRoom pid) (RoomText roomId) (now + RECONNECT_WINDOW_MS) db else db)"

section \<open>Launching\<close>

definition stagedTicket :: "mm_config \<Rightarrow> int \<Rightarrow> node_candidate \<Rightarrow> string \<Rightarrow> lobby_player \<Rightarrow> string" where
  "stagedTicket cfg now node gid p =
    mintTicket (mc_env cfg)
      (buildTicketClaims \<lparr>cp_playerId = playerId p, cp_wallet = wallet p, cp_roomId = roomIdOf gid, cp_nodeId = cd_nodeId node,
         cp_nickname = nickname p, cp_gameId = Some gid\<rparr> now) (mc_secret cfg)"

definition stageTicket :: "mm_config \<Rightarrow> int \<Rightarrow> node_candidate \<Rightarrow> string \<Rightarrow> string \<Rightarrow> lobby_player \<Rightarrow> cluster_db \<Rightarrow> cluster_db" where
  "stageTicket cfg now node gid tid p db =
    put (stagedMetaKey (playerId p))
      (MetaJson \<lparr>sg_roomId = roomIdOf gid, sg_gameId = gid, sg_tierId = tid, sg_realtimeUrl = cd_advertiseUrl node\<rparr>) (now + STAGED_TTL_MS)
      (put (matchTicket (playerId p)) (TicketText (stagedTicket cfg now node gid p)) (now + STAGED_TTL_MS) db)"

definition launchNode :: "mm_config \<Rightarrow> int \<Rightarrow> node_candidate list \<Rightarrow> node_candidate option" where
  "launchNode cfg now registry =
    selectPlacement (filterHealthy (mc_heartbeatTtlSeconds cfg * 1000) now registry) ''us-east'' (mc_strategy cfg)"

definition launchGame :: "string \<Rightarrow> launch_request \<Rightarrow> string" where
  "launchGame uuid rq = (case lr_gameId rq of Some g \<Rightarrow> g | None \<Rightarrow> uuid)"

definition launchMatch :: "mm_config \<Rightarrow> string \<Rightarrow> int \<Rightarrow> node_candidate list \<Rightarrow> launch_request \<Rightarrow> cluster_db
    \<Rightarrow> (string, string) res \<times> cluster_db" where
  "launchMatch cfg uuid now registry rq db =
    (case launchNode cfg now registry of
       None \<Rightarrow> (Inl (''No healthy realtime node available for tier '' @ lr_tierId rq), db)
     | Some node \<Rightarrow>
         (let gid = launchGame uuid rq
          in (Inr gid, fold (stageTicket cfg now node gid (lr_tierId rq)) (lr_players rq) db)))"

section \<open>The open world of a tier\<close>

definition parseOpenMatch :: "redis_value option \<Rightarrow> open_match option" where
  "parseOpenMatch raw =
    (case raw of
       Some (OpenJson om) \<Rightarrow> if om_roomId om = '''' \<or> om_nodeId om = '''' \<or> om_realtimeUrl om = '''' then None else Some om
     | _ \<Rightarrow> None)"

datatype entrant = Looking | Claiming | Rereading | Overwriting | Placed open_match

definition writeOpen :: "int \<Rightarrow> string \<Rightarrow> open_match \<Rightarrow> cluster_db \<Rightarrow> cluster_db" where
  "writeOpen now key om db = put key (OpenJson om) (now + OPEN_MATCH_TTL_MS) db"

fun entrantStep :: "int \<Rightarrow> string \<Rightarrow> (string \<Rightarrow> bool) \<Rightarrow> open_match \<Rightarrow> entrant \<Rightarrow> cluster_db \<Rightarrow> entrant \<times> cluster_db" where
  "entrantStep now key healthy candidate Looking db =
    (case parseOpenMatch (live now db key) of
       Some om \<Rightarrow> (if healthy (om_nodeId om) then Placed om else Claiming, db)
     | None \<Rightarrow> (Claiming, db))"
| "entrantStep now key healthy candidate Claiming db =
    (if live now db key = None then (Placed candidate, writeOpen now key candidate db) else (Rereading, db))"
| "entrantStep now key healthy candidate Rereading db =
    (case parseOpenMatch (live now db key) of
       Some raced \<Rightarrow> (if healthy (om_nodeId raced) then Placed raced else Overwriting, db)
     | None \<Rightarrow> (Overwriting, db))"
| "entrantStep now key healthy candidate Overwriting db = (Placed candidate, writeOpen now key candidate db)"
| "entrantStep now key healthy candidate (Placed om) db = (Placed om, db)"

definition openMatch :: "(nat \<Rightarrow> cluster_db \<Rightarrow> cluster_db) \<Rightarrow> int \<Rightarrow> string \<Rightarrow> (string \<Rightarrow> bool) \<Rightarrow> open_match \<Rightarrow> cluster_db
    \<Rightarrow> open_match \<times> cluster_db" where
  "openMatch others now key healthy candidate db =
    (let (e1, db1) = entrantStep now key healthy candidate Looking db;
         (e2, db2) = (if e1 = Claiming then entrantStep now key healthy candidate e1 (others 0 db1) else (e1, db1));
         (e3, db3) = (if e2 = Rereading then entrantStep now key healthy candidate e2 (others 1 db2) else (e2, db2));
         (e4, db4) = (if e3 = Overwriting then entrantStep now key healthy candidate e3 (others 2 db3) else (e3, db3))
     in (case e4 of Placed om \<Rightarrow> (om, db4) | _ \<Rightarrow> (candidate, db4)))"

section \<open>Asking for a match\<close>

text \<open>The game bound to the lobby of the tier, if there is one.\<close>

definition lobbyGame :: "'st service_deps \<Rightarrow> 'st \<Rightarrow> string option \<Rightarrow> string option" where
  "lobbyGame d st tid =
    (case tid of None \<Rightarrow> None
     | Some t \<Rightarrow> if t = '''' then None else (case get_lobby d t st of None \<Rightarrow> None
        | Some l \<Rightarrow> (case ls_gameId l of Some g \<Rightarrow> if g = '''' then None else Some g | None \<Rightarrow> None)))"

definition stagedFor :: "int \<Rightarrow> string \<Rightarrow> cluster_db \<Rightarrow> (staged_meta \<times> string) option" where
  "stagedFor now pid db =
    (case live now db (stagedMetaKey pid) of
       Some (MetaJson meta) \<Rightarrow>
         (case live now db (matchTicket pid) of Some (TicketText issued) \<Rightarrow> if issued = '''' then None else Some (meta, issued) | _ \<Rightarrow> None)
     | _ \<Rightarrow> None)"

definition handOutStaged :: "mm_config \<Rightarrow> int \<Rightarrow> string \<Rightarrow> staged_meta \<Rightarrow> string \<Rightarrow> cluster_db \<Rightarrow> cluster_db" where
  "handOutStaged cfg now pid meta issued db =
    del (''ticket:'' @ pid) (del (stagedMetaKey pid)
      (noteReconnectRoom cfg now pid (sg_roomId meta) (put (matchTicket pid) (TicketText issued) (now + TICKET_TTL_MS) db)))"

definition nicknameFor :: "match_request \<Rightarrow> string" where
  "nicknameFor rq = (case mr_nickname rq of Some n \<Rightarrow> n | None \<Rightarrow> take 8 (mr_playerId rq))"

definition ticketFor :: "mm_config \<Rightarrow> int \<Rightarrow> match_request \<Rightarrow> string \<Rightarrow> string \<Rightarrow> string option \<Rightarrow> string" where
  "ticketFor cfg now rq roomId nodeId gid =
    mintTicket (mc_env cfg)
      (buildTicketClaims \<lparr>cp_playerId = mr_playerId rq, cp_wallet = mr_wallet rq, cp_roomId = roomId, cp_nodeId = nodeId,
         cp_nickname = nicknameFor rq, cp_gameId = gid\<rparr> now) (mc_secret cfg)"

definition register :: "mm_config \<Rightarrow> int \<Rightarrow> string \<Rightarrow> string \<Rightarrow> string \<Rightarrow> cluster_db \<Rightarrow> cluster_db" where
  "register cfg now pid ticket roomId db =
    noteReconnectRoom cfg now pid roomId (put (matchTicket pid) (TicketText ticket) (now + TICKET_TTL_MS) db)"

definition regionOf :: "match_request \<Rightarrow> string" where
  "regionOf rq = (case mr_region rq of Some r \<Rightarrow> r | None \<Rightarrow> ''us-east'')"

definition tierKey :: "match_request \<Rightarrow> string" where
  "tierKey rq = openMatchKey (case mr_tierId rq of Some t \<Rightarrow> t | None \<Rightarrow> mr_mode rq)"

definition matchmake :: "mm_config \<Rightarrow> string option \<Rightarrow> string \<Rightarrow> (nat \<Rightarrow> cluster_db \<Rightarrow> cluster_db) \<Rightarrow> int \<Rightarrow> match_request \<Rightarrow> cluster_db
    \<Rightarrow> (placement_error, match_ticket) res \<times> cluster_db" where
  "matchmake cfg bound uuid others now rq db =
    (let (nodes, db) = loadNodes now db;
         healthy = filterHealthy (mc_heartbeatTtlSeconds cfg * 1000) now nodes;
         pid = mr_playerId rq;
         region = regionOf rq;
         answer = (\<lambda>roomId url ticket expiresAt. \<lparr>mt_roomId = roomId, mt_realtimeUrl = url, mt_ticket = ticket,
           mt_expiresAt = expiresAt, mt_region = region, mt_mode = mr_mode rq\<rparr>)
     in if healthy = [] then (Inl NoCapacity, db)
        else case selectPlacement healthy region (mc_strategy cfg) of
          None \<Rightarrow> (Inl NoPlacement, db)
        | Some decision \<Rightarrow>
           (case stagedFor now pid db of
              Some (meta, issued) \<Rightarrow>
                (Inr (answer (sg_roomId meta) (sg_realtimeUrl meta) issued (now + TICKET_TTL_MS)), handOutStaged cfg now pid meta issued db)
            | None \<Rightarrow>
                (case bound of
                   Some gid \<Rightarrow>
                     (let roomId = roomIdOf gid; ticket = ticketFor cfg now rq roomId (cd_nodeId decision) (Some gid)
                      in (Inr (answer roomId (cd_advertiseUrl decision) ticket (now + TICKET_TTL_MS)), register cfg now pid ticket roomId db))
                 | None \<Rightarrow>
                     (let candidate = \<lparr>om_roomId = roomIdOf uuid, om_nodeId = cd_nodeId decision, om_realtimeUrl = cd_advertiseUrl decision\<rparr>;
                          (om, db) = openMatch others now (tierKey rq) (\<lambda>i. list_ex (\<lambda>n. cd_nodeId n = i) healthy) candidate db;
                          ticket = ticketFor cfg now rq (om_roomId om) (om_nodeId om) None
                      in (Inr (answer (om_roomId om) (om_realtimeUrl om) ticket (now + TICKET_TTL_MS)),
                          register cfg now pid ticket (om_roomId om) db)))))"

section \<open>Entrants that race for the open world\<close>

text \<open>A schedule says which entrant makes its next step and when. Each has its own list of healthy nodes, read before its first step.\<close>

fun run_entrants :: "string \<Rightarrow> (nat \<Rightarrow> string \<Rightarrow> bool) \<Rightarrow> (nat \<Rightarrow> open_match) \<Rightarrow> (nat \<times> int) list \<Rightarrow> (nat \<Rightarrow> entrant) \<times> cluster_db
    \<Rightarrow> (nat \<Rightarrow> entrant) \<times> cluster_db" where
  "run_entrants key healthy cand [] st = st"
| "run_entrants key healthy cand ((i, t) # sched) st =
    (case entrantStep t key (healthy i) (cand i) (fst st i) (snd st) of
       (e, db) \<Rightarrow> run_entrants key healthy cand sched ((fst st)(i := e), db))"

definition sound_world :: "(nat \<Rightarrow> string \<Rightarrow> bool) \<Rightarrow> open_match \<Rightarrow> bool" where
  "sound_world healthy om \<longleftrightarrow> (\<forall>i. healthy i (om_nodeId om)) \<and> om_roomId om \<noteq> '''' \<and> om_nodeId om \<noteq> '''' \<and> om_realtimeUrl om \<noteq> ''''"

text \<open>Either nobody has a world yet, or there is one that everybody who has one has.\<close>

definition unclaimed :: "int \<Rightarrow> string \<Rightarrow> (nat \<Rightarrow> entrant) \<Rightarrow> cluster_db \<Rightarrow> bool" where
  "unclaimed t0 key es db \<longleftrightarrow> (\<forall>t \<ge> t0. live t db key = None) \<and> (\<forall>i. es i = Looking \<or> es i = Claiming)"

definition claimed :: "(nat \<Rightarrow> string \<Rightarrow> bool) \<Rightarrow> int \<Rightarrow> string \<Rightarrow> open_match \<Rightarrow> (nat \<Rightarrow> entrant) \<Rightarrow> cluster_db \<Rightarrow> bool" where
  "claimed healthy t1 key om es db \<longleftrightarrow> sound_world healthy om \<and> (\<forall>t < t1. live t db key = Some (OpenJson om)) \<and>
     (\<forall>i. es i \<in> {Looking, Claiming, Rereading, Placed om})"

lemma claimed_step:
  assumes "claimed healthy t1 key om es db" and "t < t1"
    and "entrantStep t key (healthy i) (cand i) (es i) db = (e, db')"
  shows "claimed healthy t1 key om (es(i := e)) db'"
proof -
  have "es i \<in> {Looking, Claiming, Rereading, Placed om}" using assms(1) by (simp add: claimed_def)
  with assms show ?thesis
    by (cases "es i") (auto simp: claimed_def sound_world_def parseOpenMatch_def)
qed

lemma unclaimed_step:
  assumes "unclaimed t0 key es db" and "t0 \<le> t" and "sound_world healthy (cand i)" and "t1 \<le> t0 + OPEN_MATCH_TTL_MS"
    and "entrantStep t key (healthy i) (cand i) (es i) db = (e, db')"
  shows "unclaimed t0 key (es(i := e)) db' \<or> claimed healthy t1 key (cand i) (es(i := e)) db'"
proof (cases "es i = Looking")
  case True
  then have "e = Claiming \<and> db' = db" using assms by (simp add: unclaimed_def parseOpenMatch_def)
  with assms(1) show ?thesis by (simp add: unclaimed_def)
next
  case False
  then have "es i = Claiming" using assms(1) by (auto simp: unclaimed_def)
  then have "e = Placed (cand i) \<and> db' = writeOpen t key (cand i) db" using assms(1,2,5) by (simp add: unclaimed_def)
  then have "claimed healthy t1 key (cand i) (es(i := e)) db'"
    using assms by (auto simp: claimed_def unclaimed_def writeOpen_def live_put)
  then show ?thesis ..
qed

lemma claimed_run:
  "claimed healthy t1 key om es db \<Longrightarrow> \<forall>(i, t) \<in> set sched. t < t1 \<Longrightarrow>
   run_entrants key healthy cand sched (es, db) = (es', db') \<Longrightarrow> claimed healthy t1 key om es' db'"
proof (induction sched arbitrary: es db)
  case (Cons m sched)
  obtain i t where m: "m = (i, t)" by fastforce
  obtain e db1 where s: "entrantStep t key (healthy i) (cand i) (es i) db = (e, db1)" by fastforce
  have "t < t1" using Cons.prems(2) m by simp
  then have "claimed healthy t1 key om (es(i := e)) db1" by (rule claimed_step [where cand = cand, OF Cons.prems(1) _ s])
  moreover have "run_entrants key healthy cand sched (es(i := e), db1) = (es', db')" using Cons.prems(3) s m by simp
  moreover have "\<forall>(i, t) \<in> set sched. t < t1" using Cons.prems(2) by simp
  ultimately show ?case using Cons.IH by blast
qed simp

lemma entrants_run:
  "unclaimed t0 key es db \<Longrightarrow> \<forall>(i, t) \<in> set sched. t0 \<le> t \<and> t < t0 + OPEN_MATCH_TTL_MS \<Longrightarrow> \<forall>i. sound_world healthy (cand i) \<Longrightarrow>
   run_entrants key healthy cand sched (es, db) = (es', db') \<Longrightarrow>
   unclaimed t0 key es' db' \<or> (\<exists>i. claimed healthy (t0 + OPEN_MATCH_TTL_MS) key (cand i) es' db')"
proof (induction sched arbitrary: es db)
  case (Cons m sched)
  obtain i t where m: "m = (i, t)" by fastforce
  obtain e db1 where s: "entrantStep t key (healthy i) (cand i) (es i) db = (e, db1)" by fastforce
  have t: "t0 \<le> t" "sound_world healthy (cand i)" using Cons.prems(2,3) m by simp_all
  have rest: "run_entrants key healthy cand sched (es(i := e), db1) = (es', db')" using Cons.prems(4) s m by simp
  have sched: "\<forall>(i, t) \<in> set sched. t0 \<le> t \<and> t < t0 + OPEN_MATCH_TTL_MS" using Cons.prems(2) by simp
  from unclaimed_step [where cand = cand, OF Cons.prems(1) t order_refl s] show ?case
  proof
    assume "unclaimed t0 key (es(i := e)) db1"
    from Cons.IH [OF this sched Cons.prems(3) rest] show ?thesis .
  next
    assume "claimed healthy (t0 + OPEN_MATCH_TTL_MS) key (cand i) (es(i := e)) db1"
    from claimed_run [OF this _ rest] sched show ?thesis by fastforce
  qed
qed simp


definition a_world_of :: "string \<Rightarrow> open_match" where
  "a_world_of r = \<lparr>om_roomId = r, om_nodeId = ''n1'', om_realtimeUrl = ''wss://n1''\<rparr>"

definition empty_db :: cluster_db where "empty_db = \<lparr>cl_keys = \<lambda>_. None, cl_nodes = [], cl_removals = []\<rparr>"

definition two_rooms :: "nat \<Rightarrow> open_match" where "two_rooms i = a_world_of (if i = 0 then ''room0'' else ''room1'')"


text \<open>The finding: a pointer at a node that has died is overwritten by everybody who finds it, so two who do get different worlds.\<close>

lemma dead_pointer_race:
  "let db = writeOpen 0 ''k'' \<lparr>om_roomId = ''old'', om_nodeId = ''dead'', om_realtimeUrl = ''wss://dead''\<rparr> empty_db;
       es = fst (run_entrants ''k'' (\<lambda>_ n. n = ''n1'') two_rooms
         [(0, 5), (0, 5), (0, 5), (1, 6), (1, 6), (1, 6), (0, 7), (1, 7)] ((\<lambda>_. Looking), db))
   in es 0 = Placed (a_world_of ''room0'') \<and> es 1 = Placed (a_world_of ''room1'')"
  by (simp add: empty_db_def live_def parseOpenMatch_def writeOpen_def put_def two_rooms_def a_world_of_def OPEN_MATCH_TTL_MS_def Let_def)

end
