(* ===== verification/Handshake.thy ===== *)
theory Handshake
  imports Matchmaker Anti_Cheat
begin

text \<open>
  The handshake of a socket with a realtime node (\<open>apps/realtime/src/io/middleware/authenticate.ts\<close>): the budget of
  connections, the ticket, its consumption in Redis and the note that lets a player back in. Together with the
  matchmaker it makes a system over one Redis (\<open>cluster_step\<close>), in which histories of launches, requests for a match,
  handshakes and departures are run.
\<close>

section \<open>The handshake\<close>

record gate_config =
  nd_env :: ticket_env
  nd_secret :: string
  nd_nodeId :: string
  nd_maxInputs :: real
  nd_trustProxy :: bool

definition RECONNECT_WINDOW_SECONDS :: int where "RECONNECT_WINDOW_SECONDS = 5 * 60"

record session_data =
  ss_playerId :: string
  ss_wallet :: string
  ss_roomId :: string
  ss_gameId :: "string option"
  ss_nickname :: string
  ss_joinedAt :: int
  ss_inputBudget :: real

datatype handshake_error = TooManyAttempts | NoTicket | InvalidTicket node_ticket_error | WrongNode | TicketSpent

definition sessionOf :: "gate_config \<Rightarrow> int \<Rightarrow> ticket_claims \<Rightarrow> session_data" where
  "sessionOf cfg now c = \<lparr>ss_playerId = tk_playerId c, ss_wallet = tk_wallet c, ss_roomId = tk_roomId c, ss_gameId = tk_gameId c,
     ss_nickname = tk_nickname c, ss_joinedAt = now, ss_inputBudget = nd_maxInputs cfg\<rparr>"

definition admitTicket :: "gate_config \<Rightarrow> int \<Rightarrow> string option \<Rightarrow> cluster_db \<Rightarrow> (handshake_error, session_data) res \<times> cluster_db" where
  "admitTicket cfg now ticket db =
    (case ticket of
       None \<Rightarrow> (Inl NoTicket, db)
     | Some t \<Rightarrow>
         if t = '''' then (Inl NoTicket, db)
         else (case nodeVerifyTicket (nd_env cfg) t (nd_secret cfg) now of
           Inl e \<Rightarrow> (Inl (InvalidTicket e), db)
         | Inr claims \<Rightarrow>
             if tk_nodeId claims \<noteq> nd_nodeId cfg then (Inl WrongNode, db)
             else
               (let consumed = live now db (matchTicket (tk_playerId claims));
                    db1 = del (matchTicket (tk_playerId claims)) db
                in if consumed = None \<and> live now db1 (reconnectRoom (tk_playerId claims)) \<noteq> Some (RoomText (tk_roomId claims))
                   then (Inl TicketSpent, db1)
                   else (Inr (sessionOf cfg now claims),
                         put (reconnectRoom (tk_playerId claims)) (RoomText (tk_roomId claims)) (now + RECONNECT_WINDOW_SECONDS * 1000) db1))))"

definition handshake :: "gate_config \<Rightarrow> string \<Rightarrow> header \<Rightarrow> int \<Rightarrow> string option \<Rightarrow> connection_guard \<times> cluster_db
    \<Rightarrow> (handshake_error, session_data) res \<times> connection_guard \<times> cluster_db" where
  "handshake cfg address forwarded now ticket st =
    (case tryConsume DEFAULT_CONNECTION_GUARD (clientAddress address forwarded (nd_trustProxy cfg)) now (fst st) of
       (False, g) \<Rightarrow> (Inl TooManyAttempts, g, snd st)
     | (True, g) \<Rightarrow> (case admitTicket cfg now ticket (snd st) of (r, db) \<Rightarrow> (r, g, db)))"

text \<open>Leaving a queue drops whatever a launch has staged (\<open>/lobbies/leave\<close>).\<close>

definition dropSeat :: "string \<Rightarrow> cluster_db \<Rightarrow> cluster_db" where
  "dropSeat pid db = del (matchTicket pid) (del (''ticket:'' @ pid) (del (stagedMetaKey pid) db))"

section \<open>The system over one Redis\<close>

datatype cluster_op =
    OpLaunch string int "node_candidate list" launch_request
  | OpMatchmake "string option" string int match_request
  | OpHandshake gate_config int "string option"
  | OpLeave string
  | OpServers int
  | OpRemovalLands nat

record cluster =
  cu_db :: cluster_db
  cu_issued :: "string list"
  cu_sessions :: "(gate_config \<times> session_data) list"

definition stagedTickets :: "mm_config \<Rightarrow> string \<Rightarrow> int \<Rightarrow> node_candidate list \<Rightarrow> launch_request \<Rightarrow> string list" where
  "stagedTickets cfg uuid now registry rq =
    (case launchNode cfg now registry of
       None \<Rightarrow> []
     | Some node \<Rightarrow> map (stagedTicket cfg now node (launchGame uuid rq)) (lr_players rq))"

fun cluster_step :: "mm_config \<Rightarrow> cluster_op \<Rightarrow> cluster \<Rightarrow> cluster" where
  "cluster_step cfg (OpLaunch uuid now registry rq) c =
    c\<lparr>cu_db := snd (launchMatch cfg uuid now registry rq (cu_db c)), cu_issued := stagedTickets cfg uuid now registry rq @ cu_issued c\<rparr>"
| "cluster_step cfg (OpMatchmake bound uuid now rq) c =
    (case matchmake cfg bound uuid (\<lambda>_ db. db) now rq (cu_db c) of
       (Inl _, db) \<Rightarrow> c\<lparr>cu_db := db\<rparr>
     | (Inr mt, db) \<Rightarrow> c\<lparr>cu_db := db, cu_issued := mt_ticket mt # cu_issued c\<rparr>)"
| "cluster_step cfg (OpHandshake nd now ticket) c =
    (case admitTicket nd now ticket (cu_db c) of
       (Inl _, db) \<Rightarrow> c\<lparr>cu_db := db\<rparr>
     | (Inr s, db) \<Rightarrow> c\<lparr>cu_db := db, cu_sessions := (nd, s) # cu_sessions c\<rparr>)"
| "cluster_step cfg (OpLeave pid) c = c\<lparr>cu_db := dropSeat pid (cu_db c)\<rparr>"
| "cluster_step cfg (OpServers now) c = c\<lparr>cu_db := snd (serversRoute (mc_heartbeatTtlSeconds cfg * 1000) now (cu_db c))\<rparr>"
| "cluster_step cfg (OpRemovalLands n) c = c\<lparr>cu_db := removalLands n (cu_db c)\<rparr>"

definition run_cluster :: "mm_config \<Rightarrow> cluster_op list \<Rightarrow> cluster \<Rightarrow> cluster" where
  "run_cluster cfg ops c = fold (cluster_step cfg) ops c"

section \<open>What an operation leaves alone\<close>

text \<open>The three keys of a player.\<close>

definition same_keys :: "string \<Rightarrow> cluster_db \<Rightarrow> cluster_db \<Rightarrow> bool" where
  "same_keys p db db' \<longleftrightarrow> (\<forall>k \<in> {matchTicket p, stagedMetaKey p, reconnectRoom p}. cl_keys db' k = cl_keys db k)"

lemma same_keys_refl [simp]: "same_keys p db db" by (simp add: same_keys_def)

lemma same_keys_trans: "same_keys p a b \<Longrightarrow> same_keys p b c \<Longrightarrow> same_keys p a c" by (simp add: same_keys_def)

lemma same_keys_live:
  assumes "same_keys p db db'"
  shows "live now db' (matchTicket p) = live now db (matchTicket p)" "live now db' (stagedMetaKey p) = live now db (stagedMetaKey p)"
    "live now db' (reconnectRoom p) = live now db (reconnectRoom p)"
  using assms by (simp_all add: same_keys_def live_def)

lemma same_keys_put:
  "same_keys p db (put k v e db) \<longleftrightarrow> k \<notin> {matchTicket p, stagedMetaKey p, reconnectRoom p} \<or> cl_keys db k = Some (v, e)"
  "same_keys p db (del k db) \<longleftrightarrow> k \<notin> {matchTicket p, stagedMetaKey p, reconnectRoom p} \<or> cl_keys db k = None"
  by (auto simp: same_keys_def put_def del_def)

lemma same_keys_other:
  assumes "same_keys p db db'" and "k \<notin> {matchTicket p, stagedMetaKey p, reconnectRoom p}"
  shows "same_keys p db (put k v e db')" "same_keys p db (del k db')"
  using assms by (auto intro: same_keys_trans simp: same_keys_put)

text \<open>The keys of another player are none of them, as ids have no colon.\<close>

lemma others_keys:
  assumes "plain_id p" and "plain_id q" and "p \<noteq> q"
  shows "matchTicket q \<notin> {matchTicket p, stagedMetaKey p, reconnectRoom p}" "stagedMetaKey q \<notin> {matchTicket p, stagedMetaKey p, reconnectRoom p}"
    "reconnectRoom q \<notin> {matchTicket p, stagedMetaKey p, reconnectRoom p}" "openMatchKey t \<notin> {matchTicket p, stagedMetaKey p, reconnectRoom p}"
  using assms by auto

lemma same_keys_loadNodes: "same_keys p db (snd (loadNodes now db))"
  by (simp add: same_keys_def)

lemma openMatch_alone:
  "openMatch (\<lambda>_ db. db) now key healthy cand db =
    (case parseOpenMatch (live now db key) of
       Some om \<Rightarrow> if healthy (om_nodeId om) then (om, db) else (cand, writeOpen now key cand db)
     | None \<Rightarrow> (cand, writeOpen now key cand db))"
  by (cases "parseOpenMatch (live now db key)"; cases "live now db key = None") (simp_all add: openMatch_def)

lemma same_keys_openMatch: "same_keys p db (snd (openMatch (\<lambda>_ db. db) now (openMatchKey t) healthy cand db))"
  by (auto simp: openMatch_alone writeOpen_def same_keys_other split: option.split)

lemma same_keys_note:
  "same_keys p a db \<Longrightarrow> plain_id p \<Longrightarrow> plain_id q \<Longrightarrow> p \<noteq> q \<Longrightarrow> same_keys p a (noteReconnectRoom cfg now q r db)"
  by (simp add: noteReconnectRoom_def same_keys_other others_keys)

lemma same_keys_register:
  "same_keys p a db \<Longrightarrow> plain_id p \<Longrightarrow> plain_id q \<Longrightarrow> p \<noteq> q \<Longrightarrow> same_keys p a (register cfg now q t r db)"
  by (simp add: register_def same_keys_note same_keys_other others_keys)

lemma ticket_key: "''ticket:'' @ p = matchTicket p"
  by (simp only: matchTicket_def)

lemma handOutStaged_eq: "handOutStaged cfg now q m t db = del (matchTicket q) (del (stagedMetaKey q)
    (noteReconnectRoom cfg now q (sg_roomId m) (put (matchTicket q) (TicketText t) (now + TICKET_TTL_MS) db)))"
  by (simp only: handOutStaged_def ticket_key)

lemma same_keys_handOut:
  "same_keys p a db \<Longrightarrow> plain_id p \<Longrightarrow> plain_id q \<Longrightarrow> p \<noteq> q \<Longrightarrow> same_keys p a (handOutStaged cfg now q m t db)"
  unfolding handOutStaged_eq by (intro same_keys_other same_keys_note others_keys; simp)

lemma same_keys_matchmake:
  assumes "plain_id p" and "plain_id (mr_playerId rq)" and "p \<noteq> mr_playerId rq"
  shows "same_keys p db (snd (matchmake cfg bound uuid (\<lambda>_ db. db) now rq db))"
proof -
  obtain nodes db1 where l: "loadNodes now db = (nodes, db1)" by fastforce
  have k: "same_keys p db db1" using same_keys_loadNodes [of p db now] l by simp
  have "same_keys p db (snd (openMatch (\<lambda>_ db. db) now (tierKey rq) h c db1))" for h c
    using same_keys_trans [OF k same_keys_openMatch] by (simp add: tierKey_def)
  with k assms show ?thesis
    by (auto simp: matchmake_def l Let_def same_keys_register same_keys_handOut split: option.split prod.split)
       (metis same_keys_register snd_conv)
qed

lemma same_keys_stage:
  "same_keys p a db \<Longrightarrow> plain_id p \<Longrightarrow> plain_id (playerId q) \<Longrightarrow> p \<noteq> playerId q \<Longrightarrow> same_keys p a (stageTicket cfg now node gid tid q db)"
  using others_keys [of p "playerId q"] by (simp add: stageTicket_def Let_def same_keys_other)

lemma same_keys_stages:
  "same_keys p a db \<Longrightarrow> plain_id p \<Longrightarrow> list_all (\<lambda>q. plain_id (playerId q) \<and> playerId q \<noteq> p) ps \<Longrightarrow>
   same_keys p a (fold (stageTicket cfg now node gid tid) ps db)"
  by (induction ps arbitrary: db) (auto simp: same_keys_stage)

lemma admitTicket_Some:
  "t \<noteq> '''' \<Longrightarrow> admitTicket nd now (Some t) db =
    (case nodeVerifyTicket (nd_env nd) t (nd_secret nd) now of
       Inl e \<Rightarrow> (Inl (InvalidTicket e), db)
     | Inr c \<Rightarrow>
         if tk_nodeId c \<noteq> nd_nodeId nd then (Inl WrongNode, db)
         else if live now db (matchTicket (tk_playerId c)) = None \<and> live now db (reconnectRoom (tk_playerId c)) \<noteq> Some (RoomText (tk_roomId c))
         then (Inl TicketSpent, del (matchTicket (tk_playerId c)) db)
         else (Inr (sessionOf nd now c), put (reconnectRoom (tk_playerId c)) (RoomText (tk_roomId c)) (now + RECONNECT_WINDOW_SECONDS * 1000)
           (del (matchTicket (tk_playerId c)) db)))"
  by (simp add: admitTicket_def Let_def live_del split: sum.split)

text \<open>Operations that are about somebody else.\<close>

fun elsewhere :: "string \<Rightarrow> cluster_op \<Rightarrow> bool" where
  "elsewhere p (OpLaunch uuid now registry rq) = list_all (\<lambda>q. plain_id (playerId q) \<and> playerId q \<noteq> p) (lr_players rq)"
| "elsewhere p (OpMatchmake bound uuid now rq) = (plain_id (mr_playerId rq) \<and> mr_playerId rq \<noteq> p)"
| "elsewhere p (OpHandshake nd now ticket) =
    (case ticket of None \<Rightarrow> True
     | Some t \<Rightarrow> (case nodeVerifyTicket (nd_env nd) t (nd_secret nd) now of
         Inl e \<Rightarrow> True | Inr c \<Rightarrow> plain_id (tk_playerId c) \<and> tk_playerId c \<noteq> p))"
| "elsewhere p (OpLeave q) = (plain_id q \<and> q \<noteq> p)"
| "elsewhere p (OpServers now) = True"
| "elsewhere p (OpRemovalLands n) = True"

lemma same_keys_admit:
  assumes "plain_id p" and "elsewhere p (OpHandshake nd now t)"
  shows "same_keys p db (snd (admitTicket nd now t db))"
proof (cases "t = None \<or> t = Some ''''")
  case True
  then show ?thesis by (auto simp: admitTicket_def)
next
  case False
  then obtain tk where t: "t = Some tk" "tk \<noteq> ''''" by auto
  show ?thesis
  proof (cases "nodeVerifyTicket (nd_env nd) tk (nd_secret nd) now")
    case (Inr c)
    with assms t have "plain_id (tk_playerId c)" "p \<noteq> tk_playerId c" by auto
    with Inr assms(1) show ?thesis unfolding t(1)
      by (simp add: admitTicket_Some [OF t(2)] same_keys_other others_keys)
  qed (simp add: t(1) admitTicket_Some [OF t(2)])
qed

lemma same_keys_step:
  assumes "plain_id p" and "elsewhere p op"
  shows "same_keys p (cu_db c) (cu_db (cluster_step cfg op c))"
proof (cases op)
  case (OpLaunch uuid now registry rq)
  with assms show ?thesis by (simp add: launchMatch_def Let_def same_keys_stages eq_commute split: option.split)
next
  case (OpMatchmake bound uuid now rq)
  with assms same_keys_matchmake [of p rq "cu_db c" cfg bound uuid now] show ?thesis by (auto split: prod.split sum.split)
next
  case (OpHandshake nd now ticket)
  with assms same_keys_admit [of p nd now ticket "cu_db c"] show ?thesis by (auto split: prod.split sum.split)
next
  case (OpLeave q)
  with assms have "plain_id q" "p \<noteq> q" by auto
  with assms(1) have "same_keys p (cu_db c) (dropSeat q (cu_db c))"
    unfolding dropSeat_def ticket_key by (intro same_keys_other others_keys same_keys_refl; simp)
  then show ?thesis by (simp add: OpLeave)
next
  case (OpServers now)
  with assms same_keys_loadNodes [of p "cu_db c" now] show ?thesis by (auto simp: serversRoute_def split: prod.split)
next
  case (OpRemovalLands n)
  then show ?thesis by (simp add: same_keys_def removalLands_def)
qed

lemma same_keys_run:
  "plain_id p \<Longrightarrow> list_all (elsewhere p) ops \<Longrightarrow> same_keys p (cu_db c) (cu_db (run_cluster cfg ops c))"
  unfolding run_cluster_def
proof (induction ops arbitrary: c)
  case (Cons op ops)
  then have "same_keys p (cu_db c) (cu_db (cluster_step cfg op c))" by (simp add: same_keys_step)
  with Cons show ?case using same_keys_trans by fastforce
qed simp

section \<open>From the launch into the room\<close>

lemma stage_keys:
  assumes "plain_id (playerId p)"
  shows "cl_keys (stageTicket cfg now node gid tid p db) (matchTicket (playerId p)) =
      Some (TicketText (stagedTicket cfg now node gid p), now + STAGED_TTL_MS)"
    and "cl_keys (stageTicket cfg now node gid tid p db) (stagedMetaKey (playerId p)) =
      Some (MetaJson \<lparr>sg_roomId = roomIdOf gid, sg_gameId = gid, sg_tierId = tid, sg_realtimeUrl = cd_advertiseUrl node\<rparr>, now + STAGED_TTL_MS)"
  using assms by (simp_all add: stageTicket_def put_def)

lemma staged_keys:
  assumes "p \<in> set ps" and "distinct (map playerId ps)" and "list_all (\<lambda>q. plain_id (playerId q)) ps"
  shows "cl_keys (fold (stageTicket cfg now node gid tid) ps db) (matchTicket (playerId p)) =
      Some (TicketText (stagedTicket cfg now node gid p), now + STAGED_TTL_MS) \<and>
    cl_keys (fold (stageTicket cfg now node gid tid) ps db) (stagedMetaKey (playerId p)) =
      Some (MetaJson \<lparr>sg_roomId = roomIdOf gid, sg_gameId = gid, sg_tierId = tid, sg_realtimeUrl = cd_advertiseUrl node\<rparr>, now + STAGED_TTL_MS)"
  using assms
proof (induction ps arbitrary: db)
  case (Cons q ps)
  show ?case
  proof (cases "q = p")
    case True
    have a: "plain_id (playerId p)" using Cons.prems(3) True by simp
    have b: "list_all (\<lambda>q. plain_id (playerId q) \<and> playerId q \<noteq> playerId p) ps"
      using Cons.prems(2,3) True by (simp add: list_all_iff) (metis image_eqI)
    from same_keys_stages [OF same_keys_refl a b] show ?thesis using True
      by (simp add: same_keys_def stage_keys [OF a])
  next
    case False
    with Cons show ?thesis by simp
  qed
qed simp

lemma plain_verify:
  "json_law te \<Longrightarrow> nodeVerifyTicket te (mintTicket te c secret) secret now =
    (if now < tk_expiresAt c then Inr c else Inl TicketIsExpired)"
  by (simp add: nodeVerifyTicket_def split_minted base64url_roundtrip json_law_def sign_ticket_def Let_def)

lemma mintTicket_not_Nil [simp]: "mintTicket te c secret \<noteq> ''''" "'''' \<noteq> mintTicket te c secret"
  by (simp_all add: mintTicket_def Let_def)

lemma matchmake_staged:
  assumes "stagedFor now (mr_playerId rq) db = Some (meta, issued)"
    and "matchmake cfg bound uuid others now rq db = (Inr mt, db')"
  shows "mt = \<lparr>mt_roomId = sg_roomId meta, mt_realtimeUrl = sg_realtimeUrl meta, mt_ticket = issued, mt_expiresAt = now + TICKET_TTL_MS,
      mt_region = regionOf rq, mt_mode = mr_mode rq\<rparr> \<and>
    db' = handOutStaged cfg now (mr_playerId rq) meta issued (snd (loadNodes now db))"
proof -
  obtain nodes db1 where l: "loadNodes now db = (nodes, db1)" by fastforce
  have "stagedFor now (mr_playerId rq) db1 = Some (meta, issued)"
    using assms(1) by (simp only: stagedFor_def loadNodes_keys [of now now db, unfolded l snd_conv])
  with assms(2) show ?thesis by (auto simp: matchmake_def l Let_def split: if_splits option.splits)
qed

lemma stagedFor_launched:
  assumes "p \<in> set (lr_players rq)" and "distinct (map playerId (lr_players rq))" and "list_all (\<lambda>q. plain_id (playerId q)) (lr_players rq)"
    and "launchNode cfg t0 registry = Some node" and "now < t0 + STAGED_TTL_MS"
    and "same_keys (playerId p) (cu_db (cluster_step cfg (OpLaunch uuid t0 registry rq) c)) db"
  shows "stagedFor now (playerId p) db =
    Some (\<lparr>sg_roomId = roomIdOf (launchGame uuid rq), sg_gameId = launchGame uuid rq, sg_tierId = lr_tierId rq, sg_realtimeUrl = cd_advertiseUrl node\<rparr>,
      stagedTicket cfg t0 node (launchGame uuid rq) p)"
proof -
  note k = staged_keys [OF assms(1-3), of cfg t0 node "launchGame uuid rq" "lr_tierId rq" "cu_db c"]
  show ?thesis using k assms(5) same_keys_live [OF assms(6), of now]
    by (simp add: stagedFor_def launchMatch_def assms(4) Let_def live_def stagedTicket_def)
qed

text \<open>Where some node is healthy, a request with a staged ticket is answered.\<close>

lemma selectPlacement_some: "candidates \<noteq> [] \<Longrightarrow> strat \<noteq> RegionAffinity \<or> (\<exists>n \<in> set candidates. cd_region n = region) \<Longrightarrow>
    \<exists>n. selectPlacement candidates region strat = Some n"
proof -
  assume c: "candidates \<noteq> []" "strat \<noteq> RegionAffinity \<or> (\<exists>n \<in> set candidates. cd_region n = region)"
  then have pool: "placementPool candidates region strat \<noteq> []" by (auto simp: placementPool_def Let_def filter_empty_conv)
  then have "usableNodes (placementPool candidates region strat) \<noteq> []" by (auto simp: usableNodes_def Let_def)
  then have "sort_key f (usableNodes (placementPool candidates region strat)) \<noteq> []" for f :: "node_candidate \<Rightarrow> real"
    by (metis length_0_conv length_sort)
  then show ?thesis using c(1) pool by (auto simp: selectPlacement_def Let_def split: list.split)
qed

lemma staged_answered:
  assumes "stagedFor now (mr_playerId rq) db = Some (meta, issued)"
    and "selectPlacement (filterHealthy (mc_heartbeatTtlSeconds cfg * 1000) now (fst (loadNodes now db))) (regionOf rq) (mc_strategy cfg) \<noteq> None"
  shows "\<exists>mt db'. matchmake cfg bound uuid others now rq db = (Inr mt, db')"
proof -
  obtain nodes db1 where l: "loadNodes now db = (nodes, db1)" by fastforce
  have st: "stagedFor now (mr_playerId rq) db1 = Some (meta, issued)"
    using assms(1) by (simp only: stagedFor_def loadNodes_keys [of now now db, unfolded l snd_conv])
  from assms(2) l obtain n where n: "selectPlacement (filterHealthy (mc_heartbeatTtlSeconds cfg * 1000) now nodes) (regionOf rq) (mc_strategy cfg) = Some n"
    by auto
  then have "filterHealthy (mc_heartbeatTtlSeconds cfg * 1000) now nodes \<noteq> []" by (auto simp: selectPlacement_def)
  then show ?thesis using st n by (simp add: matchmake_def l Let_def)
qed

text \<open>C14: Whoever is launched gets into the match, if a node can be placed on, the reconnect note is written and the node's budget of
  connections for the address is not spent: a player of a launched lobby who asks for a match when the registry holds a node to place
  on, and whose note of the reconnect room lands, gets an answer, with the address of the launch's node; and connecting to that
  node with the ticket within its thirty seconds, whatever other players do before and in between, takes the handshake through, as the
  player and wallet of the lobby, into the room of the lobby's game, which is the same for all its players. (Redis answers throughout,
  and the requests for a match run one at a time.)\<close>

theorem launched_players_meet:
  assumes "json_law (mc_env cfg)" and "nd_env nd = mc_env cfg" and "nd_secret nd = mc_secret cfg"
    and "p \<in> set (lr_players rq)" and "distinct (map playerId (lr_players rq))" and "list_all (\<lambda>q. plain_id (playerId q)) (lr_players rq)"
    and "launchNode cfg t0 registry = Some node" and "nd_nodeId nd = cd_nodeId node"
    and "c2 = run_cluster cfg others (cluster_step cfg (OpLaunch uuid t0 registry rq) c)" and "list_all (elsewhere (playerId p)) others"
    and "mr_playerId req = playerId p"
    and "selectPlacement (filterHealthy (mc_heartbeatTtlSeconds cfg * 1000) t1 (fst (loadNodes t1 (cu_db c2)))) (regionOf req) (mc_strategy cfg) \<noteq> None"
    and "mc_noteLands cfg t1 (playerId p)"
    and "c4 = run_cluster cfg others' (cluster_step cfg (OpMatchmake bound uuid' t1 req) c2)" and "list_all (elsewhere (playerId p)) others'"
    and "t0 \<le> t1" and "t1 \<le> t2" and "t2 < t0 + TICKET_TTL_MS"
    and "fst (tryConsume DEFAULT_CONNECTION_GUARD (clientAddress address forwarded (nd_trustProxy nd)) t2 guard)"
  shows "\<exists>mt. fst (matchmake cfg bound uuid' (\<lambda>_ db. db) t1 req (cu_db c2)) = Inr mt \<and> mt_realtimeUrl mt = cd_advertiseUrl node \<and>
    fst (handshake nd address forwarded t2 (Some (mt_ticket mt)) (guard, cu_db c4)) =
      Inr \<lparr>ss_playerId = playerId p, ss_wallet = wallet p, ss_roomId = roomIdOf (launchGame uuid rq), ss_gameId = Some (launchGame uuid rq),
        ss_nickname = nickname p, ss_joinedAt = t2, ss_inputBudget = nd_maxInputs nd\<rparr>"
proof -
  let ?g = "launchGame uuid rq"
  let ?tk = "stagedTicket cfg t0 node ?g p"
  have pl: "plain_id (playerId p)" using assms(4,6) by (simp add: list_all_iff)
  have t: "t1 < t0 + STAGED_TTL_MS" using assms(16-18) by (simp add: TICKET_TTL_MS_def STAGED_TTL_MS_def)
  have "same_keys (playerId p) (cu_db (cluster_step cfg (OpLaunch uuid t0 registry rq) c)) (cu_db c2)"
    unfolding assms(9) by (rule same_keys_run [OF pl assms(10)])
  note st = stagedFor_launched [OF assms(4-7) t this]
  obtain meta where meta: "stagedFor t1 (mr_playerId req) (cu_db c2) = Some (meta, ?tk)" "sg_roomId meta = roomIdOf ?g"
      "sg_realtimeUrl meta = cd_advertiseUrl node"
    using st by (simp add: assms(11))
  obtain mt db' where run: "matchmake cfg bound uuid' (\<lambda>_ db. db) t1 req (cu_db c2) = (Inr mt, db')"
    using staged_answered [OF meta(1) assms(12)] by blast
  note mm = matchmake_staged [OF meta(1) run]
  have "same_keys (playerId p) db' (cu_db c4)"
    using same_keys_run [OF pl assms(15), of "cluster_step cfg (OpMatchmake bound uuid' t1 req) c2" cfg] run
    by (simp add: assms(14))
  note keys = same_keys_live [OF this, of t2]
  have "live t2 db' (matchTicket (playerId p)) = None"
    using mm by (simp add: handOutStaged_eq assms(11) live_del)
  moreover have "live t2 db' (reconnectRoom (playerId p)) = Some (RoomText (roomIdOf ?g))"
    using mm assms(13,16-18) t pl meta(2)
    by (simp add: handOutStaged_eq assms(11) live_del noteReconnectRoom_def live_put RECONNECT_WINDOW_MS_def
        TICKET_TTL_MS_def)
  ultimately have "fst (admitTicket nd t2 (Some (mt_ticket mt)) (cu_db c4)) =
    Inr \<lparr>ss_playerId = playerId p, ss_wallet = wallet p, ss_roomId = roomIdOf ?g, ss_gameId = Some ?g,
      ss_nickname = nickname p, ss_joinedAt = t2, ss_inputBudget = nd_maxInputs nd\<rparr>"
    using mm keys meta(3) assms(18)
    by (simp add: admitTicket_Some stagedTicket_def assms(2,3,8) plain_verify [OF assms(1)] buildTicketClaims_def sessionOf_def)
  then show ?thesis using run mm meta(3) assms(19)
    by (auto simp: handshake_def split: prod.split)
qed

end
