(* ===== verification/Lobby_Routes.thy ===== *)
theory Lobby_Routes
  imports Lobby_Properties Handshake
begin

text \<open>
  The lobby API of the matchmaker (\<open>apps/matchmaker/src/routes/lobby.routes.ts\<close>) over the lobby service, with the client
  that asks the gateway about money (\<open>services/stake-client.ts\<close>). What the gateway answers is an argument: a function
  of the room or game and the caller's token. Histories of these routes, of ticks and of the calls of the worker give
  the property that matters: in a paid room a match starts with players who have paid for it.
\<close>

section \<open>Asking the gateway\<close>

datatype 'a reply_body = JsonBody 'a | ErrorBody "string option" "string option" | NoJsonBody

datatype 'a http_reply = Unreachable string | Reply bool nat "'a reply_body"

record stake_failure =
  sf_status :: nat
  sf_code :: string
  sf_message :: string

text \<open>A reply that is fine but has no JSON body is \<open>null\<close>, as is one whose body is an error.\<close>

definition call_gateway :: "'a http_reply \<Rightarrow> (stake_failure, 'a option) res" where
  "call_gateway r =
    (case r of
       Unreachable why \<Rightarrow> Inl \<lparr>sf_status = 503, sf_code = ''STAKE_UNAVAILABLE'', sf_message = ''Could not reach the wallet service: '' @ why\<rparr>
     | Reply fine st body \<Rightarrow>
         if \<not> fine then
           Inl (case body of
             ErrorBody code msg \<Rightarrow> \<lparr>sf_status = st, sf_code = (case code of Some c \<Rightarrow> c | None \<Rightarrow> ''STAKE_FAILED''),
               sf_message = (case msg of Some m \<Rightarrow> m | None \<Rightarrow> ''Could not reserve the entry fee'')\<rparr>
           | _ \<Rightarrow> \<lparr>sf_status = st, sf_code = ''STAKE_FAILED'', sf_message = ''Could not reserve the entry fee''\<rparr>)
         else Inr (case body of JsonBody a \<Rightarrow> Some a | _ \<Rightarrow> None))"

record afford_response =
  af_requiredLamports :: int
  af_walletLamports :: int
  af_sufficient :: bool

record 'st route_deps =
  rd_service :: "'st service_deps"
  rd_canAfford :: "string \<Rightarrow> string \<Rightarrow> afford_response http_reply"
  rd_hasPaid :: "string \<Rightarrow> string \<Rightarrow> bool http_reply"

datatype route_error = RouteNotFound string | RouteConflict string | RouteStatus nat string | RouteNull | RouteService service_error

definition lift_service :: "('st, 'a) handled \<Rightarrow> (route_error, 'a) res \<times> 'st \<times> launch_request list" where
  "lift_service m = (case m of (Inl e, st, ls) \<Rightarrow> (Inl (RouteService e), st, ls) | (Inr v, st, ls) \<Rightarrow> (Inr v, st, ls))"

section \<open>The routes\<close>

definition parsePendingMatch :: "redis_value option \<Rightarrow> (string \<times> string) option" where
  "parsePendingMatch raw =
    (case raw of
       Some (MetaJson meta) \<Rightarrow> if sg_gameId meta \<noteq> '''' \<and> sg_tierId meta \<noteq> '''' then Some (sg_tierId meta, sg_gameId meta) else None
     | _ \<Rightarrow> None)"

definition boardRoute :: "'st route_deps \<Rightarrow> string \<Rightarrow> int \<Rightarrow> cluster_db \<Rightarrow> 'st
    \<Rightarrow> lobby_summary list \<times> string option \<times> (string \<times> string) option" where
  "boardRoute d user now db st =
    (list_lobbies (rd_service d) st, whereIs (rd_service d) user st, parsePendingMatch (live now db (stagedMetaKey user)))"

definition roomRoute :: "'st route_deps \<Rightarrow> string \<Rightarrow> 'st \<Rightarrow> (route_error, lobby_summary) res" where
  "roomRoute d tid st = (case get_lobby (rd_service d) tid st of None \<Rightarrow> Inl (RouteNotFound ''Unknown room'') | Some l \<Rightarrow> Inr l)"

definition affordCheck :: "'st route_deps \<Rightarrow> room_tier \<Rightarrow> string \<Rightarrow> (route_error, unit) res" where
  "affordCheck d tier token =
    (if 0 < entryFeeLamports tier then
       (case call_gateway (rd_canAfford d (t_id tier) token) of
          Inl e \<Rightarrow> Inl (RouteStatus (sf_status e) (sf_message e))
        | Inr None \<Rightarrow> Inl RouteNull
        | Inr (Some funds) \<Rightarrow>
            if \<not> af_sufficient funds then
              Inl (RouteConflict (''This room needs '' @ show_int (af_requiredLamports funds) @
                '' lamports including transaction costs, and your wallet holds '' @ show_int (af_walletLamports funds) @ ''.''))
            else Inr ())
     else Inr ())"

definition joinRoute :: "'st route_deps \<Rightarrow> join_player \<Rightarrow> string \<Rightarrow> string \<Rightarrow> 'st \<Rightarrow> (route_error, join_result) res \<times> 'st \<times> launch_request list" where
  "joinRoute d p tid token st =
    (case getTier tid of
       None \<Rightarrow> (Inl (RouteNotFound ''Unknown room''), st, [])
     | Some tier \<Rightarrow>
         (case affordCheck d tier token of
            Inl e \<Rightarrow> (Inl e, st, [])
          | Inr _ \<Rightarrow> lift_service (join (rd_service d) (t_id tier) p st)))"

text \<open>The release of a stake that goes with leaving is asked for whatever the answer; here it is the list of requests made.\<close>

definition leaveRoute :: "'st route_deps \<Rightarrow> string \<Rightarrow> string \<Rightarrow> string \<Rightarrow> 'st \<times> cluster_db
    \<Rightarrow> (route_error, join_result) res \<times> ('st \<times> cluster_db) \<times> launch_request list \<times> (string \<times> string) list" where
  "leaveRoute d user tid token s =
    (case lift_service (leave (rd_service d) tid user (fst s)) of
       (Inl e, st, ls) \<Rightarrow> (Inl e, (st, snd s), ls, [])
     | (Inr r, st, ls) \<Rightarrow> (Inr r, (st, dropSeat user (snd s)), ls, [(tid, token)]))"

definition readyCheck :: "'st route_deps \<Rightarrow> string \<Rightarrow> bool \<Rightarrow> string \<Rightarrow> 'st \<Rightarrow> (route_error, unit) res" where
  "readyCheck d tid r token st =
    (case getTier tid of
       None \<Rightarrow> Inr ()
     | Some tier \<Rightarrow>
         if r \<and> 0 < entryFeeLamports tier then
           (case get_lobby (rd_service d) tid st of
              None \<Rightarrow> Inl (RouteConflict ''This room has no match prepared yet'')
            | Some l \<Rightarrow>
                (case ls_gameId l of
                   None \<Rightarrow> Inl (RouteConflict ''This room has no match prepared yet'')
                 | Some g \<Rightarrow>
                     if g = '''' then Inl (RouteConflict ''This room has no match prepared yet'')
                     else if call_gateway (rd_hasPaid d g token) = Inr (Some True) then Inr ()
                     else Inl (RouteConflict ''Your entry fee has not reached the match wallet yet'')))
         else Inr ())"

definition readyRoute :: "'st route_deps \<Rightarrow> ('st \<Rightarrow> 'st) \<Rightarrow> string \<Rightarrow> string \<Rightarrow> bool \<Rightarrow> string \<Rightarrow> 'st
    \<Rightarrow> (route_error, join_result) res \<times> 'st \<times> launch_request list" where
  "readyRoute d meanwhile user tid r token st =
    (case readyCheck d tid r token st of
       Inl e \<Rightarrow> (Inl e, st, [])
     | Inr _ \<Rightarrow> lift_service (setReady (rd_service d) tid user r (meanwhile st)))"

section \<open>One event on a replica that is alone\<close>

context lobby_store
begin

lemma performLaunch_alone:
  assumes "store d = ops" and ok: "ok st" and s: "load ops st (t_id tier) = s"
    and run: "performLaunch d tier s st = (r, st', ls)"
  shows "ok st' \<and> players (load ops st' (t_id tier)) = [] \<and> (\<forall>u. u \<noteq> t_id tier \<longrightarrow> load ops st' u = load ops st u) \<and>
    ls = [\<lparr> lr_tierId = t_id tier, lr_players = players s, lr_tier = tier, lr_gameId = gameId s \<rparr>]"
proof -
  let ?req = "\<lparr> lr_tierId = t_id tier, lr_players = players s, lr_tier = tier, lr_gameId = gameId s \<rparr>"
  have ts: "tierId s = t_id tier" using ok s load_tier by metis
  show ?thesis
  proof (cases "launch d ?req")
    case (Inl e)
    let ?reset = "t_state (reduceLobby s Reset tier (clock d 0))"
    have "version (load ops st (tierId ?reset)) = version s" using s ts by simp
    from save_hit [OF ok this] obtain st2 where "save ops st ?reset (version s) = Inr (True, st2)" "ok st2"
      "\<forall>t. load ops st2 t = (if t = t_id tier then ?reset else load ops st t)" by (auto simp: ts)
    with run Inl assms(1) show ?thesis by (auto simp: performLaunch_def tryLaunch_def)
  next
    case (Inr g)
    let ?m = "t_state (reduceLobby s (Launched g) tier (clock d 0))"
    let ?reset = "t_state (reduceLobby ?m Reset tier (clock d 0))"
    have "version (load ops st (tierId ?m)) = version s" using s ts by simp
    from save_hit [OF ok this] obtain st2 where st2: "save ops st ?m (version s) = Inr (True, st2)" "ok st2"
      "\<forall>t. load ops st2 t = (if t = t_id tier then ?m else load ops st t)" by (auto simp: ts)
    let ?st3 = "clearPlayers ops st2 (players s)"
    note c = clearPlayers_facts [OF st2(2), where ps = "players s"]
    have "version (load ops ?st3 (tierId ?reset)) = version ?m" using st2(3) ts by (simp add: c(2))
    from save_hit [OF c(1) this] obtain st4 where "save ops ?st3 ?reset (version ?m) = Inr (True, st4)" "ok st4"
      "\<forall>t. load ops st4 t = (if t = t_id tier then ?reset else load ops ?st3 t)" by (auto simp: ts)
    with run Inr assms(1) st2 c show ?thesis by (auto simp: performLaunch_def tryLaunch_def)
  qed
qed

text \<open>The lobby is left alone, or becomes what the reducer says, or is reset by a launch.\<close>

lemma applyEvent_outcome:
  assumes "store d = ops" and "alone d" and ok: "ok st" and run: "applyEvent d tid e st = (r, st', ls)"
  shows "ok st' \<and> (\<forall>u. u \<noteq> tid \<longrightarrow> load ops st' u = load ops st u) \<and>
    (load ops st' tid = load ops st tid \<or> players (load ops st' tid) = [] \<or>
     (\<exists>tier \<in> set ROOM_TIERS. t_id tier = tid \<and> load ops st' tid = t_state (reduceLobby (load ops st tid) e tier (clock d 0)))) \<and>
    (\<forall>q \<in> set ls. lr_tier q \<in> set ROOM_TIERS \<and> t_id (lr_tier q) = tid \<and> (0 < entryFeeLamports (lr_tier q) \<longrightarrow> list_all ready (lr_players q)) \<and>
       lr_players q = players (t_state (reduceLobby (load ops st tid) e (lr_tier q) (clock d 0))) \<and>
       lr_gameId q = gameId (t_state (reduceLobby (load ops st tid) e (lr_tier q) (clock d 0))))"
proof (cases "requireTier tid")
  case (Inl e)
  with run ok show ?thesis by (cases e) (auto simp: applyEvent_def)
next
  case (Inr tier)
  then have t: "tier \<in> set ROOM_TIERS" "t_id tier = tid" using requireTier_Inr by auto
  let ?res = "reduceLobby (load ops st tid) e tier (clock d 0)"
  show ?thesis
  proof (cases "shouldLaunch ?res")
    case False
    have "\<not> shouldLaunch (reduceLobby (load ops st (t_id tier)) e tier (clock d 0))" using False t(2) by simp
    from applyEvent_alone_eq [OF assms(1-3) t(1) this] run show ?thesis
      unfolding t(2) by (metis Pair_inject empty_iff list.set(1) t)
  next
    case launch: True
    note facts = reduceLobby_launch [OF launch]
    have rej: "rejected ?res = None" using reduceLobby_rejected(3) [of "load ops st tid" e tier "clock d 0"] launch by (cases "rejected ?res") auto
    have "t_state ?res \<noteq> load ops st tid" using facts by (metis lobby_status.distinct(7))
    then have ch: "changed ?res" using reduceLobby_not_changed by blast
    have ld: "tierId (load ops st tid) = tid" using load_tier [OF ok] .
    have "version (load ops st (tierId (t_state ?res))) = version (load ops st tid)" by (simp add: ld)
    from save_hit [OF ok this] obtain st2 where sv: "save ops st (t_state ?res) (version (load ops st tid)) = Inr (True, st2)" "ok st2"
      "\<forall>u. load ops st2 u = (if u = tid then t_state ?res else load ops st u)" by (auto simp: ld)
    obtain r1 st3 ls1 where pl: "performLaunch d tier (t_state ?res) st2 = (r1, st3, ls1)"
      by (cases "performLaunch d tier (t_state ?res) st2")
    have "load ops st2 (t_id tier) = t_state ?res" using sv(3) t(2) by simp
    note after = performLaunch_alone [OF assms(1) sv(2) this pl]
    have env: "env d 0 st = st" using assms(2) by (simp add: alone_def)
    have "st' = st3 \<and> ls = ls1"
      using run rej ch sv(1) env launch pl assms(1)
      unfolding t(2) [symmetric] applyEvent_known [OF t(1)] MAX_CAS_ATTEMPTS_eq
      by (cases r1) (auto simp: Let_def h_bind_def simp del: reduceLobby.simps)
    with after facts sv(3) t show ?thesis by auto
  qed
qed

end

section \<open>Histories\<close>

datatype lobby_op = JoinOp join_player string string | LeaveOp string string string | ReadyOp string string bool string | SetReadyOp nat | TickOp
  | OpenOp string "string option" bool | CloseOp string | ResetOp string

definition at_time :: "int \<Rightarrow> 'st route_deps \<Rightarrow> 'st route_deps" where
  "at_time t d = d\<lparr>rd_service := (rd_service d)\<lparr>clock := \<lambda>_. t, clockEnd := t\<rparr>\<rparr>"

definition effect_of :: "('e, 'a) res \<times> 'st \<times> launch_request list \<Rightarrow> 'st \<times> launch_request list" where
  "effect_of m = snd m"

text \<open>
  A request for the ready flag has two moments: the check, which awaits the gateway, and the setting of the flag. Between them
  the request holds its body and the game it has checked; \<open>ready_claim\<close> is such a request, and the claims of a replica are
  the requests that have passed the check and not set the flag yet.
\<close>

type_synonym ready_claim = "string \<times> string \<times> bool \<times> string option"

definition gameNow :: "'st route_deps \<Rightarrow> string \<Rightarrow> 'st \<Rightarrow> string option" where
  "gameNow d tid st = (case get_lobby (rd_service d) tid st of None \<Rightarrow> None | Some l \<Rightarrow> ls_gameId l)"

definition checkReady :: "'st route_deps \<Rightarrow> string \<Rightarrow> string \<Rightarrow> bool \<Rightarrow> string \<Rightarrow> 'st \<times> ready_claim list \<Rightarrow> 'st \<times> ready_claim list" where
  "checkReady d user tid r token s =
    (case readyCheck d tid r token (fst s) of
       Inl e \<Rightarrow> s
     | Inr _ \<Rightarrow> (fst s, snd s @ [(user, tid, r, gameNow d tid (fst s))]))"

definition landReady :: "'st route_deps \<Rightarrow> nat \<Rightarrow> 'st \<times> ready_claim list \<Rightarrow> ('st \<times> ready_claim list) \<times> launch_request list" where
  "landReady d n s =
    (if n < length (snd s) then
       (case snd s ! n of (user, tid, r, g) \<Rightarrow>
          (case effect_of (lift_service (setReady (rd_service d) tid user r (fst s))) of
             (st, ls) \<Rightarrow> ((st, take n (snd s) @ drop (Suc n) (snd s)), ls)))
     else (s, []))"

text \<open>The route is its check, whatever happens meanwhile, and its landing.\<close>

lemma readyRoute_moments:
  "effect_of (readyRoute d meanwhile user tid r token st) =
    (if snd (checkReady d user tid r token (st, [])) = [] then (st, [])
     else (case landReady d 0 (meanwhile st, snd (checkReady d user tid r token (st, []))) of ((st', claims), ls) \<Rightarrow> (st', ls)))"
  by (auto simp: readyRoute_def checkReady_def landReady_def effect_of_def split: sum.split prod.split)

definition with_claims :: "ready_claim list \<Rightarrow> 'st \<times> launch_request list \<Rightarrow> ('st \<times> ready_claim list) \<times> launch_request list" where
  "with_claims claims x = ((fst x, claims), snd x)"

fun lobby_op_step :: "'st route_deps \<Rightarrow> lobby_op \<Rightarrow> 'st \<times> ready_claim list \<Rightarrow> ('st \<times> ready_claim list) \<times> launch_request list" where
  "lobby_op_step d (JoinOp p tid token) s = with_claims (snd s) (effect_of (joinRoute d p tid token (fst s)))"
| "lobby_op_step d (LeaveOp user tid token) s =
    (case leaveRoute d user tid token (fst s, empty_db) of (_, (st', _), ls, _) \<Rightarrow> with_claims (snd s) (st', ls))"
| "lobby_op_step d (ReadyOp user tid r token) s = (checkReady d user tid r token s, [])"
| "lobby_op_step d (SetReadyOp n) s = landReady d n s"
| "lobby_op_step d TickOp s = with_claims (snd s) (snd (tickAll (rd_service d) (fst s)))"
| "lobby_op_step d (OpenOp tid g sched) s = with_claims (snd s) (effect_of (open_lobby (rd_service d) tid g sched (fst s)))"
| "lobby_op_step d (CloseOp tid) s = with_claims (snd s) (effect_of (close_lobby (rd_service d) tid (fst s)))"
| "lobby_op_step d (ResetOp tid) s = with_claims (snd s) (effect_of (reset_lobby (rd_service d) tid (fst s)))"

fun run_lobby_ops :: "'st route_deps \<Rightarrow> (int \<times> lobby_op) list \<Rightarrow> 'st \<times> ready_claim list \<Rightarrow> ('st \<times> ready_claim list) \<times> launch_request list" where
  "run_lobby_ops d [] s = (s, [])"
| "run_lobby_ops d ((t, op) # ops) s =
    (case lobby_op_step (at_time t d) op s of (s1, ls) \<Rightarrow> (case run_lobby_ops d ops s1 of (s2, ls') \<Rightarrow> (s2, ls @ ls')))"

text \<open>The gateway has said, to this player, that the fee of this game has been paid.\<close>

fun confirms :: "'st route_deps \<Rightarrow> string \<Rightarrow> string \<Rightarrow> lobby_op \<Rightarrow> bool" where
  "confirms d g p (ReadyOp user tid r token) = (user = p \<and> r \<and> call_gateway (rd_hasPaid d g token) = Inr (Some True))"
| "confirms d g p _ = False"

definition entitled :: "'st route_deps \<Rightarrow> lobby_op list \<Rightarrow> room_tier \<Rightarrow> lobby_state \<Rightarrow> bool" where
  "entitled d h tier s \<longleftrightarrow> (0 < entryFeeLamports tier \<longrightarrow>
     (\<forall>p \<in> set (players s). ready p \<longrightarrow> (\<exists>g. gameId s = Some g \<and> list_ex (confirms d g (playerId p)) h)))"

definition launch_paid :: "'st route_deps \<Rightarrow> lobby_op list \<Rightarrow> launch_request \<Rightarrow> bool" where
  "launch_paid d h q \<longleftrightarrow> (0 < entryFeeLamports (lr_tier q) \<longrightarrow>
     (\<forall>p \<in> set (lr_players q). \<exists>g. lr_gameId q = Some g \<and> list_ex (confirms d g (playerId p)) h))"

lemma entitled_more: "entitled d h tier s \<Longrightarrow> entitled d (h @ h') tier s" "launch_paid d h q \<Longrightarrow> launch_paid d (h @ h') q"
  unfolding entitled_def launch_paid_def by fastforce+

text \<open>A claim on a paid room has been confirmed for the game it has checked.\<close>

definition claim_paid :: "'st route_deps \<Rightarrow> lobby_op list \<Rightarrow> ready_claim \<Rightarrow> bool" where
  "claim_paid d h c \<longleftrightarrow> (case c of (user, tid, r, g) \<Rightarrow> \<forall>tier. r \<and> getTier tid = Some tier \<and> 0 < entryFeeLamports tier \<longrightarrow>
     (\<exists>g'. g = Some g' \<and> list_ex (confirms d g' user) h))"

lemma claim_paid_more: "claim_paid d h c \<Longrightarrow> claim_paid d (h @ h') c"
  unfolding claim_paid_def by (cases c) fastforce

lemma claims_more: "list_all (claim_paid d h) cs \<Longrightarrow> list_all (claim_paid d (h @ h')) cs"
  unfolding list_all_iff using claim_paid_more by blast

lemma entitled_empty: "players s = [] \<Longrightarrow> entitled d h tier s"
  by (simp add: entitled_def)

lemma entitled_sub:
  assumes "entitled d h tier s" and "\<And>p. p \<in> set (players s') \<Longrightarrow> ready p \<Longrightarrow> p \<in> set (players s)" and "gameId s' = gameId s"
  shows "entitled d h tier s'"
  using assms unfolding entitled_def by metis

lemma settle_mem: "p \<in> set (players (t_state (settle s tier now m))) \<Longrightarrow> p \<in> set (players s)"
  using settle_players [of s tier now m] by auto

text \<open>Events that make nobody ready.\<close>

fun gentle :: "lobby_event \<Rightarrow> bool" where
  "gentle (Ready p r) = (\<not> r)"
| "gentle (Open g sched) = False"
| "gentle (Launched g) = False"
| "gentle _ = True"

lemma entitled_gentle:
  assumes "entitled d h tier s" and "gentle e"
  shows "entitled d h tier (t_state (reduceLobby s e tier now))"
proof (cases e)
  case (Join p)
  show ?thesis
    by (rule entitled_sub [OF assms(1)]) (auto simp: Join Let_def split: if_splits dest!: settle_mem)
next
  case (Leave p)
  show ?thesis
    by (rule entitled_sub [OF assms(1)]) (auto simp: Leave Let_def split: if_splits dest!: settle_mem)
next
  case (Ready p r)
  have "q \<in> set (players s)"
    if "q \<in> set (players (t_state (reduceLobby s (Ready p r) tier now)))" "ready q" for q
    using that assms(2) set_update_subset_insert [of "players s"]
    by (fastforce simp: Ready Let_def split: if_splits option.splits dest!: settle_mem)
  then show ?thesis
    by (intro entitled_sub [OF assms(1)]) (simp_all add: Ready Let_def split: option.split)
next
  case Tick
  show ?thesis by (rule entitled_sub [OF assms(1)]) (auto simp: Tick dest: settle_mem)
next
  case Close
  show ?thesis by (rule entitled_sub [OF assms(1)]) (auto simp: Close split: if_splits)
next
  case Reset
  then show ?thesis by (simp add: entitled_empty)
qed (use assms(2) in auto)

lemma entitled_ready:
  assumes "entitled d h tier s" and "\<And>g. gameId s = Some g \<Longrightarrow> list_ex (confirms d g p) h" and "0 < entryFeeLamports tier \<Longrightarrow> gameId s \<noteq> None"
  shows "entitled d h tier (t_state (reduceLobby s (Ready p r) tier now))"
  unfolding entitled_def
proof (intro impI ballI)
  fix q assume fee: "0 < entryFeeLamports tier" and q: "q \<in> set (players (t_state (reduceLobby s (Ready p r) tier now)))" "ready q"
  obtain g where g: "gameId s = Some g" using assms(3) [OF fee] by auto
  have "q \<in> set (players s) \<or> playerId q = p"
  proof (cases "find_index (\<lambda>q. playerId q = p) (players s)")
    case (Some i)
    from find_index_from_Some [OF Some] q(1) Some show ?thesis
      using set_update_subset_insert [of "players s" i]
      by (fastforce simp: Let_def split: if_splits dest!: settle_mem)
  qed (use q in simp)
  then show "\<exists>g. gameId (t_state (reduceLobby s (Ready p r) tier now)) = Some g \<and> list_ex (confirms d g (playerId q)) h"
    using assms(1,2) fee q(2) g unfolding entitled_def by (auto simp: Let_def split: option.split)
qed

text \<open>A room is opened for a game when nobody waits in it as paid for another.\<close>

definition opens_orderly :: "lobby_event \<Rightarrow> lobby_state \<Rightarrow> bool" where
  "opens_orderly e s \<longleftrightarrow> (case e of Open g sched \<Rightarrow> readyCount s = 0 \<or> g = gameId s | _ \<Rightarrow> True)"

lemma entitled_open:
  assumes "entitled d h tier s" and "opens_orderly (Open g sched) s"
  shows "entitled d h tier (t_state (reduceLobby s (Open g sched) tier now))"
  using assms by (auto simp: entitled_def opens_orderly_def readyCount_def filter_empty_conv Let_def)

text \<open>What histories keep: everybody who is ready in a paid room is entitled to be.\<close>

definition paid_store :: "'st route_deps \<Rightarrow> lobby_op list \<Rightarrow> 'st \<Rightarrow> bool" where
  "paid_store d h st \<longleftrightarrow> (\<forall>tier \<in> set ROOM_TIERS. entitled d h tier (load (store (rd_service d)) st (t_id tier)))"

definition paid_run :: "('st \<Rightarrow> bool) \<Rightarrow> 'st route_deps \<Rightarrow> lobby_op list \<Rightarrow> 'st \<times> launch_request list \<Rightarrow> bool" where
  "paid_run okay d h x \<longleftrightarrow> okay (fst x) \<and> paid_store d h (fst x) \<and> list_all (launch_paid d h) (snd x)"

text \<open>What a step of a history keeps, claims included.\<close>

definition paid_flow :: "('st \<Rightarrow> bool) \<Rightarrow> 'st route_deps \<Rightarrow> lobby_op list \<Rightarrow> ('st \<times> ready_claim list) \<times> launch_request list \<Rightarrow> bool" where
  "paid_flow okay d h x \<longleftrightarrow> paid_run okay d h (fst (fst x), snd x) \<and> list_all (claim_paid d h) (snd (fst x))"

lemma paid_store_more: "paid_store d h st \<Longrightarrow> paid_store d (h @ h') st"
  unfolding paid_store_def by (blast intro: entitled_more(1))

context lobby_store
begin

lemma event_paid:
  assumes "store (rd_service d) = ops" and "alone (rd_service d)" and "ok st" and "paid_store d h st"
    and new: "\<And>tier. tier \<in> set ROOM_TIERS \<Longrightarrow> t_id tier = tid \<Longrightarrow>
      entitled d h tier (t_state (reduceLobby (load ops st tid) e tier (clock (rd_service d) 0)))"
  shows "paid_run ok d h (effect_of (applyEvent (rd_service d) tid e st))"
proof -
  obtain r st' ls where run: "applyEvent (rd_service d) tid e st = (r, st', ls)"
    by (cases "applyEvent (rd_service d) tid e st")
  note out = applyEvent_outcome [OF assms(1-3) run]
  have "entitled d h tier (load ops st' (t_id tier))" if t: "tier \<in> set ROOM_TIERS" for tier
  proof (cases "t_id tier = tid")
    case True
    have same: "tier' = tier" if "tier' \<in> set ROOM_TIERS" "t_id tier' = tid" for tier'
      using that t True distinct_TIER_IDS unfolding TIER_IDS_def by (intro distinct_key_eq [where key = t_id]) auto
    have "entitled d h tier (load ops st tid)" using assms(1,4) t True by (auto simp: paid_store_def)
    moreover have "entitled d h tier (t_state (reduceLobby (load ops st tid) e tier' (clock (rd_service d) 0)))"
      if "tier' \<in> set ROOM_TIERS" "t_id tier' = tid" for tier'
      using new [OF that] same [OF that] by simp
    ultimately show ?thesis using out entitled_empty unfolding True by metis
  next
    case False
    then have "load ops st' (t_id tier) = load ops st (t_id tier)" using out by blast
    then show ?thesis using assms(1,4) t by (simp add: paid_store_def)
  qed
  moreover have "launch_paid d h q" if "q \<in> set ls" for q
  proof -
    have q: "lr_tier q \<in> set ROOM_TIERS" "t_id (lr_tier q) = tid"
      "0 < entryFeeLamports (lr_tier q) \<Longrightarrow> list_all ready (lr_players q)"
      "lr_players q = players (t_state (reduceLobby (load ops st tid) e (lr_tier q) (clock (rd_service d) 0)))"
      "lr_gameId q = gameId (t_state (reduceLobby (load ops st tid) e (lr_tier q) (clock (rd_service d) 0)))"
      using out that by blast+
    from new [OF q(1,2)] q(3-5) show ?thesis by (auto simp: launch_paid_def entitled_def list_all_iff)
  qed
  moreover have "ok st'" using out by blast
  ultimately show ?thesis using assms(1) by (simp add: paid_run_def effect_of_def run paid_store_def list_all_iff)
qed

lemma gentle_paid:
  assumes "store (rd_service d) = ops" and "alone (rd_service d)" and "ok st" and "paid_store d h st" and "gentle e"
  shows "paid_run ok d h (effect_of (applyEvent (rd_service d) tid e st))"
  by (rule event_paid [OF assms(1-4)]) (use assms(1,4,5) in \<open>auto simp: paid_store_def intro: entitled_gentle\<close>)

lemma paid_index: "store (rd_service d) = ops \<Longrightarrow> ok st \<Longrightarrow> paid_store d h st \<Longrightarrow> ok (setPlayerLobby ops st p l) \<and> paid_store d h (setPlayerLobby ops st p l)"
  by (simp add: paid_store_def set_ok set_load)

lemma paid_clear: "store (rd_service d) = ops \<Longrightarrow> ok st \<Longrightarrow> paid_store d h st \<Longrightarrow> ok (clearPlayers ops st ps) \<and> paid_store d h (clearPlayers ops st ps)"
  by (simp add: paid_store_def clearPlayers_facts)

text \<open>Runs one after the other.\<close>

lemma paid_bind:
  assumes "paid_run ok d h (effect_of m)" and "\<And>v st. ok st \<Longrightarrow> paid_store d h st \<Longrightarrow> paid_run ok d h (effect_of (f v st))"
  shows "paid_run ok d h (effect_of (h_bind m f))"
proof -
  obtain r st ls where m: "m = (r, st, ls)" by (cases m)
  show ?thesis
  proof (cases r)
    case (Inr v)
    with assms(1) assms(2) [of st v] show ?thesis
      by (cases "f v st") (auto simp: m h_bind_def paid_run_def effect_of_def)
  qed (use assms(1) in \<open>simp add: m effect_of_def\<close>)
qed

lemma paid_done: "ok st \<Longrightarrow> paid_store d h st \<Longrightarrow> paid_run ok d h (effect_of (r, st, []))"
  by (simp add: paid_run_def effect_of_def)

lemma paid_lift: "paid_run ok d h (effect_of (lift_service m)) \<longleftrightarrow> paid_run ok d h (effect_of m)"
  by (cases m; cases "fst m") (auto simp: lift_service_def effect_of_def)

lemma leave_paid:
  assumes "store (rd_service d) = ops" and "alone (rd_service d)" and "ok st" and "paid_store d h st"
  shows "paid_run ok d h (effect_of (leave (rd_service d) tid p st))"
  unfolding leave_def
  by (rule paid_bind [OF gentle_paid [OF assms]]) (use paid_index [OF assms(1)] assms(1) in \<open>auto simp: Let_def intro: paid_done\<close>)

lemma join_paid:
  assumes "store (rd_service d) = ops" and "alone (rd_service d)" and "ok st" and "paid_store d h st"
  shows "paid_run ok d h (effect_of (join (rd_service d) tid p st))"
  unfolding join_def
proof (rule paid_bind)
  show "paid_run ok d h (effect_of (case findPlayerLobby (store (rd_service d)) st (jp_id p) of
      None \<Rightarrow> (Inr (), st, [])
    | Some existing \<Rightarrow> if existing \<noteq> [] \<and> existing \<noteq> tid
        then h_bind (leave (rd_service d) existing (jp_id p) st) (\<lambda>_ st1. (Inr (), st1, [])) else (Inr (), st, [])))"
    using assms(3,4) by (auto intro!: paid_done paid_bind leave_paid [OF assms(1,2)] split: option.split)
next
  fix u st1 assume "ok st1" "paid_store d h st1"
  then show "paid_run ok d h (effect_of (h_bind (applyEvent (rd_service d) tid (Join p) st1)
      (\<lambda>r st2. let st3 = (if ar_rejected r = None then setPlayerLobby (store (rd_service d)) st2 (jp_id p) (Some tid) else st2)
               in (Inr (joinResultOf (rd_service d) r), st3, []))))"
    using paid_index [OF assms(1)] assms(1)
    by (intro paid_bind [OF gentle_paid [OF assms(1,2)]]) (auto simp: Let_def intro: paid_done)
qed

lemma check_paid:
  assumes "store (rd_service d) = ops" and "ok st" and "list_all (claim_paid d h) claims"
  shows "fst (checkReady d user tid r token (st, claims)) = st \<and>
    list_all (claim_paid d (h @ [ReadyOp user tid r token])) (snd (checkReady d user tid r token (st, claims)))"
proof (cases "readyCheck d tid r token st")
  case (Inl e)
  then show ?thesis using claims_more [OF assms(3)] by (simp add: checkReady_def)
next
  case (Inr u)
  have "claim_paid d (h @ [ReadyOp user tid r token]) (user, tid, r, gameNow d tid st)"
    unfolding claim_paid_def prod.case
  proof (intro allI impI)
    fix tier assume t: "r \<and> getTier tid = Some tier \<and> 0 < entryFeeLamports tier"
    with Inr obtain l g where "get_lobby (rd_service d) tid st = Some l" "ls_gameId l = Some g" "call_gateway (rd_hasPaid d g token) = Inr (Some True)"
      by (auto simp: readyCheck_def split: option.splits if_splits)
    with t show "\<exists>g'. gameNow d tid st = Some g' \<and> list_ex (confirms d g' user) (h @ [ReadyOp user tid r token])"
      by (simp add: gameNow_def)
  qed
  with Inr show ?thesis using claims_more [OF assms(3)] by (simp add: checkReady_def)
qed

text \<open>The flag of a claim that is set while the room has the game the claim has checked.\<close>

lemma land_paid:
  assumes "store (rd_service d) = ops" and "alone (rd_service d)" and "ok st" and "paid_store d h st" and "claim_paid d h (user, tid, r, g)"
    and same: "\<And>tier. r \<Longrightarrow> getTier tid = Some tier \<Longrightarrow> 0 < entryFeeLamports tier \<Longrightarrow> gameId (load ops st tid) = g"
  shows "paid_run ok d h (effect_of (lift_service (setReady (rd_service d) tid user r st)))"
proof -
  have "entitled d h tier (t_state (reduceLobby (load ops st tid) (Ready user r) tier (clock (rd_service d) 0)))"
    if t: "tier \<in> set ROOM_TIERS" "t_id tier = tid" for tier
  proof -
    have old: "entitled d h tier (load ops st tid)" using assms(1,4) t by (auto simp: paid_store_def)
    show ?thesis
    proof (cases "r \<and> 0 < entryFeeLamports tier")
      case False
      then show ?thesis
      proof (cases r)
        case True
        with False show ?thesis by (simp add: entitled_def)
      next
        case f: False
        show ?thesis by (rule entitled_gentle [OF old]) (simp add: f)
      qed
    next
      case True
      have get: "getTier tid = Some tier" using t by (simp add: getTier_def BY_ID_eq_Some)
      with assms(5) True same have "\<exists>g'. gameId (load ops st tid) = Some g' \<and> list_ex (confirms d g' user) h"
        by (simp add: claim_paid_def)
      then show ?thesis by (intro entitled_ready [OF old]) auto
    qed
  qed
  from event_paid [OF assms(1-4) this] show ?thesis
    by (simp add: paid_lift setReady_def paid_bind paid_done)
qed

lemma tick_paid:
  assumes "store (rd_service d) = ops" and "alone (rd_service d)"
  shows "ok st \<Longrightarrow> paid_store d h st \<Longrightarrow> paid_run ok d h (snd (tickTiers (rd_service d) tids st))"
proof (induction tids arbitrary: st)
  case (Cons tid tids)
  obtain r st1 ls where t: "tick (rd_service d) tid st = (r, st1, ls)" by (cases "tick (rd_service d) tid st")
  have "paid_run ok d h (effect_of (tick (rd_service d) tid st))"
    unfolding tick_def by (rule paid_bind [OF gentle_paid [OF assms Cons.prems]]) (simp_all add: paid_done)
  with t have one: "ok st1" "paid_store d h st1" "list_all (launch_paid d h) ls" by (simp_all add: effect_of_def paid_run_def)
  obtain la st2 ls2 where rest: "tickTiers (rd_service d) tids st1 = (la, st2, ls2)" by (cases "tickTiers (rd_service d) tids st1")
  from Cons.IH [OF one(1,2)] rest one(3) t show ?case by (simp add: paid_run_def)
qed (simp add: paid_run_def)

lemma paid_with_claims: "paid_flow ok d h (with_claims claims x) \<longleftrightarrow> paid_run ok d h x \<and> list_all (claim_paid d h) claims"
  by (simp add: paid_flow_def with_claims_def)

end

text \<open>
  Histories in order: a room is opened for a new game only when nobody is ready in it for another, and a ready flag of a paid
  room is set while the room still has the game whose payment has been checked.
\<close>

definition lands_orderly :: "'st route_deps \<Rightarrow> nat \<Rightarrow> 'st \<times> ready_claim list \<Rightarrow> bool" where
  "lands_orderly d n s \<longleftrightarrow> n < length (snd s) \<longrightarrow>
     (case snd s ! n of (user, tid, r, g) \<Rightarrow>
        (case getTier tid of None \<Rightarrow> True
         | Some tier \<Rightarrow> r \<and> 0 < entryFeeLamports tier \<longrightarrow> gameId (load (store (rd_service d)) (fst s) tid) = g))"

definition op_orderly :: "'st route_deps \<Rightarrow> lobby_op \<Rightarrow> 'st \<times> ready_claim list \<Rightarrow> bool" where
  "op_orderly d op s \<longleftrightarrow> (case op of
       OpenOp tid g sched \<Rightarrow> opens_orderly (Open g sched) (load (store (rd_service d)) (fst s) tid)
     | SetReadyOp n \<Rightarrow> lands_orderly d n s
     | _ \<Rightarrow> True)"

fun orderly :: "'st route_deps \<Rightarrow> (int \<times> lobby_op) list \<Rightarrow> 'st \<times> ready_claim list \<Rightarrow> bool" where
  "orderly d [] s = True"
| "orderly d ((t, op) # ops) s = (op_orderly d op s \<and> orderly d ops (fst (lobby_op_step (at_time t d) op s)))"

context lobby_store
begin

lemma op_paid:
  assumes "store (rd_service d) = ops" and "alone (rd_service d)" and "ok (fst s)" and "paid_store d h (fst s)"
    and "list_all (claim_paid d h) (snd s)" and "op_orderly d op s"
  shows "paid_flow ok d (h @ [op]) (lobby_op_step d op s)"
proof -
  obtain st claims where s: "s = (st, claims)" by (cases s)
  have st: "paid_store d (h @ [op]) st" using paid_store_more [OF assms(4)] by (simp add: s)
  have cl: "list_all (claim_paid d (h @ [op])) claims" using claims_more [OF assms(5)] by (simp add: s)
  have ok: "ok st" using assms(3) by (simp add: s)
  note a = assms(1,2) ok st
  show ?thesis
  proof (cases op)
    case (JoinOp p tid token)
    have "paid_run ok d (h @ [op]) (effect_of (joinRoute d p tid token st))"
      by (simp add: joinRoute_def paid_lift join_paid [OF a] paid_done [OF a(3,4)] split: option.split sum.split)
    with cl show ?thesis by (simp add: JoinOp s paid_with_claims)
  next
    case (LeaveOp user tid token)
    obtain r st' ls where l: "lift_service (leave (rd_service d) tid user st) = (r, st', ls)"
      by (cases "lift_service (leave (rd_service d) tid user st)")
    have "paid_run ok d (h @ [op]) (effect_of (lift_service (leave (rd_service d) tid user st)))"
      by (simp add: paid_lift leave_paid [OF a])
    then have "paid_run ok d (h @ [op]) (st', ls)" by (simp add: l effect_of_def)
    with cl show ?thesis using l by (cases r) (simp_all add: LeaveOp leaveRoute_def s paid_with_claims)
  next
    case (ReadyOp user tid r token)
    have "list_all (claim_paid d h) claims" using assms(5) by (simp add: s)
    from check_paid [OF assms(1) ok this, of user tid r token] st ok show ?thesis
      by (simp add: ReadyOp s paid_flow_def paid_run_def)
  next
    case (SetReadyOp n)
    show ?thesis
    proof (cases "n < length claims")
      case True
      obtain user tid r g where c: "claims ! n = (user, tid, r, g)" by (cases "claims ! n")
      have "claim_paid d (h @ [op]) (user, tid, r, g)" using cl True c by (metis list_all_length)
      moreover have "gameId (load ops st tid) = g" if "r" "getTier tid = Some tier" "0 < entryFeeLamports tier" for tier
        using assms(6) that True c by (simp add: op_orderly_def SetReadyOp lands_orderly_def s assms(1))
      ultimately have "paid_run ok d (h @ [op]) (effect_of (lift_service (setReady (rd_service d) tid user r st)))"
        by (rule land_paid [OF a])
      moreover have "list_all (claim_paid d (h @ [op])) (take n claims @ drop (Suc n) claims)"
        using cl by (auto simp: list_all_iff dest: in_set_takeD in_set_dropD)
      ultimately show ?thesis using True c
        by (cases "effect_of (lift_service (setReady (rd_service d) tid user r st))")
           (simp add: SetReadyOp s landReady_def paid_flow_def)
    next
      case False
      then show ?thesis using st ok cl by (simp add: SetReadyOp s landReady_def paid_flow_def paid_run_def)
    qed
  next
    case TickOp
    from tick_paid [OF assms(1,2) a(3,4)] cl show ?thesis by (simp add: TickOp tickAll_def s paid_with_claims)
  next
    case (OpenOp tid g sched)
    have "paid_run ok d (h @ [op]) (effect_of (applyEvent (rd_service d) tid (Open g sched) st))"
      using assms(1,6) st by (intro event_paid [OF a] entitled_open) (auto simp: OpenOp paid_store_def op_orderly_def s)
    with cl show ?thesis by (simp add: OpenOp open_lobby_def paid_bind paid_done s paid_with_claims)
  next
    case (CloseOp tid)
    have "paid_run ok d (h @ [op]) (effect_of (applyEvent (rd_service d) tid Close st))" by (rule gentle_paid [OF a]) simp
    with cl show ?thesis by (simp add: CloseOp close_lobby_def paid_bind paid_done s paid_with_claims)
  next
    case (ResetOp tid)
    have "paid_run ok d (h @ [op]) (effect_of (applyEvent (rd_service d) tid Reset st))" by (rule gentle_paid [OF a]) simp
    then have "paid_run ok d (h @ [op]) (effect_of (reset_lobby (rd_service d) tid st))"
      using paid_clear [OF assms(1)] assms(1) by (auto simp: reset_lobby_def intro!: paid_bind paid_done)
    with cl show ?thesis by (simp add: ResetOp s paid_with_claims)
  qed
qed

lemma paid_at_time: "paid_store (at_time t d) h st = paid_store d h st" "paid_flow ok (at_time t d) h x = paid_flow ok d h x"
    "claim_paid (at_time t d) h = claim_paid d h" "op_orderly (at_time t d) op s = op_orderly d op s"
proof -
  have c: "confirms (at_time t d) g p = confirms d g p" for g p
  proof
    fix op show "confirms (at_time t d) g p op = confirms d g p op" by (cases op) (simp_all add: at_time_def)
  qed
  have store: "store (rd_service (at_time t d)) = store (rd_service d)" by (simp add: at_time_def)
  have "entitled (at_time t d) h = entitled d h" by (intro ext) (simp only: entitled_def c)
  then show s: "paid_store (at_time t d) h st = paid_store d h st" for st by (simp add: paid_store_def at_time_def)
  have "launch_paid (at_time t d) h = launch_paid d h" by (intro ext) (simp only: launch_paid_def c)
  with s have r: "paid_run ok (at_time t d) h x = paid_run ok d h x" for x by (simp add: paid_run_def)
  show cl: "claim_paid (at_time t d) h = claim_paid d h" by (intro ext) (simp only: claim_paid_def c)
  show "paid_flow ok (at_time t d) h x = paid_flow ok d h x" by (simp only: paid_flow_def r cl)
  show "op_orderly (at_time t d) op s = op_orderly d op s"
    by (simp only: op_orderly_def lands_orderly_def store)
qed

lemma run_paid:
  assumes "store (rd_service d) = ops" and "alone (rd_service d)"
  shows "ok (fst s) \<Longrightarrow> paid_store d h (fst s) \<Longrightarrow> list_all (claim_paid d h) (snd s) \<Longrightarrow> orderly d hist s \<Longrightarrow>
    paid_flow ok d (h @ map snd hist) (run_lobby_ops d hist s)"
proof (induction hist arbitrary: s h)
  case (Cons x hist)
  obtain t op where x: "x = (t, op)" by fastforce
  obtain s1 ls where s: "lobby_op_step (at_time t d) op s = (s1, ls)" by fastforce
  have "paid_flow ok (at_time t d) (h @ [op]) (lobby_op_step (at_time t d) op s)"
  proof (rule op_paid)
    show "store (rd_service (at_time t d)) = ops" "alone (rd_service (at_time t d))" using assms by (simp_all add: at_time_def alone_def)
    show "ok (fst s)" by (rule Cons.prems(1))
    show "paid_store (at_time t d) h (fst s)" "list_all (claim_paid (at_time t d) h) (snd s)" "op_orderly (at_time t d) op s"
      using Cons.prems(2-4) by (simp_all add: paid_at_time x)
  qed
  then have one: "ok (fst s1)" "paid_store d (h @ [op]) (fst s1)" "list_all (launch_paid d (h @ [op])) ls" "list_all (claim_paid d (h @ [op])) (snd s1)"
    by (simp_all add: paid_at_time s) (simp_all add: paid_flow_def paid_run_def)
  obtain s2 ls2 where rest: "run_lobby_ops d hist s1 = (s2, ls2)" by fastforce
  have "orderly d hist s1" using Cons.prems(4) x s by simp
  from Cons.IH [OF one(1,2,4) this] one(3) show ?case
    using entitled_more(2) [of d "h @ [op]"] by (auto simp: x s rest paid_flow_def paid_run_def list_all_iff)
qed (simp add: paid_flow_def paid_run_def)

end

section \<open>Paid rooms\<close>

text \<open>C13: Nobody plays a paid match for free, as long as a room keeps its game from a player's payment to the launch: in any history
  of joins, leaves, ready requests, ticks and calls of the worker at the routes of one Redis-backed matchmaker, where other requests
  may run between the check of a payment and the setting of the ready flag, if a room is not opened for another game while players
  wait in it as ready, nor the flag of a paid room set after the room's game has changed since the check, every player of every
  launched paid match has been confirmed by the gateway to have paid for that very game. (The matchmaker is the only replica, and
  applies one event to its store at a time.)\<close>

theorem paid_matches_are_paid_for:
  assumes "store (rd_service d) = redis_ops" and "alone (rd_service d)" and "redis_ok st"
    and "list_all (\<lambda>tier. players (redis_load st (t_id tier)) = []) ROOM_TIERS" and "orderly d hist (st, [])"
    and "q \<in> set (snd (run_lobby_ops d hist (st, [])))" and "0 < entryFeeLamports (lr_tier q)" and "p \<in> set (lr_players q)"
  shows "\<exists>g. lr_gameId q = Some g \<and> list_ex (confirms d g (playerId p)) (map snd hist)"
proof -
  have "paid_store d [] st" using assms(1,4) by (simp add: paid_store_def list_all_iff entitled_empty)
  then have "paid_flow redis_ok d ([] @ map snd hist) (run_lobby_ops d hist (st, []))"
    using redis.run_paid [OF assms(1,2), of "(st, [])" "[]" hist] assms(3,5) by simp
  with assms(6-8) show ?thesis by (auto simp: paid_flow_def paid_run_def list_all_iff launch_paid_def)
qed

text \<open>A gateway where the bearer of a token has paid for the games the token lists.\<close>

definition gateway_says :: "string \<Rightarrow> string \<Rightarrow> bool" where
  "gateway_says g token \<longleftrightarrow> token = g"

definition sample_routes :: "redis_db route_deps" where
  "sample_routes = \<lparr>rd_service = replica (\<lambda>_ st. st) 0,
     rd_canAfford = \<lambda>_ _. Reply True 200 (JsonBody \<lparr>af_requiredLamports = 1, af_walletLamports = 2, af_sufficient = True\<rparr>),
     rd_hasPaid = \<lambda>g token. Reply True 200 (JsonBody (gateway_says g token))\<rparr>"

definition newcomer_to :: "string \<Rightarrow> join_player" where
  "newcomer_to p = \<lparr>jp_id = p, jp_nickname = p, jp_wallet = p\<rparr>"

definition two_pay :: "(int \<times> lobby_op) list" where
  "two_pay = [(0, OpenOp ''bronze'' (Some ''g1'') False), (1, JoinOp (newcomer_to ''ann'') ''bronze'' ''g1''),
     (2, ReadyOp ''ann'' ''bronze'' True ''g1''), (3, JoinOp (newcomer_to ''bob'') ''bronze'' ''g1''),
     (4, ReadyOp ''bob'' ''bronze'' True ''g1''), (5, SetReadyOp 1), (6, SetReadyOp 0), (90000, TickOp)]"

lemma two_pay_launches:
  "map (\<lambda>q. (lr_tier q = sample_tier ''bronze'', lr_gameId q, map playerId (lr_players q))) (snd (run_lobby_ops sample_routes two_pay (redis_with [], []))) =
     [(True, Some ''g1'', [''ann'', ''bob''])]"
  by code_simp

lemma two_pay_orderly: "orderly sample_routes two_pay (redis_with [], [])"
  by code_simp

lemma paid_matches_are_paid_for_witness:
  "\<exists>q g. q \<in> set (snd (run_lobby_ops sample_routes two_pay (redis_with [], []))) \<and> lr_gameId q = Some g \<and> 0 < entryFeeLamports (lr_tier q) \<and>
     map playerId (lr_players q) = [''ann'', ''bob''] \<and> list_ex (confirms sample_routes g ''bob'') (map snd two_pay)"
proof -
  have ok: "redis_ok (redis_with [])" by (rule redis_with_ok)
  have none: "players (redis_load (redis_with []) t) = []" for t by (simp add: redis_with_load)
  obtain q where q: "q \<in> set (snd (run_lobby_ops sample_routes two_pay (redis_with [], [])))" "lr_tier q = sample_tier ''bronze''"
      "map playerId (lr_players q) = [''ann'', ''bob'']"
    using two_pay_launches by auto
  have fee: "0 < entryFeeLamports (lr_tier q)" by (simp add: q(2))
  have "''bob'' \<in> set (map playerId (lr_players q))" using q(3) by simp
  then obtain p where p: "p \<in> set (lr_players q)" "playerId p = ''bob''" by auto
  have d: "store (rd_service sample_routes) = redis_ops" "alone (rd_service sample_routes)"
    by (simp_all add: sample_routes_def replica_alone)
  have none': "list_all (\<lambda>tier. players (redis_load (redis_with []) (t_id tier)) = []) ROOM_TIERS" by (simp add: none list_all_iff)
  from paid_matches_are_paid_for [OF d ok none' two_pay_orderly q(1) fee p(1)] obtain g where
    g: "lr_gameId q = Some g" "list_ex (confirms sample_routes g (playerId p)) (map snd two_pay)" by blast
  show ?thesis by (intro exI [of _ q] exI [of _ g] conjI) (use q g fee p in simp_all)
qed

text \<open>The finding: the payment is checked for the game the room has at that moment and the flag is set later without asking again, so
  when the room is opened for the next game in between, the player is dealt into a match they have not paid for.\<close>

definition late_flag :: "(int \<times> lobby_op) list" where
  "late_flag = [(0, OpenOp ''bronze'' (Some ''g1'') False), (1, JoinOp (newcomer_to ''ann'') ''bronze'' ''g1''),
     (2, ReadyOp ''ann'' ''bronze'' True ''g1''), (3, OpenOp ''bronze'' (Some ''g2'') False), (4, SetReadyOp 0),
     (5, JoinOp (newcomer_to ''bob'') ''bronze'' ''g2''), (6, ReadyOp ''bob'' ''bronze'' True ''g2''), (7, SetReadyOp 0), (90000, TickOp)]"

lemma late_flag_plays_unpaid:
  "map (\<lambda>q. (lr_gameId q, map playerId (lr_players q))) (snd (run_lobby_ops sample_routes late_flag (redis_with [], []))) =
     [(Some ''g2'', [''ann'', ''bob''])] \<and>
   \<not> list_ex (confirms sample_routes ''g2'' ''ann'') (map snd late_flag)"
  by code_simp

text \<open>The finding: opening a room for the next game, as every cycle does, keeps the players who wait in it and their ready flags, so
  who paid for the previous game is dealt into the next one without paying for it.\<close>

lemma ready_carries_over:
  "let tier = sample_tier ''bronze'';
       waits = (emptyLobby ''bronze'')\<lparr>gameId := Some ''g1'', players := [\<lparr>playerId = ''ann'', nickname = ''ann'', wallet = ''w'', joinedAt = 0, ready = True\<rparr>]\<rparr>;
       opened = t_state (reduceLobby waits (Open (Some ''g2'') False) tier 10);
       joined = t_state (reduceLobby opened (Join (newcomer_to ''bob'')) tier 20);
       both = t_state (reduceLobby joined (Ready ''bob'' True) tier 30);
       launch = reduceLobby both Tick tier 90000
   in shouldLaunch launch \<and> gameId (t_state launch) = Some ''g2'' \<and> map playerId (players (t_state launch)) = [''ann'', ''bob'']"
  by (simp add: newcomer_to_def settle_def Let_def isAtCapacity_def emptyLobby_def)

end
