(* ===== verification/Connection.thy ===== *)
theory Connection
  imports Room_Handoff Anti_Cheat_Properties Handshake
begin

text \<open>
  The sockets of a realtime node (\<open>apps/realtime/src/io/handlers/connection.ts\<close>, \<open>io/middleware/rate-limit.ts\<close>,
  \<open>cluster/drain.ts\<close>, \<open>packages/protocol/src/clientVersion.ts\<close>): a connection that has been admitted takes a seat in the room
  of its ticket, and its events go to the room it holds and to nothing else. A handler holds the room itself, so rooms
  that the node has dropped are kept as \<open>ar_gone\<close>. What the handlers send is a list.
\<close>

section \<open>State\<close>

record socket_config =
  sk_node :: node_config
  sk_snapshotRateHz :: nat
  sk_maxInputsPerSecond :: real

record connection =
  cn_socketId :: string
  cn_session :: session_data
  cn_room :: nat
  cn_events :: "string \<Rightarrow> bucket option"

record arena =
  ar_manager :: manager
  ar_gone :: "hosted list"
  ar_sockets :: "connection list"
  ar_guards :: "string \<Rightarrow> input_guard option"

record room_joined =
  we_playerId :: string
  we_roomId :: string
  we_tickRate :: nat
  we_snapshotRate :: nat
  we_worldRadius :: real
  we_serverTime :: int

text \<open>What goes to one socket, the answer to the event being handled, and what goes to everybody in a room.\<close>

datatype outgoing =
    ErrorTo string string string bool
  | MigrateTo string string int
  | JoinedTo string room_joined
  | AckError string string bool
  | AckWelcome room_joined
  | AckTime int
  | ChatTo string string string js_string
  | ChatRoom string string string js_string
  | Ticked string message

definition new_arena :: arena where
  "new_arena = \<lparr>ar_manager = new_manager, ar_gone = [], ar_sockets = [], ar_guards = \<lambda>_. None\<rparr>"

definition heldRoom :: "nat \<Rightarrow> arena \<Rightarrow> room option" where
  "heldRoom n ar = map_option ho_room (find (\<lambda>h. ho_number h = n) (mg_rooms (ar_manager ar) @ ar_gone ar))"

definition onHeld :: "nat \<Rightarrow> (room \<Rightarrow> room) \<Rightarrow> arena \<Rightarrow> arena" where
  "onHeld n f ar = ar\<lparr>ar_manager := onRoom n f (ar_manager ar),
     ar_gone := upd_rows (\<lambda>h. ho_number h = n) (\<lambda>h. h\<lparr>ho_room := f (ho_room h)\<rparr>) (ar_gone ar)\<rparr>"

definition connectionOf :: "string \<Rightarrow> arena \<Rightarrow> connection option" where
  "connectionOf sid ar = find (\<lambda>c. cn_socketId c = sid) (ar_sockets ar)"

definition welcomeTo :: "socket_config \<Rightarrow> session_data \<Rightarrow> room \<Rightarrow> room_joined" where
  "welcomeTo sc s r = \<lparr>we_playerId = ss_playerId s, we_roomId = ss_roomId s, we_tickRate = nc_tickRateHz (sk_node sc),
     we_snapshotRate = sk_snapshotRateHz sc, we_worldRadius = 8000, we_serverTime = elapsed r\<rparr>"

section \<open>Versions\<close>

text \<open>\<open>Number\<close> of a text without a point: white space around it, a sign, digits and a power of ten, or digits in another base.\<close>

definition unsigned_number :: "string \<Rightarrow> rat option" where
  "unsigned_number s =
    (let ds = takeWhile (\<lambda>c. digit_value c \<noteq> None) s; rest = drop (length ds) s in
     if ds = [] then None
     else case rest of
       [] \<Rightarrow> Some (of_nat (read_digits 0 ds))
     | e # ex \<Rightarrow>
         if e \<noteq> CHR ''e'' \<and> e \<noteq> CHR ''E'' then None
         else (let neg = (ex \<noteq> [] \<and> hd ex = CHR ''-'');
                   es = (if ex \<noteq> [] \<and> (hd ex = CHR ''-'' \<or> hd ex = CHR ''+'') then tl ex else ex)
               in if es = [] \<or> list_ex (\<lambda>c. digit_value c = None) es then None
                  else if neg then Some (of_nat (read_digits 0 ds) / 10 ^ read_digits 0 es)
                  else Some (of_nat (read_digits 0 ds) * 10 ^ read_digits 0 es)))"

definition based_number :: "nat \<Rightarrow> string \<Rightarrow> rat option" where
  "based_number b ds =
    (if ds = [] \<or> list_ex (\<lambda>c. case hex_value c of None \<Rightarrow> True | Some v \<Rightarrow> b \<le> v) ds then None
     else Some (of_nat (fold (\<lambda>c n. n * b + the (hex_value c)) ds 0)))"

definition whole_number :: "string \<Rightarrow> rat option" where
  "whole_number text =
    (let s = js_trim text in
     if s = [] then Some 0
     else if take 2 s \<in> {''0x'', ''0X''} then based_number 16 (drop 2 s)
     else if take 2 s \<in> {''0o'', ''0O''} then based_number 8 (drop 2 s)
     else if take 2 s \<in> {''0b'', ''0B''} then based_number 2 (drop 2 s)
     else if hd s = CHR ''-'' then map_option uminus (unsigned_number (tl s))
     else if hd s = CHR ''+'' then unsigned_number (tl s)
     else unsigned_number s)"

definition isProtocolCompatible :: "string \<Rightarrow> bool" where
  "isProtocolCompatible clientVersion \<longleftrightarrow> whole_number (hd (split_on CHR ''.'' clientVersion)) = Some 1"

section \<open>Connecting\<close>

definition refuse :: "string \<Rightarrow> outgoing \<Rightarrow> arena \<Rightarrow> outgoing list \<times> arena" where
  "refuse sid m ar = ([m], ar\<lparr>ar_guards := releaseGuard sid (ar_guards ar)\<rparr>)"

definition onConnection :: "socket_config \<Rightarrow> string \<Rightarrow> session_data \<Rightarrow> int \<Rightarrow> arena \<Rightarrow> outgoing list \<times> arena" where
  "onConnection sc sid s now ar =
    (let ar = ar\<lparr>ar_guards := snd (getGuard now (sk_maxInputsPerSecond sc) sid (ar_guards ar))\<rparr> in
     if ss_playerId s = '''' \<or> ss_roomId s = ''''
     then refuse sid (ErrorTo sid ''UNAUTHORIZED'' ''Socket is missing session data'' False) ar
     else case ensureRoom (sk_node sc) (ss_roomId s) ''casual'' ''us-east'' (ss_gameId s) (ar_manager ar) of
       Inl _ \<Rightarrow> refuse sid (ErrorTo sid ''SERVER_DRAINING'' ''This node cannot host more rooms'' True) ar
     | Inr (h, m) \<Rightarrow>
         (let ar = ar\<lparr>ar_manager := m\<rparr>; r = ho_room h in
          if rm_status r = RoomDraining \<or> rm_status r = RoomClosed then refuse sid (MigrateTo sid ''room draining'' 500) ar
          else if isFull r \<and> \<not> hasPlayer (ss_playerId s) r
          then refuse sid (ErrorTo sid ''ROOM_FULL'' ''This room is full'' True) ar
          else case addPlayer (ss_playerId s) sid (ss_nickname s) r of
            Inl _ \<Rightarrow> ([], ar)
          | Inr r' \<Rightarrow>
              ([JoinedTo sid (welcomeTo sc s r')],
               ar\<lparr>ar_manager := onRoom (ho_number h) (\<lambda>_. r') m,
                  ar_sockets := ar_sockets ar @ [\<lparr>cn_socketId = sid, cn_session = s, cn_room = ho_number h, cn_events = \<lambda>_. None\<rparr>]\<rparr>)))"

section \<open>Events\<close>

text \<open>The end of a socket: its guard goes, its seat is kept for the grace period.\<close>

definition onDisconnect :: "int \<Rightarrow> connection \<Rightarrow> arena \<Rightarrow> arena" where
  "onDisconnect now c ar =
    onHeld (cn_room c) (markDisconnected (ss_playerId (cn_session c)) now)
      (ar\<lparr>ar_sockets := filter (\<lambda>k. cn_socketId k \<noteq> cn_socketId c) (ar_sockets ar),
          ar_guards := releaseGuard (cn_socketId c) (ar_guards ar)\<rparr>)"

definition onJoin :: "socket_config \<Rightarrow> string \<Rightarrow> int \<Rightarrow> connection \<Rightarrow> room \<Rightarrow> arena \<Rightarrow> outgoing list \<times> arena" where
  "onJoin sc clientVersion now c r ar =
    (if \<not> isProtocolCompatible clientVersion
     then ([AckError ''PROTOCOL_MISMATCH'' ''Server speaks protocol 1.0.0'' False], onDisconnect now c ar)
     else ([AckWelcome (welcomeTo sc (cn_session c) r)], ar))"

datatype input_payload = NotABatch | Batch "client_input list" js_num

definition inputCommandSchema :: "client_input \<Rightarrow> bool" where
  "inputCommandSchema cmd \<longleftrightarrow> is_integer (ci_seq cmd) \<and> (case ci_seq cmd of Num x \<Rightarrow> 0 \<le> x | NotFinite \<Rightarrow> False) \<and>
     (case ci_angle cmd of Num x \<Rightarrow> - pi \<le> x \<and> x \<le> pi | NotFinite \<Rightarrow> False) \<and>
     (case ci_dt cmd of Num x \<Rightarrow> 0 \<le> x \<and> x \<le> 250 | NotFinite \<Rightarrow> False)"

definition inputBatchSchema :: "input_payload \<Rightarrow> client_input list option" where
  "inputBatchSchema payload =
    (case payload of
       NotABatch \<Rightarrow> None
     | Batch commands clientTime \<Rightarrow>
         if 1 \<le> length commands \<and> length commands \<le> 10 \<and> list_all inputCommandSchema commands \<and>
            is_integer clientTime \<and> (case clientTime of Num x \<Rightarrow> 0 \<le> x | NotFinite \<Rightarrow> False)
         then Some commands else None)"

definition simInput :: "client_input \<Rightarrow> sim_input" where
  "simInput cmd = \<lparr>si_seq = (case ci_seq cmd of Num x \<Rightarrow> \<lfloor>x\<rfloor> | NotFinite \<Rightarrow> 0),
     si_angle = (case ci_angle cmd of Num x \<Rightarrow> x | NotFinite \<Rightarrow> 0), si_boost = ci_boost cmd\<rparr>"

definition inputOptions :: "socket_config \<Rightarrow> int \<Rightarrow> batch_options" where
  "inputOptions sc now = \<lparr>bo_now = now, bo_maxDtMs = tickIntervalMs (sk_node sc), bo_ratePerSecond = sk_maxInputsPerSecond sc,
     bo_burst = sk_maxInputsPerSecond sc\<rparr>"

definition steer :: "string \<Rightarrow> client_input list \<Rightarrow> bool \<Rightarrow> room \<Rightarrow> room" where
  "steer p accepted ban r =
    (let r = fold (\<lambda>cmd. room_applyInput p (simInput cmd)) accepted r in if ban then setShadowbanned p True r else r)"

definition onInput :: "socket_config \<Rightarrow> input_payload \<Rightarrow> int \<Rightarrow> connection \<Rightarrow> arena \<Rightarrow> arena" where
  "onInput sc payload now c ar =
    (case inputBatchSchema payload of
       None \<Rightarrow> ar
     | Some commands \<Rightarrow>
         (let (guard, guards) = getGuard now (sk_maxInputsPerSecond sc) (cn_socketId c) (ar_guards ar);
              (guard, out) = validateInputBatch (inputOptions sc now) commands guard
          in onHeld (cn_room c) (steer (ss_playerId (cn_session c)) (ob_accepted out) (shouldShadowban guard))
               (ar\<lparr>ar_guards := guards(cn_socketId c \<mapsto> guard)\<rparr>)))"

text \<open>An event with a budget; the handler runs when there is a token.\<close>

definition spending :: "string \<Rightarrow> int \<Rightarrow> connection \<Rightarrow> arena \<Rightarrow> bool \<times> arena" where
  "spending event now c ar =
    (case allow event now (cn_events c) of
       (ok, budgets) \<Rightarrow> (ok, ar\<lparr>ar_sockets := upd_rows (\<lambda>k. cn_socketId k = cn_socketId c) (\<lambda>k. k\<lparr>cn_events := budgets\<rparr>) (ar_sockets ar)\<rparr>))"

definition onPing :: "int \<Rightarrow> connection \<Rightarrow> room \<Rightarrow> arena \<Rightarrow> outgoing list \<times> arena" where
  "onPing now c r ar = (case spending ''ping'' now c ar of (ok, ar) \<Rightarrow> (if ok then [AckTime (elapsed r)] else [], ar))"

definition onRespawn :: "socket_config \<Rightarrow> int \<Rightarrow> connection \<Rightarrow> room \<Rightarrow> arena \<Rightarrow> outgoing list \<times> arena" where
  "onRespawn sc now c r ar =
    (case spending ''respawn'' now c ar of
       (False, ar) \<Rightarrow> ([], ar)
     | (True, ar) \<Rightarrow>
         ([AckWelcome (welcomeTo sc (cn_session c) (respawn (ss_playerId (cn_session c)) r))],
          onHeld (cn_room c) (respawn (ss_playerId (cn_session c))) ar))"

definition onChat :: "js_string option \<Rightarrow> int \<Rightarrow> connection \<Rightarrow> room \<Rightarrow> arena \<Rightarrow> outgoing list \<times> arena" where
  "onChat payload now c r ar =
    (case payload of
       None \<Rightarrow> ([], ar)
     | Some text \<Rightarrow>
         if \<not> chat_payload_ok text then ([], ar)
         else (case spending ''chat'' now c ar of
           (False, ar) \<Rightarrow> ([], ar)
         | (True, ar) \<Rightarrow>
             (case sanitiseChat text of
                None \<Rightarrow> ([], ar)
              | Some body \<Rightarrow>
                  (let s = cn_session c in
                   ([if isShadowbanned (ss_playerId s) r then ChatTo (cn_socketId c) (ss_playerId s) (ss_nickname s) body
                     else ChatRoom (ss_roomId s) (ss_playerId s) (ss_nickname s) body], ar)))))"

definition onLeave :: "int \<Rightarrow> connection \<Rightarrow> arena \<Rightarrow> arena" where
  "onLeave now c ar = onDisconnect now c (onHeld (cn_room c) (removePlayer (ss_playerId (cn_session c))) ar)"

text \<open>Every ten seconds the suspicion of every connected socket decays.\<close>

definition decaySocket :: "socket_config \<Rightarrow> int \<Rightarrow> connection \<Rightarrow> (string \<Rightarrow> input_guard option) \<Rightarrow> (string \<Rightarrow> input_guard option)" where
  "decaySocket sc now c guards =
    (case getGuard now (sk_maxInputsPerSecond sc) (cn_socketId c) guards of (g, guards) \<Rightarrow> guards(cn_socketId c \<mapsto> decaySuspicion 2 g))"

definition decayAll :: "socket_config \<Rightarrow> int \<Rightarrow> arena \<Rightarrow> arena" where
  "decayAll sc now ar = ar\<lparr>ar_guards := fold (decaySocket sc now) (ar_sockets ar) (ar_guards ar)\<rparr>"

section \<open>The node\<close>

text \<open>A pass of the loop; rooms it reaps, and rooms that are closed, live on for the handlers that hold them.\<close>

definition dropped :: "manager \<Rightarrow> manager \<Rightarrow> hosted list" where
  "dropped before after = map (\<lambda>h. h\<lparr>ho_room := close_room (ho_room h)\<rparr>) (filter (\<lambda>h. ho_number h \<notin> ho_number ` set (mg_rooms after)) (mg_rooms before))"

definition arenaTick :: "socket_config \<Rightarrow> (string \<Rightarrow> real) \<Rightarrow> int \<Rightarrow> arena \<Rightarrow> outgoing list \<times> arena" where
  "arenaTick sc collation now ar =
    (let (ms, m) = runTick (sk_node sc) collation now (ar_manager ar);
         seen = snd (reportFinishedMatches (sk_node sc) collation now (ticked (sk_node sc) now (ar_manager ar)))
     in (map (\<lambda>(roomId, msg). Ticked roomId msg) ms, ar\<lparr>ar_manager := m, ar_gone := ar_gone ar @ dropped seen m\<rparr>))"

text \<open>\<open>drainNode\<close>: every socket is told to go elsewhere, a hundred milliseconds apart, and every room is asked to empty.\<close>

definition migrateNotices :: "arena \<Rightarrow> outgoing list" where
  "migrateNotices ar = map (\<lambda>(i, c). MigrateTo (cn_socketId c) ''node draining'' (500 + int (i mod 20) * 100)) (enumerate 0 (ar_sockets ar))"

definition drainNode :: "arena \<Rightarrow> outgoing list \<times> arena" where
  "drainNode ar = (migrateNotices ar, ar\<lparr>ar_manager := drainRooms (ar_manager ar)\<rparr>)"

definition closeArena :: "arena \<Rightarrow> arena" where
  "closeArena ar = (let m = closeAll (ar_manager ar) in ar\<lparr>ar_manager := m, ar_gone := ar_gone ar @ dropped (ar_manager ar) m\<rparr>)"

datatype arena_op =
    Connects string session_data int
  | SendsJoin string string int
  | SendsInput string input_payload int
  | SendsPing string int
  | SendsRespawn string int
  | SendsChat string "js_string option" int
  | SendsLeave string int
  | Disconnects string int
  | Decays int
  | LoopTicks int
  | WriteEnds nat outcome
  | Drains
  | Closes

definition byClient :: "string \<Rightarrow> (connection \<Rightarrow> room \<Rightarrow> arena \<Rightarrow> outgoing list \<times> arena) \<Rightarrow> arena \<Rightarrow> outgoing list \<times> arena" where
  "byClient sid f ar =
    (case connectionOf sid ar of None \<Rightarrow> ([], ar)
     | Some c \<Rightarrow> (case heldRoom (cn_room c) ar of None \<Rightarrow> ([], ar) | Some r \<Rightarrow> f c r ar))"

fun arena_step :: "socket_config \<Rightarrow> (string \<Rightarrow> real) \<Rightarrow> arena_op \<Rightarrow> arena \<Rightarrow> outgoing list \<times> arena" where
  "arena_step sc collation (Connects sid s now) ar = onConnection sc sid s now ar"
| "arena_step sc collation (SendsJoin sid clientVersion now) ar = byClient sid (onJoin sc clientVersion now) ar"
| "arena_step sc collation (SendsInput sid payload now) ar = byClient sid (\<lambda>c r ar. ([], onInput sc payload now c ar)) ar"
| "arena_step sc collation (SendsPing sid now) ar = byClient sid (onPing now) ar"
| "arena_step sc collation (SendsRespawn sid now) ar = byClient sid (onRespawn sc now) ar"
| "arena_step sc collation (SendsChat sid payload now) ar = byClient sid (onChat payload now) ar"
| "arena_step sc collation (SendsLeave sid now) ar = byClient sid (\<lambda>c r ar. ([], onLeave now c ar)) ar"
| "arena_step sc collation (Disconnects sid now) ar = byClient sid (\<lambda>c r ar. ([], onDisconnect now c ar)) ar"
| "arena_step sc collation (Decays now) ar = ([], decayAll sc now ar)"
| "arena_step sc collation (LoopTicks now) ar = arenaTick sc collation now ar"
| "arena_step sc collation (WriteEnds i out) ar = ([], ar\<lparr>ar_manager := publicationDone i out (ar_manager ar)\<rparr>)"
| "arena_step sc collation Drains ar = drainNode ar"
| "arena_step sc collation Closes ar = ([], closeArena ar)"

definition run_arena :: "socket_config \<Rightarrow> (string \<Rightarrow> real) \<Rightarrow> arena_op list \<Rightarrow> arena \<Rightarrow> arena" where
  "run_arena sc collation ops ar = fold (\<lambda>op ar. snd (arena_step sc collation op ar)) ops ar"

end
