(* ===== verification/Handshake_Histories.thy ===== *)
theory Handshake_Histories
  imports Handshake
begin

text \<open>
  Histories of the matchmaker and the realtime nodes over one Redis: every session goes back to an invitation, the
  example that lets a launched player in, and what the single use of tickets does not achieve.
\<close>

section \<open>Every session goes back to an invitation\<close>

text \<open>A request at a state of Redis, for a room and a node: the node is one of the healthy nodes of the registry; the room is the one of
  the game bound to the tier, or else the one the tier's pointer names, on the node the pointer names, or a new one when no pointer at
  a healthy node stands in the way.\<close>

definition asked_for :: "mm_config \<Rightarrow> string option \<Rightarrow> string \<Rightarrow> int \<Rightarrow> match_request \<Rightarrow> cluster_db \<Rightarrow> string \<Rightarrow> string \<Rightarrow> bool" where
  "asked_for cfg bound uuid now rq db room node \<longleftrightarrow>
    (let healthy = \<lambda>i. list_ex (\<lambda>n. cd_nodeId n = i) (filterHealthy (mc_heartbeatTtlSeconds cfg * 1000) now (fst (loadNodes now db))) in
     healthy node \<and>
     (case bound of Some g \<Rightarrow> room = roomIdOf g
      | None \<Rightarrow> (case parseOpenMatch (live now db (tierKey rq)) of
            Some om \<Rightarrow> if healthy (om_nodeId om) then room = om_roomId om \<and> node = om_nodeId om else room = roomIdOf uuid
          | None \<Rightarrow> room = roomIdOf uuid)))"

text \<open>The operation that invited the holder of these claims, in the state it was run in.\<close>

fun invites :: "mm_config \<Rightarrow> ticket_claims \<Rightarrow> cluster_op \<Rightarrow> cluster \<Rightarrow> bool" where
  "invites cfg c (OpLaunch uuid now registry rq) st =
    (tk_issuedAt c = now \<and> tk_gameId c = Some (launchGame uuid rq) \<and> tk_roomId c = roomIdOf (launchGame uuid rq) \<and>
     map_option cd_nodeId (launchNode cfg now registry) = Some (tk_nodeId c) \<and>
     list_ex (\<lambda>p. playerId p = tk_playerId c \<and> wallet p = tk_wallet c) (lr_players rq))"
| "invites cfg c (OpMatchmake bound uuid now rq) st =
    (tk_issuedAt c = now \<and> tk_gameId c = bound \<and> mr_playerId rq = tk_playerId c \<and> mr_wallet rq = tk_wallet c \<and>
     asked_for cfg bound uuid now rq (cu_db st) (tk_roomId c) (tk_nodeId c))"
| "invites cfg c _ st = False"

fun invited :: "mm_config \<Rightarrow> ticket_claims \<Rightarrow> cluster_op list \<Rightarrow> cluster \<Rightarrow> bool" where
  "invited cfg c [] st = False"
| "invited cfg c (op # ops) st = (invites cfg c op st \<or> invited cfg c ops (cluster_step cfg op st))"

lemma invited_append: "invited cfg c (ops @ ops') st \<longleftrightarrow> invited cfg c ops st \<or> invited cfg c ops' (run_cluster cfg ops st)"
  unfolding run_cluster_def by (induction ops arbitrary: st) auto

definition timed :: "ticket_claims \<Rightarrow> bool" where
  "timed c \<longleftrightarrow> tk_expiresAt c = tk_issuedAt c + TICKET_TTL_MS"

text \<open>Nobody forges an HMAC: a ticket that verifies has been issued.\<close>

fun forgery_free :: "mm_config \<Rightarrow> cluster_op list \<Rightarrow> cluster \<Rightarrow> bool" where
  "forgery_free cfg [] c = True"
| "forgery_free cfg (op # ops) c =
    ((case op of
        OpHandshake nd now (Some t) \<Rightarrow>
          nd_env nd = mc_env cfg \<and> nd_secret nd = mc_secret cfg \<and>
          (case nodeVerifyTicket (mc_env cfg) t (mc_secret cfg) now of Inr _ \<Rightarrow> t \<in> set (cu_issued c) | Inl _ \<Rightarrow> True)
      | _ \<Rightarrow> True) \<and> forgery_free cfg ops (cluster_step cfg op c))"

definition issued_by :: "mm_config \<Rightarrow> cluster_op list \<Rightarrow> cluster \<Rightarrow> string \<Rightarrow> bool" where
  "issued_by cfg ops c0 t \<longleftrightarrow> (\<exists>c. t = mintTicket (mc_env cfg) c (mc_secret cfg) \<and> timed c \<and> invited cfg c ops c0)"

definition session_from :: "mm_config \<Rightarrow> cluster_op list \<Rightarrow> cluster \<Rightarrow> gate_config \<times> session_data \<Rightarrow> bool" where
  "session_from cfg ops c0 x \<longleftrightarrow> (case x of (nd, s) \<Rightarrow> \<exists>c. invited cfg c ops c0 \<and> s = sessionOf nd (ss_joinedAt s) c \<and>
     tk_nodeId c = nd_nodeId nd \<and> ss_joinedAt s < tk_issuedAt c + TICKET_TTL_MS)"

text \<open>All tickets that Redis holds are of a given set.\<close>

definition held_in :: "string set \<Rightarrow> cluster_db \<Rightarrow> bool" where
  "held_in T db \<longleftrightarrow> (\<forall>k t e. cl_keys db k = Some (TicketText t, e) \<longrightarrow> t \<in> T)"

definition accounted :: "mm_config \<Rightarrow> cluster_op list \<Rightarrow> cluster \<Rightarrow> cluster \<Rightarrow> bool" where
  "accounted cfg ops c0 c \<longleftrightarrow> (\<forall>t \<in> set (cu_issued c). issued_by cfg ops c0 t) \<and> held_in (set (cu_issued c)) (cu_db c) \<and>
     (\<forall>x \<in> set (cu_sessions c). session_from cfg ops c0 x)"

lemma held_mono: "held_in S db \<Longrightarrow> S \<subseteq> T \<Longrightarrow> held_in T db"
  unfolding held_in_def by blast

lemma held_put: "held_in T db \<Longrightarrow> (case v of TicketText t \<Rightarrow> t \<in> T | _ \<Rightarrow> True) \<Longrightarrow> held_in T (put k v e db)"
  by (auto simp: held_in_def put_def)

lemma held_del: "held_in T db \<Longrightarrow> held_in T (del k db)"
  by (auto simp: held_in_def del_def)

lemma held_loadNodes: "held_in T db \<Longrightarrow> held_in T (snd (loadNodes now db))"
  by (simp add: held_in_def)

lemma held_live: "held_in T db \<Longrightarrow> live now db k = Some (TicketText t) \<Longrightarrow> t \<in> T"
  unfolding held_in_def live_def by (cases "cl_keys db k") (fastforce split: if_splits)+

lemma held_register: "held_in T db \<Longrightarrow> t \<in> T \<Longrightarrow> held_in T (register cfg now p t r db)"
  by (simp add: register_def noteReconnectRoom_def held_put)

lemma held_handOut: "held_in T db \<Longrightarrow> t \<in> T \<Longrightarrow> held_in T (handOutStaged cfg now p m t db)"
  by (simp add: handOutStaged_eq noteReconnectRoom_def held_put held_del)

lemma held_openMatch: "held_in T db \<Longrightarrow> held_in T (snd (openMatch (\<lambda>_ db. db) now key healthy cand db))"
  by (auto simp: openMatch_alone writeOpen_def held_put split: option.split)

lemma held_stages:
  "held_in T db \<Longrightarrow> stagedTicket cfg now node gid ` set ps \<subseteq> T \<Longrightarrow> held_in T (fold (stageTicket cfg now node gid tid) ps db)"
  by (induction ps arbitrary: db) (auto simp: stageTicket_def held_put)

lemma held_admit: "held_in T db \<Longrightarrow> held_in T (snd (admitTicket nd now t db))"
  by (auto simp: admitTicket_def Let_def held_put held_del split: option.split sum.split)

lemma issued_minted:
  assumes "gid = bound" and "asked_for cfg bound uuid now rq (cu_db st) room node"
  shows "issued_by cfg [OpMatchmake bound uuid now rq] st (ticketFor cfg now rq room node gid)"
proof -
  let ?c = "buildTicketClaims \<lparr>cp_playerId = mr_playerId rq, cp_wallet = mr_wallet rq, cp_roomId = room, cp_nodeId = node,
         cp_nickname = nicknameFor rq, cp_gameId = gid\<rparr> now"
  have "timed ?c \<and> invited cfg ?c [OpMatchmake bound uuid now rq] st"
    using assms by (auto simp: timed_def buildTicketClaims_def)
  then show ?thesis unfolding issued_by_def ticketFor_def by blast
qed

lemma selectPlacement_mem: "selectPlacement candidates region strat = Some n \<Longrightarrow> n \<in> set candidates"
proof -
  assume "selectPlacement candidates region strat = Some n"
  then obtain f :: "node_candidate \<Rightarrow> real" and rest where "sort_key f (usableNodes (placementPool candidates region strat)) = n # rest"
    by (auto simp: selectPlacement_def Let_def split: if_splits list.splits)
  then have "n \<in> set (usableNodes (placementPool candidates region strat))" by (metis list.set_intros(1) set_sort)
  then show ?thesis by (auto simp: usableNodes_def placementPool_def Let_def split: if_splits)
qed

text \<open>What a request for a match gives out is minted for it, or was in Redis.\<close>

lemma matchmake_tickets:
  assumes run: "matchmake cfg bound uuid (\<lambda>_ db. db) now rq (cu_db st) = (r, db')" and held: "held_in T (cu_db st)"
  shows "case r of Inl e \<Rightarrow> held_in T db'
    | Inr mt \<Rightarrow> held_in (insert (mt_ticket mt) T) db' \<and> (mt_ticket mt \<in> T \<or> issued_by cfg [OpMatchmake bound uuid now rq] st (mt_ticket mt))"
proof -
  obtain nodes db1 where l: "loadNodes now (cu_db st) = (nodes, db1)" by fastforce
  let ?healthy = "filterHealthy (mc_heartbeatTtlSeconds cfg * 1000) now nodes"
  have w: "held_in T db1" using held_loadNodes [OF held, of now] l by simp
  have same: "live now db1 k = live now (cu_db st) k" for k using loadNodes_keys [of now now "cu_db st" k] l by simp
  show ?thesis
  proof (cases "selectPlacement ?healthy (regionOf rq) (mc_strategy cfg)")
    case None
    with run w show ?thesis by (auto simp: matchmake_def l Let_def split: if_splits)
  next
    case decided: (Some decision)
    then have ne: "?healthy \<noteq> []" by (auto simp: selectPlacement_def)
    have dec: "list_ex (\<lambda>n. cd_nodeId n = cd_nodeId decision) ?healthy"
      using selectPlacement_mem [OF decided] by (auto simp: list_ex_iff)
    show ?thesis
    proof (cases "stagedFor now (mr_playerId rq) db1")
      case staged: (Some x)
      obtain meta issued where x: "x = (meta, issued)" by fastforce
      with staged have "live now db1 (matchTicket (mr_playerId rq)) = Some (TicketText issued)"
        by (auto simp: stagedFor_def split: option.splits redis_value.splits if_splits)
      with held_live [OF w] have i: "issued \<in> T" by blast
      then have "held_in (insert issued T) (handOutStaged cfg now (mr_playerId rq) meta issued db1)"
        using held_mono [OF w] by (intro held_handOut) auto
      with run i show ?thesis by (auto simp: matchmake_def l Let_def staged x decided ne)
    next
      case unstaged: None
      show ?thesis
      proof (cases bound)
        case (Some g)
        let ?t = "ticketFor cfg now rq (roomIdOf g) (cd_nodeId decision) (Some g)"
        have "issued_by cfg [OpMatchmake bound uuid now rq] st ?t"
          unfolding Some by (rule issued_minted) (use dec in \<open>simp_all add: asked_for_def l\<close>)
        moreover have "held_in (insert ?t T) (register cfg now (mr_playerId rq) ?t (roomIdOf g) db1)"
          using held_mono [OF w] by (intro held_register) auto
        ultimately show ?thesis using run Some by (auto simp: matchmake_def l Let_def unstaged decided ne)
      next
        case None
        let ?h = "\<lambda>i. list_ex (\<lambda>n. cd_nodeId n = i) ?healthy"
        let ?cand = "\<lparr>om_roomId = roomIdOf uuid, om_nodeId = cd_nodeId decision, om_realtimeUrl = cd_advertiseUrl decision\<rparr>"
        obtain om db2 where o: "openMatch (\<lambda>_ db. db) now (tierKey rq) ?h ?cand db1 = (om, db2)" by fastforce
        let ?t = "ticketFor cfg now rq (om_roomId om) (om_nodeId om) None"
        have "asked_for cfg None uuid now rq (cu_db st) (om_roomId om) (om_nodeId om)"
          using o dec by (auto simp: asked_for_def l openMatch_alone same split: option.splits if_splits)
        then have "issued_by cfg [OpMatchmake bound uuid now rq] st ?t" unfolding None by (rule issued_minted [OF refl])
        moreover have "held_in (insert ?t T) (register cfg now (mr_playerId rq) ?t (om_roomId om) db2)"
          using held_mono [OF held_openMatch [OF w, of now "tierKey rq" ?h ?cand], of "insert ?t T"] o by (intro held_register) auto
        ultimately show ?thesis using run None o by (auto simp: matchmake_def l Let_def unstaged decided ne)
      qed
    qed
  qed
qed

lemma issued_by_append:
  "issued_by cfg ops c0 t \<Longrightarrow> issued_by cfg (ops @ ops') c0 t"
  "issued_by cfg ops' (run_cluster cfg ops c0) t \<Longrightarrow> issued_by cfg (ops @ ops') c0 t"
  unfolding issued_by_def invited_append by blast+

lemma session_from_append: "session_from cfg ops c0 x \<Longrightarrow> session_from cfg (ops @ ops') c0 x"
  by (cases x) (auto simp: session_from_def invited_append)

lemma issued_staged:
  assumes "t \<in> set (stagedTickets cfg uuid now registry rq)"
  shows "issued_by cfg [OpLaunch uuid now registry rq] st t"
proof -
  obtain node p where n: "launchNode cfg now registry = Some node" "p \<in> set (lr_players rq)" "t = stagedTicket cfg now node (launchGame uuid rq) p"
    using assms by (cases "launchNode cfg now registry") (auto simp: stagedTickets_def)
  let ?c = "buildTicketClaims \<lparr>cp_playerId = playerId p, cp_wallet = wallet p, cp_roomId = roomIdOf (launchGame uuid rq),
    cp_nodeId = cd_nodeId node, cp_nickname = nickname p, cp_gameId = Some (launchGame uuid rq)\<rparr> now"
  have "timed ?c \<and> invited cfg ?c [OpLaunch uuid now registry rq] st"
    using n by (auto simp: timed_def buildTicketClaims_def list_ex_iff)
  then show ?thesis using n(3) unfolding issued_by_def stagedTicket_def by blast
qed

text \<open>What a ticket that was issued admits.\<close>

lemma admitted_session:
  assumes "json_law (mc_env cfg)" and "nd_env nd = mc_env cfg" and "nd_secret nd = mc_secret cfg"
    and "admitTicket nd now (Some t) db = (Inr s, db')" and "issued_by cfg ops c0 t"
  shows "session_from cfg ops c0 (nd, s)"
proof -
  from assms(5) obtain c where c: "t = mintTicket (mc_env cfg) c (mc_secret cfg)" "timed c" "invited cfg c ops c0"
    by (auto simp: issued_by_def)
  from assms(4) c(1) have "now < tk_expiresAt c \<and> tk_nodeId c = nd_nodeId nd \<and> s = sessionOf nd now c"
    by (auto simp: admitTicket_Some assms(2,3) plain_verify [OF assms(1)] split: if_splits)
  with c(2,3) show ?thesis by (auto simp: session_from_def timed_def sessionOf_def)
qed

lemma accounted_step:
  assumes "json_law (mc_env cfg)" and "accounted cfg ops c0 c" and "c = run_cluster cfg ops c0" and "forgery_free cfg (op # rest) c"
  shows "accounted cfg (ops @ [op]) c0 (cluster_step cfg op c)"
proof -
  have old: "\<forall>t \<in> set (cu_issued c). issued_by cfg (ops @ [op]) c0 t" "held_in (set (cu_issued c)) (cu_db c)"
    "\<forall>x \<in> set (cu_sessions c). session_from cfg (ops @ [op]) c0 x" "\<forall>t \<in> set (cu_issued c). issued_by cfg ops c0 t"
    using assms(2) issued_by_append(1) session_from_append by (auto simp: accounted_def)
  have fresh: "issued_by cfg (ops @ [op]) c0 t" if "issued_by cfg [op] c t" for t
    using issued_by_append(2) that unfolding assms(3) .
  show ?thesis
  proof (cases op)
    case (OpLaunch uuid now registry rq)
    have "held_in (set (stagedTickets cfg uuid now registry rq) \<union> set (cu_issued c)) (snd (launchMatch cfg uuid now registry rq (cu_db c)))"
      using held_mono [OF old(2)] by (auto simp: launchMatch_def Let_def stagedTickets_def intro!: held_stages split: option.split)
    with old show ?thesis using issued_staged fresh
      by (auto simp: accounted_def OpLaunch)
  next
    case (OpMatchmake bound uuid now rq)
    obtain r db' where m: "matchmake cfg bound uuid (\<lambda>_ db. db) now rq (cu_db c) = (r, db')" by fastforce
    show ?thesis
    proof (cases r)
      case (Inl e)
      with matchmake_tickets [OF m old(2)] old m show ?thesis by (simp add: accounted_def OpMatchmake)
    next
      case (Inr mt)
      with matchmake_tickets [OF m old(2)] old m show ?thesis using fresh
        by (auto simp: accounted_def OpMatchmake)
    qed
  next
    case (OpHandshake nd now ticket)
    obtain r db' where a: "admitTicket nd now ticket (cu_db c) = (r, db')" by fastforce
    have h: "held_in (set (cu_issued c)) db'" using held_admit [OF old(2), of nd now ticket] a by simp
    show ?thesis
    proof (cases r)
      case (Inl e)
      with h old a show ?thesis by (simp add: accounted_def OpHandshake)
    next
      case (Inr s)
      then obtain t where t: "ticket = Some t" "t \<noteq> ''''" using a by (auto simp: admitTicket_def split: option.splits if_splits)
      have n: "nd_env nd = mc_env cfg" "nd_secret nd = mc_secret cfg" using assms(4) by (simp_all add: OpHandshake t(1))
      obtain cl where "nodeVerifyTicket (mc_env cfg) t (mc_secret cfg) now = Inr cl"
        using a Inr by (auto simp: t admitTicket_Some n split: sum.splits)
      then have "t \<in> set (cu_issued c)" using assms(4) by (simp add: OpHandshake t(1))
      with old(1) have "session_from cfg (ops @ [op]) c0 (nd, s)"
        using admitted_session [OF assms(1) n, of now t "cu_db c" s db'] a Inr t(1) by blast
      with h old a Inr show ?thesis by (simp add: accounted_def OpHandshake)
    qed
  next
    case (OpLeave p)
    with old show ?thesis unfolding OpLeave cluster_step.simps dropSeat_def by (simp add: accounted_def held_del)
  next
    case (OpServers now)
    have "held_in (set (cu_issued c)) (snd (serversRoute (mc_heartbeatTtlSeconds cfg * 1000) now (cu_db c)))"
      using held_loadNodes [OF old(2), of now] by (cases "loadNodes now (cu_db c)") (simp add: serversRoute_def)
    with old show ?thesis by (simp add: accounted_def OpServers)
  next
    case (OpRemovalLands n)
    with old show ?thesis by (simp add: accounted_def held_in_def removalLands_def)
  qed
qed

lemma run_cluster_snoc: "run_cluster cfg (ops @ [op]) c = cluster_step cfg op (run_cluster cfg ops c)"
  by (simp add: run_cluster_def)

lemma accounted_run:
  assumes "json_law (mc_env cfg)"
  shows "accounted cfg before c0 c \<Longrightarrow> c = run_cluster cfg before c0 \<Longrightarrow> forgery_free cfg ops c \<Longrightarrow>
    accounted cfg (before @ ops) c0 (run_cluster cfg ops c)"
proof (induction ops arbitrary: before c)
  case Nil
  then show ?case by (simp add: run_cluster_def)
next
  case (Cons op ops)
  have free: "forgery_free cfg ops (cluster_step cfg op c)" using Cons.prems(3) by simp
  have "cluster_step cfg op c = run_cluster cfg (before @ [op]) c0" by (simp add: run_cluster_snoc Cons.prems(2))
  from Cons.IH [OF accounted_step [OF assms Cons.prems] this free] show ?case by (simp add: run_cluster_def)
qed

lemma accounted_history:
  assumes "json_law (mc_env cfg)" and "held_in {} (cu_db c0)" and "cu_issued c0 = []" and "cu_sessions c0 = []" and "forgery_free cfg ops c0"
  shows "accounted cfg ops c0 (run_cluster cfg ops c0)"
proof -
  have "accounted cfg [] c0 c0" using assms(2-4) by (simp add: accounted_def)
  from accounted_run [OF assms(1) this _ assms(5)] show ?thesis by (simp add: run_cluster_def)
qed

text \<open>Nobody plays uninvited: in any history of launches, requests, handshakes and departures in which no signature is
  forged, each session of a node goes back to a launch that listed its player with that wallet, for the room of the launched game, or
  to that player's own request, made less than thirty seconds earlier, for that room and that very node.\<close>

theorem sessions_were_invited:
  assumes "json_law (mc_env cfg)" and "held_in {} (cu_db c0)" and "cu_issued c0 = []" and "cu_sessions c0 = []"
    and "forgery_free cfg ops c0" and "(nd, s) \<in> set (cu_sessions (run_cluster cfg ops c0))"
  shows "\<exists>c. invited cfg c ops c0 \<and> tk_nodeId c = nd_nodeId nd \<and> ss_joinedAt s < tk_issuedAt c + TICKET_TTL_MS \<and>
    ss_playerId s = tk_playerId c \<and> ss_wallet s = tk_wallet c \<and> ss_roomId s = tk_roomId c \<and> ss_gameId s = tk_gameId c"
proof -
  have "session_from cfg ops c0 (nd, s)" using accounted_history [OF assms(1-5)] assms(6) by (simp add: accounted_def)
  then obtain c where "invited cfg c ops c0" "s = sessionOf nd (ss_joinedAt s) c" "tk_nodeId c = nd_nodeId nd"
      "ss_joinedAt s < tk_issuedAt c + TICKET_TTL_MS"
    by (auto simp: session_from_def)
  then show ?thesis by (metis sessionOf_def session_data.select_convs(1-4))
qed

section \<open>What single use does not achieve\<close>

text \<open>The finding: consuming asks only whether some ticket is registered, so a ticket that a later one has replaced still opens its
  room; the player banks tickets by asking again.\<close>

lemma superseded_ticket_admitted:
  assumes "json_law (mc_env cfg)" and "nd_env nd = mc_env cfg" and "nd_secret nd = mc_secret cfg"
    and "t = ticketFor cfg first rq room (nd_nodeId nd) g" and "now < first + TICKET_TTL_MS" and "now < second + TICKET_TTL_MS"
  shows "fst (admitTicket nd now (Some t) (register cfg second (mr_playerId rq) t' room' (register cfg first (mr_playerId rq) t room db))) =
    Inr \<lparr>ss_playerId = mr_playerId rq, ss_wallet = mr_wallet rq, ss_roomId = room, ss_gameId = g, ss_nickname = nicknameFor rq,
      ss_joinedAt = now, ss_inputBudget = nd_maxInputs nd\<rparr>"
  using assms(5,6) unfolding assms(4)
  by (simp add: ticketFor_def admitTicket_Some assms(2,3) plain_verify [OF assms(1)] buildTicketClaims_def sessionOf_def
      register_def noteReconnectRoom_def live_put)

text \<open>The finding: the note that lets a player back in is written at every handshake and asks for nothing but the room, so until it
  expires one ticket opens any number of sockets.\<close>

lemma spent_ticket_readmits:
  assumes "admitTicket nd now (Some t) db = (Inr s, db')" and "now \<le> later" and "later < now + RECONNECT_WINDOW_SECONDS * 1000"
    and "nodeVerifyTicket (nd_env nd) t (nd_secret nd) later = Inr c"
  shows "fst (admitTicket nd later (Some t) db') = Inr (s\<lparr>ss_joinedAt := later\<rparr>)"
proof -
  have t: "t \<noteq> ''''" using assms(1) by (auto simp: admitTicket_def)
  have "nodeVerifyTicket (nd_env nd) t (nd_secret nd) now = Inr c"
    using assms(1,2,4) by (auto simp: nodeVerifyTicket_def Let_def admitTicket_Some [OF t] split: if_splits ticket_json.splits sum.splits)
  with assms(1) have "tk_nodeId c = nd_nodeId nd" "s = sessionOf nd now c"
    "db' = put (reconnectRoom (tk_playerId c)) (RoomText (tk_roomId c)) (now + RECONNECT_WINDOW_SECONDS * 1000)
       (del (matchTicket (tk_playerId c)) db)"
    by (auto simp: admitTicket_Some [OF t] split: if_splits)
  with assms(3,4) show ?thesis by (simp add: admitTicket_Some [OF t] live_put live_del sessionOf_def)
qed

text \<open>The finding: handing a staged ticket out deletes it again, as the key of staged tickets is the key of registered ones, so
  a launched player gets in through the note only.\<close>

lemma staged_ticket_is_deleted: "live later (handOutStaged cfg now p meta issued db) (matchTicket p) = None"
  by (simp add: handOutStaged_eq live_del)

text \<open>The finding: so a launched player whose note could not be written, and who has no older one, is turned away with the ticket
  in hand.\<close>

lemma launched_player_without_note_refused:
  assumes "json_law (mc_env cfg)" and "nd_env nd = mc_env cfg" and "nd_secret nd = mc_secret cfg" and "nd_nodeId nd = cd_nodeId node"
    and "stagedFor now (mr_playerId rq) db = Some (meta, stagedTicket cfg t0 node gid p)" and "mr_playerId rq = playerId p"
    and "matchmake cfg bound uuid others now rq db = (Inr mt, db')" and "\<not> mc_noteLands cfg now (playerId p)"
    and "live now db (reconnectRoom (playerId p)) = None" and "plain_id (playerId p)" and "now < t0 + TICKET_TTL_MS"
  shows "fst (admitTicket nd now (Some (mt_ticket mt)) db') = Inl TicketSpent"
proof -
  note mm = matchmake_staged [OF assms(5,7)]
  have "live now db' (reconnectRoom (playerId p)) = None" "live now db' (matchTicket (playerId p)) = None"
    using mm assms(8-10) by (simp_all add: handOutStaged_eq live_del live_put noteReconnectRoom_def assms(6) loadNodes_keys)
  then show ?thesis using mm assms(11)
    by (simp add: admitTicket_Some assms(2-4) stagedTicket_def plain_verify [OF assms(1)] buildTicketClaims_def)
qed

text \<open>The finding: a staged ticket is kept for a minute but lives for half of one, so in the second half it is handed out, with
  an expiry in the future, when it has expired.\<close>

lemma staged_ticket_has_expired:
  assumes "json_law (mc_env cfg)" and "nd_env nd = mc_env cfg" and "nd_secret nd = mc_secret cfg"
    and "stagedFor now (mr_playerId rq) db = Some (meta, stagedTicket cfg t0 node gid p)" and "t0 + TICKET_TTL_MS \<le> now"
    and "matchmake cfg bound uuid others now rq db = (Inr mt, db')"
  shows "mt_expiresAt mt = now + TICKET_TTL_MS \<and> fst (admitTicket nd now (Some (mt_ticket mt)) db') = Inl (InvalidTicket TicketIsExpired)"
  using matchmake_staged [OF assms(4,6)] assms(5)
  by (simp add: admitTicket_Some assms(2,3) stagedTicket_def plain_verify [OF assms(1)] buildTicketClaims_def)

end
