(* ===== verification/Connection_Properties.thy ===== *)
theory Connection_Properties
  imports Connection Handshake_Histories
begin

text \<open>
  What holds of a realtime node in any history of its sockets: no more rooms and no more players in a room than the node
  is configured for, nobody in a seat without a session for that room, and a socket that changes nothing but its own
  player's state.
\<close>

section \<open>Rooms that only empty\<close>

definition empties :: "room \<Rightarrow> room \<Rightarrow> bool" where
  "empties r r' \<longleftrightarrow> rm_roomId r' = rm_roomId r \<and> rm_maxPlayers r' = rm_maxPlayers r \<and>
     playerCount r' \<le> playerCount r \<and> seat_playerId ` set (rm_seats r') \<subseteq> seat_playerId ` set (rm_seats r)"

lemma empties_refl [simp]: "empties r r"
  by (simp add: empties_def)

lemma empties_trans: "empties r s \<Longrightarrow> empties s t \<Longrightarrow> empties r t"
  unfolding empties_def by (metis order_trans)

lemma empties_books:
  "rm_roomId r' = rm_roomId r \<Longrightarrow> rm_maxPlayers r' = rm_maxPlayers r \<Longrightarrow> map seat_playerId (rm_seats r') = map seat_playerId (rm_seats r) \<Longrightarrow> empties r r'"
  unfolding empties_def playerCount_def by (metis (no_types) length_map list.set_map order_refl)

lemma empties_updSeat: "(\<And>s. seat_playerId (f s) = seat_playerId s) \<Longrightarrow> empties r (updSeat p f r)"
  by (rule empties_books) (simp_all add: updSeat_ids, simp_all add: updSeat_def)

lemma empties_eliminate [simp]: "empties r (eliminate p r)"
  by (rule empties_books) (simp_all add: eliminate_def)

lemma empties_remove [simp]: "empties r (removePlayer p r)"
proof -
  have "empties (captureScore p x) (eliminate p (captureScore p x))" for x by simp
  then have "rm_roomId (eliminate p (captureScore p x)) = rm_roomId x" "rm_maxPlayers (eliminate p (captureScore p x)) = rm_maxPlayers x" for x
    by (simp_all add: empties_def captureScore_def split: option.split)
  then show ?thesis by (auto simp: empties_def removePlayer_def Let_def inWorld_def playerCount_def)
qed

lemma empties_disconnect [simp]: "empties r (markDisconnected p now r)"
  unfolding markDisconnected_def by (rule empties_updSeat) simp

lemma empties_shadowban [simp]: "empties r (setShadowbanned p v r)"
  unfolding setShadowbanned_def by (rule empties_updSeat) simp

lemma empties_input [simp]: "empties r (room_applyInput p cmd r)"
  by (rule empties_books) (simp_all add: room_applyInput_def inWorld_def split: option.split)

lemma empties_respawn [simp]: "empties r (respawn p r)"
  by (rule empties_books) (simp_all add: respawn_def inWorld_def split: option.split)

lemma empties_fold: "(\<And>x r. empties r (f x r)) \<Longrightarrow> empties r (fold f xs r)"
proof (induction xs arbitrary: r)
  case (Cons x xs)
  from empties_trans [OF Cons.prems Cons.IH [OF Cons.prems]] show ?case by simp
qed simp

lemma empties_steer [simp]: "empties r (steer p accepted ban r)"
proof -
  let ?r = "fold (\<lambda>cmd. room_applyInput p (simInput cmd)) accepted r"
  have r: "empties r ?r" by (rule empties_fold) simp
  from empties_trans [OF r empties_shadowban] r show ?thesis by (simp add: steer_def Let_def)
qed

lemma empties_tick [simp]: "empties r (snd (tick_room nc now r))"
proof -
  have death: "empties x (recordDeath d x)" for x d
    unfolding recordDeath_def Let_def
    by (rule empties_trans [OF _ empties_eliminate]) (rule empties_books; simp)
  have evict: "empties x (evictSeat nc now s x)" for x s
    by (simp add: evictSeat_def split: option.split)
  have turns: "empties x (snd (snapshotTurn nc x))" "empties x (snd (leaderboardTurn nc x))" for x
    by (rule empties_books; auto simp: snapshotTurn_def leaderboardTurn_def broadcastSnapshots_def broadcastLeaderboard_def Let_def
      case_prod_beta sendSnapshot_id comp_def split: option.split)+
  have world: "empties r (r\<lparr>rm_world := w\<rparr>)" for w by (rule empties_books) simp_all
  have "empties r (evictExpiredDisconnects nc now (fold recordDeath ds (r\<lparr>rm_world := w\<rparr>)))" for ds w
    unfolding evictExpiredDisconnects_def
    by (rule empties_trans [OF world empties_trans [OF empties_fold empties_fold]]) (rule death, rule evict)
  then have "empties r (snd (leaderboardTurn nc (snd (snapshotTurn nc (evictExpiredDisconnects nc now (fold recordDeath ds (r\<lparr>rm_world := w\<rparr>)))))))" for ds w
    using empties_trans turns by blast
  then show ?thesis by (simp add: tick_room_def Let_def case_prod_beta split: option.split)
qed

definition numbers_ok :: "manager \<Rightarrow> bool" where
  "numbers_ok m \<longleftrightarrow> distinct (map ho_number (mg_rooms m)) \<and> (\<forall>n \<in> set (map ho_number (mg_rooms m)). n < mg_created m)"

text \<open>Every room of the later manager is an earlier one that has at most emptied.\<close>

definition rooms_empty :: "manager \<Rightarrow> manager \<Rightarrow> bool" where
  "rooms_empty m m' \<longleftrightarrow> roomCount m' \<le> roomCount m \<and> (numbers_ok m \<longrightarrow> numbers_ok m') \<and>
     (\<forall>h' \<in> set (mg_rooms m'). \<exists>h \<in> set (mg_rooms m). empties (ho_room h) (ho_room h') \<and> (room_ok (ho_room h) \<longrightarrow> room_ok (ho_room h')))"

lemma rooms_empty_refl [simp]: "rooms_empty m m"
  unfolding rooms_empty_def using empties_refl by blast

lemma rooms_empty_trans: "rooms_empty l m \<Longrightarrow> rooms_empty m n \<Longrightarrow> rooms_empty l n"
  unfolding rooms_empty_def using empties_trans by (meson order_trans)

lemma rooms_empty_map:
  assumes "mg_rooms m' = map f (mg_rooms m)" and "mg_created m' = mg_created m" and "\<And>h. ho_number (f h) = ho_number h"
    and "\<And>h. empties (ho_room h) (ho_room (f h))" and "\<And>h. room_ok (ho_room h) \<Longrightarrow> room_ok (ho_room (f h))"
  shows "rooms_empty m m'"
proof -
  have "map ho_number (mg_rooms m') = map ho_number (mg_rooms m)" by (simp add: assms(1,3))
  then have "numbers_ok m \<Longrightarrow> numbers_ok m'" using assms(1-3) by (simp add: numbers_ok_def del: map_map)
  then show ?thesis using assms by (auto simp: rooms_empty_def roomCount_def)
qed

lemma rooms_empty_filter: "mg_rooms m' = filter P (mg_rooms m) \<Longrightarrow> mg_created m' = mg_created m \<Longrightarrow> rooms_empty m m'"
  unfolding rooms_empty_def roomCount_def numbers_ok_def
  by (intro conjI) (simp, simp add: distinct_map_filter, metis empties_refl filter_is_subset subsetD)

lemma numbers_onRoom [simp]: "numbers_ok (onRoom n f m) = numbers_ok m"
  unfolding numbers_ok_def by (simp only: onRoom_simps)

lemma rooms_empty_onRoom:
  assumes "\<And>r. empties r (f r)" and "\<And>r. room_ok r \<Longrightarrow> room_ok (f r)"
  shows "rooms_empty m (onRoom n f m)"
  by (rule rooms_empty_map [where f = "\<lambda>h. if ho_number h = n then h\<lparr>ho_room := f (ho_room h)\<rparr> else h"])
    (simp_all add: onRoom_def upd_rows_def assms)

lemma rooms_empty_tick: "rooms_empty m (ticked nc now m)"
proof -
  have one: "rooms_empty m (snd (tickRooms nc now m))" for m
    by (rule rooms_empty_map [where f = "\<lambda>h. h\<lparr>ho_room := snd (tick_room nc now (ho_room h))\<rparr>"])
      (simp_all add: tickRooms_def Let_def case_prod_beta comp_def room_tick)
  have "rooms_empty m (snd (tickTimes nc now n m))" for n m
  proof (induction n arbitrary: m)
    case (Suc n)
    from rooms_empty_trans [OF one Suc] show ?case by (simp add: Let_def case_prod_beta)
  qed simp
  moreover have "rooms_empty m (m\<lparr>mg_nextTickAt := t\<rparr>)" for t by (rule rooms_empty_map [where f = id]) simp_all
  ultimately show ?thesis unfolding ticked_def using rooms_empty_trans by (metis (full_types) rooms_empty_refl)
qed

lemma room_ok_marks:
  "room_ok r \<Longrightarrow> room_ok (drain_room r)" "room_ok r \<Longrightarrow> room_ok (markAnnounced r)" "room_ok r \<Longrightarrow> room_ok (markReported r)"
  "room_ok r \<Longrightarrow> room_ok (unmarkReported r)" "room_ok r \<Longrightarrow> room_ok (r\<lparr>rm_gameId := g\<rparr>)"
  by (auto simp: drain_room_def markAnnounced_def markReported_def unmarkReported_def same_books_def elim!: room_ok_same)

lemma empties_marks [simp]:
  "empties r (drain_room r)" "empties r (markReported r)" "empties r (unmarkReported r)" "empties r (r\<lparr>rm_gameId := g\<rparr>)"
  "empties r (drain_room (markAnnounced r))" "empties r (markReported (drain_room (markAnnounced r)))"
  by (rule empties_books; simp add: drain_room_def markAnnounced_def markReported_def unmarkReported_def)+

lemma rooms_empty_report: "rooms_empty m (snd (reportFinishedMatches nc collation now m))"
proof -
  let ?f = "\<lambda>h. fst (snd (reportRoom nc collation now h))"
  have "empties (ho_room h) (ho_room (?f h)) \<and> (room_ok (ho_room h) \<longrightarrow> room_ok (ho_room (?f h))) \<and> ho_number (?f h) = ho_number h" for h
    by (auto simp: reportRoom_def Let_def room_ok_marks split: option.split)
  then show ?thesis
    by (intro rooms_empty_map [where f = ?f]) (simp_all add: reportFinishedMatches_def Let_def case_prod_beta comp_def)
qed

lemma rooms_empty_run: "rooms_empty m (snd (runTick nc collation now m))"
proof -
  have "rooms_empty x (reapEmptyRooms x)" for x by (rule rooms_empty_filter) (simp_all add: reapEmptyRooms_def)
  then show ?thesis unfolding snd_runTick
    by (rule rooms_empty_trans [OF rooms_empty_trans [OF rooms_empty_tick rooms_empty_report]])
qed

lemma rooms_empty_done: "rooms_empty m (publicationDone i out m)"
proof -
  have "rooms_empty m (m\<lparr>mg_pending := x\<rparr>)" "rooms_empty m (m\<lparr>mg_pending := x, mg_redis := y\<rparr>)" for x y
    by (rule rooms_empty_map [where f = id]; simp)+
  moreover have "rooms_empty k (onRoom n unmarkReported k)" for k n by (rule rooms_empty_onRoom) (simp_all add: room_ok_marks)
  ultimately have "rooms_empty m (onRoom n unmarkReported (m\<lparr>mg_pending := x\<rparr>))"
    "rooms_empty m (onRoom n unmarkReported (m\<lparr>mg_pending := x, mg_redis := y\<rparr>))"
    "rooms_empty m (m\<lparr>mg_pending := x, mg_redis := y\<rparr>)" for x y n
    by (meson rooms_empty_trans)+
  then show ?thesis by (simp add: publicationDone_def Let_def split: outcome.split)
qed

lemma rooms_empty_closes: "rooms_empty m (fold closeRoom rs m)"
proof (induction rs arbitrary: m)
  case (Cons r rs)
  have "rooms_empty m (closeRoom r m)" by (rule rooms_empty_filter) (simp_all add: closeRoom_def)
  from rooms_empty_trans [OF this Cons] show ?case by simp
qed simp


section \<open>The node\<close>

definition room_fits :: "socket_config \<Rightarrow> (string \<Rightarrow> string \<Rightarrow> bool) \<Rightarrow> room \<Rightarrow> bool" where
  "room_fits sc entitled r \<longleftrightarrow> room_ok r \<and> rm_maxPlayers r = nc_maxPlayersPerRoom (sk_node sc) \<and> playerCount r \<le> rm_maxPlayers r \<and>
     (\<forall>p \<in> seat_playerId ` set (rm_seats r). entitled p (rm_roomId r))"

definition arena_fits :: "socket_config \<Rightarrow> (string \<Rightarrow> string \<Rightarrow> bool) \<Rightarrow> arena \<Rightarrow> bool" where
  "arena_fits sc entitled ar \<longleftrightarrow> roomCount (ar_manager ar) \<le> nc_maxRooms (sk_node sc) \<and> numbers_ok (ar_manager ar) \<and>
     (\<forall>h \<in> set (mg_rooms (ar_manager ar)). room_fits sc entitled (ho_room h))"

lemma fits_empties: "room_fits sc entitled r \<Longrightarrow> empties r r' \<Longrightarrow> room_ok r' \<Longrightarrow> room_fits sc entitled r'"
  unfolding room_fits_def empties_def by auto

lemma fits_rooms_empty:
  assumes "arena_fits sc entitled ar" and "rooms_empty (ar_manager ar) (ar_manager ar')"
  shows "arena_fits sc entitled ar'"
proof -
  have "room_fits sc entitled (ho_room h')" if "h' \<in> set (mg_rooms (ar_manager ar'))" for h'
  proof -
    from assms(2) that obtain h where h: "h \<in> set (mg_rooms (ar_manager ar))" "empties (ho_room h) (ho_room h')"
      "room_ok (ho_room h) \<longrightarrow> room_ok (ho_room h')" by (auto simp: rooms_empty_def)
    with assms(1) have "room_fits sc entitled (ho_room h)" by (simp add: arena_fits_def)
    with fits_empties [OF this h(2)] h(3) show ?thesis by (simp add: room_fits_def)
  qed
  with assms show ?thesis by (auto simp: arena_fits_def rooms_empty_def)
qed

lemma fits_mono: "arena_fits sc entitled ar \<Longrightarrow> (\<And>p r. entitled p r \<Longrightarrow> entitled' p r) \<Longrightarrow> arena_fits sc entitled' ar"
  by (auto simp: arena_fits_def room_fits_def)

lemma rooms_empty_held:
  assumes "\<And>r. empties r (f r)" and "\<And>r. room_ok r \<Longrightarrow> room_ok (f r)"
  shows "rooms_empty (ar_manager ar) (ar_manager (onHeld n f ar))"
  using rooms_empty_onRoom [OF assms] by (simp add: onHeld_def)

lemma room_ok_clients:
  "room_ok r \<Longrightarrow> room_ok (markDisconnected p now r)" "room_ok r \<Longrightarrow> room_ok (removePlayer p r)" "room_ok r \<Longrightarrow> room_ok (respawn p r)"
  "room_ok r \<Longrightarrow> room_ok (room_applyInput p cmd r)" "room_ok r \<Longrightarrow> room_ok (setShadowbanned p v r)"
  using room_ok_updSeat room_remove room_respawn room_input by (simp_all add: markDisconnected_def setShadowbanned_def)

lemma room_ok_steer: "room_ok r \<Longrightarrow> room_ok (steer p accepted ban r)"
proof -
  assume r: "room_ok r"
  have "room_ok (fold (\<lambda>cmd. room_applyInput p (simInput cmd)) accepted r)"
    using r by (induction accepted arbitrary: r) (simp_all add: room_ok_clients)
  then show ?thesis by (simp add: steer_def Let_def room_ok_clients)
qed

lemma spending_manager: "spending event now c ar = (ok, ar') \<Longrightarrow> ar_manager ar' = ar_manager ar"
  by (auto simp: spending_def split: prod.splits)

lemma rooms_empty_disconnect: "rooms_empty (ar_manager ar) (ar_manager (onDisconnect now c ar))"
  unfolding onDisconnect_def
  by (rule rooms_empty_trans [OF _ rooms_empty_held]) (simp_all add: room_ok_clients)

lemma rooms_empty_client:
  "rooms_empty (ar_manager ar) (ar_manager (snd (onJoin sc v now c r ar)))"
  "rooms_empty (ar_manager ar) (ar_manager (onInput sc payload now c ar))"
  "rooms_empty (ar_manager ar) (ar_manager (snd (onPing now c r ar)))"
  "rooms_empty (ar_manager ar) (ar_manager (snd (onRespawn sc now c r ar)))"
  "rooms_empty (ar_manager ar) (ar_manager (snd (onChat text now c r ar)))"
  "rooms_empty (ar_manager ar) (ar_manager (onLeave now c ar))"
proof -
  show "rooms_empty (ar_manager ar) (ar_manager (snd (onJoin sc v now c r ar)))"
    by (simp add: onJoin_def rooms_empty_disconnect)
  have "rooms_empty (ar_manager ar) (ar_manager (onHeld n (steer p accepted ban) (ar\<lparr>ar_guards := g\<rparr>)))" for n p accepted ban g
    by (rule rooms_empty_trans [OF _ rooms_empty_held]) (simp_all add: room_ok_steer)
  then show "rooms_empty (ar_manager ar) (ar_manager (onInput sc payload now c ar))"
    by (simp add: onInput_def Let_def case_prod_beta split: option.split)
  show "rooms_empty (ar_manager ar) (ar_manager (snd (onPing now c r ar)))"
    by (auto simp: onPing_def spending_manager split: prod.split)
  have "rooms_empty (ar_manager ar) (ar_manager (onHeld n (respawn p) ar'))" if "ar_manager ar' = ar_manager ar" for n p ar'
    using rooms_empty_held [of "respawn p" ar' n] that by (simp add: room_ok_clients)
  then show "rooms_empty (ar_manager ar) (ar_manager (snd (onRespawn sc now c r ar)))"
    by (auto simp: onRespawn_def spending_manager split: prod.split bool.split)
  show "rooms_empty (ar_manager ar) (ar_manager (snd (onChat text now c r ar)))"
    by (auto simp: onChat_def spending_manager Let_def split: prod.split bool.split option.split)
  have "rooms_empty (ar_manager ar) (ar_manager (onHeld n (removePlayer p) ar))" for n p
    by (rule rooms_empty_held) (simp_all add: room_ok_clients)
  then show "rooms_empty (ar_manager ar) (ar_manager (onLeave now c ar))"
    unfolding onLeave_def using rooms_empty_trans rooms_empty_disconnect by blast
qed

lemma byClient_empties:
  "(\<And>c r. rooms_empty (ar_manager ar) (ar_manager (snd (f c r ar)))) \<Longrightarrow> rooms_empty (ar_manager ar) (ar_manager (snd (byClient sid f ar)))"
  by (simp add: byClient_def split: option.split)

lemma step_empties:
  assumes "\<And>sid s t. op \<noteq> Connects sid s t"
  shows "rooms_empty (ar_manager ar) (ar_manager (snd (arena_step sc collation op ar)))"
proof (cases op)
  case Drains
  have "rooms_empty m (drainRooms m)" for m
    by (rule rooms_empty_map [where f = "\<lambda>h. h\<lparr>ho_room := drain_room (ho_room h)\<rparr>"]) (simp_all add: drainRooms_def room_ok_marks)
  then show ?thesis by (simp add: Drains drainNode_def)
qed (use assms in \<open>auto intro!: byClient_empties rooms_empty_client rooms_empty_disconnect rooms_empty_done
    simp: decayAll_def arenaTick_def Let_def case_prod_beta rooms_empty_run closeArena_def closeAll_def rooms_empty_closes\<close>)


section \<open>Connecting\<close>

lemma ensure_fits:
  assumes fits: "arena_fits sc entitled ar"
    and e: "ensureRoom (sk_node sc) roomId ''casual'' ''us-east'' g (ar_manager ar) = Inr (h, m)"
  shows "arena_fits sc entitled (ar\<lparr>ar_manager := m\<rparr>)" and "room_fits sc entitled (ho_room h)" and "rm_roomId (ho_room h) = roomId"
proof -
  have "arena_fits sc entitled (ar\<lparr>ar_manager := m\<rparr>) \<and> room_fits sc entitled (ho_room h) \<and> rm_roomId (ho_room h) = roomId"
  proof (cases "roomNamed roomId (ar_manager ar)")
    case None
    then have h: "ho_room h = opened (sk_node sc) roomId (hashSeed roomId) g" "mg_rooms m = mg_rooms (ar_manager ar) @ [h]"
      "roomCount (ar_manager ar) < nc_maxRooms (sk_node sc)" "ho_number h = mg_created (ar_manager ar)" "mg_created m = mg_created (ar_manager ar) + 1"
      using e by (auto simp: ensureRoom_def opened_def Let_def split: if_splits)
    have "rm_seats (ho_room h) = []" "rm_maxPlayers (ho_room h) = nc_maxPlayersPerRoom (sk_node sc)" "rm_roomId (ho_room h) = roomId"
      by (simp_all add: h(1) opened_def start_room_def new_room_def)
    then have "room_fits sc entitled (ho_room h)" "rm_roomId (ho_room h) = roomId"
      using room_ok_opened [of "sk_node sc" roomId "hashSeed roomId" g] by (simp_all add: room_fits_def h(1) playerCount_def)
    moreover have "numbers_ok m" using fits by (auto simp: arena_fits_def numbers_ok_def h(2,4,5))
    ultimately show ?thesis using fits h by (simp add: arena_fits_def roomCount_def)
  next
    case (Some k)
    let ?r = "if rm_gameId (ho_room k) = None \<and> g \<noteq> None then (ho_room k)\<lparr>rm_gameId := g\<rparr> else ho_room k"
    have h: "ho_room h = ?r" "m = onRoom (ho_number k) (\<lambda>_. ?r) (ar_manager ar)" using Some e by (auto simp: ensureRoom_def Let_def)
    have k: "k \<in> set (mg_rooms (ar_manager ar))" "rm_roomId (ho_room k) = roomId" using Some by (auto simp: roomNamed_def dest: find_SomeD)
    have "room_fits sc entitled (ho_room k)" using fits k(1) by (simp add: arena_fits_def)
    moreover from this have "room_ok ((ho_room k)\<lparr>rm_gameId := g\<rparr>)" by (simp add: room_fits_def room_ok_marks)
    ultimately have r: "room_fits sc entitled ?r" using fits_empties [OF _ empties_marks(4)] by simp
    moreover have "rm_roomId ?r = roomId" by (simp add: k(2))
    moreover have "room_fits sc entitled (ho_room x)" if "x \<in> set (mg_rooms m)" for x
      using that fits r unfolding h(2) arena_fits_def by (auto simp: onRoom_def upd_rows_def)
    then have "arena_fits sc entitled (ar\<lparr>ar_manager := m\<rparr>)"
      using fits unfolding arena_fits_def by (simp add: roomCount_def) (simp add: h(2), simp add: onRoom_def)
    ultimately show ?thesis by (simp add: h(1))
  qed
  then show "arena_fits sc entitled (ar\<lparr>ar_manager := m\<rparr>)" "room_fits sc entitled (ho_room h)" "rm_roomId (ho_room h) = roomId" by blast+
qed

lemma add_fits:
  assumes r: "room_fits sc entitled r" and a: "addPlayer p sid nick r = Inr r'" and room: "isFull r \<longrightarrow> hasPlayer p r" and p: "entitled p (rm_roomId r)"
  shows "room_fits sc entitled r'"
proof -
  have ok: "room_ok r'" using room_add [OF _ a] r by (simp add: room_fits_def)
  show ?thesis
  proof (cases "seatOf p r")
    case None
    then have "rm_roomId r' = rm_roomId r" "rm_maxPlayers r' = rm_maxPlayers r" "playerCount r' = playerCount r + 1"
      "seat_playerId ` set (rm_seats r') = insert p (seat_playerId ` set (rm_seats r))"
      using a by (auto simp: addPlayer_def inWorld_def playerCount_def split: if_splits)
    moreover have "playerCount r < rm_maxPlayers r" using room None by (simp add: isFull_def hasPlayer_def)
    ultimately show ?thesis using r p ok by (auto simp: room_fits_def)
  next
    case (Some s)
    then have "r' = updSeat p (\<lambda>s. s\<lparr>seat_socketId := sid, seat_disconnectedAtMs := None, seat_aoi := createAoiView\<rparr>) r"
      using a by (simp add: addPlayer_def split: if_splits)
    then have "empties r r'" by (simp add: empties_updSeat)
    then show ?thesis using fits_empties [OF r _ ok] by simp
  qed
qed

lemma connect_fits:
  assumes fits: "arena_fits sc entitled ar" and p: "entitled (ss_playerId s) (ss_roomId s)"
  shows "arena_fits sc entitled (snd (onConnection sc sid s now ar))"
proof -
  have other: "arena_fits sc entitled (ar'\<lparr>ar_guards := x\<rparr>) = arena_fits sc entitled ar'"
    "arena_fits sc entitled (ar'\<lparr>ar_sockets := y\<rparr>) = arena_fits sc entitled ar'" for ar' x y
    by (simp_all add: arena_fits_def)
  define a where "a = ar\<lparr>ar_guards := snd (getGuard now (sk_maxInputsPerSecond sc) sid (ar_guards ar))\<rparr>"
  have a: "arena_fits sc entitled a" using fits by (simp add: a_def other)
  show ?thesis
  proof (cases "ss_playerId s = '''' \<or> ss_roomId s = '''' \<or>
      (\<exists>e. ensureRoom (sk_node sc) (ss_roomId s) ''casual'' ''us-east'' (ss_gameId s) (ar_manager a) = Inl e)")
    case True
    then show ?thesis using a by (auto simp: onConnection_def Let_def refuse_def other a_def [symmetric])
  next
    case False
    then obtain h m where e: "ensureRoom (sk_node sc) (ss_roomId s) ''casual'' ''us-east'' (ss_gameId s) (ar_manager a) = Inr (h, m)"
      by (metis sum.exhaust surj_pair)
    note m = ensure_fits [OF a e]
    have "arena_fits sc entitled (a\<lparr>ar_manager := onRoom (ho_number h) (\<lambda>_. r') m\<rparr>)"
      if "addPlayer (ss_playerId s) sid (ss_nickname s) (ho_room h) = Inr r'" "isFull (ho_room h) \<longrightarrow> hasPlayer (ss_playerId s) (ho_room h)" for r'
    proof -
      have "room_fits sc entitled r'" using add_fits [OF m(2) that] p m(3) by simp
      moreover have "numbers_ok (onRoom (ho_number h) (\<lambda>_. r') m)" using m(1) by (simp add: arena_fits_def)
      ultimately show ?thesis using m(1) by (auto simp: arena_fits_def roomCount_def) (auto simp: onRoom_def upd_rows_def split: if_split_asm)
    qed
    moreover have "arena_fits sc entitled (a\<lparr>ar_manager := x, ar_sockets := y\<rparr>) = arena_fits sc entitled (a\<lparr>ar_manager := x\<rparr>)" for x y
      by (simp add: arena_fits_def)
    ultimately show ?thesis
      using False e m(1) by (auto simp: onConnection_def Let_def refuse_def other a_def [symmetric] split: sum.split)
  qed
qed

definition granted :: "arena_op list \<Rightarrow> string \<Rightarrow> string \<Rightarrow> bool" where
  "granted ops p r \<longleftrightarrow> (\<exists>sid s t. Connects sid s t \<in> set ops \<and> ss_playerId s = p \<and> ss_roomId s = r)"

lemma step_fits:
  assumes "arena_fits sc (granted before) ar"
  shows "arena_fits sc (granted (before @ [op])) (snd (arena_step sc collation op ar))"
proof -
  have fits: "arena_fits sc (granted (before @ [op])) ar" by (rule fits_mono [OF assms]) (auto simp: granted_def)
  show ?thesis
  proof (cases "\<exists>sid s t. op = Connects sid s t")
    case True
    then obtain sid s t where op: "op = Connects sid s t" by blast
    then have "granted (before @ [op]) (ss_playerId s) (ss_roomId s)" by (auto simp: granted_def)
    from connect_fits [OF fits this] show ?thesis by (simp add: op)
  next
    case False
    then have "op \<noteq> Connects sid s t" for sid s t by blast
    from fits_rooms_empty [OF fits step_empties [OF this]] show ?thesis .
  qed
qed

lemma run_fits: "arena_fits sc (granted before) ar \<Longrightarrow> arena_fits sc (granted (before @ ops)) (run_arena sc collation ops ar)"
proof (induction ops arbitrary: before ar)
  case (Cons op ops)
  from Cons.IH [OF step_fits [OF Cons.prems]] show ?case by (simp add: run_arena_def)
qed (simp add: run_arena_def)

lemma arena_reached: "arena_fits sc (granted ops) (run_arena sc collation ops new_arena)"
proof -
  have "arena_fits sc (granted []) new_arena" by (simp add: arena_fits_def new_arena_def new_manager_def roomCount_def numbers_ok_def)
  from run_fits [OF this] show ?thesis by simp
qed

text \<open>C11: A node is never overfilled: whatever its sockets do, it hosts no more rooms than it is configured for, no room
  has more seats than its limit, nobody has two seats in a room, and everybody seated has a snake of their own.\<close>

theorem node_never_overfilled:
  assumes "h \<in> set (mg_rooms (ar_manager (run_arena sc collation ops new_arena)))"
  shows "length (mg_rooms (ar_manager (run_arena sc collation ops new_arena))) \<le> nc_maxRooms (sk_node sc) \<and>
    length (rm_seats (ho_room h)) \<le> nc_maxPlayersPerRoom (sk_node sc) \<and> distinct (map seat_playerId (rm_seats (ho_room h))) \<and>
    (\<forall>p. snakeOf p (ho_room h) \<noteq> None \<longleftrightarrow> p \<in> seat_playerId ` set (rm_seats (ho_room h)))"
proof -
  note fits = arena_reached [of sc ops collation]
  then have r: "room_fits sc (granted ops) (ho_room h)" using assms by (simp add: arena_fits_def)
  then have "room_ok (ho_room h)" by (simp add: room_fits_def)
  with snakeOf_iff [OF this] r fits show ?thesis
    by (simp add: room_fits_def arena_fits_def roomCount_def playerCount_def room_ok_def)
qed

end
