(* ===== verification/Handshake_Examples.thy ===== *)
theory Handshake_Examples
  imports Handshake_Histories
begin

text \<open>
  A concrete cluster: an encoding of claims that reads back what it wrote, a node, a lobby of two, and the histories that show
  the properties at work and what single use does not achieve.
\<close>

section \<open>An encoding of claims\<close>

fun enc_str :: "string \<Rightarrow> byte list" where
  "enc_str [] = [0]"
| "enc_str (c # cs) = 1 # word_of_nat (of_char c) # enc_str cs"

fun dec_str :: "byte list \<Rightarrow> string \<times> byte list" where
  "dec_str (b # c # bs) = (if b = 0 then ([], c # bs) else (case dec_str bs of (s, r) \<Rightarrow> (char_of (unat c) # s, r)))"
| "dec_str bs = ([], [])"

definition enc_int :: "int \<Rightarrow> byte list" where
  "enc_int n = (if n < 0 then 1 else 0) # enc_str (show_nat (nat \<bar>n\<bar>))"

definition dec_int :: "byte list \<Rightarrow> int \<times> byte list" where
  "dec_int bs = (case dec_str (tl bs) of (s, r) \<Rightarrow> ((if hd bs = 1 then -1 else 1) * int (read_digits 0 s), r))"

definition enc_claims :: "ticket_claims \<Rightarrow> byte list" where
  "enc_claims c = enc_str (tk_playerId c) @ enc_str (tk_wallet c) @ enc_str (tk_roomId c) @ enc_str (tk_nodeId c) @
     enc_str (tk_nickname c) @ (case tk_gameId c of None \<Rightarrow> [0, 0] | Some g \<Rightarrow> 1 # enc_str g) @ enc_int (tk_issuedAt c) @
     enc_int (tk_expiresAt c) @ [0]"

definition dec_claims :: "byte list \<Rightarrow> ticket_json" where
  "dec_claims bs =
    (let (p, bs) = dec_str bs; (w, bs) = dec_str bs; (room, bs) = dec_str bs; (node, bs) = dec_str bs; (n, bs) = dec_str bs;
         (g, bs') = dec_str (tl bs); (i, bs') = dec_int bs'; (e, bs') = dec_int bs'
     in Claims \<lparr>tk_playerId = p, tk_wallet = w, tk_roomId = room, tk_nodeId = node, tk_nickname = n,
          tk_gameId = (if hd bs = 0 then None else Some g), tk_issuedAt = i, tk_expiresAt = e\<rparr>)"

lemma dec_enc_str [simp]: "dec_str (enc_str s @ b # r) = (s, b # r)"
proof (induction s)
  case (Cons c s)
  have "char_of (unat (word_of_nat (of_char c) :: byte)) = c"
    by (simp add: unsigned_of_nat char_of_take_bit_eq)
  with Cons show ?case by simp
qed simp

lemma dec_enc_int [simp]: "dec_int (enc_int n @ b # r) = (n, b # r)"
  by (simp add: dec_int_def enc_int_def read_digits_show_nat)

lemma enc_str_Cons: "\<exists>b r. enc_str s = b # r"
  by (cases s) simp_all

lemma dec_enc_str' [simp]: "dec_str (enc_str s @ enc_str t @ r) = (s, enc_str t @ r)" "dec_str (enc_str s @ enc_int n @ r) = (s, enc_int n @ r)"
    "dec_int (enc_int m @ enc_int n @ r) = (m, enc_int n @ r)"
  using enc_str_Cons [of t] dec_enc_str [of s] dec_enc_int [of m] by (auto simp: enc_int_def)

lemma dec_enc_claims: "dec_claims (enc_claims c) = Claims c"
  using dec_enc_str'(2) [of "''''"] by (cases "tk_gameId c") (simp_all add: dec_claims_def enc_claims_def)

definition sample_env :: ticket_env where
  "sample_env = \<lparr>te_stringify = enc_claims, te_parse = dec_claims,
     te_hmac = \<lambda>secret payload. map (\<lambda>c. word_of_nat (of_char c)) (secret @ payload)\<rparr>"

lemma json_sample [simp]: "json_law sample_env"
  by (simp add: json_law_def sample_env_def dec_enc_claims)

section \<open>A cluster\<close>

definition sample_mm :: mm_config where
  "sample_mm = \<lparr>mc_env = sample_env, mc_secret = ''secret'', mc_strategy = BestFit, mc_heartbeatTtlSeconds = 15, mc_noteLands = \<lambda>_ _. True\<rparr>"

definition sample_nd :: gate_config where
  "sample_nd = \<lparr>nd_env = sample_env, nd_secret = ''secret'', nd_nodeId = ''n1'', nd_maxInputs = 60, nd_trustProxy = False\<rparr>"

definition heartbeat :: raw_node where
  "heartbeat = \<lparr>rn_nodeId = Some ''n1'', rn_advertiseUrl = Some ''wss://n1'', rn_region = Some ''us-east'', rn_rooms = Some 3,
     rn_players = Some 40, rn_maxRooms = Some 50, rn_saturation = Some (1 / 2), rn_updatedAt = Some 9000, rn_draining = False\<rparr>"

definition sample_node :: node_candidate where
  "sample_node = \<lparr>cd_nodeId = ''n1'', cd_advertiseUrl = ''wss://n1'', cd_region = ''us-east'', cd_rooms = 3, cd_players = 40,
     cd_maxRooms = 50, cd_saturation = 1 / 2, cd_updatedAt = 9000, cd_draining = False\<rparr>"

definition sample_cluster :: cluster where
  "sample_cluster = \<lparr>cu_db = \<lparr>cl_keys = [nodeHeartbeat ''n1'' \<mapsto> (NodePayload (NodeObject heartbeat), 99999)], cl_nodes = [''n1''], cl_removals = []\<rparr>,
     cu_issued = [], cu_sessions = []\<rparr>"

definition seat_of :: "string \<Rightarrow> lobby_player" where
  "seat_of i = \<lparr>playerId = i, nickname = i, wallet = ''w'' @ i, joinedAt = 0, ready = True\<rparr>"

definition sample_launch :: launch_request where
  "sample_launch = \<lparr>lr_tierId = ''gold'', lr_players = [seat_of ''ann'', seat_of ''bob''], lr_tier = hd ROOM_TIERS, lr_gameId = Some ''game-7''\<rparr>"

definition asks :: "string \<Rightarrow> match_request" where
  "asks i = \<lparr>mr_playerId = i, mr_wallet = ''w'' @ i, mr_nickname = None, mr_mode = ''wager'', mr_region = None, mr_tierId = Some ''gold''\<rparr>"

lemma heartbeat_key [simp]: "nodeHeartbeat i \<noteq> matchTicket p" "nodeHeartbeat i \<noteq> stagedMetaKey p" "nodeHeartbeat i \<noteq> reconnectRoom p"
    "nodeHeartbeat i \<noteq> openMatchKey p" "matchTicket p \<noteq> nodeHeartbeat i" "stagedMetaKey p \<noteq> nodeHeartbeat i" "reconnectRoom p \<noteq> nodeHeartbeat i"
  by (simp_all add: nodeHeartbeat_def matchTicket_def stagedMetaKey_def reconnectRoom_def openMatchKey_def)

text \<open>A cluster with this heartbeat always has capacity.\<close>

definition beating :: "cluster_db \<Rightarrow> bool" where
  "beating db \<longleftrightarrow> cl_nodes db = [''n1''] \<and> cl_keys db (nodeHeartbeat ''n1'') = Some (NodePayload (NodeObject heartbeat), 99999)"

lemma beating_put: "beating db \<Longrightarrow> k \<noteq> nodeHeartbeat ''n1'' \<Longrightarrow> beating (put k v e db)" "beating db \<Longrightarrow> k \<noteq> nodeHeartbeat ''n1'' \<Longrightarrow> beating (del k db)"
  by (auto simp: beating_def put_def del_def)

lemma beating_load:
  assumes "beating db" and "now < 99999"
  shows "loadNodes now db = ([sample_node], db)"
proof -
  have "parseNodePayload (nodePayload now db ''n1'') = Some sample_node"
    using assms by (simp add: beating_def nodePayload_def live_def parseNodePayload_def heartbeat_def sample_node_def)
  then have m: "map (\<lambda>i. (i, parseNodePayload (nodePayload now db i))) (cl_nodes db) = [(''n1'', Some sample_node)]"
    using assms(1) by (simp add: beating_def)
  have f: "filter (\<lambda>(i, n). n = None) [(''n1'', Some sample_node)] = []" by simp
  show ?thesis unfolding loadNodes_def loadFrom_def Let_def m f using assms(1) by (simp add: beating_def map_filter_simps)
qed

lemma sample_fit: "now \<le> 24000 \<Longrightarrow> filterHealthy (mc_heartbeatTtlSeconds sample_mm * 1000) now [sample_node] = [sample_node]"
  by (simp add: filterHealthy_def sample_mm_def sample_node_def)

lemma sample_place: "selectPlacement [sample_node] ''us-east'' (mc_strategy sample_mm) = Some sample_node"
  by (simp add: selectPlacement_def placementPool_def usableNodes_def sample_node_def sample_mm_def Let_def)

lemma launchNode_sample: "now \<le> 24000 \<Longrightarrow> launchNode sample_mm now [sample_node] = Some sample_node"
  by (simp add: launchNode_def sample_fit sample_place)

lemma sample_beating [simp]: "beating (cu_db sample_cluster)"
  by (simp add: beating_def sample_cluster_def)

lemma beating_stages: "beating db \<Longrightarrow> beating (fold (stageTicket cfg now node gid tid) ps db)"
  by (induction ps arbitrary: db) (simp_all add: stageTicket_def beating_put)

lemma matchmake_beating:
  assumes "beating db" and "now \<le> 24000" and "regionOf rq = ''us-east''" and "stagedFor now (mr_playerId rq) db = Some (meta, issued)"
  shows "\<exists>mt. matchmake sample_mm bound uuid others now rq db = (Inr mt, handOutStaged sample_mm now (mr_playerId rq) meta issued db) \<and> mt_ticket mt = issued \<and>
    mt_expiresAt mt = now + TICKET_TTL_MS"
proof -
  have "loadNodes now db = ([sample_node], db)" using beating_load [OF assms(1)] assms(2) by simp
  then show ?thesis using assms(4) sample_fit [OF assms(2)] sample_place
    unfolding matchmake_def Let_def assms(3) by simp
qed

section \<open>A launch that leads into the room\<close>

definition launched :: cluster where
  "launched = cluster_step sample_mm (OpLaunch ''u'' 10000 [sample_node] sample_launch) sample_cluster"

definition anns_ticket :: string where
  "anns_ticket = stagedTicket sample_mm 10000 sample_node ''game-7'' (seat_of ''ann'')"

lemma sample_roster:
  "seat_of ''ann'' \<in> set (lr_players sample_launch)" "distinct (map playerId (lr_players sample_launch))"
  "list_all (\<lambda>q. plain_id (playerId q)) (lr_players sample_launch)" "launchGame ''u'' sample_launch = ''game-7''"
  by (simp_all add: sample_launch_def seat_of_def plain_id_def launchGame_def)

lemma launched_beating: "beating (cu_db launched)"
  by (simp add: launched_def launchMatch_def launchNode_sample Let_def beating_stages)

lemma launched_staged:
  assumes "same_keys ''ann'' (cu_db launched) db" and "now < 70000"
  shows "\<exists>meta. stagedFor now ''ann'' db = Some (meta, anns_ticket) \<and> sg_roomId meta = roomIdOf ''game-7''"
  using stagedFor_launched [OF sample_roster(1-3) launchNode_sample [of 10000], where now = now and uuid = "''u''" and c = sample_cluster and db = db] assms
  by (simp add: launched_def STAGED_TTL_MS_def seat_of_def sample_roster(4) anns_ticket_def [unfolded seat_of_def])

text \<open>Ann leaves her seat alone while Carl leaves a queue, asks for her match and connects.\<close>

definition carl_left :: cluster where
  "carl_left = run_cluster sample_mm [OpLeave ''carl''] launched"

lemma carl_left_facts: "beating (cu_db carl_left)" "same_keys ''ann'' (cu_db launched) (cu_db carl_left)"
proof -
  show "beating (cu_db carl_left)"
    using launched_beating by (simp add: carl_left_def run_cluster_def dropSeat_def ticket_key [of "''carl''"] beating_put del: append_Cons)
  show "same_keys ''ann'' (cu_db launched) (cu_db carl_left)"
    unfolding carl_left_def by (rule same_keys_run) (simp_all add: plain_id_def)
qed

lemma ann_asks:
  "\<exists>mt meta. matchmake sample_mm bound ''v'' (\<lambda>_ db. db) 11000 (asks ''ann'') (cu_db carl_left) =
      (Inr mt, handOutStaged sample_mm 11000 ''ann'' meta anns_ticket (cu_db carl_left)) \<and>
    mt_ticket mt = anns_ticket \<and> sg_roomId meta = roomIdOf ''game-7''"
proof -
  obtain meta where meta: "stagedFor 11000 ''ann'' (cu_db carl_left) = Some (meta, anns_ticket)" "sg_roomId meta = roomIdOf ''game-7''"
    using launched_staged [OF carl_left_facts(2), of 11000] by auto
  have asks: "mr_playerId (asks ''ann'') = ''ann''" "regionOf (asks ''ann'') = ''us-east''" by (simp_all add: asks_def regionOf_def)
  from matchmake_beating [OF carl_left_facts(1), of 11000 "asks ''ann''" meta anns_ticket bound "''v''" "\<lambda>_ db. db"] meta asks
  show ?thesis by auto
qed

definition anns_claims :: ticket_claims where
  "anns_claims = \<lparr>tk_playerId = ''ann'', tk_wallet = ''wann'', tk_roomId = roomIdOf ''game-7'', tk_nodeId = ''n1'', tk_nickname = ''ann'',
     tk_gameId = Some ''game-7'', tk_issuedAt = 10000, tk_expiresAt = 40000\<rparr>"

lemma anns_ticket_eq: "anns_ticket = mintTicket sample_env anns_claims ''secret''"
  by (simp add: anns_ticket_def stagedTicket_def sample_mm_def seat_of_def sample_node_def buildTicketClaims_def anns_claims_def TICKET_TTL_MS_def)

lemma ann_connects:
  "\<exists>db'. admitTicket sample_nd 12000 (Some anns_ticket) (handOutStaged sample_mm 11000 ''ann'' meta anns_ticket db) = (Inr (sessionOf sample_nd 12000 anns_claims), db')"
  if "sg_roomId meta = roomIdOf ''game-7''"
  using that unfolding anns_ticket_eq
  by (simp add: admitTicket_Some sample_nd_def plain_verify)
     (simp add: anns_claims_def handOutStaged_eq noteReconnectRoom_def sample_mm_def live_del live_put RECONNECT_WINDOW_MS_def plain_id_def)

lemma launched_players_meet_witness:
  "\<exists>mt. fst (matchmake sample_mm None ''v'' (\<lambda>_ db. db) 11000 (asks ''ann'') (cu_db carl_left)) = Inr mt \<and>
     fst (handshake sample_nd ''10.0.0.1'' NoHeader 12000 (Some (mt_ticket mt)) ([],
       cu_db (run_cluster sample_mm [OpServers 11500, OpRemovalLands 0] (cluster_step sample_mm (OpMatchmake None ''v'' 11000 (asks ''ann'')) carl_left)))) =
     Inr \<lparr>ss_playerId = ''ann'', ss_wallet = ''wann'', ss_roomId = ''game7'', ss_gameId = Some ''game-7'',
       ss_nickname = ''ann'', ss_joinedAt = 12000, ss_inputBudget = 60\<rparr>"
proof -
  have r: "roomIdOf ''game-7'' = ''game7''" by (simp add: roomIdOf_def)
  have placed: "selectPlacement (filterHealthy (mc_heartbeatTtlSeconds sample_mm * 1000) 11000 (fst (loadNodes 11000 (cu_db carl_left))))
      (regionOf (asks ''ann'')) (mc_strategy sample_mm) \<noteq> None"
    using beating_load [OF carl_left_facts(1), of 11000] sample_place by (simp add: sample_fit asks_def regionOf_def)
  have budget: "fst (tryConsume DEFAULT_CONNECTION_GUARD (clientAddress ''10.0.0.1'' NoHeader False) 12000 [])"
    by (simp add: tryConsume_def clientAddress_def DEFAULT_CONNECTION_GUARD_def spend_def refilled_def Let_def)
  have "\<exists>mt. fst (matchmake sample_mm None ''v'' (\<lambda>_ db. db) 11000 (asks ''ann'') (cu_db carl_left)) = Inr mt \<and>
     mt_realtimeUrl mt = cd_advertiseUrl sample_node \<and>
     fst (handshake sample_nd ''10.0.0.1'' NoHeader 12000 (Some (mt_ticket mt)) ([],
       cu_db (run_cluster sample_mm [OpServers 11500, OpRemovalLands 0] (cluster_step sample_mm (OpMatchmake None ''v'' 11000 (asks ''ann'')) carl_left)))) =
     Inr \<lparr>ss_playerId = playerId (seat_of ''ann''), ss_wallet = wallet (seat_of ''ann''), ss_roomId = roomIdOf (launchGame ''u'' sample_launch),
       ss_gameId = Some (launchGame ''u'' sample_launch), ss_nickname = nickname (seat_of ''ann''), ss_joinedAt = 12000,
       ss_inputBudget = nd_maxInputs sample_nd\<rparr>"
    by (rule launched_players_meet [OF _ _ _ sample_roster(1-3) launchNode_sample [of 10000] _ carl_left_def [unfolded launched_def] _ _ placed _ refl])
       (simp_all add: budget sample_mm_def sample_nd_def sample_node_def plain_id_def asks_def seat_of_def TICKET_TTL_MS_def)
  then show ?thesis by (simp add: sample_roster(4) seat_of_def sample_nd_def r) blast
qed

definition sample_history :: "cluster_op list" where
  "sample_history = [OpLaunch ''u'' 10000 [sample_node] sample_launch, OpLeave ''carl'', OpMatchmake None ''v'' 11000 (asks ''ann''),
     OpHandshake sample_nd 12000 (Some anns_ticket)]"

lemma sample_history_facts:
  "(sample_nd, sessionOf sample_nd 12000 anns_claims) \<in> set (cu_sessions (run_cluster sample_mm sample_history sample_cluster))"
  "forgery_free sample_mm sample_history sample_cluster"
proof -
  obtain mt meta where m: "matchmake sample_mm None ''v'' (\<lambda>_ db. db) 11000 (asks ''ann'') (cu_db carl_left) =
      (Inr mt, handOutStaged sample_mm 11000 ''ann'' meta anns_ticket (cu_db carl_left))" "mt_ticket mt = anns_ticket" "sg_roomId meta = roomIdOf ''game-7''"
    using ann_asks [of None] by blast
  obtain db' where a: "admitTicket sample_nd 12000 (Some anns_ticket) (handOutStaged sample_mm 11000 ''ann'' meta anns_ticket (cu_db carl_left)) =
      (Inr (sessionOf sample_nd 12000 anns_claims), db')"
    using ann_connects [OF m(3)] by blast
  define c3 where "c3 = cluster_step sample_mm (OpMatchmake None ''v'' 11000 (asks ''ann'')) carl_left"
  have c3: "c3 = carl_left\<lparr>cu_db := handOutStaged sample_mm 11000 ''ann'' meta anns_ticket (cu_db carl_left), cu_issued := anns_ticket # cu_issued carl_left\<rparr>"
    using m by (simp add: c3_def)
  have step2: "cluster_step sample_mm (OpLeave ''carl'') launched = carl_left" by (simp only: carl_left_def run_cluster_def fold_simps id_apply)
  have run: "run_cluster sample_mm sample_history sample_cluster = cluster_step sample_mm (OpHandshake sample_nd 12000 (Some anns_ticket)) c3"
    by (simp only: sample_history_def run_cluster_def fold_simps launched_def [symmetric] step2 c3_def)
  show "(sample_nd, sessionOf sample_nd 12000 anns_claims) \<in> set (cu_sessions (run_cluster sample_mm sample_history sample_cluster))"
    unfolding run using a by (simp add: c3)
  have "forgery_free sample_mm [OpHandshake sample_nd 12000 (Some anns_ticket)] c3"
    using c3 by (simp add: sample_mm_def sample_nd_def split: sum.split)
  then show "forgery_free sample_mm sample_history sample_cluster"
    by (simp only: sample_history_def forgery_free.simps cluster_op.case step2 launched_def [symmetric] c3_def [symmetric] simp_thms)
qed

lemma sample_start: "held_in {} (cu_db sample_cluster)" "json_law (mc_env sample_mm)" "cu_issued sample_cluster = []" "cu_sessions sample_cluster = []"
  by (simp_all add: held_in_def sample_mm_def sample_cluster_def)

lemma sessions_were_invited_witness:
  "\<exists>s c. (sample_nd, s) \<in> set (cu_sessions (run_cluster sample_mm sample_history sample_cluster)) \<and> ss_playerId s = ''ann'' \<and>
     tk_playerId c = ''ann'' \<and> invited sample_mm c sample_history sample_cluster"
proof -
  let ?s = "sessionOf sample_nd 12000 anns_claims"
  obtain c where c: "invited sample_mm c sample_history sample_cluster" "ss_playerId ?s = tk_playerId c"
    using sessions_were_invited [OF sample_start(2,1,3,4) sample_history_facts(2,1)] by blast
  have "ss_playerId ?s = ''ann''" by (simp add: sessionOf_def anns_claims_def)
  with sample_history_facts(1) c show ?thesis by metis
qed

end
