(* ===== verification/Connection_Safety.thy ===== *)
theory Connection_Safety
  imports Connection_Properties Handshake_Examples
begin

text \<open>
  The whole way into a seat, from the launch to the room; what a socket can change; and what becomes of a player whose
  connection drops.
\<close>

section \<open>From the invitation to the seat\<close>

text \<open>C8: Nobody sits uninvited: if the sockets a node accepts are ones whose handshake admitted them, then in any history of the
  matchmaker, of Redis and of the node's sockets in which no signature is forged, every player seated in a room of the node goes back
  either to a launch that listed them, whose game has that room and which was placed on that node, or to their own request for a match,
  when that node was one of the healthy nodes of the registry and that room the one of the game bound to their tier, or else, with
  no game bound, the open world of the tier, old or new, on that node. (Requests for a match run one at a time.)\<close>

theorem seated_players_were_invited:
  assumes "json_law (mc_env cfg)" and "held_in {} (cu_db c0)" and "cu_issued c0 = []" and "cu_sessions c0 = []"
    and "forgery_free cfg ops c0"
    and "\<forall>sid s t. Connects sid s t \<in> set events \<longrightarrow> (nd, s) \<in> set (cu_sessions (run_cluster cfg ops c0))"
    and "h \<in> set (mg_rooms (ar_manager (run_arena sc collation events new_arena)))" and "st \<in> set (rm_seats (ho_room h))"
  shows "\<exists>c. invited cfg c ops c0 \<and> tk_nodeId c = nd_nodeId nd \<and> tk_playerId c = seat_playerId st \<and> tk_roomId c = rm_roomId (ho_room h)"
proof -
  have "room_fits sc (granted events) (ho_room h)" using arena_reached assms(7) by (simp add: arena_fits_def)
  then have "granted events (seat_playerId st) (rm_roomId (ho_room h))" using assms(8) by (simp add: room_fits_def)
  then obtain sid s t where s: "Connects sid s t \<in> set events" "ss_playerId s = seat_playerId st" "ss_roomId s = rm_roomId (ho_room h)"
    by (auto simp: granted_def)
  have "(nd, s) \<in> set (cu_sessions (run_cluster cfg ops c0))" using assms(6) s(1) by blast
  then have "session_from cfg ops c0 (nd, s)" using accounted_history [OF assms(1-5)] by (simp add: accounted_def)
  then obtain c where "invited cfg c ops c0" "s = sessionOf nd (ss_joinedAt s) c" "tk_nodeId c = nd_nodeId nd"
    by (auto simp: session_from_def)
  with s(2,3) show ?thesis by (metis sessionOf_def session_data.select_convs(1,3))
qed

definition sample_sockets :: socket_config where
  "sample_sockets = \<lparr>sk_node = \<lparr>nc_nodeId = ''n1'', nc_tickRateHz = 30, nc_ticksPerSnapshot = 2, nc_reconnectGraceSeconds = 15, nc_cellSize = 200,
     nc_maxRooms = 2, nc_maxPlayersPerRoom = 2\<rparr>, sk_snapshotRateHz = 15, sk_maxInputsPerSecond = 60\<rparr>"

definition anns_session :: session_data where
  "anns_session = sessionOf sample_nd 12000 anns_claims"

lemma anns_session_simps:
  "ss_playerId anns_session = ''ann''" "ss_roomId anns_session = ''game7''" "ss_gameId anns_session = Some ''game-7''" "ss_nickname anns_session = ''ann''"
  by (simp_all add: anns_session_def sessionOf_def anns_claims_def roomIdOf_def)

lemma ann_seated:
  "\<exists>h st. h \<in> set (mg_rooms (ar_manager (run_arena sample_sockets collation [Connects ''s1'' anns_session 12000] new_arena))) \<and>
     st \<in> set (rm_seats (ho_room h)) \<and> seat_playerId st = ''ann'' \<and> rm_roomId (ho_room h) = ''game7''"
  by (simp add: run_arena_def onConnection_def Let_def anns_session_simps ensureRoom_def roomNamed_def new_arena_def new_manager_def
      roomCount_def sample_sockets_def start_room_def new_room_def isFull_def playerCount_def addPlayer_def seatOf_def inWorld_def onRoom_def upd_rows_def)

lemma seated_players_were_invited_witness:
  "\<exists>c. invited sample_mm c sample_history sample_cluster \<and> tk_nodeId c = ''n1'' \<and> tk_playerId c = ''ann'' \<and> tk_roomId c = ''game7''"
proof -
  obtain h st where h: "h \<in> set (mg_rooms (ar_manager (run_arena sample_sockets (\<lambda>_. 0) [Connects ''s1'' anns_session 12000] new_arena)))"
     "st \<in> set (rm_seats (ho_room h))" "seat_playerId st = ''ann''" "rm_roomId (ho_room h) = ''game7''"
    using ann_seated by blast
  have "\<forall>sid s t. Connects sid s t \<in> set [Connects ''s1'' anns_session 12000] \<longrightarrow>
      (sample_nd, s) \<in> set (cu_sessions (run_cluster sample_mm sample_history sample_cluster))"
    using sample_history_facts(1) by (simp add: anns_session_def)
  from seated_players_were_invited [OF sample_start(2,1,3,4) sample_history_facts(2) this h(1,2)] h(3,4)
  show ?thesis by (simp add: sample_nd_def)
qed

lemma node_never_overfilled_witness:
  "\<exists>h \<in> set (mg_rooms (ar_manager (run_arena sample_sockets (\<lambda>_. 0) [Connects ''s1'' anns_session 12000] new_arena))).
     length (rm_seats (ho_room h)) \<le> 2 \<and> snakeOf ''ann'' (ho_room h) \<noteq> None"
proof -
  obtain h st where h: "h \<in> set (mg_rooms (ar_manager (run_arena sample_sockets (\<lambda>_. 0) [Connects ''s1'' anns_session 12000] new_arena)))"
     "st \<in> set (rm_seats (ho_room h))" "seat_playerId st = ''ann''"
    using ann_seated by blast
  have "''ann'' \<in> seat_playerId ` set (rm_seats (ho_room h))" using h(2,3) by (metis imageI)
  with node_never_overfilled [OF h(1)] show ?thesis by (intro bexI [OF _ h(1)]) (simp add: sample_sockets_def)
qed


section \<open>A socket acts for its own player\<close>

text \<open>What a world holds for a player.\<close>

definition same_player :: "string \<Rightarrow> world_state \<Rightarrow> world_state \<Rightarrow> bool" where
  "same_player q w w' \<longleftrightarrow> ws_playerIndex w' q = ws_playerIndex w q \<and> getByPlayerId q w' = getByPlayerId q w \<and>
     (\<forall>i. ws_playerIndex w q = Some i \<longrightarrow> ws_pendingInputs w' i = ws_pendingInputs w i)"

lemma same_player_refl [simp]: "same_player q w w"
  by (simp add: same_player_def)

lemma same_player_trans: "same_player q u v \<Longrightarrow> same_player q v w \<Longrightarrow> same_player q u w"
  by (simp add: same_player_def)

lemma same_player_food: "more_food w w' \<Longrightarrow> same_player q w w'"
  using more_foodD(1-3) by (simp add: same_player_def getByPlayerId_def snakeById_def split: option.split)

lemma snake_index_inj:
  "world_wf w \<Longrightarrow> ws_playerIndex w p = Some i \<Longrightarrow> ws_playerIndex w q = Some j \<Longrightarrow> p \<noteq> q \<Longrightarrow> i \<noteq> j"
  unfolding world_wf_def by (metis (no_types, lifting) distinct_key_eq)

lemma find_append_one: "find P (xs @ [x]) = (case find P xs of None \<Rightarrow> if P x then Some x else None | Some y \<Rightarrow> Some y)"
  by (induction xs) simp_all

lemma same_player_spawn:
  assumes w: "world_wf w" and q: "q \<noteq> p"
  shows "same_player q w (snd (spawnSnake p nick isBot w))"
proof (cases "getByPlayerId p w")
  case None
  obtain v s where v: "more_food w v" "snake_wf s" "se_playerId s = p" "se_id s = ws_nextEntityId v" "se_alive s"
    "spawnSnake p nick isBot w = (s, v\<lparr>ws_nextEntityId := ws_nextEntityId v + 1, ws_snakes := ws_snakes v @ [s],
       ws_playerIndex := (ws_playerIndex v)(p \<mapsto> se_id s)\<rparr>)"
    by (rule spawnSnake_new [OF None])
  have wf: "world_wf v" by (rule world_wf_food [OF w v(1)])
  let ?v = "v\<lparr>ws_nextEntityId := ws_nextEntityId v + 1, ws_snakes := ws_snakes v @ [s], ws_playerIndex := (ws_playerIndex v)(p \<mapsto> se_id s)\<rparr>"
  have "snakeById i ?v = snakeById i v" if i: "ws_playerIndex v q = Some i" for i
  proof -
    obtain t where t: "t \<in> set (ws_snakes v)" "se_id t = i" using wf i unfolding world_wf_def by blast
    then have "snakeById i v \<noteq> None" using snakeById_Some [OF wf t(1)] by simp
    then show ?thesis by (auto simp: snakeById_def find_append_one split: option.split)
  qed
  then have "same_player q v ?v" using q by (simp add: same_player_def getByPlayerId_def split: option.split)
  with same_player_food [OF v(1)] show ?thesis using same_player_trans by (simp add: v(6)) blast
next
  case (Some s)
  then show ?thesis by (simp add: spawnSnake_def)
qed

lemma same_player_despawn:
  assumes w: "world_wf w" and q: "q \<noteq> p"
  shows "same_player q w (despawnSnake cfg p scatter w)"
proof (cases "ws_playerIndex w p")
  case (Some i)
  define v where "v = (case snakeById i w of Some s \<Rightarrow> if scatter then scatterMass cfg s w else w | None \<Rightarrow> w)"
  have "0 \<le> se_mass s" if "snakeById i w = Some s" for s using snakeById_wf [OF w that] by (simp add: snake_wf_def)
  then have m: "more_food w v" by (auto simp: v_def intro: more_food_scatter split: option.split)
  have wf: "world_wf v" by (rule world_wf_food [OF w m])
  let ?v = "v\<lparr>ws_snakes := filter (\<lambda>s. se_id s \<noteq> i) (ws_snakes v), ws_playerIndex := (ws_playerIndex v)(p := None),
               ws_pendingInputs := (ws_pendingInputs v)(i := None)\<rparr>"
  have p: "ws_playerIndex v p = Some i" using Some more_foodD(2) [OF m] by simp
  have j: "j \<noteq> i" if "ws_playerIndex v q = Some j" for j using snake_index_inj [OF wf that p] q by simp
  have "find (\<lambda>s. se_id s = j) (filter (\<lambda>s. se_id s \<noteq> i) xs) = find (\<lambda>s. se_id s = j) xs" if "j \<noteq> i" for j and xs :: "snake_entity list"
    using that by (induction xs) auto
  then have "same_player q v ?v" using q j by (auto simp: same_player_def getByPlayerId_def snakeById_def split: option.split)
  moreover have "despawnSnake cfg p scatter w = ?v" using Some by (simp add: despawnSnake_def v_def Let_def)
  ultimately show ?thesis using same_player_trans [OF same_player_food [OF m]] by simp
qed (simp add: despawnSnake_def)

lemma same_player_enqueue: "world_wf w \<Longrightarrow> q \<noteq> p \<Longrightarrow> same_player q w (enqueueInput p cmd w)"
  using snake_index_inj [of w q _ p]
  by (auto simp: same_player_def enqueueInput_def getByPlayerId_def snakeById_def split: option.split)


text \<open>And what a room holds for a player.\<close>

definition same_for :: "string \<Rightarrow> room \<Rightarrow> room \<Rightarrow> bool" where
  "same_for q r r' \<longleftrightarrow> seatOf q r' = seatOf q r \<and> rm_eliminations r' q = rm_eliminations r q \<and> rm_finalScores r' q = rm_finalScores r q \<and>
     (\<forall>w. rm_world r = Some w \<longrightarrow> (\<exists>w'. rm_world r' = Some w' \<and> same_player q w w'))"

lemma same_for_refl [simp]: "same_for q r r"
  by (simp add: same_for_def)

lemma same_for_trans: "same_for q r s \<Longrightarrow> same_for q s t \<Longrightarrow> same_for q r t"
  unfolding same_for_def using same_player_trans by metis

definition own_change :: "string \<Rightarrow> (room \<Rightarrow> room) \<Rightarrow> bool" where
  "own_change p f \<longleftrightarrow> (\<forall>r. empties r (f r)) \<and> (\<forall>r q. room_ok r \<and> q \<noteq> p \<longrightarrow> room_ok (f r) \<and> same_for q r (f r))"

lemma own_change_id [simp]: "own_change p (\<lambda>r. r)"
  by (simp add: own_change_def)

lemma own_change_comp: "own_change p f \<Longrightarrow> own_change p g \<Longrightarrow> own_change p (g \<circ> f)"
  unfolding own_change_def using same_for_trans empties_trans by (metis comp_apply)

lemma seatOf_updSeat: "q \<noteq> p \<Longrightarrow> (\<And>s. seat_playerId (f s) = seat_playerId s) \<Longrightarrow> seatOf q (updSeat p f r) = seatOf q r"
proof -
  assume "q \<noteq> p" and "\<And>s. seat_playerId (f s) = seat_playerId s"
  then have "find (\<lambda>s. seat_playerId s = q) (upd_rows (\<lambda>s. seat_playerId s = p) f xs) = find (\<lambda>s. seat_playerId s = q) xs" for xs
    by (induction xs) auto
  then show ?thesis by (simp add: seatOf_def updSeat_def)
qed

lemma own_updSeat:
  assumes "\<And>s. seat_playerId (f s) = seat_playerId s"
  shows "own_change p (updSeat p f)"
proof -
  have "rm_eliminations (updSeat p f r) = rm_eliminations r" "rm_finalScores (updSeat p f r) = rm_finalScores r" "rm_world (updSeat p f r) = rm_world r" for r
    by (simp_all add: updSeat_def)
  then show ?thesis using room_ok_updSeat assms seatOf_updSeat [OF _ assms] by (simp add: own_change_def same_for_def empties_updSeat)
qed

lemma own_inWorld:
  assumes "\<And>w. world_wf w \<Longrightarrow> same_player q w (f w)" and "room_ok r"
  shows "same_for q r (inWorld f r)"
proof -
  have "world_wf w" if "rm_world r = Some w" for w using room_ok_worldE [OF assms(2)] that by (metis option.inject)
  then show ?thesis using assms(1) by (simp add: same_for_def inWorld_def seatOf_def)
qed

lemma own_input: "own_change p (room_applyInput p cmd)"
proof -
  have "same_for q r (room_applyInput p cmd r)" if "room_ok r" "q \<noteq> p" for q r
    using own_inWorld [OF same_player_enqueue that(1)] that(2) by (simp add: room_applyInput_def split: option.split)
  then show ?thesis by (simp add: own_change_def room_ok_clients)
qed

lemma own_respawn: "own_change p (respawn p)"
proof -
  have "same_player q w (snd (spawnSnake p nick False (despawnSnake cfg p False w)))" if "world_wf w" "q \<noteq> p" for w q nick cfg
    using same_player_trans [OF same_player_despawn same_player_spawn [OF world_wf_despawn]] that by blast
  then have "same_for q r (respawn p r)" if "room_ok r" "q \<noteq> p" for q r
    using own_inWorld [OF _ that(1)] that(2) by (simp add: respawn_def split: option.split)
  then show ?thesis by (simp add: own_change_def room_ok_clients)
qed

lemma own_remove: "own_change p (removePlayer p)"
proof -
  have "same_for q r (removePlayer p r)" if r: "room_ok r" and q: "q \<noteq> p" for q r
  proof (cases "seatOf p r = None")
    case False
    have seat: "find (\<lambda>s. seat_playerId s = q) (filter (\<lambda>s. seat_playerId s \<noteq> p) xs) = find (\<lambda>s. seat_playerId s = q) xs" for xs :: "seat list"
      using q by (induction xs) auto
    have "same_player q w (despawnSnake cfg p True w)" if "rm_world r = Some w" for w cfg
      using same_player_despawn [OF _ q] room_ok_worldE [OF r] that by (metis option.inject)
    moreover have "rm_finalScores (captureScore p x) q = rm_finalScores x q" "rm_eliminations (eliminate p x) q = rm_eliminations x q" for x
      using q by (simp_all add: captureScore_def eliminate_def split: option.split)
    ultimately show ?thesis
      using False by (simp add: same_for_def removePlayer_def Let_def inWorld_def seatOf_def seat)
  qed (simp add: removePlayer_def)
  then show ?thesis by (simp add: own_change_def room_ok_clients)
qed

lemma own_disconnect: "own_change p (markDisconnected p now)"
  unfolding markDisconnected_def [abs_def] by (rule own_updSeat) simp

lemma own_steer: "own_change p (steer p accepted ban)"
proof -
  have "own_change p (fold (\<lambda>cmd. room_applyInput p (simInput cmd)) accepted)"
  proof (induction accepted)
    case (Cons cmd rest)
    from own_change_comp [OF own_input [of p "simInput cmd"] Cons] show ?case by (simp add: comp_def)
  qed (simp add: own_change_def)
  moreover have "own_change p (setShadowbanned p True)" unfolding setShadowbanned_def [abs_def] by (rule own_updSeat) simp
  ultimately have "own_change p (fold (\<lambda>cmd. room_applyInput p (simInput cmd)) accepted)"
    "own_change p (setShadowbanned p True \<circ> fold (\<lambda>cmd. room_applyInput p (simInput cmd)) accepted)" by (simp_all add: own_change_comp)
  then show ?thesis by (cases ban) (simp_all add: steer_def [abs_def] Let_def comp_def)
qed

subsection \<open>The events of one socket\<close>

fun from_socket :: "string \<Rightarrow> arena_op \<Rightarrow> bool" where
  "from_socket sid (SendsJoin k v t) = (k = sid)"
| "from_socket sid (SendsInput k b t) = (k = sid)"
| "from_socket sid (SendsPing k t) = (k = sid)"
| "from_socket sid (SendsRespawn k t) = (k = sid)"
| "from_socket sid (SendsChat k b t) = (k = sid)"
| "from_socket sid (SendsLeave k t) = (k = sid)"
| "from_socket sid (Disconnects k t) = (k = sid)"
| "from_socket sid _ = False"

lemma onRoom_id: "onRoom n (\<lambda>r. r) m = m"
  by (simp add: onRoom_def upd_rows_def)

lemma onRoom_comp: "onRoom n g (onRoom n f m) = onRoom n (g \<circ> f) m"
  by (simp add: onRoom_def upd_rows_def comp_def)

text \<open>What an event does to the rooms is one change of its player's own in the room its socket holds; the other sockets and their guards stay.\<close>

definition own_event :: "connection \<Rightarrow> arena \<Rightarrow> arena \<Rightarrow> bool" where
  "own_event c ar ar' \<longleftrightarrow>
    (\<exists>f. own_change (ss_playerId (cn_session c)) f \<and> ar_manager ar' = onRoom (cn_room c) f (ar_manager ar)) \<and>
    (\<forall>k \<in> set (ar_sockets ar). cn_socketId k \<noteq> cn_socketId c \<longrightarrow> k \<in> set (ar_sockets ar') \<and>
       ar_guards ar' (cn_socketId k) = ar_guards ar (cn_socketId k))"

lemma own_event_refl [simp]: "own_event c ar ar"
  unfolding own_event_def using own_change_id onRoom_id by metis

lemma own_event_held:
  "own_change (ss_playerId (cn_session c)) f \<Longrightarrow> own_event c ar (onHeld (cn_room c) f (ar\<lparr>ar_guards := (ar_guards ar)(cn_socketId c := g)\<rparr>))"
  "own_change (ss_playerId (cn_session c)) f \<Longrightarrow> own_event c ar (onHeld (cn_room c) f ar)"
  by (auto simp: own_event_def onHeld_def)

lemma own_event_trans: "own_event c u v \<Longrightarrow> own_event c v w \<Longrightarrow> own_event c u w"
proof -
  assume uv: "own_event c u v" and vw: "own_event c v w"
  from uv obtain f where f: "own_change (ss_playerId (cn_session c)) f" "ar_manager v = onRoom (cn_room c) f (ar_manager u)" by (auto simp: own_event_def)
  from vw obtain g where g: "own_change (ss_playerId (cn_session c)) g" "ar_manager w = onRoom (cn_room c) g (ar_manager v)" by (auto simp: own_event_def)
  have "ar_manager w = onRoom (cn_room c) (g \<circ> f) (ar_manager u)" by (simp add: g(2) f(2) onRoom_comp)
  with own_change_comp [OF f(1) g(1)] uv vw show ?thesis unfolding own_event_def by (metis (no_types, lifting))
qed

lemma own_event_disconnect: "own_event c ar (onDisconnect now c ar)"
proof -
  let ?ar = "ar\<lparr>ar_sockets := filter (\<lambda>k. cn_socketId k \<noteq> cn_socketId c) (ar_sockets ar), ar_guards := releaseGuard (cn_socketId c) (ar_guards ar)\<rparr>"
  have "own_event c ar ?ar"
    unfolding own_event_def by (intro conjI exI [of _ "\<lambda>r. r"]) (auto simp: onRoom_id releaseGuard_def)
  from own_event_trans [OF this own_event_held(2) [OF own_disconnect]] show ?thesis by (simp add: onDisconnect_def)
qed

lemma own_event_spending: "spending event now c ar = (ok, ar') \<Longrightarrow> own_event c ar ar'"
proof -
  assume "spending event now c ar = (ok, ar')"
  then obtain budgets where "ar' = ar\<lparr>ar_sockets := upd_rows (\<lambda>k. cn_socketId k = cn_socketId c) (\<lambda>k. k\<lparr>cn_events := budgets\<rparr>) (ar_sockets ar)\<rparr>"
    by (auto simp: spending_def split: prod.splits)
  then show ?thesis unfolding own_event_def
    by (intro conjI exI [of _ "\<lambda>r. r"]) (auto simp: onRoom_id upd_rows_def image_iff intro: bexI [rotated])
qed

lemma own_events:
  "own_event c ar (snd (onJoin sc v now c r ar))" "own_event c ar (onInput sc payload now c ar)" "own_event c ar (snd (onPing now c r ar))"
  "own_event c ar (snd (onRespawn sc now c r ar))" "own_event c ar (snd (onChat text now c r ar))" "own_event c ar (onLeave now c ar)"
proof -
  show "own_event c ar (snd (onJoin sc v now c r ar))" by (simp add: onJoin_def own_event_disconnect)
  have "\<exists>g0. snd (getGuard now burst sid gs) = gs(sid := g0)" for burst sid and gs :: "string \<Rightarrow> input_guard option"
    using fun_upd_triv [of gs sid, symmetric] by (fastforce simp: getGuard_def Let_def split: option.split)
  then have "own_event c ar (onHeld (cn_room c) (steer (ss_playerId (cn_session c)) accepted ban)
      (ar\<lparr>ar_guards := (snd (getGuard now burst (cn_socketId c) (ar_guards ar)))(cn_socketId c \<mapsto> g)\<rparr>))" for burst accepted ban g
    using own_event_held(1) [OF own_steer] by (metis fun_upd_upd)
  then show "own_event c ar (onInput sc payload now c ar)"
    by (simp add: onInput_def Let_def case_prod_beta split: option.split)
  show "own_event c ar (snd (onPing now c r ar))" using own_event_spending by (auto simp: onPing_def split: prod.split)
  show "own_event c ar (snd (onRespawn sc now c r ar))"
    using own_event_trans [OF own_event_spending own_event_held(2) [OF own_respawn]] own_event_spending
    by (auto simp: onRespawn_def split: prod.split bool.split)
  show "own_event c ar (snd (onChat text now c r ar))"
    using own_event_spending by (auto simp: onChat_def Let_def split: prod.split bool.split option.split)
  show "own_event c ar (onLeave now c ar)"
    unfolding onLeave_def by (rule own_event_trans [OF own_event_held(2) [OF own_remove] own_event_disconnect])
qed

lemma step_own_event:
  assumes "from_socket sid op" and "connectionOf sid ar = Some c"
  shows "own_event c ar (snd (arena_step sc collation op ar))"
  using assms by (cases op) (auto simp: byClient_def own_events own_event_disconnect split: option.split)

text \<open>C9: A socket acts for its own player only: in any state a node can reach, whatever a socket sends and however it ends, every
  other player of its room keeps seat, snake, queued inputs, elimination and score, every other room stays as it is,
  and so do the guards and budgets of the other sockets.\<close>

theorem clients_act_for_themselves:
  assumes "ar = run_arena sc collation ops new_arena" and "from_socket sid op" and "connectionOf sid ar = Some c"
    and "ar' = snd (arena_step sc collation op ar)"
  shows "(\<forall>h \<in> set (mg_rooms (ar_manager ar)). \<exists>h' \<in> set (mg_rooms (ar_manager ar')). ho_number h' = ho_number h \<and>
      (ho_number h \<noteq> cn_room c \<longrightarrow> h' = h) \<and> (\<forall>q. q \<noteq> ss_playerId (cn_session c) \<longrightarrow> same_for q (ho_room h) (ho_room h'))) \<and>
    (\<forall>k \<in> set (ar_sockets ar). cn_socketId k \<noteq> sid \<longrightarrow> k \<in> set (ar_sockets ar') \<and>
      ar_guards ar' (cn_socketId k) = ar_guards ar (cn_socketId k))"
proof -
  have sid: "cn_socketId c = sid" using assms(3) by (auto simp: connectionOf_def dest: find_SomeD)
  have own: "own_event c ar ar'" unfolding assms(4) by (rule step_own_event [OF assms(2,3)])
  then obtain f where f: "own_change (ss_playerId (cn_session c)) f" "ar_manager ar' = onRoom (cn_room c) f (ar_manager ar)"
    by (auto simp: own_event_def)
  have "\<exists>h' \<in> set (mg_rooms (ar_manager ar')). ho_number h' = ho_number h \<and> (ho_number h \<noteq> cn_room c \<longrightarrow> h' = h) \<and>
      (\<forall>q. q \<noteq> ss_playerId (cn_session c) \<longrightarrow> same_for q (ho_room h) (ho_room h'))" if h: "h \<in> set (mg_rooms (ar_manager ar))" for h
  proof -
    have "room_fits sc (granted ops) (ho_room h)" using arena_reached h by (simp add: arena_fits_def assms(1))
    then have "room_ok (ho_room h)" by (simp add: room_fits_def)
    with f(1) have "same_for q (ho_room h) (f (ho_room h))" if "q \<noteq> ss_playerId (cn_session c)" for q using that by (simp add: own_change_def)
    moreover have "(if ho_number h = cn_room c then h\<lparr>ho_room := f (ho_room h)\<rparr> else h) \<in> set (mg_rooms (ar_manager ar'))"
      using h by (force simp: f(2) onRoom_def upd_rows_def)
    ultimately show ?thesis by (cases "ho_number h = cn_room c") (auto intro: bexI [rotated])
  qed
  with own show ?thesis unfolding own_event_def sid by blast
qed


definition two_seated :: "arena_op list" where
  "two_seated = [Connects ''s1'' anns_session 12000, Connects ''s2'' (anns_session\<lparr>ss_playerId := ''bob''\<rparr>) 12500]"

lemma two_seated_rooms:
  "\<exists>h c. h \<in> set (mg_rooms (ar_manager (run_arena sample_sockets collation two_seated new_arena))) \<and> seatOf ''bob'' (ho_room h) \<noteq> None \<and>
     connectionOf ''s1'' (run_arena sample_sockets collation two_seated new_arena) = Some c \<and> cn_session c = anns_session"
  by (simp add: two_seated_def run_arena_def onConnection_def Let_def anns_session_simps ensureRoom_def roomNamed_def new_arena_def new_manager_def
      roomCount_def sample_sockets_def start_room_def new_room_def isFull_def playerCount_def addPlayer_def seatOf_def inWorld_def onRoom_def
      upd_rows_def connectionOf_def)

lemma clients_act_for_themselves_witness:
  "\<exists>h h'. h \<in> set (mg_rooms (ar_manager (run_arena sample_sockets (\<lambda>_. 0) two_seated new_arena))) \<and> seatOf ''bob'' (ho_room h) \<noteq> None \<and>
     h' \<in> set (mg_rooms (ar_manager (snd (arena_step sample_sockets (\<lambda>_. 0) (SendsLeave ''s1'' 13000) (run_arena sample_sockets (\<lambda>_. 0) two_seated new_arena))))) \<and>
     same_for ''bob'' (ho_room h) (ho_room h')"
proof -
  obtain h c where h: "h \<in> set (mg_rooms (ar_manager (run_arena sample_sockets (\<lambda>_. 0) two_seated new_arena)))" "seatOf ''bob'' (ho_room h) \<noteq> None"
     "connectionOf ''s1'' (run_arena sample_sockets (\<lambda>_. 0) two_seated new_arena) = Some c" "cn_session c = anns_session"
    using two_seated_rooms by blast
  have "''bob'' \<noteq> ss_playerId (cn_session c)" by (simp add: h(4) anns_session_simps)
  with clients_act_for_themselves [OF refl _ h(3) refl, of "SendsLeave ''s1'' 13000"] h show ?thesis by fastforce
qed

end
