(* ===== verification/Reconnection.thy ===== *)
theory Reconnection
  imports Connection_Safety
begin

text \<open>
  What becomes of a player whose connection drops: the seat and the snake wait for the grace period, and a new connection
  takes them over. And what goes wrong on the way back: the new socket's guard counts inputs from nothing.
\<close>

section \<open>The room of a name\<close>

lemma roomNamed_map:
  assumes "mg_rooms m' = map f (mg_rooms m)" and "\<And>h. rm_roomId (ho_room (f h)) = rm_roomId (ho_room h)"
  shows "roomNamed rid m' = map_option f (roomNamed rid m)"
proof -
  have "find (\<lambda>h. rm_roomId (ho_room h) = rid) (map f xs) = map_option f (find (\<lambda>h. rm_roomId (ho_room h) = rid) xs)" for xs
    by (induction xs) (simp_all add: assms(2))
  then show ?thesis by (simp add: roomNamed_def assms(1))
qed

lemma roomNamed_onRoom:
  assumes "\<And>r. rm_roomId (f r) = rm_roomId r"
  shows "roomNamed rid (onRoom n f m) = map_option (\<lambda>h. if ho_number h = n then h\<lparr>ho_room := f (ho_room h)\<rparr> else h) (roomNamed rid m)"
  by (rule roomNamed_map) (simp_all add: onRoom_def upd_rows_def assms)

lemma roomNamed_filter:
  assumes "roomNamed rid m = Some h" and "mg_rooms m' = filter P (mg_rooms m)" and "P h"
  shows "roomNamed rid m' = Some h"
proof -
  have "find Q xs = Some h \<Longrightarrow> find Q (filter P xs) = Some h" for Q xs
    using assms(3) by (induction xs) (auto split: if_split_asm)
  then show ?thesis using assms(1,2) by (simp add: roomNamed_def)
qed

section \<open>The seat of a player who is away\<close>

definition away :: "string \<Rightarrow> int \<Rightarrow> room \<Rightarrow> bool" where
  "away p since r \<longleftrightarrow> room_ok r \<and> (\<exists>s. seatOf p r = Some s \<and> seat_disconnectedAtMs s = Some since)"

definition waits :: "string \<Rightarrow> string \<Rightarrow> int \<Rightarrow> manager \<Rightarrow> bool" where
  "waits rid p since m \<longleftrightarrow> (\<exists>h. roomNamed rid m = Some h \<and> away p since (ho_room h))"

lemma waits_map:
  assumes "waits rid p since m" and "mg_rooms m' = map f (mg_rooms m)" and "\<And>h. rm_roomId (ho_room (f h)) = rm_roomId (ho_room h)"
    and "\<And>h. away p since (ho_room h) \<Longrightarrow> away p since (ho_room (f h))"
  shows "waits rid p since m'"
  using assms(1,4) roomNamed_map [OF assms(2,3)] by (auto simp: waits_def)

lemma away_same: "away p since r \<Longrightarrow> room_ok r' \<Longrightarrow> seatOf p r' = seatOf p r \<Longrightarrow> away p since r'"
  by (simp add: away_def)

lemma away_own: "own_change q f \<Longrightarrow> p \<noteq> q \<Longrightarrow> away p since r \<Longrightarrow> away p since (f r)"
  by (simp add: own_change_def same_for_def away_def)

lemma waits_own:
  assumes "own_change q f" and "p \<noteq> q" and "waits rid p since m"
  shows "waits rid p since (onRoom n f m)"
  by (rule waits_map [OF assms(3), where f = "\<lambda>h. if ho_number h = n then h\<lparr>ho_room := f (ho_room h)\<rparr> else h"])
    (use assms(1,2) in \<open>auto simp: onRoom_def upd_rows_def away_own own_change_def empties_def\<close>)

lemma away_add: "away p since r \<Longrightarrow> q \<noteq> p \<Longrightarrow> addPlayer q sid nick r = Inr r' \<Longrightarrow> away p since r'"
proof -
  assume a: "away p since r" and q: "q \<noteq> p" and r': "addPlayer q sid nick r = Inr r'"
  have ok: "room_ok r'" using room_add [OF _ r'] a by (simp add: away_def)
  show ?thesis
  proof (cases "seatOf q r")
    case None
    then have "rm_seats r' = rm_seats r @ [\<lparr>seat_playerId = q, seat_socketId = sid, seat_nickname = nick, seat_aoi = createAoiView,
                seat_disconnectedAtMs = None, seat_shadowbanned = False\<rparr>]"
      using r' by (auto simp: addPlayer_def inWorld_def split: if_splits)
    then have "seatOf p r' = seatOf p r" using q by (simp add: seatOf_def find_append_one split: option.split)
    with a ok show ?thesis by (rule away_same)
  next
    case (Some s)
    then have "r' = updSeat q (\<lambda>s. s\<lparr>seat_socketId := sid, seat_disconnectedAtMs := None, seat_aoi := createAoiView\<rparr>) r"
      using r' by (simp add: addPlayer_def split: if_splits)
    then have "seatOf p r' = seatOf p r" using seatOf_updSeat [of p q] q by simp
    with a ok show ?thesis by (rule away_same)
  qed
qed

subsection \<open>A tick within the grace period\<close>

lemma find_map_id: "(\<And>s. seat_playerId (f s) = seat_playerId s) \<Longrightarrow>
    find (\<lambda>s. seat_playerId s = p) (map f xs) = map_option f (find (\<lambda>s. seat_playerId s = p) xs)"
  by (induction xs) simp_all

lemma away_sees: "(\<exists>s. seatOf p r = Some s \<and> seat_disconnectedAtMs s = Some since) \<Longrightarrow>
    \<exists>s. seatOf p (snd (snapshotTurn nc r)) = Some s \<and> seat_disconnectedAtMs s = Some since"
proof -
  assume a: "\<exists>s. seatOf p r = Some s \<and> seat_disconnectedAtMs s = Some since"
  have keep: "seat_disconnectedAtMs (snd (sendSnapshot w removed s)) = seat_disconnectedAtMs s" for w removed s
    by (simp add: sendSnapshot_def buildSnapshot_def Let_def)
  show ?thesis
  proof (cases "nc_ticksPerSnapshot nc \<le> rm_ticksSinceSnapshot r + 1 \<and> rm_world r \<noteq> None")
    case True
    then obtain w where w: "rm_world r = Some w" by blast
    have "rm_seats (snd (snapshotTurn nc r)) = map (\<lambda>s. snd (sendSnapshot w (rm_recentlyRemoved r) s)) (rm_seats r)"
      using True w by (simp add: snapshotTurn_def broadcastSnapshots_def Let_def comp_def)
    then show ?thesis using a keep by (auto simp: seatOf_def find_map_id sendSnapshot_id)
  next
    case False
    then have "rm_seats (snd (snapshotTurn nc r)) = rm_seats r"
      by (auto simp: snapshotTurn_def broadcastSnapshots_def Let_def)
    then show ?thesis using a by (simp add: seatOf_def)
  qed
qed

lemma away_evictions:
  assumes "now < since + graceMs nc" and "\<forall>s \<in> set ss. seat_playerId s = p \<longrightarrow> seat_disconnectedAtMs s = Some since"
  shows "away p since r \<Longrightarrow> away p since (fold (evictSeat nc now) ss r)"
  using assms(2)
proof (induction ss arbitrary: r)
  case (Cons s ss)
  have "away p since (evictSeat nc now s r)"
  proof (cases "seat_playerId s = p")
    case True
    then show ?thesis using Cons.prems assms(1) by (simp add: evictSeat_def)
  next
    case False
    then show ?thesis using away_own [OF own_remove] Cons.prems(1) by (auto simp: evictSeat_def split: option.split)
  qed
  from Cons.IH [OF this] Cons.prems(2) show ?case by simp
qed simp

lemma away_tick:
  assumes a: "away p since r" and now: "now < since + graceMs nc"
  shows "away p since (snd (tick_room nc now r))"
proof (cases "rm_status r \<noteq> RoomActive \<and> rm_status r \<noteq> RoomDraining")
  case True
  with a show ?thesis by (simp add: tick_room_def)
next
  case False
  have ok: "room_ok r" using a by (simp add: away_def)
  obtain w where w: "rm_world r = Some w" "world_wf w" "0 \<le> ws_elapsedMs w"
    "\<forall>p. ws_playerIndex w p \<noteq> None \<longleftrightarrow> p \<in> seat_playerId ` set (rm_seats r)" by (rule room_ok_worldE [OF ok])
  obtain res w' where step: "step_world (rm_sim r) w = (res, w')" by fastforce
  have w': "world_wf w'" "0 \<le> ws_elapsedMs w'" "ws_playerIndex w' = ws_playerIndex w"
    using world_wf_step [OF w(2), of "rm_sim r"] step_frame [OF w(2), of "rm_sim r"] w(3) by (simp_all add: step)
  have deaths: "\<forall>d \<in> set (tr_deaths res). 0 \<le> de_finalScore d"
    using step_deaths [OF w(2), of "rm_sim r"] by (simp add: step fair_death_def)
  define x where "x = r\<lparr>rm_world := Some w'\<rparr>"
  have "room_ok x" by (rule room_ok_world [OF ok _ _ w(1) _ w'(1,2)]) (simp_all add: x_def same_books_def w'(3))
  define b where "b = fold recordDeath (tr_deaths res) x"
  have b: "room_ok b" "rm_seats b = rm_seats r"
    using recordDeaths_kept [OF deaths, of x] \<open>room_ok x\<close> by (simp_all add: b_def kept_def x_def)
  then have "away p since b" using a by (simp add: away_def seatOf_def)
  moreover have "\<forall>s \<in> set (rm_seats b). seat_playerId s = p \<longrightarrow> seat_disconnectedAtMs s = Some since"
  proof -
    obtain s where s: "s \<in> set (rm_seats r)" "seat_playerId s = p" "seat_disconnectedAtMs s = Some since"
      using a by (auto simp: away_def seatOf_def dest: find_SomeD)
    have "distinct (map seat_playerId (rm_seats r))" using ok by (simp add: room_ok_def)
    from distinct_key_eq [OF this _ s(1)] s(2,3) b(2) show ?thesis by auto
  qed
  ultimately have c: "away p since (evictExpiredDisconnects nc now b)"
    unfolding evictExpiredDisconnects_def using away_evictions [OF now] by blast
  define e where "e = snd (leaderboardTurn nc (snd (snapshotTurn nc (evictExpiredDisconnects nc now b))))"
  have tick: "snd (tick_room nc now r) = e"
    using False w(1) by (auto simp: tick_room_def step Let_def case_prod_beta e_def b_def x_def)
  have "rm_seats (snd (leaderboardTurn nc y)) = rm_seats y" for y
    by (simp add: leaderboardTurn_def broadcastLeaderboard_def Let_def split: option.split)
  moreover have "room_ok e" using room_tick [OF ok, of nc now] by (simp add: tick)
  ultimately show ?thesis using away_sees c unfolding tick by (simp add: away_def e_def seatOf_def)
qed

lemma seated_not_empty: "away p since r \<Longrightarrow> playerCount r \<noteq> 0"
  by (auto simp: away_def seatOf_def playerCount_def)

lemma tick_roomId: "rm_roomId (snd (tick_room nc now r)) = rm_roomId r"
  using empties_tick by (simp add: empties_def)

lemma waits_tick:
  assumes "waits rid p since m" and now: "now < since + graceMs nc"
  shows "waits rid p since (snd (runTick nc collation now m))"
proof -
  have one: "waits rid p since (snd (tickRooms nc now m))" if "waits rid p since m" for m
    by (rule waits_map [OF that, where f = "\<lambda>h. h\<lparr>ho_room := snd (tick_room nc now (ho_room h))\<rparr>"])
      (simp_all add: tickRooms_def Let_def case_prod_beta comp_def tick_roomId away_tick [OF _ now])
  have many: "waits rid p since m \<Longrightarrow> waits rid p since (snd (tickTimes nc now n m))" for n m
    by (induction n arbitrary: m) (simp_all add: Let_def case_prod_beta one)
  have "waits rid p since (m\<lparr>mg_nextTickAt := t\<rparr>)" for t using assms(1) by (simp add: waits_def roomNamed_def)
  with many assms(1) have t: "waits rid p since (ticked nc now m)" by (simp add: ticked_def)
  let ?f = "\<lambda>h. fst (snd (reportRoom nc collation now h))"
  have seats: "rm_seats (ho_room (?f h)) = rm_seats (ho_room h) \<and> rm_roomId (ho_room (?f h)) = rm_roomId (ho_room h) \<and>
      (room_ok (ho_room h) \<longrightarrow> room_ok (ho_room (?f h)))" for h
    by (auto simp: reportRoom_def Let_def room_ok_marks split: option.split) (auto simp: drain_room_def markAnnounced_def markReported_def)
  let ?r = "snd (reportFinishedMatches nc collation now (ticked nc now m))"
  have "waits rid p since ?r"
    by (rule waits_map [OF t, where f = ?f]) (use seats in \<open>simp_all add: reportFinishedMatches_def Let_def case_prod_beta comp_def away_def seatOf_def\<close>)
  then obtain h where h: "roomNamed rid ?r = Some h" "away p since (ho_room h)" by (auto simp: waits_def)
  have "roomNamed rid (reapEmptyRooms ?r) = Some h"
    by (rule roomNamed_filter [OF h(1), where P = "\<lambda>h. \<not> (playerCount (ho_room h) = 0 \<and> rm_status (ho_room h) = RoomDraining)"]) (use seated_not_empty [OF h(2)] in \<open>simp_all add: reapEmptyRooms_def\<close>)
  with h(2) show ?thesis by (auto simp: waits_def snd_runTick)
qed


section \<open>What others do meanwhile\<close>

text \<open>The player opens no connection of their own, and the loop has not reached the end of the grace period.\<close>

fun meanwhile_ok :: "string \<Rightarrow> int \<Rightarrow> arena_op \<Rightarrow> bool" where
  "meanwhile_ok p until (Connects sid s t) = (ss_playerId s \<noteq> p)"
| "meanwhile_ok p until (LoopTicks now) = (now < until)"
| "meanwhile_ok p until Closes = False"
| "meanwhile_ok p until _ = True"

definition no_socket :: "string \<Rightarrow> arena \<Rightarrow> bool" where
  "no_socket p ar \<longleftrightarrow> (\<forall>k \<in> set (ar_sockets ar). ss_playerId (cn_session k) \<noteq> p)"

text \<open>Finding or creating a room leaves the rooms as they are, but for the game of one.\<close>

lemma roomNamed_const:
  assumes "numbers_ok m" and "k \<in> set (mg_rooms m)" and "rm_roomId r' = rm_roomId (ho_room k)"
  shows "roomNamed rid (onRoom (ho_number k) (\<lambda>_. r') m) = map_option (\<lambda>x. if x = k then x\<lparr>ho_room := r'\<rparr> else x) (roomNamed rid m)"
proof (rule roomNamed_map)
  have "x = k" if "x \<in> set (mg_rooms m)" "ho_number x = ho_number k" for x
    using distinct_key_eq [of ho_number "mg_rooms m"] assms(1,2) that by (simp add: numbers_ok_def)
  then show "mg_rooms (onRoom (ho_number k) (\<lambda>_. r') m) = map (\<lambda>x. if x = k then x\<lparr>ho_room := r'\<rparr> else x) (mg_rooms m)"
    by (auto simp: onRoom_def upd_rows_def)
qed (simp add: assms(3))

lemma waits_const:
  assumes "numbers_ok m" and "k \<in> set (mg_rooms m)" and "rm_roomId r' = rm_roomId (ho_room k)"
    and "away p since (ho_room k) \<Longrightarrow> away p since r'" and "waits rid p since m"
  shows "waits rid p since (onRoom (ho_number k) (\<lambda>_. r') m)"
proof -
  obtain h where h: "roomNamed rid m = Some h" "away p since (ho_room h)" using assms(5) by (auto simp: waits_def)
  have "roomNamed rid (onRoom (ho_number k) (\<lambda>_. r') m) = Some (if h = k then h\<lparr>ho_room := r'\<rparr> else h)"
    using roomNamed_const [OF assms(1-3), of rid] h(1) by simp
  then show ?thesis using assms(4) h(2) by (cases "h = k") (simp_all add: waits_def)
qed

lemma ensure_waits:
  assumes w: "waits rid p since m0" and n: "numbers_ok m0" and e: "ensureRoom nc name mode region g m0 = Inr (h, m)"
  shows "waits rid p since m \<and> numbers_ok m \<and> roomNamed name m = Some h"
proof (cases "roomNamed name m0")
  case None
  then have m: "mg_rooms m = mg_rooms m0 @ [h]" "rm_roomId (ho_room h) = name" "ho_number h = mg_created m0" "mg_created m = mg_created m0 + 1"
    using e by (auto simp: ensureRoom_def Let_def start_room_def new_room_def split: if_splits)
  have "find P (xs @ [h]) = (case find P xs of None \<Rightarrow> if P h then Some h else None | Some y \<Rightarrow> Some y)" for P and xs :: "hosted list"
    by (induction xs) simp_all
  moreover have "numbers_ok m" using n by (auto simp: numbers_ok_def m)
  ultimately show ?thesis using w None m by (auto simp: waits_def roomNamed_def)
next
  case (Some k)
  let ?r = "if rm_gameId (ho_room k) = None \<and> g \<noteq> None then (ho_room k)\<lparr>rm_gameId := g\<rparr> else ho_room k"
  have h: "h = k\<lparr>ho_room := ?r\<rparr>" "m = onRoom (ho_number k) (\<lambda>_. ?r) m0" using Some e by (auto simp: ensureRoom_def Let_def)
  have k: "k \<in> set (mg_rooms m0)" using Some by (auto simp: roomNamed_def dest: find_SomeD)
  have "waits rid p since m"
    unfolding h(2) by (rule waits_const [OF n k _ _ w]) (auto simp: away_def seatOf_def room_ok_marks)
  moreover have "roomNamed name m = Some h"
    using roomNamed_const [OF n k, of ?r name] Some by (simp add: h)
  ultimately show ?thesis using n by (simp add: h(2))
qed

lemma waits_connect:
  assumes w: "waits rid p since (ar_manager ar)" and q: "ss_playerId s \<noteq> p" and n: "numbers_ok (ar_manager ar)"
  shows "waits rid p since (ar_manager (snd (onConnection sc sid s now ar)))"
proof (cases "ss_playerId s = '''' \<or> ss_roomId s = '''' \<or>
    (\<exists>e. ensureRoom (sk_node sc) (ss_roomId s) ''casual'' ''us-east'' (ss_gameId s) (ar_manager ar) = Inl e)")
  case True
  then show ?thesis using w by (auto simp: onConnection_def Let_def refuse_def)
next
  case False
  then obtain h m where e: "ensureRoom (sk_node sc) (ss_roomId s) ''casual'' ''us-east'' (ss_gameId s) (ar_manager ar) = Inr (h, m)"
    by (metis sum.exhaust surj_pair)
  note m = ensure_waits [OF w n e]
  have h: "h \<in> set (mg_rooms m)" using m by (auto simp: roomNamed_def dest: find_SomeD)
  have "waits rid p since (onRoom (ho_number h) (\<lambda>_. r') m)" if a: "addPlayer (ss_playerId s) sid (ss_nickname s) (ho_room h) = Inr r'" for r'
  proof (rule waits_const [OF _ h])
    show "rm_roomId r' = rm_roomId (ho_room h)" using a by (auto simp: addPlayer_def updSeat_def inWorld_def split: if_splits option.splits)
  qed (use m away_add [OF _ q a] in simp_all)
  with False e m show ?thesis by (auto simp: onConnection_def Let_def refuse_def split: sum.split)
qed


text \<open>New sockets come from connecting only.\<close>

lemma spending_sessions: "spending event now c ar = (ok, ar') \<Longrightarrow> cn_session ` set (ar_sockets ar') = cn_session ` set (ar_sockets ar)"
proof -
  assume "spending event now c ar = (ok, ar')"
  then obtain budgets where "ar_sockets ar' = upd_rows (\<lambda>k. cn_socketId k = cn_socketId c) (\<lambda>k. k\<lparr>cn_events := budgets\<rparr>) (ar_sockets ar)"
    by (auto simp: spending_def split: prod.splits)
  then have "map cn_session (ar_sockets ar') = map cn_session (ar_sockets ar)" by (simp add: map_key_upd_rows)
  then show ?thesis by (metis list.set_map)
qed

lemma onHeld_sockets [simp]: "ar_sockets (onHeld n f ar) = ar_sockets ar"
  by (simp add: onHeld_def)

lemma disconnect_sessions: "cn_session ` set (ar_sockets (onDisconnect now c ar)) \<subseteq> cn_session ` set (ar_sockets ar)"
  by (auto simp: onDisconnect_def)

lemma handler_sessions:
  "cn_session ` set (ar_sockets (snd (onJoin sc v now c r ar))) \<subseteq> cn_session ` set (ar_sockets ar)"
  "cn_session ` set (ar_sockets (onInput sc payload now c ar)) \<subseteq> cn_session ` set (ar_sockets ar)"
  "cn_session ` set (ar_sockets (snd (onPing now c r ar))) \<subseteq> cn_session ` set (ar_sockets ar)"
  "cn_session ` set (ar_sockets (snd (onRespawn sc now c r ar))) \<subseteq> cn_session ` set (ar_sockets ar)"
  "cn_session ` set (ar_sockets (snd (onChat text now c r ar))) \<subseteq> cn_session ` set (ar_sockets ar)"
  "cn_session ` set (ar_sockets (onLeave now c ar)) \<subseteq> cn_session ` set (ar_sockets ar)"
proof -
  show "cn_session ` set (ar_sockets (snd (onJoin sc v now c r ar))) \<subseteq> cn_session ` set (ar_sockets ar)"
    by (simp add: onJoin_def disconnect_sessions)
  show "cn_session ` set (ar_sockets (onInput sc payload now c ar)) \<subseteq> cn_session ` set (ar_sockets ar)"
    by (simp add: onInput_def Let_def case_prod_beta split: option.split)
  show "cn_session ` set (ar_sockets (snd (onPing now c r ar))) \<subseteq> cn_session ` set (ar_sockets ar)"
    by (simp add: onPing_def spending_sessions split: prod.split)
  show "cn_session ` set (ar_sockets (snd (onRespawn sc now c r ar))) \<subseteq> cn_session ` set (ar_sockets ar)"
    by (simp add: onRespawn_def spending_sessions split: prod.split bool.split)
  show "cn_session ` set (ar_sockets (snd (onChat text now c r ar))) \<subseteq> cn_session ` set (ar_sockets ar)"
    by (simp add: onChat_def Let_def spending_sessions split: prod.split bool.split option.split)
  show "cn_session ` set (ar_sockets (onLeave now c ar)) \<subseteq> cn_session ` set (ar_sockets ar)"
    unfolding onLeave_def using disconnect_sessions [of now c "onHeld (cn_room c) (removePlayer (ss_playerId (cn_session c))) ar"] by simp
qed

lemma byClient_sessions:
  "(\<And>c r. cn_session ` set (ar_sockets (snd (f c r ar))) \<subseteq> cn_session ` set (ar_sockets ar)) \<Longrightarrow>
    cn_session ` set (ar_sockets (snd (byClient sid f ar))) \<subseteq> cn_session ` set (ar_sockets ar)"
  by (simp add: byClient_def split: option.split)

lemma step_sessions:
  "cn_session ` set (ar_sockets (snd (arena_step sc collation op ar))) \<subseteq>
    cn_session ` set (ar_sockets ar) \<union> (case op of Connects sid s t \<Rightarrow> {s} | _ \<Rightarrow> {})"
proof (cases op)
  case (Connects sid s t)
  then show ?thesis by (auto simp: onConnection_def Let_def refuse_def split: sum.split)
qed (use byClient_sessions handler_sessions disconnect_sessions in
    \<open>simp_all add: decayAll_def arenaTick_def Let_def case_prod_beta drainNode_def closeArena_def\<close>)

lemma waits_step:
  assumes w: "waits rid p since (ar_manager ar)" and n: "numbers_ok (ar_manager ar)" and quiet: "no_socket p ar"
    and op: "meanwhile_ok p (since + graceMs (sk_node sc)) op"
  shows "waits rid p since (ar_manager (snd (arena_step sc collation op ar)))" and "no_socket p (snd (arena_step sc collation op ar))"
proof -
  have client: "waits rid p since (ar_manager (snd (arena_step sc collation op ar)))" if "from_socket sid op" for sid
  proof (cases "connectionOf sid ar")
    case (Some c)
    then have "p \<noteq> ss_playerId (cn_session c)" using quiet by (auto simp: no_socket_def connectionOf_def dest: find_SomeD)
    with step_own_event [OF that Some, of sc collation] waits_own w show ?thesis by (auto simp: own_event_def)
  next
    case None
    with that w show ?thesis by (cases op) (auto simp: byClient_def)
  qed
  show "waits rid p since (ar_manager (snd (arena_step sc collation op ar)))"
  proof (cases op)
    case (Connects sid s t)
    with waits_connect [OF w _ n] op show ?thesis by simp
  next
    case (LoopTicks now)
    with waits_tick [OF w] op show ?thesis by (simp add: arenaTick_def Let_def case_prod_beta)
  next
    case (WriteEnds i out)
    have base: "waits rid p since (ar_manager ar\<lparr>mg_pending := x\<rparr>)" "waits rid p since (ar_manager ar\<lparr>mg_pending := x, mg_redis := y\<rparr>)" for x y
      using w by (simp_all add: waits_def roomNamed_def)
    have "waits rid p since (onRoom k unmarkReported m)" if "waits rid p since m" for k m
      by (rule waits_map [OF that, where f = "\<lambda>h. if ho_number h = k then h\<lparr>ho_room := unmarkReported (ho_room h)\<rparr> else h"])
        (auto simp: onRoom_def upd_rows_def away_def room_ok_marks, auto simp: unmarkReported_def seatOf_def)
    with base w show ?thesis by (simp add: WriteEnds publicationDone_def Let_def split: outcome.split)
  next
    case Drains
    have "waits rid p since (drainRooms (ar_manager ar))"
      by (rule waits_map [OF w, where f = "\<lambda>h. h\<lparr>ho_room := drain_room (ho_room h)\<rparr>"])
        (auto simp: drainRooms_def away_def room_ok_marks, auto simp: drain_room_def seatOf_def)
    then show ?thesis by (simp add: Drains drainNode_def)
  next
    case (Decays t)
    with w show ?thesis by (simp add: decayAll_def)
  qed (use op client in \<open>auto intro: client\<close>)
  have "ss_playerId (cn_session k) \<noteq> p" if "k \<in> set (ar_sockets (snd (arena_step sc collation op ar)))" for k
  proof -
    have "cn_session k \<in> cn_session ` set (ar_sockets ar) \<union> (case op of Connects sid s t \<Rightarrow> {s} | _ \<Rightarrow> {})"
      using step_sessions [of sc collation op ar] that by blast
    then show ?thesis using quiet op by (auto simp: no_socket_def split: arena_op.splits)
  qed
  then show "no_socket p (snd (arena_step sc collation op ar))" by (simp add: no_socket_def)
qed

lemma waits_run:
  assumes "arena_fits sc entitled ar" and "waits rid p since (ar_manager ar)" and "no_socket p ar"
    and "list_all (meanwhile_ok p (since + graceMs (sk_node sc))) ops"
  shows "waits rid p since (ar_manager (run_arena sc collation ops ar))"
  using assms
proof (induction ops arbitrary: entitled ar)
  case (Cons op ops)
  have n: "numbers_ok (ar_manager ar)" using Cons.prems(1) by (simp add: arena_fits_def)
  have op: "meanwhile_ok p (since + graceMs (sk_node sc)) op" using Cons.prems(4) by simp
  have "arena_fits sc (\<lambda>_ _. True) (snd (arena_step sc collation op ar))"
  proof -
    have t: "arena_fits sc (\<lambda>_ _. True) ar" using fits_mono [OF Cons.prems(1)] by simp
    show ?thesis
    proof (cases "\<exists>sid s t. op = Connects sid s t")
      case True
      then show ?thesis using connect_fits [OF t] by auto
    next
      case False
      then have "op \<noteq> Connects sid s t" for sid s t by blast
      from fits_rooms_empty [OF t step_empties [OF this]] show ?thesis .
    qed
  qed
  from Cons.IH [OF this waits_step [OF Cons.prems(2) n Cons.prems(3) op]] Cons.prems(4) show ?case by (simp add: run_arena_def)
qed (simp add: run_arena_def)


section \<open>Dropping and coming back\<close>

lemma seatOf_updSeat_own:
  assumes "\<And>s. seat_playerId (f s) = seat_playerId s"
  shows "seatOf p (updSeat p f r) = map_option f (seatOf p r)"
proof -
  have "find (\<lambda>s. seat_playerId s = p) (upd_rows (\<lambda>s. seat_playerId s = p) f xs) = map_option f (find (\<lambda>s. seat_playerId s = p) xs)" for xs
    by (induction xs) (simp_all add: assms)
  then show ?thesis by (simp add: seatOf_def updSeat_def)
qed

lemma disconnect_waits:
  assumes fits: "arena_fits sc entitled ar" and c: "connectionOf sid ar = Some c" and p: "p = ss_playerId (cn_session c)"
    and h: "roomNamed rid (ar_manager ar) = Some h" "ho_number h = cn_room c" "hasPlayer p (ho_room h)"
  shows "snd (arena_step sc collation (Disconnects sid t0) ar) = onDisconnect t0 c ar"
    and "waits rid p t0 (ar_manager (onDisconnect t0 c ar))"
proof -
  have "h \<in> set (mg_rooms (ar_manager ar))" using h(1) by (auto simp: roomNamed_def dest: find_SomeD)
  moreover from this have "room_ok (ho_room h)" using fits by (simp add: arena_fits_def room_fits_def)
  moreover have "heldRoom (cn_room c) ar \<noteq> None"
    using calculation(1) h(2) by (auto simp: heldRoom_def find_None_iff)
  ultimately show "snd (arena_step sc collation (Disconnects sid t0) ar) = onDisconnect t0 c ar"
    using c by (auto simp: byClient_def)
  have "roomNamed rid (ar_manager (onDisconnect t0 c ar)) = Some (h\<lparr>ho_room := markDisconnected p t0 (ho_room h)\<rparr>)"
    using roomNamed_onRoom [of "markDisconnected p t0" rid "cn_room c" "ar_manager ar"] h(1,2) p
    by (simp add: onDisconnect_def onHeld_def markDisconnected_def updSeat_def)
  moreover have "away p t0 (markDisconnected p t0 (ho_room h))"
    using room_ok_clients(1) [OF \<open>room_ok (ho_room h)\<close>] h(3)
    by (auto simp: away_def markDisconnected_def seatOf_updSeat_own hasPlayer_def)
  ultimately show "waits rid p t0 (ar_manager (onDisconnect t0 c ar))" by (simp add: waits_def)
qed

text \<open>Coming back to a room that is still played.\<close>

lemma return_seated:
  assumes n: "numbers_ok (ar_manager ar)" and h: "roomNamed rid (ar_manager ar) = Some h" and a: "away p since (ho_room h)"
    and st: "rm_status (ho_room h) \<noteq> RoomDraining" "rm_status (ho_room h) \<noteq> RoomClosed"
    and s: "ss_playerId s = p" "ss_roomId s = rid" "p \<noteq> ''''" "rid \<noteq> ''''"
  shows "\<exists>w h' seat. fst (onConnection sc sid s now ar) = [JoinedTo sid w] \<and> roomNamed rid (ar_manager (snd (onConnection sc sid s now ar))) = Some h' \<and>
    seatOf p (ho_room h') = Some seat \<and> seat_socketId seat = sid \<and> seat_disconnectedAtMs seat = None \<and> snakeOf p (ho_room h') = snakeOf p (ho_room h)"
proof -
  define r where "r = (if rm_gameId (ho_room h) = None \<and> ss_gameId s \<noteq> None then (ho_room h)\<lparr>rm_gameId := ss_gameId s\<rparr> else ho_room h)"
  let ?h = "h\<lparr>ho_room := r\<rparr>"
  let ?m = "onRoom (ho_number h) (\<lambda>_. r) (ar_manager ar)"
  have e: "ensureRoom (sk_node sc) rid ''casual'' ''us-east'' (ss_gameId s) (ar_manager ar) = Inr (?h, ?m)"
    using h by (simp add: ensureRoom_def Let_def r_def)
  have hin: "h \<in> set (mg_rooms (ar_manager ar))" using h by (auto simp: roomNamed_def dest: find_SomeD)
  have rid: "rm_roomId r = rm_roomId (ho_room h)" by (simp add: r_def)
  have m: "roomNamed rid ?m = Some ?h" using roomNamed_const [OF n hin rid, of rid] h by simp
  have hm: "?h \<in> set (mg_rooms ?m)" using m by (auto simp: roomNamed_def dest: find_SomeD)
  obtain seat where seat: "seatOf p (ho_room h) = Some seat" using a by (auto simp: away_def)
  have r: "seatOf p r = Some seat" "snakeOf p r = snakeOf p (ho_room h)" "rm_status r = rm_status (ho_room h)" "rm_roomId r = rid"
    using seat h by (auto simp: r_def seatOf_def snakeOf_def roomNamed_def dest: find_SomeD)
  obtain w where "rm_world (ho_room h) = Some w" using room_ok_worldE a by (metis away_def)
  then have w: "rm_world r \<noteq> None" by (simp add: r_def)
  let ?f = "\<lambda>s. s\<lparr>seat_socketId := sid, seat_disconnectedAtMs := None, seat_aoi := createAoiView\<rparr>"
  have add: "addPlayer p sid (ss_nickname s) r = Inr (updSeat p ?f r)" using r(1) w by (simp add: addPlayer_def)
  let ?n = "onRoom (ho_number h) (\<lambda>_. updSeat p ?f r) ?m"
  have "numbers_ok ?m" using n by simp
  from roomNamed_const [OF this hm, of "updSeat p ?f r" rid] m
  have "roomNamed rid ?n = Some (?h\<lparr>ho_room := updSeat p ?f r\<rparr>)" by (simp add: updSeat_def)
  moreover have "seatOf p (updSeat p ?f r) = Some (?f seat)" by (simp add: seatOf_updSeat_own r(1))
  moreover have "snakeOf p (updSeat p ?f r) = snakeOf p (ho_room h)" using r(2) by (simp add: snakeOf_def updSeat_def)
  moreover have "onConnection sc sid s now ar = ([JoinedTo sid (welcomeTo sc s (updSeat p ?f r))],
      ar\<lparr>ar_guards := snd (getGuard now (sk_maxInputsPerSecond sc) sid (ar_guards ar)), ar_manager := ?n,
         ar_sockets := ar_sockets ar @ [\<lparr>cn_socketId = sid, cn_session = s, cn_room = ho_number h, cn_events = \<lambda>_. None\<rparr>]\<rparr>)"
    using s st r(1,3) e add by (simp add: onConnection_def Let_def hasPlayer_def del: if_split)
  ultimately show ?thesis by simp
qed

text \<open>C10: A dropped connection does not cost the run: in any state a node can reach, if the only socket of a seated player
  ends, then whatever the other sockets do and however the loop runs, until the grace period is over the seat and the
  snake are kept; and if the match is still on, the player's next connection is seated again, with the snake as it is.\<close>

theorem dropped_player_keeps_seat:
  assumes "ar = run_arena sc collation before new_arena" and "connectionOf sid ar = Some c" and "p = ss_playerId (cn_session c)"
    and "\<forall>k \<in> set (ar_sockets ar). ss_playerId (cn_session k) = p \<longrightarrow> cn_socketId k = sid"
    and "roomNamed rid (ar_manager ar) = Some h" and "ho_number h = cn_room c" and "hasPlayer p (ho_room h)"
    and "list_all (meanwhile_ok p (t0 + graceMs (sk_node sc))) mid"
    and "later = run_arena sc collation (Disconnects sid t0 # mid) ar"
  shows "\<exists>h2. roomNamed rid (ar_manager later) = Some h2 \<and> hasPlayer p (ho_room h2) \<and> snakeOf p (ho_room h2) \<noteq> None \<and>
    (rm_status (ho_room h2) \<noteq> RoomDraining \<and> rm_status (ho_room h2) \<noteq> RoomClosed \<and> p \<noteq> '''' \<and> rid \<noteq> '''' \<longrightarrow>
      (\<forall>s sid' t. ss_playerId s = p \<and> ss_roomId s = rid \<longrightarrow>
        (\<exists>w h' seat. fst (onConnection sc sid' s t later) = [JoinedTo sid' w] \<and>
          roomNamed rid (ar_manager (snd (onConnection sc sid' s t later))) = Some h' \<and> seatOf p (ho_room h') = Some seat \<and>
          seat_socketId seat = sid' \<and> seat_disconnectedAtMs seat = None \<and> snakeOf p (ho_room h') = snakeOf p (ho_room h2))))"
proof -
  have fits: "arena_fits sc (granted before) ar" unfolding assms(1) by (rule arena_reached)
  note d = disconnect_waits [OF fits assms(2,3,5,6,7)]
  let ?ar = "onDisconnect t0 c ar"
  have later: "later = run_arena sc collation mid ?ar" by (simp only: assms(9) run_arena_def fold_simps d(1))
  have fits1: "arena_fits sc (granted before) ?ar" by (rule fits_rooms_empty [OF fits rooms_empty_disconnect])
  have sid: "cn_socketId c = sid" using assms(2) by (auto simp: connectionOf_def dest: find_SomeD)
  have "no_socket p ?ar" using assms(4) sid by (auto simp: no_socket_def onDisconnect_def)
  from waits_run [OF fits1 d(2) this assms(8), of collation] obtain h2 where
    h2: "roomNamed rid (ar_manager later) = Some h2" "away p t0 (ho_room h2)" by (auto simp: waits_def later)
  have seat: "hasPlayer p (ho_room h2)" using h2(2) by (auto simp: away_def hasPlayer_def)
  then have "p \<in> seat_playerId ` set (rm_seats (ho_room h2))" by (auto simp: hasPlayer_def seatOf_def dest: find_SomeD)
  then have snake: "snakeOf p (ho_room h2) \<noteq> None" using h2(2) snakeOf_iff by (simp add: away_def)
  have "arena_fits sc (granted (before @ Disconnects sid t0 # mid)) later"
    using run_fits [OF fits, of "Disconnects sid t0 # mid" collation] by (simp add: assms(9))
  then have n: "numbers_ok (ar_manager later)" by (simp add: arena_fits_def)
  from return_seated [OF n h2] h2(1) seat snake show ?thesis by blast
qed


lemma two_seated_facts:
  "\<exists>h c. roomNamed ''game7'' (ar_manager (run_arena sample_sockets collation two_seated new_arena)) = Some h \<and> hasPlayer ''ann'' (ho_room h) \<and>
     connectionOf ''s1'' (run_arena sample_sockets collation two_seated new_arena) = Some c \<and> ho_number h = cn_room c \<and> cn_session c = anns_session"
  "\<forall>k \<in> set (ar_sockets (run_arena sample_sockets collation two_seated new_arena)). ss_playerId (cn_session k) = ''ann'' \<longrightarrow> cn_socketId k = ''s1''"
  by (simp_all add: two_seated_def run_arena_def onConnection_def Let_def anns_session_simps ensureRoom_def roomNamed_def new_arena_def new_manager_def
      roomCount_def sample_sockets_def start_room_def new_room_def isFull_def playerCount_def addPlayer_def seatOf_def inWorld_def onRoom_def
      upd_rows_def connectionOf_def hasPlayer_def)

lemma dropped_player_keeps_seat_witness:
  "\<exists>h. roomNamed ''game7'' (ar_manager (run_arena sample_sockets (\<lambda>_. 0) [Disconnects ''s1'' 13000, SendsLeave ''s2'' 14000, LoopTicks 20000]
      (run_arena sample_sockets (\<lambda>_. 0) two_seated new_arena))) = Some h \<and> hasPlayer ''ann'' (ho_room h) \<and> snakeOf ''ann'' (ho_room h) \<noteq> None"
proof -
  obtain h c where h: "roomNamed ''game7'' (ar_manager (run_arena sample_sockets (\<lambda>_. 0) two_seated new_arena)) = Some h" "hasPlayer ''ann'' (ho_room h)"
     "connectionOf ''s1'' (run_arena sample_sockets (\<lambda>_. 0) two_seated new_arena) = Some c" "ho_number h = cn_room c" "cn_session c = anns_session"
    using two_seated_facts(1) by blast
  have p: "''ann'' = ss_playerId (cn_session c)" by (simp add: h(5) anns_session_simps)
  have "list_all (meanwhile_ok ''ann'' (13000 + graceMs (sk_node sample_sockets))) [SendsLeave ''s2'' 14000, LoopTicks 20000]"
    by (simp add: graceMs_def sample_sockets_def)
  from dropped_player_keeps_seat [OF refl h(3) p two_seated_facts(2) h(1,4,2) this refl] show ?thesis by blast
qed

section \<open>What goes wrong on the way back\<close>

text \<open>The finding: the page keeps counting its inputs across reconnects, but the guard of the new socket starts at nothing, so from the
  six hundredth input on - half a minute at the rate the page sends - every input of the player who is back is refused, and each counts as suspicious
  until the player is shadow-banned.\<close>

definition numbered_on :: "client_input \<Rightarrow> bool" where
  "numbered_on cmd \<longleftrightarrow> (\<exists>n :: int. 600 < n \<and> ci_seq cmd = Num (real_of_int n))"

lemma numbered_on_refused:
  assumes "ig_lastSeq s = 0" and "numbered_on cmd"
  shows "\<exists>s' why. validateCommand opts cmd (s, out) = record_rejection cmd why (s', out) \<and> ig_lastSeq s' = 0 \<and> ig_suspicion s' = ig_suspicion s \<and>
    why \<in> {RateLimited, SequenceJump}"
proof -
  obtain n :: int where n: "600 < n" "ci_seq cmd = Num (real_of_int n)" using assms(2) by (auto simp: numbered_on_def)
  obtain ok s' where b: "consumeInputBudget (bo_ratePerSecond opts) (bo_burst opts) (bo_now opts) s = (ok, s')" by fastforce
  then have "ig_lastSeq s' = ig_lastSeq s" "ig_suspicion s' = ig_suspicion s"
    by (auto simp: consumeInputBudget_def Let_def split: if_splits)
  moreover have "isSequenceValid 0 (Num (real_of_int n)) = Some SequenceJump" using n(1) by (simp add: isSequenceValid_def is_integer_def)
  ultimately show ?thesis using assms(1) n(2) b by (cases ok) (auto simp: validateCommand_def)
qed

lemma resumed_client_is_banned:
  assumes "\<forall>cmd \<in> set commands. numbered_on cmd" and "ig_lastSeq s = 0"
  shows "ob_accepted (snd (validateInputBatch opts commands s)) = [] \<and>
    ig_suspicion s + int (length commands) \<le> ig_suspicion (fst (validateInputBatch opts commands s))"
proof -
  have "ig_lastSeq s = 0 \<Longrightarrow> \<forall>cmd \<in> set commands. numbered_on cmd \<Longrightarrow>
      ob_accepted (snd (fold (validateCommand opts) commands (s, out))) = ob_accepted out \<and>
      ig_suspicion s + int (length commands) \<le> ig_suspicion (fst (fold (validateCommand opts) commands (s, out)))" for s out
  proof (induction commands arbitrary: s out)
    case (Cons cmd rest)
    obtain s' why where v: "validateCommand opts cmd (s, out) = record_rejection cmd why (s', out)" "ig_lastSeq s' = 0" "ig_suspicion s' = ig_suspicion s"
        "why \<in> {RateLimited, SequenceJump}"
      using numbered_on_refused [of s cmd opts out] Cons.prems by auto
    obtain t out' where t: "record_rejection cmd why (s', out) = (t, out')" by fastforce
    then have "ig_lastSeq t = 0" "ig_suspicion s + 1 \<le> ig_suspicion t" "ob_accepted out' = ob_accepted out"
      using v(2-4) by (auto simp: record_rejection_def)
    with Cons.IH [of t out'] Cons.prems(2) show ?case by (simp add: v(1) t)
  qed simp
  from this [of s] assms show ?thesis by (simp add: validateInputBatch_def)
qed

text \<open>Another: only the cap on rooms is checked, so a node that is draining opens a new room for a ticket that is still out, and
  closes it under its player at the end.\<close>

lemma draining_node_opens_rooms:
  "\<exists>w h. fst (arena_step sample_sockets collation (Connects ''s1'' anns_session 12000) (run_arena sample_sockets collation [Drains] new_arena)) = [JoinedTo ''s1'' w] \<and>
     roomNamed ''game7'' (ar_manager (run_arena sample_sockets collation [Drains, Connects ''s1'' anns_session 12000] new_arena)) = Some h \<and>
     rm_status (ho_room h) = RoomActive"
  by (simp add: run_arena_def onConnection_def Let_def anns_session_simps ensureRoom_def roomNamed_def new_arena_def new_manager_def drainNode_def drainRooms_def
      roomCount_def sample_sockets_def start_room_def new_room_def isFull_def playerCount_def addPlayer_def seatOf_def inWorld_def onRoom_def
      upd_rows_def)

end
