(* ===== verification/Node_Registry.thy ===== *)
theory Node_Registry
  imports Connection
begin

text \<open>
  How a node tells the matchmaker of itself (\<open>apps/realtime/src/cluster/node-registry.ts\<close>, \<open>drain.ts\<close>): the payload it
  publishes under a key that expires, the index of nodes, draining and deregistering; and what the matchmaker's
  \<open>loadNodes\<close> and \<open>filterHealthy\<close> make of it.
\<close>

section \<open>What a node publishes\<close>

record registry_config =
  rg_nodeId :: string
  rg_advertiseUrl :: string
  rg_region :: string
  rg_ttlSeconds :: int
  rg_node :: node_config

definition registryPayload :: "registry_config \<Rightarrow> manager \<Rightarrow> bool \<Rightarrow> int \<Rightarrow> raw_node" where
  "registryPayload rc m draining now =
    \<lparr>rn_nodeId = Some (rg_nodeId rc), rn_advertiseUrl = Some (rg_advertiseUrl rc), rn_region = Some (rg_region rc),
     rn_rooms = Some (real (roomCount m)), rn_players = Some (real (totalPlayers m)), rn_maxRooms = Some (real (nc_maxRooms (rg_node rc))),
     rn_saturation = Some (saturation (rg_node rc) m), rn_updatedAt = Some (real_of_int now), rn_draining = draining\<rparr>"

definition sadd :: "string \<Rightarrow> cluster_db \<Rightarrow> cluster_db" where
  "sadd i db = db\<lparr>cl_nodes := (if i \<in> set (cl_nodes db) then cl_nodes db else cl_nodes db @ [i])\<rparr>"

definition srem :: "string \<Rightarrow> cluster_db \<Rightarrow> cluster_db" where
  "srem i db = db\<lparr>cl_nodes := filter (\<lambda>j. j \<noteq> i) (cl_nodes db)\<rparr>"

text \<open>Registering and every beat of the heart do the same.\<close>

definition registerNode :: "registry_config \<Rightarrow> manager \<Rightarrow> bool \<Rightarrow> int \<Rightarrow> cluster_db \<Rightarrow> cluster_db" where
  "registerNode rc m draining now db =
    put (nodeHeartbeat (rg_nodeId rc)) (NodePayload (NodeObject (registryPayload rc m draining now))) (now + rg_ttlSeconds rc * 1000)
      (sadd (rg_nodeId rc) db)"

definition beat :: "registry_config \<Rightarrow> manager \<Rightarrow> bool \<Rightarrow> int \<Rightarrow> cluster_db \<Rightarrow> cluster_db" where
  "beat rc m draining now db = registerNode rc m draining now db"

definition heartbeatIntervalMs :: "registry_config \<Rightarrow> real" where
  "heartbeatIntervalMs rc = max 1000 (real_of_int (rg_ttlSeconds rc * 1000) / 3)"

definition markDraining :: "registry_config \<Rightarrow> manager \<Rightarrow> int \<Rightarrow> cluster_db \<Rightarrow> cluster_db" where
  "markDraining rc m now db =
    put (nodeHeartbeat (rg_nodeId rc)) (NodePayload (NodeObject (registryPayload rc m True now))) (now + 60 * 1000) db"

definition deregister :: "registry_config \<Rightarrow> cluster_db \<Rightarrow> cluster_db" where
  "deregister rc db = del (nodeHeartbeat (rg_nodeId rc)) (srem (rg_nodeId rc) db)"

text \<open>The drain: first out of the registry, then the sockets are told, then the rooms empty.\<close>

definition drainSequence :: "registry_config \<Rightarrow> int \<Rightarrow> arena \<times> cluster_db \<Rightarrow> outgoing list \<times> arena \<times> cluster_db" where
  "drainSequence rc now s =
    (let db = deregister rc (markDraining rc (ar_manager (fst s)) now (snd s)); (notices, ar) = drainNode (fst s) in (notices, ar, db))"

section \<open>Histories of a fleet\<close>

text \<open>Every command of Redis that a beat, a drain or a departure sends lands with it. A load reads the payloads of the ids that its
  read of the index gave it, earlier; the removal it sends lands on its own.\<close>

datatype fleet_op =
    Beats registry_config manager int
  | NodeDrains registry_config manager int
  | Deregisters registry_config
  | Loads "string list" int
  | RemovalLands nat

fun fleet_step :: "fleet_op \<Rightarrow> cluster_db \<Rightarrow> cluster_db" where
  "fleet_step (Beats rc m now) db = beat rc m False now db"
| "fleet_step (NodeDrains rc m now) db = markDraining rc m now db"
| "fleet_step (Deregisters rc) db = deregister rc db"
| "fleet_step (Loads ids now) db = snd (loadFrom ids now db)"
| "fleet_step (RemovalLands n) db = removalLands n db"

definition run_fleet :: "fleet_op list \<Rightarrow> cluster_db \<Rightarrow> cluster_db" where
  "run_fleet ops db = fold fleet_step ops db"

text \<open>What is known of a node by what it did last: its last beat, unless it has begun to drain or has gone.\<close>

fun last_beat :: "string \<Rightarrow> fleet_op \<Rightarrow> (registry_config \<times> manager \<times> int) option \<Rightarrow> (registry_config \<times> manager \<times> int) option" where
  "last_beat i (Beats rc m now) b = (if rg_nodeId rc = i then Some (rc, m, now) else b)"
| "last_beat i (NodeDrains rc m now) b = (if rg_nodeId rc = i then None else b)"
| "last_beat i (Deregisters rc) b = (if rg_nodeId rc = i then None else b)"
| "last_beat i (Loads ids now) b = b"
| "last_beat i (RemovalLands n) b = b"

definition known :: "string \<Rightarrow> fleet_op list \<Rightarrow> (registry_config \<times> manager \<times> int) option" where
  "known i ops = fold (last_beat i) ops None"

text \<open>A node is lost from the index when a removal that names it lands after its last beat.\<close>

fun removes :: "string \<Rightarrow> fleet_op \<Rightarrow> cluster_db \<Rightarrow> bool" where
  "removes i (RemovalLands n) db = (n < length (cl_removals db) \<and> i \<in> set (cl_removals db ! n))"
| "removes i _ db = False"

fun beats :: "string \<Rightarrow> fleet_op \<Rightarrow> bool" where
  "beats i (Beats rc m now) = (rg_nodeId rc = i)"
| "beats i _ = False"

fun lost :: "string \<Rightarrow> fleet_op list \<Rightarrow> cluster_db \<Rightarrow> bool \<Rightarrow> bool" where
  "lost i [] db l = l"
| "lost i (op # ops) db l = lost i ops (fleet_step op db) (\<not> beats i op \<and> (l \<or> removes i op db))"

definition fits_now :: "int \<Rightarrow> (registry_config \<times> manager \<times> int) option \<Rightarrow> bool" where
  "fits_now now b = (case b of None \<Rightarrow> False | Some (rc, m, t) \<Rightarrow> now < t + rg_ttlSeconds rc * 1000 \<and> roomCount m < nc_maxRooms (rg_node rc))"

fun op_time :: "fleet_op \<Rightarrow> int option" where
  "op_time (Beats rc m now) = Some now"
| "op_time (NodeDrains rc m now) = Some now"
| "op_time (Deregisters rc) = None"
| "op_time (Loads ids now) = Some now"
| "op_time (RemovalLands n) = None"

fun op_valid :: "int \<Rightarrow> fleet_op \<Rightarrow> bool" where
  "op_valid ttl (Beats rc m now) = (rg_ttlSeconds rc = ttl \<and> rg_nodeId rc \<noteq> '''')"
| "op_valid ttl (NodeDrains rc m now) = (rg_nodeId rc \<noteq> '''')"
| "op_valid ttl _ = True"

section \<open>The registry tells the truth\<close>

lemma heartbeat_inj [simp]: "nodeHeartbeat i = nodeHeartbeat j \<longleftrightarrow> i = j"
  by (simp add: nodeHeartbeat_def)

text \<open>A node that has beaten is published, and indexed unless it is lost; one that has not may only be published as draining.\<close>

fun told :: "int \<Rightarrow> bool \<Rightarrow> cluster_db \<Rightarrow> string \<Rightarrow> (registry_config \<times> manager \<times> int) option \<Rightarrow> bool" where
  "told ttl l db i (Some (rc, m, t)) = (rg_nodeId rc = i \<and> i \<noteq> '''' \<and> rg_ttlSeconds rc = ttl \<and>
     cl_keys db (nodeHeartbeat i) = Some (NodePayload (NodeObject (registryPayload rc m False t)), t + ttl * 1000) \<and>
     (l \<or> i \<in> set (cl_nodes db)))"
| "told ttl l db i None = (case cl_keys db (nodeHeartbeat i) of None \<Rightarrow> True
     | Some (v, e) \<Rightarrow> \<exists>rc m t. v = NodePayload (NodeObject (registryPayload rc m True t)) \<and> rg_nodeId rc \<noteq> '''')"

lemma parse_payload: "rg_nodeId rc \<noteq> '''' \<Longrightarrow> parseNodePayload (Some (NodeObject (registryPayload rc m d t))) =
    Some \<lparr>cd_nodeId = rg_nodeId rc, cd_advertiseUrl = rg_advertiseUrl rc, cd_region = rg_region rc, cd_rooms = real (roomCount m),
      cd_players = real (totalPlayers m), cd_maxRooms = real (nc_maxRooms (rg_node rc)), cd_saturation = saturation (rg_node rc) m,
      cd_updatedAt = real_of_int t, cd_draining = d\<rparr>"
  by (simp add: parseNodePayload_def registryPayload_def)

lemma told_other:
  assumes "told ttl l db i b" and "cl_keys db' (nodeHeartbeat i) = cl_keys db (nodeHeartbeat i)" and "l \<Longrightarrow> l'"
    and "i \<in> set (cl_nodes db) \<Longrightarrow> l' \<or> i \<in> set (cl_nodes db')"
  shows "told ttl l' db' i b"
  using assms by (cases "(ttl, l, db, i, b)" rule: told.cases) auto

lemma told_step:
  assumes "told ttl l db i b" and "op_valid ttl op"
  shows "told ttl (\<not> beats i op \<and> (l \<or> removes i op db)) (fleet_step op db) i (last_beat i op b)"
proof (cases op)
  case (Beats rc m s)
  show ?thesis
  proof (cases "rg_nodeId rc = i")
    case True
    then show ?thesis using assms(2) by (simp add: Beats beat_def registerNode_def put_def sadd_def)
  next
    case False
    then show ?thesis using told_other [OF assms(1), of "fleet_step op db" l]
      by (simp add: Beats beat_def registerNode_def put_def sadd_def)
  qed
next
  case (NodeDrains rc m s)
  show ?thesis
  proof (cases "rg_nodeId rc = i")
    case True
    then show ?thesis using assms(2) by (auto simp: NodeDrains markDraining_def put_def)
  next
    case False
    then show ?thesis using told_other [OF assms(1), of "fleet_step op db" l] by (simp add: NodeDrains markDraining_def put_def)
  qed
next
  case (Deregisters rc)
  show ?thesis
  proof (cases "rg_nodeId rc = i")
    case True
    then show ?thesis by (simp add: Deregisters deregister_def del_def)
  next
    case False
    then show ?thesis using told_other [OF assms(1), of "fleet_step op db" l] by (simp add: Deregisters deregister_def del_def srem_def)
  qed
next
  case (Loads ids s)
  then show ?thesis using told_other [OF assms(1), of "fleet_step op db" l] by (simp add: loadFrom_def Let_def)
next
  case (RemovalLands n)
  then show ?thesis using told_other [OF assms(1), of "fleet_step op db" "l \<or> removes i op db"] by (auto simp: removalLands_def)
qed

lemma told_run:
  "told ttl l db i b \<Longrightarrow> list_all (op_valid ttl) ops \<Longrightarrow>
    told ttl (lost i ops db l) (run_fleet ops db) i (fold (last_beat i) ops b)"
proof (induction ops arbitrary: l db b)
  case Nil
  then show ?case by (simp add: run_fleet_def)
next
  case (Cons op ops)
  from Cons.IH [OF told_step [OF Cons.prems(1), of op]] Cons.prems(2) show ?case by (simp add: run_fleet_def)
qed

section \<open>Who can be given a match\<close>

lemma loaded_iff: "n \<in> set (fst (loadFrom ids now db)) \<longleftrightarrow> (\<exists>i \<in> set ids. parseNodePayload (nodePayload now db i) = Some n)"
proof -
  have "set (List.map_filter snd (map (\<lambda>i. (i, f i)) xs)) = {n. \<exists>i \<in> set xs. f i = Some n}" for f :: "string \<Rightarrow> node_candidate option" and xs
    by (induction xs) (auto simp: List.map_filter_simps split: option.splits)
  then show ?thesis by (simp add: loadFrom_def Let_def)
qed

lemma told_healthy:
  assumes t: "told ttl l db i b"
  shows "(\<exists>n. parseNodePayload (nodePayload now db i) = Some n \<and> filterHealthy (ttl * 1000) now [n] = [n]) \<longleftrightarrow> fits_now now b"
    and "parseNodePayload (nodePayload now db i) = Some n \<Longrightarrow> filterHealthy (ttl * 1000) now [n] = [n] \<Longrightarrow> cd_nodeId n = i"
proof -
  have "((\<exists>n. parseNodePayload (nodePayload now db i) = Some n \<and> filterHealthy (ttl * 1000) now [n] = [n]) \<longleftrightarrow> fits_now now b) \<and>
      (\<forall>n. parseNodePayload (nodePayload now db i) = Some n \<and> filterHealthy (ttl * 1000) now [n] = [n] \<longrightarrow> cd_nodeId n = i)"
  proof (cases b)
    case None
    then have "\<not> (parseNodePayload (nodePayload now db i) = Some n \<and> filterHealthy (ttl * 1000) now [n] = [n])" for n
      using t parse_payload by (auto simp: nodePayload_def live_def filterHealthy_def parseNodePayload_def split: option.splits if_splits prod.splits)
    moreover have "\<not> fits_now now b" using None by (simp add: fits_now_def)
    ultimately show ?thesis by blast
  next
    case (Some x)
    obtain rc m s where x: "x = (rc, m, s)" by (cases x)
    have p: "cl_keys db (nodeHeartbeat i) = Some (NodePayload (NodeObject (registryPayload rc m False s)), s + ttl * 1000)" "rg_nodeId rc = i" "i \<noteq> ''''"
      "rg_ttlSeconds rc = ttl"
      using t Some x by auto
    have "parseNodePayload (nodePayload now db i) = (if now < s + ttl * 1000 then parseNodePayload (Some (NodeObject (registryPayload rc m False s))) else None)"
      using p(1) by (simp add: nodePayload_def live_def parseNodePayload_def)
    moreover have "rg_nodeId rc \<noteq> ''''" using p(2,3) by simp
    ultimately show ?thesis using p(2,4) by (auto simp: Some x fits_now_def parse_payload filterHealthy_def)
  qed
  then show "(\<exists>n. parseNodePayload (nodePayload now db i) = Some n \<and> filterHealthy (ttl * 1000) now [n] = [n]) \<longleftrightarrow> fits_now now b"
    "parseNodePayload (nodePayload now db i) = Some n \<Longrightarrow> filterHealthy (ttl * 1000) now [n] = [n] \<Longrightarrow> cd_nodeId n = i" by blast+
qed

text \<open>C12: The registry is current: take any history of nodes that register, beat, drain and leave and of requests that load the
  registry, each removal of dead ids landing whenever it does, or never, and let a request read the index after the part \<open>before\<close> of it
  and the payloads at the end. The nodes it may place a match on are only nodes whose last act was a beat that has not run out and had
  room for one more; and they are all of these, save a node that had not announced itself when the index was read, or that a removal
  landing after its last beat had taken out of the index, until it beats again.\<close>

theorem registry_is_current:
  assumes "list_all (op_valid ttl) (before @ between)" and "\<forall>i. cl_keys db (nodeHeartbeat i) = None"
    and "placeable = cd_nodeId ` set (filterHealthy (ttl * 1000) now
           (fst (loadFrom (cl_nodes (run_fleet before db)) now (run_fleet (before @ between) db))))"
  shows "placeable \<subseteq> {i. fits_now now (known i (before @ between))} \<and>
    {i. fits_now now (known i (before @ between)) \<and> known i before \<noteq> None \<and> \<not> lost i before db False} \<subseteq> placeable"
proof -
  let ?db = "run_fleet (before @ between) db"
  have start: "told ttl False db i None" for i using assms(2) by simp
  from told_run [OF start assms(1)] have told: "told ttl (lost i (before @ between) db False) ?db i (known i (before @ between))" for i
    by (simp add: known_def)
  have "told ttl (lost i before db False) (run_fleet before db) i (known i before)" for i
    using told_run [OF start, of before] assms(1) by (simp add: known_def)
  then have indexed: "i \<in> set (cl_nodes (run_fleet before db))" if "known i before \<noteq> None" "\<not> lost i before db False" for i
    using that by (metis not_None_eq prod_cases3 told.simps(1))
  have each: "n \<in> set (filterHealthy (ttl * 1000) now ns) \<longleftrightarrow> n \<in> set ns \<and> filterHealthy (ttl * 1000) now [n] = [n]" for n ns
    by (auto simp: filterHealthy_def)
  show ?thesis
  proof (intro conjI subsetI)
    fix i assume "i \<in> placeable"
    then obtain n j where n: "cd_nodeId n = i" "filterHealthy (ttl * 1000) now [n] = [n]" "parseNodePayload (nodePayload now ?db j) = Some n"
      unfolding assms(3) using each loaded_iff by blast
    have "j = i" using told_healthy(2) [OF told n(3,2)] n(1) by simp
    with n told_healthy(1) [OF told [of i], of now] show "i \<in> {i. fits_now now (known i (before @ between))}" by blast
  next
    fix i assume i: "i \<in> {i. fits_now now (known i (before @ between)) \<and> known i before \<noteq> None \<and> \<not> lost i before db False}"
    then obtain n where n: "parseNodePayload (nodePayload now ?db i) = Some n" "filterHealthy (ttl * 1000) now [n] = [n]"
      using told_healthy(1) [OF told [of i], of now] by blast
    have "cd_nodeId n = i" using told_healthy(2) [OF told n] .
    with n i each loaded_iff indexed show "i \<in> placeable" unfolding assms(3) by blast
  qed
qed

definition fleet_node :: "string \<Rightarrow> registry_config" where
  "fleet_node i = \<lparr>rg_nodeId = i, rg_advertiseUrl = ''wss://'' @ i, rg_region = ''us-east'', rg_ttlSeconds = 15,
     rg_node = \<lparr>nc_nodeId = i, nc_tickRateHz = 30, nc_ticksPerSnapshot = 2, nc_reconnectGraceSeconds = 15, nc_cellSize = 200,
       nc_maxRooms = 2, nc_maxPlayersPerRoom = 2\<rparr>\<rparr>"

text \<open>Of four nodes one goes silent and one drains; the third is taken out of the index by a twin of its own and comes back with its
  next beat; the fourth has beaten once more but a straggling removal has taken it out since.\<close>

definition fleet_day :: "fleet_op list" where
  "fleet_day = [Beats (fleet_node ''a'') new_manager 1000, Beats (fleet_node ''b'') new_manager 2000, Beats (fleet_node ''c'') new_manager 3000,
      Beats (fleet_node ''d'') new_manager 3000, Deregisters (fleet_node ''c''), Beats (fleet_node ''c'') new_manager 17000,
      NodeDrains (fleet_node ''b'') new_manager 18000, Loads [''c'', ''d''] 18500]"

text \<open>The finding: a load that found a node dead may take it out of the index after the node has come back, and until the node beats
  again no match is placed on it.\<close>

lemma straggling_removal_hides_node:
  "cd_nodeId ` set (filterHealthy 15000 20000 (fst (loadNodes 20000
     (run_fleet (fleet_day @ [Beats (fleet_node ''d'') new_manager 19000]) empty_db)))) = {''c'', ''d''} \<and>
   cd_nodeId ` set (filterHealthy 15000 20000 (fst (loadNodes 20000
     (run_fleet (fleet_day @ [Beats (fleet_node ''d'') new_manager 19000, RemovalLands 0]) empty_db)))) = {''c''}"
  by (simp add: fleet_day_def run_fleet_def fleet_node_def empty_db_def beat_def registerNode_def put_def sadd_def deregister_def del_def srem_def
      markDraining_def loadFrom_def loadNodes_def Let_def nodePayload_def live_def parseNodePayload_def registryPayload_def removalLands_def
      filterHealthy_def roomCount_def new_manager_def List.map_filter_simps totalPlayers_def saturation_def insert_commute)

lemma registry_is_current_witness:
  "\<exists>placeable. placeable = cd_nodeId ` set (filterHealthy 15000 21000 (fst (loadFrom (cl_nodes (run_fleet fleet_day empty_db)) 21000
       (run_fleet (fleet_day @ [Beats (fleet_node ''e'') new_manager 19000]) empty_db)))) \<and>
     ''c'' \<in> placeable \<and> ''a'' \<notin> placeable \<and> ''b'' \<notin> placeable"
proof -
  let ?more = "[Beats (fleet_node ''e'') new_manager 19000]"
  let ?placeable = "cd_nodeId ` set (filterHealthy (15 * 1000) 21000 (fst (loadFrom (cl_nodes (run_fleet fleet_day empty_db)) 21000
     (run_fleet (fleet_day @ ?more) empty_db))))"
  have "?placeable \<subseteq> {i. fits_now 21000 (known i (fleet_day @ ?more))} \<and>
      {i. fits_now 21000 (known i (fleet_day @ ?more)) \<and> known i fleet_day \<noteq> None \<and> \<not> lost i fleet_day empty_db False} \<subseteq> ?placeable"
    by (rule registry_is_current [OF _ _ refl]) (simp_all add: fleet_day_def fleet_node_def empty_db_def)
  moreover have "{i. fits_now 21000 (known i (fleet_day @ ?more))} = {''c'', ''e''}"
    by (auto simp: fleet_day_def known_def fleet_node_def fits_now_def roomCount_def new_manager_def split: if_splits)
  moreover have "''c'' \<in> {i. fits_now 21000 (known i (fleet_day @ ?more)) \<and> known i fleet_day \<noteq> None \<and> \<not> lost i fleet_day empty_db False}"
    by (simp add: fleet_day_def known_def fleet_node_def fits_now_def roomCount_def new_manager_def)
  ultimately have "''c'' \<in> ?placeable" "?placeable \<subseteq> {''c'', ''e''}" by blast+
  then show ?thesis by (intro exI [of _ ?placeable]) auto
qed

end
