(* ===== verification/Spec2Isabelle.thy ===== *)
theory Spec2Isabelle
  imports Lobby_Properties Lobby_Equivalence Settle Reconciler Auth_Routes Circuit_Breaker Rpc_Retry Cycle_Loops Binary_Properties
    Room_Handoff Anti_Cheat_Properties Lobby_Routes Reconnection Node_Registry
begin

text \<open>
  \<^bold>\<open>A model of the arena's services.\<close> The repository is an arena game played for money on Solana: a
  gateway (sign-in, deposits, withdrawals, the ledger), a matchmaker (lobbies), realtime servers (the
  matches), a worker (settlement) and the packages they share. Modelled here is what decides who owns
  what and who may act: lobbies and their launch, the money from deposit to payout, sessions, and the
  client of the chain. Every function takes its state and returns it updated; a raised error is a value
  \<open>Inl\<close>; an operation that commits part of its work before it raises returns both the error and the
  state it leaves (type \<open>io\<close>), one in a database transaction only the error.

  \<^bold>\<open>Shared.\<close> \<open>Prelude\<close>: association lists and row updates, the result types, division rounding to zero.
  \<open>Text_Format\<close>: lines, decimal numbers, dates. \<open>Db\<close>: the tables of \<open>packages/db/prisma/schema.prisma\<close>
  the money is kept in, with their unique keys. \<open>Tiers\<close>: the rooms of \<open>packages/protocol/src/tiers.ts\<close>.

  \<^bold>\<open>Lobbies\<close> (\<open>packages/lobby/src\<close>). \<open>Lobby\<close> is the pure reducer of \<open>state.ts\<close> (\<open>reduceLobby\<close>, \<open>settle\<close>);
  \<open>Lobby_Properties\<close> shows that rosters stay well formed, that a launch happens only when it is due, with
  players who have paid, that the countdown ends and the deadline moves only closer. \<open>Lobby_Store\<close> has the
  two stores behind one interface (\<open>store.ts\<close>, \<open>redis-store.ts\<close> with its compare-and-set script), stated
  as a locale and interpreted on both; \<open>Lobby_Service\<close> the optimistic loop and every public method of
  \<open>service.ts\<close>, with what other replicas write between load and save as an argument;
  \<open>Lobby_Equivalence\<close> that the in-memory store stands in for Redis while nothing expires.

  \<^bold>\<open>Money.\<close> \<open>Ledger\<close> is double-entry posting (\<open>apps/gateway/src/services/ledger.ts\<close>); \<open>Stake\<close> and \<open>Refund\<close>
  are entry fees and cancellation (\<open>packages/db/src/stake.ts\<close>, \<open>refund.ts\<close>); \<open>Custody_Chain\<close> reads balance
  changes off a transaction (\<open>packages/solana/src/verify-custody.ts\<close>, \<open>tx/parse.ts\<close>); \<open>Deposit\<close> and
  \<open>Withdrawal\<close> are the cashier services; \<open>Payout\<close> and \<open>Settle\<close> verify a reported result, divide the pot and
  settle the match (\<open>apps/worker/src/settlement\<close>); \<open>Reconciler\<close> is the pass that retries. \<open>Money_Effects\<close>
  holds what their proofs share: how an operation moves balances, reservations and rows. The lemmas show
  that accounts stay covered and the books balanced, that a deposit is credited once, a withdrawal posts
  what the chain moved, a stake returns on cancellation, a match is settled once and pays the pot out.

  \<^bold>\<open>Match cycle\<close> (\<open>apps/worker/src/cycle\<close>). \<open>Cycle_Plan\<close> is the plan of the seven stages with its timing and
  job ids (\<open>plan.ts\<close>, \<open>queue.ts\<close>); the queue itself is an argument that drops a job whose id it knows.
  \<open>Cycle_Stages\<close> has the stages (\<open>stages.ts\<close>), with the calls to the chain recorded in order; \<open>Cycle_Worker\<close>
  the job loop, its refund on the last failure and the system of workers as a step relation (\<open>worker.ts\<close>);
  \<open>Cycle_Properties\<close> shows that jobs follow the plan and every match is closed in the books, \<open>Cycle_Loops\<close> models the
  passes over finished matches and waiting rooms (\<open>settle-finished.ts\<close>, \<open>ensure-rooms.ts\<close>) and shows that
  nothing the worker does unbalances the books.

  \<^bold>\<open>Sessions.\<close> \<open>Auth_Message\<close> is the message a wallet signs with its parser and the signature check
  (\<open>packages/solana/src/auth\<close>); \<open>Auth\<close> the service and the guard of every request
  (\<open>apps/gateway/src/services/auth.service.ts\<close>, \<open>plugins/auth.ts\<close>); \<open>Auth_Histories\<close> runs of requests at
  increasing or arbitrary times, with the invariant of the table of refresh tokens; \<open>Auth_Properties\<close>
  what sign-in, rotation, reuse detection and revocation guarantee over runs; \<open>Auth_Routes\<close> the routes
  and their lockout (\<open>routes/auth.routes.ts\<close>).

  \<^bold>\<open>Calls to the chain\<close> (\<open>packages/solana/src\<close>). \<open>Rpc_Errors\<close> classifies failures (\<open>errors.ts\<close>),
  \<open>Circuit_Breaker\<close> is \<open>tx/circuit-breaker.ts\<close> with calls that overlap as events, \<open>Rpc_Retry\<close> is backoff,
  retry, failover and confirmation (\<open>tx/retry.ts\<close>, \<open>connection.ts\<close>, \<open>tx/confirm.ts\<close>).

  \<^bold>\<open>The wire\<close> (\<open>packages/protocol/src/binary.ts\<close>). \<open>Bytes\<close> are buffers and cursors, with the contract of an
  item that is written and read as a locale; \<open>Utf8\<close> is the platform's text encoding; \<open>Binary_Codec\<close> the codec of
  snapshots and inputs; \<open>Binary_Properties\<close> shows that a snapshot fits its buffer and is read back up to the
  precision of the wire, and that no packet of a client makes the server read outside it.

  \<^bold>\<open>The arena\<close> (\<open>packages/game-core/src\<close>). \<open>Spatial_Hash\<close> is the grid (\<open>spatial-hash.ts\<close>) and what it means that it
  indexes a table of places; \<open>Simulation\<close> the world, its operations and the tick (\<open>simulation.ts\<close>);
  \<open>Simulation_Properties\<close> the invariant of every world that can be reached; \<open>Simulation_Motion\<close> the limits of one
  tick; \<open>Simulation_Contacts\<close> that the grid changes nothing about eating, and nothing about dying while no snake
  is wider than the margin of the query, with an example beyond it.

  \<^bold>\<open>Matches\<close> (\<open>apps/realtime/src/rooms\<close>). \<open>Room\<close> is one match on a node: seats, eliminations, the tick, what each viewer
  is sent, the standings (\<open>room.ts\<close>, \<open>aoi.ts\<close>); \<open>Room_Properties\<close> its invariant, \<open>Room_Standings\<close> that the standings pass
  settlement and that whoever is out first stays behind; \<open>Room_Manager\<close> the rooms of a node with the loop and the
  writes of results under way (\<open>room-manager.ts\<close>), \<open>Room_Handoff\<close> that a result is handed over, and once.

  \<^bold>\<open>Hostile clients\<close> (\<open>apps/realtime/src/anticheat\<close>, \<open>io/middleware\<close>). \<open>Anti_Cheat\<close> has the validation of inputs, the
  budgets of events and connections, the cleaning of chat and the check of movement; its three token buckets are one
  locale, with the bound on what they let through. \<open>Anti_Cheat_Properties\<close> shows that inputs are limited, that
  sweeping idle buckets is never noticed, that chat is clean and that an honest server passes the check of movement.

  \<^bold>\<open>Getting into a match\<close> (\<open>apps/matchmaker/src\<close>). \<open>Ticket\<close> mints and verifies the signed tickets (\<open>placement/ticket.ts\<close>,
  and the node's copy in \<open>apps/realtime/src/io/middleware/authenticate.ts\<close>); \<open>Placement\<close> is the registry of nodes and the
  choice among them (\<open>placement/registry.ts\<close>, \<open>strategy.ts\<close>) over one map that stands for Redis; \<open>Matchmaker\<close> stages the
  tickets of a launch (\<open>plugins/lobbies.ts\<close>) and answers requests for a match (\<open>routes/match.routes.ts\<close>), the race for the
  open world of a tier one Redis command per step; \<open>Handshake\<close> admits connections (\<open>authenticate.ts\<close>) and runs launches,
  requests and handshakes over one Redis, \<open>Handshake_Histories\<close> shows which sessions can come of it, \<open>Handshake_Examples\<close>
  has the sample cluster; \<open>Lobby_Routes\<close> is \<open>routes/lobby.routes.ts\<close> with what it asks the gateway
  (\<open>services/stake-client.ts\<close>) and shows that a paid room launches only with players the gateway has confirmed, as long as
  it keeps its game; the check of a payment and the setting of the flag are steps of their own.

  \<^bold>\<open>Sockets\<close> (\<open>apps/realtime/src/io/handlers/connection.ts\<close>, \<open>cluster\<close>). \<open>Connection\<close> has every handler of a
  connection over the rooms and guards of a node; \<open>Connection_Properties\<close> shows that a node is never overfilled,
  \<open>Connection_Safety\<close> that who sits in a room was invited to it and that a socket acts for its own player only,
  \<open>Reconnection\<close> that a dropped connection keeps its seat, and how inputs go wrong after it. \<open>Node_Registry\<close> is
  what a node publishes of itself (\<open>node-registry.ts\<close>, \<open>drain.ts\<close>), and how current the matchmaker's view of it is, with the
  removals from the index that the matchmaker sends without waiting as steps of their own.

  \<^bold>\<open>Numbers and text.\<close> Amounts are \<open>bigint\<close> in the code and \<open>int\<close> here; times are milliseconds as \<open>int\<close>;
  fractions (backoff, what the wire carries) are rationals (\<open>Numbers\<close>), the geometry of the arena real numbers, both without
  the rounding of floating point. Strings are lists of
  characters (nicknames on the wire: of UTF-16 code units); JSON is a payload that decodes or does not.

  \<^bold>\<open>Parameters.\<close> What is not in the repository is an argument: the chain and its confirmation, the digest,
  base58 and ed25519, the token library, the keyed hash and the JSON text of tickets, the gateway's answers to the
  matchmaker, random draws, the clock, and what other requests commit between
  two database calls. Laws asked of them (that draws and digests do not repeat, that a token verifies to
  one set of claims until it expires) are hypotheses of the properties that use them.

  \<^bold>\<open>Interleaving.\<close> What happens between the steps of an operation is part of the model where a property turns on it: other
  writers between load and save of a lobby event, what commits between the database calls of a deposit or a withdrawal, between the
  read and the write of a released reservation (\<open>releaseAround\<close>), between the check of a payment and the ready flag
  (\<open>checkReady\<close>, \<open>landReady\<close>), between the Redis commands of entrants to a tier, and before a removal from the index of nodes
  lands (\<open>cl_removals\<close>). Whether the reconnect note is written is an argument (\<open>mc_noteLands\<close>). One step are: the commands of a
  launch after its event is saved (\<open>performLaunch\<close>), the tokens and the row of a session (\<open>issueSession\<close>), one beat of a node,
  one request for a match in a history of requests. A write of a result that is reported as failed has not landed
  (\<open>publicationDone\<close>). The clock of the lobby's Redis stands still (\<open>r_now\<close>), so its index of players does not expire. A step
  of the match cycle notes the games the table holds after it (\<open>cs_games\<close>) for the proofs only. That a match is closed
  (\<open>match_closed\<close>) is what its row and the ledger say, not that its vault is empty.

  \<^bold>\<open>Bounds and fuel.\<close> The compare-and-set loop and the retries are bounded in the code. The confirmation
  loop of \<open>sendAndConfirm\<close> is not: \<open>pollLoop\<close> takes fuel, and \<open>confirmation_ends\<close> gives the fuel that always
  suffices when the clock moves on by what is slept: the timeout divided by the poll interval, and two.

  \<^bold>\<open>Not modelled.\<close> The rounding of floating point, the socket library, the
  gateway's queries, the operators' routes, the web client, request schemas, start-up, configuration and logging, and the program on the chain.
\<close>

end
